(* ===== verification/Prelude.thy ===== *)
theory Prelude
  imports Complex_Main "HOL-Library.AList"
begin

text \<open>
  Shared vocabulary of the development.

  \<^item> results: a TypeScript function that may throw returns \<open>'e + 'a\<close>, \<open>Inl\<close> the
    error thrown and \<open>Inr\<close> the value;
  \<^item> the clock: \<open>Date.now()\<close> is an argument of every operation that reads it, an \<open>int\<close>
    in milliseconds;
  \<^item> \<open>Map\<close>: an insertion-ordered JavaScript \<open>Map\<close> is an association list; \<open>set\<close>
    replaces in place or appends, as the ECMAScript \<open>Map\<close> does;
  \<^item> strings: the few \<open>String\<close> operations the source uses (\<open>includes\<close>,
    \<open>startsWith\<close>, \<open>toLowerCase\<close>, \<open>split\<close>, \<open>parseInt\<close>, number printing).
\<close>

named_theorems jsmap_simps "lookup, size and key laws of the JavaScript Map operations"
named_theorems jsstr_simps "equations of the JavaScript string operations"

section \<open>Results\<close>

type_synonym ('e, 'a) res = "'e + 'a"

fun res_ok :: "('e, 'a) res \<Rightarrow> bool" where
  "res_ok (Inl e) = False"
| "res_ok (Inr a) = True"

lemma res_ok_iff: "res_ok r \<longleftrightarrow> (\<exists>a. r = Inr a)"
  by (cases r) auto

section \<open>Insertion-ordered maps\<close>

type_synonym ('k, 'v) jsmap = "('k \<times> 'v) list"

abbreviation jm_get :: "('k, 'v) jsmap \<Rightarrow> 'k \<Rightarrow> 'v option" where
  "jm_get m k \<equiv> map_of m k"

definition jm_has :: "('k, 'v) jsmap \<Rightarrow> 'k \<Rightarrow> bool" where
  "jm_has m k \<longleftrightarrow> map_of m k \<noteq> None"

definition jm_set :: "('k, 'v) jsmap \<Rightarrow> 'k \<Rightarrow> 'v \<Rightarrow> ('k, 'v) jsmap" where
  "jm_set m k v = AList.update k v m"

definition jm_delete :: "('k, 'v) jsmap \<Rightarrow> 'k \<Rightarrow> ('k, 'v) jsmap" where
  "jm_delete m k = AList.delete k m"

text \<open>The representation invariant of a \<open>Map\<close>: no key occurs twice.\<close>

definition jm_wf :: "('k, 'v) jsmap \<Rightarrow> bool" where
  "jm_wf m \<longleftrightarrow> distinct (map fst m)"

lemma jm_get_set [simp, jsmap_simps]: "jm_get (jm_set m k v) k' = (if k' = k then Some v else jm_get m k')"
  by (simp add: jm_set_def update_conv')

lemma jm_get_delete [simp, jsmap_simps]: "jm_get (jm_delete m k) k' = (if k' = k then None else jm_get m k')"
  by (simp add: jm_delete_def delete_conv')

lemma jm_wf_Nil [simp, intro]: "jm_wf []"
  by (simp add: jm_wf_def)

lemma jm_wf_set [simp, intro]: "jm_wf m \<Longrightarrow> jm_wf (jm_set m k v)"
  by (simp add: jm_wf_def jm_set_def distinct_update)

lemma jm_wf_delete [simp, intro]: "jm_wf m \<Longrightarrow> jm_wf (jm_delete m k)"
  by (simp add: jm_wf_def jm_delete_def distinct_delete)

lemma jm_wf_filter [simp, intro]: "jm_wf m \<Longrightarrow> jm_wf (filter P m)"
  by (simp add: jm_wf_def distinct_map_filter)

lemma jm_keys_set [jsmap_simps]: "fst ` set (jm_set m k v) = insert k (fst ` set m)"
  by (simp add: jm_set_def dom_update)

lemma jm_keys_delete [jsmap_simps]: "fst ` set (jm_delete m k) = fst ` set m - {k}"
  by (auto simp: jm_delete_def AList.delete_eq)

lemma jm_size_set [jsmap_simps]:
  "length (jm_set m k v) = (if jm_has m k then length m else Suc (length m))"
  by (induction m) (auto simp: jm_set_def jm_has_def)

lemma jm_set_absent: "\<not> jm_has m k \<Longrightarrow> jm_set m k v = m @ [(k, v)]"
  by (induction m) (auto simp: jm_set_def jm_has_def)

lemma jm_delete_filter: "jm_delete m k = filter (\<lambda>p. fst p \<noteq> k) m"
  by (auto simp: jm_delete_def AList.delete_eq split_def intro: filter_cong)

lemma jm_has_iff: "jm_has m k \<longleftrightarrow> k \<in> fst ` set m"
  by (simp add: jm_has_def map_of_eq_None_iff)

lemma jm_size_delete_less:
  "jm_has m k \<Longrightarrow> length (jm_delete m k) < length m"
proof (induction m)
  case Nil
  then show ?case by (simp add: jm_has_def)
next
  case (Cons p m)
  then show ?case
    by (cases "fst p = k") (auto simp: jm_delete_def jm_has_def intro: le_imp_less_Suc length_delete_le)
qed

lemma jm_get_filter:
  "jm_wf m \<Longrightarrow> jm_get (filter (\<lambda>(k, v). P k v) m) k =
     (case jm_get m k of None \<Rightarrow> None | Some v \<Rightarrow> if P k v then Some v else None)"
proof (induction m)
  case Nil
  then show ?case by simp
next
  case (Cons p m)
  then have "jm_get m (fst p) = None" and "jm_wf m"
    by (auto simp: jm_wf_def map_of_eq_None_iff)
  then show ?case
    using Cons.IH by (cases p) (auto split: option.splits)
qed

lemma jm_get_mem: "jm_get m k = Some v \<Longrightarrow> (k, v) \<in> set m"
  by (rule map_of_SomeD)

lemma jm_get_rev: "jm_wf m \<Longrightarrow> jm_get (rev m) k = jm_get m k"
proof -
  assume "jm_wf m"
  then have "distinct (map fst m)" "distinct (map fst (rev m))"
    by (simp_all add: jm_wf_def rev_map [symmetric])
  then have "jm_get (rev m) k = Some v \<longleftrightarrow> jm_get m k = Some v" for v
    by (simp add: map_of_eq_Some_iff)
  then show ?thesis by (metis not_Some_eq)
qed

section \<open>Lists\<close>

text \<open>\<open>xs.slice(-n)\<close> for a positive \<open>n\<close>: the last \<open>n\<close> elements.\<close>

definition slice_last :: "nat \<Rightarrow> 'a list \<Rightarrow> 'a list" where
  "slice_last n xs = drop (length xs - n) xs"

lemma length_slice_last [simp]: "length (slice_last n xs) = min n (length xs)"
  by (auto simp: slice_last_def)

lemma set_slice_last: "set (slice_last n xs) \<subseteq> set xs"
  by (simp add: slice_last_def set_drop_subset)

text \<open>\<open>xs.slice(i, j)\<close> for non-negative bounds.\<close>

definition js_slice :: "nat \<Rightarrow> nat \<Rightarrow> 'a list \<Rightarrow> 'a list" where
  "js_slice i j xs = take (j - i) (drop i xs)"

text \<open>\<open>xs.findIndex(p)\<close>, with \<open>None\<close> for \<open>-1\<close>.\<close>

fun find_index :: "('a \<Rightarrow> bool) \<Rightarrow> 'a list \<Rightarrow> nat option" where
  "find_index p [] = None"
| "find_index p (x # xs) = (if p x then Some 0 else map_option Suc (find_index p xs))"

lemma find_index_None: "find_index p xs = None \<longleftrightarrow> (\<forall>x\<in>set xs. \<not> p x)"
  by (induction xs) auto

lemma find_index_Some:
  "find_index p xs = Some i \<Longrightarrow> i < length xs \<and> p (xs ! i) \<and> (\<forall>j<i. \<not> p (xs ! j))"
proof (induction xs arbitrary: i)
  case Nil
  then show ?case by simp
next
  case (Cons x xs)
  show ?case
  proof (cases "p x")
    case True
    with Cons.prems show ?thesis by simp
  next
    case False
    with Cons.prems obtain i' where i': "find_index p xs = Some i'" "i = Suc i'" by auto
    from Cons.IH [OF i'(1)] False i'(2) show ?thesis
      by (auto simp: nth_Cons split: nat.splits)
  qed
qed

text \<open>
  \<open>xs.splice(i, 1)\<close>: the list without its \<open>i\<close>-th element.
\<close>

definition remove_nth :: "nat \<Rightarrow> 'a list \<Rightarrow> 'a list" where
  "remove_nth i xs = take i xs @ drop (Suc i) xs"

lemma length_remove_nth [simp]: "i < length xs \<Longrightarrow> length (remove_nth i xs) = length xs - 1"
  by (simp add: remove_nth_def)

lemma set_remove_nth: "set (remove_nth i xs) \<subseteq> set xs"
  by (auto simp: remove_nth_def dest: in_set_takeD in_set_dropD)

lemma in_set_remove_nth: "x \<in> set (remove_nth i xs) \<Longrightarrow> x \<in> set xs"
  by (rule subsetD [OF set_remove_nth])

lemma remove_nth_split: "i < length xs \<Longrightarrow> \<exists>ys zs. xs = ys @ xs ! i # zs \<and> remove_nth i xs = ys @ zs"
  unfolding remove_nth_def using id_take_nth_drop [of i xs] by blast

text \<open>
  \<open>Array.prototype.sort\<close> is stable (ECMAScript 2019); sorting by a numeric key is the
  library's stable \<open>sort_key\<close>.
\<close>

lemma set_sort_key_eq [simp]: "set (sort_key f xs) = set xs"
  by (rule set_sort)

section \<open>Strings\<close>

fun starts_with :: "string \<Rightarrow> string \<Rightarrow> bool" where
  "starts_with s [] = True"
| "starts_with [] (c # cs) = False"
| "starts_with (d # ds) (c # cs) = (d = c \<and> starts_with ds cs)"

lemma starts_with_iff: "starts_with s p \<longleftrightarrow> (\<exists>t. s = p @ t)"
  by (induction s p rule: starts_with.induct) auto

fun str_includes :: "string \<Rightarrow> string \<Rightarrow> bool" where
  "str_includes [] p = (p = [])"
| "str_includes (c # cs) p = (starts_with (c # cs) p \<or> str_includes cs p)"

lemma str_includes_iff: "str_includes s p \<longleftrightarrow> (\<exists>u t. s = u @ p @ t)"
proof (induction s)
  case Nil
  then show ?case by auto
next
  case (Cons c cs)
  show ?case
  proof
    assume "str_includes (c # cs) p"
    then consider "starts_with (c # cs) p" | "str_includes cs p" by auto
    then show "\<exists>u t. c # cs = u @ p @ t"
    proof cases
      case 1
      then obtain t where "c # cs = [] @ p @ t" by (auto simp: starts_with_iff)
      then show ?thesis by blast
    next
      case 2
      then obtain u t where "c # cs = (c # u) @ p @ t" using Cons.IH by auto
      then show ?thesis by blast
    qed
  next
    assume "\<exists>u t. c # cs = u @ p @ t"
    then obtain u t where ut: "c # cs = u @ p @ t" by blast
    show "str_includes (c # cs) p"
    proof (cases u)
      case Nil
      with ut have "starts_with (c # cs) p" by (auto simp: starts_with_iff)
      then show ?thesis by simp
    next
      case (Cons d u')
      with ut have "cs = u' @ p @ t" by simp
      with Cons.IH show ?thesis by auto
    qed
  qed
qed

definition char_lower :: "char \<Rightarrow> char" where
  "char_lower c = (let n = (of_char c :: nat) in if 65 \<le> n \<and> n \<le> 90 then char_of (n + 32) else c)"

definition to_lower :: "string \<Rightarrow> string" where
  "to_lower s = map char_lower s"

definition char_upper :: "char \<Rightarrow> char" where
  "char_upper c = (let n = (of_char c :: nat) in if 97 \<le> n \<and> n \<le> 122 then char_of (n - 32) else c)"

definition to_upper :: "string \<Rightarrow> string" where
  "to_upper s = map char_upper s"

text \<open>\<open>s.split(c)\<close> for a one-character separator.\<close>

fun split_on :: "char \<Rightarrow> string \<Rightarrow> string list" where
  "split_on c [] = [[]]"
| "split_on c (d # ds) =
     (if d = c then [] # split_on c ds
      else (case split_on c ds of [] \<Rightarrow> [[d]] | p # ps \<Rightarrow> (d # p) # ps))"

lemma split_on_Nil [simp]: "split_on c s \<noteq> []"
  by (induction s) (auto split: list.splits)

lemma split_on_no_sep: "c \<notin> set s \<Longrightarrow> split_on c s = [s]"
  by (induction s) auto

lemma split_on_append: "c \<notin> set s \<Longrightarrow> split_on c (s @ c # t) = s # split_on c t"
  by (induction s) auto

text \<open>Decimal digits, printing of naturals, and \<open>parseInt(s, 10)\<close>.\<close>

definition digit_char :: "nat \<Rightarrow> char" where
  "digit_char d = char_of (48 + d)"

definition is_digit :: "char \<Rightarrow> bool" where
  "is_digit c \<longleftrightarrow> 48 \<le> (of_char c :: nat) \<and> (of_char c :: nat) \<le> 57"

definition digit_val :: "char \<Rightarrow> nat" where
  "digit_val c = of_char c - 48"

fun show_nat :: "nat \<Rightarrow> string" where
  "show_nat n = (if n < 10 then [digit_char n] else show_nat (n div 10) @ [digit_char (n mod 10)])"

declare show_nat.simps [simp del]

definition show_int :: "int \<Rightarrow> string" where
  "show_int i = (if i < 0 then CHR ''-'' # show_nat (nat (- i)) else show_nat (nat i))"

lemma of_char_digit: "d < 10 \<Longrightarrow> (of_char (digit_char d) :: nat) = 48 + d"
  by (simp add: digit_char_def)

lemma is_digit_digit_char [simp]: "d < 10 \<Longrightarrow> is_digit (digit_char d)"
  by (simp add: is_digit_def of_char_digit)

lemma digit_val_digit_char [simp]: "d < 10 \<Longrightarrow> digit_val (digit_char d) = d"
  by (simp add: digit_val_def of_char_digit)

lemma show_nat_digits: "c \<in> set (show_nat n) \<Longrightarrow> is_digit c"
proof (induction n rule: show_nat.induct)
  case (1 n)
  show ?case
  proof (cases "n < 10")
    case True
    with "1.prems" show ?thesis by (simp add: show_nat.simps [of n])
  next
    case False
    with "1.prems" "1.IH" show ?thesis by (auto simp: show_nat.simps [of n])
  qed
qed

lemma show_nat_not_Nil [simp]: "show_nat n \<noteq> []"
  by (subst show_nat.simps) simp

text \<open>The value of a digit string, most significant first.\<close>

definition digits_val :: "string \<Rightarrow> nat" where
  "digits_val ds = foldl (\<lambda>acc c. 10 * acc + digit_val c) 0 ds"

lemma digits_val_snoc [simp]: "digits_val (ds @ [c]) = 10 * digits_val ds + digit_val c"
  by (simp add: digits_val_def)

lemma digits_val_show_nat [simp]: "digits_val (show_nat n) = n"
proof (induction n rule: show_nat.induct)
  case (1 n)
  show ?case
  proof (cases "n < 10")
    case True
    then show ?thesis by (simp add: show_nat.simps [of n] digits_val_def)
  next
    case False
    with "1.IH" show ?thesis by (simp add: show_nat.simps [of n])
  qed
qed

lemma show_nat_inj: "show_nat m = show_nat n \<longleftrightarrow> m = n"
  by (metis digits_val_show_nat)

text \<open>
  \<open>parseInt(s, 10)\<close>: leading white space, an optional sign, the longest prefix of digits;
  \<open>None\<close> stands for \<open>NaN\<close>.
\<close>

definition is_space :: "char \<Rightarrow> bool" where
  "is_space c \<longleftrightarrow> (of_char c :: nat) \<in> {9, 10, 11, 12, 13, 32, 160}"

definition parse_digits :: "string \<Rightarrow> nat option" where
  "parse_digits s = (case takeWhile is_digit s of [] \<Rightarrow> None | ds \<Rightarrow> Some (digits_val ds))"

definition parse_int10 :: "string \<Rightarrow> int option" where
  "parse_int10 s =
     (case dropWhile is_space s of
        [] \<Rightarrow> None
      | c # cs \<Rightarrow>
          if c = CHR ''-'' then map_option (\<lambda>n. - int n) (parse_digits cs)
          else if c = CHR ''+'' then map_option int (parse_digits cs)
          else map_option int (parse_digits (c # cs)))"

lemma is_digit_not_space: "is_digit c \<Longrightarrow> \<not> is_space c"
  by (auto simp: is_digit_def is_space_def)

lemma is_digit_not_sign: "is_digit c \<Longrightarrow> c \<noteq> CHR ''-'' \<and> c \<noteq> CHR ''+'' \<and> c \<noteq> CHR '':''"
  by (auto simp: is_digit_def)

lemma parse_digits_show_nat [simp]: "parse_digits (show_nat n) = Some n"
proof -
  have tw: "takeWhile is_digit (show_nat n) = show_nat n"
    by (simp add: takeWhile_eq_all_conv show_nat_digits)
  have "parse_digits (show_nat n) = Some (digits_val (show_nat n))"
    unfolding parse_digits_def tw by (cases "show_nat n") simp_all
  then show ?thesis by simp
qed

lemma parse_int10_show_nat [simp]: "parse_int10 (show_nat n) = Some (int n)"
proof (cases "show_nat n")
  case Nil
  then show ?thesis by simp
next
  case (Cons c cs)
  then have dig: "is_digit c" using show_nat_digits [of c n] by simp
  have "parse_digits (c # cs) = Some n" using parse_digits_show_nat [of n] Cons by simp
  with Cons dig is_digit_not_space [OF dig] is_digit_not_sign [OF dig] show ?thesis
    by (simp add: parse_int10_def)
qed

definition trim :: "string \<Rightarrow> string" where
  "trim s = rev (dropWhile is_space (rev (dropWhile is_space s)))"

text \<open>
  \<open>BigInt(s)\<close> of a decimal string; \<open>None\<close> is its \<open>SyntaxError\<close> (radix prefixes are not modelled:
  sequence numbers and supplies are decimal).
\<close>

definition big_int_of :: "string \<Rightarrow> int option" where
  "big_int_of s =
     (case rev (dropWhile is_space (rev (dropWhile is_space s))) of
        [] \<Rightarrow> Some 0
      | x # xs \<Rightarrow>
          if (x = CHR ''-'' \<or> x = CHR ''+'') \<and> xs \<noteq> [] \<and> list_all is_digit xs
          then Some (if x = CHR ''-'' then - int (digits_val xs) else int (digits_val xs))
          else if list_all is_digit (x # xs) then Some (int (digits_val (x # xs))) else None)"

lemma big_int_of_show_nat [simp]: "big_int_of (show_nat n) = Some (int n)"
proof -
  have dig: "list_all is_digit (show_nat n)" by (simp add: list_all_iff show_nat_digits)
  have nsp: "c \<in> set (show_nat n) \<Longrightarrow> \<not> is_space c" for c
    using dig is_digit_not_space by (auto simp: list_all_iff)
  have "dropWhile is_space (show_nat n) = show_nat n"
    using nsp by (cases "show_nat n") auto
  moreover have "dropWhile is_space (rev (show_nat n)) = rev (show_nat n)"
    using nsp by (cases "rev (show_nat n)") (auto simp: rev_swap)
  ultimately have "rev (dropWhile is_space (rev (dropWhile is_space (show_nat n)))) = show_nat n" by simp
  then show ?thesis
    using dig is_digit_not_sign digits_val_show_nat [of n]
    by (cases "show_nat n") (auto simp: big_int_of_def)
qed

lemma big_int_of_show_int: "big_int_of (show_int n) = Some n"
proof (cases "n < 0")
  case True
  define m where "m = nat (- n)"
  have s: "show_int n = CHR ''-'' # show_nat m" using True by (simp add: show_int_def m_def)
  have dig: "list_all is_digit (show_nat m)" by (simp add: list_all_iff show_nat_digits)
  obtain c cs where c: "rev (show_nat m) = c # cs" by (cases "rev (show_nat m)") auto
  then have "c \<in> set (show_nat m)" by (metis list.set_intros(1) set_rev)
  then have "\<not> is_space c" using dig is_digit_not_space by (auto simp: list_all_iff)
  then have "rev (dropWhile is_space (rev (dropWhile is_space (CHR ''-'' # show_nat m)))) = CHR ''-'' # show_nat m"
    using c by (simp add: is_space_def rev_swap)
  then show ?thesis
    using s dig True digits_val_show_nat [of m] by (simp add: big_int_of_def m_def)
next
  case False
  then show ?thesis by (simp add: show_int_def)
qed

text \<open>The values of a 64-bit and of a 32-bit integer column; a statement with another value fails.\<close>

definition bigint_column :: "int \<Rightarrow> bool" where
  "bigint_column n \<longleftrightarrow> - (2 ^ 63) \<le> n \<and> n < 2 ^ 63"

definition int_column :: "int \<Rightarrow> bool" where
  "int_column n \<longleftrightarrow> - (2 ^ 31) \<le> n \<and> n < 2 ^ 31"

lemma find_map: "(\<And>x. P (f x) = P x) \<Longrightarrow> List.find P (map f xs) = map_option f (List.find P xs)"
  by (induction xs) auto

text \<open>The errors a service throws: by JavaScript's number conversions, by itself, by the database.\<close>

datatype service_error = RangeError string | SyntaxError string | PlainError string | DatabaseError string

lemma image_set_cong: "map f xs = map g ys \<Longrightarrow> f ` set xs = g ` set ys"
  by (metis list.set_map)

lemma ball_set_map: "(\<And>x. x \<in> set xs \<Longrightarrow> P (f x)) \<Longrightarrow> \<forall>y\<in>set (map f xs). P y"
  by simp

end
