(* ===== verification/Circuit_Breaker.thy ===== *)
theory Circuit_Breaker
  imports Prelude
begin

text \<open>
  \<open>backend/src/lib/circuitBreaker.ts\<close>: the circuit breaker wrapped around every outbound
  call (closed, open, half-open) and the registry that reports breaker health.

  A breaker is a record with the private fields of the class; the callback
  \<open>onStateChange\<close> is recorded as the list of transitions it was called with. \<open>execute\<close>
  takes the protected function as a state transformer on an arbitrary outside world, so that
  \<open>the function is not called\<close> is a statement about that world. Because \<open>execute\<close>
  awaits the function, calls overlap: \<open>cb_step\<close> splits each call at its \<open>await\<close> into
  the check and the settlement, and the invariant is proved for every interleaving.
\<close>

section \<open>State\<close>

datatype cb_state = Closed | Open | HalfOpen

record cb_options =
  failureThreshold :: int
  successThreshold :: int
  timeoutMs :: int

record breaker =
  cbState :: cb_state
  failureCount :: int
  successCount :: int
  lastFailureTime :: int
  stateChanges :: "(cb_state \<times> cb_state) list"

definition new_breaker :: breaker where
  "new_breaker = \<lparr>cbState = Closed, failureCount = 0, successCount = 0,
     lastFailureTime = 0, stateChanges = []\<rparr>"

datatype 'e cb_error = CircuitBreakerOpenError | FnError 'e

section \<open>Operations\<close>

definition cb_transition :: "cb_state \<Rightarrow> breaker \<Rightarrow> breaker" where
  "cb_transition new b =
     (let prev = cbState b; b' = b\<lparr>cbState := new\<rparr>
      in if prev \<noteq> new then b'\<lparr>stateChanges := stateChanges b @ [(new, prev)]\<rparr> else b')"

text \<open>\<open>checkState\<close>: \<open>None\<close> is the thrown \<open>CircuitBreakerOpenError\<close>.\<close>

definition cb_checkState :: "cb_options \<Rightarrow> int \<Rightarrow> breaker \<Rightarrow> breaker option" where
  "cb_checkState opt now b =
     (if cbState b = Open then
        (if now - lastFailureTime b \<ge> timeoutMs opt
         then Some (cb_transition HalfOpen (b\<lparr>successCount := 0\<rparr>))
         else None)
      else Some b)"

definition cb_onSuccess :: "cb_options \<Rightarrow> breaker \<Rightarrow> breaker" where
  "cb_onSuccess opt b =
     (let b1 = b\<lparr>failureCount := 0\<rparr> in
      if cbState b1 = HalfOpen then
        (let b2 = b1\<lparr>successCount := successCount b1 + 1\<rparr> in
         if successCount b2 \<ge> successThreshold opt
         then cb_transition Closed (b2\<lparr>successCount := 0\<rparr>)
         else b2)
      else b1)"

definition cb_onFailure :: "cb_options \<Rightarrow> int \<Rightarrow> breaker \<Rightarrow> breaker" where
  "cb_onFailure opt now b =
     (let b1 = b\<lparr>failureCount := failureCount b + 1, lastFailureTime := now\<rparr> in
      if failureCount b1 \<ge> failureThreshold opt then cb_transition Open b1 else b1)"

definition cb_reset :: "breaker \<Rightarrow> breaker" where
  "cb_reset b = b\<lparr>cbState := Closed, failureCount := 0, successCount := 0, lastFailureTime := 0\<rparr>"

text \<open>
  \<open>execute\<close>: \<open>t0\<close> is the clock when the state is checked, \<open>t1\<close> when the awaited
  function settles; \<open>fn\<close> acts on the outside world.
\<close>

definition cb_execute ::
  "cb_options \<Rightarrow> int \<Rightarrow> int \<Rightarrow> ('w \<Rightarrow> 'w \<times> ('e, 'a) res) \<Rightarrow> 'w \<times> breaker
     \<Rightarrow> ('w \<times> breaker) \<times> ('e cb_error, 'a) res" where
  "cb_execute opt t0 t1 fn s =
     (case s of (w, b) \<Rightarrow>
       (case cb_checkState opt t0 b of
          None \<Rightarrow> ((w, b), Inl CircuitBreakerOpenError)
        | Some b1 \<Rightarrow>
            (case fn w of
               (w1, Inr a) \<Rightarrow> ((w1, cb_onSuccess opt b1), Inr a)
             | (w1, Inl e) \<Rightarrow> ((w1, cb_onFailure opt t1 b1), Inl (FnError e)))))"

record cb_metrics =
  mState :: cb_state
  mFailureCount :: int
  mSuccessCount :: int
  mLastFailureTime :: int
  mTimeSinceLastFailure :: int

definition cb_getMetrics :: "int \<Rightarrow> breaker \<Rightarrow> cb_metrics" where
  "cb_getMetrics now b = \<lparr>mState = cbState b, mFailureCount = failureCount b,
     mSuccessCount = successCount b, mLastFailureTime = lastFailureTime b,
     mTimeSinceLastFailure = now - lastFailureTime b\<rparr>"

text \<open>
  The module-level registry maps service names to breaker objects; breakers are shared by
  reference, so the registry holds identifiers into a store of breakers.
\<close>

type_synonym breaker_store = "nat \<Rightarrow> breaker"

definition registerCircuitBreaker :: "string \<Rightarrow> nat \<Rightarrow> (string, nat) jsmap \<Rightarrow> (string, nat) jsmap" where
  "registerCircuitBreaker name bid reg = jm_set reg name bid"

definition getCircuitBreakerRegistrySnapshot ::
  "int \<Rightarrow> breaker_store \<Rightarrow> (string, nat) jsmap \<Rightarrow> (string, cb_metrics) jsmap" where
  "getCircuitBreakerRegistrySnapshot now store reg =
     foldl (\<lambda>snap (name, bid). jm_set snap name (cb_getMetrics now (store bid))) [] reg"

section \<open>Overlapping calls\<close>

datatype cb_event = CallStart int | CallOk | CallFail int | AdminReset

fun cb_step :: "cb_options \<Rightarrow> breaker \<Rightarrow> cb_event \<Rightarrow> breaker" where
  "cb_step opt b (CallStart now) = (case cb_checkState opt now b of None \<Rightarrow> b | Some b' \<Rightarrow> b')"
| "cb_step opt b CallOk = cb_onSuccess opt b"
| "cb_step opt b (CallFail now) = cb_onFailure opt now b"
| "cb_step opt b AdminReset = cb_reset b"

definition cb_run :: "cb_options \<Rightarrow> breaker \<Rightarrow> cb_event list \<Rightarrow> breaker" where
  "cb_run opt = foldl (cb_step opt)"

text \<open>
  Well-formedness: counters stay below their thresholds, so a closed breaker is always within
  its failure budget; callbacks report genuine changes and form a chain that ends in the
  current state.
\<close>

definition cb_inv :: "cb_options \<Rightarrow> breaker \<Rightarrow> bool" where
  "cb_inv opt b \<longleftrightarrow> 0 \<le> failureCount b \<and> 0 \<le> successCount b \<and> successCount b < successThreshold opt
     \<and> (cbState b = Closed \<longrightarrow> failureCount b < failureThreshold opt)"

definition cb_opts_ok :: "cb_options \<Rightarrow> bool" where
  "cb_opts_ok opt \<longleftrightarrow> 1 \<le> failureThreshold opt \<and> 1 \<le> successThreshold opt"

lemmas cb_defs = cb_transition_def cb_checkState_def cb_onSuccess_def cb_onFailure_def
  cb_reset_def Let_def

lemma cb_inv_new: "cb_opts_ok opt \<Longrightarrow> cb_inv opt new_breaker"
  by (simp add: cb_inv_def cb_opts_ok_def new_breaker_def)

lemma cb_step_inv: "cb_opts_ok opt \<Longrightarrow> cb_inv opt b \<Longrightarrow> cb_inv opt (cb_step opt b e)"
  by (cases e) (auto simp: cb_inv_def cb_opts_ok_def cb_defs split: option.splits if_splits)

lemma cb_run_inv: "cb_opts_ok opt \<Longrightarrow> cb_inv opt b \<Longrightarrow> cb_inv opt (cb_run opt b es)"
  by (induction es arbitrary: b) (auto simp: cb_run_def cb_step_inv)

section \<open>Sequential calls\<close>

text \<open>One whole call of \<open>execute\<close>: check time, settle time, and whether the function succeeds.\<close>

definition cb_call :: "cb_options \<Rightarrow> breaker \<Rightarrow> int \<times> int \<times> bool \<Rightarrow> breaker" where
  "cb_call opt b c =
     (case c of (t0, t1, ok) \<Rightarrow>
        snd (fst (cb_execute opt t0 t1 (\<lambda>w. (w, if ok then Inr () else Inl ())) ((), b))))"

lemma cb_call_closed_fail:
  assumes "cbState b = Closed"
  shows "cbState (cb_call opt b (t0, t1, False)) =
      (if failureCount b + 1 \<ge> failureThreshold opt then Open else Closed)"
    and "failureCount (cb_call opt b (t0, t1, False)) = failureCount b + 1"
  using assms by (auto simp: cb_call_def cb_execute_def cb_defs)

lemma cb_call_open_fail:
  assumes "cbState b = Open" and "failureCount b \<ge> failureThreshold opt"
  shows "cbState (cb_call opt b (t0, t1, False)) = Open
    \<and> failureCount (cb_call opt b (t0, t1, False)) \<ge> failureThreshold opt"
  using assms by (auto simp: cb_call_def cb_execute_def cb_defs split: option.splits if_splits)

lemma cb_open_fails:
  assumes "cbState b = Open" and "failureCount b \<ge> failureThreshold opt"
    and "\<forall>c\<in>set cs. \<not> snd (snd c)"
  shows "cbState (foldl (cb_call opt) b cs) = Open"
  using assms
proof (induction cs arbitrary: b)
  case Nil
  then show ?case by simp
next
  case (Cons c cs)
  then obtain t0 t1 where c: "c = (t0, t1, False)" by (cases c) auto
  from Cons.IH [of "cb_call opt b c"] cb_call_open_fail [OF Cons.prems(1,2)] Cons.prems(3) c
  show ?case by simp
qed

lemma cb_closed_fails:
  assumes "cbState b = Closed" and "failureCount b < failureThreshold opt"
    and "\<forall>c\<in>set cs. \<not> snd (snd c)"
  shows "cbState (foldl (cb_call opt) b cs) =
    (if failureCount b + int (length cs) \<ge> failureThreshold opt then Open else Closed)"
  using assms
proof (induction cs arbitrary: b)
  case Nil
  then show ?case by simp
next
  case (Cons c cs)
  then obtain t0 t1 where c: "c = (t0, t1, False)" by (cases c) auto
  note first = cb_call_closed_fail [OF Cons.prems(1), of opt t0 t1]
  show ?case
  proof (cases "failureCount b + 1 \<ge> failureThreshold opt")
    case True
    with first have "cbState (foldl (cb_call opt) (cb_call opt b c) cs) = Open"
      using Cons.prems(3) c by (intro cb_open_fails) auto
    with True show ?thesis by simp
  next
    case False
    with first Cons.IH [of "cb_call opt b c"] Cons.prems(3) c show ?thesis by simp
  qed
qed

lemma cb_call_halfopen_ok:
  assumes "cbState b = HalfOpen"
  shows "cbState (cb_call opt b (t0, t1, True)) =
      (if successCount b + 1 \<ge> successThreshold opt then Closed else HalfOpen)"
    and "cbState (cb_call opt b (t0, t1, True)) = HalfOpen \<Longrightarrow>
      successCount (cb_call opt b (t0, t1, True)) = successCount b + 1"
  using assms by (auto simp: cb_call_def cb_execute_def cb_defs split: if_splits)

lemma cb_call_closed_ok: "cbState b = Closed \<Longrightarrow> cbState (cb_call opt b (t0, t1, True)) = Closed"
  by (simp add: cb_call_def cb_execute_def cb_defs)

lemma cb_closed_oks:
  "cbState b = Closed \<Longrightarrow> \<forall>c\<in>set cs. snd (snd c) \<Longrightarrow> cbState (foldl (cb_call opt) b cs) = Closed"
  by (induction cs arbitrary: b) (auto simp: cb_call_closed_ok)

lemma cb_halfopen_oks:
  assumes "cbState b = HalfOpen" and "successCount b < successThreshold opt"
    and "\<forall>c\<in>set cs. snd (snd c)"
  shows "cbState (foldl (cb_call opt) b cs) =
    (if successCount b + int (length cs) \<ge> successThreshold opt then Closed else HalfOpen)"
  using assms
proof (induction cs arbitrary: b)
  case Nil
  then show ?case by simp
next
  case (Cons c cs)
  then obtain t0 t1 where c: "c = (t0, t1, True)" by (cases c) auto
  note first = cb_call_halfopen_ok [OF Cons.prems(1), of opt t0 t1]
  show ?case
  proof (cases "successCount b + 1 \<ge> successThreshold opt")
    case True
    with first have "cbState (foldl (cb_call opt) (cb_call opt b c) cs) = Closed"
      using Cons.prems(3) c by (intro cb_closed_oks) auto
    with True show ?thesis by simp
  next
    case False
    with first Cons.IH [of "cb_call opt b c"] Cons.prems(3) c show ?thesis by simp
  qed
qed

lemma cb_call_open_retry_ok:
  assumes "cbState b = Open" and "t0 - lastFailureTime b \<ge> timeoutMs opt"
  shows "cb_call opt b (t0, t1, True)
    = cb_call opt (cb_transition HalfOpen (b\<lparr>successCount := 0\<rparr>)) (t0, t1, True)"
  using assms by (simp add: cb_call_def cb_execute_def cb_defs)

text \<open>
  The callback log: transitions reported to \<open>onStateChange\<close> chain from the initial state to
  the current one, along the edges of the documented state graph.
\<close>

definition cb_edge :: "cb_state \<times> cb_state \<Rightarrow> bool" where
  "cb_edge tr \<longleftrightarrow> tr \<in> {(Open, Closed), (HalfOpen, Open), (Closed, HalfOpen), (Open, HalfOpen)}"

fun cb_chain :: "cb_state \<Rightarrow> (cb_state \<times> cb_state) list \<Rightarrow> cb_state \<Rightarrow> bool" where
  "cb_chain s [] t \<longleftrightarrow> s = t"
| "cb_chain s ((new, prev) # trs) t \<longleftrightarrow> prev = s \<and> cb_edge (new, prev) \<and> cb_chain new trs t"

lemma cb_chain_snoc:
  "cb_chain s trs t \<Longrightarrow> cb_edge (u, t) \<Longrightarrow> cb_chain s (trs @ [(u, t)]) u"
  by (induction s trs t rule: cb_chain.induct) auto

lemma cb_step_chain:
  assumes "cb_chain Closed (stateChanges b) (cbState b)" and "e \<noteq> AdminReset"
  shows "cb_chain Closed (stateChanges (cb_step opt b e)) (cbState (cb_step opt b e))"
  using assms by (cases "cbState b"; cases e)
    (auto simp: cb_defs cb_edge_def intro!: cb_chain_snoc split: option.splits if_splits)

lemma cb_run_chain:
  assumes "cb_chain Closed (stateChanges b) (cbState b)" and "AdminReset \<notin> set es"
  shows "cb_chain Closed (stateChanges (cb_run opt b es)) (cbState (cb_run opt b es))"
  using assms by (induction es arbitrary: b) (auto simp: cb_run_def cb_step_chain)

section \<open>Properties\<close>

text \<open>\<open>CircuitBreaker.execute\<close> rejects a call with \<open>CircuitBreakerOpenError\<close> exactly when
  the breaker is open and its timeout has not elapsed; a rejected call neither runs the
  protected function (the outside world is unchanged) nor touches the breaker.\<close>

theorem circuit_rejects_iff_open:
  "(snd (cb_execute opt t0 t1 fn (w, b)) = Inl CircuitBreakerOpenError
      \<longleftrightarrow> cbState b = Open \<and> t0 - lastFailureTime b < timeoutMs opt)
   \<and> (snd (cb_execute opt t0 t1 fn (w, b)) = Inl CircuitBreakerOpenError
      \<longrightarrow> fst (cb_execute opt t0 t1 fn (w, b)) = (w, b))"
  by (auto simp: cb_execute_def cb_checkState_def split: option.splits if_splits prod.splits sum.splits)

text \<open>Whatever way calls overlap at their \<open>await\<close> and whenever an administrator resets it,
  a breaker built with thresholds of at least one keeps its counters within their thresholds:
  it is never closed with \<open>failureThreshold\<close> or more consecutive failures recorded.\<close>

theorem circuit_interleaving_invariant:
  assumes "1 \<le> failureThreshold opt" and "1 \<le> successThreshold opt"
  shows "cb_inv opt (cb_run opt new_breaker es)"
  using assms by (intro cb_run_inv cb_inv_new) (simp_all add: cb_opts_ok_def)

definition cb_example_opts :: cb_options where
  "cb_example_opts = \<lparr>failureThreshold = 2, successThreshold = 2, timeoutMs = 100\<rparr>"

theorem circuit_rejects_iff_open_witness:
  "cb_execute cb_example_opts 50 60 (\<lambda>n::nat. (Suc n, Inr True :: (unit, bool) res))
     (0, new_breaker\<lparr>cbState := Open, failureCount := 2, lastFailureTime := 3\<rparr>)
   = ((0, new_breaker\<lparr>cbState := Open, failureCount := 2, lastFailureTime := 3\<rparr>), Inl CircuitBreakerOpenError)"
  using circuit_rejects_iff_open [of cb_example_opts 50 60 "\<lambda>n::nat. (Suc n, Inr True :: (unit, bool) res)" 0
      "new_breaker\<lparr>cbState := Open, failureCount := 2, lastFailureTime := 3\<rparr>"]
  by (simp add: cb_example_opts_def prod_eq_iff)

theorem circuit_interleaving_invariant_witness:
  "cb_inv cb_example_opts (cb_run cb_example_opts new_breaker
     [CallStart 0, CallStart 1, CallFail 2, CallFail 3, CallStart 103, CallOk])"
  by (rule circuit_interleaving_invariant) (simp_all add: cb_example_opts_def)

text \<open>A fresh breaker trips after exactly \<open>failureThreshold\<close> consecutive failing calls: after
  any sequence of failing calls it is open if and only if the sequence is at least that long.\<close>

theorem circuit_trips_at_threshold:
  assumes "1 \<le> failureThreshold opt" and "\<forall>c\<in>set cs. \<not> snd (snd c)"
  shows "cbState (foldl (cb_call opt) new_breaker cs) = Open
    \<longleftrightarrow> int (length cs) \<ge> failureThreshold opt"
  using cb_closed_fails [of new_breaker opt cs] assms by (simp add: new_breaker_def)

theorem circuit_trips_at_threshold_witness:
  "cbState (foldl (cb_call cb_example_opts) new_breaker [(0, 1, False), (2, 3, False)]) = Open"
  using circuit_trips_at_threshold [of cb_example_opts "[(0, 1, False), (2, 3, False)]"]
  by (simp add: cb_example_opts_def)

text \<open>An open breaker whose timeout has elapsed recovers after exactly \<open>successThreshold\<close>
  consecutive successful calls: it is closed after a non-empty sequence of successful calls if
  and only if the sequence is at least that long, and half-open before that.\<close>

theorem circuit_recovers_at_threshold:
  assumes "cbState b = Open" and "1 \<le> successThreshold opt"
    and "t0 - lastFailureTime b \<ge> timeoutMs opt" and "\<forall>c\<in>set cs. snd (snd c)"
  shows "cbState (foldl (cb_call opt) b ((t0, t1, True) # cs))
    = (if 1 + int (length cs) \<ge> successThreshold opt then Closed else HalfOpen)"
proof -
  let ?h = "cb_transition HalfOpen (b\<lparr>successCount := 0\<rparr>)"
  have "cbState ?h = HalfOpen" "successCount ?h = 0" by (simp_all add: cb_transition_def Let_def)
  then show ?thesis
    using cb_halfopen_oks [of ?h opt "(t0, t1, True) # cs"] cb_call_open_retry_ok [OF assms(1,3), of t1]
      assms(2,4) by simp
qed

theorem circuit_recovers_at_threshold_witness:
  "cbState (foldl (cb_call cb_example_opts)
     (new_breaker\<lparr>cbState := Open, failureCount := 2, lastFailureTime := 3\<rparr>)
     [(103, 104, True), (105, 106, True)]) = Closed"
  using circuit_recovers_at_threshold [of "new_breaker\<lparr>cbState := Open, failureCount := 2, lastFailureTime := 3\<rparr>"
      cb_example_opts 103 "[(105, 106, True)]" 104]
  by (simp add: cb_example_opts_def)

text \<open>
  \<open>reset()\<close> assigns the state directly, so unlike every other transition it is not reported to
  \<open>onStateChange\<close>.
\<close>

lemma cb_reset_silent:
  "cbState b \<noteq> Closed \<Longrightarrow> cbState (cb_reset b) = Closed \<and> stateChanges (cb_reset b) = stateChanges b"
  by (simp add: cb_reset_def)

text \<open>The registry snapshot reports each registered service with the current state of its breaker.\<close>

lemma snapshot_foldl:
  "jm_get (foldl (\<lambda>snap (n, bid). jm_set snap n (cb_getMetrics now (store bid))) snap0 reg) name
     = (case jm_get (rev reg) name of Some bid \<Rightarrow> Some (cb_getMetrics now (store bid))
        | None \<Rightarrow> jm_get snap0 name)"
  by (induction reg arbitrary: snap0) (auto simp: map_add_def split: option.splits)

lemma registry_snapshot:
  assumes "jm_wf reg"
  shows "jm_get (getCircuitBreakerRegistrySnapshot now store (registerCircuitBreaker name bid reg)) svc
    = (if svc = name then Some (cb_getMetrics now (store bid))
       else map_option (\<lambda>i. cb_getMetrics now (store i)) (jm_get reg svc))"
proof -
  have wf: "jm_wf (jm_set reg name bid)" using assms by simp
  then show ?thesis
    by (auto simp: getCircuitBreakerRegistrySnapshot_def registerCircuitBreaker_def snapshot_foldl jm_get_rev
        split: option.splits)
qed

end
