(* ===== verification/JS_Value.thy ===== *)
theory JS_Value
  imports Prelude
begin

text \<open>
  Dynamically typed JavaScript values, for the code that inspects values of type \<open>any\<close> or
  \<open>unknown\<close>: thrown errors, decoded contract events, event payloads. Numbers are integers
  (the payloads carry ids, ledgers and epoch seconds); an object is an insertion-ordered map of
  its own properties.
\<close>

datatype jsval =
    JUndef
  | JNull
  | JBool bool
  | JNum int
  | JStr string
  | JArr "jsval list"
  | JObj "(string \<times> jsval) list"

text \<open>\<open>v?.k\<close>: \<open>undefined\<close> for a missing property and for a nullish or primitive \<open>v\<close>.\<close>

fun js_prop :: "jsval \<Rightarrow> string \<Rightarrow> jsval" where
  "js_prop (JObj m) k = (case map_of m k of Some v \<Rightarrow> v | None \<Rightarrow> JUndef)"
| "js_prop _ k = JUndef"

fun js_nullish :: "jsval \<Rightarrow> bool" where
  "js_nullish JUndef = True"
| "js_nullish JNull = True"
| "js_nullish _ = False"

text \<open>\<open>a ?? b\<close>\<close>

definition js_coalesce :: "jsval \<Rightarrow> jsval \<Rightarrow> jsval" where
  "js_coalesce a b = (if js_nullish a then b else a)"

text \<open>Truthiness, as in \<open>if (v)\<close>, \<open>v && w\<close> and \<open>v || w\<close>.\<close>

fun js_truthy :: "jsval \<Rightarrow> bool" where
  "js_truthy JUndef = False"
| "js_truthy JNull = False"
| "js_truthy (JBool b) = b"
| "js_truthy (JNum n) = (n \<noteq> 0)"
| "js_truthy (JStr s) = (s \<noteq> [])"
| "js_truthy (JArr vs) = True"
| "js_truthy (JObj m) = True"

text \<open>\<open>v.toString()\<close> of a non-nullish value (\<open>String(v)\<close> otherwise).\<close>

fun js_to_string :: "jsval \<Rightarrow> string" where
  "js_to_string JUndef = ''undefined''"
| "js_to_string JNull = ''null''"
| "js_to_string (JBool b) = (if b then ''true'' else ''false'')"
| "js_to_string (JNum n) = show_int n"
| "js_to_string (JStr s) = s"
| "js_to_string (JArr []) = []"
| "js_to_string (JArr [v]) = (if js_nullish v then [] else js_to_string v)"
| "js_to_string (JArr (v # w # vs)) =
     (if js_nullish v then [] else js_to_string v) @ '','' @ js_to_string (JArr (w # vs))"
| "js_to_string (JObj m) = ''[object Object]''"

definition js_is_string :: "jsval \<Rightarrow> bool" where
  "js_is_string v = (case v of JStr _ \<Rightarrow> True | _ \<Rightarrow> False)"

definition js_is_number :: "jsval \<Rightarrow> bool" where
  "js_is_number v = (case v of JNum _ \<Rightarrow> True | _ \<Rightarrow> False)"

lemma js_truthy_not_nullish: "js_truthy v \<Longrightarrow> \<not> js_nullish v"
  by (cases v) auto

lemma js_prop_nullish [simp]: "js_nullish v \<Longrightarrow> js_prop v k = JUndef"
  by (cases v) auto

lemma js_coalesce_simps [simp]:
  "js_coalesce JUndef b = b" "js_coalesce JNull b = b" "js_coalesce (JStr s) b = JStr s"
  "js_coalesce (JNum n) b = JNum n" "js_coalesce (JBool c) b = JBool c"
  by (simp_all add: js_coalesce_def)

text \<open>
  \<open>JSON.stringify(v)\<close> without indentation; \<open>None\<close> for \<open>undefined\<close>, which an array prints
  as \<open>null\<close> and an object leaves out.
\<close>

definition hex_char :: "nat \<Rightarrow> char" where
  "hex_char d = (if d < 10 then char_of (48 + d) else char_of (87 + d))"

definition json_escape_char :: "char \<Rightarrow> string" where
  "json_escape_char c =
     (let n = (of_char c :: nat)
      in if n = 34 then [CHR 0x5C, CHR 0x22] else if n = 92 then [CHR 0x5C, CHR 0x5C]
         else if n = 8 then [CHR 0x5C, CHR ''b''] else if n = 9 then [CHR 0x5C, CHR ''t'']
         else if n = 10 then [CHR 0x5C, CHR ''n''] else if n = 12 then [CHR 0x5C, CHR ''f'']
         else if n = 13 then [CHR 0x5C, CHR ''r'']
         else if n < 32 then CHR 0x5C # ''u00'' @ [hex_char (n div 16), hex_char (n mod 16)]
         else [c])"

definition json_quote :: "string \<Rightarrow> string" where
  "json_quote s = [CHR 0x22] @ concat (map json_escape_char s) @ [CHR 0x22]"

fun intersperse_comma :: "string list \<Rightarrow> string" where
  "intersperse_comma [] = []"
| "intersperse_comma [s] = s"
| "intersperse_comma (s # t # ss) = s @ '','' @ intersperse_comma (t # ss)"

fun js_stringify :: "jsval \<Rightarrow> string option" where
  "js_stringify JUndef = None"
| "js_stringify JNull = Some ''null''"
| "js_stringify (JBool b) = Some (if b then ''true'' else ''false'')"
| "js_stringify (JNum n) = Some (show_int n)"
| "js_stringify (JStr s) = Some (json_quote s)"
| "js_stringify (JArr vs) = Some (''['' @ intersperse_comma
     (map (\<lambda>v. case js_stringify v of None \<Rightarrow> ''null'' | Some s \<Rightarrow> s) vs) @ '']'')"
| "js_stringify (JObj m) = Some (''{'' @ intersperse_comma
     (concat (map (\<lambda>(k, v). case js_stringify v of None \<Rightarrow> [] | Some s \<Rightarrow> [json_quote k @ '':'' @ s]) m)) @ ''}'')"

end
