(* ===== verification/Retry_Backoff.thy ===== *)
theory Retry_Backoff
  imports JS_Value
begin

text \<open>
  The retry and back-off routines of the backend:
  \<^item> \<open>backend/src/stellar-service-integration/rate-limiter.ts\<close>: the sliding-window limiter
    in front of the Stellar RPC, its back-off formula and its error classifier;
  \<^item> \<open>backend/src/services/listenerBackoff.ts\<close>: the reconnect back-off of the event listener;
  \<^item> \<open>backend/src/services/webhookRetry.ts\<close>: the webhook delivery retry engine.

  Delays are real numbers (the code computes them in floating point; rounding of the
  floating-point operations themselves is not modelled). \<open>Math.random()\<close> is an argument
  \<open>rnd\<close> in \<open>[0, 1)\<close>.
\<close>

section \<open>Sliding-window rate limiter\<close>

record rate_limiter =
  requests :: "int list"
  maxRequests :: int
  windowMs :: int

datatype rate_error = StellarRateLimitException

definition new_rate_limiter :: "int \<Rightarrow> int \<Rightarrow> rate_limiter" where
  "new_rate_limiter mx w = \<lparr>requests = [], maxRequests = mx, windowMs = w\<rparr>"

definition rl_checkLimit :: "int \<Rightarrow> rate_limiter \<Rightarrow> rate_limiter \<times> (rate_error, unit) res" where
  "rl_checkLimit now rl =
     (let windowStart = now - windowMs rl;
          rl1 = rl\<lparr>requests := dropWhile (\<lambda>t. t < windowStart) (requests rl)\<rparr>
      in if int (length (requests rl1)) \<ge> maxRequests rl
         then (rl1, Inl StellarRateLimitException)
         else (rl1\<lparr>requests := requests rl1 @ [now]\<rparr>, Inr ()))"

definition rl_getRemainingRequests :: "int \<Rightarrow> rate_limiter \<Rightarrow> int" where
  "rl_getRemainingRequests now rl =
     max 0 (maxRequests rl - int (length (filter (\<lambda>ts. ts \<ge> now - windowMs rl) (requests rl))))"

definition rl_reset :: "rate_limiter \<Rightarrow> rate_limiter" where
  "rl_reset rl = rl\<lparr>requests := []\<rparr>"

text \<open>A run of calls at the given clock readings, collecting the times of the admitted ones.\<close>

fun rl_run :: "rate_limiter \<Rightarrow> int list \<Rightarrow> rate_limiter \<times> int list" where
  "rl_run rl [] = (rl, [])"
| "rl_run rl (t # ts) =
     (case rl_checkLimit t rl of
        (rl1, Inr _) \<Rightarrow> (case rl_run rl1 ts of (rl2, adm) \<Rightarrow> (rl2, t # adm))
      | (rl1, Inl _) \<Rightarrow> rl_run rl1 ts)"

lemma length_filter_imp_le:
  "(\<And>x. x \<in> set xs \<Longrightarrow> P x \<Longrightarrow> Q x) \<Longrightarrow> length (filter P xs) \<le> length (filter Q xs)"
  by (induction xs) auto

lemma dropWhile_sorted_filter:
  "sorted xs \<Longrightarrow> dropWhile (\<lambda>t. t < c) xs = filter (\<lambda>t. (c::int) \<le> t) xs"
proof (induction xs)
  case Nil
  then show ?case by simp
next
  case (Cons x xs)
  show ?case
  proof (cases "x < c")
    case True
    with Cons show ?thesis by simp
  next
    case False
    with Cons.prems have "\<forall>t\<in>set xs. c \<le> t" by force
    with False show ?thesis by (simp add: filter_id_conv)
  qed
qed

text \<open>
  The invariant relates the limiter to the whole history of admitted times: what it stores is
  what lies inside the current window, and no window holds more than the limit.
\<close>

definition rl_inv :: "rate_limiter \<Rightarrow> int list \<Rightarrow> int \<Rightarrow> bool" where
  "rl_inv rl h now \<longleftrightarrow> sorted h \<and> (\<forall>t\<in>set h. t \<le> now)
     \<and> (\<exists>c \<le> now - windowMs rl. requests rl = filter (\<lambda>t. c \<le> t) h)
     \<and> (\<forall>a. int (length (filter (\<lambda>t. a \<le> t \<and> t \<le> a + windowMs rl) h)) \<le> max 0 (maxRequests rl))"

lemma rl_inv_new: "rl_inv (new_rate_limiter mx w) [] now"
  by (auto simp: rl_inv_def new_rate_limiter_def)

lemma rl_inv_window:
  fixes a now w :: int
  assumes "int (length (filter (\<lambda>t. a \<le> t \<and> t \<le> a + w) h)) \<le> m"
    and "int (length (filter (\<lambda>t. now - w \<le> t) h)) < m"
  shows "int (length (filter (\<lambda>t. a \<le> t \<and> t \<le> a + w) (h @ [now]))) \<le> m"
proof (cases "a \<le> now \<and> now \<le> a + w")
  case True
  have "length (filter (\<lambda>t. a \<le> t \<and> t \<le> a + w) h) \<le> length (filter (\<lambda>t. now - w \<le> t) h)"
    by (rule length_filter_imp_le) (use True in linarith)
  with assms(2) True show ?thesis by simp
next
  case False
  with assms(1) show ?thesis by auto
qed

lemma rl_kept:
  assumes "sorted h" and "c \<le> c'"
  shows "dropWhile (\<lambda>t. t < c') (filter (\<lambda>t. c \<le> t) h) = filter (\<lambda>t. (c'::int) \<le> t) h"
proof -
  have "sorted (filter (\<lambda>t. c \<le> t) h)" using sorted_filter [of "\<lambda>x. x" h] assms(1) by simp
  then have "dropWhile (\<lambda>t. t < c') (filter (\<lambda>t. c \<le> t) h) = filter (\<lambda>t. c' \<le> t) (filter (\<lambda>t. c \<le> t) h)"
    by (rule dropWhile_sorted_filter)
  also have "\<dots> = filter (\<lambda>t. c' \<le> t) h"
    using assms(2) by (auto intro: filter_cong)
  finally show ?thesis .
qed

lemma rl_checkLimit_cases:
  assumes inv: "rl_inv rl h now0" and mono: "now0 \<le> now"
  shows "rl_checkLimit now rl =
    (let kept = filter (\<lambda>t. now - windowMs rl \<le> t) h in
     if int (length kept) \<ge> maxRequests rl
     then (rl\<lparr>requests := kept\<rparr>, Inl StellarRateLimitException)
     else (rl\<lparr>requests := kept @ [now]\<rparr>, Inr ()))"
proof -
  from inv obtain c where c: "c \<le> now0 - windowMs rl" "requests rl = filter (\<lambda>t. c \<le> t) h"
    and h: "sorted h" by (auto simp: rl_inv_def)
  have "dropWhile (\<lambda>t. t < now - windowMs rl) (requests rl) = filter (\<lambda>t. now - windowMs rl \<le> t) h"
    unfolding c(2) using c(1) mono by (intro rl_kept h) simp
  then show ?thesis by (simp add: rl_checkLimit_def Let_def)
qed

lemma rl_inv_purge:
  assumes inv: "rl_inv rl h now0" and mono: "now0 \<le> now"
  shows "rl_inv (rl\<lparr>requests := filter (\<lambda>t. now - windowMs rl \<le> t) h\<rparr>) h now"
  using assms by (auto simp: rl_inv_def)

lemma rl_inv_admit:
  assumes inv: "rl_inv rl h now0" and mono: "now0 \<le> now" and w: "0 \<le> windowMs rl"
    and room: "int (length (filter (\<lambda>t. now - windowMs rl \<le> t) h)) < maxRequests rl"
  shows "rl_inv (rl\<lparr>requests := filter (\<lambda>t. now - windowMs rl \<le> t) h @ [now]\<rparr>) (h @ [now]) now"
proof -
  from inv have h: "sorted h" "\<forall>t\<in>set h. t \<le> now0"
    and win: "\<And>a. int (length (filter (\<lambda>t. a \<le> t \<and> t \<le> a + windowMs rl) h)) \<le> max 0 (maxRequests rl)"
    by (auto simp: rl_inv_def)
  from h(2) mono have le: "\<forall>t\<in>set h. t \<le> now" by auto
  have "int (length (filter (\<lambda>t. a \<le> t \<and> t \<le> a + windowMs rl) (h @ [now]))) \<le> max 0 (maxRequests rl)" for a
    using rl_inv_window [OF win, of now a] room by simp
  moreover have "filter (\<lambda>t. now - windowMs rl \<le> t) h @ [now] = filter (\<lambda>t. now - windowMs rl \<le> t) (h @ [now])"
    using w by simp
  moreover have "sorted (h @ [now])" using h(1) le by (simp add: sorted_append)
  ultimately show ?thesis using le unfolding rl_inv_def by (auto simp del: filter_append)
qed

lemma rl_checkLimit_inv:
  assumes inv: "rl_inv rl h now0" and mono: "now0 \<le> now" and w: "0 \<le> windowMs rl"
    and r: "rl_checkLimit now rl = (rl', r)"
  shows "rl_inv rl' (if res_ok r then h @ [now] else h) now"
    and "maxRequests rl' = maxRequests rl" and "windowMs rl' = windowMs rl"
  using r rl_inv_purge [OF inv mono] rl_inv_admit [OF inv mono w]
  by (auto simp: rl_checkLimit_cases [OF inv mono] Let_def split: if_splits)

lemma rl_run_inv:
  assumes "rl_inv rl h now0" and "0 \<le> windowMs rl" and "sorted (now0 # ts)"
    and "rl_run rl ts = (rl', adm)"
  shows "\<exists>now. rl_inv rl' (h @ adm) now \<and> maxRequests rl' = maxRequests rl \<and> windowMs rl' = windowMs rl"
  using assms
proof (induction ts arbitrary: rl h now0 adm)
  case Nil
  then show ?case by auto
next
  case (Cons t ts)
  obtain rl1 r where c: "rl_checkLimit t rl = (rl1, r)" by fastforce
  have inv1: "rl_inv rl1 (if res_ok r then h @ [t] else h) t"
    and eqs: "maxRequests rl1 = maxRequests rl" "windowMs rl1 = windowMs rl"
    using rl_checkLimit_inv [OF Cons.prems(1) _ Cons.prems(2) c] Cons.prems(3) by auto
  obtain rl2 adm2 where run: "rl_run rl1 ts = (rl2, adm2)" by fastforce
  have w1: "0 \<le> windowMs rl1" and st: "sorted (t # ts)" using eqs Cons.prems(2,3) by simp_all
  have "rl2 = rl'" "adm = (if res_ok r then t # adm2 else adm2)"
    using Cons.prems(4) c run by (cases r; simp)+
  with Cons.IH [OF inv1 w1 st] run eqs show ?case by (cases "res_ok r") auto
qed

text \<open>For every sequence of calls at non-decreasing clock readings, no interval of length
  \<open>windowMs\<close> contains more than \<open>maxRequests\<close> admitted requests, wherever it is placed.\<close>

theorem rate_limiter_window_bound:
  assumes "0 \<le> mx" and "0 \<le> w" and "sorted ts"
  shows "int (length (filter (\<lambda>t. a \<le> t \<and> t \<le> a + w) (snd (rl_run (new_rate_limiter mx w) ts)))) \<le> mx"
proof -
  obtain rl' adm where run: "rl_run (new_rate_limiter mx w) ts = (rl', adm)" by fastforce
  define t0 where "t0 = (case ts of [] \<Rightarrow> 0 | t # _ \<Rightarrow> t)"
  have "sorted (t0 # ts)" using assms(3) by (cases ts) (auto simp: t0_def)
  from rl_run_inv [OF rl_inv_new _ this run] assms(2)
  obtain now where "rl_inv rl' adm now" "maxRequests rl' = mx" "windowMs rl' = w"
    by (auto simp: new_rate_limiter_def)
  with assms(1) show ?thesis by (auto simp: run rl_inv_def)
qed

theorem rate_limiter_window_bound_witness:
  "snd (rl_run (new_rate_limiter 2 10) [0, 1, 5, 11, 12]) = [0, 1, 11, 12]
   \<and> length (filter (\<lambda>t. 1 \<le> t \<and> t \<le> 1 + 10) (snd (rl_run (new_rate_limiter 2 10) [0, 1, 5, 11, 12]))) \<le> (2::int)"
  using rate_limiter_window_bound [of 2 10 "[0, 1, 5, 11, 12]" 1]
  by (simp add: new_rate_limiter_def rl_checkLimit_def Let_def)

text \<open>\<open>getRemainingRequests\<close> agrees with what \<open>checkLimit\<close> would do at the same instant.\<close>

lemma rl_remaining_iff:
  assumes "sorted (requests rl)"
  shows "rl_getRemainingRequests now rl > 0 \<longleftrightarrow> res_ok (snd (rl_checkLimit now rl))"
  using assms
  by (simp add: rl_getRemainingRequests_def rl_checkLimit_def Let_def dropWhile_sorted_filter not_le)

section \<open>Exponential back-off\<close>

text \<open>
  The three back-off formulas of the backend share one shape: a capped exponential with
  symmetric jitter. These two auxiliary functions carry the bounds for all of them.
\<close>

definition capped_exp :: "real \<Rightarrow> real \<Rightarrow> real \<Rightarrow> int \<Rightarrow> real" where
  "capped_exp init factor cap k = min (init * (factor powi k)) cap"

definition jittered :: "real \<Rightarrow> real \<Rightarrow> real \<Rightarrow> real" where
  "jittered base j rnd = max 0 (base + base * j * (rnd * 2 - 1))"

named_theorems backoff_defs "definitions of the back-off formulas"
declare capped_exp_def [backoff_defs] jittered_def [backoff_defs]

lemma capped_exp_nonneg: "0 \<le> init \<Longrightarrow> 0 \<le> factor \<Longrightarrow> 0 \<le> cap \<Longrightarrow> 0 \<le> capped_exp init factor cap k"
  by (simp add: capped_exp_def)

lemma capped_exp_le: "capped_exp init factor cap k \<le> cap"
  by (simp add: capped_exp_def)

lemma capped_exp_mono:
  assumes "0 \<le> init" and "1 \<le> factor" and "k \<le> k'"
  shows "capped_exp init factor cap k \<le> capped_exp init factor cap k'"
proof -
  have "factor powi k \<le> factor powi k'" using assms(2,3) by (rule power_int_increasing [rotated])
  then have "init * (factor powi k) \<le> init * (factor powi k')" using assms(1) by (rule mult_left_mono)
  then show ?thesis by (simp add: capped_exp_def min.coboundedI1 min_le_iff_disj)
qed

lemma jittered_bounds:
  assumes "0 \<le> base" and "0 \<le> j" and "0 \<le> rnd" and "rnd < 1"
  shows "max 0 (base - base * j) \<le> jittered base j rnd" and "jittered base j rnd \<le> base + base * j"
proof -
  have nn: "0 \<le> base * j" using assms by simp
  have "base * j * (rnd * 2 - 1) \<ge> base * j * (- 1)" using nn assms(3) by (intro mult_left_mono) auto
  moreover have "base * j * (rnd * 2 - 1) \<le> base * j * 1" using nn assms(4) by (intro mult_left_mono) auto
  ultimately show "max 0 (base - base * j) \<le> jittered base j rnd" "jittered base j rnd \<le> base + base * j"
    using nn assms(1) by (auto simp: jittered_def)
qed

subsection \<open>\<open>calculateBackoffDelay\<close>\<close>

record retry_config =
  rcMaxAttempts :: int
  rcInitialDelay :: real
  rcMaxDelay :: real
  rcBackoffFactor :: real
  rcJitterFactor :: "real option"

definition USER_RETRY_CONFIG :: retry_config where
  "USER_RETRY_CONFIG = \<lparr>rcMaxAttempts = 3, rcInitialDelay = 500, rcMaxDelay = 5000,
     rcBackoffFactor = 2, rcJitterFactor = Some (1/10)\<rparr>"

definition BACKGROUND_RETRY_CONFIG :: retry_config where
  "BACKGROUND_RETRY_CONFIG = \<lparr>rcMaxAttempts = 10, rcInitialDelay = 2000, rcMaxDelay = 60000,
     rcBackoffFactor = 2, rcJitterFactor = Some (2/10)\<rparr>"

definition calculateBackoffDelay :: "int \<Rightarrow> retry_config \<Rightarrow> real \<Rightarrow> real" where
  "calculateBackoffDelay attempt config rnd =
     (let exponentialDelay = min (rcInitialDelay config * (rcBackoffFactor config powi (attempt - 1)))
                               (rcMaxDelay config);
          jitter = (case rcJitterFactor config of None \<Rightarrow> 0 | Some j \<Rightarrow> j);
          jitterAmount = exponentialDelay * jitter * (rnd * 2 - 1)
      in max 0 (exponentialDelay + jitterAmount))"

lemma calculateBackoffDelay_eq [backoff_defs]:
  "calculateBackoffDelay attempt config rnd =
     jittered (capped_exp (rcInitialDelay config) (rcBackoffFactor config) (rcMaxDelay config) (attempt - 1))
       (case rcJitterFactor config of None \<Rightarrow> 0 | Some j \<Rightarrow> j) rnd"
  by (simp add: calculateBackoffDelay_def capped_exp_def jittered_def Let_def)

subsection \<open>Listener reconnect back-off\<close>

record reconnect_config =
  initialDelayMs :: real
  maxDelayMs :: real
  backoffFactor :: real
  jitterFraction :: real
  healthResetThreshold :: int
  maxRetries :: int

definition LISTENER_RECONNECT_CONFIG :: reconnect_config where
  "LISTENER_RECONNECT_CONFIG = \<lparr>initialDelayMs = 1000, maxDelayMs = 300000, backoffFactor = 2,
     jitterFraction = 25/100, healthResetThreshold = 5, maxRetries = 10\<rparr>"

definition calculateReconnectDelay :: "int \<Rightarrow> reconnect_config \<Rightarrow> real \<Rightarrow> real" where
  "calculateReconnectDelay attempt config rnd =
     (let base = min (initialDelayMs config * (backoffFactor config powi attempt)) (maxDelayMs config);
          jitter = base * jitterFraction config * (rnd * 2 - 1)
      in max 0 (base + jitter))"

lemma calculateReconnectDelay_eq [backoff_defs]:
  "calculateReconnectDelay attempt config rnd =
     jittered (capped_exp (initialDelayMs config) (backoffFactor config) (maxDelayMs config) attempt)
       (jitterFraction config) rnd"
  by (simp add: calculateReconnectDelay_def capped_exp_def jittered_def Let_def)

record listener_backoff =
  lbAttempt :: int
  lbConsecutiveSuccesses :: int

definition new_listener_backoff :: listener_backoff where
  "new_listener_backoff = \<lparr>lbAttempt = 0, lbConsecutiveSuccesses = 0\<rparr>"

definition lb_recordFailure :: "reconnect_config \<Rightarrow> real \<Rightarrow> listener_backoff \<Rightarrow> listener_backoff \<times> real \<times> int" where
  "lb_recordFailure config rnd s =
     (let s1 = s\<lparr>lbConsecutiveSuccesses := 0, lbAttempt := lbAttempt s + 1\<rparr>
      in (s1, calculateReconnectDelay (lbAttempt s1) config rnd, lbAttempt s1))"

definition lb_recordSuccess :: "reconnect_config \<Rightarrow> listener_backoff \<Rightarrow> listener_backoff" where
  "lb_recordSuccess config s =
     (let s1 = s\<lparr>lbConsecutiveSuccesses := lbConsecutiveSuccesses s + 1\<rparr>
      in if lbConsecutiveSuccesses s1 \<ge> healthResetThreshold config \<and> lbAttempt s1 > 0
         then s1\<lparr>lbAttempt := 0, lbConsecutiveSuccesses := 0\<rparr> else s1)"

definition lb_reset :: "listener_backoff \<Rightarrow> listener_backoff" where
  "lb_reset s = s\<lparr>lbAttempt := 0, lbConsecutiveSuccesses := 0\<rparr>"

text \<open>\<open>n\<close> successes in a row.\<close>

lemma lb_successes_below:
  assumes "lbConsecutiveSuccesses s = 0" and "int n < healthResetThreshold config"
  shows "(lb_recordSuccess config ^^ n) s = s\<lparr>lbConsecutiveSuccesses := int n\<rparr>"
  using assms by (induction n) (auto simp: lb_recordSuccess_def Let_def)

text \<open>The attempt counter of the reconnect back-off, raised by a failure, stays untouched by fewer
  than \<open>healthResetThreshold\<close> consecutive successes and is reset by exactly that many.\<close>

theorem listener_backoff_resets_after_threshold:
  assumes "1 \<le> healthResetThreshold config" and "0 \<le> lbAttempt s"
    and "int n \<le> healthResetThreshold config"
  shows "lbAttempt ((lb_recordSuccess config ^^ n) (fst (lb_recordFailure config rnd s)))
    = (if int n = healthResetThreshold config then 0 else lbAttempt s + 1)"
proof -
  let ?s = "fst (lb_recordFailure config rnd s)"
  have s: "lbConsecutiveSuccesses ?s = 0" "lbAttempt ?s = lbAttempt s + 1"
    by (simp_all add: lb_recordFailure_def Let_def)
  show ?thesis
  proof (cases "int n = healthResetThreshold config")
    case True
    with assms(1) obtain k where n: "n = Suc k" by (cases n) auto
    with True have "int k < healthResetThreshold config" by simp
    from lb_successes_below [OF s(1) this] True n s assms(2) show ?thesis
      by (simp add: lb_recordSuccess_def Let_def)
  next
    case False
    with assms(3) have "int n < healthResetThreshold config" by simp
    from lb_successes_below [OF s(1) this] False s show ?thesis by simp
  qed
qed

theorem listener_backoff_resets_after_threshold_witness:
  "lbAttempt ((lb_recordSuccess LISTENER_RECONNECT_CONFIG ^^ 5)
     (fst (lb_recordFailure LISTENER_RECONNECT_CONFIG 0 new_listener_backoff))) = 0"
  using listener_backoff_resets_after_threshold [of LISTENER_RECONNECT_CONFIG new_listener_backoff 5 0]
  by (simp add: LISTENER_RECONNECT_CONFIG_def new_listener_backoff_def)

text \<open>Every delay returned by the reconnect back-off is non-negative, within the configured
  jitter fraction of the capped exponential for the new attempt number, and so never exceeds
  \<open>maxDelayMs\<close> by more than that fraction.\<close>

theorem listener_delay_bounds:
  assumes "0 \<le> initialDelayMs config" and "0 \<le> backoffFactor config" and "0 \<le> maxDelayMs config"
    and "0 \<le> jitterFraction config" and "jitterFraction config \<le> 1" and "0 \<le> rnd" and "rnd < 1"
  shows "case lb_recordFailure config rnd s of (s', delay, attempt) \<Rightarrow>
      attempt = lbAttempt s + 1 \<and> lbAttempt s' = attempt \<and> 0 \<le> delay
      \<and> (let base = min (initialDelayMs config * (backoffFactor config powi attempt)) (maxDelayMs config)
         in \<bar>delay - base\<bar> \<le> base * jitterFraction config)
      \<and> delay \<le> maxDelayMs config * (1 + jitterFraction config)"
proof -
  let ?b = "capped_exp (initialDelayMs config) (backoffFactor config) (maxDelayMs config) (lbAttempt s + 1)"
  let ?j = "jitterFraction config"
  have b: "0 \<le> ?b" "?b \<le> maxDelayMs config"
    using assms(1-3) by (auto intro: capped_exp_nonneg capped_exp_le)
  note bd = jittered_bounds [OF b(1) assms(4,6,7)]
  have "?b + ?b * ?j \<le> maxDelayMs config * (1 + ?j)"
    using b assms(4) by (simp add: distrib_left add_mono mult_right_mono)
  with bd(2) have hi: "jittered ?b ?j rnd \<le> maxDelayMs config * (1 + ?j)" by linarith
  have lo: "0 \<le> jittered ?b ?j rnd" by (simp add: jittered_def)
  have dev: "\<bar>jittered ?b ?j rnd - ?b\<bar> \<le> ?b * ?j"
    using bd by (simp add: abs_le_iff)
  have e: "min (initialDelayMs config * (backoffFactor config powi (lbAttempt s + 1))) (maxDelayMs config) = ?b"
    by (simp add: capped_exp_def)
  show ?thesis
    using hi lo dev unfolding lb_recordFailure_def Let_def calculateReconnectDelay_eq
    by (simp add: e)
qed

theorem listener_delay_bounds_witness:
  "case lb_recordFailure LISTENER_RECONNECT_CONFIG (1/2) new_listener_backoff of (s', delay, attempt) \<Rightarrow>
     attempt = 1 \<and> delay = 2000 \<and> delay \<le> 300000 * (1 + 25/100)"
  using listener_delay_bounds [of LISTENER_RECONNECT_CONFIG "1/2" new_listener_backoff]
  by (simp add: LISTENER_RECONNECT_CONFIG_def new_listener_backoff_def lb_recordFailure_def
      calculateReconnectDelay_def Let_def)

section \<open>Error classification of the RPC client\<close>

text \<open>
  The thrown value is of type \<open>any\<close>. Reading a property of \<open>null\<close> or \<open>undefined\<close>, or calling
  \<open>toLowerCase\<close> on a truthy message that is not a string, throws a \<open>TypeError\<close>. HTTP clients
  report \<open>status\<close> as a number; a non-numeric status fails the numeric comparisons.
\<close>

datatype js_exn = JsTypeError

definition isRetryableError :: "jsval \<Rightarrow> (js_exn, bool) res" where
  "isRetryableError error =
     (if js_nullish error then Inl JsTypeError
      else if js_prop error ''code'' \<in> {JStr ''ECONNRESET'', JStr ''ETIMEDOUT'', JStr ''ENOTFOUND''}
      then Inr True
      else
        let status = js_prop (js_prop error ''response'') ''status'';
            byStatus = (case status of JNum n \<Rightarrow> n = 429 \<or> (500 \<le> n \<and> n < 600) | _ \<Rightarrow> False)
        in if js_truthy status \<and> byStatus then Inr True
           else
             (let message = js_prop error ''message'' in
              if \<not> js_truthy message then Inr False
              else (case message of
                      JStr m \<Rightarrow>
                        (let msg = to_lower m in
                         Inr (str_includes msg ''timeout'' \<or> str_includes msg ''network''
                              \<or> str_includes msg ''bad_seq'' \<or> str_includes msg ''tx_bad_seq''
                              \<or> (str_includes msg ''sequence'' \<and> str_includes msg ''mismatch'')))
                    | _ \<Rightarrow> Inl JsTypeError)))"

section \<open>Webhook delivery retries\<close>

record webhook_retry_config =
  wrMaxAttempts :: int
  wrBaseDelayMs :: real
  wrBackoffMultiplier :: real
  wrMaxDelayMs :: real
  wrJitter :: bool
  wrNonRetryableStatuses :: "int list"

record attempt_result =
  arSuccess :: bool
  arStatusCode :: "int option"
  arError :: "string option"

record retry_outcome =
  roSuccess :: bool
  roAttempts :: int
  roTotalDurationMs :: int
  roLastStatusCode :: "int option"
  roLastError :: "string option"

definition DEFAULT_RETRY_CONFIG :: webhook_retry_config where
  "DEFAULT_RETRY_CONFIG = \<lparr>wrMaxAttempts = 5, wrBaseDelayMs = 1000, wrBackoffMultiplier = 2,
     wrMaxDelayMs = 30000, wrJitter = True, wrNonRetryableStatuses = [400, 401, 403, 404, 405, 410, 422]\<rparr>"

definition js_round :: "real \<Rightarrow> int" where
  "js_round x = \<lfloor>x + 1 / 2\<rfloor>"

definition computeDelay :: "int \<Rightarrow> webhook_retry_config \<Rightarrow> real \<Rightarrow> int" where
  "computeDelay attempt config rnd =
     (let raw = wrBaseDelayMs config * (wrBackoffMultiplier config powi (attempt - 1));
          capped = min raw (wrMaxDelayMs config)
      in if \<not> wrJitter config then js_round capped
         else (let jitterRange = capped * (25/100);
                   jittered = capped + (rnd * 2 - 1) * jitterRange
               in js_round (max 0 jittered)))"

definition isRetryable :: "int option \<Rightarrow> int list \<Rightarrow> bool" where
  "isRetryable statusCode nonRetryableStatuses =
     (case statusCode of None \<Rightarrow> True | Some c \<Rightarrow> c \<notin> set nonRetryableStatuses)"

text \<open>
  \<open>WebhookRetryService.execute\<close>. The attempt function and the injected delay act on an outside
  world \<open>'w\<close> from which the clock is read. The loop returns the number of the attempt that
  succeeded, or \<open>None\<close> when it breaks or runs out, with the last result.
\<close>

function wr_loop ::
  "webhook_retry_config \<Rightarrow> (int \<Rightarrow> 'w \<Rightarrow> 'w \<times> attempt_result) \<Rightarrow> (int \<Rightarrow> 'w \<Rightarrow> 'w) \<Rightarrow> (int \<Rightarrow> real)
     \<Rightarrow> int \<Rightarrow> attempt_result \<Rightarrow> 'w \<Rightarrow> 'w \<times> int option \<times> attempt_result" where
  "wr_loop config attemptFn delayFn rnd attempt lastResult w =
     (if attempt \<le> wrMaxAttempts config then
        (case attemptFn attempt w of
           (w1, r) \<Rightarrow>
             if arSuccess r then (w1, Some attempt, r)
             else if \<not> isRetryable (arStatusCode r) (wrNonRetryableStatuses config) then (w1, None, r)
             else
               (let w2 = (if attempt < wrMaxAttempts config
                          then delayFn (computeDelay attempt config (rnd attempt)) w1 else w1)
                in wr_loop config attemptFn delayFn rnd (attempt + 1) r w2))
      else (w, None, lastResult))"
  by pat_completeness auto
termination
  by (relation "measure (\<lambda>(config, _, _, _, attempt, _, _). nat (wrMaxAttempts config + 1 - attempt))") auto

declare wr_loop.simps [simp del]

definition wr_execute ::
  "webhook_retry_config \<Rightarrow> (int \<Rightarrow> 'w \<Rightarrow> 'w \<times> attempt_result) \<Rightarrow> (int \<Rightarrow> 'w \<Rightarrow> 'w) \<Rightarrow> (int \<Rightarrow> real)
     \<Rightarrow> ('w \<Rightarrow> int) \<Rightarrow> 'w \<Rightarrow> 'w \<times> retry_outcome" where
  "wr_execute config attemptFn delayFn rnd clock w =
     (let startMs = clock w;
          noAttempt = \<lparr>arSuccess = False, arStatusCode = None, arError = Some ''No attempts made''\<rparr>
      in case wr_loop config attemptFn delayFn rnd 1 noAttempt w of
           (w', Some attempt, r) \<Rightarrow>
             (w', \<lparr>roSuccess = True, roAttempts = attempt, roTotalDurationMs = clock w' - startMs,
                  roLastStatusCode = arStatusCode r, roLastError = None\<rparr>)
         | (w', None, r) \<Rightarrow>
             (w', \<lparr>roSuccess = False, roAttempts = wrMaxAttempts config,
                  roTotalDurationMs = clock w' - startMs,
                  roLastStatusCode = arStatusCode r, roLastError = arError r\<rparr>))"

text \<open>
  The loop against a declarative description: with the attempts numbered \<open>k, k+1, ..\<close>, the engine
  stops at the first attempt that is not a retryable failure.
\<close>

definition wr_stops :: "webhook_retry_config \<Rightarrow> attempt_result \<Rightarrow> bool" where
  "wr_stops config r \<longleftrightarrow> arSuccess r \<or> \<not> isRetryable (arStatusCode r) (wrNonRetryableStatuses config)"

text \<open>An attempt function that answers by attempt number and logs its calls.\<close>

definition logged :: "(int \<Rightarrow> attempt_result) \<Rightarrow> int \<Rightarrow> int list \<Rightarrow> int list \<times> attempt_result" where
  "logged f k w = (w @ [k], f k)"

lemma wr_loop_stop:
  assumes "attempt \<le> wrMaxAttempts config" and "wr_stops config (f attempt)"
  shows "wr_loop config (logged f) (\<lambda>_ w. w) rnd attempt lastR w
    = (w @ [attempt], if arSuccess (f attempt) then Some attempt else None, f attempt)"
  using assms by (subst wr_loop.simps) (auto simp: logged_def wr_stops_def)

lemma wr_loop_continue:
  assumes "attempt \<le> wrMaxAttempts config" and "\<not> wr_stops config (f attempt)"
  shows "wr_loop config (logged f) (\<lambda>_ w. w) rnd attempt lastR w
    = wr_loop config (logged f) (\<lambda>_ w. w) rnd (attempt + 1) (f attempt) (w @ [attempt])"
  using assms by (subst wr_loop.simps) (auto simp: logged_def wr_stops_def Let_def)

lemma wr_loop_exhausted:
  "wrMaxAttempts config < attempt \<Longrightarrow>
     wr_loop config (logged f) (\<lambda>_ w. w) rnd attempt lastR w = (w, None, lastR)"
  by (subst wr_loop.simps) simp

lemma wr_loop_first_stop:
  assumes "attempt \<le> m" and "m \<le> wrMaxAttempts config"
    and "\<forall>k. attempt \<le> k \<and> k < m \<longrightarrow> \<not> wr_stops config (f k)" and "wr_stops config (f m)"
  shows "wr_loop config (logged f) (\<lambda>_ w. w) rnd attempt lastR w
    = (w @ [attempt..m], if arSuccess (f m) then Some m else None, f m)"
  using assms
proof (induction "nat (m - attempt)" arbitrary: attempt lastR w)
  case 0
  then have "attempt = m" by simp
  with 0 show ?case by (simp add: wr_loop_stop)
next
  case (Suc d)
  then have lt: "attempt < m" and d: "d = nat (m - (attempt + 1))" by linarith+
  then have "\<not> wr_stops config (f attempt)" "attempt \<le> wrMaxAttempts config" using Suc.prems by auto
  with Suc.hyps(1) [OF d] Suc.prems lt show ?case
    by (simp add: wr_loop_continue upto.simps [of attempt m])
qed

lemma wr_loop_no_stop:
  assumes "attempt \<le> wrMaxAttempts config"
    and "\<forall>k. attempt \<le> k \<and> k \<le> wrMaxAttempts config \<longrightarrow> \<not> wr_stops config (f k)"
  shows "wr_loop config (logged f) (\<lambda>_ w. w) rnd attempt lastR w
    = (w @ [attempt..wrMaxAttempts config], None, f (wrMaxAttempts config))"
  using assms
proof (induction "nat (wrMaxAttempts config - attempt)" arbitrary: attempt lastR w)
  case 0
  then have "attempt = wrMaxAttempts config" by simp
  with 0 show ?case by (simp add: wr_loop_continue wr_loop_exhausted)
next
  case (Suc d)
  then have lt: "attempt < wrMaxAttempts config" and d: "d = nat (wrMaxAttempts config - (attempt + 1))"
    by linarith+
  have step: "wr_loop config (logged f) (\<lambda>_ w. w) rnd attempt lastR w
      = wr_loop config (logged f) (\<lambda>_ w. w) rnd (attempt + 1) (f attempt) (w @ [attempt])"
    using Suc.prems by (intro wr_loop_continue) auto
  show ?case unfolding step
    using Suc.hyps(1) [OF d] Suc.prems lt by (simp add: upto.simps [of attempt "wrMaxAttempts config"])
qed

text \<open>The retry engine calls the delivery function for attempts \<open>1 .. m\<close> and no further, where
  \<open>m\<close> is the first attempt that succeeds or fails with a non-retryable status, and reports success,
  the status code and (on success) the attempt count of that attempt.\<close>

theorem webhook_retry_stops_at_first_final:
  assumes "1 \<le> m" and "m \<le> wrMaxAttempts config"
    and "\<forall>k. 1 \<le> k \<and> k < m \<longrightarrow> \<not> wr_stops config (f k)" and "wr_stops config (f m)"
  shows "case wr_execute config (logged f) (\<lambda>_ w. w) rnd clock [] of (calls, outcome) \<Rightarrow>
      calls = [1..m] \<and> roSuccess outcome = arSuccess (f m)
      \<and> roLastStatusCode outcome = arStatusCode (f m)
      \<and> (if arSuccess (f m) then roAttempts outcome = m \<and> roLastError outcome = None
         else roLastError outcome = arError (f m))"
  using wr_loop_first_stop [OF assms] by (simp add: wr_execute_def Let_def split: if_splits)

definition wr_example_attempt :: "int \<Rightarrow> attempt_result" where
  "wr_example_attempt k = (if k < 3 then \<lparr>arSuccess = False, arStatusCode = Some 503, arError = Some ''503''\<rparr>
     else \<lparr>arSuccess = True, arStatusCode = Some 200, arError = None\<rparr>)"

theorem webhook_retry_stops_at_first_final_witness:
  "case wr_execute DEFAULT_RETRY_CONFIG (logged wr_example_attempt) (\<lambda>_ w. w) (\<lambda>_. 0) (\<lambda>_. 0) [] of
     (calls, outcome) \<Rightarrow> calls = [1..3] \<and> roSuccess outcome \<and> roAttempts outcome = 3"
  using webhook_retry_stops_at_first_final [of 3 DEFAULT_RETRY_CONFIG wr_example_attempt "\<lambda>_. 0" "\<lambda>_. 0"]
  by (simp add: DEFAULT_RETRY_CONFIG_def wr_example_attempt_def wr_stops_def isRetryable_def split: prod.splits)

text \<open>When every attempt fails retryably the engine makes exactly \<open>maxAttempts\<close> calls, in order, and
  reports failure with \<open>maxAttempts\<close> attempts and the last result's status and error.\<close>

theorem webhook_retry_exhausts_attempts:
  assumes "1 \<le> wrMaxAttempts config"
    and "\<forall>k. 1 \<le> k \<and> k \<le> wrMaxAttempts config \<longrightarrow> \<not> wr_stops config (f k)"
  shows "case wr_execute config (logged f) (\<lambda>_ w. w) rnd clock [] of (calls, outcome) \<Rightarrow>
      calls = [1..wrMaxAttempts config] \<and> \<not> roSuccess outcome
      \<and> roAttempts outcome = wrMaxAttempts config
      \<and> roLastStatusCode outcome = arStatusCode (f (wrMaxAttempts config))
      \<and> roLastError outcome = arError (f (wrMaxAttempts config))"
  using wr_loop_no_stop [OF assms] by (simp add: wr_execute_def Let_def)

theorem webhook_retry_exhausts_attempts_witness:
  "case wr_execute DEFAULT_RETRY_CONFIG
       (logged (\<lambda>_. \<lparr>arSuccess = False, arStatusCode = None, arError = Some ''timeout''\<rparr>))
       (\<lambda>_ w. w) (\<lambda>_. 0) (\<lambda>_. 0) [] of
     (calls, outcome) \<Rightarrow> calls = [1..5] \<and> roAttempts outcome = 5"
  using webhook_retry_exhausts_attempts [of DEFAULT_RETRY_CONFIG
      "\<lambda>_. \<lparr>arSuccess = False, arStatusCode = None, arError = Some ''timeout''\<rparr>" "\<lambda>_. 0" "\<lambda>_. 0"]
  by (simp add: DEFAULT_RETRY_CONFIG_def wr_stops_def isRetryable_def split: prod.splits)

text \<open>
  A delivery that stops early on a non-retryable status is nevertheless reported with
  \<open>maxAttempts\<close> attempts: one call was made, five are reported.
\<close>

lemma webhook_retry_misreports_attempts:
  "case wr_execute DEFAULT_RETRY_CONFIG
       (logged (\<lambda>_. \<lparr>arSuccess = False, arStatusCode = Some 404, arError = None\<rparr>))
       (\<lambda>_ w. w) (\<lambda>_. 0) (\<lambda>_. 0) [] of
     (calls, outcome) \<Rightarrow> calls = [1] \<and> roAttempts outcome = 5"
  by (simp add: wr_execute_def Let_def wr_loop.simps logged_def DEFAULT_RETRY_CONFIG_def isRetryable_def)

text \<open>The delay before a retry never leaves \<open>[0, 1.25 * maxDelayMs]\<close> (rounded).\<close>

lemma computeDelay_bounds:
  assumes "0 \<le> wrBaseDelayMs config" and "0 \<le> wrBackoffMultiplier config" and "0 \<le> wrMaxDelayMs config"
    and "0 \<le> rnd" and "rnd < 1"
  shows "0 \<le> computeDelay attempt config rnd
    \<and> real_of_int (computeDelay attempt config rnd) \<le> wrMaxDelayMs config * (1 + 25/100) + 1/2"
proof -
  let ?b = "capped_exp (wrBaseDelayMs config) (wrBackoffMultiplier config) (wrMaxDelayMs config) (attempt - 1)"
  have b: "0 \<le> ?b" "?b \<le> wrMaxDelayMs config"
    using assms(1-3) by (auto intro: capped_exp_nonneg capped_exp_le)
  have eq: "computeDelay attempt config rnd = js_round (if wrJitter config then jittered ?b (25/100) rnd else ?b)"
    by (simp add: computeDelay_def capped_exp_def jittered_def Let_def mult.commute)
  have lo: "0 \<le> (if wrJitter config then jittered ?b (25/100) rnd else ?b)"
    using b(1) by (simp add: jittered_def)
  have hi: "(if wrJitter config then jittered ?b (25/100) rnd else ?b) \<le> wrMaxDelayMs config * (1 + 25/100)"
    using jittered_bounds(2) [OF b(1) _ assms(4,5), of "25/100"] b by (auto simp: distrib_left)
  have "real_of_int (js_round x) \<le> x + 1/2" "0 \<le> x \<Longrightarrow> 0 \<le> js_round x" for x
    by (auto simp: js_round_def)
  with lo hi show ?thesis unfolding eq by (meson add_right_mono order_trans)
qed

end
