(* ===== verification/Token_Buckets.thy ===== *)
theory Token_Buckets
  imports JS_Value "HOL-Library.Multiset"
begin

text \<open>
  The two token buckets of the backend and what they have in common:
  \<^item> \<open>backend/src/stellar-service-integration/retry-budget.ts\<close>: the retry budget shared by all
    calls of one RPC client, and the classification of RPC failures;
  \<^item> \<open>backend/src/services/tenantWebhookRateLimiter.ts\<close>: one bucket per tenant in front of
    webhook delivery, with a first-in first-out queue drained by a timer.

  The locale \<open>token_bucket\<close> is the contract both rely on: whatever an operation grants is paid
  for by stored tokens, elapsed time or an explicit deposit. The throughput bound is proved once
  there. Token amounts are real numbers; the clock of a run does not go backwards.
\<close>

section \<open>The token-bucket contract\<close>

locale token_bucket =
  fixes step :: "'op \<Rightarrow> 's \<Rightarrow> 's \<times> nat"
    and at_time :: "'op \<Rightarrow> int"
    and deposit :: "'op \<Rightarrow> 's \<Rightarrow> real"
    and tokens :: "'s \<Rightarrow> real"
    and last_refill :: "'s \<Rightarrow> int"
    and rate :: "'s \<Rightarrow> real"
    and inv :: "'s \<Rightarrow> bool"
  assumes inv_step: "inv s \<Longrightarrow> inv (fst (step x s))"
    and inv_tokens: "inv s \<Longrightarrow> 0 \<le> tokens s"
    and inv_rate: "inv s \<Longrightarrow> 0 \<le> rate s"
    and rate_step: "rate (fst (step x s)) = rate s"
    and deposit_step: "deposit y (fst (step x s)) = deposit y s"
    and last_step: "inv s \<Longrightarrow> last_refill s \<le> at_time x \<Longrightarrow> last_refill (fst (step x s)) \<le> at_time x"
    and pay: "inv s \<Longrightarrow> last_refill s \<le> at_time x \<Longrightarrow>
       tokens (fst (step x s)) + real (snd (step x s)) + rate s * real_of_int (at_time x - last_refill (fst (step x s)))
         \<le> tokens s + rate s * real_of_int (at_time x - last_refill s) + deposit x s"
begin

fun run :: "'s \<Rightarrow> 'op list \<Rightarrow> 's \<times> nat" where
  "run s [] = (s, 0)"
| "run s (x # xs) = (case step x s of (s1, n) \<Rightarrow> (case run s1 xs of (s2, m) \<Rightarrow> (s2, n + m)))"

lemma run_grants_bound:
  assumes "inv s" and "\<forall>x\<in>set xs. at_time x \<le> t" and "last_refill s \<le> t"
    and "sorted (last_refill s # map at_time xs)"
  shows "real (snd (run s xs)) \<le> tokens s + rate s * real_of_int (t - last_refill s)
    + sum_list (map (\<lambda>x. deposit x s) xs)"
  using assms
proof (induction xs arbitrary: s)
  case Nil
  then show ?case using inv_tokens [of s] inv_rate [of s] by simp
next
  case (Cons x xs)
  obtain s1 n where st: "step x s = (s1, n)" by fastforce
  have le: "last_refill s \<le> at_time x" "at_time x \<le> t" using Cons.prems by auto
  have s1: "inv s1" "rate s1 = rate s" "last_refill s1 \<le> at_time x"
    "\<And>y. deposit y s1 = deposit y s"
    using inv_step [OF Cons.prems(1), of x] rate_step [of x s] last_step [OF Cons.prems(1) le(1)]
      deposit_step [of _ x s] st by auto
  have sorted: "sorted (last_refill s1 # map at_time xs)"
    using Cons.prems(4) s1(3) by (auto intro: order_trans)
  have IH: "real (snd (run s1 xs)) \<le> tokens s1 + rate s * real_of_int (t - last_refill s1)
      + sum_list (map (\<lambda>x. deposit x s) xs)"
    using Cons.IH [OF s1(1) _ _ sorted] Cons.prems(2) s1 le by simp
  have pay': "tokens s1 + real n + rate s * real_of_int (at_time x - last_refill s1)
      \<le> tokens s + rate s * real_of_int (at_time x - last_refill s) + deposit x s"
    using pay [OF Cons.prems(1) le(1)] st by simp
  define u v w where "u = rate s * real_of_int (at_time x - last_refill s)"
    and "v = rate s * real_of_int (at_time x - last_refill s1)"
    and "w = rate s * real_of_int (t - at_time x)"
  have split: "rate s * real_of_int (t - a) = rate s * real_of_int (at_time x - a) + w" for a
    by (simp add: w_def algebra_simps)
  have "real (snd (run s1 xs)) + real n \<le> tokens s + (u + w) + (deposit x s + sum_list (map (\<lambda>x. deposit x s) xs))"
    using IH pay' unfolding split [of "last_refill s1"] u_def v_def by linarith
  then show ?case
    by (simp add: st split_beta split [of "last_refill s"] u_def del: of_int_diff)
qed

end

section \<open>Classification of RPC failures\<close>

text \<open>
  A thrown value: its class among the Stellar exceptions, and its properties.
\<close>

datatype exn_class = StellarTimeout | StellarRateLimit | OtherStellar | NotStellar

record thrown =
  exnClass :: exn_class
  exnValue :: jsval

datatype retry_reason = Rnetwork | Rtimeout | Rrate_limited | Rserver_error | Rbad_sequence
  | Rhttp_error | Rlocal_rate_limit | Rapplication | Runknown

type_synonym error_classification = "bool \<times> retry_reason"

definition RETRYABLE_NETWORK_CODES :: "string list" where
  "RETRYABLE_NETWORK_CODES = [''ECONNRESET'', ''ECONNREFUSED'', ''ECONNABORTED'', ''ETIMEDOUT'',
     ''ENOTFOUND'', ''EAI_AGAIN'', ''EPIPE'', ''ENETUNREACH'', ''EHOSTUNREACH'']"

definition RETRYABLE_HTTP_STATUSES :: "int list" where
  "RETRYABLE_HTTP_STATUSES = [408, 429, 500, 502, 503, 504]"

definition httpStatusOf :: "jsval \<Rightarrow> int option" where
  "httpStatusOf error =
     (case js_coalesce (js_prop (js_prop error ''response'') ''status'') (js_prop error ''status'') of
        JNum n \<Rightarrow> Some n | _ \<Rightarrow> None)"

definition classify_message :: "exn_class \<Rightarrow> string \<Rightarrow> error_classification" where
  "classify_message cls msg =
     (if str_includes msg ''bad_seq'' \<or> (str_includes msg ''sequence'' \<and> str_includes msg ''mismatch'')
      then (True, Rbad_sequence)
      else if cls \<noteq> NotStellar then (False, Rapplication)
      else if str_includes msg ''timeout'' \<or> str_includes msg ''timed out'' then (True, Rtimeout)
      else if str_includes msg ''network'' \<or> str_includes msg ''socket hang up'' then (True, Rnetwork)
      else (False, Runknown))"

definition classifyRpcError :: "thrown \<Rightarrow> error_classification" where
  "classifyRpcError e =
     (if exnClass e = StellarTimeout then (True, Rtimeout)
      else if exnClass e = StellarRateLimit then (False, Rlocal_rate_limit)
      else
        let err = exnValue e;
            code = (case js_prop err ''code'' of JStr c \<Rightarrow> c | _ \<Rightarrow> []);
            message = (case js_prop err ''message'' of JStr m \<Rightarrow> to_lower m | _ \<Rightarrow> [])
        in if code \<noteq> [] \<and> code \<in> set RETRYABLE_NETWORK_CODES
           then (True, if code = ''ETIMEDOUT'' then Rtimeout else Rnetwork)
           else
             (case (if exnClass e = NotStellar then httpStatusOf err else None) of
                Some status \<Rightarrow>
                  if status = 429 then (True, Rrate_limited)
                  else if status = 408 then (True, Rtimeout)
                  else if status \<in> set RETRYABLE_HTTP_STATUSES then (True, Rserver_error)
                  else if 400 \<le> status \<and> status < 600 then (False, Rhttp_error)
                  else classify_message (exnClass e) message
              | None \<Rightarrow> classify_message (exnClass e) message))"

text \<open>An HTTP failure (a non-Stellar error with a numeric status from 400 to 599 and no
  transient network code) is retried if and only if its status is one of 408, 429, 500, 502, 503
  and 504.\<close>

theorem http_failure_retried_iff:
  assumes "exnClass e = NotStellar" and "httpStatusOf (exnValue e) = Some status"
    and "400 \<le> status" and "status < 600"
    and "\<forall>c\<in>set RETRYABLE_NETWORK_CODES. js_prop (exnValue e) ''code'' \<noteq> JStr c"
  shows "fst (classifyRpcError e) \<longleftrightarrow> status \<in> {408, 429, 500, 502, 503, 504}"
proof -
  have "\<not> ((case js_prop (exnValue e) ''code'' of JStr c \<Rightarrow> c | _ \<Rightarrow> []) \<noteq> []
      \<and> (case js_prop (exnValue e) ''code'' of JStr c \<Rightarrow> c | _ \<Rightarrow> []) \<in> set RETRYABLE_NETWORK_CODES)"
    using assms(5) by (auto split: jsval.splits)
  with assms(1-4) show ?thesis
    by (auto simp: classifyRpcError_def Let_def RETRYABLE_HTTP_STATUSES_def)
qed

theorem http_failure_retried_iff_witness:
  "\<not> fst (classifyRpcError \<lparr>exnClass = NotStellar,
     exnValue = JObj [(''response'', JObj [(''status'', JNum 507)]), (''message'', JStr ''timeout'')]\<rparr>)"
  using http_failure_retried_iff [of "\<lparr>exnClass = NotStellar,
     exnValue = JObj [(''response'', JObj [(''status'', JNum 507)]), (''message'', JStr ''timeout'')]\<rparr>" 507]
  by (simp add: httpStatusOf_def)

section \<open>The retry budget\<close>

record retry_budget =
  rbTokens :: real
  rbLastRefill :: int
  rbCapacity :: real
  rbRefillPerSecond :: real
  rbDepositPerSuccess :: real

datatype budget_error = CapacityNotPositive | RefillNegative | DepositNegative

definition new_retry_budget :: "real \<Rightarrow> real \<Rightarrow> real \<Rightarrow> int \<Rightarrow> (budget_error, retry_budget) res" where
  "new_retry_budget capacity refillPerSecond depositPerSuccess now =
     (if \<not> capacity > 0 then Inl CapacityNotPositive
      else if refillPerSecond < 0 then Inl RefillNegative
      else if depositPerSuccess < 0 then Inl DepositNegative
      else Inr \<lparr>rbTokens = capacity, rbLastRefill = now, rbCapacity = capacity,
                 rbRefillPerSecond = refillPerSecond, rbDepositPerSuccess = depositPerSuccess\<rparr>)"

definition rb_refill :: "int \<Rightarrow> retry_budget \<Rightarrow> retry_budget" where
  "rb_refill t b =
     (let elapsedSec = real_of_int (max 0 (t - rbLastRefill b)) / 1000;
          b1 = b\<lparr>rbLastRefill := t\<rparr>
      in if elapsedSec > 0 \<and> rbRefillPerSecond b > 0
         then b1\<lparr>rbTokens := min (rbCapacity b) (rbTokens b + elapsedSec * rbRefillPerSecond b)\<rparr>
         else b1)"

definition rb_tryAcquire :: "int \<Rightarrow> retry_budget \<Rightarrow> retry_budget \<times> bool" where
  "rb_tryAcquire t b =
     (let b1 = rb_refill t b
      in if rbTokens b1 \<ge> 1 then (b1\<lparr>rbTokens := rbTokens b1 - 1\<rparr>, True) else (b1, False))"

definition rb_recordSuccess :: "int \<Rightarrow> retry_budget \<Rightarrow> retry_budget" where
  "rb_recordSuccess t b =
     (if rbDepositPerSuccess b = 0 then b
      else let b1 = rb_refill t b
           in b1\<lparr>rbTokens := min (rbCapacity b1) (rbTokens b1 + rbDepositPerSuccess b1)\<rparr>)"

definition rb_available :: "int \<Rightarrow> retry_budget \<Rightarrow> retry_budget \<times> real" where
  "rb_available t b = (let b1 = rb_refill t b in (b1, rbTokens b1))"

definition rb_reset :: "int \<Rightarrow> retry_budget \<Rightarrow> retry_budget" where
  "rb_reset t b = b\<lparr>rbTokens := rbCapacity b, rbLastRefill := t\<rparr>"

definition rb_inv :: "retry_budget \<Rightarrow> bool" where
  "rb_inv b \<longleftrightarrow> 0 \<le> rbTokens b \<and> rbTokens b \<le> rbCapacity b
     \<and> 0 \<le> rbRefillPerSecond b \<and> 0 \<le> rbDepositPerSuccess b"

datatype rb_op = RbAcquire int | RbSuccess int | RbAvailable int

fun rb_step :: "rb_op \<Rightarrow> retry_budget \<Rightarrow> retry_budget \<times> nat" where
  "rb_step (RbAcquire t) b = (case rb_tryAcquire t b of (b1, ok) \<Rightarrow> (b1, if ok then 1 else 0))"
| "rb_step (RbSuccess t) b = (rb_recordSuccess t b, 0)"
| "rb_step (RbAvailable t) b = (fst (rb_available t b), 0)"

fun rb_time :: "rb_op \<Rightarrow> int" where
  "rb_time (RbAcquire t) = t" | "rb_time (RbSuccess t) = t" | "rb_time (RbAvailable t) = t"

fun rb_deposit :: "rb_op \<Rightarrow> retry_budget \<Rightarrow> real" where
  "rb_deposit (RbSuccess t) b = rbDepositPerSuccess b"
| "rb_deposit _ b = 0"

lemma rb_refill_fields [simp]:
  "rbCapacity (rb_refill t b) = rbCapacity b"
  "rbRefillPerSecond (rb_refill t b) = rbRefillPerSecond b"
  "rbDepositPerSuccess (rb_refill t b) = rbDepositPerSuccess b"
  "rbLastRefill (rb_refill t b) = t"
  by (simp_all add: rb_refill_def Let_def)

lemma rb_refill_bounds:
  assumes "rb_inv b"
  shows "rb_inv (rb_refill t b)" and "rbTokens b \<le> rbTokens (rb_refill t b)"
    and "rbLastRefill b \<le> t \<Longrightarrow> rbTokens (rb_refill t b)
       \<le> rbTokens b + rbRefillPerSecond b / 1000 * real_of_int (t - rbLastRefill b)"
  using assms by (auto simp: rb_inv_def rb_refill_def Let_def max_def min_le_iff_disj mult.commute)

lemma rb_recordSuccess_inv: "rb_inv b \<Longrightarrow> rb_inv (rb_recordSuccess t b)"
  using rb_refill_bounds [of b t] by (auto simp: rb_recordSuccess_def Let_def rb_inv_def)

lemma rb_tryAcquire_inv: "rb_inv b \<Longrightarrow> rb_inv (fst (rb_tryAcquire t b))"
  using rb_refill_bounds [of b t] by (auto simp: rb_tryAcquire_def Let_def rb_inv_def)

interpretation rb: token_bucket rb_step rb_time rb_deposit rbTokens rbLastRefill
  "\<lambda>b. rbRefillPerSecond b / 1000" rb_inv
proof
  fix s :: retry_budget and x y :: rb_op
  show "rb_inv s \<Longrightarrow> rb_inv (fst (rb_step x s))"
    using rb_tryAcquire_inv [of s "rb_time x"]
    by (cases x) (auto simp: rb_recordSuccess_inv rb_available_def Let_def rb_refill_bounds(1)
        split: prod.splits)
  show "rbRefillPerSecond (fst (rb_step x s)) / 1000 = rbRefillPerSecond s / 1000"
    by (cases x) (auto simp: rb_tryAcquire_def rb_recordSuccess_def rb_available_def Let_def)
  show "rb_deposit y (fst (rb_step x s)) = rb_deposit y s"
    by (cases x; cases y) (auto simp: rb_tryAcquire_def rb_recordSuccess_def rb_available_def Let_def)
  show "rbLastRefill s \<le> rb_time x \<Longrightarrow> rbLastRefill (fst (rb_step x s)) \<le> rb_time x"
    by (cases x) (auto simp: rb_tryAcquire_def rb_recordSuccess_def rb_available_def Let_def)
  show "rb_inv s \<Longrightarrow> rbLastRefill s \<le> rb_time x \<Longrightarrow>
     rbTokens (fst (rb_step x s)) + real (snd (rb_step x s))
       + rbRefillPerSecond s / 1000 * real_of_int (rb_time x - rbLastRefill (fst (rb_step x s)))
     \<le> rbTokens s + rbRefillPerSecond s / 1000 * real_of_int (rb_time x - rbLastRefill s) + rb_deposit x s"
    using rb_refill_bounds [of s "rb_time x"]
    by (cases x) (auto simp: rb_tryAcquire_def rb_recordSuccess_def rb_available_def Let_def)
qed (auto simp: rb_inv_def)

text \<open>The retry budget bounds retry amplification: whatever the interleaving of retries, successes
  and reads of a client, from a fresh budget of capacity c at time t0 until time t the number of
  granted retries is at most c plus the refill rate times the elapsed seconds plus the deposits of
  the successful calls.\<close>

theorem retry_budget_bound:
  assumes "new_retry_budget c r d t0 = Inr b"
    and "sorted (t0 # map rb_time ops)" and "\<forall>x\<in>set ops. rb_time x \<le> t" and "t0 \<le> t"
  shows "real (snd (rb.run b ops)) \<le> c + r / 1000 * real_of_int (t - t0)
           + d * real (length (filter (\<lambda>x. \<exists>u. x = RbSuccess u) ops))"
proof -
  from assms(1) have b: "b = \<lparr>rbTokens = c, rbLastRefill = t0, rbCapacity = c,
      rbRefillPerSecond = r, rbDepositPerSuccess = d\<rparr>" and "rb_inv b"
    by (auto simp: new_retry_budget_def rb_inv_def split: if_splits)
  have dep: "sum_list (map (\<lambda>x. rb_deposit x b) ops) = d * real (length (filter (\<lambda>x. \<exists>u. x = RbSuccess u) ops))"
  proof (induction ops)
    case Nil
    then show ?case by simp
  next
    case (Cons x xs)
    then show ?case by (cases x) (auto simp: b algebra_simps)
  qed
  from rb.run_grants_bound [OF \<open>rb_inv b\<close> assms(3)] assms(2,4) show ?thesis
    by (simp add: dep) (simp add: b)
qed

theorem retry_budget_bound_witness:
  "\<exists>b. new_retry_budget 2 1 0 0 = Inr b
     \<and> real (snd (rb.run b [RbAcquire 0, RbAcquire 0, RbSuccess 0, RbAcquire 0, RbAcquire 1500])) \<le> 7 / 2"
  using retry_budget_bound [of 2 1 0 0 _ "[RbAcquire 0, RbAcquire 0, RbSuccess 0, RbAcquire 0, RbAcquire 1500]" 1500]
  by (simp add: new_retry_budget_def)

section \<open>The per-tenant webhook limiter\<close>

text \<open>
  A queued delivery is a request number, the promise that \<open>acquire\<close> returned for it; an operation
  returns the requests whose promises it resolves, in order. The pending interval timer is its
  period. \<open>setInterval\<close> replaces a period that is infinite or does not fit 32 bits by 1 ms.
\<close>

record tenant_config =
  ratePerMinute :: real
  burstCapacity :: real

record tenant_bucket =
  tbTokens :: real
  tbLastRefill :: int
  tbConfig :: tenant_config
  tbQueue :: "nat list"
  tbDrainTimer :: "int option"

record tenant_limiter =
  tlBuckets :: "(string, tenant_bucket) jsmap"
  tlDefaultConfig :: tenant_config
  tlOverrides :: "(string, tenant_config) jsmap"

definition new_tenant_limiter :: "tenant_config \<Rightarrow> tenant_limiter" where
  "new_tenant_limiter c = \<lparr>tlBuckets = [], tlDefaultConfig = c, tlOverrides = []\<rparr>"

definition getConfigForTenant :: "tenant_limiter \<Rightarrow> string \<Rightarrow> tenant_config" where
  "getConfigForTenant l t = (case jm_get (tlOverrides l) t of Some c \<Rightarrow> c | None \<Rightarrow> tlDefaultConfig l)"

definition setTenantOverride :: "string \<Rightarrow> tenant_config \<Rightarrow> tenant_limiter \<Rightarrow> tenant_limiter" where
  "setTenantOverride t c l =
     (let l1 = l\<lparr>tlOverrides := jm_set (tlOverrides l) t c\<rparr>
      in case jm_get (tlBuckets l1) t of
           None \<Rightarrow> l1
         | Some b \<Rightarrow> l1\<lparr>tlBuckets := jm_set (tlBuckets l1) t
               (b\<lparr>tbConfig := c, tbTokens := min (tbTokens b) (burstCapacity c)\<rparr>)\<rparr>)"

definition clearTenantOverride :: "string \<Rightarrow> tenant_limiter \<Rightarrow> tenant_limiter" where
  "clearTenantOverride t l =
     (let l1 = l\<lparr>tlOverrides := jm_delete (tlOverrides l) t\<rparr>
      in case jm_get (tlBuckets l1) t of
           None \<Rightarrow> l1
         | Some b \<Rightarrow> l1\<lparr>tlBuckets := jm_set (tlBuckets l1) t (b\<lparr>tbConfig := tlDefaultConfig l1\<rparr>)\<rparr>)"

definition getOrCreateBucket :: "int \<Rightarrow> tenant_limiter \<Rightarrow> string \<Rightarrow> tenant_bucket" where
  "getOrCreateBucket now l t =
     (case jm_get (tlBuckets l) t of
        Some b \<Rightarrow> b
      | None \<Rightarrow> let c = getConfigForTenant l t
                in \<lparr>tbTokens = burstCapacity c, tbLastRefill = now, tbConfig = c, tbQueue = [], tbDrainTimer = None\<rparr>)"

definition tb_refill :: "int \<Rightarrow> tenant_bucket \<Rightarrow> tenant_bucket" where
  "tb_refill now b =
     (let elapsedMs = now - tbLastRefill b
      in if elapsedMs \<le> 0 then b
         else let refillAmount = real_of_int elapsedMs * (ratePerMinute (tbConfig b) / 60000)
              in if refillAmount > 0
                 then b\<lparr>tbTokens := min (burstCapacity (tbConfig b)) (tbTokens b + refillAmount), tbLastRefill := now\<rparr>
                 else b)"

definition interval_period :: "real \<Rightarrow> int" where
  "interval_period rate =
     (if rate = 0 then 1
      else let ms = max 10 \<lceil>60000 / rate\<rceil> in if ms > 2147483647 then 1 else ms)"

definition scheduleDrain :: "tenant_bucket \<Rightarrow> tenant_bucket" where
  "scheduleDrain b =
     (case tbDrainTimer b of
        Some _ \<Rightarrow> b
      | None \<Rightarrow> b\<lparr>tbDrainTimer := Some (interval_period (ratePerMinute (tbConfig b)))\<rparr>)"

definition tb_acquire :: "int \<Rightarrow> nat \<Rightarrow> tenant_bucket \<Rightarrow> tenant_bucket \<times> nat list" where
  "tb_acquire now r b =
     (let b1 = tb_refill now b
      in if tbTokens b1 \<ge> 1 then (b1\<lparr>tbTokens := tbTokens b1 - 1\<rparr>, [r])
         else (scheduleDrain (b1\<lparr>tbQueue := tbQueue b1 @ [r]\<rparr>), []))"

fun drain_loop :: "real \<Rightarrow> nat list \<Rightarrow> real \<times> nat list \<times> nat list" where
  "drain_loop tokens [] = (tokens, [], [])"
| "drain_loop tokens (r # queue) =
     (if tokens \<ge> 1
      then (case drain_loop (tokens - 1) queue of (t, q, out) \<Rightarrow> (t, q, r # out))
      else (tokens, r # queue, []))"

definition tb_drain :: "int \<Rightarrow> tenant_bucket \<Rightarrow> tenant_bucket \<times> nat list" where
  "tb_drain now b =
     (let b1 = tb_refill now b
      in case drain_loop (tbTokens b1) (tbQueue b1) of
           (tokens, queue, out) \<Rightarrow>
             (b1\<lparr>tbTokens := tokens, tbQueue := queue,
                 tbDrainTimer := (if queue = [] then None else tbDrainTimer b1)\<rparr>, out))"

definition tl_acquire :: "int \<Rightarrow> string \<Rightarrow> nat \<Rightarrow> tenant_limiter \<Rightarrow> tenant_limiter \<times> nat list" where
  "tl_acquire now t r l =
     (case tb_acquire now r (getOrCreateBucket now l t) of
        (b, out) \<Rightarrow> (l\<lparr>tlBuckets := jm_set (tlBuckets l) t b\<rparr>, out))"

definition tl_timer :: "int \<Rightarrow> string \<Rightarrow> tenant_limiter \<Rightarrow> tenant_limiter \<times> nat list" where
  "tl_timer now t l =
     (case jm_get (tlBuckets l) t of
        None \<Rightarrow> (l, [])
      | Some b \<Rightarrow> if tbDrainTimer b = None then (l, [])
                  else (case tb_drain now b of (b1, out) \<Rightarrow> (l\<lparr>tlBuckets := jm_set (tlBuckets l) t b1\<rparr>, out)))"

definition getQueueLength :: "tenant_limiter \<Rightarrow> string \<Rightarrow> nat" where
  "getQueueLength l t = (case jm_get (tlBuckets l) t of Some b \<Rightarrow> length (tbQueue b) | None \<Rightarrow> 0)"

definition getAvailableTokens :: "int \<Rightarrow> string \<Rightarrow> tenant_limiter \<Rightarrow> tenant_limiter \<times> real" where
  "getAvailableTokens now t l =
     (let b = tb_refill now (getOrCreateBucket now l t)
      in (l\<lparr>tlBuckets := jm_set (tlBuckets l) t b\<rparr>, tbTokens b))"

definition tl_destroy :: "tenant_limiter \<Rightarrow> tenant_limiter" where
  "tl_destroy l = l\<lparr>tlBuckets := []\<rparr>"

subsection \<open>One bucket\<close>

lemma tb_refill_fields [simp]:
  "tbConfig (tb_refill t b) = tbConfig b"
  "tbQueue (tb_refill t b) = tbQueue b"
  "tbDrainTimer (tb_refill t b) = tbDrainTimer b"
  by (simp_all add: tb_refill_def Let_def)

lemma scheduleDrain_fields [simp]:
  "tbTokens (scheduleDrain b) = tbTokens b"
  "tbLastRefill (scheduleDrain b) = tbLastRefill b"
  "tbConfig (scheduleDrain b) = tbConfig b"
  "tbQueue (scheduleDrain b) = tbQueue b"
  "tbDrainTimer (scheduleDrain b) \<noteq> None"
  by (simp_all add: scheduleDrain_def split: option.splits)

lemma drain_loop_spec:
  "drain_loop x q = (y, q', out) \<Longrightarrow>
     out @ q' = q \<and> y = x - real (length out) \<and> (0 \<le> x \<longrightarrow> 0 \<le> y)
     \<and> (1 \<le> x \<and> q \<noteq> [] \<longrightarrow> out \<noteq> []) \<and> (q' \<noteq> [] \<longrightarrow> y < 1)"
  by (induction x q arbitrary: y q' out rule: drain_loop.induct) (auto split: if_splits prod.splits)

definition tb_inv :: "tenant_bucket \<Rightarrow> bool" where
  "tb_inv b \<longleftrightarrow> 0 \<le> tbTokens b \<and> 0 \<le> ratePerMinute (tbConfig b) \<and> 0 \<le> burstCapacity (tbConfig b)"

lemma tb_refill_bounds:
  assumes "tb_inv b"
  shows "tb_inv (tb_refill t b)"
    and "tbLastRefill b \<le> t \<Longrightarrow> tbLastRefill (tb_refill t b) \<le> t"
    and "tbLastRefill b \<le> t \<Longrightarrow>
      tbTokens (tb_refill t b) + ratePerMinute (tbConfig b) / 60000 * real_of_int (t - tbLastRefill (tb_refill t b))
       \<le> tbTokens b + ratePerMinute (tbConfig b) / 60000 * real_of_int (t - tbLastRefill b)"
  using assms by (auto simp: tb_inv_def tb_refill_def Let_def mult.commute)

datatype tb_op = TbAcquire int nat | TbTimer int

fun tb_op_time :: "tb_op \<Rightarrow> int" where
  "tb_op_time (TbAcquire t r) = t" | "tb_op_time (TbTimer t) = t"

fun tb_step_out :: "tb_op \<Rightarrow> tenant_bucket \<Rightarrow> tenant_bucket \<times> nat list" where
  "tb_step_out (TbAcquire t r) b = tb_acquire t r b"
| "tb_step_out (TbTimer t) b = tb_drain t b"

definition tb_step :: "tb_op \<Rightarrow> tenant_bucket \<Rightarrow> tenant_bucket \<times> nat" where
  "tb_step x b = (case tb_step_out x b of (b1, out) \<Rightarrow> (b1, length out))"

lemma tb_drain_split:
  obtains y q' out where "drain_loop (tbTokens (tb_refill t b)) (tbQueue b) = (y, q', out)"
    and "tb_drain t b = ((tb_refill t b)\<lparr>tbTokens := y, tbQueue := q',
         tbDrainTimer := (if q' = [] then None else tbDrainTimer b)\<rparr>, out)"
  by (cases "drain_loop (tbTokens (tb_refill t b)) (tbQueue b)") (simp add: tb_drain_def Let_def)

lemma tb_step_out_spec:
  assumes "tb_inv b" and "tb_step_out x b = (b1, out)"
  shows "tb_inv b1" and "tbConfig b1 = tbConfig b"
    and "tbLastRefill b1 = tbLastRefill (tb_refill (tb_op_time x) b)"
    and "tbTokens b1 + real (length out) = tbTokens (tb_refill (tb_op_time x) b)"
proof -
  have "tb_inv b1 \<and> tbConfig b1 = tbConfig b \<and> tbLastRefill b1 = tbLastRefill (tb_refill (tb_op_time x) b)
    \<and> tbTokens b1 + real (length out) = tbTokens (tb_refill (tb_op_time x) b)"
  proof (cases x)
    case (TbAcquire t r)
    with assms(2) tb_refill_bounds(1) [OF assms(1), of t] show ?thesis
      by (auto simp: tb_acquire_def Let_def tb_inv_def split: if_splits)
  next
    case (TbTimer t)
    obtain y q' o' where d: "drain_loop (tbTokens (tb_refill t b)) (tbQueue b) = (y, q', o')"
      "tb_drain t b = ((tb_refill t b)\<lparr>tbTokens := y, tbQueue := q',
         tbDrainTimer := (if q' = [] then None else tbDrainTimer b)\<rparr>, o')"
      by (rule tb_drain_split)
    from drain_loop_spec [OF d(1)] d(2) TbTimer assms(2) tb_refill_bounds(1) [OF assms(1), of t]
    show ?thesis by (auto simp: tb_inv_def)
  qed
  then show "tb_inv b1" and "tbConfig b1 = tbConfig b"
    and "tbLastRefill b1 = tbLastRefill (tb_refill (tb_op_time x) b)"
    and "tbTokens b1 + real (length out) = tbTokens (tb_refill (tb_op_time x) b)" by auto
qed

interpretation tb: token_bucket tb_step tb_op_time "\<lambda>_ _. 0" tbTokens tbLastRefill
  "\<lambda>b. ratePerMinute (tbConfig b) / 60000" "\<lambda>b. tb_inv b"
proof
  fix s :: tenant_bucket and x y :: tb_op
  obtain b1 out where st: "tb_step_out x s = (b1, out)" by fastforce
  show "tb_inv s \<Longrightarrow> tb_inv (fst (tb_step x s))"
    using tb_step_out_spec(1) [OF _ st] by (simp add: tb_step_def st)
  show "ratePerMinute (tbConfig (fst (tb_step x s))) / 60000 = ratePerMinute (tbConfig s) / 60000"
    by (cases x) (auto simp: tb_step_def tb_acquire_def tb_drain_def Let_def split: prod.splits)
  show "tb_inv s \<Longrightarrow> tbLastRefill s \<le> tb_op_time x \<Longrightarrow> tbLastRefill (fst (tb_step x s)) \<le> tb_op_time x"
    using tb_step_out_spec(3) [OF _ st] tb_refill_bounds(2) by (simp add: tb_step_def st)
  show "tb_inv s \<Longrightarrow> tbLastRefill s \<le> tb_op_time x \<Longrightarrow>
      tbTokens (fst (tb_step x s)) + real (snd (tb_step x s)) +
        ratePerMinute (tbConfig s) / 60000 * real_of_int (tb_op_time x - tbLastRefill (fst (tb_step x s)))
      \<le> tbTokens s + ratePerMinute (tbConfig s) / 60000 * real_of_int (tb_op_time x - tbLastRefill s) + 0"
    using tb_step_out_spec(3,4) [OF _ st] tb_refill_bounds(3) [of s "tb_op_time x"] by (simp add: tb_step_def st)
qed (auto simp: tb_inv_def)

text \<open>A tenant's webhooks are throttled: from a fresh bucket of burst capacity c and r deliveries
  per minute at time t0, whatever the interleaving of deliveries and drain timers until time t, at
  most c + r * (t - t0) / 60000 deliveries have been let through, immediate and queued ones
  together.\<close>

theorem tenant_webhook_rate_bound:
  assumes "b = getOrCreateBucket t0 (new_tenant_limiter \<lparr>ratePerMinute = r, burstCapacity = c\<rparr>) tenant"
    and "0 \<le> r" and "0 \<le> c"
    and "sorted (t0 # map tb_op_time ops)" and "\<forall>x\<in>set ops. tb_op_time x \<le> t" and "t0 \<le> t"
  shows "real (snd (tb.run b ops)) \<le> c + r / 60000 * real_of_int (t - t0)"
proof -
  have b: "b = \<lparr>tbTokens = c, tbLastRefill = t0, tbConfig = \<lparr>ratePerMinute = r, burstCapacity = c\<rparr>,
      tbQueue = [], tbDrainTimer = None\<rparr>"
    by (simp add: assms(1) getOrCreateBucket_def new_tenant_limiter_def getConfigForTenant_def Let_def)
  then have "tb_inv b" using assms(2,3) by (simp add: tb_inv_def)
  have zero: "sum_list (map (\<lambda>_. 0 :: real) ops) = 0" by (induction ops) auto
  from tb.run_grants_bound [OF \<open>tb_inv b\<close> assms(5)] assms(4,6) show ?thesis
    by (simp add: zero) (simp add: b)
qed

theorem tenant_webhook_rate_bound_witness:
  "real (snd (tb.run (getOrCreateBucket 0 (new_tenant_limiter \<lparr>ratePerMinute = 60, burstCapacity = 2\<rparr>) ''a'')
      [TbAcquire 0 1, TbAcquire 0 2, TbAcquire 0 3, TbTimer 1000])) \<le> 3"
  using tenant_webhook_rate_bound [OF refl, of 60 2 0 "[TbAcquire 0 1, TbAcquire 0 2, TbAcquire 0 3, TbTimer 1000]" 1000 "''a''"]
  by simp

subsection \<open>The queue\<close>

fun tb_drains :: "int list \<Rightarrow> tenant_bucket \<Rightarrow> tenant_bucket \<times> nat list" where
  "tb_drains [] b = (b, [])"
| "tb_drains (t # ts) b =
     (case tb_drain t b of (b1, o1) \<Rightarrow> (case tb_drains ts b1 of (b2, o2) \<Rightarrow> (b2, o1 @ o2)))"

lemma interval_period_ge:
  assumes "0 < r" and "60000 / r \<le> 2147483647"
  shows "60000 / r \<le> real_of_int (interval_period r)"
proof -
  have "\<lceil>60000 / r\<rceil> \<le> 2147483647" using assms(2) by (simp add: ceiling_le_iff)
  with assms show ?thesis by (auto simp: interval_period_def Let_def max_def ceiling_le_iff)
qed

lemma tb_drain_progress:
  assumes inv: "tb_inv b" and c: "1 \<le> burstCapacity (tbConfig b)" and r: "0 < ratePerMinute (tbConfig b)"
    and per: "60000 / ratePerMinute (tbConfig b) \<le> real_of_int (t - tbLastRefill b)"
    and d: "tb_drain t b = (b1, out)"
  shows "tb_inv b1" and "tbConfig b1 = tbConfig b" and "tbLastRefill b1 = t"
    and "out @ tbQueue b1 = tbQueue b" and "tbQueue b \<noteq> [] \<Longrightarrow> out \<noteq> []"
proof -
  have "0 < 60000 / ratePerMinute (tbConfig b)" using r by simp
  then have pos: "0 < real_of_int (t - tbLastRefill b)" using per by linarith
  have one: "1 \<le> real_of_int (t - tbLastRefill b) * (ratePerMinute (tbConfig b) / 60000)"
    using per r by (simp add: field_simps)
  have ref: "tbTokens (tb_refill t b) \<ge> 1" "tbLastRefill (tb_refill t b) = t"
    using pos one c inv r by (auto simp: tb_refill_def Let_def tb_inv_def)
  obtain y q' o' where l: "drain_loop (tbTokens (tb_refill t b)) (tbQueue b) = (y, q', o')"
    "tb_drain t b = ((tb_refill t b)\<lparr>tbTokens := y, tbQueue := q',
       tbDrainTimer := (if q' = [] then None else tbDrainTimer b)\<rparr>, o')"
    by (rule tb_drain_split)
  show "tb_inv b1" "tbConfig b1 = tbConfig b" "tbLastRefill b1 = t"
    "out @ tbQueue b1 = tbQueue b" "tbQueue b \<noteq> [] \<Longrightarrow> out \<noteq> []"
    using d l(2) drain_loop_spec [OF l(1)] ref inv by (auto simp: tb_inv_def)
qed

text \<open>Queued deliveries are released in arrival order and none waits forever: when the rate is
  positive and the capacity at least one, as many timer ticks as there are queued deliveries, each
  at least one timer period after the previous refill, resolve the whole queue, first in first
  out.\<close>

theorem tenant_queue_drains_fifo:
  assumes "tb_inv b" and "1 \<le> burstCapacity (tbConfig b)" and "0 < ratePerMinute (tbConfig b)"
    and "60000 / ratePerMinute (tbConfig b) \<le> 2147483647"
    and "successively (\<lambda>s t. interval_period (ratePerMinute (tbConfig b)) \<le> t - s) (tbLastRefill b # ts)"
    and "length (tbQueue b) \<le> length ts"
  shows "snd (tb_drains ts b) = tbQueue b \<and> tbQueue (fst (tb_drains ts b)) = []"
proof -
  show ?thesis
    using assms
  proof (induction ts arbitrary: b)
    case Nil
    then show ?case by simp
  next
    case (Cons t ts)
    obtain b1 out where d: "tb_drain t b = (b1, out)" by fastforce
    have "60000 / ratePerMinute (tbConfig b) \<le> real_of_int (interval_period (ratePerMinute (tbConfig b)))"
      by (rule interval_period_ge) (use Cons.prems in auto)
    also have "\<dots> \<le> real_of_int (t - tbLastRefill b)"
      unfolding of_int_le_iff using Cons.prems(5) by simp
    finally have per: "60000 / ratePerMinute (tbConfig b) \<le> real_of_int (t - tbLastRefill b)" .
    note p = tb_drain_progress [OF Cons.prems(1-3) per d]
    have "tbQueue b \<noteq> [] \<longrightarrow> 1 \<le> length out" using p(5) by (cases out) auto
    moreover have "length (tbQueue b) = length out + length (tbQueue b1)" using p(4) by (metis length_append)
    ultimately have "length (tbQueue b1) \<le> length ts"
      using Cons.prems(6) by (cases "tbQueue b = []") (simp_all del: length_greater_0_conv)
    then have "snd (tb_drains ts b1) = tbQueue b1 \<and> tbQueue (fst (tb_drains ts b1)) = []"
      using Cons.IH [OF p(1)] Cons.prems(2-5) p(2,3) by simp
    then show ?case using d p(4) by (auto simp: split_beta)
  qed
qed

theorem tenant_queue_drains_fifo_witness:
  "snd (tb_drains [1010, 2010] \<lparr>tbTokens = 0, tbLastRefill = 10, tbConfig = \<lparr>ratePerMinute = 60, burstCapacity = 1\<rparr>,
      tbQueue = [7, 8], tbDrainTimer = Some 1000\<rparr>) = [7, 8]"
  using tenant_queue_drains_fifo [of "\<lparr>tbTokens = 0, tbLastRefill = 10, tbConfig = \<lparr>ratePerMinute = 60, burstCapacity = 1\<rparr>,
      tbQueue = [7, 8], tbDrainTimer = Some 1000\<rparr>" "[1010, 2010]"]
  by (simp add: tb_inv_def interval_period_def)

text \<open>A new delivery overtakes the queue when a token is refilled before the timer fires.\<close>

lemma tb_acquire_overtakes:
  "tb_acquire 1000 9 \<lparr>tbTokens = 0, tbLastRefill = 0, tbConfig = \<lparr>ratePerMinute = 60, burstCapacity = 1\<rparr>,
      tbQueue = [7, 8], tbDrainTimer = Some 1000\<rparr> =
   (\<lparr>tbTokens = 0, tbLastRefill = 1000, tbConfig = \<lparr>ratePerMinute = 60, burstCapacity = 1\<rparr>,
      tbQueue = [7, 8], tbDrainTimer = Some 1000\<rparr>, [9])"
  by (simp add: tb_acquire_def tb_refill_def Let_def)

subsection \<open>The whole limiter\<close>

datatype tl_op = TlAcquire int string nat | TlTimer int string | TlAvailable int string
  | TlSetOverride string tenant_config | TlClearOverride string

fun tl_step :: "tl_op \<Rightarrow> tenant_limiter \<Rightarrow> tenant_limiter \<times> (string \<times> nat) list" where
  "tl_step (TlAcquire now t r) l = (case tl_acquire now t r l of (l1, out) \<Rightarrow> (l1, map (Pair t) out))"
| "tl_step (TlTimer now t) l = (case tl_timer now t l of (l1, out) \<Rightarrow> (l1, map (Pair t) out))"
| "tl_step (TlAvailable now t) l = (fst (getAvailableTokens now t l), [])"
| "tl_step (TlSetOverride t c) l = (setTenantOverride t c l, [])"
| "tl_step (TlClearOverride t) l = (clearTenantOverride t l, [])"

fun tl_run :: "tl_op list \<Rightarrow> tenant_limiter \<Rightarrow> tenant_limiter \<times> (string \<times> nat) list" where
  "tl_run [] l = (l, [])"
| "tl_run (x # xs) l = (case tl_step x l of (l1, o1) \<Rightarrow> (case tl_run xs l1 of (l2, o2) \<Rightarrow> (l2, o1 @ o2)))"

fun tl_requests :: "string \<Rightarrow> tl_op \<Rightarrow> nat list" where
  "tl_requests a (TlAcquire now t r) = (if t = a then [r] else [])"
| "tl_requests a _ = []"

definition tl_queue :: "tenant_limiter \<Rightarrow> string \<Rightarrow> nat list" where
  "tl_queue l t = (case jm_get (tlBuckets l) t of Some b \<Rightarrow> tbQueue b | None \<Rightarrow> [])"

lemma tb_acquire_conserves:
  "tb_acquire now r b = (b1, out) \<Longrightarrow> mset out + mset (tbQueue b1) = add_mset r (mset (tbQueue b))"
  by (auto simp: tb_acquire_def Let_def split: if_splits)

lemma tb_drain_conserves: "tb_drain now b = (b1, out) \<Longrightarrow> out @ tbQueue b1 = tbQueue b"
  by (auto simp: tb_drain_def Let_def split: prod.splits dest: drain_loop_spec)

lemma getOrCreateBucket_queue [simp]: "tbQueue (getOrCreateBucket now l t) = tl_queue l t"
  by (auto simp: getOrCreateBucket_def tl_queue_def Let_def split: option.splits)

lemma tl_queue_set [simp]:
  "tl_queue (l\<lparr>tlBuckets := jm_set (tlBuckets l) t b\<rparr>) a = (if a = t then tbQueue b else tl_queue l a)"
  by (simp add: tl_queue_def)

lemma tagged_outputs [simp]:
  "map snd (filter (\<lambda>p. fst p = a) (map (Pair t) out)) = (if t = a then out else [])"
  by (auto simp: filter_map comp_def)

lemma mset_chain:
  "A2 + Q = R2 + Q1 \<Longrightarrow> A1 + Q1 = Rx + Q0 \<Longrightarrow> (A1 + A2) + Q = (Rx + R2) + (Q0 :: 'a multiset)"
  by (metis add.assoc add.left_commute)

lemma tl_step_conserves:
  assumes "tl_step x l = (l1, out)"
  shows "mset (map snd (filter (\<lambda>p. fst p = a) out)) + mset (tl_queue l1 a)
    = mset (tl_requests a x) + mset (tl_queue l a)"
proof (cases x)
  case (TlAcquire now t r)
  obtain b1 o1 where q: "tb_acquire now r (getOrCreateBucket now l t) = (b1, o1)" by fastforce
  with assms TlAcquire tb_acquire_conserves [OF q] show ?thesis
    by (auto simp: tl_acquire_def tl_queue_def comp_def simp del: mset_map mset_filter)
next
  case (TlTimer now t)
  show ?thesis
  proof (cases "jm_get (tlBuckets l) t")
    case None
    with assms TlTimer show ?thesis by (simp add: tl_timer_def)
  next
    case (Some b)
    obtain b1 o1 where q: "tb_drain now b = (b1, o1)" by fastforce
    have "mset o1 + mset (tbQueue b1) = mset (tbQueue b)"
      using tb_drain_conserves [OF q] by (metis mset_append)
    with assms TlTimer q Some show ?thesis
      by (auto simp: tl_timer_def tl_queue_def comp_def simp del: mset_map mset_filter split: if_splits)
  qed
next
  case (TlAvailable now t)
  with assms show ?thesis
    by (auto simp: getAvailableTokens_def Let_def)
qed (use assms in \<open>auto simp: setTenantOverride_def clearTenantOverride_def Let_def tl_queue_def split: option.splits if_splits\<close>)

text \<open>C39: No delivery is dropped or resolved twice: over any sequence of deliveries, timers, reads and
  override changes for any tenants, the deliveries of a tenant that were let through together with
  those still queued are exactly those it requested, as multisets.\<close>

theorem no_delivery_dropped:
  assumes "tl_run ops (new_tenant_limiter c) = (l, out)"
  shows "mset (map snd (filter (\<lambda>p. fst p = tenant) out)) + mset (tl_queue l tenant)
    = mset (concat (map (tl_requests tenant) ops))"
proof -
  have "mset (map snd (filter (\<lambda>p. fst p = tenant) out)) + mset (tl_queue l tenant)
    = mset (concat (map (tl_requests tenant) ops)) + mset (tl_queue l0 tenant)"
    if "tl_run ops l0 = (l, out)" for l0
    using that
  proof (induction ops arbitrary: l0 out)
    case Nil
    then show ?case by simp
  next
    case (Cons x xs)
    obtain l1 o1 where st: "tl_step x l0 = (l1, o1)" by fastforce
    obtain o2 where r: "tl_run xs l1 = (l, o2)" and "out = o1 @ o2"
      using Cons.prems st by (auto split: prod.splits)
    from mset_chain [OF Cons.IH [OF r] tl_step_conserves [OF st, of tenant]] \<open>out = o1 @ o2\<close>
    show ?case by simp
  qed
  from this [OF assms] show ?thesis by (simp add: tl_queue_def new_tenant_limiter_def)
qed

theorem no_delivery_dropped_witness:
  "mset (map snd (filter (\<lambda>p. fst p = ''a'')
      (snd (tl_run [TlAcquire 0 ''a'' 1, TlAcquire 0 ''b'' 2, TlAcquire 0 ''a'' 3] (new_tenant_limiter \<lparr>ratePerMinute = 60, burstCapacity = 1\<rparr>)))))
   + mset (tl_queue (fst (tl_run [TlAcquire 0 ''a'' 1, TlAcquire 0 ''b'' 2, TlAcquire 0 ''a'' 3] (new_tenant_limiter \<lparr>ratePerMinute = 60, burstCapacity = 1\<rparr>))) ''a'')
   = {#1, 3#}"
  using no_delivery_dropped [OF prod.collapse [symmetric],
     where ops = "[TlAcquire 0 ''a'' 1, TlAcquire 0 ''b'' 2, TlAcquire 0 ''a'' 3]"
     and c = "\<lparr>ratePerMinute = 60, burstCapacity = 1\<rparr>" and tenant = "''a''"]
  by simp

lemma clearTenantOverride_keeps_tokens:
  "jm_get (tlBuckets l) t = Some b \<Longrightarrow>
     jm_get (tlBuckets (clearTenantOverride t l)) t = Some (b\<lparr>tbConfig := tlDefaultConfig l\<rparr>)"
  by (simp add: clearTenantOverride_def)

end
