(* ===== verification/Sequence_Cache.thy ===== *)
theory Sequence_Cache
  imports JS_Value
begin

text \<open>
  \<open>backend/src/stellar-service-integration/sequence-number-cache.ts\<close>: the cache of Stellar account
  sequence numbers with its per-account lock queue, TTL and ledger-close eviction, and
  \<open>executeWithSequenceManagement\<close>, the wrapper that submits a transaction with a managed sequence
  number.

  A waiter in a lock queue is a task number, the promise its \<open>acquireLock\<close> returned; releasing the
  lock returns the task that is resumed. The lock protocol of concurrent tasks is the step relation
  \<open>lock_step\<close>; the wrapper is a function over an outside world \<open>'w\<close> whose operations are arguments.
\<close>

section \<open>State and operations\<close>

record seq_entry =
  sequenceNumber :: string
  lastUpdated :: int
  locked :: bool
  lockQueue :: "nat list"

record seq_cache =
  scCache :: "(string, seq_entry) jsmap"
  scTtlMs :: int
  scEvictions :: nat
  scStream :: bool
  scSweepTimer :: bool

definition DEFAULT_TTL_MS :: int where
  "DEFAULT_TTL_MS = 30000"

definition new_seq_cache :: "int \<Rightarrow> seq_cache" where
  "new_seq_cache ttl = \<lparr>scCache = [], scTtlMs = ttl, scEvictions = 0, scStream = False, scSweepTimer = False\<rparr>"

definition sc_evictStale :: "string \<Rightarrow> seq_cache \<Rightarrow> seq_cache" where
  "sc_evictStale a c =
     (if \<not> jm_has (scCache c) a then c
      else c\<lparr>scCache := jm_delete (scCache c) a, scEvictions := scEvictions c + 1\<rparr>)"

definition sc_startLedgerSubscription :: "seq_cache \<Rightarrow> seq_cache" where
  "sc_startLedgerSubscription c = (if scStream c then c else c\<lparr>scStream := True, scSweepTimer := True\<rparr>)"

definition sc_on_ledger :: "string list option \<Rightarrow> seq_cache \<Rightarrow> seq_cache" where
  "sc_on_ledger watched c =
     (let targets = (case watched of Some ws \<Rightarrow> ws | None \<Rightarrow> map fst (scCache c))
      in foldl (\<lambda>c a. if jm_has (scCache c) a then sc_evictStale a c else c) c targets)"

definition sc_stopLedgerSubscription :: "seq_cache \<Rightarrow> seq_cache" where
  "sc_stopLedgerSubscription c = c\<lparr>scStream := False, scSweepTimer := False\<rparr>"

definition sc_sweepExpired :: "int \<Rightarrow> seq_cache \<Rightarrow> seq_cache" where
  "sc_sweepExpired now c =
     foldl (\<lambda>c' (a, e). if now - lastUpdated e > scTtlMs c then sc_evictStale a c' else c') c (scCache c)"

definition sc_get :: "int \<Rightarrow> string \<Rightarrow> seq_cache \<Rightarrow> seq_cache \<times> string option" where
  "sc_get now a c =
     (case jm_get (scCache c) a of
        None \<Rightarrow> (c, None)
      | Some e \<Rightarrow> if now - lastUpdated e > scTtlMs c then (sc_evictStale a c, None)
                  else (c, Some (sequenceNumber e)))"

definition sc_set :: "int \<Rightarrow> string \<Rightarrow> string \<Rightarrow> seq_cache \<Rightarrow> seq_cache" where
  "sc_set now a s c =
     (let existing = jm_get (scCache c) a
      in c\<lparr>scCache := jm_set (scCache c) a
            \<lparr>sequenceNumber = s, lastUpdated = now,
             locked = (case existing of Some e \<Rightarrow> locked e | None \<Rightarrow> False),
             lockQueue = (case existing of Some e \<Rightarrow> lockQueue e | None \<Rightarrow> [])\<rparr>\<rparr>)"

definition sc_increment :: "int \<Rightarrow> string \<Rightarrow> seq_cache \<Rightarrow> seq_cache option" where
  "sc_increment now a c =
     (case jm_get (scCache c) a of
        None \<Rightarrow> Some c
      | Some e \<Rightarrow>
          (case big_int_of (sequenceNumber e) of
             None \<Rightarrow> None
           | Some n \<Rightarrow> Some (c\<lparr>scCache := jm_set (scCache c) a
                                (e\<lparr>sequenceNumber := show_int (n + 1), lastUpdated := now\<rparr>)\<rparr>)))"

definition sc_invalidate :: "string \<Rightarrow> seq_cache \<Rightarrow> seq_cache" where
  "sc_invalidate a c = c\<lparr>scCache := jm_delete (scCache c) a\<rparr>"

definition sc_acquireLock :: "int \<Rightarrow> string \<Rightarrow> nat \<Rightarrow> seq_cache \<Rightarrow> seq_cache \<times> bool" where
  "sc_acquireLock now a task c =
     (case jm_get (scCache c) a of
        None \<Rightarrow> (c\<lparr>scCache := jm_set (scCache c) a
                  \<lparr>sequenceNumber = ''0'', lastUpdated = now, locked = True, lockQueue = []\<rparr>\<rparr>, True)
      | Some e \<Rightarrow>
          if \<not> locked e then (c\<lparr>scCache := jm_set (scCache c) a (e\<lparr>locked := True\<rparr>)\<rparr>, True)
          else (c\<lparr>scCache := jm_set (scCache c) a (e\<lparr>lockQueue := lockQueue e @ [task]\<rparr>)\<rparr>, False))"

definition sc_releaseLock :: "string \<Rightarrow> seq_cache \<Rightarrow> seq_cache \<times> nat option" where
  "sc_releaseLock a c =
     (case jm_get (scCache c) a of
        None \<Rightarrow> (c, None)
      | Some e \<Rightarrow>
          (case lockQueue e of
             next # rest \<Rightarrow> (c\<lparr>scCache := jm_set (scCache c) a (e\<lparr>lockQueue := rest\<rparr>)\<rparr>, Some next)
           | [] \<Rightarrow> (c\<lparr>scCache := jm_set (scCache c) a (e\<lparr>locked := False\<rparr>)\<rparr>, None)))"

definition sc_clear :: "seq_cache \<Rightarrow> seq_cache" where
  "sc_clear c = c\<lparr>scCache := []\<rparr>"

record seq_stats =
  ssSize :: nat
  ssEvictions :: nat
  ssAccounts :: "(string \<times> string \<times> int \<times> bool) list"

definition sc_getStats :: "int \<Rightarrow> seq_cache \<Rightarrow> seq_stats" where
  "sc_getStats now c =
     \<lparr>ssSize = length (scCache c), ssEvictions = scEvictions c,
      ssAccounts = map (\<lambda>(a, e). (a, sequenceNumber e, now - lastUpdated e, locked e)) (scCache c)\<rparr>"

section \<open>The managed submission\<close>

text \<open>
  Thrown errors are JavaScript values. \<open>toLowerCase\<close> and \<open>toUpperCase\<close> of a value that is neither
  nullish nor a string throw a \<open>TypeError\<close>.
\<close>

definition type_error :: jsval where
  "type_error = JObj [(''name'', JStr ''TypeError''), (''message'', JStr ''is not a function'')]"

definition syntax_error :: jsval where
  "syntax_error = JObj [(''name'', JStr ''SyntaxError''), (''message'', JStr ''Cannot convert to a BigInt'')]"

definition js_case :: "(string \<Rightarrow> string) \<Rightarrow> jsval \<Rightarrow> (jsval, string) res" where
  "js_case f v = (if js_nullish v then Inr [] else case v of JStr s \<Rightarrow> Inr (f s) | _ \<Rightarrow> Inl type_error)"

definition isSequenceMismatchError :: "jsval \<Rightarrow> (jsval, bool) res" where
  "isSequenceMismatchError error =
     (if \<not> js_truthy error then Inr False
      else case js_case to_lower (js_prop error ''message'') of
        Inl e \<Rightarrow> Inl e
      | Inr msg \<Rightarrow>
          (case js_case to_upper (js_prop error ''code'') of
             Inl e \<Rightarrow> Inl e
           | Inr code \<Rightarrow>
               if code = ''TX_BAD_SEQ'' then Inr True
               else if str_includes msg ''bad_seq'' \<or> (str_includes msg ''sequence'' \<and> str_includes msg ''mismatch'')
               then Inr True
               else
                 let data = js_prop (js_prop error ''response'') ''data''
                 in if js_truthy data
                    then (case js_stringify data of
                            None \<Rightarrow> Inl type_error
                          | Some d \<Rightarrow> Inr (str_includes (to_lower d) ''tx_bad_seq'' \<or> str_includes (to_lower d) ''bad_seq''))
                    else Inr False))"

text \<open>The account passed to \<open>buildAndSubmit\<close>: a stub around the cached number, or the fetched one.\<close>

datatype account = CachedAccount string | FetchedAccount string

record ('w, 'r) seq_world =
  worldNow :: "'w \<Rightarrow> int"
  fetchAccount :: "'w \<Rightarrow> (jsval, string) res \<times> 'w"
  buildAndSubmit :: "account \<Rightarrow> 'w \<Rightarrow> (jsval, 'r) res \<times> 'w"

definition submit_and_increment ::
  "('w, 'r) seq_world \<Rightarrow> string \<Rightarrow> account \<Rightarrow> seq_cache \<Rightarrow> 'w \<Rightarrow> (jsval, 'r) res \<times> seq_cache \<times> 'w" where
  "submit_and_increment W a acc c w =
     (case buildAndSubmit W acc w of
        (Inl e, w1) \<Rightarrow> (Inl e, c, w1)
      | (Inr r, w1) \<Rightarrow>
          (case sc_increment (worldNow W w1) a c of
             None \<Rightarrow> (Inl syntax_error, c, w1)
           | Some c1 \<Rightarrow> (Inr r, c1, w1)))"

definition fetch_and_set ::
  "('w, 'r) seq_world \<Rightarrow> string \<Rightarrow> seq_cache \<Rightarrow> 'w \<Rightarrow> (jsval, account) res \<times> seq_cache \<times> 'w" where
  "fetch_and_set W a c w =
     (case fetchAccount W w of
        (Inl e, w1) \<Rightarrow> (Inl e, c, w1)
      | (Inr s, w1) \<Rightarrow> (Inr (FetchedAccount s), sc_set (worldNow W w1) a s c, w1))"

definition retry_on_mismatch ::
  "('w, 'r) seq_world \<Rightarrow> string \<Rightarrow> jsval \<Rightarrow> seq_cache \<Rightarrow> 'w \<Rightarrow> (jsval, 'r) res \<times> seq_cache \<times> 'w" where
  "retry_on_mismatch W a error c w =
     (case isSequenceMismatchError error of
        Inl e \<Rightarrow> (Inl e, c, w)
      | Inr False \<Rightarrow> (Inl error, c, w)
      | Inr True \<Rightarrow>
          (case fetch_and_set W a (sc_invalidate a c) w of
             (Inl e, c1, w1) \<Rightarrow> (Inl e, c1, w1)
           | (Inr acc, c1, w1) \<Rightarrow> submit_and_increment W a acc c1 w1))"

definition locked_body ::
  "('w, 'r) seq_world \<Rightarrow> string \<Rightarrow> seq_cache \<Rightarrow> 'w \<Rightarrow> (jsval, 'r) res \<times> seq_cache \<times> 'w" where
  "locked_body W a c w =
     (case (case sc_get (worldNow W w) a c of
              (c1, Some s) \<Rightarrow> if s \<noteq> [] then (Inr (CachedAccount s), c1, w) else fetch_and_set W a c1 w
            | (c1, None) \<Rightarrow> fetch_and_set W a c1 w) of
        (Inl e, c2, w2) \<Rightarrow> (Inl e, c2, w2)
      | (Inr acc, c2, w2) \<Rightarrow>
          (case submit_and_increment W a acc c2 w2 of
             (Inr r, c3, w3) \<Rightarrow> (Inr r, c3, w3)
           | (Inl error, c3, w3) \<Rightarrow> retry_on_mismatch W a error c3 w3))"

text \<open>
  The whole call of a task that is not kept waiting; \<open>finally\<close> releases the lock on every path, and
  the last component is the task this resumes. A task that is queued runs \<open>locked_body\<close> once resumed.
\<close>

definition executeWithSequenceManagement ::
  "('w, 'r) seq_world \<Rightarrow> string \<Rightarrow> nat \<Rightarrow> seq_cache \<Rightarrow> 'w \<Rightarrow> (((jsval, 'r) res \<times> nat option) option) \<times> seq_cache \<times> 'w" where
  "executeWithSequenceManagement W a task c w =
     (case sc_acquireLock (worldNow W w) a task c of
        (c1, False) \<Rightarrow> (None, c1, w)
      | (c1, True) \<Rightarrow>
          (case locked_body W a c1 w of
             (r, c2, w2) \<Rightarrow>
               (case sc_releaseLock a c2 of (c3, resumed) \<Rightarrow> (Some (r, resumed), c3, w2))))"

section \<open>The wrapper\<close>

lemma sc_get_Some:
  "sc_get now a c = (c1, Some s) \<Longrightarrow> c1 = c \<and> (\<exists>e. jm_get (scCache c) a = Some e \<and> s = sequenceNumber e)"
  by (auto simp: sc_get_def split: option.splits if_splits)

text \<open>The entry of an account is free: absent, or unlocked with nobody waiting.\<close>

definition seq_free :: "string \<Rightarrow> seq_cache \<Rightarrow> bool" where
  "seq_free a c \<longleftrightarrow> (case jm_get (scCache c) a of None \<Rightarrow> True | Some e \<Rightarrow> \<not> locked e \<and> lockQueue e = [])"

definition seq_alone :: "string \<Rightarrow> seq_cache \<Rightarrow> bool" where
  "seq_alone a c \<longleftrightarrow> (case jm_get (scCache c) a of None \<Rightarrow> True | Some e \<Rightarrow> lockQueue e = [])"

lemma seq_alone_ops [intro]:
  "seq_free a c \<Longrightarrow> seq_alone a c"
  "seq_alone a c \<Longrightarrow> seq_alone a (sc_set now a s c)"
  "seq_alone a c \<Longrightarrow> sc_increment now a c = Some c1 \<Longrightarrow> seq_alone a c1"
  "seq_alone a (sc_invalidate a c)"
  "seq_alone a c \<Longrightarrow> sc_get now a c = (c1, r) \<Longrightarrow> seq_alone a c1"
  by (auto simp: seq_alone_def seq_free_def sc_set_def sc_increment_def sc_invalidate_def sc_get_def
      sc_evictStale_def Let_def split: option.splits if_splits)

lemma seq_alone_submit:
  "seq_alone a c \<Longrightarrow> submit_and_increment W a acc c w = (r, c1, w1) \<Longrightarrow> seq_alone a c1"
  by (auto simp: submit_and_increment_def split: prod.splits sum.splits option.splits)

lemma seq_alone_fetch:
  "seq_alone a c \<Longrightarrow> fetch_and_set W a c w = (r, c1, w1) \<Longrightarrow> seq_alone a c1"
  by (auto simp: fetch_and_set_def split: prod.splits sum.splits)

lemma seq_alone_retry:
  "seq_alone a c \<Longrightarrow> retry_on_mismatch W a e c w = (r, c1, w1) \<Longrightarrow> seq_alone a c1"
  by (auto simp: retry_on_mismatch_def split: prod.splits sum.splits bool.splits
      dest!: seq_alone_fetch [rotated] seq_alone_submit [rotated])

lemma seq_alone_body:
  assumes "seq_alone a c" and "locked_body W a c w = (r, c1, w1)"
  shows "seq_alone a c1"
proof -
  obtain c0 g where g: "sc_get (worldNow W w) a c = (c0, g)" by fastforce
  have c0: "seq_alone a c0" using assms(1) g by blast
  obtain r2 c2 w2 where f: "(case (c0, g) of (c1, Some s) \<Rightarrow> if s \<noteq> [] then (Inr (CachedAccount s), c1, w)
      else fetch_and_set W a c1 w | (c1, None) \<Rightarrow> fetch_and_set W a c1 w) = (r2, c2, w2)"
    by (cases "case (c0, g) of (c1, Some s) \<Rightarrow> if s \<noteq> [] then (Inr (CachedAccount s), c1, w)
      else fetch_and_set W a c1 w | (c1, None) \<Rightarrow> fetch_and_set W a c1 w") auto
  then have c2: "seq_alone a c2"
    using c0 seq_alone_fetch [OF c0] by (auto split: option.splits if_splits)
  from assms(2) c2 show ?thesis
    unfolding locked_body_def g f
    by (auto split: prod.splits sum.splits dest: seq_alone_submit [OF c2] seq_alone_retry [rotated])
qed

text \<open>The account lock is released on every path. A submission that finds the account free
  leaves it free again, whatever the network does: success, a failing fetch, a failing submission, a
  mismatch with a failing or a succeeding second attempt; and no other task is resumed.\<close>

theorem lock_released_on_every_path:
  assumes "seq_free a c"
    and "executeWithSequenceManagement W a task c w = (res, c1, w1)"
  shows "seq_free a c1 \<and> (\<exists>r. res = Some (r, None))"
proof -
  obtain c0 where acq: "sc_acquireLock (worldNow W w) a task c = (c0, True)" and al: "seq_alone a c0"
    using assms(1) by (auto simp: sc_acquireLock_def seq_free_def seq_alone_def split: option.splits)
  obtain r c2 w2 where b: "locked_body W a c0 w = (r, c2, w2)" by (cases "locked_body W a c0 w") auto
  have "seq_alone a c2" by (rule seq_alone_body [OF al b])
  then show ?thesis
    using assms(2) acq b
    by (auto simp: executeWithSequenceManagement_def sc_releaseLock_def seq_alone_def seq_free_def
        split: option.splits list.splits)
qed

text \<open>Successive submissions of tasks, with the results of those that ran.\<close>

fun exec_many :: "('w, 'r) seq_world \<Rightarrow> string \<Rightarrow> nat list \<Rightarrow> seq_cache \<Rightarrow> 'w \<Rightarrow> (jsval, 'r) res list" where
  "exec_many W a [] c w = []"
| "exec_many W a (k # ks) c w =
     (case executeWithSequenceManagement W a k c w of
        (None, c1, w1) \<Rightarrow> exec_many W a ks c1 w1
      | (Some (r, _), c1, w1) \<Rightarrow> r # exec_many W a ks c1 w1)"

lemma show_int_of_nat: "show_int (int n + 1) = show_nat (n + 1)"
  by (simp add: show_int_def nat_add_distrib)

lemma execute_cached:
  assumes "jm_get (scCache c) a = Some e" and "\<not> locked e" and "lockQueue e = []"
    and "sequenceNumber e = show_nat n" and "worldNow W w - lastUpdated e \<le> scTtlMs c"
    and "buildAndSubmit W (CachedAccount (show_nat n)) w = (Inr r, w1)"
  shows "\<exists>c1. executeWithSequenceManagement W a k c w = (Some (Inr r, None), c1, w1)
     \<and> jm_get (scCache c1) a = Some \<lparr>sequenceNumber = show_nat (n + 1), lastUpdated = worldNow W w1,
          locked = False, lockQueue = []\<rparr> \<and> scTtlMs c1 = scTtlMs c"
  using assms
  by (cases e) (simp add: executeWithSequenceManagement_def sc_acquireLock_def locked_body_def sc_get_def
      submit_and_increment_def sc_increment_def sc_releaseLock_def show_int_of_nat)

text \<open>Successive submissions for a cached account use consecutive sequence numbers, starting with
  the cached one: no collision and no gap, without asking the network again, as long as the
  submissions succeed.\<close>

theorem sequence_numbers_consecutive:
  assumes "jm_get (scCache c) a = Some e" and "\<not> locked e" and "lockQueue e = []"
    and "sequenceNumber e = show_nat n" and "worldNow W w - lastUpdated e \<le> scTtlMs c" and "0 \<le> scTtlMs c"
    and "\<forall>acc w. fst (buildAndSubmit W acc w) = Inr acc"
  shows "exec_many W a tasks c w = map (\<lambda>i. Inr (CachedAccount (show_nat (n + i)))) [0..<length tasks]"
  using assms(1-6)
proof (induction tasks arbitrary: c w e n)
  case Nil
  then show ?case by simp
next
  case (Cons k ks)
  obtain w1 where b: "buildAndSubmit W (CachedAccount (show_nat n)) w = (Inr (CachedAccount (show_nat n)), w1)"
    using assms(7) by (metis prod.collapse)
  obtain c1 where c1: "executeWithSequenceManagement W a k c w = (Some (Inr (CachedAccount (show_nat n)), None), c1, w1)"
    "jm_get (scCache c1) a = Some \<lparr>sequenceNumber = show_nat (n + 1), lastUpdated = worldNow W w1,
        locked = False, lockQueue = []\<rparr>" "scTtlMs c1 = scTtlMs c"
    using execute_cached [OF Cons.prems(1-5) b] by blast
  have "exec_many W a ks c1 w1 = map (\<lambda>i. Inr (CachedAccount (show_nat (n + 1 + i)))) [0..<length ks]"
    by (rule Cons.IH [OF c1(2)]) (use c1(3) Cons.prems(6) in simp_all)
  then show ?case
    by (simp add: c1(1) upt_conv_Cons map_Suc_upt [symmetric] comp_def del: upt_Suc)
qed

text \<open>A world for the witnesses: a clock that does not move and a network that accepts everything.\<close>

definition accepting_world :: "(unit, account) seq_world" where
  "accepting_world = \<lparr>worldNow = (\<lambda>_. 0), fetchAccount = (\<lambda>w. (Inr ''7'', w)),
     buildAndSubmit = (\<lambda>acc w. (Inr acc, w))\<rparr>"

theorem sequence_numbers_consecutive_witness:
  "exec_many accepting_world ''A'' [1, 2] (sc_set 0 ''A'' (show_nat 41) (new_seq_cache 30000)) ()
   = [Inr (CachedAccount (show_nat 41)), Inr (CachedAccount (show_nat 42))]"
  using sequence_numbers_consecutive [of "sc_set 0 ''A'' (show_nat 41) (new_seq_cache 30000)" "''A''" _ 41 accepting_world "()" "[1, 2]"]
  by (simp add: accepting_world_def sc_set_def new_seq_cache_def)

theorem lock_released_on_every_path_witness:
  "seq_free ''A'' (fst (snd (executeWithSequenceManagement accepting_world ''A'' 1 (new_seq_cache 30000) ())))"
  using lock_released_on_every_path [of "''A''" "new_seq_cache 30000" accepting_world 1 "()",
     OF _ prod.collapse [symmetric, THEN trans, OF arg_cong2 [where f = Pair, OF refl prod.collapse [symmetric]]]]
  by (simp add: seq_free_def new_seq_cache_def)

text \<open>A stale cached number heals: when the submission with the cached number fails with a
  sequence mismatch and the network then serves a number m with which the second submission
  succeeds, the caller gets its result after exactly one refresh, and the cache ends with m + 1.\<close>

theorem stale_sequence_recovered:
  assumes "jm_get (scCache c) a = Some e" and "\<not> locked e" and "lockQueue e = []"
    and "sequenceNumber e = s" and "s \<noteq> []" and "worldNow W w - lastUpdated e \<le> scTtlMs c"
    and "buildAndSubmit W (CachedAccount s) w = (Inl error, w1)" and "isSequenceMismatchError error = Inr True"
    and "fetchAccount W w1 = (Inr (show_nat m), w2)"
    and "buildAndSubmit W (FetchedAccount (show_nat m)) w2 = (Inr r, w3)"
  shows "\<exists>c1. executeWithSequenceManagement W a k c w = (Some (Inr r, None), c1, w3)
     \<and> jm_get (scCache c1) a = Some \<lparr>sequenceNumber = show_nat (m + 1), lastUpdated = worldNow W w3,
          locked = False, lockQueue = []\<rparr>"
  using assms
  by (cases e) (simp add: executeWithSequenceManagement_def sc_acquireLock_def locked_body_def sc_get_def
      submit_and_increment_def retry_on_mismatch_def fetch_and_set_def sc_invalidate_def sc_set_def
      sc_increment_def sc_releaseLock_def show_int_of_nat)

definition stale_world :: "(unit, account) seq_world" where
  "stale_world = \<lparr>worldNow = (\<lambda>_. 0), fetchAccount = (\<lambda>w. (Inr (show_nat 7), w)),
     buildAndSubmit = (\<lambda>acc w. (if acc = FetchedAccount (show_nat 7) then Inr acc
        else Inl (JObj [(''code'', JStr ''tx_bad_seq'')]), w))\<rparr>"

theorem stale_sequence_recovered_witness:
  "\<exists>c1. executeWithSequenceManagement stale_world ''A'' 1 (sc_set 0 ''A'' ''3'' (new_seq_cache 30000)) ()
     = (Some (Inr (FetchedAccount (show_nat 7)), None), c1, ())"
proof -
  have "isSequenceMismatchError (JObj [(''code'', JStr ''tx_bad_seq'')]) = Inr True"
    by code_simp
  from stale_sequence_recovered [of "sc_set 0 ''A'' ''3'' (new_seq_cache 30000)" "''A''" _ "''3''" stale_world "()"
      _ "()" 7 "()" "FetchedAccount (show_nat 7)" "()" 1, OF _ _ _ _ _ _ _ this]
  show ?thesis by (auto simp: stale_world_def sc_set_def new_seq_cache_def)
qed

text \<open>
  An account that was never cached: \<open>acquireLock\<close> creates its entry with the placeholder \<open>0\<close>,
  which the wrapper then takes for a cached number, so the network is not asked first.
\<close>

lemma first_execution_uses_placeholder:
  "fst (executeWithSequenceManagement accepting_world ''A'' 1 (new_seq_cache 30000) ()) =
     Some (Inr (CachedAccount ''0''), None)"
  by (simp add: executeWithSequenceManagement_def sc_acquireLock_def locked_body_def sc_get_def
      submit_and_increment_def sc_increment_def sc_releaseLock_def new_seq_cache_def accepting_world_def
      big_int_of_def is_space_def is_digit_def)

section \<open>The lock protocol of concurrent tasks\<close>

text \<open>
  Tasks that use one cache concurrently: who holds and who waits for each account. Evictions are
  limited to unlocked entries here; \<open>eviction_breaks_exclusion\<close> shows what the others do.
\<close>

record lock_sys =
  lkCache :: seq_cache
  lkHolders :: "string \<Rightarrow> nat list"
  lkWaiting :: "string \<Rightarrow> nat list"

definition lock_init :: "int \<Rightarrow> lock_sys" where
  "lock_init ttl = \<lparr>lkCache = new_seq_cache ttl, lkHolders = (\<lambda>_. []), lkWaiting = (\<lambda>_. [])\<rparr>"

inductive lock_step :: "lock_sys \<Rightarrow> lock_sys \<Rightarrow> bool" where
  Enter: "sc_acquireLock now a k (lkCache s) = (c, True) \<Longrightarrow>
     lock_step s (s\<lparr>lkCache := c, lkHolders := (lkHolders s)(a := k # lkHolders s a)\<rparr>)"
| Wait: "sc_acquireLock now a k (lkCache s) = (c, False) \<Longrightarrow>
     lock_step s (s\<lparr>lkCache := c, lkWaiting := (lkWaiting s)(a := lkWaiting s a @ [k])\<rparr>)"
| Leave: "k \<in> set (lkHolders s a) \<Longrightarrow> sc_releaseLock a (lkCache s) = (c, None) \<Longrightarrow>
     lock_step s (s\<lparr>lkCache := c, lkHolders := (lkHolders s)(a := remove1 k (lkHolders s a))\<rparr>)"
| Handover: "k \<in> set (lkHolders s a) \<Longrightarrow> sc_releaseLock a (lkCache s) = (c, Some k') \<Longrightarrow>
     lock_step s (s\<lparr>lkCache := c, lkHolders := (lkHolders s)(a := k' # remove1 k (lkHolders s a)),
       lkWaiting := (lkWaiting s)(a := remove1 k' (lkWaiting s a))\<rparr>)"
| Store: "lock_step s (s\<lparr>lkCache := sc_set now a x (lkCache s)\<rparr>)"
| Increment: "sc_increment now a (lkCache s) = Some c \<Longrightarrow> lock_step s (s\<lparr>lkCache := c\<rparr>)"
| Evict: "jm_get (scCache (lkCache s)) a = Some e \<Longrightarrow> \<not> locked e \<Longrightarrow>
     lock_step s (s\<lparr>lkCache := sc_evictStale a (lkCache s)\<rparr>)"

inductive_cases lock_stepE: "lock_step s t"

inductive lock_reach :: "lock_sys \<Rightarrow> bool" where
  Init: "lock_reach (lock_init ttl)"
| Step: "lock_reach s \<Longrightarrow> lock_step s t \<Longrightarrow> lock_reach t"

fun lock_ok :: "seq_entry option \<Rightarrow> nat list \<Rightarrow> nat list \<Rightarrow> bool" where
  "lock_ok None hs ws \<longleftrightarrow> hs = [] \<and> ws = []"
| "lock_ok (Some e) hs ws \<longleftrightarrow> ws = lockQueue e
     \<and> (if locked e then \<exists>k. hs = [k] else hs = [] \<and> lockQueue e = [])"

definition lock_inv :: "lock_sys \<Rightarrow> bool" where
  "lock_inv s \<longleftrightarrow> (\<forall>a. lock_ok (jm_get (scCache (lkCache s)) a) (lkHolders s a) (lkWaiting s a))"

lemma lock_inv_update:
  assumes "lock_inv s"
    and "\<And>b. b \<noteq> a \<Longrightarrow> jm_get (scCache (lkCache t)) b = jm_get (scCache (lkCache s)) b
       \<and> lkHolders t b = lkHolders s b \<and> lkWaiting t b = lkWaiting s b"
    and "lock_ok (jm_get (scCache (lkCache s)) a) (lkHolders s a) (lkWaiting s a)
      \<Longrightarrow> lock_ok (jm_get (scCache (lkCache t)) a) (lkHolders t a) (lkWaiting t a)"
  shows "lock_inv t"
  using assms unfolding lock_inv_def by metis

lemma lock_inv_step: "lock_step s t \<Longrightarrow> lock_inv s \<Longrightarrow> lock_inv t"
proof (induction rule: lock_step.induct)
  case (Enter now a k s c)
  from Enter(1) show ?case
    by (intro lock_inv_update [OF Enter(2), of a]) (auto simp: sc_acquireLock_def split: option.splits if_splits)
next
  case (Wait now a k s c)
  from Wait(1) show ?case
    by (intro lock_inv_update [OF Wait(2), of a]) (auto simp: sc_acquireLock_def split: option.splits if_splits)
next
  case (Leave k s a c)
  from Leave(1,2) show ?case
    by (intro lock_inv_update [OF Leave(3), of a])
      (auto simp: sc_releaseLock_def split: option.splits if_splits list.splits)
next
  case (Handover k s a c k')
  from Handover(1,2) show ?case
    by (intro lock_inv_update [OF Handover(3), of a])
      (auto simp: sc_releaseLock_def split: option.splits if_splits list.splits)
next
  case (Store s now a x)
  show ?case
    by (intro lock_inv_update [OF Store, of a]) (auto simp: sc_set_def Let_def split: option.splits if_splits)
next
  case (Increment now a s c)
  from Increment(1) show ?case
    by (intro lock_inv_update [OF Increment(2), of a]) (auto simp: sc_increment_def split: option.splits if_splits)
next
  case (Evict s a e)
  from Evict(1,2) show ?case
    by (intro lock_inv_update [OF Evict(3), of a]) (auto simp: sc_evictStale_def jm_has_def split: if_splits)
qed



text \<open>
  Evicting a locked entry (ledger close, TTL, \<open>invalidate\<close> or \<open>clear\<close>) forgets the lock and its
  queue: the next task enters while the first still holds the lock, and the waiter 2 is never resumed.
\<close>

lemma eviction_breaks_exclusion:
  defines "c2 \<equiv> fst (sc_acquireLock 0 ''A'' 2 (fst (sc_acquireLock 0 ''A'' 1 (new_seq_cache 30000))))"
  shows "snd (sc_acquireLock 1 ''A'' 3 (sc_on_ledger None c2))"
    and "snd (sc_releaseLock ''A'' (fst (sc_acquireLock 1 ''A'' 3 (sc_on_ledger None c2)))) = None"
  by (simp_all add: c2_def sc_acquireLock_def sc_on_ledger_def sc_evictStale_def sc_releaseLock_def
      new_seq_cache_def jm_set_def jm_delete_def jm_has_def)

end
