(* ===== verification/Delivery_Guards.thy ===== *)
theory Delivery_Guards
  imports JS_Value
begin

text \<open>
  The two at-most-once guards of the event pipeline: \<open>backend/src/lib/fencingToken.ts\<close> (fencing
  tokens, their store and \<open>withFencingToken\<close>) and \<open>backend/src/services/webhookDeduplication.ts\<close>
  (deduplication of inbound provider events by event id).

  Both look an id up, run the handler only when it is absent, and commit it when the handler
  succeeded. The locale \<open>once_store\<close> is the contract of the store behind such a guard; the
  exactly-once lemma is proved there and interpreted on both stores.
\<close>

section \<open>The guard and the contract of its store\<close>

text \<open>
  An attempt to process an id: when the guard looks it up, when it commits, and what the handler
  would do. \<open>once\<close> is the shape of both guards over the look-up and commit operations of a store.
\<close>

record ('e, 'r) attempt =
  atCheck :: int
  atCommit :: int
  atId :: string
  atOutcome :: "('e, 'r) res"

datatype ('e, 'v, 'r) response = Duplicate 'v | Ran 'r | Failed 'e

definition once ::
  "(int \<Rightarrow> string \<Rightarrow> 's \<Rightarrow> 'v option \<times> 's) \<Rightarrow> (int \<Rightarrow> string \<Rightarrow> 'r \<Rightarrow> 's \<Rightarrow> 's) \<Rightarrow>
   ('e, 'r) attempt \<Rightarrow> 's \<Rightarrow> ('e, 'v, 'r) response \<times> 's" where
  "once lookup commit a s =
     (case lookup (atCheck a) (atId a) s of
        (Some v, s1) \<Rightarrow> (Duplicate v, s1)
      | (None, s1) \<Rightarrow>
          (case atOutcome a of
             Inl e \<Rightarrow> (Failed e, s1)
           | Inr r \<Rightarrow> (Ran r, commit (atCommit a) (atId a) r s1)))"

fun once_all ::
  "(('e, 'r) attempt \<Rightarrow> 's \<Rightarrow> ('e, 'v, 'r) response \<times> 's) \<Rightarrow> ('e, 'r) attempt list \<Rightarrow> 's \<Rightarrow>
   (string \<times> ('e, 'v, 'r) response) list" where
  "once_all guard [] s = []"
| "once_all guard (a # as) s = (case guard a s of (r, s1) \<Rightarrow> (atId a, r) # once_all guard as s1)"

definition executed :: "string \<Rightarrow> (string \<times> ('e, 'v, 'r) response) list \<Rightarrow> 'r list" where
  "executed i rs = concat (map (\<lambda>(j, r). case r of Ran x \<Rightarrow> if j = i then [x] else [] | _ \<Rightarrow> []) rs)"

definition successes :: "string \<Rightarrow> ('e, 'r) attempt list \<Rightarrow> 'r list" where
  "successes i as = concat (map (\<lambda>a. case atOutcome a of Inr x \<Rightarrow> if atId a = i then [x] else [] | Inl _ \<Rightarrow> []) as)"

definition chronological :: "('e, 'r) attempt list \<Rightarrow> bool" where
  "chronological as \<longleftrightarrow> sorted (concat (map (\<lambda>a. [atCheck a, atCommit a]) as))"

lemma executed_simps [simp]:
  "executed i [] = []"
  "executed i ((j, Ran x) # rs) = (if j = i then x # executed i rs else executed i rs)"
  "executed i ((j, Duplicate v) # rs) = executed i rs"
  "executed i ((j, Failed e) # rs) = executed i rs"
  by (auto simp: executed_def)

lemma successes_simps [simp]:
  "successes i [] = []"
  "successes i (a # as) = (case atOutcome a of Inr x \<Rightarrow> if atId a = i then x # successes i as else successes i as
     | Inl _ \<Rightarrow> successes i as)"
  by (auto simp: successes_def split: sum.splits)

lemma chronological_Cons:
  "chronological (a # as) \<Longrightarrow> chronological as \<and> atCheck a \<le> atCommit a
     \<and> (\<forall>b\<in>set as. atCommit a \<le> atCheck b \<and> atCheck a \<le> atCheck b)"
  by (fastforce simp: chronological_def)

locale once_store =
  fixes lookup :: "int \<Rightarrow> string \<Rightarrow> 's \<Rightarrow> 'v option \<times> 's"
    and commit :: "int \<Rightarrow> string \<Rightarrow> 'r \<Rightarrow> 's \<Rightarrow> 's"
    and view :: "'s \<Rightarrow> int \<Rightarrow> string \<Rightarrow> 'v option"
    and shown :: "'r \<Rightarrow> 'v"
    and retained :: "int \<Rightarrow> int \<Rightarrow> bool"
    and inv :: "'s \<Rightarrow> bool"
  assumes inv_lookup: "inv s \<Longrightarrow> inv (snd (lookup t i s))"
    and inv_commit: "inv s \<Longrightarrow> inv (commit t i r s)"
    and lookup_view: "inv s \<Longrightarrow> fst (lookup t i s) = view s t i"
    and lookup_keeps: "inv s \<Longrightarrow> t \<le> u \<Longrightarrow> view (snd (lookup t i s)) u j = view s u j"
    and commit_view: "inv s \<Longrightarrow> t \<le> u \<Longrightarrow> retained t u \<Longrightarrow> view (commit t i r s) u i = Some (shown r)"
    and commit_other: "inv s \<Longrightarrow> j \<noteq> i \<Longrightarrow> view (commit t i r s) u j = view s u j"
begin

lemma once_inv: "inv s \<Longrightarrow> inv (snd (once lookup commit a s))"
  using inv_lookup [of s "atCheck a" "atId a"] inv_commit
  by (auto simp: once_def split: prod.splits option.splits sum.splits)

lemma once_response:
  assumes "inv s"
  shows "fst (once lookup commit a s) = (case view s (atCheck a) (atId a) of Some v \<Rightarrow> Duplicate v
     | None \<Rightarrow> (case atOutcome a of Inl e \<Rightarrow> Failed e | Inr r \<Rightarrow> Ran r))"
  using lookup_view [OF assms, of "atCheck a" "atId a"]
  by (auto simp: once_def split: prod.splits option.splits sum.splits)

lemma once_keeps:
  assumes "inv s" and "atCheck a \<le> u"
    and "atId a \<noteq> j \<or> view s (atCheck a) (atId a) \<noteq> None \<or> (\<exists>e. atOutcome a = Inl e)"
  shows "view (snd (once lookup commit a s)) u j = view s u j"
  using lookup_keeps [OF assms(1,2), of "atId a" j] lookup_view [OF assms(1), of "atCheck a" "atId a"]
    inv_lookup [OF assms(1), of "atCheck a" "atId a"] assms(3)
  by (cases "atId a = j") (auto simp: once_def commit_other split: prod.splits option.splits sum.splits)

lemma once_commits:
  assumes "inv s" and "atCommit a \<le> u" and "retained (atCommit a) u"
    and "view s (atCheck a) (atId a) = None" and "atOutcome a = Inr r"
  shows "view (snd (once lookup commit a s)) u (atId a) = Some (shown r)"
  using lookup_view [OF assms(1), of "atCheck a" "atId a"] inv_lookup [OF assms(1), of "atCheck a" "atId a"]
    commit_view [OF _ assms(2,3)] assms(4,5)
  by (auto simp: once_def split: prod.splits option.splits)

lemma seen_not_executed:
  assumes "inv s" and "chronological as" and "\<forall>a\<in>set as. view s (atCheck a) i = Some v"
  shows "executed i (once_all (once lookup commit) as s) = []
    \<and> (\<forall>r. (i, r) \<in> set (once_all (once lookup commit) as s) \<longrightarrow> r = Duplicate v)"
  using assms
proof (induction as arbitrary: s)
  case Nil
  then show ?case by simp
next
  case (Cons a as)
  obtain r s1 where st: "once lookup commit a s = (r, s1)" by fastforce
  note ch = chronological_Cons [OF Cons.prems(2)]
  have s1: "inv s1" using once_inv [OF Cons.prems(1), of a] st by simp
  have "\<forall>b\<in>set as. view s1 (atCheck b) i = Some v"
  proof
    fix b assume "b \<in> set as"
    have "view s1 (atCheck b) i = view s (atCheck b) i"
      using once_keeps [OF Cons.prems(1), of a "atCheck b" i] Cons.prems(3) st ch \<open>b \<in> set as\<close> by auto
    then show "view s1 (atCheck b) i = Some v" using Cons.prems(3) \<open>b \<in> set as\<close> by simp
  qed
  note IH = Cons.IH [OF s1 conjunct1 [OF ch] this]
  have "atId a = i \<Longrightarrow> r = Duplicate v" using once_response [OF Cons.prems(1), of a] Cons.prems(3) st by simp
  with IH st show ?case by (cases r) auto
qed

text \<open>Exactly once: of all attempts for an id only the first that succeeds is executed.\<close>

lemma exactly_once:
  assumes "inv s" and "chronological as" and "\<forall>a\<in>set as. view s (atCheck a) i = None"
    and "\<forall>a\<in>set as. \<forall>b\<in>set as. atCommit a \<le> atCheck b \<longrightarrow> retained (atCommit a) (atCheck b)"
  shows "executed i (once_all (once lookup commit) as s) = take 1 (successes i as)"
  using assms
proof (induction as arbitrary: s)
  case Nil
  then show ?case by simp
next
  case (Cons a as)
  obtain r s1 where st: "once lookup commit a s = (r, s1)" by fastforce
  note ch = chronological_Cons [OF Cons.prems(2)]
  have s1: "inv s1" using once_inv [OF Cons.prems(1), of a] st by simp
  show ?case
  proof (cases "atId a = i \<and> (\<exists>x. atOutcome a = Inr x)")
    case True
    then obtain x where x: "atId a = i" "atOutcome a = Inr x" by blast
    have "r = Ran x" using once_response [OF Cons.prems(1), of a] Cons.prems(3) st x by simp
    have "\<forall>b\<in>set as. view s1 (atCheck b) i = Some (shown x)"
      using once_commits [OF Cons.prems(1) _ _ _ x(2)] Cons.prems(3,4) ch st x(1) by auto
    from seen_not_executed [OF s1 conjunct1 [OF ch] this] \<open>r = Ran x\<close> x st show ?thesis by simp
  next
    case False
    have "\<forall>b\<in>set as. view s1 (atCheck b) i = None"
    proof
      fix b assume "b \<in> set as"
      have "view s1 (atCheck b) i = view s (atCheck b) i"
        using once_keeps [OF Cons.prems(1), of a "atCheck b" i] False ch st \<open>b \<in> set as\<close>
        by (cases "atOutcome a") auto
      then show "view s1 (atCheck b) i = None" using Cons.prems(3) \<open>b \<in> set as\<close> by simp
    qed
    then have IH: "executed i (once_all (once lookup commit) as s1) = take 1 (successes i as)"
      using Cons.IH [OF s1 conjunct1 [OF ch]] Cons.prems(4) by simp
    have "\<forall>x. r = Ran x \<longrightarrow> atId a \<noteq> i"
      using once_response [OF Cons.prems(1), of a] False st by (auto split: option.splits sum.splits)
    with IH st False show ?thesis by (cases r) (auto split: sum.splits)
  qed
qed

end

section \<open>Fencing tokens\<close>

record fencing_token =
  ftLedger :: int
  ftOpIndex :: int
  ftId :: string

datatype fencing_error = InvalidLedger int | InvalidOpIndex int | MalformedToken string

text \<open>Ledgers and indices are JavaScript integers; \<open>Number.isInteger\<close> is true of them.\<close>

definition createFencingToken :: "int \<Rightarrow> int \<Rightarrow> (fencing_error, fencing_token) res" where
  "createFencingToken ledger opIndex =
     (if ledger < 0 then Inl (InvalidLedger ledger)
      else if opIndex < 0 then Inl (InvalidOpIndex opIndex)
      else Inr \<lparr>ftLedger = ledger, ftOpIndex = opIndex,
                ftId = show_int ledger @ CHR '':'' # show_int opIndex\<rparr>)"

definition parseFencingToken :: "string \<Rightarrow> (fencing_error, fencing_token) res" where
  "parseFencingToken raw =
     (case split_on CHR '':'' raw of
        [p, q] \<Rightarrow>
          (case (parse_int10 p, parse_int10 q) of
             (Some ledger, Some opIndex) \<Rightarrow> createFencingToken ledger opIndex
           | _ \<Rightarrow> Inl (MalformedToken raw))
      | _ \<Rightarrow> Inl (MalformedToken raw))"

text \<open>\<open>payload.meta?.fencingTokenId\<close> is \<open>None\<close> when the payload carries none.\<close>

definition extractFencingTokenFromPayload :: "string option \<Rightarrow> fencing_token option" where
  "extractFencingTokenFromPayload fencingTokenId =
     (case fencingTokenId of
        None \<Rightarrow> None
      | Some raw \<Rightarrow> if raw = [] then None
                    else (case parseFencingToken raw of Inr t \<Rightarrow> Some t | Inl _ \<Rightarrow> None))"

record fencing_store =
  fsStore :: "(string, int) jsmap"
  fsTtlMs :: int

definition new_fencing_store :: "int \<Rightarrow> fencing_store" where
  "new_fencing_store ttl = \<lparr>fsStore = [], fsTtlMs = ttl\<rparr>"

definition fs_isProcessed :: "int \<Rightarrow> string \<Rightarrow> fencing_store \<Rightarrow> bool \<times> fencing_store" where
  "fs_isProcessed now i s =
     (case jm_get (fsStore s) i of
        None \<Rightarrow> (False, s)
      | Some processedAt \<Rightarrow>
          if fsTtlMs s > 0 \<and> now - processedAt > fsTtlMs s
          then (False, s\<lparr>fsStore := jm_delete (fsStore s) i\<rparr>)
          else (True, s))"

definition fs_markProcessed :: "int \<Rightarrow> string \<Rightarrow> fencing_store \<Rightarrow> fencing_store" where
  "fs_markProcessed now i s = s\<lparr>fsStore := jm_set (fsStore s) i now\<rparr>"

definition fs_remove :: "string \<Rightarrow> fencing_store \<Rightarrow> fencing_store" where
  "fs_remove i s = s\<lparr>fsStore := jm_delete (fsStore s) i\<rparr>"

definition fs_size :: "fencing_store \<Rightarrow> nat" where
  "fs_size s = length (fsStore s)"

text \<open>
  \<open>withFencingToken\<close> on the in-memory store; \<open>Duplicate ()\<close> is \<open>skipped: true\<close>, \<open>Failed\<close> the
  handler's exception.
\<close>

definition withFencingToken :: "('e, 'r) attempt \<Rightarrow> fencing_store \<Rightarrow> ('e, unit, 'r) response \<times> fencing_store" where
  "withFencingToken a s =
     (case fs_isProcessed (atCheck a) (atId a) s of
        (True, s1) \<Rightarrow> (Duplicate (), s1)
      | (False, s1) \<Rightarrow>
          (case atOutcome a of
             Inl e \<Rightarrow> (Failed e, s1)
           | Inr r \<Rightarrow> (Ran r, fs_markProcessed (atCommit a) (atId a) s1)))"

definition fs_lookup :: "int \<Rightarrow> string \<Rightarrow> fencing_store \<Rightarrow> unit option \<times> fencing_store" where
  "fs_lookup now i s = (case fs_isProcessed now i s of (b, s1) \<Rightarrow> (if b then Some () else None, s1))"

definition fs_commit :: "int \<Rightarrow> string \<Rightarrow> 'r \<Rightarrow> fencing_store \<Rightarrow> fencing_store" where
  "fs_commit now i r s = fs_markProcessed now i s"

lemma withFencingToken_once: "withFencingToken = once fs_lookup fs_commit"
  by (intro ext) (auto simp: withFencingToken_def once_def fs_lookup_def fs_commit_def
      split: prod.splits sum.splits)

definition fs_view :: "fencing_store \<Rightarrow> int \<Rightarrow> string \<Rightarrow> unit option" where
  "fs_view s now i = (case jm_get (fsStore s) i of
      None \<Rightarrow> None | Some p \<Rightarrow> if fsTtlMs s > 0 \<and> now - p > fsTtlMs s then None else Some ())"

interpretation fencing: once_store fs_lookup "fs_commit :: int \<Rightarrow> string \<Rightarrow> 'r \<Rightarrow> _" fs_view "\<lambda>_. ()"
  "\<lambda>t u. ttl > 0 \<longrightarrow> u - t \<le> ttl" "\<lambda>s. fsTtlMs s = ttl" for ttl :: int
  by unfold_locales
    (auto simp: fs_lookup_def fs_isProcessed_def fs_commit_def fs_markProcessed_def fs_view_def split: option.splits)

text \<open>C7: \<open>withFencingToken\<close> is exactly-once: of all attempts to process an event (sequential, all within
  the token time-to-live of one another), exactly the first whose handler succeeds runs it to
  completion; failed attempts leave the token unmarked and later ones are skipped.\<close>

theorem fencing_exactly_once:
  assumes "chronological as"
    and "ttl > 0 \<longrightarrow> (\<forall>a\<in>set as. \<forall>b\<in>set as. atCheck b - atCommit a \<le> ttl)"
  shows "executed i (once_all withFencingToken as (new_fencing_store ttl)) = take 1 (successes i as)"
  unfolding withFencingToken_once
  by (rule fencing.exactly_once [where ttl = ttl]) (use assms in \<open>auto simp: new_fencing_store_def fs_view_def\<close>)

theorem fencing_exactly_once_witness:
  "executed ''7:0'' (once_all withFencingToken
     [\<lparr>atCheck = 0, atCommit = 5, atId = ''7:0'', atOutcome = Inl ''boom''\<rparr>,
      \<lparr>atCheck = 9, atCommit = 12, atId = ''7:0'', atOutcome = Inr (1 :: nat)\<rparr>,
      \<lparr>atCheck = 20, atCommit = 21, atId = ''7:0'', atOutcome = Inr 2\<rparr>] (new_fencing_store 1000)) = [1]"
  using fencing_exactly_once [of
     "[\<lparr>atCheck = 0, atCommit = 5, atId = ''7:0'', atOutcome = Inl ''boom''\<rparr>,
      \<lparr>atCheck = 9, atCommit = 12, atId = ''7:0'', atOutcome = Inr (1 :: nat)\<rparr>,
      \<lparr>atCheck = 20, atCommit = 21, atId = ''7:0'', atOutcome = Inr 2\<rparr>]" 1000 "''7:0''"]
  by (simp add: chronological_def)

lemma show_int_nonneg: "0 \<le> i \<Longrightarrow> show_int i = show_nat (nat i)"
  by (simp add: show_int_def)

lemma colon_not_in_show_nat: "CHR '':'' \<notin> set (show_nat n)"
  using show_nat_digits [of "CHR '':''" n] is_digit_not_sign by blast

text \<open>Token ids round-trip: parsing the id of a token that was created gives the token back.\<close>

theorem fencing_token_roundtrip:
  assumes "createFencingToken ledger opIndex = Inr t"
  shows "parseFencingToken (ftId t) = Inr t \<and> extractFencingTokenFromPayload (Some (ftId t)) = Some t"
proof -
  from assms have nn: "0 \<le> ledger" "0 \<le> opIndex"
    and t: "t = \<lparr>ftLedger = ledger, ftOpIndex = opIndex, ftId = show_int ledger @ CHR '':'' # show_int opIndex\<rparr>"
    by (auto simp: createFencingToken_def split: if_splits)
  have "split_on CHR '':'' (ftId t) = [show_nat (nat ledger), show_nat (nat opIndex)]"
    by (simp add: t show_int_nonneg nn split_on_append split_on_no_sep colon_not_in_show_nat)
  then have p: "parseFencingToken (ftId t) = Inr t"
    using assms nn by (simp add: parseFencingToken_def)
  then show ?thesis using t by (simp add: extractFencingTokenFromPayload_def)
qed

theorem fencing_token_roundtrip_witness:
  "\<exists>t. createFencingToken 1234567 0 = Inr t \<and> parseFencingToken (ftId t) = Inr t"
  using fencing_token_roundtrip [of 1234567 0] by (simp add: createFencingToken_def)

text \<open>The parser accepts ids that no token has: \<open>parseInt\<close> ignores what follows the digits.\<close>

lemma parse_accepts_trailing_garbage:
  "parseFencingToken ''12abc:3x'' = createFencingToken 12 3"
  by (simp add: parseFencingToken_def parse_int10_def parse_digits_def is_space_def is_digit_def digits_val_def digit_val_def)

section \<open>Webhook deduplication\<close>

record 'r dedup_entry =
  deProcessedAt :: int
  deSuccess :: bool
  deResult :: 'r
  deExpiresAt :: int

record 'r dedup_service =
  dsStore :: "(string, 'r dedup_entry) jsmap"
  dsWindowMs :: int

definition DEFAULT_DEDUP_WINDOW :: int where
  "DEFAULT_DEDUP_WINDOW = 72 * 60 * 60 * 1000"

definition new_dedup_service :: "int option \<Rightarrow> 'r dedup_service" where
  "new_dedup_service window = \<lparr>dsStore = [], dsWindowMs = (case window of None \<Rightarrow> DEFAULT_DEDUP_WINDOW | Some w \<Rightarrow> w)\<rparr>"

definition ds_evict :: "int \<Rightarrow> 'r dedup_service \<Rightarrow> 'r dedup_service" where
  "ds_evict now s = s\<lparr>dsStore := foldl (\<lambda>m (k, e). if deExpiresAt e \<le> now then jm_delete m k else m) (dsStore s) (dsStore s)\<rparr>"

definition ds_process :: "('e, 'r) attempt \<Rightarrow> 'r dedup_service \<Rightarrow> ('e, 'r, 'r) response \<times> 'r dedup_service" where
  "ds_process a s =
     (let s1 = ds_evict (atCheck a) s
      in case jm_get (dsStore s1) (atId a) of
           Some existing \<Rightarrow> (Duplicate (deResult existing), s1)
         | None \<Rightarrow>
             (case atOutcome a of
                Inl e \<Rightarrow> (Failed e, s1)
              | Inr r \<Rightarrow>
                  (Ran r, s1\<lparr>dsStore := jm_set (dsStore s1) (atId a)
                     \<lparr>deProcessedAt = atCommit a, deSuccess = True, deResult = r,
                      deExpiresAt = atCommit a + dsWindowMs s1\<rparr>\<rparr>)))"

definition ds_isDuplicate :: "int \<Rightarrow> string \<Rightarrow> 'r dedup_service \<Rightarrow> 'r dedup_service \<times> bool" where
  "ds_isDuplicate now i s = (let s1 = ds_evict now s in (s1, jm_get (dsStore s1) i \<noteq> None))"

definition ds_getEntry :: "string \<Rightarrow> 'r dedup_service \<Rightarrow> 'r dedup_entry option" where
  "ds_getEntry i s = jm_get (dsStore s) i"

definition ds_storeSize :: "'r dedup_service \<Rightarrow> nat" where
  "ds_storeSize s = length (dsStore s)"

definition ds_lookup :: "int \<Rightarrow> string \<Rightarrow> 'r dedup_service \<Rightarrow> 'r option \<times> 'r dedup_service" where
  "ds_lookup now i s = (let s1 = ds_evict now s in (map_option deResult (jm_get (dsStore s1) i), s1))"

definition ds_commit :: "int \<Rightarrow> string \<Rightarrow> 'r \<Rightarrow> 'r dedup_service \<Rightarrow> 'r dedup_service" where
  "ds_commit now i r s = s\<lparr>dsStore := jm_set (dsStore s) i
     \<lparr>deProcessedAt = now, deSuccess = True, deResult = r, deExpiresAt = now + dsWindowMs s\<rparr>\<rparr>"

lemma ds_process_once: "ds_process = once ds_lookup ds_commit"
  by (intro ext) (auto simp: ds_process_def once_def ds_lookup_def ds_commit_def Let_def
      split: option.splits sum.splits)

definition ds_view :: "'r dedup_service \<Rightarrow> int \<Rightarrow> string \<Rightarrow> 'r option" where
  "ds_view s now i = (case jm_get (dsStore s) i of
      None \<Rightarrow> None | Some e \<Rightarrow> if deExpiresAt e \<le> now then None else Some (deResult e))"

lemma foldl_delete_get:
  "jm_get (foldl (\<lambda>m (k, e). if P e then jm_delete m k else m) m0 xs) i =
     (if \<exists>e. (i, e) \<in> set xs \<and> P e then None else jm_get m0 i)"
  by (induction xs arbitrary: m0) auto

lemma foldl_delete_wf:
  "jm_wf m0 \<Longrightarrow> jm_wf (foldl (\<lambda>m (k, e). if P e then jm_delete m k else m) m0 xs)"
  by (induction xs arbitrary: m0) auto

lemma ds_evict_get:
  "jm_wf (dsStore s) \<Longrightarrow> jm_get (dsStore (ds_evict now s)) i =
     (case jm_get (dsStore s) i of None \<Rightarrow> None | Some e \<Rightarrow> if deExpiresAt e \<le> now then None else Some e)"
  by (auto simp: ds_evict_def foldl_delete_get jm_wf_def split: option.splits dest: map_of_is_SomeI map_of_SomeD)
    (metis map_of_SomeD map_of_is_SomeI option.inject option.distinct(1) weak_map_of_SomeI)+

lemma ds_evict_fields [simp]:
  "dsWindowMs (ds_evict now s) = dsWindowMs s"
  "jm_wf (dsStore s) \<Longrightarrow> jm_wf (dsStore (ds_evict now s))"
  by (simp_all add: ds_evict_def foldl_delete_wf)

interpretation dedup: once_store ds_lookup ds_commit ds_view "\<lambda>r. r"
  "\<lambda>t u. u < t + window" "\<lambda>s. jm_wf (dsStore s) \<and> dsWindowMs s = window" for window :: int
  by unfold_locales
    (auto simp: ds_lookup_def Let_def ds_commit_def ds_view_def ds_evict_get
      split: option.splits)

text \<open>C9: Deduplication of provider events is exactly-once within the window: of all sequential
  deliveries of an event id whose look-ups fall inside the window of every commit, exactly the first
  successful one runs its handler.\<close>

theorem dedup_exactly_once:
  assumes "chronological as"
    and "\<forall>a\<in>set as. \<forall>b\<in>set as. atCheck b < atCommit a + window"
  shows "executed i (once_all ds_process as (new_dedup_service (Some window))) = take 1 (successes i as)"
  unfolding ds_process_once
  by (rule dedup.exactly_once [where window = window]) (use assms in \<open>auto simp: new_dedup_service_def ds_view_def\<close>)

theorem dedup_exactly_once_witness:
  "executed ''evt_1'' (once_all ds_process
     [\<lparr>atCheck = 0, atCommit = 2, atId = ''evt_1'', atOutcome = (Inr 5 :: (string, nat) res)\<rparr>,
      \<lparr>atCheck = 3, atCommit = 4, atId = ''evt_1'', atOutcome = Inr 6\<rparr>] (new_dedup_service (Some 100))) = [5]"
  using dedup_exactly_once [of
     "[\<lparr>atCheck = 0, atCommit = 2, atId = ''evt_1'', atOutcome = (Inr 5 :: (string, nat) res)\<rparr>,
      \<lparr>atCheck = 3, atCommit = 4, atId = ''evt_1'', atOutcome = Inr 6\<rparr>]" 100 "''evt_1''"]
  by (simp add: chronological_def)

text \<open>
  Two overlapping deliveries of one id (both look it up before either commits) both run the handler.
\<close>

lemma overlapping_deliveries_both_run:
  defines "s0 \<equiv> new_dedup_service (Some 100) :: nat dedup_service"
  shows "fst (ds_lookup 0 ''evt_1'' s0) = None"
    and "fst (ds_lookup 1 ''evt_1'' (snd (ds_lookup 0 ''evt_1'' s0))) = None"
  by (simp_all add: s0_def ds_lookup_def ds_evict_def new_dedup_service_def Let_def)

end
