(* ===== verification/Contract_Address.thy ===== *)
theory Contract_Address
  imports Retry_Backoff "HOL-Library.Word"
begin

unbundle bit_operations_syntax

text \<open>
  \<open>backend/src/lib/contractAddressValidator.ts\<close>: the decoding of a contract's address with its checksum, the key under which
  the ledger holds the contract, and the check with retries that the network has it.

  JavaScript's bitwise operators work on 32 bits, so the accumulators are \<open>32 word\<close>; a buffer is a list of
  \<open>8 word\<close>. The RPC's answers are a parameter.
\<close>

section \<open>Base 32\<close>

definition BASE32_ALPHABET :: string where
  "BASE32_ALPHABET = ''ABCDEFGHIJKLMNOPQRSTUVWXYZ234567''"

datatype address_error = InvalidCharacter char | TooShort | WrongVersion "8 word" | InvalidChecksum

definition alphabet_index :: "char \<Rightarrow> nat option" where
  "alphabet_index c = find_index (\<lambda>x. x = c) BASE32_ALPHABET"

record base32_state =
  bsOutput :: "8 word list"
  bsBits :: nat
  bsValue :: "32 word"

definition base32_step :: "nat \<Rightarrow> base32_state \<Rightarrow> base32_state" where
  "base32_step idx s =
     (let value = push_bit 5 (bsValue s) OR word_of_nat idx;
          bits = bsBits s + 5
      in if bits \<ge> 8
         then \<lparr>bsOutput = bsOutput s @ [ucast (drop_bit (bits - 8) value AND 255)], bsBits = bits - 8, bsValue = value\<rparr>
         else \<lparr>bsOutput = bsOutput s, bsBits = bits, bsValue = value\<rparr>)"

fun base32_loop :: "string \<Rightarrow> base32_state \<Rightarrow> (address_error, base32_state) res" where
  "base32_loop [] s = Inr s"
| "base32_loop (c # cs) s =
     (case alphabet_index c of None \<Rightarrow> Inl (InvalidCharacter c) | Some idx \<Rightarrow> base32_loop cs (base32_step idx s))"

definition base32Decode :: "string \<Rightarrow> (address_error, 8 word list) res" where
  "base32Decode s =
     (case base32_loop (to_upper s) \<lparr>bsOutput = [], bsBits = 0, bsValue = 0\<rparr> of
        Inl e \<Rightarrow> Inl e | Inr st \<Rightarrow> Inr (bsOutput st))"

section \<open>The checksum\<close>

definition crc_shift :: "32 word \<Rightarrow> 32 word" where
  "crc_shift crc =
     (let crc = push_bit 1 crc
      in if crc AND 0x10000 \<noteq> 0 then (crc XOR 0x1021) AND 0xffff else crc AND 0xffff)"

definition crc_byte :: "32 word \<Rightarrow> 8 word \<Rightarrow> 32 word" where
  "crc_byte crc b = (crc_shift ^^ 8) (crc XOR push_bit 8 (ucast b))"

definition calculateCrc16XModem :: "8 word list \<Rightarrow> 32 word" where
  "calculateCrc16XModem data = foldl crc_byte 0 data"

definition readUInt16BE :: "8 word list \<Rightarrow> nat \<Rightarrow> 32 word" where
  "readUInt16BE buf i = push_bit 8 (ucast (buf ! i)) OR ucast (buf ! (i + 1))"

section \<open>The address\<close>

definition decodeContractStrkey :: "string \<Rightarrow> (address_error, 8 word list) res" where
  "decodeContractStrkey contractId =
     (case base32Decode contractId of
        Inl e \<Rightarrow> Inl e
      | Inr decoded \<Rightarrow>
          if length decoded < 35 then Inl TooShort
          else if decoded ! 0 \<noteq> 0x10 then Inl (WrongVersion (decoded ! 0))
          else if readUInt16BE decoded 33 \<noteq> calculateCrc16XModem (take 33 decoded) then Inl InvalidChecksum
          else Inr (take 32 (drop 1 decoded)))"

definition writeUInt32BE :: "32 word \<Rightarrow> 8 word list" where
  "writeUInt32BE w = [ucast (drop_bit 24 w), ucast (drop_bit 16 w), ucast (drop_bit 8 w), ucast w]"

definition buildContractDataLedgerKey :: "8 word list \<Rightarrow> 8 word list" where
  "buildContractDataLedgerKey contractHash =
     writeUInt32BE 7 @ writeUInt32BE 1 @ contractHash @ writeUInt32BE 20 @ writeUInt32BE 1"

section \<open>The check on the network\<close>

definition VALIDATOR_RETRY_CONFIG :: retry_config where
  "VALIDATOR_RETRY_CONFIG = \<lparr>rcMaxAttempts = 3, rcInitialDelay = 1000, rcMaxDelay = 10000, rcBackoffFactor = 2, rcJitterFactor = Some (1 / 10)\<rparr>"

datatype validation_error = CannotDecode address_error | NotFound | FailedAfter int jsval | ThrownType

text \<open>
  \<open>rpc key k\<close> is the answer to the attempt \<open>k\<close>: an error that the client throws, or the data of the response. The result comes with the
  delays that were slept; \<open>n\<close> attempts are left.
\<close>

fun validate_attempts ::
  "retry_config \<Rightarrow> (int \<Rightarrow> real) \<Rightarrow> (int \<Rightarrow> (jsval, jsval) res) \<Rightarrow> int \<Rightarrow> nat \<Rightarrow> jsval \<Rightarrow> (validation_error, unit) res \<times> real list" where
  "validate_attempts config rnd answer attempt 0 lastError = (Inl (FailedAfter (rcMaxAttempts config) lastError), [])"
| "validate_attempts config rnd answer attempt (Suc n) lastError =
     (case answer attempt of
        Inr body \<Rightarrow>
          (case js_prop (js_prop body ''result'') ''entries'' of
             JArr (_ # _) \<Rightarrow> (Inr (), [])
           | _ \<Rightarrow> (Inl NotFound, []))
      | Inl err \<Rightarrow>
          (case isRetryableError err of
             Inl _ \<Rightarrow> (Inl ThrownType, [])
           | Inr retryable \<Rightarrow>
               if \<not> retryable \<or> attempt = rcMaxAttempts config then (Inl (FailedAfter attempt err), [])
               else (case validate_attempts config rnd answer (attempt + 1) n err of
                       (r, delays) \<Rightarrow> (r, calculateBackoffDelay attempt config (rnd attempt) # delays))))"

definition validateContractOnNetwork ::
  "retry_config \<Rightarrow> (int \<Rightarrow> real) \<Rightarrow> (8 word list \<Rightarrow> int \<Rightarrow> (jsval, jsval) res) \<Rightarrow> string \<Rightarrow> (validation_error, unit) res \<times> real list" where
  "validateContractOnNetwork config rnd rpc contractId =
     (case decodeContractStrkey contractId of
        Inl e \<Rightarrow> (Inl (CannotDecode e), [])
      | Inr contractHash \<Rightarrow>
          validate_attempts config rnd (rpc (buildContractDataLedgerKey contractHash)) 1 (nat (rcMaxAttempts config)) JUndef)"

section \<open>The decoder reads one number\<close>

definition base_value :: "nat \<Rightarrow> nat list \<Rightarrow> nat" where
  "base_value b ds = foldl (\<lambda>n d. n * b + d) 0 ds"

lemma base_value_snoc [simp]: "base_value b (ds @ [d]) = base_value b ds * b + d"
  by (simp add: base_value_def)

lemma base_value_Nil [simp]: "base_value b [] = 0"
  by (simp add: base_value_def)

lemma alphabet_index_bound: "alphabet_index c = Some i \<Longrightarrow> i < 32"
  using find_index_Some [of "\<lambda>x. x = c" BASE32_ALPHABET i] by (simp add: alphabet_index_def BASE32_ALPHABET_def)

text \<open>The accumulator is the number of all digits so far, modulo its width; at most twelve of its bits are read.\<close>

lemma accumulator:
  assumes "bsValue s = word_of_nat N" "idx < 32"
  shows "push_bit 5 (bsValue s) OR word_of_nat idx = (word_of_nat (N * 32 + idx) :: 32 word)"
proof -
  have "push_bit 5 (word_of_nat N :: 32 word) AND word_of_nat idx = 0"
  proof (rule bit_eqI)
    fix n
    assume "possible_bit TYPE(32 word) n"
    have "take_bit 5 idx = idx" using assms(2) by (simp add: take_bit_nat_eq_self)
    then have "\<not> bit idx n" if "5 \<le> n" using that by (metis bit_take_bit_iff linorder_not_le)
    then show "bit (push_bit 5 (word_of_nat N :: 32 word) AND word_of_nat idx) n = bit (0 :: 32 word) n"
      by (auto simp: bit_simps)
  qed
  then have "push_bit 5 (word_of_nat N :: 32 word) OR word_of_nat idx = push_bit 5 (word_of_nat N) + word_of_nat idx"
    by (simp add: disjunctive_add_eq_or)
  then show ?thesis using assms(1) by (simp add: push_bit_eq_mult)
qed


lemma accumulated_byte:
  assumes "k + 8 \<le> 32"
  shows "unat (ucast (drop_bit k (word_of_nat N :: 32 word) AND 255) :: 8 word) = N div 2 ^ k mod 256"
proof -
  have "(255 :: 32 word) = mask 8" by (simp add: mask_eq_exp_minus_1)
  then have "drop_bit k (word_of_nat N :: 32 word) AND 255 = take_bit 8 (drop_bit k (word_of_nat N))"
    by (simp add: take_bit_eq_mask)
  then have "unat (ucast (drop_bit k (word_of_nat N :: 32 word) AND 255) :: 8 word) = take_bit 8 (unat (take_bit 8 (drop_bit k (word_of_nat N :: 32 word))))"
    by (simp add: unsigned_ucast_eq)
  also have "\<dots> = take_bit 8 (drop_bit k (take_bit 32 N))"
    by (simp add: unsigned_take_bit_eq unsigned_drop_bit_eq unsigned_of_nat)
  also have "\<dots> = take_bit 8 (drop_bit k N)"
    using assms by (simp add: take_bit_drop_bit min_def)
  also have "\<dots> = N div 2 ^ k mod 256" by (simp add: take_bit_eq_mod drop_bit_eq_div)
  finally show ?thesis .
qed

definition base32_inv :: "nat list \<Rightarrow> base32_state \<Rightarrow> bool" where
  "base32_inv ds s \<longleftrightarrow> bsBits s = 5 * length ds mod 8 \<and> length (bsOutput s) = 5 * length ds div 8 \<and>
     bsValue s = word_of_nat (base_value 32 ds) \<and>
     base_value 256 (map unat (bsOutput s)) = base_value 32 ds div 2 ^ bsBits s"

lemma div_mod_eq: "(m :: nat) = r + 8 * q \<Longrightarrow> r < 8 \<Longrightarrow> m div 8 = q \<and> m mod 8 = r"
  by simp

lemma regroup_more:
  assumes "8 \<le> m mod 8 + 5"
  shows "m mod 8 + 5 - 8 = (m + 5) mod 8 \<and> Suc (m div 8) = (m + 5) div (8 :: nat)"
proof -
  define q r where "q = m div 8" and "r = m mod 8"
  then have m: "m = 8 * q + r" by simp
  have "r < 8" by (simp add: r_def)
  then show ?thesis using div_mod_eq [of "m + 5" "r + 5 - 8" "Suc q"] assms m unfolding q_def [symmetric] r_def [symmetric] by simp
qed

lemma regroup_less:
  assumes "\<not> 8 \<le> m mod 8 + 5"
  shows "m mod 8 + 5 = (m + 5) mod 8 \<and> m div 8 = (m + 5) div (8 :: nat)"
proof -
  define q r where "q = m div 8" and "r = m mod 8"
  then have m: "m = 8 * q + r" by simp
  show ?thesis using div_mod_eq [of "m + 5" "r + 5" q] assms m unfolding q_def [symmetric] r_def [symmetric] by simp
qed

lemma base32_step_inv:
  assumes inv: "base32_inv ds s" and d: "idx < 32"
  shows "base32_inv (ds @ [idx]) (base32_step idx s)"
proof -
  let ?N = "base_value 32 ds" and ?b = "bsBits s"
  have b: "?b = 5 * length ds mod 8" "?b < 8" using inv by (simp_all add: base32_inv_def)
  have v: "push_bit 5 (bsValue s) OR word_of_nat idx = (word_of_nat (?N * 32 + idx) :: 32 word)"
    using inv d by (intro accumulator) (simp_all add: base32_inv_def)
  have out: "base_value 256 (map unat (bsOutput s)) = ?N div 2 ^ ?b" using inv by (simp add: base32_inv_def)
  have up: "(?N * 32 + idx) div 2 ^ (?b + 5) = ?N div 2 ^ ?b"
  proof -
    have "(?N * 32 + idx) div 32 = ?N" using d by simp
    then show ?thesis by (simp add: power_add div_mult2_eq mult.commute [of "2 ^ ?b"])
  qed
  show ?thesis
  proof (cases "?b + 5 \<ge> 8")
    case True
    let ?k = "?b + 5 - 8"
    have byte: "unat (ucast (drop_bit ?k (word_of_nat (?N * 32 + idx) :: 32 word) AND 255) :: 8 word) = (?N * 32 + idx) div 2 ^ ?k mod 256"
      by (rule accumulated_byte) (use b in simp)
    have "(?N * 32 + idx) div 2 ^ ?k div 256 = (?N * 32 + idx) div 2 ^ (?k + 8)"
      by (simp add: power_add div_mult2_eq)
    then have "(?N * 32 + idx) div 2 ^ ?k div 256 = ?N div 2 ^ ?b" using up True by (simp add: add.commute)
    then have "?N div 2 ^ ?b * 256 + (?N * 32 + idx) div 2 ^ ?k mod 256 = (?N * 32 + idx) div 2 ^ ?k"
      by (metis div_mult_mod_eq)
    moreover have "?k = 5 * Suc (length ds) mod 8" "Suc (5 * length ds div 8) = 5 * Suc (length ds) div 8"
      using regroup_more [of "5 * length ds"] True b(1) by (simp_all add: add.commute)
    moreover have "base32_step idx s = \<lparr>bsOutput = bsOutput s @ [ucast (drop_bit ?k (word_of_nat (?N * 32 + idx) :: 32 word) AND 255)],
        bsBits = ?k, bsValue = word_of_nat (?N * 32 + idx)\<rparr>"
      using True by (simp only: base32_step_def Let_def v if_True)
    moreover have "length (bsOutput s) = 5 * length ds div 8" using inv by (simp add: base32_inv_def)
    ultimately show ?thesis
      using out byte by (simp del: of_nat_add of_nat_mult of_nat_numeral add: base32_inv_def)
  next
    case False
    moreover have "?b + 5 = 5 * Suc (length ds) mod 8" "5 * length ds div 8 = 5 * Suc (length ds) div 8"
      using regroup_less [of "5 * length ds"] False b(1) by (simp_all add: add.commute)
    moreover have "base32_step idx s = \<lparr>bsOutput = bsOutput s, bsBits = ?b + 5, bsValue = word_of_nat (?N * 32 + idx)\<rparr>"
      using False by (simp only: base32_step_def Let_def v if_False)
    moreover have "length (bsOutput s) = 5 * length ds div 8" using inv by (simp add: base32_inv_def)
    ultimately show ?thesis
      using out up by (simp del: of_nat_add of_nat_mult of_nat_numeral add: base32_inv_def)
  qed
qed

section \<open>The decoder on a whole text\<close>

definition digits_of :: "string \<Rightarrow> nat list" where
  "digits_of s = map (\<lambda>c. the (alphabet_index c)) (to_upper s)"

lemma base32_loop_ok:
  "\<forall>c\<in>set cs. alphabet_index c \<noteq> None \<Longrightarrow> base32_inv ds s \<Longrightarrow>
    \<exists>st ys. base32_loop cs s = Inr st \<and> base32_inv (ds @ map (\<lambda>c. the (alphabet_index c)) cs) st \<and> bsOutput st = bsOutput s @ ys"
proof (induction cs arbitrary: ds s)
  case Nil
  then show ?case by auto
next
  case (Cons c cs)
  then obtain i where i: "alphabet_index c = Some i" by auto
  have out: "\<exists>zs. bsOutput (base32_step i s) = bsOutput s @ zs" by (simp add: base32_step_def Let_def)
  have "base32_inv (ds @ [i]) (base32_step i s)" using Cons.prems i by (intro base32_step_inv) (auto intro: alphabet_index_bound)
  from Cons.IH [OF _ this] Cons.prems(1) i out show ?case by auto
qed

lemma base32_loop_bad: "\<exists>c\<in>set cs. alphabet_index c = None \<Longrightarrow> \<exists>c. base32_loop cs s = Inl (InvalidCharacter c)"
  by (induction cs arbitrary: s) (auto split: option.split)

lemma base32_loop_append:
  "base32_loop (xs @ ys) s = (case base32_loop xs s of Inl e \<Rightarrow> Inl e | Inr st \<Rightarrow> base32_loop ys st)"
  by (induction xs arbitrary: s) (auto split: option.split)

lemma base32_init: "base32_inv [] \<lparr>bsOutput = [], bsBits = 0, bsValue = 0\<rparr>"
  by (simp add: base32_inv_def)

lemma base32Decode_cases:
  "(\<forall>c\<in>set (to_upper s). alphabet_index c \<noteq> None) \<and>
     (\<exists>st. base32Decode s = Inr (bsOutput st) \<and> base32_inv (digits_of s) st) \<or>
   (\<exists>c\<in>set (to_upper s). alphabet_index c = None) \<and> (\<exists>c. base32Decode s = Inl (InvalidCharacter c))"
proof (cases "\<exists>c\<in>set (to_upper s). alphabet_index c = None")
  case True
  obtain c where "base32_loop (to_upper s) \<lparr>bsOutput = [], bsBits = 0, bsValue = 0\<rparr> = Inl (InvalidCharacter c)"
    using base32_loop_bad [OF True] by blast
  then show ?thesis using True by (simp add: base32Decode_def)
next
  case False
  then have ok: "\<forall>c\<in>set (to_upper s). alphabet_index c \<noteq> None" by simp
  obtain st where "base32_loop (to_upper s) \<lparr>bsOutput = [], bsBits = 0, bsValue = 0\<rparr> = Inr st" "base32_inv (digits_of s) st"
    using base32_loop_ok [OF ok base32_init] unfolding digits_of_def by auto
  then have "base32Decode s = Inr (bsOutput st) \<and> base32_inv (digits_of s) st" by (simp add: base32Decode_def)
  then show ?thesis using ok by blast
qed

text \<open>An accepted text is decoded to the bytes of the number that its digits write in base 32, less the bits that fill no byte: the
  32-bit accumulator overflows on any address and loses nothing. A text is refused exactly when a character is not in the alphabet.\<close>

theorem base32_decodes_number:
  "case base32Decode s of
     Inr bytes \<Rightarrow> length bytes = 5 * length s div 8 \<and>
       base_value 256 (map unat bytes) = base_value 32 (digits_of s) div 2 ^ (5 * length s mod 8)
   | Inl e \<Rightarrow> \<exists>c\<in>set (to_upper s). c \<notin> set BASE32_ALPHABET"
proof -
  have mem: "alphabet_index c = None \<longleftrightarrow> c \<notin> set BASE32_ALPHABET" for c
    by (auto simp: alphabet_index_def find_index_None)
  show ?thesis
    using base32Decode_cases [of s] by (auto simp: base32_inv_def digits_of_def to_upper_def mem)
qed

section \<open>Bytes and numbers\<close>

lemma base_value_bound: "\<forall>d\<in>set ds. d < b \<Longrightarrow> base_value b ds < b ^ length ds"
proof (induction ds rule: rev_induct)
  case (snoc d ds)
  then have "base_value b ds < b ^ length ds" "d < b" by auto
  then have "base_value b ds * b + d < (base_value b ds + 1) * b" by simp
  also have "\<dots> \<le> b ^ length ds * b" using \<open>base_value b ds < b ^ length ds\<close> by (intro mult_right_mono) auto
  finally show ?case by (simp add: mult.commute)
qed simp

lemma base_value_nth:
  "\<forall>d\<in>set ds. d < b \<Longrightarrow> 0 < b \<Longrightarrow> k < length ds \<Longrightarrow> ds ! k = base_value b ds div b ^ (length ds - 1 - k) mod b"
proof (induction ds arbitrary: k rule: rev_induct)
  case (snoc d ds)
  show ?case
  proof (cases "k = length ds")
    case False
    then have k: "k < length ds" using snoc.prems by simp
    then have "length ds - k = Suc (length ds - 1 - k)" by simp
    moreover have "(base_value b ds * b + d) div b = base_value b ds" using snoc.prems by simp
    ultimately have "base_value b (ds @ [d]) div b ^ (length ds - k) = base_value b ds div b ^ (length ds - 1 - k)"
      by (simp add: div_mult2_eq)
    then show ?thesis using snoc.IH [of k] snoc.prems k by (simp add: nth_append)
  qed (use snoc.prems in \<open>simp add: nth_append\<close>)
qed simp

lemma unat_bytes_bound: "\<forall>d\<in>set (map unat bytes). d < 256" for bytes :: "8 word list"
proof -
  have "unat w < 256" for w :: "8 word" using unsigned_less [of w] by simp
  then show ?thesis by simp
qed

lemma base_value_inject:
  assumes "\<forall>d\<in>set xs. d < b" "\<forall>d\<in>set ys. d < b" "0 < b" "length xs = length ys" "base_value b xs = base_value b ys"
  shows "xs = ys"
  using base_value_nth [OF assms(1,3)] base_value_nth [OF assms(2,3)] assms(4,5) by (intro nth_equalityI) simp_all

definition number_digits :: "nat \<Rightarrow> nat \<Rightarrow> nat \<Rightarrow> nat list" where
  "number_digits b n N = map (\<lambda>k. N div b ^ (n - 1 - k) mod b) [0..<n]"

lemma base_value_number_digits: "0 < b \<Longrightarrow> N < b ^ n \<Longrightarrow> base_value b (number_digits b n N) = N"
proof (induction n arbitrary: N)
  case 0
  then show ?case by (simp add: number_digits_def)
next
  case (Suc n)
  have "map (\<lambda>k. N div b ^ (n - k) mod b) [0..<n] = number_digits b n (N div b)"
    unfolding number_digits_def
  proof (rule map_cong [OF refl])
    fix k assume "k \<in> set [0..<n]"
    then have "n - k = Suc (n - 1 - k)" by auto
    then show "N div b ^ (n - k) mod b = N div b div b ^ (n - 1 - k) mod b" by (simp add: div_mult2_eq)
  qed
  then have "number_digits b (Suc n) N = number_digits b n (N div b) @ [N mod b]" by (simp add: number_digits_def)
  moreover have "N div b < b ^ n" using Suc.prems by (simp add: div_less_iff_less_mult mult.commute)
  ultimately show ?case using Suc.IH [of "N div b"] Suc.prems by (simp add: mult.commute)
qed

section \<open>The checksum is linear\<close>

lemma mask16: "(0xffff :: 32 word) = mask 16"
  by (simp add: mask_eq_exp_minus_1)

lemma bit_shift1: "bit (push_bit 1 x :: 32 word) n \<longleftrightarrow> 1 \<le> n \<and> n < 32 \<and> bit x (n - 1)"
  by (simp only: bit_push_bit_iff possible_bit_word) auto

lemma crc_shift_eq: "crc_shift x = take_bit 16 (push_bit 1 x) XOR (if bit x 15 then 0x1021 else 0)"
proof -
  have "(0x10000 :: 32 word) = 2 ^ 16" by simp
  then have "push_bit 1 x AND 0x10000 \<noteq> 0 \<longleftrightarrow> bit x 15"
    by (simp only: and_exp_eq_0_iff_not_bit bit_shift1) simp
  moreover have "take_bit 16 (push_bit 1 x XOR 0x1021) = take_bit 16 (push_bit 1 x) XOR (0x1021 :: 32 word)"
    by (simp only: take_bit_xor) simp
  ultimately show ?thesis unfolding crc_shift_def Let_def mask16 take_bit_eq_mask [symmetric] by (simp del: push_bit_Suc)
qed

lemma crc_shift_xor: "crc_shift (x XOR y) = crc_shift x XOR crc_shift y"
  unfolding crc_shift_eq push_bit_xor take_bit_xor bit_xor_iff by (simp add: ac_simps)

lemma crc_shifts_xor: "(crc_shift ^^ n) (x XOR y) = (crc_shift ^^ n) x XOR (crc_shift ^^ n) y"
  by (induction n) (simp_all add: crc_shift_xor)

lemma crc_shift_bits: "take_bit 16 (crc_shift x) = crc_shift x"
  unfolding crc_shift_eq take_bit_xor take_bit_take_bit by simp

lemma crc_shift_zero:
  assumes "take_bit 16 x = x" "crc_shift x = 0"
  shows "x = 0"
proof -
  have no: "\<not> bit x 15"
  proof
    assume "bit x 15"
    then have "bit (crc_shift x) 0" unfolding crc_shift_eq bit_xor_iff bit_take_bit_iff bit_shift1 by simp
    then show False using assms(2) by simp
  qed
  then have zero: "take_bit 16 (push_bit 1 x) = 0" using assms(2) by (simp add: crc_shift_eq)
  have "\<not> bit x n" for n
  proof (cases "n < 15")
    case True
    have "\<not> bit (take_bit 16 (push_bit 1 x)) (Suc n)" unfolding zero by simp
    then show ?thesis using True unfolding bit_take_bit_iff bit_shift1 by simp
  next
    case False
    show ?thesis
    proof
      assume b: "bit x n"
      then have "n \<noteq> 15" using no by auto
      then have "\<not> n < 16" using False by simp
      then show False using b assms(1) by (metis bit_take_bit_iff)
    qed
  qed
  then show ?thesis by (intro bit_eqI) simp
qed

lemma crc_shifts_zero: "take_bit 16 x = x \<Longrightarrow> (crc_shift ^^ n) x = 0 \<longleftrightarrow> x = 0"
proof (induction n)
  case (Suc n)
  have "take_bit 16 ((crc_shift ^^ n) x) = (crc_shift ^^ n) x"
    using Suc.prems crc_shift_bits by (cases n) simp_all
  moreover have "crc_shift 0 = 0" by (simp add: crc_shift_eq)
  ultimately show ?case using Suc crc_shift_zero by auto
qed simp

lemma crc_shifts_low: "take_bit (16 - n) x = x \<Longrightarrow> n \<le> 16 \<Longrightarrow> (crc_shift ^^ n) x = push_bit n x"
proof (induction n)
  case (Suc n)
  have "bit x k \<Longrightarrow> k < 16 - Suc n" for k using Suc.prems(1) by (metis bit_take_bit_iff)
  then have x: "bit x k \<Longrightarrow> k < 15 - n" for k by fastforce
  have "take_bit (16 - n) x = x" by (rule bit_eqI) (auto simp: bit_take_bit_iff dest: x)
  then have IH: "(crc_shift ^^ n) x = push_bit n x" using Suc by simp
  have "\<not> bit (push_bit n x) 15" using x by (auto simp: bit_push_bit_iff)
  moreover have "take_bit 16 (push_bit 1 (push_bit n x)) = push_bit 1 (push_bit n x)"
    unfolding push_bit_push_bit by (rule bit_eqI) (unfold bit_take_bit_iff bit_push_bit_iff, use x in fastforce)
  ultimately have "crc_shift (push_bit n x) = push_bit 1 (push_bit n x)" by (simp only: crc_shift_eq if_False) simp
  then show ?case using IH by (simp only: funpow.simps comp_apply push_bit_push_bit plus_1_eq_Suc)
qed simp

lemma crc_byte_xor: "crc_byte (c XOR d) (a XOR b) = crc_byte c a XOR crc_byte d b"
proof -
  have "(c XOR d) XOR push_bit 8 (ucast (a XOR b)) = (c XOR push_bit 8 (ucast a)) XOR (d XOR push_bit 8 (ucast b :: 32 word))"
    by (rule bit_eqI) (auto simp: bit_simps)
  then show ?thesis unfolding crc_byte_def by (simp only: crc_shifts_xor [symmetric])
qed

lemma crc_foldl_xor:
  "length xs = length ys \<Longrightarrow> foldl crc_byte (c XOR d) (map2 (XOR) xs ys) = foldl crc_byte c xs XOR foldl crc_byte d ys"
proof (induction xs ys arbitrary: c d rule: list_induct2)
  case (Cons x xs y ys)
  then show ?case by (simp add: crc_byte_xor)
qed simp

lemma crc_byte_bits: "take_bit 16 (crc_byte c b) = crc_byte c b"
proof -
  have "(crc_shift ^^ 8) y = crc_shift ((crc_shift ^^ 7) y)" for y by (simp add: numeral_eq_Suc)
  then show ?thesis by (simp only: crc_byte_def crc_shift_bits)
qed

lemma crc_zero_byte: "take_bit 16 c = c \<Longrightarrow> crc_byte c 0 = 0 \<longleftrightarrow> c = 0"
  by (simp add: crc_byte_def crc_shifts_zero)

lemma word_xor_zero: "x XOR y = 0 \<longleftrightarrow> x = y" for x y :: "'a :: len word"
proof
  assume "x XOR y = 0"
  then have "(x XOR y) XOR y = 0 XOR y" by simp
  then show "x = y" by (simp add: xor.assoc)
qed simp

lemma crc_shifts_twice: "(crc_shift ^^ 8) ((crc_shift ^^ 8) y) = (crc_shift ^^ 16) y"
proof -
  have "(crc_shift ^^ (8 + 8)) y = (crc_shift ^^ 8) ((crc_shift ^^ 8) y)" by (simp only: funpow_add comp_apply)
  then show ?thesis by simp
qed

lemma crc_two_bytes:
  "crc_byte (crc_byte c hi) lo = (crc_shift ^^ 16) (c XOR (push_bit 8 (ucast hi) OR ucast lo))"
proof -
  have "take_bit (16 - 8) (ucast lo :: 32 word) = ucast lo"
    by (rule bit_eqI) (auto simp: bit_simps dest: bit_imp_le_length)
  then have "(crc_shift ^^ 8) (ucast lo :: 32 word) = push_bit 8 (ucast lo)" by (rule crc_shifts_low) simp
  then have "crc_byte (crc_byte c hi) lo = (crc_shift ^^ 8) ((crc_shift ^^ 8) (c XOR push_bit 8 (ucast hi) XOR ucast lo))"
    by (simp only: crc_byte_def crc_shifts_xor xor.assoc)
  moreover have "c XOR push_bit 8 (ucast hi) XOR ucast lo = c XOR (push_bit 8 (ucast hi) OR (ucast lo :: 32 word))"
    by (rule bit_eqI) (auto simp: bit_simps dest: bit_imp_le_length)
  ultimately show ?thesis by (simp only: crc_shifts_twice)
qed

lemma crc_zero_bytes: "take_bit 16 c = c \<Longrightarrow> set zs \<subseteq> {0} \<Longrightarrow> foldl crc_byte c zs = 0 \<longleftrightarrow> c = 0"
proof (induction zs arbitrary: c)
  case (Cons z zs)
  then have "z = 0" by simp
  then show ?case using Cons crc_byte_bits crc_zero_byte by simp
qed simp

lemma two_bytes_bits: "take_bit 16 (push_bit 8 (ucast hi) OR ucast lo :: 32 word) = push_bit 8 (ucast hi) OR ucast lo"
  for hi lo :: "8 word"
  by (rule bit_eqI) (auto simp: bit_simps dest: bit_imp_le_length)

lemma two_bytes_zero: "push_bit 8 (ucast hi) OR ucast lo = (0 :: 32 word) \<longleftrightarrow> hi = 0 \<and> lo = 0" for hi lo :: "8 word"
proof
  assume z: "push_bit 8 (ucast hi) OR ucast lo = (0 :: 32 word)"
  have "\<not> bit hi n" "\<not> bit lo n" for n
  proof -
    have "\<not> bit (push_bit 8 (ucast hi) OR ucast lo :: 32 word) m" for m unfolding z by simp
    then have b: "\<not> bit (push_bit 8 (ucast hi) :: 32 word) m" "\<not> bit (ucast lo :: 32 word) m" for m by (auto simp: bit_or_iff)
    show "\<not> bit lo n" using b(2) [of n] by (auto simp: bit_simps dest: bit_imp_le_length)
    show "\<not> bit hi n" using b(1) [of "n + 8"] by (auto simp: bit_simps dest: bit_imp_le_length)
  qed
  then show "hi = 0 \<and> lo = 0" by (auto intro: bit_eqI)
qed simp

lemma crc_burst:
  "foldl crc_byte 0 d = 0 \<Longrightarrow> \<forall>i<length d. i \<noteq> k \<and> i \<noteq> Suc k \<longrightarrow> d ! i = 0 \<Longrightarrow> set d \<subseteq> {0}"
proof (induction d arbitrary: k)
  case (Cons x d)
  have zero: "crc_byte 0 0 = 0" by (simp add: crc_zero_byte)
  have at_zero: "i < length (x # d) \<Longrightarrow> i \<noteq> k \<Longrightarrow> i \<noteq> Suc k \<Longrightarrow> (x # d) ! i = 0" for i using Cons.prems(2) by blast
  have pair: "(crc_byte (crc_byte 0 x) y = 0) = (x = 0 \<and> y = 0)" for y
    by (simp only: crc_two_bytes xor.left_neutral crc_shifts_zero [OF two_bytes_bits] two_bytes_zero)
  show ?case
  proof (cases k)
    case (Suc k')
    then have "x = 0" using Cons.prems(2) by auto
    moreover have "\<forall>i<length d. i \<noteq> k' \<and> i \<noteq> Suc k' \<longrightarrow> d ! i = 0" using Cons.prems(2) Suc by auto
    ultimately show ?thesis using Cons.IH [of k'] Cons.prems(1) zero by simp
  next
    case 0
    show ?thesis
    proof (cases d)
      case Nil
      then have "crc_byte (crc_byte 0 x) 0 = 0" using Cons.prems(1) zero by simp
      then show ?thesis using pair Nil by simp
    next
      case (Cons y zs)
      have "zs ! i = 0" if "i < length zs" for i using at_zero [of "Suc (Suc i)"] 0 Cons that by simp
      then have zs: "set zs \<subseteq> {0}" by (auto simp: in_set_conv_nth)
      then have "crc_byte (crc_byte 0 x) y = 0" using Cons.prems(1) Cons crc_zero_bytes [OF crc_byte_bits zs] by simp
      then show ?thesis using pair Cons zs by simp
    qed
  qed
qed simp

lemma codewords_differ:
  assumes len: "length u = length v" and u: "foldl crc_byte 0 u = 0" and v: "foldl crc_byte 0 v = 0"
    and near: "\<forall>i<length u. i \<noteq> k \<and> i \<noteq> Suc k \<longrightarrow> u ! i = v ! i"
  shows "u = v"
proof -
  let ?d = "map2 (XOR) u v"
  have "foldl crc_byte 0 ?d = 0" using crc_foldl_xor [OF len, of 0 0] u v by simp
  moreover have "\<forall>i<length ?d. i \<noteq> k \<and> i \<noteq> Suc k \<longrightarrow> ?d ! i = 0" using near len by simp
  ultimately have "set ?d \<subseteq> {0}" by (rule crc_burst)
  then have "u ! i XOR v ! i = 0" if "i < length u" for i
    using that len by (force simp: in_set_conv_nth)
  then have "u ! i = v ! i" if "i < length u" for i using that by (simp add: word_xor_zero)
  then show ?thesis using len by (intro nth_equalityI) simp_all
qed

lemma stored_checksum:
  assumes "length v = 35"
  shows "readUInt16BE v 33 = calculateCrc16XModem (take 33 v) \<longleftrightarrow> foldl crc_byte 0 v = 0"
proof -
  have "drop 33 v = v ! 33 # drop 34 v" "drop 34 v = v ! 34 # drop 35 v" "drop 35 v = []"
    using Cons_nth_drop_Suc [of 33 v] Cons_nth_drop_Suc [of 34 v] assms by simp_all
  then have "drop 33 v = [v ! 33, v ! 34]" by simp
  then have split: "v = take 33 v @ [v ! 33, v ! 34]" by (metis append_take_drop_id)
  let ?c = "calculateCrc16XModem (take 33 v)" and ?w = "push_bit 8 (ucast (v ! 33)) OR ucast (v ! 34) :: 32 word"
  obtain xs x where "take 33 v = xs @ [x]" using assms by (cases "take 33 v" rule: rev_cases) auto
  then have "take_bit 16 ?c = ?c" by (simp only: calculateCrc16XModem_def foldl_append foldl_Cons foldl_Nil crc_byte_bits)
  then have bits: "take_bit 16 (?c XOR ?w) = ?c XOR ?w" by (simp only: take_bit_xor two_bytes_bits)
  have "foldl crc_byte 0 v = (crc_shift ^^ 16) (?c XOR ?w)"
    by (subst split) (simp only: foldl_append foldl_Cons foldl_Nil crc_two_bytes calculateCrc16XModem_def)
  then have "foldl crc_byte 0 v = 0 \<longleftrightarrow> ?c XOR ?w = 0" using crc_shifts_zero [OF bits] by simp
  also have "\<dots> \<longleftrightarrow> ?w = ?c" by (auto simp: word_xor_zero)
  finally show ?thesis by (simp add: readUInt16BE_def)
qed


section \<open>A mistyped character\<close>

lemma base_value_append: "base_value b (xs @ ys) = base_value b xs * b ^ length ys + base_value b ys"
proof (induction ys rule: rev_induct)
  case (snoc y ys)
  then show ?case by (simp add: algebra_simps flip: append_assoc)
qed simp

lemma digits_bound: "\<forall>c\<in>set (to_upper s). alphabet_index c \<noteq> None \<Longrightarrow> \<forall>d\<in>set (digits_of s). d < 32"
  unfolding digits_of_def using alphabet_index_bound by fastforce

lemma first_bytes:
  assumes dec: "base32Decode s = Inr bytes" and len: "56 \<le> length s"
  shows "35 \<le> length bytes" "base_value 256 (map unat (take 35 bytes)) = base_value 32 (digits_of (take 56 s))"
proof -
  let ?init = "\<lparr>bsOutput = [], bsBits = 0, bsValue = 0\<rparr>"
  have ok: "\<forall>c\<in>set (to_upper s). alphabet_index c \<noteq> None" using base32Decode_cases [of s] dec by auto
  then have oks: "\<forall>c\<in>set (to_upper (take 56 s)). alphabet_index c \<noteq> None" "\<forall>c\<in>set (to_upper (drop 56 s)). alphabet_index c \<noteq> None"
    by (auto simp: to_upper_def dest: in_set_takeD in_set_dropD)
  obtain st where st: "base32_loop (to_upper (take 56 s)) ?init = Inr st" "base32_inv (digits_of (take 56 s)) st"
    using base32_loop_ok [OF oks(1) base32_init] by (auto simp: digits_of_def)
  obtain st2 ys where st2: "base32_loop (to_upper (drop 56 s)) st = Inr st2" "bsOutput st2 = bsOutput st @ ys"
    using base32_loop_ok [OF oks(2) st(2)] by auto
  have "to_upper s = to_upper (take 56 s) @ to_upper (drop 56 s)"
    unfolding to_upper_def by (metis append_take_drop_id map_append)
  then have "base32_loop (to_upper s) ?init = Inr st2" using base32_loop_append st(1) st2(1) by simp
  then have bytes: "bytes = bsOutput st @ ys" using dec st2(2) by (simp add: base32Decode_def)
  have "length (digits_of (take 56 s)) = 56" using len by (simp add: digits_of_def to_upper_def)
  then have "length (bsOutput st) = 35" "base_value 256 (map unat (bsOutput st)) = base_value 32 (digits_of (take 56 s))"
    using st(2) by (simp_all add: base32_inv_def)
  then show "35 \<le> length bytes" "base_value 256 (map unat (take 35 bytes)) = base_value 32 (digits_of (take 56 s))"
    using bytes by simp_all
qed

lemma decodeContractStrkey_iff:
  "decodeContractStrkey s = Inr h \<longleftrightarrow>
    (\<exists>bytes. base32Decode s = Inr bytes \<and> 35 \<le> length bytes \<and> bytes ! 0 = 0x10 \<and> foldl crc_byte 0 (take 35 bytes) = 0 \<and> h = take 32 (drop 1 bytes))"
proof (cases "base32Decode s")
  case (Inr bytes)
  have "readUInt16BE bytes 33 = calculateCrc16XModem (take 33 bytes) \<longleftrightarrow> foldl crc_byte 0 (take 35 bytes) = 0" if "35 \<le> length bytes"
    using stored_checksum [of "take 35 bytes"] that by (simp add: readUInt16BE_def min_def)
  then show ?thesis using Inr by (auto simp: decodeContractStrkey_def)
qed (simp add: decodeContractStrkey_def)

lemma decoded_length: "base32Decode s = Inr bytes \<Longrightarrow> length bytes = 5 * length s div 8"
  using base32Decode_cases [of s] by (auto simp: base32_inv_def digits_of_def to_upper_def)

lemma digit_window:
  fixes A C g p w :: nat
  assumes "C < 2 ^ w" "w + 5 \<le> p \<or> p + 8 \<le> w" "g < 32"
  shows "(A * 2 ^ (w + 5) + g * 2 ^ w + C) div 2 ^ p mod 256 =
    (if w + 5 \<le> p then A div 2 ^ (p - (w + 5)) mod 256 else C div 2 ^ p mod 256)"
proof (cases "w + 5 \<le> p")
  case True
  then have p: "(2 :: nat) ^ p = 2 ^ (w + 5) * 2 ^ (p - (w + 5))" by (simp flip: power_add)
  have "g * 2 ^ w + C < 2 ^ (w + 5)"
  proof -
    have "g * 2 ^ w + C < (g + 1) * 2 ^ w" using assms(1) by simp
    also have "\<dots> \<le> 32 * 2 ^ w" using assms(3) by (intro mult_right_mono) auto
    finally show ?thesis by (simp add: power_add)
  qed
  then have "(A * 2 ^ (w + 5) + (g * 2 ^ w + C)) div 2 ^ (w + 5) = A" by (simp only: div_mult_self3) simp
  then show ?thesis using True unfolding p div_mult2_eq by (simp add: add.assoc)
next
  case False
  then have "w = p + (8 + (w - p - 8))" using assms(2) by simp
  then have "(2 :: nat) ^ w = 2 ^ (p + (8 + (w - p - 8)))" by (rule arg_cong)
  then have w: "(2 :: nat) ^ w = 2 ^ p * (256 * 2 ^ (w - p - 8))" by (simp only: power_add) simp
  have "A * 2 ^ (w + 5) + g * 2 ^ w + C = C + 2 ^ p * (256 * ((A * 32 + g) * 2 ^ (w - p - 8)))"
    unfolding power_add w by (simp add: algebra_simps)
  then have "(A * 2 ^ (w + 5) + g * 2 ^ w + C) div 2 ^ p = C div 2 ^ p + 256 * ((A * 32 + g) * 2 ^ (w - p - 8))"
    by simp
  then show ?thesis using False by simp
qed


text \<open>Two addresses whose digits differ in one place decode to bytes that agree outside two neighbours.\<close>

lemma bytes_near:
  assumes len: "length ds = 56" and i: "i < 56" and ds: "\<forall>d\<in>set ds. d < 32" and g': "g' < 32"
    and u: "length u = 35" "base_value 256 (map unat u) = base_value 32 ds"
    and v: "length v = 35" "base_value 256 (map unat v) = base_value 32 (ds[i := g'])"
  shows "\<forall>k<length u. k \<noteq> 33 - 5 * (55 - i) div 8 \<and> k \<noteq> Suc (33 - 5 * (55 - i) div 8) \<longrightarrow> u ! k = (v ! k :: 8 word)"
proof (intro allI impI)
  fix k
  assume k: "k < length u" and far: "k \<noteq> 33 - 5 * (55 - i) div 8 \<and> k \<noteq> Suc (33 - 5 * (55 - i) div 8)"
  define w where "w = 5 * (55 - i)"
  define p where "p = 8 * (34 - k)"
  define A where "A = base_value 32 (take i ds)"
  define C where "C = base_value 32 (drop (Suc i) ds)"
  have "C < 32 ^ length (drop (Suc i) ds)" unfolding C_def by (rule base_value_bound) (use ds in \<open>auto dest: in_set_dropD\<close>)
  moreover have "length (drop (Suc i) ds) = 55 - i" using len by simp
  moreover have "(32 :: nat) ^ (55 - i) = 2 ^ w" unfolding w_def by (simp add: power_mult)
  ultimately have C: "C < 2 ^ w" by simp
  have val: "base_value 32 (take i ds @ g # drop (Suc i) ds) = A * 2 ^ (w + 5) + g * 2 ^ w + C" for g
  proof -
    have "base_value 32 (g # drop (Suc i) ds) = g * 32 ^ (55 - i) + C"
      using base_value_append [of 32 "[g]" "drop (Suc i) ds"] len by (simp add: base_value_def C_def)
    moreover have "(32 :: nat) ^ Suc (55 - i) = 2 ^ (w + 5)" unfolding w_def by (simp add: power_mult power_add)
    moreover have "length (g # drop (Suc i) ds) = Suc (55 - i)" using len i by simp
    ultimately show ?thesis unfolding base_value_append A_def [symmetric] using \<open>32 ^ (55 - i) = 2 ^ w\<close> by simp
  qed
  have vals: "base_value 32 ds = A * 2 ^ (w + 5) + ds ! i * 2 ^ w + C" "base_value 32 (ds[i := g']) = A * 2 ^ (w + 5) + g' * 2 ^ w + C"
    using val [of "ds ! i"] val [of g'] i len by (simp_all add: id_take_nth_drop [symmetric] upd_conv_take_nth_drop)
  have outside: "w + 5 \<le> p \<or> p + 8 \<le> w"
  proof (rule ccontr)
    assume "\<not> (w + 5 \<le> p \<or> p + 8 \<le> w)"
    then have "w < 8 * (34 - k) + 8" "8 * (34 - k) < w + 5" unfolding p_def by linarith+
    moreover have "8 * (w div 8) \<le> w" "w < 8 * (w div 8) + 8" by (simp_all add: dividend_less_times_div)
    ultimately have "w div 8 = 34 - k \<or> Suc (w div 8) = 34 - k" by linarith
    moreover have "k < 35" using k u(1) by simp
    moreover have "k \<noteq> 33 - w div 8" "k \<noteq> Suc (33 - w div 8)" using far unfolding w_def by blast+
    ultimately show False by linarith
  qed
  have "ds ! i < 32" using ds i len by simp
  then have same: "base_value 32 ds div 2 ^ p mod 256 = base_value 32 (ds[i := g']) div 2 ^ p mod 256"
    unfolding vals using digit_window [OF C outside] g' by simp
  have p256: "(256 :: nat) ^ (34 - k) = 2 ^ p" unfolding p_def by (simp add: power_mult)
  have "unat (u ! k) = base_value 256 (map unat u) div 256 ^ (34 - k) mod 256"
    using base_value_nth [OF unat_bytes_bound, of k u] k u(1) by simp
  moreover have "unat (v ! k) = base_value 256 (map unat v) div 256 ^ (34 - k) mod 256"
    using base_value_nth [OF unat_bytes_bound, of k v] k u(1) v(1) by simp
  ultimately have "unat (u ! k) = unat (v ! k)" using same u(2) v(2) p256 by simp
  then show "u ! k = v ! k" by (simp add: word_unat_eq_iff)
qed

lemma alphabet_index_inject: "alphabet_index c = Some i \<Longrightarrow> alphabet_index d = Some i \<Longrightarrow> c = d"
  unfolding alphabet_index_def by (auto dest!: find_index_Some)

text \<open>C15: An address with one mistyped character is refused: when an address is accepted, the one that differs from it in one of its 56
  characters, other than by case, is not, because the checksum tells apart any two buffers that differ in two neighbouring bytes.\<close>

theorem mistyped_address_refused:
  assumes ok: "decodeContractStrkey s = Inr h" and i: "i < 56" and c: "char_upper c \<noteq> char_upper (s ! i)"
  shows "\<exists>e. decodeContractStrkey (s[i := c]) = Inl e"
proof (rule ccontr)
  let ?t = "s[i := c]"
  assume "\<not> (\<exists>e. decodeContractStrkey ?t = Inl e)"
  then obtain h' where ok': "decodeContractStrkey ?t = Inr h'" by (cases "decodeContractStrkey ?t") auto
  obtain bs where bs: "base32Decode s = Inr bs" "35 \<le> length bs" "foldl crc_byte 0 (take 35 bs) = 0"
    using ok unfolding decodeContractStrkey_iff by blast
  obtain bt where bt: "base32Decode ?t = Inr bt" "35 \<le> length bt" "foldl crc_byte 0 (take 35 bt) = 0"
    using ok' unfolding decodeContractStrkey_iff by blast
  have len: "56 \<le> length s" using decoded_length [OF bs(1)] bs(2) by simp
  let ?ds = "digits_of (take 56 s)" and ?g = "the (alphabet_index (char_upper c))"
  have al: "\<forall>x\<in>set (to_upper s). alphabet_index x \<noteq> None" "\<forall>x\<in>set (to_upper ?t). alphabet_index x \<noteq> None"
    using base32Decode_cases [of s] base32Decode_cases [of ?t] bs(1) bt(1) by auto
  then have "\<forall>x\<in>set (to_upper (take 56 s)). alphabet_index x \<noteq> None" by (auto simp: to_upper_def dest: in_set_takeD)
  then have ds: "\<forall>d\<in>set ?ds. d < 32" by (rule digits_bound)
  have "c \<in> set ?t" using i len by (intro set_update_memI) simp
  then have g: "alphabet_index (char_upper c) = Some ?g" using al(2) by (simp add: to_upper_def)
  have "s ! i \<in> set s" using i len by simp
  then have gi: "alphabet_index (char_upper (s ! i)) = Some (?ds ! i)" using al(1) i len by (simp add: to_upper_def digits_of_def)
  have dt: "digits_of (take 56 ?t) = ?ds[i := ?g]"
    by (simp add: digits_of_def to_upper_def take_update_swap map_update)
  have "?ds ! i \<noteq> ?g" using alphabet_index_inject [of "char_upper c" ?g "char_upper (s ! i)"] g gi c by auto
  have first: "base_value 256 (map unat (take 35 bs)) = base_value 32 ?ds" "base_value 256 (map unat (take 35 bt)) = base_value 32 (?ds[i := ?g])"
    using first_bytes(2) [OF bs(1) len] first_bytes(2) [OF bt(1)] len dt by simp_all
  have "take 35 bs = take 35 bt"
    by (rule codewords_differ [OF _ bs(3) bt(3) bytes_near [OF _ i ds alphabet_index_bound [OF g] _ first(1) _ first(2)]])
       (use bs(2) bt(2) len in \<open>simp_all add: digits_of_def to_upper_def\<close>)
  then have "base_value 32 ?ds = base_value 32 (?ds[i := ?g])" using first by simp
  moreover have "\<forall>d\<in>set (?ds[i := ?g]). d < 32" 
    using ds alphabet_index_bound [OF g] set_update_subset_insert [of ?ds i ?g] by blast
  ultimately have "?ds = ?ds[i := ?g]" using base_value_inject [OF ds] by simp
  then have "?ds ! i = ?g" using i len by (metis digits_of_def to_upper_def length_map length_take min.absorb2 nth_list_update_eq)
  then show False using \<open>?ds ! i \<noteq> ?g\<close> by simp
qed


section \<open>The address of a hash\<close>

text \<open>An address as it is made: version, hash and checksum, written in base 32.\<close>

definition strkey_bytes :: "8 word list \<Rightarrow> 8 word list" where
  "strkey_bytes hash =
     (let crc = calculateCrc16XModem (0x10 # hash) in 0x10 # hash @ [ucast (drop_bit 8 crc), ucast crc])"

definition strkey_of :: "8 word list \<Rightarrow> string" where
  "strkey_of hash = map (\<lambda>d. BASE32_ALPHABET ! d) (number_digits 32 56 (base_value 256 (map unat (strkey_bytes hash))))"

lemma alphabet_index_nth: "d < 32 \<Longrightarrow> alphabet_index (char_upper (BASE32_ALPHABET ! d)) = Some d"
proof -
  have "\<forall>d\<in>set [0..<32]. alphabet_index (char_upper (BASE32_ALPHABET ! d)) = Some d" by code_simp
  then show "d < 32 \<Longrightarrow> alphabet_index (char_upper (BASE32_ALPHABET ! d)) = Some d" by simp
qed

lemma number_digits_bound: "0 < b \<Longrightarrow> \<forall>d\<in>set (number_digits b n N). d < b"
  by (simp add: number_digits_def)

lemma strkey_digits:
  "digits_of (strkey_of hash) = number_digits 32 56 (base_value 256 (map unat (strkey_bytes hash)))"
  "\<forall>c\<in>set (to_upper (strkey_of hash)). alphabet_index c \<noteq> None"
proof -
  let ?N = "base_value 256 (map unat (strkey_bytes hash))"
  have d: "alphabet_index (char_upper (BASE32_ALPHABET ! d)) = Some d" if "d \<in> set (number_digits 32 56 ?N)" for d
    using number_digits_bound [of 32 56 ?N] that by (intro alphabet_index_nth) simp
  show "digits_of (strkey_of hash) = number_digits 32 56 ?N"
    unfolding digits_of_def to_upper_def strkey_of_def map_map by (rule map_idI) (simp add: d)
  show "\<forall>c\<in>set (to_upper (strkey_of hash)). alphabet_index c \<noteq> None"
    by (auto simp: to_upper_def strkey_of_def d)
qed

lemma checksum_bytes:
  assumes "take_bit 16 crc = (crc :: 32 word)"
  shows "push_bit 8 (ucast (ucast (drop_bit 8 crc) :: 8 word)) OR ucast (ucast crc :: 8 word) = crc"
proof (rule bit_eqI)
  fix n
  assume "possible_bit TYPE(32 word) n"
  have high: "bit crc n \<Longrightarrow> n < 16" using assms by (metis bit_take_bit_iff)
  show "bit (push_bit 8 (ucast (ucast (drop_bit 8 crc) :: 8 word)) OR ucast (ucast crc :: 8 word) :: 32 word) n = bit crc n"
    using high by (auto simp: bit_simps)
qed

lemma decode_strkey:
  assumes "length hash = 32"
  shows "decodeContractStrkey (strkey_of hash) = Inr hash"
proof -
  let ?p = "strkey_bytes hash" and ?s = "strkey_of hash"
  have p: "length ?p = 35" using assms by (simp add: strkey_bytes_def Let_def)
  have "base_value 256 (map unat ?p) < 256 ^ 35" using base_value_bound [OF unat_bytes_bound, of ?p] p by simp
  also have "(256 :: nat) ^ 35 = 32 ^ 56" by simp
  finally have N: "base_value 32 (digits_of ?s) = base_value 256 (map unat ?p)"
    unfolding strkey_digits(1) by (intro base_value_number_digits) simp_all
  have len: "length ?s = 56" by (simp add: strkey_of_def number_digits_def)
  obtain bytes where bytes: "base32Decode ?s = Inr bytes" using base32Decode_cases [of ?s] strkey_digits(2) by auto
  have l: "length bytes = 35" using decoded_length [OF bytes] len by simp
  then have "map unat bytes = map unat ?p"
    using first_bytes(2) [OF bytes] len N p by (intro base_value_inject [OF unat_bytes_bound unat_bytes_bound]) simp_all
  then have b: "bytes = ?p" by (simp add: inj_map_eq_map inj_on_def word_unat_eq_iff)
  let ?crc = "calculateCrc16XModem (0x10 # hash)"
  have "hash \<noteq> []" using assms by auto
  then obtain xs x where "0x10 # hash = xs @ [x]" by (cases "0x10 # hash" rule: rev_cases) auto
  then have "take_bit 16 ?crc = ?crc" by (simp only: calculateCrc16XModem_def foldl_append foldl_Cons foldl_Nil crc_byte_bits)
  then have "foldl crc_byte 0 ?p = (crc_shift ^^ 16) (?crc XOR ?crc)"
    using checksum_bytes [of ?crc]
    by (simp only: strkey_bytes_def Let_def append_Cons [symmetric] foldl_append foldl_Cons [of _ _ _ "[_]"] foldl_Nil crc_two_bytes calculateCrc16XModem_def foldl_Cons)
  then have "foldl crc_byte 0 ?p = 0" using crc_shifts_zero [of 0 16] by simp
  then have "decodeContractStrkey ?s = Inr (take 32 (drop 1 bytes))"
    unfolding decodeContractStrkey_iff using bytes l b by (auto simp: strkey_bytes_def Let_def)
  then show ?thesis using b assms by (simp add: strkey_bytes_def Let_def)
qed

text \<open>The address of every contract hash has 56 characters, is accepted and is decoded to that hash.\<close>

theorem strkey_roundtrip:
  assumes "length hash = 32"
  shows "length (strkey_of hash) = 56 \<and> decodeContractStrkey (strkey_of hash) = Inr hash"
  using decode_strkey [OF assms] by (simp add: strkey_of_def number_digits_def)

definition zero_hash :: "8 word list" where
  "zero_hash = replicate 32 0"

theorem strkey_roundtrip_witness: "length (strkey_of zero_hash) = 56 \<and> decodeContractStrkey (strkey_of zero_hash) = Inr zero_hash"
  by (rule strkey_roundtrip) (simp add: zero_hash_def)

lemma zero_hash_ok: "decodeContractStrkey (strkey_of zero_hash) = Inr zero_hash"
  by (rule decode_strkey) (simp add: zero_hash_def)

theorem mistyped_address_refused_witness: "\<exists>c e. decodeContractStrkey ((strkey_of zero_hash)[3 := c]) = Inl e"
proof -
  obtain c where "char_upper c \<noteq> char_upper (strkey_of zero_hash ! 3)"
  proof (cases "char_upper (strkey_of zero_hash ! 3) = CHR ''A''")
    case True
    then show ?thesis using that [of "CHR ''B''"] by (simp add: char_upper_def)
  next
    case False
    then show ?thesis using that [of "CHR ''A''"] by (simp add: char_upper_def)
  qed
  from mistyped_address_refused [OF zero_hash_ok _ this] show ?thesis by auto
qed

text \<open>Characters behind the 56 of an address are not looked at beyond the alphabet: an address with any text of the alphabet behind it
  is accepted too.\<close>

theorem trailing_characters_accepted:
  assumes "decodeContractStrkey s = Inr h" and "\<forall>c\<in>set tl_text. char_upper c \<in> set BASE32_ALPHABET"
  shows "decodeContractStrkey (s @ tl_text) = Inr h"
proof -
  let ?init = "\<lparr>bsOutput = [], bsBits = 0, bsValue = 0\<rparr>"
  obtain bytes where bytes: "base32Decode s = Inr bytes" "35 \<le> length bytes" "bytes ! 0 = 0x10" "foldl crc_byte 0 (take 35 bytes) = 0"
    "h = take 32 (drop 1 bytes)" using assms(1) unfolding decodeContractStrkey_iff by blast
  have ok: "\<forall>c\<in>set (to_upper s). alphabet_index c \<noteq> None" using base32Decode_cases [of s] bytes(1) by auto
  obtain st where st: "base32_loop (to_upper s) ?init = Inr st" "base32_inv (digits_of s) st" "bytes = bsOutput st"
    using base32_loop_ok [OF ok base32_init] bytes(1) by (auto simp: base32Decode_def digits_of_def)
  have "\<forall>c\<in>set (to_upper tl_text). alphabet_index c \<noteq> None"
    using assms(2) by (auto simp: to_upper_def alphabet_index_def find_index_None simp del: not_None_eq)
  then obtain st2 ys where "base32_loop (to_upper tl_text) st = Inr st2" "bsOutput st2 = bytes @ ys"
    using base32_loop_ok [OF _ st(2)] st(3) by blast
  then have "base32Decode (s @ tl_text) = Inr (bytes @ ys)"
    using base32_loop_append st(1) by (simp add: base32Decode_def to_upper_def)
  then show ?thesis unfolding decodeContractStrkey_iff using bytes by (auto simp: nth_append)
qed

theorem trailing_characters_accepted_witness: "decodeContractStrkey (strkey_of zero_hash @ ''ABC'') = Inr zero_hash"
  by (rule trailing_characters_accepted [OF zero_hash_ok]) (simp add: char_upper_def BASE32_ALPHABET_def)

section \<open>The check ends\<close>

definition has_entries :: "jsval \<Rightarrow> bool" where
  "has_entries body \<longleftrightarrow> (\<exists>e es. js_prop (js_prop body ''result'') ''entries'' = JArr (e # es))"

definition confirmed_from :: "int \<Rightarrow> int \<Rightarrow> (int \<Rightarrow> (jsval, jsval) res) \<Rightarrow> bool" where
  "confirmed_from a m answer \<longleftrightarrow> (\<exists>k body. a \<le> k \<and> k \<le> m \<and> answer k = Inr body \<and> has_entries body \<and>
     (\<forall>j. a \<le> j \<and> j < k \<longrightarrow> (\<exists>err. answer j = Inl err \<and> isRetryableError err = Inr True)))"

lemma confirmed_from_end: "a > m \<Longrightarrow> \<not> confirmed_from a m answer"
  by (auto simp: confirmed_from_def)

lemma confirmed_from_answer: "answer a = Inr body \<Longrightarrow> a \<le> m \<Longrightarrow> confirmed_from a m answer \<longleftrightarrow> has_entries body"
proof
  assume ans: "answer a = Inr body" and "a \<le> m" "has_entries body"
  then show "confirmed_from a m answer" unfolding confirmed_from_def by (intro exI [of _ a]) auto
next
  assume ans: "answer a = Inr body" and "confirmed_from a m answer"
  then obtain k b where k: "a \<le> k" "answer k = Inr b" "has_entries b" "\<forall>j. a \<le> j \<and> j < k \<longrightarrow> (\<exists>err. answer j = Inl err)"
    unfolding confirmed_from_def by blast
  have "k = a" using k(1,4) ans by (cases "k = a") auto
  then show "has_entries body" using k ans by simp
qed

lemma confirmed_from_error:
  assumes "answer a = Inl err"
  shows "confirmed_from a m answer \<longleftrightarrow> isRetryableError err = Inr True \<and> confirmed_from (a + 1) m answer"
proof
  assume "confirmed_from a m answer"
  then obtain k b where k: "a \<le> k" "k \<le> m" "answer k = Inr b" "has_entries b"
    "\<forall>j. a \<le> j \<and> j < k \<longrightarrow> (\<exists>err. answer j = Inl err \<and> isRetryableError err = Inr True)"
    unfolding confirmed_from_def by blast
  have "a < k" using k(1,3) assms by (cases "a = k") auto
  then show "isRetryableError err = Inr True \<and> confirmed_from (a + 1) m answer"
    using k assms unfolding confirmed_from_def by (auto intro!: exI [of _ k])
next
  assume r: "isRetryableError err = Inr True \<and> confirmed_from (a + 1) m answer"
  then obtain k b where k: "a + 1 \<le> k" "k \<le> m" "answer k = Inr b" "has_entries b"
    "\<forall>j. a + 1 \<le> j \<and> j < k \<longrightarrow> (\<exists>err. answer j = Inl err \<and> isRetryableError err = Inr True)"
    unfolding confirmed_from_def by blast
  have "\<exists>e. answer j = Inl e \<and> isRetryableError e = Inr True" if "a \<le> j" "j < k" for j
    using that k(5) r assms by (cases "j = a") auto
  then show "confirmed_from a m answer" using k unfolding confirmed_from_def by (intro exI [of _ k]) auto
qed

lemma validate_attempts_iff:
  "attempt + int n = rcMaxAttempts config + 1 \<Longrightarrow>
    (fst (validate_attempts config rnd answer attempt n lastError) = Inr () \<longleftrightarrow> confirmed_from attempt (rcMaxAttempts config) answer) \<and>
    length (snd (validate_attempts config rnd answer attempt n lastError)) \<le> n - 1"
proof (induction n arbitrary: attempt lastError)
  case 0
  then show ?case using confirmed_from_end [of "rcMaxAttempts config" attempt] by simp
next
  case (Suc n)
  have le: "attempt \<le> rcMaxAttempts config" using Suc.prems by simp
  show ?case
  proof (cases "answer attempt")
    case (Inr body)
    then show ?thesis unfolding confirmed_from_answer [of answer attempt, OF Inr le] by (auto simp: has_entries_def split: jsval.splits list.splits)
  next
    case (Inl err)
    show ?thesis
    proof (cases "isRetryableError err = Inr True \<and> attempt \<noteq> rcMaxAttempts config")
      case True
      then have "n \<noteq> 0" using Suc.prems by auto
      then show ?thesis
        using Suc.IH [of "attempt + 1" err] Suc.prems Inl True unfolding confirmed_from_error [of answer attempt, OF Inl]
        by (cases "validate_attempts config rnd answer (attempt + 1) n err") auto
    next
      case False
      then have "\<not> confirmed_from attempt (rcMaxAttempts config) answer"
        unfolding confirmed_from_error [of answer attempt, OF Inl] using confirmed_from_end [of "rcMaxAttempts config" "attempt + 1"] by auto
      moreover have "fst (validate_attempts config rnd answer attempt (Suc n) lastError) \<noteq> Inr ()"
        "snd (validate_attempts config rnd answer attempt (Suc n) lastError) = []"
        using Inl False by (auto split: sum.split bool.split)
      ultimately show ?thesis by simp
    qed
  qed
qed

text \<open>The check confirms a contract exactly when its address decodes and one of the allowed attempts is answered with an entry for
  the key of its hash, all attempts before it having failed with errors that can be retried; it sleeps once between two attempts.\<close>

theorem contract_confirmed_iff:
  "(fst (validateContractOnNetwork config rnd rpc contractId) = Inr () \<longleftrightarrow>
     (\<exists>hash. decodeContractStrkey contractId = Inr hash \<and>
        confirmed_from 1 (rcMaxAttempts config) (rpc (buildContractDataLedgerKey hash)))) \<and>
   length (snd (validateContractOnNetwork config rnd rpc contractId)) \<le> nat (rcMaxAttempts config) - 1"
proof (cases "decodeContractStrkey contractId")
  case (Inr hash)
  have "1 + int (nat (rcMaxAttempts config)) = rcMaxAttempts config + 1" if "0 \<le> rcMaxAttempts config" using that by simp
  moreover have "nat (rcMaxAttempts config) = 0" if "\<not> 0 \<le> rcMaxAttempts config" using that by simp
  ultimately show ?thesis
    using validate_attempts_iff [of 1 "nat (rcMaxAttempts config)" config rnd "rpc (buildContractDataLedgerKey hash)" JUndef]
      confirmed_from_end [of "rcMaxAttempts config" 1] Inr
    by (cases "0 \<le> rcMaxAttempts config") (simp_all add: validateContractOnNetwork_def)
qed (simp add: validateContractOnNetwork_def)

end
