(* ===== verification/Job_Queue.thy ===== *)
theory Job_Queue
  imports JS_Value "HOL-Library.Multiset"
begin

text \<open>
  \<open>backend/src/services/jobQueue.ts\<close>: the in-process background job queue with priorities, a
  fairness streak, retries with exponential back-off and a dead-letter list.

  The asynchronous part of \<open>runJob\<close> is split at its \<open>await\<close>: \<open>jq_runJob\<close> is what happens up to
  the handler call, \<open>jq_finish\<close> what happens once the handler has settled (\<open>None\<close> success,
  \<open>Some msg\<close> an exception). The generated job id is an argument, Prometheus metrics and log
  lines are left out, and handlers are names: what a handler does is the outcome given to
  \<open>jq_finish\<close>. Every operation reads the clock once.
\<close>

section \<open>State\<close>

datatype job_status = Jpending | Jrunning | Jcompleted | Jfailed | Jdead

record job =
  jId :: string
  jType :: string
  jPayload :: jsval
  jPriority :: int
  jAttempts :: nat
  jMaxRetries :: int
  jStatus :: job_status
  jCreatedAt :: int
  jRunAt :: int
  jStartedAt :: "int option"
  jLastAttemptAt :: "int option"
  jStuck :: bool
  jError :: "string option"
  jCorrelationId :: "string option"

record enqueue_options =
  eoPriority :: "int option"
  eoMaxRetries :: "int option"
  eoDelayMs :: "int option"

definition no_options :: enqueue_options where
  "no_options = \<lparr>eoPriority = None, eoMaxRetries = None, eoDelayMs = None\<rparr>"

record job_queue =
  jqHandlers :: "string list"
  jqPending :: "job list"
  jqRunning :: "(string, job) jsmap"
  jqDead :: "job list"
  jqConcurrency :: int
  jqActiveWorkers :: int
  jqTickTimer :: "int option"
  jqStopped :: bool
  jqRecurring :: "(string, jsval \<times> int \<times> enqueue_options) jsmap"
  jqStreak :: nat
  jqCompletedCount :: nat
  jqFailedCount :: nat

datatype job_error = HandlerAlreadyRegistered string | NoHandler string | PayloadTooLarge nat
  | PayloadNotSerializable

definition MAX_PAYLOAD_BYTES :: nat where
  "MAX_PAYLOAD_BYTES = 64 * 1024"

definition DEFAULT_MAX_RETRIES :: int where
  "DEFAULT_MAX_RETRIES = 3"

definition BASE_BACKOFF_MS :: int where
  "BASE_BACKOFF_MS = 500"

text \<open>The two tunables, with their default settings.\<close>

definition FAIRNESS_HIGH_PRIORITY_STREAK :: nat where
  "FAIRNESS_HIGH_PRIORITY_STREAK = max 1 5"

definition STUCK_THRESHOLD_MS :: int where
  "STUCK_THRESHOLD_MS = max 1000 (15 * 60 * 1000)"

definition new_job_queue :: "int \<Rightarrow> job_queue" where
  "new_job_queue concurrency =
     \<lparr>jqHandlers = [], jqPending = [], jqRunning = [], jqDead = [], jqConcurrency = max 1 concurrency,
      jqActiveWorkers = 0, jqTickTimer = None, jqStopped = False, jqRecurring = [], jqStreak = 0,
      jqCompletedCount = 0, jqFailedCount = 0\<rparr>"

section \<open>Operations\<close>

text \<open>\<open>pending.sort((a, b) => b.priority - a.priority)\<close>, a stable sort.\<close>

definition sort_pending :: "job list \<Rightarrow> job list" where
  "sort_pending js = sort_key (\<lambda>j. - jPriority j) js"

definition jq_register :: "string \<Rightarrow> job_queue \<Rightarrow> (job_error, job_queue) res" where
  "jq_register t q =
     (if t \<in> set (jqHandlers q) then Inl (HandlerAlreadyRegistered t)
      else Inr (q\<lparr>jqHandlers := jqHandlers q @ [t]\<rparr>))"

definition flag_stuck :: "int \<Rightarrow> job \<Rightarrow> job" where
  "flag_stuck now j = (if max 0 (now - jCreatedAt j) \<ge> STUCK_THRESHOLD_MS then j\<lparr>jStuck := True\<rparr> else j)"

definition jq_refreshStuckJobs :: "int \<Rightarrow> job_queue \<Rightarrow> job_queue" where
  "jq_refreshStuckJobs now q =
     q\<lparr>jqPending := map (flag_stuck now) (jqPending q),
       jqRunning := map (\<lambda>(i, j). (i, flag_stuck now j)) (jqRunning q)\<rparr>"

definition jq_scheduleTick :: "int \<Rightarrow> job_queue \<Rightarrow> job_queue" where
  "jq_scheduleTick now q =
     (if jqTickTimer q \<noteq> None \<or> jqStopped q then q else q\<lparr>jqTickTimer := Some now\<rparr>)"

definition jq_enqueue ::
  "int \<Rightarrow> string \<Rightarrow> string option \<Rightarrow> string \<Rightarrow> jsval \<Rightarrow> enqueue_options \<Rightarrow> job_queue \<Rightarrow> (job_error, job_queue) res" where
  "jq_enqueue now i corr t payload opts q =
     (if t \<notin> set (jqHandlers q) then Inl (NoHandler t)
      else case js_stringify payload of
        None \<Rightarrow> Inl PayloadNotSerializable
      | Some text \<Rightarrow>
          if length text > MAX_PAYLOAD_BYTES then Inl (PayloadTooLarge (length text))
          else
            let j = \<lparr>jId = i, jType = t, jPayload = payload,
                     jPriority = (case eoPriority opts of Some p \<Rightarrow> p | None \<Rightarrow> 0),
                     jAttempts = 0,
                     jMaxRetries = (case eoMaxRetries opts of Some m \<Rightarrow> m | None \<Rightarrow> DEFAULT_MAX_RETRIES),
                     jStatus = Jpending, jCreatedAt = now,
                     jRunAt = now + (case eoDelayMs opts of Some d \<Rightarrow> d | None \<Rightarrow> 0),
                     jStartedAt = None, jLastAttemptAt = None, jStuck = False, jError = None,
                     jCorrelationId = corr\<rparr>;
                q1 = q\<lparr>jqPending := sort_pending (jqPending q @ [j])\<rparr>
            in Inr (jq_scheduleTick now (jq_refreshStuckJobs now q1)))"

definition jq_start :: "int \<Rightarrow> job_queue \<Rightarrow> job_queue" where
  "jq_start now q = jq_scheduleTick now (q\<lparr>jqStopped := False\<rparr>)"

definition jq_stop :: "job_queue \<Rightarrow> job_queue" where
  "jq_stop q = q\<lparr>jqStopped := True, jqTickTimer := None\<rparr>"

definition jq_stopRecurring :: "string \<Rightarrow> job_queue \<Rightarrow> job_queue" where
  "jq_stopRecurring t q = (if jm_has (jqRecurring q) t then q\<lparr>jqRecurring := jm_delete (jqRecurring q) t\<rparr> else q)"

definition jq_scheduleRecurring :: "string \<Rightarrow> jsval \<Rightarrow> int \<Rightarrow> enqueue_options \<Rightarrow> job_queue \<Rightarrow> job_queue" where
  "jq_scheduleRecurring t payload interval opts q =
     (if jm_has (jqRecurring q) t then q
      else q\<lparr>jqRecurring := jm_set (jqRecurring q) t (payload, interval, opts)\<rparr>)"

text \<open>The interval callback; an exception of \<open>enqueue\<close> leaves the queue as it is.\<close>

definition jq_recurring_fires :: "int \<Rightarrow> string \<Rightarrow> string \<Rightarrow> job_queue \<Rightarrow> job_queue" where
  "jq_recurring_fires now i t q =
     (case jm_get (jqRecurring q) t of
        None \<Rightarrow> q
      | Some (payload, interval, opts) \<Rightarrow>
          (case jq_enqueue now i None t payload opts q of Inl e \<Rightarrow> q | Inr q1 \<Rightarrow> q1))"

definition jq_drain_begin :: "job_queue \<Rightarrow> job_queue" where
  "jq_drain_begin q = foldl (\<lambda>q t. jq_stopRecurring t q) (jq_stop q) (map fst (jqRecurring q))"

definition jq_drain_result :: "job_queue \<Rightarrow> bool \<times> int" where
  "jq_drain_result q = (jqActiveWorkers q = 0, jqActiveWorkers q)"

definition jq_nextEligibleJobIndex :: "int \<Rightarrow> job_queue \<Rightarrow> nat option" where
  "jq_nextEligibleJobIndex now q =
     (let eligible = filter (\<lambda>j. jRunAt j \<le> now) (jqPending q)
      in if eligible = [] then None
         else let highestPriority = Max (jPriority ` set eligible);
                  lowerPriorityReady = (\<exists>j\<in>set eligible. jPriority j < highestPriority)
              in if lowerPriorityReady \<and> jqStreak q \<ge> FAIRNESS_HIGH_PRIORITY_STREAK
                 then find_index (\<lambda>j. jRunAt j \<le> now \<and> jPriority j < highestPriority) (jqPending q)
                 else find_index (\<lambda>j. jRunAt j \<le> now) (jqPending q))"

definition jq_updateFairnessState :: "job \<Rightarrow> int \<Rightarrow> job_queue \<Rightarrow> job_queue" where
  "jq_updateFairnessState j now q =
     (let lowerPriorityReady = (\<exists>c\<in>set (jqPending q). jRunAt c \<le> now \<and> jPriority c < jPriority j);
          streak = (if lowerPriorityReady then jqStreak q + 1 else 0)
      in q\<lparr>jqStreak := (if jPriority j \<le> Min (insert (jPriority j) (jPriority ` set (jqPending q))) then 0 else streak)\<rparr>)"

definition jq_runJob :: "int \<Rightarrow> job \<Rightarrow> job_queue \<Rightarrow> job_queue" where
  "jq_runJob now j q =
     (let j1 = j\<lparr>jStatus := Jrunning, jAttempts := jAttempts j + 1, jStartedAt := Some now, jLastAttemptAt := Some now\<rparr>
      in jq_refreshStuckJobs now
           (q\<lparr>jqRunning := jm_set (jqRunning q) (jId j) j1, jqActiveWorkers := jqActiveWorkers q + 1\<rparr>))"

definition jq_take :: "int \<Rightarrow> nat \<Rightarrow> job_queue \<Rightarrow> job_queue" where
  "jq_take now idx q =
     (let j = jqPending q ! idx;
          q1 = q\<lparr>jqPending := remove_nth idx (jqPending q)\<rparr>
      in jq_runJob now j (jq_refreshStuckJobs now (jq_updateFairnessState j now q1)))"

lemma jq_refresh_fields [simp]:
  "jqPending (jq_refreshStuckJobs now q) = map (flag_stuck now) (jqPending q)"
  "jqRunning (jq_refreshStuckJobs now q) = map (\<lambda>(i, j). (i, flag_stuck now j)) (jqRunning q)"
  "jqDead (jq_refreshStuckJobs now q) = jqDead q" "jqHandlers (jq_refreshStuckJobs now q) = jqHandlers q"
  "jqConcurrency (jq_refreshStuckJobs now q) = jqConcurrency q"
  "jqActiveWorkers (jq_refreshStuckJobs now q) = jqActiveWorkers q"
  "jqStreak (jq_refreshStuckJobs now q) = jqStreak q" "jqStopped (jq_refreshStuckJobs now q) = jqStopped q"
  "jqCompletedCount (jq_refreshStuckJobs now q) = jqCompletedCount q"
  "jqFailedCount (jq_refreshStuckJobs now q) = jqFailedCount q"
  by (simp_all add: jq_refreshStuckJobs_def)

lemma jq_fairness_fields [simp]:
  "jqPending (jq_updateFairnessState j now q) = jqPending q"
  "jqRunning (jq_updateFairnessState j now q) = jqRunning q"
  "jqDead (jq_updateFairnessState j now q) = jqDead q"
  "jqConcurrency (jq_updateFairnessState j now q) = jqConcurrency q"
  "jqActiveWorkers (jq_updateFairnessState j now q) = jqActiveWorkers q"
  "jqStopped (jq_updateFairnessState j now q) = jqStopped q"
  "jqCompletedCount (jq_updateFairnessState j now q) = jqCompletedCount q"
  by (simp_all add: jq_updateFairnessState_def Let_def)

lemma nextEligible_bound:
  "jq_nextEligibleJobIndex now q = Some i \<Longrightarrow> i < length (jqPending q) \<and> jRunAt (jqPending q ! i) \<le> now"
  by (auto simp: jq_nextEligibleJobIndex_def Let_def split: if_splits dest: find_index_Some)

lemma jq_take_pending_length:
  "i < length (jqPending q) \<Longrightarrow> length (jqPending (jq_take now i q)) < length (jqPending q)"
  by (simp add: jq_take_def jq_runJob_def Let_def)

function jq_tick_loop :: "int \<Rightarrow> job_queue \<Rightarrow> job_queue" where
  "jq_tick_loop now q =
     (if jqActiveWorkers q < jqConcurrency q \<and> jqPending q \<noteq> []
      then (case jq_nextEligibleJobIndex now q of
              None \<Rightarrow> q
            | Some idx \<Rightarrow> jq_tick_loop now (jq_take now idx q))
      else q)"
  by pat_completeness auto
termination
  by (relation "measure (\<lambda>(now, q). length (jqPending q))")
    (auto dest: nextEligible_bound intro: jq_take_pending_length)

declare jq_tick_loop.simps [simp del]

definition jq_tick :: "int \<Rightarrow> job_queue \<Rightarrow> job_queue" where
  "jq_tick now q =
     (if jqStopped q then q
      else let q1 = jq_tick_loop now q
           in if jqPending q1 = [] then q1
              else let nextRunAt = Min (jRunAt ` set (jqPending q1));
                       delay = max 0 (nextRunAt - now)
                   in q1\<lparr>jqTickTimer := Some (now + delay)\<rparr>)"

text \<open>The timer callback.\<close>

definition jq_timer_fires :: "int \<Rightarrow> job_queue \<Rightarrow> job_queue" where
  "jq_timer_fires now q = (if jqTickTimer q = None then q else jq_tick now (q\<lparr>jqTickTimer := None\<rparr>))"

definition jq_finish :: "int \<Rightarrow> string \<Rightarrow> string option \<Rightarrow> job_queue \<Rightarrow> job_queue" where
  "jq_finish now i outcome q =
     (case jm_get (jqRunning q) i of
        None \<Rightarrow> q
      | Some j \<Rightarrow>
          let q1 =
            (case outcome of
               None \<Rightarrow> q\<lparr>jqCompletedCount := jqCompletedCount q + 1\<rparr>
             | Some message \<Rightarrow>
                 if int (jAttempts j) < jMaxRetries j
                 then let backoff = BASE_BACKOFF_MS * 2 ^ (jAttempts j - 1)
                      in q\<lparr>jqPending := sort_pending (jqPending q @
                            [j\<lparr>jError := Some message, jStatus := Jpending, jRunAt := now + backoff\<rparr>])\<rparr>
                 else q\<lparr>jqDead := jqDead q @ [j\<lparr>jError := Some message, jStatus := Jdead\<rparr>],
                        jqFailedCount := jqFailedCount q + 1\<rparr>);
            q2 = q1\<lparr>jqRunning := jm_delete (jqRunning q1) i, jqActiveWorkers := jqActiveWorkers q1 - 1\<rparr>
          in jq_scheduleTick now (jq_refreshStuckJobs now q2))"

definition jq_retryJob :: "int \<Rightarrow> string \<Rightarrow> job_queue \<Rightarrow> job_queue \<times> job option" where
  "jq_retryJob now i q =
     (case find_index (\<lambda>j. jId j = i) (jqDead q) of
        None \<Rightarrow> (q, None)
      | Some idx \<Rightarrow>
          let j = (jqDead q ! idx)\<lparr>jAttempts := 0, jStatus := Jpending, jRunAt := now, jError := None,
                    jPriority := max (jPriority (jqDead q ! idx)) 10\<rparr>;
              q1 = q\<lparr>jqDead := remove_nth idx (jqDead q), jqPending := sort_pending (jqPending q @ [j])\<rparr>
          in (jq_scheduleTick now (jq_refreshStuckJobs now q1), Some j))"

definition jq_discardJob :: "string \<Rightarrow> job_queue \<Rightarrow> job_queue \<times> bool" where
  "jq_discardJob i q =
     (case find_index (\<lambda>j. jId j = i) (jqDead q) of
        None \<Rightarrow> (q, False)
      | Some idx \<Rightarrow> (q\<lparr>jqDead := remove_nth idx (jqDead q)\<rparr>, True))"

section \<open>Inspection\<close>

record queue_stats =
  qsPending :: nat
  qsRunning :: nat
  qsCompleted :: nat
  qsFailed :: nat
  qsDead :: nat

definition jq_stats :: "job_queue \<Rightarrow> queue_stats" where
  "jq_stats q = \<lparr>qsPending = length (jqPending q), qsRunning = length (jqRunning q),
     qsCompleted = jqCompletedCount q, qsFailed = jqFailedCount q, qsDead = length (jqDead q)\<rparr>"

record job_view =
  jvId :: string
  jvType :: string
  jvPriority :: int
  jvAttempts :: nat
  jvStatus :: job_status
  jvAgeMs :: int
  jvLastAttemptAt :: "int option"

record queue_metrics =
  qmPendingByPriority :: "(int, nat) jsmap"
  qmOldestPendingAgeMs :: int
  qmPendingJobs :: "job_view list"
  qmStuckJobs :: "job_view list"

definition job_view_of :: "int \<Rightarrow> job \<Rightarrow> job_view" where
  "job_view_of now j = \<lparr>jvId = jId j, jvType = jType j, jvPriority = jPriority j, jvAttempts = jAttempts j,
     jvStatus = jStatus j, jvAgeMs = max 0 (now - jCreatedAt j), jvLastAttemptAt = jLastAttemptAt j\<rparr>"

definition jq_metrics :: "int \<Rightarrow> job_queue \<Rightarrow> job_queue \<times> queue_metrics" where
  "jq_metrics now q =
     (let q1 = jq_refreshStuckJobs now q;
          jobs = jqPending q1 @ map snd (jqRunning q1);
          stuckIds = map jId (filter jStuck jobs);
          views = map (job_view_of now) jobs
      in (q1, \<lparr>qmPendingByPriority = foldl (\<lambda>m j. jm_set m (jPriority j)
                 ((case jm_get m (jPriority j) of Some n \<Rightarrow> n | None \<Rightarrow> 0) + 1)) [] (jqPending q1),
               qmOldestPendingAgeMs = (if jqPending q1 = [] then 0
                 else max 0 (now - Min (jCreatedAt ` set (jqPending q1)))),
               qmPendingJobs = views,
               qmStuckJobs = filter (\<lambda>v. jvId v \<in> set stuckIds) views\<rparr>))"

record job_filters =
  jfType :: "string option"
  jfErrorCode :: "string option"
  jfStartDate :: "int option"
  jfEndDate :: "int option"

definition jq_failedJobs :: "job_filters \<Rightarrow> job_queue \<Rightarrow> job list" where
  "jq_failedJobs f q =
     (let jobs0 = jqDead q;
          jobs1 = (case jfType f of Some t \<Rightarrow> if t \<noteq> [] then filter (\<lambda>j. jType j = t) jobs0 else jobs0 | None \<Rightarrow> jobs0);
          jobs2 = (case jfErrorCode f of
                     Some c \<Rightarrow> if c \<noteq> [] then filter (\<lambda>j. case jError j of Some e \<Rightarrow> str_includes (to_lower e) (to_lower c)
                                 | None \<Rightarrow> False) jobs1 else jobs1
                   | None \<Rightarrow> jobs1);
          jobs3 = (case jfStartDate f of Some d \<Rightarrow> filter (\<lambda>j. d \<le> jCreatedAt j) jobs2 | None \<Rightarrow> jobs2)
      in (case jfEndDate f of Some d \<Rightarrow> filter (\<lambda>j. jCreatedAt j \<le> d) jobs3 | None \<Rightarrow> jobs3))"

section \<open>The invariant and the conservation of jobs\<close>

definition pending_ok :: "job \<Rightarrow> bool" where
  "pending_ok j \<longleftrightarrow> jStatus j = Jpending \<and> (jAttempts j = 0 \<or> int (jAttempts j) < jMaxRetries j)"

definition running_ok :: "string \<times> job \<Rightarrow> bool" where
  "running_ok p \<longleftrightarrow> jId (snd p) = fst p \<and> jStatus (snd p) = Jrunning
     \<and> 1 \<le> jAttempts (snd p) \<and> int (jAttempts (snd p)) \<le> max 1 (jMaxRetries (snd p))"

definition dead_ok :: "job \<Rightarrow> bool" where
  "dead_ok j \<longleftrightarrow> jStatus j = Jdead \<and> jMaxRetries j \<le> int (jAttempts j)
     \<and> int (jAttempts j) \<le> max 1 (jMaxRetries j) \<and> jError j \<noteq> None"

definition jq_ids :: "job_queue \<Rightarrow> string list" where
  "jq_ids q = map jId (jqPending q) @ map fst (jqRunning q) @ map jId (jqDead q)"

definition jq_inv :: "job_queue \<Rightarrow> bool" where
  "jq_inv q \<longleftrightarrow> distinct (jq_ids q)
     \<and> (\<forall>j\<in>set (jqPending q). pending_ok j) \<and> (\<forall>p\<in>set (jqRunning q). running_ok p)
     \<and> (\<forall>j\<in>set (jqDead q). dead_ok j)
     \<and> sorted (map (\<lambda>j. - jPriority j) (jqPending q))
     \<and> jqActiveWorkers q = int (length (jqRunning q)) \<and> jqActiveWorkers q \<le> jqConcurrency q"

lemma flag_stuck_fields [simp]:
  "jStatus (flag_stuck now j) = jStatus j" "jError (flag_stuck now j) = jError j"
  "jAttempts (flag_stuck now j) = jAttempts j" "jRunAt (flag_stuck now j) = jRunAt j"
  "jId (flag_stuck now j) = jId j" "jPriority (flag_stuck now j) = jPriority j"
  "pending_ok (flag_stuck now j) = pending_ok j" "running_ok (i, flag_stuck now j) = running_ok (i, j)"
  by (auto simp: flag_stuck_def pending_ok_def running_ok_def)

lemma jq_ids_refresh [simp]: "jq_ids (jq_refreshStuckJobs now q) = jq_ids q"
  by (simp add: jq_ids_def comp_def split_def)

lemma jq_inv_refresh [simp]: "jq_inv (jq_refreshStuckJobs now q) = jq_inv q"
  by (auto simp: jq_inv_def comp_def)

lemma jq_schedule_fields [simp]:
  "jq_ids (jq_scheduleTick now q) = jq_ids q" "jq_inv (jq_scheduleTick now q) = jq_inv q"
  by (simp_all add: jq_scheduleTick_def jq_ids_def jq_inv_def)

lemma jq_inv_fairness [simp]: "jq_inv (jq_updateFairnessState j now q) = jq_inv q"
  "jq_ids (jq_updateFairnessState j now q) = jq_ids q"
  by (simp_all add: jq_inv_def jq_ids_def)

lemma jq_irrelevant_fields [simp]:
  "jq_inv (q\<lparr>jqTickTimer := x\<rparr>) = jq_inv q" "jq_ids (q\<lparr>jqTickTimer := x\<rparr>) = jq_ids q"
  "jq_inv (q\<lparr>jqStopped := b\<rparr>) = jq_inv q" "jq_ids (q\<lparr>jqStopped := b\<rparr>) = jq_ids q"
  "jq_inv (q\<lparr>jqRecurring := r\<rparr>) = jq_inv q" "jq_ids (q\<lparr>jqRecurring := r\<rparr>) = jq_ids q"
  "jq_inv (q\<lparr>jqHandlers := h\<rparr>) = jq_inv q" "jq_ids (q\<lparr>jqHandlers := h\<rparr>) = jq_ids q"
  by (simp_all add: jq_inv_def jq_ids_def)

lemma sort_pending_simps [simp]:
  "set (sort_pending js) = set js" "mset (sort_pending js) = mset js"
  "sorted (map (\<lambda>j. - jPriority j) (sort_pending js))"
  by (simp_all add: sort_pending_def)

lemma distinct_ids_mset: "mset (jq_ids q) = mset (jq_ids q') \<Longrightarrow> distinct (jq_ids q) = distinct (jq_ids q')"
  by (rule mset_eq_imp_distinct_iff)

subsection \<open>Starting jobs\<close>

lemma jq_take_fields:
  "jqActiveWorkers (jq_take now i q) = jqActiveWorkers q + 1" "jqConcurrency (jq_take now i q) = jqConcurrency q"
  "jqCompletedCount (jq_take now i q) = jqCompletedCount q"
  by (simp_all add: jq_take_def jq_runJob_def Let_def)

lemma sorted_remove_nth: "sorted (map f xs) \<Longrightarrow> sorted (map f (remove_nth i xs))"
  by (auto simp: remove_nth_def take_map [symmetric] drop_map [symmetric] sorted_append sorted_wrt_take sorted_wrt_drop
      dest: in_set_takeD in_set_dropD)
    (metis (no_types, lifting) append_take_drop_id drop_Suc sorted_append set_drop_subset_set_drop
      in_set_dropD Suc_n_not_le_n nat_le_linear subsetD)

lemma take_not_running:
  assumes "jq_inv q" and "i < length (jqPending q)"
  shows "jId (jqPending q ! i) \<notin> fst ` set (jqRunning q)"
proof -
  have "jId (jqPending q ! i) \<in> jId ` set (jqPending q)" using assms(2) by simp
  then show ?thesis
    using assms(1) unfolding jq_inv_def jq_ids_def distinct_append set_map set_append by blast
qed

lemma jq_take_shape:
  fixes q :: job_queue and now :: int
  assumes "jq_inv q" and "i < length (jqPending q)"
  defines "flag \<equiv> \<lambda>p. (fst p, flag_stuck now (flag_stuck now (snd p)))"
    and "j \<equiv> jqPending q ! i"
  shows "jqPending (jq_take now i q) = map (flag_stuck now \<circ> flag_stuck now) (remove_nth i (jqPending q))"
    and "jqDead (jq_take now i q) = jqDead q"
    and "jqRunning (jq_take now i q) = map flag (jqRunning q)
       @ [(jId j, flag_stuck now (j\<lparr>jStatus := Jrunning, jAttempts := jAttempts j + 1,
             jStartedAt := Some now, jLastAttemptAt := Some now\<rparr>))]"
proof -
  have "\<not> jm_has (map (\<lambda>(i, j). (i, flag_stuck now j)) (jqRunning q)) (jId j)"
    using take_not_running [OF assms(1,2)] by (auto simp: jm_has_iff j_def image_image split_def)
  from jm_set_absent [OF this]
  show "jqPending (jq_take now i q) = map (flag_stuck now \<circ> flag_stuck now) (remove_nth i (jqPending q))"
    and "jqDead (jq_take now i q) = jqDead q"
    and "jqRunning (jq_take now i q) = map flag (jqRunning q)
       @ [(jId j, flag_stuck now (j\<lparr>jStatus := Jrunning, jAttempts := jAttempts j + 1,
             jStartedAt := Some now, jLastAttemptAt := Some now\<rparr>))]"
    by (simp_all add: jq_take_def Let_def jq_runJob_def j_def flag_def split_def comp_def)
qed

lemma jq_take_ids:
  assumes "jq_inv q" and "i < length (jqPending q)"
  shows "mset (jq_ids (jq_take now i q)) = mset (jq_ids q)"
proof -
  obtain ys zs where s: "jqPending q = ys @ jqPending q ! i # zs" "remove_nth i (jqPending q) = ys @ zs"
    using remove_nth_split [OF assms(2)] by blast
  have "mset (map jId (jqPending q)) = add_mset (jId (jqPending q ! i)) (mset (map jId (ys @ zs)))"
    by (subst s(1)) simp
  then show ?thesis by (simp add: jq_ids_def jq_take_shape [OF assms] s(2) comp_def)
qed

lemma jq_take_inv:
  assumes "jq_inv q" and "i < length (jqPending q)" and "jqActiveWorkers q < jqConcurrency q"
  shows "jq_inv (jq_take now i q)"
  unfolding jq_inv_def
proof (intro conjI)
  note sh = jq_take_shape [OF assms(1,2), of now]
  show "distinct (jq_ids (jq_take now i q))"
    using distinct_ids_mset [OF jq_take_ids [OF assms(1,2)]] assms(1) by (simp add: jq_inv_def)
  show "\<forall>j\<in>set (jqPending (jq_take now i q)). pending_ok j"
    using assms(1) set_remove_nth [of i "jqPending q"] by (auto simp: sh jq_inv_def)
  have "pending_ok (jqPending q ! i)" using assms(1,2) by (simp add: jq_inv_def)
  then show "\<forall>p\<in>set (jqRunning (jq_take now i q)). running_ok p"
    using assms(1) unfolding sh by (auto simp: jq_inv_def) (auto simp: running_ok_def pending_ok_def)
  show "\<forall>j\<in>set (jqDead (jq_take now i q)). dead_ok j" using assms(1) by (simp add: sh jq_inv_def)
  have "sorted (map (\<lambda>j. - jPriority j) (remove_nth i (jqPending q)))"
    using assms(1) by (intro sorted_remove_nth) (simp add: jq_inv_def)
  then show "sorted (map (\<lambda>j. - jPriority j) (jqPending (jq_take now i q)))" by (simp add: sh comp_def)
  show "jqActiveWorkers (jq_take now i q) = int (length (jqRunning (jq_take now i q)))"
    using assms(1) by (simp add: jq_take_fields sh jq_inv_def)
  show "jqActiveWorkers (jq_take now i q) \<le> jqConcurrency (jq_take now i q)"
    using assms(3) by (simp add: jq_take_fields)
qed

lemma jq_tick_loop_inv:
  "jq_inv q \<Longrightarrow> jq_inv (jq_tick_loop now q) \<and> mset (jq_ids (jq_tick_loop now q)) = mset (jq_ids q)
     \<and> jqConcurrency (jq_tick_loop now q) = jqConcurrency q"
proof (induction now q rule: jq_tick_loop.induct)
  case (1 now q)
  show ?case
  proof (cases "jqActiveWorkers q < jqConcurrency q \<and> jqPending q \<noteq> [] \<and> jq_nextEligibleJobIndex now q \<noteq> None")
    case True
    then obtain i where i: "jq_nextEligibleJobIndex now q = Some i" by auto
    then have "i < length (jqPending q)" using nextEligible_bound by blast
    with 1 True i jq_take_ids [of q i now] jq_take_inv [of q i now] show ?thesis
      by (simp add: jq_tick_loop.simps [of now q] jq_take_fields)
  next
    case False
    with 1(2) have "jq_tick_loop now q = q" by (auto simp: jq_tick_loop.simps [of now q])
    with 1(2) show ?thesis by simp
  qed
qed

lemma jq_tick_inv: "jq_inv q \<Longrightarrow> jq_inv (jq_tick now q) \<and> mset (jq_ids (jq_tick now q)) = mset (jq_ids q)"
  using jq_tick_loop_inv [of q now] by (simp add: jq_tick_def Let_def)

subsection \<open>Settling, retrying and discarding jobs\<close>

lemma jq_finish_unknown: "\<not> jm_has (jqRunning q) i \<Longrightarrow> jq_finish now i r q = q"
  by (simp add: jq_finish_def jm_has_def)

lemma delete_key_mset:
  "distinct (map fst m) \<Longrightarrow> jm_get m i = Some j \<Longrightarrow>
     mset (map fst m) = add_mset i (mset (map fst (jm_delete m i)))"
proof (induction m)
  case Nil
  then show ?case by simp
next
  case (Cons p m)
  show ?case
  proof (cases "fst p = i")
    case True
    then have "\<forall>p\<in>set m. fst p \<noteq> i" using Cons.prems(1) by (auto simp: image_iff)
    then have "filter (\<lambda>p. fst p \<noteq> i) m = m" by (simp add: filter_id_conv)
    with True show ?thesis by (simp add: jm_delete_filter del: mset_filter)
  next
    case False
    with Cons show ?thesis by (simp add: jm_delete_filter)
  qed
qed

lemma distinct_submset: "mset xs \<subseteq># mset ys \<Longrightarrow> distinct ys \<Longrightarrow> distinct xs"
proof -
  assume sub: "mset xs \<subseteq># mset ys" and "distinct ys"
  have "count (mset xs) a = (if a \<in> set xs then 1 else 0)" for a
  proof -
    have "count (mset ys) a \<le> 1" using \<open>distinct ys\<close> by (simp add: distinct_count_atmost_1)
    then have "count (mset xs) a \<le> 1" using mset_subset_eq_count [OF sub, of a] by linarith
    then consider "count (mset xs) a = 0" | "count (mset xs) a = 1" by linarith
    then show ?thesis
    proof cases
      case 2
      then have "a \<in> set xs" using count_mset_0_iff [of xs a] by linarith
      with 2 show ?thesis by simp
    qed (simp add: count_mset_0_iff)
  qed
  then show "distinct xs" by (simp add: distinct_count_atmost_1)
qed

lemma delete_key_length:
  "distinct (map fst m) \<Longrightarrow> jm_get m i = Some j \<Longrightarrow> length m = Suc (length (jm_delete m i))"
  using arg_cong [OF delete_key_mset [of m i j], of size] by simp

lemma jq_finish_cases:
  assumes "jq_inv q" and "jm_get (jqRunning q) i = Some j"
  shows "jq_inv (jq_finish now i outcome q)"
    and "mset (jq_ids q) = mset (jq_ids (jq_finish now i outcome q)) + (if outcome = None then {#i#} else {#})"
proof -
  have keys: "distinct (map fst (jqRunning q))" using assms(1) by (simp add: jq_inv_def jq_ids_def)
  have rok: "running_ok (i, j)" using assms map_of_SomeD by (fastforce simp: jq_inv_def)
  then have id: "jId j = i" by (simp add: running_ok_def)
  note ms = delete_key_mset [OF keys assms(2)]
  have len: "jqActiveWorkers q - 1 = int (length (jm_delete (jqRunning q) i))"
    using delete_key_length [OF keys assms(2)] assms(1) by (simp add: jq_inv_def)
  have sub: "set (jm_delete (jqRunning q) i) \<subseteq> set (jqRunning q)" by (auto simp: jm_delete_filter)
  show ids: "mset (jq_ids q) = mset (jq_ids (jq_finish now i outcome q)) + (if outcome = None then {#i#} else {#})"
    using assms(2) ms id
    by (cases outcome; simp add: jq_finish_def Let_def del: mset_map) (auto simp: jq_ids_def)
  have "mset (jq_ids (jq_finish now i outcome q)) \<subseteq># mset (jq_ids q)" unfolding ids by simp
  then have dist: "distinct (jq_ids (jq_finish now i outcome q))"
    by (rule distinct_submset) (use assms(1) in \<open>simp add: jq_inv_def\<close>)
  define q0 where "q0 = q\<lparr>jqRunning := jm_delete (jqRunning q) i, jqActiveWorkers := jqActiveWorkers q - 1\<rparr>"
  show "jq_inv (jq_finish now i outcome q)"
  proof (cases outcome)
    case None
    with dist assms sub len show ?thesis
      by (simp add: jq_finish_def) (auto simp: jq_inv_def)
  next
    case (Some msg)
    with dist assms sub len rok show ?thesis
      by (simp add: jq_finish_def Let_def split del: if_split)
        (auto simp: jq_inv_def running_ok_def pending_ok_def dead_ok_def split: if_splits)
  qed
qed

lemma jq_enqueue_cases:
  assumes "jq_enqueue now i corr t payload opts q = Inr q'"
  shows "mset (jq_ids q') = add_mset i (mset (jq_ids q))"
    and "jq_inv q \<Longrightarrow> i \<notin> set (jq_ids q) \<Longrightarrow> jq_inv q'"
proof -
  show ids: "mset (jq_ids q') = add_mset i (mset (jq_ids q))"
    using assms by (auto simp: jq_enqueue_def Let_def split: if_splits option.splits) (auto simp: jq_ids_def)
  assume inv: "jq_inv q" and "i \<notin> set (jq_ids q)"
  then have "distinct (i # jq_ids q)" by (simp add: jq_inv_def)
  then have "distinct (jq_ids q')" by (subst mset_eq_imp_distinct_iff [of _ "i # jq_ids q"]) (simp_all add: ids)
  with assms inv show "jq_inv q'"
    by (auto simp: jq_enqueue_def Let_def split: if_splits option.splits) (auto simp: jq_inv_def pending_ok_def)
qed

lemma remove_nth_mset: "i < length xs \<Longrightarrow> mset xs = add_mset (xs ! i) (mset (remove_nth i xs))"
  using remove_nth_split [of i xs] by (metis mset.simps(2) mset_append union_mset_add_mset_right)

lemma jq_retry_cases:
  assumes "jq_retryJob now i q = (q', r)" and "jq_inv q"
  shows "mset (jq_ids q') = mset (jq_ids q)" and "jq_inv q'"
proof -
  show ids: "mset (jq_ids q') = mset (jq_ids q)"
  proof (cases r)
    case None
    with assms(1) show ?thesis by (auto simp: jq_retryJob_def Let_def split: option.splits)
  next
    case (Some j)
    with assms(1) obtain idx where idx: "find_index (\<lambda>j. jId j = i) (jqDead q) = Some idx"
      by (auto simp: jq_retryJob_def split: option.splits)
    have "idx < length (jqDead q)" using find_index_Some [OF idx] by simp
    from remove_nth_mset [OF this] assms(1) idx show ?thesis
      by (auto simp: jq_retryJob_def Let_def) (auto simp: jq_ids_def)
  qed
  have "distinct (jq_ids q')" using distinct_ids_mset [OF ids] assms(2) by (simp add: jq_inv_def)
  with assms show "jq_inv q'"
    by (auto simp: jq_retryJob_def Let_def split: option.splits)
      (auto simp: jq_inv_def pending_ok_def dest: in_set_remove_nth)
qed

lemma jq_discard_cases:
  assumes "jq_discardJob i q = (q', b)" and "jq_inv q"
  shows "mset (jq_ids q) = mset (jq_ids q') + (if b then {#i#} else {#})" and "jq_inv q'"
proof -
  show ids: "mset (jq_ids q) = mset (jq_ids q') + (if b then {#i#} else {#})"
  proof (cases "find_index (\<lambda>j. jId j = i) (jqDead q)")
    case None
    with assms(1) show ?thesis by (auto simp: jq_discardJob_def)
  next
    case (Some idx)
    from find_index_Some [OF this] have "idx < length (jqDead q)" "jId (jqDead q ! idx) = i" by auto
    with remove_nth_mset [of idx "jqDead q"] assms(1) Some show ?thesis
      by (auto simp: jq_discardJob_def jq_ids_def)
  qed
  have "mset (jq_ids q') \<subseteq># mset (jq_ids q)" unfolding ids by simp
  then have "distinct (jq_ids q')" by (rule distinct_submset) (use assms(2) in \<open>simp add: jq_inv_def\<close>)
  with assms show "jq_inv q'"
    by (auto simp: jq_discardJob_def split: option.splits) (auto simp: jq_inv_def dest: in_set_remove_nth)
qed

subsection \<open>Runs\<close>

datatype jq_op = JRegister string
  | JEnqueue int string "string option" string jsval enqueue_options
  | JStart int | JStop | JDrain | JTimer int
  | JFinish int string "string option"
  | JRetry int string | JDiscard string
  | JRecurring string jsval int enqueue_options | JStopRecurring string | JRecurringFires int string string
  | JMetrics int

fun jq_step :: "jq_op \<Rightarrow> job_queue \<Rightarrow> job_queue" where
  "jq_step (JRegister t) q = (case jq_register t q of Inl e \<Rightarrow> q | Inr q1 \<Rightarrow> q1)"
| "jq_step (JEnqueue now i corr t payload opts) q = (case jq_enqueue now i corr t payload opts q of Inl e \<Rightarrow> q | Inr q1 \<Rightarrow> q1)"
| "jq_step (JStart now) q = jq_start now q"
| "jq_step JStop q = jq_stop q"
| "jq_step JDrain q = jq_drain_begin q"
| "jq_step (JTimer now) q = jq_timer_fires now q"
| "jq_step (JFinish now i outcome) q = jq_finish now i outcome q"
| "jq_step (JRetry now i) q = fst (jq_retryJob now i q)"
| "jq_step (JDiscard i) q = fst (jq_discardJob i q)"
| "jq_step (JRecurring t payload interval opts) q = jq_scheduleRecurring t payload interval opts q"
| "jq_step (JStopRecurring t) q = jq_stopRecurring t q"
| "jq_step (JRecurringFires now i t) q = jq_recurring_fires now i t q"
| "jq_step (JMetrics now) q = fst (jq_metrics now q)"

text \<open>The ids an operation adds to the queue and those it removes for good.\<close>

fun jq_added :: "jq_op \<Rightarrow> job_queue \<Rightarrow> string list" where
  "jq_added (JEnqueue now i corr t payload opts) q = (if res_ok (jq_enqueue now i corr t payload opts q) then [i] else [])"
| "jq_added (JRecurringFires now i t) q =
     (case jm_get (jqRecurring q) t of None \<Rightarrow> []
      | Some (payload, interval, opts) \<Rightarrow> if res_ok (jq_enqueue now i None t payload opts q) then [i] else [])"
| "jq_added _ q = []"

fun jq_removed :: "jq_op \<Rightarrow> job_queue \<Rightarrow> string list" where
  "jq_removed (JFinish now i None) q = (if jm_has (jqRunning q) i then [i] else [])"
| "jq_removed (JDiscard i) q = (if snd (jq_discardJob i q) then [i] else [])"
| "jq_removed _ q = []"

fun jq_new_ids :: "jq_op \<Rightarrow> string list" where
  "jq_new_ids (JEnqueue now i corr t payload opts) = [i]"
| "jq_new_ids (JRecurringFires now i t) = [i]"
| "jq_new_ids _ = []"

fun jq_run :: "jq_op list \<Rightarrow> job_queue \<Rightarrow> job_queue \<times> string list \<times> string list" where
  "jq_run [] q = (q, [], [])"
| "jq_run (x # xs) q = (case jq_run xs (jq_step x q) of
     (q1, added, removed) \<Rightarrow> (q1, jq_added x q @ added, jq_removed x q @ removed))"

lemma jq_stopRecurring_ids:
  "jq_ids (jq_stopRecurring t q) = jq_ids q" "jq_inv (jq_stopRecurring t q) = jq_inv q"
  by (simp_all add: jq_stopRecurring_def)

lemma drain_begin_fields:
  "jq_ids (foldl (\<lambda>q t. jq_stopRecurring t q) q ts) = jq_ids q"
  "jq_inv (foldl (\<lambda>q t. jq_stopRecurring t q) q ts) = jq_inv q"
  by (induction ts arbitrary: q) (auto simp: jq_stopRecurring_def)

lemma jq_step_cases:
  assumes "jq_inv q" and "distinct (jq_new_ids x @ jq_ids q)"
  shows "jq_inv (jq_step x q)"
    and "mset (jq_ids (jq_step x q)) + mset (jq_removed x q) = mset (jq_ids q) + mset (jq_added x q)"
proof -
  have "jq_inv (jq_step x q) \<and>
    mset (jq_ids (jq_step x q)) + mset (jq_removed x q) = mset (jq_ids q) + mset (jq_added x q)"
  proof (cases x)
    case (JRegister t)
    with assms(1) show ?thesis by (auto simp: jq_register_def)
  next
    case (JEnqueue now i corr t payload opts)
    with assms jq_enqueue_cases [of now i corr t payload opts q] show ?thesis
      by (cases "jq_enqueue now i corr t payload opts q") auto
  next
    case (JFinish now i outcome)
    show ?thesis
    proof (cases "jm_get (jqRunning q) i")
      case None
      with JFinish assms(1) jq_finish_unknown [of q i] show ?thesis
        by (cases outcome) (auto simp: jm_has_def)
    next
      case (Some j)
      from jq_finish_cases [OF assms(1) Some, of now outcome] JFinish Some show ?thesis
        by (cases outcome) (auto simp: jm_has_def)
    qed
  next
    case (JTimer now)
    with assms(1) jq_tick_inv [of "q\<lparr>jqTickTimer := None\<rparr>" now] show ?thesis
      by (simp add: jq_timer_fires_def)
  next
    case (JRetry now i)
    with assms(1) jq_retry_cases [of now i q] show ?thesis by (cases "jq_retryJob now i q") auto
  next
    case (JDiscard i)
    with assms(1) jq_discard_cases [of i q] show ?thesis by (cases "jq_discardJob i q") auto
  next
    case (JRecurringFires now i t)
    show ?thesis
    proof (cases "jm_get (jqRecurring q) t")
      case None
      with JRecurringFires assms(1) show ?thesis by (simp add: jq_recurring_fires_def)
    next
      case (Some p)
      obtain payload interval opts where p: "p = (payload, interval, opts)" by (cases p)
      with JRecurringFires Some assms jq_enqueue_cases [of now i None t payload opts q] show ?thesis
        by (cases "jq_enqueue now i None t payload opts q") (auto simp: jq_recurring_fires_def)
    qed
  qed (use assms(1) in \<open>auto simp: jq_start_def jq_stop_def jq_drain_begin_def drain_begin_fields
      jq_scheduleRecurring_def jq_stopRecurring_ids jq_metrics_def Let_def\<close>)
  then show "jq_inv (jq_step x q)"
    and "mset (jq_ids (jq_step x q)) + mset (jq_removed x q) = mset (jq_ids q) + mset (jq_added x q)" by auto
qed

lemma jq_run_cases:
  assumes "jq_run ops q0 = (q, added, removed)" and "jq_inv q0"
    and "distinct (concat (map jq_new_ids ops) @ jq_ids q0)"
  shows "jq_inv q" and "mset (jq_ids q) + mset removed = mset (jq_ids q0) + mset added"
    and "jqConcurrency q = jqConcurrency q0"
proof -
  have conc: "jqConcurrency (jq_step x q) = jqConcurrency q" if "jq_inv q" for x q
  proof (cases x)
    case (JTimer now)
    then show ?thesis
      using jq_tick_loop_inv [of "q\<lparr>jqTickTimer := None\<rparr>" now] that
      by (simp add: jq_timer_fires_def jq_tick_def Let_def)
  next
    case (JDrain)
    have "jqConcurrency (foldl (\<lambda>q t. jq_stopRecurring t q) q' ts) = jqConcurrency q'" for q' ts
      by (induction ts arbitrary: q') (auto simp: jq_stopRecurring_def)
    with JDrain show ?thesis by (simp add: jq_drain_begin_def jq_stop_def)
  qed (auto simp: jq_register_def jq_enqueue_def jq_start_def jq_stop_def jq_finish_def jq_retryJob_def
      jq_discardJob_def jq_scheduleRecurring_def jq_stopRecurring_def jq_recurring_fires_def jq_metrics_def
      jq_scheduleTick_def Let_def split: option.splits if_splits sum.splits)
  have "jq_inv q \<and> mset (jq_ids q) + mset removed = mset (jq_ids q0) + mset added \<and> jqConcurrency q = jqConcurrency q0"
    using assms
  proof (induction ops arbitrary: q0 added removed)
    case Nil
    then show ?case by simp
  next
    case (Cons x xs)
    obtain a r where run: "jq_run xs (jq_step x q0) = (q, a, r)" "added = jq_added x q0 @ a" "removed = jq_removed x q0 @ r"
      using Cons.prems(1) by (auto split: prod.splits)
    have d: "distinct (jq_new_ids x @ jq_ids q0)" using Cons.prems(3) by auto
    note st = jq_step_cases [OF Cons.prems(2) d]
    have "set (jq_added x q0) \<subseteq> set (jq_new_ids x)"
      by (cases x) (auto split: option.splits)
    moreover have "set (jq_ids (jq_step x q0)) \<subseteq> set (jq_ids q0) \<union> set (jq_added x q0)"
      using arg_cong [OF st(2), of set_mset] by auto
    ultimately have sub: "set (jq_ids (jq_step x q0)) \<subseteq> set (jq_ids q0) \<union> set (jq_new_ids x)" by blast
    have "set (concat (map jq_new_ids xs)) \<inter> (set (jq_ids q0) \<union> set (jq_new_ids x)) = {}"
      and "distinct (concat (map jq_new_ids xs))" using Cons.prems(3) by auto
    moreover have "distinct (jq_ids (jq_step x q0))" using st(1) by (simp add: jq_inv_def)
    ultimately have "distinct (concat (map jq_new_ids xs) @ jq_ids (jq_step x q0))"
      using sub unfolding distinct_append by blast
    from Cons.IH [OF run(1) st(1) this] st(2) conc [OF Cons.prems(2), of x] show ?case
      by (auto simp: run(2,3)) (metis add.assoc add.commute)
  qed
  then show "jq_inv q" and "mset (jq_ids q) + mset removed = mset (jq_ids q0) + mset added"
    and "jqConcurrency q = jqConcurrency q0" by auto
qed

lemma new_job_queue_inv: "jq_inv (new_job_queue c)" "jq_ids (new_job_queue c) = []"
  "jqConcurrency (new_job_queue c) = max 1 c"
  by (auto simp: jq_inv_def jq_ids_def new_job_queue_def)

text \<open>C1: No job is lost or duplicated. Over any sequence of operations, timers and handler outcomes (with
  distinct generated ids) the jobs that are pending, running or in the dead-letter list, together
  with those that completed or were discarded, are exactly the jobs accepted by \<open>enqueue\<close>, each
  once.\<close>

theorem jobs_conserved:
  assumes "jq_run ops (new_job_queue c) = (q, added, removed)"
    and "distinct (concat (map jq_new_ids ops))"
  shows "mset (jq_ids q) + mset removed = mset added"
  using jq_run_cases(2) [OF assms(1)] assms(2) by (simp add: new_job_queue_inv)

theorem jobs_conserved_witness:
  "case jq_run [JRegister ''mail'', JEnqueue 0 ''j1'' None ''mail'' JNull no_options, JTimer 1,
       JFinish 2 ''j1'' None] (new_job_queue 1) of
     (q, added, removed) \<Rightarrow> mset (jq_ids q) + mset removed = mset added"
  using jobs_conserved [of "[JRegister ''mail'', JEnqueue 0 ''j1'' None ''mail'' JNull no_options, JTimer 1,
       JFinish 2 ''j1'' None]" 1]
  by (auto split: prod.splits)

lemma job_limits_facts:
  assumes "jq_run ops (new_job_queue c) = (q, added, removed)"
    and "distinct (concat (map jq_new_ids ops))"
  shows "jqActiveWorkers q = int (length (jqRunning q)) \<and> jqActiveWorkers q \<le> max 1 c"
    and "(i, j) \<in> set (jqRunning q) \<Longrightarrow> jStatus j = Jrunning \<and> int (jAttempts j) \<le> max 1 (jMaxRetries j)"
    and "d \<in> set (jqDead q) \<Longrightarrow> jStatus d = Jdead \<and> jError d \<noteq> None
       \<and> jMaxRetries d \<le> int (jAttempts d) \<and> int (jAttempts d) \<le> max 1 (jMaxRetries d)"
proof -
  have "jq_inv q" and "jqConcurrency q = max 1 c"
    using jq_run_cases(1,3) [OF assms(1)] assms(2) by (simp_all add: new_job_queue_inv)
  then show "jqActiveWorkers q = int (length (jqRunning q)) \<and> jqActiveWorkers q \<le> max 1 c"
    and "(i, j) \<in> set (jqRunning q) \<Longrightarrow> jStatus j = Jrunning \<and> int (jAttempts j) \<le> max 1 (jMaxRetries j)"
    and "d \<in> set (jqDead q) \<Longrightarrow> jStatus d = Jdead \<and> jError d \<noteq> None
       \<and> jMaxRetries d \<le> int (jAttempts d) \<and> int (jAttempts d) \<le> max 1 (jMaxRetries d)"
    by (fastforce simp: jq_inv_def running_ok_def dead_ok_def)+
qed



section \<open>Selection\<close>

lemma sorted_nth_priority:
  "sorted (map (\<lambda>j. - jPriority j) js) \<Longrightarrow> a \<le> b \<Longrightarrow> b < length js \<Longrightarrow> jPriority (js ! b) \<le> jPriority (js ! a)"
  using sorted_nth_mono [of "map (\<lambda>j. - jPriority j) js" a b] by simp

lemma next_job_selection_facts:
  assumes "sorted (map (\<lambda>j. - jPriority j) (jqPending q))"
  shows "jq_nextEligibleJobIndex now q = None \<longleftrightarrow> (\<forall>j\<in>set (jqPending q). now < jRunAt j)"
    and "jq_nextEligibleJobIndex now q = Some i \<Longrightarrow> jqStreak q < FAIRNESS_HIGH_PRIORITY_STREAK \<Longrightarrow>
       k < length (jqPending q) \<Longrightarrow> jRunAt (jqPending q ! k) \<le> now \<Longrightarrow>
       i \<le> k \<and> jPriority (jqPending q ! k) \<le> jPriority (jqPending q ! i)"
    and "jq_nextEligibleJobIndex now q = Some i \<Longrightarrow> FAIRNESS_HIGH_PRIORITY_STREAK \<le> jqStreak q \<Longrightarrow>
       a \<in> set (jqPending q) \<Longrightarrow> b \<in> set (jqPending q) \<Longrightarrow> jRunAt a \<le> now \<Longrightarrow> jRunAt b \<le> now \<Longrightarrow>
       jPriority b < jPriority a \<Longrightarrow> \<exists>h\<in>set (jqPending q). jRunAt h \<le> now \<and> jPriority (jqPending q ! i) < jPriority h"
proof -
  let ?E = "filter (\<lambda>j. jRunAt j \<le> now) (jqPending q)"
  let ?m = "Max (jPriority ` set ?E)"
  show "jq_nextEligibleJobIndex now q = None \<longleftrightarrow> (\<forall>j\<in>set (jqPending q). now < jRunAt j)"
    by (auto simp: jq_nextEligibleJobIndex_def Let_def find_index_None filter_empty_conv not_le)
  show "i \<le> k \<and> jPriority (jqPending q ! k) \<le> jPriority (jqPending q ! i)"
    if "jq_nextEligibleJobIndex now q = Some i" "jqStreak q < FAIRNESS_HIGH_PRIORITY_STREAK"
      "k < length (jqPending q)" "jRunAt (jqPending q ! k) \<le> now"
  proof -
    have "find_index (\<lambda>j. jRunAt j \<le> now) (jqPending q) = Some i"
      using that(1,2) by (auto simp: jq_nextEligibleJobIndex_def Let_def split: if_splits)
    from find_index_Some [OF this] that(4) have "i \<le> k" by (meson not_less)
    then show ?thesis using sorted_nth_priority [OF assms _ that(3)] by simp
  qed
  show "\<exists>h\<in>set (jqPending q). jRunAt h \<le> now \<and> jPriority (jqPending q ! i) < jPriority h"
    if "jq_nextEligibleJobIndex now q = Some i" "FAIRNESS_HIGH_PRIORITY_STREAK \<le> jqStreak q"
      "a \<in> set (jqPending q)" "b \<in> set (jqPending q)" "jRunAt a \<le> now" "jRunAt b \<le> now"
      "jPriority b < jPriority a"
  proof -
    have E: "jPriority ` set ?E \<noteq> {}" "finite (jPriority ` set ?E)" using that by auto
    have "jPriority a \<le> ?m" using that by (intro Max_ge) auto
    then have "jPriority b < ?m" using that(7) by simp
    then have "find_index (\<lambda>j. jRunAt j \<le> now \<and> jPriority j < ?m) (jqPending q) = Some i"
      using that by (auto simp: jq_nextEligibleJobIndex_def Let_def split: if_splits)
    from find_index_Some [OF this] have "jPriority (jqPending q ! i) < ?m" by simp
    moreover obtain h where "h \<in> set ?E" "jPriority h = ?m" using Max_in [OF E(2,1)] by auto
    ultimately show ?thesis by auto
  qed
qed

text \<open>Job selection. A worker stays idle exactly when no pending job is due. While the fairness
  streak is below its limit it gets the due job of the highest priority, the oldest in queue order
  among equals; once the limit is reached and a due job of a lower priority exists, it gets a due
  job of less than the highest priority.\<close>

theorem next_job_selection:
  assumes "sorted (map (\<lambda>j. - jPriority j) (jqPending q))"
  shows "(case jq_nextEligibleJobIndex now q of
       None \<Rightarrow> \<forall>j\<in>set (jqPending q). now < jRunAt j
     | Some i \<Rightarrow>
         i < length (jqPending q) \<and> jRunAt (jqPending q ! i) \<le> now
         \<and> (jqStreak q < FAIRNESS_HIGH_PRIORITY_STREAK \<longrightarrow>
              (\<forall>k<length (jqPending q). jRunAt (jqPending q ! k) \<le> now \<longrightarrow>
                 i \<le> k \<and> jPriority (jqPending q ! k) \<le> jPriority (jqPending q ! i)))
         \<and> (FAIRNESS_HIGH_PRIORITY_STREAK \<le> jqStreak q \<longrightarrow>
              (\<forall>a\<in>set (jqPending q). \<forall>b\<in>set (jqPending q).
                 jRunAt a \<le> now \<and> jRunAt b \<le> now \<and> jPriority b < jPriority a \<longrightarrow>
                 (\<exists>h\<in>set (jqPending q). jRunAt h \<le> now \<and> jPriority (jqPending q ! i) < jPriority h))))"
proof (cases "jq_nextEligibleJobIndex now q")
  case None
  then have "\<forall>j\<in>set (jqPending q). now < jRunAt j" using next_job_selection_facts(1) [OF assms] by blast
  with None show ?thesis by simp
next
  case (Some i)
  with nextEligible_bound [OF Some] next_job_selection_facts(2,3) [OF assms Some] show ?thesis
    by (auto split: option.splits)
qed

theorem next_job_selection_witness:
  "\<exists>q i. jqPending q \<noteq> [] \<and> jq_nextEligibleJobIndex 5 q = Some i
     \<and> jPriority (jqPending q ! 1) \<le> jPriority (jqPending q ! i)"
proof -
  define j where "j = (\<lambda>i p. \<lparr>jId = i, jType = ''t'', jPayload = JNull, jPriority = p, jAttempts = 0,
    jMaxRetries = 3, jStatus = Jpending, jCreatedAt = 0, jRunAt = 0, jStartedAt = None, jLastAttemptAt = None,
    jStuck = False, jError = None, jCorrelationId = None\<rparr>)"
  define q where "q = (new_job_queue 1)\<lparr>jqPending := [j ''a'' 10, j ''b'' 0]\<rparr>"
  have "jq_nextEligibleJobIndex 5 q = Some 0"
    by (simp add: q_def j_def jq_nextEligibleJobIndex_def new_job_queue_def FAIRNESS_HIGH_PRIORITY_STREAK_def)
  with next_job_selection [of q 5] show ?thesis
    by (intro exI [of _ q] exI [of _ 0]) (simp add: q_def j_def new_job_queue_def FAIRNESS_HIGH_PRIORITY_STREAK_def)
qed

text \<open>
  Priority inversion: once the streak has reached its limit and priorities 10, 5 and 0 are all due, the
  job of priority 5 is taken and the streak keeps growing, so the next pick is again of priority 5; the
  job of priority 10 waits behind all of them, and the job of priority 0 is not served either.
\<close>

lemma fairness_priority_inversion:
  fixes j :: "string \<Rightarrow> int \<Rightarrow> job"
  defines "j \<equiv> \<lambda>i p. \<lparr>jId = i, jType = ''t'', jPayload = JNull, jPriority = p, jAttempts = 0, jMaxRetries = 3,
      jStatus = Jpending, jCreatedAt = 0, jRunAt = 0, jStartedAt = None, jLastAttemptAt = None, jStuck = False,
      jError = None, jCorrelationId = None\<rparr>"
  defines "q \<equiv> (new_job_queue 1)\<lparr>jqPending := [j ''a'' 10, j ''b'' 5, j ''c'' 5, j ''d'' 0], jqStreak := 5\<rparr>"
  shows "jq_nextEligibleJobIndex 1 q = Some 1"
    and "jqStreak (jq_take 1 1 q) = 6" and "jq_nextEligibleJobIndex 1 (jq_take 1 1 q) = Some 1"
  by (simp_all add: q_def j_def new_job_queue_def jq_nextEligibleJobIndex_def FAIRNESS_HIGH_PRIORITY_STREAK_def
      jq_take_def jq_runJob_def jq_updateFairnessState_def remove_nth_def flag_stuck_def STUCK_THRESHOLD_MS_def Let_def)

text \<open>With every worker busy and a due job pending, a tick schedules the next tick with no delay.\<close>

lemma busy_tick_spins:
  assumes "\<not> jqStopped q" and "jqActiveWorkers q = jqConcurrency q" and "jqPending q \<noteq> []"
    and "j \<in> set (jqPending q)" and "jRunAt j \<le> now"
  shows "jqTickTimer (jq_tick now q) = Some now"
proof -
  have "jq_tick_loop now q = q" using assms(2) by (simp add: jq_tick_loop.simps [of now q])
  moreover have "Min (jRunAt ` set (jqPending q)) \<le> now"
    using assms(4,5) by (meson Min_le finite_imageI finite_set image_eqI order_trans)
  ultimately show ?thesis using assms(1,3) by (simp add: jq_tick_def)
qed

lemma failed_attempt_facts:
  assumes "jq_inv q" and "jm_get (jqRunning q) i = Some j"
  shows "int (jAttempts j) < jMaxRetries j \<Longrightarrow>
       \<exists>p\<in>set (jqPending (jq_finish now i (Some msg) q)). jId p = i \<and> jStatus p = Jpending \<and> jError p = Some msg
         \<and> jAttempts p = jAttempts j \<and> jRunAt p = now + 500 * 2 ^ (jAttempts j - 1)"
    and "\<not> int (jAttempts j) < jMaxRetries j \<Longrightarrow>
       \<exists>d\<in>set (jqDead (jq_finish now i (Some msg) q)). jId d = i \<and> jStatus d = Jdead \<and> jError d = Some msg"
    and "jm_get (jqRunning (jq_finish now i (Some msg) q)) i = None
       \<and> jqActiveWorkers (jq_finish now i (Some msg) q) = jqActiveWorkers q - 1"
proof -
  have "running_ok (i, j)" using assms map_of_SomeD by (fastforce simp: jq_inv_def)
  then have id: "jId j = i" by (simp add: running_ok_def)
  show "\<exists>p\<in>set (jqPending (jq_finish now i (Some msg) q)). jId p = i \<and> jStatus p = Jpending \<and> jError p = Some msg
         \<and> jAttempts p = jAttempts j \<and> jRunAt p = now + 500 * 2 ^ (jAttempts j - 1)"
    if "int (jAttempts j) < jMaxRetries j"
    using assms(2) that id
    by (auto simp: jq_finish_def Let_def jq_scheduleTick_def BASE_BACKOFF_MS_def)
  show "\<exists>d\<in>set (jqDead (jq_finish now i (Some msg) q)). jId d = i \<and> jStatus d = Jdead \<and> jError d = Some msg"
    if "\<not> int (jAttempts j) < jMaxRetries j"
    using assms(2) that id by (auto simp: jq_finish_def Let_def jq_scheduleTick_def)
  have "jm_get (map (\<lambda>(a, b). (a, flag_stuck now b)) (jm_delete (jqRunning q) i)) i = None"
    by (auto simp: map_of_eq_None_iff jm_delete_filter)
  then show "jm_get (jqRunning (jq_finish now i (Some msg) q)) i = None
       \<and> jqActiveWorkers (jq_finish now i (Some msg) q) = jqActiveWorkers q - 1"
    using assms(2) by (auto simp: jq_finish_def Let_def jq_scheduleTick_def)
qed

text \<open>A failing attempt. When a running job fails before its last attempt it returns to the pending list
  with its error recorded, due after 500 ms doubled for every earlier attempt; otherwise it moves to
  the dead-letter list. Either way it is no longer running and its worker is free.\<close>

theorem failed_attempt:
  assumes "jq_inv q" and "jm_get (jqRunning q) i = Some j"
  shows "(if int (jAttempts j) < jMaxRetries j
     then \<exists>p\<in>set (jqPending (jq_finish now i (Some msg) q)). jId p = i \<and> jStatus p = Jpending \<and> jError p = Some msg
         \<and> jAttempts p = jAttempts j \<and> jRunAt p = now + 500 * 2 ^ (jAttempts j - 1)
     else \<exists>d\<in>set (jqDead (jq_finish now i (Some msg) q)). jId d = i \<and> jStatus d = Jdead \<and> jError d = Some msg)
    \<and> jm_get (jqRunning (jq_finish now i (Some msg) q)) i = None
    \<and> jqActiveWorkers (jq_finish now i (Some msg) q) = jqActiveWorkers q - 1"
  using failed_attempt_facts [OF assms] by simp

theorem failed_attempt_witness:
  "\<exists>q. jq_inv q \<and> jm_get (jqRunning (jq_finish 9 ''a'' (Some ''boom'') q)) ''a'' = None \<and> jqRunning q \<noteq> []"
proof -
  define j where "j = \<lparr>jId = ''a'', jType = ''t'', jPayload = JNull, jPriority = 0, jAttempts = 1,
    jMaxRetries = 3, jStatus = Jrunning, jCreatedAt = 0, jRunAt = 0, jStartedAt = Some 0, jLastAttemptAt = Some 0,
    jStuck = False, jError = None, jCorrelationId = None\<rparr>"
  define q where "q = (new_job_queue 1)\<lparr>jqRunning := [(''a'', j)], jqActiveWorkers := 1\<rparr>"
  have "jq_inv q" by (simp add: q_def j_def jq_inv_def jq_ids_def new_job_queue_def running_ok_def)
  with failed_attempt [of q "''a''" j 9 "''boom''"] show ?thesis
    by (intro exI [of _ q]) (simp add: q_def)
qed

end
