(* ===== verification/Event_Bus.thy ===== *)
theory Event_Bus
  imports JS_Value
begin

text \<open>
  \<open>backend/src/services/eventBus.ts\<close>: the in-process event bus with exact and wildcard subscriptions,
  one-time subscriptions, a bounded history with sequence numbers, a dead-letter queue for failing
  handlers, and the versioned payloads of fee and allow-list changes.

  A handler is a number with a flag telling whether it was wrapped by \<open>once\<close>; what it does is the
  argument \<open>run\<close> of \<open>publish\<close> (\<open>Some msg\<close> when it throws or rejects). Handlers settle in the order
  in which they are invoked. Generated ids, the clock and the schema validator, which reads the
  schema files, are arguments.
\<close>

section \<open>Versioned payloads\<close>

definition FEE_CHANGE_EVENT_VERSION :: int where
  "FEE_CHANGE_EVENT_VERSION = 2"

definition ALLOWLIST_CHANGE_EVENT_VERSION :: int where
  "ALLOWLIST_CHANGE_EVENT_VERSION = 1"

definition FEE_CHANGED_EVENT :: string where
  "FEE_CHANGED_EVENT = ''fee.changed''"

definition ALLOWLIST_MODE_CHANGED_EVENT :: string where
  "ALLOWLIST_MODE_CHANGED_EVENT = ''token.allowlist_mode.changed''"

record fee_changed =
  fcVersion :: int
  fcParameter :: string
  fcOldValue :: jsval
  fcNewValue :: jsval
  fcChangedBy :: "string option"
  fcReason :: "string option"

record allowlist_changed =
  acVersion :: int
  acTokenAddress :: string
  acEnabled :: bool
  acChangedBy :: "string option"

datatype payload_error = ExpectedObject | MissingParameter | MissingNewValue | MissingValue
  | MissingTokenAddress | MissingEnabled

definition js_is_object :: "jsval \<Rightarrow> bool" where
  "js_is_object v = (case v of JObj _ \<Rightarrow> True | JArr _ \<Rightarrow> True | _ \<Rightarrow> False)"

definition opt_string :: "jsval \<Rightarrow> string option" where
  "opt_string v = (case v of JStr s \<Rightarrow> Some s | _ \<Rightarrow> None)"

definition parseFeeChangedPayload :: "jsval \<Rightarrow> (payload_error, fee_changed) res" where
  "parseFeeChangedPayload payload =
     (if \<not> js_is_object payload then Inl ExpectedObject
      else
        let version = (case js_prop payload ''version'' of JNum n \<Rightarrow> n | _ \<Rightarrow> 1);
            changedBy = opt_string (js_prop payload ''changedBy'');
            reason = opt_string (js_prop payload ''reason'')
        in case opt_string (js_prop payload ''parameter'') of
             None \<Rightarrow> Inl MissingParameter
           | Some parameter \<Rightarrow>
               if version \<ge> 2 then
                 (if js_prop payload ''newValue'' = JUndef then Inl MissingNewValue
                  else Inr \<lparr>fcVersion = FEE_CHANGE_EVENT_VERSION, fcParameter = parameter,
                    fcOldValue = (if js_prop payload ''oldValue'' = JUndef then JNull else js_prop payload ''oldValue''),
                    fcNewValue = js_prop payload ''newValue'', fcChangedBy = changedBy, fcReason = reason\<rparr>)
               else
                 (if js_prop payload ''value'' = JUndef \<and> js_prop payload ''newValue'' = JUndef then Inl MissingValue
                  else Inr \<lparr>fcVersion = FEE_CHANGE_EVENT_VERSION, fcParameter = parameter, fcOldValue = JNull,
                    fcNewValue = js_coalesce (js_prop payload ''newValue'') (js_prop payload ''value''),
                    fcChangedBy = changedBy, fcReason = reason\<rparr>))"

definition parseAllowlistModeChangedPayload :: "jsval \<Rightarrow> (payload_error, allowlist_changed) res" where
  "parseAllowlistModeChangedPayload payload =
     (if \<not> js_is_object payload then Inl ExpectedObject
      else case opt_string (js_prop payload ''tokenAddress'') of
        None \<Rightarrow> Inl MissingTokenAddress
      | Some tokenAddress \<Rightarrow>
          (case js_prop payload ''enabled'' of
             JBool enabled \<Rightarrow>
               Inr \<lparr>acVersion = (case js_prop payload ''version'' of JNum n \<Rightarrow> n | _ \<Rightarrow> ALLOWLIST_CHANGE_EVENT_VERSION),
                    acTokenAddress = tokenAddress, acEnabled = enabled,
                    acChangedBy = opt_string (js_prop payload ''changedBy'')\<rparr>
           | _ \<Rightarrow> Inl MissingEnabled))"

definition js_opt :: "string option \<Rightarrow> jsval" where
  "js_opt x = (case x of Some s \<Rightarrow> JStr s | None \<Rightarrow> JUndef)"

section \<open>The bus\<close>

record bus_event =
  beId :: string
  beType :: string
  bePayload :: jsval
  beTimestamp :: int
  beCorrelationId :: "string option"
  beSequence :: nat
  beVersion :: "int option"

datatype handler = Plain nat | Wrapped_once nat

record dead_letter =
  dlEvent :: bus_event
  dlSubscription :: string
  dlError :: string
  dlFailedAt :: int

record event_bus =
  ebHandlers :: "(string, (string, handler) jsmap) jsmap"
  ebHistory :: "bus_event list"
  ebDeadLetters :: "dead_letter list"
  ebSequence :: nat
  ebMaxHistory :: int

definition new_event_bus :: "int option \<Rightarrow> event_bus" where
  "new_event_bus mx = \<lparr>ebHandlers = [], ebHistory = [], ebDeadLetters = [], ebSequence = 0,
     ebMaxHistory = (case mx of Some n \<Rightarrow> n | None \<Rightarrow> 1000)\<rparr>"

definition handlers_for :: "event_bus \<Rightarrow> string \<Rightarrow> (string, handler) jsmap" where
  "handlers_for b t = (case jm_get (ebHandlers b) t of Some m \<Rightarrow> m | None \<Rightarrow> [])"

definition eb_subscribe :: "string \<Rightarrow> string \<Rightarrow> handler \<Rightarrow> event_bus \<Rightarrow> event_bus" where
  "eb_subscribe sid t h b =
     (let b1 = (if jm_has (ebHandlers b) t then b else b\<lparr>ebHandlers := jm_set (ebHandlers b) t []\<rparr>)
      in b1\<lparr>ebHandlers := jm_set (ebHandlers b1) t (jm_set (handlers_for b1 t) sid h)\<rparr>)"

definition eb_once :: "string \<Rightarrow> string \<Rightarrow> nat \<Rightarrow> event_bus \<Rightarrow> event_bus" where
  "eb_once sid t h b = eb_subscribe sid t (Wrapped_once h) b"

definition eb_unsubscribe :: "string \<Rightarrow> string \<Rightarrow> event_bus \<Rightarrow> event_bus" where
  "eb_unsubscribe t sid b =
     (case jm_get (ebHandlers b) t of
        None \<Rightarrow> b
      | Some m \<Rightarrow> b\<lparr>ebHandlers := jm_set (ebHandlers b) t (jm_delete m sid)\<rparr>)"

definition eb_recordHistory :: "bus_event \<Rightarrow> event_bus \<Rightarrow> event_bus" where
  "eb_recordHistory e b =
     (let h = ebHistory b @ [e]
      in b\<lparr>ebHistory := (if ebMaxHistory b > 0 \<and> int (length h) > ebMaxHistory b
                          then slice_last (nat (ebMaxHistory b)) h else h)\<rparr>)"

text \<open>
  One handler: a \<open>once\<close> wrapper first removes its own subscription (registered under the type \<open>t\<close>),
  then runs the handler; a failure becomes a dead letter.
\<close>

definition eb_invokeHandler ::
  "(nat \<Rightarrow> bus_event \<Rightarrow> string option) \<Rightarrow> int \<Rightarrow> bus_event \<Rightarrow> string \<Rightarrow> string \<times> handler \<Rightarrow> event_bus \<Rightarrow> event_bus" where
  "eb_invokeHandler run now e t sh b =
     (let b1 = (case snd sh of Wrapped_once _ \<Rightarrow> eb_unsubscribe t (fst sh) b | Plain _ \<Rightarrow> b);
          h = (case snd sh of Wrapped_once n \<Rightarrow> n | Plain n \<Rightarrow> n)
      in case run h e of
           None \<Rightarrow> b1
         | Some err \<Rightarrow> b1\<lparr>ebDeadLetters := ebDeadLetters b1 @
             [\<lparr>dlEvent = e, dlSubscription = fst sh, dlError = err, dlFailedAt = now\<rparr>]\<rparr>)"

text \<open>\<open>new Map([...exactHandlers, ...wildcardHandlers])\<close>, each with the type it is registered under.\<close>

definition merged_handlers :: "event_bus \<Rightarrow> string \<Rightarrow> (string, string \<times> handler) jsmap" where
  "merged_handlers b t =
     foldl (\<lambda>m (sid, p). jm_set m sid p) []
       (map (\<lambda>(sid, h). (sid, (t, h))) (handlers_for b t)
        @ map (\<lambda>(sid, h). (sid, (''*'', h))) (handlers_for b ''*''))"

record publish_options =
  poCorrelationId :: "string option"
  poVersion :: "int option"

definition eb_publish ::
  "bool \<Rightarrow> (string \<Rightarrow> jsval \<Rightarrow> 'x option) \<Rightarrow> (nat \<Rightarrow> bus_event \<Rightarrow> string option) \<Rightarrow> int \<Rightarrow> string \<Rightarrow>
   string \<Rightarrow> jsval \<Rightarrow> publish_options \<Rightarrow> event_bus \<Rightarrow> ('x, bus_event \<times> event_bus) res" where
  "eb_publish isProduction validate run now eid t payload opts b =
     (case (if isProduction then None else validate t payload) of
        Some err \<Rightarrow> Inl err
      | None \<Rightarrow>
          let e = \<lparr>beId = eid, beType = t, bePayload = payload, beTimestamp = now,
                   beCorrelationId = poCorrelationId opts, beSequence = ebSequence b + 1,
                   beVersion = poVersion opts\<rparr>;
              b1 = eb_recordHistory e (b\<lparr>ebSequence := ebSequence b + 1\<rparr>);
              b2 = foldl (\<lambda>b (sid, (rt, h)). eb_invokeHandler run now e rt (sid, h) b) b1 (merged_handlers b1 t)
          in Inr (e, b2))"

definition fee_payload :: "fee_changed \<Rightarrow> jsval" where
  "fee_payload c = JObj [(''version'', JNum FEE_CHANGE_EVENT_VERSION), (''parameter'', JStr (fcParameter c)),
     (''oldValue'', fcOldValue c), (''newValue'', fcNewValue c), (''changedBy'', js_opt (fcChangedBy c)),
     (''reason'', js_opt (fcReason c))]"

definition eb_publishFeeChanged where
  "eb_publishFeeChanged isProd validate run now eid c corr b =
     eb_publish isProd validate run now eid FEE_CHANGED_EVENT (fee_payload c)
       \<lparr>poCorrelationId = corr, poVersion = Some FEE_CHANGE_EVENT_VERSION\<rparr> b"

definition allowlist_payload :: "allowlist_changed \<Rightarrow> jsval" where
  "allowlist_payload c = JObj [(''version'', JNum ALLOWLIST_CHANGE_EVENT_VERSION),
     (''tokenAddress'', JStr (acTokenAddress c)), (''enabled'', JBool (acEnabled c)),
     (''changedBy'', js_opt (acChangedBy c))]"

definition eb_publishAllowlistModeChanged where
  "eb_publishAllowlistModeChanged isProd validate run now eid c corr b =
     eb_publish isProd validate run now eid ALLOWLIST_MODE_CHANGED_EVENT (allowlist_payload c)
       \<lparr>poCorrelationId = corr, poVersion = Some ALLOWLIST_CHANGE_EVENT_VERSION\<rparr> b"

definition eb_getHistory :: "string \<Rightarrow> event_bus \<Rightarrow> bus_event list" where
  "eb_getHistory t b = (if t = [] then ebHistory b else filter (\<lambda>e. beType e = t) (ebHistory b))"

definition eb_subscriberCount :: "string \<Rightarrow> event_bus \<Rightarrow> nat" where
  "eb_subscriberCount t b =
     (if t \<noteq> [] then length (handlers_for b t)
      else foldl (\<lambda>total (t, m). total + length m) 0 (ebHandlers b))"

definition eb_reset :: "event_bus \<Rightarrow> event_bus" where
  "eb_reset b = b\<lparr>ebHandlers := [], ebHistory := [], ebDeadLetters := [], ebSequence := 0\<rparr>"

section \<open>Payload round trips\<close>

lemma opt_string_simps [simp]: "opt_string (JStr s) = Some s" "opt_string (js_opt x) = x"
  by (auto simp: opt_string_def js_opt_def split: option.splits)

text \<open>What is published about a fee change can be read back: parsing the payload of
  \<open>publishFeeChanged\<close> gives the change with both values, the actor and the reason. In the same way
  parsing the payload of \<open>publishAllowlistModeChanged\<close> gives the change back.\<close>

theorem change_payload_roundtrip:
  assumes "fcNewValue c \<noteq> JUndef" and "fcOldValue c \<noteq> JUndef" and "fcVersion c = FEE_CHANGE_EVENT_VERSION"
    and "acVersion d = ALLOWLIST_CHANGE_EVENT_VERSION"
  shows "parseFeeChangedPayload (fee_payload c) = Inr c
    \<and> parseAllowlistModeChangedPayload (allowlist_payload d) = Inr d"
  using assms
  by (cases c; cases d) (simp add: parseFeeChangedPayload_def fee_payload_def js_is_object_def
      FEE_CHANGE_EVENT_VERSION_def Let_def parseAllowlistModeChangedPayload_def allowlist_payload_def
      ALLOWLIST_CHANGE_EVENT_VERSION_def)

theorem change_payload_roundtrip_witness:
  "parseFeeChangedPayload (fee_payload \<lparr>fcVersion = FEE_CHANGE_EVENT_VERSION, fcParameter = ''transfer_fee_bps'',
     fcOldValue = JNum 10, fcNewValue = JNum 25, fcChangedBy = Some ''GADMIN'', fcReason = None\<rparr>)
   = Inr \<lparr>fcVersion = FEE_CHANGE_EVENT_VERSION, fcParameter = ''transfer_fee_bps'',
     fcOldValue = JNum 10, fcNewValue = JNum 25, fcChangedBy = Some ''GADMIN'', fcReason = None\<rparr>"
  using change_payload_roundtrip [of "\<lparr>fcVersion = FEE_CHANGE_EVENT_VERSION, fcParameter = ''transfer_fee_bps'',
     fcOldValue = JNum 10, fcNewValue = JNum 25, fcChangedBy = Some ''GADMIN'', fcReason = None\<rparr>"
     "\<lparr>acVersion = ALLOWLIST_CHANGE_EVENT_VERSION, acTokenAddress = ''C1'', acEnabled = True, acChangedBy = None\<rparr>"]
  by simp

section \<open>Dispatch\<close>

lemma invoke_fields [simp]:
  "ebHistory (eb_invokeHandler run now e t sh b) = ebHistory b"
  "ebSequence (eb_invokeHandler run now e t sh b) = ebSequence b"
  "ebMaxHistory (eb_invokeHandler run now e t sh b) = ebMaxHistory b"
  by (auto simp: eb_invokeHandler_def eb_unsubscribe_def Let_def split: option.splits handler.splits)

lemma recordHistory_fields [simp]:
  "ebHandlers (eb_recordHistory e b) = ebHandlers b" "ebDeadLetters (eb_recordHistory e b) = ebDeadLetters b"
  "ebSequence (eb_recordHistory e b) = ebSequence b" "ebMaxHistory (eb_recordHistory e b) = ebMaxHistory b"
  by (simp_all add: eb_recordHistory_def Let_def)

lemma handlers_for_invoke:
  "handlers_for (eb_invokeHandler run now e t (sid, h) b) u =
     (case h of Wrapped_once n \<Rightarrow> if u = t then jm_delete (handlers_for b u) sid else handlers_for b u
      | Plain n \<Rightarrow> handlers_for b u)"
  by (auto simp: eb_invokeHandler_def eb_unsubscribe_def handlers_for_def Let_def jm_delete_def
      split: option.splits handler.splits)

fun handler_number :: "handler \<Rightarrow> nat" where
  "handler_number (Plain n) = n"
| "handler_number (Wrapped_once n) = n"

definition dispatch where
  "dispatch run now e L b = foldl (\<lambda>b (sid, (rt, h)). eb_invokeHandler run now e rt (sid, h) b) b L"

lemma dispatch_simps [simp]:
  "dispatch run now e [] b = b"
  "dispatch run now e ((sid, (rt, h)) # L) b = dispatch run now e L (eb_invokeHandler run now e rt (sid, h) b)"
  by (simp_all add: dispatch_def)

lemma dispatch_history [simp]:
  "ebHistory (dispatch run now e L b) = ebHistory b" "ebSequence (dispatch run now e L b) = ebSequence b"
  "ebMaxHistory (dispatch run now e L b) = ebMaxHistory b"
  by (induction L arbitrary: b) (auto simp: dispatch_def)

lemma dispatch_dead_letters:
  "ebDeadLetters (dispatch run now e L b) = ebDeadLetters b @
     concat (map (\<lambda>(sid, (rt, h)). case run (handler_number h) e of None \<Rightarrow> []
       | Some err \<Rightarrow> [\<lparr>dlEvent = e, dlSubscription = sid, dlError = err, dlFailedAt = now\<rparr>]) L)"
proof (induction L arbitrary: b)
  case Nil
  then show ?case by simp
next
  case (Cons x L)
  obtain sid rt h where x: "x = (sid, (rt, h))" by (cases x) auto
  have "ebDeadLetters (eb_invokeHandler run now e rt (sid, h) b) = ebDeadLetters b @
      (case run (handler_number h) e of None \<Rightarrow> []
       | Some err \<Rightarrow> [\<lparr>dlEvent = e, dlSubscription = sid, dlError = err, dlFailedAt = now\<rparr>])"
    by (cases h) (auto simp: eb_invokeHandler_def eb_unsubscribe_def Let_def split: option.splits)
  with Cons show ?case by (simp add: x)
qed

lemma dispatch_handlers:
  "handlers_for (dispatch run now e L b) u =
     filter (\<lambda>(s, h). \<nexists>n. (s, (u, Wrapped_once n)) \<in> set L) (handlers_for b u)"
proof (induction L arbitrary: b)
  case Nil
  then show ?case by simp
next
  case (Cons x L)
  obtain sid rt h where x: "x = (sid, (rt, h))" by (cases x) auto
  show ?case
    by (cases h) (auto simp: x Cons.IH handlers_for_invoke jm_delete_filter intro!: filter_cong)
qed

lemma publish_unfold:
  assumes "eb_publish isProd validate run now eid t payload opts b = Inr (e, b')"
  shows "isProd \<or> validate t payload = None" and "beType e = t" and "beSequence e = ebSequence b + 1"
    and "b' = dispatch run now e (merged_handlers b t) (eb_recordHistory e (b\<lparr>ebSequence := ebSequence b + 1\<rparr>))"
proof -
  have m: "merged_handlers (eb_recordHistory e (b\<lparr>ebSequence := n\<rparr>)) t = merged_handlers b t" for e n
    by (simp add: merged_handlers_def handlers_for_def)
  show "isProd \<or> validate t payload = None" and "beType e = t" and "beSequence e = ebSequence b + 1"
    and "b' = dispatch run now e (merged_handlers b t) (eb_recordHistory e (b\<lparr>ebSequence := ebSequence b + 1\<rparr>))"
    using assms by (auto simp: eb_publish_def Let_def dispatch_def m split: option.splits if_splits)
qed

lemma publish_in_production:
  "\<exists>e b'. eb_publish True validate run now eid t payload opts b = Inr (e, b')"
  by (simp add: eb_publish_def Let_def)

text \<open>Subscription ids are unique: no id is registered twice under the type or the wildcard.\<close>

definition ids_unique :: "event_bus \<Rightarrow> string \<Rightarrow> bool" where
  "ids_unique b t \<longleftrightarrow> distinct (map fst (handlers_for b t) @ map fst (handlers_for b ''*''))"

lemma foldl_jm_set_distinct:
  "distinct (map fst (m @ xs)) \<Longrightarrow> foldl (\<lambda>m (k, v). jm_set m k v) m xs = m @ xs"
proof (induction xs arbitrary: m)
  case Nil
  then show ?case by simp
next
  case (Cons x xs)
  have "\<not> jm_has m (fst x)" using Cons.prems by (auto simp: jm_has_iff)
  then show ?case
    using Cons.IH [of "m @ [x]"] Cons.prems by (simp add: split_beta jm_set_absent)
qed

lemma in_tagged: "(s, (u, h)) \<in> set (map (\<lambda>(s, h). (s, (t, h))) m) \<longleftrightarrow> u = t \<and> (s, h) \<in> set m"
  by auto

lemma merged_handlers_unique:
  assumes "ids_unique b t"
  shows "merged_handlers b t = map (\<lambda>(s, h). (s, (t, h))) (handlers_for b t)
     @ map (\<lambda>(s, h). (s, (''*'', h))) (handlers_for b ''*'')"
proof -
  have "map fst (map (\<lambda>(s, h). (s, (u, h))) m) = map fst m" for u and m :: "(string, handler) jsmap"
    by (simp add: comp_def split_def)
  then show ?thesis
    unfolding merged_handlers_def
    by (subst foldl_jm_set_distinct) (use assms in \<open>simp_all add: ids_unique_def comp_def split_def\<close>)
qed

text \<open>Handlers are isolated from one another. A publication invokes every subscription of its type and
  every wildcard subscription exactly once, whatever other handlers do: the new dead letters are
  precisely those of the failing handlers among them, each with its own error, and every other entry
  of the dead-letter queue is kept.\<close>

theorem publish_isolates_failures:
  assumes "eb_publish isProd validate run now eid t payload opts b = Inr (e, b')" and "ids_unique b t"
  shows "ebDeadLetters b' = ebDeadLetters b @
     concat (map (\<lambda>(sid, h). case run (handler_number h) e of None \<Rightarrow> []
         | Some err \<Rightarrow> [\<lparr>dlEvent = e, dlSubscription = sid, dlError = err, dlFailedAt = now\<rparr>])
       (handlers_for b t @ handlers_for b ''*''))"
  by (simp add: publish_unfold(4) [OF assms(1)] dispatch_dead_letters merged_handlers_unique [OF assms(2)]
      comp_def split_def cong: option.case_cong)

theorem publish_isolates_failures_witness:
  "\<exists>e b'. eb_publish True (\<lambda>_ _. None :: unit option) (\<lambda>n _. if n = 1 then Some ''boom'' else None) 7 ''e1'' ''token.created''
     JNull \<lparr>poCorrelationId = None, poVersion = None\<rparr>
     (eb_subscribe ''s2'' ''*'' (Plain 2) (eb_subscribe ''s1'' ''token.created'' (Plain 1) (new_event_bus None))) = Inr (e, b')
   \<and> map dlSubscription (ebDeadLetters b') = [''s1'']"
proof -
  let ?b = "eb_subscribe ''s2'' ''*'' (Plain 2) (eb_subscribe ''s1'' ''token.created'' (Plain 1) (new_event_bus None))"
  obtain e b' where p: "eb_publish True (\<lambda>_ _. None :: unit option) (\<lambda>n _. if n = 1 then Some ''boom'' else None) 7 ''e1'' ''token.created''
     JNull \<lparr>poCorrelationId = None, poVersion = None\<rparr> ?b = Inr (e, b')"
    using publish_in_production by blast
  have h: "handlers_for ?b ''token.created'' = [(''s1'', Plain 1)]" "handlers_for ?b ''*'' = [(''s2'', Plain 2)]"
    by (simp_all add: eb_subscribe_def handlers_for_def new_event_bus_def jm_set_def jm_has_def Let_def)
  have d: "ebDeadLetters ?b = []" by (simp add: eb_subscribe_def new_event_bus_def Let_def)
  have "ids_unique ?b ''token.created''" unfolding ids_unique_def h by simp
  from publish_isolates_failures [OF p this]
  have "map dlSubscription (ebDeadLetters b') = [''s1'']" unfolding h d by simp
  with p show ?thesis by (intro exI [of _ e] exI [of _ b'] conjI)
qed

text \<open>A one-time subscription is used up by its first event: after a publication of type t exactly the
  one-time subscriptions of t and of the wildcard are gone, and every other subscription is left.\<close>

theorem once_subscriptions_consumed:
  assumes "eb_publish isProd validate run now eid t payload opts b = Inr (e, b')" and "ids_unique b t"
    and "t \<noteq> ''*''"
  shows "handlers_for b' u = (if u = t \<or> u = ''*'' then filter (\<lambda>(s, h). \<exists>n. h = Plain n) (handlers_for b u)
     else handlers_for b u)"
proof -
  have hs: "handlers_for (eb_recordHistory e (b\<lparr>ebSequence := n\<rparr>)) u = handlers_for b u" for n
    by (simp add: handlers_for_def)
  have mem: "(\<exists>n. (s, (u, Wrapped_once n)) \<in> set (merged_handlers b t)) \<longleftrightarrow>
      (u = t \<or> u = ''*'') \<and> (\<exists>n. (s, Wrapped_once n) \<in> set (handlers_for b u))" for s
    unfolding merged_handlers_unique [OF assms(2)] set_append Un_iff in_tagged by blast
  have b': "handlers_for b' u = filter (\<lambda>(s, h). \<not> ((u = t \<or> u = ''*'')
      \<and> (\<exists>n. (s, Wrapped_once n) \<in> set (handlers_for b u)))) (handlers_for b u)"
    by (simp only: publish_unfold(4) [OF assms(1)] dispatch_handlers hs mem)
  show ?thesis
  proof (cases "u = t \<or> u = ''*''")
    case True
    then have d: "distinct (map fst (handlers_for b u))"
      using assms(2) by (auto simp: ids_unique_def)
    have K: "(\<exists>n. (s, Wrapped_once n) \<in> set (handlers_for b u)) \<longleftrightarrow> \<not> (\<exists>n. h = Plain n)"
      if mem: "(s, h) \<in> set (handlers_for b u)" for s h
    proof -
      have "(\<exists>n. (s, Wrapped_once n) \<in> set (handlers_for b u)) \<longrightarrow> (\<exists>n. h = Wrapped_once n)"
        using eq_key_imp_eq_value [OF d mem] by blast
      then show ?thesis using mem by (cases h) auto
    qed
    have "filter (\<lambda>(s, h). \<not> ((u = t \<or> u = ''*'') \<and> (\<exists>n. (s, Wrapped_once n) \<in> set (handlers_for b u))))
        (handlers_for b u) = filter (\<lambda>(s, h). \<exists>n. h = Plain n) (handlers_for b u)"
    proof (rule filter_cong [OF refl])
      fix x assume "x \<in> set (handlers_for b u)"
      with K [of "fst x" "snd x"] True
      show "(case x of (s, h) \<Rightarrow> \<not> ((u = t \<or> u = ''*'') \<and> (\<exists>n. (s, Wrapped_once n) \<in> set (handlers_for b u))))
          = (case x of (s, h) \<Rightarrow> \<exists>n. h = Plain n)"
        by (cases x) (simp only: prod.case fst_conv snd_conv simp_thms)
    qed
    with True show ?thesis by (simp only: b' if_True)
  next
    case False
    then show ?thesis unfolding b' by simp
  qed
qed

definition once_bus :: event_bus where
  "once_bus = eb_once ''s1'' ''token.created'' 1 (new_event_bus None)"

lemma once_bus_handlers:
  "handlers_for once_bus ''token.created'' = [(''s1'', Wrapped_once 1)]" "handlers_for once_bus ''*'' = []"
  by (simp_all add: once_bus_def eb_once_def eb_subscribe_def handlers_for_def new_event_bus_def jm_set_def jm_has_def Let_def)

theorem once_subscriptions_consumed_witness:
  "case eb_publish True (\<lambda>_ _. None :: unit option) (\<lambda>_ _. None) 7 ''e1'' ''token.created''
     JNull \<lparr>poCorrelationId = None, poVersion = None\<rparr> once_bus of
     Inl _ \<Rightarrow> False | Inr (e, b') \<Rightarrow> handlers_for b' ''token.created'' = []"
proof -
  have "ids_unique once_bus ''token.created''" by (simp add: ids_unique_def once_bus_handlers)
  then show ?thesis
    using publish_in_production [of "\<lambda>_ _. None :: unit option" "\<lambda>_ _. None" 7 "''e1''" "''token.created''" JNull
        "\<lparr>poCorrelationId = None, poVersion = None\<rparr>" once_bus]
      once_subscriptions_consumed [of True "\<lambda>_ _. None :: unit option" "\<lambda>_ _. None" 7 "''e1''" "''token.created''" JNull
        "\<lparr>poCorrelationId = None, poVersion = None\<rparr>" once_bus _ _ "''token.created''"]
    by (auto simp: once_bus_handlers)
qed

section \<open>History\<close>

declare upt_Suc [simp del]

datatype eb_op = EbSubscribe string string handler | EbUnsubscribe string string
  | EbPublish bool int string string jsval publish_options | EbReset

fun eb_step :: "(string \<Rightarrow> jsval \<Rightarrow> 'x option) \<Rightarrow> (nat \<Rightarrow> bus_event \<Rightarrow> string option) \<Rightarrow> eb_op \<Rightarrow> event_bus \<Rightarrow> event_bus" where
  "eb_step validate run (EbSubscribe sid t h) b = eb_subscribe sid t h b"
| "eb_step validate run (EbUnsubscribe t sid) b = eb_unsubscribe t sid b"
| "eb_step validate run (EbPublish isProd now eid t payload opts) b =
     (case eb_publish isProd validate run now eid t payload opts b of Inl err \<Rightarrow> b | Inr (e, b1) \<Rightarrow> b1)"
| "eb_step validate run EbReset b = eb_reset b"

definition eb_history_inv :: "event_bus \<Rightarrow> bool" where
  "eb_history_inv b \<longleftrightarrow> length (ebHistory b) \<le> ebSequence b
     \<and> map beSequence (ebHistory b) = [Suc (ebSequence b - length (ebHistory b)) ..< Suc (ebSequence b)]
     \<and> (ebMaxHistory b \<le> 0 \<longrightarrow> length (ebHistory b) = ebSequence b)
     \<and> (0 < ebMaxHistory b \<longrightarrow> length (ebHistory b) = min (nat (ebMaxHistory b)) (ebSequence b))"

lemma recordHistory_inv:
  assumes "eb_history_inv b" and "beSequence e = Suc (ebSequence b)"
  shows "eb_history_inv (eb_recordHistory e (b\<lparr>ebSequence := Suc (ebSequence b)\<rparr>))"
proof -
  let ?n = "length (ebHistory b)"
  have all: "map beSequence (ebHistory b @ [e]) = [Suc (ebSequence b - ?n) ..< Suc (Suc (ebSequence b))]"
    using assms by (simp add: eb_history_inv_def upt_Suc_append)
  show ?thesis
  proof (cases "ebMaxHistory b > 0 \<and> int (?n + 1) > ebMaxHistory b")
    case True
    then have n: "?n = nat (ebMaxHistory b)" using assms(1) by (auto simp: eb_history_inv_def)
    have z: "Suc 0 - nat (ebMaxHistory b) = 0" using True by (simp add: Suc_le_eq)
    have "map beSequence (drop 1 (ebHistory b @ [e])) = drop 1 (map beSequence (ebHistory b @ [e]))"
      by (simp only: drop_map)
    also have "\<dots> = [Suc (Suc (ebSequence b) - ?n) ..< Suc (Suc (ebSequence b))]"
      unfolding all using assms(1) by (simp add: eb_history_inv_def Suc_diff_le)
    finally show ?thesis
      using True n assms(1) by (simp add: z eb_recordHistory_def Let_def slice_last_def eb_history_inv_def)
  next
    case False
    then show ?thesis
      using all assms(1) by (auto simp: eb_recordHistory_def Let_def eb_history_inv_def)
  qed
qed

lemma eb_step_history_inv: "eb_history_inv b \<Longrightarrow> eb_history_inv (eb_step validate run x b)"
proof (cases x)
  case (EbPublish isProd now eid t payload opts)
  assume inv: "eb_history_inv b"
  show ?thesis
  proof (cases "eb_publish isProd validate run now eid t payload opts b")
    case (Inl err)
    with EbPublish inv show ?thesis by simp
  next
    case (Inr p)
    obtain e b1 where p: "p = (e, b1)" by (cases p)
    note u = publish_unfold [OF Inr [unfolded p]]
    have "eb_history_inv (eb_recordHistory e (b\<lparr>ebSequence := Suc (ebSequence b)\<rparr>))"
      using recordHistory_inv [OF inv, of e] u(3) by simp
    then have "eb_history_inv b1"
      unfolding u(4) eb_history_inv_def by simp
    with EbPublish Inr p show ?thesis by simp
  qed
qed (auto simp: eb_history_inv_def eb_subscribe_def eb_unsubscribe_def eb_reset_def Let_def split: option.splits)

text \<open>The history can be used to catch up: after any sequence of operations it holds exactly the last
  events published since the last reset, min(maxHistory, number of publications) of them (all of
  them when maxHistory is not positive), with consecutive sequence numbers ending at the current
  one.\<close>

theorem history_is_last_events:
  "let b = foldl (\<lambda>b x. eb_step validate run x b) (new_event_bus mx) ops
   in map beSequence (ebHistory b) = [Suc (ebSequence b - length (ebHistory b)) ..< Suc (ebSequence b)]
    \<and> length (ebHistory b) = (if ebMaxHistory b > 0 then min (nat (ebMaxHistory b)) (ebSequence b) else ebSequence b)"
proof -
  have "eb_history_inv (foldl (\<lambda>b x. eb_step validate run x b) b0 ops)" if "eb_history_inv b0" for b0
    using that by (induction ops arbitrary: b0) (auto simp: eb_step_history_inv)
  from this [of "new_event_bus mx"]
  have "eb_history_inv (foldl (\<lambda>b x. eb_step validate run x b) (new_event_bus mx) ops)"
    by (simp add: new_event_bus_def eb_history_inv_def)
  then show ?thesis unfolding eb_history_inv_def Let_def by (meson not_less)
qed

end
