(* ===== verification/Decoder_Registry.thy ===== *)
theory Decoder_Registry
  imports JS_Value
begin

text \<open>
  \<open>backend/src/services/eventVersioning/decoderRegistry.ts\<close>: the normalisation of raw Stellar contract
  events. Every topic alias of every contract version maps to a kind, every kind to a decoder that
  coerces the dynamically typed fields.

  The close time of a ledger stays the string it is parsed from. A look-up in a plain object also
  finds the members it inherits from \<open>Object.prototype\<close>, which none of the registry's own keys has
  the name of.
\<close>

record raw_event =
  rawLedger :: int
  rawCloseTime :: string
  rawContractId :: string
  rawTopic :: "string list"
  rawValue :: jsval
  rawTxHash :: string

record event_base =
  ebTxHash :: string
  ebLedger :: int
  ebTimestamp :: string
  ebContractId :: string

datatype normalized =
    ProposalCreated int string jsval jsval jsval int int int string string jsval
  | VoteCast int jsval bool string jsval
  | ProposalQueued int string
  | ProposalExecuted int jsval bool jsval "string option"
  | ProposalCancelled int jsval jsval
  | ProposalStatusChanged int string string
  | ProposalStateSnapshot int string string string string int
  | VaultCreated int jsval jsval string bool
  | VaultClaimed int jsval string
  | VaultCancelled int jsval string
  | VaultMetadataUpdated int jsval bool
  | CampaignCreated int jsval jsval jsval string int "int option" jsval
  | CampaignExecuted int jsval string jsval
  | CampaignStatusChanged int jsval
  | TokenCreated string jsval jsval jsval int string
  | TokenBurned string jsval string jsval
  | TokenAdminBurned string jsval string jsval
  | TokenMetadataUpdated string jsval jsval
  | UnknownEvent string

type_synonym normalized_event = "event_base \<times> normalized"

fun kind_of :: "normalized \<Rightarrow> string" where
  "kind_of (ProposalCreated _ _ _ _ _ _ _ _ _ _ _) = ''proposal_created''"
| "kind_of (VoteCast _ _ _ _ _) = ''vote_cast''"
| "kind_of (ProposalQueued _ _) = ''proposal_queued''"
| "kind_of (ProposalExecuted _ _ _ _ _) = ''proposal_executed''"
| "kind_of (ProposalCancelled _ _ _) = ''proposal_cancelled''"
| "kind_of (ProposalStatusChanged _ _ _) = ''proposal_status_changed''"
| "kind_of (ProposalStateSnapshot _ _ _ _ _ _) = ''proposal_state_snapshot''"
| "kind_of (VaultCreated _ _ _ _ _) = ''vault_created''"
| "kind_of (VaultClaimed _ _ _) = ''vault_claimed''"
| "kind_of (VaultCancelled _ _ _) = ''vault_cancelled''"
| "kind_of (VaultMetadataUpdated _ _ _) = ''vault_metadata_updated''"
| "kind_of (CampaignCreated _ _ _ _ _ _ _ _) = ''campaign_created''"
| "kind_of (CampaignExecuted _ _ _ _) = ''campaign_executed''"
| "kind_of (CampaignStatusChanged _ _) = ''campaign_status_changed''"
| "kind_of (TokenCreated _ _ _ _ _ _) = ''token_created''"
| "kind_of (TokenBurned _ _ _ _) = ''token_burned''"
| "kind_of (TokenAdminBurned _ _ _ _) = ''token_admin_burned''"
| "kind_of (TokenMetadataUpdated _ _ _) = ''token_metadata_updated''"
| "kind_of (UnknownEvent _) = ''unknown''"

definition TOPIC_KIND :: "(string \<times> string) list" where
  "TOPIC_KIND =
    [(''prop_cr_v1'', ''proposal_created''), (''prop_cr'', ''proposal_created''), (''prop_create'', ''proposal_created''),
     (''vote_cs_v1'', ''vote_cast''), (''vote_cs'', ''vote_cast''), (''vote_cast'', ''vote_cast''),
     (''prop_qu_v1'', ''proposal_queued''), (''prop_qu'', ''proposal_queued''),
     (''prop_ex_v1'', ''proposal_executed''), (''prop_ex'', ''proposal_executed''), (''prop_exec'', ''proposal_executed''),
     (''prop_ca_v1'', ''proposal_cancelled''), (''prop_ca'', ''proposal_cancelled''), (''prop_cancel'', ''proposal_cancelled''),
     (''prop_st_v1'', ''proposal_status_changed''), (''prop_status'', ''proposal_status_changed''),
     (''prop_snap'', ''proposal_state_snapshot''),
     (''vlt_cr_v1'', ''vault_created''), (''vlt_cl_v1'', ''vault_claimed''),
     (''vlt_cn_v1'', ''vault_cancelled''), (''vlt_md_v1'', ''vault_metadata_updated''),
     (''camp_cr_v1'', ''campaign_created''), (''camp_cr'', ''campaign_created''),
     (''camp_ex_v1'', ''campaign_executed''), (''camp_ex'', ''campaign_executed''),
     (''camp_st_v1'', ''campaign_status_changed''), (''camp_st'', ''campaign_status_changed''),
     (''tok_reg'', ''token_created''), (''tok_burn'', ''token_burned''),
     (''adm_burn'', ''token_admin_burned''), (''tok_meta'', ''token_metadata_updated'')]"

definition OBJECT_PROTOTYPE :: "string list" where
  "OBJECT_PROTOTYPE = [''constructor'', ''__defineGetter__'', ''__defineSetter__'', ''hasOwnProperty'',
     ''__lookupGetter__'', ''__lookupSetter__'', ''isPrototypeOf'', ''propertyIsEnumerable'', ''toString'',
     ''valueOf'', ''__proto__'', ''toLocaleString'']"

section \<open>Coercions\<close>

definition base :: "raw_event \<Rightarrow> event_base" where
  "base raw = \<lparr>ebTxHash = rawTxHash raw, ebLedger = rawLedger raw, ebTimestamp = rawCloseTime raw,
     ebContractId = rawContractId raw\<rparr>"

definition str :: "jsval \<Rightarrow> string" where
  "str v = (if js_nullish v then ''0'' else js_to_string v)"

definition num :: "jsval \<Rightarrow> int" where
  "num v = (case v of JNum n \<Rightarrow> n | _ \<Rightarrow> (case parse_int10 (js_to_string v) of Some n \<Rightarrow> n | None \<Rightarrow> 0))"

definition bool_of :: "jsval \<Rightarrow> bool" where
  "bool_of v \<longleftrightarrow> v = JBool True \<or> v = JNum 1"

definition dateFromSec :: "jsval \<Rightarrow> int" where
  "dateFromSec v = num v * 1000"

text \<open>\<open>raw.value?.f\<close>, \<open>raw.value?.f ?? ''\<close>, \<open>raw.topic[1]\<close> and \<open>raw.topic[1] ?? ''\<close>.\<close>

definition fld :: "raw_event \<Rightarrow> string \<Rightarrow> jsval" where
  "fld raw f = js_prop (rawValue raw) f"

definition fld_or :: "raw_event \<Rightarrow> string \<Rightarrow> string \<Rightarrow> jsval" where
  "fld_or raw f d = js_coalesce (fld raw f) (JStr d)"

definition topic1 :: "raw_event \<Rightarrow> jsval" where
  "topic1 raw = (case rawTopic raw of _ # t # _ \<Rightarrow> JStr t | _ \<Rightarrow> JUndef)"

definition topic1_str :: "raw_event \<Rightarrow> string" where
  "topic1_str raw = (case rawTopic raw of _ # t # _ \<Rightarrow> t | _ \<Rightarrow> [])"

definition str_or :: "jsval \<Rightarrow> string \<Rightarrow> string" where
  "str_or v d = (if js_nullish v then d else js_to_string v)"

section \<open>Decoders\<close>

definition decode_proposal_created where
  "decode_proposal_created raw = ProposalCreated (num (fld raw ''proposal_id'')) (topic1_str raw)
     (fld_or raw ''proposer'' []) (fld_or raw ''title'' ''Untitled'') (fld raw ''description'')
     (num (fld raw ''proposal_type'')) (dateFromSec (fld raw ''start_time'')) (dateFromSec (fld raw ''end_time''))
     (str (fld raw ''quorum'')) (str (fld raw ''threshold'')) (fld raw ''metadata'')"

definition decode_vote_cast where
  "decode_vote_cast raw = VoteCast (num (fld raw ''proposal_id'')) (fld_or raw ''voter'' [])
     (bool_of (fld raw ''support'')) (str (fld raw ''weight'')) (fld raw ''reason'')"

definition decode_proposal_queued where
  "decode_proposal_queued raw = ProposalQueued (num (js_coalesce (fld raw ''proposal_id'') (topic1 raw)))
     (str_or (fld raw ''old_status'') ''passed'')"

definition decode_proposal_executed where
  "decode_proposal_executed raw = ProposalExecuted (num (fld raw ''proposal_id'')) (fld_or raw ''executor'' [])
     (bool_of (js_coalesce (fld raw ''success'') (JBool True))) (fld raw ''return_data'')
     (if js_nullish (fld raw ''gas_used'') then None else Some (str (fld raw ''gas_used'')))"

definition decode_proposal_cancelled where
  "decode_proposal_cancelled raw = ProposalCancelled (num (fld raw ''proposal_id'')) (fld_or raw ''canceller'' [])
     (fld raw ''reason'')"

definition decode_proposal_status_changed where
  "decode_proposal_status_changed raw = ProposalStatusChanged (num (fld raw ''proposal_id''))
     (str (fld raw ''old_status'')) (str (fld raw ''new_status''))"

definition decode_proposal_state_snapshot where
  "decode_proposal_state_snapshot raw = ProposalStateSnapshot
     (num (js_coalesce (fld raw ''proposal_id'') (topic1 raw))) (str_or (fld raw ''status'') ''active'')
     (str (fld raw ''yes_votes'')) (str (fld raw ''no_votes'')) (str (fld raw ''quorum_required''))
     (num (js_coalesce (fld raw ''ledger'') (JNum (rawLedger raw))))"

definition decode_vault_created where
  "decode_vault_created raw = VaultCreated (num (js_coalesce (fld raw ''stream_id'') (topic1 raw)))
     (fld_or raw ''creator'' []) (fld_or raw ''recipient'' []) (str (fld raw ''amount'')) (bool_of (fld raw ''has_metadata''))"

definition decode_vault_claimed where
  "decode_vault_claimed raw = VaultClaimed (num (js_coalesce (fld raw ''stream_id'') (topic1 raw)))
     (fld_or raw ''recipient'' []) (str (fld raw ''amount''))"

definition decode_vault_cancelled where
  "decode_vault_cancelled raw = VaultCancelled (num (js_coalesce (fld raw ''stream_id'') (topic1 raw)))
     (fld_or raw ''canceller'' []) (str (fld raw ''remaining_amount''))"

definition decode_vault_metadata_updated where
  "decode_vault_metadata_updated raw = VaultMetadataUpdated (num (js_coalesce (fld raw ''stream_id'') (topic1 raw)))
     (fld_or raw ''updater'' []) (bool_of (fld raw ''has_metadata''))"

definition decode_campaign_created where
  "decode_campaign_created raw = CampaignCreated (num (fld raw ''campaign_id''))
     (js_coalesce (js_coalesce (fld raw ''token_id'') (topic1 raw)) (JStr [])) (fld_or raw ''creator'' [])
     (fld_or raw ''campaign_type'' ''BUYBACK'') (str (fld raw ''target_amount'')) (dateFromSec (fld raw ''start_time''))
     (if js_truthy (fld raw ''end_time'') then Some (dateFromSec (fld raw ''end_time'')) else None) (fld raw ''metadata'')"

definition decode_campaign_executed where
  "decode_campaign_executed raw = CampaignExecuted (num (fld raw ''campaign_id'')) (fld_or raw ''executor'' [])
     (str (fld raw ''amount'')) (fld raw ''recipient'')"

definition decode_campaign_status_changed where
  "decode_campaign_status_changed raw = CampaignStatusChanged (num (fld raw ''campaign_id'')) (fld_or raw ''status'' [])"

definition decode_token_created where
  "decode_token_created raw = TokenCreated (topic1_str raw) (fld_or raw ''creator'' []) (fld_or raw ''name'' [])
     (fld_or raw ''symbol'' []) (num (js_coalesce (fld raw ''decimals'') (JNum 7))) (str (fld raw ''initial_supply''))"

definition decode_token_burned where
  "decode_token_burned raw = TokenBurned (topic1_str raw) (fld_or raw ''from'' []) (str (fld raw ''amount''))
     (js_coalesce (js_coalesce (fld raw ''burner'') (fld raw ''from'')) (JStr []))"

definition decode_token_admin_burned where
  "decode_token_admin_burned raw = TokenAdminBurned (topic1_str raw) (fld_or raw ''from'' []) (str (fld raw ''amount''))
     (fld_or raw ''admin'' [])"

definition decode_token_metadata_updated where
  "decode_token_metadata_updated raw = TokenMetadataUpdated (topic1_str raw) (fld_or raw ''metadata_uri'' [])
     (fld_or raw ''updated_by'' [])"

definition DECODERS :: "(string \<times> (raw_event \<Rightarrow> normalized)) list" where
  "DECODERS =
    [(''proposal_created'', decode_proposal_created), (''vote_cast'', decode_vote_cast),
     (''proposal_queued'', decode_proposal_queued), (''proposal_executed'', decode_proposal_executed),
     (''proposal_cancelled'', decode_proposal_cancelled),
     (''proposal_status_changed'', decode_proposal_status_changed),
     (''proposal_state_snapshot'', decode_proposal_state_snapshot),
     (''vault_created'', decode_vault_created), (''vault_claimed'', decode_vault_claimed),
     (''vault_cancelled'', decode_vault_cancelled), (''vault_metadata_updated'', decode_vault_metadata_updated),
     (''campaign_created'', decode_campaign_created), (''campaign_executed'', decode_campaign_executed),
     (''campaign_status_changed'', decode_campaign_status_changed),
     (''token_created'', decode_token_created), (''token_burned'', decode_token_burned),
     (''token_admin_burned'', decode_token_admin_burned), (''token_metadata_updated'', decode_token_metadata_updated)]"

definition topic0_of :: "raw_event \<Rightarrow> string" where
  "topic0_of raw = (case rawTopic raw of t # _ \<Rightarrow> t | [] \<Rightarrow> [])"

text \<open>An inherited member is truthy, but no decoder is registered under its text.\<close>

definition decodeEvent :: "raw_event \<Rightarrow> normalized_event" where
  "decodeEvent raw =
     (case map_of TOPIC_KIND (topic0_of raw) of
        None \<Rightarrow> (base raw, UnknownEvent (topic0_of raw))
      | Some kind \<Rightarrow>
          (case map_of DECODERS kind of
             None \<Rightarrow> (base raw, UnknownEvent (topic0_of raw))
           | Some decoder \<Rightarrow> (base raw, decoder raw)))"

definition isKnownTopic :: "string \<Rightarrow> bool" where
  "isKnownTopic t \<longleftrightarrow> t \<in> set (map fst TOPIC_KIND) \<or> t \<in> set OBJECT_PROTOTYPE"

datatype kind_result = Kind string | Inherited string | NoKind

definition kindForTopic :: "string \<Rightarrow> kind_result" where
  "kindForTopic t =
     (case map_of TOPIC_KIND t of
        Some k \<Rightarrow> Kind k
      | None \<Rightarrow> if t \<in> set OBJECT_PROTOTYPE then Inherited t else NoKind)"

section \<open>Properties\<close>

lemma decoders_complete:
  "list_all (\<lambda>(t, k). map_of TOPIC_KIND t = Some k \<and> map_of DECODERS k \<noteq> None) TOPIC_KIND"
  by (simp add: TOPIC_KIND_def DECODERS_def)

lemma decoders_kind:
  "list_all (\<lambda>(k, d). \<forall>raw. kind_of (d raw) = k) DECODERS"
  by (simp add: DECODERS_def decode_proposal_created_def decode_vote_cast_def decode_proposal_queued_def
      decode_proposal_executed_def decode_proposal_cancelled_def decode_proposal_status_changed_def
      decode_proposal_state_snapshot_def decode_vault_created_def decode_vault_claimed_def decode_vault_cancelled_def
      decode_vault_metadata_updated_def decode_campaign_created_def decode_campaign_executed_def
      decode_campaign_status_changed_def decode_token_created_def decode_token_burned_def
      decode_token_admin_burned_def decode_token_metadata_updated_def)

text \<open>Every registered topic is decoded, to an event of exactly the kind the registry maps it to,
  carrying the transaction, ledger and contract of the raw event; every other topic, and an event
  without topics, gives an \<open>unknown\<close> event naming its topic.\<close>

theorem decode_follows_registry:
  "fst (decodeEvent raw) = base raw \<and>
   (case map_of TOPIC_KIND (topic0_of raw) of
      Some k \<Rightarrow> kind_of (snd (decodeEvent raw)) = k \<and> k \<noteq> ''unknown''
    | None \<Rightarrow> snd (decodeEvent raw) = UnknownEvent (topic0_of raw))"
proof (cases "map_of TOPIC_KIND (topic0_of raw)")
  case None
  then show ?thesis by (simp add: decodeEvent_def)
next
  case (Some k)
  then have "map_of DECODERS k \<noteq> None"
    using decoders_complete map_of_SomeD [OF Some] by (auto simp: list_all_iff)
  then obtain d where d: "map_of DECODERS k = Some d" by auto
  have "kind_of (d raw) = k" using decoders_kind map_of_SomeD [OF d] by (auto simp: list_all_iff)
  moreover have "k \<noteq> ''unknown''" using d by (auto simp: DECODERS_def)
  ultimately show ?thesis using Some d by (simp add: decodeEvent_def)
qed

text \<open>Contract versions are interchangeable: an event decodes to the same normalised event under every
  topic alias of its kind, so a consumer cannot tell which contract version emitted it.\<close>

theorem aliases_decode_equally:
  assumes "map_of TOPIC_KIND t1 = Some k" and "map_of TOPIC_KIND t2 = Some k"
  shows "decodeEvent (raw\<lparr>rawTopic := t1 # ts\<rparr>) = decodeEvent (raw\<lparr>rawTopic := t2 # ts\<rparr>)"
proof -
  have f: "fld (raw\<lparr>rawTopic := t1 # ts\<rparr>) = fld (raw\<lparr>rawTopic := t2 # ts\<rparr>)"
    "fld_or (raw\<lparr>rawTopic := t1 # ts\<rparr>) = fld_or (raw\<lparr>rawTopic := t2 # ts\<rparr>)"
    "topic1 (raw\<lparr>rawTopic := t1 # ts\<rparr>) = topic1 (raw\<lparr>rawTopic := t2 # ts\<rparr>)"
    "topic1_str (raw\<lparr>rawTopic := t1 # ts\<rparr>) = topic1_str (raw\<lparr>rawTopic := t2 # ts\<rparr>)"
    "base (raw\<lparr>rawTopic := t1 # ts\<rparr>) = base (raw\<lparr>rawTopic := t2 # ts\<rparr>)"
    by (auto simp: fld_def fld_or_def topic1_def topic1_str_def base_def fun_eq_iff split: list.splits)
  have "list_all (\<lambda>(k, d). d (raw\<lparr>rawTopic := t1 # ts\<rparr>) = d (raw\<lparr>rawTopic := t2 # ts\<rparr>)) DECODERS"
    by (simp add: DECODERS_def decode_proposal_created_def decode_vote_cast_def decode_proposal_queued_def
      decode_proposal_executed_def decode_proposal_cancelled_def decode_proposal_status_changed_def
      decode_proposal_state_snapshot_def decode_vault_created_def decode_vault_claimed_def decode_vault_cancelled_def
      decode_vault_metadata_updated_def decode_campaign_created_def decode_campaign_executed_def
      decode_campaign_status_changed_def decode_token_created_def decode_token_burned_def
      decode_token_admin_burned_def decode_token_metadata_updated_def f)
  moreover obtain d where d: "map_of DECODERS k = Some d"
    using decoders_complete map_of_SomeD [OF assms(1)] by (auto simp: list_all_iff)
  ultimately have "d (raw\<lparr>rawTopic := t1 # ts\<rparr>) = d (raw\<lparr>rawTopic := t2 # ts\<rparr>)"
    using map_of_SomeD [OF d] by (auto simp: list_all_iff)
  then show ?thesis using assms d f(5) by (simp add: decodeEvent_def topic0_of_def)
qed

theorem aliases_decode_equally_witness:
  "decodeEvent \<lparr>rawLedger = 5, rawCloseTime = [], rawContractId = ''C'', rawTopic = [''vote_cs_v1''],
     rawValue = JObj [(''proposal_id'', JStr ''12''), (''support'', JNum 1)], rawTxHash = ''h''\<rparr> =
   decodeEvent \<lparr>rawLedger = 5, rawCloseTime = [], rawContractId = ''C'', rawTopic = [''vote_cast''],
     rawValue = JObj [(''proposal_id'', JStr ''12''), (''support'', JNum 1)], rawTxHash = ''h''\<rparr>"
  using aliases_decode_equally [of "''vote_cs_v1''" "''vote_cast''" "''vote_cast''", where ts = "[]" and raw =
    "\<lparr>rawLedger = 5, rawCloseTime = [], rawContractId = ''C'', rawTopic = [],
     rawValue = JObj [(''proposal_id'', JStr ''12''), (''support'', JNum 1)], rawTxHash = ''h''\<rparr>"]
  by (simp add: TOPIC_KIND_def)

text \<open>The registry claims to know topics that it does not decode: the inherited object members.\<close>

lemma inherited_topic_known_but_unknown:
  "isKnownTopic ''constructor''" "kindForTopic ''constructor'' = Inherited ''constructor''"
  "topic0_of raw = ''constructor'' \<Longrightarrow> snd (decodeEvent raw) = UnknownEvent ''constructor''"
  by (simp_all add: isKnownTopic_def kindForTopic_def OBJECT_PROTOTYPE_def TOPIC_KIND_def decodeEvent_def)

end
