(* ===== verification/Event_Sourcing.thy ===== *)
theory Event_Sourcing
  imports JS_Value
begin

text \<open>
  \<open>backend/src/services/eventSourcing.ts\<close>: the event store interface with its in-memory
  implementation, and \<open>EventSourcingService\<close> (versions, audit trail, snapshots, state rebuilding).

  The service uses a store only through the operations of its interface, the record \<open>store_ops\<close>.
  The locale \<open>event_store\<close> states what an implementation promises; the client lemmas (versions are
  consecutive, rebuilding from a snapshot equals replaying the whole history) are proved there and
  interpreted on the in-memory store. Event handlers cannot fail the publication; they are left out.
\<close>

section \<open>Data\<close>

record domain_event =
  deId :: string
  deAggregateId :: string
  deType :: string
  deTimestamp :: int
  deVersion :: int
  deData :: jsval
  deMetadata :: jsval

record 'st snapshot =
  snapAggregateId :: string
  snapVersion :: int
  snapState :: 'st
  snapTimestamp :: int

record audit_trail =
  atEventId :: string
  atAggregateId :: string
  atEventType :: string
  atTimestamp :: int
  atActor :: jsval
  atChanges :: jsval

definition FEE_PARAMETER_CHANGED_EVENT_TYPE :: string where
  "FEE_PARAMETER_CHANGED_EVENT_TYPE = ''FeeParameterChanged''"

definition FEE_PARAMETER_CHANGED_SCHEMA_VERSION :: int where
  "FEE_PARAMETER_CHANGED_SCHEMA_VERSION = 2"

definition buildFeeParameterChangedPayload :: "jsval \<Rightarrow> jsval \<Rightarrow> jsval \<Rightarrow> jsval" where
  "buildFeeParameterChangedPayload parameter previousValue newValue =
     JObj [(''schemaVersion'', JNum FEE_PARAMETER_CHANGED_SCHEMA_VERSION), (''parameter'', parameter),
           (''previousValue'', previousValue), (''newValue'', newValue), (''value'', newValue)]"

text \<open>\<open>v >= n\<close> converts its operand to a number; a comparison with \<open>NaN\<close> is false.\<close>

definition js_number :: "jsval \<Rightarrow> int option" where
  "js_number v = (case v of
       JNum n \<Rightarrow> Some n
     | JBool b \<Rightarrow> Some (if b then 1 else 0)
     | JStr s \<Rightarrow> if s = [] then Some 0 else if list_all is_digit s then Some (int (digits_val s)) else None
     | _ \<Rightarrow> None)"

definition parseFeeParameterChangedPayload :: "jsval \<Rightarrow> jsval" where
  "parseFeeParameterChangedPayload data =
     (let schemaVersion = js_coalesce (js_prop data ''schemaVersion'') (JNum 1);
          v2 = (case js_number schemaVersion of Some n \<Rightarrow> n \<ge> FEE_PARAMETER_CHANGED_SCHEMA_VERSION | None \<Rightarrow> False);
          newValue = (if v2 \<and> js_prop data ''newValue'' \<noteq> JUndef then js_prop data ''newValue'' else js_prop data ''value'')
      in JObj [(''schemaVersion'', JNum FEE_PARAMETER_CHANGED_SCHEMA_VERSION), (''parameter'', js_prop data ''parameter''),
               (''previousValue'', if v2 then js_prop data ''previousValue'' else JUndef),
               (''newValue'', newValue), (''value'', newValue)])"

section \<open>The in-memory store\<close>

record 'st memory_store =
  msEvents :: "(string, domain_event list) jsmap"
  msAllEvents :: "domain_event list"
  msSnapshots :: "(string, 'st snapshot list) jsmap"

definition new_memory_store :: "'st memory_store" where
  "new_memory_store = \<lparr>msEvents = [], msAllEvents = [], msSnapshots = []\<rparr>"

definition list_at :: "('k, 'a list) jsmap \<Rightarrow> 'k \<Rightarrow> 'a list" where
  "list_at m k = (case jm_get m k of Some xs \<Rightarrow> xs | None \<Rightarrow> [])"

definition ms_append :: "domain_event \<Rightarrow> 'st memory_store \<Rightarrow> 'st memory_store" where
  "ms_append e s =
     (let s1 = (if jm_has (msEvents s) (deAggregateId e) then s
                else s\<lparr>msEvents := jm_set (msEvents s) (deAggregateId e) []\<rparr>)
      in s1\<lparr>msEvents := jm_set (msEvents s1) (deAggregateId e) (list_at (msEvents s1) (deAggregateId e) @ [e]),
            msAllEvents := msAllEvents s1 @ [e]\<rparr>)"

definition ms_getEvents :: "string \<Rightarrow> int option \<Rightarrow> 'st memory_store \<Rightarrow> domain_event list" where
  "ms_getEvents a fromVersion s =
     (let events = list_at (msEvents s) a
      in case fromVersion of
           None \<Rightarrow> events
         | Some v \<Rightarrow> if v = 0 then events else filter (\<lambda>e. deVersion e \<ge> v) events)"

definition ms_getAllEvents :: "int option \<Rightarrow> 'st memory_store \<Rightarrow> domain_event list" where
  "ms_getAllEvents fromTimestamp s =
     (case fromTimestamp of
        None \<Rightarrow> msAllEvents s
      | Some t \<Rightarrow> if t = 0 then msAllEvents s else filter (\<lambda>e. deTimestamp e \<ge> t) (msAllEvents s))"

definition ms_saveSnapshot :: "'st snapshot \<Rightarrow> 'st memory_store \<Rightarrow> 'st memory_store" where
  "ms_saveSnapshot x s =
     (let s1 = (if jm_has (msSnapshots s) (snapAggregateId x) then s
                else s\<lparr>msSnapshots := jm_set (msSnapshots s) (snapAggregateId x) []\<rparr>)
      in s1\<lparr>msSnapshots := jm_set (msSnapshots s1) (snapAggregateId x)
                (list_at (msSnapshots s1) (snapAggregateId x) @ [x])\<rparr>)"

definition ms_getLatestSnapshot :: "string \<Rightarrow> 'st memory_store \<Rightarrow> 'st snapshot option" where
  "ms_getLatestSnapshot a s =
     (let snapshots = list_at (msSnapshots s) a
      in if length snapshots = 0 then None else Some (snapshots ! (length snapshots - 1)))"

section \<open>The service\<close>

record ('s, 'st) store_ops =
  opAppend :: "domain_event \<Rightarrow> 's \<Rightarrow> 's"
  opGetEvents :: "string \<Rightarrow> int option \<Rightarrow> 's \<Rightarrow> domain_event list"
  opSaveSnapshot :: "'st snapshot \<Rightarrow> 's \<Rightarrow> 's"
  opGetLatestSnapshot :: "string \<Rightarrow> 's \<Rightarrow> 'st snapshot option"

definition memory_ops :: "('st memory_store, 'st) store_ops" where
  "memory_ops = \<lparr>opAppend = ms_append, opGetEvents = ms_getEvents, opSaveSnapshot = ms_saveSnapshot,
     opGetLatestSnapshot = ms_getLatestSnapshot\<rparr>"

record 's es_service =
  esStore :: 's
  esAuditTrail :: "audit_trail list"
  esHandlers :: "(string, nat list) jsmap"
  esSnapshotInterval :: int

definition new_es_service :: "'s \<Rightarrow> int \<Rightarrow> 's es_service" where
  "new_es_service store interval = \<lparr>esStore = store, esAuditTrail = [], esHandlers = [], esSnapshotInterval = interval\<rparr>"

definition normalizeAuditChanges :: "domain_event \<Rightarrow> jsval" where
  "normalizeAuditChanges e =
     (if deType e = FEE_PARAMETER_CHANGED_EVENT_TYPE then parseFeeParameterChangedPayload (deData e) else deData e)"

definition recordAuditTrail :: "domain_event \<Rightarrow> 's es_service \<Rightarrow> 's es_service" where
  "recordAuditTrail e v = v\<lparr>esAuditTrail := esAuditTrail v @
     [\<lparr>atEventId = deId e, atAggregateId = deAggregateId e, atEventType = deType e, atTimestamp = deTimestamp e,
       atActor = js_prop (deMetadata e) ''actor'', atChanges = normalizeAuditChanges e\<rparr>]\<rparr>"

definition getNextVersion :: "('s, 'st) store_ops \<Rightarrow> string \<Rightarrow> 's \<Rightarrow> int" where
  "getNextVersion ops a s = int (length (opGetEvents ops a None s)) + 1"

definition rebuildStateFromSnapshot ::
  "('s, 'st) store_ops \<Rightarrow> 'st \<Rightarrow> ('st \<Rightarrow> domain_event \<Rightarrow> 'st) \<Rightarrow> string \<Rightarrow> 's \<Rightarrow> 'st" where
  "rebuildStateFromSnapshot ops initial reducer a s =
     (let snapshot = opGetLatestSnapshot ops a s;
          state = (case snapshot of Some x \<Rightarrow> snapState x | None \<Rightarrow> initial);
          fromVersion = (case snapshot of Some x \<Rightarrow> snapVersion x + 1 | None \<Rightarrow> 1)
      in foldl reducer state (opGetEvents ops a (Some fromVersion) s))"

definition createSnapshot :: "('s, 'st) store_ops \<Rightarrow> int \<Rightarrow> string \<Rightarrow> 'st \<Rightarrow> 's \<Rightarrow> 's" where
  "createSnapshot ops now a state s =
     (let events = opGetEvents ops a None s;
          version = (if length events > 0 then deVersion (events ! (length events - 1)) else 0)
      in opSaveSnapshot ops \<lparr>snapAggregateId = a, snapVersion = version, snapState = state, snapTimestamp = now\<rparr> s)"

record 'st publication =
  pubNow :: int
  pubEventId :: string
  pubAggregateId :: string
  pubType :: string
  pubData :: jsval
  pubMetadata :: jsval
  pubReducer :: "('st \<Rightarrow> domain_event \<Rightarrow> 'st) option"

definition publishEvent ::
  "('s, 'st) store_ops \<Rightarrow> 'st \<Rightarrow> 'st publication \<Rightarrow> 's es_service \<Rightarrow> 's es_service" where
  "publishEvent ops initial p v =
     (let e = \<lparr>deId = pubEventId p, deAggregateId = pubAggregateId p, deType = pubType p, deTimestamp = pubNow p,
               deVersion = getNextVersion ops (pubAggregateId p) (esStore v), deData = pubData p, deMetadata = pubMetadata p\<rparr>;
          v1 = recordAuditTrail e (v\<lparr>esStore := opAppend ops e (esStore v)\<rparr>)
      in if esSnapshotInterval v \<noteq> 0 \<and> deVersion e mod esSnapshotInterval v = 0
         then (case pubReducer p of
                 None \<Rightarrow> v1
               | Some reducer \<Rightarrow>
                   let state = rebuildStateFromSnapshot ops initial reducer (pubAggregateId p) (esStore v1)
                   in v1\<lparr>esStore := createSnapshot ops (pubNow p) (pubAggregateId p) state (esStore v1)\<rparr>)
         else v1)"

definition publishFeeParameterChanged ::
  "('s, 'st) store_ops \<Rightarrow> 'st \<Rightarrow> int \<Rightarrow> string \<Rightarrow> string \<Rightarrow> jsval \<Rightarrow> jsval \<Rightarrow> jsval \<Rightarrow> jsval \<Rightarrow>
   ('st \<Rightarrow> domain_event \<Rightarrow> 'st) option \<Rightarrow> 's es_service \<Rightarrow> 's es_service" where
  "publishFeeParameterChanged ops initial now i a parameter previousValue newValue metadata reducer v =
     publishEvent ops initial \<lparr>pubNow = now, pubEventId = i, pubAggregateId = a,
       pubType = FEE_PARAMETER_CHANGED_EVENT_TYPE,
       pubData = buildFeeParameterChangedPayload parameter previousValue newValue,
       pubMetadata = metadata, pubReducer = reducer\<rparr> v"

definition getAuditTrail :: "string \<Rightarrow> int \<Rightarrow> 's es_service \<Rightarrow> audit_trail list" where
  "getAuditTrail a fromTimestamp v =
     (let trail = (if a \<noteq> [] then filter (\<lambda>t. atAggregateId t = a) (esAuditTrail v) else esAuditTrail v)
      in if fromTimestamp \<noteq> 0 then filter (\<lambda>t. atTimestamp t \<ge> fromTimestamp) trail else trail)"

definition es_subscribe :: "string \<Rightarrow> nat \<Rightarrow> 's es_service \<Rightarrow> 's es_service" where
  "es_subscribe t h v = v\<lparr>esHandlers := jm_set (esHandlers v) t (list_at (esHandlers v) t @ [h])\<rparr>"

text \<open>The handlers called for an event, in order; their exceptions are swallowed.\<close>

definition handleEvent :: "domain_event \<Rightarrow> 's es_service \<Rightarrow> nat list" where
  "handleEvent e v = list_at (esHandlers v) (deType e)"

definition clearAuditTrail :: "'s es_service \<Rightarrow> 's es_service" where
  "clearAuditTrail v = v\<lparr>esAuditTrail := []\<rparr>"

section \<open>The contract of a store, and what the service gains from it\<close>

locale event_store =
  fixes ops :: "('s, 'st) store_ops"
    and history :: "'s \<Rightarrow> string \<Rightarrow> domain_event list"
  assumes get_all: "opGetEvents ops a None s = history s a"
    and get_from: "v \<noteq> 0 \<Longrightarrow> opGetEvents ops a (Some v) s = filter (\<lambda>e. deVersion e \<ge> v) (history s a)"
    and append_history: "history (opAppend ops e s) a = history s a @ (if a = deAggregateId e then [e] else [])"
    and append_snapshot: "opGetLatestSnapshot ops a (opAppend ops e s) = opGetLatestSnapshot ops a s"
    and save_history: "history (opSaveSnapshot ops x s) a = history s a"
    and save_snapshot: "opGetLatestSnapshot ops a (opSaveSnapshot ops x s) =
       (if a = snapAggregateId x then Some x else opGetLatestSnapshot ops a s)"
begin

text \<open>
  The versions of an aggregate are 1, 2, ..., and its latest snapshot is the fold of the reducer over
  the events up to its version.
\<close>

definition consistent :: "'st \<Rightarrow> ('st \<Rightarrow> domain_event \<Rightarrow> 'st) \<Rightarrow> 's \<Rightarrow> string \<Rightarrow> bool" where
  "consistent initial reducer s a \<longleftrightarrow>
     map deVersion (history s a) = map int [1..<Suc (length (history s a))]
     \<and> (case opGetLatestSnapshot ops a s of None \<Rightarrow> True
        | Some x \<Rightarrow> \<exists>n\<le>length (history s a). snapVersion x = int n \<and> snapState x = foldl reducer initial (take n (history s a)))"

lemma filter_versions:
  assumes "map deVersion h = map int [1..<Suc (length h)]"
  shows "filter (\<lambda>e. deVersion e \<ge> int n + 1) h = drop n h"
proof -
  have v: "deVersion (h ! i) = int i + 1" if "i < length h" for i
    using arg_cong [OF assms, of "\<lambda>l. l ! i"] that by (simp add: nth_upt del: upt_Suc)
  have "filter (\<lambda>e. deVersion e \<ge> int n + 1) (take n h) = []"
    using v by (auto simp: filter_empty_conv in_set_conv_nth)
  moreover have "filter (\<lambda>e. deVersion e \<ge> int n + 1) (drop n h) = drop n h"
    using v by (auto simp: filter_id_conv in_set_conv_nth)
  ultimately show ?thesis by (metis append_take_drop_id filter_append append_Nil)
qed

lemma rebuild_replay:
  assumes "consistent initial reducer s a"
  shows "rebuildStateFromSnapshot ops initial reducer a s = foldl reducer initial (history s a)"
proof (cases "opGetLatestSnapshot ops a s")
  case None
  have "filter (\<lambda>e. deVersion e \<ge> int 0 + 1) (history s a) = history s a"
    using assms by (subst filter_versions) (simp_all add: consistent_def)
  with None show ?thesis by (simp add: rebuildStateFromSnapshot_def get_from)
next
  case (Some x)
  then obtain n where n: "n \<le> length (history s a)" "snapVersion x = int n"
    "snapState x = foldl reducer initial (take n (history s a))"
    using assms by (auto simp: consistent_def)
  have "filter (\<lambda>e. deVersion e \<ge> int n + 1) (history s a) = drop n (history s a)"
    using assms by (intro filter_versions) (simp add: consistent_def)
  then have "rebuildStateFromSnapshot ops initial reducer a s =
      foldl reducer (foldl reducer initial (take n (history s a))) (drop n (history s a))"
    using Some n by (simp add: rebuildStateFromSnapshot_def get_from)
  also have "\<dots> = foldl reducer initial (take n (history s a) @ drop n (history s a))"
    by (simp only: foldl_append)
  finally show ?thesis by simp
qed

lemma consistent_append:
  assumes "consistent initial reducer s a" and "deAggregateId e = a" and "deVersion e = int (length (history s a)) + 1"
  shows "consistent initial reducer (opAppend ops e s) a"
  using assms by (auto simp: consistent_def append_history append_snapshot split: option.splits)

lemma consistent_other:
  assumes "consistent initial reducer s a" and "deAggregateId e \<noteq> a"
  shows "consistent initial reducer (opAppend ops e s) a"
  using assms by (auto simp: consistent_def append_history append_snapshot split: option.splits)

lemma consistent_snapshot:
  assumes "consistent initial reducer s b" and "consistent initial reducer s a"
  shows "consistent initial reducer (createSnapshot ops now b (foldl reducer initial (history s b)) s) a"
proof -
  let ?h = "history s b"
  have "(if length ?h > 0 then deVersion (?h ! (length ?h - 1)) else 0) = int (length ?h)"
  proof (cases "length ?h")
    case (Suc n)
    have "deVersion (?h ! n) = map deVersion ?h ! n" using Suc by simp
    also have "\<dots> = int (length ?h)" using assms(1) Suc by (simp add: consistent_def nth_upt del: upt_Suc)
    finally show ?thesis using Suc by simp
  qed simp
  then show ?thesis
    using assms by (auto simp: consistent_def createSnapshot_def Let_def get_all save_history save_snapshot
        simp del: upt_Suc split: option.splits)
qed

lemma publish_consistent:
  assumes "\<forall>a. consistent initial reducer (esStore v) a" and "pubReducer p = None \<or> pubReducer p = Some reducer"
  shows "\<forall>a. consistent initial reducer (esStore (publishEvent ops initial p v)) a"
    and "map (\<lambda>t. (atEventId t, atAggregateId t)) (esAuditTrail (publishEvent ops initial p v))
       = map (\<lambda>t. (atEventId t, atAggregateId t)) (esAuditTrail v) @ [(pubEventId p, pubAggregateId p)]"
    and "map deId (history (esStore (publishEvent ops initial p v)) a)
       = map deId (history (esStore v) a) @ (if a = pubAggregateId p then [pubEventId p] else [])"
proof -
  define e where "e = \<lparr>deId = pubEventId p, deAggregateId = pubAggregateId p, deType = pubType p, deTimestamp = pubNow p,
       deVersion = getNextVersion ops (pubAggregateId p) (esStore v), deData = pubData p, deMetadata = pubMetadata p\<rparr>"
  define s1 where "s1 = opAppend ops e (esStore v)"
  have c1: "\<forall>a. consistent initial reducer s1 a"
  proof
    fix a
    show "consistent initial reducer s1 a"
      using assms(1) consistent_append [of initial reducer "esStore v" a e] consistent_other [of initial reducer "esStore v" a e]
      by (cases "a = deAggregateId e") (auto simp: s1_def e_def getNextVersion_def get_all)
  qed
  have cases: "esStore (publishEvent ops initial p v) = s1 \<or>
      esStore (publishEvent ops initial p v) = createSnapshot ops (pubNow p) (pubAggregateId p)
        (rebuildStateFromSnapshot ops initial reducer (pubAggregateId p) s1) s1"
    using assms(2) by (auto simp: publishEvent_def Let_def recordAuditTrail_def s1_def e_def split: option.splits)
  then show "\<forall>a. consistent initial reducer (esStore (publishEvent ops initial p v)) a"
    using c1 consistent_snapshot rebuild_replay by metis
  have "history (esStore (publishEvent ops initial p v)) a = history s1 a"
    using cases by (auto simp: createSnapshot_def Let_def save_history)
  then show "map deId (history (esStore (publishEvent ops initial p v)) a)
       = map deId (history (esStore v) a) @ (if a = pubAggregateId p then [pubEventId p] else [])"
    by (simp add: s1_def append_history e_def)
  show "map (\<lambda>t. (atEventId t, atAggregateId t)) (esAuditTrail (publishEvent ops initial p v))
       = map (\<lambda>t. (atEventId t, atAggregateId t)) (esAuditTrail v) @ [(pubEventId p, pubAggregateId p)]"
    by (simp add: publishEvent_def Let_def recordAuditTrail_def split: option.splits)
qed

lemma publications_consistent:
  assumes "\<forall>a. consistent initial reducer (esStore v) a"
    and "\<forall>p\<in>set ps. pubReducer p = None \<or> pubReducer p = Some reducer"
  shows "\<forall>a. consistent initial reducer (esStore (foldl (\<lambda>v p. publishEvent ops initial p v) v ps)) a"
    and "map (\<lambda>t. (atEventId t, atAggregateId t)) (esAuditTrail (foldl (\<lambda>v p. publishEvent ops initial p v) v ps))
       = map (\<lambda>t. (atEventId t, atAggregateId t)) (esAuditTrail v) @ map (\<lambda>p. (pubEventId p, pubAggregateId p)) ps"
    and "map deId (history (esStore (foldl (\<lambda>v p. publishEvent ops initial p v) v ps)) a)
       = map deId (history (esStore v) a) @ map pubEventId (filter (\<lambda>p. pubAggregateId p = a) ps)"
proof -
  have "(\<forall>a. consistent initial reducer (esStore (foldl (\<lambda>v p. publishEvent ops initial p v) v ps)) a)
    \<and> map (\<lambda>t. (atEventId t, atAggregateId t)) (esAuditTrail (foldl (\<lambda>v p. publishEvent ops initial p v) v ps))
       = map (\<lambda>t. (atEventId t, atAggregateId t)) (esAuditTrail v) @ map (\<lambda>p. (pubEventId p, pubAggregateId p)) ps
    \<and> map deId (history (esStore (foldl (\<lambda>v p. publishEvent ops initial p v) v ps)) a)
       = map deId (history (esStore v) a) @ map pubEventId (filter (\<lambda>p. pubAggregateId p = a) ps)"
    using assms
  proof (induction ps arbitrary: v)
    case Nil
    then show ?case by simp
  next
    case (Cons p ps)
    have r: "pubReducer p = None \<or> pubReducer p = Some reducer" using Cons.prems(2) by simp
    have rs: "\<forall>p\<in>set ps. pubReducer p = None \<or> pubReducer p = Some reducer" using Cons.prems(2) by simp
    note P = publish_consistent [OF Cons.prems(1) r]
    from Cons.IH [OF P(1) rs] show ?case by (simp add: P(2,3))
  qed
  then show "\<forall>a. consistent initial reducer (esStore (foldl (\<lambda>v p. publishEvent ops initial p v) v ps)) a"
    and "map (\<lambda>t. (atEventId t, atAggregateId t)) (esAuditTrail (foldl (\<lambda>v p. publishEvent ops initial p v) v ps))
       = map (\<lambda>t. (atEventId t, atAggregateId t)) (esAuditTrail v) @ map (\<lambda>p. (pubEventId p, pubAggregateId p)) ps"
    and "map deId (history (esStore (foldl (\<lambda>v p. publishEvent ops initial p v) v ps)) a)
       = map deId (history (esStore v) a) @ map pubEventId (filter (\<lambda>p. pubAggregateId p = a) ps)" by auto
qed

end

lemma list_at_set [simp]: "list_at (jm_set m k xs) k' = (if k' = k then xs else list_at m k')"
  by (simp add: list_at_def)

lemma list_at_Nil [simp]: "list_at [] k = []"
  by (simp add: list_at_def)

lemma list_at_absent: "\<not> jm_has m k \<Longrightarrow> list_at m k = []"
  by (auto simp: list_at_def jm_has_def)

interpretation memory: event_store memory_ops "\<lambda>s a. list_at (msEvents s) a"
  by unfold_locales
    (auto simp: memory_ops_def ms_getEvents_def ms_append_def ms_saveSnapshot_def ms_getLatestSnapshot_def Let_def
      list_at_absent)

section \<open>Properties\<close>

lemma memory_initial_consistent: "memory.consistent initial reducer new_memory_store a"
  unfolding memory.consistent_def
  by (simp add: new_memory_store_def list_at_def memory_ops_def ms_getLatestSnapshot_def)

definition publish_all ::
  "'st \<Rightarrow> 'st publication list \<Rightarrow> int \<Rightarrow> 'st memory_store es_service" where
  "publish_all initial ps interval =
     foldl (\<lambda>v p. publishEvent memory_ops initial p v) (new_es_service new_memory_store interval) ps"

text \<open>C3: Snapshots are transparent: after any sequence of publications, whatever the snapshot interval and
  whichever of them carry the reducer, rebuilding an aggregate from its latest snapshot gives the same
  state as replaying its whole history from the empty state.\<close>

theorem rebuild_equals_replay:
  assumes "\<forall>p\<in>set ps. pubReducer p = None \<or> pubReducer p = Some reducer"
  shows "rebuildStateFromSnapshot memory_ops initial reducer a (esStore (publish_all initial ps interval)) =
    foldl reducer initial (ms_getEvents a None (esStore (publish_all initial ps interval)))"
proof -
  have "\<forall>a. memory.consistent initial reducer (esStore (new_es_service new_memory_store interval)) a"
    by (simp add: new_es_service_def memory_initial_consistent)
  from memory.publications_consistent(1) [OF this assms]
  have "memory.consistent initial reducer (esStore (publish_all initial ps interval)) a"
    by (simp add: publish_all_def)
  from memory.rebuild_replay [OF this] show ?thesis by (simp add: ms_getEvents_def Let_def)
qed

definition count_publication :: "int \<Rightarrow> nat publication" where
  "count_publication t = \<lparr>pubNow = t, pubEventId = ''e'', pubAggregateId = ''a'', pubType = ''T'', pubData = JNull,
     pubMetadata = JUndef, pubReducer = Some (\<lambda>n e. n + 1)\<rparr>"

theorem rebuild_equals_replay_witness:
  "rebuildStateFromSnapshot memory_ops 0 (\<lambda>n e. n + 1) ''a''
     (esStore (publish_all 0 [count_publication 1, count_publication 2, count_publication 3] 2)) =
   foldl (\<lambda>n e. n + 1) 0 (ms_getEvents ''a'' None
     (esStore (publish_all 0 [count_publication 1, count_publication 2, count_publication 3] 2)))"
  by (rule rebuild_equals_replay) (simp add: count_publication_def)

text \<open>The event log is complete and ordered: after any sequence of publications every aggregate's
  history consists of its events in publication order with versions 1, 2, 3, ..., and the audit trail
  has exactly one entry per publication, in order.\<close>

theorem event_log_complete:
  assumes "v = publish_all initial ps interval"
    and "\<forall>p\<in>set ps. pubReducer p = None \<or> pubReducer p = Some reducer"
  shows "map deId (ms_getEvents a None (esStore v)) = map pubEventId (filter (\<lambda>p. pubAggregateId p = a) ps)
    \<and> map deVersion (ms_getEvents a None (esStore v)) = map int [1..<Suc (length (ms_getEvents a None (esStore v)))]
    \<and> map (\<lambda>t. (atEventId t, atAggregateId t)) (getAuditTrail [] 0 v) = map (\<lambda>p. (pubEventId p, pubAggregateId p)) ps"
proof -
  have "\<forall>a. memory.consistent initial reducer (esStore (new_es_service new_memory_store interval)) a"
    by (simp add: new_es_service_def memory_initial_consistent)
  note P = memory.publications_consistent [OF this assms(2)]
  have v: "foldl (\<lambda>v p. publishEvent memory_ops initial p v) (new_es_service new_memory_store interval) ps = v"
    by (simp add: assms(1) publish_all_def)
  from P(1) [unfolded v] P(2) [unfolded v] P(3) [of a, unfolded v] show ?thesis
    by (simp add: memory.consistent_def ms_getEvents_def Let_def getAuditTrail_def new_es_service_def
        new_memory_store_def list_at_Nil del: upt_Suc)
qed

theorem event_log_complete_witness:
  "map deVersion (ms_getEvents ''a'' None (esStore (publish_all 0 [count_publication 1, count_publication 2] 2)))
   = map int [1..<Suc (length (ms_getEvents ''a'' None (esStore (publish_all 0 [count_publication 1, count_publication 2] 2))))]"
  using event_log_complete [OF refl, of "[count_publication 1, count_publication 2]" "\<lambda>n e. n + 1" "''a''" 0 2]
  by (simp add: count_publication_def del: upt_Suc)

text \<open>Fee payloads of both schema versions normalise to one shape: a payload built by the service is
  left as it is, and normalising is idempotent, so an audit entry can be normalised again safely.\<close>

theorem fee_payload_normal_form:
  "parseFeeParameterChangedPayload (parseFeeParameterChangedPayload data) = parseFeeParameterChangedPayload data
   \<and> parseFeeParameterChangedPayload (buildFeeParameterChangedPayload q old new) = buildFeeParameterChangedPayload q old new"
  by (simp add: parseFeeParameterChangedPayload_def buildFeeParameterChangedPayload_def Let_def js_number_def
      FEE_PARAMETER_CHANGED_SCHEMA_VERSION_def)

text \<open>
  The version is read before the append: two publications of one aggregate that both read it before
  either appends get the same version.
\<close>

lemma concurrent_publications_share_version:
  defines "s0 \<equiv> new_memory_store :: nat memory_store"
  shows "getNextVersion memory_ops ''a'' s0 = 1"
    and "deVersion e = getNextVersion memory_ops ''a'' s0 \<Longrightarrow> deVersion f = getNextVersion memory_ops ''a'' s0 \<Longrightarrow>
      deAggregateId e = ''a'' \<Longrightarrow> deAggregateId f = ''a'' \<Longrightarrow>
      map deVersion (ms_getEvents ''a'' None (ms_append f (ms_append e s0))) = [1, 1]"
  by (simp_all add: s0_def getNextVersion_def memory_ops_def ms_getEvents_def ms_append_def new_memory_store_def
      list_at_def Let_def jm_has_def)

end
