(* ===== verification/Pagination.thy ===== *)
theory Pagination
  imports Prelude "HOL-Library.List_Lexorder" "HOL-Library.Product_Lexorder"
begin

text \<open>
  Cursor pagination: \<open>backend/src/lib/pagination.ts\<close> (REST) and \<open>backend/src/graphql/connection.ts\<close>
  (Relay connections), with the base64 text of their cursors.

  The locale \<open>pager\<close> is what a client that follows \<open>nextCursor\<close> relies on; that such a client sees
  every item exactly once is proved there and interpreted on \<open>CursorPagination.paginate\<close> and
  \<open>paginateByCreatedAt\<close>, and used for connections. Strings are ASCII; time stamps are numbers, and the
  composite \<open>createdAt\<close> cursor is the pair its JSON text stands for.
\<close>

section \<open>Following cursors\<close>

fun traverse :: "('c option \<Rightarrow> 'a list \<times> 'c option) \<Rightarrow> nat \<Rightarrow> 'c option \<Rightarrow> 'a list option" where
  "traverse fetch 0 c = None"
| "traverse fetch (Suc fuel) c =
     (case fetch c of
        (page, None) \<Rightarrow> Some page
      | (page, Some c') \<Rightarrow> map_option (\<lambda>rest. page @ rest) (traverse fetch fuel (Some c')))"

locale pager =
  fixes fetch :: "'c option \<Rightarrow> 'a list \<times> 'c option"
    and xs :: "'a list" and limit :: nat and cursor_at :: "nat \<Rightarrow> 'c"
  assumes limit_pos: "0 < limit"
    and fetch_first: "fetch None = (take limit xs, if limit < length xs then Some (cursor_at limit) else None)"
    and fetch_next: "0 < n \<Longrightarrow> n < length xs \<Longrightarrow> fetch (Some (cursor_at n)) =
      (take limit (drop n xs), if n + limit < length xs then Some (cursor_at (n + limit)) else None)"
begin

lemma traverse_from:
  "0 < n \<Longrightarrow> n < length xs \<Longrightarrow> length xs - n < fuel \<Longrightarrow> traverse fetch fuel (Some (cursor_at n)) = Some (drop n xs)"
proof (induction fuel arbitrary: n)
  case 0
  then show ?case by simp
next
  case (Suc fuel)
  show ?case
  proof (cases "n + limit < length xs")
    case True
    then have "traverse fetch fuel (Some (cursor_at (n + limit))) = Some (drop (n + limit) xs)"
      using Suc limit_pos by (intro Suc.IH) auto
    moreover have "take limit (drop n xs) @ drop (n + limit) xs = drop n xs"
      by (metis add.commute append_take_drop_id drop_drop)
    ultimately show ?thesis using True Suc.prems by (simp add: fetch_next)
  next
    case False
    then show ?thesis using Suc.prems by (simp add: fetch_next)
  qed
qed

lemma traverse_complete: "length xs < fuel \<Longrightarrow> traverse fetch fuel None = Some xs"
proof (cases fuel)
  case (Suc k)
  assume "length xs < fuel"
  show ?thesis
  proof (cases "limit < length xs")
    case True
    with Suc \<open>length xs < fuel\<close> limit_pos show ?thesis
      by (simp add: fetch_first traverse_from)
  next
    case False
    with Suc show ?thesis by (simp add: fetch_first)
  qed
qed simp

end

section \<open>Base64\<close>

definition b64_char :: "bool \<Rightarrow> nat \<Rightarrow> char" where
  "b64_char url v =
     (if v < 26 then char_of (65 + v) else if v < 52 then char_of (71 + v) else if v < 62 then char_of (v - 4)
      else if v = 62 then (if url then CHR ''-'' else CHR ''+'') else (if url then CHR ''_'' else CHR ''/''))"

definition b64_val :: "char \<Rightarrow> nat option" where
  "b64_val c =
     (let n = (of_char c :: nat)
      in if 65 \<le> n \<and> n \<le> 90 then Some (n - 65) else if 97 \<le> n \<and> n \<le> 122 then Some (n - 71)
         else if 48 \<le> n \<and> n \<le> 57 then Some (n + 4)
         else if c = CHR ''-'' \<or> c = CHR ''+'' then Some 62 else if c = CHR ''_'' \<or> c = CHR ''/'' then Some 63
         else None)"

fun b64_vals :: "nat list \<Rightarrow> nat list" where
  "b64_vals [] = []"
| "b64_vals [a] = [a div 4, (a mod 4) * 16]"
| "b64_vals [a, b] = [a div 4, (a mod 4) * 16 + b div 16, (b mod 16) * 4]"
| "b64_vals (a # b # c # r) =
     [a div 4, (a mod 4) * 16 + b div 16, (b mod 16) * 4 + c div 64, c mod 64] @ b64_vals r"

fun b64_bytes :: "nat list \<Rightarrow> nat list" where
  "b64_bytes (w # x # y # z # r) = [w * 4 + x div 16, (x mod 16) * 16 + y div 4, (y mod 4) * 64 + z] @ b64_bytes r"
| "b64_bytes [w, x, y] = [w * 4 + x div 16, (x mod 16) * 16 + y div 4]"
| "b64_bytes [w, x] = [w * 4 + x div 16]"
| "b64_bytes [w] = []"
| "b64_bytes [] = []"

definition b64_padding :: "nat \<Rightarrow> string" where
  "b64_padding n = replicate ((3 - n mod 3) mod 3) (CHR ''='')"

text \<open>\<open>Buffer.from(s).toString('base64')\<close> and \<open>'base64url'\<close>, which has no padding.\<close>

definition base64_encode :: "bool \<Rightarrow> string \<Rightarrow> string" where
  "base64_encode url s = map (b64_char url) (b64_vals (map of_char s)) @ (if url then [] else b64_padding (length s))"

text \<open>\<open>Buffer.from(s, 'base64')\<close> reads both alphabets and skips every other character.\<close>

definition base64_decode :: "string \<Rightarrow> string" where
  "base64_decode s = map char_of (b64_bytes (List.map_filter b64_val s))"

lemma b64_val_char [simp]: "v < 64 \<Longrightarrow> b64_val (b64_char url v) = Some v"
proof -
  assume "v < 64"
  then consider "v < 26" | "26 \<le> v" "v < 52" | "52 \<le> v" "v < 62" | "v = 62" | "v = 63" by linarith
  then show ?thesis by cases (auto simp: b64_char_def b64_val_def Let_def)
qed

lemma b64_vals_bound: "(\<forall>b\<in>set bs. b < 256) \<Longrightarrow> v \<in> set (b64_vals bs) \<Longrightarrow> v < 64"
  by (induction bs rule: b64_vals.induct) auto

lemma b64_bytes_vals: "(\<forall>b\<in>set bs. b < 256) \<Longrightarrow> b64_bytes (b64_vals bs) = bs"
  by (induction bs rule: b64_vals.induct) auto

lemma map_filter_vals:
  "(\<forall>v\<in>set vs. v < 64) \<Longrightarrow> List.map_filter b64_val (map (b64_char url) vs) = vs"
  by (induction vs) (auto simp: List.map_filter_simps)

lemma map_filter_append: "List.map_filter f (xs @ ys) = List.map_filter f xs @ List.map_filter f ys"
  by (simp add: map_filter_def)

lemma base64_roundtrip [simp]: "base64_decode (base64_encode url s) = s"
proof -
  let ?bs = "map of_char s :: nat list"
  have bs: "\<forall>b\<in>set ?bs. b < 256" by auto
  have pad: "List.map_filter b64_val (b64_padding n) = []" for n
    by (simp add: b64_padding_def map_filter_def b64_val_def)
  have "List.map_filter b64_val (map (b64_char url) (b64_vals ?bs)) = b64_vals ?bs"
    using b64_vals_bound [OF bs] by (intro map_filter_vals) blast
  then have "List.map_filter b64_val (base64_encode url s) = b64_vals ?bs"
    by (simp add: base64_encode_def map_filter_append pad)
  then show ?thesis by (simp add: base64_decode_def b64_bytes_vals [OF bs] comp_def)
qed

section \<open>REST pagination\<close>

datatype direction = Forward | Backward

record pagination_params =
  ppCursor :: "string option"
  ppLimit :: "int option"
  ppDirection :: "direction option"

record 'a paginated =
  pgItems :: "'a list"
  pgNextCursor :: "string option"
  pgPrevCursor :: "string option"
  pgHasMore :: bool
  pgTotal :: "nat option"

datatype pagination_error = CursorNotFound

definition DEFAULT_LIMIT :: int where
  "DEFAULT_LIMIT = 20"

definition MAX_LIMIT :: int where
  "MAX_LIMIT = 100"

definition encodeCursor :: "string \<Rightarrow> string" where
  "encodeCursor value = base64_encode False value"

definition decodeCursor :: "string \<Rightarrow> string" where
  "decodeCursor cursor = base64_decode cursor"

definition validateLimit :: "int option \<Rightarrow> int" where
  "validateLimit limit =
     (case limit of
        None \<Rightarrow> DEFAULT_LIMIT
      | Some l \<Rightarrow> if l = 0 then DEFAULT_LIMIT else if l < 1 then DEFAULT_LIMIT else if l > MAX_LIMIT then MAX_LIMIT else l)"

definition parsePaginationParams :: "pagination_params \<Rightarrow> int \<times> direction \<times> string option" where
  "parsePaginationParams params =
     (validateLimit (ppLimit params),
      (case ppDirection params of Some d \<Rightarrow> d | None \<Rightarrow> Forward),
      (case ppCursor params of Some c \<Rightarrow> if c \<noteq> [] then Some (decodeCursor c) else None | None \<Rightarrow> None))"

text \<open>\<open>ident\<close> is \<open>String(item.id)\<close>. An undefined item (an empty page) would print \<open>undefined\<close>.\<close>

definition paginate :: "('a \<Rightarrow> string) \<Rightarrow> 'a list \<Rightarrow> pagination_params \<Rightarrow> (pagination_error, 'a paginated) res" where
  "paginate ident items params =
     (case parsePaginationParams params of
        (limit, direction, cursor) \<Rightarrow>
          (case (case cursor of
                   None \<Rightarrow> Inr 0
                 | Some c \<Rightarrow>
                     if c = [] then Inr 0
                     else (case find_index (\<lambda>x. ident x = c) items of
                             None \<Rightarrow> Inl CursorNotFound
                           | Some i \<Rightarrow> Inr (if direction = Forward then int i + 1 else max 0 (int i - limit - 1)))) of
             Inl e \<Rightarrow> Inl e
           | Inr startIndex \<Rightarrow>
               let endIndex = startIndex + limit;
                   paginatedItems = js_slice (nat startIndex) (nat endIndex) items;
                   id_or_undefined = (\<lambda>x. case x of None \<Rightarrow> ''undefined'' | Some y \<Rightarrow> ident y)
               in Inr \<lparr>pgItems = paginatedItems,
                    pgNextCursor = (if endIndex < int (length items)
                      then Some (encodeCursor (id_or_undefined (if paginatedItems = [] then None else Some (last paginatedItems)))) else None),
                    pgPrevCursor = (if startIndex > 0
                      then Some (encodeCursor (id_or_undefined (if paginatedItems = [] then None else Some (hd paginatedItems)))) else None),
                    pgHasMore = endIndex < int (length items),
                    pgTotal = Some (length items)\<rparr>))"

text \<open>
  The fetch function of \<open>paginateAsync\<close> is its argument. A cursor that is no number gives the offset
  \<open>NaN\<close>, here \<open>None\<close>.
\<close>

definition paginateAsync :: "(int option \<Rightarrow> int \<Rightarrow> 'a list) \<Rightarrow> pagination_params \<Rightarrow> 'a paginated" where
  "paginateAsync fetchFn params =
     (case parsePaginationParams params of
        (limit, _, _) \<Rightarrow>
          let offset = (case ppCursor params of
                          Some c \<Rightarrow> if c \<noteq> [] then parse_int10 (decodeCursor c) else Some 0
                        | None \<Rightarrow> Some 0);
              items = fetchFn offset (limit + 1);
              hasMore = int (length items) > limit
          in \<lparr>pgItems = take (nat limit) items,
              pgNextCursor = (if hasMore then Some (encodeCursor
                 (case offset of Some o1 \<Rightarrow> show_int (o1 + limit) | None \<Rightarrow> ''NaN'')) else None),
              pgPrevCursor = (case offset of Some o1 \<Rightarrow> if o1 > 0 then Some (encodeCursor (show_int (max 0 (o1 - limit)))) else None
                 | None \<Rightarrow> None),
              pgHasMore = hasMore, pgTotal = None\<rparr>)"

text \<open>
  The order (createdAt descending, id ascending) as a sort key: JavaScript compares strings by their
  code units.
\<close>

definition sort_rank :: "('a \<Rightarrow> int) \<Rightarrow> ('a \<Rightarrow> string) \<Rightarrow> 'a \<Rightarrow> int \<times> nat list" where
  "sort_rank created ident x = (- created x, map of_char (ident x))"

definition after_cursor :: "int \<Rightarrow> string \<Rightarrow> int \<Rightarrow> string \<Rightarrow> bool" where
  "after_cursor cursorTime cursorId itemTime itemId =
     (if itemTime \<noteq> cursorTime then itemTime < cursorTime
      else (map of_char itemId :: nat list) > map of_char cursorId)"

record created_params =
  cpCursor :: "(int \<times> string) option"
  cpLimit :: "int option"
  cpOffset :: "int option"

record 'a created_page =
  cgItems :: "'a list"
  cgNextCursor :: "(int \<times> string) option"
  cgHasMore :: bool
  cgTotal :: nat

definition paginateByCreatedAt :: "('a \<Rightarrow> int) \<Rightarrow> ('a \<Rightarrow> string) \<Rightarrow> 'a list \<Rightarrow> created_params \<Rightarrow> 'a created_page" where
  "paginateByCreatedAt created ident items params =
     (let limit = validateLimit (cpLimit params);
          sorted_items = sort_key (sort_rank created ident) items;
          startIndex = (case cpCursor params of
             Some (cursorTime, cursorId) \<Rightarrow>
               (case find_index (\<lambda>x. after_cursor cursorTime cursorId (created x) (ident x)) sorted_items of
                  Some i \<Rightarrow> int i | None \<Rightarrow> int (length sorted_items))
           | None \<Rightarrow> (case cpOffset params of Some o1 \<Rightarrow> if o1 > 0 then o1 else 0 | None \<Rightarrow> 0));
          endIndex = startIndex + limit;
          paginatedItems = js_slice (nat startIndex) (nat endIndex) sorted_items;
          hasMore = endIndex < int (length sorted_items)
      in \<lparr>cgItems = paginatedItems,
          cgNextCursor = (if hasMore \<and> paginatedItems \<noteq> []
            then Some (created (last paginatedItems), ident (last paginatedItems)) else None),
          cgHasMore = hasMore, cgTotal = length sorted_items\<rparr>)"

lemma validateLimit_bounds: "1 \<le> validateLimit l \<and> validateLimit l \<le> 100"
  by (auto simp: validateLimit_def DEFAULT_LIMIT_def MAX_LIMIT_def split: option.splits)

lemma js_slice_take: "js_slice i (i + n) xs = take n (drop i xs)"
  by (simp add: js_slice_def)

lemma last_take_drop: "0 < n \<Longrightarrow> i + n \<le> length xs \<Longrightarrow> last (take n (drop i xs)) = xs ! (i + n - 1)"
  by (subst last_conv_nth) auto

section \<open>Forward traversal of the REST pages\<close>

lemma find_index_eqI: "i < length xs \<Longrightarrow> p (xs ! i) \<Longrightarrow> (\<And>j. j < i \<Longrightarrow> \<not> p (xs ! j)) \<Longrightarrow> find_index p xs = Some i"
proof (induction xs arbitrary: i)
  case (Cons x xs)
  show ?case
  proof (cases i)
    case (Suc k)
    have "find_index p xs = Some k"
    proof (rule Cons.IH)
      show "\<not> p (xs ! j)" if "j < k" for j using Cons.prems(3) [of "Suc j"] Suc that by simp
    qed (use Cons.prems Suc in auto)
    then show ?thesis using Cons.prems(3) [of 0] Suc by simp
  qed (use Cons.prems in simp)
qed simp

text \<open>Lists the pager can page through: identifiers are distinct and not empty.\<close>

definition keyed :: "('a \<Rightarrow> string) \<Rightarrow> 'a list \<Rightarrow> 'a list" where
  "keyed ident items = (if distinct (map ident items) \<and> (\<forall>x\<in>set items. ident x \<noteq> []) then items else [])"

lemma keyed_props: "distinct (map ident (keyed ident items))" "x \<in> set (keyed ident items) \<Longrightarrow> ident x \<noteq> []"
  by (auto simp: keyed_def split: if_splits)

definition forward_fetch :: "('a \<Rightarrow> string) \<Rightarrow> 'a list \<Rightarrow> int option \<Rightarrow> string option \<Rightarrow> 'a list \<times> string option" where
  "forward_fetch ident items limit c =
     (case paginate ident items \<lparr>ppCursor = c, ppLimit = limit, ppDirection = Some Forward\<rparr> of
        Inl e \<Rightarrow> ([], None) | Inr p \<Rightarrow> (pgItems p, pgNextCursor p))"

lemma forward_fetch_from:
  fixes limit :: "int option"
  assumes "distinct (map ident xs)" and "\<forall>x\<in>set xs. ident x \<noteq> []" and "n < length xs"
  defines "l \<equiv> nat (validateLimit limit)"
  shows "forward_fetch ident xs limit (if n = 0 then None else Some (encodeCursor (ident (xs ! (n - 1))))) =
    (take l (drop n xs), if n + l < length xs then Some (encodeCursor (ident (xs ! (n + l - 1)))) else None)"
proof -
  have l: "0 < l" "validateLimit limit = int l" using validateLimit_bounds [of limit] by (auto simp: l_def)
  have find: "find_index (\<lambda>x. ident x = ident (xs ! (n - 1))) xs = Some (n - 1)" if "n \<noteq> 0"
    using assms(1,3) that by (intro find_index_eqI) (auto simp: distinct_conv_nth)
  have ne: "ident (xs ! (n - 1)) \<noteq> []" if "n \<noteq> 0" using assms(2,3) that by simp
  have enc: "encodeCursor (ident (xs ! (n - 1))) \<noteq> []" if "n \<noteq> 0"
    using ne [OF that] base64_roundtrip [of False "ident (xs ! (n - 1))"]
    by (auto simp: encodeCursor_def base64_decode_def List.map_filter_simps)
  have start: "nat (int n) = n" "nat (int n + int l) = n + l" by auto
  have "forward_fetch ident xs limit (if n = 0 then None else Some (encodeCursor (ident (xs ! (n - 1))))) =
    (js_slice n (n + l) xs, if n + l < length xs then Some (encodeCursor (ident (last (js_slice n (n + l) xs)))) else None)"
    using find ne enc l assms(3) unfolding forward_fetch_def paginate_def parsePaginationParams_def
    by (auto simp: decodeCursor_def encodeCursor_def l(2) Let_def start js_slice_def split: option.splits if_splits)
  then show ?thesis using l(1) assms(3) by (simp add: js_slice_take last_take_drop)
qed

interpretation rest: pager "forward_fetch ident (keyed ident items) limit" "keyed ident items"
  "nat (validateLimit limit)" "\<lambda>n. encodeCursor (ident (keyed ident items ! (n - 1)))"
  for ident :: "'a \<Rightarrow> string" and items :: "'a list" and limit :: "int option"
proof
  show "0 < nat (validateLimit limit)" using validateLimit_bounds [of limit] by simp
next
  let ?xs = "keyed ident items" and ?l = "nat (validateLimit limit)"
  show "forward_fetch ident ?xs limit None =
    (take ?l ?xs, if ?l < length ?xs then Some (encodeCursor (ident (?xs ! (?l - 1)))) else None)"
  proof (cases "?xs = []")
    case True
    then show ?thesis
      using validateLimit_bounds [of limit]
      by (simp add: forward_fetch_def paginate_def parsePaginationParams_def Let_def js_slice_def split: prod.splits)
  next
    case False
    then show ?thesis using forward_fetch_from [where ident = ident and xs = ?xs and n = 0 and limit = limit] keyed_props [where ident = ident and items = items] by simp
  qed
next
  let ?xs = "keyed ident items" and ?l = "nat (validateLimit limit)"
  fix n assume "0 < n" "n < length ?xs"
  then show "forward_fetch ident ?xs limit (Some (encodeCursor (ident (?xs ! (n - 1))))) =
    (take ?l (drop n ?xs), if n + ?l < length ?xs then Some (encodeCursor (ident (?xs ! (n + ?l - 1)))) else None)"
    using forward_fetch_from [where ident = ident and xs = ?xs and n = n and limit = limit] keyed_props [where ident = ident and items = items] by simp
qed

text \<open>Forward pages cover the list: a client that starts without a cursor and follows \<open>nextCursor\<close>
  until there is none receives every item exactly once, in order, for every requested page size, when
  identifiers are distinct and not empty.\<close>

theorem forward_pages_cover:
  assumes "distinct (map ident items)" and "\<forall>x\<in>set items. ident x \<noteq> []" and "length items < fuel"
  shows "traverse (forward_fetch ident items limit) fuel None = Some items"
proof -
  have k: "keyed ident items = items" using assms(1,2) by (simp add: keyed_def)
  show ?thesis using rest.traverse_complete [where ident = ident and items = items and limit = limit and fuel = fuel] assms(3) by (simp add: k)
qed

theorem forward_pages_cover_witness:
  "traverse (forward_fetch show_nat [1, 2, 3, 4, 5] (Some 2)) 6 None = Some [1, 2, 3, 4, 5]"
  by (rule forward_pages_cover) (simp_all add: show_nat_inj)

text \<open>
  Going back loses an item: from the page that starts at the fourth of five items, \<open>prevCursor\<close> leads to
  the page of the first and second; the third item is skipped.
\<close>

lemma backward_page_skips_item:
  "find_index (\<lambda>x. x = s3) [s0, s1, s2, s3, s4] = Some 3 \<Longrightarrow> s3 \<noteq> [] \<Longrightarrow>
   map_sum id pgItems (paginate id [s0, s1, s2, s3, s4]
     \<lparr>ppCursor = Some (encodeCursor s3), ppLimit = Some 2, ppDirection = Some Backward\<rparr>) = Inr [s0, s1]"
  using base64_roundtrip [of False s3]
  by (auto simp: paginate_def parsePaginationParams_def validateLimit_def MAX_LIMIT_def decodeCursor_def encodeCursor_def
      Let_def js_slice_def base64_encode_def)

section \<open>Keyset traversal\<close>

lemma after_cursor_rank:
  "after_cursor (created c) (ident c) (created x) (ident x) \<longleftrightarrow> sort_rank created ident c < sort_rank created ident x"
  by (auto simp: after_cursor_def sort_rank_def less_prod_def')

lemma find_index_next:
  assumes "sorted (map f xs)" and "distinct (map f xs)" and "0 < n" and "n < length xs"
  shows "find_index (\<lambda>x. f (xs ! (n - 1)) < f x) xs = Some n"
proof (rule find_index_eqI)
  have le: "f (xs ! i) \<le> f (xs ! j)" if "i \<le> j" "j < length xs" for i j
    using sorted_nth_mono [OF assms(1), of i j] that by simp
  have "f (xs ! (n - 1)) \<noteq> f (xs ! n)"
    using nth_eq_iff_index_eq [OF assms(2), of "n - 1" n] assms(3,4) by simp
  then show "f (xs ! (n - 1)) < f (xs ! n)" using le [of "n - 1" n] assms(3,4) by simp
  show "\<not> f (xs ! (n - 1)) < f (xs ! j)" if "j < n" for j
    using le [of j "n - 1"] that assms(3,4) by (simp add: not_less)
qed (rule assms(4))

definition created_fetch ::
  "('a \<Rightarrow> int) \<Rightarrow> ('a \<Rightarrow> string) \<Rightarrow> 'a list \<Rightarrow> int option \<Rightarrow> (int \<times> string) option \<Rightarrow> 'a list \<times> (int \<times> string) option" where
  "created_fetch created ident items limit c =
     (let p = paginateByCreatedAt created ident items \<lparr>cpCursor = c, cpLimit = limit, cpOffset = None\<rparr>
      in (cgItems p, cgNextCursor p))"

lemma created_fetch_from:
  fixes limit :: "int option"
  defines "l \<equiv> nat (validateLimit limit)"
  assumes "distinct (map (sort_rank created ident) items)" and "n < length items"
  defines "xs \<equiv> sort_key (sort_rank created ident) items"
  shows "created_fetch created ident items limit (if n = 0 then None else Some (created (xs ! (n - 1)), ident (xs ! (n - 1)))) =
    (take l (drop n xs), if n + l < length xs then Some (created (xs ! (n + l - 1)), ident (xs ! (n + l - 1))) else None)"
proof -
  let ?f = "sort_rank created ident"
  have l: "0 < l" "validateLimit limit = int l" using validateLimit_bounds [of limit] by (auto simp: l_def)
  have len: "length xs = length items" by (simp add: xs_def)
  have "distinct (map ?f xs)"
    using assms(2) by (simp add: distinct_map xs_def)
  then have find: "find_index (\<lambda>x. ?f (xs ! (n - 1)) < ?f x) xs = Some n" if "n \<noteq> 0"
    using that assms(3) len by (intro find_index_next) (simp_all add: xs_def)
  have start: "nat (int n) = n" "nat (int n + int l) = n + l" by auto
  have ne: "js_slice n (n + l) xs \<noteq> []" using l(1) assms(3) len by (simp add: js_slice_take)
  have "created_fetch created ident items limit (if n = 0 then None else Some (created (xs ! (n - 1)), ident (xs ! (n - 1)))) =
    (js_slice n (n + l) xs, if n + l < length xs
       then Some (created (last (js_slice n (n + l) xs)), ident (last (js_slice n (n + l) xs))) else None)"
    using find ne by (auto simp: created_fetch_def paginateByCreatedAt_def Let_def l(2) start after_cursor_rank
        simp flip: xs_def)
  then show ?thesis using l(1) assms(3) by (simp add: js_slice_take last_take_drop)
qed

definition ranked :: "('a \<Rightarrow> int) \<Rightarrow> ('a \<Rightarrow> string) \<Rightarrow> 'a list \<Rightarrow> 'a list" where
  "ranked created ident items = (if distinct (map (sort_rank created ident) items) then items else [])"

lemma ranked_distinct: "distinct (map (sort_rank created ident) (ranked created ident items))"
  by (simp add: ranked_def)

interpretation keyset: pager "created_fetch created ident (ranked created ident items) limit"
  "sort_key (sort_rank created ident) (ranked created ident items)" "nat (validateLimit limit)"
  "\<lambda>n. (created (sort_key (sort_rank created ident) (ranked created ident items) ! (n - 1)),
        ident (sort_key (sort_rank created ident) (ranked created ident items) ! (n - 1)))"
  for created :: "'a \<Rightarrow> int" and ident :: "'a \<Rightarrow> string" and items :: "'a list" and limit :: "int option"
proof
  let ?i = "ranked created ident items" and ?l = "nat (validateLimit limit)"
  let ?xs = "sort_key (sort_rank created ident) ?i"
  show "0 < ?l" using validateLimit_bounds [of limit] by simp
  show "created_fetch created ident ?i limit None =
    (take ?l ?xs, if ?l < length ?xs then Some (created (?xs ! (?l - 1)), ident (?xs ! (?l - 1))) else None)"
  proof (cases "?i = []")
    case True
    then show ?thesis
      using validateLimit_bounds [of limit] by (simp add: created_fetch_def paginateByCreatedAt_def Let_def js_slice_def)
  next
    case False
    then show ?thesis
      using created_fetch_from [OF ranked_distinct [where created = created and ident = ident and items = items],
          where n = 0 and limit = limit] by simp
  qed
  show "created_fetch created ident ?i limit (Some (created (?xs ! (n - 1)), ident (?xs ! (n - 1)))) =
    (take ?l (drop n ?xs), if n + ?l < length ?xs then Some (created (?xs ! (n + ?l - 1)), ident (?xs ! (n + ?l - 1))) else None)"
    if "0 < n" "n < length ?xs" for n
    using created_fetch_from [OF ranked_distinct [where created = created and ident = ident and items = items],
        where n = n and limit = limit] that by simp
qed

text \<open>C33: Keyset pagination covers the list in its documented order: following the composite cursors from
  the first page gives every item exactly once, newest first and by id among equal time stamps, for
  every page size, even when items share a time stamp.\<close>

theorem keyset_pages_cover:
  assumes "distinct (map (sort_rank created ident) items)" and "length items < fuel"
  shows "traverse (created_fetch created ident items limit) fuel None = Some (sort_key (sort_rank created ident) items)"
proof -
  have k: "ranked created ident items = items" using assms(1) by (simp add: ranked_def)
  show ?thesis
    using keyset.traverse_complete [where created = created and ident = ident and items = items and limit = limit
        and fuel = fuel] assms(2) by (simp add: k)
qed

theorem keyset_pages_cover_witness:
  "traverse (created_fetch fst snd [(5, ''b''), (9, ''c''), (5, ''a'')] (Some 1)) 4 None =
     Some (sort_key (sort_rank fst snd) [(5, ''b''), (9, ''c''), (5, ''a'')])"
  by (rule keyset_pages_cover) (simp_all add: sort_rank_def)

section \<open>Relay connections\<close>

definition DEFAULT_PAGE_SIZE :: int where
  "DEFAULT_PAGE_SIZE = 20"

definition MAX_PAGE_SIZE :: int where
  "MAX_PAGE_SIZE = 100"

definition CURSOR_PREFIX :: string where
  "CURSOR_PREFIX = ''cursor:''"

datatype connection_error = InvalidCursor | FirstNotPositive | FirstTooLarge

definition relay_encodeCursor :: "string \<Rightarrow> string" where
  "relay_encodeCursor i = base64_encode True (CURSOR_PREFIX @ i)"

definition relay_decodeCursor :: "string \<Rightarrow> (connection_error, string) res" where
  "relay_decodeCursor cursor =
     (let decoded = base64_decode cursor
      in if \<not> starts_with decoded CURSOR_PREFIX \<or> length decoded = length CURSOR_PREFIX then Inl InvalidCursor
         else Inr (drop (length CURSOR_PREFIX) decoded))"

record query_args =
  qaFirst :: int
  qaTake :: int
  qaCursor :: "string option"
  qaSkip :: "int option"

definition connectionQueryArgs :: "int option \<Rightarrow> string option \<Rightarrow> (connection_error, query_args) res" where
  "connectionQueryArgs first after =
     (let n = (case first of Some f \<Rightarrow> f | None \<Rightarrow> DEFAULT_PAGE_SIZE)
      in if n < 1 then Inl FirstNotPositive
         else if n > MAX_PAGE_SIZE then Inl FirstTooLarge
         else (case after of
                 None \<Rightarrow> Inr \<lparr>qaFirst = n, qaTake = n + 1, qaCursor = None, qaSkip = None\<rparr>
               | Some c \<Rightarrow>
                   (case relay_decodeCursor c of
                      Inl e \<Rightarrow> Inl e
                    | Inr i \<Rightarrow> Inr \<lparr>qaFirst = n, qaTake = n + 1, qaCursor = Some i, qaSkip = Some 1\<rparr>)))"

record 'a connection =
  cnEdges :: "(string \<times> 'a) list"
  cnHasNextPage :: bool
  cnHasPreviousPage :: bool
  cnStartCursor :: "string option"
  cnEndCursor :: "string option"
  cnTotalCount :: nat

definition buildConnection :: "('a \<Rightarrow> string) \<Rightarrow> 'a list \<Rightarrow> int \<Rightarrow> bool \<Rightarrow> nat \<Rightarrow> 'a connection" where
  "buildConnection ident rows first hasAfter totalCount =
     (let hasNextPage = int (length rows) > first;
          nodes = (if hasNextPage then take (nat first) rows else rows);
          edges = map (\<lambda>node. (relay_encodeCursor (ident node), node)) nodes
      in \<lparr>cnEdges = edges, cnHasNextPage = hasNextPage, cnHasPreviousPage = hasAfter,
          cnStartCursor = (if edges = [] then None else Some (fst (hd edges))),
          cnEndCursor = (if edges = [] then None else Some (fst (last edges))),
          cnTotalCount = totalCount\<rparr>)"

text \<open>
  A resolver: validate the arguments, query the rows with \<open>findMany\<close>, the database client's query
  function (a parameter), and build the connection.
\<close>

definition resolve_connection ::
  "(query_args \<Rightarrow> 'a list) \<Rightarrow> ('a \<Rightarrow> string) \<Rightarrow> nat \<Rightarrow> int option \<Rightarrow> string option \<Rightarrow> (connection_error, 'a connection) res" where
  "resolve_connection findMany ident tot first after =
     (case connectionQueryArgs first after of
        Inl e \<Rightarrow> Inl e
      | Inr q \<Rightarrow> Inr (buildConnection ident (findMany q) (qaFirst q) (after \<noteq> None) tot))"

definition connection_fetch where
  "connection_fetch findMany ident tot first c =
     (case resolve_connection findMany ident tot first c of
        Inl e \<Rightarrow> ([], None)
      | Inr r \<Rightarrow> (map snd (cnEdges r), if cnHasNextPage r then cnEndCursor r else None))"

text \<open>What the database client documents for \<open>cursor\<close>, \<open>skip\<close> and \<open>take\<close> on a list of rows in query order.\<close>

definition finds_rows :: "(query_args \<Rightarrow> 'a list) \<Rightarrow> ('a \<Rightarrow> string) \<Rightarrow> 'a list \<Rightarrow> bool" where
  "finds_rows findMany ident rows \<longleftrightarrow>
     (\<forall>f t. findMany \<lparr>qaFirst = f, qaTake = t, qaCursor = None, qaSkip = None\<rparr> = take (nat t) rows)
     \<and> (\<forall>f t s i. i < length rows \<longrightarrow>
          findMany \<lparr>qaFirst = f, qaTake = t, qaCursor = Some (ident (rows ! i)), qaSkip = Some s\<rparr> =
            take (nat t) (drop (i + nat s) rows))"

lemma relay_cursor_roundtrip: "i \<noteq> [] \<Longrightarrow> relay_decodeCursor (relay_encodeCursor i) = Inr i"
  by (simp add: relay_decodeCursor_def relay_encodeCursor_def Let_def starts_with_iff)

lemma connection_rows:
  assumes "0 < f"
  shows "(let r = buildConnection ident (take (Suc f) xs) (int f) b tot
     in (map snd (cnEdges r), if cnHasNextPage r then cnEndCursor r else None)) =
    (take f xs, if f < length xs then Some (relay_encodeCursor (ident (xs ! (f - 1)))) else None)"
proof (cases "f < length xs")
  case True
  then have "take f xs \<noteq> []" "last (take f xs) = xs ! (f - 1)"
    using assms last_take_drop [of f 0 xs] by auto
  with True assms show ?thesis
    by (auto simp: buildConnection_def Let_def comp_def last_map min_def)
next
  case False
  then show ?thesis using assms by (auto simp: buildConnection_def Let_def comp_def)
qed

lemma connection_pager:
  assumes "finds_rows findMany ident rows" and "\<forall>x\<in>set rows. ident x \<noteq> []"
    and "case first of Some n \<Rightarrow> 1 \<le> n \<and> n \<le> 100 | None \<Rightarrow> True"
  shows "pager (connection_fetch findMany ident tot first) rows
    (nat (case first of Some n \<Rightarrow> n | None \<Rightarrow> DEFAULT_PAGE_SIZE)) (\<lambda>n. relay_encodeCursor (ident (rows ! (n - 1))))"
proof -
  define f where "f = nat (case first of Some n \<Rightarrow> n | None \<Rightarrow> DEFAULT_PAGE_SIZE)"
  have f: "0 < f" "(case first of Some n \<Rightarrow> n | None \<Rightarrow> DEFAULT_PAGE_SIZE) = int f" "int f \<le> 100"
    using assms(3) by (auto simp: f_def DEFAULT_PAGE_SIZE_def split: option.splits)
  have tk: "nat (int f + 1) = Suc f" by simp
  have first: "connection_fetch findMany ident tot first None =
      (take f rows, if f < length rows then Some (relay_encodeCursor (ident (rows ! (f - 1)))) else None)"
    using connection_rows [OF f(1), of ident rows False tot] assms(1) f
    by (simp add: connection_fetch_def resolve_connection_def connectionQueryArgs_def MAX_PAGE_SIZE_def finds_rows_def tk Let_def)
  have "next": "connection_fetch findMany ident tot first (Some (relay_encodeCursor (ident (rows ! (n - 1))))) =
      (take f (drop n rows), if n + f < length rows then Some (relay_encodeCursor (ident (rows ! (n + f - 1)))) else None)"
    if "0 < n" "n < length rows" for n
  proof -
    have rt: "relay_decodeCursor (relay_encodeCursor (ident (rows ! (n - 1)))) = Inr (ident (rows ! (n - 1)))"
      using assms(2) that by (intro relay_cursor_roundtrip) simp
    have "findMany \<lparr>qaFirst = int f, qaTake = int f + 1, qaCursor = Some (ident (rows ! (n - 1))), qaSkip = Some 1\<rparr> =
        take (Suc f) (drop n rows)"
      using assms(1) that by (simp add: finds_rows_def tk)
    with connection_rows [OF f(1), of ident "drop n rows" True tot] f rt that show ?thesis
      by (simp add: connection_fetch_def resolve_connection_def connectionQueryArgs_def MAX_PAGE_SIZE_def Let_def
          less_diff_conv add.commute)
  qed
  show ?thesis using f(1) first "next" unfolding f_def [symmetric] by unfold_locales auto
qed

text \<open>Connections cover the list: with a query function that honours \<open>cursor\<close>, \<open>skip\<close> and \<open>take\<close>,
  following \<open>endCursor\<close> while \<open>hasNextPage\<close> holds gives every row exactly once, in order, for every
  accepted page size.\<close>

theorem connection_pages_cover:
  assumes "finds_rows findMany ident rows" and "\<forall>x\<in>set rows. ident x \<noteq> []"
    and "case first of Some n \<Rightarrow> 1 \<le> n \<and> n \<le> 100 | None \<Rightarrow> True" and "length rows < fuel"
  shows "traverse (connection_fetch findMany ident tot first) fuel None = Some rows"
  by (rule pager.traverse_complete [OF connection_pager [OF assms(1-3)] assms(4)])

definition list_rows :: "query_args \<Rightarrow> string list" where
  "list_rows q = (let rows = [''r1'', ''r2'', ''r3'']
     in take (nat (qaTake q)) (case qaCursor q of None \<Rightarrow> rows
        | Some c \<Rightarrow> drop (nat (case qaSkip q of Some s \<Rightarrow> s | None \<Rightarrow> 0)) (dropWhile (\<lambda>r. r \<noteq> c) rows)))"

theorem connection_pages_cover_witness:
  "finds_rows list_rows id [''r1'', ''r2'', ''r3''] \<and>
   traverse (connection_fetch list_rows id 3 (Some 2)) 4 None = Some [''r1'', ''r2'', ''r3'']"
proof -
  have "finds_rows list_rows id [''r1'', ''r2'', ''r3'']"
    by (auto simp: finds_rows_def list_rows_def Let_def less_Suc_eq numeral_3_eq_3 drop_Cons' split: option.splits)
  then show ?thesis using connection_pages_cover [of list_rows id "[''r1'', ''r2'', ''r3'']" "Some 2" 4 3] by simp
qed

end
