(* ===== verification/Redis_Store.thy ===== *)
theory Redis_Store
  imports Prelude
begin

text \<open>
  Redis, a parameter of the components that use it (leader election, step locks, nonces, revoked
  tokens): the record \<open>redis\<close> holds the commands they send and what the stored state shows of a key
  (its value and expiry time); \<open>redis_laws\<close> states their documented behaviour, and \<open>mem_redis\<close> is an
  instance of it. A Lua script runs as one command.
\<close>

section \<open>Redis\<close>

record 'r redis =
  rGet :: "int \<Rightarrow> string \<Rightarrow> 'r \<Rightarrow> string option"
  rSetPx :: "int \<Rightarrow> string \<Rightarrow> string \<Rightarrow> int \<Rightarrow> 'r \<Rightarrow> 'r"
  rIncr :: "int \<Rightarrow> string \<Rightarrow> 'r \<Rightarrow> int \<times> 'r"
  rPexpire :: "int \<Rightarrow> string \<Rightarrow> int \<Rightarrow> 'r \<Rightarrow> 'r"
  rSetNxPx :: "int \<Rightarrow> string \<Rightarrow> string \<Rightarrow> int \<Rightarrow> 'r \<Rightarrow> bool \<times> 'r"
  rSetKeepTtl :: "int \<Rightarrow> string \<Rightarrow> string \<Rightarrow> 'r \<Rightarrow> 'r"
  rDel :: "int \<Rightarrow> string \<Rightarrow> 'r \<Rightarrow> 'r"
  rKey :: "'r \<Rightarrow> string \<Rightarrow> (string \<times> int option) option"

definition live :: "int \<Rightarrow> (string \<times> int option) option \<Rightarrow> string option" where
  "live now e = (case e of None \<Rightarrow> None | Some (v, None) \<Rightarrow> Some v
     | Some (v, Some expiry) \<Rightarrow> if now < expiry then Some v else None)"

text \<open>
  GET returns the value of a key that has not expired; SET with PX stores a value for a time; INCR
  counts an absent key from 0 and keeps its time to live; PEXPIRE renews the time to live of a live
  key; DEL removes a key; SET with NX writes an absent key only, and SET with KEEPTTL keeps the time to
  live of a live key. No command touches another key. (INCR fails beyond 2^63, which would take as
  many elections; the laws count without that bound.)
\<close>

definition redis_laws :: "'r redis \<Rightarrow> bool" where
  "redis_laws R \<longleftrightarrow>
     (\<forall>t k s. rGet R t k s = live t (rKey R s k))
   \<and> (\<forall>t k v ttl s. rKey R (rSetPx R t k v ttl s) = (rKey R s)(k := Some (v, Some (t + ttl))))
   \<and> (\<forall>t k s. live t (rKey R s k) = None \<longrightarrow>
        fst (rIncr R t k s) = 1 \<and> rKey R (snd (rIncr R t k s)) = (rKey R s)(k := Some (show_int 1, None)))
   \<and> (\<forall>t k s n e. rKey R s k = Some (show_int n, e) \<longrightarrow> 0 \<le> n \<longrightarrow> live t (rKey R s k) \<noteq> None \<longrightarrow>
        fst (rIncr R t k s) = n + 1 \<and> rKey R (snd (rIncr R t k s)) = (rKey R s)(k := Some (show_int (n + 1), e)))
   \<and> (\<forall>t k v e ttl s. rKey R s k = Some (v, e) \<longrightarrow> live t (rKey R s k) \<noteq> None \<longrightarrow>
        rKey R (rPexpire R t k ttl s) = (rKey R s)(k := Some (v, Some (t + ttl))))
   \<and> (\<forall>t k s. rKey R (rDel R t k s) = (rKey R s)(k := None))
   \<and> (\<forall>t k v ttl s. fst (rSetNxPx R t k v ttl s) = (live t (rKey R s k) = None)
        \<and> rKey R (snd (rSetNxPx R t k v ttl s)) =
            (if live t (rKey R s k) = None then (rKey R s)(k := Some (v, Some (t + ttl))) else rKey R s))
   \<and> (\<forall>t k v s. rKey R (rSetKeepTtl R t k v s) =
        (rKey R s)(k := Some (v, if live t (rKey R s k) = None then None else snd (the (rKey R s k)))))"

section \<open>The laws, one by one\<close>

lemma redis_lawsD:
  assumes "redis_laws R"
  shows "rGet R t k s = live t (rKey R s k)"
    and "rKey R (rSetPx R t k v ttl s) = (rKey R s)(k := Some (v, Some (t + ttl)))"
    and "live t (rKey R s k) = None \<Longrightarrow> fst (rIncr R t k s) = 1 \<and> rKey R (snd (rIncr R t k s)) = (rKey R s)(k := Some (show_int 1, None))"
    and "rKey R s k = Some (show_int n, e) \<Longrightarrow> 0 \<le> n \<Longrightarrow> live t (rKey R s k) \<noteq> None \<Longrightarrow>
        fst (rIncr R t k s) = n + 1 \<and> rKey R (snd (rIncr R t k s)) = (rKey R s)(k := Some (show_int (n + 1), e))"
    and "rKey R s k = Some (v, e) \<Longrightarrow> live t (rKey R s k) \<noteq> None \<Longrightarrow>
        rKey R (rPexpire R t k ttl s) = (rKey R s)(k := Some (v, Some (t + ttl)))"
    and "rKey R (rDel R t k s) = (rKey R s)(k := None)"
    and "fst (rSetNxPx R t k v ttl s) = (live t (rKey R s k) = None)"
    and "rKey R (snd (rSetNxPx R t k v ttl s)) =
        (if live t (rKey R s k) = None then (rKey R s)(k := Some (v, Some (t + ttl))) else rKey R s)"
    and "rKey R (rSetKeepTtl R t k v s) =
        (rKey R s)(k := Some (v, if live t (rKey R s k) = None then None else snd (the (rKey R s k))))"
proof -
  note R = assms [unfolded redis_laws_def]
  show "rGet R t k s = live t (rKey R s k)" using R by simp
  show "rKey R (rSetPx R t k v ttl s) = (rKey R s)(k := Some (v, Some (t + ttl)))" using R by simp
  show "rKey R (rDel R t k s) = (rKey R s)(k := None)" using R by simp
  show "fst (rSetNxPx R t k v ttl s) = (live t (rKey R s k) = None)" using R by simp
  show "rKey R (snd (rSetNxPx R t k v ttl s)) =
      (if live t (rKey R s k) = None then (rKey R s)(k := Some (v, Some (t + ttl))) else rKey R s)" using R by simp
  show "rKey R (rSetKeepTtl R t k v s) =
      (rKey R s)(k := Some (v, if live t (rKey R s k) = None then None else snd (the (rKey R s k))))" using R by simp
  show "fst (rIncr R t k s) = 1 \<and> rKey R (snd (rIncr R t k s)) = (rKey R s)(k := Some (show_int 1, None))"
    if "live t (rKey R s k) = None" using R that by simp
  show "fst (rIncr R t k s) = n + 1 \<and> rKey R (snd (rIncr R t k s)) = (rKey R s)(k := Some (show_int (n + 1), e))"
    if "rKey R s k = Some (show_int n, e)" "0 \<le> n" "live t (rKey R s k) \<noteq> None" using R that by simp
  show "rKey R (rPexpire R t k ttl s) = (rKey R s)(k := Some (v, Some (t + ttl)))"
    if "rKey R s k = Some (v, e)" "live t (rKey R s k) \<noteq> None" using R that by simp
qed

lemma live_simps [simp]: "live t None = None" "live t (Some (v, None)) = Some v"
  by (simp_all add: live_def)

lemma live_Some: "live t e = Some v \<Longrightarrow> \<exists>x. e = Some (v, x)"
  by (auto simp: live_def split: option.splits if_splits)

lemma parse_show_int: "0 \<le> n \<Longrightarrow> parse_int10 (show_int n) = Some n"
  by (simp add: show_int_def)

section \<open>An instance of the laws\<close>

definition mem_redis :: "(string \<Rightarrow> (string \<times> int option) option) redis" where
  "mem_redis = \<lparr>rGet = (\<lambda>t k s. live t (s k)),
     rSetPx = (\<lambda>t k v ttl s. s(k := Some (v, Some (t + ttl)))),
     rIncr = (\<lambda>t k s. case live t (s k) of None \<Rightarrow> (1, s(k := Some (show_int 1, None)))
       | Some v \<Rightarrow> (case parse_int10 v of None \<Rightarrow> (0, s)
           | Some n \<Rightarrow> (n + 1, s(k := Some (show_int (n + 1), snd (the (s k))))))),
     rPexpire = (\<lambda>t k ttl s. case live t (s k) of None \<Rightarrow> s | Some v \<Rightarrow> s(k := Some (v, Some (t + ttl)))),
     rSetNxPx = (\<lambda>t k v ttl s. if live t (s k) = None then (True, s(k := Some (v, Some (t + ttl)))) else (False, s)),
     rSetKeepTtl = (\<lambda>t k v s. s(k := Some (v, if live t (s k) = None then None else snd (the (s k))))),
     rDel = (\<lambda>t k s. s(k := None)),
     rKey = (\<lambda>s. s)\<rparr>"

lemma live_value: "live t (Some (v, e)) \<noteq> None \<Longrightarrow> live t (Some (v, e)) = Some v"
  by (auto simp: live_def split: option.splits if_splits)

lemma mem_redis_laws: "redis_laws mem_redis"
  unfolding redis_laws_def
proof (intro conjI allI impI)
  fix t k s n e
  assume "rKey mem_redis s k = Some (show_int n, e)" "0 \<le> n" "live t (rKey mem_redis s k) \<noteq> None"
  moreover then have "live t (s k) = Some (show_int n)" by (simp add: mem_redis_def live_value)
  ultimately show "fst (rIncr mem_redis t k s) = n + 1"
    and "rKey mem_redis (snd (rIncr mem_redis t k s)) = (rKey mem_redis s)(k := Some (show_int (n + 1), e))"
    by (simp_all add: mem_redis_def parse_show_int)
next
  fix t k v e ttl s
  assume "rKey mem_redis s k = Some (v, e)" "live t (rKey mem_redis s k) \<noteq> None"
  moreover then have "live t (s k) = Some v" by (simp add: mem_redis_def live_value)
  ultimately show "rKey mem_redis (rPexpire mem_redis t k ttl s) = (rKey mem_redis s)(k := Some (v, Some (t + ttl)))"
    by (simp add: mem_redis_def)
qed (simp_all add: mem_redis_def)

end
