(* ===== verification/Leader_Election.thy ===== *)
theory Leader_Election
  imports Redis_Store
begin

text \<open>
  \<open>backend/src/lib/leaderElection.ts\<close>: leader election over a Redis lease with fencing tokens, with
  the three Lua scripts that Redis runs atomically.

  Redis is the parameter of \<open>Redis_Store\<close>. The instances of one role, their clocks and crashes are the step relation \<open>le_step\<close>.
\<close>

section \<open>The scripts\<close>

definition tonumber :: "string option \<Rightarrow> int option" where
  "tonumber x = (case x of None \<Rightarrow> None | Some s \<Rightarrow> parse_int10 s)"

definition ACQUIRE_OR_RENEW_SCRIPT ::
  "'r redis \<Rightarrow> int \<Rightarrow> string \<Rightarrow> string \<Rightarrow> string \<Rightarrow> int \<Rightarrow> 'r \<Rightarrow> (int \<times> int option) \<times> 'r" where
  "ACQUIRE_OR_RENEW_SCRIPT R t lockKey fencingKey instanceId ttlMs s =
     (let current = rGet R t lockKey s
      in if current = None then
           (let s1 = rSetPx R t lockKey instanceId ttlMs s
            in case rIncr R t fencingKey s1 of (token, s2) \<Rightarrow> ((1, Some token), s2))
         else if current = Some instanceId then
           (let s1 = rPexpire R t lockKey ttlMs s in ((2, tonumber (rGet R t fencingKey s1)), s1))
         else ((0, Some 0), s))"

definition VALIDATE_FENCING_TOKEN_SCRIPT :: "'r redis \<Rightarrow> int \<Rightarrow> string \<Rightarrow> int \<Rightarrow> 'r \<Rightarrow> int" where
  "VALIDATE_FENCING_TOKEN_SCRIPT R t fencingKey token s =
     (let current = tonumber (Some (case rGet R t fencingKey s of Some v \<Rightarrow> v | None \<Rightarrow> ''0''))
      in if Some token = current then 1 else 0)"

definition RELEASE_SCRIPT :: "'r redis \<Rightarrow> int \<Rightarrow> string \<Rightarrow> string \<Rightarrow> 'r \<Rightarrow> 'r" where
  "RELEASE_SCRIPT R t lockKey instanceId s =
     (if rGet R t lockKey s = Some instanceId then rDel R t lockKey s else s)"

section \<open>One instance\<close>

record leader_election =
  leRole :: string
  leInstanceId :: string
  leTtlMs :: int
  leRenewIntervalMs :: int
  leFencingToken :: "int option"
  leLeader :: bool
  leTimer :: bool
  leStopped :: bool

datatype election_event = BecameLeader int | LostLeadership string | FencingTokenRejected int

definition LEADER_LOCK_TTL_MS :: int where
  "LEADER_LOCK_TTL_MS = 10000"

definition LEADER_RENEW_INTERVAL_MS :: int where
  "LEADER_RENEW_INTERVAL_MS = 3000"

definition KEY_PREFIX :: string where
  "KEY_PREFIX = ''leader_election''"

definition new_leader_election :: "string \<Rightarrow> string \<Rightarrow> int option \<Rightarrow> int option \<Rightarrow> leader_election" where
  "new_leader_election role instanceId ttl interval =
     \<lparr>leRole = role, leInstanceId = instanceId,
      leTtlMs = (case ttl of Some x \<Rightarrow> x | None \<Rightarrow> LEADER_LOCK_TTL_MS),
      leRenewIntervalMs = (case interval of Some x \<Rightarrow> x | None \<Rightarrow> LEADER_RENEW_INTERVAL_MS),
      leFencingToken = None, leLeader = False, leTimer = False, leStopped = True\<rparr>"

definition lockKey :: "string \<Rightarrow> string" where
  "lockKey role = KEY_PREFIX @ '':'' @ role @ '':lock''"

definition fencingKey :: "string \<Rightarrow> string" where
  "fencingKey role = KEY_PREFIX @ '':'' @ role @ '':fencing_token''"

text \<open>\<open>reachable\<close> is false when the call to Redis fails.\<close>

definition tryAcquireOrRenew ::
  "'r redis \<Rightarrow> int \<Rightarrow> bool \<Rightarrow> leader_election \<Rightarrow> 'r \<Rightarrow> leader_election \<times> 'r \<times> election_event list" where
  "tryAcquireOrRenew R t reachable l s =
     (if \<not> reachable then
        (if leLeader l then (l\<lparr>leLeader := False\<rparr>, s, [LostLeadership ''redis_unavailable'']) else (l, s, []))
      else
        (case ACQUIRE_OR_RENEW_SCRIPT R t (lockKey (leRole l)) (fencingKey (leRole l)) (leInstanceId l) (leTtlMs l) s of
           ((status, token), s1) \<Rightarrow>
             if status = 1 then
               (l\<lparr>leFencingToken := token, leLeader := True\<rparr>, s1, [BecameLeader (case token of Some n \<Rightarrow> n | None \<Rightarrow> 0)])
             else if status = 2 then (l\<lparr>leFencingToken := token, leLeader := True\<rparr>, s1, [])
             else if leLeader l then
               (l\<lparr>leLeader := False\<rparr>, s1, [LostLeadership ''lease_lost_to_another_instance''])
             else (l, s1, [])))"

definition validateFencingToken :: "'r redis \<Rightarrow> int \<Rightarrow> int \<Rightarrow> leader_election \<Rightarrow> 'r \<Rightarrow> bool \<times> election_event list" where
  "validateFencingToken R t token l s =
     (if VALIDATE_FENCING_TOKEN_SCRIPT R t (fencingKey (leRole l)) token s \<noteq> 1
      then (False, [FencingTokenRejected token]) else (True, []))"

definition le_start :: "'r redis \<Rightarrow> int \<Rightarrow> bool \<Rightarrow> leader_election \<Rightarrow> 'r \<Rightarrow> leader_election \<times> 'r \<times> election_event list" where
  "le_start R t reachable l s =
     (if \<not> leStopped l then (l, s, [])
      else case tryAcquireOrRenew R t reachable (l\<lparr>leStopped := False\<rparr>) s of
        (l1, s1, es) \<Rightarrow> (l1\<lparr>leTimer := True\<rparr>, s1, es))"

definition le_stop :: "'r redis \<Rightarrow> int \<Rightarrow> bool \<Rightarrow> leader_election \<Rightarrow> 'r \<Rightarrow> leader_election \<times> 'r" where
  "le_stop R t reachable l s =
     (let l1 = l\<lparr>leStopped := True, leTimer := False\<rparr>;
          (l2, s2) = (if leLeader l1
            then (l1\<lparr>leLeader := False\<rparr>, if reachable then RELEASE_SCRIPT R t (lockKey (leRole l1)) (leInstanceId l1) s else s)
            else (l1, s))
      in (l2\<lparr>leFencingToken := None\<rparr>, s2))"

section \<open>The instances of a role\<close>

record 'r le_sys =
  lsRedis :: 'r
  lsNow :: int
  lsInstances :: "string \<Rightarrow> leader_election"

text \<open>
  Time passes; an instance starts, runs its heartbeat or stops, each with Redis reachable or not; an
  instance crashes and comes back as a new process under its id.
\<close>

inductive le_step :: "'r redis \<Rightarrow> string \<Rightarrow> 'r le_sys \<Rightarrow> 'r le_sys \<Rightarrow> bool" for R :: "'r redis" and role :: string where
  Tick: "lsNow s \<le> t \<Longrightarrow> le_step R role s (s\<lparr>lsNow := t\<rparr>)"
| Start: "le_start R (lsNow s) ok (lsInstances s i) (lsRedis s) = (l, r, es) \<Longrightarrow>
    le_step R role s (s\<lparr>lsRedis := r, lsInstances := (lsInstances s)(i := l)\<rparr>)"
| Heartbeat: "tryAcquireOrRenew R (lsNow s) ok (lsInstances s i) (lsRedis s) = (l, r, es) \<Longrightarrow>
    le_step R role s (s\<lparr>lsRedis := r, lsInstances := (lsInstances s)(i := l)\<rparr>)"
| Stop: "le_stop R (lsNow s) ok (lsInstances s i) (lsRedis s) = (l, r) \<Longrightarrow>
    le_step R role s (s\<lparr>lsRedis := r, lsInstances := (lsInstances s)(i := l)\<rparr>)"
| Crash: "le_step R role s (s\<lparr>lsInstances := (lsInstances s)(i := new_leader_election role i ttl interval)\<rparr>)"

inductive_cases le_stepE: "le_step R role s s'"

inductive le_reach :: "'r redis \<Rightarrow> string \<Rightarrow> 'r le_sys \<Rightarrow> bool" for R :: "'r redis" and role :: string where
  Init: "rKey R r (lockKey role) = None \<Longrightarrow> rKey R r (fencingKey role) = None \<Longrightarrow>
    le_reach R role \<lparr>lsRedis = r, lsNow = now, lsInstances = (\<lambda>i. new_leader_election role i (ttl i) (interval i))\<rparr>"
| Step: "le_reach R role s \<Longrightarrow> le_step R role s s' \<Longrightarrow> le_reach R role s'"

section \<open>The invariant\<close>

lemma lock_fencing_keys [simp]: "lockKey role \<noteq> fencingKey role" "fencingKey role \<noteq> lockKey role"
  by (simp_all add: lockKey_def fencingKey_def)

text \<open>
  Nobody was elected yet, or the counter is at c and the instance \<open>j\<close> is the one that got token c: no
  other instance has it, and the lock entry, live or expired, is of \<open>j\<close>.
\<close>

definition elected :: "'r redis \<Rightarrow> string \<Rightarrow> 'r le_sys \<Rightarrow> int \<Rightarrow> string \<Rightarrow> bool" where
  "elected R role s c j \<longleftrightarrow> 1 \<le> c \<and> rKey R (lsRedis s) (fencingKey role) = Some (show_int c, None)
     \<and> (\<forall>v e. rKey R (lsRedis s) (lockKey role) = Some (v, e) \<longrightarrow> v = j)
     \<and> (\<forall>i n. leFencingToken (lsInstances s i) = Some n \<longrightarrow> n \<le> c \<and> (n = c \<longrightarrow> i = j))"

definition unelected :: "'r redis \<Rightarrow> string \<Rightarrow> 'r le_sys \<Rightarrow> bool" where
  "unelected R role s \<longleftrightarrow> rKey R (lsRedis s) (fencingKey role) = None \<and> rKey R (lsRedis s) (lockKey role) = None
     \<and> (\<forall>i. leFencingToken (lsInstances s i) = None)"

definition le_inv :: "'r redis \<Rightarrow> string \<Rightarrow> 'r le_sys \<Rightarrow> bool" where
  "le_inv R role s \<longleftrightarrow> (\<forall>i. leRole (lsInstances s i) = role \<and> leInstanceId (lsInstances s i) = i)
     \<and> (unelected R role s \<or> (\<exists>c j. elected R role s c j))"

lemma tryAcquire_forms:
  assumes R: "redis_laws R" and step: "tryAcquireOrRenew R t ok l0 s = (l, r, es)"
  defines "lk \<equiv> lockKey (leRole l0)" and "fk \<equiv> fencingKey (leRole l0)" and "i \<equiv> leInstanceId l0"
  defines "s1 \<equiv> rSetPx R t lk i (leTtlMs l0) s"
  shows "(r = s \<and> leFencingToken l = leFencingToken l0)
    \<or> (live t (rKey R s lk) = None \<and> r = snd (rIncr R t fk s1) \<and> leFencingToken l = Some (fst (rIncr R t fk s1)))
    \<or> (live t (rKey R s lk) = Some i \<and> r = rPexpire R t lk (leTtlMs l0) s \<and> leFencingToken l = tonumber (rGet R t fk r))"
proof (cases ok)
  case False
  with step show ?thesis by (simp add: tryAcquireOrRenew_def split: if_splits) auto
next
  case True
  note get = redis_lawsD(1) [OF R]
  show ?thesis
  proof (cases "rGet R t lk s")
    case None
    with step True show ?thesis
      by (auto simp: tryAcquireOrRenew_def ACQUIRE_OR_RENEW_SCRIPT_def Let_def lk_def fk_def i_def s1_def get split: prod.splits)
  next
    case (Some v)
    show ?thesis
    proof (cases "v = i")
      case True
      with Some step \<open>ok\<close> show ?thesis
        by (auto simp: tryAcquireOrRenew_def ACQUIRE_OR_RENEW_SCRIPT_def Let_def lk_def fk_def i_def get)
    next
      case False
      with Some step \<open>ok\<close> show ?thesis
        by (auto simp: tryAcquireOrRenew_def ACQUIRE_OR_RENEW_SCRIPT_def Let_def lk_def fk_def i_def split: if_splits)
    qed
  qed
qed

lemma tryAcquire_ids:
  assumes "tryAcquireOrRenew R t ok l0 s = (l, r, es)"
  shows "leRole l = leRole l0" "leInstanceId l = leInstanceId l0"
  using assms by (auto simp: tryAcquireOrRenew_def split: if_splits prod.splits)

lemma electedI:
  assumes "1 \<le> c" and "rKey R (lsRedis s) (fencingKey role) = Some (show_int c, None)"
    and "\<And>v e. rKey R (lsRedis s) (lockKey role) = Some (v, e) \<Longrightarrow> v = j"
    and "\<And>k n. leFencingToken (lsInstances s k) = Some n \<Longrightarrow> n < c \<or> n = c \<and> k = j"
  shows "elected R role s c j"
  unfolding elected_def using assms by fastforce

lemma electedD:
  assumes "elected R role s c j"
  shows "1 \<le> c" and "rKey R (lsRedis s) (fencingKey role) = Some (show_int c, None)"
    and "rKey R (lsRedis s) (lockKey role) = Some (v, e) \<Longrightarrow> v = j"
    and "leFencingToken (lsInstances s k) = Some n \<Longrightarrow> n < c \<or> n = c \<and> k = j"
  using assms unfolding elected_def by (simp, simp, simp, metis order_le_less)

lemma tryAcquire_cases:
  assumes R: "redis_laws R" and inv: "le_inv R role s"
    and l0: "leRole l0 = role" "leInstanceId l0 = i" "leFencingToken l0 = leFencingToken (lsInstances s i)"
    and step: "tryAcquireOrRenew R (lsNow s) ok l0 (lsRedis s) = (l, r, es)"
  shows "le_inv R role (s\<lparr>lsRedis := r, lsInstances := (lsInstances s)(i := l)\<rparr>)"
proof -
  let ?t = "lsNow s" and ?r = "lsRedis s"
  note laws = redis_lawsD [OF R]
  have ids: "\<forall>k. leRole (lsInstances s k) = role \<and> leInstanceId (lsInstances s k) = k" using inv by (simp add: le_inv_def)
  note cases = tryAcquire_forms [OF R step, unfolded l0(1,2)]
  have lid: "leRole l = role" "leInstanceId l = i" using tryAcquire_ids [OF step] l0 by simp_all
  let ?s' = "s\<lparr>lsRedis := r, lsInstances := (lsInstances s)(i := l)\<rparr>"
  have "unelected R role ?s' \<or> (\<exists>c j. elected R role ?s' c j)"
    using cases
  proof (elim disjE conjE)
    assume same: "r = ?r" "leFencingToken l = leFencingToken l0"
    then have tok: "leFencingToken (((lsInstances s)(i := l)) k) = leFencingToken (lsInstances s k)" for k
      using l0(3) by simp
    from inv same(1) show ?thesis by (simp add: le_inv_def unelected_def elected_def tok del: fun_upd_apply)
  next
    let ?r1 = "rSetPx R ?t (lockKey role) i (leTtlMs l0) ?r"
    assume won: "live ?t (rKey R ?r (lockKey role)) = None" "r = snd (rIncr R ?t (fencingKey role) ?r1)"
      "leFencingToken l = Some (fst (rIncr R ?t (fencingKey role) ?r1))"
    have k1: "rKey R ?r1 = (rKey R ?r)(lockKey role := Some (i, Some (?t + leTtlMs l0)))" by (rule laws(2))
    from inv consider (none) "unelected R role s" | (some) c j where "elected R role s c j"
      by (auto simp: le_inv_def)
    then show ?thesis
    proof cases
      case none
      then have "live ?t (rKey R ?r1 (fencingKey role)) = None" by (simp add: k1 unelected_def)
      note inc = laws(3) [OF this]
      have "elected R role ?s' 1 i"
      proof (rule electedI)
        show "v = i" if "rKey R (lsRedis ?s') (lockKey role) = Some (v, e)" for v e
          using that won(2) inc by (simp add: k1)
        show "n < 1 \<or> n = 1 \<and> k = i" if "leFencingToken (lsInstances ?s' k) = Some n" for k n
          using that won(3) inc none by (auto simp: unelected_def split: if_splits)
      qed (use won(2) inc in simp_all)
      then show ?thesis by blast
    next
      case some
      then have key: "rKey R ?r1 (fencingKey role) = Some (show_int c, None)" by (simp add: k1 elected_def)
      have inc: "fst (rIncr R ?t (fencingKey role) ?r1) = c + 1 \<and>
          rKey R (snd (rIncr R ?t (fencingKey role) ?r1)) = (rKey R ?r1)(fencingKey role := Some (show_int (c + 1), None))"
        by (rule laws(4) [OF key]) (use electedD(1) [OF some] in \<open>simp_all add: key\<close>)
      have "elected R role ?s' (c + 1) i"
      proof (rule electedI)
        show "1 \<le> c + 1" using electedD(1) [OF some] by simp
        show "v = i" if "rKey R (lsRedis ?s') (lockKey role) = Some (v, e)" for v e
          using that won(2) inc by (simp add: k1)
        show "n < c + 1 \<or> n = c + 1 \<and> k = i" if n: "leFencingToken (lsInstances ?s' k) = Some n" for k n
        proof (cases "k = i")
          case True
          then show ?thesis using n won(3) inc by simp
        next
          case False
          then show ?thesis using n electedD(4) [OF some, of k n] by auto
        qed
      qed (use won(2) inc in simp_all)
      then show ?thesis by blast
    qed
  next
    assume renewed: "live ?t (rKey R ?r (lockKey role)) = Some i" "r = rPexpire R ?t (lockKey role) (leTtlMs l0) ?r"
      "leFencingToken l = tonumber (rGet R ?t (fencingKey role) r)"
    obtain e where e: "rKey R ?r (lockKey role) = Some (i, e)" using live_Some [OF renewed(1)] by blast
    then obtain c j where cj: "elected R role s c j" using inv by (auto simp: le_inv_def unelected_def)
    have j: "j = i" using electedD(3) [OF cj e] by simp
    have k1: "rKey R r = (rKey R ?r)(lockKey role := Some (i, Some (?t + leTtlMs l0)))"
      unfolding renewed(2) by (rule laws(5) [OF e]) (simp add: renewed(1))
    have "rGet R ?t (fencingKey role) r = Some (show_int c)"
      by (simp add: laws(1) k1 electedD(2) [OF cj])
    then have tok: "leFencingToken l = Some c"
      using renewed(3) electedD(1) [OF cj] by (simp add: tonumber_def parse_show_int)
    have "elected R role ?s' c i"
    proof (rule electedI)
      show "n < c \<or> n = c \<and> k = i" if n: "leFencingToken (lsInstances ?s' k) = Some n" for k n
        using n tok electedD(4) [OF cj, of k n] j by (cases "k = i") auto
    qed (use k1 electedD(1,2) [OF cj] in simp_all)
    then show ?thesis by blast
  qed
  then show ?thesis using ids lid by (simp add: le_inv_def)
qed

lemma le_inv_cong:
  assumes "le_inv R role s" and "lsRedis s' = lsRedis s"
    and "\<And>k. leRole (lsInstances s' k) = leRole (lsInstances s k) \<and> leInstanceId (lsInstances s' k) = leInstanceId (lsInstances s k)
      \<and> leFencingToken (lsInstances s' k) = leFencingToken (lsInstances s k)"
  shows "le_inv R role s'"
  using assms by (simp add: le_inv_def unelected_def elected_def)

lemma le_inv_drop:
  assumes inv: "le_inv R role s"
    and "r = lsRedis s \<or> rKey R r = (rKey R (lsRedis s))(lockKey role := None)"
    and "leRole l = role" "leInstanceId l = i" "leFencingToken l = None"
  shows "le_inv R role (s\<lparr>lsRedis := r, lsInstances := (lsInstances s)(i := l)\<rparr>)"
proof -
  let ?s = "s\<lparr>lsRedis := r, lsInstances := (lsInstances s)(i := l)\<rparr>"
  from inv consider (none) "unelected R role s" | (some) c j where "elected R role s c j"
    by (auto simp: le_inv_def)
  then have "unelected R role ?s \<or> (\<exists>c j. elected R role ?s c j)"
  proof cases
    case none
    then show ?thesis using assms(2,5) by (auto simp: unelected_def)
  next
    case some
    have "elected R role ?s c j"
    proof (rule electedI)
      show "1 \<le> c" by (rule electedD(1) [OF some])
      show "rKey R (lsRedis ?s) (fencingKey role) = Some (show_int c, None)"
        using assms(2) electedD(2) [OF some] by auto
      show "v = j" if "rKey R (lsRedis ?s) (lockKey role) = Some (v, e)" for v e
        using that assms(2) electedD(3) [OF some, of v e] by auto
      show "n < c \<or> n = c \<and> k = j" if "leFencingToken (lsInstances ?s k) = Some n" for k n
        using that assms(5) electedD(4) [OF some, of k n] by (auto split: if_splits)
    qed
    then show ?thesis by blast
  qed
  then show ?thesis using inv assms(3,4) by (simp add: le_inv_def)
qed

lemma le_inv_step:
  assumes R: "redis_laws R" and "le_step R role s s'" and inv: "le_inv R role s"
  shows "le_inv R role s'"
  using assms(2,3)
proof (induction rule: le_step.induct)
  case (Tick s t)
  then show ?case by (simp add: le_inv_def unelected_def elected_def)
next
  case (Start s ok i l r es)
  have ids: "leRole (lsInstances s i) = role" "leInstanceId (lsInstances s i) = i" using Start(2) by (simp_all add: le_inv_def)
  show ?case
  proof (cases "leStopped (lsInstances s i)")
    case False
    then have "l = lsInstances s i" "r = lsRedis s" using Start(1) by (auto simp: le_start_def)
    then show ?thesis using Start(2) by simp
  next
    case True
    obtain l1 where st: "tryAcquireOrRenew R (lsNow s) ok ((lsInstances s i)\<lparr>leStopped := False\<rparr>) (lsRedis s) = (l1, r, es)"
      and l: "l = l1\<lparr>leTimer := True\<rparr>"
      using Start(1) True by (auto simp: le_start_def split: prod.splits)
    have "le_inv R role (s\<lparr>lsRedis := r, lsInstances := (lsInstances s)(i := l1)\<rparr>)"
      by (rule tryAcquire_cases [OF R Start(2) _ _ _ st]) (use ids in simp_all)
    then show ?thesis by (rule le_inv_cong) (simp_all add: l)
  qed
next
  case (Heartbeat s ok i l r es)
  show ?case
    by (rule tryAcquire_cases [OF R Heartbeat(2) _ _ _ Heartbeat(1)]) (use Heartbeat(2) in \<open>simp_all add: le_inv_def\<close>)
next
  case (Stop s ok i l r)
  have ids: "leRole (lsInstances s i) = role" "leInstanceId (lsInstances s i) = i" using Stop(2) by (simp_all add: le_inv_def)
  have tok: "leFencingToken l = None" "leRole l = role" "leInstanceId l = i"
    using Stop(1) ids by (auto simp: le_stop_def Let_def split: if_splits)
  have "r = lsRedis s \<or> rKey R r = (rKey R (lsRedis s))(lockKey role := None)"
    using Stop(1) ids by (auto simp: le_stop_def RELEASE_SCRIPT_def Let_def redis_lawsD(6) [OF R] split: if_splits)
  then show ?case by (rule le_inv_drop [OF Stop(2)]) (use tok in \<open>auto\<close>)
next
  case (Crash s i ttl interval)
  have "le_inv R role (s\<lparr>lsRedis := lsRedis s, lsInstances := (lsInstances s)(i := new_leader_election role i ttl interval)\<rparr>)"
    by (rule le_inv_drop [OF Crash]) (simp_all add: new_leader_election_def)
  then show ?case by simp
qed

lemma le_reach_inv: "le_reach R role s \<Longrightarrow> redis_laws R \<Longrightarrow> le_inv R role s"
proof (induction rule: le_reach.induct)
  case (Init r now ttl interval)
  then show ?case by (simp add: le_inv_def unelected_def new_leader_election_def)
next
  case (Step s s')
  then show ?case by (blast intro: le_inv_step)
qed

lemma validate_iff:
  assumes "redis_laws R" and "elected R role s c j" and "leRole l = role"
  shows "fst (validateFencingToken R t n l (lsRedis s)) \<longleftrightarrow> n = c"
  using assms(2) by (simp add: validateFencingToken_def VALIDATE_FENCING_TOKEN_SCRIPT_def Let_def redis_lawsD(1) [OF assms(1)]
      assms(3) elected_def tonumber_def parse_show_int)

section \<open>An example\<close>

definition heartbeat :: "'r redis \<Rightarrow> bool \<Rightarrow> string \<Rightarrow> 'r le_sys \<Rightarrow> 'r le_sys" where
  "heartbeat R ok i s = (case tryAcquireOrRenew R (lsNow s) ok (lsInstances s i) (lsRedis s) of
     (l, r, es) \<Rightarrow> s\<lparr>lsRedis := r, lsInstances := (lsInstances s)(i := l)\<rparr>)"

lemma heartbeat_reach: "le_reach R role s \<Longrightarrow> le_reach R role (heartbeat R ok i s)"
  unfolding heartbeat_def by (auto split: prod.splits intro: le_reach.Step le_step.Heartbeat)

text \<open>Two workers: \<open>a\<close> wins at 0 and dies; the lease has expired at 20000.\<close>

definition le_example :: "(string \<Rightarrow> (string \<times> int option) option) le_sys" where
  "le_example = (heartbeat mem_redis True ''a''
     \<lparr>lsRedis = Map.empty, lsNow = 0, lsInstances = (\<lambda>i. new_leader_election ''w'' i None None)\<rparr>)\<lparr>lsNow := 20000\<rparr>"

lemma le_example_reach: "le_reach mem_redis ''w'' le_example"
  unfolding le_example_def
  by (rule le_reach.Step [OF heartbeat_reach le_step.Tick])
    (auto intro!: le_reach.Init simp: mem_redis_def heartbeat_def split: prod.splits)

lemmas le_eval = le_example_def heartbeat_def tryAcquireOrRenew_def ACQUIRE_OR_RENEW_SCRIPT_def mem_redis_def live_def
  new_leader_election_def LEADER_LOCK_TTL_MS_def Let_def validateFencingToken_def VALIDATE_FENCING_TOKEN_SCRIPT_def tonumber_def

text \<open>C8: Fencing is safe: whatever the interleaving of heartbeats, stops, crashes, Redis outages and lease
  expiries, at any moment the tokens that pass validation are held by a single instance: a former
  leader that has not noticed its demotion cannot commit beside the current one.\<close>

theorem at_most_one_valid_token:
  assumes "redis_laws R" and "le_reach R role s"
    and "leFencingToken (lsInstances s i) = Some n" and "leFencingToken (lsInstances s k) = Some m"
    and "fst (validateFencingToken R (lsNow s) n (lsInstances s i) (lsRedis s))"
    and "fst (validateFencingToken R (lsNow s) m (lsInstances s k) (lsRedis s))"
  shows "i = k \<and> n = m"
proof -
  have inv: "le_inv R role s" by (rule le_reach_inv [OF assms(2,1)])
  then obtain c j where e: "elected R role s c j"
    using assms(3) by (auto simp: le_inv_def unelected_def)
  have "leRole (lsInstances s i) = role" "leRole (lsInstances s k) = role" using inv by (simp_all add: le_inv_def)
  then have "n = c" "m = c" using assms(5,6) validate_iff [OF assms(1) e] by auto
  then show ?thesis using electedD(4) [OF e assms(3)] electedD(4) [OF e assms(4)] by simp
qed

theorem at_most_one_valid_token_witness:
  "leFencingToken (lsInstances (heartbeat mem_redis True ''b'' le_example) ''b'') = Some 2
   \<and> (''b'' = ''b'' \<and> (2::int) = 2)"
proof (rule conjI)
  let ?s = "heartbeat mem_redis True ''b'' le_example"
  show tok: "leFencingToken (lsInstances ?s ''b'') = Some 2"
    by (simp add: le_eval parse_show_int)
  have "fst (validateFencingToken mem_redis (lsNow ?s) 2 (lsInstances ?s ''b'') (lsRedis ?s))"
    by (simp add: le_eval parse_show_int)
  from at_most_one_valid_token [OF mem_redis_laws heartbeat_reach [OF le_example_reach] tok tok this this]
  show "''b'' = ''b'' \<and> (2::int) = 2" .
qed

text \<open>C34: Failover: once the lease of a dead leader has expired (or was released), the next heartbeat of any
  instance that reaches Redis makes it the leader, with a fencing token larger than every token held
  by any instance, so that all of those are rejected from then on.\<close>

theorem standby_takes_over:
  assumes "redis_laws R" and "le_reach R role s" and "rGet R (lsNow s) (lockKey role) (lsRedis s) = None"
    and "tryAcquireOrRenew R (lsNow s) True (lsInstances s i) (lsRedis s) = (l, r, es)"
  shows "leLeader l \<and> (\<exists>n. leFencingToken l = Some n
    \<and> (\<forall>k m. leFencingToken (lsInstances s k) = Some m \<longrightarrow> m < n
        \<and> \<not> fst (validateFencingToken R t m (lsInstances s k) r)))"
proof -
  let ?t = "lsNow s" and ?r = "lsRedis s" and ?x = "lsInstances s i"
  let ?r1 = "rSetPx R ?t (lockKey role) i (leTtlMs ?x) ?r"
  have inv: "le_inv R role s" by (rule le_reach_inv [OF assms(2,1)])
  then have ids: "leRole (lsInstances s k) = role" "leInstanceId (lsInstances s k) = k" for k by (simp_all add: le_inv_def)
  have l: "leLeader l" "leFencingToken l = Some (fst (rIncr R ?t (fencingKey role) ?r1))"
    "r = snd (rIncr R ?t (fencingKey role) ?r1)"
    using assms(3,4) by (auto simp: tryAcquireOrRenew_def ACQUIRE_OR_RENEW_SCRIPT_def Let_def ids split: prod.splits)
  have inv': "le_inv R role (s\<lparr>lsRedis := r, lsInstances := (lsInstances s)(i := l)\<rparr>)"
    by (rule tryAcquire_cases [OF assms(1) inv _ _ _ assms(4)]) (simp_all add: ids)
  have k1: "rKey R ?r1 (fencingKey role) = rKey R ?r (fencingKey role)"
    by (simp add: redis_lawsD(2) [OF assms(1)])
  have less: "m < n" if "leFencingToken l = Some n" "leFencingToken (lsInstances s k) = Some m" for k m n
  proof -
    obtain c j where e: "elected R role s c j" using inv \<open>leFencingToken (lsInstances s k) = Some m\<close> by (auto simp: le_inv_def unelected_def)
    then have key: "rKey R ?r1 (fencingKey role) = Some (show_int c, None)" by (simp add: k1 elected_def)
    have "n = c + 1" using redis_lawsD(4) [OF assms(1) key, of ?t] electedD(1) [OF e] l(2) that(1) by (simp add: key)
    then show ?thesis using electedD(4) [OF e that(2)] by auto
  qed
  define n where "n = fst (rIncr R ?t (fencingKey role) ?r1)"
  have n: "leFencingToken l = Some n" by (simp add: l(2) n_def)
  let ?s' = "s\<lparr>lsRedis := r, lsInstances := (lsInstances s)(i := l)\<rparr>"
  have "\<not> unelected R role ?s'" using n by (auto simp: unelected_def)
  then obtain c j where e: "elected R role ?s' c j" using inv' by (auto simp: le_inv_def)
  have "n \<le> c" using electedD(4) [OF e, of i n] n by auto
  then have invalid: "\<not> fst (validateFencingToken R t m (lsInstances s k) r)"
    if "leFencingToken (lsInstances s k) = Some m" for k m
    using less [OF n that] validate_iff [OF assms(1) e ids(1) [of k], of t m] by simp
  show ?thesis
    by (intro conjI exI allI impI) (fact l(1), fact n, erule less [OF n], erule invalid)
qed

theorem standby_takes_over_witness:
  "leLeader (fst (tryAcquireOrRenew mem_redis 20000 True (lsInstances le_example ''b'') (lsRedis le_example)))"
proof -
  obtain l r es where step: "tryAcquireOrRenew mem_redis (lsNow le_example) True (lsInstances le_example ''b'') (lsRedis le_example) = (l, r, es)"
    by (metis prod_cases3)
  have now: "lsNow le_example = 20000" by (simp add: le_example_def)
  have "rGet mem_redis (lsNow le_example) (lockKey ''w'') (lsRedis le_example) = None"
    by (simp add: le_eval)
  from standby_takes_over [OF mem_redis_laws le_example_reach this step] step now show ?thesis by simp
qed

end
