(* ===== verification/Saga_Coordinator.thy ===== *)
theory Saga_Coordinator
  imports Prelude
begin

text \<open>
  \<open>backend/src/services/sagaCoordinator.ts\<close>: multi-step operations with compensation, persisted in
  the table \<open>SagaExecution\<close> after every step.

  A step is a pair of functions on the outside world \<open>'w\<close>. Every call the coordinator awaits (a
  step, a compensation, a query) consumes one entry of a fault schedule: the call succeeds, rejects,
  or the process dies before or after the call has taken effect. The log of the calls that took
  effect is the specification's history; the coordinator never reads it.
\<close>

section \<open>Awaited calls\<close>

text \<open>A thrown value is an \<open>Error\<close> with a message, or something else.\<close>

type_synonym thrown = "string option"

datatype fault = NoFault | Rejects thrown | CrashBefore | CrashAfter

datatype 'a outcome = Ret 'a | Throw thrown | Crash

datatype saga_event = Executed nat | ExecuteFailed nat | Compensated nat | CompensateFailed nat

datatype saga_status = RUNNING | COMPLETED | COMPENSATING | COMPENSATED | FAILED
datatype compensation_status = NOT_STARTED | IN_PROGRESS | COMP_COMPLETED

type_synonym 'v saga_ctx = "string \<rightharpoonup> 'v"

record ('v, 'w) saga_step =
  stepName :: string
  stepExecute :: "'v saga_ctx \<Rightarrow> 'w \<Rightarrow> (thrown, 'v saga_ctx option) res \<times> 'w"
  stepCompensate :: "'v saga_ctx \<Rightarrow> 'w \<Rightarrow> (thrown, unit) res \<times> 'w"

record ('v, 'w) saga_definition =
  defSagaType :: string
  defSteps :: "('v, 'w) saga_step list"

record 'v saga_row =
  sgType :: string
  sgStatus :: saga_status
  sgIndex :: nat
  sgStepCount :: nat
  sgContext :: "'v saga_ctx"
  sgCompensation :: compensation_status
  sgCompensatedIndex :: "nat option"
  sgError :: "string option"
  sgCompletedAt :: "int option"

record 'v saga_result =
  resStatus :: saga_status
  resContext :: "'v saga_ctx"
  resError :: "string option"

record ('v, 'w) saga_env =
  seTable :: "(string, 'v saga_row) jsmap"
  seWorld :: 'w
  seLog :: "(string \<times> saga_event) list"
  seFaults :: "fault list"

fun crashed :: "'a outcome \<Rightarrow> bool" where
  "crashed Crash = True"
| "crashed (Ret x) = False"
| "crashed (Throw x) = False"

definition await :: "(('v, 'w) saga_env \<Rightarrow> 'a outcome \<times> ('v, 'w) saga_env) \<Rightarrow> ('v, 'w) saga_env \<Rightarrow> 'a outcome \<times> ('v, 'w) saga_env" where
  "await call e =
     (case seFaults e of
        [] \<Rightarrow> call e
      | f # fs \<Rightarrow>
          let e1 = e\<lparr>seFaults := fs\<rparr>
          in case f of
               NoFault \<Rightarrow> call e1
             | Rejects x \<Rightarrow> (Throw x, e1)
             | CrashBefore \<Rightarrow> (Crash, e1)
             | CrashAfter \<Rightarrow> (Crash, snd (call e1)))"

definition callExecute ::
  "string \<Rightarrow> nat \<Rightarrow> ('v, 'w) saga_step \<Rightarrow> 'v saga_ctx \<Rightarrow> ('v, 'w) saga_env \<Rightarrow> 'v saga_ctx option outcome \<times> ('v, 'w) saga_env" where
  "callExecute sagaId i step ctx e =
     (case stepExecute step ctx (seWorld e) of
        (Inl x, w) \<Rightarrow> (Throw x, e\<lparr>seWorld := w, seLog := seLog e @ [(sagaId, ExecuteFailed i)]\<rparr>)
      | (Inr patch, w) \<Rightarrow> (Ret patch, e\<lparr>seWorld := w, seLog := seLog e @ [(sagaId, Executed i)]\<rparr>))"

definition callCompensate ::
  "string \<Rightarrow> nat \<Rightarrow> ('v, 'w) saga_step \<Rightarrow> 'v saga_ctx \<Rightarrow> ('v, 'w) saga_env \<Rightarrow> unit outcome \<times> ('v, 'w) saga_env" where
  "callCompensate sagaId i step ctx e =
     (case stepCompensate step ctx (seWorld e) of
        (Inl x, w) \<Rightarrow> (Throw x, e\<lparr>seWorld := w, seLog := seLog e @ [(sagaId, CompensateFailed i)]\<rparr>)
      | (Inr _, w) \<Rightarrow> (Ret (), e\<lparr>seWorld := w, seLog := seLog e @ [(sagaId, Compensated i)]\<rparr>))"

text \<open>\<open>prisma.sagaExecution.update\<close> rejects when no row has the id.\<close>

definition updateSaga :: "string \<Rightarrow> ('v saga_row \<Rightarrow> 'v saga_row) \<Rightarrow> ('v, 'w) saga_env \<Rightarrow> unit outcome \<times> ('v, 'w) saga_env" where
  "updateSaga sagaId f e =
     (case jm_get (seTable e) sagaId of
        None \<Rightarrow> (Throw (Some ''Record to update not found''), e)
      | Some r \<Rightarrow> (Ret (), e\<lparr>seTable := jm_set (seTable e) sagaId (f r)\<rparr>))"

definition createSaga :: "string \<Rightarrow> 'v saga_row \<Rightarrow> ('v, 'w) saga_env \<Rightarrow> unit outcome \<times> ('v, 'w) saga_env" where
  "createSaga sagaId r e = (Ret (), e\<lparr>seTable := jm_set (seTable e) sagaId r\<rparr>)"

section \<open>The coordinator\<close>

definition registerSaga ::
  "('v, 'w) saga_definition \<Rightarrow> (string, ('v, 'w) saga_definition) jsmap \<Rightarrow> (string, ('v, 'w) saga_definition) jsmap" where
  "registerSaga d defs = jm_set defs (defSagaType d) d"

definition getDefinition ::
  "string \<Rightarrow> (string, ('v, 'w) saga_definition) jsmap \<Rightarrow> (thrown, ('v, 'w) saga_definition) res" where
  "getDefinition sagaType defs =
     (case jm_get defs sagaType of
        None \<Rightarrow> Inl (Some (''No saga definition registered for sagaType \"'' @ sagaType @ ''\"''))
      | Some d \<Rightarrow> Inr d)"

text \<open>The loop over \<open>i = failedIndex - 1 .. 0\<close>.\<close>

fun runCompensation ::
  "string \<Rightarrow> ('v, 'w) saga_definition \<Rightarrow> 'v saga_ctx \<Rightarrow> nat \<Rightarrow> ('v, 'w) saga_env \<Rightarrow> unit outcome \<times> ('v, 'w) saga_env" where
  "runCompensation sagaId d ctx 0 e =
     await (updateSaga sagaId (\<lambda>r. r\<lparr>sgStatus := COMPENSATED, sgCompensation := COMP_COMPLETED\<rparr>)) e"
| "runCompensation sagaId d ctx (Suc i) e =
     (case await (callCompensate sagaId i (defSteps d ! i) ctx) e of
        (Ret _, e1) \<Rightarrow>
          (case await (updateSaga sagaId (\<lambda>r. r\<lparr>sgCompensation := IN_PROGRESS, sgCompensatedIndex := Some i\<rparr>)) e1 of
             (Ret _, e2) \<Rightarrow> runCompensation sagaId d ctx i e2
           | (Throw x, e2) \<Rightarrow> (Throw x, e2)
           | (Crash, e2) \<Rightarrow> (Crash, e2))
      | (Throw x, e1) \<Rightarrow> (Throw x, e1)
      | (Crash, e1) \<Rightarrow> (Crash, e1))"

definition thrownMessage :: "thrown \<Rightarrow> string" where
  "thrownMessage x = (case x of Some msg \<Rightarrow> msg | None \<Rightarrow> ''Saga step failed'')"

text \<open>The handler of a failed step \<open>i\<close>.\<close>

definition stepFailed ::
  "string \<Rightarrow> ('v, 'w) saga_definition \<Rightarrow> 'v saga_ctx \<Rightarrow> nat \<Rightarrow> thrown \<Rightarrow> ('v, 'w) saga_env \<Rightarrow> 'v saga_result outcome \<times> ('v, 'w) saga_env" where
  "stepFailed sagaId d ctx i x e =
     (let message = thrownMessage x
      in case await (updateSaga sagaId
               (\<lambda>r. r\<lparr>sgStatus := COMPENSATING, sgError := Some message, sgContext := ctx, sgIndex := i\<rparr>)) e of
           (Ret _, e1) \<Rightarrow>
             (case runCompensation sagaId d ctx i e1 of
                (Ret _, e2) \<Rightarrow> (Ret \<lparr>resStatus = COMPENSATED, resContext = ctx, resError = Some message\<rparr>, e2)
              | (Throw y, e2) \<Rightarrow> (Throw y, e2)
              | (Crash, e2) \<Rightarrow> (Crash, e2))
         | (Throw y, e1) \<Rightarrow> (Throw y, e1)
         | (Crash, e1) \<Rightarrow> (Crash, e1))"

definition mergeContext :: "'v saga_ctx \<Rightarrow> 'v saga_ctx option \<Rightarrow> 'v saga_ctx" where
  "mergeContext ctx patch = (case patch of None \<Rightarrow> ctx | Some p \<Rightarrow> ctx ++ p)"

function executeFrom ::
  "int \<Rightarrow> string \<Rightarrow> ('v, 'w) saga_definition \<Rightarrow> 'v saga_ctx \<Rightarrow> nat \<Rightarrow> ('v, 'w) saga_env \<Rightarrow> 'v saga_result outcome \<times> ('v, 'w) saga_env" where
  "executeFrom now sagaId d ctx i e =
     (if i < length (defSteps d) then
        (case await (callExecute sagaId i (defSteps d ! i) ctx) e of
           (Ret patch, e1) \<Rightarrow>
             (let ctx1 = mergeContext ctx patch
              in case await (updateSaga sagaId (\<lambda>r. r\<lparr>sgIndex := i + 1, sgContext := ctx1\<rparr>)) e1 of
                   (Ret _, e2) \<Rightarrow> executeFrom now sagaId d ctx1 (i + 1) e2
                 | (Throw x, e2) \<Rightarrow> stepFailed sagaId d ctx1 i x e2
                 | (Crash, e2) \<Rightarrow> (Crash, e2))
         | (Throw x, e1) \<Rightarrow> stepFailed sagaId d ctx i x e1
         | (Crash, e1) \<Rightarrow> (Crash, e1))
      else
        (case await (updateSaga sagaId (\<lambda>r. r\<lparr>sgStatus := COMPLETED, sgCompletedAt := Some now, sgContext := ctx\<rparr>)) e of
           (Ret _, e1) \<Rightarrow> (Ret \<lparr>resStatus = COMPLETED, resContext = ctx, resError = None\<rparr>, e1)
         | (Throw x, e1) \<Rightarrow> (Throw x, e1)
         | (Crash, e1) \<Rightarrow> (Crash, e1)))"
  by pat_completeness auto
termination by (relation "measure (\<lambda>(now, sagaId, d, ctx, i, e). length (defSteps d) - i)") auto

declare executeFrom.simps [simp del]

text \<open>\<open>sagaId\<close> is the id the database generates for the new row.\<close>

definition runSaga ::
  "(string, ('v, 'w) saga_definition) jsmap \<Rightarrow> int \<Rightarrow> string \<Rightarrow> string \<Rightarrow> 'v saga_ctx \<Rightarrow> ('v, 'w) saga_env
    \<Rightarrow> 'v saga_result outcome \<times> ('v, 'w) saga_env" where
  "runSaga defs now sagaId sagaType initialContext e =
     (case getDefinition sagaType defs of
        Inl x \<Rightarrow> (Throw x, e)
      | Inr d \<Rightarrow>
          (case await (createSaga sagaId
              \<lparr>sgType = sagaType, sgStatus = RUNNING, sgIndex = 0, sgStepCount = length (defSteps d), sgContext = initialContext,
               sgCompensation = NOT_STARTED, sgCompensatedIndex = None, sgError = None, sgCompletedAt = None\<rparr>) e of
             (Ret _, e1) \<Rightarrow> executeFrom now sagaId d initialContext 0 e1
           | (Throw x, e1) \<Rightarrow> (Throw x, e1)
           | (Crash, e1) \<Rightarrow> (Crash, e1)))"

text \<open>One iteration of the recovery loop: an error of one saga does not stop the others.\<close>

definition recoverOne ::
  "(string, ('v, 'w) saga_definition) jsmap \<Rightarrow> int \<Rightarrow> string \<Rightarrow> 'v saga_row \<Rightarrow> ('v, 'w) saga_env \<Rightarrow> bool \<times> ('v, 'w) saga_env" where
  "recoverOne defs now sagaId r e =
     (case jm_get defs (sgType r) of
        None \<Rightarrow> (True, e)
      | Some d \<Rightarrow>
          if sgStatus r = RUNNING then
            (case executeFrom now sagaId d (sgContext r) (sgIndex r) e of (out, e1) \<Rightarrow> (\<not> crashed out, e1))
          else
            (let resumeFrom = (case sgCompensatedIndex r of Some j \<Rightarrow> j | None \<Rightarrow> sgIndex r)
             in case runCompensation sagaId d (sgContext r) resumeFrom e of (out, e1) \<Rightarrow> (\<not> crashed out, e1)))"

fun recoverAll ::
  "(string, ('v, 'w) saga_definition) jsmap \<Rightarrow> int \<Rightarrow> (string \<times> 'v saga_row) list \<Rightarrow> ('v, 'w) saga_env \<Rightarrow> unit outcome \<times> ('v, 'w) saga_env" where
  "recoverAll defs now [] e = (Ret (), e)"
| "recoverAll defs now ((sagaId, r) # rows) e =
     (case recoverOne defs now sagaId r e of
        (True, e1) \<Rightarrow> recoverAll defs now rows e1
      | (False, e1) \<Rightarrow> (Crash, e1))"

definition findInterrupted :: "('v, 'w) saga_env \<Rightarrow> (string \<times> 'v saga_row) list outcome \<times> ('v, 'w) saga_env" where
  "findInterrupted e = (Ret (filter (\<lambda>(k, r). sgStatus r = RUNNING \<or> sgStatus r = COMPENSATING) (seTable e)), e)"

definition recoverInterruptedSagas ::
  "(string, ('v, 'w) saga_definition) jsmap \<Rightarrow> int \<Rightarrow> ('v, 'w) saga_env \<Rightarrow> unit outcome \<times> ('v, 'w) saga_env" where
  "recoverInterruptedSagas defs now e =
     (case await findInterrupted e of
        (Ret interrupted, e1) \<Rightarrow> recoverAll defs now interrupted e1
      | (Throw x, e1) \<Rightarrow> (Throw x, e1)
      | (Crash, e1) \<Rightarrow> (Crash, e1))"

section \<open>Histories\<close>

definition evs :: "string \<Rightarrow> ('v, 'w) saga_env \<Rightarrow> saga_event list" where
  "evs sagaId e = map snd (filter (\<lambda>p. fst p = sagaId) (seLog e))"

fun comp_index :: "saga_event \<Rightarrow> nat option" where
  "comp_index (Compensated i) = Some i"
| "comp_index (CompensateFailed i) = Some i"
| "comp_index (Executed i) = None"
| "comp_index (ExecuteFailed i) = None"

definition comps :: "saga_event list \<Rightarrow> nat list" where
  "comps es = List.map_filter comp_index es"

definition comp_pos :: "'v saga_row \<Rightarrow> nat" where
  "comp_pos r = (case sgCompensatedIndex r of Some j \<Rightarrow> j | None \<Rightarrow> sgIndex r)"

text \<open>What a row promises of the saga's history, for a definition with \<open>n\<close> steps.\<close>

definition forward_ok :: "nat \<Rightarrow> 'v saga_row \<Rightarrow> saga_event list \<Rightarrow> bool" where
  "forward_ok n r es \<longleftrightarrow> sgIndex r \<le> n \<and> (\<forall>i < sgIndex r. Executed i \<in> set es) \<and> (\<forall>i. Executed i \<in> set es \<longrightarrow> i \<le> sgIndex r)"

definition backward_ok :: "'v saga_row \<Rightarrow> saga_event list \<Rightarrow> bool" where
  "backward_ok r es \<longleftrightarrow> comp_pos r \<le> sgIndex r \<and> sorted_wrt (\<ge>) (comps es)
     \<and> (\<forall>i. comp_pos r \<le> i \<longrightarrow> i < sgIndex r \<longrightarrow> Compensated i \<in> set es)
     \<and> (\<forall>i \<in> set (comps es). comp_pos r \<le> Suc i \<and> i < sgIndex r)"

definition saga_ok :: "nat \<Rightarrow> 'v saga_row \<Rightarrow> saga_event list \<Rightarrow> bool" where
  "saga_ok n r es \<longleftrightarrow> forward_ok n r es \<and>
     (case sgStatus r of
        RUNNING \<Rightarrow> comps es = [] \<and> sgCompensatedIndex r = None
      | COMPLETED \<Rightarrow> comps es = [] \<and> sgIndex r = n
      | COMPENSATING \<Rightarrow> backward_ok r es
      | COMPENSATED \<Rightarrow> backward_ok r es \<and> comp_pos r = 0
      | FAILED \<Rightarrow> False)"

definition good :: "nat \<Rightarrow> string \<Rightarrow> ('v, 'w) saga_env \<Rightarrow> 'v saga_row \<Rightarrow> bool" where
  "good n k e r \<longleftrightarrow> jm_get (seTable e) k = Some r \<and> saga_ok n r (evs k e)"

text \<open>An operation on the saga \<open>k\<close> leaves the others alone.\<close>

definition frame :: "string \<Rightarrow> ('v, 'w) saga_env \<Rightarrow> ('v, 'w) saga_env \<Rightarrow> bool" where
  "frame k e e' \<longleftrightarrow> (jm_wf (seTable e) \<longrightarrow> jm_wf (seTable e'))
     \<and> (\<forall>j. j \<noteq> k \<longrightarrow> jm_get (seTable e') j = jm_get (seTable e) j \<and> evs j e' = evs j e)"

lemma frame_refl [simp]: "frame k e e" "frame k e (e\<lparr>seFaults := fs\<rparr>)"
  by (simp_all add: frame_def evs_def)

lemma frame_trans: "frame k e e1 \<Longrightarrow> frame k e1 e2 \<Longrightarrow> frame k e e2"
  by (simp add: frame_def)

lemma comps_simps [simp]:
  "comps [] = []" "comps (es @ es') = comps es @ comps es'"
  "comps [Compensated i] = [i]" "comps [CompensateFailed i] = [i]"
  "comps [Executed i] = []" "comps [ExecuteFailed i] = []"
  by (simp_all add: comps_def List.map_filter_def)

lemma evs_simps [simp]:
  "evs k (e\<lparr>seFaults := fs\<rparr>) = evs k e" "evs k (e\<lparr>seTable := t\<rparr>) = evs k e" "evs k (e\<lparr>seWorld := w\<rparr>) = evs k e"
  "evs k (e\<lparr>seLog := seLog e @ [(j, x)]\<rparr>) = (if j = k then evs k e @ [x] else evs k e)"
  by (simp_all add: evs_def)

text \<open>An awaited call takes effect, or it rejects or crashes without effect, or its result is lost.\<close>

lemma await_cases:
  assumes "await call e = (out, e')"
  obtains (took) fs where "call (e\<lparr>seFaults := fs\<rparr>) = (out, e')"
    | (failed) fs where "e' = e\<lparr>seFaults := fs\<rparr>" and "\<forall>x. out \<noteq> Ret x"
    | (lost) fs out' where "call (e\<lparr>seFaults := fs\<rparr>) = (out', e')" and "out = Crash"
proof (cases "seFaults e")
  case Nil
  then have "e\<lparr>seFaults := []\<rparr> = e" by (cases e) simp
  then have "call (e\<lparr>seFaults := []\<rparr>) = (out, e')" using assms Nil by (simp only: await_def list.case)
  then show thesis by (rule took)
next
  case (Cons f fs)
  show thesis
  proof (cases f)
    case NoFault
    then show thesis using took [of fs] assms Cons by (simp add: await_def)
  next
    case (Rejects x)
    then show thesis using failed [of fs] assms Cons by (auto simp: await_def)
  next
    case CrashBefore
    then show thesis using failed [of fs] assms Cons by (auto simp: await_def)
  next
    case CrashAfter
    then show thesis using lost [of fs "fst (call (e\<lparr>seFaults := fs\<rparr>))"] assms Cons by (auto simp: await_def)
  qed
qed

lemma callExecute_log:
  assumes "callExecute k i s ctx e = (out, e')"
  shows "seTable e' = seTable e \<and> evs k e' = evs k e @ [if (\<exists>p. out = Ret p) then Executed i else ExecuteFailed i]
    \<and> (\<forall>j. j \<noteq> k \<longrightarrow> evs j e' = evs j e)"
  using assms by (auto simp: callExecute_def evs_def split: prod.splits sum.splits)

lemma callCompensate_log:
  assumes "callCompensate k i s ctx e = (out, e')"
  shows "seTable e' = seTable e \<and> evs k e' = evs k e @ [if out = Ret () then Compensated i else CompensateFailed i]
    \<and> (\<forall>j. j \<noteq> k \<longrightarrow> evs j e' = evs j e)"
  using assms by (auto simp: callCompensate_def evs_def split: prod.splits sum.splits)

lemma await_execute:
  assumes "await (callExecute k i s ctx) e = (out, e')" and g: "good n k e r" and st: "sgStatus r = RUNNING" "sgIndex r = i"
  shows "good n k e' r \<and> frame k e e' \<and> (\<forall>p. out = Ret p \<longrightarrow> Executed i \<in> set (evs k e'))"
  using assms(1)
proof (cases rule: await_cases)
  case (took fs)
  from callExecute_log [OF took] g st show ?thesis
    by (auto simp: good_def saga_ok_def forward_ok_def frame_def)
next
  case (failed fs)
  then show ?thesis using g by (auto simp: good_def)
next
  case (lost fs out')
  from callExecute_log [OF lost(1)] g st lost(2) show ?thesis
    by (auto simp: good_def saga_ok_def forward_ok_def frame_def)
qed

lemma updateSaga_get:
  assumes "updateSaga k f e = (out, e')" and "jm_get (seTable e) k = Some r"
  shows "out = Ret () \<and> jm_get (seTable e') k = Some (f r) \<and> (\<forall>j. evs j e' = evs j e) \<and> frame k e e'"
  using assms by (auto simp: updateSaga_def frame_def)

lemma await_update:
  assumes "await (updateSaga k f) e = (out, e')" and g: "good n k e r" and ok: "saga_ok n (f r) (evs k e)"
  shows "frame k e e' \<and> evs k e' = evs k e \<and> (good n k e' r \<or> good n k e' (f r)) \<and> (out = Ret () \<longrightarrow> good n k e' (f r))
    \<and> (\<forall>x. out = Throw x \<longrightarrow> good n k e' r)"
  using assms(1)
proof (cases rule: await_cases)
  case (took fs)
  from updateSaga_get [OF took, of r] g ok show ?thesis by (auto simp: good_def frame_def)
next
  case (failed fs)
  then show ?thesis using g by (auto simp: good_def)
next
  case (lost fs out')
  from updateSaga_get [OF lost(1), of r] g ok lost(2) show ?thesis by (auto simp: good_def frame_def)
qed

lemma backward_ok_snoc:
  assumes "backward_ok r es" and "comp_pos r = Suc i" and "x = Compensated i \<or> x = CompensateFailed i"
  shows "backward_ok r (es @ [x])"
  using assms by (auto simp: backward_ok_def sorted_wrt_append)

lemma await_compensate:
  assumes "await (callCompensate k i s ctx) e = (out, e')" and g: "good n k e r"
    and st: "sgStatus r = COMPENSATING" "comp_pos r = Suc i"
  shows "good n k e' r \<and> frame k e e' \<and> (out = Ret () \<longrightarrow> Compensated i \<in> set (evs k e'))"
proof -
  have ok: "saga_ok n r (evs k e @ [x])" if "x = Compensated i \<or> x = CompensateFailed i" for x
    using g st that backward_ok_snoc [of r "evs k e" i x] by (auto simp: good_def saga_ok_def forward_ok_def)
  from assms(1) show ?thesis
  proof (cases rule: await_cases)
    case (took fs)
    from callCompensate_log [OF took] g ok show ?thesis by (auto simp: good_def frame_def)
  next
    case (failed fs)
    then show ?thesis using g by (auto simp: good_def)
  next
    case (lost fs out')
    from callCompensate_log [OF lost(1)] g ok lost(2) show ?thesis by (auto simp: good_def frame_def)
  qed
qed

text \<open>An operation leaves some row that agrees with the history, of the same saga type.\<close>

definition kept :: "nat \<Rightarrow> string \<Rightarrow> 'v saga_row \<Rightarrow> ('v, 'w) saga_env \<Rightarrow> ('v, 'w) saga_env \<Rightarrow> bool" where
  "kept n k r e e' \<longleftrightarrow> frame k e e' \<and> (\<exists>r'. good n k e' r' \<and> sgType r' = sgType r)"

lemma keptI: "frame k e e' \<Longrightarrow> good n k e' r' \<Longrightarrow> sgType r' = sgType r \<Longrightarrow> kept n k r e e'"
  by (auto simp: kept_def)

lemma kept_frame: "frame k e e1 \<Longrightarrow> sgType r1 = sgType r \<Longrightarrow> kept n k r1 e1 e2 \<Longrightarrow> kept n k r e e2"
  by (auto simp: kept_def intro: frame_trans)

lemma runCompensation_kept:
  assumes "runCompensation k d ctx m e = (out, e')" and "good n k e r" and "sgStatus r = COMPENSATING" and "comp_pos r = m"
  shows "kept n k r e e'"
  using assms
proof (induction k d ctx m e arbitrary: r rule: runCompensation.induct)
  case (1 k d ctx e)
  let ?f = "\<lambda>r. r\<lparr>sgStatus := COMPENSATED, sgCompensation := COMP_COMPLETED\<rparr>"
  have "saga_ok n (?f r) (evs k e)"
    using 1 by (simp add: good_def saga_ok_def forward_ok_def backward_ok_def comp_pos_def split: option.splits)
  from await_update [where f = ?f, OF _ 1(2) this] 1(1) show ?case by (auto intro: keptI)
next
  case (2 k d ctx i e)
  let ?f = "\<lambda>r. r\<lparr>sgCompensation := IN_PROGRESS, sgCompensatedIndex := Some i\<rparr>"
  obtain o1 e1 where c: "await (callCompensate k i (defSteps d ! i) ctx) e = (o1, e1)" by fastforce
  note k1 = await_compensate [OF c 2(3,4,5)]
  show ?case
  proof (cases o1)
    case (Ret u)
    then have r: "o1 = Ret ()" by simp
    have ok: "saga_ok n (?f r) (evs k e1)"
      using k1 2(4,5) r by (auto simp: good_def saga_ok_def forward_ok_def backward_ok_def comp_pos_def le_Suc_eq Suc_le_eq)
        (metis order_le_less)
    obtain o2 e2 where u: "await (updateSaga k ?f) e1 = (o2, e2)" by fastforce
    note k2 = await_update [OF u _ ok]
    show ?thesis
    proof (cases o2)
      case (Ret v)
      then have run: "runCompensation k d ctx i e2 = (out, e')" using 2(2) c r u by simp
      have g2: "good n k e2 (?f r)" using k1 k2 Ret by simp
      have "kept n k (?f r) e2 e'"
        by (rule "2.IH" [OF c [symmetric] r u [symmetric] _ run g2]) (use Ret 2(4) in \<open>simp_all add: comp_pos_def\<close>)
      then show ?thesis by (rule kept_frame [rotated 2]) (use k1 k2 in \<open>auto intro: frame_trans\<close>)
    next
      case (Throw x)
      then show ?thesis using 2(2) c r u k1 k2 by (auto intro: keptI frame_trans)
    next
      case Crash
      then have "e' = e2" using 2(2) c r u by simp
      then show ?thesis using k1 k2 by (auto intro: keptI frame_trans)
    qed
  qed (use 2(2) c k1 in \<open>auto intro: keptI\<close>)
qed

lemma stepFailed_kept:
  assumes "stepFailed k d ctx i x e = (out, e')" and g: "good n k e r" and st: "sgStatus r = RUNNING" "sgIndex r = i"
  shows "kept n k r e e'"
proof -
  define f :: "'a saga_row \<Rightarrow> 'a saga_row" where
    "f = (\<lambda>r. r\<lparr>sgStatus := COMPENSATING, sgError := Some (thrownMessage x), sgContext := ctx, sgIndex := i\<rparr>)"
  have ok: "saga_ok n (f r) (evs k e)"
    using g st by (auto simp: f_def good_def saga_ok_def forward_ok_def backward_ok_def comp_pos_def)
  obtain o1 e1 where u: "await (updateSaga k f) e = (o1, e1)" by fastforce
  note k1 = await_update [OF u g ok]
  show ?thesis
  proof (cases o1)
    case (Ret v)
    obtain o2 where run: "runCompensation k d ctx i e1 = (o2, e')"
      using assms(1) u Ret by (auto simp: stepFailed_def Let_def f_def split: prod.splits outcome.splits)
    have "kept n k (f r) e1 e'"
      by (rule runCompensation_kept [OF run]) (use k1 Ret g st in \<open>auto simp: f_def comp_pos_def good_def saga_ok_def\<close>)
    then show ?thesis by (rule kept_frame [rotated 2]) (use k1 in \<open>auto simp: f_def\<close>)
  qed (use assms(1) u k1 in \<open>auto simp: stepFailed_def Let_def f_def intro: keptI split: prod.splits\<close>)
qed

lemma executeFrom_kept:
  assumes "executeFrom now k d ctx i e = (out, e')" and "good (length (defSteps d)) k e r"
    and "sgStatus r = RUNNING" and "sgIndex r = i"
  shows "kept (length (defSteps d)) k r e e'"
  using assms
proof (induction now k d ctx i e arbitrary: r rule: executeFrom.induct)
  case (1 now k d ctx i e)
  let ?n = "length (defSteps d)"
  note run = 1(2) [unfolded executeFrom.simps [of now k d ctx i e]] and g = 1(3) and st = 1(4,5)
  show ?case
  proof (cases "i < ?n")
    case True
    obtain o1 e1 where c: "await (callExecute k i (defSteps d ! i) ctx) e = (o1, e1)" by fastforce
    note k1 = await_execute [OF c g st]
    show ?thesis
    proof (cases o1)
      case (Ret patch)
      define ctx1 where "ctx1 = mergeContext ctx patch"
      define f :: "'a saga_row \<Rightarrow> 'a saga_row" where "f = (\<lambda>r. r\<lparr>sgIndex := i + 1, sgContext := ctx1\<rparr>)"
      have ok: "saga_ok ?n (f r) (evs k e1)"
        using k1 st Ret True by (auto simp: f_def good_def saga_ok_def forward_ok_def less_Suc_eq)
      obtain o2 e2 where u: "await (updateSaga k f) e1 = (o2, e2)" by fastforce
      note k2 = await_update [OF u _ ok]
      show ?thesis
      proof (cases o2)
        case (Ret v)
        have run2: "executeFrom now k d ctx1 (i + 1) e2 = (out, e')"
          using run True c \<open>o1 = Ret patch\<close> u Ret by (simp add: Let_def f_def ctx1_def)
        have "kept ?n k (f r) e2 e'"
        proof (rule 1(1) [OF True c [symmetric] \<open>o1 = Ret patch\<close> ctx1_def])
          show "(o2, e2) = await (updateSaga k (\<lambda>r. r\<lparr>sgIndex := i + 1, sgContext := ctx1\<rparr>)) e1"
            using u by (simp add: f_def)
        qed (use k1 k2 Ret run2 st in \<open>auto simp: f_def\<close>)
        then show ?thesis by (rule kept_frame [rotated 2]) (use k1 k2 in \<open>auto simp: f_def intro: frame_trans\<close>)
      next
        case (Throw x)
        have "stepFailed k d ctx1 i x e2 = (out, e')"
          using run True c \<open>o1 = Ret patch\<close> u Throw by (simp add: Let_def f_def ctx1_def)
        then have "kept ?n k r e2 e'" by (rule stepFailed_kept) (use k1 k2 Throw st in auto)
        then show ?thesis by (rule kept_frame [rotated 2]) (use k1 k2 in \<open>auto intro: frame_trans\<close>)
      next
        case Crash
        then have "e' = e2" using run True c \<open>o1 = Ret patch\<close> u by (simp add: Let_def f_def ctx1_def)
        then show ?thesis using k1 k2 by (auto simp: f_def intro: keptI frame_trans)
      qed
    next
      case (Throw x)
      then have "stepFailed k d ctx i x e1 = (out, e')" using run True c by simp
      then have "kept ?n k r e1 e'" by (rule stepFailed_kept) (use k1 st in auto)
      then show ?thesis by (rule kept_frame [rotated 2]) (use k1 in auto)
    qed (use run True c k1 in \<open>auto intro: keptI\<close>)
  next
    case False
    define f :: "'a saga_row \<Rightarrow> 'a saga_row" where
      "f = (\<lambda>r. r\<lparr>sgStatus := COMPLETED, sgCompletedAt := Some now, sgContext := ctx\<rparr>)"
    have ok: "saga_ok ?n (f r) (evs k e)" using False g st by (auto simp: f_def good_def saga_ok_def forward_ok_def)
    obtain o1 e1 where u: "await (updateSaga k f) e = (o1, e1)" by fastforce
    have "e' = e1" using run False u by (auto simp: f_def split: outcome.splits)
    then show ?thesis using await_update [OF u g ok] by (auto simp: f_def intro: keptI)
  qed
qed

section \<open>All the sagas of the table\<close>

definition table_ok :: "(string, ('v, 'w) saga_definition) jsmap \<Rightarrow> ('v, 'w) saga_env \<Rightarrow> bool" where
  "table_ok defs e \<longleftrightarrow> jm_wf (seTable e)
     \<and> (\<forall>k r. jm_get (seTable e) k = Some r \<longrightarrow>
          (\<exists>d. jm_get defs (sgType r) = Some d \<and> good (length (defSteps d)) k e r))
     \<and> (\<forall>k. jm_get (seTable e) k = None \<longrightarrow> evs k e = [])"

lemma table_okD:
  assumes "table_ok defs e" and "jm_get (seTable e) k = Some r"
  obtains d where "jm_get defs (sgType r) = Some d" and "good (length (defSteps d)) k e r"
  using assms unfolding table_ok_def by metis

lemma table_ok_kept:
  assumes "table_ok defs e" and "jm_get defs (sgType r) = Some d" and "kept (length (defSteps d)) k r e e'"
  shows "table_ok defs e'"
  unfolding table_ok_def
proof (intro conjI allI impI)
  from assms(3) obtain r1 where fr: "frame k e e'" and r1: "good (length (defSteps d)) k e' r1" "sgType r1 = sgType r"
    by (auto simp: kept_def)
  show "jm_wf (seTable e')" using fr assms(1) by (simp add: frame_def table_ok_def)
  fix j
  show "\<exists>d. jm_get defs (sgType r') = Some d \<and> good (length (defSteps d)) j e' r'"
    if "jm_get (seTable e') j = Some r'" for r'
  proof (cases "j = k")
    case True
    then show ?thesis using that r1 assms(2) by (auto simp: good_def)
  next
    case False
    then show ?thesis using that fr assms(1) by (auto simp: good_def frame_def table_ok_def)
  qed
  show "evs j e' = []" if "jm_get (seTable e') j = None"
    using that r1 fr assms(1) by (cases "j = k") (auto simp: good_def frame_def table_ok_def)
qed

lemma recoverOne_kept:
  assumes "recoverOne defs now k r e = (b, e')" and ok: "table_ok defs e" and r: "jm_get (seTable e) k = Some r"
    and st: "sgStatus r = RUNNING \<or> sgStatus r = COMPENSATING"
  shows "table_ok defs e' \<and> frame k e e'"
proof -
  obtain d where d: "jm_get defs (sgType r) = Some d" "good (length (defSteps d)) k e r"
    by (rule table_okD [OF ok r])
  have "kept (length (defSteps d)) k r e e'"
  proof (cases "sgStatus r = RUNNING")
    case True
    then obtain o1 where "executeFrom now k d (sgContext r) (sgIndex r) e = (o1, e')"
      using assms(1) d by (auto simp: recoverOne_def split: prod.splits)
    then show ?thesis using d True by (auto intro: executeFrom_kept)
  next
    case False
    then obtain o1 where "runCompensation k d (sgContext r) (comp_pos r) e = (o1, e')"
      using assms(1) d by (auto simp: recoverOne_def comp_pos_def Let_def split: prod.splits)
    then show ?thesis using d False st by (auto intro: runCompensation_kept)
  qed
  then show ?thesis using table_ok_kept [OF ok d(1)] by (auto simp: kept_def)
qed

lemma recoverAll_ok:
  assumes "recoverAll defs now rows e = (out, e')" and "table_ok defs e" and "distinct (map fst rows)"
    and "\<And>k r. (k, r) \<in> set rows \<Longrightarrow> jm_get (seTable e) k = Some r \<and> (sgStatus r = RUNNING \<or> sgStatus r = COMPENSATING)"
  shows "table_ok defs e'"
  using assms
proof (induction rows arbitrary: e)
  case Nil
  then show ?case by simp
next
  case (Cons p rows)
  obtain k r where p: "p = (k, r)" by fastforce
  obtain b e1 where one: "recoverOne defs now k r e = (b, e1)" by fastforce
  have k1: "table_ok defs e1 \<and> frame k e e1"
    using recoverOne_kept [OF one Cons.prems(2)] Cons.prems(4) [of k r] p by simp
  show ?case
  proof (cases b)
    case True
    have run: "recoverAll defs now rows e1 = (out, e')" using Cons.prems(1) p one True by simp
    show ?thesis
    proof (rule Cons.IH [OF run])
      show "jm_get (seTable e1) j = Some r' \<and> (sgStatus r' = RUNNING \<or> sgStatus r' = COMPENSATING)"
        if "(j, r') \<in> set rows" for j r'
      proof -
        have "j \<noteq> k" using that Cons.prems(3) p by force
        then show ?thesis using that Cons.prems(4) [of j r'] k1 by (simp add: frame_def)
      qed
      show "table_ok defs e1" using k1 by simp
      show "distinct (map fst rows)" using Cons.prems(3) by simp
    qed
  next
    case False
    then show ?thesis using Cons.prems(1) p one k1 by simp
  qed
qed

text \<open>
  The life of the table: sagas are started, the process dies and recovers, in any order, each time
  with any faults; between two operations the world may change.
\<close>

inductive saga_reach :: "(string, ('v, 'w) saga_definition) jsmap \<Rightarrow> ('v, 'w) saga_env \<Rightarrow> bool" for defs where
  Empty: "saga_reach defs \<lparr>seTable = [], seWorld = w, seLog = [], seFaults = fs\<rparr>"
| Environment: "saga_reach defs e \<Longrightarrow> saga_reach defs (e\<lparr>seWorld := w, seFaults := fs\<rparr>)"
| Run: "saga_reach defs e \<Longrightarrow> jm_get (seTable e) k = None \<Longrightarrow> runSaga defs now k ty ctx e = (out, e') \<Longrightarrow> saga_reach defs e'"
| Recover: "saga_reach defs e \<Longrightarrow> recoverInterruptedSagas defs now e = (out, e') \<Longrightarrow> saga_reach defs e'"

lemma table_ok_faults: "table_ok defs (e\<lparr>seFaults := fs\<rparr>) \<longleftrightarrow> table_ok defs e"
  by (simp add: table_ok_def good_def)

lemma runSaga_ok:
  assumes "runSaga defs now k ty ctx e = (out, e')" and ok: "table_ok defs e" and new: "jm_get (seTable e) k = None"
  shows "table_ok defs e'"
proof (cases "jm_get defs ty")
  case None
  then show ?thesis using assms(1) ok by (simp add: runSaga_def getDefinition_def)
next
  case (Some d)
  define r where "r = \<lparr>sgType = ty, sgStatus = RUNNING, sgIndex = 0, sgStepCount = length (defSteps d), sgContext = ctx,
     sgCompensation = NOT_STARTED, sgCompensatedIndex = None, sgError = None, sgCompletedAt = None\<rparr>"
  have rd: "jm_get defs (sgType r) = Some d" using Some by (simp add: r_def)
  have created: "kept (length (defSteps d)) k r e (snd (createSaga k r (e\<lparr>seFaults := fs\<rparr>)))
      \<and> good (length (defSteps d)) k (snd (createSaga k r (e\<lparr>seFaults := fs\<rparr>))) r" for fs
    using ok new by (auto simp: kept_def good_def createSaga_def frame_def table_ok_def saga_ok_def forward_ok_def r_def)
  obtain o1 e1 where c: "await (createSaga k r) e = (o1, e1)" by fastforce
  then have e1: "table_ok defs e1 \<and> (o1 = Ret () \<longrightarrow> good (length (defSteps d)) k e1 r)"
  proof (cases rule: await_cases)
    case (took fs)
    then have "e1 = snd (createSaga k r (e\<lparr>seFaults := fs\<rparr>))" by simp
    then show ?thesis using created [of fs] table_ok_kept [OF ok rd] by blast
  next
    case (failed fs)
    then show ?thesis using ok by (auto simp: table_ok_faults)
  next
    case (lost fs out')
    then have "e1 = snd (createSaga k r (e\<lparr>seFaults := fs\<rparr>))" by simp
    then show ?thesis using created [of fs] table_ok_kept [OF ok rd] lost by blast
  qed
  show ?thesis
  proof (cases o1)
    case (Ret u)
    then have "executeFrom now k d ctx 0 e1 = (out, e')"
      using assms(1) Some c by (simp add: runSaga_def getDefinition_def r_def)
    then have "kept (length (defSteps d)) k r e1 e'"
      by (rule executeFrom_kept) (use e1 Ret in \<open>auto simp: r_def\<close>)
    then show ?thesis using table_ok_kept [OF _ rd] e1 by blast
  qed (use assms(1) Some c e1 in \<open>auto simp: runSaga_def getDefinition_def r_def\<close>)
qed

lemma saga_reach_ok: "saga_reach defs e \<Longrightarrow> table_ok defs e"
proof (induction rule: saga_reach.induct)
  case (Empty w fs)
  then show ?case by (simp add: table_ok_def evs_def)
next
  case (Environment e w fs)
  then show ?case by (simp add: table_ok_def good_def evs_def)
next
  case (Run e k now ty ctx out e')
  then show ?case by (blast intro: runSaga_ok)
next
  case (Recover e now out e')
  obtain o1 e1 where f: "await findInterrupted e = (o1, e1)" by fastforce
  have e1: "table_ok defs e1" using f Recover.IH
    by (cases rule: await_cases) (auto simp: findInterrupted_def table_ok_faults)
  show ?case
  proof (cases o1)
    case (Ret rows)
    have "rows = filter (\<lambda>(k, r). sgStatus r = RUNNING \<or> sgStatus r = COMPENSATING) (seTable e1)"
      using f Ret by (cases rule: await_cases) (auto simp: findInterrupted_def)
    moreover have "jm_wf (seTable e1)" using e1 by (simp add: table_ok_def)
    ultimately have rows: "distinct (map fst rows) \<and> (\<forall>(k, r) \<in> set rows. jm_get (seTable e1) k = Some r
        \<and> (sgStatus r = RUNNING \<or> sgStatus r = COMPENSATING))"
      by (auto simp: jm_wf_def distinct_map_filter)
    have "recoverAll defs now rows e1 = (out, e')" using Recover(2) f Ret by (simp add: recoverInterruptedSagas_def)
    then show ?thesis by (rule recoverAll_ok [OF _ e1]) (use rows in auto)
  qed (use Recover(2) f e1 in \<open>auto simp: recoverInterruptedSagas_def\<close>)
qed

section \<open>Runs without faults\<close>

lemma await_no_fault [simp]: "seFaults e = [] \<Longrightarrow> await call e = call e"
  by (simp add: await_def)

lemma updateSaga_present:
  "jm_get (seTable e) k = Some r \<Longrightarrow> updateSaga k f e = (Ret (), e\<lparr>seTable := jm_set (seTable e) k (f r)\<rparr>)"
  by (simp add: updateSaga_def)

definition compensates :: "('v, 'w) saga_definition \<Rightarrow> bool" where
  "compensates d \<longleftrightarrow> (\<forall>s \<in> set (defSteps d). \<forall>ctx w. \<exists>w'. stepCompensate s ctx w = (Inr (), w'))"

lemma runCompensation_done:
  assumes "compensates d" and "m \<le> length (defSteps d)" and "jm_get (seTable e) k = Some r" and "seFaults e = []"
  shows "\<exists>e' r'. runCompensation k d ctx m e = (Ret (), e') \<and> jm_get (seTable e') k = Some r' \<and> sgStatus r' = COMPENSATED
    \<and> seFaults e' = [] \<and> evs k e' = evs k e @ map Compensated (rev [0..<m])"
  using assms
proof (induction k d ctx m e arbitrary: r rule: runCompensation.induct)
  case (1 k d ctx e)
  then show ?case by (simp add: updateSaga_present)
next
  case (2 k d ctx i e)
  let ?f = "\<lambda>r. r\<lparr>sgCompensation := IN_PROGRESS, sgCompensatedIndex := Some i\<rparr>"
  have "defSteps d ! i \<in> set (defSteps d)" using 2(3) by simp
  then obtain w where w: "stepCompensate (defSteps d ! i) ctx (seWorld e) = (Inr (), w)"
    using 2(2) unfolding compensates_def by blast
  let ?e1 = "e\<lparr>seWorld := w, seLog := seLog e @ [(k, Compensated i)]\<rparr>"
  have c: "await (callCompensate k i (defSteps d ! i) ctx) e = (Ret (), ?e1)"
    using 2(5) w by (simp add: callCompensate_def)
  have u: "await (updateSaga k ?f) ?e1 = (Ret (), ?e1\<lparr>seTable := jm_set (seTable e) k (?f r)\<rparr>)"
    using 2(4,5) by (simp add: updateSaga_def)
  from "2.IH" [OF c [symmetric] refl u [symmetric] refl 2(2), of "?f r"] 2(3,4,5)
  obtain e' r' where "runCompensation k d ctx i (?e1\<lparr>seTable := jm_set (seTable e) k (?f r)\<rparr>) = (Ret (), e')"
    "jm_get (seTable e') k = Some r'" "sgStatus r' = COMPENSATED" "seFaults e' = []"
    "evs k e' = evs k ?e1 @ map Compensated (rev [0..<i])" by auto
  then show ?case using c u by (simp add: evs_def)
qed

definition finished :: "nat \<Rightarrow> nat \<Rightarrow> saga_event list \<Rightarrow> saga_status \<Rightarrow> bool" where
  "finished i n es st \<longleftrightarrow> (st = COMPLETED \<and> es = map Executed [i..<n])
     \<or> (\<exists>f. i \<le> f \<and> f < n \<and> st = COMPENSATED \<and> es = map Executed [i..<f] @ [ExecuteFailed f] @ map Compensated (rev [0..<f]))"

lemma finished_Suc: "finished (Suc i) n es st \<Longrightarrow> i < n \<Longrightarrow> finished i n (Executed i # es) st"
proof -
  assume fin: "finished (Suc i) n es st" and i: "i < n"
  show ?thesis
  proof (cases "st = COMPLETED")
    case True
    then show ?thesis using fin i by (simp add: finished_def upt_conv_Cons)
  next
    case False
    then obtain f where f: "Suc i \<le> f" "f < n" "st = COMPENSATED"
      "es = map Executed [Suc i..<f] @ [ExecuteFailed f] @ map Compensated (rev [0..<f])"
      using fin by (auto simp: finished_def)
    then have "Executed i # es = map Executed [i..<f] @ [ExecuteFailed f] @ map Compensated (rev [0..<f])"
      by (simp add: upt_conv_Cons)
    then show ?thesis using f(1-3) unfolding finished_def by (metis Suc_leD)
  qed
qed

lemma stepFailed_done:
  assumes "compensates d" and "i < length (defSteps d)" and "jm_get (seTable e) k = Some r" and "seFaults e = []"
  shows "\<exists>e' r'. stepFailed k d ctx i x e = (Ret \<lparr>resStatus = COMPENSATED, resContext = ctx, resError = Some (thrownMessage x)\<rparr>, e')
    \<and> jm_get (seTable e') k = Some r' \<and> sgStatus r' = COMPENSATED \<and> seFaults e' = []
    \<and> evs k e' = evs k e @ map Compensated (rev [0..<i])"
proof -
  let ?r = "r\<lparr>sgStatus := COMPENSATING, sgError := Some (thrownMessage x), sgContext := ctx, sgIndex := i\<rparr>"
  let ?e = "e\<lparr>seTable := jm_set (seTable e) k ?r\<rparr>"
  have le: "i \<le> length (defSteps d)" and e: "jm_get (seTable ?e) k = Some ?r" "seFaults ?e = []" using assms by simp_all
  from runCompensation_done [OF assms(1) le e, of ctx]
  obtain e' r' where run: "runCompensation k d ctx i ?e = (Ret (), e')" "jm_get (seTable e') k = Some r'"
    "sgStatus r' = COMPENSATED" "seFaults e' = []" "evs k e' = evs k ?e @ map Compensated (rev [0..<i])" by blast
  have "stepFailed k d ctx i x e = (Ret \<lparr>resStatus = COMPENSATED, resContext = ctx, resError = Some (thrownMessage x)\<rparr>, e')"
    using assms(3,4) run(1) by (simp add: stepFailed_def Let_def updateSaga_present)
  then show ?thesis using run(2-5) by auto
qed

lemma executeFrom_done:
  assumes "compensates d" and "jm_get (seTable e) k = Some r" and "seFaults e = []"
  shows "\<exists>e' r' res es. executeFrom now k d ctx i e = (Ret res, e') \<and> jm_get (seTable e') k = Some r'
    \<and> sgStatus r' = resStatus res \<and> evs k e' = evs k e @ es \<and> (i \<le> length (defSteps d) \<longrightarrow> finished i (length (defSteps d)) es (resStatus res))
    \<and> seFaults e' = []"
  using assms
proof (induction now k d ctx i e arbitrary: r rule: executeFrom.induct)
  case (1 now k d ctx i e)
  let ?n = "length (defSteps d)"
  show ?case
  proof (cases "i < ?n")
    case True
    obtain o1 w where s: "stepExecute (defSteps d ! i) ctx (seWorld e) = (o1, w)" by fastforce
    show ?thesis
    proof (cases o1)
      case (Inl x)
      let ?e1 = "e\<lparr>seWorld := w, seLog := seLog e @ [(k, ExecuteFailed i)]\<rparr>"
      have "jm_get (seTable ?e1) k = Some r" "seFaults ?e1 = []" using 1(3,4) by simp_all
      from stepFailed_done [OF 1(2) True this, of ctx x]
      obtain e' r' where sf: "stepFailed k d ctx i x ?e1 = (Ret \<lparr>resStatus = COMPENSATED, resContext = ctx, resError = Some (thrownMessage x)\<rparr>, e')"
        "jm_get (seTable e') k = Some r'" "sgStatus r' = COMPENSATED" "seFaults e' = []"
        "evs k e' = evs k ?e1 @ map Compensated (rev [0..<i])" by blast
      have c: "await (callExecute k i (defSteps d ! i) ctx) e = (Throw x, ?e1)"
        using s Inl 1(4) by (simp add: callExecute_def)
      have "executeFrom now k d ctx i e = (Ret \<lparr>resStatus = COMPENSATED, resContext = ctx, resError = Some (thrownMessage x)\<rparr>, e')"
        using True c sf(1) by (subst executeFrom.simps) simp
      moreover have "evs k e' = evs k e @ (ExecuteFailed i # map Compensated (rev [0..<i]))" using sf(5) by (simp add: evs_def)
      moreover have "finished i ?n (ExecuteFailed i # map Compensated (rev [0..<i])) COMPENSATED"
        using True by (auto simp: finished_def)
      ultimately show ?thesis using sf(2-4)
        by (intro exI [of _ e'] exI [of _ r'] exI [of _ "\<lparr>resStatus = COMPENSATED, resContext = ctx, resError = Some (thrownMessage x)\<rparr>"]
            exI [of _ "ExecuteFailed i # map Compensated (rev [0..<i])"]) simp
    next
      case (Inr patch)
      let ?e1 = "e\<lparr>seWorld := w, seLog := seLog e @ [(k, Executed i)]\<rparr>" and ?c = "mergeContext ctx patch"
      let ?f = "\<lambda>r. r\<lparr>sgIndex := i + 1, sgContext := ?c\<rparr>"
      let ?e2 = "?e1\<lparr>seTable := jm_set (seTable e) k (?f r)\<rparr>"
      have c: "await (callExecute k i (defSteps d ! i) ctx) e = (Ret patch, ?e1)"
        using s Inr 1(4) by (simp add: callExecute_def)
      have u: "await (updateSaga k ?f) ?e1 = (Ret (), ?e2)" using 1(3,4) by (simp add: updateSaga_def)
      have "jm_get (seTable ?e2) k = Some (?f r)" "seFaults ?e2 = []" using 1(4) by simp_all
      from 1(1) [OF True c [symmetric] refl refl u [symmetric] refl 1(2) this]
      obtain e' r' res es where rec: "executeFrom now k d ?c (i + 1) ?e2 = (Ret res, e')" "jm_get (seTable e') k = Some r'"
        "sgStatus r' = resStatus res" "evs k e' = evs k ?e2 @ es" "i + 1 \<le> ?n \<longrightarrow> finished (i + 1) ?n es (resStatus res)"
        "seFaults e' = []" by blast
      have "executeFrom now k d ctx i e = (Ret res, e')"
        using True c u rec(1) by (subst executeFrom.simps) (simp add: Let_def)
      moreover have "evs k e' = evs k e @ (Executed i # es)" using rec(4) by (simp add: evs_def)
      moreover have "finished i ?n (Executed i # es) (resStatus res)" using rec(5) True finished_Suc by auto
      ultimately show ?thesis using rec by blast
    qed
  next
    case False
    then show ?thesis using 1(3,4) by (subst executeFrom.simps) (simp add: updateSaga_present finished_def)
  qed
qed

section \<open>Properties\<close>

text \<open>C25: A saga runs all its steps or undoes them: without crashes, rejected queries and failing
  compensations, a run ends COMPLETED with every step executed once in order, or some step fails, and
  it ends COMPENSATED with exactly the steps before it undone, in strict reverse order.\<close>

theorem saga_all_or_nothing:
  assumes "jm_get defs ty = Some d" and "compensates d" and "jm_get (seTable e) k = None" and "seFaults e = []"
  shows "\<exists>e' r res es. runSaga defs now k ty ctx e = (Ret res, e') \<and> jm_get (seTable e') k = Some r
    \<and> sgStatus r = resStatus res \<and> evs k e' = evs k e @ es
    \<and> (resStatus res = COMPLETED \<and> es = map Executed [0..<length (defSteps d)]
       \<or> (\<exists>f < length (defSteps d). resStatus res = COMPENSATED
            \<and> es = map Executed [0..<f] @ [ExecuteFailed f] @ map Compensated (rev [0..<f])))"
proof -
  define r where "r = \<lparr>sgType = ty, sgStatus = RUNNING, sgIndex = 0, sgStepCount = length (defSteps d), sgContext = ctx,
     sgCompensation = NOT_STARTED, sgCompensatedIndex = None, sgError = None, sgCompletedAt = None\<rparr>"
  let ?e = "e\<lparr>seTable := jm_set (seTable e) k r\<rparr>"
  have "jm_get (seTable ?e) k = Some r" "seFaults ?e = []" using assms(4) by simp_all
  from executeFrom_done [OF assms(2) this, of now ctx 0]
  obtain e' r' res es where run: "executeFrom now k d ctx 0 ?e = (Ret res, e')" "jm_get (seTable e') k = Some r'"
    "sgStatus r' = resStatus res" "evs k e' = evs k ?e @ es" "finished 0 (length (defSteps d)) es (resStatus res)" by blast
  have "runSaga defs now k ty ctx e = (Ret res, e')"
    using assms(1,4) run(1) by (simp add: runSaga_def getDefinition_def createSaga_def r_def)
  then show ?thesis using run(2-5) by (auto simp: finished_def)
qed

text \<open>C4: Crash safety: whatever crashes, rejected queries, failing steps and recoveries the table has been
  through, a COMPLETED saga has executed every step and undone none, and a COMPENSATED saga has undone
  every step recorded as completed, and only those, in reverse order (an undo may be repeated by a
  recovery; the step at the failed index may have run without being recorded).\<close>

theorem saga_crash_safe:
  assumes "saga_reach defs e" and "jm_get (seTable e) k = Some r" and "jm_get defs (sgType r) = Some d"
  shows "(sgStatus r = COMPLETED \<longrightarrow> comps (evs k e) = [] \<and> (\<forall>i < length (defSteps d). Executed i \<in> set (evs k e)))
    \<and> (sgStatus r = COMPENSATED \<longrightarrow>
         (\<forall>i < sgIndex r. Executed i \<in> set (evs k e) \<and> Compensated i \<in> set (evs k e))
       \<and> (\<forall>i. Executed i \<in> set (evs k e) \<longrightarrow> i \<le> sgIndex r)
       \<and> (\<forall>i \<in> set (comps (evs k e)). i < sgIndex r) \<and> sorted_wrt (\<ge>) (comps (evs k e)))"
proof -
  obtain d' where "jm_get defs (sgType r) = Some d'" "good (length (defSteps d')) k e r"
    by (rule table_okD [OF saga_reach_ok [OF assms(1)] assms(2)])
  then show ?thesis using assms(3) by (auto simp: good_def saga_ok_def forward_ok_def backward_ok_def)
qed

lemma recoverOne_done:
  assumes ok: "table_ok defs e" and comp: "\<forall>(ty, d) \<in> set defs. compensates d" and r: "jm_get (seTable e) k = Some r"
    and st: "sgStatus r = RUNNING \<or> sgStatus r = COMPENSATING" and nf: "seFaults e = []"
  shows "\<exists>e' r'. recoverOne defs now k r e = (True, e') \<and> table_ok defs e' \<and> frame k e e' \<and> seFaults e' = []
    \<and> jm_get (seTable e') k = Some r' \<and> (sgStatus r' = COMPLETED \<or> sgStatus r' = COMPENSATED)"
proof -
  obtain d where d: "jm_get defs (sgType r) = Some d" "good (length (defSteps d)) k e r"
    by (rule table_okD [OF ok r])
  have cd: "compensates d" using comp jm_get_mem [OF d(1)] by blast
  have one: "\<exists>e' r'. recoverOne defs now k r e = (True, e') \<and> seFaults e' = []
      \<and> jm_get (seTable e') k = Some r' \<and> (sgStatus r' = COMPLETED \<or> sgStatus r' = COMPENSATED)"
  proof (cases "sgStatus r = RUNNING")
    case True
    have le: "sgIndex r \<le> length (defSteps d)" using d(2) by (simp add: good_def saga_ok_def forward_ok_def)
    from executeFrom_done [OF cd r nf, of now "sgContext r" "sgIndex r"] le
    obtain e' r' res es where run: "executeFrom now k d (sgContext r) (sgIndex r) e = (Ret res, e')"
      "jm_get (seTable e') k = Some r'" "sgStatus r' = resStatus res" "seFaults e' = []"
      "finished (sgIndex r) (length (defSteps d)) es (resStatus res)" by blast
    from run(5) have "sgStatus r' = COMPLETED \<or> sgStatus r' = COMPENSATED" using run(3) unfolding finished_def by metis
    moreover have "recoverOne defs now k r e = (True, e')" using d(1) True run(1) by (simp add: recoverOne_def)
    ultimately show ?thesis using run(2,4) by blast
  next
    case False
    then have le: "comp_pos r \<le> length (defSteps d)"
      using d(2) st by (auto simp: good_def saga_ok_def forward_ok_def backward_ok_def)
    from runCompensation_done [OF cd le r nf, of "sgContext r"]
    obtain e' r' where run: "runCompensation k d (sgContext r) (comp_pos r) e = (Ret (), e')"
      "jm_get (seTable e') k = Some r'" "sgStatus r' = COMPENSATED" "seFaults e' = []" by blast
    have "recoverOne defs now k r e = (True, e')"
      using d(1) False run(1) by (simp add: recoverOne_def comp_pos_def Let_def)
    then show ?thesis using run(2-4) by blast
  qed
  then show ?thesis using recoverOne_kept [OF _ ok r st] by blast
qed

definition settled :: "'v saga_row \<Rightarrow> bool" where
  "settled r \<longleftrightarrow> sgStatus r = COMPLETED \<or> sgStatus r = COMPENSATED"

lemma recoverAll_done:
  assumes "table_ok defs e" and "\<forall>(ty, d) \<in> set defs. compensates d" and "seFaults e = []" and "distinct (map fst rows)"
    and "\<forall>(k, r) \<in> set rows. jm_get (seTable e) k = Some r \<and> (sgStatus r = RUNNING \<or> sgStatus r = COMPENSATING)"
    and "\<forall>k r. jm_get (seTable e) k = Some r \<longrightarrow> settled r \<or> k \<in> fst ` set rows"
  shows "\<exists>e'. recoverAll defs now rows e = (Ret (), e') \<and> (\<forall>k r. jm_get (seTable e') k = Some r \<longrightarrow> settled r)"
  using assms
proof (induction rows arbitrary: e)
  case Nil
  then show ?case by simp
next
  case (Cons p rows)
  obtain k r where p: "p = (k, r)" by fastforce
  have r: "jm_get (seTable e) k = Some r" "sgStatus r = RUNNING \<or> sgStatus r = COMPENSATING" using Cons.prems(5) p by auto
  obtain e1 r1 where one: "recoverOne defs now k r e = (True, e1)" "table_ok defs e1" "frame k e e1" "seFaults e1 = []"
    "jm_get (seTable e1) k = Some r1" "settled r1"
    using recoverOne_done [OF Cons.prems(1,2) r Cons.prems(3), of now] unfolding settled_def by blast
  have new: "k \<notin> fst ` set rows" and dist: "distinct (map fst rows)" using Cons.prems(4) p by auto
  have same: "jm_get (seTable e1) j = jm_get (seTable e) j" if "j \<noteq> k" for j using one(3) that by (simp add: frame_def)
  have "\<forall>(j, r') \<in> set rows. jm_get (seTable e1) j = Some r' \<and> (sgStatus r' = RUNNING \<or> sgStatus r' = COMPENSATING)"
  proof (clarify)
    fix j r' assume m: "(j, r') \<in> set rows"
    then have "j \<noteq> k" using new by force
    moreover have "jm_get (seTable e) j = Some r' \<and> (sgStatus r' = RUNNING \<or> sgStatus r' = COMPENSATING)"
      using Cons.prems(5) m by auto
    ultimately show "jm_get (seTable e1) j = Some r' \<and> (sgStatus r' = RUNNING \<or> sgStatus r' = COMPENSATING)"
      by (simp add: same)
  qed
  moreover have "\<forall>j r'. jm_get (seTable e1) j = Some r' \<longrightarrow> settled r' \<or> j \<in> fst ` set rows"
  proof (intro allI impI)
    fix j r' assume j: "jm_get (seTable e1) j = Some r'"
    show "settled r' \<or> j \<in> fst ` set rows"
    proof (cases "j = k")
      case True
      then show ?thesis using j one(5,6) by simp
    next
      case False
      then have "settled r' \<or> j \<in> fst ` set (p # rows)" using Cons.prems(6) j same by simp
      then show ?thesis using False p by simp
    qed
  qed
  ultimately show ?case using Cons.IH [OF one(2) Cons.prems(2) one(4) dist] one(1) p by simp
qed


section \<open>An example\<close>

text \<open>Two steps; the second one fails. The first counts its executions and undos.\<close>

definition example_saga :: "(nat, nat) saga_definition" where
  "example_saga = \<lparr>defSagaType = ''t'', defSteps =
     [\<lparr>stepName = ''a'', stepExecute = (\<lambda>ctx w. (Inr None, w + 1)), stepCompensate = (\<lambda>ctx w. (Inr (), w - 1))\<rparr>,
      \<lparr>stepName = ''b'', stepExecute = (\<lambda>ctx w. (Inl (Some ''boom''), w)), stepCompensate = (\<lambda>ctx w. (Inr (), w))\<rparr>]\<rparr>"

definition example_env :: "fault list \<Rightarrow> (nat, nat) saga_env" where
  "example_env fs = \<lparr>seTable = [], seWorld = 0, seLog = [], seFaults = fs\<rparr>"

abbreviation example_run :: "fault list \<Rightarrow> nat saga_result outcome \<times> (nat, nat) saga_env" where
  "example_run fs \<equiv> runSaga [(''t'', example_saga)] 0 ''s'' ''t'' Map.empty (example_env fs)"

lemmas saga_eval = runSaga_def getDefinition_def executeFrom.simps await_def createSaga_def callExecute_def callCompensate_def
  updateSaga_def stepFailed_def mergeContext_def example_saga_def example_env_def Let_def evs_def thrownMessage_def
  recoverInterruptedSagas_def findInterrupted_def recoverOne_def jm_set_def

lemma example_compensates: "compensates example_saga"
  by (simp add: compensates_def example_saga_def)

text \<open>The process dies right after undoing the first step; the recovery undoes it again.\<close>

definition example_crashed :: "(nat, nat) saga_env" where
  "example_crashed = snd (example_run [NoFault, NoFault, NoFault, NoFault, NoFault, CrashAfter])"

lemma example_crashed_eval:
  "evs ''s'' example_crashed = [Executed 0, ExecuteFailed 1, Compensated 0]"
  "seFaults example_crashed = []"
  "map fst (seTable example_crashed) = [''s'']"
  "map_option sgStatus (jm_get (seTable example_crashed) ''s'') = Some COMPENSATING"
  by (simp_all add: example_crashed_def saga_eval)

lemma example_crashed_reach: "saga_reach [(''t'', example_saga)] example_crashed"
proof -
  have empty_reach: "saga_reach [(''t'', example_saga)] (example_env fs)" for fs
    unfolding example_env_def by (rule saga_reach.Empty)
  show ?thesis
    unfolding example_crashed_def
    by (rule saga_reach.Run [OF empty_reach _ prod.collapse [symmetric]]) (simp add: example_env_def)
qed

definition example_recovered :: "(nat, nat) saga_env" where
  "example_recovered = snd (recoverInterruptedSagas [(''t'', example_saga)] 1 example_crashed)"

lemma example_recovered_reach: "saga_reach [(''t'', example_saga)] example_recovered"
  unfolding example_recovered_def
  by (rule saga_reach.Recover [OF example_crashed_reach prod.collapse [symmetric]])

theorem saga_all_or_nothing_witness:
  "\<exists>e' r res es. example_run [] = (Ret res, e') \<and> jm_get (seTable e') ''s'' = Some r
    \<and> sgStatus r = resStatus res \<and> evs ''s'' e' = evs ''s'' (example_env []) @ es
    \<and> (resStatus res = COMPLETED \<and> es = map Executed [0..<length (defSteps example_saga)]
       \<or> (\<exists>f < length (defSteps example_saga). resStatus res = COMPENSATED
            \<and> es = map Executed [0..<f] @ [ExecuteFailed f] @ map Compensated (rev [0..<f])))"
  by (rule saga_all_or_nothing) (simp_all add: example_compensates example_env_def)

theorem saga_crash_safe_witness:
  "\<exists>r. jm_get (seTable example_recovered) ''s'' = Some r \<and> sgStatus r = COMPENSATED \<and> sgIndex r = 1
     \<and> evs ''s'' example_recovered = [Executed 0, ExecuteFailed 1, Compensated 0, Compensated 0]
     \<and> sorted_wrt (\<ge>) (comps (evs ''s'' example_recovered))"
proof -
  obtain r where r: "jm_get (seTable example_recovered) ''s'' = Some r" "sgStatus r = COMPENSATED" "sgIndex r = 1" "sgType r = ''t''"
    by (simp add: example_recovered_def example_crashed_def saga_eval)
  have "jm_get [(''t'', example_saga)] (sgType r) = Some example_saga" using r(4) by simp
  from saga_crash_safe [OF example_recovered_reach r(1) this] r show ?thesis
    by (auto simp: example_recovered_def example_crashed_def saga_eval)
qed


text \<open>
  When the query that records the first step is rejected, the step is treated as failed although it
  ran, and it is not undone: the saga ends COMPENSATED with the effect of the step in the world.
\<close>

lemma unrecorded_step_not_compensated:
  "seLog (snd (example_run [NoFault, NoFault, Rejects (Some ''timeout'')])) = [(''s'', Executed 0)]
   \<and> map_option sgStatus (jm_get (seTable (snd (example_run [NoFault, NoFault, Rejects (Some ''timeout'')]))) ''s'') = Some COMPENSATED
   \<and> seWorld (snd (example_run [NoFault, NoFault, Rejects (Some ''timeout'')])) = 1"
  by (simp add: saga_eval)

end
