(* ===== verification/Batch_Deploy.thy ===== *)
theory Batch_Deploy
  imports Saga_Coordinator JS_Value
begin

text \<open>
  \<open>backend/src/services/batchTokenDeployService.ts\<close> and
  \<open>backend/src/services/sagas/batchDeployGovernanceSaga.ts\<close>: a batch of token deployments, alone and
  as the two-step saga "deploy, then register for governance".

  The world is the two tables the code writes and the events it publishes. A \<open>$transaction\<close> of
  creates is all or nothing; it rejects on the unique address of \<open>Token\<close> and when \<open>wReject\<close> says
  that the database fails. The registration table refers to \<open>Token\<close> with \<open>ON DELETE RESTRICT\<close>.
  Row ids (\<open>uuid()\<close>) come from a generator, and times are the instants of \<open>Date\<close> values.
\<close>

section \<open>Inputs, rows and the world\<close>

record token_input =
  inCreator :: string
  inName :: string
  inSymbol :: string
  inDecimals :: int
  inInitialSupply :: string
  inMetadataUri :: "string option"

record token_row =
  tkId :: string
  tkAddress :: string
  tkCreator :: string
  tkName :: string
  tkSymbol :: string
  tkDecimals :: int
  tkTotalSupply :: int
  tkInitialSupply :: int
  tkTotalBurned :: int
  tkBurnCount :: int
  tkMetadataUri :: "string option"
  tkCreatedAt :: int

record deploy_world =
  wTokens :: "token_row list"
  wRegistrations :: "string list"
  wEvents :: "(string \<times> jsval) list"
  wCounter :: nat
  wReject :: "thrown option"

section \<open>The Stellar adapter\<close>

definition callStellarDeploy :: "token_input \<Rightarrow> (thrown, string) res" where
  "callStellarDeploy x =
     Inr (take 56 (''G'' @ to_upper (take 4 (inCreator x)) @ to_upper (inSymbol x)
        @ replicate (nat (max 0 (50 - int (length (inCreator x)) - int (length (inSymbol x))))) CHR ''0''))"

section \<open>The database\<close>

definition token_of_input :: "int \<Rightarrow> string \<Rightarrow> token_input \<Rightarrow> string \<Rightarrow> int \<Rightarrow> token_row" where
  "token_of_input now tokenId x address supply =
     \<lparr>tkId = tokenId, tkAddress = address, tkCreator = inCreator x, tkName = inName x, tkSymbol = inSymbol x,
      tkDecimals = inDecimals x, tkTotalSupply = supply, tkInitialSupply = supply, tkTotalBurned = 0, tkBurnCount = 0,
      tkMetadataUri = inMetadataUri x, tkCreatedAt = now\<rparr>"

text \<open>\<open>BigInt(input.initialSupply)\<close> is evaluated for every input before the transaction starts.\<close>

fun supplies :: "token_input list \<Rightarrow> (thrown, int list) res" where
  "supplies [] = Inr []"
| "supplies (x # xs) =
     (case big_int_of (inInitialSupply x) of
        None \<Rightarrow> Inl (Some (''Cannot convert '' @ inInitialSupply x @ '' to a BigInt''))
      | Some n \<Rightarrow> (case supplies xs of Inl e \<Rightarrow> Inl e | Inr ns \<Rightarrow> Inr (n # ns)))"

fun new_rows :: "(nat \<Rightarrow> string) \<Rightarrow> int \<Rightarrow> nat \<Rightarrow> token_input list \<Rightarrow> string list \<Rightarrow> int list \<Rightarrow> token_row list" where
  "new_rows gen now c (x # xs) (a # as) (n # ns) = token_of_input now (gen c) x a n # new_rows gen now (Suc c) xs as ns"
| "new_rows gen now c _ _ _ = []"

definition createTokens :: "token_row list \<Rightarrow> deploy_world \<Rightarrow> (thrown, token_row list) res \<times> deploy_world" where
  "createTokens rows w =
     (case wReject w of
        Some x \<Rightarrow> (Inl x, w)
      | None \<Rightarrow>
          if distinct (map tkAddress (wTokens w @ rows))
          then (Inr rows, w\<lparr>wTokens := wTokens w @ rows, wCounter := wCounter w + length rows\<rparr>)
          else (Inl (Some ''Unique constraint failed''), w))"

definition deleteTokens :: "string list \<Rightarrow> deploy_world \<Rightarrow> (thrown, unit) res \<times> deploy_world" where
  "deleteTokens ids w =
     (if \<exists>i \<in> set ids. i \<in> set (wRegistrations w) \<and> i \<in> set (map tkId (wTokens w)) then (Inl (Some ''Foreign key constraint violated''), w)
      else (Inr (), w\<lparr>wTokens := filter (\<lambda>t. tkId t \<notin> set ids) (wTokens w)\<rparr>))"

fun upsertRegistrations :: "string list \<Rightarrow> string list \<Rightarrow> string list" where
  "upsertRegistrations [] regs = regs"
| "upsertRegistrations (i # ids) regs = upsertRegistrations ids (if i \<in> set regs then regs else regs @ [i])"

definition registerTokens :: "string list \<Rightarrow> deploy_world \<Rightarrow> (thrown, unit) res \<times> deploy_world" where
  "registerTokens ids w =
     (case wReject w of
        Some x \<Rightarrow> (Inl x, w)
      | None \<Rightarrow>
          if set ids \<subseteq> set (map tkId (wTokens w)) then (Inr (), w\<lparr>wRegistrations := upsertRegistrations ids (wRegistrations w)\<rparr>)
          else (Inl (Some ''Foreign key constraint violated''), w))"

section \<open>The batch service\<close>

record deployed_token =
  dtId :: string
  dtAddress :: string
  dtCreator :: string
  dtName :: string
  dtSymbol :: string
  dtDecimals :: int
  dtTotalSupply :: string
  dtInitialSupply :: string
  dtTotalBurned :: string
  dtBurnCount :: int
  dtMetadataUri :: "string option"
  dtCreatedAt :: int

record batch_result =
  brSucceeded :: "deployed_token list"
  brFailed :: "(token_input \<times> string) list"

definition errorMessage :: "string \<Rightarrow> thrown \<Rightarrow> string" where
  "errorMessage fallback x = (case x of Some msg \<Rightarrow> msg | None \<Rightarrow> fallback)"

text \<open>The calls in sequence, up to the first failure (with the addresses obtained before it).\<close>

fun callAll :: "(token_input \<Rightarrow> (thrown, string) res) \<Rightarrow> token_input list \<Rightarrow> string list \<Rightarrow> (thrown \<times> string list, string list) res" where
  "callAll call [] results = Inr results"
| "callAll call (x # xs) results =
     (case call x of Inl e \<Rightarrow> Inl (e, results) | Inr a \<Rightarrow> callAll call xs (results @ [a]))"

definition deployedEvent :: "token_row \<Rightarrow> string \<times> jsval" where
  "deployedEvent t = (''token.deployed'', JObj
     [(''tokenAddress'', JStr (tkAddress t)), (''creatorAddress'', JStr (tkCreator t)), (''name'', JStr (tkName t)),
      (''symbol'', JStr (tkSymbol t)), (''totalSupply'', JStr (show_int (tkTotalSupply t))),
      (''txHash'', JStr (''batch-deploy-'' @ tkId t)), (''timestamp'', JNum (tkCreatedAt t))])"

definition serialiseToken :: "token_row \<Rightarrow> deployed_token" where
  "serialiseToken t =
     \<lparr>dtId = tkId t, dtAddress = tkAddress t, dtCreator = tkCreator t, dtName = tkName t, dtSymbol = tkSymbol t,
      dtDecimals = tkDecimals t, dtTotalSupply = show_int (tkTotalSupply t), dtInitialSupply = show_int (tkInitialSupply t),
      dtTotalBurned = show_int (tkTotalBurned t), dtBurnCount = tkBurnCount t, dtMetadataUri = tkMetadataUri t,
      dtCreatedAt = tkCreatedAt t\<rparr>"

definition batchDeployTokens ::
  "(token_input \<Rightarrow> (thrown, string) res) \<Rightarrow> (nat \<Rightarrow> string) \<Rightarrow> int \<Rightarrow> token_input list \<Rightarrow> deploy_world \<Rightarrow> batch_result \<times> deploy_world" where
  "batchDeployTokens call gen now inputs w =
     (case callAll call inputs [] of
        Inl (e, results) \<Rightarrow>
          (\<lparr>brSucceeded = [],
            brFailed = (inputs ! length results, errorMessage ''Stellar contract call failed'' e)
              # map (\<lambda>x. (x, ''Skipped due to earlier failure in batch'')) (drop (length results + 1) inputs)\<rparr>, w)
      | Inr results \<Rightarrow>
          (case (case supplies inputs of
                   Inl e \<Rightarrow> (Inl e, w)
                 | Inr ns \<Rightarrow> createTokens (new_rows gen now (wCounter w) inputs results ns) w) of
             (Inl e, w1) \<Rightarrow>
               (\<lparr>brSucceeded = [], brFailed = map (\<lambda>x. (x, errorMessage ''Database transaction failed'' e)) inputs\<rparr>, w1)
           | (Inr created, w1) \<Rightarrow>
               (\<lparr>brSucceeded = map serialiseToken created, brFailed = []\<rparr>,
                w1\<lparr>wEvents := wEvents w1 @ map deployedEvent created\<rparr>)))"

section \<open>The saga\<close>

datatype saga_value = Inputs "token_input list" | Strings "string list"

definition BATCH_DEPLOY_GOVERNANCE_SAGA_TYPE :: string where
  "BATCH_DEPLOY_GOVERNANCE_SAGA_TYPE = ''batch_deploy_with_governance_registration''"

definition ctxInputs :: "saga_value saga_ctx \<Rightarrow> token_input list" where
  "ctxInputs ctx = (case ctx ''inputs'' of Some (Inputs xs) \<Rightarrow> xs | _ \<Rightarrow> [])"

definition ctxTokenIds :: "saga_value saga_ctx \<Rightarrow> string list" where
  "ctxTokenIds ctx = (case ctx ''deployedTokenIds'' of Some (Strings ids) \<Rightarrow> ids | _ \<Rightarrow> [])"

definition sagaDeployedEvent :: "token_row \<Rightarrow> string \<times> jsval" where
  "sagaDeployedEvent t = (''token.deployed'', JObj
     [(''tokenId'', JStr (tkId t)), (''address'', JStr (tkAddress t)), (''creator'', JStr (tkCreator t)), (''name'', JStr (tkName t)),
      (''symbol'', JStr (tkSymbol t)), (''decimals'', JNum (tkDecimals t)), (''initialSupply'', JStr (show_int (tkInitialSupply t))),
      (''metadataUri'', case tkMetadataUri t of Some u \<Rightarrow> JStr u | None \<Rightarrow> JNull)])"

definition deploy_tokens_step :: "(nat \<Rightarrow> string) \<Rightarrow> int \<Rightarrow> (saga_value, deploy_world) saga_step" where
  "deploy_tokens_step gen now =
     \<lparr>stepName = ''deploy_tokens'',
      stepExecute = (\<lambda>ctx w.
        let inputs = ctxInputs ctx
        in case callAll callStellarDeploy inputs [] of
             Inl (e, results) \<Rightarrow> (Inl e, w)
           | Inr results \<Rightarrow>
               (case supplies inputs of
                  Inl e \<Rightarrow> (Inl e, w)
                | Inr ns \<Rightarrow>
                    (case createTokens (new_rows gen now (wCounter w) inputs results ns) w of
                       (Inl e, w1) \<Rightarrow> (Inl e, w1)
                     | (Inr created, w1) \<Rightarrow>
                         (Inr (Some [''deployedTokenIds'' \<mapsto> Strings (map tkId created),
                                     ''deployedAddresses'' \<mapsto> Strings (map tkAddress created)]),
                          w1\<lparr>wEvents := wEvents w1 @ map sagaDeployedEvent created\<rparr>)))),
      stepCompensate = (\<lambda>ctx w.
        let tokenIds = ctxTokenIds ctx
        in if tokenIds = [] then (Inr (), w) else deleteTokens tokenIds w)\<rparr>"

definition register_governance_step :: "(saga_value, deploy_world) saga_step" where
  "register_governance_step =
     \<lparr>stepName = ''register_governance'',
      stepExecute = (\<lambda>ctx w. case registerTokens (ctxTokenIds ctx) w of
         (Inl e, w1) \<Rightarrow> (Inl e, w1) | (Inr _, w1) \<Rightarrow> (Inr None, w1)),
      stepCompensate = (\<lambda>ctx w.
        let tokenIds = ctxTokenIds ctx
        in if tokenIds = [] then (Inr (), w)
           else (Inr (), w\<lparr>wRegistrations := filter (\<lambda>i. i \<notin> set tokenIds) (wRegistrations w)\<rparr>))\<rparr>"

definition createBatchDeployGovernanceSaga :: "(nat \<Rightarrow> string) \<Rightarrow> int \<Rightarrow> (saga_value, deploy_world) saga_definition" where
  "createBatchDeployGovernanceSaga gen now =
     \<lparr>defSagaType = BATCH_DEPLOY_GOVERNANCE_SAGA_TYPE, defSteps = [deploy_tokens_step gen now, register_governance_step]\<rparr>"

definition saga_definitions :: "(nat \<Rightarrow> string) \<Rightarrow> int \<Rightarrow> (string, (saga_value, deploy_world) saga_definition) jsmap" where
  "saga_definitions gen now = registerSaga (createBatchDeployGovernanceSaga gen now) []"

definition deployTokensWithGovernanceRegistration ::
  "(nat \<Rightarrow> string) \<Rightarrow> int \<Rightarrow> string \<Rightarrow> token_input list \<Rightarrow> (saga_value, deploy_world) saga_env
    \<Rightarrow> saga_value saga_result outcome \<times> (saga_value, deploy_world) saga_env" where
  "deployTokensWithGovernanceRegistration gen now sagaId inputs e =
     runSaga (saga_definitions gen now) now sagaId BATCH_DEPLOY_GOVERNANCE_SAGA_TYPE [''inputs'' \<mapsto> Inputs inputs] e"

section \<open>Properties\<close>

lemma callAll_length:
  "callAll call xs acc = Inr results \<Longrightarrow> length results = length acc + length xs"
  "callAll call xs acc = Inl (e, results) \<Longrightarrow> length results < length acc + length xs \<and> length acc \<le> length results"
  by (induction xs arbitrary: acc) (fastforce split: sum.splits)+

lemma callAll_stellar: "\<exists>as. callAll callStellarDeploy xs acc = Inr as"
  by (induction xs arbitrary: acc) (simp_all add: callStellarDeploy_def)

lemma supplies_length: "supplies xs = Inr ns \<Longrightarrow> length ns = length xs"
  by (induction xs arbitrary: ns) (auto split: option.splits sum.splits)

lemma new_rows_props:
  assumes "length as = length xs" and "length ns = length xs"
  shows "length (new_rows gen now c xs as ns) = length xs"
    and "map tkId (new_rows gen now c xs as ns) = map gen [c..<c + length xs]"
    and "map tkCreator (new_rows gen now c xs as ns) = map inCreator xs"
  using assms
  by (induction gen now c xs as ns rule: new_rows.induct) (auto simp: token_of_input_def upt_conv_Cons simp del: upt.simps)

lemma createTokens_cases:
  "(\<exists>x. createTokens rows w = (Inl x, w))
   \<or> createTokens rows w = (Inr rows, w\<lparr>wTokens := wTokens w @ rows, wCounter := wCounter w + length rows\<rparr>)"
  by (simp add: createTokens_def split: option.splits)

text \<open>A batch is all or nothing: either every input has its row, its result and its event, in the order
  of the inputs, and nothing is reported as failed, or the tables and the events are untouched,
  nothing is reported as deployed, and every input from the first failing one on (all of them for a
  database error) is reported as failed.\<close>

theorem batch_deploy_atomic:
  "case batchDeployTokens call gen now inputs w of (res, w') \<Rightarrow>
     (brFailed res = [] \<and> (\<exists>rows. wTokens w' = wTokens w @ rows \<and> map tkCreator rows = map inCreator inputs
        \<and> brSucceeded res = map serialiseToken rows \<and> wEvents w' = wEvents w @ map deployedEvent rows))
   \<or> (w' = w \<and> brSucceeded res = [] \<and> (\<exists>j < length inputs. map fst (brFailed res) = drop j inputs))"
proof (cases "callAll call inputs []")
  case (Inl p)
  obtain e results where p: "p = (e, results)" by fastforce
  have "length results < length inputs" using callAll_length(2) [of call inputs "[]" e results] Inl p by simp
  then show ?thesis using Inl p
    by (auto simp: batchDeployTokens_def comp_def Cons_nth_drop_Suc intro!: exI [of _ "length results"])
next
  case (Inr results)
  have failed: "map (\<lambda>x. (x, msg)) inputs = [] \<or> 0 < length inputs" for msg :: string by auto
  show ?thesis
  proof (cases "supplies inputs")
    case (Inl e)
    then show ?thesis using Inr failed by (cases inputs) (auto simp: batchDeployTokens_def comp_def intro!: exI [of _ 0])
  next
    case supp: (Inr ns)
    let ?rows = "new_rows gen now (wCounter w) inputs results ns"
    have "map tkCreator ?rows = map inCreator inputs"
      using callAll_length(1) [OF Inr] supplies_length [OF supp] by (simp add: new_rows_props)
    moreover from createTokens_cases [of ?rows w]
    have "(\<exists>x. createTokens ?rows w = (Inl x, w))
      \<or> createTokens ?rows w = (Inr ?rows, w\<lparr>wTokens := wTokens w @ ?rows, wCounter := wCounter w + length ?rows\<rparr>)" .
    ultimately show ?thesis using Inr supp
      by (cases inputs) (auto simp: batchDeployTokens_def comp_def intro!: exI [of _ 0])
  qed
qed

lemma upsertRegistrations_set: "set (upsertRegistrations ids regs) = set regs \<union> set ids"
  by (induction ids regs rule: upsertRegistrations.induct) auto

lemma fst_saga_steps [simp]:
  "length (defSteps (createBatchDeployGovernanceSaga gen now)) = 2"
  "defSteps (createBatchDeployGovernanceSaga gen now) ! 0 = deploy_tokens_step gen now"
  "defSteps (createBatchDeployGovernanceSaga gen now) ! Suc 0 = register_governance_step"
  by (simp_all add: createBatchDeployGovernanceSaga_def)

text \<open>What the first step does: nothing to the tables when it fails.\<close>

lemma deploy_execute:
  "(\<exists>x. stepExecute (deploy_tokens_step gen now) ctx w = (Inl x, w))
   \<or> (\<exists>rows evs. stepExecute (deploy_tokens_step gen now) ctx w =
        (Inr (Some [''deployedTokenIds'' \<mapsto> Strings (map tkId rows), ''deployedAddresses'' \<mapsto> Strings (map tkAddress rows)]),
         w\<lparr>wTokens := wTokens w @ rows, wCounter := wCounter w + length rows, wEvents := evs\<rparr>)
      \<and> map tkId rows = map gen [wCounter w..<wCounter w + length (ctxInputs ctx)] \<and> wReject w = None)"
proof (cases "supplies (ctxInputs ctx)")
  case (Inl e)
  obtain as where "callAll callStellarDeploy (ctxInputs ctx) [] = Inr as" using callAll_stellar by blast
  then show ?thesis using Inl by (simp add: deploy_tokens_step_def Let_def)
next
  case (Inr ns)
  obtain as where as: "callAll callStellarDeploy (ctxInputs ctx) [] = Inr as" using callAll_stellar by blast
  let ?rows = "new_rows gen now (wCounter w) (ctxInputs ctx) as ns"
  have ids: "map tkId ?rows = map gen [wCounter w..<wCounter w + length (ctxInputs ctx)]"
    using callAll_length(1) [OF as] supplies_length [OF Inr] by (simp add: new_rows_props)
  show ?thesis
  proof (cases "\<exists>x. createTokens ?rows w = (Inl x, w)")
    case True
    then show ?thesis using as Inr by (auto simp: deploy_tokens_step_def Let_def)
  next
    case False
    then have c: "createTokens ?rows w = (Inr ?rows, w\<lparr>wTokens := wTokens w @ ?rows, wCounter := wCounter w + length ?rows\<rparr>)"
      using createTokens_cases [of ?rows w] by blast
    then have "wReject w = None" by (simp add: createTokens_def split: option.splits)
    then show ?thesis using as Inr c ids
      by (intro disjI2 exI [of _ ?rows] exI [of _ "wEvents w @ map sagaDeployedEvent ?rows"])
        (simp add: deploy_tokens_step_def Let_def)
  qed
qed

text \<open>The undo of the first step removes exactly the rows it wrote.\<close>

lemma undo_rows:
  assumes "\<forall>i \<in> set (map tkId rows). i \<notin> set (map tkId ts)"
  shows "filter (\<lambda>t. tkId t \<notin> tkId ` set rows) (ts @ rows) = ts"
proof -
  have "filter (\<lambda>t. tkId t \<notin> tkId ` set rows) rows = []" by (auto simp: filter_empty_conv)
  moreover have "filter (\<lambda>t. tkId t \<notin> tkId ` set rows) ts = ts"
    using assms by (intro filter_True ballI) (metis image_eqI list.set_map)
  ultimately show ?thesis by simp
qed

lemma deploy_compensate:
  assumes "ctxTokenIds ctx = map tkId rows" and "wTokens w = ts @ rows"
    and "\<forall>i \<in> set (map tkId rows). i \<notin> set (map tkId ts) \<and> i \<notin> set (wRegistrations w)"
  shows "stepCompensate (deploy_tokens_step gen now) ctx w = (Inr (), w\<lparr>wTokens := ts\<rparr>)"
  using assms undo_rows [of rows ts] by (auto simp: deploy_tokens_step_def deleteTokens_def)

lemma register_execute:
  assumes "set (ctxTokenIds ctx) \<subseteq> set (map tkId (wTokens w))" and "wReject w = None"
  shows "stepExecute register_governance_step ctx w =
    (Inr None, w\<lparr>wRegistrations := upsertRegistrations (ctxTokenIds ctx) (wRegistrations w)\<rparr>)"
  using assms by (simp add: register_governance_step_def registerTokens_def)

lemmas saga_run_defs = executeFrom.simps await_def createSaga_def callExecute_def callCompensate_def updateSaga_def stepFailed_def
  mergeContext_def Let_def

text \<open>The run after the row of the saga was created, with the faults still to come.\<close>

lemma deploy_saga_run:
  assumes row: "jm_get (seTable e) k = Some r" and fs: "seFaults e = [] \<or> seFaults e = [NoFault, NoFault, Rejects x]"
    and ctx: "ctx = [''inputs'' \<mapsto> Inputs inputs]"
    and fresh: "\<forall>n. gen n \<notin> set (map tkId (wTokens (seWorld e))) \<union> set (wRegistrations (seWorld e))"
    and run: "executeFrom now k (createBatchDeployGovernanceSaga gen now) ctx 0 e = (out, e')"
  shows "(\<exists>res rows. out = Ret res \<and> resStatus res = COMPLETED \<and> length rows = length inputs
      \<and> wTokens (seWorld e') = wTokens (seWorld e) @ rows
      \<and> set (wRegistrations (seWorld e')) = set (wRegistrations (seWorld e)) \<union> set (map tkId rows))
    \<or> (wTokens (seWorld e') = wTokens (seWorld e) \<and> wRegistrations (seWorld e') = wRegistrations (seWorld e))"
proof -
  let ?w = "seWorld e"
  have ci: "ctxInputs ctx = inputs" by (simp add: ctx ctxInputs_def)
  from deploy_execute [of gen now ctx ?w] show ?thesis
  proof (elim disjE exE conjE)
    fix y assume "stepExecute (deploy_tokens_step gen now) ctx ?w = (Inl y, ?w)"
    with run row fs show ?thesis by (auto simp: saga_run_defs split: if_splits)
  next
    fix rows evs
    let ?w1 = "?w\<lparr>wTokens := wTokens ?w @ rows, wCounter := wCounter ?w + length rows, wEvents := evs\<rparr>"
    let ?p = "[''deployedTokenIds'' \<mapsto> Strings (map tkId rows), ''deployedAddresses'' \<mapsto> Strings (map tkAddress rows)]"
    assume ex: "stepExecute (deploy_tokens_step gen now) ctx ?w = (Inr (Some ?p), ?w1)"
      and ids: "map tkId rows = map gen [wCounter ?w..<wCounter ?w + length (ctxInputs ctx)]" and ok: "wReject ?w = None"
    let ?c = "ctx(''deployedTokenIds'' \<mapsto> Strings (map tkId rows), ''deployedAddresses'' \<mapsto> Strings (map tkAddress rows))"
    have cids: "ctxTokenIds ?c = map tkId rows" by (simp add: ctxTokenIds_def)
    have len: "length rows = length inputs" using arg_cong [OF ids, of length] ci by simp
    have new: "\<forall>i \<in> set (map tkId rows). i \<notin> set (map tkId (wTokens ?w)) \<and> i \<notin> set (wRegistrations ?w1)"
      unfolding ids using fresh by auto
    have undo: "stepCompensate (deploy_tokens_step gen now) ?c ?w1 = (Inr (), ?w1\<lparr>wTokens := wTokens ?w\<rparr>)"
      by (rule deploy_compensate [OF cids _ new]) simp
    have reg: "stepExecute register_governance_step ?c ?w1 =
        (Inr None, ?w1\<lparr>wRegistrations := upsertRegistrations (map tkId rows) (wRegistrations ?w)\<rparr>)"
      using register_execute [of ?c ?w1] ok by (simp add: cids)
    from fs show ?thesis
    proof
      assume "seFaults e = []"
      with run row ex reg len show ?thesis by (auto simp: saga_run_defs upsertRegistrations_set)
    next
      assume "seFaults e = [NoFault, NoFault, Rejects x]"
      with run row ex undo show ?thesis by (auto simp: saga_run_defs)
    qed
  qed
qed


section \<open>An example\<close>

text \<open>Row ids from the generator: \<open>t\<close> followed by the counter in unary.\<close>

definition example_gen :: "nat \<Rightarrow> string" where
  "example_gen n = CHR ''t'' # replicate n CHR ''i''"

definition example_input :: token_input where
  "example_input = \<lparr>inCreator = ''GABCDEF'', inName = ''Nova'', inSymbol = ''nov'', inDecimals = 7, inInitialSupply = ''1000'',
     inMetadataUri = None\<rparr>"

definition deploy_env :: "fault list \<Rightarrow> (saga_value, deploy_world) saga_env" where
  "deploy_env fs = \<lparr>seTable = [], seWorld = \<lparr>wTokens = [], wRegistrations = [], wEvents = [], wCounter = 0, wReject = None\<rparr>,
     seLog = [], seFaults = fs\<rparr>"


lemmas deploy_eval = deployTokensWithGovernanceRegistration_def saga_definitions_def registerSaga_def jm_set_def
  createBatchDeployGovernanceSaga_def runSaga_def getDefinition_def saga_run_defs deploy_tokens_step_def register_governance_step_def
  ctxInputs_def ctxTokenIds_def callStellarDeploy_def createTokens_def registerTokens_def deleteTokens_def token_of_input_def
  deploy_env_def example_input_def example_gen_def thrownMessage_def big_int_of_def is_digit_def is_space_def
  digit_val_def recoverInterruptedSagas_def findInterrupted_def recoverOne_def

lemma example_supply [simp]: "big_int_of ''1000'' = Some 1000"
  by code_simp

text \<open>
  When the query that records the finished registration is rejected, the undo of the first step meets
  the foreign key of the registrations, which nothing removes: the run throws, and so does every
  recovery, with the saga COMPENSATING and the tokens deployed and registered.
\<close>

definition stuck_env :: "(saga_value, deploy_world) saga_env" where
  "stuck_env = snd (deployTokensWithGovernanceRegistration example_gen 0 ''s'' [example_input]
     (deploy_env [NoFault, NoFault, NoFault, NoFault, Rejects None]))"

lemma stuck_env_eval:
  "map_option sgStatus (jm_get (seTable stuck_env) ''s'') = Some COMPENSATING"
  "wRegistrations (seWorld stuck_env) = [''t'']"
  "map tkId (wTokens (seWorld stuck_env)) = [''t'']"
  by (simp_all add: stuck_env_def deploy_eval)

lemma compensation_stuck:
  "evs ''s'' (snd (recoverInterruptedSagas (saga_definitions example_gen 0) 1 stuck_env)) = evs ''s'' stuck_env @ [CompensateFailed 0]
   \<and> map_option sgStatus (jm_get (seTable (snd (recoverInterruptedSagas (saga_definitions example_gen 0) 1 stuck_env))) ''s'') = Some COMPENSATING"
  by (simp add: stuck_env_def deploy_eval evs_def)

text \<open>The padding of the placeholder address counts the whole creator, not the part that is used.\<close>

lemma deploy_address_length:
  assumes "length (inCreator x) = 56" and "length (inSymbol x) \<le> 12"
  shows "map_sum id length (callStellarDeploy x) = Inr (5 + length (inSymbol x))"
  using assms by (simp add: callStellarDeploy_def to_upper_def)

text \<open>The saga publishes \<open>token.deployed\<close> without the \<open>creatorAddress\<close> by which subscriptions filter.\<close>

lemma saga_event_lacks_creatorAddress: "js_prop (snd (sagaDeployedEvent t)) ''creatorAddress'' = JUndef"
  by (simp add: sagaDeployedEvent_def)


end
