(* ===== verification/Migration_Orchestrator.thy ===== *)
theory Migration_Orchestrator
  imports Prelude
begin

text \<open>
  \<open>backend/src/services/migrationOrchestrator.ts\<close>: live migration of a table by dual writes, backfill,
  parity check, cutover of a read view, monitored rollback and cleanup.

  The database is a record of tables and views, and each SQL statement of the source is the function
  on it that PostgreSQL documents. A statement can fail without effect, or take effect and still be
  reported as failed. A table is a list of rows by primary key; a column holds a value or NULL
  (\<open>None\<close>). Prisma's own writes (\<open>next\<close> in the middleware) change the old table and return the
  selected columns. Operations run one after the other, except that client writes run between the
  batches of a backfill.
\<close>

section \<open>The database\<close>

type_synonym 'v row = "string \<Rightarrow> 'v option"
type_synonym ('k, 'v) table = "('k, 'v row) jsmap"

datatype sql_fault = SqlOk | SqlFails string | SqlLost string

record ('k, 'v) database =
  dbTables :: "string \<Rightarrow> ('k, 'v) table option"
  dbViews :: "string \<Rightarrow> string option"
  dbFaults :: "sql_fault list"

definition sql :: "(('k, 'v) database \<Rightarrow> (string, 'a) res \<times> ('k, 'v) database) \<Rightarrow> ('k, 'v) database
    \<Rightarrow> (string, 'a) res \<times> ('k, 'v) database" where
  "sql stmt db =
     (case dbFaults db of
        [] \<Rightarrow> stmt db
      | f # fs \<Rightarrow>
          let db1 = db\<lparr>dbFaults := fs\<rparr>
          in case f of
               SqlOk \<Rightarrow> stmt db1
             | SqlFails e \<Rightarrow> (Inl e, db1)
             | SqlLost e \<Rightarrow> (Inl e, snd (stmt db1)))"

definition undefined_table :: string where
  "undefined_table = ''relation does not exist''"

definition createTableLike :: "string \<Rightarrow> string \<Rightarrow> ('k, 'v) database \<Rightarrow> (string, unit) res \<times> ('k, 'v) database" where
  "createTableLike new old db =
     (if dbTables db new \<noteq> None then (Inr (), db)
      else if dbTables db old = None then (Inl undefined_table, db)
      else (Inr (), db\<lparr>dbTables := (dbTables db)(new := Some [])\<rparr>))"

definition createOrReplaceView :: "string \<Rightarrow> string \<Rightarrow> ('k, 'v) database \<Rightarrow> (string, unit) res \<times> ('k, 'v) database" where
  "createOrReplaceView view table db =
     (if dbTables db table = None then (Inl undefined_table, db)
      else (Inr (), db\<lparr>dbViews := (dbViews db)(view := Some table)\<rparr>))"

definition dropTable :: "string \<Rightarrow> ('k, 'v) database \<Rightarrow> (string, unit) res \<times> ('k, 'v) database" where
  "dropTable table db =
     (if \<exists>v \<in> ran (dbViews db). v = table then (Inl ''other objects depend on it'', db)
      else (Inr (), db\<lparr>dbTables := (dbTables db)(table := None)\<rparr>))"

definition onTable :: "string \<Rightarrow> (('k, 'v) table \<Rightarrow> ('k, 'v) table) \<Rightarrow> ('k, 'v) database \<Rightarrow> (string, unit) res \<times> ('k, 'v) database" where
  "onTable name f db =
     (case dbTables db name of
        None \<Rightarrow> (Inl undefined_table, db)
      | Some t \<Rightarrow> (Inr (), db\<lparr>dbTables := (dbTables db)(name := Some (f t))\<rparr>))"

definition fromTable :: "string \<Rightarrow> (('k, 'v) table \<Rightarrow> 'a) \<Rightarrow> ('k, 'v) database \<Rightarrow> (string, 'a) res \<times> ('k, 'v) database" where
  "fromTable name q db =
     (case dbTables db name of None \<Rightarrow> (Inl undefined_table, db) | Some t \<Rightarrow> (Inr (q t), db))"

definition fromTables :: "string \<Rightarrow> string \<Rightarrow> (('k, 'v) table \<Rightarrow> ('k, 'v) table \<Rightarrow> 'a) \<Rightarrow> ('k, 'v) database
    \<Rightarrow> (string, 'a) res \<times> ('k, 'v) database" where
  "fromTables a b q db =
     (case (dbTables db a, dbTables db b) of
        (Some t, Some u) \<Rightarrow> (Inr (q t u), db) | _ \<Rightarrow> (Inl undefined_table, db))"

section \<open>Configuration and state\<close>

datatype phase = Idle | DualWrite | Backfilling | Verifying | Verified | Cutover | Monitoring | Completed | RolledBack

fun phaseName :: "phase \<Rightarrow> string" where
  "phaseName Idle = ''idle''"
| "phaseName DualWrite = ''dual_write''"
| "phaseName Backfilling = ''backfilling''"
| "phaseName Verifying = ''verifying''"
| "phaseName Verified = ''verified''"
| "phaseName Cutover = ''cutover''"
| "phaseName Monitoring = ''monitoring''"
| "phaseName Completed = ''completed''"
| "phaseName RolledBack = ''rolled_back''"

record migration_config =
  modelName :: string
  tableName :: string
  shadowTableName :: string
  viewName :: string
  primaryKeyColumn :: string
  columns :: "string list"
  batchSize :: nat
  errorRateThreshold :: real
  errorRateWindowMs :: int
  minSamplesForRollback :: nat

record ('k, 'v) row_mismatch =
  rmPrimaryKey :: 'k
  rmColumn :: string
  rmOldValue :: "'v option"
  rmShadowValue :: "'v option"

record ('k, 'v) parity_report =
  prTotalOldRows :: nat
  prTotalShadowRows :: nat
  prMissingInShadow :: nat
  prMissingInOld :: nat
  prMismatchedRows :: nat
  prMismatches :: "('k, 'v) row_mismatch list"
  prPassed :: bool
  prCheckedAt :: int

text \<open>The reason of a rollback keeps the numbers that the automatic one prints.\<close>

datatype rollback_reason = ErrorRate real real nat | Reason string

record ('k, 'v) migration =
  mgConfig :: migration_config
  mgPhase :: phase
  mgDualWriteStartedAt :: "int option"
  mgBackfillCompletedAt :: "int option"
  mgReport :: "('k, 'v) parity_report option"
  mgCutoverAt :: "int option"
  mgRolledBackAt :: "int option"
  mgRollbackReason :: "rollback_reason option"
  mgCompletedAt :: "int option"
  mgMiddleware :: bool
  mgOutcomes :: "(int \<times> bool) list"

definition is_ident_start :: "char \<Rightarrow> bool" where
  "is_ident_start c = (let n = (of_char c :: nat) in 65 \<le> n \<and> n \<le> 90 \<or> 97 \<le> n \<and> n \<le> 122 \<or> c = CHR ''_'')"

definition safeIdentifier :: "string \<Rightarrow> bool" where
  "safeIdentifier name =
     (case name of [] \<Rightarrow> False | c # cs \<Rightarrow> is_ident_start c \<and> list_all (\<lambda>c. is_ident_start c \<or> is_digit c) cs)"

definition assertSafeIdentifier :: "string \<Rightarrow> string \<Rightarrow> (string, unit) res" where
  "assertSafeIdentifier name kind =
     (if safeIdentifier name then Inr ()
      else Inl (''MigrationOrchestrator: unsafe '' @ kind @ '' identifier \"'' @ name @ ''\" -- must match /^[A-Za-z_][A-Za-z0-9_]*$/''))"

fun assertAll :: "(string \<times> string) list \<Rightarrow> (string, unit) res" where
  "assertAll [] = Inr ()"
| "assertAll ((name, kind) # xs) = (case assertSafeIdentifier name kind of Inl e \<Rightarrow> Inl e | Inr _ \<Rightarrow> assertAll xs)"

text \<open>
  The options with their defaults; the shadow table is created by the default statement (a custom
  \<open>createShadowTableSql\<close> is SQL of the caller).
\<close>

definition new_migration ::
  "string \<Rightarrow> string \<Rightarrow> string \<Rightarrow> string \<Rightarrow> string \<Rightarrow> string list \<Rightarrow> nat option \<Rightarrow> real option \<Rightarrow> int option \<Rightarrow> nat option
    \<Rightarrow> (string, ('k, 'v) migration) res" where
  "new_migration model table shadow view pk cols batch threshold window samples =
     (case assertAll ([(table, ''tableName''), (shadow, ''shadowTableName''), (view, ''viewName''), (pk, ''primaryKeyColumn'')]
         @ map (\<lambda>c. (c, ''column'')) cols) of
        Inl e \<Rightarrow> Inl e
      | Inr _ \<Rightarrow> Inr
          \<lparr>mgConfig = \<lparr>modelName = model, tableName = table, shadowTableName = shadow, viewName = view, primaryKeyColumn = pk, columns = cols,
             batchSize = (case batch of Some n \<Rightarrow> n | None \<Rightarrow> 1000),
             errorRateThreshold = (case threshold of Some x \<Rightarrow> x | None \<Rightarrow> 5 / 100),
             errorRateWindowMs = (case window of Some n \<Rightarrow> n | None \<Rightarrow> 60000),
             minSamplesForRollback = (case samples of Some n \<Rightarrow> n | None \<Rightarrow> 20)\<rparr>,
           mgPhase = Idle, mgDualWriteStartedAt = None, mgBackfillCompletedAt = None, mgReport = None, mgCutoverAt = None,
           mgRolledBackAt = None, mgRollbackReason = None, mgCompletedAt = None, mgMiddleware = False, mgOutcomes = []\<rparr>)"

fun join_comma :: "string list \<Rightarrow> string" where
  "join_comma [] = []"
| "join_comma [s] = s"
| "join_comma (s # ss) = s @ '', '' @ join_comma ss"

definition requirePhase :: "phase list \<Rightarrow> ('k, 'v) migration \<Rightarrow> (string, unit) res" where
  "requirePhase allowed m =
     (if mgPhase m \<in> set allowed then Inr ()
      else Inl (''MigrationOrchestrator: cannot perform this action in phase \"'' @ phaseName (mgPhase m)
        @ ''\" (expected one of: '' @ join_comma (map phaseName allowed) @ '')''))"

text \<open>The columns other than the key.\<close>

definition dataColumns :: "('k, 'v) migration \<Rightarrow> string list" where
  "dataColumns m = filter (\<lambda>c. c \<noteq> primaryKeyColumn (mgConfig m)) (columns (mgConfig m))"

abbreviation oldName :: "('k, 'v) migration \<Rightarrow> string" where
  "oldName m \<equiv> tableName (mgConfig m)"

abbreviation shadowName :: "('k, 'v) migration \<Rightarrow> string" where
  "shadowName m \<equiv> shadowTableName (mgConfig m)"

section \<open>Dual writes\<close>

text \<open>
  What Prisma returns of a row: the key if it was selected, and the selected columns.
\<close>

type_synonym ('k, 'v) result_row = "'k option \<times> 'v row"

text \<open>
  \<open>INSERT ... ON CONFLICT (pk) DO UPDATE SET ...\<close>: a missing key is NULL, which the key column refuses,
  and without a data column the statement ends after \<open>SET\<close>, which does not parse.
\<close>

definition insertOrUpdate :: "string list \<Rightarrow> 'k \<Rightarrow> 'v row \<Rightarrow> ('k, 'v) table \<Rightarrow> ('k, 'v) table" where
  "insertOrUpdate cols key values t =
     (let before = (case jm_get t key of Some r \<Rightarrow> r | None \<Rightarrow> (\<lambda>c. None))
      in jm_set t key (\<lambda>c. if c \<in> set cols then values c else before c))"

definition upsertShadowRow :: "('k, 'v) migration \<Rightarrow> ('k, 'v) result_row \<Rightarrow> ('k, 'v) database \<Rightarrow> (string, unit) res \<times> ('k, 'v) database" where
  "upsertShadowRow m row =
     (if dataColumns m = [] then sql (\<lambda>db. (Inl ''syntax error at end of input'', db))
      else case fst row of
        None \<Rightarrow> sql (\<lambda>db. (Inl ''null value in column violates not-null constraint'', db))
      | Some key \<Rightarrow> sql (onTable (shadowName m) (insertOrUpdate (dataColumns m) key (snd row))))"

definition deleteShadowRow :: "('k, 'v) migration \<Rightarrow> 'k option \<Rightarrow> ('k, 'v) database \<Rightarrow> (string, unit) res \<times> ('k, 'v) database" where
  "deleteShadowRow m key =
     sql (onTable (shadowName m) (\<lambda>t. case key of Some k \<Rightarrow> jm_delete t k | None \<Rightarrow> t))"

definition copyRowFromOldToShadow :: "('k, 'v) migration \<Rightarrow> 'k \<Rightarrow> ('k, 'v) database \<Rightarrow> (string, unit) res \<times> ('k, 'v) database" where
  "copyRowFromOldToShadow m key db =
     (case sql (fromTable (oldName m) (\<lambda>t. jm_get t key)) db of
        (Inl e, db1) \<Rightarrow> (Inl e, db1)
      | (Inr (Some r), db1) \<Rightarrow> upsertShadowRow m (Some key, r) db1
      | (Inr None, db1) \<Rightarrow> deleteShadowRow m (Some key) db1)"

fun copyRows :: "('k, 'v) migration \<Rightarrow> 'k list \<Rightarrow> ('k, 'v) database \<Rightarrow> (string, unit) res \<times> ('k, 'v) database" where
  "copyRows m [] db = (Inr (), db)"
| "copyRows m (k # ks) db =
     (case copyRowFromOldToShadow m k db of (Inl e, db1) \<Rightarrow> (Inl e, db1) | (Inr _, db1) \<Rightarrow> copyRows m ks db1)"

text \<open>
  The client's writes to the model: a predicate stands for a \<open>where\<close>; \<open>select\<close> restricts the columns
  of the result (\<open>None\<close>: all). A row of a \<open>createMany\<close> has its key from the caller or from the database.
\<close>

datatype ('k, 'v) client_write =
    WCreate 'k "'v row" "string list option"
  | WUpdate 'k "'v row \<Rightarrow> 'v row" "string list option"
  | WUpsert 'k "'v row" "'v row \<Rightarrow> 'v row" "string list option"
  | WDelete 'k "string list option"
  | WCreateMany "('k \<times> bool \<times> 'v row) list"
  | WUpdateMany "'k \<Rightarrow> 'v row \<Rightarrow> bool" "'v row \<Rightarrow> 'v row"
  | WDeleteMany "'k \<Rightarrow> 'v row \<Rightarrow> bool"
  | WOther

definition selectResult :: "('k, 'v) migration \<Rightarrow> string list option \<Rightarrow> 'k \<Rightarrow> 'v row \<Rightarrow> ('k, 'v) result_row" where
  "selectResult m sel k r =
     (case sel of
        None \<Rightarrow> (Some k, r)
      | Some cs \<Rightarrow> (if primaryKeyColumn (mgConfig m) \<in> set cs then Some k else None, \<lambda>c. if c \<in> set cs then r c else None))"

definition matching :: "('k \<Rightarrow> 'v row \<Rightarrow> bool) \<Rightarrow> ('k, 'v) table \<Rightarrow> 'k list" where
  "matching P t = map fst (filter (\<lambda>(k, r). P k r) t)"

text \<open>\<open>next(params)\<close>: the write on the old table and its result.\<close>

fun prismaWrite :: "('k, 'v) migration \<Rightarrow> ('k, 'v) client_write \<Rightarrow> ('k, 'v) table \<Rightarrow> (string, ('k, 'v) result_row option) res \<times> ('k, 'v) table" where
  "prismaWrite m (WCreate k r sel) t =
     (if jm_has t k then (Inl ''Unique constraint failed'', t) else (Inr (Some (selectResult m sel k r)), jm_set t k r))"
| "prismaWrite m (WUpdate k f sel) t =
     (case jm_get t k of None \<Rightarrow> (Inl ''Record to update not found'', t)
      | Some r \<Rightarrow> (Inr (Some (selectResult m sel k (f r))), jm_set t k (f r)))"
| "prismaWrite m (WUpsert k c f sel) t =
     (let r = (case jm_get t k of None \<Rightarrow> c | Some r \<Rightarrow> f r) in (Inr (Some (selectResult m sel k r)), jm_set t k r))"
| "prismaWrite m (WDelete k sel) t =
     (case jm_get t k of None \<Rightarrow> (Inl ''Record to delete does not exist'', t)
      | Some r \<Rightarrow> (Inr (Some (selectResult m sel k r)), jm_delete t k))"
| "prismaWrite m (WCreateMany rows) t =
     (if distinct (map fst t @ map fst rows) then (Inr None, t @ map (\<lambda>(k, b, r). (k, r)) rows)
      else (Inl ''Unique constraint failed'', t))"
| "prismaWrite m (WUpdateMany P f) t = (Inr None, map (\<lambda>(k, r). (k, if P k r then f r else r)) t)"
| "prismaWrite m (WDeleteMany P) t = (Inr None, filter (\<lambda>(k, r). \<not> P k r) t)"
| "prismaWrite m WOther t = (Inr None, t)"

definition nextWrite :: "('k, 'v) migration \<Rightarrow> ('k, 'v) client_write \<Rightarrow> ('k, 'v) database \<Rightarrow> (string, ('k, 'v) result_row option) res \<times> ('k, 'v) database" where
  "nextWrite m w = sql (\<lambda>db. case dbTables db (oldName m) of
     None \<Rightarrow> (Inl undefined_table, db)
   | Some t \<Rightarrow> (case prismaWrite m w t of (x, t1) \<Rightarrow> (x, db\<lparr>dbTables := (dbTables db)(oldName m := Some t1)\<rparr>)))"

definition findAffectedPrimaryKeys :: "('k, 'v) migration \<Rightarrow> ('k \<Rightarrow> 'v row \<Rightarrow> bool) \<Rightarrow> ('k, 'v) database \<Rightarrow> (string, 'k list) res \<times> ('k, 'v) database" where
  "findAffectedPrimaryKeys m P = sql (fromTable (oldName m) (matching P))"

fun mirrorWrite :: "('k, 'v) migration \<Rightarrow> ('k, 'v) client_write \<Rightarrow> ('k, 'v) result_row option \<Rightarrow> 'k list option \<Rightarrow> ('k, 'v) database
    \<Rightarrow> (string, unit) res \<times> ('k, 'v) database" where
  "mirrorWrite m (WCreate k r sel) result pre db = (case result of Some x \<Rightarrow> upsertShadowRow m x db | None \<Rightarrow> (Inr (), db))"
| "mirrorWrite m (WUpdate k f sel) result pre db = (case result of Some x \<Rightarrow> upsertShadowRow m x db | None \<Rightarrow> (Inr (), db))"
| "mirrorWrite m (WUpsert k c f sel) result pre db = (case result of Some x \<Rightarrow> upsertShadowRow m x db | None \<Rightarrow> (Inr (), db))"
| "mirrorWrite m (WDelete k sel) result pre db = (case result of Some x \<Rightarrow> deleteShadowRow m (fst x) db | None \<Rightarrow> (Inr (), db))"
| "mirrorWrite m (WCreateMany rows) result pre db = copyRows m (map fst (filter (\<lambda>(k, supplied, r). supplied) rows)) db"
| "mirrorWrite m (WUpdateMany P f) result pre db =
     (case findAffectedPrimaryKeys m P db of (Inl e, db1) \<Rightarrow> (Inl e, db1) | (Inr affected, db1) \<Rightarrow> copyRows m affected db1)"
| "mirrorWrite m (WDeleteMany P) result pre db = copyRows m (case pre of Some ks \<Rightarrow> ks | None \<Rightarrow> []) db"
| "mirrorWrite m WOther result pre db = (Inr (), db)"

definition shouldMirror :: "('k, 'v) migration \<Rightarrow> bool" where
  "shouldMirror m = (mgPhase m \<in> {DualWrite, Backfilling, Verifying, Verified})"

text \<open>A write through the client: the middleware when it is installed. Mirror failures are logged.\<close>

definition clientWrite :: "('k, 'v) migration \<Rightarrow> ('k, 'v) client_write \<Rightarrow> ('k, 'v) database \<Rightarrow> (string, ('k, 'v) result_row option) res \<times> ('k, 'v) database" where
  "clientWrite m w db =
     (if \<not> mgMiddleware m then nextWrite m w db
      else
        (let (preDeleteKeys, db1) =
               (case w of
                  WDeleteMany P \<Rightarrow>
                    if shouldMirror m then
                      (case findAffectedPrimaryKeys m P db of (Inr ks, d) \<Rightarrow> (Some ks, d) | (Inl _, d) \<Rightarrow> (None, d))
                    else (None, db)
                | _ \<Rightarrow> (None, db))
         in case nextWrite m w db1 of
              (Inl e, db2) \<Rightarrow> (Inl e, db2)
            | (Inr result, db2) \<Rightarrow>
                if \<not> shouldMirror m then (Inr result, db2)
                else (Inr result, snd (mirrorWrite m w result preDeleteKeys db2))))"

definition clientWrites :: "('k, 'v) migration \<Rightarrow> ('k, 'v) client_write list \<Rightarrow> ('k, 'v) database \<Rightarrow> ('k, 'v) database" where
  "clientWrites m ws db = foldl (\<lambda>d w. snd (clientWrite m w d)) db ws"

definition startDualWrite :: "int \<Rightarrow> ('k, 'v) migration \<Rightarrow> ('k, 'v) database \<Rightarrow> (string, unit) res \<times> ('k, 'v) migration \<times> ('k, 'v) database" where
  "startDualWrite now m db =
     (case requirePhase [Idle] m of
        Inl e \<Rightarrow> (Inl e, m, db)
      | Inr _ \<Rightarrow>
          (case sql (createTableLike (shadowName m) (oldName m)) db of
             (Inl e, db1) \<Rightarrow> (Inl e, m, db1)
           | (Inr _, db1) \<Rightarrow>
               (case sql (createOrReplaceView (viewName (mgConfig m)) (oldName m)) db1 of
                  (Inl e, db2) \<Rightarrow> (Inl e, m, db2)
                | (Inr _, db2) \<Rightarrow> (Inr (), m\<lparr>mgMiddleware := True, mgPhase := DualWrite, mgDualWriteStartedAt := Some now\<rparr>, db2))))"

section \<open>Backfill\<close>

text \<open>The rows of a batch: \<open>WHERE pk > cursor ORDER BY pk ASC LIMIT n\<close>.\<close>

definition batchRows :: "nat \<Rightarrow> 'k::linorder option \<Rightarrow> ('k, 'v) table \<Rightarrow> ('k \<times> 'v row) list" where
  "batchRows n cursor t =
     take n (sort_key fst (case cursor of None \<Rightarrow> t | Some c \<Rightarrow> filter (\<lambda>(k, r). c < k) t))"

definition insertMissing :: "string list \<Rightarrow> 'k list \<Rightarrow> ('k, 'v) table \<Rightarrow> ('k, 'v) table \<Rightarrow> ('k, 'v) table" where
  "insertMissing cols keys old shadow =
     foldl (\<lambda>s (k, r). if k \<in> set keys \<and> \<not> jm_has s k then jm_set s k (\<lambda>c. if c \<in> set cols then r c else None) else s) shadow old"

definition insertFromOld :: "('k, 'v) migration \<Rightarrow> 'k list \<Rightarrow> ('k, 'v) database \<Rightarrow> (string, unit) res \<times> ('k, 'v) database" where
  "insertFromOld m keys = sql (\<lambda>db.
     case dbTables db (oldName m) of
       None \<Rightarrow> (Inl undefined_table, db)
     | Some old \<Rightarrow> onTable (shadowName m) (insertMissing (dataColumns m) keys old) db)"

text \<open>
  The loop of \<open>runBackfill\<close>. \<open>schedule\<close> holds the client writes that run before each batch is read;
  the loop would not end if writes kept adding rows beyond the cursor forever.
\<close>

function backfillLoop ::
  "('k::linorder, 'v) migration \<Rightarrow> ('k, 'v) client_write list list \<Rightarrow> 'k option \<Rightarrow> nat \<Rightarrow> ('k, 'v) database
    \<Rightarrow> (string, nat) res \<times> ('k, 'v) database" where
  "backfillLoop m schedule cursor rowsCopied db =
     (let db1 = clientWrites m (case schedule of [] \<Rightarrow> [] | ws # _ \<Rightarrow> ws) db
      in case sql (fromTable (oldName m) (batchRows (batchSize (mgConfig m)) cursor)) db1 of
           (Inl e, db2) \<Rightarrow> (Inl e, db2)
         | (Inr batch, db2) \<Rightarrow>
             if batch = [] then (Inr rowsCopied, db2)
             else
               (case insertFromOld m (map fst batch) db2 of
                  (Inl e, db3) \<Rightarrow> (Inl e, db3)
                | (Inr _, db3) \<Rightarrow>
                    backfillLoop m (tl schedule) (Some (fst (last batch))) (rowsCopied + length batch) db3))"
  by pat_completeness auto

definition rows_beyond :: "('k::linorder, 'v) migration \<Rightarrow> 'k option \<Rightarrow> ('k, 'v) database \<Rightarrow> nat" where
  "rows_beyond m cursor db =
     (case dbTables db (oldName m) of
        None \<Rightarrow> 0
      | Some t \<Rightarrow> length (case cursor of None \<Rightarrow> t | Some c \<Rightarrow> filter (\<lambda>(k, r). c < k) t))"

text \<open>What a statement that was not reported as failed has done.\<close>

lemma sql_Inr:
  assumes "sql stmt db = (Inr x, db')"
  obtains db0 where "stmt db0 = (Inr x, db')" and "dbTables db0 = dbTables db" and "dbViews db0 = dbViews db"
  using assms by (auto simp: sql_def Let_def split: list.splits sql_fault.splits)

lemma fromTable_Inr:
  assumes "sql (fromTable name q) db = (Inr x, db')"
  shows "\<exists>t. dbTables db name = Some t \<and> x = q t \<and> dbTables db' = dbTables db \<and> dbViews db' = dbViews db"
  using assms by (rule sql_Inr) (auto simp: fromTable_def split: option.splits)

lemma insertMissing_same: "insertMissing cols keys old old = old"
proof -
  have "foldl (\<lambda>s (k, r). if k \<in> set keys \<and> \<not> jm_has s k then jm_set s k (\<lambda>c. if c \<in> set cols then r c else None) else s) old xs = old"
    if "set xs \<subseteq> set old" for xs
    using that by (induction xs) (auto simp: jm_has_iff rev_image_eqI)
  then show ?thesis by (simp add: insertMissing_def)
qed

lemma insertFromOld_Inr:
  assumes "insertFromOld m keys db = (Inr x, db')"
  obtains old s where "dbTables db (oldName m) = Some old" and "dbTables db (shadowName m) = Some s"
    and "dbTables db' = (dbTables db)(shadowName m := Some (insertMissing (dataColumns m) keys old s))"
    and "dbTables db' (oldName m) = Some old" and "dbViews db' = dbViews db"
proof -
  from assms obtain old s where "dbTables db (oldName m) = Some old" "dbTables db (shadowName m) = Some s"
    "dbTables db' = (dbTables db)(shadowName m := Some (insertMissing (dataColumns m) keys old s))" "dbViews db' = dbViews db"
    unfolding insertFromOld_def by (auto elim!: sql_Inr simp: onTable_def split: option.splits)
  then show thesis by (intro that) (auto simp: insertMissing_same)
qed

lemma batchRows_last:
  assumes "batchRows n cursor t \<noteq> []"
  shows "fst (last (batchRows n cursor t)) \<in> fst ` set t \<and> (\<forall>c. cursor = Some c \<longrightarrow> c < fst (last (batchRows n cursor t)))"
proof -
  have "last (batchRows n cursor t) \<in> set (batchRows n cursor t)" using assms by simp
  then have "last (batchRows n cursor t) \<in> set (case cursor of None \<Rightarrow> t | Some c \<Rightarrow> filter (\<lambda>(k, r). c < k) t)"
    unfolding batchRows_def by (metis in_set_takeD set_sort)
  then show ?thesis by (auto split: option.splits)
qed

lemma length_filter_mono:
  "(\<And>x. x \<in> set xs \<Longrightarrow> P x \<Longrightarrow> Q x) \<Longrightarrow> length (filter P xs) \<le> length (filter Q xs)"
  by (induction xs) auto

lemma length_filter_less:
  "(\<And>x. x \<in> set xs \<Longrightarrow> P x \<Longrightarrow> Q x) \<Longrightarrow> y \<in> set xs \<Longrightarrow> Q y \<Longrightarrow> \<not> P y \<Longrightarrow> length (filter P xs) < length (filter Q xs)"
proof (induction xs)
  case (Cons x xs)
  have le: "length (filter P xs) \<le> length (filter Q xs)"
    by (rule length_filter_mono) (use Cons.prems(1) in auto)
  show ?case
  proof (cases "x = y")
    case True
    then show ?thesis using Cons.prems le by simp
  next
    case False
    then have "length (filter P xs) < length (filter Q xs)" using Cons by simp
    then show ?thesis using Cons.prems(1) [of x] by auto
  qed
qed simp

lemma rows_beyond_less:
  assumes "dbTables db (oldName m) = Some t" and "dbTables db' (oldName m) = Some t" and "batchRows n cursor t \<noteq> []"
  shows "rows_beyond m (Some (fst (last (batchRows n cursor t)))) db' < rows_beyond m cursor db"
proof -
  let ?l = "fst (last (batchRows n cursor t))"
  have l: "?l \<in> fst ` set t" "\<forall>c. cursor = Some c \<longrightarrow> c < ?l" using batchRows_last [OF assms(3)] by auto
  obtain r where r: "(?l, r) \<in> set t" using l(1) by auto
  show ?thesis
  proof (cases cursor)
    case None
    have "length (filter (\<lambda>(k, r). ?l < k) t) < length (filter (\<lambda>_. True) t)"
      by (rule length_filter_less [of _ _ _ "(?l, r)"]) (use r in auto)
    then show ?thesis using None assms by (simp add: rows_beyond_def)
  next
    case (Some c)
    have "length (filter (\<lambda>(k, r). ?l < k) t) < length (filter (\<lambda>(k, r). c < k) t)"
      by (rule length_filter_less [of _ _ _ "(?l, r)"]) (use r l(2) Some in auto)
    then show ?thesis using Some assms by (simp add: rows_beyond_def)
  qed
qed

lemma backfill_progress:
  assumes "(Inr batch, db2) = sql (fromTable (oldName m) (batchRows (batchSize (mgConfig m)) cursor))
      (clientWrites m (case schedule of [] \<Rightarrow> [] | ws # x \<Rightarrow> ws) db)"
    and "batch \<noteq> []" and "(Inr u, db3) = insertFromOld m (map fst batch) db2"
  shows "length (tl schedule) < length schedule \<or> length (tl schedule) = length schedule
    \<and> rows_beyond m (Some (fst (last batch))) db3 < rows_beyond m cursor db"
proof (cases schedule)
  case Nil
  have q: "sql (fromTable (oldName m) (batchRows (batchSize (mgConfig m)) cursor)) db = (Inr batch, db2)"
    using assms(1) Nil by (simp add: clientWrites_def)
  from fromTable_Inr [OF q] obtain t where t: "dbTables db (oldName m) = Some t"
    "batch = batchRows (batchSize (mgConfig m)) cursor t" "dbTables db2 = dbTables db" by blast
  obtain old where "dbTables db2 (oldName m) = Some old" "dbTables db3 (oldName m) = Some old"
    by (rule insertFromOld_Inr [OF assms(3) [symmetric]]) blast
  then show ?thesis using rows_beyond_less [of db m t db3] t assms(2) Nil by simp
qed simp

termination backfillLoop
  apply (relation "inv_image (less_than <*lex*> less_than)
    (\<lambda>(m, schedule, cursor, n, db). (length schedule, rows_beyond m cursor db))")
   apply (rule wf_inv_image, rule wf_lex_prod, rule wf_less_than, rule wf_less_than)
  apply (simp only: in_inv_image prod.case in_lex_prod less_than_iff)
  apply (rule backfill_progress)
    apply assumption+
  done

declare backfillLoop.simps [simp del]

definition runBackfill :: "int \<Rightarrow> ('k::linorder, 'v) client_write list list \<Rightarrow> ('k, 'v) migration \<Rightarrow> ('k, 'v) database
    \<Rightarrow> (string, nat) res \<times> ('k, 'v) migration \<times> ('k, 'v) database" where
  "runBackfill now schedule m db =
     (case requirePhase [DualWrite] m of
        Inl e \<Rightarrow> (Inl e, m, db)
      | Inr _ \<Rightarrow>
          (let m1 = m\<lparr>mgPhase := Backfilling\<rparr>
           in case backfillLoop m1 schedule None 0 db of
                (Inl e, db1) \<Rightarrow> (Inl e, m1, db1)
              | (Inr n, db1) \<Rightarrow> (Inr n, m1\<lparr>mgPhase := DualWrite, mgBackfillCompletedAt := Some now\<rparr>, db1)))"

section \<open>Parity\<close>

definition absentIn :: "('k, 'v) table \<Rightarrow> ('k, 'v) table \<Rightarrow> nat" where
  "absentIn t u = length (filter (\<lambda>(k, r). \<not> jm_has u k) t)"

definition differs :: "string list \<Rightarrow> 'v row \<Rightarrow> 'v row \<Rightarrow> bool" where
  "differs cols r s = list_ex (\<lambda>c. r c \<noteq> s c) cols"

text \<open>The join of the rows that differ.\<close>

definition differing :: "string list \<Rightarrow> ('k, 'v) table \<Rightarrow> ('k, 'v) table \<Rightarrow> ('k \<times> 'v row \<times> 'v row) list" where
  "differing cols t u =
     List.map_filter (\<lambda>(k, r). case jm_get u k of None \<Rightarrow> None | Some s \<Rightarrow> if differs cols r s then Some (k, r, s) else None) t"

definition sampleMismatches :: "string list \<Rightarrow> ('k \<times> 'v row \<times> 'v row) list \<Rightarrow> ('k, 'v) row_mismatch list" where
  "sampleMismatches cols rows =
     concat (map (\<lambda>(k, r, s). map (\<lambda>c. \<lparr>rmPrimaryKey = k, rmColumn = c, rmOldValue = r c, rmShadowValue = s c\<rparr>)
       (filter (\<lambda>c. r c \<noteq> s c) cols)) rows)"

text \<open>The two queries on the rows of both tables, when there are columns to compare.\<close>

definition queryMismatches :: "nat \<Rightarrow> ('k, 'v) migration \<Rightarrow> ('k, 'v) database
    \<Rightarrow> (string, nat \<times> ('k, 'v) row_mismatch list) res \<times> ('k, 'v) database" where
  "queryMismatches maxSampled m db =
     (let cols = dataColumns m
      in if cols = [] then (Inr (0, []), db)
         else
           (case sql (fromTables (oldName m) (shadowName m) (\<lambda>t u. length (differing cols t u))) db of
              (Inl e, db1) \<Rightarrow> (Inl e, db1)
            | (Inr n, db1) \<Rightarrow>
                if n = 0 then (Inr (0, []), db1)
                else
                  (case sql (fromTables (oldName m) (shadowName m) (\<lambda>t u. take maxSampled (differing cols t u))) db1 of
                     (Inl e, db2) \<Rightarrow> (Inl e, db2)
                   | (Inr rows, db2) \<Rightarrow> (Inr (n, sampleMismatches cols rows), db2))))"

text \<open>The queries of \<open>verifyParity\<close> in sequence, with the report they give.\<close>

definition queryParity :: "nat \<Rightarrow> int \<Rightarrow> ('k, 'v) migration \<Rightarrow> ('k, 'v) database \<Rightarrow> (string, ('k, 'v) parity_report) res \<times> ('k, 'v) database" where
  "queryParity maxSampled now m db =
     (case sql (fromTable (oldName m) length) db of
        (Inl e, db1) \<Rightarrow> (Inl e, db1)
      | (Inr totalOld, db1) \<Rightarrow>
     (case sql (fromTable (shadowName m) length) db1 of
        (Inl e, db2) \<Rightarrow> (Inl e, db2)
      | (Inr totalShadow, db2) \<Rightarrow>
     (case sql (fromTables (oldName m) (shadowName m) absentIn) db2 of
        (Inl e, db3) \<Rightarrow> (Inl e, db3)
      | (Inr missingInShadow, db3) \<Rightarrow>
     (case sql (fromTables (shadowName m) (oldName m) absentIn) db3 of
        (Inl e, db4) \<Rightarrow> (Inl e, db4)
      | (Inr missingInOld, db4) \<Rightarrow>
     (case queryMismatches maxSampled m db4 of
        (Inl e, db5) \<Rightarrow> (Inl e, db5)
      | (Inr (mismatched, sample), db5) \<Rightarrow>
          (Inr \<lparr>prTotalOldRows = totalOld, prTotalShadowRows = totalShadow, prMissingInShadow = missingInShadow,
                prMissingInOld = missingInOld, prMismatchedRows = mismatched, prMismatches = sample,
                prPassed = (missingInShadow = 0 \<and> missingInOld = 0 \<and> mismatched = 0), prCheckedAt = now\<rparr>, db5))))))"

definition verifyParity :: "nat \<Rightarrow> int \<Rightarrow> ('k, 'v) migration \<Rightarrow> ('k, 'v) database
    \<Rightarrow> (string, ('k, 'v) parity_report) res \<times> ('k, 'v) migration \<times> ('k, 'v) database" where
  "verifyParity maxSampled now m db =
     (case requirePhase [DualWrite, Backfilling, Verifying] m of
        Inl e \<Rightarrow> (Inl e, m, db)
      | Inr _ \<Rightarrow>
          (let m1 = m\<lparr>mgPhase := Verifying\<rparr>
           in case queryParity maxSampled now m1 db of
                (Inl e, db1) \<Rightarrow> (Inl e, m1, db1)
              | (Inr report, db1) \<Rightarrow>
                  (Inr report, m1\<lparr>mgPhase := (if prPassed report then Verified else Verifying), mgReport := Some report\<rparr>, db1)))"

section \<open>Cutover, monitoring and cleanup\<close>

definition cutover :: "int \<Rightarrow> ('k, 'v) migration \<Rightarrow> ('k, 'v) database \<Rightarrow> (string, unit) res \<times> ('k, 'v) migration \<times> ('k, 'v) database" where
  "cutover now m db =
     (case requirePhase [Verified] m of
        Inl e \<Rightarrow> (Inl e, m, db)
      | Inr _ \<Rightarrow>
          if \<not> (case mgReport m of Some r \<Rightarrow> prPassed r | None \<Rightarrow> False)
          then (Inl ''MigrationOrchestrator: cutover blocked -- no passing parity report on file'', m, db)
          else
            (case sql (createOrReplaceView (viewName (mgConfig m)) (shadowName m)) db of
               (Inl e, db1) \<Rightarrow> (Inl e, m, db1)
             | (Inr _, db1) \<Rightarrow> (Inr (), m\<lparr>mgOutcomes := [], mgPhase := Monitoring, mgCutoverAt := Some now\<rparr>, db1)))"

definition rollback :: "int \<Rightarrow> rollback_reason \<Rightarrow> ('k, 'v) migration \<Rightarrow> ('k, 'v) database
    \<Rightarrow> (string, unit) res \<times> ('k, 'v) migration \<times> ('k, 'v) database" where
  "rollback now reason m db =
     (case requirePhase [Cutover, Monitoring] m of
        Inl e \<Rightarrow> (Inl e, m, db)
      | Inr _ \<Rightarrow>
          (case sql (createOrReplaceView (viewName (mgConfig m)) (oldName m)) db of
             (Inl e, db1) \<Rightarrow> (Inl e, m, db1)
           | (Inr _, db1) \<Rightarrow>
               (Inr (), m\<lparr>mgPhase := RolledBack, mgRolledBackAt := Some now, mgRollbackReason := Some reason\<rparr>, db1)))"

definition recordPostCutoverOutcome :: "int \<Rightarrow> bool \<Rightarrow> ('k, 'v) migration \<Rightarrow> ('k, 'v) database
    \<Rightarrow> (string, unit) res \<times> ('k, 'v) migration \<times> ('k, 'v) database" where
  "recordPostCutoverOutcome now success m db =
     (if mgPhase m \<noteq> Monitoring then (Inr (), m, db)
      else
        (let outcomes = filter (\<lambda>(stamp, ok). now - stamp \<le> errorRateWindowMs (mgConfig m)) (mgOutcomes m @ [(now, success)]);
             m1 = m\<lparr>mgOutcomes := outcomes\<rparr>
         in if length outcomes < minSamplesForRollback (mgConfig m) then (Inr (), m1, db)
            else
              (let failures = length (filter (\<lambda>(stamp, ok). \<not> ok) outcomes);
                   errorRate = real failures / real (length outcomes)
               in if errorRate > errorRateThreshold (mgConfig m)
                  then rollback now (ErrorRate errorRate (errorRateThreshold (mgConfig m)) (length outcomes)) m1 db
                  else (Inr (), m1, db))))"

definition confirmStable :: "int \<Rightarrow> ('k, 'v) migration \<Rightarrow> (string, unit) res \<times> ('k, 'v) migration" where
  "confirmStable now m =
     (case requirePhase [Monitoring] m of
        Inl e \<Rightarrow> (Inl e, m)
      | Inr _ \<Rightarrow> (Inr (), m\<lparr>mgPhase := Completed, mgCompletedAt := Some now\<rparr>))"

definition cleanup :: "('k, 'v) migration \<Rightarrow> ('k, 'v) database \<Rightarrow> (string, unit) res \<times> ('k, 'v) migration \<times> ('k, 'v) database" where
  "cleanup m db =
     (case requirePhase [Completed] m of
        Inl e \<Rightarrow> (Inl e, m, db)
      | Inr _ \<Rightarrow>
          (case sql (dropTable (oldName m)) db of
             (Inl e, db1) \<Rightarrow> (Inl e, m, db1)
           | (Inr _, db1) \<Rightarrow> (Inr (), m\<lparr>mgMiddleware := False\<rparr>, db1)))"

section \<open>Agreement of the two tables\<close>

definition row_sync :: "string list \<Rightarrow> 'v row option \<Rightarrow> 'v row option \<Rightarrow> bool" where
  "row_sync cols x y = (case (x, y) of (None, None) \<Rightarrow> True | (Some r, Some s) \<Rightarrow> \<not> differs cols r s | _ \<Rightarrow> False)"

lemma row_sync_simps [simp]:
  "row_sync cols None None" "\<not> row_sync cols None (Some s)" "\<not> row_sync cols (Some r) None"
  "row_sync cols (Some r) (Some s) \<longleftrightarrow> \<not> differs cols r s"
  by (simp_all add: row_sync_def)

lemma differs_project [simp]:
  "\<not> differs cols r (\<lambda>c. if c \<in> set cols then r c else q c)" "\<not> differs cols r r"
  by (auto simp: differs_def list_ex_iff)

text \<open>Both tables with their contents, no fault to come, and distinct names.\<close>

definition tables :: "('k, 'v) migration \<Rightarrow> ('k, 'v) table \<Rightarrow> ('k, 'v) table \<Rightarrow> ('k, 'v) database \<Rightarrow> bool" where
  "tables m t u db \<longleftrightarrow> dbTables db (oldName m) = Some t \<and> dbTables db (shadowName m) = Some u \<and> jm_wf t \<and> jm_wf u
     \<and> dbFaults db = [] \<and> oldName m \<noteq> shadowName m \<and> dataColumns m \<noteq> []"

text \<open>Each key is untouched in both tables, or it agrees afterwards.\<close>

definition kept_or_synced :: "('k, 'v) migration \<Rightarrow> ('k, 'v) table \<Rightarrow> ('k, 'v) table \<Rightarrow> ('k, 'v) table \<Rightarrow> ('k, 'v) table \<Rightarrow> bool" where
  "kept_or_synced m t u t' u' \<longleftrightarrow>
     (\<forall>k. jm_get t' k = jm_get t k \<and> jm_get u' k = jm_get u k \<or> row_sync (dataColumns m) (jm_get t' k) (jm_get u' k))"

lemma sql_plain [simp]: "dbFaults db = [] \<Longrightarrow> sql stmt db = stmt db"
  by (simp add: sql_def)

lemma upsertShadowRow_tables:
  assumes "tables m t u db"
  shows "\<exists>u' db'. upsertShadowRow m (Some k, r) db = (Inr (), db') \<and> tables m t u' db' \<and> dbViews db' = dbViews db
    \<and> (\<forall>j. jm_get u' j = (if j = k then jm_get u' k else jm_get u j)) \<and> row_sync (dataColumns m) (Some r) (jm_get u' k)"
  using assms
  by (auto simp: upsertShadowRow_def tables_def onTable_def insertOrUpdate_def Let_def split: option.splits)

lemma deleteShadowRow_tables:
  assumes "tables m t u db"
  shows "\<exists>u' db'. deleteShadowRow m (Some k) db = (Inr (), db') \<and> tables m t u' db' \<and> dbViews db' = dbViews db
    \<and> (\<forall>j. jm_get u' j = (if j = k then None else jm_get u j))"
  using assms by (auto simp: deleteShadowRow_def tables_def onTable_def)

lemma copyRow_tables:
  assumes "tables m t u db"
  shows "\<exists>u' db'. copyRowFromOldToShadow m k db = (Inr (), db') \<and> tables m t u' db' \<and> dbViews db' = dbViews db
    \<and> (\<forall>j. j \<noteq> k \<longrightarrow> jm_get u' j = jm_get u j) \<and> row_sync (dataColumns m) (jm_get t k) (jm_get u' k)"
proof -
  have q: "sql (fromTable (oldName m) (\<lambda>t. jm_get t k)) db = (Inr (jm_get t k), db)"
    using assms by (simp add: tables_def fromTable_def)
  show ?thesis
  proof (cases "jm_get t k")
    case None
    from deleteShadowRow_tables [OF assms, of k] obtain u' db' where
      "deleteShadowRow m (Some k) db = (Inr (), db')" "tables m t u' db'" "dbViews db' = dbViews db"
      "\<forall>j. jm_get u' j = (if j = k then None else jm_get u j)" by blast
    then show ?thesis using q None
      by (intro exI [of _ u'] exI [of _ db']) (simp add: copyRowFromOldToShadow_def)
  next
    case (Some r)
    from upsertShadowRow_tables [OF assms, of k r] obtain u' db' where
      *: "upsertShadowRow m (Some k, r) db = (Inr (), db')" "tables m t u' db'" "dbViews db' = dbViews db"
      "\<forall>j. jm_get u' j = (if j = k then jm_get u' k else jm_get u j)" "row_sync (dataColumns m) (Some r) (jm_get u' k)" by blast
    have "jm_get u' j = jm_get u j" if "j \<noteq> k" for j using *(4) that by metis
    then show ?thesis using q Some *(1,2,3,5)
      by (intro exI [of _ u'] exI [of _ db']) (simp add: copyRowFromOldToShadow_def)
  qed
qed

lemma copyRows_tables:
  assumes "tables m t u db"
  shows "\<exists>u' db'. copyRows m ks db = (Inr (), db') \<and> tables m t u' db' \<and> dbViews db' = dbViews db
    \<and> (\<forall>j. if j \<in> set ks then row_sync (dataColumns m) (jm_get t j) (jm_get u' j) else jm_get u' j = jm_get u j)"
  using assms
proof (induction ks arbitrary: u db)
  case Nil
  then show ?case by auto
next
  case (Cons k ks)
  from copyRow_tables [OF Cons.prems, of k] obtain u1 db1 where
    1: "copyRowFromOldToShadow m k db = (Inr (), db1)" "tables m t u1 db1" "dbViews db1 = dbViews db"
    "\<And>j. j \<noteq> k \<Longrightarrow> jm_get u1 j = jm_get u j" "row_sync (dataColumns m) (jm_get t k) (jm_get u1 k)" by blast
  from Cons.IH [OF 1(2)] obtain u2 db2 where
    2: "copyRows m ks db1 = (Inr (), db2)" "tables m t u2 db2" "dbViews db2 = dbViews db1"
    "\<And>j. if j \<in> set ks then row_sync (dataColumns m) (jm_get t j) (jm_get u2 j) else jm_get u2 j = jm_get u1 j" by blast
  have "if j \<in> set (k # ks) then row_sync (dataColumns m) (jm_get t j) (jm_get u2 j) else jm_get u2 j = jm_get u j" for j
    using 1(4) [of j] 1(5) 2(4) [of j] by (cases "j = k") (auto split: if_splits)
  then show ?case using 1 2 by auto
qed

text \<open>
  The writes whose mirror is complete: full rows are returned, rows created in bulk have their keys from
  the caller, and a bulk update leaves its rows in its own \<open>where\<close>.
\<close>

fun mirrored :: "('k, 'v) client_write \<Rightarrow> bool" where
  "mirrored (WCreate k r sel) = (sel = None)"
| "mirrored (WUpdate k f sel) = (sel = None)"
| "mirrored (WUpsert k c f sel) = (sel = None)"
| "mirrored (WDelete k sel) = (sel = None)"
| "mirrored (WCreateMany rows) = list_all (\<lambda>(k, supplied, r). supplied) rows"
| "mirrored (WUpdateMany P f) = (\<forall>k r. P k r \<longrightarrow> P k (f r))"
| "mirrored (WDeleteMany P) = True"
| "mirrored WOther = True"

lemma prismaWrite_wf: "jm_wf t \<Longrightarrow> jm_wf (snd (prismaWrite m w t))"
proof (cases w)
  case (WCreateMany rows)
  have "map fst (map (\<lambda>(k, b, r). (k, r)) rows) = map fst rows" by (induction rows) auto
  moreover assume "jm_wf t"
  ultimately show ?thesis using WCreateMany by (simp add: jm_wf_def del: map_map)
next
  case (WUpdateMany P f)
  assume "jm_wf t"
  moreover have "map fst (map (\<lambda>(k, r). (k, if P k r then f r else r)) t) = map fst t" by (induction t) auto
  ultimately show ?thesis using WUpdateMany by (simp add: jm_wf_def del: map_map)
qed (auto split: option.splits simp: Let_def)

lemma get_map_values: "jm_get (map (\<lambda>(k, r). (k, g k r)) t) k = map_option (g k) (jm_get t k)"
  by (induction t) auto

lemma matching_iff: "jm_wf t \<Longrightarrow> k \<in> set (matching P t) \<longleftrightarrow> (\<exists>r. jm_get t k = Some r \<and> P k r)"
proof -
  assume wf: "jm_wf t"
  have "k \<in> set (matching P t) \<longleftrightarrow> (\<exists>r. (k, r) \<in> set t \<and> P k r)" by (force simp: matching_def)
  also have "\<dots> \<longleftrightarrow> (\<exists>r. jm_get t k = Some r \<and> P k r)" using wf by (simp add: jm_wf_def)
  finally show ?thesis .
qed

lemma nextWrite_tables:
  assumes "tables m t u db" and "prismaWrite m w t = (x, t1)"
  shows "\<exists>db1. nextWrite m w db = (x, db1) \<and> tables m t1 u db1 \<and> dbViews db1 = dbViews db"
proof -
  have "jm_wf t1" using prismaWrite_wf [of t m w] assms by (simp add: tables_def)
  then show ?thesis using assms by (auto simp: nextWrite_def tables_def)
qed

lemma prismaWrite_error: "prismaWrite m w t = (Inl e, t1) \<Longrightarrow> t1 = t"
  by (cases w) (auto split: if_splits option.splits simp: Let_def)

text \<open>Single-row writes.\<close>

lemma mirror_upsert:
  assumes "tables m t u db" and "prismaWrite m w t = (Inr (Some (Some k, r)), jm_set t k r)"
    and "\<And>pre d. mirrorWrite m w (Some (Some k, r)) pre d = upsertShadowRow m (Some k, r) d"
  shows "\<exists>t' u' db1 db'. nextWrite m w db = (Inr (Some (Some k, r)), db1) \<and> snd (mirrorWrite m w (Some (Some k, r)) pre db1) = db'
    \<and> tables m t' u' db' \<and> dbViews db' = dbViews db \<and> kept_or_synced m t u t' u'"
proof -
  from nextWrite_tables [OF assms(1,2)] obtain db1 where
    1: "nextWrite m w db = (Inr (Some (Some k, r)), db1)" "tables m (jm_set t k r) u db1" "dbViews db1 = dbViews db" by blast
  from upsertShadowRow_tables [OF 1(2), of k r] obtain u' db' where
    2: "upsertShadowRow m (Some k, r) db1 = (Inr (), db')" "tables m (jm_set t k r) u' db'" "dbViews db' = dbViews db1"
    "\<And>j. jm_get u' j = (if j = k then jm_get u' k else jm_get u j)" "row_sync (dataColumns m) (Some r) (jm_get u' k)" by blast
  have "kept_or_synced m t u (jm_set t k r) u'"
    unfolding kept_or_synced_def
  proof
    fix j
    show "jm_get (jm_set t k r) j = jm_get t j \<and> jm_get u' j = jm_get u j
        \<or> row_sync (dataColumns m) (jm_get (jm_set t k r) j) (jm_get u' j)"
      using 2(4) [of j] 2(5) by (cases "j = k") auto
  qed
  moreover have "snd (mirrorWrite m w (Some (Some k, r)) pre db1) = db'" using 2(1) assms(3) by simp
  ultimately show ?thesis using 1(1,3) 2(2,3)
    by (intro exI [of _ "jm_set t k r"] exI [of _ u'] exI [of _ db1] exI [of _ db']) simp
qed

lemma clientWrite_upsert:
  assumes "tables m t u db" and "mgMiddleware m" and "shouldMirror m" and "\<not> (\<exists>P. w = WDeleteMany P)"
    and "prismaWrite m w t = (Inr (Some (Some k, r)), jm_set t k r)"
    and "\<And>pre d. mirrorWrite m w (Some (Some k, r)) pre d = upsertShadowRow m (Some k, r) d"
  shows "\<exists>t' u'. tables m t' u' (snd (clientWrite m w db)) \<and> dbViews (snd (clientWrite m w db)) = dbViews db \<and> kept_or_synced m t u t' u'"
proof -
  from mirror_upsert [OF assms(1,5,6), of None] obtain t' u' db1 where
    *: "nextWrite m w db = (Inr (Some (Some k, r)), db1)"
    "tables m t' u' (snd (mirrorWrite m w (Some (Some k, r)) None db1))"
    "dbViews (snd (mirrorWrite m w (Some (Some k, r)) None db1)) = dbViews db" "kept_or_synced m t u t' u'" by blast
  have "snd (clientWrite m w db) = snd (mirrorWrite m w (Some (Some k, r)) None db1)"
    using assms(2-4) *(1) by (cases w) (simp_all add: clientWrite_def)
  then show ?thesis using *(2-4) by metis
qed

lemma clientWrite_error:
  assumes "tables m t u db" and "mgMiddleware m" and "\<not> (\<exists>P. w = WDeleteMany P)" and "prismaWrite m w t = (Inl e, t)"
  shows "\<exists>t' u'. tables m t' u' (snd (clientWrite m w db)) \<and> dbViews (snd (clientWrite m w db)) = dbViews db \<and> kept_or_synced m t u t' u'"
proof -
  from nextWrite_tables [OF assms(1,4)] obtain db1 where
    *: "nextWrite m w db = (Inl e, db1)" "tables m t u db1" "dbViews db1 = dbViews db" by blast
  have "snd (clientWrite m w db) = db1" using assms(2,3) *(1) by (cases w) (simp_all add: clientWrite_def)
  then show ?thesis using * by (auto simp: kept_or_synced_def)
qed

text \<open>Bulk writes, whose mirror copies rows by key.\<close>

lemma clientWrite_copy:
  assumes "tables m t u db" and "mgMiddleware m" and "shouldMirror m" and "prismaWrite m w t = (Inr None, t1)"
    and mirror: "\<And>d. tables m t1 u d \<Longrightarrow>
        mirrorWrite m w None (case w of WDeleteMany P \<Rightarrow> Some (matching P t) | _ \<Rightarrow> None) d = copyRows m ks d"
    and same: "\<And>j. j \<notin> set ks \<Longrightarrow> jm_get t1 j = jm_get t j"
  shows "\<exists>t' u'. tables m t' u' (snd (clientWrite m w db)) \<and> dbViews (snd (clientWrite m w db)) = dbViews db \<and> kept_or_synced m t u t' u'"
proof -
  from nextWrite_tables [OF assms(1,4)] obtain db1 where
    1: "nextWrite m w db = (Inr None, db1)" "tables m t1 u db1" "dbViews db1 = dbViews db" by blast
  from copyRows_tables [OF 1(2), of ks] obtain u' db' where
    2: "copyRows m ks db1 = (Inr (), db')" "tables m t1 u' db'" "dbViews db' = dbViews db1"
    "\<And>j. if j \<in> set ks then row_sync (dataColumns m) (jm_get t1 j) (jm_get u' j) else jm_get u' j = jm_get u j" by blast
  have "findAffectedPrimaryKeys m P db = (Inr (matching P t), db)" for P
    using assms(1) by (simp add: findAffectedPrimaryKeys_def tables_def fromTable_def)
  then have "snd (clientWrite m w db) = db'"
    using assms(2,3) 1(1) 2(1) mirror [OF 1(2)] by (cases w) (simp_all add: clientWrite_def)
  moreover have "kept_or_synced m t u t1 u'"
    unfolding kept_or_synced_def using 2(4) same by metis
  ultimately show ?thesis using 1(3) 2(2,3) by auto
qed

lemma clientWrite_tables:
  assumes tab: "tables m t u db" and mw: "mgMiddleware m" and sm: "shouldMirror m" and w: "mirrored w"
  shows "\<exists>t' u'. tables m t' u' (snd (clientWrite m w db)) \<and> dbViews (snd (clientWrite m w db)) = dbViews db \<and> kept_or_synced m t u t' u'"
proof -
  have wf: "jm_wf t" using tab by (simp add: tables_def)
  note ups = clientWrite_upsert [OF tab mw sm] and err = clientWrite_error [OF tab mw] and cp = clientWrite_copy [OF tab mw sm]
  show ?thesis
  proof (cases w)
    case (WCreate k r sel)
    show ?thesis
    proof (cases "jm_has t k")
      case True
      show ?thesis by (rule err) (use WCreate True in simp_all)
    next
      case False
      show ?thesis by (rule ups [of w k r]) (use WCreate False w in \<open>simp_all add: selectResult_def\<close>)
    qed
  next
    case (WUpdate k f sel)
    show ?thesis
    proof (cases "jm_get t k")
      case None
      show ?thesis by (rule err) (use WUpdate None in simp_all)
    next
      case (Some r)
      show ?thesis by (rule ups [of w k "f r"]) (use WUpdate Some w in \<open>simp_all add: selectResult_def\<close>)
    qed
  next
    case (WUpsert k c f sel)
    show ?thesis
      by (rule ups [of w k "case jm_get t k of None \<Rightarrow> c | Some r \<Rightarrow> f r"]) (use WUpsert w in \<open>simp_all add: selectResult_def Let_def\<close>)
  next
    case (WDelete k sel)
    show ?thesis
    proof (cases "jm_get t k")
      case None
      show ?thesis by (rule err) (use WDelete None in simp_all)
    next
      case (Some r)
      have p: "prismaWrite m w t = (Inr (Some (Some k, r)), jm_delete t k)"
        using WDelete w Some by (simp add: selectResult_def)
      from nextWrite_tables [OF tab p] obtain db1 where
        1: "nextWrite m w db = (Inr (Some (Some k, r)), db1)" "tables m (jm_delete t k) u db1" "dbViews db1 = dbViews db" by blast
      from deleteShadowRow_tables [OF 1(2), of k] obtain u' db' where
        2: "deleteShadowRow m (Some k) db1 = (Inr (), db')" "tables m (jm_delete t k) u' db'" "dbViews db' = dbViews db1"
        "\<And>j. jm_get u' j = (if j = k then None else jm_get u j)" by blast
      have "snd (clientWrite m w db) = db'" using mw sm WDelete 1(1) 2(1) by (simp add: clientWrite_def)
      moreover have "kept_or_synced m t u (jm_delete t k) u'" using 2(4) by (simp add: kept_or_synced_def)
      ultimately show ?thesis using 1(3) 2(2,3) by auto
    qed
  next
    case (WCreateMany rows)
    show ?thesis
    proof (cases "distinct (map fst t @ map fst rows)")
      case True
      have "list_all (\<lambda>(k, supplied, r). supplied) rows" using w WCreateMany by simp
      then have all: "map fst (filter (\<lambda>(k, supplied, r). supplied) rows) = map fst rows"
        by (induction rows) auto
      have "jm_get (t @ map (\<lambda>(k, b, r). (k, r)) rows) j = jm_get t j" if "j \<notin> set (map fst rows)" for j
        using that by (induction rows) (auto simp: map_add_def split: option.splits)
      then show ?thesis using True WCreateMany all by (intro cp [where ks = "map fst rows" and ?t1.0 = "t @ map (\<lambda>(k, b, r). (k, r)) rows"]) auto
    next
      case False
      show ?thesis by (rule err) (use WCreateMany False in simp_all)
    qed
  next
    case (WUpdateMany P f)
    let ?t1 = "map (\<lambda>(k, r). (k, if P k r then f r else r)) t"
    have g: "jm_get ?t1 j = map_option (\<lambda>r. if P j r then f r else r) (jm_get t j)" for j
      using get_map_values [of "\<lambda>k r. if P k r then f r else r" t j] by simp
    have wf1: "jm_wf ?t1" using prismaWrite_wf [OF wf, of m w] WUpdateMany by simp
    have "jm_get ?t1 j = jm_get t j" if "j \<notin> set (matching P ?t1)" for j
      using that w WUpdateMany by (cases "jm_get t j") (auto simp: matching_iff [OF wf1] g)
    then show ?thesis using WUpdateMany
      by (intro cp [where ks = "matching P ?t1" and ?t1.0 = ?t1]) (auto simp: findAffectedPrimaryKeys_def tables_def fromTable_def)
  next
    case (WDeleteMany P)
    have "jm_get (filter (\<lambda>(k, r). \<not> P k r) t) j = jm_get t j" if "j \<notin> set (matching P t)" for j
      using that wf by (simp add: jm_get_filter matching_iff split: option.splits)
    then show ?thesis using WDeleteMany by (intro cp [where ks = "matching P t" and ?t1.0 = "filter (\<lambda>(k, r). \<not> P k r) t"]) auto
  next
    case WOther
    then show ?thesis by (intro cp [where ks = "[]" and ?t1.0 = t]) auto
  qed
qed

lemma clientWrites_tables:
  assumes "tables m t u db" and "mgMiddleware m" and "shouldMirror m" and "list_all mirrored ws"
  shows "\<exists>t' u'. tables m t' u' (clientWrites m ws db) \<and> dbViews (clientWrites m ws db) = dbViews db \<and> kept_or_synced m t u t' u'"
  using assms(1,4)
proof (induction ws arbitrary: t u db)
  case Nil
  then show ?case by (auto simp: clientWrites_def kept_or_synced_def)
next
  case (Cons w ws)
  have w: "mirrored w" "list_all mirrored ws" using Cons.prems(2) by simp_all
  from clientWrite_tables [OF Cons.prems(1) assms(2,3) w(1)] obtain t1 u1 where
    1: "tables m t1 u1 (snd (clientWrite m w db))" "dbViews (snd (clientWrite m w db)) = dbViews db" "kept_or_synced m t u t1 u1" by blast
  from Cons.IH [OF 1(1) w(2)] obtain t2 u2 where
    2: "tables m t2 u2 (clientWrites m ws (snd (clientWrite m w db)))"
    "dbViews (clientWrites m ws (snd (clientWrite m w db))) = dbViews (snd (clientWrite m w db))" "kept_or_synced m t1 u1 t2 u2" by blast
  have "kept_or_synced m t u t2 u2" using 1(3) 2(3) unfolding kept_or_synced_def by metis
  moreover have "clientWrites m (w # ws) db = clientWrites m ws (snd (clientWrite m w db))" by (simp add: clientWrites_def)
  ultimately show ?case using 1(2) 2(1,2) by auto
qed

section \<open>The backfill completes the shadow table\<close>

text \<open>What is in the shadow table agrees with the old one, and the keys up to the cursor are there.\<close>

definition filled :: "('k::linorder, 'v) migration \<Rightarrow> 'k option \<Rightarrow> ('k, 'v) table \<Rightarrow> ('k, 'v) table \<Rightarrow> bool" where
  "filled m cursor t u \<longleftrightarrow>
     (\<forall>k. row_sync (dataColumns m) (jm_get t k) (jm_get u k)
        \<or> jm_get u k = None \<and> (case cursor of None \<Rightarrow> True | Some c \<Rightarrow> c < k))"

lemma filled_kept: "filled m cursor t u \<Longrightarrow> kept_or_synced m t u t' u' \<Longrightarrow> filled m cursor t' u'"
  unfolding filled_def kept_or_synced_def by metis

lemma insertMissing_get:
  assumes "jm_wf t"
  shows "jm_get (insertMissing cols keys t u) k =
    (case jm_get u k of Some s \<Rightarrow> Some s
     | None \<Rightarrow> if k \<in> set keys then map_option (\<lambda>r c. if c \<in> set cols then r c else None) (jm_get t k) else None)"
proof -
  have "jm_get (foldl (\<lambda>s (k, r). if k \<in> set keys \<and> \<not> jm_has s k then jm_set s k (\<lambda>c. if c \<in> set cols then r c else None) else s) u xs) k =
      (case jm_get u k of Some s \<Rightarrow> Some s
       | None \<Rightarrow> if k \<in> set keys then map_option (\<lambda>r c. if c \<in> set cols then r c else None) (jm_get xs k) else None)"
    if "jm_wf xs" for xs
    using that
  proof (induction xs arbitrary: u)
    case Nil
    then show ?case by (simp split: option.splits)
  next
    case (Cons p xs)
    obtain j r where p: "p = (j, r)" by fastforce
    have "jm_wf xs" and j: "jm_get xs j = None" using Cons.prems p by (auto simp: jm_wf_def map_of_eq_None_iff)
    then show ?case using p Cons.IH by (cases "j = k") (auto simp: jm_has_def split: option.splits)
  qed
  then show ?thesis using assms by (simp add: insertMissing_def)
qed

lemma insertMissing_wf: "jm_wf u \<Longrightarrow> jm_wf (insertMissing cols keys t u)"
proof -
  have "jm_wf u \<Longrightarrow> jm_wf (foldl (\<lambda>s (k, r). if k \<in> set keys \<and> \<not> jm_has s k then jm_set s k (\<lambda>c. if c \<in> set cols then r c else None) else s) u xs)" for xs
    by (induction xs arbitrary: u) auto
  then show "jm_wf u \<Longrightarrow> jm_wf (insertMissing cols keys t u)" by (simp add: insertMissing_def)
qed

text \<open>A row beyond the cursor and not after the last row of the batch is in the batch.\<close>

lemma batchRows_covers:
  assumes wf: "jm_wf t" and ne: "batchRows n cursor t \<noteq> []" and r: "(k, r) \<in> set t"
    and beyond: "case cursor of None \<Rightarrow> True | Some c \<Rightarrow> c < k" and le: "k \<le> fst (last (batchRows n cursor t))"
  shows "k \<in> fst ` set (batchRows n cursor t)"
proof -
  define xs where "xs = sort_key fst (case cursor of None \<Rightarrow> t | Some c \<Rightarrow> filter (\<lambda>(k, r). c < k) t)"
  have b: "batchRows n cursor t = take n xs" by (simp add: batchRows_def xs_def)
  have mem: "(k, r) \<in> set xs" using r beyond by (auto simp: xs_def split: option.splits)
  have dist: "distinct (map fst xs)"
  proof -
    have "distinct (map fst (case cursor of None \<Rightarrow> t | Some c \<Rightarrow> filter (\<lambda>(k, r). c < k) t))"
      using wf by (auto simp: jm_wf_def distinct_map_filter split: option.splits)
    then show ?thesis by (simp add: xs_def distinct_map inj_on_def)
  qed
  have sorted: "sorted (map fst xs)" by (simp add: xs_def)
  have split: "xs = take n xs @ drop n xs" by simp
  show ?thesis
  proof (rule ccontr)
    assume not: "k \<notin> fst ` set (batchRows n cursor t)"
    have "(k, r) \<notin> set (take n xs)"
    proof
      assume "(k, r) \<in> set (take n xs)"
      then have "k \<in> fst ` set (take n xs)" by force
      then show False using not b by simp
    qed
    then have dr: "(k, r) \<in> set (drop n xs)" using mem set_append [of "take n xs" "drop n xs"] by simp
    have l: "last (take n xs) \<in> set (take n xs)" using ne b by simp
    have "sorted (map fst (take n xs) @ map fst (drop n xs))" using sorted split by (metis map_append)
    then have "\<forall>x \<in> set (map fst (take n xs)). \<forall>y \<in> set (map fst (drop n xs)). x \<le> y" by (simp add: sorted_append)
    moreover have "fst (last (take n xs)) \<in> set (map fst (take n xs))" using l by simp
    moreover have "k \<in> set (map fst (drop n xs))" using dr by force
    ultimately have "fst (last (take n xs)) \<le> k" by blast
    then have "k = fst (last (take n xs))" using le b by simp
    then show False using l not b by simp
  qed
qed

lemma filled_batch:
  assumes wf: "jm_wf t" and f: "filled m cursor t u" and ne: "batchRows n cursor t \<noteq> []"
  shows "filled m (Some (fst (last (batchRows n cursor t)))) t
    (insertMissing (dataColumns m) (map fst (batchRows n cursor t)) t u)"
  unfolding filled_def
proof
  fix k
  let ?b = "batchRows n cursor t" and ?u = "insertMissing (dataColumns m) (map fst (batchRows n cursor t)) t u"
  from f have "row_sync (dataColumns m) (jm_get t k) (jm_get u k)
      \<or> jm_get u k = None \<and> (case cursor of None \<Rightarrow> True | Some c \<Rightarrow> c < k)"
    by (simp add: filled_def)
  then show "row_sync (dataColumns m) (jm_get t k) (jm_get ?u k) \<or> jm_get ?u k = None \<and> (case Some (fst (last ?b)) of None \<Rightarrow> True | Some c \<Rightarrow> c < k)"
  proof (elim disjE)
    assume sync: "row_sync (dataColumns m) (jm_get t k) (jm_get u k)"
    have "jm_get ?u k = jm_get u k"
      using sync by (cases "jm_get t k"; cases "jm_get u k") (simp_all add: insertMissing_get [OF wf])
    then show ?thesis using sync by simp
  next
    assume rest': "jm_get u k = None \<and> (case cursor of None \<Rightarrow> True | Some c \<Rightarrow> c < k)"
    note rest = conjunct1 [OF rest'] conjunct2 [OF rest']
    show ?thesis
    proof (cases "jm_get t k")
      case None
      then show ?thesis using rest by (simp add: insertMissing_get [OF wf])
    next
      case (Some r)
      show ?thesis
      proof (cases "k \<in> fst ` set ?b")
        case True
        then show ?thesis using rest Some by (simp add: insertMissing_get [OF wf])
      next
        case False
        then have "fst (last ?b) < k"
          using batchRows_covers [OF wf ne jm_get_mem [OF Some] rest(2)] by force
        then show ?thesis using False rest by (simp add: insertMissing_get [OF wf])
      qed
    qed
  qed
qed

definition synced :: "('k, 'v) migration \<Rightarrow> ('k, 'v) table \<Rightarrow> ('k, 'v) table \<Rightarrow> bool" where
  "synced m t u \<longleftrightarrow> (\<forall>k. row_sync (dataColumns m) (jm_get t k) (jm_get u k))"

lemma synced_kept: "synced m t u \<Longrightarrow> kept_or_synced m t u t' u' \<Longrightarrow> synced m t' u'"
  unfolding synced_def kept_or_synced_def by metis

lemma filled_end:
  assumes "filled m cursor t u" and "batchRows n cursor t = []" and "0 < n"
  shows "synced m t u"
  unfolding synced_def
proof
  fix k
  let ?rest = "case cursor of None \<Rightarrow> t | Some c \<Rightarrow> filter (\<lambda>(k, r). c < k) t"
  have "sort_key fst ?rest = []" using assms(2,3) unfolding batchRows_def take_eq_Nil by blast
  then have "set (sort_key fst ?rest) = {}" by (simp only: list.set)
  then have none: "?rest = []" by (simp only: set_sort set_empty)
  have gone: "jm_get t k = None" if "case cursor of None \<Rightarrow> True | Some c \<Rightarrow> c < k"
  proof (rule ccontr)
    assume "jm_get t k \<noteq> None"
    then obtain r where "(k, r) \<in> set t" by (auto dest: jm_get_mem)
    then have "(k, r) \<in> set ?rest" using that by (cases cursor) auto
    then show False using none by simp
  qed
  from assms(1) have "row_sync (dataColumns m) (jm_get t k) (jm_get u k)
      \<or> jm_get u k = None \<and> (case cursor of None \<Rightarrow> True | Some c \<Rightarrow> c < k)"
    by (simp add: filled_def)
  then show "row_sync (dataColumns m) (jm_get t k) (jm_get u k)"
  proof (elim disjE)
    assume rest: "jm_get u k = None \<and> (case cursor of None \<Rightarrow> True | Some c \<Rightarrow> c < k)"
    then show ?thesis using gone [OF conjunct2 [OF rest]] by simp
  qed
qed

lemma backfillLoop_complete:
  assumes "tables m t u db" and "mgMiddleware m" and "shouldMirror m" and "list_all (list_all mirrored) schedule"
    and "0 < batchSize (mgConfig m)" and "filled m cursor t u"
  shows "\<exists>n t' u' db'. backfillLoop m schedule cursor rows db = (Inr n, db') \<and> tables m t' u' db' \<and> dbViews db' = dbViews db \<and> synced m t' u'"
  using assms
proof (induction m schedule cursor rows db arbitrary: t u rule: backfillLoop.induct)
  case (1 m schedule cursor rows db)
  let ?ws = "case schedule of [] \<Rightarrow> [] | ws # _ \<Rightarrow> ws" and ?n = "batchSize (mgConfig m)"
  have ws: "list_all mirrored ?ws" and tl: "list_all (list_all mirrored) (tl schedule)"
    using 1(5) by (cases schedule; simp)+
  from clientWrites_tables [OF 1(2,3,4) ws] obtain t1 u1 where
    w: "tables m t1 u1 (clientWrites m ?ws db)" "dbViews (clientWrites m ?ws db) = dbViews db" "kept_or_synced m t u t1 u1" by blast
  have f1: "filled m cursor t1 u1" by (rule filled_kept [OF 1(7) w(3)])
  let ?db1 = "clientWrites m ?ws db" and ?b = "batchRows ?n cursor t1"
  have q: "sql (fromTable (oldName m) (batchRows ?n cursor)) ?db1 = (Inr ?b, ?db1)"
    using w(1) by (simp add: tables_def fromTable_def)
  show ?case
  proof (cases "?b = []")
    case True
    then have "backfillLoop m schedule cursor rows db = (Inr rows, ?db1)"
      using q by (subst backfillLoop.simps) (simp add: Let_def)
    then show ?thesis using w(1,2) filled_end [OF f1 True 1(6)]
      by (intro exI [of _ rows] exI [of _ t1] exI [of _ u1] exI [of _ ?db1]) simp
  next
    case False
    let ?u2 = "insertMissing (dataColumns m) (map fst ?b) t1 u1"
    let ?db2 = "?db1\<lparr>dbTables := (dbTables ?db1)(shadowName m := Some ?u2)\<rparr>"
    have i: "insertFromOld m (map fst ?b) ?db1 = (Inr (), ?db2)"
      using w(1) by (simp add: insertFromOld_def tables_def onTable_def)
    have tab2: "tables m t1 ?u2 ?db2" using w(1) insertMissing_wf by (auto simp: tables_def)
    have wf: "jm_wf t1" using w(1) by (simp add: tables_def)
    have "filled m (Some (fst (last ?b))) t1 ?u2" by (rule filled_batch [OF wf f1 False])
    from "1.IH" [OF refl q [symmetric] refl False i [symmetric] refl tab2 1(3,4) tl 1(6) this]
    obtain n t' u' db' where rec: "backfillLoop m (tl schedule) (Some (fst (last ?b))) (rows + length ?b) ?db2 = (Inr n, db')"
      "tables m t' u' db'" "dbViews db' = dbViews ?db2" "synced m t' u'" by blast
    have "backfillLoop m schedule cursor rows db = (Inr n, db')"
      using q False i rec(1) by (subst backfillLoop.simps) (simp add: Let_def)
    moreover have "dbViews ?db2 = dbViews db" using w(2) by simp
    ultimately show ?thesis using rec(2-4)
      by (intro exI [of _ n] exI [of _ t'] exI [of _ u'] exI [of _ db']) simp
  qed
qed

section \<open>The parity report\<close>

lemma absentIn_0: "absentIn t u = 0 \<longleftrightarrow> (\<forall>k. jm_get t k \<noteq> None \<longrightarrow> jm_get u k \<noteq> None)"
proof -
  have "absentIn t u = 0 \<longleftrightarrow> (\<forall>k \<in> fst ` set t. jm_has u k)"
    by (auto simp: absentIn_def filter_empty_conv)
  also have "\<dots> \<longleftrightarrow> (\<forall>k. jm_has t k \<longrightarrow> jm_has u k)" by (auto simp: jm_has_iff [of t])
  finally show ?thesis by (simp add: jm_has_def)
qed

lemma row_sync_iff:
  "row_sync cols x y \<longleftrightarrow> (x \<noteq> None \<longrightarrow> y \<noteq> None) \<and> (y \<noteq> None \<longrightarrow> x \<noteq> None)
     \<and> (\<forall>r s. x = Some r \<longrightarrow> y = Some s \<longrightarrow> \<not> differs cols r s)"
  by (cases x; cases y) simp_all

lemma differing_Nil:
  assumes "jm_wf t"
  shows "differing cols t u = [] \<longleftrightarrow> (\<forall>k r s. jm_get t k = Some r \<longrightarrow> jm_get u k = Some s \<longrightarrow> \<not> differs cols r s)"
proof -
  have "differing cols t u = [] \<longleftrightarrow> (\<forall>(k, r) \<in> set t. \<forall>s. jm_get u k = Some s \<longrightarrow> \<not> differs cols r s)"
    by (auto simp: differing_def List.map_filter_def filter_empty_conv split: option.splits if_splits)
  also have "\<dots> \<longleftrightarrow> (\<forall>k r s. jm_get t k = Some r \<longrightarrow> jm_get u k = Some s \<longrightarrow> \<not> differs cols r s)"
    using assms by (force simp: jm_wf_def)
  finally show ?thesis .
qed

text \<open>Without faults the report passes exactly when the tables agree on every key.\<close>

lemma queryParity_iff:
  assumes tab: "tables m t u db"
  shows "\<exists>report. queryParity maxSampled now m db = (Inr report, db) \<and> (prPassed report \<longleftrightarrow> synced m t u)"
proof -
  let ?cols = "dataColumns m"
  have wf: "jm_wf t" using tab by (simp add: tables_def)
  have mis: "\<exists>n sample. queryMismatches maxSampled m db = (Inr (n, sample), db) \<and> (n = 0 \<longleftrightarrow> differing ?cols t u = [])"
    using tab by (auto simp: queryMismatches_def Let_def tables_def fromTables_def)
  then obtain n sample where n: "queryMismatches maxSampled m db = (Inr (n, sample), db)" "n = 0 \<longleftrightarrow> differing ?cols t u = []" by blast
  have "synced m t u \<longleftrightarrow> absentIn t u = 0 \<and> absentIn u t = 0 \<and> differing ?cols t u = []"
    unfolding absentIn_0 differing_Nil [OF wf] synced_def row_sync_iff by blast
  then show ?thesis using tab n by (auto simp: queryParity_def tables_def fromTable_def fromTables_def)
qed

section \<open>The whole migration\<close>

text \<open>The tables of a migration depend on its configuration only.\<close>

lemma dataColumns_cong: "mgConfig m' = mgConfig m \<Longrightarrow> dataColumns m' = dataColumns m"
  by (simp add: dataColumns_def)

lemma tables_cong: "mgConfig m' = mgConfig m \<Longrightarrow> tables m' t u db \<longleftrightarrow> tables m t u db"
  by (simp add: tables_def dataColumns_def)

lemma synced_cong: "mgConfig m' = mgConfig m \<Longrightarrow> synced m' t u \<longleftrightarrow> synced m t u"
  by (simp add: synced_def dataColumns_def)

lemma filled_cong: "mgConfig m' = mgConfig m \<Longrightarrow> filled m' cursor t u \<longleftrightarrow> filled m cursor t u"
  by (simp add: filled_def dataColumns_def)

lemma kept_cong: "mgConfig m' = mgConfig m \<Longrightarrow> kept_or_synced m' t u t' u' \<longleftrightarrow> kept_or_synced m t u t' u'"
  by (simp add: kept_or_synced_def dataColumns_def)

lemma startDualWrite_tables:
  assumes "mgPhase m = Idle" and "dbTables db (oldName m) = Some t" and "dbTables db (shadowName m) = None" and "jm_wf t"
    and "dbFaults db = []" and "dataColumns m \<noteq> []"
  shows "\<exists>db1. startDualWrite now m db = (Inr (), m\<lparr>mgMiddleware := True, mgPhase := DualWrite, mgDualWriteStartedAt := Some now\<rparr>, db1)
    \<and> tables m t [] db1 \<and> dbViews db1 (viewName (mgConfig m)) = Some (oldName m)"
  using assms by (auto simp: startDualWrite_def requirePhase_def createTableLike_def createOrReplaceView_def tables_def)

lemma runBackfill_tables:
  assumes "mgPhase m = DualWrite" and "mgMiddleware m" and "tables m t u db" and "filled m None t u"
    and "list_all (list_all mirrored) schedule" and "0 < batchSize (mgConfig m)"
  shows "\<exists>n db1 t' u'. runBackfill now schedule m db = (Inr n, m\<lparr>mgPhase := DualWrite, mgBackfillCompletedAt := Some now\<rparr>, db1)
    \<and> tables m t' u' db1 \<and> dbViews db1 = dbViews db \<and> synced m t' u'"
proof -
  let ?m = "m\<lparr>mgPhase := Backfilling\<rparr>"
  have cfg: "mgConfig ?m = mgConfig m" by simp
  have "shouldMirror ?m" "mgMiddleware ?m" "0 < batchSize (mgConfig ?m)" using assms(2,6) by (simp_all add: shouldMirror_def)
  moreover have "tables ?m t u db" "filled ?m None t u" using assms(3,4) by (simp_all add: tables_cong [OF cfg] filled_cong [OF cfg])
  ultimately obtain n t' u' db1 where "backfillLoop ?m schedule None 0 db = (Inr n, db1)" "tables ?m t' u' db1"
    "dbViews db1 = dbViews db" "synced ?m t' u'"
    using backfillLoop_complete [of ?m t u db schedule None 0] assms(5) by blast
  then show ?thesis using assms(1)
    by (intro exI [of _ n] exI [of _ db1] exI [of _ t'] exI [of _ u'])
      (simp add: runBackfill_def requirePhase_def tables_cong [OF cfg] synced_cong [OF cfg])
qed

lemma verifyParity_tables:
  assumes "mgPhase m = DualWrite" and "tables m t u db" and "synced m t u"
  shows "\<exists>report. prPassed report
    \<and> verifyParity maxSampled now m db = (Inr report, m\<lparr>mgPhase := Verified, mgReport := Some report\<rparr>, db)"
proof -
  let ?m = "m\<lparr>mgPhase := Verifying\<rparr>"
  have cfg: "mgConfig ?m = mgConfig m" by simp
  have "tables ?m t u db" using assms(2) by (simp add: tables_cong [OF cfg])
  from queryParity_iff [OF this, of maxSampled now] obtain report where
    "queryParity maxSampled now ?m db = (Inr report, db)" "prPassed report \<longleftrightarrow> synced ?m t u" by blast
  then show ?thesis using assms(1,3)
    by (intro exI [of _ report]) (simp add: verifyParity_def requirePhase_def synced_cong [OF cfg])
qed

lemma clientWrites_synced:
  assumes "tables m t u db" and "mgMiddleware m" and "shouldMirror m" and "list_all mirrored ws" and "synced m t u"
  shows "\<exists>t' u'. tables m t' u' (clientWrites m ws db) \<and> dbViews (clientWrites m ws db) = dbViews db \<and> synced m t' u'"
  using clientWrites_tables [OF assms(1-4)] synced_kept [OF assms(5)] by blast

lemma filled_empty: "tables m t [] db \<Longrightarrow> kept_or_synced m t [] t' u' \<Longrightarrow> filled m None t' u'"
  unfolding filled_def kept_or_synced_def by (simp, metis)

lemma migration_run:
  assumes "mgPhase m = Idle" and "dbTables db (oldName m) = Some t" and "dbTables db (shadowName m) = None" and "jm_wf t"
    and "dbFaults db = []" and "dataColumns m \<noteq> []" and "0 < batchSize (mgConfig m)"
    and "list_all mirrored ws1" and "list_all (list_all mirrored) schedule" and "list_all mirrored ws2" and "list_all mirrored ws3"
  shows "\<exists>m1 db1 n m2 db2 report m3 db3 m4 db4 t' u'.
      startDualWrite t1 m db = (Inr (), m1, db1)
    \<and> runBackfill t2 schedule m1 (clientWrites m1 ws1 db1) = (Inr n, m2, db2)
    \<and> verifyParity maxSampled t3 m2 (clientWrites m2 ws2 db2) = (Inr report, m3, db3) \<and> prPassed report
    \<and> dbViews (clientWrites m3 ws3 db3) (viewName (mgConfig m)) = Some (oldName m)
    \<and> cutover t4 m3 (clientWrites m3 ws3 db3) = (Inr (), m4, db4)
    \<and> dbViews db4 (viewName (mgConfig m)) = Some (shadowName m)
    \<and> dbTables db4 (oldName m) = Some t' \<and> dbTables db4 (shadowName m) = Some u'
    \<and> (\<forall>k. row_sync (dataColumns m) (jm_get t' k) (jm_get u' k))"
proof -
  let ?m1 = "m\<lparr>mgMiddleware := True, mgPhase := DualWrite, mgDualWriteStartedAt := Some t1\<rparr>"
  from startDualWrite_tables [OF assms(1-6), of t1] obtain db1 where
    s: "startDualWrite t1 m db = (Inr (), ?m1, db1)" "tables m t [] db1" "dbViews db1 (viewName (mgConfig m)) = Some (oldName m)" by blast
  have tab1: "tables ?m1 t [] db1" using s(2) by (subst tables_cong [of _ m]) simp_all
  have sm1: "shouldMirror ?m1" "mgMiddleware ?m1" by (simp_all add: shouldMirror_def)
  from clientWrites_tables [OF tab1 sm1(2,1) assms(8)] obtain ta ua where
    a: "tables ?m1 ta ua (clientWrites ?m1 ws1 db1)" "dbViews (clientWrites ?m1 ws1 db1) = dbViews db1" "kept_or_synced ?m1 t [] ta ua" by blast
  have fa: "filled ?m1 None ta ua" by (rule filled_empty [OF tab1 a(3)])
  let ?m2 = "?m1\<lparr>mgPhase := DualWrite, mgBackfillCompletedAt := Some t2\<rparr>"
  from runBackfill_tables [OF _ sm1(2) a(1) fa assms(9), of t2] assms(7) obtain n db2 tb ub where
    b: "runBackfill t2 schedule ?m1 (clientWrites ?m1 ws1 db1) = (Inr n, ?m2, db2)" "tables ?m1 tb ub db2"
    "dbViews db2 = dbViews (clientWrites ?m1 ws1 db1)" "synced ?m1 tb ub" by auto
  have tab2: "tables ?m2 tb ub db2" using b(2) by (subst tables_cong [of _ ?m1]) simp_all
  have syn2: "synced ?m2 tb ub" using b(4) by (subst synced_cong [of _ ?m1]) simp_all
  have sm2: "shouldMirror ?m2" "mgMiddleware ?m2" by (simp_all add: shouldMirror_def)
  from clientWrites_synced [OF tab2 sm2(2,1) assms(10) syn2] obtain tc uc where
    c: "tables ?m2 tc uc (clientWrites ?m2 ws2 db2)" "dbViews (clientWrites ?m2 ws2 db2) = dbViews db2" "synced ?m2 tc uc" by blast
  from verifyParity_tables [OF _ c(1,3), of maxSampled t3] obtain report where
    p: "prPassed report" "verifyParity maxSampled t3 ?m2 (clientWrites ?m2 ws2 db2)
      = (Inr report, ?m2\<lparr>mgPhase := Verified, mgReport := Some report\<rparr>, clientWrites ?m2 ws2 db2)" by auto
  let ?m3 = "?m2\<lparr>mgPhase := Verified, mgReport := Some report\<rparr>" and ?db3 = "clientWrites ?m2 ws2 db2"
  have tab3: "tables ?m3 tc uc ?db3" using c(1) by (subst tables_cong [of _ ?m2]) simp_all
  have syn3: "synced ?m3 tc uc" using c(3) by (subst synced_cong [of _ ?m2]) simp_all
  have sm3: "shouldMirror ?m3" "mgMiddleware ?m3" by (simp_all add: shouldMirror_def)
  from clientWrites_synced [OF tab3 sm3(2,1) assms(11) syn3] obtain td ud where
    d: "tables ?m3 td ud (clientWrites ?m3 ws3 ?db3)" "dbViews (clientWrites ?m3 ws3 ?db3) = dbViews ?db3" "synced ?m3 td ud" by blast
  have view: "dbViews (clientWrites ?m3 ws3 ?db3) (viewName (mgConfig m)) = Some (oldName m)"
    using a(2) b(3) c(2) d(2) s(3) by simp
  let ?db4 = "(clientWrites ?m3 ws3 ?db3)\<lparr>dbViews := (dbViews (clientWrites ?m3 ws3 ?db3))(viewName (mgConfig m) := Some (shadowName m))\<rparr>"
  have cut: "cutover t4 ?m3 (clientWrites ?m3 ws3 ?db3)
      = (Inr (), ?m3\<lparr>mgOutcomes := [], mgPhase := Monitoring, mgCutoverAt := Some t4\<rparr>, ?db4)"
    using d(1) p(1) by (simp add: cutover_def requirePhase_def tables_def createOrReplaceView_def)
  have tab4: "dbTables ?db4 (oldName m) = Some td" "dbTables ?db4 (shadowName m) = Some ud" using d(1) by (simp_all add: tables_def)
  have sync4: "\<forall>k. row_sync (dataColumns m) (jm_get td k) (jm_get ud k)"
    using d(3) by (simp add: synced_def dataColumns_def)
  show ?thesis
    by (intro exI conjI) (fact s(1), fact b(1), fact p(2), fact p(1), fact view, fact cut, simp, fact tab4(1), fact tab4(2), fact sync4)
qed


text \<open>
  Every operation at any time, with a database whose statements may fail, or succeed and be reported
  as failed (\<open>faults\<close> are chosen anew for every operation).
\<close>

inductive mig_step :: "('k::linorder, 'v) migration \<times> ('k, 'v) database \<Rightarrow> ('k, 'v) migration \<times> ('k, 'v) database \<Rightarrow> bool" where
  Start: "startDualWrite now m (db\<lparr>dbFaults := fs\<rparr>) = (x, m', db') \<Longrightarrow> mig_step (m, db) (m', db')"
| Write: "clientWrite m w (db\<lparr>dbFaults := fs\<rparr>) = (x, db') \<Longrightarrow> mig_step (m, db) (m, db')"
| Backfill: "runBackfill now schedule m (db\<lparr>dbFaults := fs\<rparr>) = (x, m', db') \<Longrightarrow> mig_step (m, db) (m', db')"
| Verify: "verifyParity maxSampled now m (db\<lparr>dbFaults := fs\<rparr>) = (x, m', db') \<Longrightarrow> mig_step (m, db) (m', db')"
| CutoverStep: "cutover now m (db\<lparr>dbFaults := fs\<rparr>) = (x, m', db') \<Longrightarrow> mig_step (m, db) (m', db')"
| Outcome: "recordPostCutoverOutcome now ok m (db\<lparr>dbFaults := fs\<rparr>) = (x, m', db') \<Longrightarrow> mig_step (m, db) (m', db')"
| Confirm: "confirmStable now m = (x, m') \<Longrightarrow> mig_step (m, db) (m', db)"
| Rollback: "rollback now reason m (db\<lparr>dbFaults := fs\<rparr>) = (x, m', db') \<Longrightarrow> mig_step (m, db) (m', db')"
| Cleanup: "cleanup m (db\<lparr>dbFaults := fs\<rparr>) = (x, m', db') \<Longrightarrow> mig_step (m, db) (m', db')"

inductive mig_reach :: "string \<Rightarrow> ('k::linorder, 'v) migration \<times> ('k, 'v) database \<Rightarrow> bool" for view where
  Init: "new_migration model table shadow view pk cols batch threshold window samples = Inr m \<Longrightarrow>
    dbViews db view \<noteq> Some shadow \<Longrightarrow> dbTables db table \<noteq> None \<Longrightarrow> table \<noteq> shadow \<Longrightarrow> mig_reach view (m, db)"
| Step: "mig_reach view s \<Longrightarrow> mig_step s s' \<Longrightarrow> mig_reach view s'"

definition parity_passed :: "('k, 'v) migration \<Rightarrow> bool" where
  "parity_passed m \<longleftrightarrow> (case mgReport m of Some r \<Rightarrow> prPassed r | None \<Rightarrow> False)"

text \<open>
  The view reads the shadow table only after a passing report, and the old table is there as long as
  the migration is not completed.
\<close>

definition mig_inv :: "string \<Rightarrow> ('k, 'v) migration \<times> ('k, 'v) database \<Rightarrow> bool" where
  "mig_inv view s \<longleftrightarrow> (case s of (m, db) \<Rightarrow>
       viewName (mgConfig m) = view \<and> oldName m \<noteq> shadowName m
     \<and> (dbViews db view = Some (shadowName m) \<longrightarrow> mgPhase m \<in> {Verified, Monitoring, Completed})
     \<and> (mgPhase m \<in> {Verified, Monitoring, Completed} \<longrightarrow> parity_passed m)
     \<and> (mgPhase m \<noteq> Completed \<longrightarrow> dbTables db (oldName m) \<noteq> None))"

text \<open>Statements that leave the views alone and keep the old table.\<close>

definition keeps :: "('k, 'v) migration \<Rightarrow> ('k, 'v) database \<Rightarrow> ('k, 'v) database \<Rightarrow> bool" where
  "keeps m db db' \<longleftrightarrow> dbViews db' = dbViews db \<and> (dbTables db (oldName m) \<noteq> None \<longrightarrow> dbTables db' (oldName m) \<noteq> None)"

lemma keeps_refl [simp]: "keeps m db db" "keeps m db (db\<lparr>dbFaults := fs\<rparr>)"
  by (simp_all add: keeps_def)

lemma keeps_trans [trans]: "keeps m db db1 \<Longrightarrow> keeps m db1 db2 \<Longrightarrow> keeps m db db2"
  by (simp add: keeps_def)

lemma sql_keeps: "(\<And>d. keeps m d (snd (stmt d))) \<Longrightarrow> keeps m db (snd (sql stmt db))"
  by (auto simp: sql_def Let_def keeps_def split: list.splits sql_fault.splits)

lemma onTable_keeps: "keeps m d (snd (onTable n f d))"
  by (simp add: onTable_def keeps_def split: option.splits)

lemma fromTable_keeps: "keeps m d (snd (fromTable n q d))" "keeps m d (snd (fromTables a b q' d))"
  by (simp_all add: fromTable_def fromTables_def split: option.splits)

lemma upsertShadowRow_keeps: "keeps m db (snd (upsertShadowRow m r db))"
  by (auto simp: upsertShadowRow_def intro!: sql_keeps onTable_keeps split: option.splits)

lemma deleteShadowRow_keeps: "keeps m db (snd (deleteShadowRow m k db))"
  by (auto simp: deleteShadowRow_def intro!: sql_keeps onTable_keeps)

lemma copyRow_keeps: "keeps m db (snd (copyRowFromOldToShadow m k db))"
proof -
  obtain x db1 where q: "sql (fromTable (oldName m) (\<lambda>t. jm_get t k)) db = (x, db1)" by fastforce
  have "keeps m db db1" using sql_keeps [where m = m and stmt = "fromTable (oldName m) (\<lambda>t. jm_get t k)" and db = db, OF fromTable_keeps(1)] q by simp
  then show ?thesis
    using q upsertShadowRow_keeps [of m db1] deleteShadowRow_keeps [of m db1 "Some k"]
    by (auto simp: copyRowFromOldToShadow_def split: sum.splits option.splits intro: keeps_trans)
qed

lemma copyRows_keeps: "keeps m db (snd (copyRows m ks db))"
proof (induction ks arbitrary: db)
  case Nil
  then show ?case by simp
next
  case (Cons k ks)
  obtain x db1 where c: "copyRowFromOldToShadow m k db = (x, db1)" by fastforce
  have "keeps m db db1" using copyRow_keeps [of m db k] c by simp
  then show ?case using c Cons.IH [of db1] by (auto split: sum.splits intro: keeps_trans)
qed

lemma findAffected_keeps: "keeps m db (snd (findAffectedPrimaryKeys m P db))"
  by (simp add: findAffectedPrimaryKeys_def sql_keeps fromTable_keeps)

lemma mirrorWrite_keeps: "keeps m db (snd (mirrorWrite m w r pre db))"
proof (cases w)
  case (WUpdateMany P f)
  obtain x db1 where c: "findAffectedPrimaryKeys m P db = (x, db1)" by fastforce
  have "keeps m db db1" using findAffected_keeps [of m db P] c by simp
  then show ?thesis using WUpdateMany c by (auto split: sum.splits intro: keeps_trans copyRows_keeps)
qed (auto intro: upsertShadowRow_keeps deleteShadowRow_keeps copyRows_keeps split: option.splits)

lemma nextWrite_keeps: "keeps m db (snd (nextWrite m w db))"
  unfolding nextWrite_def by (rule sql_keeps) (auto simp: keeps_def split: option.splits prod.splits)

lemma clientWrite_keeps: "keeps m db (snd (clientWrite m w db))"
proof -
  define p where "p = (case w of
      WDeleteMany P \<Rightarrow> if shouldMirror m then
          (case findAffectedPrimaryKeys m P db of (Inr ks, d) \<Rightarrow> (Some ks, d) | (Inl _, d) \<Rightarrow> (None, d)) else (None, db)
    | _ \<Rightarrow> (None, db))"
  have p1: "keeps m db (snd p)"
  proof (cases w)
    case (WDeleteMany P)
    obtain x db1 where "findAffectedPrimaryKeys m P db = (x, db1)" by fastforce
    then show ?thesis using WDeleteMany findAffected_keeps [of m db P] by (auto simp: p_def split: sum.splits)
  qed (simp_all add: p_def)
  obtain pre db1 where pp: "p = (pre, db1)" by fastforce
  obtain x db2 where n: "nextWrite m w db1 = (x, db2)" by fastforce
  have k2: "keeps m db db2" using p1 pp nextWrite_keeps [of m db1 w] n by (auto intro: keeps_trans)
  have eq: "clientWrite m w db = (if \<not> mgMiddleware m then nextWrite m w db
      else case x of Inl e \<Rightarrow> (Inl e, db2) | Inr result \<Rightarrow>
        if \<not> shouldMirror m then (Inr result, db2) else (Inr result, snd (mirrorWrite m w result pre db2)))"
    unfolding clientWrite_def p_def [symmetric] using pp n by (simp split: sum.splits)
  show ?thesis
    using k2 nextWrite_keeps [of m db w] mirrorWrite_keeps [of m db2 w] unfolding eq
    by (auto split: sum.splits intro: keeps_trans)
qed

lemma clientWrites_keeps: "keeps m db (clientWrites m ws db)"
  unfolding clientWrites_def by (induction ws arbitrary: db) (auto intro: keeps_trans clientWrite_keeps)

lemma insertFromOld_keeps: "keeps m db (snd (insertFromOld m ks db))"
  unfolding insertFromOld_def by (rule sql_keeps) (simp add: onTable_keeps split: option.splits)

lemma backfillLoop_keeps: "keeps m db (snd (backfillLoop m schedule cursor n db))"
proof (induction m schedule cursor n db rule: backfillLoop.induct)
  case (1 m schedule cursor n db)
  let ?db1 = "clientWrites m (case schedule of [] \<Rightarrow> [] | ws # _ \<Rightarrow> ws) db"
  obtain x db2 where q: "sql (fromTable (oldName m) (batchRows (batchSize (mgConfig m)) cursor)) ?db1 = (x, db2)" by fastforce
  have "keeps m ?db1 (snd (sql (fromTable (oldName m) (batchRows (batchSize (mgConfig m)) cursor)) ?db1))"
    by (rule sql_keeps) (rule fromTable_keeps)
  then have "keeps m ?db1 db2" using q by simp
  then have k2: "keeps m db db2" by (rule keeps_trans [OF clientWrites_keeps])
  show ?case
  proof (cases "\<exists>batch. x = Inr batch \<and> batch \<noteq> []")
    case False
    then show ?thesis using q k2 by (subst backfillLoop.simps) (auto simp: Let_def split: sum.splits)
  next
    case True
    then obtain batch where b: "x = Inr batch" "batch \<noteq> []" by blast
    obtain y db3 where i: "insertFromOld m (map fst batch) db2 = (y, db3)" by fastforce
    have "keeps m db2 db3" using insertFromOld_keeps [of m db2 "map fst batch"] i by simp
    then have k3: "keeps m db db3" by (rule keeps_trans [OF k2])
    show ?thesis
    proof (cases y)
      case (Inl e)
      then show ?thesis using q b i k3 by (subst backfillLoop.simps) (simp add: Let_def)
    next
      case (Inr u)
      have "keeps m db3 (snd (backfillLoop m (tl schedule) (Some (fst (last batch))) (n + length batch) db3))"
        using "1.IH" [OF refl q [symmetric] b i [symmetric] Inr] .
      then have "keeps m db (snd (backfillLoop m (tl schedule) (Some (fst (last batch))) (n + length batch) db3))"
        by (rule keeps_trans [OF k3])
      then show ?thesis using q b i Inr by (subst backfillLoop.simps) (simp add: Let_def)
    qed
  qed
qed

lemma queryMismatches_keeps: "keeps m db (snd (queryMismatches maxSampled m db))"
proof -
  define a where "a = sql (fromTables (oldName m) (shadowName m) (\<lambda>t u. length (differing (dataColumns m) t u))) db"
  define b where "b = sql (fromTables (oldName m) (shadowName m) (\<lambda>t u. take maxSampled (differing (dataColumns m) t u))) (snd a)"
  have "keeps m db (snd a)" "keeps m (snd a) (snd b)" unfolding a_def b_def by (intro sql_keeps fromTable_keeps)+
  then have "keeps m db (snd b)" by (rule keeps_trans)
  with \<open>keeps m db (snd a)\<close> show ?thesis
    unfolding queryMismatches_def Let_def a_def [symmetric]
    by (cases a) (auto simp: b_def split: sum.splits prod.splits)
qed

lemma query_keeps:
  "sql (fromTable n q) db = (x, db') \<Longrightarrow> keeps m db db'"
  "sql (fromTables n n' q') db = (y, db') \<Longrightarrow> keeps m db db'"
  "queryMismatches k m db = (z, db') \<Longrightarrow> keeps m db db'"
  using sql_keeps [where m = m and stmt = "fromTable n q" and db = db, OF fromTable_keeps(1)]
    sql_keeps [where m = m and stmt = "fromTables n n' q'" and db = db, OF fromTable_keeps(2)]
    queryMismatches_keeps [of m db k]
  by simp_all

lemma queryParity_keeps: "keeps m db (snd (queryParity maxSampled now m db))"
  unfolding queryParity_def
  by (auto split: prod.splits sum.splits dest!: query_keeps(1) [where m = m] query_keeps(2) [where m = m] query_keeps(3)
      intro: keeps_trans)
    (metis keeps_trans)+

lemma mig_inv_keeps:
  assumes "mig_inv view (m, db)" and "keeps m db db'"
  shows "mig_inv view (m, db')"
  using assms by (auto simp: mig_inv_def keeps_def)

lemma mig_inv_faults: "mig_inv view (m, db\<lparr>dbFaults := fs\<rparr>) \<longleftrightarrow> mig_inv view (m, db)"
  by (simp add: mig_inv_def)

text \<open>A view statement takes effect or not, whatever is reported.\<close>

lemma createView_effect:
  assumes "sql (createOrReplaceView v tb) db = (x, db')"
  shows "dbTables db' = dbTables db \<and> (dbViews db' = dbViews db \<or> dbViews db' = (dbViews db)(v := Some tb))
    \<and> (x = Inr () \<longrightarrow> dbViews db' = (dbViews db)(v := Some tb))"
  using assms by (auto simp: sql_def Let_def createOrReplaceView_def split: list.splits sql_fault.splits if_splits)

lemma startDualWrite_inv:
  assumes "startDualWrite now m db = (x, m', db')" and inv: "mig_inv view (m, db)"
  shows "mig_inv view (m', db')"
proof (cases "mgPhase m = Idle")
  case False
  then show ?thesis using assms by (simp add: startDualWrite_def requirePhase_def split: if_splits)
next
  case True
  obtain y db1 where c: "sql (createTableLike (shadowName m) (oldName m)) db = (y, db1)" by fastforce
  then have k1: "keeps m db db1"
    using sql_keeps [where m = m and stmt = "createTableLike (shadowName m) (oldName m)" and db = db]
    by (auto simp: createTableLike_def keeps_def)
  then have inv1: "mig_inv view (m, db1)" by (rule mig_inv_keeps [OF inv])
  show ?thesis
  proof (cases y)
    case (Inl e)
    then show ?thesis using assms(1) True c inv1 by (simp add: startDualWrite_def requirePhase_def)
  next
    case (Inr u)
    obtain z db2 where v: "sql (createOrReplaceView (viewName (mgConfig m)) (oldName m)) db1 = (z, db2)" by fastforce
    have r: "db' = db2 \<and> (m' = m \<or> m' = m\<lparr>mgMiddleware := True, mgPhase := DualWrite, mgDualWriteStartedAt := Some now\<rparr>)"
      using assms(1) True c Inr v by (auto simp: startDualWrite_def requirePhase_def split: sum.splits)
    then show ?thesis using createView_effect [OF v] inv1 True
      by (auto simp: mig_inv_def parity_passed_def split: if_splits)
  qed
qed

lemma runBackfill_inv:
  assumes "runBackfill now schedule m db = (x, m', db')" and inv: "mig_inv view (m, db)"
  shows "mig_inv view (m', db')"
proof (cases "mgPhase m = DualWrite")
  case False
  then show ?thesis using assms by (simp add: runBackfill_def requirePhase_def split: if_splits)
next
  case True
  let ?m = "m\<lparr>mgPhase := Backfilling\<rparr>"
  have "mig_inv view (?m, db)" using inv True by (auto simp: mig_inv_def)
  obtain y db1 where b: "backfillLoop ?m schedule None 0 db = (y, db1)" by fastforce
  have "keeps ?m db db1" using backfillLoop_keeps [of ?m db schedule None 0] b by simp
  then have "mig_inv view (?m, db1)" by (rule mig_inv_keeps [OF \<open>mig_inv view (?m, db)\<close>])
  then show ?thesis using assms(1) True b
    by (auto simp: runBackfill_def requirePhase_def Let_def mig_inv_def parity_passed_def split: sum.splits if_splits)
qed

lemma verifyParity_inv:
  assumes "verifyParity maxSampled now m db = (x, m', db')" and inv: "mig_inv view (m, db)"
  shows "mig_inv view (m', db')"
proof (cases "mgPhase m \<in> {DualWrite, Backfilling, Verifying}")
  case False
  then show ?thesis using assms by (simp add: verifyParity_def requirePhase_def split: if_splits)
next
  case True
  let ?m = "m\<lparr>mgPhase := Verifying\<rparr>"
  have "mig_inv view (?m, db)" using inv True by (auto simp: mig_inv_def)
  obtain y db1 where b: "queryParity maxSampled now ?m db = (y, db1)" by fastforce
  have "keeps ?m db db1" using queryParity_keeps [of ?m db maxSampled now] b by simp
  then have "mig_inv view (?m, db1)" by (rule mig_inv_keeps [OF \<open>mig_inv view (?m, db)\<close>])
  then show ?thesis using assms(1) True b
    by (auto simp: verifyParity_def requirePhase_def Let_def mig_inv_def parity_passed_def split: sum.splits if_splits)
qed

lemma cutover_inv:
  assumes "cutover now m db = (x, m', db')" and inv: "mig_inv view (m, db)"
  shows "mig_inv view (m', db')"
proof (cases "mgPhase m = Verified \<and> parity_passed m")
  case False
  then show ?thesis using assms
    by (auto simp: cutover_def requirePhase_def parity_passed_def split: if_splits option.splits)
next
  case True
  obtain z db2 where v: "sql (createOrReplaceView (viewName (mgConfig m)) (shadowName m)) db = (z, db2)" by fastforce
  have "db' = db2 \<and> (m' = m \<or> m' = m\<lparr>mgOutcomes := [], mgPhase := Monitoring, mgCutoverAt := Some now\<rparr>)"
    using assms(1) True v by (auto simp: cutover_def requirePhase_def parity_passed_def split: sum.splits option.splits if_splits)
  then show ?thesis using createView_effect [OF v] inv True
    by (auto simp: mig_inv_def parity_passed_def split: if_splits)
qed

lemma rollback_inv:
  assumes "rollback now reason m db = (x, m', db')" and inv: "mig_inv view (m, db)"
  shows "mig_inv view (m', db')"
proof (cases "mgPhase m = Cutover \<or> mgPhase m = Monitoring")
  case False
  then show ?thesis using assms by (auto simp: rollback_def requirePhase_def split: if_splits)
next
  case True
  obtain z db2 where v: "sql (createOrReplaceView (viewName (mgConfig m)) (oldName m)) db = (z, db2)" by fastforce
  have r: "db' = db2 \<and> (m' = m \<or> z = Inr () \<and> m' = m\<lparr>mgPhase := RolledBack, mgRolledBackAt := Some now, mgRollbackReason := Some reason\<rparr>)"
    using assms(1) True v by (cases z) (auto simp: rollback_def requirePhase_def)
  have eff: "dbTables db2 = dbTables db" "dbViews db2 = dbViews db \<or> dbViews db2 = (dbViews db)(viewName (mgConfig m) := Some (oldName m))"
    "z = Inr () \<longrightarrow> dbViews db2 = (dbViews db)(viewName (mgConfig m) := Some (oldName m))"
    using createView_effect [OF v] by blast+
  from r show ?thesis
  proof (elim conjE disjE)
    assume "db' = db2" "m' = m"
    then show ?thesis using eff(1,2) inv by (auto simp: mig_inv_def)
  next
    assume m': "db' = db2" "z = Inr ()" "m' = m\<lparr>mgPhase := RolledBack, mgRolledBackAt := Some now, mgRollbackReason := Some reason\<rparr>"
    then have "dbViews db2 = (dbViews db)(viewName (mgConfig m) := Some (oldName m))" using eff(3) by simp
    then show ?thesis using m' eff(1) inv True by (auto simp: mig_inv_def)
  qed
qed

lemma recordOutcome_inv:
  assumes "recordPostCutoverOutcome now ok m db = (x, m', db')" and inv: "mig_inv view (m, db)"
  shows "mig_inv view (m', db')"
proof -
  have "mig_inv view (m\<lparr>mgOutcomes := os\<rparr>, db)" for os using inv by (simp add: mig_inv_def parity_passed_def)
  moreover have "m' = m \<and> db' = db \<or> (\<exists>os. m' = m\<lparr>mgOutcomes := os\<rparr> \<and> db' = db)
      \<or> (\<exists>reason os. rollback now reason (m\<lparr>mgOutcomes := os\<rparr>) db = (x, m', db'))"
    using assms(1) by (simp only: recordPostCutoverOutcome_def Let_def prod.inject split: if_splits) blast+
  ultimately show ?thesis using inv rollback_inv by blast
qed

lemma cleanup_inv:
  assumes "cleanup m db = (x, m', db')" and inv: "mig_inv view (m, db)"
  shows "mig_inv view (m', db')"
proof (cases "mgPhase m = Completed")
  case False
  then show ?thesis using assms by (simp add: cleanup_def requirePhase_def split: if_splits)
next
  case True
  obtain z db2 where v: "sql (dropTable (oldName m)) db = (z, db2)" by fastforce
  then have "dbViews db2 = dbViews db"
    by (auto simp: sql_def Let_def dropTable_def split: list.splits sql_fault.splits if_splits)
  moreover have "db' = db2 \<and> (m' = m \<or> m' = m\<lparr>mgMiddleware := False\<rparr>)"
    using assms(1) True v by (auto simp: cleanup_def requirePhase_def split: sum.splits)
  ultimately show ?thesis using inv True by (auto simp: mig_inv_def parity_passed_def)
qed

lemma confirmStable_inv:
  assumes "confirmStable now m = (x, m')" and inv: "mig_inv view (m, db)"
  shows "mig_inv view (m', db)"
  using assms by (auto simp: confirmStable_def requirePhase_def mig_inv_def parity_passed_def split: if_splits)

lemma mig_step_inv: "mig_step s s' \<Longrightarrow> mig_inv view s \<Longrightarrow> mig_inv view s'"
proof (induction rule: mig_step.induct)
  case (Write m w fs db x db')
  then show ?case using clientWrite_keeps [of m "db\<lparr>dbFaults := fs\<rparr>" w] mig_inv_keeps mig_inv_faults by (metis snd_conv)
qed (auto simp: mig_inv_faults intro: startDualWrite_inv runBackfill_inv verifyParity_inv cutover_inv rollback_inv
      recordOutcome_inv cleanup_inv confirmStable_inv)

lemma mig_reach_inv: "mig_reach view s \<Longrightarrow> mig_inv view s"
proof (induction rule: mig_reach.induct)
  case (Init model table shadow pk cols batch threshold window samples m db)
  then show ?case by (auto simp: new_migration_def mig_inv_def split: sum.splits)
next
  case (Step s s')
  then show ?case by (blast intro: mig_step_inv)
qed

text \<open>C12: No unverified cutover: in every state that any sequence of operations and database failures leads
  to - also of statements that took effect but were reported as failed - the view reads the shadow
  table only with a passing parity report on file, and the old table is gone only after the migration
  was confirmed stable.\<close>

theorem view_needs_parity:
  assumes "mig_reach view (m, db)"
  shows "(dbViews db view = Some (shadowName m) \<longrightarrow>
      (\<exists>report. mgReport m = Some report \<and> prPassed report) \<and> mgPhase m \<in> {Verified, Monitoring, Completed})
    \<and> (dbTables db (oldName m) = None \<longrightarrow> (\<exists>report. mgReport m = Some report \<and> prPassed report) \<and> mgPhase m = Completed)"
  using mig_reach_inv [OF assms] by (auto simp: mig_inv_def parity_passed_def split: option.splits)

text \<open>Automatic rollback: during monitoring, an outcome triggers the rollback of the view exactly when the
  outcomes of the window, this one included, are at least the configured number and more than the
  configured fraction of them failed; otherwise nothing but the list of outcomes changes.\<close>

theorem auto_rollback_iff:
  assumes "mgPhase m = Monitoring" and "dbFaults db = []" and "dbTables db (oldName m) \<noteq> None"
    and "recordPostCutoverOutcome now ok m db = (x, m', db')"
  defines "os \<equiv> filter (\<lambda>(stamp, ok). now - stamp \<le> errorRateWindowMs (mgConfig m)) (mgOutcomes m @ [(now, ok)])"
  shows "x = Inr ()
    \<and> (if minSamplesForRollback (mgConfig m) \<le> length os
          \<and> real (length (filter (\<lambda>(stamp, ok). \<not> ok) os)) / real (length os) > errorRateThreshold (mgConfig m)
       then mgPhase m' = RolledBack \<and> db' = db\<lparr>dbViews := (dbViews db)(viewName (mgConfig m) := Some (oldName m))\<rparr>
       else m' = m\<lparr>mgOutcomes := os\<rparr> \<and> db' = db)"
proof -
  have rb: "rollback now r (m\<lparr>mgOutcomes := os\<rparr>) db = (Inr (), m\<lparr>mgOutcomes := os, mgPhase := RolledBack, mgRolledBackAt := Some now,
      mgRollbackReason := Some r\<rparr>, db\<lparr>dbViews := (dbViews db)(viewName (mgConfig m) := Some (oldName m))\<rparr>)" for r
    using assms(1-3) by (auto simp: rollback_def requirePhase_def createOrReplaceView_def)
  show ?thesis
    using assms(1,4) unfolding recordPostCutoverOutcome_def Let_def os_def [symmetric]
    by (auto simp: rb split: if_splits)
qed

section \<open>What the mirror misses\<close>

text \<open>After the cutover no write reaches the shadow table that the view reads.\<close>

lemma write_after_cutover_not_mirrored:
  assumes "mgPhase m = Monitoring" and "oldName m \<noteq> shadowName m" and "dbFaults db = []"
  shows "dbTables (snd (clientWrite m w db)) (shadowName m) = dbTables db (shadowName m)"
proof -
  have "dbTables (snd (nextWrite m w db)) (shadowName m) = dbTables db (shadowName m)"
    using assms(2,3) by (auto simp: nextWrite_def split: option.splits prod.splits)
  then show ?thesis using assms(1)
    by (cases w) (auto simp: clientWrite_def shouldMirror_def split: prod.splits sum.splits)
qed

lemma backfill_failure_is_final:
  assumes "mgPhase m = DualWrite" and "runBackfill now schedule m db = (Inl e, m', db')"
  shows "\<exists>e'. runBackfill now' schedule' m' db'' = (Inl e', m', db'')"
  using assms by (auto simp: runBackfill_def requirePhase_def Let_def split: prod.splits sum.splits)

section \<open>An example\<close>

definition example_migration :: "(int, int) migration" where
  "example_migration = projr (new_migration ''Holder'' ''Holder'' ''Holder_shadow'' ''Holder_view'' ''id'' [''balance''] (Some 1) None None (Some 1))"

definition example_db :: "(int, int) database" where
  "example_db = \<lparr>dbTables = [''Holder'' \<mapsto> [(1, [''balance'' \<mapsto> 10]), (2, [''balance'' \<mapsto> 20])]], dbViews = Map.empty, dbFaults = []\<rparr>"

lemma safe_example:
  "safeIdentifier ''Holder''" "safeIdentifier ''Holder_shadow''" "safeIdentifier ''Holder_view''" "safeIdentifier ''id''"
  "safeIdentifier ''balance''"
  by code_simp+

lemma example_db_wf: "jm_wf [(1 :: int, r), (2, s)]"
  by (simp add: jm_wf_def)

lemma example_migration_eval:
  "new_migration ''Holder'' ''Holder'' ''Holder_shadow'' ''Holder_view'' ''id'' [''balance''] (Some 1) None None (Some 1)
     = Inr example_migration"
  "mgPhase example_migration = Idle" "oldName example_migration = ''Holder''" "shadowName example_migration = ''Holder_shadow''"
  "viewName (mgConfig example_migration) = ''Holder_view''" "dataColumns example_migration = [''balance'']"
  "batchSize (mgConfig example_migration) = 1" "minSamplesForRollback (mgConfig example_migration) = 1"
  "errorRateThreshold (mgConfig example_migration) = 5 / 100" "errorRateWindowMs (mgConfig example_migration) = 60000"
  "mgOutcomes example_migration = []"
  by (simp_all add: example_migration_def new_migration_def assertSafeIdentifier_def safe_example dataColumns_def)


theorem auto_rollback_iff_witness:
  "mgPhase (fst (snd (recordPostCutoverOutcome 5 False (example_migration\<lparr>mgPhase := Monitoring\<rparr>) example_db))) = RolledBack"
proof -
  let ?m = "example_migration\<lparr>mgPhase := Monitoring\<rparr>"
  obtain x m' db' where r: "recordPostCutoverOutcome 5 False ?m example_db = (x, m', db')" by (metis prod_cases3)
  have "mgPhase ?m = Monitoring" "dbFaults example_db = []" "dbTables example_db (oldName ?m) \<noteq> None"
    by (simp_all add: example_db_def example_migration_eval)
  from auto_rollback_iff [OF this r] show ?thesis by (simp add: r example_migration_eval)
qed

text \<open>The operations keep the configuration, and are steps.\<close>

lemma mig_steps:
  assumes "mig_reach view (m, db)"
  shows "startDualWrite now m db = (x, m', db') \<Longrightarrow> mig_reach view (m', db') \<and> mgConfig m' = mgConfig m"
    and "runBackfill now schedule m db = (n, m', db') \<Longrightarrow> mig_reach view (m', db') \<and> mgConfig m' = mgConfig m"
    and "verifyParity k now m db = (r, m', db') \<Longrightarrow> mig_reach view (m', db') \<and> mgConfig m' = mgConfig m"
    and "cutover now m db = (x, m', db') \<Longrightarrow> mig_reach view (m', db') \<and> mgConfig m' = mgConfig m"
proof -
  have db: "db\<lparr>dbFaults := dbFaults db\<rparr> = db" by simp
  show "startDualWrite now m db = (x, m', db') \<Longrightarrow> mig_reach view (m', db') \<and> mgConfig m' = mgConfig m"
    using mig_step.Start [of now m "dbFaults db" db x m' db'] mig_reach.Step [OF assms] db
    by (auto simp: startDualWrite_def split: sum.splits prod.splits)
  show "runBackfill now schedule m db = (n, m', db') \<Longrightarrow> mig_reach view (m', db') \<and> mgConfig m' = mgConfig m"
    using mig_step.Backfill [of now schedule m "dbFaults db" db n m' db'] mig_reach.Step [OF assms] db
    by (auto simp: runBackfill_def Let_def split: sum.splits prod.splits)
  show "verifyParity k now m db = (r, m', db') \<Longrightarrow> mig_reach view (m', db') \<and> mgConfig m' = mgConfig m"
    using mig_step.Verify [of k now m "dbFaults db" db r m' db'] mig_reach.Step [OF assms] db
    by (auto simp: verifyParity_def Let_def split: sum.splits prod.splits)
  show "cutover now m db = (x, m', db') \<Longrightarrow> mig_reach view (m', db') \<and> mgConfig m' = mgConfig m"
    using mig_step.CutoverStep [of now m "dbFaults db" db x m' db'] mig_reach.Step [OF assms] db
    by (auto simp: cutover_def split: sum.splits prod.splits if_splits)
qed

theorem view_needs_parity_witness:
  "\<exists>m db. mig_reach ''Holder_view'' (m :: (int, int) migration, db) \<and> dbViews db ''Holder_view'' = Some (shadowName m)
     \<and> (\<exists>report. mgReport m = Some report \<and> prPassed report)"
proof -
  have init: "mig_reach ''Holder_view'' (example_migration, example_db)"
    by (rule mig_reach.Init [OF example_migration_eval(1)]) (simp_all add: example_db_def)
  have pre: "mgPhase example_migration = Idle" "dbTables example_db (oldName example_migration) = Some [(1, [''balance'' \<mapsto> 10]), (2, [''balance'' \<mapsto> 20])]"
    "dbTables example_db (shadowName example_migration) = None" "dbFaults example_db = []" "dataColumns example_migration \<noteq> []"
    "0 < batchSize (mgConfig example_migration)"
    by (simp_all add: example_migration_eval example_db_def)
  have plain: "clientWrites m [] db = db" for m :: "(int, int) migration" and db by (simp add: clientWrites_def)
  obtain m1 db1 n m2 db2 report m3 db3 m4 db4 where
    s: "startDualWrite 0 example_migration example_db = (Inr (), m1, db1)" "runBackfill 1 [] m1 db1 = (Inr n, m2, db2)"
    "verifyParity 100 2 m2 db2 = (Inr report, m3, db3)" "cutover 3 m3 db3 = (Inr (), m4, db4)"
    "dbViews db4 (viewName (mgConfig example_migration)) = Some (shadowName example_migration)"
    using migration_run [OF pre(1-3) example_db_wf pre(4-6), of "[]" "[]" "[]" "[]" 0 1 100 2 3]
    unfolding plain by auto
  have r1: "mig_reach ''Holder_view'' (m1, db1) \<and> mgConfig m1 = mgConfig example_migration" by (rule mig_steps(1) [OF init s(1)])
  have r2: "mig_reach ''Holder_view'' (m2, db2) \<and> mgConfig m2 = mgConfig m1" by (rule mig_steps(2) [OF conjunct1 [OF r1] s(2)])
  have r3: "mig_reach ''Holder_view'' (m3, db3) \<and> mgConfig m3 = mgConfig m2" by (rule mig_steps(3) [OF conjunct1 [OF r2] s(3)])
  have r4: "mig_reach ''Holder_view'' (m4, db4) \<and> mgConfig m4 = mgConfig m3" by (rule mig_steps(4) [OF conjunct1 [OF r3] s(4)])
  have v: "dbViews db4 ''Holder_view'' = Some (shadowName m4)" using s(5) r1 r2 r3 r4 by (simp add: example_migration_eval)
  then show ?thesis using view_needs_parity [OF conjunct1 [OF r4]] r4 by blast
qed

text \<open>
  A bulk update whose rows leave its own \<open>where\<close> is not mirrored: the keys are looked up after the
  update, and the shadow row keeps the old value.
\<close>

lemma moved_rows_not_mirrored:
  defines "m \<equiv> example_migration\<lparr>mgPhase := DualWrite, mgMiddleware := True\<rparr>"
  defines "db \<equiv> \<lparr>dbTables = [''Holder'' \<mapsto> [(1, [''balance'' \<mapsto> 10])], ''Holder_shadow'' \<mapsto> [(1, [''balance'' \<mapsto> 10])]], dbViews = Map.empty, dbFaults = []\<rparr>"
  shows "dbTables (snd (clientWrite m (WUpdateMany (\<lambda>k r. r ''balance'' = Some 10) (\<lambda>r. r(''balance'' \<mapsto> 5))) db)) ''Holder''
      = Some [(1, [''balance'' \<mapsto> (5 :: int)])]
    \<and> dbTables (snd (clientWrite m (WUpdateMany (\<lambda>k r. r ''balance'' = Some 10) (\<lambda>r. r(''balance'' \<mapsto> 5))) db)) ''Holder_shadow''
      = Some [(1, [''balance'' \<mapsto> 10])]"
  by (simp add: m_def db_def clientWrite_def nextWrite_def shouldMirror_def findAffectedPrimaryKeys_def fromTable_def matching_def
      example_migration_eval)

text \<open>A write that selects few columns is mirrored with NULL in the others.\<close>

lemma partial_select_mirrors_null:
  assumes "tables m t u db" and "mgMiddleware m" and "shouldMirror m" and "\<not> jm_has t k"
    and "c \<in> set (dataColumns m)" and "c \<notin> set cs" and "primaryKeyColumn (mgConfig m) \<in> set cs"
  shows "\<exists>t' u' r'. tables m t' u' (snd (clientWrite m (WCreate k r (Some cs)) db)) \<and> jm_get t' k = Some r
    \<and> jm_get u' k = Some r' \<and> r' c = None"
proof -
  let ?w = "WCreate k r (Some cs)" and ?r = "\<lambda>c. if c \<in> set cs then r c else None"
  have p: "prismaWrite m ?w t = (Inr (Some (Some k, ?r)), jm_set t k r)" using assms(4,7) by (simp add: selectResult_def)
  from nextWrite_tables [OF assms(1) p] obtain db1 where
    1: "nextWrite m ?w db = (Inr (Some (Some k, ?r)), db1)" "tables m (jm_set t k r) u db1" by blast
  from upsertShadowRow_tables [OF 1(2), of k ?r] obtain u' db' where
    2: "upsertShadowRow m (Some k, ?r) db1 = (Inr (), db')" "tables m (jm_set t k r) u' db'"
    "row_sync (dataColumns m) (Some ?r) (jm_get u' k)" by blast
  obtain r' where r': "jm_get u' k = Some r'" using 2(3) by (cases "jm_get u' k") auto
  then have "r' c = None" using 2(3) assms(5,6) by (auto simp: differs_def list_ex_iff)
  moreover have "snd (clientWrite m ?w db) = db'" using assms(2,3) 1(1) 2(1) by (simp add: clientWrite_def)
  ultimately show ?thesis using 2(2) r'
    by (intro exI [of _ "jm_set t k r"] exI [of _ u'] exI [of _ r']) simp
qed

end
