(* ===== verification/Step_Lock.thy ===== *)
theory Step_Lock
  imports Redis_Store
begin

text \<open>
  \<open>backend/src/lib/lock.ts\<close>: the distributed lock of a campaign step, \<open>SET NX PX\<close> to acquire and a
  compare-and-delete script to release, over the Redis parameter. The competing requests are the step
  relation \<open>sl_step\<close>, with the trace of successful acquisitions and releases.
\<close>

section \<open>The operations\<close>

definition STEP_LOCK_TTL_MS :: int where
  "STEP_LOCK_TTL_MS = 30000"

definition LOCK_PREFIX :: string where
  "LOCK_PREFIX = ''campaign_step_lock''"

definition stepLockKey :: "string \<Rightarrow> string \<Rightarrow> string" where
  "stepLockKey campaignId stepNumber = LOCK_PREFIX @ '':'' @ campaignId @ '':'' @ stepNumber"

record acquire_result =
  acquired :: bool
  holderRequestId :: string

text \<open>\<open>t\<close> is the time of the \<open>SET\<close> and \<open>t'\<close> the time of the \<open>GET\<close> after a refusal.\<close>

definition acquireStepLock ::
  "'r redis \<Rightarrow> int \<Rightarrow> int \<Rightarrow> string \<Rightarrow> string \<Rightarrow> string \<Rightarrow> int option \<Rightarrow> 'r \<Rightarrow> acquire_result \<times> 'r" where
  "acquireStepLock R t t' campaignId stepNumber requestId ttlMs s =
     (let key = stepLockKey campaignId stepNumber;
          ttl = (case ttlMs of Some n \<Rightarrow> n | None \<Rightarrow> STEP_LOCK_TTL_MS);
          (ok, s1) = rSetNxPx R t key requestId ttl s
      in if ok then (\<lparr>acquired = True, holderRequestId = requestId\<rparr>, s1)
         else (\<lparr>acquired = False, holderRequestId = (case rGet R t' key s1 of Some h \<Rightarrow> h | None \<Rightarrow> ''unknown'')\<rparr>, s1))"

definition releaseStepLock :: "'r redis \<Rightarrow> int \<Rightarrow> string \<Rightarrow> string \<Rightarrow> string \<Rightarrow> 'r \<Rightarrow> bool \<times> 'r" where
  "releaseStepLock R t campaignId stepNumber requestId s =
     (let key = stepLockKey campaignId stepNumber
      in if rGet R t key s = Some requestId then (True, rDel R t key s) else (False, s))"

section \<open>Competing requests\<close>

datatype sl_event = Acquired string int int | Released string int

record 'r sl_sys =
  lkRedis :: 'r
  lkNow :: int
  lkTrace :: "sl_event list"

text \<open>The newest event comes first.\<close>

inductive sl_step :: "'r redis \<Rightarrow> string \<Rightarrow> string \<Rightarrow> 'r sl_sys \<Rightarrow> 'r sl_sys \<Rightarrow> bool" for R c n where
  Tick: "lkNow s \<le> t \<Longrightarrow> sl_step R c n s (s\<lparr>lkNow := t\<rparr>)"
| Acquire: "acquireStepLock R (lkNow s) t' c n rid (Some ttl) (lkRedis s) = (a, r) \<Longrightarrow> acquired a \<Longrightarrow>
    sl_step R c n s (s\<lparr>lkRedis := r, lkTrace := Acquired rid (lkNow s) (lkNow s + ttl) # lkTrace s\<rparr>)"
| Refused: "acquireStepLock R (lkNow s) t' c n rid (Some ttl) (lkRedis s) = (a, r) \<Longrightarrow> \<not> acquired a \<Longrightarrow>
    sl_step R c n s (s\<lparr>lkRedis := r\<rparr>)"
| Release: "releaseStepLock R (lkNow s) c n rid (lkRedis s) = (True, r) \<Longrightarrow>
    sl_step R c n s (s\<lparr>lkRedis := r, lkTrace := Released rid (lkNow s) # lkTrace s\<rparr>)"
| NotReleased: "releaseStepLock R (lkNow s) c n rid (lkRedis s) = (False, r) \<Longrightarrow> sl_step R c n s (s\<lparr>lkRedis := r\<rparr>)"

inductive sl_reach :: "'r redis \<Rightarrow> string \<Rightarrow> string \<Rightarrow> 'r sl_sys \<Rightarrow> bool" for R c n where
  Init: "rKey R r (stepLockKey c n) = None \<Longrightarrow> sl_reach R c n \<lparr>lkRedis = r, lkNow = t, lkTrace = []\<rparr>"
| Step: "sl_reach R c n s \<Longrightarrow> sl_step R c n s s' \<Longrightarrow> sl_reach R c n s'"

text \<open>The request that has the lock after a trace, and until when.\<close>

fun holder :: "sl_event list \<Rightarrow> (string \<times> int) option" where
  "holder [] = None"
| "holder (Acquired r t u # tr) = Some (r, u)"
| "holder (Released r t # tr) = None"

text \<open>Nobody acquires a lock that is held and has not expired, and only the holder releases it.\<close>

fun exclusive :: "sl_event list \<Rightarrow> bool" where
  "exclusive [] = True"
| "exclusive (Acquired r t u # tr) = (exclusive tr \<and> (case holder tr of None \<Rightarrow> True | Some (r', u') \<Rightarrow> u' \<le> t))"
| "exclusive (Released r t # tr) = (exclusive tr \<and> (case holder tr of None \<Rightarrow> False | Some (r', u') \<Rightarrow> r' = r \<and> t < u'))"

definition sl_inv :: "'r redis \<Rightarrow> string \<Rightarrow> string \<Rightarrow> 'r sl_sys \<Rightarrow> bool" where
  "sl_inv R c n s \<longleftrightarrow> exclusive (lkTrace s)
     \<and> rKey R (lkRedis s) (stepLockKey c n) = map_option (\<lambda>(r, u). (r, Some u)) (holder (lkTrace s))"

lemma live_holder:
  "live t (map_option (\<lambda>(r, u). (r, Some u)) h) = (case h of None \<Rightarrow> None | Some (r, u) \<Rightarrow> if t < u then Some r else None)"
  by (auto simp: live_def split: option.splits)

lemma sl_inv_step:
  assumes R: "redis_laws R" and "sl_step R c n s s'" and "sl_inv R c n s"
  shows "sl_inv R c n s'"
  using assms(2,3)
proof (induction rule: sl_step.induct)
  case (Tick s t)
  then show ?case by (simp add: sl_inv_def)
next
  case (Acquire s t' rid ttl a r)
  obtain ok s1 where nx: "rSetNxPx R (lkNow s) (stepLockKey c n) rid ttl (lkRedis s) = (ok, s1)" by fastforce
  from Acquire(1,2) nx have "ok" "r = s1" by (auto simp: acquireStepLock_def Let_def split: if_splits)
  then show ?case using Acquire(3) redis_lawsD(7,8) [OF R, of "lkNow s" "stepLockKey c n" rid ttl "lkRedis s"] nx
    by (auto simp: sl_inv_def live_holder split: option.splits if_splits)
next
  case (Refused s t' rid ttl a r)
  obtain ok s1 where nx: "rSetNxPx R (lkNow s) (stepLockKey c n) rid ttl (lkRedis s) = (ok, s1)" by fastforce
  from Refused(1,2) nx have "\<not> ok" "r = s1" by (auto simp: acquireStepLock_def Let_def split: if_splits)
  then show ?case using Refused(3) redis_lawsD(7,8) [OF R, of "lkNow s" "stepLockKey c n" rid ttl "lkRedis s"] nx
    by (auto simp: sl_inv_def)
next
  case (Release s rid r)
  then have "live (lkNow s) (rKey R (lkRedis s) (stepLockKey c n)) = Some rid" "r = rDel R (lkNow s) (stepLockKey c n) (lkRedis s)"
    by (auto simp: releaseStepLock_def Let_def redis_lawsD(1) [OF R] split: if_splits)
  then show ?case using Release(2)
    by (auto simp: sl_inv_def live_holder redis_lawsD(6) [OF R] split: option.splits if_splits)
next
  case (NotReleased s rid r)
  then show ?case by (auto simp: releaseStepLock_def Let_def sl_inv_def split: if_splits)
qed

lemma sl_reach_inv: "sl_reach R c n s \<Longrightarrow> redis_laws R \<Longrightarrow> sl_inv R c n s"
proof (induction rule: sl_reach.induct)
  case (Init r t)
  then show ?case by (simp add: sl_inv_def)
next
  case (Step s s')
  then show ?case by (blast intro: sl_inv_step)
qed

text \<open>C26: The step lock is exclusive: in every run of competing requests, a request acquires the lock only
  when nobody holds it, its holder released it, or the time to live of the holder has passed, and a
  release takes effect only for the request that holds the unexpired lock.\<close>

theorem step_lock_exclusive:
  assumes "redis_laws R" and "sl_reach R c n s"
  shows "exclusive (lkTrace s)"
  using sl_reach_inv [OF assms(2,1)] by (simp add: sl_inv_def)

text \<open>Two requests: the second one gets the lock when the first one has expired, whose release then fails.\<close>

theorem step_lock_exclusive_witness:
  "\<exists>s. sl_reach mem_redis ''7'' ''0'' s \<and> lkTrace s = [Acquired ''b'' 40000 70000, Acquired ''a'' 0 30000]
     \<and> exclusive [Acquired ''b'' 40000 70000, Acquired ''a'' 0 30000]"
proof -
  let ?k = "stepLockKey ''7'' ''0''"
  let ?s0 = "\<lparr>lkRedis = Map.empty, lkNow = 0, lkTrace = []\<rparr>"
  let ?s1 = "\<lparr>lkRedis = [?k \<mapsto> (''a'', Some 30000)], lkNow = 0, lkTrace = [Acquired ''a'' 0 30000]\<rparr>"
  let ?s2 = "\<lparr>lkRedis = [?k \<mapsto> (''a'', Some 30000)], lkNow = 40000, lkTrace = [Acquired ''a'' 0 30000]\<rparr>"
  let ?s3 = "\<lparr>lkRedis = [?k \<mapsto> (''b'', Some 70000)], lkNow = 40000, lkTrace = [Acquired ''b'' 40000 70000, Acquired ''a'' 0 30000]\<rparr>"
  have r0: "sl_reach mem_redis ''7'' ''0'' ?s0" by (rule sl_reach.Init) (simp add: mem_redis_def)
  have "sl_step mem_redis ''7'' ''0'' ?s0 ?s1"
    using sl_step.Acquire [of mem_redis ?s0 0 "''7''" "''0''" "''a''" 30000 "\<lparr>acquired = True, holderRequestId = ''a''\<rparr>" "[?k \<mapsto> (''a'', Some 30000)]"]
    by (simp add: acquireStepLock_def mem_redis_def)
  then have r1: "sl_reach mem_redis ''7'' ''0'' ?s1" by (rule sl_reach.Step [OF r0])
  have "sl_step mem_redis ''7'' ''0'' ?s1 ?s2"
    using sl_step.Tick [of ?s1 40000 mem_redis "''7''" "''0''"] by simp
  then have r2: "sl_reach mem_redis ''7'' ''0'' ?s2" by (rule sl_reach.Step [OF r1])
  have "sl_step mem_redis ''7'' ''0'' ?s2 ?s3"
    using sl_step.Acquire [of mem_redis ?s2 0 "''7''" "''0''" "''b''" 30000 "\<lparr>acquired = True, holderRequestId = ''b''\<rparr>" "[?k \<mapsto> (''b'', Some 70000)]"]
    by (simp add: acquireStepLock_def mem_redis_def live_def)
  then have r3: "sl_reach mem_redis ''7'' ''0'' ?s3" by (rule sl_reach.Step [OF r2])
  show ?thesis using r3 step_lock_exclusive [OF mem_redis_laws r3] by (intro exI [of _ ?s3]) simp
qed

end
