(* ===== verification/Auth_Sessions.thy ===== *)
theory Auth_Sessions
  imports Redis_Store
begin

text \<open>
  \<open>backend/src/auth\<close>: wallet authentication with one-time nonces (\<open>nonce.service.ts\<close>,
  \<open>stellar-signature.service.ts\<close>), JWT pairs with revocation (\<open>token.service.ts\<close>), refresh token
  families (\<open>refresh-token-family.service.ts\<close>) and the service that composes them (\<open>auth.service.ts\<close>).

  Parameters: Redis; the JWT library, with \<open>jwt_laws\<close>; the key and signature checks of the Stellar SDK;
  the JSON text of a nonce entry, which the service writes and a Lua script reads; and
  \<open>parseExpiryToSeconds\<close>, which the source calls but the repository does not define.
\<close>

section \<open>Parameters\<close>

record jwt_payload =
  jpSub :: string
  jpWalletAddress :: string
  jpType :: string
  jpJti :: "string option"

record nonce_entry =
  nePublicKey :: string
  neExpiresAt :: int
  neUsed :: bool

record 'r auth_env =
  aeRedis :: "'r redis"
  aeSign :: "string \<Rightarrow> jwt_payload \<Rightarrow> string \<Rightarrow> int \<Rightarrow> string"
  aeVerify :: "string \<Rightarrow> int \<Rightarrow> string \<Rightarrow> (string, jwt_payload) res"
  aeAccessSecret :: string
  aeRefreshSecret :: string
  aeUseRedis :: bool
  aeKeyOk :: "string \<Rightarrow> bool"
  aeEdVerify :: "string \<Rightarrow> string \<Rightarrow> string \<Rightarrow> (string, bool) res"
  aeParseExpiryToSeconds :: "string \<Rightarrow> int"
  aeEncode :: "nonce_entry \<Rightarrow> string"
  aeDecode :: "string \<Rightarrow> nonce_entry option"

datatype auth_error = Unauthorized string | BadRequest string | OtherError string

section \<open>Constants\<close>

definition JWT_ACCESS_EXPIRY :: string where "JWT_ACCESS_EXPIRY = ''15m''"
definition JWT_REFRESH_EXPIRY :: string where "JWT_REFRESH_EXPIRY = ''7d''"
definition NONCE_EXPIRY_MS :: int where "NONCE_EXPIRY_MS = 5 * 60 * 1000"
definition NONCE_TTL_SECONDS :: int where "NONCE_TTL_SECONDS = (NONCE_EXPIRY_MS + 999) div 1000"
definition NONCE_KEY_PREFIX :: string where "NONCE_KEY_PREFIX = ''nonce:''"
definition REVOKED_JTI_PREFIX :: string where "REVOKED_JTI_PREFIX = ''revoked_jti:''"
definition FAMILY_TTL_DAYS :: int where "FAMILY_TTL_DAYS = 30"
definition STELLAR_MESSAGE_PREFIX :: string where
  "STELLAR_MESSAGE_PREFIX = ''Sign this message to authenticate with the platform:'' @ [char_of (10 :: nat)]"
definition refreshTtlMs :: int where "refreshTtlMs = 7 * 24 * 60 * 60 * 1000"

section \<open>Refresh token families\<close>

record family_row =
  frFamilyId :: string
  frToken :: string
  frUsed :: bool
  frExpiresAt :: int

datatype family_error = INVALID_TOKEN string | REUSE_DETECTED string | DbError string

definition findToken :: "string \<Rightarrow> family_row list \<Rightarrow> family_row option" where
  "findToken token rows = List.find (\<lambda>r. frToken r = token) rows"

text \<open>The unique index on the token.\<close>

definition createRow :: "family_row \<Rightarrow> family_row list \<Rightarrow> (family_error, unit) res \<times> family_row list" where
  "createRow r rows =
     (if findToken (frToken r) rows \<noteq> None then (Inl (DbError ''Unique constraint failed''), rows) else (Inr (), rows @ [r]))"

definition createTokenFamily :: "string \<Rightarrow> string \<Rightarrow> int \<Rightarrow> family_row list \<Rightarrow> (family_error, string) res \<times> family_row list" where
  "createTokenFamily familyId token expiresAt rows =
     (case createRow \<lparr>frFamilyId = familyId, frToken = token, frUsed = False, frExpiresAt = expiresAt\<rparr> rows of
        (Inl e, rows1) \<Rightarrow> (Inl e, rows1)
      | (Inr _, rows1) \<Rightarrow> (Inr familyId, rows1))"

text \<open>An interactive transaction: what the body wrote is rolled back when the body throws.\<close>

definition transaction :: "('s \<Rightarrow> ('e, 'a) res \<times> 's) \<Rightarrow> 's \<Rightarrow> ('e, 'a) res \<times> 's" where
  "transaction body s = (case body s of (Inl e, s1) \<Rightarrow> (Inl e, s) | (Inr x, s1) \<Rightarrow> (Inr x, s1))"

definition rotateBody :: "string \<Rightarrow> string \<Rightarrow> int \<Rightarrow> family_row list \<Rightarrow> (family_error, string) res \<times> family_row list" where
  "rotateBody currentToken nextToken nextExpiresAt rows =
     (let count = length (filter (\<lambda>r. frToken r = currentToken \<and> \<not> frUsed r) rows);
          rows1 = map (\<lambda>r. if frToken r = currentToken \<and> \<not> frUsed r then r\<lparr>frUsed := True\<rparr> else r) rows;
          continue =
            (case findToken currentToken rows1 of
               None \<Rightarrow> (Inl (INVALID_TOKEN ''Refresh token not found after update''), rows1)
             | Some record \<Rightarrow>
                 (case createRow \<lparr>frFamilyId = frFamilyId record, frToken = nextToken, frUsed = False, frExpiresAt = nextExpiresAt\<rparr> rows1 of
                    (Inl e, rows2) \<Rightarrow> (Inl e, rows2)
                  | (Inr _, rows2) \<Rightarrow> (Inr (frFamilyId record), rows2)))
      in if count = 0 then
           (case findToken currentToken rows1 of
              None \<Rightarrow> (Inl (INVALID_TOKEN ''Refresh token not found''), rows1)
            | Some record \<Rightarrow>
                if frUsed record then
                  (Inl (REUSE_DETECTED ''Refresh token reuse detected -- entire family invalidated''),
                   filter (\<lambda>r. frFamilyId r \<noteq> frFamilyId record) rows1)
                else continue)
         else continue)"

definition rotateTokenFamily :: "string \<Rightarrow> string \<Rightarrow> int \<Rightarrow> family_row list \<Rightarrow> (family_error, string) res \<times> family_row list" where
  "rotateTokenFamily currentToken nextToken nextExpiresAt = transaction (rotateBody currentToken nextToken nextExpiresAt)"

definition invalidateFamily :: "string \<Rightarrow> family_row list \<Rightarrow> family_row list" where
  "invalidateFamily familyId rows = filter (\<lambda>r. frFamilyId r \<noteq> familyId) rows"

definition pruneExpiredFamilies :: "int \<Rightarrow> family_row list \<Rightarrow> nat \<times> family_row list" where
  "pruneExpiredFamilies now rows =
     (let cutoff = now - FAMILY_TTL_DAYS * 24 * 60 * 60 * 1000;
          kept = filter (\<lambda>r. \<not> frExpiresAt r < cutoff) rows
      in (length rows - length kept, kept))"

section \<open>Nonces\<close>

record nonce_response =
  nrNonce :: string
  nrExpiresAt :: int
  nrMessage :: string

definition buildSignMessage :: "string \<Rightarrow> string" where
  "buildSignMessage nonce = STELLAR_MESSAGE_PREFIX @ nonce"

text \<open>\<open>ok\<close> is false when Redis fails; \<open>nonce\<close> is the generated uuid.\<close>

definition generateNonce :: "'r auth_env \<Rightarrow> int \<Rightarrow> bool \<Rightarrow> string \<Rightarrow> string \<Rightarrow> 'r \<Rightarrow> (auth_error, nonce_response) res \<times> 'r" where
  "generateNonce E now ok nonce publicKey s =
     (let expiresAt = now + NONCE_EXPIRY_MS;
          entry = \<lparr>nePublicKey = publicKey, neExpiresAt = expiresAt, neUsed = False\<rparr>
      in if \<not> ok then (Inl (OtherError ''Failed to generate nonce: Redis write failed''), s)
         else (Inr \<lparr>nrNonce = nonce, nrExpiresAt = expiresAt, nrMessage = STELLAR_MESSAGE_PREFIX @ nonce\<rparr>,
               rSetPx (aeRedis E) now (NONCE_KEY_PREFIX @ nonce) (aeEncode E entry) (NONCE_TTL_SECONDS * 1000) s))"

text \<open>The script; \<open>None\<close> when it fails (a value that is not JSON).\<close>

definition CONSUME_NONCE_SCRIPT :: "'r auth_env \<Rightarrow> int \<Rightarrow> string \<Rightarrow> string \<Rightarrow> 'r \<Rightarrow> int option \<times> 'r" where
  "CONSUME_NONCE_SCRIPT E now key publicKey s =
     (case rGet (aeRedis E) now key s of
        None \<Rightarrow> (Some (- 1), s)
      | Some val \<Rightarrow>
          (case aeDecode E val of
             None \<Rightarrow> (None, s)
           | Some entry \<Rightarrow>
               if neUsed entry then (Some (- 2), s)
               else if nePublicKey entry \<noteq> publicKey then (Some (- 3), s)
               else (Some 1, rSetKeepTtl (aeRedis E) now key (aeEncode E (entry\<lparr>neUsed := True\<rparr>)) s)))"

definition consumeNonce :: "'r auth_env \<Rightarrow> int \<Rightarrow> bool \<Rightarrow> string \<Rightarrow> string \<Rightarrow> 'r \<Rightarrow> bool \<times> 'r" where
  "consumeNonce E now ok nonce publicKey s =
     (if \<not> ok then (False, s)
      else case CONSUME_NONCE_SCRIPT E now (NONCE_KEY_PREFIX @ nonce) publicKey s of
        (r, s1) \<Rightarrow> (r = Some 1, s1))"

text \<open>The cleanup over the keys that the scan returned; an entry that does not parse ends it.\<close>

fun cleanupUsedNonces :: "'r auth_env \<Rightarrow> int \<Rightarrow> string list \<Rightarrow> 'r \<Rightarrow> 'r" where
  "cleanupUsedNonces E now [] s = s"
| "cleanupUsedNonces E now (key # keys) s =
     (case rGet (aeRedis E) now key s of
        None \<Rightarrow> cleanupUsedNonces E now keys s
      | Some raw \<Rightarrow>
          if raw = [] then cleanupUsedNonces E now keys s
          else
            (case aeDecode E raw of
               None \<Rightarrow> s
             | Some entry \<Rightarrow>
                 if neUsed entry then cleanupUsedNonces E now keys (rDel (aeRedis E) now key s)
                 else cleanupUsedNonces E now keys s))"

section \<open>Signatures\<close>

definition isValidPublicKey :: "'r auth_env \<Rightarrow> string \<Rightarrow> bool" where
  "isValidPublicKey E publicKey = aeKeyOk E publicKey"

definition verifySignature :: "'r auth_env \<Rightarrow> string \<Rightarrow> string \<Rightarrow> string \<Rightarrow> bool" where
  "verifySignature E publicKey signature nonce =
     (if \<not> aeKeyOk E publicKey then False
      else case aeEdVerify E publicKey (buildSignMessage nonce) signature of Inl e \<Rightarrow> False | Inr valid \<Rightarrow> valid)"

section \<open>Tokens\<close>

record auth_response =
  arAccessToken :: string
  arRefreshToken :: string
  arExpiresIn :: int
  arTokenType :: string
  arWalletAddress :: string

record 'r auth_state =
  asRedis :: 'r
  asRevokedLocal :: "string list"
  asFamilies :: "family_row list"

text \<open>\<open>jti\<close> and \<open>jti'\<close> are the two generated uuids.\<close>

definition generateTokenPair :: "'r auth_env \<Rightarrow> int \<Rightarrow> string \<Rightarrow> string \<Rightarrow> string \<Rightarrow> auth_response" where
  "generateTokenPair E now jti jti' walletAddress =
     (let accessPayload = \<lparr>jpSub = walletAddress, jpWalletAddress = walletAddress, jpType = ''access'', jpJti = Some jti\<rparr>;
          refreshPayload = \<lparr>jpSub = walletAddress, jpWalletAddress = walletAddress, jpType = ''refresh'', jpJti = Some jti'\<rparr>
      in \<lparr>arAccessToken = aeSign E (aeAccessSecret E) accessPayload JWT_ACCESS_EXPIRY now,
          arRefreshToken = aeSign E (aeRefreshSecret E) refreshPayload JWT_REFRESH_EXPIRY now,
          arExpiresIn = aeParseExpiryToSeconds E JWT_ACCESS_EXPIRY, arTokenType = ''Bearer'', arWalletAddress = walletAddress\<rparr>)"

definition revokeToken :: "'r auth_env \<Rightarrow> int \<Rightarrow> bool \<Rightarrow> string \<Rightarrow> 'r auth_state \<Rightarrow> 'r auth_state" where
  "revokeToken E now ok jti st =
     (if aeUseRedis E then
        (if ok then
           (let ttlSeconds = 7 * 24 * 60 * 60
            in st\<lparr>asRedis := rSetPx (aeRedis E) now (REVOKED_JTI_PREFIX @ jti) ''1'' (ttlSeconds * 1000) (asRedis st)\<rparr>)
         else st\<lparr>asRevokedLocal := List.insert jti (asRevokedLocal st)\<rparr>)
      else st\<lparr>asRevokedLocal := List.insert jti (asRevokedLocal st)\<rparr>)"

definition isRevoked :: "'r auth_env \<Rightarrow> int \<Rightarrow> bool \<Rightarrow> string \<Rightarrow> 'r auth_state \<Rightarrow> bool" where
  "isRevoked E now ok jti st =
     (if aeUseRedis E then
        (if ok then rGet (aeRedis E) now (REVOKED_JTI_PREFIX @ jti) (asRedis st) \<noteq> None else True)
      else jti \<in> set (asRevokedLocal st))"

definition verifyToken ::
  "'r auth_env \<Rightarrow> string \<Rightarrow> string \<Rightarrow> string \<Rightarrow> string \<Rightarrow> int \<Rightarrow> bool \<Rightarrow> string \<Rightarrow> 'r auth_state \<Rightarrow> (auth_error, jwt_payload) res" where
  "verifyToken E secret type revoked failed now ok token st =
     (case aeVerify E secret now token of
        Inl e \<Rightarrow> Inl (Unauthorized (failed @ e))
      | Inr payload \<Rightarrow>
          if jpType payload \<noteq> type then Inl (Unauthorized ''Invalid token type'')
          else if (case jpJti payload of Some jti \<Rightarrow> jti \<noteq> [] \<and> isRevoked E now ok jti st | None \<Rightarrow> False)
          then Inl (Unauthorized revoked)
          else Inr payload)"

definition verifyAccessToken :: "'r auth_env \<Rightarrow> int \<Rightarrow> bool \<Rightarrow> string \<Rightarrow> 'r auth_state \<Rightarrow> (auth_error, jwt_payload) res" where
  "verifyAccessToken E =
     verifyToken E (aeAccessSecret E) ''access'' ''Token has been revoked'' ''Token verification failed: ''"

definition verifyRefreshToken :: "'r auth_env \<Rightarrow> int \<Rightarrow> bool \<Rightarrow> string \<Rightarrow> 'r auth_state \<Rightarrow> (auth_error, jwt_payload) res" where
  "verifyRefreshToken E =
     verifyToken E (aeRefreshSecret E) ''refresh'' ''Refresh token has been revoked'' ''Refresh token verification failed: ''"

section \<open>The service\<close>

definition requestNonce :: "'r auth_env \<Rightarrow> int \<Rightarrow> bool \<Rightarrow> string \<Rightarrow> string \<Rightarrow> 'r auth_state \<Rightarrow> (auth_error, nonce_response) res \<times> 'r auth_state" where
  "requestNonce E now ok nonce publicKey st =
     (if \<not> isValidPublicKey E publicKey then (Inl (BadRequest ''Invalid Stellar public key''), st)
      else case generateNonce E now ok nonce publicKey (asRedis st) of (x, r) \<Rightarrow> (x, st\<lparr>asRedis := r\<rparr>))"

text \<open>\<open>dbOk\<close> is false when the family cannot be stored, which the code tolerates.\<close>

definition authenticateWithWallet ::
  "'r auth_env \<Rightarrow> int \<Rightarrow> bool \<Rightarrow> bool \<Rightarrow> string \<Rightarrow> string \<Rightarrow> string \<Rightarrow> string \<Rightarrow> string \<Rightarrow> string \<Rightarrow> 'r auth_state
    \<Rightarrow> (auth_error, auth_response) res \<times> 'r auth_state" where
  "authenticateWithWallet E now ok dbOk jti jti' familyId publicKey signature nonce st =
     (if \<not> isValidPublicKey E publicKey then (Inl (BadRequest ''Invalid Stellar public key''), st)
      else
        (case consumeNonce E now ok nonce publicKey (asRedis st) of
           (nonceValid, r) \<Rightarrow>
             let st1 = st\<lparr>asRedis := r\<rparr>
             in if \<not> nonceValid then (Inl (Unauthorized ''Invalid or expired nonce''), st1)
                else if \<not> verifySignature E publicKey signature nonce then (Inl (Unauthorized ''Invalid wallet signature''), st1)
                else
                  (let tokenPair = generateTokenPair E now jti jti' publicKey
                   in (Inr tokenPair,
                       if dbOk then st1\<lparr>asFamilies := snd (createTokenFamily familyId (arRefreshToken tokenPair) (now + refreshTtlMs) (asFamilies st1))\<rparr>
                       else st1))))"

definition refreshTokens ::
  "'r auth_env \<Rightarrow> int \<Rightarrow> bool \<Rightarrow> bool \<Rightarrow> bool \<Rightarrow> string \<Rightarrow> string \<Rightarrow> string \<Rightarrow> 'r auth_state \<Rightarrow> (auth_error, auth_response) res \<times> 'r auth_state" where
  "refreshTokens E now ok dbOk revokeOk jti jti' refreshToken st =
     (case verifyRefreshToken E now ok refreshToken st of
        Inl e \<Rightarrow> (Inl e, st)
      | Inr payload \<Rightarrow>
          (let nextPair = generateTokenPair E now jti jti' (jpWalletAddress payload);
               (rotated, families) =
                 (if dbOk then rotateTokenFamily refreshToken (arRefreshToken nextPair) (now + refreshTtlMs) (asFamilies st)
                  else (Inl (DbError ''unavailable''), asFamilies st));
               st1 = st\<lparr>asFamilies := families\<rparr>
           in if (case rotated of Inl (REUSE_DETECTED e) \<Rightarrow> True | _ \<Rightarrow> False)
              then (Inl (Unauthorized ''Refresh token reuse detected. All sessions invalidated for security.''), st1)
              else
                (Inr nextPair,
                 case jpJti payload of Some j \<Rightarrow> if j = [] then st1 else revokeToken E now revokeOk j st1 | None \<Rightarrow> st1)))"

definition logout :: "'r auth_env \<Rightarrow> int \<Rightarrow> bool \<Rightarrow> string \<Rightarrow> 'r auth_state \<Rightarrow> 'r auth_state" where
  "logout E now ok jti st = revokeToken E now ok jti st"

section \<open>Rotation of a family, branch by branch\<close>

lemma findToken_None: "findToken token rows = None \<longleftrightarrow> token \<notin> frToken ` set rows"
  by (auto simp: findToken_def find_None_iff)

lemma findToken_unique:
  assumes "distinct (map frToken rows)" and "r \<in> set rows"
  shows "findToken (frToken r) rows = Some r"
  using assms by (induction rows) (auto simp: findToken_def)

lemma findToken_Some: "findToken token rows = Some r \<Longrightarrow> r \<in> set rows \<and> frToken r = token"
  by (auto simp: findToken_def find_Some_iff)

definition markUsed :: "string \<Rightarrow> family_row list \<Rightarrow> family_row list" where
  "markUsed token rows = map (\<lambda>r. if frToken r = token \<and> \<not> frUsed r then r\<lparr>frUsed := True\<rparr> else r) rows"

lemma markUsed_tokens: "map frToken (markUsed token rows) = map frToken rows"
  by (induction rows) (simp_all add: markUsed_def)

lemma findToken_markUsed:
  "findToken token (markUsed token rows) = map_option (\<lambda>r. r\<lparr>frUsed := True\<rparr>) (findToken token rows)"
  by (induction rows) (auto simp: findToken_def markUsed_def)

lemma findToken_markUsed_None: "findToken x (markUsed token rows) = None \<longleftrightarrow> findToken x rows = None"
  by (metis findToken_None list.set_map markUsed_tokens)

lemma markUsed_used:
  assumes "distinct (map frToken rows)" and "findToken token rows = Some r" and "frUsed r"
  shows "filter (\<lambda>r. frToken r = token \<and> \<not> frUsed r) rows = []"
proof -
  have "frUsed r'" if "r' \<in> set rows" "frToken r' = token" for r'
    using findToken_unique [OF assms(1) that(1)] that assms by simp
  then show ?thesis by (auto simp: filter_empty_conv)
qed

lemma rotate_branches:
  assumes "distinct (map frToken rows)"
  shows "rotateTokenFamily token nextToken e rows =
    (case findToken token rows of
       None \<Rightarrow> (Inl (INVALID_TOKEN ''Refresh token not found''), rows)
     | Some r \<Rightarrow>
         if frUsed r then (Inl (REUSE_DETECTED ''Refresh token reuse detected -- entire family invalidated''), rows)
         else if findToken nextToken rows \<noteq> None then (Inl (DbError ''Unique constraint failed''), rows)
         else (Inr (frFamilyId r),
               markUsed token rows @ [\<lparr>frFamilyId = frFamilyId r, frToken = nextToken, frUsed = False, frExpiresAt = e\<rparr>]))"
proof (cases "findToken token rows")
  case None
  then have "filter (\<lambda>r. frToken r = token \<and> \<not> frUsed r) rows = []"
    by (auto simp: findToken_None filter_empty_conv)
  then show ?thesis
    using None by (simp add: rotateTokenFamily_def transaction_def rotateBody_def flip: markUsed_def)
      (simp add: findToken_markUsed)
next
  case (Some r)
  show ?thesis
  proof (cases "frUsed r")
    case True
    then have "length (filter (\<lambda>r. frToken r = token \<and> \<not> frUsed r) rows) = 0"
      using markUsed_used [OF assms Some True] by simp
    then show ?thesis
      using Some True by (simp add: rotateTokenFamily_def transaction_def rotateBody_def Let_def findToken_markUsed flip: markUsed_def)
  next
    case False
    have "r \<in> set rows \<and> frToken r = token" using findToken_Some [OF Some] .
    then have "filter (\<lambda>r. frToken r = token \<and> \<not> frUsed r) rows \<noteq> []"
      using False by (auto simp: filter_empty_conv)
    then have c: "length (filter (\<lambda>r. frToken r = token \<and> \<not> frUsed r) rows) \<noteq> 0" by simp
    show ?thesis
      using Some False c
      by (simp add: rotateTokenFamily_def transaction_def rotateBody_def Let_def findToken_markUsed
          createRow_def findToken_markUsed_None flip: markUsed_def split: prod.splits)
  qed
qed

text \<open>
  A rotation that throws leaves the table as it was, the deletion of the family included.
\<close>

lemma rotate_throw_rolls_back: "fst (rotateTokenFamily token nextToken e rows) = Inl err \<Longrightarrow> snd (rotateTokenFamily token nextToken e rows) = rows"
  by (auto simp: rotateTokenFamily_def transaction_def split: prod.splits sum.splits)

lemma reuse_keeps_the_family:
  "let rows = [\<lparr>frFamilyId = ''f'', frToken = ''a'', frUsed = True, frExpiresAt = 9\<rparr>, \<lparr>frFamilyId = ''f'', frToken = ''b'', frUsed = False, frExpiresAt = 9\<rparr>];
       (reused, rows1) = rotateTokenFamily ''a'' ''x'' 9 rows;
       (next_one, rows2) = rotateTokenFamily ''b'' ''c'' 9 rows1
   in (\<exists>m. reused = Inl (REUSE_DETECTED m)) \<and> next_one = Inr ''f''"
  by (simp add: rotateTokenFamily_def transaction_def rotateBody_def createRow_def findToken_def)

section \<open>The service as a system\<close>

text \<open>
  The sessions of one deployment: the service's state, the clock, and what was issued, accepted and
  rotated so far. With \<open>lossy\<close> a revocation may fail to reach Redis.
\<close>

record 'r auth_sys =
  syState :: "'r auth_state"
  syNow :: int
  syIssued :: "(string \<times> string \<times> int) list"
  syLogins :: "(string \<times> string \<times> int) list"
  syRefreshed :: "string list"

inductive auth_step :: "'r auth_env \<Rightarrow> bool \<Rightarrow> 'r auth_sys \<Rightarrow> 'r auth_sys \<Rightarrow> bool" for E lossy where
  request_nonce: "nonce \<notin> fst ` set (syIssued x) \<Longrightarrow> requestNonce E (syNow x) ok nonce publicKey (syState x) = (res, st) \<Longrightarrow>
    auth_step E lossy x (x\<lparr>syState := st,
      syIssued := (case res of Inr _ \<Rightarrow> (nonce, publicKey, syNow x) # syIssued x | Inl _ \<Rightarrow> syIssued x)\<rparr>)"
| login: "authenticateWithWallet E (syNow x) ok dbOk jti jti' familyId publicKey signature nonce (syState x) = (res, st) \<Longrightarrow>
    auth_step E lossy x (x\<lparr>syState := st,
      syLogins := (case res of Inr _ \<Rightarrow> (nonce, publicKey, syNow x) # syLogins x | Inl _ \<Rightarrow> syLogins x)\<rparr>)"
| refresh: "lossy \<or> revokeOk \<Longrightarrow> refreshTokens E (syNow x) ok dbOk revokeOk jti jti' token (syState x) = (res, st) \<Longrightarrow>
    auth_step E lossy x (x\<lparr>syState := st,
      syRefreshed := (case res of Inr _ \<Rightarrow> token # syRefreshed x | Inl _ \<Rightarrow> syRefreshed x)\<rparr>)"
| log_out: "lossy \<or> ok \<Longrightarrow> auth_step E lossy x (x\<lparr>syState := logout E (syNow x) ok jti (syState x)\<rparr>)"
| cleanup: "\<forall>k\<in>set keys. \<exists>n. k = NONCE_KEY_PREFIX @ n \<Longrightarrow>
    auth_step E lossy x (x\<lparr>syState := (syState x)\<lparr>asRedis := cleanupUsedNonces E (syNow x) keys (asRedis (syState x))\<rparr>\<rparr>)"
| tick: "0 \<le> d \<Longrightarrow> auth_step E lossy x (x\<lparr>syNow := syNow x + d\<rparr>)"

definition auth_start :: "'r auth_env \<Rightarrow> 'r auth_sys \<Rightarrow> bool" where
  "auth_start E x \<longleftrightarrow> (\<forall>n. rKey (aeRedis E) (asRedis (syState x)) (NONCE_KEY_PREFIX @ n) = None)
     \<and> syIssued x = [] \<and> syLogins x = [] \<and> syRefreshed x = [] \<and> 0 \<le> syNow x"

text \<open>The JSON text of an entry that the service wrote is read back by the script.\<close>

definition nonce_json_laws :: "'r auth_env \<Rightarrow> bool" where
  "nonce_json_laws E \<longleftrightarrow> (\<forall>entry. 0 \<le> neExpiresAt entry \<longrightarrow> aeDecode E (aeEncode E entry) = Some entry)"

text \<open>
  A refresh token verifies until its expiry, with the payload it was signed with. The secret is the
  service's own, so a token that verifies was signed by it, at most seven days before its expiry and
  with a \<open>jti\<close>.
\<close>

definition jwt_laws :: "'r auth_env \<Rightarrow> (string \<Rightarrow> int) \<Rightarrow> (string \<Rightarrow> string) \<Rightarrow> bool" where
  "jwt_laws E expiry jtiOf \<longleftrightarrow>
     (\<forall>now token payload. aeVerify E (aeRefreshSecret E) now token = Inr payload \<longrightarrow>
        jpJti payload = Some (jtiOf token) \<and> jtiOf token \<noteq> [] \<and> now < expiry token \<and> expiry token \<le> now + refreshTtlMs)"

subsection \<open>What the operations do to Redis\<close>

abbreviation rview :: "'r auth_env \<Rightarrow> 'r auth_state \<Rightarrow> string \<Rightarrow> (string \<times> int option) option" where
  "rview E st \<equiv> rKey (aeRedis E) (asRedis st)"

lemma key_families [simp]: "NONCE_KEY_PREFIX @ n \<noteq> REVOKED_JTI_PREFIX @ j" "REVOKED_JTI_PREFIX @ j \<noteq> NONCE_KEY_PREFIX @ n"
  by (simp_all add: NONCE_KEY_PREFIX_def REVOKED_JTI_PREFIX_def)

definition nonceCell :: "'r auth_env \<Rightarrow> string \<Rightarrow> int \<Rightarrow> bool \<Rightarrow> (string \<times> int option) option" where
  "nonceCell E publicKey issuedAt used =
     Some (aeEncode E \<lparr>nePublicKey = publicKey, neExpiresAt = issuedAt + NONCE_EXPIRY_MS, neUsed = used\<rparr>, Some (issuedAt + NONCE_EXPIRY_MS))"

lemma requestNonce_effect:
  assumes R: "redis_laws (aeRedis E)" and run: "requestNonce E now ok nonce publicKey st = (res, st')"
  shows "(\<exists>e. res = Inl e) \<and> st' = st \<or>
    (\<exists>y. res = Inr y) \<and> asRevokedLocal st' = asRevokedLocal st \<and>
      rview E st' = (rview E st)(NONCE_KEY_PREFIX @ nonce := nonceCell E publicKey now False)"
  using run redis_lawsD(2) [OF R]
  by (auto simp: requestNonce_def generateNonce_def nonceCell_def NONCE_TTL_SECONDS_def NONCE_EXPIRY_MS_def Let_def
      split: if_splits prod.splits)

lemma consumeNonce_effect:
  assumes R: "redis_laws (aeRedis E)" and run: "consumeNonce E now ok nonce publicKey s = (b, s')"
  shows "\<not> b \<and> s' = s \<or>
    b \<and> (\<exists>v e entry. rKey (aeRedis E) s (NONCE_KEY_PREFIX @ nonce) = Some (v, e) \<and> live now (Some (v, e)) = Some v
       \<and> aeDecode E v = Some entry \<and> \<not> neUsed entry \<and> nePublicKey entry = publicKey
       \<and> rKey (aeRedis E) s' = (rKey (aeRedis E) s)(NONCE_KEY_PREFIX @ nonce := Some (aeEncode E (entry\<lparr>neUsed := True\<rparr>), e)))"
proof (cases "b")
  case False
  then show ?thesis
    using run by (auto simp: consumeNonce_def CONSUME_NONCE_SCRIPT_def split: if_splits option.splits prod.splits)
next
  case True
  let ?k = "NONCE_KEY_PREFIX @ nonce"
  obtain v entry where v: "rGet (aeRedis E) now ?k s = Some v" and d: "aeDecode E v = Some entry"
    and e: "\<not> neUsed entry" "nePublicKey entry = publicKey"
    and s': "s' = rSetKeepTtl (aeRedis E) now ?k (aeEncode E (entry\<lparr>neUsed := True\<rparr>)) s"
    using run True by (auto simp: consumeNonce_def CONSUME_NONCE_SCRIPT_def split: if_splits option.splits prod.splits)
  have l: "live now (rKey (aeRedis E) s ?k) = Some v" using v redis_lawsD(1) [OF R] by simp
  then obtain x where x: "rKey (aeRedis E) s ?k = Some (v, x)" using live_Some by blast
  have "rKey (aeRedis E) s' = (rKey (aeRedis E) s)(?k := Some (aeEncode E (entry\<lparr>neUsed := True\<rparr>), x))"
    unfolding s' redis_lawsD(9) [OF R] using l x by simp
  then show ?thesis using True x l d e by auto
qed

lemma cleanup_effect:
  assumes R: "redis_laws (aeRedis E)"
  shows "rKey (aeRedis E) (cleanupUsedNonces E now keys s) k = rKey (aeRedis E) s k
    \<or> rKey (aeRedis E) (cleanupUsedNonces E now keys s) k = None \<and> k \<in> set keys"
proof (induction keys arbitrary: s)
  case (Cons key keys)
  show ?case
    using Cons.IH [of s] Cons.IH [of "rDel (aeRedis E) now key s"] redis_lawsD(6) [OF R]
    by (auto split: option.splits if_splits)
qed simp

lemma revokeToken_effect:
  assumes R: "redis_laws (aeRedis E)"
  shows "rview E (revokeToken E now ok jti st) =
      (if aeUseRedis E \<and> ok then (rview E st)(REVOKED_JTI_PREFIX @ jti := Some (''1'', Some (now + refreshTtlMs))) else rview E st)"
    and "set (asRevokedLocal (revokeToken E now ok jti st)) =
      (if aeUseRedis E \<and> ok then set (asRevokedLocal st) else insert jti (set (asRevokedLocal st)))"
  by (auto simp: revokeToken_def Let_def redis_lawsD(2) [OF R] refreshTtlMs_def)

lemma revokeToken_families: "asFamilies (revokeToken E now ok jti st) = asFamilies st"
  by (simp add: revokeToken_def Let_def)

lemma authenticate_effect:
  assumes run: "authenticateWithWallet E now ok dbOk jti jti' familyId publicKey signature nonce st = (res, st')"
  obtains r where "consumeNonce E now ok nonce publicKey (asRedis st) = (True, r)" and "asRedis st' = r"
      and "asRevokedLocal st' = asRevokedLocal st" and "(\<exists>y. res = Inr y) \<longrightarrow> verifySignature E publicKey signature nonce"
  | e where "res = Inl e" and "asRedis st' = asRedis st" and "asRevokedLocal st' = asRevokedLocal st"
proof (cases "isValidPublicKey E publicKey \<and> fst (consumeNonce E now ok nonce publicKey (asRedis st))")
  case True
  then obtain r where r: "consumeNonce E now ok nonce publicKey (asRedis st) = (True, r)"
    by (cases "consumeNonce E now ok nonce publicKey (asRedis st)") auto
  then have "asRedis st' = r" "asRevokedLocal st' = asRevokedLocal st" "(\<exists>y. res = Inr y) \<longrightarrow> verifySignature E publicKey signature nonce"
    using run True by (auto simp: authenticateWithWallet_def Let_def split: if_splits)
  then show ?thesis using that(1) r by blast
next
  case False
  then show ?thesis
  proof (cases "isValidPublicKey E publicKey")
    case invalid: False
    then show ?thesis using that(2) run by (auto simp: authenticateWithWallet_def)
  next
    case valid: True
    then obtain r where r: "consumeNonce E now ok nonce publicKey (asRedis st) = (False, r)"
      using False by (cases "consumeNonce E now ok nonce publicKey (asRedis st)") auto
    then have "r = asRedis st"
      by (auto simp: consumeNonce_def CONSUME_NONCE_SCRIPT_def split: if_splits option.splits prod.splits)
    then show ?thesis using that(2) run r valid by (auto simp: authenticateWithWallet_def Let_def)
  qed
qed

lemma refreshTokens_effect:
  assumes J: "jwt_laws E expiry jtiOf"
    and run: "refreshTokens E now ok dbOk revokeOk jti jti' token st = (res, st')"
  obtains y fams where "res = Inr y" and "st' = revokeToken E now revokeOk (jtiOf token) (st\<lparr>asFamilies := fams\<rparr>)"
      and "\<not> isRevoked E now ok (jtiOf token) st" and "now < expiry token" and "expiry token \<le> now + refreshTtlMs"
  | e where "res = Inl e" and "asRedis st' = asRedis st" and "asRevokedLocal st' = asRevokedLocal st"
proof (cases "verifyRefreshToken E now ok token st")
  case (Inl e)
  then have "res = Inl e" "st' = st" using run by (simp_all add: refreshTokens_def)
  then show ?thesis using that(2) by simp
next
  case (Inr payload)
  then have v: "aeVerify E (aeRefreshSecret E) now token = Inr payload"
    and nr: "\<not> (case jpJti payload of Some jti \<Rightarrow> jti \<noteq> [] \<and> isRevoked E now ok jti st | None \<Rightarrow> False)"
    by (auto simp: verifyRefreshToken_def verifyToken_def split: sum.splits if_splits)
  have j: "jpJti payload = Some (jtiOf token)" "jtiOf token \<noteq> []" "now < expiry token" "expiry token \<le> now + refreshTtlMs"
    using J v unfolding jwt_laws_def by blast+
  show ?thesis
  proof (cases res)
    case (Inl e)
    then have "asRedis st' = asRedis st" "asRevokedLocal st' = asRevokedLocal st"
      using run Inr by (auto simp: refreshTokens_def Let_def split: prod.splits if_splits)
    then show ?thesis using that(2) Inl by blast
  next
    case ok: (Inr y)
    then have "st' = revokeToken E now revokeOk (jtiOf token) (st\<lparr>asFamilies := asFamilies st'\<rparr>)"
      using run Inr j by (auto simp: refreshTokens_def Let_def revokeToken_families split: prod.splits if_splits)
    then show ?thesis using that(1) ok nr j by simp
  qed
qed

subsection \<open>Nonces authenticate once\<close>

definition nonce_cells :: "'r auth_env \<Rightarrow> (string \<times> string \<times> int) list \<Rightarrow> string set \<Rightarrow> (string \<Rightarrow> (string \<times> int option) option) \<Rightarrow> bool" where
  "nonce_cells E issued used view \<longleftrightarrow>
     (\<forall>n. view (NONCE_KEY_PREFIX @ n) \<noteq> None \<longrightarrow>
        (\<exists>k t u. (n, k, t) \<in> set issued \<and> view (NONCE_KEY_PREFIX @ n) = nonceCell E k t u \<and> (n \<in> used \<longrightarrow> u)))"

definition nonce_inv :: "'r auth_env \<Rightarrow> 'r auth_sys \<Rightarrow> bool" where
  "nonce_inv E x \<longleftrightarrow> 0 \<le> syNow x
     \<and> distinct (map fst (syIssued x))
     \<and> (\<forall>n k t. (n, k, t) \<in> set (syIssued x) \<longrightarrow> 0 \<le> t \<and> t \<le> syNow x)
     \<and> nonce_cells E (syIssued x) (fst ` set (syLogins x)) (rview E (syState x))
     \<and> distinct (map fst (syLogins x))
     \<and> (\<forall>n k t. (n, k, t) \<in> set (syLogins x) \<longrightarrow> (\<exists>t0. (n, k, t0) \<in> set (syIssued x) \<and> t0 \<le> t \<and> t < t0 + NONCE_EXPIRY_MS))"

lemma nonce_invD:
  assumes "nonce_inv E x"
  shows "0 \<le> syNow x" and "distinct (map fst (syIssued x))" and "distinct (map fst (syLogins x))"
    and "(n, k, t) \<in> set (syIssued x) \<Longrightarrow> 0 \<le> t \<and> t \<le> syNow x"
    and "nonce_cells E (syIssued x) (fst ` set (syLogins x)) (rview E (syState x))"
    and "(n, k, t) \<in> set (syLogins x) \<Longrightarrow> \<exists>t0. (n, k, t0) \<in> set (syIssued x) \<and> t0 \<le> t \<and> t < t0 + NONCE_EXPIRY_MS"
  using assms unfolding nonce_inv_def by blast+

lemma nonce_cell:
  assumes "nonce_cells E issued used view" and "view (NONCE_KEY_PREFIX @ n) = Some c"
  obtains k t u where "(n, k, t) \<in> set issued" and "view (NONCE_KEY_PREFIX @ n) = nonceCell E k t u" and "n \<in> used \<longrightarrow> u"
  using assms unfolding nonce_cells_def by blast

lemma nonce_cells_frame:
  assumes c: "nonce_cells E issued used view"
    and f: "\<And>n. view' (NONCE_KEY_PREFIX @ n) \<noteq> None \<Longrightarrow> view' (NONCE_KEY_PREFIX @ n) = view (NONCE_KEY_PREFIX @ n)"
  shows "nonce_cells E issued used view'"
  unfolding nonce_cells_def
proof (intro allI impI)
  fix n assume n: "view' (NONCE_KEY_PREFIX @ n) \<noteq> None"
  then have e: "view' (NONCE_KEY_PREFIX @ n) = view (NONCE_KEY_PREFIX @ n)" by (rule f)
  with n obtain c where "view (NONCE_KEY_PREFIX @ n) = Some c" by auto
  with \<open>nonce_cells E issued used view\<close> obtain k t u where "(n, k, t) \<in> set issued"
    "view (NONCE_KEY_PREFIX @ n) = nonceCell E k t u" "n \<in> used \<longrightarrow> u"
    by (rule nonce_cell)
  then show "\<exists>k t u. (n, k, t) \<in> set issued \<and> view' (NONCE_KEY_PREFIX @ n) = nonceCell E k t u \<and> (n \<in> used \<longrightarrow> u)"
    unfolding e by blast
qed

lemma nonce_cells_write:
  assumes c: "nonce_cells E issued used view" and sub: "set issued \<subseteq> set issued'"
    and i: "(nonce, k, t) \<in> set issued'" and u: "nonce \<in> used' \<longrightarrow> u" and used: "used' \<subseteq> insert nonce used"
  shows "nonce_cells E issued' used' (view(NONCE_KEY_PREFIX @ nonce := nonceCell E k t u))"
  unfolding nonce_cells_def
proof (intro allI impI)
  fix n assume n: "(view(NONCE_KEY_PREFIX @ nonce := nonceCell E k t u)) (NONCE_KEY_PREFIX @ n) \<noteq> None"
  show "\<exists>k' t' u'. (n, k', t') \<in> set issued'
      \<and> (view(NONCE_KEY_PREFIX @ nonce := nonceCell E k t u)) (NONCE_KEY_PREFIX @ n) = nonceCell E k' t' u' \<and> (n \<in> used' \<longrightarrow> u')"
  proof (cases "n = nonce")
    case True
    then show ?thesis using i u by (intro exI [of _ k] exI [of _ t] exI [of _ u]) simp
  next
    case False
    then obtain x where "view (NONCE_KEY_PREFIX @ n) = Some x" using n by auto
    with c obtain k' t' u' where "(n, k', t') \<in> set issued" "view (NONCE_KEY_PREFIX @ n) = nonceCell E k' t' u'" "n \<in> used \<longrightarrow> u'"
      by (rule nonce_cell)
    then show ?thesis using False sub used by (intro exI [of _ k'] exI [of _ t'] exI [of _ u']) auto
  qed
qed

text \<open>A step that writes no nonce key except to remove it, and logs no login.\<close>

lemma nonce_inv_frame:
  assumes inv: "nonce_inv E x" and i: "syIssued y = syIssued x" and l: "syLogins y = syLogins x" and now: "syNow x \<le> syNow y"
    and cells: "\<And>n. rview E (syState y) (NONCE_KEY_PREFIX @ n) \<noteq> None \<Longrightarrow>
      rview E (syState y) (NONCE_KEY_PREFIX @ n) = rview E (syState x) (NONCE_KEY_PREFIX @ n)"
  shows "nonce_inv E y"
proof -
  have "nonce_cells E (syIssued x) (fst ` set (syLogins x)) (rview E (syState y))"
    by (rule nonce_cells_frame [OF nonce_invD(5) [OF inv] cells])
  moreover have "0 \<le> t \<and> t \<le> syNow y" if "(n, k, t) \<in> set (syIssued x)" for n k t
    using nonce_invD(4) [OF inv that] now by simp
  ultimately show ?thesis
    unfolding nonce_inv_def i l using nonce_invD(1,2,3,6) [OF inv] now by auto
qed

lemma nonce_inv_issue:
  assumes inv: "nonce_inv E x" and fresh: "nonce \<notin> fst ` set (syIssued x)"
    and cells: "rview E st = (rview E (syState x))(NONCE_KEY_PREFIX @ nonce := nonceCell E k (syNow x) False)"
  shows "nonce_inv E (x\<lparr>syState := st, syIssued := (nonce, k, syNow x) # syIssued x\<rparr>)"
proof -
  have nolog: "nonce \<notin> fst ` set (syLogins x)"
    using nonce_invD(6) [OF inv] fresh by force
  have "nonce_cells E ((nonce, k, syNow x) # syIssued x) (fst ` set (syLogins x)) (rview E st)"
    unfolding cells by (rule nonce_cells_write [OF nonce_invD(5) [OF inv]]) (use nolog in auto)
  moreover have "\<exists>t0. (n, k', t0) \<in> set ((nonce, k, syNow x) # syIssued x) \<and> t0 \<le> t \<and> t < t0 + NONCE_EXPIRY_MS"
    if "(n, k', t) \<in> set (syLogins x)" for n k' t
    using nonce_invD(6) [OF inv that] by auto
  moreover have "0 \<le> t \<and> t \<le> syNow x" if "(n, k', t) \<in> set ((nonce, k, syNow x) # syIssued x)" for n k' t
    using that nonce_invD(4) [OF inv] nonce_invD(1) [OF inv] by auto
  ultimately show ?thesis
    unfolding nonce_inv_def using nonce_invD(1,2,3) [OF inv] fresh by simp
qed

lemma nonce_inv_consume:
  assumes inv: "nonce_inv E x" and R: "redis_laws (aeRedis E)" and L: "nonce_json_laws E"
    and run: "consumeNonce E (syNow x) ok nonce publicKey (asRedis (syState x)) = (True, asRedis st)"
    and logins: "l = syLogins x \<or> l = (nonce, publicKey, syNow x) # syLogins x"
  shows "nonce_inv E (x\<lparr>syState := st, syLogins := l\<rparr>)"
proof -
  obtain v e entry where c: "rview E (syState x) (NONCE_KEY_PREFIX @ nonce) = Some (v, e)" and lv: "live (syNow x) (Some (v, e)) = Some v"
    and d: "aeDecode E v = Some entry" "\<not> neUsed entry" "nePublicKey entry = publicKey"
    and s': "rview E st = (rview E (syState x))(NONCE_KEY_PREFIX @ nonce := Some (aeEncode E (entry\<lparr>neUsed := True\<rparr>), e))"
    using consumeNonce_effect [OF R run] by auto
  obtain k t u where i: "(nonce, k, t) \<in> set (syIssued x)" and ce: "rview E (syState x) (NONCE_KEY_PREFIX @ nonce) = nonceCell E k t u"
    and u: "nonce \<in> fst ` set (syLogins x) \<longrightarrow> u"
    using nonce_cell [OF nonce_invD(5) [OF inv] c] .
  have t: "0 \<le> t" "t \<le> syNow x" using nonce_invD(4) [OF inv i] by auto
  have "v = aeEncode E \<lparr>nePublicKey = k, neExpiresAt = t + NONCE_EXPIRY_MS, neUsed = u\<rparr>" and e: "e = Some (t + NONCE_EXPIRY_MS)"
    using ce c by (simp_all add: nonceCell_def)
  then have "aeDecode E v = Some \<lparr>nePublicKey = k, neExpiresAt = t + NONCE_EXPIRY_MS, neUsed = u\<rparr>"
    using L t by (simp add: nonce_json_laws_def NONCE_EXPIRY_MS_def)
  then have entry: "entry = \<lparr>nePublicKey = k, neExpiresAt = t + NONCE_EXPIRY_MS, neUsed = u\<rparr>" using d by simp
  have k: "k = publicKey" and nu: "\<not> u" using d entry by auto
  have now: "syNow x < t + NONCE_EXPIRY_MS" using e lv by (auto simp: live_def split: if_splits)
  have cell: "rview E st = (rview E (syState x))(NONCE_KEY_PREFIX @ nonce := nonceCell E publicKey t True)"
    using s' entry e k by (simp add: nonceCell_def)
  have nolog: "nonce \<notin> fst ` set (syLogins x)" using u nu by blast
  have "nonce_cells E (syIssued x) (fst ` set l) (rview E st)"
    unfolding cell by (rule nonce_cells_write [OF nonce_invD(5) [OF inv]]) (use i k logins in auto)
  moreover have "distinct (map fst l)" using nonce_invD(3) [OF inv] logins nolog by auto
  moreover have "\<exists>t0. (n, k', t0) \<in> set (syIssued x) \<and> t0 \<le> t' \<and> t' < t0 + NONCE_EXPIRY_MS" if "(n, k', t') \<in> set l" for n k' t'
    using logins that nonce_invD(6) [OF inv] i k t now by auto
  ultimately show ?thesis
    unfolding nonce_inv_def using nonce_invD(1,2,4) [OF inv] by simp
qed

lemma nonce_inv_request:
  assumes R: "redis_laws (aeRedis E)" and inv: "nonce_inv E x" and fresh: "nonce \<notin> fst ` set (syIssued x)"
    and run: "requestNonce E (syNow x) ok nonce publicKey (syState x) = (res, st)"
  shows "nonce_inv E (x\<lparr>syState := st,
      syIssued := (case res of Inr _ \<Rightarrow> (nonce, publicKey, syNow x) # syIssued x | Inl _ \<Rightarrow> syIssued x)\<rparr>)"
proof (cases res)
  case (Inl e)
  then have "st = syState x" using requestNonce_effect [OF R run] by auto
  then show ?thesis using Inl by (intro nonce_inv_frame [OF inv]) simp_all
next
  case (Inr p)
  then have "rview E st = (rview E (syState x))(NONCE_KEY_PREFIX @ nonce := nonceCell E publicKey (syNow x) False)"
    using requestNonce_effect [OF R run] by auto
  then show ?thesis unfolding Inr sum.case by (rule nonce_inv_issue [OF inv fresh])
qed

lemma nonce_inv_login:
  assumes R: "redis_laws (aeRedis E)" and L: "nonce_json_laws E" and inv: "nonce_inv E x"
    and run: "authenticateWithWallet E (syNow x) ok dbOk jti jti' familyId publicKey signature nonce (syState x) = (res, st)"
  shows "nonce_inv E (x\<lparr>syState := st,
      syLogins := (case res of Inr _ \<Rightarrow> (nonce, publicKey, syNow x) # syLogins x | Inl _ \<Rightarrow> syLogins x)\<rparr>)"
  using run
proof (cases rule: authenticate_effect)
  case (1 r)
  have c: "consumeNonce E (syNow x) ok nonce publicKey (asRedis (syState x)) = (True, asRedis st)"
    using 1(1) unfolding 1(2) [symmetric] .
  show ?thesis
    by (rule nonce_inv_consume [OF inv R L c]) (cases res; simp)
next
  case (2 e)
  then show ?thesis by (intro nonce_inv_frame [OF inv]) simp_all
qed

lemma nonce_inv_refresh:
  assumes R: "redis_laws (aeRedis E)" and J: "jwt_laws E expiry jtiOf" and inv: "nonce_inv E x"
    and run: "refreshTokens E (syNow x) ok dbOk revokeOk jti jti' token (syState x) = (res, st)"
  shows "nonce_inv E (x\<lparr>syState := st, syRefreshed := l\<rparr>)"
  using J run
proof (cases rule: refreshTokens_effect)
  case (1 p fams)
  then show ?thesis by (intro nonce_inv_frame [OF inv]) (simp_all add: revokeToken_effect(1) [OF R])
next
  case (2 e)
  then show ?thesis by (intro nonce_inv_frame [OF inv]) simp_all
qed

lemma nonce_inv_cleanup:
  assumes R: "redis_laws (aeRedis E)" and inv: "nonce_inv E x"
  shows "nonce_inv E (x\<lparr>syState := (syState x)\<lparr>asRedis := cleanupUsedNonces E (syNow x) keys (asRedis (syState x))\<rparr>\<rparr>)"
proof (rule nonce_inv_frame [OF inv])
  fix n
  assume n: "rview E (syState (x\<lparr>syState := (syState x)\<lparr>asRedis := cleanupUsedNonces E (syNow x) keys (asRedis (syState x))\<rparr>\<rparr>)) (NONCE_KEY_PREFIX @ n) \<noteq> None"
  show "rview E (syState (x\<lparr>syState := (syState x)\<lparr>asRedis := cleanupUsedNonces E (syNow x) keys (asRedis (syState x))\<rparr>\<rparr>)) (NONCE_KEY_PREFIX @ n)
      = rview E (syState x) (NONCE_KEY_PREFIX @ n)"
    using cleanup_effect [OF R, of "syNow x" keys "asRedis (syState x)" "NONCE_KEY_PREFIX @ n"] n by auto
qed simp_all

lemma nonce_inv_step:
  assumes R: "redis_laws (aeRedis E)" and L: "nonce_json_laws E" and J: "jwt_laws E expiry jtiOf"
    and step: "auth_step E lossy x y" and inv: "nonce_inv E x"
  shows "nonce_inv E y"
  using step
proof cases
  case (request_nonce nonce ok publicKey res st)
  show ?thesis unfolding request_nonce(1) by (rule nonce_inv_request [OF R inv request_nonce(2,3)])
next
  case (login ok dbOk jti jti' familyId publicKey signature nonce res st)
  show ?thesis unfolding login(1) by (rule nonce_inv_login [OF R L inv login(2)])
next
  case (refresh revokeOk ok dbOk jti jti' token res st)
  show ?thesis unfolding refresh(1) by (rule nonce_inv_refresh [OF R J inv refresh(3)])
next
  case (log_out ok jti)
  then show ?thesis by (intro nonce_inv_frame [OF inv]) (simp_all add: logout_def revokeToken_effect(1) [OF R])
next
  case (cleanup keys)
  show ?thesis unfolding cleanup(1) by (rule nonce_inv_cleanup [OF R inv])
next
  case (tick d)
  then show ?thesis by (intro nonce_inv_frame [OF inv]) simp_all
qed

lemma nonce_inv_reachable:
  assumes R: "redis_laws (aeRedis E)" and L: "nonce_json_laws E" and J: "jwt_laws E expiry jtiOf"
    and start: "auth_start E x" and run: "(auth_step E lossy)\<^sup>*\<^sup>* x y"
  shows "nonce_inv E y"
  using run
proof induction
  case base
  show ?case using start by (simp add: auth_start_def nonce_inv_def nonce_cells_def)
next
  case (step y z)
  show ?case by (rule nonce_inv_step [OF R L J step.hyps(2) step.IH])
qed

subsection \<open>Refresh tokens rotate once\<close>

definition revoked_until :: "'r auth_env \<Rightarrow> (string \<Rightarrow> int) \<Rightarrow> (string \<Rightarrow> string) \<Rightarrow> 'r auth_state \<Rightarrow> string \<Rightarrow> bool" where
  "revoked_until E expiry jtiOf st token \<longleftrightarrow>
     (if aeUseRedis E then \<exists>v e. rview E st (REVOKED_JTI_PREFIX @ jtiOf token) = Some (v, Some e) \<and> expiry token \<le> e
      else jtiOf token \<in> set (asRevokedLocal st))"

definition refresh_inv :: "'r auth_env \<Rightarrow> (string \<Rightarrow> int) \<Rightarrow> (string \<Rightarrow> string) \<Rightarrow> 'r auth_sys \<Rightarrow> bool" where
  "refresh_inv E expiry jtiOf x \<longleftrightarrow> distinct (syRefreshed x)
     \<and> (\<forall>token\<in>set (syRefreshed x). expiry token \<le> syNow x + refreshTtlMs \<and> revoked_until E expiry jtiOf (syState x) token)"

lemma revoked_until_frame:
  assumes "revoked_until E expiry jtiOf st token"
    and "\<And>j. rview E st' (REVOKED_JTI_PREFIX @ j) = rview E st (REVOKED_JTI_PREFIX @ j)"
    and "asRevokedLocal st' = asRevokedLocal st"
  shows "revoked_until E expiry jtiOf st' token"
  using assms by (simp add: revoked_until_def)

lemma refresh_inv_frame:
  assumes inv: "refresh_inv E expiry jtiOf x" and r: "syRefreshed y = syRefreshed x" and now: "syNow x \<le> syNow y"
    and v: "\<And>j. rview E (syState y) (REVOKED_JTI_PREFIX @ j) = rview E (syState x) (REVOKED_JTI_PREFIX @ j)"
    and l: "asRevokedLocal (syState y) = asRevokedLocal (syState x)"
  shows "refresh_inv E expiry jtiOf y"
  unfolding refresh_inv_def r
proof (intro conjI ballI)
  show "distinct (syRefreshed x)" using inv by (simp add: refresh_inv_def)
next
  fix token assume t: "token \<in> set (syRefreshed x)"
  then show "expiry token \<le> syNow y + refreshTtlMs" using inv now by (auto simp: refresh_inv_def)
  show "revoked_until E expiry jtiOf (syState y) token"
    using t inv by (intro revoked_until_frame [OF _ v l]) (simp add: refresh_inv_def)
qed

lemma revoke_keeps:
  assumes R: "redis_laws (aeRedis E)" and c: "revoked_until E expiry jtiOf st token" and b: "expiry token \<le> now + refreshTtlMs"
    and fams: "rview E st' = rview E st" "asRevokedLocal st' = asRevokedLocal st"
  shows "revoked_until E expiry jtiOf (revokeToken E now ok jti st') token"
  using c b fams by (cases "jtiOf token = jti") (auto simp: revoked_until_def revokeToken_effect [OF R])

lemma revoke_covers:
  assumes R: "redis_laws (aeRedis E)" and b: "expiry token \<le> now + refreshTtlMs"
  shows "revoked_until E expiry jtiOf (revokeToken E now True (jtiOf token) st) token"
  using b by (simp add: revoked_until_def revokeToken_effect [OF R])

lemma revoked_until_isRevoked:
  assumes R: "redis_laws (aeRedis E)" and c: "revoked_until E expiry jtiOf st token" and now: "now < expiry token"
  shows "isRevoked E now ok (jtiOf token) st"
proof (cases "aeUseRedis E")
  case True
  then obtain v e where "rview E st (REVOKED_JTI_PREFIX @ jtiOf token) = Some (v, Some e)" "expiry token \<le> e"
    using c by (auto simp: revoked_until_def)
  then show ?thesis using True now by (simp add: isRevoked_def redis_lawsD(1) [OF R] live_def)
next
  case False
  then show ?thesis using c by (simp add: isRevoked_def revoked_until_def)
qed

lemma refresh_inv_step:
  assumes R: "redis_laws (aeRedis E)" and J: "jwt_laws E expiry jtiOf"
    and step: "auth_step E False x y" and inv: "refresh_inv E expiry jtiOf x"
  shows "refresh_inv E expiry jtiOf y"
  using step
proof cases
  case (request_nonce nonce ok publicKey res st)
  show ?thesis
    using requestNonce_effect [OF R request_nonce(3)] unfolding request_nonce(1)
    by (intro refresh_inv_frame [OF inv]) auto
next
  case (login ok dbOk jti jti' familyId publicKey signature nonce res st)
  show ?thesis
    using login(2)
  proof (cases rule: authenticate_effect)
    case (1 r)
    then show ?thesis using consumeNonce_effect [OF R 1(1)] unfolding login(1)
      by (intro refresh_inv_frame [OF inv]) auto
  next
    case (2 e)
    then show ?thesis unfolding login(1) by (intro refresh_inv_frame [OF inv]) simp_all
  qed
next
  case (refresh revokeOk ok dbOk jti jti' token res st)
  show ?thesis
    using J refresh(3)
  proof (cases rule: refreshTokens_effect)
    case (1 p fams)
    have new: "token \<notin> set (syRefreshed x)"
      using inv revoked_until_isRevoked [OF R, where token = token and expiry = expiry and jtiOf = jtiOf
          and st = "syState x" and now = "syNow x" and ok = ok] 1(3,4)
      by (auto simp: refresh_inv_def)
    have old: "revoked_until E expiry jtiOf st t" if "t \<in> set (syRefreshed x)" for t
      unfolding 1(2) using inv that by (intro revoke_keeps [OF R]) (auto simp: refresh_inv_def)
    have "revoked_until E expiry jtiOf st token"
      using revoke_covers [OF R, where token = token and expiry = expiry and now = "syNow x"] 1(5) refresh(2) 1(2) by simp
    then show ?thesis
      using inv new old 1(1,5) unfolding refresh(1) by (simp add: refresh_inv_def)
  next
    case (2 e)
    then show ?thesis unfolding refresh(1) by (intro refresh_inv_frame [OF inv]) simp_all
  qed
next
  case (log_out ok jti)
  have "revoked_until E expiry jtiOf (logout E (syNow x) ok jti (syState x)) t" if "t \<in> set (syRefreshed x)" for t
    unfolding logout_def using inv that by (intro revoke_keeps [OF R]) (auto simp: refresh_inv_def)
  then show ?thesis using inv unfolding log_out(1) by (simp add: refresh_inv_def)
next
  case (cleanup keys)
  have "rview E (syState y) (REVOKED_JTI_PREFIX @ j) = rview E (syState x) (REVOKED_JTI_PREFIX @ j)" for j
    using cleanup_effect [OF R, of "syNow x" keys "asRedis (syState x)" "REVOKED_JTI_PREFIX @ j"] cleanup(2)
    unfolding cleanup(1) by auto
  then show ?thesis by (intro refresh_inv_frame [OF inv]) (simp_all add: cleanup(1))
next
  case (tick d)
  then show ?thesis by (intro refresh_inv_frame [OF inv]) simp_all
qed

lemma refresh_inv_reachable:
  assumes R: "redis_laws (aeRedis E)" and J: "jwt_laws E expiry jtiOf"
    and start: "auth_start E x" and run: "(auth_step E False)\<^sup>*\<^sup>* x y"
  shows "refresh_inv E expiry jtiOf y"
  using run
proof induction
  case base
  show ?case using start by (simp add: auth_start_def refresh_inv_def)
next
  case (step y z)
  show ?case by (rule refresh_inv_step [OF R J step.hyps(2) step.IH])
qed

subsection \<open>An instance of the parameters\<close>

text \<open>
  A nonce entry as a flag, the length of the key in unary, the key and the expiry; a token as its
  secret, its time of issue in unary and its \<open>jti\<close>.
\<close>

definition demo_encode :: "nonce_entry \<Rightarrow> string" where
  "demo_encode e = (if neUsed e then CHR ''u'' else CHR ''f'') # replicate (length (nePublicKey e)) (CHR ''x'') @ CHR ''.'' #
     nePublicKey e @ show_int (neExpiresAt e)"

definition demo_decode :: "string \<Rightarrow> nonce_entry option" where
  "demo_decode s = (case s of [] \<Rightarrow> None | c # rest \<Rightarrow>
     (let l = length (takeWhile (\<lambda>x. x = CHR ''x'') rest); body = drop (Suc l) rest
      in case parse_int10 (drop l body) of None \<Rightarrow> None
         | Some e \<Rightarrow> Some \<lparr>nePublicKey = take l body, neExpiresAt = e, neUsed = (c = CHR ''u'')\<rparr>))"

lemma takeWhile_unary: "takeWhile (\<lambda>x. x = c) (replicate n c @ d # r) = (if d = c then replicate n c @ c # takeWhile (\<lambda>x. x = c) r else replicate n c)"
  by (induction n) auto

lemma demo_decode_encode: "0 \<le> neExpiresAt e \<Longrightarrow> demo_decode (demo_encode e) = Some e"
  by (simp add: demo_decode_def demo_encode_def takeWhile_unary parse_show_int)

definition demo_iat :: "string \<Rightarrow> int" where
  "demo_iat token = int (length (takeWhile (\<lambda>x. x = CHR ''x'') (drop 1 token)))"

definition demo_jti :: "string \<Rightarrow> string" where
  "demo_jti token = drop (nat (demo_iat token) + 2) token"

definition demo_sign :: "string \<Rightarrow> jwt_payload \<Rightarrow> string \<Rightarrow> int \<Rightarrow> string" where
  "demo_sign secret payload e now = secret @ replicate (nat now) (CHR ''x'') @ CHR ''.'' # the (jpJti payload)"

definition demo_verify :: "string \<Rightarrow> int \<Rightarrow> string \<Rightarrow> (string, jwt_payload) res" where
  "demo_verify secret now token =
     (if take 1 token = secret \<and> demo_iat token \<le> now \<and> now < demo_iat token + refreshTtlMs \<and> demo_jti token \<noteq> [] then
        Inr \<lparr>jpSub = ''W'', jpWalletAddress = ''W'', jpType = (if secret = ''r'' then ''refresh'' else ''access''), jpJti = Some (demo_jti token)\<rparr>
      else Inl ''jwt expired'')"

definition auth_demo :: "(string \<Rightarrow> (string \<times> int option) option) auth_env" where
  "auth_demo = \<lparr>aeRedis = mem_redis, aeSign = demo_sign, aeVerify = demo_verify, aeAccessSecret = ''a'', aeRefreshSecret = ''r'',
     aeUseRedis = True, aeKeyOk = (\<lambda>k. k = ''W''), aeEdVerify = (\<lambda>k m s. Inr (s = ''signed'')),
     aeParseExpiryToSeconds = (\<lambda>s. 900), aeEncode = demo_encode, aeDecode = demo_decode\<rparr>"

lemma auth_demo_laws: "redis_laws (aeRedis auth_demo)" "nonce_json_laws auth_demo" "jwt_laws auth_demo (\<lambda>t. demo_iat t + refreshTtlMs) demo_jti"
  by (auto simp: auth_demo_def mem_redis_laws nonce_json_laws_def demo_decode_encode jwt_laws_def demo_verify_def split: if_splits)

definition demo_sys :: "(string \<Rightarrow> (string \<times> int option) option) auth_sys" where
  "demo_sys = \<lparr>syState = \<lparr>asRedis = (\<lambda>_. None), asRevokedLocal = [], asFamilies = []\<rparr>, syNow = 0, syIssued = [], syLogins = [], syRefreshed = []\<rparr>"

lemma demo_start: "auth_start auth_demo demo_sys"
  by (simp add: auth_start_def demo_sys_def auth_demo_def mem_redis_def)

text \<open>A nonce, a login one second later, and a refresh.\<close>

definition demo_issued :: "(string \<Rightarrow> (string \<times> int option) option) auth_sys" where
  "demo_issued = demo_sys\<lparr>syState := snd (requestNonce auth_demo 0 True ''n'' ''W'' (syState demo_sys)), syIssued := [(''n'', ''W'', 0)]\<rparr>"

definition demo_logged_in :: "(string \<Rightarrow> (string \<times> int option) option) auth_sys" where
  "demo_logged_in = demo_issued\<lparr>syNow := 1,
     syState := snd (authenticateWithWallet auth_demo 1 True True ''j1'' ''j2'' ''fam'' ''W'' ''signed'' ''n'' (syState demo_issued)),
     syLogins := [(''n'', ''W'', 1)]\<rparr>"

definition demo_refreshed :: "(string \<Rightarrow> (string \<times> int option) option) auth_sys" where
  "demo_refreshed = demo_logged_in\<lparr>
     syState := snd (refreshTokens auth_demo 1 True True True ''j3'' ''j4'' ''rx.j2'' (syState demo_logged_in)), syRefreshed := [''rx.j2'']\<rparr>"

lemmas demo_defs = demo_sys_def auth_demo_def mem_redis_def demo_sign_def demo_verify_def demo_iat_def demo_jti_def
  Let_def requestNonce_def generateNonce_def isValidPublicKey_def NONCE_EXPIRY_MS_def NONCE_TTL_SECONDS_def

lemma demo_issued_ok: "\<exists>y. requestNonce auth_demo 0 True ''n'' ''W'' (syState demo_sys) = (Inr y, syState demo_issued)"
  by (simp add: demo_issued_def demo_defs)

lemma demo_issued_view: "rview auth_demo (syState demo_issued) = [NONCE_KEY_PREFIX @ ''n'' \<mapsto> (demo_encode \<lparr>nePublicKey = ''W'', neExpiresAt = 300000, neUsed = False\<rparr>, Some 300000)]"
    "asRevokedLocal (syState demo_issued) = []" "asFamilies (syState demo_issued) = []"
  by (simp_all add: demo_issued_def demo_defs)

lemma demo_logged_in_ok:
  "\<exists>y. authenticateWithWallet auth_demo 1 True True ''j1'' ''j2'' ''fam'' ''W'' ''signed'' ''n'' (syState demo_issued) = (Inr y, syState demo_logged_in)"
proof -
  have "fst (consumeNonce auth_demo 1 True ''n'' ''W'' (asRedis (syState demo_issued)))"
    using demo_issued_view(1) demo_decode_encode
    by (simp add: consumeNonce_def CONSUME_NONCE_SCRIPT_def auth_demo_def mem_redis_def live_def)
  then show ?thesis
    by (auto simp: demo_logged_in_def authenticateWithWallet_def verifySignature_def auth_demo_def isValidPublicKey_def Let_def
        split: prod.splits)
qed

lemma demo_logged_in_view:
  "rview auth_demo (syState demo_logged_in) (REVOKED_JTI_PREFIX @ j) = None"
proof -
  obtain y where "authenticateWithWallet auth_demo 1 True True ''j1'' ''j2'' ''fam'' ''W'' ''signed'' ''n'' (syState demo_issued) = (Inr y, syState demo_logged_in)"
    using demo_logged_in_ok by blast
  then obtain r where r: "consumeNonce auth_demo 1 True ''n'' ''W'' (asRedis (syState demo_issued)) = (True, r)" "asRedis (syState demo_logged_in) = r"
    by (cases rule: authenticate_effect) auto
  then have "rview auth_demo (syState demo_logged_in) (REVOKED_JTI_PREFIX @ j) = rview auth_demo (syState demo_issued) (REVOKED_JTI_PREFIX @ j)"
    using consumeNonce_effect [OF auth_demo_laws(1) r(1)] by auto
  then show ?thesis by (simp add: demo_issued_view)
qed

lemma demo_refreshed_ok:
  "\<exists>y. refreshTokens auth_demo 1 True True True ''j3'' ''j4'' ''rx.j2'' (syState demo_logged_in) = (Inr y, syState demo_refreshed)"
proof -
  have "asFamilies (syState demo_logged_in) = [\<lparr>frFamilyId = ''fam'', frToken = ''rx.j2'', frUsed = False, frExpiresAt = 1 + refreshTtlMs\<rparr>]"
    using demo_logged_in_ok demo_issued_view(3)
    by (auto simp: demo_logged_in_def authenticateWithWallet_def Let_def createTokenFamily_def createRow_def findToken_def generateTokenPair_def auth_demo_def demo_sign_def
        split: prod.splits if_splits)
  moreover have "\<exists>p. verifyRefreshToken auth_demo 1 True ''rx.j2'' (syState demo_logged_in) = Inr p"
    using demo_logged_in_view [of "''j2''"]
    by (simp add: verifyRefreshToken_def verifyToken_def isRevoked_def auth_demo_def demo_verify_def demo_iat_def demo_jti_def mem_redis_def refreshTtlMs_def)
  ultimately show ?thesis
    by (auto simp: demo_refreshed_def refreshTokens_def Let_def rotate_branches findToken_def generateTokenPair_def auth_demo_def demo_sign_def
        split: prod.splits)
qed

lemma demo_run: "(auth_step auth_demo False)\<^sup>*\<^sup>* demo_sys demo_refreshed"
proof -
  obtain y where "requestNonce auth_demo 0 True ''n'' ''W'' (syState demo_sys) = (Inr y, syState demo_issued)"
    using demo_issued_ok by blast
  then have "auth_step auth_demo False demo_sys demo_issued"
    using request_nonce [of "''n''" demo_sys auth_demo True "''W''" "Inr y" "syState demo_issued" False]
    by (simp add: demo_sys_def demo_issued_def)
  moreover have "auth_step auth_demo False demo_issued (demo_issued\<lparr>syNow := 1\<rparr>)"
    using tick [of 1 auth_demo False demo_issued] by (simp add: demo_issued_def demo_sys_def)
  moreover obtain z where "authenticateWithWallet auth_demo 1 True True ''j1'' ''j2'' ''fam'' ''W'' ''signed'' ''n'' (syState demo_issued) = (Inr z, syState demo_logged_in)"
    using demo_logged_in_ok by blast
  then have "auth_step auth_demo False (demo_issued\<lparr>syNow := 1\<rparr>) demo_logged_in"
    using login [of auth_demo "demo_issued\<lparr>syNow := 1\<rparr>" True True "''j1''" "''j2''" "''fam''" "''W''" "''signed''" "''n''" "Inr z" "syState demo_logged_in" False]
    by (simp add: demo_logged_in_def demo_issued_def demo_sys_def)
  moreover obtain w where "refreshTokens auth_demo 1 True True True ''j3'' ''j4'' ''rx.j2'' (syState demo_logged_in) = (Inr w, syState demo_refreshed)"
    using demo_refreshed_ok by blast
  then have "auth_step auth_demo False demo_logged_in demo_refreshed"
    using refresh [of False True auth_demo demo_logged_in True True "''j3''" "''j4''" "''rx.j2''" "Inr w" "syState demo_refreshed"]
    by (simp add: demo_refreshed_def demo_logged_in_def demo_issued_def demo_sys_def)
  ultimately show ?thesis by (meson converse_rtranclp_into_rtranclp rtranclp.rtrancl_refl)
qed

section \<open>Properties\<close>

text \<open>C19: In every run of the service (nonce requests, logins, refreshes, logouts, the cleanup of used
  nonces and the passing of time, with Redis and the database failing at will), each nonce logs in at
  most once, only the key it was issued to, and only within its five minutes.\<close>

theorem nonce_single_use:
  assumes "redis_laws (aeRedis E)" and "nonce_json_laws E" and "jwt_laws E expiry jtiOf"
    and "auth_start E x" and "(auth_step E lossy)\<^sup>*\<^sup>* x y"
  shows "distinct (map fst (syLogins y)) \<and> (\<forall>n k t. (n, k, t) \<in> set (syLogins y) \<longrightarrow>
      (\<exists>t0. (n, k, t0) \<in> set (syIssued y) \<and> t0 \<le> t \<and> t < t0 + NONCE_EXPIRY_MS))"
  using nonce_invD(3,6) [OF nonce_inv_reachable [OF assms]] by blast

theorem nonce_single_use_witness:
  "distinct (map fst (syLogins demo_refreshed)) \<and> (\<exists>t0. (''n'', ''W'', t0) \<in> set (syIssued demo_refreshed) \<and> t0 \<le> 1 \<and> 1 < t0 + NONCE_EXPIRY_MS)"
proof -
  have "(''n'', ''W'', 1) \<in> set (syLogins demo_refreshed)" by (simp add: demo_refreshed_def demo_logged_in_def)
  with nonce_single_use [OF auth_demo_laws demo_start demo_run] show ?thesis by blast
qed



text \<open>A rotation of a refresh token succeeds exactly when the token is in the table and unused and the
  next token is new: it marks the token and adds the next one to its family. Each failure has its
  error and leaves the table unchanged.\<close>

theorem rotateTokenFamily_branches:
  assumes "distinct (map frToken rows)"
  shows "rotateTokenFamily token nextToken e rows =
    (case findToken token rows of
       None \<Rightarrow> (Inl (INVALID_TOKEN ''Refresh token not found''), rows)
     | Some r \<Rightarrow>
         if frUsed r then (Inl (REUSE_DETECTED ''Refresh token reuse detected -- entire family invalidated''), rows)
         else if findToken nextToken rows \<noteq> None then (Inl (DbError ''Unique constraint failed''), rows)
         else (Inr (frFamilyId r),
               markUsed token rows @ [\<lparr>frFamilyId = frFamilyId r, frToken = nextToken, frUsed = False, frExpiresAt = e\<rparr>]))"
  by (rule rotate_branches [OF assms])

theorem rotateTokenFamily_branches_witness:
  "rotateTokenFamily ''a'' ''b'' 9 [\<lparr>frFamilyId = ''f'', frToken = ''a'', frUsed = False, frExpiresAt = 5\<rparr>] =
     (Inr ''f'', [\<lparr>frFamilyId = ''f'', frToken = ''a'', frUsed = True, frExpiresAt = 5\<rparr>,
       \<lparr>frFamilyId = ''f'', frToken = ''b'', frUsed = False, frExpiresAt = 9\<rparr>])"
  by (subst rotateTokenFamily_branches) (simp_all add: findToken_def markUsed_def)

text \<open>A wallet that requests a nonce, signs its message and presents it within five minutes, with no
  other use of that nonce in between, is logged in.\<close>

theorem fresh_nonce_logs_in:
  assumes R: "redis_laws (aeRedis E)" and L: "nonce_json_laws E" and "0 \<le> now"
    and req: "requestNonce E now True nonce publicKey st = (Inr response, st1)"
    and later: "now' < now + NONCE_EXPIRY_MS"
    and sig: "aeEdVerify E publicKey (nrMessage response) signature = Inr True"
  shows "fst (authenticateWithWallet E now' True dbOk jti jti' familyId publicKey signature nonce st1) = Inr (generateTokenPair E now' jti jti' publicKey)"
proof -
  let ?entry = "\<lparr>nePublicKey = publicKey, neExpiresAt = now + NONCE_EXPIRY_MS, neUsed = False\<rparr>"
  have key: "aeKeyOk E publicKey" and msg: "nrMessage response = buildSignMessage nonce"
    using req by (auto simp: requestNonce_def isValidPublicKey_def generateNonce_def buildSignMessage_def Let_def split: if_splits)
  have "rview E st1 (NONCE_KEY_PREFIX @ nonce) = nonceCell E publicKey now False"
    using requestNonce_effect [OF R req] by auto
  then have "rGet (aeRedis E) now' (NONCE_KEY_PREFIX @ nonce) (asRedis st1) = Some (aeEncode E ?entry)"
    using later by (simp add: redis_lawsD(1) [OF R] nonceCell_def live_def)
  moreover have "aeDecode E (aeEncode E ?entry) = Some ?entry"
    using L \<open>0 \<le> now\<close> by (simp add: nonce_json_laws_def NONCE_EXPIRY_MS_def)
  ultimately have "fst (consumeNonce E now' True nonce publicKey (asRedis st1))"
    by (simp add: consumeNonce_def CONSUME_NONCE_SCRIPT_def)
  moreover have "verifySignature E publicKey signature nonce"
    using key sig msg by (simp add: verifySignature_def)
  ultimately show ?thesis
    using key by (cases "consumeNonce E now' True nonce publicKey (asRedis st1)")
      (simp add: authenticateWithWallet_def isValidPublicKey_def Let_def)
qed

theorem fresh_nonce_logs_in_witness:
  "\<exists>st1. fst (authenticateWithWallet auth_demo 299999 True True ''j1'' ''j2'' ''fam'' ''W'' ''signed'' ''n'' st1)
     = Inr (generateTokenPair auth_demo 299999 ''j1'' ''j2'' ''W'')"
proof -
  obtain y where "requestNonce auth_demo 0 True ''n'' ''W'' (syState demo_sys) = (Inr y, syState demo_issued)"
    using demo_issued_ok by blast
  then have "fst (authenticateWithWallet auth_demo 299999 True True ''j1'' ''j2'' ''fam'' ''W'' ''signed'' ''n'' (syState demo_issued))
     = Inr (generateTokenPair auth_demo 299999 ''j1'' ''j2'' ''W'')"
    by (rule fresh_nonce_logs_in [OF auth_demo_laws(1,2) order_refl]) (simp_all add: NONCE_EXPIRY_MS_def auth_demo_def)
  then show ?thesis by blast
qed

text \<open>
  When the family table is down, the exchange goes on and only the revocation protects the token. When
  Redis fails on the revocation, the token is put into the local set, which \<open>isRevoked\<close> does not read
  while Redis is configured: the same token verifies again.
\<close>

lemma lost_revocation_is_not_honored:
  assumes "aeUseRedis E"
  shows "isRevoked E t ok j (revokeToken E now False jti st) = isRevoked E t ok j st"
  using assms by (simp add: isRevoked_def revokeToken_def)

lemma refresh_fails_open:
  assumes "verifyRefreshToken E now ok token st = Inr payload"
  shows "fst (refreshTokens E now ok False revokeOk jti jti' token st) = Inr (generateTokenPair E now jti jti' (jpWalletAddress payload))"
  using assms by (simp add: refreshTokens_def Let_def)

end
