(* ===== verification/Json_Text.thy ===== *)
theory Json_Text
  imports JS_Value
begin

text \<open>
  \<open>JSON.parse\<close>, for the code that reads back what it wrote with \<open>JSON.stringify\<close>. A number with a fraction or an exponent and
  a character beyond 255 have no model value; a text that contains one is treated as malformed.
\<close>

section \<open>The parser\<close>

definition json_space :: "char \<Rightarrow> bool" where
  "json_space c \<longleftrightarrow> (of_char c :: nat) \<in> {9, 10, 13, 32}"

definition skip_space :: "string \<Rightarrow> string" where
  "skip_space s = dropWhile json_space s"

definition hex_value :: "char \<Rightarrow> nat option" where
  "hex_value c =
     (let n = (of_char c :: nat)
      in if 48 \<le> n \<and> n \<le> 57 then Some (n - 48) else if 97 \<le> n \<and> n \<le> 102 then Some (n - 87)
         else if 65 \<le> n \<and> n \<le> 70 then Some (n - 55) else None)"

text \<open>An escape after its backslash (34 is the quote, 92 the backslash, 47 the slash).\<close>

definition simple_escape :: "char \<Rightarrow> char option" where
  "simple_escape c =
     (let n = (of_char c :: nat)
      in if n = 34 \<or> n = 92 \<or> n = 47 then Some c else if c = CHR ''b'' then Some (char_of (8 :: nat))
         else if c = CHR ''t'' then Some (char_of (9 :: nat)) else if c = CHR ''n'' then Some (char_of (10 :: nat))
         else if c = CHR ''f'' then Some (char_of (12 :: nat)) else if c = CHR ''r'' then Some (char_of (13 :: nat)) else None)"

definition unicode_escape :: "char \<Rightarrow> char \<Rightarrow> char \<Rightarrow> char \<Rightarrow> char option" where
  "unicode_escape a b c d =
     (case (hex_value a, hex_value b, hex_value c, hex_value d) of
        (Some i, Some j, Some k, Some l) \<Rightarrow> if i = 0 \<and> j = 0 then Some (char_of (16 * k + l)) else None
      | _ \<Rightarrow> None)"

text \<open>A string after its opening quote.\<close>

fun parse_string :: "string \<Rightarrow> (string \<times> string) option" where
  "parse_string [] = None"
| "parse_string (c # cs) =
     (let n = (of_char c :: nat)
      in if n = 34 then Some ([], cs)
         else if n = 92 then
           (case cs of
              [] \<Rightarrow> None
            | e # es \<Rightarrow>
                (case simple_escape e of
                   Some x \<Rightarrow> map_option (\<lambda>(t, r). (x # t, r)) (parse_string es)
                 | None \<Rightarrow>
                     if e = CHR ''u'' then
                       (case es of
                          h1 # h2 # h3 # h4 # rest \<Rightarrow>
                            (case unicode_escape h1 h2 h3 h4 of
                               Some x \<Rightarrow> map_option (\<lambda>(t, r). (x # t, r)) (parse_string rest)
                             | None \<Rightarrow> None)
                        | _ \<Rightarrow> None)
                     else None))
         else if n < 32 then None
         else map_option (\<lambda>(t, r). (c # t, r)) (parse_string cs))"

definition parse_number :: "string \<Rightarrow> (int \<times> string) option" where
  "parse_number s =
     (let negative = (s \<noteq> [] \<and> hd s = CHR ''-'');
          body = (if negative then tl s else s);
          ds = takeWhile is_digit body;
          rest = dropWhile is_digit body
      in if ds = [] \<or> (hd ds = CHR ''0'' \<and> tl ds \<noteq> []) \<or> (rest \<noteq> [] \<and> hd rest \<in> set ''.eE'') then None
         else Some (if negative then - int (digits_val ds) else int (digits_val ds), rest))"

lemma skip_space_length: "length (skip_space s) \<le> length s"
  by (simp add: skip_space_def length_dropWhile_le)

lemma skip_space_shorter: "skip_space s = c # cs \<Longrightarrow> length cs < length s"
  using skip_space_length [of s] by simp

text \<open>The elements and members are those after an opening bracket. The comparisons of lengths always hold: every
  part of a text that is read is longer than nothing.\<close>

function parse_value :: "string \<Rightarrow> (jsval \<times> string) option"
  and parse_elements :: "string \<Rightarrow> (jsval list \<times> string) option"
  and parse_members :: "string \<Rightarrow> ((string \<times> jsval) list \<times> string) option" where
  "parse_value s =
     (case skip_space s of
        [] \<Rightarrow> None
      | c # cs \<Rightarrow>
          let n = (of_char c :: nat)
          in if n = 123 then
               (if skip_space cs \<noteq> [] \<and> (of_char (hd (skip_space cs)) :: nat) = 125 then Some (JObj [], tl (skip_space cs))
                else map_option (\<lambda>(m, r). (JObj (foldl (\<lambda>m (k, v). jm_set m k v) [] m), r)) (parse_members cs))
             else if n = 91 then
               (if skip_space cs \<noteq> [] \<and> (of_char (hd (skip_space cs)) :: nat) = 93 then Some (JArr [], tl (skip_space cs))
                else map_option (\<lambda>(vs, r). (JArr vs, r)) (parse_elements cs))
             else if n = 34 then map_option (\<lambda>(t, r). (JStr t, r)) (parse_string cs)
             else if starts_with (c # cs) ''true'' then Some (JBool True, drop 3 cs)
             else if starts_with (c # cs) ''false'' then Some (JBool False, drop 4 cs)
             else if starts_with (c # cs) ''null'' then Some (JNull, drop 3 cs)
             else map_option (\<lambda>(i, r). (JNum i, r)) (parse_number (c # cs)))"
| "parse_elements s =
     (case parse_value s of
        None \<Rightarrow> None
      | Some (v, r) \<Rightarrow>
          (case skip_space r of
             [] \<Rightarrow> None
           | d # ds \<Rightarrow>
               if (of_char d :: nat) = 93 then Some ([v], ds)
               else if d = CHR '','' \<and> length ds < length s then map_option (\<lambda>(vs, r). (v # vs, r)) (parse_elements ds)
               else None))"
| "parse_members s =
     (case skip_space s of
        [] \<Rightarrow> None
      | c # cs \<Rightarrow>
          if (of_char c :: nat) \<noteq> 34 then None
          else
            (case parse_string cs of
               None \<Rightarrow> None
             | Some (k, r) \<Rightarrow>
                 (case skip_space r of
                    [] \<Rightarrow> None
                  | d # ds \<Rightarrow>
                      if d \<noteq> CHR '':'' \<or> \<not> length ds < length s then None
                      else
                        (case parse_value ds of
                           None \<Rightarrow> None
                         | Some (v, r2) \<Rightarrow>
                             (case skip_space r2 of
                                [] \<Rightarrow> None
                              | e # es \<Rightarrow>
                                  if (of_char e :: nat) = 125 then Some ([(k, v)], es)
                                  else if e = CHR '','' \<and> length es < length s
                                       then map_option (\<lambda>(m, r). ((k, v) # m, r)) (parse_members es)
                                  else None)))))"
  by pat_completeness auto

termination
  by (relation "measure (\<lambda>x. case x of Inl s \<Rightarrow> 2 * length s | Inr (Inl s) \<Rightarrow> 2 * length s + 1 | Inr (Inr s) \<Rightarrow> 2 * length s + 1)")
     (auto dest!: skip_space_shorter)

declare parse_value.simps [simp del] parse_elements.simps [simp del] parse_members.simps [simp del]

definition json_parse :: "string \<Rightarrow> jsval option" where
  "json_parse s = (case parse_value s of Some (v, r) \<Rightarrow> if skip_space r = [] then Some v else None | None \<Rightarrow> None)"

section \<open>What is written can be read back\<close>

lemma hex_value_char [simp]: "d < 16 \<Longrightarrow> hex_value (hex_char d) = Some d"
  by (auto simp: hex_value_def hex_char_def)

lemma char_of_quote: "char_of (34 :: nat) = CHR 0x22" "char_of (92 :: nat) = CHR 0x5C"
  by code_simp+

lemma parse_string_escape:
  "parse_string (json_escape_char c @ t) = map_option (\<lambda>(u, r). (c # u, r)) (parse_string t)"
proof -
  define n where "n = (of_char c :: nat)"
  have c: "c = char_of n" by (simp add: n_def)
  have n: "n < 256" by (simp add: n_def)
  consider "n = 34" | "n = 92" | "n \<in> {8, 9, 10, 12, 13}" | "n < 32" "n \<notin> {8, 9, 10, 12, 13}" | "32 \<le> n" "n \<noteq> 34" "n \<noteq> 92" by force
  then show ?thesis
  proof cases
    case 4
    have "n div 16 * 16 + n mod 16 = n" by simp
    then have "char_of (16 * (n div 16) + n mod 16) = c" by (simp add: c mult.commute)
    moreover have "n div 16 < 16" "n mod 16 < 16" using n by auto
    moreover have "hex_value CHR ''0'' = Some 0" by (simp add: hex_value_def)
    ultimately show ?thesis
      using 4 by (simp add: json_escape_char_def n_def [symmetric] Let_def simple_escape_def unicode_escape_def)
  qed (use n in \<open>auto simp: json_escape_char_def n_def [symmetric] Let_def simple_escape_def c char_of_quote\<close>)
qed

lemma parse_string_quote: "parse_string (concat (map json_escape_char s) @ CHR 0x22 # rest) = Some (s, rest)"
  by (induction s) (simp_all add: parse_string_escape)

lemma show_nat_zero: "hd (show_nat n) = CHR ''0'' \<longleftrightarrow> n = 0"
proof (induction n rule: show_nat.induct)
  case (1 n)
  show ?case
  proof (cases "n < 10")
    case True
    have "digit_char n = CHR ''0'' \<longleftrightarrow> (of_char (digit_char n) :: nat) = of_char CHR ''0''" by (simp only: of_char_eq_iff)
    then have "digit_char n = CHR ''0'' \<longleftrightarrow> n = 0" using of_char_digit [OF True] by simp
    then show ?thesis using True by (simp add: show_nat.simps [of n])
  next
    case False
    then show ?thesis using 1 by (simp add: show_nat.simps [of n] hd_append)
  qed
qed

definition ends_number :: "string \<Rightarrow> bool" where
  "ends_number rest \<longleftrightarrow> rest = [] \<or> (\<not> is_digit (hd rest) \<and> hd rest \<notin> set ''.eE'')"

lemma parse_number_show_int:
  assumes "ends_number rest"
  shows "parse_number (show_int i @ rest) = Some (i, rest)"
proof -
  have split: "takeWhile is_digit (show_nat n @ rest) = show_nat n" "dropWhile is_digit (show_nat n @ rest) = rest" for n
  proof -
    have all: "\<forall>x\<in>set (show_nat n). is_digit x" using show_nat_digits by blast
    have "takeWhile is_digit rest = []" "dropWhile is_digit rest = rest" using assms by (cases rest; simp add: ends_number_def)+
    with all show "takeWhile is_digit (show_nat n @ rest) = show_nat n" "dropWhile is_digit (show_nat n @ rest) = rest"
      by (simp_all add: takeWhile_append dropWhile_append)
  qed
  have digits: "takeWhile is_digit (show_nat n) = show_nat n" "dropWhile is_digit (show_nat n) = []" for n
    using show_nat_digits [of _ n] by (simp_all add: takeWhile_eq_all_conv dropWhile_eq_Nil_conv)
  have lead: "hd (show_nat n) = CHR ''0'' \<Longrightarrow> tl (show_nat n) = []" for n
    using show_nat_zero [of n] by (simp add: show_nat.simps [of 0])
  have first: "hd (show_nat n @ rest) \<noteq> CHR ''-''" for n
    using show_nat_digits [of "hd (show_nat n)" n] is_digit_not_sign by (cases "show_nat n") auto
  show ?thesis
    using assms lead first unfolding parse_number_def show_int_def Let_def
    by (auto simp: split digits ends_number_def dest: show_nat_digits)
qed

text \<open>The values that JSON can carry: \<open>undefined\<close> nowhere, and the keys of an object distinct.\<close>

fun json_value :: "jsval \<Rightarrow> bool" where
  "json_value JUndef = False"
| "json_value (JArr vs) = list_all json_value vs"
| "json_value (JObj m) = (distinct (map fst m) \<and> list_all (\<lambda>(k, v). json_value v) m)"
| "json_value _ = True"

lemma json_value_text:
  "json_value v \<Longrightarrow> \<exists>s. js_stringify v = Some s \<and> s \<noteq> [] \<and> \<not> json_space (hd s) \<and> (of_char (hd s) :: nat) \<notin> {93, 125}"
proof (cases v)
  case (JNum n)
  have "is_digit (hd (show_nat (nat n)))" using show_nat_digits [of "hd (show_nat (nat n))" "nat n"] by (cases "show_nat (nat n)") auto
  then have "48 \<le> (of_char (hd (show_nat (nat n))) :: nat)" "(of_char (hd (show_nat (nat n))) :: nat) \<le> 57" by (simp_all add: is_digit_def)
  then show ?thesis using JNum by (auto simp: show_int_def json_space_def hd_append)
qed (auto simp: json_space_def json_quote_def)

lemma skip_space_text: "s \<noteq> [] \<Longrightarrow> \<not> json_space (hd s) \<Longrightarrow> skip_space (s @ t) = s @ t"
  by (cases s) (simp_all add: skip_space_def)

lemma intersperse_comma_Cons: "intersperse_comma (s # ss) = s @ (if ss = [] then [] else CHR '','' # intersperse_comma ss)"
  by (cases ss) simp_all

definition reads :: "jsval \<Rightarrow> bool" where
  "reads v \<longleftrightarrow> (\<forall>s rest. js_stringify v = Some s \<longrightarrow> ends_number rest \<longrightarrow> parse_value (s @ rest) = Some (v, rest))"

lemma ends_number_punct [simp]: "ends_number (CHR '','' # r)" "ends_number (CHR '']'' # r)" "ends_number (CHR ''}'' # r)" "ends_number []"
  by (simp_all add: ends_number_def is_digit_def)

definition text_of :: "jsval \<Rightarrow> string" where
  "text_of v = (case js_stringify v of None \<Rightarrow> ''null'' | Some s \<Rightarrow> s)"

lemma elements_read:
  assumes "vs \<noteq> []" and "\<forall>v\<in>set vs. json_value v \<and> reads v"
  shows "parse_elements (intersperse_comma (map text_of vs) @ CHR '']'' # rest) = Some (vs, rest)"
  using assms
proof (induction vs)
  case (Cons v vs)
  obtain s where s: "js_stringify v = Some s" "s \<noteq> []" using json_value_text Cons.prems(2) by fastforce
  have read: "parse_value (s @ r) = Some (v, r)" if "ends_number r" for r
    using Cons.prems(2) s that by (simp add: reads_def)
  show ?case
  proof (cases "vs = []")
    case True
    then show ?thesis by (subst parse_elements.simps) (simp add: text_of_def s read skip_space_def json_space_def)
  next
    case False
    then have "parse_elements (intersperse_comma (map text_of vs) @ CHR '']'' # rest) = Some (vs, rest)" using Cons by simp
    then show ?thesis using False
      by (subst parse_elements.simps) (simp add: intersperse_comma_Cons text_of_def s read skip_space_def json_space_def)
  qed
qed simp

definition member_text :: "string \<times> jsval \<Rightarrow> string" where
  "member_text p = json_quote (fst p) @ CHR '':'' # text_of (snd p)"

lemma members_read:
  assumes "m \<noteq> []" and "\<forall>(k, v)\<in>set m. json_value v \<and> reads v"
  shows "parse_members (intersperse_comma (map member_text m) @ CHR ''}'' # rest) = Some (m, rest)"
  using assms
proof (induction m)
  case (Cons p m)
  obtain k v where p: "p = (k, v)" by (cases p)
  obtain s where s: "js_stringify v = Some s" "s \<noteq> []" using json_value_text Cons.prems(2) p by fastforce
  have read: "parse_value (s @ r) = Some (v, r)" if "ends_number r" for r
    using Cons.prems(2) s that by (simp add: reads_def p)
  have string: "parse_string (concat (map json_escape_char k) @ CHR 0x22 # r) = Some (k, r)" for r by (rule parse_string_quote)
  show ?case
  proof (cases "m = []")
    case True
    then show ?thesis
      by (subst parse_members.simps) (simp add: p member_text_def text_of_def s read string json_quote_def skip_space_def json_space_def)
  next
    case False
    then have "parse_members (intersperse_comma (map member_text m) @ CHR ''}'' # rest) = Some (m, rest)" using Cons by simp
    then show ?thesis using False
      by (subst parse_members.simps)
         (simp add: p intersperse_comma_Cons member_text_def text_of_def s read string json_quote_def skip_space_def json_space_def)
  qed
qed simp

lemma stringify_array: "js_stringify (JArr vs) = Some (''['' @ intersperse_comma (map text_of vs) @ '']'')"
  by (simp add: text_of_def [abs_def])

lemma stringify_object:
  assumes "\<forall>(k, v)\<in>set m. json_value v"
  shows "js_stringify (JObj m) = Some (CHR ''{'' # intersperse_comma (map member_text m) @ ''}'')"
proof -
  have "concat (map (\<lambda>(k, v). case js_stringify v of None \<Rightarrow> [] | Some s \<Rightarrow> [json_quote k @ '':'' @ s]) m) = map member_text m"
    using assms
  proof (induction m)
    case (Cons p m)
    obtain k v where p: "p = (k, v)" by (cases p)
    obtain s where "js_stringify v = Some s" using json_value_text Cons.prems p by fastforce
    then show ?case using Cons p by (simp add: member_text_def text_of_def)
  qed simp
  then show ?thesis by simp
qed

lemma foldl_set_distinct:
  "distinct (map fst (m @ m')) \<Longrightarrow> foldl (\<lambda>m (k, v). jm_set m k v) m m' = m @ m'"
proof (induction m' arbitrary: m)
  case (Cons p m')
  obtain k v where p: "p = (k, v)" by (cases p)
  have "\<not> jm_has m k" using Cons.prems by (force simp: p jm_has_iff)
  then show ?case using Cons by (simp add: p jm_set_absent)
qed simp

lemma first_of_elements:
  assumes "vs \<noteq> []" and "\<forall>v\<in>set vs. json_value v"
  shows "\<exists>c cs. intersperse_comma (map text_of vs) = c # cs \<and> \<not> json_space c \<and> (of_char c :: nat) \<noteq> 93"
proof -
  obtain v vs' where vs: "vs = v # vs'" using assms(1) by (cases vs) auto
  obtain s where "js_stringify v = Some s" "s \<noteq> []" "\<not> json_space (hd s)" "(of_char (hd s) :: nat) \<noteq> 93"
    using json_value_text [of v] assms(2) vs by auto
  then show ?thesis by (cases s) (auto simp: vs intersperse_comma_Cons text_of_def)
qed

lemma first_of_members: "m \<noteq> [] \<Longrightarrow> \<exists>cs. intersperse_comma (map member_text m) = CHR 0x22 # cs"
  by (cases m) (simp_all add: intersperse_comma_Cons member_text_def json_quote_def)

lemma number_reads:
  assumes "ends_number rest"
  shows "parse_value (show_int n @ rest) = Some (JNum n, rest)"
proof -
  obtain c cs where c: "show_int n = c # cs" "c = CHR ''-'' \<or> is_digit c"
  proof (cases "n < 0")
    case True
    then show ?thesis using that [of "CHR ''-''" "show_nat (nat (- n))"] by (simp add: show_int_def)
  next
    case False
    obtain d ds where d: "show_nat (nat n) = d # ds" by (cases "show_nat (nat n)") simp_all
    then have "is_digit d" by (intro show_nat_digits [of d "nat n"]) simp
    then show ?thesis using that [of d ds] d False by (simp add: show_int_def)
  qed
  have num: "parse_number (c # cs @ rest) = Some (n, rest)" using parse_number_show_int [OF assms, of n] by (simp add: c)
  define k where "k = (of_char c :: nat)"
  have k: "k = 45 \<or> (48 \<le> k \<and> k \<le> 57)" using c(2) by (auto simp: is_digit_def k_def)
  then have "\<not> json_space c" "k \<noteq> 123" "k \<noteq> 91" "k \<noteq> 34" by (auto simp: json_space_def k_def)
  moreover have "c \<noteq> CHR ''t''" "c \<noteq> CHR ''f''" "c \<noteq> CHR ''n''" using k by (auto simp: k_def)
  ultimately show ?thesis using num by (simp add: parse_value.simps [of "_ # _"] c(1) skip_space_def k_def)
qed

lemma json_value_reads: "json_value v \<Longrightarrow> reads v"
proof (induction v rule: json_value.induct [case_names undef arr obj null bool num str])
  case (arr vs)
  then have all: "\<forall>v\<in>set vs. json_value v \<and> reads v" by (auto simp: list_all_iff)
  have "parse_value (s @ rest) = Some (JArr vs, rest)" if "js_stringify (JArr vs) = Some s" for s rest
  proof (cases "vs = []")
    case True
    then show ?thesis using that by (auto simp: parse_value.simps [of "_ # _"] skip_space_def json_space_def)
  next
    case False
    obtain c cs where c: "intersperse_comma (map text_of vs) = c # cs" "\<not> json_space c" "(of_char c :: nat) \<noteq> 93"
      using first_of_elements [OF False] all by auto
    have bracket: "\<not> json_space (CHR ''['')" by (simp add: json_space_def)
    have "parse_elements (c # cs @ CHR '']'' # rest) = Some (vs, rest)" using elements_read [OF False all, of rest] by (simp add: c)
    then show ?thesis using that unfolding stringify_array
      by (auto simp: parse_value.simps [of "_ # _"] skip_space_def bracket c)
  qed
  then show ?case by (simp add: reads_def)
next
  case (obj m)
  then have all: "\<forall>(k, v)\<in>set m. json_value v \<and> reads v" and dist: "distinct (map fst m)" by (auto simp: list_all_iff)
  have printed: "js_stringify (JObj m) = Some (CHR ''{'' # intersperse_comma (map member_text m) @ ''}'')"
    by (rule stringify_object) (use all in auto)
  have "parse_value (s @ rest) = Some (JObj m, rest)" if "js_stringify (JObj m) = Some s" for s rest
  proof (cases "m = []")
    case True
    then show ?thesis using that unfolding printed by (auto simp: parse_value.simps [of "_ # _"] skip_space_def json_space_def)
  next
    case False
    obtain cs where cs: "intersperse_comma (map member_text m) = CHR 0x22 # cs" using first_of_members [OF False] by auto
    have "parse_members (CHR 0x22 # cs @ CHR ''}'' # rest) = Some (m, rest)" using members_read [OF False all, of rest] by (simp add: cs)
    then show ?thesis using that foldl_set_distinct [of "[]" m] dist unfolding printed
      by (auto simp: parse_value.simps [of "_ # _"] skip_space_def json_space_def cs)
  qed
  then show ?case by (simp add: reads_def)
next
  case null
  then show ?case by (auto simp: reads_def parse_value.simps [of "_ # _"] skip_space_def json_space_def)
next
  case (bool b)
  then show ?case by (auto simp: reads_def parse_value.simps [of "_ # _"] skip_space_def json_space_def)
next
  case (num n)
  show ?case using number_reads by (simp add: reads_def)
next
  case (str s)
  then show ?case
    using parse_string_quote [of s] by (simp add: reads_def json_quote_def parse_value.simps [of "_ # _"] skip_space_def json_space_def)
qed simp

text \<open>Parsing what was printed gives the value back.\<close>

theorem json_roundtrip:
  assumes "json_value v" and "js_stringify v = Some s"
  shows "json_parse s = Some v"
proof -
  have "parse_value (s @ []) = Some (v, [])"
    using json_value_reads [OF assms(1)] assms(2) ends_number_punct(4) unfolding reads_def by blast
  then show ?thesis by (simp add: json_parse_def skip_space_def)
qed

end
