(* ===== verification/Api_Keys.thy ===== *)
theory Api_Keys
  imports Json_Text "HOL-Library.Word"
begin

text \<open>
  \<open>backend/src/auth/apiKey.ts\<close>: API keys that are stored as hashes and rotated with a grace period;
  \<open>services/apiKeyRotationService.ts\<close>: the rotation with its audit record and notification; \<open>routes/admin/apiKeys.ts\<close>: its routes.

  SHA-256, the random bytes and the uuid are parameters, the audit table and the notifier answer as their arguments say. All
  readings of the clock in one synchronous call are one argument.
\<close>

section \<open>Texts of bytes\<close>

definition hex_of :: "8 word list \<Rightarrow> string" where
  "hex_of bs = concat (map (\<lambda>b. [hex_char (unat b div 16), hex_char (unat b mod 16)]) bs)"

text \<open>\<open>Buffer.from(s, "hex")\<close>: the pairs of digits before the first that is none.\<close>

fun buffer_hex :: "string \<Rightarrow> 8 word list" where
  "buffer_hex (c # d # cs) =
     (case (hex_value c, hex_value d) of (Some a, Some b) \<Rightarrow> of_nat (16 * a + b) # buffer_hex cs | _ \<Rightarrow> [])"
| "buffer_hex _ = []"

section \<open>Records\<close>

datatype key_status = KeyActive | KeyRotating | KeyRevoked

record api_key =
  akId :: string
  akName :: string
  akKeyHash :: string
  akPrevKeyHash :: "string option"
  akRotationStartedAt :: "int option"
  akGraceEndsAt :: "int option"
  akOwnerId :: "string option"
  akOwnerEmail :: "string option"
  akStatus :: key_status
  akCreatedAt :: int
  akLastUsedAt :: "int option"

record safe_key =
  skId :: string
  skName :: string
  skRotationStartedAt :: "int option"
  skGraceEndsAt :: "int option"
  skOwnerId :: "string option"
  skOwnerEmail :: "string option"
  skStatus :: key_status
  skCreatedAt :: int
  skLastUsedAt :: "int option"

record key_manager =
  kmStore :: "(string, api_key) jsmap"
  kmGraceMs :: int

record rotate_result =
  rrId :: string
  rrRawKey :: string
  rrGraceEndsAt :: int

definition API_KEY_PREFIX :: string where "API_KEY_PREFIX = ''nlk_''"
definition DEFAULT_GRACE_MS :: int where "DEFAULT_GRACE_MS = 24 * 60 * 60 * 1000"
definition MAX_GRACE_MS :: int where "MAX_GRACE_MS = 30 * 24 * 60 * 60 * 1000"

text \<open>A number is \<open>None\<close> when it is no integer.\<close>

definition assertValidGraceMs :: "int option \<Rightarrow> (service_error, unit) res" where
  "assertValidGraceMs g =
     (case g of
        None \<Rightarrow> Inl (RangeError ''Grace period'')
      | Some n \<Rightarrow> if n < 0 \<or> n > MAX_GRACE_MS then Inl (RangeError ''Grace period'') else Inr ())"

text \<open>Of the texts \<open>Number\<close> reads, those with a fraction, an exponent or a radix prefix are not modelled.\<close>

definition resolveDefaultGraceMs :: "string option \<Rightarrow> (service_error, int) res" where
  "resolveDefaultGraceMs v =
     (case v of
        None \<Rightarrow> Inr DEFAULT_GRACE_MS
      | Some s \<Rightarrow>
          if trim s = [] then Inr DEFAULT_GRACE_MS
          else (case assertValidGraceMs (big_int_of s) of Inl e \<Rightarrow> Inl e | Inr _ \<Rightarrow> Inr (the (big_int_of s))))"

definition generateRawKey :: "8 word list \<Rightarrow> string" where
  "generateRawKey bytes = API_KEY_PREFIX @ hex_of bytes"

definition hashKey :: "(string \<Rightarrow> 8 word list) \<Rightarrow> string \<Rightarrow> string" where
  "hashKey sha rawKey = hex_of (sha rawKey)"

definition safeHashEqual :: "string \<Rightarrow> string \<Rightarrow> bool" where
  "safeHashEqual a b = (if length a \<noteq> length b then False else buffer_hex a = buffer_hex b)"

definition new_manager :: "int option \<Rightarrow> string option \<Rightarrow> (service_error, key_manager) res" where
  "new_manager rotationGraceMs env =
     (case rotationGraceMs of
        Some g \<Rightarrow> Inr \<lparr>kmStore = [], kmGraceMs = g\<rparr>
      | None \<Rightarrow> (case resolveDefaultGraceMs env of Inl e \<Rightarrow> Inl e | Inr g \<Rightarrow> Inr \<lparr>kmStore = [], kmGraceMs = g\<rparr>))"

section \<open>The manager\<close>

definition create_key ::
  "(string \<Rightarrow> 8 word list) \<Rightarrow> int \<Rightarrow> 8 word list \<Rightarrow> string \<Rightarrow> string \<Rightarrow> string option \<Rightarrow> string option \<Rightarrow> key_manager
     \<Rightarrow> (service_error, string \<times> string) res \<times> key_manager" where
  "create_key sha now bytes uuid name ownerId ownerEmail m =
     (if trim name = [] then (Inl (PlainError ''API key name is required''), m)
      else let rawKey = generateRawKey bytes
        in (Inr (uuid, rawKey),
            m\<lparr>kmStore := jm_set (kmStore m) uuid
              \<lparr>akId = uuid, akName = trim name, akKeyHash = hashKey sha rawKey, akPrevKeyHash = None, akRotationStartedAt = None, akGraceEndsAt = None, akOwnerId = ownerId, akOwnerEmail = ownerEmail,
               akStatus = KeyActive, akCreatedAt = now, akLastUsedAt = None\<rparr>\<rparr>))"

definition end_rotation :: "api_key \<Rightarrow> api_key" where
  "end_rotation r = r\<lparr>akRotationStartedAt := None, akGraceEndsAt := None, akStatus := KeyActive, akPrevKeyHash := None\<rparr>"

fun validate_loop :: "int \<Rightarrow> string \<Rightarrow> (string, api_key) jsmap \<Rightarrow> api_key option \<times> (string, api_key) jsmap" where
  "validate_loop now h [] = (None, [])"
| "validate_loop now h ((i, r) # rs) =
     (let continue = (\<lambda>r'. case validate_loop now h rs of (res, rs') \<Rightarrow> (res, (i, r') # rs')); used = r\<lparr>akLastUsedAt := Some now\<rparr>
      in if akStatus r = KeyRevoked then continue r
         else if safeHashEqual h (akKeyHash r) then (Some used, (i, used) # rs)
         else (case (akStatus r, akPrevKeyHash r, akGraceEndsAt r) of
                 (KeyRotating, Some p, Some g) \<Rightarrow>
                   if \<not> now > g \<and> safeHashEqual h p then (Some used, (i, used) # rs)
                   else if now > g then continue (end_rotation r) else continue r
               | _ \<Rightarrow> continue r))"

definition validate :: "(string \<Rightarrow> 8 word list) \<Rightarrow> int \<Rightarrow> string \<Rightarrow> key_manager \<Rightarrow> api_key option \<times> key_manager" where
  "validate sha now rawKey m =
     (if \<not> starts_with rawKey API_KEY_PREFIX then (None, m)
      else case validate_loop now (hashKey sha rawKey) (kmStore m) of (res, store) \<Rightarrow> (res, m\<lparr>kmStore := store\<rparr>))"

definition rotate_key ::
  "(string \<Rightarrow> 8 word list) \<Rightarrow> int \<Rightarrow> 8 word list \<Rightarrow> string \<Rightarrow> int option \<Rightarrow> key_manager \<Rightarrow> (service_error, rotate_result) res \<times> key_manager" where
  "rotate_key sha now bytes i grace m =
     (case jm_get (kmStore m) i of
        None \<Rightarrow> (Inl (PlainError ''API key not found''), m)
      | Some r \<Rightarrow>
          if akStatus r = KeyRevoked then (Inl (PlainError ''Cannot rotate a revoked key''), m)
          else let g = (case grace of Some g \<Rightarrow> g | None \<Rightarrow> kmGraceMs m)
            in (case assertValidGraceMs (Some g) of
                  Inl e \<Rightarrow> (Inl e, m)
                | Inr _ \<Rightarrow>
                    let rawKey = generateRawKey bytes; r1 = r\<lparr>akKeyHash := hashKey sha rawKey\<rparr>;
                        r2 = (if g = 0 then end_rotation r1
                              else r1\<lparr>akPrevKeyHash := Some (akKeyHash r), akRotationStartedAt := Some now, akGraceEndsAt := Some (now + g),
                                     akStatus := KeyRotating\<rparr>)
                    in (Inr \<lparr>rrId = i, rrRawKey = rawKey, rrGraceEndsAt = now + g\<rparr>, m\<lparr>kmStore := jm_set (kmStore m) i r2\<rparr>)))"

definition commitRotation :: "string \<Rightarrow> key_manager \<Rightarrow> (service_error, unit) res \<times> key_manager" where
  "commitRotation i m =
     (case jm_get (kmStore m) i of
        None \<Rightarrow> (Inl (PlainError ''API key not found''), m)
      | Some r \<Rightarrow>
          if akStatus r \<noteq> KeyRotating then (Inl (PlainError ''Key is not in rotating status''), m)
          else (Inr (), m\<lparr>kmStore := jm_set (kmStore m) i (end_rotation r)\<rparr>))"

definition revoke_key :: "string \<Rightarrow> key_manager \<Rightarrow> (service_error, unit) res \<times> key_manager" where
  "revoke_key i m =
     (case jm_get (kmStore m) i of
        None \<Rightarrow> (Inl (PlainError ''API key not found''), m)
      | Some r \<Rightarrow> (Inr (), m\<lparr>kmStore := jm_set (kmStore m) i
          (r\<lparr>akStatus := KeyRevoked, akPrevKeyHash := None, akRotationStartedAt := None, akGraceEndsAt := None\<rparr>)\<rparr>))"

definition safe_view :: "api_key \<Rightarrow> safe_key" where
  "safe_view r =
     \<lparr>skId = akId r, skName = akName r, skRotationStartedAt = akRotationStartedAt r, skGraceEndsAt = akGraceEndsAt r, skOwnerId = akOwnerId r,
      skOwnerEmail = akOwnerEmail r, skStatus = akStatus r, skCreatedAt = akCreatedAt r, skLastUsedAt = akLastUsedAt r\<rparr>"

definition get_key :: "string \<Rightarrow> key_manager \<Rightarrow> safe_key option" where
  "get_key i m = map_option safe_view (jm_get (kmStore m) i)"

definition list_keys :: "key_manager \<Rightarrow> safe_key list" where
  "list_keys m = map (\<lambda>(i, r). safe_view r) (kmStore m)"

section \<open>The rotation service\<close>

record rotation_actor =
  raId :: string
  raIpAddress :: string
  raUserAgent :: string

datatype audit_action = API_KEY_ROTATED_ACTION | API_KEY_ROTATION_COMMITTED_ACTION

record key_audit =
  kaActor :: rotation_actor
  kaAction :: audit_action
  kaResourceId :: string
  kaBefore :: key_status
  kaAfter :: key_status
  kaGrace :: "(int \<times> int) option"

record key_notice =
  knEmail :: string
  knUserId :: "string option"
  knKeyId :: string
  knKeyName :: string
  knImmediate :: bool
  knGraceEndsAt :: int
  knRotatedBy :: string

record rotation_state =
  rsManager :: key_manager
  rsAudit :: "key_audit list"
  rsNotices :: "key_notice list"

record rotation_result =
  roId :: string
  roRawKey :: string
  roGraceEndsAt :: int
  roGraceMs :: int
  roOwnerNotified :: bool

text \<open>\<open>ok\<close> is false when the audit table refuses the record. A time is written by the number of its milliseconds.\<close>

definition writeAudit :: "bool \<Rightarrow> key_audit \<Rightarrow> rotation_state \<Rightarrow> rotation_state" where
  "writeAudit ok a s = (if ok then s\<lparr>rsAudit := rsAudit s @ [a]\<rparr> else s)"

text \<open>\<open>answer\<close> says which targets were reached, or \<open>None\<close> when sending throws.\<close>

definition notifyOwner :: "bool list option \<Rightarrow> string option \<Rightarrow> string option \<Rightarrow> (string \<Rightarrow> string option \<Rightarrow> key_notice) \<Rightarrow> rotation_state \<Rightarrow> bool \<times> rotation_state" where
  "notifyOwner answer ownerId ownerEmail notice s =
     (case ownerEmail of
        None \<Rightarrow> (False, s)
      | Some e \<Rightarrow>
          if e = [] then (False, s)
          else ((case answer of None \<Rightarrow> False | Some rs \<Rightarrow> \<exists>r\<in>set rs. r),
                s\<lparr>rsNotices := rsNotices s @ [notice e (case ownerId of Some u \<Rightarrow> if u = [] then None else Some u | None \<Rightarrow> None)]\<rparr>))"

definition date_ok :: "int \<Rightarrow> bool" where
  "date_ok t \<longleftrightarrow> \<bar>t\<bar> \<le> 8640000000000000"

definition rotate_service ::
  "(string \<Rightarrow> 8 word list) \<Rightarrow> int \<Rightarrow> 8 word list \<Rightarrow> bool \<Rightarrow> bool list option \<Rightarrow> string \<Rightarrow> int option \<Rightarrow> rotation_actor \<Rightarrow> rotation_state
     \<Rightarrow> (service_error, rotation_result) res \<times> rotation_state" where
  "rotate_service sha now bytes ok answer keyId graceMs actor s =
     (case get_key keyId (rsManager s) of
        None \<Rightarrow> (Inl (PlainError ''API key not found''), s)
      | Some before \<Rightarrow>
          let g = (case graceMs of Some g \<Rightarrow> g | None \<Rightarrow> kmGraceMs (rsManager s))
          in (case rotate_key sha now bytes keyId (Some g) (rsManager s) of
                (Inl e, m1) \<Rightarrow> (Inl e, s\<lparr>rsManager := m1\<rparr>)
              | (Inr res, m1) \<Rightarrow>
                  let s1 = s\<lparr>rsManager := m1\<rparr>; after = the (get_key keyId m1); ends = rrGraceEndsAt res
                  in if \<not> date_ok ends then (Inl (RangeError ''Invalid time value''), s1)
                     else (case notifyOwner answer (skOwnerId after) (skOwnerEmail after)
                                  (\<lambda>e u. \<lparr>knEmail = e, knUserId = u, knKeyId = keyId, knKeyName = skName after, knImmediate = (\<not> g > 0),
                                          knGraceEndsAt = ends, knRotatedBy = raId actor\<rparr>)
                                  (writeAudit ok \<lparr>kaActor = actor, kaAction = API_KEY_ROTATED_ACTION, kaResourceId = keyId, kaBefore = skStatus before,
                                     kaAfter = skStatus after, kaGrace = Some (g, ends)\<rparr> s1) of
                             (notified, s2) \<Rightarrow>
                               (Inr \<lparr>roId = rrId res, roRawKey = rrRawKey res, roGraceEndsAt = ends, roGraceMs = g, roOwnerNotified = notified\<rparr>, s2))))"

definition commit_service :: "bool \<Rightarrow> string \<Rightarrow> rotation_actor \<Rightarrow> rotation_state \<Rightarrow> (service_error, unit) res \<times> rotation_state" where
  "commit_service ok keyId actor s =
     (case commitRotation keyId (rsManager s) of
        (Inl e, m1) \<Rightarrow> (Inl e, s\<lparr>rsManager := m1\<rparr>)
      | (Inr _, m1) \<Rightarrow>
          (Inr (), writeAudit ok \<lparr>kaActor = actor, kaAction = API_KEY_ROTATION_COMMITTED_ACTION, kaResourceId = keyId, kaBefore = KeyRotating,
             kaAfter = KeyActive, kaGrace = None\<rparr> (s\<lparr>rsManager := m1\<rparr>)))"

section \<open>The routes\<close>

record admin_user =
  auId :: string
  auSuper :: bool

datatype key_response =
  KeyError int
| KeyRotated rotation_result int
| KeyCommitted string

text \<open>\<open>gracePeriodSeconds\<close> of the strict schema: \<open>Inl\<close> when the body is refused.\<close>

definition rotateSchema :: "jsval \<Rightarrow> (unit, int option) res" where
  "rotateSchema body =
     (case js_coalesce body (JObj []) of
        JObj [] \<Rightarrow> Inr None
      | JObj [(k, JNum n)] \<Rightarrow>
          if k = ''gracePeriodSeconds'' \<and> 0 \<le> n \<and> n \<le> MAX_GRACE_MS div 1000 then Inr (Some n) else Inl ()
      | _ \<Rightarrow> Inl ())"

text \<open>The status of the error that is sent, if any.\<close>

definition authorizeKeyAccess :: "admin_user \<Rightarrow> string \<Rightarrow> key_manager \<Rightarrow> int option" where
  "authorizeKeyAccess admin i m =
     (case get_key i m of
        None \<Rightarrow> Some 404
      | Some key \<Rightarrow>
          let isOwner = (skOwnerId key = Some (auId admin))
          in if \<not> isOwner \<and> \<not> auSuper admin then Some 403
             else if skStatus key = KeyRevoked then Some 409 else None)"

definition rotate_route ::
  "(string \<Rightarrow> 8 word list) \<Rightarrow> int \<Rightarrow> 8 word list \<Rightarrow> bool \<Rightarrow> bool list option \<Rightarrow> admin_user \<Rightarrow> string \<Rightarrow> string \<Rightarrow> string \<Rightarrow> jsval \<Rightarrow> rotation_state
     \<Rightarrow> key_response \<times> rotation_state" where
  "rotate_route sha now bytes ok answer admin ip agent i body s =
     (case rotateSchema body of
        Inl _ \<Rightarrow> (KeyError 400, s)
      | Inr seconds \<Rightarrow>
          (case authorizeKeyAccess admin i (rsManager s) of
             Some status \<Rightarrow> (KeyError status, s)
           | None \<Rightarrow>
               (case rotate_service sha now bytes ok answer i (map_option (\<lambda>x. x * 1000) seconds) \<lparr>raId = auId admin, raIpAddress = ip, raUserAgent = agent\<rparr> s of
                  (Inr res, s1) \<Rightarrow> (KeyRotated res (roGraceMs res div 1000), s1)
                | (Inl (RangeError e), s1) \<Rightarrow> (KeyError 400, s1)
                | (Inl e, s1) \<Rightarrow> (KeyError 500, s1))))"

definition commit_route :: "bool \<Rightarrow> admin_user \<Rightarrow> string \<Rightarrow> string \<Rightarrow> string \<Rightarrow> rotation_state \<Rightarrow> key_response \<times> rotation_state" where
  "commit_route ok admin ip agent i s =
     (case authorizeKeyAccess admin i (rsManager s) of
        Some status \<Rightarrow> (KeyError status, s)
      | None \<Rightarrow>
          if skStatus (the (get_key i (rsManager s))) \<noteq> KeyRotating then (KeyError 409, s)
          else (case commit_service ok i \<lparr>raId = auId admin, raIpAddress = ip, raUserAgent = agent\<rparr> s of
                  (Inr _, s1) \<Rightarrow> (KeyCommitted i, s1)
                | (Inl e, s1) \<Rightarrow> (KeyError 500, s1)))"

lemma buffer_hex_of [simp]: "buffer_hex (hex_of bs) = bs"
proof (induction bs)
  case (Cons b bs)
  have "unat b < 256" using unsigned_less [of b] by simp
  then have "unat b div 16 < 16" "unat b mod 16 < 16" by simp_all
  then show ?case using Cons by (simp add: hex_of_def)
qed (simp add: hex_of_def)

lemma length_hex_of [simp]: "length (hex_of bs) = 2 * length bs"
  by (induction bs) (simp_all add: hex_of_def)

lemma hex_of_inj: "hex_of a = hex_of b \<longleftrightarrow> a = b"
  by (metis buffer_hex_of)

lemma safe_hash_equal [simp]: "safeHashEqual (hashKey sha a) (hashKey sha b) \<longleftrightarrow> sha a = sha b"
  by (auto simp: safeHashEqual_def hashKey_def hex_of_inj)

section \<open>What a key promises\<close>

text \<open>
  A key as its owner sees it: the raw key that is current, the one it replaced with the last time that is accepted, and whether it
  is revoked. Validation changes nothing here.
\<close>

record key_promise =
  kpCurrent :: string
  kpPrevious :: "(string \<times> int) option"
  kpRevoked :: bool

datatype key_event =
  KCreate string "string option" "string option" "8 word list" string
| KValidate string
| KRotate string "int option" "8 word list"
| KCommit string
| KRevoke string

definition key_step :: "(string \<Rightarrow> 8 word list) \<Rightarrow> int \<Rightarrow> key_event \<Rightarrow> key_manager \<Rightarrow> key_manager" where
  "key_step sha now ev m =
     (case ev of
        KCreate name ownerId ownerEmail bytes uuid \<Rightarrow> snd (create_key sha now bytes uuid name ownerId ownerEmail m)
      | KValidate raw \<Rightarrow> snd (validate sha now raw m)
      | KRotate i g bytes \<Rightarrow> snd (rotate_key sha now bytes i g m)
      | KCommit i \<Rightarrow> snd (commitRotation i m)
      | KRevoke i \<Rightarrow> snd (revoke_key i m))"

fun key_run :: "(string \<Rightarrow> 8 word list) \<Rightarrow> (int \<times> key_event) list \<Rightarrow> key_manager \<Rightarrow> key_manager" where
  "key_run sha [] m = m"
| "key_run sha ((now, ev) # evs) m = key_run sha evs (key_step sha now ev m)"

definition promise_step :: "int \<Rightarrow> int \<Rightarrow> key_event \<Rightarrow> (string, key_promise) jsmap \<Rightarrow> (string, key_promise) jsmap" where
  "promise_step dflt now ev S =
     (case ev of
        KCreate name ownerId ownerEmail bytes uuid \<Rightarrow>
          if trim name = [] then S else jm_set S uuid \<lparr>kpCurrent = generateRawKey bytes, kpPrevious = None, kpRevoked = False\<rparr>
      | KValidate raw \<Rightarrow> S
      | KRotate i grace bytes \<Rightarrow>
          (let g = (case grace of Some g \<Rightarrow> g | None \<Rightarrow> dflt)
           in case jm_get S i of
                None \<Rightarrow> S
              | Some k \<Rightarrow>
                  if kpRevoked k \<or> g < 0 \<or> g > MAX_GRACE_MS then S
                  else jm_set S i \<lparr>kpCurrent = generateRawKey bytes, kpPrevious = (if g = 0 then None else Some (kpCurrent k, now + g)), kpRevoked = False\<rparr>)
      | KCommit i \<Rightarrow> (case jm_get S i of None \<Rightarrow> S | Some k \<Rightarrow> if kpRevoked k then S else jm_set S i (k\<lparr>kpPrevious := None\<rparr>))
      | KRevoke i \<Rightarrow> (case jm_get S i of None \<Rightarrow> S | Some k \<Rightarrow> jm_set S i (k\<lparr>kpPrevious := None, kpRevoked := True\<rparr>)))"

fun promise_run :: "int \<Rightarrow> (int \<times> key_event) list \<Rightarrow> (string, key_promise) jsmap \<Rightarrow> (string, key_promise) jsmap" where
  "promise_run dflt [] S = S"
| "promise_run dflt ((now, ev) # evs) S = promise_run dflt evs (promise_step dflt now ev S)"

definition promise_accepts :: "int \<Rightarrow> string \<Rightarrow> key_promise \<Rightarrow> bool" where
  "promise_accepts now raw k \<longleftrightarrow> \<not> kpRevoked k \<and> (raw = kpCurrent k \<or> (\<exists>d. kpPrevious k = Some (raw, d) \<and> now \<le> d))"

text \<open>A record keeps a promise at a time: a grace that has ended may or may not have been noticed.\<close>

definition keeps_promise :: "(string \<Rightarrow> 8 word list) \<Rightarrow> int \<Rightarrow> api_key \<Rightarrow> key_promise \<Rightarrow> bool" where
  "keeps_promise sha now r k \<longleftrightarrow>
     akKeyHash r = hashKey sha (kpCurrent k) \<and> (akStatus r = KeyRevoked \<longleftrightarrow> kpRevoked k) \<and>
     (case kpPrevious k of
        None \<Rightarrow> akStatus r \<noteq> KeyRotating
      | Some (p, d) \<Rightarrow>
          (akStatus r = KeyRotating \<and> akPrevKeyHash r = Some (hashKey sha p) \<and> akGraceEndsAt r = Some d) \<or> (akStatus r = KeyActive \<and> d < now))"

definition keep_all :: "(string \<Rightarrow> 8 word list) \<Rightarrow> int \<Rightarrow> (string, api_key) jsmap \<Rightarrow> (string, key_promise) jsmap \<Rightarrow> bool" where
  "keep_all sha now rs S \<longleftrightarrow> list_all2 (\<lambda>(i, r) (j, k). i = j \<and> akId r = i \<and> keeps_promise sha now r k) rs S"

lemma keeps_later: "keeps_promise sha now r k \<Longrightarrow> now \<le> later \<Longrightarrow> keeps_promise sha later r k"
  by (auto simp: keeps_promise_def split: option.splits)

lemma keep_all_later: "keep_all sha now rs S \<Longrightarrow> now \<le> later \<Longrightarrow> keep_all sha later rs S"
  unfolding keep_all_def by (erule list_all2_mono) (auto dest: keeps_later)

lemma keep_all_get:
  assumes "keep_all sha now rs S"
  shows "case jm_get rs i of None \<Rightarrow> jm_get S i = None | Some r \<Rightarrow> \<exists>k. jm_get S i = Some k \<and> akId r = i \<and> keeps_promise sha now r k"
  using assms unfolding keep_all_def by (induction rule: list_all2_induct) (auto split: option.splits)

lemma keep_all_set:
  assumes "keep_all sha now rs S" "keeps_promise sha now r k" "akId r = i"
  shows "keep_all sha now (jm_set rs i r) (jm_set S i k)"
  using assms(1) unfolding keep_all_def jm_set_def
  by (induction rule: list_all2_induct) (auto simp: assms(2,3))

lemma jm_set_same: "jm_get m i = Some v \<Longrightarrow> jm_set m i v = m"
  by (induction m) (auto simp: jm_set_def)

lemma keep_all_promise:
  "keep_all sha now rs S \<Longrightarrow> jm_get rs i = Some r \<Longrightarrow> keeps_promise sha now r k \<Longrightarrow> akId r = i \<Longrightarrow> keep_all sha now rs (jm_set S i k)"
  using keep_all_set [of sha now rs S r k i] by (simp add: jm_set_same)

lemma keeps_used [simp]: "keeps_promise sha now (r\<lparr>akLastUsedAt := t\<rparr>) k = keeps_promise sha now r k"
  by (auto simp: keeps_promise_def split: option.split)

lemma keeps_end_rotation: "keeps_promise sha now r k \<Longrightarrow> akStatus r = KeyRotating \<Longrightarrow> akGraceEndsAt r = Some g \<Longrightarrow> g < now \<Longrightarrow> keeps_promise sha now (end_rotation r) k"
  by (auto simp: keeps_promise_def end_rotation_def split: option.splits)

definition raws_of :: "key_promise \<Rightarrow> string set" where
  "raws_of k = insert (kpCurrent k) (case kpPrevious k of None \<Rightarrow> {} | Some (p, d) \<Rightarrow> {p})"

lemma validate_loop_keeps:
  "keep_all sha now rs S \<Longrightarrow> keep_all sha now (snd (validate_loop now h rs)) S"
proof (induction rs arbitrary: S)
  case (Cons ir rs)
  obtain i r where ir: "ir = (i, r)" by (cases ir)
  from Cons.prems obtain k S' where S: "S = (i, k) # S'" "akId r = i" "keeps_promise sha now r k" "keep_all sha now rs S'"
    by (auto simp: keep_all_def ir list_all2_Cons1)
  have cont: "keep_all sha now ((i, r') # snd (validate_loop now h rs)) S" if "akId r' = i" "keeps_promise sha now r' k" for r'
    using Cons.IH [OF S(4)] that unfolding keep_all_def S(1) by simp
  have stop: "keep_all sha now ((i, r') # rs) S" if "akId r' = i" "keeps_promise sha now r' k" for r'
    using S(4) that unfolding keep_all_def S(1) by simp
  obtain res rs0 where rest: "validate_loop now h rs = (res, rs0)" by fastforce
  have keep: "keep_all sha now ((i, r) # rs0) S" using cont S(2,3) rest by simp
  have "keep_all sha now ((i, end_rotation r) # rs0) S" if "akStatus r = KeyRotating" "akGraceEndsAt r = Some g" "g < now" for g
    using cont [OF _ keeps_end_rotation [OF S(3) that]] S(2) rest by (simp add: end_rotation_def)
  moreover have "keep_all sha now ((i, r\<lparr>akLastUsedAt := Some now\<rparr>) # rs) S" using stop S(2,3) by simp
  ultimately show ?case unfolding ir using keep rest by (auto simp: Let_def split: option.split key_status.split)
qed (simp add: keep_all_def)


lemma validate_loop_accepts:
  assumes "keep_all sha now rs S" and "\<forall>(i, k)\<in>set S. \<forall>x\<in>raws_of k. sha x = sha raw \<longrightarrow> x = raw"
  shows "case fst (validate_loop now (hashKey sha raw) rs) of
      None \<Rightarrow> \<forall>(i, k)\<in>set S. \<not> promise_accepts now raw k
    | Some r \<Rightarrow> \<exists>k. (akId r, k) \<in> set S \<and> promise_accepts now raw k"
  using assms
proof (induction rs arbitrary: S)
  case (Cons ir rs)
  obtain i r where ir: "ir = (i, r)" by (cases ir)
  from Cons.prems obtain k S' where S: "S = (i, k) # S'" "akId r = i" "keeps_promise sha now r k" "keep_all sha now rs S'"
    by (auto simp: keep_all_def ir list_all2_Cons1)
  let ?P = "\<lambda>S res. case res of None \<Rightarrow> \<forall>(i, k)\<in>set S. \<not> promise_accepts now raw k | Some r \<Rightarrow> \<exists>k. (akId r, k) \<in> set S \<and> promise_accepts now raw k"
  have IH: "?P S' (fst (validate_loop now (hashKey sha raw) rs))" using Cons.IH [OF S(4)] Cons.prems(2) S(1) by auto
  have later: "?P S (fst (validate_loop now (hashKey sha raw) rs))" if "\<not> promise_accepts now raw k"
    using IH that S(1) by (auto split: option.splits)
  have here: "?P S (Some (r\<lparr>akLastUsedAt := Some now\<rparr>))" if "promise_accepts now raw k"
    using that S(1,2) by auto
  have inj: "sha x = sha raw \<longleftrightarrow> x = raw" if "x \<in> raws_of k" for x using that Cons.prems(2) S(1) by auto
  have cur: "safeHashEqual (hashKey sha raw) (akKeyHash r) \<longleftrightarrow> kpCurrent k = raw"
    using S(3) inj [of "kpCurrent k"] by (auto simp: keeps_promise_def raws_of_def)
  obtain res rs0 where rest: "validate_loop now (hashKey sha raw) rs = (res, rs0)" by fastforce
  show ?case
  proof (cases "akStatus r = KeyRotating")
    case True
    then obtain p d where pd: "kpPrevious k = Some (p, d)" "akPrevKeyHash r = Some (hashKey sha p)" "akGraceEndsAt r = Some d" "\<not> kpRevoked k"
      using S(3) by (auto simp: keeps_promise_def split: option.splits)
    then have "safeHashEqual (hashKey sha raw) (hashKey sha p) \<longleftrightarrow> p = raw" using inj [of p] by (auto simp: raws_of_def)
    moreover have "promise_accepts now raw k \<longleftrightarrow> kpCurrent k = raw \<or> (p = raw \<and> now \<le> d)" using pd by (auto simp: promise_accepts_def)
    ultimately show ?thesis using True pd cur later here rest unfolding ir by (auto simp: Let_def not_less)
  next
    case False
    then have acc: "promise_accepts now raw k \<longleftrightarrow> akStatus r \<noteq> KeyRevoked \<and> kpCurrent k = raw"
      using S(3) by (auto simp: promise_accepts_def keeps_promise_def split: option.splits)
    show ?thesis using False acc cur later here rest unfolding ir
      by (cases "akStatus r") (auto simp: Let_def)
  qed
qed (simp add: keep_all_def)

lemma key_step_keeps:
  assumes "keep_all sha now (kmStore m) S"
  shows "keep_all sha now (kmStore (key_step sha now ev m)) (promise_step (kmGraceMs m) now ev S) \<and> kmGraceMs (key_step sha now ev m) = kmGraceMs m"
proof (cases ev)
  case (KCreate name ownerId ownerEmail bytes uuid)
  then show ?thesis using assms
    by (auto simp: key_step_def promise_step_def create_key_def Let_def keeps_promise_def intro!: keep_all_set)
next
  case (KValidate raw)
  then show ?thesis using validate_loop_keeps [OF assms, of "hashKey sha raw"] assms
    by (auto simp: key_step_def promise_step_def validate_def split: prod.splits)
next
  case (KRotate i g bytes)
  then show ?thesis using keep_all_get [OF assms, of i] assms
    by (auto simp: key_step_def promise_step_def rotate_key_def Let_def assertValidGraceMs_def keeps_promise_def end_rotation_def split: option.splits intro!: keep_all_set)
next
  case (KCommit i)
  show ?thesis
  proof (cases "jm_get (kmStore m) i")
    case None
    then show ?thesis using KCommit keep_all_get [OF assms, of i] assms by (simp add: key_step_def promise_step_def commitRotation_def)
  next
    case (Some r)
    then obtain k where k: "jm_get S i = Some k" "akId r = i" "keeps_promise sha now r k" using keep_all_get [OF assms, of i] by auto
    have "keep_all sha now (kmStore m) (jm_set S i (k\<lparr>kpPrevious := None\<rparr>))" if "akStatus r \<noteq> KeyRotating"
      using that k(3) by (intro keep_all_promise [OF assms Some _ k(2)]) (auto simp: keeps_promise_def)
    moreover have "keep_all sha now (jm_set (kmStore m) i (end_rotation r)) (jm_set S i (k\<lparr>kpPrevious := None\<rparr>))" if "akStatus r = KeyRotating"
      using that k by (intro keep_all_set [OF assms]) (auto simp: keeps_promise_def end_rotation_def)
    moreover have "akStatus r = KeyRotating \<Longrightarrow> \<not> kpRevoked k" using k(3) by (auto simp: keeps_promise_def)
    ultimately show ?thesis using KCommit Some k(1) assms by (auto simp: key_step_def promise_step_def commitRotation_def)
  qed
next
  case (KRevoke i)
  then show ?thesis using keep_all_get [OF assms, of i] assms
    by (auto simp: key_step_def promise_step_def revoke_key_def keeps_promise_def split: option.splits intro!: keep_all_set)
qed


definition event_raws :: "key_event \<Rightarrow> string set" where
  "event_raws ev = (case ev of KCreate name ownerId ownerEmail bytes uuid \<Rightarrow> {generateRawKey bytes} | KRotate i g bytes \<Rightarrow> {generateRawKey bytes} | _ \<Rightarrow> {})"

definition raws_within :: "string set \<Rightarrow> (string, key_promise) jsmap \<Rightarrow> bool" where
  "raws_within R S \<longleftrightarrow> (\<forall>(i, k)\<in>set S. raws_of k \<subseteq> R)"

lemma raws_within_set: "raws_within R S \<Longrightarrow> raws_of k \<subseteq> R \<Longrightarrow> raws_within R (jm_set S i k)"
  unfolding raws_within_def jm_set_def by (induction S) (auto split: if_splits)

lemma promise_step_raws:
  assumes S: "raws_within R S" and ev: "event_raws ev \<subseteq> R"
  shows "raws_within R (promise_step dflt now ev S)"
proof -
  have mem: "kpCurrent k \<in> R" "kpPrevious k = Some (p, d) \<Longrightarrow> p \<in> R" if "jm_get S i = Some k" for i k p d
    using S jm_get_mem [OF that] unfolding raws_within_def by (fastforce simp: raws_of_def)+
  show ?thesis using S ev
    by (auto simp: promise_step_def event_raws_def Let_def split: key_event.split option.split intro!: raws_within_set)
      (auto simp: raws_of_def mem split: option.splits if_splits)
qed

lemma key_run_keeps:
  assumes "sorted (map fst evs)" "\<forall>ev\<in>set evs. fst ev \<le> now" "\<forall>ev\<in>set evs. t0 \<le> fst ev" "t0 \<le> now" "keep_all sha t0 (kmStore m) S"
  shows "keep_all sha now (kmStore (key_run sha evs m)) (promise_run (kmGraceMs m) evs S)"
  using assms
proof (induction evs arbitrary: m S t0)
  case Nil
  then show ?case by (simp add: keep_all_later)
next
  case (Cons e evs)
  obtain t ev where e: "e = (t, ev)" by (cases e)
  have "keep_all sha t (kmStore m) S" using Cons.prems(3,5) e by (auto intro: keep_all_later)
  from key_step_keeps [OF this, of ev] have step: "keep_all sha t (kmStore (key_step sha t ev m)) (promise_step (kmGraceMs m) t ev S)"
    "kmGraceMs (key_step sha t ev m) = kmGraceMs m" by simp_all
  have "keep_all sha now (kmStore (key_run sha evs (key_step sha t ev m))) (promise_run (kmGraceMs (key_step sha t ev m)) evs (promise_step (kmGraceMs m) t ev S))"
    using Cons.prems(1,2) e step by (intro Cons.IH [of t]) auto
  then show ?case using step(2) e by simp
qed

lemma promise_run_raws:
  "raws_within R S \<Longrightarrow> \<forall>ev\<in>set evs. event_raws (snd ev) \<subseteq> R \<Longrightarrow> raws_within R (promise_run dflt evs S)"
proof (induction evs arbitrary: S)
  case (Cons e evs)
  then show ?case using promise_step_raws [of R S "snd e" dflt "fst e"] by (cases e) auto
qed simp

definition prefixed_raws :: "(int \<times> key_event) list \<Rightarrow> string set" where
  "prefixed_raws evs = (\<Union>ev\<in>set evs. event_raws (snd ev))"

lemma event_raws_prefix: "x \<in> event_raws ev \<Longrightarrow> starts_with x API_KEY_PREFIX"
  by (auto simp: event_raws_def generateRawKey_def starts_with_iff split: key_event.splits)

text \<open>C13: A raw key is accepted exactly while a key promises it. After any run of creations, validations, rotations, commits and
  revocations, validation returns a record of a key whose current raw key it is, or whose replaced one within its grace and
  neither committed, superseded nor revoked; when no key promises it, validation returns nothing. The hash is assumed not to
  confuse the presented text with a key that was issued.\<close>

theorem key_accepted_while_promised:
  assumes "new_manager grace env = Inr m" and "sorted (map fst evs)" and "\<forall>ev\<in>set evs. fst ev \<le> now"
    and "\<forall>x\<in>prefixed_raws evs. sha x = sha raw \<longrightarrow> x = raw"
  shows "case fst (validate sha now raw (key_run sha evs m)) of
      None \<Rightarrow> \<forall>(i, k)\<in>set (promise_run (kmGraceMs m) evs []). \<not> promise_accepts now raw k
    | Some r \<Rightarrow> \<exists>k. (akId r, k) \<in> set (promise_run (kmGraceMs m) evs []) \<and> promise_accepts now raw k"
proof -
  let ?S = "promise_run (kmGraceMs m) evs []"
  have empty: "kmStore m = []" using assms(1) by (auto simp: new_manager_def split: option.splits sum.splits)
  define t0 where "t0 = (if evs = [] then now else fst (hd evs))"
  have "\<forall>ev\<in>set evs. t0 \<le> fst ev" "t0 \<le> now" using assms(2,3) by (cases evs; fastforce simp: t0_def)+
  then have keep: "keep_all sha now (kmStore (key_run sha evs m)) ?S"
    using assms(2,3) by (intro key_run_keeps [of _ _ t0]) (simp_all add: empty keep_all_def)
  have "raws_within (prefixed_raws evs) ?S"
    by (rule promise_run_raws) (auto simp: prefixed_raws_def raws_within_def)
  then have raws: "\<forall>(i, k)\<in>set ?S. raws_of k \<subseteq> prefixed_raws evs" by (simp add: raws_within_def)
  show ?thesis
  proof (cases "starts_with raw API_KEY_PREFIX")
    case True
    have "\<forall>(i, k)\<in>set ?S. \<forall>x\<in>raws_of k. sha x = sha raw \<longrightarrow> x = raw" using raws assms(4) by fast
    moreover have "fst (validate sha now raw (key_run sha evs m)) = fst (validate_loop now (hashKey sha raw) (kmStore (key_run sha evs m)))"
      using True by (simp add: validate_def case_prod_beta)
    ultimately show ?thesis using validate_loop_accepts [OF keep] by simp
  next
    case False
    have "\<not> promise_accepts now raw k" if "(i, k) \<in> set ?S" for i k
    proof -
      have "raw \<notin> raws_of k" using False that raws event_raws_prefix unfolding prefixed_raws_def by fast
      then show ?thesis by (auto simp: promise_accepts_def raws_of_def)
    qed
    then show ?thesis using False by (auto simp: validate_def)
  qed
qed


text \<open>A hash for examples: the length of the text in its first byte.\<close>

definition length_hash :: "string \<Rightarrow> 8 word list" where
  "length_hash s = of_nat (length s) # replicate 31 0"

definition rotation_history :: "(int \<times> key_event) list" where
  "rotation_history = [(10, KCreate ''ci'' None None [1] ''k1''), (20, KRotate ''k1'' (Some 1000) [1, 2]), (30, KValidate ''nlk_01'')]"

theorem key_accepted_while_promised_witness:
  "\<exists>m. new_manager (Some 5000) None = Inr m \<and>
     map_option akId (fst (validate length_hash 1020 ''nlk_01'' (key_run length_hash rotation_history m))) = Some ''k1'' \<and>
     fst (validate length_hash 1021 ''nlk_01'' (key_run length_hash rotation_history m)) = None"
proof -
  define m where "m = \<lparr>kmStore = [], kmGraceMs = 5000 :: int\<rparr>"
  have m: "new_manager (Some 5000) None = Inr m" by (simp add: new_manager_def m_def)
  have raws: "prefixed_raws rotation_history = {''nlk_01'', ''nlk_0102''}"
  proof -
    have "generateRawKey [1] = ''nlk_01''" "generateRawKey [1, 2] = ''nlk_0102''" by code_simp+
    then show ?thesis by (simp add: prefixed_raws_def rotation_history_def event_raws_def insert_commute)
  qed
  have inj: "\<forall>x\<in>prefixed_raws rotation_history. length_hash x = length_hash ''nlk_01'' \<longrightarrow> x = ''nlk_01''"
    unfolding raws by (simp add: length_hash_def)
  have S: "promise_run 5000 rotation_history [] = [(''k1'', \<lparr>kpCurrent = ''nlk_0102'', kpPrevious = Some (''nlk_01'', 1020), kpRevoked = False\<rparr>)]"
    by code_simp
  have "sorted (map fst rotation_history)" "\<forall>ev\<in>set rotation_history. fst ev \<le> 1020" "\<forall>ev\<in>set rotation_history. fst ev \<le> 1021"
    by (simp_all add: rotation_history_def)
  from key_accepted_while_promised [OF m this(1,2) inj] key_accepted_while_promised [OF m this(1,3) inj] S m show ?thesis
    by (auto simp: m_def promise_accepts_def split: option.splits)
qed

section \<open>Revocation, rotation and its routes\<close>

lemma validate_loop_revoked:
  "jm_get rs i = Some r \<Longrightarrow> akStatus r = KeyRevoked \<Longrightarrow> jm_get (snd (validate_loop now h rs)) i = Some r"
proof (induction rs)
  case (Cons ir rs)
  obtain j s where ir: "ir = (j, s)" by (cases ir)
  obtain res rs0 where rest: "validate_loop now h rs = (res, rs0)" by fastforce
  show ?case using Cons rest unfolding ir by (cases "j = i") (auto simp: Let_def split: option.split key_status.split)
qed simp

lemma validate_loop_active: "fst (validate_loop now h rs) = Some r \<Longrightarrow> \<exists>j s. (j, s) \<in> set rs \<and> akStatus s \<noteq> KeyRevoked \<and> akId r = akId s"
proof (induction rs)
  case (Cons ir rs)
  obtain j s where ir: "ir = (j, s)" by (cases ir)
  obtain res rs0 where rest: "validate_loop now h rs = (res, rs0)" by fastforce
  show ?case using Cons rest unfolding ir by (fastforce simp: Let_def split: if_splits option.splits key_status.splits)
qed simp

definition well_keyed :: "key_manager \<Rightarrow> bool" where
  "well_keyed m \<longleftrightarrow> jm_wf (kmStore m) \<and> (\<forall>(i, j)\<in>set (map (\<lambda>(i, r). (i, akId r)) (kmStore m)). i = j)"

lemma validate_loop_keys: "map (\<lambda>(i, r). (i, akId r)) (snd (validate_loop now h rs)) = map (\<lambda>(i, r). (i, akId r)) rs"
proof (induction rs)
  case (Cons ir rs)
  obtain j s where ir: "ir = (j, s)" by (cases ir)
  obtain res rs0 where rest: "validate_loop now h rs = (res, rs0)" by fastforce
  show ?case using Cons rest unfolding ir by (auto simp: Let_def end_rotation_def split: option.split key_status.split)
qed simp

lemma validate_loop_ids: "map fst (snd (validate_loop now h rs)) = map fst rs"
proof -
  have "map fst (map (\<lambda>(i, r). (i, akId r)) xs) = map fst xs" for xs :: "(string, api_key) jsmap" by (induction xs) auto
  then show ?thesis using validate_loop_keys [of now h rs] by metis
qed

lemma well_keyed_set:
  assumes "well_keyed m" "akId r = i"
  shows "well_keyed (m\<lparr>kmStore := jm_set (kmStore m) i r\<rparr>)"
proof -
  have "(\<forall>(i, j)\<in>set (map (\<lambda>(i, r). (i, akId r)) xs). i = j) \<Longrightarrow> \<forall>(i, j)\<in>set (map (\<lambda>(i, r). (i, akId r)) (jm_set xs i r)). i = j" for xs
    unfolding jm_set_def by (induction xs) (auto simp: assms(2) split: if_splits)
  from this [of "kmStore m"] show ?thesis using assms(1) by (simp add: well_keyed_def)
qed

lemma well_keyed_get: "well_keyed m \<Longrightarrow> jm_get (kmStore m) i = Some r \<Longrightarrow> akId r = i"
  by (fastforce simp: well_keyed_def dest: jm_get_mem)

lemma well_keyed_step: "well_keyed m \<Longrightarrow> well_keyed (key_step sha now ev m)"
proof (cases ev)
  case (KValidate raw)
  assume m: "well_keyed m"
  have store: "kmStore (m\<lparr>kmStore := x\<rparr>) = x" for x by simp
  from m have "well_keyed (m\<lparr>kmStore := snd (validate_loop now (hashKey sha raw) (kmStore m))\<rparr>)"
    unfolding well_keyed_def jm_wf_def store validate_loop_keys validate_loop_ids .
  then show ?thesis using m KValidate by (auto simp: key_step_def validate_def case_prod_beta)
qed (auto simp: key_step_def create_key_def rotate_key_def commitRotation_def revoke_key_def end_rotation_def Let_def
    split: option.split sum.split intro!: well_keyed_set dest: well_keyed_get)

definition is_revoked :: "string \<Rightarrow> key_manager \<Rightarrow> bool" where
  "is_revoked i m \<longleftrightarrow> (case jm_get (kmStore m) i of Some r \<Rightarrow> akStatus r = KeyRevoked | None \<Rightarrow> False)"

lemma revoked_step:
  assumes "is_revoked i m" "\<And>name ow em bytes. ev \<noteq> KCreate name ow em bytes i"
  shows "is_revoked i (key_step sha now ev m)"
proof -
  obtain r where r: "jm_get (kmStore m) i = Some r" "akStatus r = KeyRevoked" using assms(1) by (auto simp: is_revoked_def split: option.splits)
  show ?thesis using assms(2) r validate_loop_revoked [OF r]
    by (cases ev) (auto simp: is_revoked_def key_step_def create_key_def rotate_key_def commitRotation_def revoke_key_def validate_def Let_def case_prod_beta split: option.split sum.split)
qed

lemma key_run_invariants:
  "well_keyed m \<Longrightarrow> well_keyed (key_run sha evs m)"
  "is_revoked i m \<Longrightarrow> \<forall>ev\<in>set evs. \<forall>name ow em bytes. snd ev \<noteq> KCreate name ow em bytes i \<Longrightarrow> is_revoked i (key_run sha evs m)"
proof -
  show "well_keyed m \<Longrightarrow> well_keyed (key_run sha evs m)"
    by (induction sha evs m rule: key_run.induct) (simp_all add: well_keyed_step)
  show "is_revoked i m \<Longrightarrow> \<forall>ev\<in>set evs. \<forall>name ow em bytes. snd ev \<noteq> KCreate name ow em bytes i \<Longrightarrow> is_revoked i (key_run sha evs m)"
    by (induction sha evs m rule: key_run.induct) (simp_all add: revoked_step)
qed

text \<open>Revocation is final: whatever happens after it, unless a new key gets the same identifier, no text is ever validated as the
  revoked key, for any hash.\<close>

theorem revocation_is_final:
  assumes "new_manager grace env = Inr m0" and "m = key_run sha before m0"
    and "fst (revoke_key i m) = Inr ()" and "\<forall>ev\<in>set after. \<forall>name ow em bytes. snd ev \<noteq> KCreate name ow em bytes i"
    and "fst (validate sha now raw (key_run sha after (snd (revoke_key i m)))) = Some r"
  shows "akId r \<noteq> i"
proof
  assume i: "akId r = i"
  let ?m1 = "snd (revoke_key i m)" and ?m2 = "key_run sha after (snd (revoke_key i m))"
  have "well_keyed m0" using assms(1) by (auto simp: new_manager_def well_keyed_def split: option.splits sum.splits)
  then have m: "well_keyed m" using assms(2) key_run_invariants(1) by simp
  have m1: "well_keyed ?m1" using well_keyed_step [OF m, of sha now "KRevoke i"] by (simp add: key_step_def)
  have "is_revoked i ?m1" using assms(3) by (auto simp: revoke_key_def is_revoked_def split: option.splits)
  then have rev: "is_revoked i ?m2" using assms(4) by (rule key_run_invariants(2))
  have m2: "well_keyed ?m2" using m1 by (rule key_run_invariants(1))
  have "fst (validate_loop now (hashKey sha raw) (kmStore ?m2)) = Some r"
    using assms(5) by (auto simp: validate_def case_prod_beta split: if_splits)
  then obtain j s where s: "(j, s) \<in> set (kmStore ?m2)" "akStatus s \<noteq> KeyRevoked" "akId r = akId s" using validate_loop_active by blast
  then have "j = i" using m2 i by (auto simp: well_keyed_def)
  then have "jm_get (kmStore ?m2) i = Some s" using s(1) m2 by (simp add: well_keyed_def jm_wf_def)
  then show False using rev s(2) by (simp add: is_revoked_def)
qed


theorem revocation_is_final_witness:
  "\<exists>m0. new_manager None None = Inr m0 \<and>
     (let m = key_run length_hash [(1, KCreate ''a'' None None [7] ''k1''), (2, KCreate ''b'' None None [7, 8] ''k2'')] m0;
          res = fst (validate length_hash 9 ''nlk_0708'' (key_run length_hash [(4, KRotate ''k1'' None [9, 9, 9])] (snd (revoke_key ''k1'' m))))
      in \<exists>r. res = Some r \<and> akId r \<noteq> ''k1'')"
proof -
  let ?m0 = "\<lparr>kmStore = [], kmGraceMs = DEFAULT_GRACE_MS\<rparr>" and ?before = "[(1, KCreate ''a'' None None [7] ''k1''), (2, KCreate ''b'' None None [7, 8] ''k2'')]"
  have m0: "new_manager None None = Inr ?m0" by (simp add: new_manager_def resolveDefaultGraceMs_def)
  have ok: "fst (revoke_key ''k1'' (key_run length_hash ?before ?m0)) = Inr ()" by code_simp
  have some: "fst (validate length_hash 9 ''nlk_0708'' (key_run length_hash [(4, KRotate ''k1'' None [9, 9, 9])] (snd (revoke_key ''k1'' (key_run length_hash ?before ?m0))))) \<noteq> None"
    by code_simp
  then obtain r where r: "fst (validate length_hash 9 ''nlk_0708'' (key_run length_hash [(4, KRotate ''k1'' None [9, 9, 9])] (snd (revoke_key ''k1'' (key_run length_hash ?before ?m0))))) = Some r" by auto
  have "akId r \<noteq> ''k1''" by (rule revocation_is_final [OF m0 refl ok _ r]) simp
  then show ?thesis using m0 r by (simp add: Let_def)
qed

lemma validate_loop_finds: "(i, r) \<in> set rs \<Longrightarrow> akStatus r \<noteq> KeyRevoked \<Longrightarrow> safeHashEqual h (akKeyHash r) \<Longrightarrow> fst (validate_loop now h rs) \<noteq> None"
proof (induction rs)
  case (Cons js rs)
  obtain j s where js: "js = (j, s)" by (cases js)
  obtain res rs0 where rest: "validate_loop now h rs = (res, rs0)" by fastforce
  show ?case using Cons rest unfolding js by (auto simp: Let_def split: option.split key_status.split)
qed simp

lemma rotate_key_stores:
  assumes "rotate_key sha now bytes i g m = (Inr res, m')"
  shows "\<exists>r. jm_get (kmStore m') i = Some r \<and> akStatus r \<noteq> KeyRevoked \<and> akKeyHash r = hashKey sha (rrRawKey res) \<and> starts_with (rrRawKey res) API_KEY_PREFIX"
  using assms by (auto simp: rotate_key_def Let_def end_rotation_def generateRawKey_def starts_with_iff split: option.splits sum.splits if_splits)

lemma notify_keeps_manager [simp]: "rsManager (snd (notifyOwner answer u e f s)) = rsManager s"
  unfolding notifyOwner_def by (cases e; simp)

lemma audit_keeps_manager [simp]: "rsManager (writeAudit ok a s) = rsManager s"
  by (simp add: writeAudit_def)

lemma rotate_service_key:
  assumes "rotate_service sha now bytes ok answer keyId graceMs actor s = (Inr res, s')"
  shows "\<exists>rr g. rotate_key sha now bytes keyId g (rsManager s) = (Inr rr, rsManager s') \<and> roRawKey res = rrRawKey rr"
proof -
  define g where "g = (case graceMs of Some g \<Rightarrow> g | None \<Rightarrow> kmGraceMs (rsManager s))"
  obtain x m1 where rot: "rotate_key sha now bytes keyId (Some g) (rsManager s) = (x, m1)" by (metis surj_pair)
  obtain before where before: "get_key keyId (rsManager s) = Some before" 
  proof (cases "get_key keyId (rsManager s)")
    case None
    then show ?thesis using assms by (simp add: rotate_service_def)
  qed
  note run = assms [unfolded rotate_service_def before option.case Let_def, folded g_def, unfolded rot prod.case]
  obtain rr where x: "x = Inr rr" using run by (cases x) simp_all
  have "rsManager s' = m1 \<and> roRawKey res = rrRawKey rr"
    using run [unfolded x sum.case case_prod_beta] by (auto split: if_splits)
  then show ?thesis using rot x by blast
qed

text \<open>A rotation hands out a key that works: when the service returns, whatever became of the audit record and the notification, the
  returned raw key is accepted from then on until the manager changes.\<close>

theorem rotation_hands_out_working_key:
  assumes "rotate_service sha now bytes ok answer keyId graceMs actor s = (Inr res, s')"
  shows "fst (validate sha later (roRawKey res) (rsManager s')) \<noteq> None"
proof -
  obtain rr g where "rotate_key sha now bytes keyId g (rsManager s) = (Inr rr, rsManager s')" "roRawKey res = rrRawKey rr"
    using rotate_service_key [OF assms] by blast
  with rotate_key_stores obtain r where "(keyId, r) \<in> set (kmStore (rsManager s'))" "akStatus r \<noteq> KeyRevoked"
    "akKeyHash r = hashKey sha (roRawKey res)" "starts_with (roRawKey res) API_KEY_PREFIX" by (metis jm_get_mem)
  then show ?thesis using validate_loop_finds [of keyId r] by (simp add: validate_def case_prod_beta)
qed

definition one_key :: rotation_state where
  "one_key = \<lparr>rsManager = key_run length_hash [(10, KCreate ''ci'' (Some ''o'') (Some ''o@x'') [1] ''k1'')] \<lparr>kmStore = [], kmGraceMs = 5000\<rparr>,
     rsAudit = [], rsNotices = []\<rparr>"

definition one_actor :: rotation_actor where
  "one_actor = \<lparr>raId = ''o'', raIpAddress = ''ip'', raUserAgent = ''ua''\<rparr>"

theorem rotation_hands_out_working_key_witness:
  "\<exists>res s'. rotate_service length_hash 20 [1, 2] False None ''k1'' None one_actor one_key = (Inr res, s') \<and> roRawKey res = ''nlk_0102'' \<and>
     fst (validate length_hash 999 ''nlk_0102'' (rsManager s')) \<noteq> None"
proof -
  have "(case fst (rotate_service length_hash 20 [1, 2] False None ''k1'' None one_actor one_key) of Inr res \<Rightarrow> roRawKey res = ''nlk_0102'' | Inl e \<Rightarrow> False)"
    by code_simp
  then obtain res s' where "rotate_service length_hash 20 [1, 2] False None ''k1'' None one_actor one_key = (Inr res, s')" "roRawKey res = ''nlk_0102''"
    by (cases "rotate_service length_hash 20 [1, 2] False None ''k1'' None one_actor one_key") (auto split: sum.splits)
  with rotation_hands_out_working_key [OF this(1), of 999] show ?thesis by auto
qed

text \<open>Only the owner of a key or a super admin rotates or commits it: a request of anyone else changes neither the keys nor the audit
  trail, and no one is notified.\<close>

theorem only_owner_or_super_admin:
  assumes "\<not> auSuper admin" and "\<And>r. jm_get (kmStore (rsManager s)) i = Some r \<Longrightarrow> akOwnerId r \<noteq> Some (auId admin)"
  shows "snd (rotate_route sha now bytes ok answer admin ip agent i body s) = s \<and> snd (commit_route ok admin ip agent i s) = s"
  using assms by (auto simp: rotate_route_def commit_route_def authorizeKeyAccess_def get_key_def safe_view_def split: sum.split option.split)

text \<open>A replaced key is never accepted for more than 30 days: every grace that a rotation starts, by the service or directly, ends
  within them, and a default read from the environment is in the same range.\<close>

theorem grace_is_bounded:
  "(case rotate_key sha now bytes i grace m of (Inr res, m') \<Rightarrow> now \<le> rrGraceEndsAt res \<and> rrGraceEndsAt res \<le> now + MAX_GRACE_MS | (Inl e, m') \<Rightarrow> m' = m) \<and>
   (case resolveDefaultGraceMs env of Inr g \<Rightarrow> 0 \<le> g \<and> g \<le> MAX_GRACE_MS | Inl e \<Rightarrow> e = RangeError ''Grace period'')"
  by (auto simp: rotate_key_def resolveDefaultGraceMs_def assertValidGraceMs_def Let_def DEFAULT_GRACE_MS_def MAX_GRACE_MS_def split: option.split)

definition ended_grace :: "(string \<Rightarrow> 8 word list) \<Rightarrow> key_manager" where
  "ended_grace sha = key_run sha [(10, KCreate ''ci'' (Some ''o'') None [1] ''k1''), (20, KRotate ''k1'' (Some 1000) [1, 2])] \<lparr>kmStore = [], kmGraceMs = 5000\<rparr>"

text \<open>A grace that has ended is noticed only by a validation that reaches the record: until then the key is listed as rotating, and the
  route commits a rotation that a validation in between would have made it refuse.\<close>

theorem ended_grace_unnoticed:
  "fst (commit_route True \<lparr>auId = ''o'', auSuper = False\<rparr> ''ip'' ''ua'' ''k1'' \<lparr>rsManager = ended_grace length_hash, rsAudit = [], rsNotices = []\<rparr>) = KeyCommitted ''k1'' \<and>
   fst (commit_route True \<lparr>auId = ''o'', auSuper = False\<rparr> ''ip'' ''ua'' ''k1''
     \<lparr>rsManager = snd (validate length_hash 999999 ''nlk_0'' (ended_grace length_hash)), rsAudit = [], rsNotices = []\<rparr>) = KeyError 409"
  by code_simp


theorem only_owner_or_super_admin_witness:
  "snd (rotate_route length_hash 20 [1, 2] True (Some [True]) \<lparr>auId = ''x'', auSuper = False\<rparr> ''ip'' ''ua'' ''k1'' JUndef one_key) = one_key"
proof -
  have "akOwnerId r \<noteq> Some ''x''" if "jm_get (kmStore (rsManager one_key)) ''k1'' = Some r" for r
  proof -
    have "map_option akOwnerId (jm_get (kmStore (rsManager one_key)) ''k1'') = Some (Some ''o'')" by code_simp
    then show ?thesis using that by simp
  qed
  then show ?thesis using only_owner_or_super_admin [of "\<lparr>auId = ''x'', auSuper = False\<rparr>" one_key "''k1''"] by simp
qed

end
