(* ===== verification/Dividends.thy ===== *)
theory Dividends
  imports Pagination "HOL-Library.Signed_Division" "HOL-Library.Multiset"
begin

text \<open>
  \<open>backend/src/services/dividendService.ts\<close>: the share calculation, the arguments of the contract calls and
  the reading of their results, and the projection of the contract's events into pools, claims and holder
  snapshots with its reports.

  Amounts are \<open>bigint\<close>s (\<open>int\<close>); the database columns hold 64 bits, and a value beyond them makes the
  statement fail. The simulation of a contract call and the query client are parameters; times are
  milliseconds.
\<close>

section \<open>Shares\<close>

definition calculateDividendShare :: "int \<Rightarrow> int \<Rightarrow> int \<Rightarrow> (service_error, int) res" where
  "calculateDividendShare holderBalance totalAmount totalSupplyAtSnapshot =
     (if holderBalance < 0 \<or> totalAmount < 0 \<or> totalSupplyAtSnapshot \<le> 0 then
        Inl (RangeError ''calculateDividendShare: holderBalance/totalAmount must be >= 0 and totalSupplyAtSnapshot must be > 0'')
      else Inr ((holderBalance * totalAmount) sdiv totalSupplyAtSnapshot))"

section \<open>Contract errors\<close>

definition DIVIDEND_CONTRACT_ERRORS :: "nat \<Rightarrow> string option" where
  "DIVIDEND_CONTRACT_ERRORS = map_of
     [(2, ''Unauthorized''), (3, ''InvalidParameters''), (4, ''TokenNotFound''), (8, ''ArithmeticError''),
      (14, ''ContractPaused''), (21, ''NothingToClaim''), (22, ''MissingAdmin''), (23, ''MissingTreasury''),
      (100, ''DistributionNotFound''), (101, ''DistributionWindowClosed''), (102, ''DistributionWindowOpen''),
      (103, ''DistributionAlreadyClaimed''), (104, ''DistributionAlreadyReclaimed''), (105, ''DistributionZeroSupply'')]"

text \<open>The regular expression: \<open>Error(Contract,\<close>, white space, \<open>#\<close>, digits, a closing parenthesis.\<close>

definition match_code_here :: "string \<Rightarrow> nat option" where
  "match_code_here s =
     (if starts_with s ''Error(Contract,'' then
        (case dropWhile is_space (drop (length ''Error(Contract,'') s) of
           [] \<Rightarrow> None
         | c # rest \<Rightarrow>
             if c = CHR ''#'' \<and> takeWhile is_digit rest \<noteq> [] \<and> starts_with (dropWhile is_digit rest) '')''
             then Some (digits_val (takeWhile is_digit rest)) else None)
      else None)"

fun match_code :: "string \<Rightarrow> nat option" where
  "match_code [] = None"
| "match_code (c # s) = (case match_code_here (c # s) of Some n \<Rightarrow> Some n | None \<Rightarrow> match_code s)"

definition mapContractError :: "string \<Rightarrow> string" where
  "mapContractError message =
     (case match_code message of
        Some code \<Rightarrow>
          (case DIVIDEND_CONTRACT_ERRORS code of
             Some name \<Rightarrow> name @ '' (contract error #'' @ show_nat code @ '')''
           | None \<Rightarrow> ''Contract error #'' @ show_nat code)
      | None \<Rightarrow> message)"

section \<open>Contract calls\<close>

datatype scval = ScAddress string | ScU32 int | ScI128 int

record invocation =
  ivMethod :: string
  ivArgs :: "scval list"
  ivSource :: string

definition buildInitiateDistributionTx :: "string \<Rightarrow> int \<Rightarrow> string \<Rightarrow> string \<Rightarrow> int \<Rightarrow> (service_error, invocation) res" where
  "buildInitiateDistributionTx admin tokenIndex asset totalAmount claimDeadlineLedger =
     (case big_int_of totalAmount of
        None \<Rightarrow> Inl (SyntaxError totalAmount)
      | Some amount \<Rightarrow>
          Inr \<lparr>ivMethod = ''initiate_distribution'',
            ivArgs = [ScAddress admin, ScU32 tokenIndex, ScAddress asset, ScI128 amount, ScU32 claimDeadlineLedger],
            ivSource = admin\<rparr>)"

definition buildClaimDividendTx :: "string \<Rightarrow> int \<Rightarrow> invocation" where
  "buildClaimDividendTx holder distributionId =
     \<lparr>ivMethod = ''claim_dividend'', ivArgs = [ScAddress holder, ScU32 distributionId], ivSource = holder\<rparr>"

definition buildReclaimUnclaimedTx :: "string \<Rightarrow> int \<Rightarrow> invocation" where
  "buildReclaimUnclaimedTx admin distributionId =
     \<lparr>ivMethod = ''reclaim_unclaimed'', ivArgs = [ScAddress admin, ScU32 distributionId], ivSource = admin\<rparr>"

text \<open>The outcome of a simulated read-only call, \<open>'v\<close> the decoded value.\<close>

datatype 'v simulation = SimError string | SimNoResult | SimOk 'v

definition simulateReadCall :: "'v simulation \<Rightarrow> (service_error, 'v) res" where
  "simulateReadCall sim =
     (case sim of SimError e \<Rightarrow> Inl (PlainError (mapContractError e))
      | SimNoResult \<Rightarrow> Inl (PlainError ''Simulation did not return a result'')
      | SimOk v \<Rightarrow> Inr v)"

record raw_distribution =
  raw_id :: int
  raw_token_index :: int
  raw_asset :: string
  raw_total_amount :: int
  raw_snapshot_ledger :: int
  raw_total_supply_at_snapshot :: int
  raw_claim_deadline_ledger :: int
  raw_reclaimed :: bool
  raw_created_at :: int

record distribution_record =
  drId :: int
  drTokenIndex :: int
  drAsset :: string
  drTotalAmount :: string
  drSnapshotLedger :: int
  drTotalSupplyAtSnapshot :: string
  drClaimDeadlineLedger :: int
  drReclaimed :: bool
  drCreatedAt :: string

definition getDistribution :: "raw_distribution simulation \<Rightarrow> (service_error, distribution_record) res" where
  "getDistribution sim =
     (case simulateReadCall sim of
        Inl e \<Rightarrow> Inl e
      | Inr raw \<Rightarrow>
          Inr \<lparr>drId = raw_id raw, drTokenIndex = raw_token_index raw, drAsset = raw_asset raw,
            drTotalAmount = show_int (raw_total_amount raw), drSnapshotLedger = raw_snapshot_ledger raw,
            drTotalSupplyAtSnapshot = show_int (raw_total_supply_at_snapshot raw),
            drClaimDeadlineLedger = raw_claim_deadline_ledger raw, drReclaimed = raw_reclaimed raw,
            drCreatedAt = show_int (raw_created_at raw)\<rparr>)"

definition hasClaimedDividend :: "bool simulation \<Rightarrow> (service_error, bool) res" where
  "hasClaimedDividend sim = simulateReadCall sim"

definition getDividendClaimedTotal :: "int simulation \<Rightarrow> (service_error, string) res" where
  "getDividendClaimedTotal sim = (case simulateReadCall sim of Inl e \<Rightarrow> Inl e | Inr n \<Rightarrow> Inr (show_int n))"

definition getDistributionCount :: "int simulation \<Rightarrow> (service_error, int) res" where
  "getDistributionCount sim = simulateReadCall sim"

section \<open>The projection\<close>

datatype pool_status = ACTIVE | EXHAUSTED | EXPIRED | CANCELLED

record pool_row =
  prId :: string
  prDistributionId :: int
  prTokenId :: string
  prAsset :: string
  prFundedBy :: string
  prTotalAmount :: int
  prClaimedAmount :: int
  prSupplySnapshot :: int
  prSnapshotLedger :: int
  prClaimDeadlineLedger :: "int option"
  prExpiresAt :: "int option"
  prStatus :: pool_status
  prTxHash :: string

record claim_row =
  crId :: string
  crPoolId :: string
  crClaimant :: string
  crAmount :: int
  crTxHash :: string
  crClaimedAt :: int

record snapshot_row =
  srId :: string
  srPoolId :: string
  srHolder :: string
  srBalance :: int
  srClaimable :: int

record dividend_db =
  dbPools :: "pool_row list"
  dbClaims :: "claim_row list"
  dbSnapshots :: "snapshot_row list"

definition findPool :: "int \<Rightarrow> dividend_db \<Rightarrow> pool_row option" where
  "findPool distributionId db = List.find (\<lambda>p. prDistributionId p = distributionId) (dbPools db)"

definition findClaim :: "string \<Rightarrow> dividend_db \<Rightarrow> claim_row option" where
  "findClaim txHash db = List.find (\<lambda>c. crTxHash c = txHash) (dbClaims db)"

definition findSnapshot :: "string \<Rightarrow> string \<Rightarrow> dividend_db \<Rightarrow> snapshot_row option" where
  "findSnapshot poolId holder db = List.find (\<lambda>s. srPoolId s = poolId \<and> srHolder s = holder) (dbSnapshots db)"

text \<open>The amount in a claim event, as the event decoder leaves it, and \<open>BigInt\<close> of it.\<close>

datatype amount_value = AmountBig int | AmountNum int | AmountStr string | AmountMissing

definition bigInt :: "amount_value \<Rightarrow> (service_error, int) res" where
  "bigInt v = (case v of AmountBig n \<Rightarrow> Inr n | AmountNum n \<Rightarrow> Inr n
     | AmountMissing \<Rightarrow> Inl (PlainError ''Cannot convert undefined to a BigInt'')
     | AmountStr s \<Rightarrow> (case big_int_of s of None \<Rightarrow> Inl (SyntaxError s) | Some n \<Rightarrow> Inr n))"

datatype event_data = Initiated string int | Claimed string amount_value | NoData

record dividend_event =
  deTopic :: string
  deDistributionId :: int
  deData :: event_data
  deTxHash :: string

text \<open>What the database generates: row ids, the time, and whether its statements go through.\<close>

record db_run =
  drnOk :: bool
  drnId :: string
  drnId2 :: string
  drnNow :: int

definition resolveTokenIdByIndex :: "int \<Rightarrow> string option" where
  "resolveTokenIdByIndex tokenIndex = None"

definition ingestDistributionInitiated ::
  "raw_distribution simulation \<Rightarrow> db_run \<Rightarrow> dividend_event \<Rightarrow> dividend_db \<Rightarrow> (service_error, unit) res \<times> dividend_db" where
  "ingestDistributionInitiated sim r event db =
     (let distributionId = deDistributionId event;
          (admin, tokenIndex) = (case deData event of Initiated a i \<Rightarrow> (a, i) | Claimed h a \<Rightarrow> (h, 0) | NoData \<Rightarrow> ('''', 0))
      in if \<not> drnOk r then (Inl (DatabaseError ''unavailable''), db)
         else if findPool distributionId db \<noteq> None then (Inr (), db)
         else
           (case resolveTokenIdByIndex tokenIndex of
              None \<Rightarrow> (Inr (), db)
            | Some tokenId \<Rightarrow>
                (case getDistribution sim of
                   Inl e \<Rightarrow> (Inl e, db)
                 | Inr record \<Rightarrow>
                     (case (big_int_of (drTotalAmount record), big_int_of (drTotalSupplyAtSnapshot record)) of
                        (Some tot, Some supply) \<Rightarrow>
                          if \<not> bigint_column tot \<or> \<not> bigint_column supply \<or> deTxHash event \<in> prTxHash ` set (dbPools db)
                          then (Inl (DatabaseError ''create''), db)
                          else
                            (Inr (), db\<lparr>dbPools := dbPools db @
                               [\<lparr>prId = drnId r, prDistributionId = distributionId, prTokenId = tokenId,
                                 prAsset = drAsset record, prFundedBy = admin, prTotalAmount = tot, prClaimedAmount = 0,
                                 prSupplySnapshot = supply, prSnapshotLedger = drSnapshotLedger record,
                                 prClaimDeadlineLedger = Some (drClaimDeadlineLedger record), prExpiresAt = None,
                                 prStatus = ACTIVE, prTxHash = deTxHash event\<rparr>]\<rparr>)
                      | _ \<Rightarrow> (Inl (SyntaxError (drTotalAmount record)), db)))))"

text \<open>
  A claim event, in two parts: the reads, and the transaction that records the claim. Between them
  another ingestion can run.
\<close>

definition claimRead :: "db_run \<Rightarrow> dividend_event \<Rightarrow> dividend_db \<Rightarrow> (service_error, (pool_row \<times> string \<times> int) option) res" where
  "claimRead r event db =
     (let (holder, amount) = (case deData event of Claimed h a \<Rightarrow> (h, a) | Initiated a i \<Rightarrow> (a, AmountNum i) | NoData \<Rightarrow> ('''', AmountMissing))
      in case bigInt amount of
           Inl e \<Rightarrow> Inl e
         | Inr claimedAmount \<Rightarrow>
             if \<not> drnOk r then Inl (DatabaseError ''unavailable'')
             else
               (case findPool (deDistributionId event) db of
                  None \<Rightarrow> Inr None
                | Some pool \<Rightarrow> if findClaim (deTxHash event) db \<noteq> None then Inr None else Inr (Some (pool, holder, claimedAmount))))"

definition snapshotBalance :: "pool_row \<Rightarrow> int \<Rightarrow> int" where
  "snapshotBalance pool claimedAmount =
     (if prTotalAmount pool > 0 then (claimedAmount * prSupplySnapshot pool) sdiv prTotalAmount pool else 0)"

definition upsertSnapshot :: "string \<Rightarrow> pool_row \<Rightarrow> string \<Rightarrow> int \<Rightarrow> dividend_db \<Rightarrow> dividend_db" where
  "upsertSnapshot i pool holder claimedAmount db =
     (case findSnapshot (prId pool) holder db of
        None \<Rightarrow> db\<lparr>dbSnapshots := dbSnapshots db @
          [\<lparr>srId = i, srPoolId = prId pool, srHolder = holder, srBalance = snapshotBalance pool claimedAmount, srClaimable = claimedAmount\<rparr>]\<rparr>
      | Some _ \<Rightarrow> db\<lparr>dbSnapshots := map (\<lambda>s. if srPoolId s = prId pool \<and> srHolder s = holder then s\<lparr>srClaimable := claimedAmount\<rparr> else s) (dbSnapshots db)\<rparr>)"

definition claimCommit ::
  "db_run \<Rightarrow> string \<Rightarrow> pool_row \<Rightarrow> string \<Rightarrow> int \<Rightarrow> dividend_db \<Rightarrow> (service_error, unit) res \<times> dividend_db" where
  "claimCommit r txHash pool holder claimedAmount db =
     (if \<not> drnOk r \<or> findClaim txHash db \<noteq> None \<or> prId pool \<notin> prId ` set (dbPools db) \<or> \<not> bigint_column claimedAmount
         \<or> (\<exists>p\<in>set (dbPools db). prId p = prId pool \<and> \<not> bigint_column (prClaimedAmount p + claimedAmount))
         \<or> (findSnapshot (prId pool) holder db = None \<and> \<not> bigint_column (snapshotBalance pool claimedAmount))
      then (Inl (DatabaseError ''transaction''), db)
      else
        (let db1 = db\<lparr>dbClaims := dbClaims db @
               [\<lparr>crId = drnId r, crPoolId = prId pool, crClaimant = holder, crAmount = claimedAmount, crTxHash = txHash, crClaimedAt = drnNow r\<rparr>]\<rparr>;
             db2 = db1\<lparr>dbPools := map (\<lambda>p. if prId p = prId pool then p\<lparr>prClaimedAmount := prClaimedAmount p + claimedAmount\<rparr> else p) (dbPools db1)\<rparr>
         in (Inr (), upsertSnapshot (drnId2 r) pool holder claimedAmount db2)))"

definition ingestDividendClaimed :: "db_run \<Rightarrow> dividend_event \<Rightarrow> dividend_db \<Rightarrow> (service_error, unit) res \<times> dividend_db" where
  "ingestDividendClaimed r event db =
     (case claimRead r event db of
        Inl e \<Rightarrow> (Inl e, db)
      | Inr None \<Rightarrow> (Inr (), db)
      | Inr (Some (pool, holder, claimedAmount)) \<Rightarrow> claimCommit r (deTxHash event) pool holder claimedAmount db)"

definition ingestDividendReclaimed :: "db_run \<Rightarrow> dividend_event \<Rightarrow> dividend_db \<Rightarrow> (service_error, unit) res \<times> dividend_db" where
  "ingestDividendReclaimed r event db =
     (if \<not> drnOk r then (Inl (DatabaseError ''unavailable''), db)
      else
        (case findPool (deDistributionId event) db of
           None \<Rightarrow> (Inr (), db)
         | Some pool \<Rightarrow>
             (Inr (), db\<lparr>dbPools := map (\<lambda>p. if prId p = prId pool then p\<lparr>prStatus := EXHAUSTED\<rparr> else p) (dbPools db)\<rparr>)))"

definition ingestDividendEvent ::
  "raw_distribution simulation \<Rightarrow> db_run \<Rightarrow> dividend_event \<Rightarrow> dividend_db \<Rightarrow> (service_error, unit) res \<times> dividend_db" where
  "ingestDividendEvent sim r event db =
     (if deTopic event = ''div_ini1'' then ingestDistributionInitiated sim r event db
      else if deTopic event = ''div_clm1'' then ingestDividendClaimed r event db
      else if deTopic event = ''div_rcl1'' then ingestDividendReclaimed r event db
      else (Inl (PlainError (''Unrecognised dividend event topic: '' @ deTopic event)), db))"

section \<open>Reports\<close>

definition pageLimit :: "int option \<Rightarrow> int" where
  "pageLimit limit = min (max (case limit of Some l \<Rightarrow> l | None \<Rightarrow> 25) 1) 100"

record claim_view =
  cvClaimant :: string
  cvAmount :: string
  cvTxHash :: string
  cvClaimedAt :: int

record holder_view =
  hvHolder :: string
  hvBalance :: string
  hvClaimable :: string

text \<open>The page of a list query, with the query client and the row's id and view as parameters.\<close>

definition list_page ::
  "(query_args \<Rightarrow> 'a list) \<Rightarrow> ('a \<Rightarrow> string) \<Rightarrow> ('a \<Rightarrow> 'v) \<Rightarrow> int option \<Rightarrow> string option \<Rightarrow> 'v list \<times> string option" where
  "list_page findMany ident view limit cursor =
     (let l = pageLimit limit;
          hasCursor = (case cursor of Some c \<Rightarrow> c \<noteq> [] | None \<Rightarrow> False);
          rows = findMany \<lparr>qaFirst = l, qaTake = l + 1, qaCursor = (if hasCursor then cursor else None),
                           qaSkip = (if hasCursor then Some 1 else None)\<rparr>;
          hasMore = int (length rows) > l;
          page = (if hasMore then take (nat l) rows else rows)
      in (map view page, if hasMore then Some (ident (last page)) else None))"

definition listClaimsForDistribution ::
  "(string \<Rightarrow> query_args \<Rightarrow> claim_row list) \<Rightarrow> int \<Rightarrow> int option \<Rightarrow> string option \<Rightarrow> dividend_db \<Rightarrow> claim_view list \<times> string option" where
  "listClaimsForDistribution findMany distributionId limit cursor db =
     (case findPool distributionId db of
        None \<Rightarrow> ([], None)
      | Some pool \<Rightarrow>
          list_page (findMany (prId pool)) crId
            (\<lambda>c. \<lparr>cvClaimant = crClaimant c, cvAmount = show_int (crAmount c), cvTxHash = crTxHash c, cvClaimedAt = crClaimedAt c\<rparr>) limit cursor)"

definition listHolderSnapshotsForDistribution ::
  "(string \<Rightarrow> query_args \<Rightarrow> snapshot_row list) \<Rightarrow> int \<Rightarrow> int option \<Rightarrow> string option \<Rightarrow> dividend_db \<Rightarrow> holder_view list \<times> string option" where
  "listHolderSnapshotsForDistribution findMany distributionId limit cursor db =
     (case findPool distributionId db of
        None \<Rightarrow> ([], None)
      | Some pool \<Rightarrow>
          list_page (findMany (prId pool)) srId
            (\<lambda>h. \<lparr>hvHolder = srHolder h, hvBalance = show_int (srBalance h), hvClaimable = show_int (srClaimable h)\<rparr>) limit cursor)"

datatype claim_state = CLAIMABLE | CLAIMED | CLAIM_EXPIRED | NOTHING_TO_CLAIM | UNKNOWN

record claim_status =
  csDistributionId :: int
  csHolder :: string
  csStatus :: claim_state
  csKnown :: bool
  csClaimableAmount :: "string option"
  csClaimedAmount :: string
  csClaimedAt :: "int option"
  csClaimDeadlineLedger :: "int option"
  csExpiresAt :: "int option"
  csExpired :: bool
  csPoolStatus :: pool_status

definition CLOSED_POOL_STATUSES :: "pool_status set" where
  "CLOSED_POOL_STATUSES = {EXHAUSTED, EXPIRED, CANCELLED}"

definition claimsOf :: "string \<Rightarrow> string \<Rightarrow> dividend_db \<Rightarrow> claim_row list" where
  "claimsOf poolId holder db =
     sort_key (\<lambda>c. - crClaimedAt c) (filter (\<lambda>c. crPoolId c = poolId \<and> crClaimant c = holder) (dbClaims db))"

definition getDividendClaimStatus :: "int \<Rightarrow> string \<Rightarrow> int \<Rightarrow> dividend_db \<Rightarrow> claim_status option" where
  "getDividendClaimStatus distributionId holder now db =
     (case findPool distributionId db of
        None \<Rightarrow> None
      | Some pool \<Rightarrow>
          (let snapshot = findSnapshot (prId pool) holder db;
               claims = claimsOf (prId pool) holder db;
               expired = prStatus pool \<in> CLOSED_POOL_STATUSES \<or> (case prExpiresAt pool of Some e \<Rightarrow> e \<le> now | None \<Rightarrow> False);
               claimedAmount = foldl (\<lambda>sum c. sum + crAmount c) 0 claims;
               hasClaimed = claims \<noteq> [];
               known = hasClaimed \<or> snapshot \<noteq> None;
               (status, claimableAmount) =
                 (if hasClaimed then (CLAIMED, Some 0)
                  else if expired then (CLAIM_EXPIRED, Some 0)
                  else case snapshot of
                         Some s \<Rightarrow> (if srClaimable s > 0 then CLAIMABLE else NOTHING_TO_CLAIM, Some (srClaimable s))
                       | None \<Rightarrow> (UNKNOWN, None))
           in Some \<lparr>csDistributionId = distributionId, csHolder = holder, csStatus = status, csKnown = known,
                    csClaimableAmount = map_option show_int claimableAmount, csClaimedAmount = show_int claimedAmount,
                    csClaimedAt = (if hasClaimed then Some (crClaimedAt (hd claims)) else None),
                    csClaimDeadlineLedger = prClaimDeadlineLedger pool, csExpiresAt = prExpiresAt pool,
                    csExpired = expired, csPoolStatus = prStatus pool\<rparr>))"

section \<open>Shares stay within the total\<close>

lemma share_is_floor:
  assumes "0 \<le> b" and "0 \<le> tot" and "0 < s"
  shows "calculateDividendShare b tot s = Inr (b * tot div s)"
  using assms by (simp add: calculateDividendShare_def signed_divide_int_def sgn_if zero_le_mult_iff abs_mult)

lemma sum_div_le: "(s :: int) > 0 \<Longrightarrow> sum_list (map (\<lambda>b. f b div s) bs) * s \<le> sum_list (map f bs)"
proof (induction bs)
  case (Cons b bs)
  have "f b div s * s \<le> f b" using Cons.prems by (simp add: minus_mod_eq_div_mult [symmetric])
  then show ?case using Cons by (simp add: distrib_right)
qed simp

lemma sum_div_gt: "(s :: int) > 0 \<Longrightarrow> sum_list (map f bs) \<le> sum_list (map (\<lambda>b. f b div s) bs) * s + int (length bs) * (s - 1)"
proof (induction bs)
  case (Cons b bs)
  have "f b = f b div s * s + f b mod s" by simp
  moreover have "f b mod s \<le> s - 1" using pos_mod_bound [OF Cons.prems, of "f b"] by simp
  ultimately have "f b \<le> f b div s * s + (s - 1)" by linarith
  then show ?case using Cons by (simp add: algebra_simps)
qed simp

lemma shares_bounds:
  assumes b: "\<forall>b\<in>set bs. 0 \<le> b" and tot: "0 \<le> tot" and s: "0 < s" and sum: "sum_list bs \<le> s"
  shows "sum_list (map (\<lambda>b. b * tot div s) bs) \<le> tot"
    and "sum_list bs = s \<Longrightarrow> bs \<noteq> [] \<Longrightarrow> tot - sum_list (map (\<lambda>b. b * tot div s) bs) < int (length bs)"
proof -
  have total: "sum_list (map (\<lambda>b. b * tot) bs) = sum_list bs * tot" by (simp add: sum_list_mult_const)
  have "sum_list (map (\<lambda>b. b * tot div s) bs) * s \<le> sum_list bs * tot"
    using sum_div_le [OF s, of "\<lambda>b. b * tot" bs] total by simp
  also have "\<dots> \<le> s * tot" using sum tot by (simp add: mult_right_mono)
  finally show "sum_list (map (\<lambda>b. b * tot div s) bs) \<le> tot" using s by (simp add: mult.commute)
  assume all: "sum_list bs = s" "bs \<noteq> []"
  define n where "n = int (length bs)"
  have "s * tot \<le> sum_list (map (\<lambda>b. b * tot div s) bs) * s + n * (s - 1)"
    using sum_div_gt [OF s, of "\<lambda>b. b * tot" bs] total all by (simp add: n_def)
  moreover have "0 < n" using all by (simp add: n_def)
  ultimately have "s * (tot - sum_list (map (\<lambda>b. b * tot div s) bs)) < s * n"
    by (simp add: algebra_simps)
  then have "s * (tot - sum_list (map (\<lambda>b. b * tot div s) bs)) < s * int (length bs)" by (simp only: n_def)
  then show "tot - sum_list (map (\<lambda>b. b * tot div s) bs) < int (length bs)" using s by simp
qed

text \<open>C40: The shares of all holders of a snapshot sum up to at most the distribution's total, and when the
  holders hold the whole supply, less than one unit per holder is left undistributed.\<close>

theorem dividend_shares_within_total:
  assumes "\<forall>b\<in>set bs. 0 \<le> b" and "0 \<le> tot" and "0 < s" and "sum_list bs \<le> s" and "bs \<noteq> []"
  shows "\<exists>shares. map (\<lambda>b. calculateDividendShare b tot s) bs = map Inr shares \<and> sum_list shares \<le> tot
    \<and> (sum_list bs < s \<or> tot - sum_list shares < int (length bs))"
proof (intro exI conjI)
  show "map (\<lambda>b. calculateDividendShare b tot s) bs = map Inr (map (\<lambda>b. b * tot div s) bs)"
    using assms by (simp add: share_is_floor)
  show "sum_list (map (\<lambda>b. b * tot div s) bs) \<le> tot" using shares_bounds(1) assms by blast
  show "sum_list bs < s \<or> tot - sum_list (map (\<lambda>b. b * tot div s) bs) < int (length bs)"
    using shares_bounds(2) [OF assms(1-4)] assms(4,5) by linarith
qed

theorem dividend_shares_within_total_witness:
  "\<exists>shares. map (\<lambda>b. calculateDividendShare b 100 7) [1, 2, 4] = map Inr shares \<and> sum_list shares \<le> 100
    \<and> (sum_list [1, 2, 4 :: int] < 7 \<or> 100 - sum_list shares < int (length [1, 2, 4 :: int]))"
  by (rule dividend_shares_within_total) simp_all

text \<open>The balance derived from a share never exceeds the holder's.\<close>

lemma derived_balance_bound:
  assumes "0 \<le> b" and "0 < prTotalAmount pool" and "0 < prSupplySnapshot pool"
    and "calculateDividendShare b (prTotalAmount pool) (prSupplySnapshot pool) = Inr share"
  shows "snapshotBalance pool share \<le> b"
proof -
  let ?T = "prTotalAmount pool" and ?S = "prSupplySnapshot pool"
  have share: "share = b * ?T div ?S" using assms share_is_floor [of b ?T ?S] by simp
  then have nn: "0 \<le> share" using assms by (simp add: pos_imp_zdiv_nonneg_iff)
  have "share * ?S \<le> b * ?T" unfolding share using assms(3) by (simp add: minus_mod_eq_div_mult [symmetric])
  then have "share * ?S div ?T \<le> b * ?T div ?T" using assms(2) by (intro zdiv_mono1)
  then have "share * ?S div ?T \<le> b" using assms(2) by simp
  then show ?thesis
    using nn assms by (simp add: snapshotBalance_def signed_divide_int_def sgn_if abs_mult zero_le_mult_iff split: if_splits)
qed

section \<open>The projection counts each claim once\<close>

text \<open>
  Ingestions of one deployment. A claim event is either handled in one go or read first and
  committed later, so that any number of ingestions overlap.
\<close>

record div_sys =
  dyDb :: dividend_db
  dyPending :: "(string \<times> pool_row \<times> string \<times> int) list"

inductive div_step :: "raw_distribution simulation \<Rightarrow> div_sys \<Rightarrow> div_sys \<Rightarrow> bool" for sim where
  ingest: "ingestDividendEvent sim r event (dyDb x) = (res, db) \<Longrightarrow> div_step sim x (x\<lparr>dyDb := db\<rparr>)"
| claim_read: "claimRead r event (dyDb x) = Inr (Some (pool, holder, amount)) \<Longrightarrow>
    div_step sim x (x\<lparr>dyPending := (deTxHash event, pool, holder, amount) # dyPending x\<rparr>)"
| claim_commit: "(txHash, pool, holder, amount) \<in> set (dyPending x) \<Longrightarrow>
    claimCommit r txHash pool holder amount (dyDb x) = (res, db) \<Longrightarrow>
    div_step sim x (x\<lparr>dyDb := db, dyPending := remove1 (txHash, pool, holder, amount) (dyPending x)\<rparr>)"

definition claimedTotal :: "string \<Rightarrow> claim_row list \<Rightarrow> int" where
  "claimedTotal poolId claims = sum_list (map crAmount (filter (\<lambda>c. crPoolId c = poolId) claims))"

definition div_inv :: "dividend_db \<Rightarrow> bool" where
  "div_inv db \<longleftrightarrow> distinct (map crTxHash (dbClaims db))
     \<and> (\<forall>p\<in>set (dbPools db). prClaimedAmount p = claimedTotal (prId p) (dbClaims db))
     \<and> (\<forall>s\<in>set (dbSnapshots db). \<exists>c\<in>set (dbClaims db). crPoolId c = srPoolId s \<and> crClaimant c = srHolder s)"

lemma findClaim_None: "findClaim txHash db = None \<longleftrightarrow> txHash \<notin> crTxHash ` set (dbClaims db)"
  by (auto simp: findClaim_def find_None_iff)

lemma findSnapshot_Some: "findSnapshot i h db = Some s \<Longrightarrow> s \<in> set (dbSnapshots db) \<and> srPoolId s = i \<and> srHolder s = h"
  by (auto simp: findSnapshot_def find_Some_iff)

lemma upsertSnapshot_frame [simp]:
  "dbPools (upsertSnapshot i pool holder a db) = dbPools db" "dbClaims (upsertSnapshot i pool holder a db) = dbClaims db"
  by (simp_all add: upsertSnapshot_def split: option.splits)

lemma upsertSnapshot_keys:
  "(\<lambda>s. (srPoolId s, srHolder s)) ` set (dbSnapshots (upsertSnapshot i pool holder a db)) =
     insert (prId pool, holder) ((\<lambda>s. (srPoolId s, srHolder s)) ` set (dbSnapshots db))"
proof (cases "findSnapshot (prId pool) holder db")
  case None
  then show ?thesis by (simp add: upsertSnapshot_def)
next
  case (Some s)
  let ?K = "\<lambda>s. (srPoolId s, srHolder s)"
  have "map ?K (dbSnapshots (upsertSnapshot i pool holder a db)) = map ?K (dbSnapshots db)"
    using Some by (simp add: upsertSnapshot_def)
  then have "?K ` set (dbSnapshots (upsertSnapshot i pool holder a db)) = ?K ` set (dbSnapshots db)"
    by (metis list.set_map)
  moreover have "(prId pool, holder) \<in> ?K ` set (dbSnapshots db)"
    using Some by (force simp: findSnapshot_def find_Some_iff)
  ultimately show ?thesis by blast
qed

text \<open>A commit either changes nothing or adds exactly the claim.\<close>

lemma claimCommit_cases:
  assumes "claimCommit r txHash pool holder a db = (res, db')"
  obtains e where "res = Inl e" and "db' = db"
  | "res = Inr ()" and "findClaim txHash db = None" and "prId pool \<in> prId ` set (dbPools db)"
    and "dbClaims db' = dbClaims db @ [\<lparr>crId = drnId r, crPoolId = prId pool, crClaimant = holder, crAmount = a, crTxHash = txHash, crClaimedAt = drnNow r\<rparr>]"
    and "dbPools db' = map (\<lambda>p. if prId p = prId pool then p\<lparr>prClaimedAmount := prClaimedAmount p + a\<rparr> else p) (dbPools db)"
    and "(\<lambda>s. (srPoolId s, srHolder s)) ` set (dbSnapshots db') = insert (prId pool, holder) ((\<lambda>s. (srPoolId s, srHolder s)) ` set (dbSnapshots db))"
proof (cases "\<not> drnOk r \<or> findClaim txHash db \<noteq> None \<or> prId pool \<notin> prId ` set (dbPools db) \<or> \<not> bigint_column a
         \<or> (\<exists>p\<in>set (dbPools db). prId p = prId pool \<and> \<not> bigint_column (prClaimedAmount p + a))
         \<or> (findSnapshot (prId pool) holder db = None \<and> \<not> bigint_column (snapshotBalance pool a))")
  case True
  then have "res = Inl (DatabaseError ''transaction'')" "db' = db"
    using assms unfolding claimCommit_def by (simp_all only: if_True prod.inject)
  then show ?thesis using that(1) by blast
next
  case False
  then have run: "Inr () = res" "upsertSnapshot (drnId2 r) pool holder a
      (db\<lparr>dbClaims := dbClaims db @ [\<lparr>crId = drnId r, crPoolId = prId pool, crClaimant = holder, crAmount = a, crTxHash = txHash, crClaimedAt = drnNow r\<rparr>],
          dbPools := map (\<lambda>p. if prId p = prId pool then p\<lparr>prClaimedAmount := prClaimedAmount p + a\<rparr> else p) (dbPools db)\<rparr>) = db'"
    using assms unfolding claimCommit_def if_not_P [OF False] by (simp_all add: Let_def)
  show ?thesis
  proof (rule that(2))
    show "(\<lambda>s. (srPoolId s, srHolder s)) ` set (dbSnapshots db') = insert (prId pool, holder) ((\<lambda>s. (srPoolId s, srHolder s)) ` set (dbSnapshots db))"
      unfolding run(2) [symmetric] upsertSnapshot_keys by simp
  qed (use False run in auto)
qed

lemma claimedTotal_snoc: "claimedTotal i (cs @ [c]) = claimedTotal i cs + (if crPoolId c = i then crAmount c else 0)"
  by (simp add: claimedTotal_def)

lemma div_inv_commit:
  assumes inv: "div_inv db" and run: "claimCommit r txHash pool holder a db = (res, db')"
  shows "div_inv db'"
  using run
proof (cases rule: claimCommit_cases)
  case (1 e)
  then show ?thesis using inv by simp
next
  case 2
  have d: "distinct (map crTxHash (dbClaims db'))"
    using inv 2 by (simp add: div_inv_def findClaim_None)
  have p: "\<forall>p\<in>set (dbPools db'). prClaimedAmount p = claimedTotal (prId p) (dbClaims db')"
    using inv unfolding 2(4,5) div_inv_def by (auto simp: claimedTotal_snoc)
  have "\<exists>c\<in>set (dbClaims db'). crPoolId c = srPoolId s \<and> crClaimant c = srHolder s" if "s \<in> set (dbSnapshots db')" for s
  proof -
    have "(srPoolId s, srHolder s) \<in> insert (prId pool, holder) ((\<lambda>s. (srPoolId s, srHolder s)) ` set (dbSnapshots db))"
      using that 2(6) by blast
    then show ?thesis using inv unfolding 2(4) div_inv_def by auto
  qed
  with d p show ?thesis by (simp add: div_inv_def)
qed

lemma ingestInitiated_result: "ingestDistributionInitiated sim r event db = (if drnOk r then Inr () else Inl (DatabaseError ''unavailable''), db)"
  by (simp add: ingestDistributionInitiated_def resolveTokenIdByIndex_def Let_def split: prod.splits)

lemma ingest_cases:
  assumes "ingestDividendEvent sim r event db = (res, db')"
  obtains "dbClaims db' = dbClaims db" and "dbSnapshots db' = dbSnapshots db" and "map (\<lambda>p. p\<lparr>prStatus := ACTIVE\<rparr>) (dbPools db') = map (\<lambda>p. p\<lparr>prStatus := ACTIVE\<rparr>) (dbPools db)"
    and "deTopic event \<noteq> ''div_clm1'' \<or> db' = db"
  | pool holder a where "deTopic event = ''div_clm1''" and "claimRead r event db = Inr (Some (pool, holder, a))"
    and "claimCommit r (deTxHash event) pool holder a db = (res, db')"
proof (cases "deTopic event = ''div_clm1''")
  case True
  then show ?thesis
    using assms that
    by (auto simp: ingestDividendEvent_def ingestDividendClaimed_def split: sum.splits option.splits)
next
  case False
  have "dbClaims db' = dbClaims db \<and> dbSnapshots db' = dbSnapshots db \<and> map (\<lambda>p. p\<lparr>prStatus := ACTIVE\<rparr>) (dbPools db') = map (\<lambda>p. p\<lparr>prStatus := ACTIVE\<rparr>) (dbPools db)"
    using assms False
    by (auto simp: ingestDividendEvent_def ingestInitiated_result ingestDividendReclaimed_def split: if_splits option.splits)
  then show ?thesis using that(1) False by blast
qed

lemma div_inv_ingest:
  assumes inv: "div_inv db" and run: "ingestDividendEvent sim r event db = (res, db')"
  shows "div_inv db'"
  using run
proof (cases rule: ingest_cases)
  case 1
  have "\<exists>q\<in>set (dbPools db). prId q = prId p \<and> prClaimedAmount q = prClaimedAmount p" if "p \<in> set (dbPools db')" for p
  proof -
    have "p\<lparr>prStatus := ACTIVE\<rparr> \<in> (\<lambda>p. p\<lparr>prStatus := ACTIVE\<rparr>) ` set (dbPools db)"
      using that 1(3) by (metis image_eqI list.set_map)
    then obtain q where "q \<in> set (dbPools db)" "p\<lparr>prStatus := ACTIVE\<rparr> = q\<lparr>prStatus := ACTIVE\<rparr>" by blast
    moreover then have "prId p = prId q" "prClaimedAmount p = prClaimedAmount q"
      by (metis pool_row.select_convs pool_row.update_convs pool_row.surjective)+
    ultimately show ?thesis by metis
  qed
  then show ?thesis using inv 1(1,2) unfolding div_inv_def by metis
next
  case (2 pool holder a)
  then show ?thesis using div_inv_commit [OF inv] by blast
qed

lemma div_inv_reachable:
  assumes run: "(div_step sim)\<^sup>*\<^sup>* x y" and inv: "div_inv (dyDb x)"
  shows "div_inv (dyDb y)"
  using run
proof induction
  case (step y z)
  then show ?case by (elim div_step.cases) (auto intro: div_inv_ingest div_inv_commit)
qed (rule inv)

text \<open>C17: Whatever the order and the overlap of the ingestions, repeated and failing ones included, each
  transaction's claim is recorded at most once, and the claimed amount of every pool is the sum of its
  recorded claims.\<close>

theorem claims_counted_once:
  assumes "div_inv (dyDb x)" and "(div_step sim)\<^sup>*\<^sup>* x y"
  shows "distinct (map crTxHash (dbClaims (dyDb y)))
    \<and> (\<forall>p\<in>set (dbPools (dyDb y)). prClaimedAmount p = claimedTotal (prId p) (dbClaims (dyDb y)))"
  using div_inv_reachable [OF assms(2,1)] by (simp add: div_inv_def)

definition demo_pool :: pool_row where
  "demo_pool = \<lparr>prId = ''p'', prDistributionId = 7, prTokenId = ''t'', prAsset = ''a'', prFundedBy = ''f'', prTotalAmount = 100,
     prClaimedAmount = 0, prSupplySnapshot = 1000, prSnapshotLedger = 5, prClaimDeadlineLedger = Some 9, prExpiresAt = None,
     prStatus = ACTIVE, prTxHash = ''tx0''\<rparr>"

definition demo_div :: div_sys where
  "demo_div = \<lparr>dyDb = \<lparr>dbPools = [demo_pool], dbClaims = [], dbSnapshots = []\<rparr>, dyPending = []\<rparr>"

definition demo_claim :: dividend_event where
  "demo_claim = \<lparr>deTopic = ''div_clm1'', deDistributionId = 7, deData = Claimed ''H'' (AmountStr ''10''), deTxHash = ''tx1''\<rparr>"

definition demo_db_run :: db_run where
  "demo_db_run = \<lparr>drnOk = True, drnId = ''c1'', drnId2 = ''s1'', drnNow = 50\<rparr>"

lemmas dividend_demo_defs = demo_pool_def demo_div_def demo_claim_def demo_db_run_def

lemma demo_div_inv: "div_inv (dyDb demo_div)"
  by (simp add: div_inv_def dividend_demo_defs claimedTotal_def)

lemma demo_claim_read: "claimRead demo_db_run demo_claim (dyDb demo_div) = Inr (Some (demo_pool, ''H'', 10))"
  by (simp add: claimRead_def dividend_demo_defs findPool_def findClaim_def bigInt_def big_int_of_def is_space_def is_digit_def digits_val_def digit_val_def)

definition demo_claimed :: dividend_db where
  "demo_claimed = \<lparr>dbPools = [demo_pool\<lparr>prClaimedAmount := 10\<rparr>],
     dbClaims = [\<lparr>crId = ''c1'', crPoolId = ''p'', crClaimant = ''H'', crAmount = 10, crTxHash = ''tx1'', crClaimedAt = 50\<rparr>],
     dbSnapshots = [\<lparr>srId = ''s1'', srPoolId = ''p'', srHolder = ''H'', srBalance = 100, srClaimable = 10\<rparr>]\<rparr>"

lemma demo_claim_commit: "claimCommit demo_db_run ''tx1'' demo_pool ''H'' 10 (dyDb demo_div) = (Inr (), demo_claimed)"
  by (simp add: claimCommit_def demo_claimed_def dividend_demo_defs findClaim_def bigint_column_def findSnapshot_def snapshotBalance_def
      upsertSnapshot_def signed_divide_int_def)

text \<open>Two ingestions of one event read before the first one commits.\<close>

theorem claims_counted_once_witness:
  "\<exists>y. (div_step (SimError '''')) \<^sup>*\<^sup>* demo_div y \<and> dyDb y = demo_claimed \<and> length (dyPending y) = 1
     \<and> distinct (map crTxHash (dbClaims (dyDb y)))
     \<and> (\<forall>p\<in>set (dbPools (dyDb y)). prClaimedAmount p = claimedTotal (prId p) (dbClaims (dyDb y)))"
proof -
  let ?c = "(''tx1'', demo_pool, ''H'', 10 :: int)"
  let ?y = "demo_div\<lparr>dyDb := demo_claimed, dyPending := [?c]\<rparr>"
  have tx: "deTxHash demo_claim = ''tx1''" by (simp add: demo_claim_def)
  have "div_step (SimError '''') demo_div (demo_div\<lparr>dyPending := [?c]\<rparr>)"
    using claim_read [of demo_db_run demo_claim demo_div demo_pool "''H''" 10 "SimError ''''"] demo_claim_read tx by (simp add: demo_div_def)
  moreover have "div_step (SimError '''') (demo_div\<lparr>dyPending := [?c]\<rparr>) (demo_div\<lparr>dyPending := [?c, ?c]\<rparr>)"
    using claim_read [of demo_db_run demo_claim "demo_div\<lparr>dyPending := [?c]\<rparr>" demo_pool "''H''" 10 "SimError ''''"] demo_claim_read tx by simp
  moreover have "div_step (SimError '''') (demo_div\<lparr>dyPending := [?c, ?c]\<rparr>) ?y"
    using claim_commit [of "''tx1''" demo_pool "''H''" 10 "demo_div\<lparr>dyPending := [?c, ?c]\<rparr>" demo_db_run "Inr ()" demo_claimed "SimError ''''"]
      demo_claim_commit by simp
  ultimately have run: "(div_step (SimError ''''))\<^sup>*\<^sup>* demo_div ?y" by (meson converse_rtranclp_into_rtranclp rtranclp.rtrancl_refl)
  have y: "dyDb ?y = demo_claimed" "length (dyPending ?y) = 1" by simp_all
  from claims_counted_once [OF demo_div_inv run] run y show ?thesis by blast
qed

section \<open>Claim status\<close>

text \<open>The projection never reports a share as claimable, nor as nothing to claim: snapshots are written only
  together with a claim of the holder, so a status is claimed, expired or unknown. A holder's status
  is claimed exactly when a claim of theirs is recorded.\<close>

theorem status_never_claimable:
  assumes "div_inv (dyDb x)" and "(div_step sim)\<^sup>*\<^sup>* x y"
    and "getDividendClaimStatus distributionId holder now (dyDb y) = Some st"
  shows "csStatus st \<in> {CLAIMED, CLAIM_EXPIRED, UNKNOWN} \<and> (csStatus st = CLAIMED \<longleftrightarrow> csKnown st)"
proof -
  obtain pool where pool: "findPool distributionId (dyDb y) = Some pool"
    using assms(3) by (auto simp: getDividendClaimStatus_def split: option.splits)
  let ?claims = "claimsOf (prId pool) holder (dyDb y)"
  have none: "findSnapshot (prId pool) holder (dyDb y) = None" if "?claims = []"
  proof (rule ccontr)
    assume "findSnapshot (prId pool) holder (dyDb y) \<noteq> None"
    then obtain s where s: "s \<in> set (dbSnapshots (dyDb y))" "srPoolId s = prId pool" "srHolder s = holder"
      using findSnapshot_Some by blast
    then obtain c where "c \<in> set (dbClaims (dyDb y))" "crPoolId c = prId pool" "crClaimant c = holder"
      using div_inv_reachable [OF assms(2,1)] by (auto simp: div_inv_def)
    then have "c \<in> set ?claims" by (simp add: claimsOf_def)
    with that show False by simp
  qed
  show ?thesis
  proof (cases "?claims = []")
    case True
    then show ?thesis
      using assms(3) pool none [OF True] by (auto simp: getDividendClaimStatus_def Let_def split: if_splits)
  next
    case False
    then show ?thesis using assms(3) pool by (auto simp: getDividendClaimStatus_def Let_def)
  qed
qed

theorem status_never_claimable_witness:
  "\<exists>st. getDividendClaimStatus 7 ''K'' 0 (dyDb demo_div) = Some st
     \<and> csStatus st \<in> {CLAIMED, CLAIM_EXPIRED, UNKNOWN} \<and> (csStatus st = CLAIMED \<longleftrightarrow> csKnown st)"
proof -
  obtain st where st: "getDividendClaimStatus 7 ''K'' 0 (dyDb demo_div) = Some st"
    by (simp add: getDividendClaimStatus_def dividend_demo_defs findPool_def claimsOf_def findSnapshot_def CLOSED_POOL_STATUSES_def)
  from status_never_claimable [OF demo_div_inv rtranclp.rtrancl_refl st] st show ?thesis by blast
qed

lemma findPool_mem: "findPool i db = Some p \<Longrightarrow> p \<in> set (dbPools db) \<and> prDistributionId p = i"
  by (auto simp: findPool_def find_Some_iff)

lemma claim_sum: "foldl (\<lambda>sum c. sum + crAmount c) n cs = n + sum_list (map crAmount cs)"
  by (induction cs arbitrary: n) auto

lemma sort_key_sum: "sum_list (map f (sort_key g xs)) = (sum_list (map f xs) :: int)"
  by (metis mset_map mset_sort sum_mset_sum_list)

definition holderTotal :: "string \<Rightarrow> string \<Rightarrow> dividend_db \<Rightarrow> int" where
  "holderTotal poolId holder db = sum_list (map crAmount (filter (\<lambda>c. crPoolId c = poolId \<and> crClaimant c = holder) (dbClaims db)))"

text \<open>A claim event of a known pool that is ingested for the first time is reported back: the holder's
  status is claimed, with nothing left to claim and the amount of all of the holder's claims, this one
  added to the earlier ones.\<close>

theorem claim_is_reported:
  assumes run: "ingestDividendEvent sim r event db = (Inr (), db')"
    and event: "deTopic event = ''div_clm1''" "deData event = Claimed holder amount" "bigInt amount = Inr a"
    and pool: "findPool (deDistributionId event) db = Some pool" and new: "findClaim (deTxHash event) db = None"
  shows "\<exists>st. getDividendClaimStatus (deDistributionId event) holder now db' = Some st \<and> csStatus st = CLAIMED
    \<and> csClaimableAmount st = Some (show_int 0) \<and> csClaimedAmount st = show_int (holderTotal (prId pool) holder db + a)"
proof -
  have ok: "drnOk r"
    using run event by (auto simp: ingestDividendEvent_def ingestDividendClaimed_def claimRead_def split: if_splits)
  have "claimRead r event db = Inr (Some (pool, holder, a))"
    using event pool new ok by (simp add: claimRead_def)
  then have run': "claimCommit r (deTxHash event) pool holder a db = (Inr (), db')"
    using run event(1) by (simp add: ingestDividendEvent_def ingestDividendClaimed_def)
  let ?c = "\<lparr>crId = drnId r, crPoolId = prId pool, crClaimant = holder, crAmount = a, crTxHash = deTxHash event, crClaimedAt = drnNow r\<rparr>"
  have claims: "dbClaims db' = dbClaims db @ [?c]"
    and pools: "dbPools db' = map (\<lambda>p. if prId p = prId pool then p\<lparr>prClaimedAmount := prClaimedAmount p + a\<rparr> else p) (dbPools db)"
    using claimCommit_cases [OF run'] by blast+
  have "findPool (deDistributionId event) db' = Some (pool\<lparr>prClaimedAmount := prClaimedAmount pool + a\<rparr>)"
    using pool unfolding findPool_def pools by (subst find_map) auto
  moreover have "?c \<in> set (claimsOf (prId pool) holder db')" by (simp add: claimsOf_def claims)
  then have "claimsOf (prId pool) holder db' \<noteq> []" by (metis emptyE empty_set)
  moreover have "foldl (\<lambda>sum c. sum + crAmount c) 0 (claimsOf (prId pool) holder db') = holderTotal (prId pool) holder db + a"
    by (simp add: claim_sum claimsOf_def sort_key_sum claims holderTotal_def)
  ultimately show ?thesis by (simp add: getDividendClaimStatus_def)
qed

theorem claim_is_reported_witness:
  "\<exists>st. getDividendClaimStatus 7 ''H'' 60 demo_claimed = Some st \<and> csStatus st = CLAIMED
    \<and> csClaimableAmount st = Some (show_int 0) \<and> csClaimedAmount st = show_int (holderTotal ''p'' ''H'' (dyDb demo_div) + 10)"
proof -
  have run: "ingestDividendEvent (SimError '''') demo_db_run demo_claim (dyDb demo_div) = (Inr (), demo_claimed)"
    using demo_claim_read demo_claim_commit
    by (simp add: ingestDividendEvent_def ingestDividendClaimed_def demo_claim_def)
  show ?thesis
    using claim_is_reported [OF run, of "''H''" "AmountStr ''10''" 10 demo_pool 60]
    by (simp add: dividend_demo_defs findPool_def findClaim_def bigInt_def big_int_of_def is_space_def is_digit_def digits_val_def digit_val_def)
qed

text \<open>An event whose transaction is recorded changes nothing, at any later point.\<close>

lemma recorded_event_is_ignored:
  assumes "deTopic event = ''div_clm1''" and "findClaim (deTxHash event) db \<noteq> None"
  shows "snd (ingestDividendEvent sim r event db) = db"
  using assms
  by (auto simp: ingestDividendEvent_def ingestDividendClaimed_def claimRead_def split: sum.splits option.splits if_splits prod.splits)

text \<open>An ingestion that read before the other one committed fails instead.\<close>

lemma overlapping_duplicate_fails:
  "findClaim txHash db \<noteq> None \<Longrightarrow> claimCommit r txHash pool holder a db = (Inl (DatabaseError ''transaction''), db)"
  by (simp add: claimCommit_def)

text \<open>No event creates a pool, since no token index resolves.\<close>

lemma no_pool_is_created: "prId ` set (dbPools (snd (ingestDividendEvent sim r event db))) \<subseteq> prId ` set (dbPools db)"
proof (cases "ingestDividendEvent sim r event db")
  case (Pair res db')
  then have "map prId (dbPools db') = map prId (dbPools db)"
  proof (cases rule: ingest_cases)
    case 1
    show ?thesis using arg_cong [where f = "map prId", OF 1(3)] by (simp add: comp_def)
  next
    case (2 pool holder a)
    from 2(3) show ?thesis
    proof (cases rule: claimCommit_cases)
      case 2
      show ?thesis unfolding 2(5) by simp
    qed simp
  qed
  then have "prId ` set (dbPools db') = prId ` set (dbPools db)" by (metis list.set_map)
  then show ?thesis using Pair by simp
qed

section \<open>Paging\<close>

lemma list_page_pager:
  assumes "finds_rows findMany ident rows" and "\<forall>x\<in>set rows. ident x \<noteq> []"
  shows "pager (list_page findMany ident view limit) (map view rows) (nat (pageLimit limit)) (\<lambda>n. ident (rows ! (n - 1)))"
proof
  define l where "l = nat (pageLimit limit)"
  have l: "0 < l" "pageLimit limit = int l" "nat (int l + 1) = Suc l" by (auto simp: l_def pageLimit_def)
  then show "0 < nat (pageLimit limit)" by simp
  have page: "list_page findMany ident view limit c =
      (map view (take l xs), if l < length xs then Some (ident (xs ! (l - 1))) else None)"
    if f: "findMany \<lparr>qaFirst = int l, qaTake = int l + 1, qaCursor = (if c = None \<or> c = Some [] then None else c),
        qaSkip = (if c = None \<or> c = Some [] then None else Some 1)\<rparr> = take (Suc l) xs" for c xs
  proof -
    have "last (take l xs) = xs ! (l - 1)" if "l < length xs" using that l(1) last_take_drop [of l 0 xs] by auto
    then show ?thesis
      using f l by (cases c) (auto simp: list_page_def Let_def min_def split: if_splits)
  qed
  show "list_page findMany ident view limit None =
      (take (nat (pageLimit limit)) (map view rows), if nat (pageLimit limit) < length (map view rows) then Some (ident (rows ! (nat (pageLimit limit) - 1))) else None)"
    using page [of None rows] assms(1) l by (simp add: finds_rows_def take_map)
  fix n assume n: "0 < n" "n < length (map view rows)"
  have "findMany \<lparr>qaFirst = int l, qaTake = int l + 1, qaCursor = Some (ident (rows ! (n - 1))), qaSkip = Some 1\<rparr> = take (Suc l) (drop n rows)"
    using assms(1) n l by (simp add: finds_rows_def)
  moreover have "ident (rows ! (n - 1)) \<noteq> []" using assms(2) n by simp
  ultimately have "list_page findMany ident view limit (Some (ident (rows ! (n - 1)))) =
      (map view (take l (drop n rows)), if l < length (drop n rows) then Some (ident (drop n rows ! (l - 1))) else None)"
    by (intro page) simp
  then show "list_page findMany ident view limit (Some (ident (rows ! (n - 1)))) =
      (take (nat (pageLimit limit)) (drop n (map view rows)),
       if n + nat (pageLimit limit) < length (map view rows) then Some (ident (rows ! (n + nat (pageLimit limit) - 1))) else None)"
    using l n by (simp add: take_map drop_map less_diff_conv add.commute)
qed

text \<open>A client that follows \<open>nextCursor\<close> through the claim history of a distribution sees every claim of its
  pool exactly once, in the order of the query, for every page size it asks for, zero, negative and
  oversized ones included.\<close>

theorem claim_history_pages_cover:
  assumes "findPool distributionId db = Some pool"
    and "finds_rows (findMany (prId pool)) crId rows" and "\<forall>c\<in>set rows. crId c \<noteq> []" and "length rows < fuel"
  shows "map_option (map cvTxHash) (traverse (\<lambda>c. listClaimsForDistribution findMany distributionId limit c db) fuel None)
    = Some (map crTxHash rows)"
proof -
  let ?v = "\<lambda>c. \<lparr>cvClaimant = crClaimant c, cvAmount = show_int (crAmount c), cvTxHash = crTxHash c, cvClaimedAt = crClaimedAt c\<rparr>"
  have "(\<lambda>c. listClaimsForDistribution findMany distributionId limit c db) = list_page (findMany (prId pool)) crId ?v limit"
    using assms(1) by (simp add: listClaimsForDistribution_def fun_eq_iff)
  moreover have "traverse (list_page (findMany (prId pool)) crId ?v limit) fuel None = Some (map ?v rows)"
    using assms(4) by (intro pager.traverse_complete [OF list_page_pager [OF assms(2,3)]]) simp
  ultimately show ?thesis by (simp add: comp_def)
qed

definition demo_find :: "string \<Rightarrow> query_args \<Rightarrow> claim_row list" where
  "demo_find poolId q = take (nat (qaTake q)) (case qaCursor q of None \<Rightarrow> dbClaims demo_claimed
     | Some c \<Rightarrow> drop (nat (case qaSkip q of Some s \<Rightarrow> s | None \<Rightarrow> 0)) (dropWhile (\<lambda>r. crId r \<noteq> c) (dbClaims demo_claimed)))"

theorem claim_history_pages_cover_witness:
  "map_option (map cvTxHash) (traverse (\<lambda>c. listClaimsForDistribution demo_find 7 (Some 0) c demo_claimed) 2 None) = Some [''tx1'']"
proof -
  have "finds_rows (demo_find (prId demo_pool)) crId (dbClaims demo_claimed)"
    by (simp add: finds_rows_def demo_find_def demo_claimed_def)
  moreover have "findPool 7 demo_claimed = Some (demo_pool\<lparr>prClaimedAmount := 10\<rparr>)"
    by (simp add: findPool_def demo_claimed_def demo_pool_def)
  ultimately show ?thesis
    using claim_history_pages_cover [of 7 demo_claimed "demo_pool\<lparr>prClaimedAmount := 10\<rparr>" demo_find "dbClaims demo_claimed" 2 "Some 0"]
    by (simp add: demo_claimed_def)
qed

section \<open>Contract errors and contract reads\<close>

lemma match_code_prefix: "CHR ''E'' \<notin> set p \<Longrightarrow> match_code (p @ s) = match_code s"
proof (induction p)
  case (Cons c p)
  then have "match_code_here (c # p @ s) = None" by (auto simp: match_code_here_def)
  then show ?case using Cons by simp
qed simp

lemma dropWhile_digits: "dropWhile is_digit (show_nat n @ s) = dropWhile is_digit s" "takeWhile is_digit (show_nat n @ s) = show_nat n @ takeWhile is_digit s"
  by (simp_all add: dropWhile_append takeWhile_append show_nat_digits)

text \<open>A contract error is named by its code wherever it stands in the simulation's message: the message of a
  listed code is its name and the code, that of any other code the code alone.\<close>

theorem contract_error_named:
  assumes "CHR ''E'' \<notin> set p"
  shows "mapContractError (p @ ''Error(Contract, #'' @ show_nat n @ CHR '')'' # s) =
    (case DIVIDEND_CONTRACT_ERRORS n of Some name \<Rightarrow> name @ '' (contract error #'' @ show_nat n @ '')''
     | None \<Rightarrow> ''Contract error #'' @ show_nat n)"
proof -
  have "match_code_here (''Error(Contract, #'' @ show_nat n @ CHR '')'' # s) = Some n"
    by (simp add: match_code_here_def dropWhile_digits is_space_def is_digit_def)
  then have "match_code (''Error(Contract, #'' @ show_nat n @ CHR '')'' # s) = Some n" by simp
  then have "match_code (p @ ''Error(Contract, #'' @ show_nat n @ CHR '')'' # s) = Some n"
    using match_code_prefix [OF assms] by metis
  then show ?thesis unfolding mapContractError_def by simp
qed

theorem contract_error_named_witness:
  "mapContractError (''host: '' @ ''Error(Contract, #'' @ show_nat 103 @ CHR '')'' # ''.'') =
     ''DistributionAlreadyClaimed (contract error #'' @ show_nat 103 @ '')''"
  by (subst contract_error_named) (simp_all add: DIVIDEND_CONTRACT_ERRORS_def)

text \<open>The amounts that \<open>getDistribution\<close> prints are the ones \<open>BigInt\<close> reads.\<close>

lemma distribution_amounts:
  assumes "getDistribution (SimOk raw) = Inr record" and "0 \<le> raw_total_amount raw"
  shows "big_int_of (drTotalAmount record) = Some (raw_total_amount raw)"
proof -
  have r: "drTotalAmount record = show_nat (nat (raw_total_amount raw))"
    using assms by (auto simp: getDistribution_def simulateReadCall_def show_int_def)
  obtain c cs where s: "show_nat (nat (raw_total_amount raw)) = c # cs" by (cases "show_nat (nat (raw_total_amount raw))") auto
  have d: "\<forall>x\<in>set (c # cs). is_digit x" using show_nat_digits s by metis
  have "dropWhile is_space (c # cs) = c # cs" using d is_digit_not_space by simp
  moreover have "dropWhile is_space (rev (c # cs)) = rev (c # cs)"
    using d is_digit_not_space by (cases "rev (c # cs)") (auto simp: dropWhile_eq_Cons_conv, metis in_set_conv_decomp insert_iff list.simps(15) rev.simps(2) set_rev)
  moreover have "int (digits_val (c # cs)) = raw_total_amount raw" using s digits_val_show_nat assms(2) by (metis int_nat_eq)
  moreover have "c \<noteq> CHR ''-''" "c \<noteq> CHR ''+''" using d is_digit_not_sign by auto
  ultimately show ?thesis using d unfolding r s by (simp add: big_int_of_def list_all_iff)
qed

end
