(* ===== verification/Rollout.thy ===== *)
theory Rollout
  imports Prelude "HOL-Library.Word"
begin

unbundle bit_operations_syntax

text \<open>
  \<open>backend/src/services/rolloutStrategy.ts\<close>: feature flags by tier, cohort and percentage. The bucket's
  hash is computed in doubles, whose rounding is written out; the registry is a map. Logs and metrics
  are not modelled.
\<close>

section \<open>The hash\<close>

text \<open>
  The double nearest to an integer below 2^56 in absolute value: exact up to 2^53, and beyond it the
  nearest multiple of the spacing, an even one on ties.
\<close>

definition round_to :: "int \<Rightarrow> int \<Rightarrow> int" where
  "round_to u n =
     (let q = n div u; r = n mod u
      in if 2 * r < u \<or> (2 * r = u \<and> even q) then q * u else (q + 1) * u)"

definition js_double :: "int \<Rightarrow> int" where
  "js_double n =
     (if \<bar>n\<bar> \<le> 2 ^ 53 then n else if \<bar>n\<bar> \<le> 2 ^ 54 then round_to 2 n else if \<bar>n\<bar> \<le> 2 ^ 55 then round_to 4 n else round_to 8 n)"

definition toInt32 :: "int \<Rightarrow> int" where
  "toInt32 n = (n + 2 ^ 31) mod 2 ^ 32 - 2 ^ 31"

definition toUint32 :: "int \<Rightarrow> int" where
  "toUint32 n = n mod 2 ^ 32"

definition hashStep :: "int \<Rightarrow> char \<Rightarrow> int" where
  "hashStep hash c = toUint32 (js_double ((toInt32 hash XOR of_char c) * 0x01000193))"

definition hashToBucket :: "string \<Rightarrow> int" where
  "hashToBucket input = foldl hashStep 0x811c9dc5 input mod 100"

section \<open>Flags\<close>

datatype user_tier = Free | Pro | Enterprise

record flag_config =
  fcKey :: string
  fcRolloutPercentage :: real
  fcAllowedTiers :: "user_tier list option"
  fcBlockedTiers :: "user_tier list option"
  fcCohort :: "string list option"

record rollout_context =
  rcUserId :: string
  rcTier :: user_tier

datatype rollout_decision = Enabled | Disabled
datatype rollout_reason = TierAllowed | TierBlocked | Cohort | Percentage

record rollout_result =
  rrDecision :: rollout_decision
  rrReason :: rollout_reason
  rrBucket :: "int option"

type_synonym rollout_flags = "string \<Rightarrow> flag_config option"

definition new_rollout :: "flag_config list \<Rightarrow> rollout_flags" where
  "new_rollout flags = foldl (\<lambda>m f. m(fcKey f \<mapsto> f)) (\<lambda>_. None) flags"

definition rollout_register :: "flag_config \<Rightarrow> rollout_flags \<Rightarrow> rollout_flags" where
  "rollout_register config flags = flags(fcKey config \<mapsto> config)"

definition opt_includes :: "'a list option \<Rightarrow> 'a \<Rightarrow> bool" where
  "opt_includes xs x = (case xs of None \<Rightarrow> False | Some l \<Rightarrow> x \<in> set l)"

definition rollout_evaluate :: "rollout_flags \<Rightarrow> string \<Rightarrow> rollout_context \<Rightarrow> rollout_result" where
  "rollout_evaluate flags flagKey context =
     (case flags flagKey of
        None \<Rightarrow> \<lparr>rrDecision = Disabled, rrReason = Percentage, rrBucket = Some 0\<rparr>
      | Some config \<Rightarrow>
          if opt_includes (fcBlockedTiers config) (rcTier context)
          then \<lparr>rrDecision = Disabled, rrReason = TierBlocked, rrBucket = None\<rparr>
          else if opt_includes (fcAllowedTiers config) (rcTier context)
          then \<lparr>rrDecision = Enabled, rrReason = TierAllowed, rrBucket = None\<rparr>
          else if opt_includes (fcCohort config) (rcUserId context)
          then \<lparr>rrDecision = Enabled, rrReason = Cohort, rrBucket = None\<rparr>
          else
            (let bucket = hashToBucket (rcUserId context @ '':'' @ flagKey);
                 decision = (if real_of_int bucket < fcRolloutPercentage config then Enabled else Disabled)
             in \<lparr>rrDecision = decision, rrReason = Percentage, rrBucket = Some bucket\<rparr>))"

definition isEnabled :: "rollout_flags \<Rightarrow> string \<Rightarrow> rollout_context \<Rightarrow> bool" where
  "isEnabled flags flagKey context \<longleftrightarrow> rrDecision (rollout_evaluate flags flagKey context) = Enabled"

section \<open>Properties\<close>

lemma bucket_bounds: "0 \<le> hashToBucket s" "hashToBucket s < 100"
  by (simp_all add: hashToBucket_def)

text \<open>The products stay below 2^56, where \<open>js_double\<close> is the rounding of a double.\<close>

lemma hash_product_bound: "\<bar>(toInt32 hash XOR of_char c) * 0x01000193\<bar> < 2 ^ 56"
proof -
  have i: "- (2 ^ 31) \<le> toInt32 hash" "toInt32 hash < 2 ^ 31"
    using pos_mod_bound [of "2 ^ 32" "hash + 2 ^ 31"] pos_mod_sign [of "2 ^ 32" "hash + 2 ^ 31"] by (simp_all add: toInt32_def)
  have c: "(of_char c :: int) < 256" "0 \<le> (of_char c :: int)" by (cases c; simp)+
  have pos: "x XOR of_char c < 2 ^ 31 \<and> 0 \<le> x XOR of_char c" if "0 \<le> x" "x < 2 ^ 31" for x :: int
    using XOR_upper [of x 31 "of_char c"] that c by simp
  have "- (2 ^ 31) \<le> toInt32 hash XOR of_char c \<and> toInt32 hash XOR of_char c < 2 ^ 31"
  proof (cases "0 \<le> toInt32 hash")
    case True
    have "0 \<le> toInt32 hash XOR of_char c" "toInt32 hash XOR of_char c < 2 ^ 31" using pos [OF True i(2)] by blast+
    moreover have "- (2 ^ 31) \<le> (0 :: int)" by simp
    ultimately show ?thesis using order_trans by blast
  next
    case False
    have "NOT (toInt32 hash XOR of_char c) = NOT (toInt32 hash) XOR of_char c" by (simp add: bit.xor_compl_left)
    moreover have "0 \<le> NOT (toInt32 hash)" "NOT (toInt32 hash) < 2 ^ 31" using False i by (simp_all add: not_int_def)
    ultimately have "0 \<le> NOT (toInt32 hash XOR of_char c) \<and> NOT (toInt32 hash XOR of_char c) < 2 ^ 31" using pos by metis
    moreover have "- (2 ^ 31) \<le> y \<and> y < 2 ^ 31" if "0 \<le> NOT y \<and> NOT y < 2 ^ 31" for y :: int
      using that by (simp add: not_int_def)
    ultimately show ?thesis by blast
  qed
  then show ?thesis by (simp add: abs_if)
qed

text \<open>A decision carries a bucket exactly when it was taken by percentage, and the bucket is between 0 and 99.\<close>

theorem rollout_result_wellformed:
  "let r = rollout_evaluate flags flagKey context
   in (rrBucket r = None \<longleftrightarrow> rrReason r \<noteq> Percentage) \<and> (case rrBucket r of None \<Rightarrow> True | Some b \<Rightarrow> 0 \<le> b \<and> b < 100)"
  by (auto simp: rollout_evaluate_def Let_def bucket_bounds split: option.splits)

text \<open>Raising the percentage of a flag never takes the feature from a user who has it: registering the flag
  again with a higher percentage keeps every enabled user enabled.\<close>

theorem rollout_percentage_monotone:
  assumes "fcRolloutPercentage config \<le> p" and "isEnabled (rollout_register config flags) (fcKey config) context"
  shows "isEnabled (rollout_register (config\<lparr>fcRolloutPercentage := p\<rparr>) flags) (fcKey config) context"
  using assms by (auto simp: isEnabled_def rollout_register_def rollout_evaluate_def Let_def split: if_splits)

theorem rollout_percentage_monotone_witness:
  "isEnabled (rollout_register \<lparr>fcKey = ''f'', fcRolloutPercentage = 100, fcAllowedTiers = None, fcBlockedTiers = None, fcCohort = None\<rparr> (\<lambda>_. None))
     ''f'' \<lparr>rcUserId = ''u'', rcTier = Free\<rparr>"
proof -
  let ?c = "\<lparr>fcKey = ''f'', fcRolloutPercentage = 99.5, fcAllowedTiers = None, fcBlockedTiers = None, fcCohort = None\<rparr>"
  have "hashToBucket ''u:f'' \<le> 99" using bucket_bounds(2) [of "''u:f''"] by simp
  then have "real_of_int (hashToBucket ''u:f'') \<le> 99" by simp
  then have "real_of_int (hashToBucket ''u:f'') < 99.5" by simp
  then have "isEnabled (rollout_register ?c (\<lambda>_. None)) ''f'' \<lparr>rcUserId = ''u'', rcTier = Free\<rparr>"
    by (simp add: isEnabled_def rollout_register_def rollout_evaluate_def opt_includes_def)
  then show ?thesis
    using rollout_percentage_monotone [of ?c 100 "\<lambda>_. None" "\<lparr>rcUserId = ''u'', rcTier = Free\<rparr>"] by simp
qed

text \<open>The extremes: at 0 only the allowed tiers and the cohort have the feature, at 100 everyone but the blocked tiers.\<close>

lemma rollout_extremes:
  assumes "flags flagKey = Some config"
  shows "fcRolloutPercentage config = 0 \<Longrightarrow> isEnabled flags flagKey context \<longleftrightarrow>
      \<not> opt_includes (fcBlockedTiers config) (rcTier context)
      \<and> (opt_includes (fcAllowedTiers config) (rcTier context) \<or> opt_includes (fcCohort config) (rcUserId context))"
    and "fcRolloutPercentage config = 100 \<Longrightarrow> isEnabled flags flagKey context \<longleftrightarrow>
      \<not> opt_includes (fcBlockedTiers config) (rcTier context)"
proof -
  have "real_of_int (hashToBucket s) < 100" "\<not> real_of_int (hashToBucket s) < 0" for s
    using bucket_bounds [of s] by simp_all
  then show "fcRolloutPercentage config = 0 \<Longrightarrow> isEnabled flags flagKey context \<longleftrightarrow>
      \<not> opt_includes (fcBlockedTiers config) (rcTier context)
      \<and> (opt_includes (fcAllowedTiers config) (rcTier context) \<or> opt_includes (fcCohort config) (rcUserId context))"
    and "fcRolloutPercentage config = 100 \<Longrightarrow> isEnabled flags flagKey context \<longleftrightarrow>
      \<not> opt_includes (fcBlockedTiers config) (rcTier context)"
    using assms by (auto simp: isEnabled_def rollout_evaluate_def Let_def)
qed

text \<open>A tier in both lists is blocked.\<close>

lemma blocked_before_allowed:
  assumes "flags flagKey = Some config" and "opt_includes (fcBlockedTiers config) (rcTier context)"
  shows "\<not> isEnabled flags flagKey context"
  using assms by (simp add: isEnabled_def rollout_evaluate_def)

text \<open>32-bit FNV-1a, which the hash is documented to be: rounding makes it another function.\<close>

definition fnv32a :: "string \<Rightarrow> int" where
  "fnv32a input = foldl (\<lambda>hash c. toUint32 ((hash XOR of_char c) * 0x01000193)) 0x811c9dc5 input"

lemma hash_is_not_fnv32a: "hashToBucket ''b'' = 76 \<and> fnv32a ''b'' mod 100 = 77"
  by (simp add: hashToBucket_def fnv32a_def hashStep_def toInt32_def toUint32_def js_double_def round_to_def Let_def)

end
