(* ===== verification/Token_Projection.thy ===== *)
theory Token_Projection
  imports Prelude
begin

text \<open>
  \<open>backend/src/services/tokenEventParser.ts\<close>: the projection of token events into tokens and burn records.

  The tables are lists of rows with the unique indexes of the schema (a token's address and deployment
  transaction, a burn record's transaction); the event bus is the list of its publications. A burn is
  modelled in two parts, its reads and its transaction, since other events can be handled in between.
\<close>

section \<open>Events and tables\<close>

datatype token_event_type = TokReg | TokBurn | AdmBurn | TokMeta | FeeChg

record token_event =
  teType :: token_event_type
  teTokenAddress :: string
  teTransactionHash :: string
  teLedger :: int
  teVersion :: "int option"
  teCreator :: "string option"
  teName :: "string option"
  teSymbol :: "string option"
  teDecimals :: "int option"
  teInitialSupply :: "string option"
  teFrom :: "string option"
  teAmount :: "string option"
  teBurner :: "string option"
  teAdmin :: "string option"
  teMetadataUri :: "string option"
  teFeeType :: "string option"
  tePreviousValue :: "string option"
  teNewValue :: "string option"
  teValue :: "string option"

record token_proj_row =
  tkId :: string
  tkAddress :: string
  tkDeployTxHash :: string
  tkCreator :: string
  tkName :: string
  tkSymbol :: string
  tkDecimals :: int
  tkTotalSupply :: int
  tkInitialSupply :: int
  tkTotalBurned :: int
  tkBurnCount :: int
  tkMetadataUri :: "string option"

record burn_row =
  buTokenId :: string
  buFrom :: string
  buAmount :: int
  buBurnedBy :: string
  buIsAdminBurn :: bool
  buTxHash :: string

datatype token_publication =
    TokenBurnedMsg string string string bool
  | FeeChangedMsg int string string int string "string option" string

record token_db =
  tdTokens :: "token_proj_row list"
  tdBurns :: "burn_row list"
  tdPublished :: "token_publication list"

definition or_default :: "'a option \<Rightarrow> 'a \<Rightarrow> 'a" where
  "or_default v d = (case v of Some x \<Rightarrow> x | None \<Rightarrow> d)"

definition findTokenRow :: "string \<Rightarrow> token_db \<Rightarrow> token_proj_row option" where
  "findTokenRow address db = List.find (\<lambda>t. tkAddress t = address) (tdTokens db)"

definition findBurn :: "string \<Rightarrow> token_db \<Rightarrow> burn_row option" where
  "findBurn txHash db = List.find (\<lambda>b. buTxHash b = txHash) (tdBurns db)"

section \<open>Handlers\<close>

text \<open>\<open>ok\<close> is false when the database fails; \<open>i\<close> is the id of a new row.\<close>

definition handleTokenCreated :: "bool \<Rightarrow> string \<Rightarrow> token_event \<Rightarrow> token_db \<Rightarrow> (service_error, unit) res \<times> token_db" where
  "handleTokenCreated ok i event db =
     (case big_int_of (or_default (teInitialSupply event) ''0'') of
        None \<Rightarrow> (Inl (SyntaxError (or_default (teInitialSupply event) ''0'')), db)
      | Some initialSupply \<Rightarrow>
          if \<not> ok then (Inl (DatabaseError ''unavailable''), db)
          else if findTokenRow (teTokenAddress event) db \<noteq> None then (Inr (), db)
          else if teTransactionHash event \<in> tkDeployTxHash ` set (tdTokens db) \<or> \<not> bigint_column initialSupply
                  \<or> \<not> int_column (or_default (teDecimals event) 7)
          then (Inl (DatabaseError ''create''), db)
          else (Inr (), db\<lparr>tdTokens := tdTokens db @
                 [\<lparr>tkId = i, tkAddress = teTokenAddress event, tkDeployTxHash = teTransactionHash event,
                   tkCreator = or_default (teCreator event) [], tkName = or_default (teName event) [],
                   tkSymbol = or_default (teSymbol event) [], tkDecimals = or_default (teDecimals event) 7,
                   tkTotalSupply = initialSupply, tkInitialSupply = initialSupply, tkTotalBurned = 0, tkBurnCount = 0,
                   tkMetadataUri = None\<rparr>]\<rparr>))"

text \<open>The reads of a burn: \<open>None\<close> when it is recorded already or its token is unknown.\<close>

definition burnRead :: "bool \<Rightarrow> token_event \<Rightarrow> token_db \<Rightarrow> (service_error, (token_proj_row \<times> int) option) res" where
  "burnRead ok event db =
     (if \<not> ok then Inl (DatabaseError ''unavailable'')
      else if findBurn (teTransactionHash event) db \<noteq> None then Inr None
      else
        (case findTokenRow (teTokenAddress event) db of
           None \<Rightarrow> Inr None
         | Some token \<Rightarrow>
             (case big_int_of (or_default (teAmount event) ''0'') of
                None \<Rightarrow> Inl (SyntaxError (or_default (teAmount event) ''0''))
              | Some amount \<Rightarrow> Inr (Some (token, amount)))))"

definition burnRow :: "token_event \<Rightarrow> bool \<Rightarrow> token_proj_row \<Rightarrow> int \<Rightarrow> burn_row" where
  "burnRow event isAdminBurn token amount =
     \<lparr>buTokenId = tkId token, buFrom = or_default (teFrom event) [], buAmount = amount,
      buBurnedBy = (if isAdminBurn then or_default (teAdmin event) (or_default (teFrom event) [])
                    else or_default (teBurner event) (or_default (teFrom event) [])),
      buIsAdminBurn = isAdminBurn, buTxHash = teTransactionHash event\<rparr>"

definition applyBurn :: "int \<Rightarrow> token_proj_row \<Rightarrow> token_proj_row" where
  "applyBurn amount t = t\<lparr>tkTotalBurned := tkTotalBurned t + amount, tkBurnCount := tkBurnCount t + 1,
     tkTotalSupply := tkTotalSupply t - amount\<rparr>"

text \<open>The transaction and the publication.\<close>

definition burnCommit :: "bool \<Rightarrow> token_event \<Rightarrow> bool \<Rightarrow> token_proj_row \<Rightarrow> int \<Rightarrow> token_db \<Rightarrow> (service_error, unit) res \<times> token_db" where
  "burnCommit ok event isAdminBurn token amount db =
     (if \<not> ok \<or> findBurn (teTransactionHash event) db \<noteq> None \<or> tkId token \<notin> tkId ` set (tdTokens db) \<or> \<not> bigint_column amount
         \<or> (\<exists>t\<in>set (tdTokens db). tkId t = tkId token \<and>
              \<not> (bigint_column (tkTotalBurned t + amount) \<and> int_column (tkBurnCount t + 1) \<and> bigint_column (tkTotalSupply t - amount)))
      then (Inl (DatabaseError ''transaction''), db)
      else (Inr (), db\<lparr>tdBurns := tdBurns db @ [burnRow event isAdminBurn token amount],
              tdTokens := map (\<lambda>t. if tkId t = tkId token then applyBurn amount t else t) (tdTokens db),
              tdPublished := tdPublished db @ [TokenBurnedMsg (tkId token) (teTokenAddress event) (show_int amount) isAdminBurn]\<rparr>))"

definition handleBurn :: "bool \<Rightarrow> token_event \<Rightarrow> bool \<Rightarrow> token_db \<Rightarrow> (service_error, unit) res \<times> token_db" where
  "handleBurn ok event isAdminBurn db =
     (case burnRead ok event db of
        Inl e \<Rightarrow> (Inl e, db)
      | Inr None \<Rightarrow> (Inr (), db)
      | Inr (Some (token, amount)) \<Rightarrow> burnCommit ok event isAdminBurn token amount db)"

definition handleMetadataUpdate :: "bool \<Rightarrow> token_event \<Rightarrow> token_db \<Rightarrow> (service_error, unit) res \<times> token_db" where
  "handleMetadataUpdate ok event db =
     (if \<not> ok then (Inl (DatabaseError ''unavailable''), db)
      else (Inr (), db\<lparr>tdTokens := map (\<lambda>t. if tkAddress t = teTokenAddress event then t\<lparr>tkMetadataUri := teMetadataUri event\<rparr> else t) (tdTokens db)\<rparr>))"

definition handleFeeChange :: "token_event \<Rightarrow> token_db \<Rightarrow> (service_error, unit) res \<times> token_db" where
  "handleFeeChange event db =
     (let isV2 = or_default (teVersion event) 1 \<ge> 2;
          newValue = (if isV2 then teNewValue event else teValue event);
          previousValue = (if isV2 then tePreviousValue event else None)
      in case newValue of
           None \<Rightarrow> (Inr (), db)
         | Some v \<Rightarrow>
             (Inr (), db\<lparr>tdPublished := tdPublished db @
                [FeeChangedMsg (if isV2 then 2 else 1) (teTokenAddress event) (teTransactionHash event) (teLedger event)
                   (or_default (teFeeType event) ''unknown'') previousValue v]\<rparr>))"

definition token_parseEvent :: "bool \<Rightarrow> string \<Rightarrow> token_event \<Rightarrow> token_db \<Rightarrow> (service_error, unit) res \<times> token_db" where
  "token_parseEvent ok i event db =
     (case teType event of
        TokReg \<Rightarrow> handleTokenCreated ok i event db
      | TokBurn \<Rightarrow> handleBurn ok event False db
      | AdmBurn \<Rightarrow> handleBurn ok event True db
      | TokMeta \<Rightarrow> handleMetadataUpdate ok event db
      | FeeChg \<Rightarrow> handleFeeChange event db)"

section \<open>Interleaved ingestions conserve the supply\<close>

record token_sys =
  tsDb :: token_db
  tsPending :: "(token_event \<times> bool \<times> token_proj_row \<times> int) list"

inductive token_step :: "token_sys \<Rightarrow> token_sys \<Rightarrow> bool" where
  parse: "i \<notin> tkId ` set (tdTokens (tsDb x)) \<Longrightarrow> token_parseEvent ok i event (tsDb x) = (res, db) \<Longrightarrow>
    token_step x (x\<lparr>tsDb := db\<rparr>)"
| burn_read: "burnRead ok event (tsDb x) = Inr (Some (token, amount)) \<Longrightarrow>
    token_step x (x\<lparr>tsPending := (event, isAdminBurn, token, amount) # tsPending x\<rparr>)"
| burn_commit: "(event, isAdminBurn, token, amount) \<in> set (tsPending x) \<Longrightarrow>
    burnCommit ok event isAdminBurn token amount (tsDb x) = (res, db) \<Longrightarrow>
    token_step x (x\<lparr>tsDb := db, tsPending := remove1 (event, isAdminBurn, token, amount) (tsPending x)\<rparr>)"

definition burnsOf :: "string \<Rightarrow> token_db \<Rightarrow> burn_row list" where
  "burnsOf i db = filter (\<lambda>b. buTokenId b = i) (tdBurns db)"

definition token_row_ok :: "token_db \<Rightarrow> token_proj_row \<Rightarrow> bool" where
  "token_row_ok db t \<longleftrightarrow> tkTotalBurned t = sum_list (map buAmount (burnsOf (tkId t) db))
     \<and> tkBurnCount t = int (length (burnsOf (tkId t) db)) \<and> tkTotalSupply t = tkInitialSupply t - tkTotalBurned t"

definition token_inv :: "token_db \<Rightarrow> bool" where
  "token_inv db \<longleftrightarrow> distinct (map buTxHash (tdBurns db)) \<and> distinct (map tkAddress (tdTokens db))
     \<and> buTokenId ` set (tdBurns db) \<subseteq> tkId ` set (tdTokens db) \<and> (\<forall>t\<in>set (tdTokens db). token_row_ok db t)"

lemma findBurn_None: "findBurn txHash db = None \<longleftrightarrow> txHash \<notin> buTxHash ` set (tdBurns db)"
  by (auto simp: findBurn_def find_None_iff)

lemma findTokenRow_None: "findTokenRow a db = None \<longleftrightarrow> a \<notin> tkAddress ` set (tdTokens db)"
  by (auto simp: findTokenRow_def find_None_iff)

lemma applyBurn_simps [simp]:
  "tkId (applyBurn a t) = tkId t" "tkAddress (applyBurn a t) = tkAddress t" "tkInitialSupply (applyBurn a t) = tkInitialSupply t"
  "tkTotalBurned (applyBurn a t) = tkTotalBurned t + a" "tkBurnCount (applyBurn a t) = tkBurnCount t + 1"
  "tkTotalSupply (applyBurn a t) = tkTotalSupply t - a" "tkMetadataUri (applyBurn a t) = tkMetadataUri t"
  by (simp_all add: applyBurn_def)

lemma burnRow_simps [simp]:
  "buTokenId (burnRow e b t a) = tkId t" "buAmount (burnRow e b t a) = a" "buTxHash (burnRow e b t a) = teTransactionHash e"
  by (simp_all add: burnRow_def)

lemma burnCommit_cases:
  assumes "burnCommit ok event b token a db = (res, db')"
  obtains e where "res = Inl e" and "db' = db"
  | "res = Inr ()" and "findBurn (teTransactionHash event) db = None" and "tkId token \<in> tkId ` set (tdTokens db)"
    and "tdBurns db' = tdBurns db @ [burnRow event b token a]"
    and "tdTokens db' = map (\<lambda>t. if tkId t = tkId token then applyBurn a t else t) (tdTokens db)"
proof (cases "\<not> ok \<or> findBurn (teTransactionHash event) db \<noteq> None \<or> tkId token \<notin> tkId ` set (tdTokens db) \<or> \<not> bigint_column a
         \<or> (\<exists>t\<in>set (tdTokens db). tkId t = tkId token \<and>
              \<not> (bigint_column (tkTotalBurned t + a) \<and> int_column (tkBurnCount t + 1) \<and> bigint_column (tkTotalSupply t - a)))")
  case True
  then have "res = Inl (DatabaseError ''transaction'')" "db' = db"
    using assms unfolding burnCommit_def by (simp_all only: if_True prod.inject)
  then show ?thesis using that(1) by blast
next
  case False
  then have run: "Inr () = res" "db\<lparr>tdBurns := tdBurns db @ [burnRow event b token a],
              tdTokens := map (\<lambda>t. if tkId t = tkId token then applyBurn a t else t) (tdTokens db),
              tdPublished := tdPublished db @ [TokenBurnedMsg (tkId token) (teTokenAddress event) (show_int a) b]\<rparr> = db'"
    using assms unfolding burnCommit_def if_not_P [OF False] by simp_all
  show ?thesis by (rule that(2)) (use False run in auto)
qed

lemma token_inv_burn:
  assumes inv: "token_inv db" and run: "burnCommit ok event b token a db = (res, db')"
  shows "token_inv db'"
  using run
proof (cases rule: burnCommit_cases)
  case (1 e)
  then show ?thesis using inv by simp
next
  case 2
  let ?f = "\<lambda>t. if tkId t = tkId token then applyBurn a t else t"
  have burns: "burnsOf i db' = burnsOf i db @ (if i = tkId token then [burnRow event b token a] else [])" for i
    by (simp add: burnsOf_def 2(4))
  have ids: "tkId ` set (tdTokens db') = tkId ` set (tdTokens db)"
    by (rule image_set_cong) (simp add: 2(5))
  have "map tkAddress (tdTokens db') = map tkAddress (tdTokens db)" unfolding 2(5) by simp
  moreover have "token_row_ok db' (?f t)" if "t \<in> set (tdTokens db)" for t
    using inv that by (auto simp: token_inv_def token_row_ok_def burns)
  then have "\<forall>t\<in>set (tdTokens db'). token_row_ok db' t" unfolding 2(5) by (rule ball_set_map)
  ultimately show ?thesis
    using inv 2(2,3) unfolding token_inv_def ids by (simp add: 2(4) findBurn_None)
qed

lemma token_inv_parse:
  assumes inv: "token_inv db" and fresh: "i \<notin> tkId ` set (tdTokens db)" and run: "token_parseEvent ok i event db = (res, db')"
  shows "token_inv db'"
proof (cases "teType event")
  case TokReg
  show ?thesis
  proof (cases "db' = db")
    case False
    then obtain t where t: "db' = db\<lparr>tdTokens := tdTokens db @ [t]\<rparr>" "tkId t = i" "tkAddress t = teTokenAddress event" "tkTotalBurned t = 0"
        "tkBurnCount t = 0" "tkTotalSupply t = tkInitialSupply t" and new: "findTokenRow (teTokenAddress event) db = None"
      using run TokReg by (auto simp: token_parseEvent_def handleTokenCreated_def split: option.splits if_splits)
    have "burnsOf i db = []" using inv fresh by (auto simp: token_inv_def burnsOf_def filter_empty_conv)
    moreover have b: "burnsOf j db' = burnsOf j db" for j by (simp add: burnsOf_def t(1))
    ultimately have "token_row_ok db' t" using t by (simp add: token_row_ok_def)
    moreover have "token_row_ok db' u" if "u \<in> set (tdTokens db)" for u
      using inv that by (simp add: token_inv_def token_row_ok_def b)
    ultimately show ?thesis
      using inv new t by (auto simp: token_inv_def findTokenRow_None)
  qed (use inv in simp)
next
  case TokMeta
  let ?g = "\<lambda>t. if tkAddress t = teTokenAddress event then t\<lparr>tkMetadataUri := teMetadataUri event\<rparr> else t"
  show ?thesis
  proof (cases "db' = db")
    case False
    then have d: "tdBurns db' = tdBurns db" "tdTokens db' = map ?g (tdTokens db)"
      using run TokMeta by (auto simp: token_parseEvent_def handleMetadataUpdate_def split: if_splits)
    have "map tkAddress (tdTokens db') = map tkAddress (tdTokens db)" "map tkId (tdTokens db') = map tkId (tdTokens db)"
      unfolding d(2) by simp_all
    then have ids: "map tkAddress (tdTokens db') = map tkAddress (tdTokens db)" "tkId ` set (tdTokens db') = tkId ` set (tdTokens db)"
      using image_set_cong by blast+
    have "token_row_ok db' (?g t)" if "t \<in> set (tdTokens db)" for t
      using inv that by (auto simp: token_inv_def token_row_ok_def burnsOf_def d(1))
    then have "\<forall>t\<in>set (tdTokens db'). token_row_ok db' t" unfolding d(2) by (rule ball_set_map)
    then show ?thesis using inv unfolding token_inv_def ids d(1) by blast
  qed (use inv in simp)
next
  case FeeChg
  then have "tdTokens db' = tdTokens db" "tdBurns db' = tdBurns db"
    using run by (auto simp: token_parseEvent_def handleFeeChange_def Let_def split: option.splits)
  then show ?thesis using inv by (simp add: token_inv_def token_row_ok_def burnsOf_def)
qed (use run inv in \<open>auto simp: token_parseEvent_def handleBurn_def split: sum.splits option.splits intro: token_inv_burn [OF inv]\<close>)

lemma token_inv_reachable:
  assumes run: "token_step\<^sup>*\<^sup>* x y" and inv: "token_inv (tsDb x)"
  shows "token_inv (tsDb y)"
  using run
proof induction
  case (step y z)
  then show ?case by (elim token_step.cases) (auto intro: token_inv_parse token_inv_burn)
qed (rule inv)

section \<open>Replay\<close>

text \<open>Events in order, each with the id a new row gets, and the database up.\<close>

fun token_run :: "(string \<times> token_event) list \<Rightarrow> token_db \<Rightarrow> token_db" where
  "token_run [] db = db"
| "token_run ((i, event) # es) db = token_run es (snd (token_parseEvent True i event db))"

text \<open>An event has taken effect: its token is there, its burn is recorded.\<close>

definition token_settled :: "token_event \<Rightarrow> token_db \<Rightarrow> bool" where
  "token_settled event db =
     (case teType event of
        TokReg \<Rightarrow> findTokenRow (teTokenAddress event) db \<noteq> None
      | TokBurn \<Rightarrow> findBurn (teTransactionHash event) db \<noteq> None
      | AdmBurn \<Rightarrow> findBurn (teTransactionHash event) db \<noteq> None
      | TokMeta \<Rightarrow> findTokenRow (teTokenAddress event) db \<noteq> None
      | FeeChg \<Rightarrow> True)"

fun all_settle :: "(string \<times> token_event) list \<Rightarrow> token_db \<Rightarrow> bool" where
  "all_settle [] db \<longleftrightarrow> True"
| "all_settle ((i, event) # es) db \<longleftrightarrow>
     (let db1 = snd (token_parseEvent True i event db) in token_settled event db1 \<and> all_settle es db1)"

text \<open>The metadata that the last update of an address sets.\<close>

fun lastMeta :: "token_event list \<Rightarrow> string \<Rightarrow> string option option" where
  "lastMeta [] a = None"
| "lastMeta (e # es) a = (case lastMeta es a of Some m \<Rightarrow> Some m
     | None \<Rightarrow> if teType e = TokMeta \<and> teTokenAddress e = a then Some (teMetadataUri e) else None)"

lemma lastMeta_append: "lastMeta (es @ fs) a = (case lastMeta fs a of Some m \<Rightarrow> Some m | None \<Rightarrow> lastMeta es a)"
  by (induction es) (auto split: option.splits)

definition metaAfter :: "token_event list \<Rightarrow> token_proj_row \<Rightarrow> token_proj_row" where
  "metaAfter es t = (case lastMeta es (tkAddress t) of None \<Rightarrow> t | Some m \<Rightarrow> t\<lparr>tkMetadataUri := m\<rparr>)"

lemma metaAfter_simps [simp]:
  "metaAfter [] t = t" "tkAddress (metaAfter es t) = tkAddress t"
  "metaAfter (e # es) t = metaAfter es (if tkAddress t = teTokenAddress e \<and> teType e = TokMeta then t\<lparr>tkMetadataUri := teMetadataUri e\<rparr> else t)"
  by (auto simp: metaAfter_def split: option.splits)

lemma parse_settled_event:
  assumes "token_settled event db"
  shows "tdBurns (snd (token_parseEvent True i event db)) = tdBurns db"
    and "tdTokens (snd (token_parseEvent True i event db)) = map (metaAfter [event]) (tdTokens db)"
  using assms
  by (auto simp: token_settled_def token_parseEvent_def handleTokenCreated_def handleBurn_def burnRead_def handleMetadataUpdate_def
      handleFeeChange_def Let_def split: token_event_type.splits option.splits if_splits intro!: map_cong map_idI [symmetric])

text \<open>What an event does to the tables.\<close>

lemma parse_cases:
  assumes "token_parseEvent ok i event db = (res, db')"
  obtains "tdTokens db' = tdTokens db" and "tdBurns db' = tdBurns db" and "\<not> ok \<or> teType event \<noteq> TokMeta"
  | t where "teType event = TokReg" and "tdTokens db' = tdTokens db @ [t]" and "tdBurns db' = tdBurns db"
    and "tkAddress t = teTokenAddress event" and "findTokenRow (teTokenAddress event) db = None"
  | b token a where "burnCommit ok event b token a db = (res, db')" and "teType event = TokBurn \<or> teType event = AdmBurn"
  | "teType event = TokMeta" and "tdTokens db' = map (metaAfter [event]) (tdTokens db)" and "tdBurns db' = tdBurns db"
proof (cases "teType event")
  case TokReg
  then show ?thesis
    using assms that(1,2) by (auto simp: token_parseEvent_def handleTokenCreated_def split: option.splits if_splits)
next
  case TokBurn
  then show ?thesis
    using assms that(1,3) by (auto simp: token_parseEvent_def handleBurn_def split: sum.splits option.splits)
next
  case AdmBurn
  then show ?thesis
    using assms that(1,3) by (auto simp: token_parseEvent_def handleBurn_def split: sum.splits option.splits)
next
  case TokMeta
  have "\<not> ok \<and> tdTokens db' = tdTokens db \<and> tdBurns db' = tdBurns db \<or>
      tdTokens db' = map (metaAfter [event]) (tdTokens db) \<and> tdBurns db' = tdBurns db"
    using assms TokMeta by (auto simp: token_parseEvent_def handleMetadataUpdate_def split: if_splits intro!: map_cong)
  then show ?thesis using TokMeta that(1,4) by blast
next
  case FeeChg
  then show ?thesis
    using assms that(1) by (auto simp: token_parseEvent_def handleFeeChange_def Let_def split: option.splits)
qed

lemma parse_keeps:
  assumes "token_parseEvent ok i event db = (res, db')"
  shows "buTxHash ` set (tdBurns db) \<subseteq> buTxHash ` set (tdBurns db') \<and> tkAddress ` set (tdTokens db) \<subseteq> tkAddress ` set (tdTokens db')"
  using assms
proof (cases rule: parse_cases)
  case (3 b token a)
  from 3(1) show ?thesis
  proof (cases rule: burnCommit_cases)
    case 2
    have "tkAddress ` set (tdTokens db') = tkAddress ` set (tdTokens db)"
      by (rule image_set_cong) (simp add: 2(5))
    then show ?thesis by (simp add: 2(4) subset_insertI)
  qed simp
next
  case 4
  have "tkAddress ` set (tdTokens db') = tkAddress ` set (tdTokens db)"
    by (rule image_set_cong) (simp add: 4(2))
  then show ?thesis by (simp add: 4(3))
qed auto

lemma settled_kept:
  assumes "token_parseEvent ok i event db = (res, db')" and "token_settled e db"
  shows "token_settled e db'"
  using assms(2) parse_keeps [OF assms(1)]
  by (auto simp: token_settled_def findTokenRow_None findBurn_None split: token_event_type.splits)

text \<open>
  The projection is consistent with the events handled so far: each of them has taken effect, and the
  metadata of a token is the one its last update set.
\<close>

definition token_consistent :: "token_event list \<Rightarrow> token_db \<Rightarrow> bool" where
  "token_consistent es db \<longleftrightarrow> (\<forall>e\<in>set es. token_settled e db) \<and> (\<forall>t\<in>set (tdTokens db). metaAfter es t = t)"

lemma metaAfter_fix: "metaAfter es t = t \<longleftrightarrow> (case lastMeta es (tkAddress t) of None \<Rightarrow> True | Some m \<Rightarrow> tkMetadataUri t = m)"
  by (cases t) (auto simp: metaAfter_def split: option.splits)

lemma lastMeta_Some: "lastMeta es a = Some m \<Longrightarrow> \<exists>e\<in>set es. teType e = TokMeta \<and> teTokenAddress e = a"
  by (induction es) (auto split: option.splits if_splits)

lemma consistent_step:
  assumes c: "token_consistent es db" and run: "token_parseEvent True i event db = (res, db')" and s: "token_settled event db'"
  shows "token_consistent (es @ [event]) db'"
proof -
  have settled: "\<forall>e\<in>set (es @ [event]). token_settled e db'"
    using c s settled_kept [OF run] by (auto simp: token_consistent_def)
  have no: "metaAfter (es @ [event]) t = t" if "teType event \<noteq> TokMeta" "metaAfter es t = t" for t
    using that by (simp add: metaAfter_fix lastMeta_append)
  have "\<forall>t\<in>set (tdTokens db'). metaAfter (es @ [event]) t = t"
    using run
  proof (cases rule: parse_cases)
    case 1
    then show ?thesis using no c by (simp add: token_consistent_def)
  next
    case (2 t)
    have "lastMeta es (tkAddress t) = None"
    proof (rule ccontr)
      assume "lastMeta es (tkAddress t) \<noteq> None"
      then obtain e where "e \<in> set es" "teType e = TokMeta" "teTokenAddress e = tkAddress t" using lastMeta_Some by blast
      then have "findTokenRow (tkAddress t) db \<noteq> None" using c by (auto simp: token_consistent_def token_settled_def)
      then show False using 2(4,5) by simp
    qed
    then have "metaAfter es t = t" by (simp add: metaAfter_fix)
    then show ?thesis using no 2(1,2) c by (auto simp: token_consistent_def)
  next
    case (3 b token a)
    from 3(1) show ?thesis
    proof (cases rule: burnCommit_cases)
      case (1 e)
      then show ?thesis using no 3(2) c by (auto simp: token_consistent_def)
    next
      case 2
      show ?thesis
        unfolding 2(5)
      proof (rule ball_set_map)
        fix t assume "t \<in> set (tdTokens db)"
        then have "metaAfter es t = t" using c by (simp add: token_consistent_def)
        then have "metaAfter es (if tkId t = tkId token then applyBurn a t else t) = (if tkId t = tkId token then applyBurn a t else t)"
          by (auto simp: metaAfter_fix split: option.splits)
        then show "metaAfter (es @ [event]) (if tkId t = tkId token then applyBurn a t else t) = (if tkId t = tkId token then applyBurn a t else t)"
          using no 3(2) by auto
      qed
    qed
  next
    case 4
    show ?thesis
      unfolding 4(2)
    proof (rule ball_set_map)
      fix t assume "t \<in> set (tdTokens db)"
      then have "metaAfter es t = t" using c by (simp add: token_consistent_def)
      then show "metaAfter (es @ [event]) (metaAfter [event] t) = metaAfter [event] t"
        by (auto simp: metaAfter_fix lastMeta_append)
    qed
  qed
  with settled show ?thesis by (simp add: token_consistent_def)
qed

lemma consistent_run:
  assumes "token_consistent es0 db" and "all_settle es db"
  shows "token_consistent (es0 @ map snd es) (token_run es db)"
  using assms
proof (induction es arbitrary: es0 db)
  case (Cons e es)
  obtain i event where e: "e = (i, event)" by (cases e)
  obtain res db1 where run: "token_parseEvent True i event db = (res, db1)" by (cases "token_parseEvent True i event db")
  then have s: "token_settled event db1" "all_settle es db1" using Cons.prems(2) e by (simp_all add: Let_def)
  have "token_consistent (es0 @ [event]) db1" by (rule consistent_step [OF Cons.prems(1) run s(1)])
  from Cons.IH [OF this s(2)] show ?case using run e by simp
qed simp

lemma run_settled:
  assumes "\<forall>e\<in>set (map snd es). token_settled e db"
  shows "tdBurns (token_run es db) = tdBurns db \<and> tdTokens (token_run es db) = map (metaAfter (map snd es)) (tdTokens db)"
  using assms
proof (induction es arbitrary: db)
  case Nil
  show ?case by (simp add: map_idI)
next
  case (Cons e es)
  obtain i event where e: "e = (i, event)" by (cases e)
  let ?db1 = "snd (token_parseEvent True i event db)"
  have s: "token_settled event db" using Cons.prems e by simp
  have "\<forall>f\<in>set (map snd es). token_settled f ?db1"
    using Cons.prems settled_kept [of True i event db] by (metis list.set_intros(2) list.simps(9) prod.collapse)
  from Cons.IH [OF this] show ?case
    using parse_settled_event [OF s, of i] e by (simp add: comp_def metaAfter_def) (auto split: option.splits)
qed

lemma consistent_suffix:
  assumes "token_consistent (es @ fs) db"
  shows "token_consistent fs db"
  using assms by (auto simp: token_consistent_def metaAfter_fix lastMeta_append split: option.splits)

text \<open>C14: Replay from a stale cursor is harmless: after events that all took effect, handling any suffix of them
  again, with whatever new row ids, changes no token and no burn record.\<close>

theorem token_replay_idempotent:
  assumes "all_settle (es @ fs) db" and "map snd gs = map snd fs"
  shows "tdTokens (token_run gs (token_run (es @ fs) db)) = tdTokens (token_run (es @ fs) db)
    \<and> tdBurns (token_run gs (token_run (es @ fs) db)) = tdBurns (token_run (es @ fs) db)"
proof -
  let ?db = "token_run (es @ fs) db"
  have "token_consistent ([] @ map snd (es @ fs)) ?db"
    by (rule consistent_run [OF _ assms(1)]) (simp add: token_consistent_def)
  then have "token_consistent (map snd es @ map snd fs) ?db" by simp
  then have c: "token_consistent (map snd gs) ?db" unfolding assms(2) by (rule consistent_suffix)
  then have "tdBurns (token_run gs ?db) = tdBurns ?db \<and> tdTokens (token_run gs ?db) = map (metaAfter (map snd gs)) (tdTokens ?db)"
    by (intro run_settled) (simp add: token_consistent_def)
  moreover have "map (metaAfter (map snd gs)) (tdTokens ?db) = tdTokens ?db"
    using c by (intro map_idI) (simp add: token_consistent_def)
  ultimately show ?thesis by simp
qed

definition blank_event :: "token_event_type \<Rightarrow> string \<Rightarrow> string \<Rightarrow> token_event" where
  "blank_event ty address tx = \<lparr>teType = ty, teTokenAddress = address, teTransactionHash = tx, teLedger = 1, teVersion = None,
     teCreator = None, teName = None, teSymbol = None, teDecimals = None, teInitialSupply = None, teFrom = None, teAmount = None,
     teBurner = None, teAdmin = None, teMetadataUri = None, teFeeType = None, tePreviousValue = None, teNewValue = None, teValue = None\<rparr>"

definition empty_tokens :: token_db where
  "empty_tokens = \<lparr>tdTokens = [], tdBurns = [], tdPublished = []\<rparr>"

definition ev_created :: token_event where
  "ev_created = (blank_event TokReg ''A'' ''tx1'')\<lparr>teInitialSupply := Some ''100''\<rparr>"

definition ev_burned :: token_event where
  "ev_burned = (blank_event TokBurn ''A'' ''tx2'')\<lparr>teAmount := Some ''30'', teFrom := Some ''H''\<rparr>"

definition ev_meta :: token_event where
  "ev_meta = (blank_event TokMeta ''A'' ''tx3'')\<lparr>teMetadataUri := Some ''ipfs''\<rparr>"

lemmas token_demo_defs = blank_event_def empty_tokens_def ev_created_def ev_burned_def ev_meta_def

lemmas token_ops_defs = token_parseEvent_def handleTokenCreated_def handleBurn_def burnRead_def burnCommit_def handleMetadataUpdate_def
  findTokenRow_def findBurn_def or_default_def bigint_column_def int_column_def applyBurn_def burnRow_def

lemma demo_amounts: "big_int_of ''100'' = Some 100" "big_int_of ''30'' = Some 30" "big_int_of ''0'' = Some 0"
  by (simp_all add: big_int_of_def is_space_def is_digit_def digits_val_def digit_val_def)

theorem token_replay_idempotent_witness:
  "(let es = [(''i'', ev_created), (''j'', ev_burned), (''k'', ev_meta)]; fs = [(''x'', ev_created), (''y'', ev_burned), (''z'', ev_meta)]
    in tdTokens (token_run fs (token_run es empty_tokens)) = tdTokens (token_run es empty_tokens)
     \<and> map tkTotalSupply (tdTokens (token_run es empty_tokens)) = [70])"
proof -
  let ?es = "[(''i'', ev_created), (''j'', ev_burned), (''k'', ev_meta)]" and ?fs = "[(''x'', ev_created), (''y'', ev_burned), (''z'', ev_meta)]"
  have "all_settle ?es empty_tokens"
    by (simp add: token_demo_defs token_ops_defs token_settled_def demo_amounts)
  moreover have "map tkTotalSupply (tdTokens (token_run ?es empty_tokens)) = [70]"
    by (simp add: token_demo_defs token_ops_defs demo_amounts)
  ultimately show ?thesis
    using token_replay_idempotent [of "[]" ?es empty_tokens ?fs] by simp
qed

text \<open>C6: Whatever the order and the overlap of the ingestions, repeated and failing ones included, every token's
  supply is its initial supply less what was burned, the burned total and the burn count are those of
  its burn records, and no transaction's burn is recorded twice.\<close>

theorem token_supply_conserved:
  assumes "token_inv (tsDb x)" and "token_step\<^sup>*\<^sup>* x y"
  shows "distinct (map buTxHash (tdBurns (tsDb y))) \<and> (\<forall>t\<in>set (tdTokens (tsDb y)).
      tkTotalSupply t + tkTotalBurned t = tkInitialSupply t
      \<and> tkTotalBurned t = sum_list (map buAmount (burnsOf (tkId t) (tsDb y)))
      \<and> tkBurnCount t = int (length (burnsOf (tkId t) (tsDb y))))"
  using token_inv_reachable [OF assms(2,1)] by (auto simp: token_inv_def token_row_ok_def)

theorem token_supply_conserved_witness:
  "\<exists>y. token_step\<^sup>*\<^sup>* \<lparr>tsDb = empty_tokens, tsPending = []\<rparr> y \<and> map tkTotalSupply (tdTokens (tsDb y)) = [70]
     \<and> (\<forall>t\<in>set (tdTokens (tsDb y)). tkTotalSupply t + tkTotalBurned t = tkInitialSupply t)"
proof -
  let ?db1 = "token_run [(''i'', ev_created)] empty_tokens"
  let ?db2 = "token_run [(''i'', ev_created), (''j'', ev_burned)] empty_tokens"
  have "token_step \<lparr>tsDb = empty_tokens, tsPending = []\<rparr> \<lparr>tsDb = ?db1, tsPending = []\<rparr>"
    using parse [of "''i''" "\<lparr>tsDb = empty_tokens, tsPending = []\<rparr>" True ev_created "fst (token_parseEvent True ''i'' ev_created empty_tokens)" ?db1]
    by (simp add: empty_tokens_def)
  moreover have "token_step \<lparr>tsDb = ?db1, tsPending = []\<rparr> \<lparr>tsDb = ?db2, tsPending = []\<rparr>"
    using parse [of "''j''" "\<lparr>tsDb = ?db1, tsPending = []\<rparr>" True ev_burned "fst (token_parseEvent True ''j'' ev_burned ?db1)" ?db2]
    by (simp add: token_demo_defs token_ops_defs demo_amounts)
  ultimately have run: "token_step\<^sup>*\<^sup>* \<lparr>tsDb = empty_tokens, tsPending = []\<rparr> \<lparr>tsDb = ?db2, tsPending = []\<rparr>"
    by (meson converse_rtranclp_into_rtranclp rtranclp.rtrancl_refl)
  have "map tkTotalSupply (tdTokens ?db2) = [70]" by (simp add: token_demo_defs token_ops_defs demo_amounts)
  moreover have "token_inv empty_tokens" by (simp add: token_inv_def empty_tokens_def)
  ultimately show ?thesis using token_supply_conserved [OF _ run] run by auto
qed

text \<open>
  A transaction that deploys several tokens: the deployment hash is unique, so every token after the
  first one is refused, and so are its later burns, which find no token.
\<close>

lemma second_token_of_transaction_lost:
  assumes "findTokenRow (teTokenAddress event) db = None" and "teTransactionHash event \<in> tkDeployTxHash ` set (tdTokens db)"
  shows "snd (handleTokenCreated ok i event db) = db \<and> (\<exists>e. fst (handleTokenCreated ok i event db) = Inl e)"
  using assms by (auto simp: handleTokenCreated_def split: option.splits)

lemma burn_of_unknown_token_skipped:
  assumes "findTokenRow (teTokenAddress event) db = None" and "findBurn (teTransactionHash event) db = None"
  shows "handleBurn True event b db = (Inr (), db)"
  using assms by (simp add: handleBurn_def burnRead_def)

end
