(* ===== verification/Governance_Projection.thy ===== *)
theory Governance_Projection
  imports Decoder_Registry "HOL-Library.Signed_Division"
begin

text \<open>
  \<open>backend/src/services/governanceEventMapper.ts\<close> and \<open>governanceEventParser.ts\<close>: governance events, from
  the raw contract event to proposals, votes and executions, and their analytics.

  The mapper reads dynamically typed fields; a field that has not the type of its column is refused by
  the database client, as is \<open>NaN\<close>, which is \<open>JUndef\<close> here. A ledger's close time stays the string it is
  parsed from; start and end times are milliseconds. The tables are lists of rows with the unique
  indexes of the schema.
\<close>

section \<open>The mapper\<close>

definition GOVERNANCE_EVENT_NAMES :: "string list" where
  "GOVERNANCE_EVENT_NAMES =
     [''prop_cr_v1'', ''vote_cs_v1'', ''prop_qu_v1'', ''prop_ex_v1'', ''prop_ca_v1'', ''prop_st_v1'',
      ''prop_cr'', ''vote_cs'', ''prop_qu'', ''prop_ex'', ''prop_ca'', ''prop_snap'',
      ''prop_create'', ''vote_cast'', ''prop_exec'', ''prop_cancel'', ''prop_status'']"

datatype proposal_type = PARAMETER_CHANGE | ADMIN_TRANSFER | TREASURY_SPEND | CONTRACT_UPGRADE | CUSTOM
datatype proposal_status = PsActive | PsPassed | PsRejected | PsQueued | PsExecuted | PsCancelled | PsExpired

record gov_base =
  gbTxHash :: string
  gbLedger :: int
  gbTimestamp :: string
  gbContractId :: string

record gov_created =
  gcProposalId :: jsval
  gcTokenAddress :: string
  gcProposer :: jsval
  gcTitle :: jsval
  gcDescription :: jsval
  gcProposalType :: "proposal_type option"
  gcStartTime :: "int option"
  gcEndTime :: "int option"
  gcQuorum :: string
  gcThreshold :: string
  gcMetadata :: jsval

record gov_vote =
  gvProposalId :: jsval
  gvVoter :: jsval
  gvSupport :: bool
  gvWeight :: string
  gvReason :: jsval

record gov_executed =
  geProposalId :: jsval
  geExecutor :: jsval
  geSuccess :: bool
  geReturnData :: jsval
  geGasUsed :: "string option"

record gov_cancelled =
  gxProposalId :: jsval
  gxCanceller :: jsval
  gxReason :: jsval

record gov_status =
  gsProposalId :: jsval
  gsOldStatus :: "proposal_status option"
  gsNewStatus :: "proposal_status option"

record gov_snapshot =
  gnProposalId :: jsval
  gnStatus :: "proposal_status option"
  gnYesVotes :: string
  gnNoVotes :: string
  gnQuorumRequired :: string
  gnSnapshotLedger :: jsval

datatype gov_event =
    GovCreated gov_base gov_created
  | GovVote gov_base gov_vote
  | GovExecuted gov_base gov_executed
  | GovCancelled gov_base gov_cancelled
  | GovStatus gov_base gov_status
  | GovSnapshot gov_base gov_snapshot

text \<open>\<open>a || b\<close>, and \<open>v?.toString() || '0'\<close>.\<close>

definition js_or :: "jsval \<Rightarrow> jsval \<Rightarrow> jsval" where
  "js_or a b = (if js_truthy a then a else b)"

definition text_or_zero :: "jsval \<Rightarrow> string" where
  "text_or_zero v = (if js_nullish v \<or> js_to_string v = [] then ''0'' else js_to_string v)"

text \<open>\<open>v * 1000\<close> as the time of a date; \<open>None\<close> is an invalid date.\<close>

definition date_of_seconds :: "jsval \<Rightarrow> int option" where
  "date_of_seconds v =
     (case v of JNum n \<Rightarrow> Some (n * 1000) | JBool b \<Rightarrow> Some (if b then 1000 else 0) | JNull \<Rightarrow> Some 0
      | JStr s \<Rightarrow> map_option (\<lambda>n. n * 1000) (big_int_of s)
     | JArr vs \<Rightarrow> map_option (\<lambda>n. n * 1000) (big_int_of (js_to_string v)) | _ \<Rightarrow> None)"

definition isGovernanceEvent :: "raw_event \<Rightarrow> bool" where
  "isGovernanceEvent event \<longleftrightarrow> (case rawTopic event of [] \<Rightarrow> False | t # _ \<Rightarrow> t \<in> set GOVERNANCE_EVENT_NAMES)"

text \<open>
  The look-ups by number and by lower-case text. The result is \<open>None\<close> for a member that the object
  inherits, which is no enumeration value; a value without \<open>toLowerCase\<close> is a \<open>TypeError\<close>.
\<close>

definition enum_lookup :: "'a list \<Rightarrow> (string \<times> 'a) list \<Rightarrow> 'a \<Rightarrow> jsval \<Rightarrow> (service_error, 'a option) res" where
  "enum_lookup by_number by_name fallback v =
     (case v of
        JNum n \<Rightarrow> Inr (Some (if 0 \<le> n \<and> n < int (length by_number) then by_number ! nat n else fallback))
      | JUndef \<Rightarrow> Inr (Some fallback)
      | JNull \<Rightarrow> Inr (Some fallback)
      | JStr s \<Rightarrow>
          (case map_of by_name (to_lower s) of
             Some x \<Rightarrow> Inr (Some x)
           | None \<Rightarrow> if to_lower s \<in> set OBJECT_PROTOTYPE then Inr None else Inr (Some fallback))
      | _ \<Rightarrow> Inl (PlainError ''toLowerCase is not a function''))"

definition mapProposalType :: "jsval \<Rightarrow> (service_error, proposal_type option) res" where
  "mapProposalType = enum_lookup [PARAMETER_CHANGE, ADMIN_TRANSFER, TREASURY_SPEND, CONTRACT_UPGRADE, CUSTOM]
     [(''parameter_change'', PARAMETER_CHANGE), (''admin_transfer'', ADMIN_TRANSFER), (''treasury_spend'', TREASURY_SPEND),
      (''contract_upgrade'', CONTRACT_UPGRADE), (''custom'', CUSTOM)] CUSTOM"

definition STATUS_NAMES :: "(string \<times> proposal_status) list" where
  "STATUS_NAMES =
     [(''active'', PsActive), (''passed'', PsPassed), (''rejected'', PsRejected), (''queued'', PsQueued), (''executed'', PsExecuted),
      (''cancelled'', PsCancelled), (''expired'', PsExpired), (''created'', PsActive), (''succeeded'', PsPassed),
      (''defeated'', PsRejected), (''failed'', PsRejected)]"

definition mapProposalStatus :: "jsval \<Rightarrow> (service_error, proposal_status option) res" where
  "mapProposalStatus = enum_lookup [PsActive, PsPassed, PsRejected, PsQueued, PsExecuted, PsCancelled, PsExpired] STATUS_NAMES PsActive"

definition gov_base_of :: "raw_event \<Rightarrow> gov_base" where
  "gov_base_of event = \<lparr>gbTxHash = rawTxHash event, gbLedger = rawLedger event, gbTimestamp = rawCloseTime event,
     gbContractId = rawContractId event\<rparr>"

definition mapProposalCreatedEvent :: "int \<Rightarrow> raw_event \<Rightarrow> (service_error, gov_event) res" where
  "mapProposalCreatedEvent now event =
     (case mapProposalType (fld event ''proposal_type'') of
        Inl e \<Rightarrow> Inl e
      | Inr ty \<Rightarrow>
          Inr (GovCreated (gov_base_of event)
            \<lparr>gcProposalId = js_or (fld event ''proposal_id'') (JNum 0), gcTokenAddress = topic1_str event,
             gcProposer = js_or (fld event ''proposer'') (JStr []), gcTitle = js_or (fld event ''title'') (JStr ''Untitled Proposal''),
             gcDescription = fld event ''description'', gcProposalType = ty,
             gcStartTime = (if js_truthy (fld event ''start_time'') then date_of_seconds (fld event ''start_time'') else Some now),
             gcEndTime = (if js_truthy (fld event ''end_time'') then date_of_seconds (fld event ''end_time'') else Some now),
             gcQuorum = text_or_zero (fld event ''quorum''), gcThreshold = text_or_zero (fld event ''threshold''),
             gcMetadata = fld event ''metadata''\<rparr>))"

definition true_or_one :: "jsval \<Rightarrow> bool" where
  "true_or_one v \<longleftrightarrow> v = JBool True \<or> v = JNum 1"

definition mapVoteCastEvent :: "raw_event \<Rightarrow> gov_event" where
  "mapVoteCastEvent event = GovVote (gov_base_of event)
     \<lparr>gvProposalId = js_or (fld event ''proposal_id'') (JNum 0), gvVoter = js_or (fld event ''voter'') (JStr []),
      gvSupport = true_or_one (fld event ''support''), gvWeight = text_or_zero (fld event ''weight''), gvReason = fld event ''reason''\<rparr>"

text \<open>\<open>value.proposal_id ?? (topic[1] ? parseInt(topic[1], 10) : 0)\<close>\<close>

definition id_or_topic :: "raw_event \<Rightarrow> jsval" where
  "id_or_topic event = js_coalesce (fld event ''proposal_id'')
     (if topic1_str event \<noteq> [] then (case parse_int10 (topic1_str event) of Some n \<Rightarrow> JNum n | None \<Rightarrow> JUndef) else JNum 0)"

definition mapProposalQueuedEvent :: "raw_event \<Rightarrow> (service_error, gov_event) res" where
  "mapProposalQueuedEvent event =
     (case mapProposalStatus (js_coalesce (fld event ''old_status'') (JStr ''passed'')) of
        Inl e \<Rightarrow> Inl e
      | Inr old \<Rightarrow> Inr (GovStatus (gov_base_of event)
          \<lparr>gsProposalId = id_or_topic event, gsOldStatus = old, gsNewStatus = Some PsQueued\<rparr>))"

definition mapProposalExecutedEvent :: "raw_event \<Rightarrow> gov_event" where
  "mapProposalExecutedEvent event = GovExecuted (gov_base_of event)
     \<lparr>geProposalId = js_or (fld event ''proposal_id'') (JNum 0), geExecutor = js_or (fld event ''executor'') (JStr []),
      geSuccess = true_or_one (fld event ''success''), geReturnData = fld event ''return_data'',
      geGasUsed = (if js_nullish (fld event ''gas_used'') then None else Some (js_to_string (fld event ''gas_used'')))\<rparr>"

definition mapProposalCancelledEvent :: "raw_event \<Rightarrow> gov_event" where
  "mapProposalCancelledEvent event = GovCancelled (gov_base_of event)
     \<lparr>gxProposalId = js_or (fld event ''proposal_id'') (JNum 0), gxCanceller = js_or (fld event ''canceller'') (JStr []),
      gxReason = fld event ''reason''\<rparr>"

definition mapProposalStatusChangedEvent :: "raw_event \<Rightarrow> (service_error, gov_event) res" where
  "mapProposalStatusChangedEvent event =
     (case mapProposalStatus (fld event ''old_status'') of
        Inl e \<Rightarrow> Inl e
      | Inr old \<Rightarrow>
          (case mapProposalStatus (fld event ''new_status'') of
             Inl e \<Rightarrow> Inl e
           | Inr new \<Rightarrow> Inr (GovStatus (gov_base_of event)
               \<lparr>gsProposalId = js_or (fld event ''proposal_id'') (JNum 0), gsOldStatus = old, gsNewStatus = new\<rparr>)))"

definition mapProposalStateSnapshotEvent :: "raw_event \<Rightarrow> (service_error, gov_event) res" where
  "mapProposalStateSnapshotEvent event =
     (case mapProposalStatus (fld event ''status'') of
        Inl e \<Rightarrow> Inl e
      | Inr status \<Rightarrow> Inr (GovSnapshot (gov_base_of event)
          \<lparr>gnProposalId = id_or_topic event, gnStatus = status, gnYesVotes = text_or_zero (fld event ''yes_votes''),
           gnNoVotes = text_or_zero (fld event ''no_votes''), gnQuorumRequired = text_or_zero (fld event ''quorum_required''),
           gnSnapshotLedger = js_coalesce (fld event ''ledger'') (JNum (rawLedger event))\<rparr>))"

definition mapEvent :: "int \<Rightarrow> raw_event \<Rightarrow> (service_error, gov_event option) res" where
  "mapEvent now event =
     (if \<not> isGovernanceEvent event then Inr None
      else
        (let name = topic0_of event
         in if name \<in> {''prop_cr_v1'', ''prop_cr'', ''prop_create''} then map_sum id Some (mapProposalCreatedEvent now event)
            else if name \<in> {''vote_cs_v1'', ''vote_cs'', ''vote_cast''} then Inr (Some (mapVoteCastEvent event))
            else if name \<in> {''prop_qu_v1'', ''prop_qu''} then map_sum id Some (mapProposalQueuedEvent event)
            else if name \<in> {''prop_ex_v1'', ''prop_ex'', ''prop_exec''} then Inr (Some (mapProposalExecutedEvent event))
            else if name \<in> {''prop_ca_v1'', ''prop_ca'', ''prop_cancel''} then Inr (Some (mapProposalCancelledEvent event))
            else if name \<in> {''prop_st_v1'', ''prop_status''} then map_sum id Some (mapProposalStatusChangedEvent event)
            else if name = ''prop_snap'' then map_sum id Some (mapProposalStateSnapshotEvent event)
            else Inr None))"

text \<open>\<open>mapEvents\<close>: the first throwing event ends it.\<close>

fun mapEvents :: "int \<Rightarrow> raw_event list \<Rightarrow> (service_error, gov_event list) res" where
  "mapEvents now [] = Inr []"
| "mapEvents now (e # es) =
     (case mapEvent now e of
        Inl err \<Rightarrow> Inl err
      | Inr g \<Rightarrow> (case mapEvents now es of Inl err \<Rightarrow> Inl err
          | Inr gs \<Rightarrow> Inr (case g of None \<Rightarrow> gs | Some x \<Rightarrow> x # gs)))"

section \<open>The parser\<close>

record proposal_row =
  poId :: string
  poProposalId :: int
  poTokenId :: string
  poProposer :: string
  poTitle :: string
  poDescription :: "string option"
  poProposalType :: proposal_type
  poStatus :: proposal_status
  poStartTime :: int
  poEndTime :: int
  poQuorum :: int
  poThreshold :: int
  poMetadata :: "string option"
  poTxHash :: string
  poCreatedAt :: string
  poExecutedAt :: "string option"
  poCancelledAt :: "string option"
  poCanceller :: "string option"
  poCancelReason :: "string option"

record vote_row =
  voProposalId :: string
  voVoter :: string
  voSupport :: bool
  voWeight :: int
  voReason :: "string option"
  voTxHash :: string
  voTimestamp :: string

record execution_row =
  exProposalId :: string
  exExecutor :: string
  exSuccess :: bool
  exReturnData :: "string option"
  exGasUsed :: "int option"
  exTxHash :: string
  exExecutedAt :: string

record gov_db =
  gdProposals :: "proposal_row list"
  gdVotes :: "vote_row list"
  gdExecutions :: "execution_row list"

text \<open>What the database client accepts for an integer, a string and an optional string column.\<close>

definition as_int :: "jsval \<Rightarrow> int option" where
  "as_int v = (case v of JNum n \<Rightarrow> if int_column n then Some n else None | _ \<Rightarrow> None)"

definition as_text :: "jsval \<Rightarrow> string option" where
  "as_text v = (case v of JStr s \<Rightarrow> Some s | _ \<Rightarrow> None)"

definition as_opt_text :: "jsval \<Rightarrow> string option option" where
  "as_opt_text v = (if js_nullish v then Some None else map_option Some (as_text v))"

text \<open>The test \<open>/^-?\d+$/\<close> and the number it lets through.\<close>

definition bigint_text :: "string \<Rightarrow> bool" where
  "bigint_text s \<longleftrightarrow> (let ds = (case s of c # r \<Rightarrow> if c = CHR ''-'' then r else s | [] \<Rightarrow> []) in ds \<noteq> [] \<and> list_all is_digit ds)"

definition validateBigIntString :: "string \<Rightarrow> string \<Rightarrow> (service_error, int) res" where
  "validateBigIntString s field =
     (if bigint_text s then Inr (case big_int_of s of Some n \<Rightarrow> n | None \<Rightarrow> 0) else Inl (PlainError (''Invalid '' @ field @ '': '' @ s)))"

text \<open>Every status of the enumeration is valid; a value that is none is unknown.\<close>

definition validateProposalStatus :: "proposal_status option \<Rightarrow> string \<Rightarrow> (service_error, proposal_status) res" where
  "validateProposalStatus status field =
     (case status of Some s \<Rightarrow> Inr s | None \<Rightarrow> Inl (PlainError (''Unknown '' @ field)))"

definition findProposal :: "jsval \<Rightarrow> gov_db \<Rightarrow> (service_error, proposal_row option) res" where
  "findProposal proposalId db =
     (case as_int proposalId of
        None \<Rightarrow> Inl (DatabaseError ''validation'')
      | Some n \<Rightarrow> Inr (List.find (\<lambda>p. poProposalId p = n) (gdProposals db)))"

definition notFound :: "jsval \<Rightarrow> service_error" where
  "notFound proposalId = PlainError (''Proposal '' @ js_to_string proposalId @ '' not found'')"

definition updateProposal :: "string \<Rightarrow> (proposal_row \<Rightarrow> proposal_row) \<Rightarrow> gov_db \<Rightarrow> gov_db" where
  "updateProposal i f db = db\<lparr>gdProposals := map (\<lambda>p. if poId p = i then f p else p) (gdProposals db)\<rparr>"

definition parseProposalCreatedEvent :: "bool \<Rightarrow> string \<Rightarrow> gov_base \<Rightarrow> gov_created \<Rightarrow> gov_db \<Rightarrow> (service_error, unit) res \<times> gov_db" where
  "parseProposalCreatedEvent ok i b event db =
     (case validateBigIntString (gcQuorum event) ''quorum'' of
        Inl e \<Rightarrow> (Inl e, db)
      | Inr quorum \<Rightarrow>
          (case validateBigIntString (gcThreshold event) ''threshold'' of
             Inl e \<Rightarrow> (Inl e, db)
           | Inr threshold \<Rightarrow>
               (case (as_int (gcProposalId event), as_text (gcProposer event), as_text (gcTitle event), as_opt_text (gcDescription event),
                      gcProposalType event, gcStartTime event, gcEndTime event, as_opt_text (gcMetadata event)) of
                  (Some n, Some proposer, Some title, Some description, Some ty, Some st, Some et, Some meta) \<Rightarrow>
                    if \<not> ok then (Inl (DatabaseError ''unavailable''), db)
                    else if \<exists>p\<in>set (gdProposals db). poProposalId p = n then (Inr (), db)
                    else if gbTxHash b \<in> poTxHash ` set (gdProposals db) \<or> \<not> bigint_column quorum \<or> \<not> bigint_column threshold
                    then (Inl (DatabaseError ''create''), db)
                    else (Inr (), db\<lparr>gdProposals := gdProposals db @
                           [\<lparr>poId = i, poProposalId = n, poTokenId = gcTokenAddress event, poProposer = proposer, poTitle = title,
                             poDescription = description, poProposalType = ty, poStatus = PsActive, poStartTime = st, poEndTime = et,
                             poQuorum = quorum, poThreshold = threshold, poMetadata = meta, poTxHash = gbTxHash b,
                             poCreatedAt = gbTimestamp b, poExecutedAt = None, poCancelledAt = None, poCanceller = None, poCancelReason = None\<rparr>]\<rparr>)
                | _ \<Rightarrow> (Inl (DatabaseError ''validation''), db))))"

definition parseVoteCastEvent :: "bool \<Rightarrow> gov_base \<Rightarrow> gov_vote \<Rightarrow> gov_db \<Rightarrow> (service_error, unit) res \<times> gov_db" where
  "parseVoteCastEvent ok b event db =
     (case validateBigIntString (gvWeight event) ''vote weight'' of
        Inl e \<Rightarrow> (Inl e, db)
      | Inr weight \<Rightarrow>
          if \<not> ok then (Inl (DatabaseError ''unavailable''), db)
          else
            (case findProposal (gvProposalId event) db of
               Inl e \<Rightarrow> (Inl e, db)
             | Inr None \<Rightarrow> (Inl (notFound (gvProposalId event)), db)
             | Inr (Some proposal) \<Rightarrow>
                 (case (as_text (gvVoter event), as_opt_text (gvReason event)) of
                    (Some voter, Some reason) \<Rightarrow>
                      if gbTxHash b \<in> voTxHash ` set (gdVotes db) then (Inr (), db)
                      else if (poId proposal, voter) \<in> (\<lambda>v. (voProposalId v, voVoter v)) ` set (gdVotes db) \<or> \<not> bigint_column weight
                      then (Inl (DatabaseError ''create''), db)
                      else (Inr (), db\<lparr>gdVotes := gdVotes db @
                             [\<lparr>voProposalId = poId proposal, voVoter = voter, voSupport = gvSupport event, voWeight = weight,
                               voReason = reason, voTxHash = gbTxHash b, voTimestamp = gbTimestamp b\<rparr>]\<rparr>)
                  | _ \<Rightarrow> (Inl (DatabaseError ''validation''), db))))"

definition executionRow :: "proposal_row \<Rightarrow> gov_base \<Rightarrow> gov_executed \<Rightarrow> string \<Rightarrow> string option \<Rightarrow> int option \<Rightarrow> execution_row" where
  "executionRow proposal b event executor returnData gas =
     \<lparr>exProposalId = poId proposal, exExecutor = executor, exSuccess = geSuccess event, exReturnData = returnData,
      exGasUsed = gas, exTxHash = gbTxHash b, exExecutedAt = gbTimestamp b\<rparr>"

definition markExecuted :: "gov_base \<Rightarrow> bool \<Rightarrow> proposal_row \<Rightarrow> proposal_row" where
  "markExecuted b success p = p\<lparr>poStatus := (if success then PsExecuted else PsRejected), poExecutedAt := Some (gbTimestamp b)\<rparr>"

text \<open>Two statements, \<open>ok\<close> and \<open>ok2\<close> for the first and for the second one.\<close>

definition parseProposalExecutedEvent :: "bool \<Rightarrow> bool \<Rightarrow> gov_base \<Rightarrow> gov_executed \<Rightarrow> gov_db \<Rightarrow> (service_error, unit) res \<times> gov_db" where
  "parseProposalExecutedEvent ok ok2 b event db =
     (if \<not> ok then (Inl (DatabaseError ''unavailable''), db)
      else
        (case findProposal (geProposalId event) db of
           Inl e \<Rightarrow> (Inl e, db)
         | Inr None \<Rightarrow> (Inl (notFound (geProposalId event)), db)
         | Inr (Some proposal) \<Rightarrow>
             (case (case geGasUsed event of
                      None \<Rightarrow> Inr None
                    | Some g \<Rightarrow> if g = [] then Inr None
                                else (case big_int_of g of None \<Rightarrow> Inl (SyntaxError g) | Some n \<Rightarrow> Inr (Some n))) of
                Inl e \<Rightarrow> (Inl e, db)
              | Inr gas \<Rightarrow>
                  (case (as_text (geExecutor event), as_opt_text (geReturnData event)) of
                     (Some executor, Some returnData) \<Rightarrow>
                       if gbTxHash b \<in> exTxHash ` set (gdExecutions db) \<or> (case gas of Some g \<Rightarrow> \<not> bigint_column g | None \<Rightarrow> False)
                       then (Inl (DatabaseError ''create''), db)
                       else
                         (let db1 = db\<lparr>gdExecutions := gdExecutions db @ [executionRow proposal b event executor returnData gas]\<rparr>
                          in if \<not> ok2 then (Inl (DatabaseError ''unavailable''), db1)
                             else (Inr (), updateProposal (poId proposal) (markExecuted b (geSuccess event)) db1))
                   | _ \<Rightarrow> (Inl (DatabaseError ''validation''), db)))))"

definition parseProposalCancelledEvent :: "bool \<Rightarrow> gov_base \<Rightarrow> gov_cancelled \<Rightarrow> gov_db \<Rightarrow> (service_error, unit) res \<times> gov_db" where
  "parseProposalCancelledEvent ok b event db =
     (if \<not> ok then (Inl (DatabaseError ''unavailable''), db)
      else
        (case findProposal (gxProposalId event) db of
           Inl e \<Rightarrow> (Inl e, db)
         | Inr None \<Rightarrow> (Inl (notFound (gxProposalId event)), db)
         | Inr (Some proposal) \<Rightarrow>
             (case (as_text (gxCanceller event), as_opt_text (gxReason event)) of
                (Some canceller, Some reason) \<Rightarrow>
                  (Inr (), updateProposal (poId proposal)
                     (\<lambda>p. p\<lparr>poStatus := PsCancelled, poCancelledAt := Some (gbTimestamp b), poCanceller := Some canceller, poCancelReason := reason\<rparr>) db)
              | _ \<Rightarrow> (Inl (DatabaseError ''validation''), db))))"

definition parseProposalStatusChangedEvent :: "bool \<Rightarrow> gov_base \<Rightarrow> gov_status \<Rightarrow> gov_db \<Rightarrow> (service_error, unit) res \<times> gov_db" where
  "parseProposalStatusChangedEvent ok b event db =
     (if \<not> ok then (Inl (DatabaseError ''unavailable''), db)
      else
        (case findProposal (gsProposalId event) db of
           Inl e \<Rightarrow> (Inl e, db)
         | Inr None \<Rightarrow> (Inl (notFound (gsProposalId event)), db)
         | Inr (Some proposal) \<Rightarrow>
             (case validateProposalStatus (gsNewStatus event) ''proposal status'' of
                Inl e \<Rightarrow> (Inl e, db)
              | Inr new \<Rightarrow> (Inr (), updateProposal (poId proposal) (\<lambda>p. p\<lparr>poStatus := new\<rparr>) db))))"

definition parseProposalStateSnapshotEvent :: "bool \<Rightarrow> gov_base \<Rightarrow> gov_snapshot \<Rightarrow> gov_db \<Rightarrow> (service_error, unit) res \<times> gov_db" where
  "parseProposalStateSnapshotEvent ok b event db =
     (if \<not> ok then (Inl (DatabaseError ''unavailable''), db)
      else
        (case findProposal (gnProposalId event) db of
           Inl e \<Rightarrow> (Inl e, db)
         | Inr None \<Rightarrow> (Inr (), db)
         | Inr (Some proposal) \<Rightarrow>
             (case validateProposalStatus (gnStatus event) ''snapshot status'' of
                Inl e \<Rightarrow> (Inl e, db)
              | Inr status \<Rightarrow>
                  if \<not> bigint_text (gnYesVotes event) then (Inl (PlainError (''Invalid snapshot yesVotes: '' @ gnYesVotes event)), db)
                  else if \<not> bigint_text (gnNoVotes event) then (Inl (PlainError (''Invalid snapshot noVotes: '' @ gnNoVotes event)), db)
                  else if \<not> bigint_text (gnQuorumRequired event)
                  then (Inl (PlainError (''Invalid snapshot quorumRequired: '' @ gnQuorumRequired event)), db)
                  else (Inr (), updateProposal (poId proposal) (\<lambda>p. p\<lparr>poStatus := status\<rparr>) db))))"

definition gov_parseEvent :: "bool \<Rightarrow> bool \<Rightarrow> string \<Rightarrow> gov_event \<Rightarrow> gov_db \<Rightarrow> (service_error, unit) res \<times> gov_db" where
  "gov_parseEvent ok ok2 i event db =
     (case event of
        GovCreated b e \<Rightarrow> parseProposalCreatedEvent ok i b e db
      | GovVote b e \<Rightarrow> parseVoteCastEvent ok b e db
      | GovExecuted b e \<Rightarrow> parseProposalExecutedEvent ok ok2 b e db
      | GovCancelled b e \<Rightarrow> parseProposalCancelledEvent ok b e db
      | GovStatus b e \<Rightarrow> parseProposalStatusChangedEvent ok b e db
      | GovSnapshot b e \<Rightarrow> parseProposalStateSnapshotEvent ok b e db)"

section \<open>Analytics\<close>

record proposal_analytics =
  paProposalId :: int
  paTotalVotes :: nat
  paVotesFor :: string
  paVotesAgainst :: string
  paParticipationRate :: int
  paUniqueVoters :: nat
  paStatus :: proposal_status
  paTimeRemaining :: "int option"

definition votesOf :: "string \<Rightarrow> gov_db \<Rightarrow> vote_row list" where
  "votesOf i db = filter (\<lambda>v. voProposalId v = i) (gdVotes db)"

definition weightSum :: "vote_row list \<Rightarrow> int" where
  "weightSum vs = sum_list (map voWeight vs)"

definition participation :: "int \<Rightarrow> int \<Rightarrow> int" where
  "participation totalVotingPower quorum = (if quorum > 0 then (totalVotingPower * 100) sdiv quorum else 0)"

definition getProposalAnalytics :: "int \<Rightarrow> int \<Rightarrow> gov_db \<Rightarrow> (service_error, proposal_analytics) res" where
  "getProposalAnalytics now proposalId db =
     (case List.find (\<lambda>p. poProposalId p = proposalId) (gdProposals db) of
        None \<Rightarrow> Inl (notFound (JNum proposalId))
      | Some p \<Rightarrow>
          (let votes = votesOf (poId p) db;
               votesFor = weightSum (filter voSupport votes);
               votesAgainst = weightSum (filter (\<lambda>v. \<not> voSupport v) votes);
               timeRemaining = (if poEndTime p > now then (poEndTime p - now) div 1000 else 0)
           in Inr \<lparr>paProposalId = poProposalId p, paTotalVotes = length votes, paVotesFor = show_int votesFor,
                paVotesAgainst = show_int votesAgainst, paParticipationRate = participation (votesFor + votesAgainst) (poQuorum p),
                paUniqueVoters = length votes, paStatus = poStatus p,
                paTimeRemaining = (if timeRemaining > 0 then Some timeRemaining else None)\<rparr>))"

record governance_stats =
  stTotalProposals :: nat
  stActiveProposals :: nat
  stExecutedProposals :: nat
  stTotalVotes :: nat
  stUniqueVoters :: nat
  stAverageParticipation :: real
  stByType :: "proposal_type \<Rightarrow> nat option"
  stByStatus :: "proposal_status \<Rightarrow> nat option"

text \<open>The groups of a \<open>groupBy\<close> and their sizes.\<close>

definition group_counts :: "'k list \<Rightarrow> 'k \<Rightarrow> nat option" where
  "group_counts ks k = (if k \<in> set ks then Some (length (filter (\<lambda>x. x = k) ks)) else None)"

definition getGovernanceStats :: "gov_db \<Rightarrow> governance_stats" where
  "getGovernanceStats db =
     (let ps = gdProposals db
      in \<lparr>stTotalProposals = length ps, stActiveProposals = length (filter (\<lambda>p. poStatus p = PsActive) ps),
          stExecutedProposals = length (filter (\<lambda>p. poStatus p = PsExecuted) ps), stTotalVotes = length (gdVotes db),
          stUniqueVoters = length (remdups (map voVoter (gdVotes db))),
          stAverageParticipation =
            (if ps = [] then 0
             else real_of_int (foldl (\<lambda>sum p. sum + participation (weightSum (votesOf (poId p) db)) (poQuorum p)) 0 ps) / real (length ps)),
          stByType = group_counts (map poProposalType ps), stByStatus = group_counts (map poStatus ps)\<rparr>)"

section \<open>Contract errors of a failed execution\<close>

definition KNOWN_CONTRACT_ERRORS :: "string list" where
  "KNOWN_CONTRACT_ERRORS =
     [''TOKEN_ALREADY_EXISTS'', ''INVALID_TOKEN_PARAMS'', ''TOKEN_NOT_FOUND'', ''UNAUTHORIZED_BURN'', ''BURN_AMOUNT_EXCEEDS_BALANCE'',
      ''ZERO_BURN_AMOUNT'', ''METADATA_TOO_LARGE'', ''INVALID_METADATA_URI'', ''CAMPAIGN_NOT_FOUND'', ''CAMPAIGN_ALREADY_EXISTS'',
      ''CAMPAIGN_NOT_ACTIVE'', ''CAMPAIGN_ENDED'', ''INSUFFICIENT_BUDGET'', ''INVALID_TIME_RANGE'', ''INVALID_SLIPPAGE'',
      ''UNAUTHORIZED_CREATOR'', ''MIN_INTERVAL_NOT_MET'', ''PROPOSAL_NOT_FOUND'', ''VOTING_NOT_STARTED'', ''VOTING_ENDED'',
      ''ALREADY_VOTED'', ''INSUFFICIENT_VOTING_POWER'', ''QUORUM_NOT_MET'', ''UNAUTHORIZED_PROPOSER'', ''VAULT_NOT_FOUND'',
      ''VAULT_ALREADY_CLAIMED'', ''UNAUTHORIZED_CLAIMER'', ''STREAM_NOT_FOUND'', ''STREAM_ALREADY_CLAIMED'',
      ''UNAUTHORIZED_STREAM_CLAIMER'', ''CONTRACT_PAUSED'']"

datatype severity = SevLow | SevMedium | SevHigh | SevCritical

record error_details =
  edErrorCode :: jsval
  edMessage :: jsval
  edDetails :: jsval
  edRetryable :: bool
  edSeverity :: severity
  edRawError :: "string option"

definition gov_isRetryableError :: "string \<Rightarrow> bool" where
  "gov_isRetryableError c \<longleftrightarrow> c \<in> {''METADATA_TOO_LARGE'', ''MIN_INTERVAL_NOT_MET'', ''CONTRACT_PAUSED''}"

definition getErrorSeverity :: "string \<Rightarrow> severity" where
  "getErrorSeverity c =
     (if c = ''CONTRACT_PAUSED'' then SevCritical
      else if c \<in> {''UNAUTHORIZED_BURN'', ''INSUFFICIENT_BUDGET'', ''UNAUTHORIZED_CREATOR'', ''INSUFFICIENT_VOTING_POWER'',
                   ''UNAUTHORIZED_PROPOSER'', ''UNAUTHORIZED_CLAIMER'', ''UNAUTHORIZED_STREAM_CLAIMER''} then SevHigh
      else if c = ''ZERO_BURN_AMOUNT'' then SevLow else SevMedium)"

text \<open>The regular expression \<open>/Error\(([A-Z_]+)\)/\<close>.\<close>

definition code_char :: "char \<Rightarrow> bool" where
  "code_char c \<longleftrightarrow> (65 \<le> (of_char c :: nat) \<and> (of_char c :: nat) \<le> 90) \<or> c = CHR ''_''"

fun error_code_in :: "string \<Rightarrow> string option" where
  "error_code_in [] = None"
| "error_code_in (c # s) =
     (let rest = drop 6 (c # s)
      in if starts_with (c # s) ''Error('' \<and> takeWhile code_char rest \<noteq> [] \<and> starts_with (dropWhile code_char rest) '')''
         then Some (takeWhile code_char rest) else error_code_in s)"

text \<open>The error is a parsed JSON value other than null, on which reading a property throws.\<close>

definition parseContractError :: "jsval \<Rightarrow> (service_error, error_details) res" where
  "parseContractError err =
     (if js_nullish err then Inl (PlainError ''Cannot read properties of null'')
      else
        (let code = js_prop err ''contractErrorCode''; message = js_prop err ''message'';
             found = (if js_truthy code then Inr code
                      else if js_truthy message then
                        (case message of JStr s \<Rightarrow> Inr (case error_code_in s of Some c \<Rightarrow> JStr c | None \<Rightarrow> JUndef)
                         | _ \<Rightarrow> Inl (PlainError ''error.message.match is not a function''))
                      else Inr JUndef)
         in case found of
              Inl e \<Rightarrow> Inl e
            | Inr errorCode \<Rightarrow>
                (case errorCode of
                   JStr c \<Rightarrow>
                     if c \<in> set KNOWN_CONTRACT_ERRORS then
                       Inr \<lparr>edErrorCode = errorCode, edMessage = js_or message (JStr (''Contract error: '' @ c)),
                         edDetails = js_or (js_prop err ''details'') (JStr (''Error('' @ c @ '')'')),
                         edRetryable = gov_isRetryableError c, edSeverity = getErrorSeverity c, edRawError = None\<rparr>
                     else
                       Inr \<lparr>edErrorCode = errorCode, edMessage = js_or message (JStr ''Unknown contract error''),
                         edDetails = js_or (js_prop err ''details'') (JStr (case js_stringify err of Some s \<Rightarrow> s | None \<Rightarrow> [])),
                         edRetryable = True, edSeverity = SevMedium, edRawError = js_stringify err\<rparr>
                 | _ \<Rightarrow>
                     Inr \<lparr>edErrorCode = errorCode, edMessage = js_or message (JStr ''Unknown contract error''),
                       edDetails = js_or (js_prop err ''details'') (JStr (case js_stringify err of Some s \<Rightarrow> s | None \<Rightarrow> [])),
                       edRetryable = True, edSeverity = SevMedium, edRawError = js_stringify err\<rparr>)))"

lemma retryable_errors_known: "gov_isRetryableError c \<Longrightarrow> c \<in> set KNOWN_CONTRACT_ERRORS"
  by (auto simp: gov_isRetryableError_def KNOWN_CONTRACT_ERRORS_def)

section \<open>Mapper and registry agree\<close>

definition governance_kind :: "string \<Rightarrow> bool" where
  "governance_kind k \<longleftrightarrow> starts_with k ''proposal_'' \<or> k = ''vote_cast''"

lemma governance_kinds: "list_all (\<lambda>(t, k). governance_kind k \<longleftrightarrow> t \<in> set GOVERNANCE_EVENT_NAMES) TOPIC_KIND"
  by (simp add: TOPIC_KIND_def governance_kind_def GOVERNANCE_EVENT_NAMES_def)

lemma governance_names_registered: "list_all (\<lambda>t. map_of TOPIC_KIND t \<noteq> None) GOVERNANCE_EVENT_NAMES"
  by (simp add: TOPIC_KIND_def GOVERNANCE_EVENT_NAMES_def)

lemma governance_name_iff:
  "t \<in> set GOVERNANCE_EVENT_NAMES \<longleftrightarrow> (case map_of TOPIC_KIND t of Some k \<Rightarrow> governance_kind k | None \<Rightarrow> False)"
proof (cases "map_of TOPIC_KIND t")
  case None
  then show ?thesis using governance_names_registered by (auto simp: list_all_iff)
next
  case (Some k)
  then show ?thesis using governance_kinds map_of_SomeD [OF Some] by (auto simp: list_all_iff)
qed

lemma isGovernanceEvent_name: "isGovernanceEvent raw \<longleftrightarrow> topic0_of raw \<in> set GOVERNANCE_EVENT_NAMES"
  by (auto simp: isGovernanceEvent_def topic0_of_def GOVERNANCE_EVENT_NAMES_def split: list.splits)

lemma decode_kind: "kind_of (snd (decodeEvent raw)) = (case map_of TOPIC_KIND (topic0_of raw) of Some k \<Rightarrow> k | None \<Rightarrow> ''unknown'')"
proof (cases "map_of TOPIC_KIND (topic0_of raw)")
  case (Some k)
  then obtain d where "map_of DECODERS k = Some d" "kind_of (d raw) = k"
    using decoders_complete decoders_kind map_of_SomeD [OF Some] by (fastforce simp: list_all_iff dest: map_of_SomeD)
  then show ?thesis using Some by (simp add: decodeEvent_def)
qed (simp add: decodeEvent_def)

lemma map_governance: "isGovernanceEvent raw \<Longrightarrow> mapEvent now raw \<noteq> Inr None"
  unfolding isGovernanceEvent_name mapEvent_def isGovernanceEvent_name
  by (auto simp: GOVERNANCE_EVENT_NAMES_def Let_def map_sum_def split: sum.splits)

text \<open>The mapper's list of topics and the decoder registry agree: an event is a governance event for the
  mapper exactly when the registry decodes it to a proposal or vote kind, and then the mapper never
  drops it: it maps it or throws.\<close>

theorem governance_routing_agrees:
  "(isGovernanceEvent raw \<longleftrightarrow> governance_kind (kind_of (snd (decodeEvent raw)))) \<and> (mapEvent now raw = Inr None \<longleftrightarrow> \<not> isGovernanceEvent raw)"
proof
  show "isGovernanceEvent raw \<longleftrightarrow> governance_kind (kind_of (snd (decodeEvent raw)))"
    unfolding isGovernanceEvent_name governance_name_iff decode_kind
    by (cases "map_of TOPIC_KIND (topic0_of raw)") (simp_all add: governance_kind_def)
  show "mapEvent now raw = Inr None \<longleftrightarrow> \<not> isGovernanceEvent raw"
    using map_governance [of raw now] by (auto simp: mapEvent_def)
qed

section \<open>One vote per voter\<close>

inductive gov_step :: "gov_db \<Rightarrow> gov_db \<Rightarrow> bool" where
  gov_handle: "i \<notin> poId ` set (gdProposals db) \<Longrightarrow> gov_parseEvent ok ok2 i event db = (res, db') \<Longrightarrow> gov_step db db'"

definition gov_inv :: "gov_db \<Rightarrow> bool" where
  "gov_inv db \<longleftrightarrow> distinct (map poProposalId (gdProposals db)) \<and> distinct (map poId (gdProposals db))
     \<and> distinct (map voTxHash (gdVotes db)) \<and> distinct (map (\<lambda>v. (voProposalId v, voVoter v)) (gdVotes db))
     \<and> voProposalId ` set (gdVotes db) \<subseteq> poId ` set (gdProposals db)
     \<and> distinct (map exTxHash (gdExecutions db))"

text \<open>What an event does to the tables: it adds one row or it updates one proposal, keys kept.\<close>

lemma updateProposal_tables:
  assumes "\<And>p. poId (f p) = poId p" and "\<And>p. poProposalId (f p) = poProposalId p"
  shows "map poId (gdProposals (updateProposal i f db)) = map poId (gdProposals db)"
    and "map poProposalId (gdProposals (updateProposal i f db)) = map poProposalId (gdProposals db)"
    and "gdVotes (updateProposal i f db) = gdVotes db" and "gdExecutions (updateProposal i f db) = gdExecutions db"
  by (simp_all add: updateProposal_def assms)

lemma gov_inv_frame:
  assumes "gov_inv db" and "map poId (gdProposals db') = map poId (gdProposals db)"
    and "map poProposalId (gdProposals db') = map poProposalId (gdProposals db)"
    and "gdVotes db' = gdVotes db" and "gdExecutions db' = gdExecutions db"
  shows "gov_inv db'"
  using assms image_set_cong [OF assms(2)] unfolding gov_inv_def by simp

lemma gov_inv_update:
  assumes "gov_inv db" and "\<And>p. poId (f p) = poId p" and "\<And>p. poProposalId (f p) = poProposalId p"
  shows "gov_inv (updateProposal i f db)"
  by (rule gov_inv_frame [OF assms(1)]) (simp_all add: updateProposal_tables [of f, OF assms(2,3)])

lemma gov_inv_created:
  assumes inv: "gov_inv db" and fresh: "i \<notin> poId ` set (gdProposals db)"
    and run: "parseProposalCreatedEvent ok i b e db = (res, db')"
  shows "gov_inv db'"
proof (cases "db' = db")
  case False
  then obtain n p where p: "db' = db\<lparr>gdProposals := gdProposals db @ [p]\<rparr>" "poId p = i" "poProposalId p = n"
      and new: "\<not> (\<exists>q\<in>set (gdProposals db). poProposalId q = n)"
    using run by (auto simp: parseProposalCreatedEvent_def split: sum.splits option.splits if_splits)
  then show ?thesis using inv fresh by (auto simp: gov_inv_def)
qed (use inv in simp)

lemma findProposal_mem: "findProposal v db = Inr (Some p) \<Longrightarrow> p \<in> set (gdProposals db) \<and> as_int v = Some (poProposalId p)"
  by (auto simp: findProposal_def find_Some_iff split: option.splits)

lemma vote_cases:
  assumes "parseVoteCastEvent ok b e db = (res, db')"
  obtains "db' = db"
  | p v where "db' = db\<lparr>gdVotes := gdVotes db @ [v]\<rparr>" and "p \<in> set (gdProposals db)" and "voProposalId v = poId p"
    and "voTxHash v \<notin> voTxHash ` set (gdVotes db)" and "(voProposalId v, voVoter v) \<notin> (\<lambda>v. (voProposalId v, voVoter v)) ` set (gdVotes db)"
proof (cases "db' = db")
  case False
  show ?thesis
    using assms False that(2)
    by (auto simp: parseVoteCastEvent_def split: sum.splits option.splits if_splits dest!: findProposal_mem)
qed (rule that(1))

lemma gov_inv_vote:
  assumes inv: "gov_inv db" and run: "parseVoteCastEvent ok b e db = (res, db')"
  shows "gov_inv db'"
  using run
proof (cases rule: vote_cases)
  case (2 p v)
  have "distinct (map (\<lambda>v. (voProposalId v, voVoter v)) (gdVotes db @ [v]))"
    using inv 2(5) unfolding gov_inv_def map_append distinct_append by simp
  moreover have "distinct (map voTxHash (gdVotes db @ [v]))" using inv 2(4) by (simp add: gov_inv_def)
  ultimately show ?thesis using inv 2(2,3) unfolding gov_inv_def 2(1) by (auto simp del: map_append)
qed (use inv in simp)

lemma gov_inv_executed:
  assumes inv: "gov_inv db" and run: "parseProposalExecutedEvent ok ok2 b e db = (res, db')"
  shows "gov_inv db'"
proof (cases "db' = db")
  case False
  then obtain p executor ret gas where new: "gbTxHash b \<notin> exTxHash ` set (gdExecutions db)"
      and d: "db' = (let db1 = db\<lparr>gdExecutions := gdExecutions db @ [executionRow p b e executor ret gas]\<rparr>
        in if ok2 then updateProposal (poId p) (markExecuted b (geSuccess e)) db1 else db1)"
    using run by (auto simp: parseProposalExecutedEvent_def Let_def split: sum.splits option.splits if_splits)
  have "gov_inv (db\<lparr>gdExecutions := gdExecutions db @ [executionRow p b e executor ret gas]\<rparr>)"
    using inv new by (auto simp: gov_inv_def executionRow_def)
  then show ?thesis unfolding d Let_def by (auto intro!: gov_inv_update simp: markExecuted_def)
qed (use inv in simp)

lemma gov_inv_step: "gov_step db db' \<Longrightarrow> gov_inv db \<Longrightarrow> gov_inv db'"
proof (induction rule: gov_step.induct)
  case (gov_handle i db ok ok2 event res db')
  show ?case
  proof (cases event)
    case (GovCreated b e)
    then show ?thesis using gov_handle gov_inv_created by (simp add: gov_parseEvent_def)
  next
    case (GovVote b e)
    then show ?thesis using gov_handle gov_inv_vote by (simp add: gov_parseEvent_def)
  next
    case (GovExecuted b e)
    then show ?thesis using gov_handle gov_inv_executed by (simp add: gov_parseEvent_def)
  next
    case (GovCancelled b e)
    then show ?thesis using gov_handle
      by (auto simp: gov_parseEvent_def parseProposalCancelledEvent_def split: sum.splits option.splits if_splits intro!: gov_inv_update)
  next
    case (GovStatus b e)
    then show ?thesis using gov_handle
      by (auto simp: gov_parseEvent_def parseProposalStatusChangedEvent_def split: sum.splits option.splits if_splits intro!: gov_inv_update)
  next
    case (GovSnapshot b e)
    then show ?thesis using gov_handle
      by (auto simp: gov_parseEvent_def parseProposalStateSnapshotEvent_def split: sum.splits option.splits if_splits intro!: gov_inv_update)
  qed
qed

lemma gov_inv_reachable: "gov_step\<^sup>*\<^sup>* db db' \<Longrightarrow> gov_inv db \<Longrightarrow> gov_inv db'"
  by (induction rule: rtranclp_induct) (auto intro: gov_inv_step)

lemma weight_split: "weightSum (filter P vs) + weightSum (filter (\<lambda>v. \<not> P v) vs) = weightSum vs"
  by (induction vs) (auto simp: weightSum_def)


definition demo_proposal :: proposal_row where
  "demo_proposal = \<lparr>poId = ''p'', poProposalId = 4, poTokenId = ''T'', poProposer = ''A'', poTitle = ''t'', poDescription = None,
     poProposalType = CUSTOM, poStatus = PsActive, poStartTime = 0, poEndTime = 9000, poQuorum = 50, poThreshold = 1,
     poMetadata = None, poTxHash = ''tx'', poCreatedAt = [], poExecutedAt = None, poCancelledAt = None, poCanceller = None,
     poCancelReason = None\<rparr>"

definition demo_gov :: gov_db where
  "demo_gov = \<lparr>gdProposals = [demo_proposal], gdVotes = [], gdExecutions = []\<rparr>"

definition demo_base :: "string \<Rightarrow> gov_base" where
  "demo_base tx = \<lparr>gbTxHash = tx, gbLedger = 1, gbTimestamp = ''now'', gbContractId = ''C''\<rparr>"

definition demo_vote :: "string \<Rightarrow> bool \<Rightarrow> string \<Rightarrow> gov_vote" where
  "demo_vote voter support weight = \<lparr>gvProposalId = JNum 4, gvVoter = JStr voter, gvSupport = support, gvWeight = weight, gvReason = JUndef\<rparr>"

lemmas gov_demo_defs = demo_proposal_def demo_gov_def demo_base_def demo_vote_def

lemmas gov_ops_defs = gov_parseEvent_def parseVoteCastEvent_def validateBigIntString_def bigint_text_def as_int_def as_text_def
  as_opt_text_def findProposal_def int_column_def bigint_column_def

lemma demo_gov_inv: "gov_inv demo_gov"
  by (simp add: gov_inv_def demo_gov_def)

lemma demo_weight: "bigint_text ''7''" "big_int_of ''7'' = Some 7"
  by (simp_all add: bigint_text_def big_int_of_def is_space_def is_digit_def digits_val_def digit_val_def)


text \<open>A vote that is recorded is not recorded again, whatever the repeated event says.\<close>

lemma repeated_vote_ignored:
  assumes "gbTxHash b \<in> voTxHash ` set (gdVotes db)"
  shows "snd (parseVoteCastEvent ok b event db) = db"
  using assms by (auto simp: parseVoteCastEvent_def split: sum.splits option.splits)

text \<open>An execution whose second statement fails leaves its record but not the status, and no replay repairs it.\<close>

lemma interrupted_execution_never_applied:
  assumes "gbTxHash b \<in> exTxHash ` set (gdExecutions db)"
  shows "snd (parseProposalExecutedEvent ok ok2 b event db) = db"
  using assms by (auto simp: parseProposalExecutedEvent_def split: sum.splits option.splits)

definition demo_executed :: gov_executed where
  "demo_executed = \<lparr>geProposalId = JNum 4, geExecutor = JStr ''X'', geSuccess = True, geReturnData = JUndef, geGasUsed = None\<rparr>"

lemma interrupted_execution_example:
  "let db1 = snd (parseProposalExecutedEvent True False (demo_base ''e1'') demo_executed demo_gov);
       db2 = snd (parseProposalExecutedEvent True True (demo_base ''e1'') demo_executed db1)
   in map exSuccess (gdExecutions db2) = [True] \<and> map poStatus (gdProposals db2) = [PsActive]"
  by (simp add: parseProposalExecutedEvent_def demo_executed_def gov_demo_defs findProposal_def as_int_def as_text_def as_opt_text_def
      int_column_def executionRow_def)

text \<open>A stale snapshot takes an executed proposal back.\<close>

lemma stale_snapshot_reverts_status:
  "let db1 = snd (parseProposalExecutedEvent True True (demo_base ''e1'') demo_executed demo_gov);
       stale = \<lparr>gnProposalId = JNum 4, gnStatus = Some PsActive, gnYesVotes = ''7'', gnNoVotes = ''7'', gnQuorumRequired = ''7'', gnSnapshotLedger = JNum 0\<rparr>;
       db2 = snd (parseProposalStateSnapshotEvent True (demo_base ''s1'') stale db1)
   in map poStatus (gdProposals db1) = [PsExecuted] \<and> map poStatus (gdProposals db2) = [PsActive]"
  by (simp add: parseProposalExecutedEvent_def parseProposalStateSnapshotEvent_def demo_executed_def gov_demo_defs findProposal_def
      as_int_def as_text_def as_opt_text_def int_column_def executionRow_def markExecuted_def updateProposal_def validateProposalStatus_def
      demo_weight(1))

text \<open>An execution event without \<open>success\<close> is a success for the registry and a failure for the mapper.\<close>

lemma executed_default_differs:
  assumes "js_nullish (fld raw ''success'')"
  shows "(\<exists>a b c d. decode_proposal_executed raw = ProposalExecuted a b True c d)
    \<and> (\<exists>b e. mapProposalExecutedEvent raw = GovExecuted b e \<and> \<not> geSuccess e)"
  using assms by (cases "fld raw ''success''")
    (auto simp: decode_proposal_executed_def mapProposalExecutedEvent_def true_or_one_def bool_of_def)

end
