(* ===== verification/Stream_Projection.thy ===== *)
theory Stream_Projection
  imports Pagination "HOL-Library.Multiset"
begin

text \<open>
  \<open>backend/src/services/vaultEventParser.ts\<close>, \<open>streamEventParser.ts\<close> and \<open>streamProjectionService.ts\<close>: vault
  events of the contract, the streams and withdrawals they are projected to, and the reads over them.

  A contract value is the datatype of its XDR union, whose accessors throw on another arm; its text,
  where the parser takes the SDK's, is a parameter. Times are milliseconds.
\<close>

section \<open>Vault events\<close>

datatype sc_val = ScSym string | ScU32 int | ScVec "sc_val list" | ScAddr string | ScI128 int int | ScBool bool | ScOther string

text \<open>What the parser is given: a contract event of the SDK, or a value without its methods.\<close>

datatype vault_input = SdkEvent "sc_val list" sc_val | PlainObject

datatype vault_event =
    VaultCreatedEv string int string string string bool int
  | VaultFundedEv string int string string int
  | VaultClaimedEv string int string string int
  | VaultCancelledEv string int string string int
  | VaultMetadataUpdatedEv string int string bool int

definition VE_CREATED :: string where "VE_CREATED = ''vlt_cr_v1''"
definition VE_FUNDED :: string where "VE_FUNDED = ''vlt_fd_v1''"
definition VE_CLAIMED :: string where "VE_CLAIMED = ''vlt_cl_v1''"
definition VE_CANCELLED :: string where "VE_CANCELLED = ''vlt_cn_v1''"
definition VE_METADATA_UPDATED :: string where "VE_METADATA_UPDATED = ''vlt_md_v1''"

definition scValToAddress :: "sc_val \<Rightarrow> string option" where
  "scValToAddress v = (case v of ScAddr a \<Rightarrow> Some a | _ \<Rightarrow> None)"

definition scValToString :: "(sc_val \<Rightarrow> string) \<Rightarrow> sc_val \<Rightarrow> string" where
  "scValToString text v = (case v of ScI128 hi lo \<Rightarrow> show_int (hi * 2 ^ 64 + lo) | _ \<Rightarrow> text v)"

text \<open>Name and stream id from the topics, and the elements of the body; \<open>None\<close> is a thrown error.\<close>

definition event_name :: "vault_input \<Rightarrow> string option" where
  "event_name event = (case event of SdkEvent (ScSym s # _) _ \<Rightarrow> Some s | _ \<Rightarrow> None)"

definition stream_id_of :: "vault_input \<Rightarrow> int option" where
  "stream_id_of event = (case event of SdkEvent (_ # ScU32 n # _) _ \<Rightarrow> Some n | _ \<Rightarrow> None)"

definition payload_of :: "vault_input \<Rightarrow> sc_val list option" where
  "payload_of event = (case event of SdkEvent _ (ScVec vs) \<Rightarrow> Some vs | _ \<Rightarrow> None)"

definition at_index :: "sc_val list \<Rightarrow> nat \<Rightarrow> sc_val option" where
  "at_index vs i = (if i < length vs then Some (vs ! i) else None)"

definition bool_at :: "sc_val list \<Rightarrow> nat \<Rightarrow> bool option" where
  "bool_at vs i = (case at_index vs i of Some (ScBool b) \<Rightarrow> Some b | _ \<Rightarrow> None)"

definition address_at :: "sc_val list \<Rightarrow> nat \<Rightarrow> string option" where
  "address_at vs i = (case at_index vs i of Some v \<Rightarrow> scValToAddress v | None \<Rightarrow> None)"

definition string_at :: "(sc_val \<Rightarrow> string) \<Rightarrow> sc_val list \<Rightarrow> nat \<Rightarrow> string option" where
  "string_at text vs i = map_option (scValToString text) (at_index vs i)"

text \<open>The common part of the parsers: \<open>null\<close> on another name and on any error.\<close>

definition parse_named :: "string \<Rightarrow> vault_input \<Rightarrow> (int \<Rightarrow> sc_val list \<Rightarrow> vault_event option) \<Rightarrow> vault_event option" where
  "parse_named name event body =
     (if event_name event = Some name then
        (case (stream_id_of event, payload_of event) of (Some i, Some vs) \<Rightarrow> body i vs | _ \<Rightarrow> None)
      else None)"

definition parseVaultCreatedEvent :: "(sc_val \<Rightarrow> string) \<Rightarrow> vault_input \<Rightarrow> int \<Rightarrow> vault_event option" where
  "parseVaultCreatedEvent text event timestamp = parse_named VE_CREATED event (\<lambda>i vs.
     case (address_at vs 0, address_at vs 1, string_at text vs 2, bool_at vs 3) of
       (Some creator, Some recipient, Some amount, Some hasMetadata) \<Rightarrow>
         Some (VaultCreatedEv VE_CREATED i creator recipient amount hasMetadata timestamp)
     | _ \<Rightarrow> None)"

definition parseVaultFundedEvent :: "(sc_val \<Rightarrow> string) \<Rightarrow> vault_input \<Rightarrow> int \<Rightarrow> vault_event option" where
  "parseVaultFundedEvent text event timestamp = parse_named VE_FUNDED event (\<lambda>i vs.
     case (address_at vs 0, string_at text vs 1) of
       (Some funder, Some amount) \<Rightarrow> Some (VaultFundedEv VE_FUNDED i funder amount timestamp)
     | _ \<Rightarrow> None)"

definition parseVaultClaimedEvent :: "(sc_val \<Rightarrow> string) \<Rightarrow> vault_input \<Rightarrow> int \<Rightarrow> vault_event option" where
  "parseVaultClaimedEvent text event timestamp = parse_named VE_CLAIMED event (\<lambda>i vs.
     case (address_at vs 0, string_at text vs 1) of
       (Some recipient, Some amount) \<Rightarrow> Some (VaultClaimedEv VE_CLAIMED i recipient amount timestamp)
     | _ \<Rightarrow> None)"

definition parseVaultCancelledEvent :: "(sc_val \<Rightarrow> string) \<Rightarrow> vault_input \<Rightarrow> int \<Rightarrow> vault_event option" where
  "parseVaultCancelledEvent text event timestamp = parse_named VE_CANCELLED event (\<lambda>i vs.
     case (address_at vs 0, string_at text vs 1) of
       (Some canceller, Some remaining) \<Rightarrow> Some (VaultCancelledEv VE_CANCELLED i canceller remaining timestamp)
     | _ \<Rightarrow> None)"

definition parseVaultMetadataUpdatedEvent :: "(sc_val \<Rightarrow> string) \<Rightarrow> vault_input \<Rightarrow> int \<Rightarrow> vault_event option" where
  "parseVaultMetadataUpdatedEvent text event timestamp = parse_named VE_METADATA_UPDATED event (\<lambda>i vs.
     case (address_at vs 0, bool_at vs 1) of
       (Some updater, Some hasMetadata) \<Rightarrow> Some (VaultMetadataUpdatedEv VE_METADATA_UPDATED i updater hasMetadata timestamp)
     | _ \<Rightarrow> None)"

definition parseVaultEvent :: "(sc_val \<Rightarrow> string) \<Rightarrow> vault_input \<Rightarrow> int \<Rightarrow> vault_event option" where
  "parseVaultEvent text event timestamp =
     (case event_name event of
        None \<Rightarrow> None
      | Some n \<Rightarrow>
          if n = VE_CREATED then parseVaultCreatedEvent text event timestamp
          else if n = VE_FUNDED then parseVaultFundedEvent text event timestamp
          else if n = VE_CLAIMED then parseVaultClaimedEvent text event timestamp
          else if n = VE_CANCELLED then parseVaultCancelledEvent text event timestamp
          else if n = VE_METADATA_UPDATED then parseVaultMetadataUpdatedEvent text event timestamp
          else None)"

section \<open>Streams and withdrawals\<close>

datatype stream_status = StreamCreated | StreamClaimed | StreamCancelled
datatype withdrawal_type = WithdrawalClaimed | WithdrawalCancelled

record stream_row =
  srStreamId :: int
  srCreator :: string
  srRecipient :: string
  srAmount :: int
  srMetadata :: "string option"
  srStatus :: stream_status
  srTxHash :: string
  srCreatedAt :: int
  srClaimedAt :: "int option"
  srCancelledAt :: "int option"

record withdrawal_row =
  wrStreamId :: int
  wrType :: withdrawal_type
  wrAmount :: int
  wrRecipient :: string
  wrTxHash :: string
  wrTimestamp :: int

record stream_db =
  sbStreams :: "stream_row list"
  sbWithdrawals :: "withdrawal_row list"

record stream_created =
  scStreamId :: int
  scCreator :: string
  scRecipient :: string
  scAmount :: string
  scMetadata :: "string option"
  scTxHash :: string
  scTimestamp :: int

record stream_claimed =
  slStreamId :: int
  slRecipient :: string
  slAmount :: string
  slTxHash :: string
  slTimestamp :: int

record stream_cancelled =
  snStreamId :: int
  snCreator :: string
  snRefundAmount :: string
  snTxHash :: string
  snTimestamp :: int

record stream_metadata_updated =
  suStreamId :: int
  suMetadata :: "string option"
  suTimestamp :: int

datatype stream_event =
    SeCreated stream_created
  | SeClaimed stream_claimed
  | SeCancelled stream_cancelled
  | SeMetadataUpdated stream_metadata_updated

fun stream_event_time :: "stream_event \<Rightarrow> int" where
  "stream_event_time (SeCreated e) = scTimestamp e"
| "stream_event_time (SeClaimed e) = slTimestamp e"
| "stream_event_time (SeCancelled e) = snTimestamp e"
| "stream_event_time (SeMetadataUpdated e) = suTimestamp e"

text \<open>\<open>prisma.stream.update\<close>: it throws when there is no such stream.\<close>

definition updateStream :: "int \<Rightarrow> (stream_row \<Rightarrow> stream_row) \<Rightarrow> stream_db \<Rightarrow> (service_error, stream_db) res" where
  "updateStream i f db =
     (if i \<in> srStreamId ` set (sbStreams db)
      then Inr (db\<lparr>sbStreams := map (\<lambda>s. if srStreamId s = i then f s else s) (sbStreams db)\<rparr>)
      else Inl (DatabaseError ''Record to update not found''))"

definition parseCreatedEvent :: "bool \<Rightarrow> stream_created \<Rightarrow> stream_db \<Rightarrow> (service_error, unit) res \<times> stream_db" where
  "parseCreatedEvent ok event db =
     (case big_int_of (scAmount event) of
        None \<Rightarrow> (Inl (SyntaxError (scAmount event)), db)
      | Some amount \<Rightarrow>
          if \<not> ok then (Inl (DatabaseError ''unavailable''), db)
          else if scStreamId event \<in> srStreamId ` set (sbStreams db) then (Inr (), db)
          else if scTxHash event \<in> srTxHash ` set (sbStreams db) \<or> \<not> bigint_column amount \<or> \<not> int_column (scStreamId event)
          then (Inl (DatabaseError ''create''), db)
          else (Inr (), db\<lparr>sbStreams := sbStreams db @
                 [\<lparr>srStreamId = scStreamId event, srCreator = scCreator event, srRecipient = scRecipient event, srAmount = amount,
                   srMetadata = scMetadata event, srStatus = StreamCreated, srTxHash = scTxHash event,
                   srCreatedAt = scTimestamp event, srClaimedAt = None, srCancelledAt = None\<rparr>]\<rparr>))"

definition recordWithdrawal ::
  "bool \<Rightarrow> int \<Rightarrow> withdrawal_type \<Rightarrow> string \<Rightarrow> string \<Rightarrow> string \<Rightarrow> int \<Rightarrow> stream_db \<Rightarrow> (service_error, unit) res \<times> stream_db" where
  "recordWithdrawal ok i ty amount recipient txHash timestamp db =
     (case big_int_of amount of
        None \<Rightarrow> (Inl (SyntaxError amount), db)
      | Some a \<Rightarrow>
          if \<not> ok then (Inl (DatabaseError ''unavailable''), db)
          else if (i, txHash, ty) \<in> (\<lambda>w. (wrStreamId w, wrTxHash w, wrType w)) ` set (sbWithdrawals db) then (Inr (), db)
          else if \<not> bigint_column a then (Inl (DatabaseError ''create''), db)
          else (Inr (), db\<lparr>sbWithdrawals := sbWithdrawals db @
                 [\<lparr>wrStreamId = i, wrType = ty, wrAmount = a, wrRecipient = recipient, wrTxHash = txHash, wrTimestamp = timestamp\<rparr>]\<rparr>))"

text \<open>Two statements, \<open>ok\<close> and \<open>ok2\<close> for the first and for the second one.\<close>

definition parseClaimedEvent :: "bool \<Rightarrow> bool \<Rightarrow> stream_claimed \<Rightarrow> stream_db \<Rightarrow> (service_error, unit) res \<times> stream_db" where
  "parseClaimedEvent ok ok2 event db =
     (if \<not> ok then (Inl (DatabaseError ''unavailable''), db)
      else
        (case updateStream (slStreamId event) (\<lambda>s. s\<lparr>srStatus := StreamClaimed, srClaimedAt := Some (slTimestamp event)\<rparr>) db of
           Inl e \<Rightarrow> (Inl e, db)
         | Inr db1 \<Rightarrow> recordWithdrawal ok2 (slStreamId event) WithdrawalClaimed (slAmount event) (slRecipient event)
                        (slTxHash event) (slTimestamp event) db1))"

definition parseCancelledEvent :: "bool \<Rightarrow> bool \<Rightarrow> stream_cancelled \<Rightarrow> stream_db \<Rightarrow> (service_error, unit) res \<times> stream_db" where
  "parseCancelledEvent ok ok2 event db =
     (if \<not> ok then (Inl (DatabaseError ''unavailable''), db)
      else
        (case updateStream (snStreamId event) (\<lambda>s. s\<lparr>srStatus := StreamCancelled, srCancelledAt := Some (snTimestamp event)\<rparr>) db of
           Inl e \<Rightarrow> (Inl e, db)
         | Inr db1 \<Rightarrow> recordWithdrawal ok2 (snStreamId event) WithdrawalCancelled (snRefundAmount event) (snCreator event)
                        (snTxHash event) (snTimestamp event) db1))"

text \<open>\<open>metadata || null\<close>\<close>

definition parseMetadataUpdatedEvent :: "bool \<Rightarrow> stream_metadata_updated \<Rightarrow> stream_db \<Rightarrow> (service_error, unit) res \<times> stream_db" where
  "parseMetadataUpdatedEvent ok event db =
     (if \<not> ok then (Inl (DatabaseError ''unavailable''), db)
      else
        (case updateStream (suStreamId event)
               (\<lambda>s. s\<lparr>srMetadata := (if suMetadata event = Some [] then None else suMetadata event)\<rparr>) db of
           Inl e \<Rightarrow> (Inl e, db)
         | Inr db1 \<Rightarrow> (Inr (), db1)))"

definition stream_parseEvent :: "bool \<Rightarrow> bool \<Rightarrow> stream_event \<Rightarrow> stream_db \<Rightarrow> (service_error, unit) res \<times> stream_db" where
  "stream_parseEvent ok ok2 event db =
     (case event of
        SeCreated e \<Rightarrow> parseCreatedEvent ok e db
      | SeClaimed e \<Rightarrow> parseClaimedEvent ok ok2 e db
      | SeCancelled e \<Rightarrow> parseCancelledEvent ok ok2 e db
      | SeMetadataUpdated e \<Rightarrow> parseMetadataUpdatedEvent ok e db)"

text \<open>The events in order, up to the first one that throws.\<close>

fun process_in_order :: "stream_event list \<Rightarrow> stream_db \<Rightarrow> (service_error, unit) res \<times> stream_db" where
  "process_in_order [] db = (Inr (), db)"
| "process_in_order (e # es) db =
     (case stream_parseEvent True True e db of (Inl err, db1) \<Rightarrow> (Inl err, db1) | (Inr _, db1) \<Rightarrow> process_in_order es db1)"

definition processEventsInChronologicalOrder :: "stream_event list \<Rightarrow> stream_db \<Rightarrow> (service_error, unit) res \<times> stream_db" where
  "processEventsInChronologicalOrder events = process_in_order (sort_key stream_event_time events)"

section \<open>Reads\<close>

record stream_view =
  svStreamId :: int
  svCreator :: string
  svRecipient :: string
  svAmount :: string
  svMetadata :: "string option"
  svStatus :: stream_status
  svTxHash :: string
  svCreatedAt :: int
  svClaimedAt :: "int option"
  svCancelledAt :: "int option"

definition buildProjection :: "stream_row \<Rightarrow> stream_view" where
  "buildProjection s = \<lparr>svStreamId = srStreamId s, svCreator = srCreator s, svRecipient = srRecipient s,
     svAmount = show_int (srAmount s), svMetadata = srMetadata s, svStatus = srStatus s, svTxHash = srTxHash s,
     svCreatedAt = srCreatedAt s, svClaimedAt = srClaimedAt s, svCancelledAt = srCancelledAt s\<rparr>"

definition getStreamById :: "int \<Rightarrow> stream_db \<Rightarrow> stream_view option" where
  "getStreamById i db = map_option buildProjection (List.find (\<lambda>s. srStreamId s = i) (sbStreams db))"

definition status_matches :: "stream_status option \<Rightarrow> stream_row \<Rightarrow> bool" where
  "status_matches status s \<longleftrightarrow> (case status of None \<Rightarrow> True | Some x \<Rightarrow> srStatus s = x)"

definition offset_page :: "(stream_row \<Rightarrow> bool) \<Rightarrow> stream_status option \<Rightarrow> nat \<Rightarrow> nat \<Rightarrow> stream_db \<Rightarrow> stream_view list" where
  "offset_page P status limit offset db =
     map buildProjection (take limit (drop offset
       (sort_key (\<lambda>s. - srCreatedAt s) (filter (\<lambda>s. P s \<and> status_matches status s) (sbStreams db)))))"

definition getStreamsByCreator :: "string \<Rightarrow> stream_status option \<Rightarrow> nat \<Rightarrow> nat \<Rightarrow> stream_db \<Rightarrow> stream_view list" where
  "getStreamsByCreator creator = offset_page (\<lambda>s. srCreator s = creator)"

definition getStreamsByRecipient :: "string \<Rightarrow> stream_status option \<Rightarrow> nat \<Rightarrow> nat \<Rightarrow> stream_db \<Rightarrow> stream_view list" where
  "getStreamsByRecipient recipient = offset_page (\<lambda>s. srRecipient s = recipient)"

definition MAX_KEYSET_PAGE_SIZE :: int where
  "MAX_KEYSET_PAGE_SIZE = 50"

definition keyset_rows :: "string \<Rightarrow> stream_status option \<Rightarrow> stream_db \<Rightarrow> stream_row list" where
  "keyset_rows creator status db =
     sort_key srStreamId (filter (\<lambda>s. srCreator s = creator \<and> status_matches status s) (sbStreams db))"

definition getStreamsByCreatorKeyset ::
  "string \<Rightarrow> stream_status option \<Rightarrow> int option \<Rightarrow> int option \<Rightarrow> stream_db \<Rightarrow> stream_view list \<times> int option" where
  "getStreamsByCreatorKeyset creator status limit cursor db =
     (let pageSize = min (max (case limit of Some l \<Rightarrow> l | None \<Rightarrow> MAX_KEYSET_PAGE_SIZE) 1) MAX_KEYSET_PAGE_SIZE;
          streams = take (nat (pageSize + 1))
            (case cursor of None \<Rightarrow> keyset_rows creator status db
             | Some c \<Rightarrow> filter (\<lambda>s. srStreamId s > c) (keyset_rows creator status db));
          hasMore = int (length streams) > pageSize;
          page = (if hasMore then take (nat pageSize) streams else streams)
      in (map buildProjection page, if hasMore then Some (srStreamId (last page)) else None))"

text \<open>The text order of the hashes is a parameter, the collation of the database.\<close>

definition getWithdrawalsByStreamId ::
  "(string \<Rightarrow> int) \<Rightarrow> int \<Rightarrow> withdrawal_type option \<Rightarrow> stream_db \<Rightarrow> withdrawal_row list" where
  "getWithdrawalsByStreamId rank i ty db =
     sort_key (\<lambda>w. - wrTimestamp w) (sort_key (\<lambda>w. - rank (wrTxHash w))
       (filter (\<lambda>w. wrStreamId w = i \<and> (case ty of None \<Rightarrow> True | Some t \<Rightarrow> wrType w = t)) (sbWithdrawals db)))"

record stream_stats =
  ssTotalStreams :: nat
  ssActiveStreams :: nat
  ssClaimedVolume :: string
  ssCancelledVolume :: string

definition getStreamStats :: "string option \<Rightarrow> stream_db \<Rightarrow> stream_stats" where
  "getStreamStats address db =
     (let rows = (case address of None \<Rightarrow> sbStreams db
                  | Some a \<Rightarrow> if a = [] then sbStreams db else filter (\<lambda>s. srCreator s = a \<or> srRecipient s = a) (sbStreams db));
          volume = (\<lambda>st. show_int (foldl (\<lambda>sum s. sum + srAmount s) 0 (filter (\<lambda>s. srStatus s = st) rows)))
      in \<lparr>ssTotalStreams = length rows, ssActiveStreams = length (filter (\<lambda>s. srStatus s = StreamCreated) rows),
          ssClaimedVolume = volume StreamClaimed, ssCancelledVolume = volume StreamCancelled\<rparr>)"

section \<open>Parsing\<close>

text \<open>Vault amounts survive the parser: an event that carries a 128-bit amount, split into its high and its
  unsigned low word, is parsed to the decimal text of the amount, negative ones included.\<close>

theorem vault_claim_amount_roundtrip:
  "parseVaultEvent text (SdkEvent [ScSym VE_CLAIMED, ScU32 i] (ScVec [ScAddr a, ScI128 (v div 2 ^ 64) (v mod 2 ^ 64)])) ts
     = Some (VaultClaimedEv VE_CLAIMED i a (show_int v) ts)"
proof -
  have "v div 2 ^ 64 * 2 ^ 64 + v mod 2 ^ 64 = v" by (rule div_mult_mod_eq)
  then show ?thesis
    by (simp add: parseVaultEvent_def parseVaultClaimedEvent_def parse_named_def event_name_def stream_id_of_def payload_of_def
        address_at_def string_at_def at_index_def scValToAddress_def scValToString_def VE_CLAIMED_def VE_CREATED_def VE_FUNDED_def)
qed

text \<open>A value that is no contract event of the SDK, such as an event record of Horizon, is never parsed.\<close>

lemma plain_objects_are_dropped:
  "parseVaultCreatedEvent text PlainObject ts = None" "parseVaultClaimedEvent text PlainObject ts = None"
  "parseVaultCancelledEvent text PlainObject ts = None" "parseVaultMetadataUpdatedEvent text PlainObject ts = None"
  by (simp_all add: parseVaultCreatedEvent_def parseVaultClaimedEvent_def parseVaultCancelledEvent_def
      parseVaultMetadataUpdatedEvent_def parse_named_def event_name_def)

text \<open>The dispatch by name calls the parser of that name.\<close>

lemma parseVaultEvent_dispatch:
  "event_name event = Some VE_CREATED \<Longrightarrow> parseVaultEvent text event ts = parseVaultCreatedEvent text event ts"
  "event_name event = Some VE_CANCELLED \<Longrightarrow> parseVaultEvent text event ts = parseVaultCancelledEvent text event ts"
  by (simp_all add: parseVaultEvent_def VE_CREATED_def VE_FUNDED_def VE_CLAIMED_def VE_CANCELLED_def)

section \<open>Financial terms never change\<close>

inductive stream_step :: "stream_db \<Rightarrow> stream_db \<Rightarrow> bool" where
  stream_handle: "stream_parseEvent ok ok2 event db = (res, db') \<Longrightarrow> stream_step db db'"

definition stream_terms :: "stream_row \<Rightarrow> int \<times> string \<times> string \<times> int \<times> string \<times> int" where
  "stream_terms s = (srStreamId s, srCreator s, srRecipient s, srAmount s, srTxHash s, srCreatedAt s)"

definition withdrawal_key :: "withdrawal_row \<Rightarrow> int \<times> string \<times> withdrawal_type" where
  "withdrawal_key w = (wrStreamId w, wrTxHash w, wrType w)"

definition extends :: "stream_db \<Rightarrow> stream_db \<Rightarrow> bool" where
  "extends db db' \<longleftrightarrow> (\<exists>ts. map stream_terms (sbStreams db') = map stream_terms (sbStreams db) @ ts)
     \<and> (\<exists>ws. sbWithdrawals db' = sbWithdrawals db @ ws)"

definition stream_inv :: "stream_db \<Rightarrow> bool" where
  "stream_inv db \<longleftrightarrow> distinct (map srStreamId (sbStreams db)) \<and> distinct (map withdrawal_key (sbWithdrawals db))
     \<and> wrStreamId ` set (sbWithdrawals db) \<subseteq> srStreamId ` set (sbStreams db)"

lemma extends_refl [simp]: "extends db db"
  by (auto simp: extends_def)

lemma extends_trans: "extends a b \<Longrightarrow> extends b c \<Longrightarrow> extends a c"
  unfolding extends_def by (metis append_assoc)

lemma update_extends:
  assumes "updateStream i f db = Inr db'" and "\<And>s. stream_terms (f s) = stream_terms s"
  shows "extends db db' \<and> map srStreamId (sbStreams db') = map srStreamId (sbStreams db) \<and> sbWithdrawals db' = sbWithdrawals db
    \<and> i \<in> srStreamId ` set (sbStreams db)"
proof -
  have "srStreamId (f s) = srStreamId s" for s using assms(2) [of s] by (simp add: stream_terms_def)
  moreover have d: "db' = db\<lparr>sbStreams := map (\<lambda>s. if srStreamId s = i then f s else s) (sbStreams db)\<rparr>" "i \<in> srStreamId ` set (sbStreams db)"
    using assms(1) by (auto simp: updateStream_def split: if_splits)
  moreover have "map stream_terms (sbStreams db') = map stream_terms (sbStreams db)"
    unfolding d(1) by (simp add: assms(2))
  then have "extends db db'" unfolding extends_def by (intro conjI exI [of _ "[]"]) (simp_all add: d(1))
  ultimately show ?thesis by simp
qed

lemma recordWithdrawal_cases:
  assumes "recordWithdrawal ok i ty amount recipient txHash timestamp db = (res, db')"
  obtains "db' = db"
  | w where "db' = db\<lparr>sbWithdrawals := sbWithdrawals db @ [w]\<rparr>" and "wrStreamId w = i"
    and "withdrawal_key w \<notin> withdrawal_key ` set (sbWithdrawals db)"
proof (cases "db' = db")
  case False
  show ?thesis
    using assms False that(2)
    by (auto simp: recordWithdrawal_def withdrawal_key_def split: option.splits if_splits)
qed (rule that(1))

lemma settle_step:
  assumes upd: "updateStream i f db = Inr db1" and f: "\<And>s. stream_terms (f s) = stream_terms s"
    and rec: "recordWithdrawal ok i ty amount recipient txHash timestamp db1 = (res, db')"
  shows "extends db db' \<and> (stream_inv db \<longrightarrow> stream_inv db')"
proof -
  note u = update_extends [OF upd f]
  have ids: "srStreamId ` set (sbStreams db1) = srStreamId ` set (sbStreams db)" using u by (intro image_set_cong) simp
  have inv1: "stream_inv db \<longrightarrow> stream_inv db1" unfolding stream_inv_def ids using u by simp
  have i: "i \<in> srStreamId ` set (sbStreams db1)" using u unfolding ids by simp
  from rec show ?thesis
  proof (cases rule: recordWithdrawal_cases)
    case 1
    then show ?thesis using u inv1 by simp
  next
    case (2 w)
    have "extends db1 db'" unfolding 2(1) by (simp add: extends_def)
    moreover have "stream_inv db1 \<longrightarrow> stream_inv db'" using 2 i by (auto simp: stream_inv_def)
    ultimately show ?thesis using u inv1 extends_trans by blast
  qed
qed

lemma stream_step_extends: "stream_step db db' \<Longrightarrow> extends db db' \<and> (stream_inv db \<longrightarrow> stream_inv db')"
proof (induction rule: stream_step.induct)
  case (stream_handle ok ok2 event db res db')
  show ?case
  proof (cases event)
    case (SeCreated e)
    then show ?thesis
    proof (cases "db' = db")
      case False
      then obtain s where "db' = db\<lparr>sbStreams := sbStreams db @ [s]\<rparr>" "srStreamId s \<notin> srStreamId ` set (sbStreams db)"
        using stream_handle SeCreated
        by (auto simp: stream_parseEvent_def parseCreatedEvent_def split: option.splits if_splits)
      then show ?thesis by (auto simp: extends_def stream_inv_def)
    qed simp
  next
    case (SeClaimed e)
    show ?thesis
    proof (cases "db' = db")
      case False
      then obtain db1 where "updateStream (slStreamId e) (\<lambda>s. s\<lparr>srStatus := StreamClaimed, srClaimedAt := Some (slTimestamp e)\<rparr>) db = Inr db1"
        "recordWithdrawal ok2 (slStreamId e) WithdrawalClaimed (slAmount e) (slRecipient e) (slTxHash e) (slTimestamp e) db1 = (res, db')"
        using stream_handle SeClaimed by (auto simp: stream_parseEvent_def parseClaimedEvent_def split: sum.splits if_splits)
      from settle_step [OF this(1) _ this(2)] show ?thesis by (simp add: stream_terms_def)
    qed simp
  next
    case (SeCancelled e)
    show ?thesis
    proof (cases "db' = db")
      case False
      then obtain db1 where "updateStream (snStreamId e) (\<lambda>s. s\<lparr>srStatus := StreamCancelled, srCancelledAt := Some (snTimestamp e)\<rparr>) db = Inr db1"
        "recordWithdrawal ok2 (snStreamId e) WithdrawalCancelled (snRefundAmount e) (snCreator e) (snTxHash e) (snTimestamp e) db1 = (res, db')"
        using stream_handle SeCancelled by (auto simp: stream_parseEvent_def parseCancelledEvent_def split: sum.splits if_splits)
      from settle_step [OF this(1) _ this(2)] show ?thesis by (simp add: stream_terms_def)
    qed simp
  next
    case (SeMetadataUpdated e)
    show ?thesis
    proof (cases "db' = db")
      case False
      then have "updateStream (suStreamId e) (\<lambda>s. s\<lparr>srMetadata := (if suMetadata e = Some [] then None else suMetadata e)\<rparr>) db = Inr db'"
        using stream_handle SeMetadataUpdated by (auto simp: stream_parseEvent_def parseMetadataUpdatedEvent_def split: sum.splits if_splits)
      then have "extends db db' \<and> map srStreamId (sbStreams db') = map srStreamId (sbStreams db) \<and> sbWithdrawals db' = sbWithdrawals db"
        using update_extends by (fastforce simp: stream_terms_def)
      then show ?thesis unfolding stream_inv_def using image_set_cong [of srStreamId "sbStreams db'" srStreamId "sbStreams db"] by simp
    qed simp
  qed
qed

lemma stream_run_extends: "stream_step\<^sup>*\<^sup>* db db' \<Longrightarrow> extends db db' \<and> (stream_inv db \<longrightarrow> stream_inv db')"
  by (induction rule: rtranclp_induct) (auto dest: stream_step_extends intro: extends_trans)

text \<open>In every run of the parser, failing, interrupted and repeated events included, streams and withdrawals
  are only added: the financial terms of a stream (parties, amount, transaction, creation time) never
  change, recorded withdrawals never change, and no withdrawal is recorded twice.\<close>

theorem stream_terms_immutable:
  assumes "stream_inv db" and "stream_step\<^sup>*\<^sup>* db db'"
  shows "(\<exists>ts. map stream_terms (sbStreams db') = map stream_terms (sbStreams db) @ ts)
    \<and> (\<exists>ws. sbWithdrawals db' = sbWithdrawals db @ ws) \<and> distinct (map withdrawal_key (sbWithdrawals db'))"
  using stream_run_extends [OF assms(2)] assms(1) by (simp add: extends_def stream_inv_def)

definition demo_stream :: stream_row where
  "demo_stream = \<lparr>srStreamId = 3, srCreator = ''A'', srRecipient = ''B'', srAmount = 10, srMetadata = None, srStatus = StreamCreated,
     srTxHash = ''t'', srCreatedAt = 1, srClaimedAt = None, srCancelledAt = None\<rparr>"

definition demo_streams :: stream_db where
  "demo_streams = \<lparr>sbStreams = [demo_stream], sbWithdrawals = []\<rparr>"

definition demo_stream_claim :: stream_claimed where
  "demo_stream_claim = \<lparr>slStreamId = 3, slRecipient = ''B'', slAmount = ''10'', slTxHash = ''c'', slTimestamp = 5\<rparr>"

lemma demo_ten: "big_int_of ''10'' = Some 10"
  by (simp add: big_int_of_def is_space_def is_digit_def digits_val_def digit_val_def)

theorem stream_terms_immutable_witness:
  "\<exists>db'. stream_step\<^sup>*\<^sup>* demo_streams db' \<and> map srStatus (sbStreams db') = [StreamClaimed] \<and> length (sbWithdrawals db') = 1
     \<and> (\<exists>ts. map stream_terms (sbStreams db') = map stream_terms (sbStreams demo_streams) @ ts)"
proof -
  let ?s = "demo_stream\<lparr>srStatus := StreamClaimed, srClaimedAt := Some 5\<rparr>"
  let ?w = "\<lparr>wrStreamId = 3, wrType = WithdrawalClaimed, wrAmount = 10, wrRecipient = ''B'', wrTxHash = ''c'', wrTimestamp = 5\<rparr>"
  let ?db = "\<lparr>sbStreams = [?s], sbWithdrawals = [?w]\<rparr>"
  have "stream_parseEvent True True (SeClaimed demo_stream_claim) demo_streams = (Inr (), ?db)"
    by (simp add: stream_parseEvent_def parseClaimedEvent_def updateStream_def recordWithdrawal_def demo_stream_claim_def
        demo_streams_def demo_stream_def demo_ten bigint_column_def)
  then have "stream_step demo_streams ?db" by (rule stream_handle)
  then have run: "stream_step\<^sup>*\<^sup>* demo_streams ?db" by (rule r_into_rtranclp)
  have "stream_inv demo_streams" by (simp add: stream_inv_def demo_streams_def)
  from stream_terms_immutable [OF this run] run show ?thesis by (intro exI [of _ ?db]) simp
qed

section \<open>Chronological processing\<close>

text \<open>The order of arrival does not matter: batches of the same events with distinct times are processed to
  the same result, tables and error alike.\<close>

theorem chronological_order_independent:
  assumes "mset events = mset events'" and "inj_on stream_event_time (set events)"
  shows "processEventsInChronologicalOrder events db = processEventsInChronologicalOrder events' db"
proof -
  have "sort_key stream_event_time events = sort_key stream_event_time events'"
    by (rule sort_key_inj_key_eq) (use assms in simp_all)
  then show ?thesis by (simp add: processEventsInChronologicalOrder_def)
qed

theorem chronological_order_independent_witness:
  "processEventsInChronologicalOrder
      [SeMetadataUpdated \<lparr>suStreamId = 3, suMetadata = Some ''m'', suTimestamp = 9\<rparr>, SeClaimed demo_stream_claim] demo_streams =
   processEventsInChronologicalOrder
      [SeClaimed demo_stream_claim, SeMetadataUpdated \<lparr>suStreamId = 3, suMetadata = Some ''m'', suTimestamp = 9\<rparr>] demo_streams"
  by (rule chronological_order_independent) (simp_all add: demo_stream_claim_def add_mset_commute)

section \<open>Keyset pages\<close>

lemma keyset_after:
  fixes f :: "'a \<Rightarrow> int"
  assumes "sorted_wrt (<) (map f xs)" and "0 < n" and "n < length xs"
  shows "filter (\<lambda>x. f x > f (xs ! (n - 1))) xs = drop n xs"
proof -
  have lt: "f (xs ! i) < f (xs ! j)" if "i < j" "j < length xs" for i j
    using assms(1) that by (simp add: sorted_wrt_iff_nth_less)
  have "filter (\<lambda>x. f x > f (xs ! (n - 1))) (take n xs) = []"
  proof -
    have "\<not> f x > f (xs ! (n - 1))" if "x \<in> set (take n xs)" for x
    proof -
      from that obtain i where "i < n" "x = xs ! i" using assms(3) by (auto simp: in_set_conv_nth)
      show ?thesis
      proof (cases "i = n - 1")
        case False
        then have "i < n - 1" using \<open>i < n\<close> by simp
        moreover have "n - 1 < length xs" using assms(3) by simp
        ultimately have "f (xs ! i) < f (xs ! (n - 1))" by (rule lt)
        then show ?thesis unfolding \<open>x = xs ! i\<close> by simp
      qed (simp add: \<open>x = xs ! i\<close>)
    qed
    then show ?thesis by (simp add: filter_empty_conv)
  qed
  moreover have "filter (\<lambda>x. f x > f (xs ! (n - 1))) (drop n xs) = drop n xs"
  proof (rule filter_True, rule ballI)
    fix x assume "x \<in> set (drop n xs)"
    then obtain j where "n \<le> j" "j < length xs" "x = xs ! j"
      by (auto simp: in_set_conv_nth) (metis add.commute le_add1 less_diff_conv)
    then show "f x > f (xs ! (n - 1))" using lt [of "n - 1" j] assms(2) by simp
  qed
  ultimately show ?thesis by (metis append_Nil append_take_drop_id filter_append)
qed

lemma keyset_sorted:
  assumes "distinct (map srStreamId (sbStreams db))"
  shows "sorted_wrt (<) (map srStreamId (keyset_rows creator status db))"
proof -
  have "distinct (map srStreamId (filter P (sbStreams db)))" for P
    using assms by (rule distinct_map_filter)
  then have "distinct (map srStreamId (keyset_rows creator status db))"
    unfolding keyset_rows_def by (auto simp: distinct_map)
  moreover have "sorted (map srStreamId (keyset_rows creator status db))" unfolding keyset_rows_def by (rule sorted_sort_key)
  ultimately show ?thesis by (simp add: strict_sorted_iff)
qed

definition keyset_fetch :: "string \<Rightarrow> stream_status option \<Rightarrow> int option \<Rightarrow> stream_db \<Rightarrow> int option \<Rightarrow> stream_view list \<times> int option" where
  "keyset_fetch creator status limit db cursor = getStreamsByCreatorKeyset creator status limit cursor db"

lemma keyset_pager:
  assumes "distinct (map srStreamId (sbStreams db))"
  shows "pager (keyset_fetch creator status limit db) (map buildProjection (keyset_rows creator status db))
    (nat (min (max (case limit of Some l \<Rightarrow> l | None \<Rightarrow> MAX_KEYSET_PAGE_SIZE) 1) MAX_KEYSET_PAGE_SIZE))
    (\<lambda>n. srStreamId (keyset_rows creator status db ! (n - 1)))"
proof -
  define rows where "rows = keyset_rows creator status db"
  define l where "l = nat (min (max (case limit of Some l \<Rightarrow> l | None \<Rightarrow> MAX_KEYSET_PAGE_SIZE) 1) MAX_KEYSET_PAGE_SIZE)"
  have l: "0 < l" "min (max (case limit of Some l \<Rightarrow> l | None \<Rightarrow> MAX_KEYSET_PAGE_SIZE) 1) MAX_KEYSET_PAGE_SIZE = int l" "nat (int l + 1) = Suc l"
    by (auto simp: l_def MAX_KEYSET_PAGE_SIZE_def)
  have page: "keyset_fetch creator status limit db c =
      (map buildProjection (take l xs), if l < length xs then Some (srStreamId (xs ! (l - 1))) else None)"
    if "(case c of None \<Rightarrow> rows | Some c \<Rightarrow> filter (\<lambda>s. srStreamId s > c) rows) = xs" for c xs
  proof -
    have "last (take l xs) = xs ! (l - 1)" if "l < length xs" using that l(1) last_take_drop [of l 0 xs] by auto
    then show ?thesis
      using that l(1) unfolding keyset_fetch_def getStreamsByCreatorKeyset_def Let_def l(2) l(3) rows_def [symmetric]
      by (auto simp: min_def)
  qed
  have sorted: "sorted_wrt (<) (map srStreamId rows)" unfolding rows_def by (rule keyset_sorted [OF assms])
  have first: "keyset_fetch creator status limit db None =
      (take l (map buildProjection rows), if l < length (map buildProjection rows) then Some (srStreamId (rows ! (l - 1))) else None)"
    using page [of None rows] by (simp add: take_map)
  have next_page: "keyset_fetch creator status limit db (Some (srStreamId (rows ! (n - 1)))) =
      (take l (drop n (map buildProjection rows)), if n + l < length (map buildProjection rows) then Some (srStreamId (rows ! (n + l - 1))) else None)"
    if n: "0 < n" "n < length (map buildProjection rows)" for n
  proof -
    have "filter (\<lambda>s. srStreamId s > srStreamId (rows ! (n - 1))) rows = drop n rows"
      using keyset_after [OF sorted n(1)] n(2) by simp
    then show ?thesis
      using page [of "Some (srStreamId (rows ! (n - 1)))" "drop n rows"] n l(1)
      by (simp add: take_map drop_map less_diff_conv add.commute)
  qed
  show ?thesis
    unfolding l_def [symmetric] rows_def [symmetric] using l(1) first next_page by unfold_locales auto
qed

text \<open>A client that follows \<open>nextCursor\<close> through a creator's streams sees every matching stream exactly once,
  by ascending id, for every page size it asks for.\<close>

theorem keyset_pages_cover_streams:
  assumes "distinct (map srStreamId (sbStreams db))" and "length (keyset_rows creator status db) < fuel"
  shows "traverse (keyset_fetch creator status limit db) fuel None = Some (map buildProjection (keyset_rows creator status db))"
  using pager.traverse_complete [OF keyset_pager [OF assms(1)], of creator status fuel limit] assms(2) by simp

theorem keyset_pages_cover_streams_witness:
  "traverse (keyset_fetch ''A'' None (Some (- 5)) demo_streams) 2 None = Some [buildProjection demo_stream]"
  by (subst keyset_pages_cover_streams) (simp_all add: keyset_rows_def demo_streams_def demo_stream_def status_matches_def)

text \<open>The statuses partition the streams.\<close>

lemma status_counts:
  "length xs = length (filter (\<lambda>s. srStatus s = StreamCreated) xs) + length (filter (\<lambda>s. srStatus s = StreamClaimed) xs)
     + length (filter (\<lambda>s. srStatus s = StreamCancelled) xs)"
proof (induction xs)
  case (Cons s xs)
  then show ?case by (cases "srStatus s") auto
qed simp

text \<open>A claim whose amount does not parse changes the status and records no withdrawal.\<close>

lemma malformed_claim_half_applied:
  assumes "big_int_of (slAmount event) = None" and "updateStream (slStreamId event) (\<lambda>s. s\<lparr>srStatus := StreamClaimed, srClaimedAt := Some (slTimestamp event)\<rparr>) db = Inr db1"
  shows "parseClaimedEvent True ok2 event db = (Inl (SyntaxError (slAmount event)), db1)"
  using assms by (simp add: parseClaimedEvent_def recordWithdrawal_def)

end
