(* ===== verification/Listener_Lag.thy ===== *)
theory Listener_Lag
  imports Decoder_Registry Complex_Main
begin

text \<open>
  \<open>backend/src/monitoring/metrics/projectionLagThresholds.ts\<close>, \<open>backend/src/lib/metrics/listenerLagMetrics.ts\<close>
  and the lag metrics of \<open>backend/src/services/stellarEventListener.ts\<close>: rolling windows of the delay between
  the close of a ledger and the processing of its events, thresholds, debounced alerts, and the distance of
  the processed ledger from the head of the chain.

  Lags and times are integer milliseconds, ledgers integers; the reading of a close time is a parameter.
\<close>

section \<open>Thresholds\<close>

record threshold_set =
  thNORMAL :: int
  thWARNING :: int
  thCRITICAL :: int

datatype lag_status = Healthy | Warning | Critical

definition PROJECTION_LAG_THRESHOLDS :: threshold_set where
  "PROJECTION_LAG_THRESHOLDS = \<lparr>thNORMAL = 5000, thWARNING = 30000, thCRITICAL = 60000\<rparr>"

definition EVENT_LAG_TOLERANCES :: "(string \<times> threshold_set) list" where
  "EVENT_LAG_TOLERANCES =
    [(''token_created'', \<lparr>thNORMAL = 5000, thWARNING = 25000, thCRITICAL = 60000\<rparr>),
     (''token_burned'', \<lparr>thNORMAL = 5000, thWARNING = 25000, thCRITICAL = 60000\<rparr>),
     (''token_admin_burned'', \<lparr>thNORMAL = 5000, thWARNING = 25000, thCRITICAL = 60000\<rparr>),
     (''proposal_created'', \<lparr>thNORMAL = 8000, thWARNING = 35000, thCRITICAL = 90000\<rparr>),
     (''vote_cast'', \<lparr>thNORMAL = 8000, thWARNING = 35000, thCRITICAL = 90000\<rparr>),
     (''campaign_started'', \<lparr>thNORMAL = 6000, thWARNING = 30000, thCRITICAL = 75000\<rparr>),
     (''vault_created'', \<lparr>thNORMAL = 6000, thWARNING = 30000, thCRITICAL = 75000\<rparr>)]"

text \<open>The kind is what \<open>kindForTopic(topic) ?? 'unknown'\<close> yields: a text, or an inherited member, whose text
  is no key of the table.\<close>

definition getLagThresholdsForEventKind :: "kind_result \<Rightarrow> threshold_set" where
  "getLagThresholdsForEventKind eventKind =
     (case eventKind of
        Kind k \<Rightarrow> (case map_of EVENT_LAG_TOLERANCES k of Some t \<Rightarrow> t | None \<Rightarrow> PROJECTION_LAG_THRESHOLDS)
      | _ \<Rightarrow> PROJECTION_LAG_THRESHOLDS)"

definition determineThresholdStatus :: "int \<Rightarrow> kind_result \<Rightarrow> lag_status" where
  "determineThresholdStatus lagMs eventKind =
     (let thresholds = getLagThresholdsForEventKind eventKind
      in if lagMs \<ge> thCRITICAL thresholds then Critical
         else if lagMs \<ge> thWARNING thresholds then Warning
         else Healthy)"

record threshold_alert =
  taSeverity :: lag_status
  taCurrentLag :: int
  taThreshold :: int
  taEventKind :: kind_result
  taTimestamp :: int

definition generateThresholdAlert :: "int \<Rightarrow> int \<Rightarrow> kind_result \<Rightarrow> threshold_alert option" where
  "generateThresholdAlert now lagMs eventKind =
     (let thresholds = getLagThresholdsForEventKind eventKind;
          status = determineThresholdStatus lagMs eventKind
      in if status = Critical then
           Some \<lparr>taSeverity = Critical, taCurrentLag = lagMs, taThreshold = thCRITICAL thresholds,
             taEventKind = eventKind, taTimestamp = now\<rparr>
         else if status = Warning then
           Some \<lparr>taSeverity = Warning, taCurrentLag = lagMs, taThreshold = thWARNING thresholds,
             taEventKind = eventKind, taTimestamp = now\<rparr>
         else None)"

section \<open>Rolling windows\<close>

text \<open>The measurements, lag and time, oldest first.\<close>

record lag_window =
  lwMeasurements :: "(int \<times> int) list"
  lwWindowSizeMs :: int

definition new_lag_window :: "int \<Rightarrow> lag_window" where
  "new_lag_window sizeMs = \<lparr>lwMeasurements = [], lwWindowSizeMs = sizeMs\<rparr>"

definition pruneOldMeasurements :: "int \<Rightarrow> lag_window \<Rightarrow> lag_window" where
  "pruneOldMeasurements now w =
     w\<lparr>lwMeasurements := filter (\<lambda>(lag, t). now - t < lwWindowSizeMs w) (lwMeasurements w)\<rparr>"

definition lw_record :: "int \<Rightarrow> int \<Rightarrow> lag_window \<Rightarrow> lag_window" where
  "lw_record now lag w = pruneOldMeasurements now (w\<lparr>lwMeasurements := lwMeasurements w @ [(lag, now)]\<rparr>)"

definition getMaxLag :: "lag_window \<Rightarrow> int" where
  "getMaxLag w = (case map fst (lwMeasurements w) of [] \<Rightarrow> 0 | l # ls \<Rightarrow> foldl max l ls)"

definition getAverageLag :: "lag_window \<Rightarrow> real" where
  "getAverageLag w =
     (if lwMeasurements w = [] then 0
      else real_of_int (foldl (\<lambda>sum m. sum + fst m) 0 (lwMeasurements w)) / real (length (lwMeasurements w)))"

definition getCount :: "lag_window \<Rightarrow> nat" where
  "getCount w = length (lwMeasurements w)"

definition lw_clear :: "lag_window \<Rightarrow> lag_window" where
  "lw_clear w = w\<lparr>lwMeasurements := []\<rparr>"

section \<open>The metrics of the listener\<close>

record lag_metrics =
  lmCurrentLag :: int
  lmMaxLagInWindow :: int
  lmAverageLagInWindow :: real
  lmEventKind :: kind_result
  lmLedgerCloseTime :: int
  lmProcessedAt :: int
  lmThresholdStatus :: lag_status

record lag_state =
  lsGlobal :: lag_window
  lsKinds :: "(kind_result, lag_window) jsmap"
  lsRecent :: "lag_metrics list"
  lsLastAlertTime :: "(kind_result, int) jsmap"
  lsAlerts :: "threshold_alert list"

definition LAG_WINDOW_SIZE_MS :: int where
  "LAG_WINDOW_SIZE_MS = 60000"

definition alertDebounceMs :: int where
  "alertDebounceMs = 5000"

definition new_lag_state :: lag_state where
  "new_lag_state = \<lparr>lsGlobal = new_lag_window LAG_WINDOW_SIZE_MS, lsKinds = [], lsRecent = [], lsLastAlertTime = [], lsAlerts = []\<rparr>"

definition event_kind :: "raw_event \<Rightarrow> kind_result" where
  "event_kind event = kindForTopic (topic0_of event)"

definition calculateProjectionLag :: "(string \<Rightarrow> int) \<Rightarrow> int \<Rightarrow> raw_event \<Rightarrow> lag_state \<Rightarrow> lag_metrics \<times> lag_state" where
  "calculateProjectionLag closeMs now event s =
     (let currentLagMs = now - closeMs (rawCloseTime event);
          eventKind = event_kind event;
          kindWindow = lw_record now currentLagMs
            (case jm_get (lsKinds s) eventKind of Some w \<Rightarrow> w | None \<Rightarrow> new_lag_window LAG_WINDOW_SIZE_MS)
      in (\<lparr>lmCurrentLag = currentLagMs, lmMaxLagInWindow = getMaxLag kindWindow,
           lmAverageLagInWindow = getAverageLag kindWindow, lmEventKind = eventKind,
           lmLedgerCloseTime = closeMs (rawCloseTime event), lmProcessedAt = now,
           lmThresholdStatus = determineThresholdStatus currentLagMs eventKind\<rparr>,
          s\<lparr>lsGlobal := lw_record now currentLagMs (lsGlobal s), lsKinds := jm_set (lsKinds s) eventKind kindWindow\<rparr>))"

text \<open>\<open>lsAlerts\<close> are the alerts that are logged.\<close>

definition recordLagMetrics :: "int \<Rightarrow> lag_metrics \<Rightarrow> lag_state \<Rightarrow> lag_state" where
  "recordLagMetrics now metrics s =
     (let recent = lsRecent s @ [metrics];
          s1 = s\<lparr>lsRecent := (if length recent > 1000 then tl recent else recent)\<rparr>
      in case generateThresholdAlert now (lmCurrentLag metrics) (lmEventKind metrics) of
           None \<Rightarrow> s1
         | Some alert \<Rightarrow>
             (let lastAlertTime = (case jm_get (lsLastAlertTime s1) (taEventKind alert) of Some t \<Rightarrow> t | None \<Rightarrow> 0)
              in if now - lastAlertTime > alertDebounceMs
                 then s1\<lparr>lsLastAlertTime := jm_set (lsLastAlertTime s1) (taEventKind alert) now, lsAlerts := lsAlerts s1 @ [alert]\<rparr>
                 else s1))"

definition observe_lag :: "(string \<Rightarrow> int) \<Rightarrow> int \<Rightarrow> raw_event \<Rightarrow> lag_state \<Rightarrow> lag_state" where
  "observe_lag closeMs now event s = (case calculateProjectionLag closeMs now event s of (m, s1) \<Rightarrow> recordLagMetrics now m s1)"

text \<open>The window of a kind given by its name, which is \<open>'unknown'\<close> for topics without a kind: the newest lag,
  as the code picks it, the average, the maximum and the count.\<close>

definition kind_named :: "string \<Rightarrow> kind_result" where
  "kind_named k = (if k = ''unknown'' then NoKind else Kind k)"

definition getLagMetricsForKind :: "string \<Rightarrow> lag_state \<Rightarrow> int option \<times> real \<times> int \<times> nat" where
  "getLagMetricsForKind k s =
     (case jm_get (lsKinds s) (kind_named k) of
        None \<Rightarrow> (None, 0, 0, 0)
      | Some w \<Rightarrow>
          (map_option lmCurrentLag (List.find (\<lambda>m. lmEventKind m = kind_named k) (lsRecent s)),
           getAverageLag w, getMaxLag w, getCount w))"

definition getGlobalLagMetrics :: "lag_state \<Rightarrow> real \<times> int \<times> nat \<times> (kind_result \<times> real \<times> int) list" where
  "getGlobalLagMetrics s = (getAverageLag (lsGlobal s), getMaxLag (lsGlobal s), getCount (lsGlobal s),
     map (\<lambda>(k, w). (k, getAverageLag w, getMaxLag w)) (lsKinds s))"

definition getRecentLagMetrics :: "nat \<Rightarrow> lag_state \<Rightarrow> lag_metrics list" where
  "getRecentLagMetrics count s = (if count = 0 then lsRecent s else slice_last count (lsRecent s))"

section \<open>The ledger lag\<close>

text \<open>The tracked ledgers with the gauges (unset at first) and the counters.\<close>

record lag_tracker =
  ltLatest :: "int option"
  ltProcessed :: "int option"
  ltLatestGauge :: "int option"
  ltProcessedGauge :: "int option"
  ltLagGauge :: "int option"
  ltHeadUpdatedGauge :: "int option"
  ltLedgersProcessed :: int
  ltHeadFailures :: nat

definition new_lag_tracker :: lag_tracker where
  "new_lag_tracker = \<lparr>ltLatest = None, ltProcessed = None, ltLatestGauge = None, ltProcessedGauge = None,
     ltLagGauge = None, ltHeadUpdatedGauge = None, ltLedgersProcessed = 0, ltHeadFailures = 0\<rparr>"

definition computeLag :: "lag_tracker \<Rightarrow> int option" where
  "computeLag s = (case (ltLatest s, ltProcessed s) of (Some l, Some p) \<Rightarrow> Some (max 0 (l - p)) | _ \<Rightarrow> None)"

definition updateLag :: "lag_tracker \<Rightarrow> lag_tracker" where
  "updateLag s = (case computeLag s of None \<Rightarrow> s | Some lag \<Rightarrow> s\<lparr>ltLagGauge := Some lag\<rparr>)"

definition recordChainHead :: "int \<Rightarrow> int \<Rightarrow> lag_tracker \<Rightarrow> lag_tracker" where
  "recordChainHead now ledger s =
     (if ledger < 0 then s
      else if (case ltLatest s of Some l \<Rightarrow> ledger < l | None \<Rightarrow> False) then s
      else updateLag (s\<lparr>ltLatest := Some ledger, ltLatestGauge := Some ledger, ltHeadUpdatedGauge := Some (now div 1000)\<rparr>))"

definition recordProcessedLedger :: "int \<Rightarrow> lag_tracker \<Rightarrow> lag_tracker" where
  "recordProcessedLedger ledger s =
     (if ledger < 0 then s
      else if (case ltProcessed s of Some p \<Rightarrow> ledger \<le> p | None \<Rightarrow> False) then s
      else
        (let s1 = s\<lparr>ltLedgersProcessed := ltLedgersProcessed s + (case ltProcessed s of Some p \<Rightarrow> ledger - p | None \<Rightarrow> 0),
                     ltProcessed := Some ledger, ltProcessedGauge := Some ledger\<rparr>;
             s2 = (if (case ltLatest s1 of None \<Rightarrow> True | Some l \<Rightarrow> ledger > l)
                   then s1\<lparr>ltLatest := Some ledger, ltLatestGauge := Some ledger\<rparr> else s1)
         in updateLag s2))"

definition recordHeadFetchFailure :: "lag_tracker \<Rightarrow> lag_tracker" where
  "recordHeadFetchFailure s = s\<lparr>ltHeadFailures := ltHeadFailures s + 1\<rparr>"

definition lt_snapshot :: "lag_tracker \<Rightarrow> int option \<times> int option \<times> int option" where
  "lt_snapshot s = (ltLatest s, ltProcessed s, computeLag s)"

definition lt_reset :: "lag_tracker \<Rightarrow> lag_tracker" where
  "lt_reset s = s\<lparr>ltLatest := None, ltProcessed := None\<rparr>"

section \<open>Properties\<close>

text \<open>A custom threshold keeps the order of the levels, so a status never improves as the lag grows.\<close>

lemma thresholds_ordered:
  "thNORMAL (getLagThresholdsForEventKind k) < thWARNING (getLagThresholdsForEventKind k)
   \<and> thWARNING (getLagThresholdsForEventKind k) < thCRITICAL (getLagThresholdsForEventKind k)"
proof -
  have "list_all (\<lambda>(_, t). thNORMAL t < thWARNING t \<and> thWARNING t < thCRITICAL t) EVENT_LAG_TOLERANCES"
    by (simp add: EVENT_LAG_TOLERANCES_def)
  then have "thNORMAL t < thWARNING t \<and> thWARNING t < thCRITICAL t" if "map_of EVENT_LAG_TOLERANCES n = Some t" for n t
    using map_of_SomeD [OF that] by (auto simp: list_all_iff)
  then show ?thesis
    by (auto simp: getLagThresholdsForEventKind_def PROJECTION_LAG_THRESHOLDS_def split: kind_result.split option.split)
qed

primrec level :: "lag_status \<Rightarrow> nat" where
  "level Healthy = 0"
| "level Warning = 1"
| "level Critical = 2"

lemma status_monotone:
  "a \<le> b \<Longrightarrow> level (determineThresholdStatus a k) \<le> level (determineThresholdStatus b k)"
  using thresholds_ordered [of k] by (auto simp: determineThresholdStatus_def Let_def)

lemma alert_iff_unhealthy:
  "generateThresholdAlert now lag k = None \<longleftrightarrow> determineThresholdStatus lag k = Healthy"
  by (cases "determineThresholdStatus lag k") (simp_all add: generateThresholdAlert_def Let_def)

lemma alert_kind: "generateThresholdAlert now lag k = Some a \<Longrightarrow> taEventKind a = k \<and> taTimestamp a = now"
  by (auto simp: generateThresholdAlert_def Let_def split: if_splits)

subsection \<open>Windows\<close>

text \<open>Recording at non-decreasing times leaves the measurements of the last window.\<close>

primrec record_all :: "(int \<times> int) list \<Rightarrow> lag_window \<Rightarrow> lag_window" where
  "record_all [] w = w"
| "record_all (m # ms) w = record_all ms (lw_record (snd m) (fst m) w)"

lemma record_all_snoc: "record_all (ms @ [m]) w = lw_record (snd m) (fst m) (record_all ms w)"
  by (induction ms arbitrary: w) simp_all

lemma record_all_size [simp]: "lwWindowSizeMs (record_all ms w) = lwWindowSizeMs w"
  by (induction ms arbitrary: w) (simp_all add: lw_record_def pruneOldMeasurements_def)

lemma window_contents:
  assumes "sorted (map snd ms)" and "ms \<noteq> []"
  shows "lwMeasurements (record_all ms (new_lag_window sz)) = filter (\<lambda>m. snd (last ms) - snd m < sz) ms"
  using assms
proof (induction ms rule: rev_induct)
  case (snoc m ms)
  have sz: "lwWindowSizeMs (record_all ms (new_lag_window sz)) = sz" by (simp add: new_lag_window_def)
  have sz': "lwWindowSizeMs (new_lag_window sz) = sz" by (simp add: new_lag_window_def)
  show ?case
  proof (cases "ms = []")
    case True
    then show ?thesis
      by (simp add: lw_record_def pruneOldMeasurements_def new_lag_window_def case_prod_unfold)
  next
    case False
    have "sorted (map snd ms)" using snoc.prems by (simp add: sorted_append)
    then have IH: "lwMeasurements (record_all ms (new_lag_window sz)) = filter (\<lambda>x. snd (last ms) - snd x < sz) ms"
      using snoc.IH False by simp
    have "snd (last ms) \<le> snd m" using snoc.prems False by (simp add: sorted_append)
    then have "filter (\<lambda>x. snd m - snd x < sz) (filter (\<lambda>x. snd (last ms) - snd x < sz) ms) = filter (\<lambda>x. snd m - snd x < sz) ms"
      by (auto simp: filter_filter intro!: filter_cong)
    then show ?thesis
      unfolding record_all_snoc lw_record_def pruneOldMeasurements_def
      by (auto simp: sz sz' IH case_prod_unfold)
  qed
qed simp

lemma foldl_max: "foldl max (a::int) xs = Max (insert a (set xs))"
proof (induction xs arbitrary: a)
  case (Cons b xs)
  have "foldl max a (b # xs) = Max (insert (max a b) (set xs))" by (simp add: Cons.IH)
  also have "\<dots> = max a (Max (insert b (set xs)))"
    by (cases "xs = []") (simp_all add: max.assoc)
  finally show ?case by simp
qed simp

lemma getMaxLag_Max: "lwMeasurements w \<noteq> [] \<Longrightarrow> getMaxLag w = Max (fst ` set (lwMeasurements w))"
  by (cases "lwMeasurements w") (simp_all add: getMaxLag_def foldl_max)

lemma foldl_sum_fst: "foldl (\<lambda>sum m. sum + fst m) a ms = a + sum_list (map fst (ms :: (int \<times> int) list))"
  by (induction ms arbitrary: a) simp_all

text \<open>The average never exceeds the maximum.\<close>

lemma average_le_max: "getAverageLag w \<le> real_of_int (getMaxLag w)"
proof (cases "lwMeasurements w = []")
  case False
  define ls where "ls = map fst (lwMeasurements w)"
  have "sum_list ls \<le> int (length ls) * getMaxLag w"
  proof -
    have "l \<le> getMaxLag w" if "l \<in> set ls" for l
      using that False unfolding getMaxLag_Max [OF False] ls_def by simp
    then have "sum_list ls \<le> sum_list (map (\<lambda>_. getMaxLag w) ls)"
      using sum_list_mono [of ls "\<lambda>l. l" "\<lambda>_. getMaxLag w"] by simp
    then show ?thesis by (simp add: sum_list_const_mult map_replicate_const sum_list_replicate)
  qed
  then have "real_of_int (sum_list ls) \<le> real (length ls) * real_of_int (getMaxLag w)"
    by (metis of_int_le_iff of_int_mult of_int_of_nat_eq)
  then have "real_of_int (sum_list ls) / real (length ls) \<le> real_of_int (getMaxLag w)"
    using False by (simp add: ls_def divide_le_eq mult.commute)
  then show ?thesis using False by (simp add: getAverageLag_def foldl_sum_fst ls_def)
qed (simp add: getAverageLag_def getMaxLag_def)

text \<open>The windows are pruned when a measurement is recorded and not when they are read.\<close>

lemma reads_ignore_age: "getMaxLag (w\<lparr>lwWindowSizeMs := n\<rparr>) = getMaxLag w"
  by (simp add: getMaxLag_def)

subsection \<open>Debounced alerts\<close>

primrec observe_all :: "(string \<Rightarrow> int) \<Rightarrow> (int \<times> raw_event) list \<Rightarrow> lag_state \<Rightarrow> lag_state" where
  "observe_all closeMs [] s = s"
| "observe_all closeMs (e # es) s = observe_all closeMs es (observe_lag closeMs (fst e) (snd e) s)"

definition alert_times :: "kind_result \<Rightarrow> lag_state \<Rightarrow> int list" where
  "alert_times k s = map taTimestamp (filter (\<lambda>a. taEventKind a = k) (lsAlerts s))"

definition spaced :: "int list \<Rightarrow> bool" where
  "spaced ts \<longleftrightarrow> sorted_wrt (\<lambda>a b. a + alertDebounceMs < b) ts"

text \<open>The last alert of a kind is the stored one, and the earlier ones are spaced.\<close>

definition debounce_inv :: "lag_state \<Rightarrow> bool" where
  "debounce_inv s \<longleftrightarrow> (\<forall>k. spaced (alert_times k s) \<and>
     (\<forall>t\<in>set (alert_times k s). \<exists>l. jm_get (lsLastAlertTime s) k = Some l \<and> t \<le> l) \<and> length (lsRecent s) \<le> 1000)"

lemma calculate_keeps:
  "calculateProjectionLag closeMs now e s = (m, s1) \<Longrightarrow>
     lsAlerts s1 = lsAlerts s \<and> lsLastAlertTime s1 = lsLastAlertTime s \<and> lsRecent s1 = lsRecent s"
  by (auto simp: calculateProjectionLag_def Let_def)

lemma spaced_snoc: "spaced (ts @ [t]) \<longleftrightarrow> spaced ts \<and> (\<forall>u\<in>set ts. u + alertDebounceMs < t)"
  by (auto simp: spaced_def sorted_wrt_append)

lemma recordLagMetrics_inv:
  assumes "debounce_inv s"
  shows "debounce_inv (recordLagMetrics now m s)"
proof -
  define s1 where "s1 = s\<lparr>lsRecent := (if length (lsRecent s @ [m]) > 1000 then tl (lsRecent s @ [m]) else lsRecent s @ [m])\<rparr>"
  have inv1: "debounce_inv s1"
    using assms by (auto simp: s1_def debounce_inv_def alert_times_def)
  show ?thesis
  proof (cases "generateThresholdAlert now (lmCurrentLag m) (lmEventKind m)")
    case None
    then show ?thesis using inv1 by (simp add: recordLagMetrics_def Let_def s1_def)
  next
    case (Some a)
    define l where "l = (case jm_get (lsLastAlertTime s1) (taEventKind a) of Some t \<Rightarrow> t | None \<Rightarrow> 0)"
    have eq: "recordLagMetrics now m s =
        (if now - l > alertDebounceMs
         then s1\<lparr>lsLastAlertTime := jm_set (lsLastAlertTime s1) (taEventKind a) now, lsAlerts := lsAlerts s1 @ [a]\<rparr> else s1)"
      using Some by (simp add: recordLagMetrics_def Let_def s1_def l_def)
    have t: "taTimestamp a = now" using alert_kind [OF Some] by simp
    have le: "u \<le> l" if "u \<in> set (alert_times (taEventKind a) s1)" for u
      using inv1 that unfolding debounce_inv_def l_def by fastforce
    show ?thesis
    proof (cases "now - l > alertDebounceMs")
      case True
      define s2 where "s2 = s1\<lparr>lsLastAlertTime := jm_set (lsLastAlertTime s1) (taEventKind a) now, lsAlerts := lsAlerts s1 @ [a]\<rparr>"
      have times: "alert_times k s2 = (if k = taEventKind a then alert_times k s1 @ [now] else alert_times k s1)" for k
        by (auto simp: s2_def alert_times_def t)
      have "u + alertDebounceMs < now" if "u \<in> set (alert_times (taEventKind a) s1)" for u
        using le [OF that] True by simp
      moreover have "u \<le> now" if "u \<in> set (alert_times (taEventKind a) s1)" for u
        using le [OF that] True by (simp add: alertDebounceMs_def)
      ultimately have "debounce_inv s2"
        using inv1 unfolding debounce_inv_def times by (auto simp: s2_def spaced_snoc)
      then show ?thesis using True by (simp add: eq s2_def)
    qed (use inv1 in \<open>simp add: eq\<close>)
  qed
qed

lemma observe_inv: "debounce_inv s \<Longrightarrow> debounce_inv (observe_lag closeMs now e s)"
proof -
  assume inv: "debounce_inv s"
  obtain m s1 where c: "calculateProjectionLag closeMs now e s = (m, s1)" by (cases "calculateProjectionLag closeMs now e s")
  have "debounce_inv s1" using inv calculate_keeps [OF c] by (simp add: debounce_inv_def alert_times_def)
  then show ?thesis by (simp add: observe_lag_def c recordLagMetrics_inv)
qed

lemma debounce_run: "debounce_inv s \<Longrightarrow> debounce_inv (observe_all closeMs es s)"
  by (induction es arbitrary: s) (simp_all add: observe_inv)

text \<open>Whatever events arrive at whatever times, two alerts for the same kind of event are more than the debounce
  interval apart, and at most 1000 recent metrics are kept.\<close>

theorem lag_alerts_debounced:
  "spaced (alert_times k (observe_all closeMs es new_lag_state)) \<and> length (lsRecent (observe_all closeMs es new_lag_state)) \<le> 1000"
proof -
  have "debounce_inv new_lag_state" by (simp add: debounce_inv_def new_lag_state_def alert_times_def spaced_def)
  then have "debounce_inv (observe_all closeMs es new_lag_state)" by (rule debounce_run)
  then show ?thesis by (simp add: debounce_inv_def)
qed

text \<open>The lag that is reported as current is the oldest one that is kept.\<close>

lemma current_is_oldest:
  assumes "jm_get (lsKinds s) (Kind k) = Some w" and "k \<noteq> ''unknown''"
    and "lsRecent s = m # ms" and "lmEventKind m = Kind k"
  shows "fst (getLagMetricsForKind k s) = Some (lmCurrentLag m)"
  using assms by (simp add: getLagMetricsForKind_def kind_named_def)

subsection \<open>The ledger tracker\<close>

datatype tracker_op = Head int int | Processed int | HeadFailed

fun track :: "tracker_op \<Rightarrow> lag_tracker \<Rightarrow> lag_tracker" where
  "track (Head now l) s = recordChainHead now l s"
| "track (Processed l) s = recordProcessedLedger l s"
| "track HeadFailed s = recordHeadFetchFailure s"

text \<open>The head is at least the processed ledger, the gauges show the state, and the counter is the distance from
  the first processed ledger.\<close>

definition tracker_inv :: "int option \<Rightarrow> lag_tracker \<Rightarrow> bool" where
  "tracker_inv first s \<longleftrightarrow>
     ltLatestGauge s = ltLatest s \<and> ltProcessedGauge s = ltProcessed s \<and> ltLagGauge s = computeLag s \<and>
     (case ltProcessed s of
        None \<Rightarrow> first = None \<and> ltLedgersProcessed s = 0
      | Some p \<Rightarrow> (\<exists>f l. first = Some f \<and> ltLatest s = Some l \<and> 0 \<le> f \<and> f \<le> p \<and> p \<le> l \<and> ltLedgersProcessed s = p - f))"

fun first_processed :: "tracker_op list \<Rightarrow> int option" where
  "first_processed [] = None"
| "first_processed (Processed l # ops) = (if l \<ge> 0 then Some l else first_processed ops)"
| "first_processed (_ # ops) = first_processed ops"

definition op_first :: "int option \<Rightarrow> tracker_op \<Rightarrow> int option" where
  "op_first first op = (case op of Processed l \<Rightarrow> if first = None \<and> l \<ge> 0 then Some l else first | _ \<Rightarrow> first)"

lemma first_processed_snoc: "first_processed (ops @ [op]) = op_first (first_processed ops) op"
  by (induction ops rule: first_processed.induct) (auto simp: op_first_def split: tracker_op.split)

lemma track_inv:
  assumes "tracker_inv first s"
  shows "tracker_inv (op_first first op) (track op s)"
proof (cases op)
  case (Head now l)
  then show ?thesis
    using assms
    by (auto simp: tracker_inv_def op_first_def recordChainHead_def updateLag_def computeLag_def split: option.splits)
next
  case (Processed l)
  then show ?thesis
    using assms
    by (auto simp: tracker_inv_def op_first_def recordProcessedLedger_def updateLag_def computeLag_def Let_def split: option.splits)
next
  case HeadFailed
  then show ?thesis using assms
    by (auto simp: tracker_inv_def op_first_def recordHeadFetchFailure_def computeLag_def split: option.splits)
qed

lemma track_run: "tracker_inv (first_processed ops) (foldl (\<lambda>s op. track op s) new_lag_tracker ops)"
proof (induction ops rule: rev_induct)
  case Nil
  show ?case by (simp add: tracker_inv_def new_lag_tracker_def computeLag_def)
next
  case (snoc op ops)
  then show ?case by (simp add: first_processed_snoc track_inv)
qed

text \<open>After any sequence of head look-ups and processed events the tracker is consistent: the head is never behind
  the processed ledger, the lag gauge is their difference, and the counter is the number of ledgers from the
  first processed one to the current one.\<close>

theorem ledger_tracker_consistent:
  "tracker_inv (first_processed ops) (foldl (\<lambda>s op. track op s) new_lag_tracker ops)"
  by (rule track_run)

text \<open>The head and the processed ledger never move back.\<close>

lemma track_monotone:
  "ltProcessed s = Some p \<Longrightarrow> \<exists>p'\<ge>p. ltProcessed (track op s) = Some p'"
  "ltLatest s = Some l \<Longrightarrow> \<exists>l'\<ge>l. ltLatest (track op s) = Some l'"
  by (cases op; auto simp: recordChainHead_def recordProcessedLedger_def recordHeadFetchFailure_def updateLag_def Let_def split: option.splits)+

end
