(* ===== verification/Event_Listener.thy ===== *)
theory Event_Listener
  imports Listener_Lag Retry_Backoff Leader_Election Token_Projection Governance_Projection Stream_Projection
begin

text \<open>
  \<open>backend/src/services/stellarEventListener.ts\<close> and \<open>eventCursorStore.ts\<close>: the elected worker that polls Horizon
  for contract events, routes each to a projection and advances a durable cursor.

  Parameters stand for Horizon's answers, the text of an SDK value, the reading of a close time and the two
  parser modules that the listener imports and the repository does not have. Faults of the database, the
  verdicts on the fencing token and the time are arguments of the step in which they occur.
\<close>

section \<open>The cursor store\<close>

text \<open>The expression \<open>/^(\d+)-\d+$/\<close> and the number of its group.\<close>

definition parseLedgerFromCursor :: "string \<Rightarrow> int option" where
  "parseLedgerFromCursor cursor =
     (case split_on (CHR ''-'') cursor of
        [a, b] \<Rightarrow> if a \<noteq> [] \<and> list_all is_digit a \<and> b \<noteq> [] \<and> list_all is_digit b then Some (int (digits_val a)) else None
      | _ \<Rightarrow> None)"

text \<open>\<open>row\<close> is the value of the cursor's row, \<open>origin\<close> the variable \<open>STELLAR_CURSOR_ORIGIN\<close>.\<close>

definition cs_load :: "string option \<Rightarrow> string option \<Rightarrow> string option" where
  "cs_load origin row = (case row of Some c \<Rightarrow> Some c | None \<Rightarrow> origin)"

definition cs_save :: "string \<Rightarrow> string option \<Rightarrow> string option" where
  "cs_save cursor row = Some cursor"

definition getCursorLag :: "string option \<Rightarrow> int \<Rightarrow> string option \<Rightarrow> int option" where
  "getCursorLag origin currentLedger row =
     (case cs_load origin row of
        None \<Rightarrow> None
      | Some cursor \<Rightarrow>
          if cursor = [] then None
          else (case parseLedgerFromCursor cursor of None \<Rightarrow> None | Some ledger \<Rightarrow> Some (max 0 (currentLedger - ledger))))"

section \<open>Configuration\<close>

definition HEAD_REFRESH_INTERVAL_MS :: "string option \<Rightarrow> int" where
  "HEAD_REFRESH_INTERVAL_MS env =
     (case parse_int10 (case env of Some s \<Rightarrow> s | None \<Rightarrow> ''15000'') of Some n \<Rightarrow> if n \<ge> 0 then n else 15000 | None \<Rightarrow> 15000)"

definition MAX_CATCHUP_LEDGERS :: "string option \<Rightarrow> int" where
  "MAX_CATCHUP_LEDGERS env =
     (case parse_int10 (case env of Some s \<Rightarrow> s | None \<Rightarrow> ''1000'') of Some n \<Rightarrow> if n > 0 then n else 1000 | None \<Rightarrow> 1000)"

definition POLL_INTERVAL_MS :: int where
  "POLL_INTERVAL_MS = 5000"

section \<open>Webhook data and token events\<close>

datatype webhook_event_type = TOKEN_BURN_SELF | TOKEN_BURN_ADMIN | TOKEN_CREATED | TOKEN_METADATA_UPDATED

definition kindToWebhookType :: "string \<Rightarrow> webhook_event_type option" where
  "kindToWebhookType kind =
     (if kind = ''token_burned'' then Some TOKEN_BURN_SELF
      else if kind = ''token_admin_burned'' then Some TOKEN_BURN_ADMIN
      else if kind = ''token_created'' then Some TOKEN_CREATED
      else None)"

definition parseEventType :: "raw_event \<Rightarrow> webhook_event_type option" where
  "parseEventType event = (case event_kind event of Kind k \<Rightarrow> kindToWebhookType k | _ \<Rightarrow> None)"

text \<open>\<open>event.value?.f || ""\<close> and \<open>event.topic[1] || ""\<close>\<close>

definition text_or :: "raw_event \<Rightarrow> string \<Rightarrow> jsval" where
  "text_or event f = js_or (fld event f) (JStr [])"

definition baseData :: "raw_event \<Rightarrow> (string \<times> jsval) list" where
  "baseData event = [(''transactionHash'', JStr (rawTxHash event)), (''ledger'', JNum (rawLedger event))]"

definition extractEventData :: "raw_event \<Rightarrow> webhook_event_type option \<Rightarrow> jsval" where
  "extractEventData event eventType = JObj (baseData event @
     (case eventType of
        None \<Rightarrow> []
      | Some TOKEN_BURN_SELF \<Rightarrow>
          [(''tokenAddress'', JStr (topic1_str event)), (''from'', text_or event ''from''),
           (''amount'', JStr (text_or_zero (fld event ''amount''))),
           (''burner'', js_or (fld event ''burner'') (text_or event ''from''))]
      | Some TOKEN_BURN_ADMIN \<Rightarrow>
          [(''tokenAddress'', JStr (topic1_str event)), (''from'', text_or event ''from''),
           (''amount'', JStr (text_or_zero (fld event ''amount''))), (''admin'', text_or event ''admin'')]
      | Some TOKEN_CREATED \<Rightarrow>
          [(''tokenAddress'', JStr (topic1_str event)), (''creator'', text_or event ''creator''), (''name'', text_or event ''name''),
           (''symbol'', text_or event ''symbol''), (''decimals'', js_or (fld event ''decimals'') (JNum 7)),
           (''initialSupply'', JStr (text_or_zero (fld event ''initial_supply'')))]
      | Some TOKEN_METADATA_UPDATED \<Rightarrow>
          [(''tokenAddress'', JStr (topic1_str event)), (''metadataUri'', text_or event ''metadata_uri''),
           (''updatedBy'', text_or event ''updated_by'')]))"

text \<open>The event for the token projection: its type and the fields that depend on the type.\<close>

definition toRawTokenEvent :: "raw_event \<Rightarrow> (token_event_type \<times> (string \<times> jsval) list) option" where
  "toRawTokenEvent event =
     (let topic0 = topic0_of event
      in if topic0 = ''tok_reg'' then
           Some (TokReg, [(''creator'', text_or event ''creator''), (''name'', text_or event ''name''),
             (''symbol'', text_or event ''symbol''), (''decimals'', js_coalesce (fld event ''decimals'') (JNum 7)),
             (''initialSupply'', JStr (text_or_zero (fld event ''initial_supply'')))])
         else if topic0 = ''tok_burn'' then
           Some (TokBurn, [(''from'', text_or event ''from''), (''amount'', JStr (text_or_zero (fld event ''amount''))),
             (''burner'', js_or (fld event ''burner'') (text_or event ''from''))])
         else if topic0 = ''adm_burn'' then
           Some (AdmBurn, [(''from'', text_or event ''from''), (''amount'', JStr (text_or_zero (fld event ''amount''))),
             (''admin'', text_or event ''admin'')])
         else if topic0 = ''tok_meta'' then
           Some (TokMeta, [(''metadataUri'', text_or event ''metadata_uri''), (''updatedBy'', text_or event ''updated_by'')])
         else None)"

text \<open>The fields as the parser's record; \<open>None\<close> when one that it writes is of a type that the database client
  rejects. The parser writes no \<open>updatedBy\<close>.\<close>

definition field_text :: "(string \<times> jsval) list \<Rightarrow> string \<Rightarrow> string option option" where
  "field_text fs k = as_opt_text (js_prop (JObj fs) k)"

definition field_int :: "(string \<times> jsval) list \<Rightarrow> string \<Rightarrow> int option option" where
  "field_int fs k = (case js_prop (JObj fs) k of JUndef \<Rightarrow> Some None | JNum n \<Rightarrow> Some (Some n) | _ \<Rightarrow> None)"

definition blank_token_event :: "token_event_type \<Rightarrow> raw_event \<Rightarrow> token_event" where
  "blank_token_event ty event =
     \<lparr>teType = ty, teTokenAddress = topic1_str event, teTransactionHash = rawTxHash event, teLedger = rawLedger event,
      teVersion = None, teCreator = None, teName = None, teSymbol = None, teDecimals = None, teInitialSupply = None,
      teFrom = None, teAmount = None, teBurner = None, teAdmin = None, teMetadataUri = None, teFeeType = None,
      tePreviousValue = None, teNewValue = None, teValue = None\<rparr>"

definition typed_token_event :: "raw_event \<Rightarrow> token_event_type \<Rightarrow> (string \<times> jsval) list \<Rightarrow> token_event option" where
  "typed_token_event event ty fs =
     (case (field_text fs ''creator'', field_text fs ''name'', field_text fs ''symbol'', field_int fs ''decimals'') of
        (Some creator, Some name, Some symbol, Some decimals) \<Rightarrow>
          (case (field_text fs ''from'', field_text fs ''burner'', field_text fs ''admin'', field_text fs ''metadataUri'') of
             (Some from', Some burner, Some admin, Some uri) \<Rightarrow>
               Some ((blank_token_event ty event)\<lparr>teCreator := creator, teName := name, teSymbol := symbol, teDecimals := decimals,
                 teInitialSupply := as_text (js_prop (JObj fs) ''initialSupply''), teFrom := from',
                 teAmount := as_text (js_prop (JObj fs) ''amount''), teBurner := burner, teAdmin := admin, teMetadataUri := uri\<rparr>)
           | _ \<Rightarrow> None)
      | _ \<Rightarrow> None)"

text \<open>\<open>tokenEventParser.parseEvent\<close>. A burn that is recorded already, or whose token is unknown, returns before
  the rejected values are written.\<close>

definition ingestToken ::
  "bool \<Rightarrow> string \<Rightarrow> raw_event \<Rightarrow> token_event_type \<times> (string \<times> jsval) list \<Rightarrow> token_db \<Rightarrow> (service_error, unit) res \<times> token_db" where
  "ingestToken ok i event raw db =
     (case raw of (ty, fs) \<Rightarrow>
        (case typed_token_event event ty fs of
           Some e \<Rightarrow> token_parseEvent ok i e db
         | None \<Rightarrow>
             if ty = TokBurn \<or> ty = AdmBurn then
               (case burnRead ok ((blank_token_event ty event)\<lparr>teAmount := as_text (js_prop (JObj fs) ''amount'')\<rparr>) db of
                  Inl e \<Rightarrow> (Inl e, db)
                | Inr None \<Rightarrow> (Inr (), db)
                | Inr (Some _) \<Rightarrow> (Inl (DatabaseError ''validation''), db))
             else
               (case big_int_of (or_default (as_text (js_prop (JObj fs) ''initialSupply'')) ''0'') of
                  None \<Rightarrow> (Inl (SyntaxError (or_default (as_text (js_prop (JObj fs) ''initialSupply'')) ''0'')), db)
                | Some _ \<Rightarrow> (Inl (DatabaseError ''validation''), db))))"

section \<open>Vault events\<close>

definition processStreamOrVaultEvent ::
  "(sc_val \<Rightarrow> string) \<Rightarrow> bool \<Rightarrow> bool \<Rightarrow> int \<Rightarrow> vault_input \<Rightarrow> raw_event \<Rightarrow> stream_db \<Rightarrow> (service_error, unit) res \<times> stream_db" where
  "processStreamOrVaultEvent sdk ok ok2 closeMs input event db =
     (let topic0 = topic0_of event; timestamp = closeMs div 1000
      in if topic0 = ''vlt_cr_v1'' then
           (case parseVaultCreatedEvent sdk input timestamp of
              Some (VaultCreatedEv _ i creator recipient amount _ _) \<Rightarrow>
                stream_parseEvent ok ok2 (SeCreated \<lparr>scStreamId = i, scCreator = creator, scRecipient = recipient,
                  scAmount = amount, scMetadata = None, scTxHash = rawTxHash event, scTimestamp = timestamp * 1000\<rparr>) db
            | _ \<Rightarrow> (Inr (), db))
         else if topic0 = ''vlt_cl_v1'' then
           (case parseVaultClaimedEvent sdk input timestamp of
              Some (VaultClaimedEv _ i recipient amount _) \<Rightarrow>
                stream_parseEvent ok ok2 (SeClaimed \<lparr>slStreamId = i, slRecipient = recipient, slAmount = amount,
                  slTxHash = rawTxHash event, slTimestamp = timestamp * 1000\<rparr>) db
            | _ \<Rightarrow> (Inr (), db))
         else if topic0 = ''vlt_cn_v1'' then
           (case parseVaultCancelledEvent sdk input timestamp of
              Some (VaultCancelledEv _ i canceller remaining _) \<Rightarrow>
                stream_parseEvent ok ok2 (SeCancelled \<lparr>snStreamId = i, snCreator = canceller, snRefundAmount = remaining,
                  snTxHash = rawTxHash event, snTimestamp = timestamp * 1000\<rparr>) db
            | _ \<Rightarrow> (Inr (), db))
         else if topic0 = ''vlt_md_v1'' then
           (case parseVaultMetadataUpdatedEvent sdk input timestamp of
              Some (VaultMetadataUpdatedEv _ i _ _ _) \<Rightarrow>
                stream_parseEvent ok ok2 (SeMetadataUpdated \<lparr>suStreamId = i, suMetadata = None, suTimestamp = timestamp * 1000\<rparr>) db
            | _ \<Rightarrow> (Inr (), db))
         else (Inr (), db))"

text \<open>An inherited member has no \<open>startsWith\<close> to call.\<close>

definition isStreamOrVaultEvent :: "raw_event \<Rightarrow> (js_exn, bool) res" where
  "isStreamOrVaultEvent event =
     (case event_kind event of Kind k \<Rightarrow> Inr (starts_with k ''vault_'') | NoKind \<Rightarrow> Inr False | Inherited _ \<Rightarrow> Inl JsTypeError)"

section \<open>Processing one event\<close>

text \<open>The database, and the state of one process that its metrics are.\<close>

record projections =
  pjTokens :: token_db
  pjGov :: gov_db
  pjStreams :: stream_db
  pjWebhooks :: "(webhook_event_type \<times> jsval) list"

text \<open>A counter entry is a kind with success or error.\<close>

record ingest_metrics =
  imLag :: lag_state
  imCounters :: "(kind_result \<times> bool) list"

text \<open>The time and the faults while an event is handled, the id of a new row, whether the subscriptions can be read,
  and what the two missing parsers return.\<close>

record event_env =
  evNow :: int
  evOk :: bool
  evOk2 :: bool
  evId :: string
  evHook :: bool
  evFee :: "normalized_event \<Rightarrow> (service_error, unit) res"
  evAllow :: "normalized_event \<Rightarrow> (service_error, unit) res"

record ingest_config =
  icSdkText :: "sc_val \<Rightarrow> string"
  icCloseMs :: "string \<Rightarrow> int"

definition projectGovernance :: "event_env \<Rightarrow> raw_event \<Rightarrow> projections \<Rightarrow> (service_error, unit) res \<times> projections" where
  "projectGovernance env event p =
     (case mapEvent (evNow env) event of
        Inl e \<Rightarrow> (Inl e, p)
      | Inr None \<Rightarrow> (Inr (), p)
      | Inr (Some g) \<Rightarrow> (case gov_parseEvent (evOk env) (evOk2 env) (evId env) g (pjGov p) of (r, db) \<Rightarrow> (r, p\<lparr>pjGov := db\<rparr>)))"

text \<open>The events are records of Horizon's answer, without the methods that the vault parsers call.\<close>

definition projectVault :: "ingest_config \<Rightarrow> event_env \<Rightarrow> raw_event \<Rightarrow> projections \<Rightarrow> (service_error, unit) res \<times> projections" where
  "projectVault cfg env event p =
     (case processStreamOrVaultEvent (icSdkText cfg) (evOk env) (evOk2 env) (icCloseMs cfg (rawCloseTime event)) PlainObject event (pjStreams p) of
        (r, db) \<Rightarrow> (r, p\<lparr>pjStreams := db\<rparr>))"

definition projectToken :: "event_env \<Rightarrow> string \<Rightarrow> raw_event \<Rightarrow> projections \<Rightarrow> (service_error, unit) res \<times> projections" where
  "projectToken env kind event p =
     (case (case toRawTokenEvent event of
              None \<Rightarrow> (Inr (), pjTokens p)
            | Some raw \<Rightarrow> ingestToken (evOk env) (evId env) event raw (pjTokens p)) of
        (Inl e, db) \<Rightarrow> (Inl e, p\<lparr>pjTokens := db\<rparr>)
      | (Inr _, db) \<Rightarrow>
          (case kindToWebhookType kind of
             None \<Rightarrow> (Inr (), p\<lparr>pjTokens := db\<rparr>)
           | Some ty \<Rightarrow>
               if evHook env
               then (Inr (), p\<lparr>pjTokens := db, pjWebhooks := pjWebhooks p @ [(ty, extractEventData event (Some ty))]\<rparr>)
               else (Inl (DatabaseError ''subscriptions''), p\<lparr>pjTokens := db\<rparr>)))"

definition routeEvent ::
  "ingest_config \<Rightarrow> event_env \<Rightarrow> normalized_event \<Rightarrow> raw_event \<Rightarrow> projections \<Rightarrow> (service_error, unit) res \<times> projections" where
  "routeEvent cfg env normalized event p =
     (let kind = kind_of (snd normalized)
      in if starts_with kind ''proposal_'' \<or> kind = ''vote_cast'' then projectGovernance env event p
         else if starts_with kind ''vault_'' then projectVault cfg env event p
         else if kind = ''fee_updated'' \<or> kind = ''fee_change'' then (evFee env normalized, p)
         else if starts_with kind ''allowlist_'' \<or> kind = ''whitelist_mode_updated'' then (evAllow env normalized, p)
         else projectToken env kind event p)"

definition processEvent ::
  "ingest_config \<Rightarrow> event_env \<Rightarrow> raw_event \<Rightarrow> ingest_metrics \<times> projections \<Rightarrow> ingest_metrics \<times> projections" where
  "processEvent cfg env event st =
     (case st of (m, p) \<Rightarrow>
       (let m1 = m\<lparr>imLag := observe_lag (icCloseMs cfg) (evNow env) event (imLag m)\<rparr>;
            normalized = decodeEvent event
        in if kind_of (snd normalized) = ''unknown'' then (m1, p)
           else
             (case routeEvent cfg env normalized event p of
                (Inr _, p1) \<Rightarrow> (m1\<lparr>imCounters := imCounters m1 @ [(Kind (kind_of (snd normalized)), True)]\<rparr>, p1)
              | (Inl _, p1) \<Rightarrow> (m1\<lparr>imCounters := imCounters m1 @ [(event_kind event, False)]\<rparr>, p1))))"

text \<open>\<open>replayBatch\<close>: the events with their environments; processed and failed events are counted.\<close>

fun replayBatch :: "ingest_config \<Rightarrow> (event_env \<times> raw_event) list \<Rightarrow> ingest_metrics \<times> projections \<Rightarrow> (nat \<times> nat) \<times> ingest_metrics \<times> projections" where
  "replayBatch cfg [] st = ((0, 0), st)"
| "replayBatch cfg ((env, event) # es) st =
     (case replayBatch cfg es (processEvent cfg env event st) of ((processed, errors), st1) \<Rightarrow> ((processed + 1, errors), st1))"

section \<open>One listener\<close>

record stellar_event =
  seRaw :: raw_event
  sePagingToken :: string

record listener =
  liRunning :: bool
  liElectionStarted :: bool
  liFencingToken :: "int option"
  liLastCursor :: "string option"
  liMetrics :: ingest_metrics
  liTracker :: lag_tracker
  liCursorLagGauge :: "int option"
  liLastHeadRefreshAt :: int

record listener_db =
  ldCursor :: "string option"
  ldProjections :: projections

definition emitCursorLagMetric :: "int \<Rightarrow> listener \<Rightarrow> listener" where
  "emitCursorLagMetric eventLedger l =
     (case liLastCursor l of
        None \<Rightarrow> l
      | Some cursor \<Rightarrow>
          if cursor = [] then l
          else (case parseLedgerFromCursor cursor of None \<Rightarrow> l
            | Some ledger \<Rightarrow> l\<lparr>liCursorLagGauge := Some (max 0 (eventLedger - ledger))\<rparr>))"

text \<open>What an event meets: the verdict on the fencing token and the error of saving the cursor.\<close>

record event_step =
  esEnv :: event_env
  esValid :: bool
  esSaveError :: "jsval option"

datatype handled = Rejected | SaveFailed jsval | Advanced

definition handle_event ::
  "ingest_config \<Rightarrow> event_step \<Rightarrow> stellar_event \<Rightarrow> listener \<Rightarrow> listener_db \<Rightarrow> handled \<times> listener \<times> listener_db" where
  "handle_event cfg v event l db =
     (if liFencingToken l = None \<or> \<not> esValid v
      then (Rejected, l\<lparr>liRunning := False, liFencingToken := None\<rparr>, db)
      else
        (case processEvent cfg (esEnv v) (seRaw event) (liMetrics l, ldProjections db) of (m, p) \<Rightarrow>
          (let l1 = l\<lparr>liMetrics := m, liLastCursor := Some (sePagingToken event)\<rparr>;
               db1 = db\<lparr>ldProjections := p\<rparr>
           in case esSaveError v of
                Some e \<Rightarrow> (SaveFailed e, l1, db1)
              | None \<Rightarrow>
                  (let l2 = emitCursorLagMetric (rawLedger (seRaw event)) l1
                   in (Advanced, l2\<lparr>liTracker := recordProcessedLedger (rawLedger (seRaw event)) (liTracker l2)\<rparr>,
                       db1\<lparr>ldCursor := cs_save (sePagingToken event) (ldCursor db1)\<rparr>)))))"

fun handle_events ::
  "ingest_config \<Rightarrow> (event_step \<times> stellar_event) list \<Rightarrow> listener \<Rightarrow> listener_db \<Rightarrow> (jsval, unit) res \<times> listener \<times> listener_db" where
  "handle_events cfg [] l db = (Inr (), l, db)"
| "handle_events cfg ((v, event) # es) l db =
     (case handle_event cfg v event l db of
        (Rejected, l1, db1) \<Rightarrow> (Inr (), l1, db1)
      | (SaveFailed e, l1, db1) \<Rightarrow> (Inl e, l1, db1)
      | (Advanced, l1, db1) \<Rightarrow> handle_events cfg es l1 db1)"

text \<open>Horizon is asked for the events after the cursor; an empty cursor is not sent. The steps are those of the
  events of the answer, by position.\<close>

definition request_cursor :: "listener \<Rightarrow> string option" where
  "request_cursor l = (case liLastCursor l of Some c \<Rightarrow> if c = [] then None else Some c | None \<Rightarrow> None)"

definition numbered :: "(nat \<Rightarrow> 'a) \<Rightarrow> 'b list \<Rightarrow> ('a \<times> 'b) list" where
  "numbered f xs = zip (map f [0..<length xs]) xs"

definition fetchAndProcessEvents ::
  "ingest_config \<Rightarrow> (string option \<Rightarrow> (jsval, stellar_event list) res) \<Rightarrow> (nat \<Rightarrow> event_step) \<Rightarrow> listener \<Rightarrow> listener_db
     \<Rightarrow> (jsval, unit) res \<times> listener \<times> listener_db" where
  "fetchAndProcessEvents cfg getEvents steps l db =
     (case getEvents (request_cursor l) of
        Inl e \<Rightarrow> (Inl e, l, db)
      | Inr events \<Rightarrow> handle_events cfg (numbered steps events) l db)"

text \<open>A look-up of the head, where the transport offers one.\<close>

datatype head_result = HeadThrows | HeadNull | HeadLedger int

definition refreshChainHeadIfDue :: "int \<Rightarrow> int \<Rightarrow> head_result option \<Rightarrow> listener \<Rightarrow> listener" where
  "refreshChainHeadIfDue interval now head l =
     (case head of
        None \<Rightarrow> l
      | Some h \<Rightarrow>
          if liLastHeadRefreshAt l \<noteq> 0 \<and> now - liLastHeadRefreshAt l < interval then l
          else
            (let l1 = l\<lparr>liLastHeadRefreshAt := now\<rparr>
             in case h of
                  HeadLedger n \<Rightarrow> l1\<lparr>liTracker := recordChainHead now n (liTracker l1)\<rparr>
                | _ \<Rightarrow> l1\<lparr>liTracker := recordHeadFetchFailure (liTracker l1)\<rparr>))"

text \<open>\<open>lagRow\<close> is the row that the second read of the cursor finds, \<open>None\<close> for a failing read.\<close>

definition applyCatchupPolicyIfNeeded ::
  "string option \<Rightarrow> int \<Rightarrow> int \<Rightarrow> head_result option \<Rightarrow> string option option \<Rightarrow> listener \<Rightarrow> (jsval, unit) res \<times> listener" where
  "applyCatchupPolicyIfNeeded origin maxCatchup now head lagRow l =
     (case request_cursor l of
        None \<Rightarrow> (Inr (), l)
      | Some cursor \<Rightarrow>
          (case head of
             Some HeadThrows \<Rightarrow> (Inl (JObj [(''message'', JStr ''head'')]), l)
           | Some (HeadLedger currentLedger) \<Rightarrow>
               (let l1 = l\<lparr>liTracker := recordChainHead now currentLedger (liTracker l), liLastHeadRefreshAt := now\<rparr>;
                    l2 = (case parseLedgerFromCursor cursor of None \<Rightarrow> l1
                          | Some ledger \<Rightarrow> l1\<lparr>liTracker := recordProcessedLedger ledger (liTracker l1)\<rparr>)
                in case lagRow of
                     None \<Rightarrow> (Inl (JObj [(''message'', JStr ''load'')]), l2)
                   | Some row \<Rightarrow>
                       (case getCursorLag origin currentLedger row of
                          None \<Rightarrow> (Inr (), l2)
                        | Some lag \<Rightarrow>
                            (let l3 = l2\<lparr>liCursorLagGauge := Some lag\<rparr>
                             in (Inr (), if lag > maxCatchup then l3\<lparr>liLastCursor := None\<rparr> else l3))))
           | _ \<Rightarrow> (Inr (), l)))"

text \<open>\<open>row\<close> is the row that the load finds, \<open>None\<close> for a failing one. The result tells whether a poll loop is started.\<close>

definition onBecameLeader ::
  "string option \<Rightarrow> int \<Rightarrow> int \<Rightarrow> head_result option \<Rightarrow> string option option \<Rightarrow> int \<Rightarrow> listener \<Rightarrow> (jsval, bool) res \<times> listener" where
  "onBecameLeader origin maxCatchup now head row fencingToken l =
     (let l1 = l\<lparr>liFencingToken := Some fencingToken\<rparr>
      in if liRunning l1 then (Inr False, l1)
         else
           (case row of
              None \<Rightarrow> (Inl (JObj [(''message'', JStr ''load'')]), l1)
            | Some r \<Rightarrow>
                (case applyCatchupPolicyIfNeeded origin maxCatchup now head row (l1\<lparr>liLastCursor := cs_load origin r\<rparr>) of
                   (Inl e, l2) \<Rightarrow> (Inl e, l2)
                 | (Inr _, l2) \<Rightarrow> (Inr True, l2\<lparr>liRunning := True\<rparr>))))"

definition onLostLeadership :: "listener \<Rightarrow> listener" where
  "onLostLeadership l = l\<lparr>liRunning := False, liFencingToken := None\<rparr>"

text \<open>The checks of \<open>start\<close>; the election is started when they pass.\<close>

definition contract_id :: "string \<Rightarrow> bool" where
  "contract_id s \<longleftrightarrow> length s = 56 \<and> s ! 0 = CHR ''C'' \<and>
     list_all (\<lambda>c. let n = (of_char c :: nat) in (65 \<le> n \<and> n \<le> 90) \<or> (50 \<le> n \<and> n \<le> 55)) (tl s)"

definition li_start :: "string \<Rightarrow> listener \<Rightarrow> (service_error, bool) res \<times> listener" where
  "li_start contractId l =
     (if liElectionStarted l then (Inr False, l)
      else if contractId = [] then (Inl (PlainError ''FACTORY_CONTRACT_ID is empty''), l)
      else if \<not> contract_id contractId then (Inl (PlainError ''FACTORY_CONTRACT_ID is malformed''), l)
      else (Inr True, l\<lparr>liElectionStarted := True\<rparr>))"

text \<open>\<open>stop\<close> up to the release of the lease; \<open>ok\<close> is false when the save fails, which is logged.\<close>

definition li_stop :: "bool \<Rightarrow> listener \<Rightarrow> listener_db \<Rightarrow> listener \<times> listener_db" where
  "li_stop ok l db =
     (l\<lparr>liRunning := False, liElectionStarted := False\<rparr>,
      case request_cursor l of
        Some cursor \<Rightarrow> if ok then db\<lparr>ldCursor := cs_save cursor (ldCursor db)\<rparr> else db
      | None \<Rightarrow> db)"

text \<open>One turn of the poll loop: what the loop waits for, or that it ends. \<open>PollThrows\<close> is the error of the
  classifier for a thrown value it cannot inspect.\<close>

datatype poll_next = PollExit | PollDelay int | PollSleep real | PollTerminal int | PollThrows

definition poll_turn ::
  "ingest_config \<Rightarrow> int \<Rightarrow> int \<Rightarrow> real \<Rightarrow> head_result option \<Rightarrow> (string option \<Rightarrow> (jsval, stellar_event list) res) \<Rightarrow> (nat \<Rightarrow> event_step)
     \<Rightarrow> listener_backoff \<Rightarrow> listener \<Rightarrow> listener_db \<Rightarrow> poll_next \<times> listener_backoff \<times> listener \<times> listener_db" where
  "poll_turn cfg interval now rnd head getEvents steps backoff l db =
     (if \<not> liRunning l then (PollExit, backoff, l, db)
      else
        (case fetchAndProcessEvents cfg getEvents steps (refreshChainHeadIfDue interval now head l) db of
           (Inr _, l1, db1) \<Rightarrow> (PollDelay POLL_INTERVAL_MS, lb_recordSuccess LISTENER_RECONNECT_CONFIG backoff, l1, db1)
         | (Inl err, l1, db1) \<Rightarrow>
             (case isRetryableError err of
                Inl _ \<Rightarrow> (PollThrows, backoff, l1, db1)
              | Inr False \<Rightarrow> (PollDelay POLL_INTERVAL_MS, lb_recordSuccess LISTENER_RECONNECT_CONFIG backoff, l1, db1)
              | Inr True \<Rightarrow>
                  (case lb_recordFailure LISTENER_RECONNECT_CONFIG rnd backoff of (backoff1, delayMs, attempt) \<Rightarrow>
                     if attempt > maxRetries LISTENER_RECONNECT_CONFIG then (PollTerminal attempt, backoff1, l1, db1)
                     else (PollSleep delayMs, backoff1,
                           l1\<lparr>liMetrics := (liMetrics l1)\<lparr>imCounters := imCounters (liMetrics l1) @ [(Kind ''reconnect'', False)]\<rparr>\<rparr>, db1)))))"

section \<open>The cursor format\<close>

lemma digits_no_dash: "list_all is_digit s \<Longrightarrow> CHR ''-'' \<notin> set s"
  by (auto simp: list_all_iff dest: is_digit_not_sign)

text \<open>The ledger of a cursor in the documented format is read back, whatever the ledger and the sequence number.\<close>

theorem cursor_ledger_roundtrip:
  "parseLedgerFromCursor (show_nat ledger @ CHR ''-'' # show_nat seq) = Some (int ledger)"
proof -
  have d: "list_all is_digit (show_nat n)" for n by (simp add: list_all_iff show_nat_digits)
  have "split_on (CHR ''-'') (show_nat ledger @ CHR ''-'' # show_nat seq) = [show_nat ledger, show_nat seq]"
    using d [of ledger] d [of seq] by (simp add: split_on_append split_on_no_sep digits_no_dash)
  then show ?thesis using d by (simp add: parseLedgerFromCursor_def)
qed

section \<open>Handling events\<close>

lemma handle_event_cases:
  "handle_event cfg v event l db = (h, l1, db1) \<Longrightarrow>
     (h = Rejected \<and> (liFencingToken l = None \<or> \<not> esValid v) \<and> db1 = db \<and> liLastCursor l1 = liLastCursor l)
     \<or> (\<exists>e. h = SaveFailed e \<and> esSaveError v = Some e \<and> ldCursor db1 = ldCursor db
          \<and> liLastCursor l1 = Some (sePagingToken event) \<and> liFencingToken l1 = liFencingToken l)
     \<or> (h = Advanced \<and> ldCursor db1 = Some (sePagingToken event) \<and> liLastCursor l1 = Some (sePagingToken event)
          \<and> liFencingToken l1 = liFencingToken l)"
  unfolding handle_event_def
  by (cases "esSaveError v"; cases "processEvent cfg (esEnv v) (seRaw event) (liMetrics l, ldProjections db)")
     (auto simp: Let_def cs_save_def emitCursorLagMetric_def split: if_splits option.splits)

definition step_ok :: "event_step \<Rightarrow> bool" where
  "step_ok v \<longleftrightarrow> esValid v \<and> esSaveError v = None"

definition advance :: "ingest_config \<Rightarrow> listener \<times> listener_db \<Rightarrow> event_step \<times> stellar_event \<Rightarrow> listener \<times> listener_db" where
  "advance cfg st ve = snd (handle_event cfg (fst ve) (snd ve) (fst st) (snd st))"

lemma handle_event_ok:
  assumes "step_ok v" and "liFencingToken l \<noteq> None"
  shows "handle_event cfg v event l db = (Advanced, advance cfg (l, db) (v, event))"
    and "liFencingToken (fst (advance cfg (l, db) (v, event))) = liFencingToken l"
    and "liLastCursor (fst (advance cfg (l, db) (v, event))) = Some (sePagingToken event)"
proof -
  obtain h l1 db1 where h: "handle_event cfg v event l db = (h, l1, db1)" by (cases "handle_event cfg v event l db")
  have "h = Advanced" "liFencingToken l1 = liFencingToken l" "liLastCursor l1 = Some (sePagingToken event)"
    using handle_event_cases [OF h] assms by (auto simp: step_ok_def)
  then show "handle_event cfg v event l db = (Advanced, advance cfg (l, db) (v, event))"
    and "liFencingToken (fst (advance cfg (l, db) (v, event))) = liFencingToken l"
    and "liLastCursor (fst (advance cfg (l, db) (v, event))) = Some (sePagingToken event)"
    by (simp_all add: advance_def h)
qed

lemma handle_events_ok:
  assumes "list_all (\<lambda>ve. step_ok (fst ve)) es" and "liFencingToken l \<noteq> None"
  shows "handle_events cfg es l db = (Inr (), foldl (advance cfg) (l, db) es)
    \<and> liFencingToken (fst (foldl (advance cfg) (l, db) es)) = liFencingToken l
    \<and> liLastCursor (fst (foldl (advance cfg) (l, db) es)) = (if es = [] then liLastCursor l else Some (sePagingToken (snd (last es))))"
  using assms
proof (induction es arbitrary: l db)
  case (Cons ve es)
  obtain v e where ve: "ve = (v, e)" by (cases ve)
  obtain l1 db1 where a: "advance cfg (l, db) (v, e) = (l1, db1)" by (cases "advance cfg (l, db) (v, e)")
  have ok: "step_ok v" using Cons.prems ve by simp
  note h = handle_event_ok [OF ok Cons.prems(2), where cfg = cfg and event = e and db = db, unfolded a]
  have "liFencingToken l1 \<noteq> None" using h(2) Cons.prems(2) by simp
  then show ?case using Cons.IH [of l1 db1] Cons.prems h ve a by simp
qed simp

text \<open>A failing projection is counted and the cursor moves past the event all the same.\<close>

lemma failed_event_is_passed:
  assumes "step_ok v" and "liFencingToken l \<noteq> None"
    and "decodeEvent (seRaw event) = normalized" and "kind_of (snd normalized) \<noteq> ''unknown''"
    and "routeEvent cfg (esEnv v) normalized (seRaw event) (ldProjections db) = (Inl e, p)"
  shows "ldCursor (snd (advance cfg (l, db) (v, event))) = Some (sePagingToken event)
    \<and> imCounters (liMetrics (fst (advance cfg (l, db) (v, event)))) = imCounters (liMetrics l) @ [(event_kind (seRaw event), False)]"
  using assms
  by (auto simp: advance_def handle_event_def processEvent_def step_ok_def Let_def cs_save_def emitCursorLagMetric_def
      split: option.split)

text \<open>A replay never reports an error.\<close>

lemma replay_counts: "fst (replayBatch cfg es st) = (length es, 0)"
proof (induction es arbitrary: st)
  case (Cons e es)
  obtain env ev where "e = (env, ev)" by (cases e)
  then show ?case using Cons.IH [of "processEvent cfg env ev st"] by (auto split: prod.splits)
qed simp

section \<open>Paging is invisible\<close>

text \<open>Horizon's log and where a cursor points in it: behind the event that has it as its paging token.\<close>

definition horizon_log :: "stellar_event list \<Rightarrow> (string \<Rightarrow> nat) \<Rightarrow> bool" where
  "horizon_log L pos \<longleftrightarrow> (\<forall>k<length L. sePagingToken (L ! k) \<noteq> [] \<and> pos (sePagingToken (L ! k)) = Suc k)"

definition position :: "(string \<Rightarrow> nat) \<Rightarrow> string option \<Rightarrow> nat" where
  "position pos c = (case c of Some s \<Rightarrow> if s = [] then 0 else pos s | None \<Rightarrow> 0)"

lemma position_None [simp]: "position pos None = 0"
  by (simp add: position_def)

lemma position_request [simp]: "position pos (request_cursor l) = position pos (liLastCursor l)"
  by (simp add: position_def request_cursor_def split: option.split)

text \<open>Polls in a row, the events numbered over all of them.\<close>

fun poll_rounds ::
  "ingest_config \<Rightarrow> (string option \<Rightarrow> (jsval, stellar_event list) res) \<Rightarrow> (nat \<Rightarrow> event_step) \<Rightarrow> nat \<Rightarrow> listener \<times> listener_db \<Rightarrow> listener \<times> listener_db" where
  "poll_rounds cfg getEvents steps 0 st = st"
| "poll_rounds cfg getEvents steps (Suc n) st =
     (let st1 = poll_rounds cfg getEvents steps n st
      in snd (fetchAndProcessEvents cfg getEvents (\<lambda>i. steps (100 * n + i)) (fst st1) (snd st1)))"

lemma numbered_append: "numbered f (xs @ ys) = numbered f xs @ numbered (\<lambda>i. f (length xs + i)) ys"
proof -
  have "map f [0..<length (xs @ ys)] = map f [0..<length xs] @ map (\<lambda>i. f (length xs + i)) [0..<length ys]"
    by (rule nth_equalityI) (auto simp: nth_append)
  then show ?thesis by (simp add: numbered_def del: map_append)
qed

lemma numbered_Nil [simp]: "numbered f [] = []" "numbered f xs = [] \<longleftrightarrow> xs = []"
  by (auto simp: numbered_def)

lemma numbered_snds: "snd ` set (numbered f xs) = set xs" and numbered_last: "xs \<noteq> [] \<Longrightarrow> snd (last (numbered f xs)) = last xs"
proof -
  have m: "map snd (numbered f xs) = xs" by (simp add: numbered_def)
  then show "snd ` set (numbered f xs) = set xs" by (metis list.set_map)
  show "snd (last (numbered f xs)) = last xs" if "xs \<noteq> []" using m that by (metis last_map numbered_Nil(2))
qed

lemma numbered_ok: "(\<And>i. step_ok (steps i)) \<Longrightarrow> list_all (\<lambda>ve. step_ok (fst ve)) (numbered steps xs)"
  by (auto simp: numbered_def list_all_iff dest!: set_zip_leftD)

text \<open>C10: Paging is invisible: with Horizon answering at most a hundred events after the cursor, n polls handle exactly the
  next 100 n events of the log, each once and in order, as a single pass over the log would, and leave the
  cursor behind the last of them.\<close>

theorem polls_equal_one_pass:
  assumes "horizon_log L pos" and "\<And>c. getEvents c = Inr (take 100 (drop (position pos c) L))"
    and "\<And>i. step_ok (steps i)" and "liFencingToken l \<noteq> None" and "position pos (liLastCursor l) \<le> length L"
  shows "poll_rounds cfg getEvents steps n (l, db) =
    foldl (advance cfg) (l, db) (numbered steps (take (100 * n) (drop (position pos (liLastCursor l)) L)))"
proof (induction n)
  case (Suc n)
  define p where "p = position pos (liLastCursor l)"
  define handled where "handled = take (100 * n) (drop p L)"
  define st where "st = foldl (advance cfg) (l, db) (numbered steps handled)"
  have IH: "poll_rounds cfg getEvents steps n (l, db) = st" using Suc by (simp add: st_def handled_def p_def)
  have token: "liFencingToken (fst st) \<noteq> None"
    and cursor: "liLastCursor (fst st) = (if handled = [] then liLastCursor l else Some (sePagingToken (last handled)))"
    using handle_events_ok [OF numbered_ok [of steps handled, OF assms(3)] assms(4), where cfg = cfg and db = db] assms(4)
    by (simp_all add: st_def numbered_last)
  have pos: "position pos (liLastCursor (fst st)) = p + length handled"
  proof (cases "handled = []")
    case False
    then have "last handled = L ! (p + length handled - 1)" "p + length handled - 1 < length L"
      using assms(5) by (auto simp: handled_def p_def last_conv_nth)
    then show ?thesis using False assms(1) cursor by (simp add: position_def horizon_log_def)
  qed (simp add: cursor p_def)
  define events where "events = take 100 (drop (p + length handled) L)"
  have "getEvents (request_cursor (fst st)) = Inr events"
    unfolding assms(2) position_request pos events_def ..
  then have fetch: "snd (fetchAndProcessEvents cfg getEvents (\<lambda>i. steps (100 * n + i)) (fst st) (snd st))
      = foldl (advance cfg) st (numbered (\<lambda>i. steps (100 * n + i)) events)"
    using handle_events_ok [OF numbered_ok [of "\<lambda>i. steps (100 * n + i)" events, OF assms(3)] token, where cfg = cfg and db = "snd st"]
    by (simp add: fetchAndProcessEvents_def)
  have page: "numbered steps handled @ numbered (\<lambda>i. steps (100 * n + i)) events = numbered steps (take (100 * Suc n) (drop p L))"
  proof (cases "length handled = 100 * n")
    case True
    have "take (100 * n + 100) (drop p L) = handled @ events"
      unfolding take_add using True by (simp add: handled_def events_def add.commute)
    then have "take (100 * Suc n) (drop p L) = handled @ events" by (simp add: add.commute)
    then show ?thesis using True by (simp add: numbered_append)
  next
    case False
    then have "length (drop p L) < 100 * n" by (auto simp: handled_def)
    then have "events = []" "take (100 * Suc n) (drop p L) = handled"
      using assms(5) by (simp_all add: events_def handled_def p_def)
    then show ?thesis by simp
  qed
  show ?case
    unfolding poll_rounds.simps Let_def IH fetch p_def [symmetric] page [symmetric] foldl_append st_def [symmetric] ..
qed simp

definition quiet_env :: event_env where
  "quiet_env = \<lparr>evNow = 0, evOk = True, evOk2 = True, evId = ''r'', evHook = True, evFee = (\<lambda>_. Inr ()), evAllow = (\<lambda>_. Inr ())\<rparr>"

definition quiet_step :: event_step where
  "quiet_step = \<lparr>esEnv = quiet_env, esValid = True, esSaveError = None\<rparr>"

definition demo_config :: ingest_config where
  "demo_config = \<lparr>icSdkText = (\<lambda>_. []), icCloseMs = (\<lambda>_. 0)\<rparr>"

definition demo_event :: "string \<Rightarrow> string \<Rightarrow> stellar_event" where
  "demo_event topic token = \<lparr>seRaw = \<lparr>rawLedger = 7, rawCloseTime = [], rawContractId = ''C'', rawTopic = [topic],
     rawValue = JUndef, rawTxHash = token\<rparr>, sePagingToken = token\<rparr>"

definition demo_log :: "stellar_event list" where
  "demo_log = [demo_event ''x'' ''1-1'', demo_event ''y'' ''2-1'']"

definition demo_pos :: "string \<Rightarrow> nat" where
  "demo_pos c = (if c = ''1-1'' then 1 else if c = ''2-1'' then 2 else 0)"

definition new_listener :: listener where
  "new_listener = \<lparr>liRunning = False, liElectionStarted = False, liFencingToken = None, liLastCursor = None,
     liMetrics = \<lparr>imLag = new_lag_state, imCounters = []\<rparr>, liTracker = new_lag_tracker, liCursorLagGauge = None,
     liLastHeadRefreshAt = 0\<rparr>"

definition empty_db :: listener_db where
  "empty_db = \<lparr>ldCursor = None, ldProjections = \<lparr>pjTokens = \<lparr>tdTokens = [], tdBurns = [], tdPublished = []\<rparr>,
     pjGov = \<lparr>gdProposals = [], gdVotes = [], gdExecutions = []\<rparr>, pjStreams = \<lparr>sbStreams = [], sbWithdrawals = []\<rparr>, pjWebhooks = []\<rparr>\<rparr>"

lemma demo_horizon: "horizon_log demo_log demo_pos"
  by (simp add: horizon_log_def demo_log_def demo_pos_def demo_event_def less_Suc_eq)

theorem polls_equal_one_pass_witness:
  "poll_rounds demo_config (\<lambda>c. Inr (take 100 (drop (position demo_pos c) demo_log))) (\<lambda>_. quiet_step) 3
      (new_listener\<lparr>liFencingToken := Some 4\<rparr>, empty_db) =
   foldl (advance demo_config) (new_listener\<lparr>liFencingToken := Some 4\<rparr>, empty_db) (numbered (\<lambda>_. quiet_step) demo_log)"
  using polls_equal_one_pass [OF demo_horizon, of "\<lambda>c. Inr (take 100 (drop (position demo_pos c) demo_log))"
      "\<lambda>_. quiet_step" "new_listener\<lparr>liFencingToken := Some 4\<rparr>" demo_config 3 empty_db]
  by (simp add: step_ok_def quiet_step_def new_listener_def position_def demo_log_def)

section \<open>Several instances\<close>

text \<open>
  Every instance keeps a listener, and any number of poll loops of it hold the rest of a page. The log is the one
  that Horizon has in the end, so a page is any number of events behind the cursor. A crash loses the
  process; between two events of a page anything can happen. The verdicts on fencing tokens are arbitrary.
  \<open>syHanded\<close> records the events given to the projections.
\<close>

record 'i listen_sys =
  syDb :: listener_db
  syInst :: "'i \<Rightarrow> listener"
  syPage :: "'i \<times> nat \<Rightarrow> stellar_event list"
  syHanded :: "stellar_event list"

inductive listen_step ::
  "ingest_config \<Rightarrow> string option \<Rightarrow> stellar_event list \<Rightarrow> (string \<Rightarrow> nat) \<Rightarrow> 'i listen_sys \<Rightarrow> 'i listen_sys \<Rightarrow> bool"
  for cfg :: ingest_config and origin :: "string option" and L :: "stellar_event list" and pos :: "string \<Rightarrow> nat" where
  Fetch: "syPage s (i, n) = [] \<Longrightarrow>
    listen_step cfg origin L pos s (s\<lparr>syPage := (syPage s)((i, n) := take m (drop (position pos (request_cursor (syInst s i))) L))\<rparr>)"
| Handle: "syPage s (i, n) = e # es \<Longrightarrow> handle_event cfg v e (syInst s i) (syDb s) = (h, l, db) \<Longrightarrow>
    listen_step cfg origin L pos s (s\<lparr>syDb := db, syInst := (syInst s)(i := l),
      syPage := (syPage s)((i, n) := (if h = Advanced then es else [])),
      syHanded := (if h = Rejected then syHanded s else syHanded s @ [e])\<rparr>)"
| Elected: "row \<in> {None, Some (ldCursor (syDb s))} \<Longrightarrow> onBecameLeader origin maxCatchup now head row token (syInst s i) = (r, l) \<Longrightarrow>
    listen_step cfg origin L pos s (s\<lparr>syInst := (syInst s)(i := l)\<rparr>)"
| Lost: "listen_step cfg origin L pos s (s\<lparr>syInst := (syInst s)(i := onLostLeadership (syInst s i))\<rparr>)"
| Start: "li_start contractId (syInst s i) = (r, l) \<Longrightarrow> listen_step cfg origin L pos s (s\<lparr>syInst := (syInst s)(i := l)\<rparr>)"
| Stop: "li_stop ok (syInst s i) (syDb s) = (l, db) \<Longrightarrow> listen_step cfg origin L pos s (s\<lparr>syDb := db, syInst := (syInst s)(i := l)\<rparr>)"
| Crash: "listen_step cfg origin L pos s (s\<lparr>syInst := (syInst s)(i := new_listener),
      syPage := (\<lambda>k. if fst k = i then [] else syPage s k)\<rparr>)"

definition listen_init :: "projections \<Rightarrow> 'i listen_sys" where
  "listen_init p = \<lparr>syDb = \<lparr>ldCursor = None, ldProjections = p\<rparr>, syInst = (\<lambda>_. new_listener), syPage = (\<lambda>_. []), syHanded = []\<rparr>"

text \<open>All events between the configured origin and position \<open>k\<close> have been handed over.\<close>

definition covered :: "string option \<Rightarrow> stellar_event list \<Rightarrow> (string \<Rightarrow> nat) \<Rightarrow> stellar_event list \<Rightarrow> nat \<Rightarrow> bool" where
  "covered origin L pos handed k \<longleftrightarrow> (\<forall>j. position pos origin \<le> j \<and> j < k \<and> j < length L \<longrightarrow> L ! j \<in> set handed)"

definition page_ok :: "string option \<Rightarrow> stellar_event list \<Rightarrow> (string \<Rightarrow> nat) \<Rightarrow> stellar_event list \<Rightarrow> stellar_event list \<Rightarrow> bool" where
  "page_ok origin L pos handed page \<longleftrightarrow> (\<exists>a m. page = take m (drop a L) \<and> covered origin L pos handed a)"

definition listen_inv :: "string option \<Rightarrow> stellar_event list \<Rightarrow> (string \<Rightarrow> nat) \<Rightarrow> 'i listen_sys \<Rightarrow> bool" where
  "listen_inv origin L pos s \<longleftrightarrow>
     covered origin L pos (syHanded s) (position pos (cs_load origin (ldCursor (syDb s)))) \<and>
     (\<forall>i. covered origin L pos (syHanded s) (position pos (liLastCursor (syInst s i)))) \<and>
     (\<forall>k. page_ok origin L pos (syHanded s) (syPage s k))"

lemma covered_mono: "covered origin L pos handed k \<Longrightarrow> set handed \<subseteq> set handed' \<Longrightarrow> covered origin L pos handed' k"
  by (auto simp: covered_def)

lemma page_ok_mono: "page_ok origin L pos handed page \<Longrightarrow> set handed \<subseteq> set handed' \<Longrightarrow> page_ok origin L pos handed' page"
  unfolding page_ok_def using covered_mono by blast

lemma covered_start [simp]: "covered origin L pos handed 0" "covered origin L pos handed (position pos origin)"
  by (auto simp: covered_def)

lemma page_ok_Nil [simp]: "page_ok origin L pos handed []"
  unfolding page_ok_def by (rule exI [of _ 0], rule exI [of _ 0]) simp

lemma page_head:
  assumes "page_ok origin L pos handed (e # es)" and "horizon_log L pos"
  shows "covered origin L pos (handed @ [e]) (position pos (Some (sePagingToken e))) \<and> page_ok origin L pos (handed @ [e]) es"
proof -
  obtain a m where page: "e # es = take m (drop a L)" and cov: "covered origin L pos handed a"
    using assms(1) by (auto simp: page_ok_def)
  have a: "a < length L" using page by (cases "a < length L") auto
  have m: "m = Suc (m - 1)" using page by (cases m) auto
  have drop: "drop a L = L ! a # drop (Suc a) L" using a by (rule Cons_nth_drop_Suc [symmetric])
  have e: "e = L ! a" and es: "es = take (m - 1) (drop (Suc a) L)"
    using page unfolding drop by (subst (asm) m, simp)+
  have cov': "covered origin L pos (handed @ [e]) (Suc a)"
    using cov by (auto simp: covered_def e less_Suc_eq)
  moreover have "position pos (Some (sePagingToken e)) = Suc a"
    using assms(2) a by (simp add: horizon_log_def position_def e)
  ultimately show ?thesis unfolding page_ok_def es by auto
qed

lemma becameLeader_cursor:
  "onBecameLeader origin maxCatchup now head row token l = (r, l1) \<Longrightarrow>
     liLastCursor l1 \<in> {liLastCursor l, None} \<union> (case row of Some x \<Rightarrow> {cs_load origin x} | None \<Rightarrow> {})"
  by (auto simp: onBecameLeader_def applyCatchupPolicyIfNeeded_def Let_def split: if_splits option.splits head_result.splits)

lemma listen_step_inv:
  assumes "listen_step cfg origin L pos s s'" and "horizon_log L pos" and "listen_inv origin L pos s"
  shows "listen_inv origin L pos s'"
  using assms(1)
proof cases
  case (Fetch i n m)
  then show ?thesis using assms(3) by (auto simp: listen_inv_def page_ok_def)
next
  case (Handle i n e es v h l db)
  have page: "page_ok origin L pos (syHanded s) (e # es)" using assms(3) Handle(2) by (metis listen_inv_def)
  note ph = page_head [OF page assms(2)]
  have mono: "set (syHanded s) \<subseteq> set (syHanded s @ [e])" by auto
  consider (rejected) "h = Rejected" "db = syDb s" "liLastCursor l = liLastCursor (syInst s i)"
    | (unsaved) err where "h = SaveFailed err" "ldCursor db = ldCursor (syDb s)" "liLastCursor l = Some (sePagingToken e)"
    | (advanced) "h = Advanced" "ldCursor db = Some (sePagingToken e)" "liLastCursor l = Some (sePagingToken e)"
    using handle_event_cases [OF Handle(3)] by blast
  then show ?thesis
  proof cases
    case rejected
    then show ?thesis using assms(3) Handle(1) by (auto simp: listen_inv_def)
  next
    case unsaved
    then show ?thesis using assms(3) Handle(1) ph covered_mono [OF _ mono] page_ok_mono [OF _ mono] by (auto simp: listen_inv_def)
  next
    case advanced
    then show ?thesis using assms(3) Handle(1) ph covered_mono [OF _ mono] page_ok_mono [OF _ mono]
      by (auto simp: listen_inv_def cs_load_def)
  qed
next
  case (Elected row maxCatchup now head token i r l)
  have "covered origin L pos (syHanded s) (position pos (liLastCursor l))"
    using becameLeader_cursor [OF Elected(3)] Elected(2) assms(3) by (auto simp: listen_inv_def position_def)
  then show ?thesis using assms(3) Elected(1) by (simp add: listen_inv_def)
next
  case (Lost i)
  then show ?thesis using assms(3) by (simp add: listen_inv_def onLostLeadership_def)
next
  case (Start contractId i r l)
  then have "liLastCursor l = liLastCursor (syInst s i)" by (auto simp: li_start_def split: if_splits)
  then show ?thesis using assms(3) Start(1) by (simp add: listen_inv_def)
next
  case (Stop ok i l db)
  have "liLastCursor l = liLastCursor (syInst s i)" using Stop(2) by (auto simp: li_stop_def)
  moreover have "ldCursor db = ldCursor (syDb s) \<or> ldCursor db = liLastCursor (syInst s i)"
    using Stop(2) by (auto simp: li_stop_def cs_save_def request_cursor_def split: option.splits if_splits)
  moreover have "cs_load origin (liLastCursor (syInst s i)) = origin \<or> cs_load origin (liLastCursor (syInst s i)) = liLastCursor (syInst s i)"
    by (auto simp: cs_load_def split: option.split)
  ultimately show ?thesis using assms(3) Stop(1) by (auto simp: listen_inv_def)
next
  case (Crash i)
  then show ?thesis using assms(3) by (auto simp: listen_inv_def new_listener_def position_def)
qed

lemma listen_run_inv:
  assumes "(listen_step cfg origin L pos)\<^sup>*\<^sup>* (listen_init p) s" and "horizon_log L pos"
  shows "listen_inv origin L pos s"
  using assms(1)
proof (induction rule: rtranclp_induct)
  case base
  show ?case by (simp add: listen_inv_def listen_init_def cs_load_def new_listener_def)
qed (rule listen_step_inv [OF _ assms(2)])


text \<open>One instance is elected, fetches a page and handles its first event.\<close>

definition demo_leader :: listener where
  "demo_leader = new_listener\<lparr>liFencingToken := Some 1, liRunning := True\<rparr>"

definition listen_demo :: "unit listen_sys" where
  "listen_demo =
     (let st = advance demo_config (demo_leader, empty_db) (quiet_step, demo_event ''x'' ''1-1'')
      in \<lparr>syDb = snd st, syInst = (\<lambda>_. fst st), syPage = (\<lambda>_. [])((() , 0) := [demo_event ''y'' ''2-1'']),
          syHanded = [demo_event ''x'' ''1-1'']\<rparr>)"

lemma listen_demo_reach:
  "(listen_step demo_config None demo_log demo_pos)\<^sup>*\<^sup>* (listen_init (ldProjections empty_db)) listen_demo"
proof -
  let ?R = "listen_step demo_config None demo_log demo_pos :: unit listen_sys \<Rightarrow> unit listen_sys \<Rightarrow> bool"
  define s0 :: "unit listen_sys" where "s0 = listen_init (ldProjections empty_db)"
  define s1 where "s1 = s0\<lparr>syInst := (syInst s0)(() := demo_leader)\<rparr>"
  define s2 where "s2 = s1\<lparr>syPage := (syPage s1)(((), 0) := take 100 (drop (position demo_pos (request_cursor (syInst s1 ()))) demo_log))\<rparr>"
  have e1: "?R s0 s1" unfolding s1_def
    by (rule Elected [where row = "Some None" and token = 1 and maxCatchup = 1000 and now = 0 and head = None and r = "Inr True"])
       (simp_all add: s0_def listen_init_def onBecameLeader_def applyCatchupPolicyIfNeeded_def new_listener_def
          demo_leader_def request_cursor_def cs_load_def Let_def)
  have e2: "?R s1 s2" unfolding s2_def
    by (rule Fetch) (simp add: s1_def s0_def listen_init_def)
  have e3: "?R s2 listen_demo"
  proof -
    have page: "syPage s2 ((), 0) = demo_event ''x'' ''1-1'' # [demo_event ''y'' ''2-1'']"
      by (simp add: s2_def s1_def demo_leader_def new_listener_def demo_log_def request_cursor_def)
    have inst: "syInst s2 () = demo_leader" and db: "syDb s2 = empty_db"
      by (simp_all add: s2_def s1_def s0_def listen_init_def empty_db_def)
    have h: "handle_event demo_config quiet_step (demo_event ''x'' ''1-1'') (syInst s2 ()) (syDb s2) =
        (Advanced, fst (advance demo_config (demo_leader, empty_db) (quiet_step, demo_event ''x'' ''1-1'')),
          snd (advance demo_config (demo_leader, empty_db) (quiet_step, demo_event ''x'' ''1-1'')))"
      unfolding inst db using handle_event_ok(1) [of quiet_step demo_leader demo_config "demo_event ''x'' ''1-1''" empty_db]
      by (simp add: step_ok_def quiet_step_def demo_leader_def)
    have "listen_demo = s2\<lparr>syDb := snd (advance demo_config (demo_leader, empty_db) (quiet_step, demo_event ''x'' ''1-1'')),
        syInst := (syInst s2)(() := fst (advance demo_config (demo_leader, empty_db) (quiet_step, demo_event ''x'' ''1-1''))),
        syPage := (syPage s2)(((), 0) := (if Advanced = Advanced then [demo_event ''y'' ''2-1''] else [])),
        syHanded := (if Advanced = Rejected then syHanded s2 else syHanded s2 @ [demo_event ''x'' ''1-1''])\<rparr>"
      by (simp add: listen_demo_def Let_def s2_def s1_def s0_def listen_init_def fun_eq_iff)
    then show ?thesis using Handle [OF page h, of None demo_log demo_pos] by simp
  qed
  show ?thesis unfolding s0_def [symmetric]
    by (rule rtranclp.rtrancl_into_rtrancl [OF rtranclp.rtrancl_into_rtrancl [OF r_into_rtranclp [of ?R, OF e1] e2] e3])
qed


section \<open>Where the listener falls short\<close>

text \<open>A stop writes the cursor in memory, whoever leads by then.\<close>

lemma stop_ignores_fencing:
  "request_cursor l = Some c \<Longrightarrow> ldCursor (snd (li_stop True (l\<lparr>liFencingToken := None\<rparr>) db)) = Some c"
  by (simp add: li_stop_def cs_save_def request_cursor_def split: option.splits if_splits)

text \<open>An instance that loses and regains the leadership while its loop waits starts a second loop, and the first goes on.\<close>

lemma regained_leadership_starts_second_loop:
  assumes "cs_load origin r = None"
  shows "\<exists>l1. onBecameLeader origin maxCatchup now head (Some r) token (onLostLeadership l) = (Inr True, l1)
    \<and> fst (poll_turn cfg interval now' rnd head' getEvents steps backoff l1 db) \<noteq> PollExit"
proof -
  define l1 where "l1 = l\<lparr>liRunning := True, liFencingToken := Some token, liLastCursor := None\<rparr>"
  have "onBecameLeader origin maxCatchup now head (Some r) token (onLostLeadership l) = (Inr True, l1)"
    by (simp add: onBecameLeader_def onLostLeadership_def applyCatchupPolicyIfNeeded_def request_cursor_def assms l1_def Let_def)
  moreover have "fst (poll_turn cfg interval now' rnd head' getEvents steps backoff l1 db) \<noteq> PollExit"
    by (auto simp: poll_turn_def l1_def split: prod.split sum.split bool.split)
  ultimately show ?thesis by blast
qed

text \<open>A failing load of the cursor leaves an elected instance that does not ingest.\<close>

lemma failed_load_leaves_idle_leader:
  assumes "\<not> liRunning l" and "onBecameLeader origin maxCatchup now head None token l = (r, l1)"
  shows "(\<exists>e. r = Inl e) \<and> \<not> liRunning l1 \<and> liFencingToken l1 = Some token"
  using assms by (auto simp: onBecameLeader_def Let_def)

text \<open>The catch-up policy asks for the whole history again.\<close>

lemma catchup_restarts_from_origin:
  assumes "request_cursor l = Some c" and "head = Some (HeadLedger n)" and "getCursorLag origin n row = Some lag" and "lag > maxCatchup"
    and "applyCatchupPolicyIfNeeded origin maxCatchup now head (Some row) l = (r, l1)"
  shows "request_cursor l1 = None"
  using assms by (auto simp: applyCatchupPolicyIfNeeded_def request_cursor_def Let_def split: option.splits)

text \<open>Vault events reach no stream, since the parsers reject every record of Horizon's answer.\<close>

lemma vault_events_dropped: "projectVault cfg env event p = (Inr (), p)"
  by (simp add: projectVault_def processStreamOrVaultEvent_def Let_def parseVaultCreatedEvent_def parseVaultClaimedEvent_def
      parseVaultCancelledEvent_def parseVaultMetadataUpdatedEvent_def parse_named_def event_name_def)

text \<open>A metadata event, if it were parsed, would erase the metadata: the text is not passed on.\<close>

lemma metadata_event_erases:
  assumes "topic0_of event = ''vlt_md_v1''" and "parseVaultMetadataUpdatedEvent sdk input (closeMs div 1000) = Some (VaultMetadataUpdatedEv v i u b t)"
    and "i \<in> srStreamId ` set (sbStreams db)"
  shows "\<forall>s\<in>set (sbStreams (snd (processStreamOrVaultEvent sdk True ok2 closeMs input event db))). srStreamId s = i \<longrightarrow> srMetadata s = None"
  using assms
  by (auto simp: processStreamOrVaultEvent_def stream_parseEvent_def parseMetadataUpdatedEvent_def updateStream_def Let_def)

text \<open>A token without decimals is stored with 0 and announced with 7.\<close>

lemma zero_decimals_announced_as_seven:
  assumes "fld event ''decimals'' = JNum 0" and "topic0_of event = ''tok_reg''"
  shows "map_option (\<lambda>r. js_prop (JObj (snd r)) ''decimals'') (toRawTokenEvent event) = Some (JNum 0)
    \<and> js_prop (extractEventData event (Some TOKEN_CREATED)) ''decimals'' = JNum 7"
  using assms by (simp add: toRawTokenEvent_def extractEventData_def baseData_def js_or_def)

text \<open>Campaign events are counted as successes and change no projection.\<close>

lemma campaign_events_not_projected:
  assumes "topic0_of event \<in> {''camp_cr_v1'', ''camp_cr'', ''camp_ex_v1'', ''camp_ex'', ''camp_st_v1'', ''camp_st''}"
  shows "routeEvent cfg env (decodeEvent event) event p = (Inr (), p)"
  using assms
  by (elim insertE emptyE) (simp_all add: routeEvent_def decodeEvent_def TOPIC_KIND_def DECODERS_def decode_campaign_created_def
      decode_campaign_executed_def decode_campaign_status_changed_def projectToken_def toRawTokenEvent_def kindToWebhookType_def)

text \<open>No event reaches the two parsers that do not exist.\<close>

lemma missing_parsers_unreachable:
  "routeEvent cfg (env\<lparr>evFee := f, evAllow := g\<rparr>) (decodeEvent event) event p = routeEvent cfg env (decodeEvent event) event p"
proof -
  have "kind_of (snd (decodeEvent event)) \<in> insert ''unknown'' (snd ` set TOPIC_KIND)"
    using decoders_kind by (auto simp: decodeEvent_def list_all_iff split: option.split dest!: map_of_SomeD) force
  then have "\<not> (kind_of (snd (decodeEvent event)) = ''fee_updated'' \<or> kind_of (snd (decodeEvent event)) = ''fee_change'')
      \<and> \<not> (starts_with (kind_of (snd (decodeEvent event))) ''allowlist_'' \<or> kind_of (snd (decodeEvent event)) = ''whitelist_mode_updated'')"
    by (auto simp: TOPIC_KIND_def)
  moreover have "projectGovernance (env\<lparr>evFee := f, evAllow := g\<rparr>) event p = projectGovernance env event p"
    by (auto simp: projectGovernance_def split: sum.split option.split)
  moreover have "projectVault cfg (env\<lparr>evFee := f, evAllow := g\<rparr>) event p = projectVault cfg env event p"
    by (simp add: projectVault_def)
  moreover have "projectToken (env\<lparr>evFee := f, evAllow := g\<rparr>) k event p = projectToken env k event p" for k
    by (auto simp: projectToken_def split: option.split sum.split prod.split)
  ultimately show ?thesis by (simp add: routeEvent_def Let_def)
qed

section \<open>The poll loop\<close>



end
