(* ===== verification/Projection_Snapshot.thy ===== *)
theory Projection_Snapshot
  imports JS_Value "HOL-Library.List_Lexorder" "HOL-Library.Char_ord"
begin

text \<open>
  \<open>backend/src/services/projectionSnapshot.ts\<close>: the capture of the campaign, governance and stream projections at a ledger,
  the choice of a snapshot to resume from, and its restoration.

  A table is a list of rows, and a row lists its columns in alphabetical order; the columns with their types, the
  unique keys and the foreign keys are those of \<open>prisma/schema.prisma\<close>. A date is its time in milliseconds;
  \<open>iso_text\<close> prints it and \<open>date_of\<close> reads it.
\<close>

section \<open>Tables\<close>

datatype dbval = PlainV jsval | BigV int | DateV int

type_synonym db_row = "(string \<times> dbval) list"
type_synonym db_tables = "string \<Rightarrow> db_row list"

datatype column_kind = PlainC | BigC | DateC

text \<open>A column is its name, its kind and whether it can be null.\<close>

type_synonym column = "string \<times> column_kind \<times> bool"

definition Campaign_columns :: "column list" where
  "Campaign_columns =
     [(''campaignId'', PlainC, False), (''cancelledAt'', DateC, True), (''completedAt'', DateC, True), (''createdAt'', DateC, False),
      (''creator'', PlainC, False), (''currentAmount'', BigC, False), (''endTime'', DateC, True), (''executionCount'', PlainC, False),
      (''id'', PlainC, False), (''metadata'', PlainC, True), (''pausedAt'', DateC, True), (''startTime'', DateC, False),
      (''status'', PlainC, False), (''targetAmount'', BigC, False), (''tokenId'', PlainC, False), (''txHash'', PlainC, False),
      (''type'', PlainC, False), (''updatedAt'', DateC, False)]"

definition CampaignExecution_columns :: "column list" where
  "CampaignExecution_columns =
     [(''amount'', BigC, False), (''campaignId'', PlainC, False), (''executedAt'', DateC, False), (''executor'', PlainC, False),
      (''id'', PlainC, False), (''recipient'', PlainC, True), (''txHash'', PlainC, False)]"

definition CampaignAuditTrail_columns :: "column list" where
  "CampaignAuditTrail_columns =
     [(''actor'', PlainC, False), (''campaignId'', PlainC, False), (''fromStatus'', PlainC, False), (''id'', PlainC, False),
      (''toStatus'', PlainC, False), (''transitionAt'', DateC, False), (''txHash'', PlainC, True)]"

definition Proposal_columns :: "column list" where
  "Proposal_columns =
     [(''cancelReason'', PlainC, True), (''cancelledAt'', DateC, True), (''canceller'', PlainC, True), (''createdAt'', DateC, False),
      (''description'', PlainC, True), (''endTime'', DateC, False), (''executedAt'', DateC, True), (''id'', PlainC, False),
      (''metadata'', PlainC, True), (''proposalId'', PlainC, False), (''proposalType'', PlainC, False), (''proposer'', PlainC, False),
      (''quorum'', BigC, False), (''startTime'', DateC, False), (''status'', PlainC, False), (''threshold'', BigC, False),
      (''title'', PlainC, False), (''tokenId'', PlainC, False), (''txHash'', PlainC, False), (''updatedAt'', DateC, False)]"

definition Vote_columns :: "column list" where
  "Vote_columns =
     [(''id'', PlainC, False), (''proposalId'', PlainC, False), (''reason'', PlainC, True), (''support'', PlainC, False),
      (''timestamp'', DateC, False), (''txHash'', PlainC, False), (''voter'', PlainC, False), (''weight'', BigC, False)]"

definition ProposalExecution_columns :: "column list" where
  "ProposalExecution_columns =
     [(''executedAt'', DateC, False), (''executor'', PlainC, False), (''gasUsed'', BigC, True), (''id'', PlainC, False),
      (''proposalId'', PlainC, False), (''returnData'', PlainC, True), (''success'', PlainC, False), (''txHash'', PlainC, False)]"

definition Stream_columns :: "column list" where
  "Stream_columns =
     [(''amount'', BigC, False), (''cancelledAt'', DateC, True), (''claimedAt'', DateC, True), (''createdAt'', DateC, False),
      (''creator'', PlainC, False), (''id'', PlainC, False), (''metadata'', PlainC, True), (''recipient'', PlainC, False),
      (''status'', PlainC, False), (''streamId'', PlainC, False), (''txHash'', PlainC, False)]"

definition columns_of :: "string \<Rightarrow> column list" where
  "columns_of t =
     (if t = ''Campaign'' then Campaign_columns else if t = ''CampaignExecution'' then CampaignExecution_columns
      else if t = ''CampaignAuditTrail'' then CampaignAuditTrail_columns else if t = ''Proposal'' then Proposal_columns
      else if t = ''Vote'' then Vote_columns else if t = ''ProposalExecution'' then ProposalExecution_columns
      else if t = ''Stream'' then Stream_columns else [])"

definition unique_keys :: "string \<Rightarrow> string list list" where
  "unique_keys t =
     (if t = ''Campaign'' then [[''id''], [''campaignId''], [''txHash'']]
      else if t = ''Proposal'' then [[''id''], [''proposalId''], [''txHash'']]
      else if t = ''Vote'' then [[''id''], [''txHash''], [''proposalId'', ''voter'']]
      else if t = ''Stream'' then [[''id''], [''streamId''], [''txHash'']]
      else if t = ''CampaignAuditTrail'' then [[''id'']] else [[''id''], [''txHash'']])"

text \<open>A table, its column, and the table whose \<open>id\<close> that refers to; all are \<open>ON DELETE RESTRICT\<close>.\<close>

definition FOREIGN_KEYS :: "(string \<times> string \<times> string) list" where
  "FOREIGN_KEYS =
     [(''CampaignExecution'', ''campaignId'', ''Campaign''), (''CampaignAuditTrail'', ''campaignId'', ''Campaign''),
      (''Vote'', ''proposalId'', ''Proposal''), (''ProposalExecution'', ''proposalId'', ''Proposal''), (''BurnRecord'', ''tokenId'', ''Token''),
      (''Analytics'', ''tokenId'', ''Token''), (''DividendPool'', ''tokenId'', ''Token''),
      (''TokenGovernanceRegistration'', ''tokenId'', ''Token'')]"

definition scalar :: "jsval \<Rightarrow> bool" where
  "scalar v \<longleftrightarrow> (case v of JNum _ \<Rightarrow> True | JStr _ \<Rightarrow> True | JBool _ \<Rightarrow> True | _ \<Rightarrow> False)"

definition cell_ok :: "column \<Rightarrow> string \<times> dbval \<Rightarrow> bool" where
  "cell_ok c p \<longleftrightarrow> (case c of (n, kind, nullable) \<Rightarrow> fst p = n \<and>
     (case snd p of
        PlainV JNull \<Rightarrow> nullable
      | PlainV v \<Rightarrow> kind = PlainC \<and> scalar v
      | BigV _ \<Rightarrow> kind = BigC
      | DateV _ \<Rightarrow> kind = DateC))"

definition row_ok :: "string \<Rightarrow> db_row \<Rightarrow> bool" where
  "row_ok t row \<longleftrightarrow> list_all2 cell_ok (columns_of t) row"

definition row_key :: "string list \<Rightarrow> db_row \<Rightarrow> dbval option list" where
  "row_key cols row = map (map_of row) cols"

definition parents_exist :: "db_tables \<Rightarrow> string \<Rightarrow> db_row \<Rightarrow> bool" where
  "parents_exist db t row \<longleftrightarrow>
     (\<forall>(child, col, parent)\<in>set FOREIGN_KEYS. child = t \<longrightarrow> map_of row col \<in> (\<lambda>r. map_of r ''id'') ` set (db parent))"

text \<open>\<open>delegate.create\<close>: a value of another type, a duplicate key or a missing parent is an error.\<close>

definition create_row :: "string \<Rightarrow> db_row \<Rightarrow> db_tables \<Rightarrow> (service_error, unit) res \<times> db_tables" where
  "create_row t row db =
     (if \<not> row_ok t row then (Inl (DatabaseError ''invalid value''), db)
      else if \<exists>cols\<in>set (unique_keys t). row_key cols row \<in> row_key cols ` set (db t) then (Inl (DatabaseError ''unique constraint''), db)
      else if \<not> parents_exist db t row then (Inl (DatabaseError ''foreign key constraint''), db)
      else (Inr (), db(t := db t @ [row])))"

text \<open>A transaction of \<open>deleteMany\<close> calls, which a row that refers to a deleted one makes fail as a whole.\<close>

fun delete_tables :: "string list \<Rightarrow> db_tables \<Rightarrow> db_tables option" where
  "delete_tables [] db = Some db"
| "delete_tables (t # ts) db =
     (if db t \<noteq> [] \<and> (\<exists>(child, col, parent)\<in>set FOREIGN_KEYS. parent = t \<and> db child \<noteq> []) then None
      else delete_tables ts (db(t := [])))"

definition delete_transaction :: "string list \<Rightarrow> db_tables \<Rightarrow> (service_error, unit) res \<times> db_tables" where
  "delete_transaction ts db =
     (case delete_tables ts db of Some db' \<Rightarrow> (Inr (), db') | None \<Rightarrow> (Inl (DatabaseError ''foreign key constraint''), db))"

section \<open>Capture\<close>

datatype projection_type = CAMPAIGN | GOVERNANCE | STREAM | VAULT

definition PROJECTION_SNAPSHOT_FORMAT_VERSION :: int where
  "PROJECTION_SNAPSHOT_FORMAT_VERSION = 1"

definition PROJECTION_TYPES :: "projection_type list" where
  "PROJECTION_TYPES = [CAMPAIGN, GOVERNANCE, STREAM, VAULT]"

fun json_sorted :: "jsval \<Rightarrow> jsval" where
  "json_sorted (JArr vs) = JArr (map json_sorted vs)"
| "json_sorted (JObj m) = JObj (sort_key fst (map (\<lambda>(k, v). (k, json_sorted v)) m))"
| "json_sorted v = v"

definition cell_json :: "(int \<Rightarrow> string) \<Rightarrow> dbval \<Rightarrow> jsval" where
  "cell_json iso_text v = (case v of PlainV j \<Rightarrow> json_sorted j | BigV n \<Rightarrow> JStr (show_int n) | DateV t \<Rightarrow> JStr (iso_text t))"

definition row_json :: "(int \<Rightarrow> string) \<Rightarrow> db_row \<Rightarrow> jsval" where
  "row_json iso_text row = JObj (sort_key fst (map (\<lambda>(k, v). (k, cell_json iso_text v)) row))"

definition row_id :: "db_row \<Rightarrow> string" where
  "row_id row = (case map_of row ''id'' of Some (PlainV (JStr s)) \<Rightarrow> s | _ \<Rightarrow> [])"

definition sortById :: "db_row list \<Rightarrow> db_row list" where
  "sortById rows = sort_key row_id rows"

definition rows_json :: "(int \<Rightarrow> string) \<Rightarrow> db_row list \<Rightarrow> jsval" where
  "rows_json iso_text rows = JArr (map (row_json iso_text) (sortById rows))"

definition captureCampaignData :: "(int \<Rightarrow> string) \<Rightarrow> db_tables \<Rightarrow> jsval" where
  "captureCampaignData iso_text db =
     JObj [(''auditTrail'', rows_json iso_text (db ''CampaignAuditTrail'')), (''campaigns'', rows_json iso_text (db ''Campaign'')),
           (''executions'', rows_json iso_text (db ''CampaignExecution''))]"

definition captureGovernanceData :: "(int \<Rightarrow> string) \<Rightarrow> db_tables \<Rightarrow> jsval" where
  "captureGovernanceData iso_text db =
     JObj [(''executions'', rows_json iso_text (db ''ProposalExecution'')), (''proposals'', rows_json iso_text (db ''Proposal'')),
           (''votes'', rows_json iso_text (db ''Vote''))]"

definition captureStreamData :: "(int \<Rightarrow> string) \<Rightarrow> db_tables \<Rightarrow> jsval" where
  "captureStreamData iso_text db = JObj [(''streams'', rows_json iso_text (db ''Stream''))]"

definition captureForType :: "(int \<Rightarrow> string) \<Rightarrow> projection_type \<Rightarrow> db_tables \<Rightarrow> jsval" where
  "captureForType iso_text T db =
     (case T of CAMPAIGN \<Rightarrow> captureCampaignData iso_text db | GOVERNANCE \<Rightarrow> captureGovernanceData iso_text db
      | STREAM \<Rightarrow> captureStreamData iso_text db | VAULT \<Rightarrow> captureStreamData iso_text db)"

record projection_snapshot =
  snType :: projection_type
  snLedger :: int
  snCursor :: string
  snFormat :: int
  snData :: jsval

definition upsert_snapshot :: "projection_snapshot \<Rightarrow> projection_snapshot list \<Rightarrow> projection_snapshot list" where
  "upsert_snapshot r rows =
     (if \<exists>x\<in>set rows. snType x = snType r \<and> snLedger x = snLedger r
      then map (\<lambda>x. if snType x = snType r \<and> snLedger x = snLedger r then r else x) rows else rows @ [r])"

text \<open>\<open>when_at T\<close> are the tables when the type is captured: the captures are awaited one after the other.\<close>

definition captureAllProjectionSnapshots ::
  "(int \<Rightarrow> string) \<Rightarrow> int \<Rightarrow> string \<Rightarrow> (projection_type \<Rightarrow> db_tables) \<Rightarrow> projection_snapshot list \<Rightarrow> projection_snapshot list" where
  "captureAllProjectionSnapshots iso_text ledger cursor when_at snaps =
     foldl (\<lambda>s T. upsert_snapshot \<lparr>snType = T, snLedger = ledger, snCursor = cursor, snFormat = PROJECTION_SNAPSHOT_FORMAT_VERSION,
         snData = captureForType iso_text T (when_at T)\<rparr> s) snaps PROJECTION_TYPES"

definition captureAllProjectionData :: "(int \<Rightarrow> string) \<Rightarrow> (projection_type \<Rightarrow> db_tables) \<Rightarrow> (projection_type \<times> jsval) list" where
  "captureAllProjectionData iso_text when_at = map (\<lambda>T. (T, captureForType iso_text T (when_at T))) PROJECTION_TYPES"

section \<open>The snapshot to resume from\<close>

definition types_by_ledger :: "projection_snapshot list \<Rightarrow> (int, projection_type list) jsmap" where
  "types_by_ledger rows =
     foldl (\<lambda>m r. jm_set m (snLedger r) (List.insert (snType r) (case jm_get m (snLedger r) of Some ts \<Rightarrow> ts | None \<Rightarrow> []))) [] rows"

definition findNearestUsableSnapshotLedger :: "int \<Rightarrow> projection_snapshot list \<Rightarrow> int option" where
  "findNearestUsableSnapshotLedger target snaps =
     foldl (\<lambda>best (ledger, types).
         if length types = length PROJECTION_TYPES \<and> (case best of None \<Rightarrow> True | Some b \<Rightarrow> ledger > b) then Some ledger else best)
       None (types_by_ledger (filter (\<lambda>r. snLedger r \<le> target) snaps))"

section \<open>Restoration\<close>

definition big_cell :: "dbval \<Rightarrow> (service_error, dbval) res" where
  "big_cell v =
     (case v of
        PlainV (JStr s) \<Rightarrow> (case big_int_of s of Some n \<Rightarrow> Inr (BigV n) | None \<Rightarrow> Inl (SyntaxError s))
      | PlainV (JNum n) \<Rightarrow> Inr (BigV n)
      | _ \<Rightarrow> Inl (SyntaxError []))"

text \<open>\<open>new Date\<close> of a malformed text is an invalid date, which the database refuses.\<close>

definition date_cell :: "(string \<Rightarrow> int option) \<Rightarrow> dbval \<Rightarrow> dbval" where
  "date_cell date_of v = (case v of PlainV (JStr s) \<Rightarrow> (case date_of s of Some t \<Rightarrow> DateV t | None \<Rightarrow> v) | _ \<Rightarrow> v)"

definition nullish_cell :: "dbval option \<Rightarrow> bool" where
  "nullish_cell c \<longleftrightarrow> (case c of None \<Rightarrow> True | Some (PlainV j) \<Rightarrow> js_nullish j | Some _ \<Rightarrow> False)"

fun convert_bigs :: "string list \<Rightarrow> db_row \<Rightarrow> (service_error, db_row) res" where
  "convert_bigs [] row = Inr row"
| "convert_bigs (f # fs) row =
     (if nullish_cell (map_of row f) then convert_bigs fs row
      else (case big_cell (the (map_of row f)) of Inl e \<Rightarrow> Inl e | Inr v \<Rightarrow> convert_bigs fs (jm_set row f v)))"

fun convert_dates :: "(string \<Rightarrow> int option) \<Rightarrow> string list \<Rightarrow> db_row \<Rightarrow> db_row" where
  "convert_dates date_of [] row = row"
| "convert_dates date_of (f # fs) row =
     (if nullish_cell (map_of row f) then convert_dates date_of fs row
      else convert_dates date_of fs (jm_set row f (date_cell date_of (the (map_of row f)))))"

definition plain_row :: "jsval \<Rightarrow> db_row" where
  "plain_row v = (case v of JObj m \<Rightarrow> map (\<lambda>(k, j). (k, PlainV j)) m | _ \<Rightarrow> [])"

fun restore_each ::
  "(string \<Rightarrow> int option) \<Rightarrow> string \<Rightarrow> string list \<Rightarrow> string list \<Rightarrow> jsval list \<Rightarrow> db_tables \<Rightarrow> (service_error, unit) res \<times> db_tables" where
  "restore_each date_of t bigs dates [] db = (Inr (), db)"
| "restore_each date_of t bigs dates (v # vs) db =
     (case convert_bigs bigs (plain_row v) of
        Inl e \<Rightarrow> (Inl e, db)
      | Inr row \<Rightarrow>
          (case create_row t (convert_dates date_of dates row) db of
             (Inl e, db1) \<Rightarrow> (Inl e, db1)
           | (Inr _, db1) \<Rightarrow> restore_each date_of t bigs dates vs db1))"

definition restoreRows ::
  "(string \<Rightarrow> int option) \<Rightarrow> string \<Rightarrow> string list \<Rightarrow> string list \<Rightarrow> jsval \<Rightarrow> db_tables \<Rightarrow> (service_error, unit) res \<times> db_tables" where
  "restoreRows date_of t bigs dates rows db = (case rows of JArr vs \<Rightarrow> restore_each date_of t bigs dates vs db | _ \<Rightarrow> (Inr (), db))"

definition and_then ::
  "(db_tables \<Rightarrow> (service_error, unit) res \<times> db_tables) \<Rightarrow> (db_tables \<Rightarrow> (service_error, unit) res \<times> db_tables)
     \<Rightarrow> db_tables \<Rightarrow> (service_error, unit) res \<times> db_tables" where
  "and_then f g db = (case f db of (Inl e, db1) \<Rightarrow> (Inl e, db1) | (Inr _, db1) \<Rightarrow> g db1)"

definition restoreOne :: "(string \<Rightarrow> int option) \<Rightarrow> projection_snapshot \<Rightarrow> db_tables \<Rightarrow> (service_error, unit) res \<times> db_tables" where
  "restoreOne date_of snap =
     (case snType snap of
        CAMPAIGN \<Rightarrow>
          and_then (delete_transaction [''CampaignAuditTrail'', ''CampaignExecution'', ''Campaign''])
         (and_then (restoreRows date_of ''Campaign'' [''targetAmount'', ''currentAmount'']
            [''startTime'', ''endTime'', ''createdAt'', ''updatedAt'', ''completedAt'', ''cancelledAt'', ''pausedAt''] (js_prop (snData snap) ''campaigns''))
         (and_then (restoreRows date_of ''CampaignExecution'' [''amount''] [''executedAt''] (js_prop (snData snap) ''executions''))
            (restoreRows date_of ''CampaignAuditTrail'' [] [''transitionAt''] (js_prop (snData snap) ''auditTrail''))))
      | GOVERNANCE \<Rightarrow>
          and_then (delete_transaction [''Vote'', ''ProposalExecution'', ''Proposal''])
         (and_then (restoreRows date_of ''Proposal'' [''quorum'', ''threshold'']
            [''startTime'', ''endTime'', ''createdAt'', ''updatedAt'', ''executedAt'', ''cancelledAt''] (js_prop (snData snap) ''proposals''))
         (and_then (restoreRows date_of ''Vote'' [''weight''] [''timestamp''] (js_prop (snData snap) ''votes''))
            (restoreRows date_of ''ProposalExecution'' [''gasUsed''] [''executedAt''] (js_prop (snData snap) ''executions''))))
      | _ \<Rightarrow>
          and_then (delete_transaction [''Stream''])
            (restoreRows date_of ''Stream'' [''amount''] [''createdAt'', ''claimedAt'', ''cancelledAt''] (js_prop (snData snap) ''streams'')))"

fun restore_snapshots :: "(string \<Rightarrow> int option) \<Rightarrow> projection_snapshot list \<Rightarrow> db_tables \<Rightarrow> (service_error, unit) res \<times> db_tables" where
  "restore_snapshots date_of [] db = (Inr (), db)"
| "restore_snapshots date_of (s # ss) db =
     (if snType s = VAULT then restore_snapshots date_of ss db
      else and_then (restoreOne date_of s) (restore_snapshots date_of ss) db)"

definition restoreAllProjectionSnapshots ::
  "(string \<Rightarrow> int option) \<Rightarrow> int \<Rightarrow> projection_snapshot list \<Rightarrow> db_tables \<Rightarrow> (service_error, unit) res \<times> db_tables" where
  "restoreAllProjectionSnapshots date_of ledger snaps db =
     (let found = filter (\<lambda>s. snLedger s = ledger) snaps
      in if length found \<noteq> length PROJECTION_TYPES then (Inl (PlainError ''Incomplete snapshot set''), db)
         else restore_snapshots date_of found db)"

section \<open>A row and its text\<close>


definition big_of :: "dbval \<Rightarrow> dbval" where
  "big_of v = (case big_cell v of Inr w \<Rightarrow> w | Inl _ \<Rightarrow> v)"

lemma jm_set_map:
  "f \<in> fst ` set row \<Longrightarrow> distinct (map fst row) \<Longrightarrow> jm_set row f v = map (\<lambda>(k, w). (k, if k = f then v else w)) row"
proof (induction row)
  case Nil
  then show ?case by simp
next
  case (Cons p row)
  obtain a b where p: "p = (a, b)" by (cases p)
  show ?case
  proof (cases "a = f")
    case True
    then have "f \<notin> fst ` set row" using Cons.prems p by auto
    then have "map (\<lambda>(k, w). (k, if k = f then v else w)) row = row" by (induction row) auto
    then show ?thesis using True p by (simp add: jm_set_def)
  next
    case False
    then show ?thesis using Cons p by (auto simp: jm_set_def)
  qed
qed

lemma jm_set_map_value:
  assumes w: "map_of row f = Some w" and d: "distinct (map fst row)"
  shows "jm_set row f (g w) = map (\<lambda>(k, v). (k, if k = f then g v else v)) row"
proof -
  have mem: "f \<in> fst ` set row" using map_of_SomeD [OF w] by force
  have "v = w" if "(f, v) \<in> set row" for v using that d w by simp
  then have "map (\<lambda>(k, v). (k, if k = f then g w else v)) row = map (\<lambda>(k, v). (k, if k = f then g v else v)) row"
    by (intro map_cong refl) auto
  then show ?thesis using jm_set_map [OF mem d, of "g w"] by simp
qed

lemma nullish_cell_missing: "f \<notin> fst ` set row \<Longrightarrow> nullish_cell (map_of row f)"
  by (simp add: nullish_cell_def map_of_eq_None_iff [THEN iffD2])

lemma nullish_big_of: "nullish_cell (Some v) \<Longrightarrow> big_of v = v"
  by (auto simp: nullish_cell_def big_of_def big_cell_def split: dbval.splits jsval.splits elim!: js_nullish.elims)

lemma nullish_date_cell: "nullish_cell (Some v) \<Longrightarrow> date_cell d v = v"
  by (auto simp: nullish_cell_def date_cell_def split: dbval.splits jsval.splits elim!: js_nullish.elims)

lemma map_cells_id: "(\<And>k w. (k, w) \<in> set row \<Longrightarrow> g k w = w) \<Longrightarrow> map (\<lambda>(k, w). (k, g k w)) row = row"
  by (induction row) auto

lemma convert_bigs_map:
  "distinct (map fst row) \<Longrightarrow> distinct fs \<Longrightarrow>
   (\<And>k w. (k, w) \<in> set row \<Longrightarrow> k \<in> set fs \<Longrightarrow> nullish_cell (Some w) \<or> (\<exists>u. big_cell w = Inr u)) \<Longrightarrow>
   convert_bigs fs row = Inr (map (\<lambda>(k, w). (k, if k \<in> set fs then big_of w else w)) row)"
proof (induction fs arbitrary: row)
  case Nil
  then show ?case by (simp add: map_cells_id)
next
  case (Cons f fs)
  define row1 where "row1 = map (\<lambda>(k, w). (k, if k = f then big_of w else w)) row"
  have d1: "distinct (map fst row1)" using Cons.prems(1) by (simp add: row1_def case_prod_unfold comp_def)
  have ok1: "nullish_cell (Some w) \<or> (\<exists>u. big_cell w = Inr u)" if "(k, w) \<in> set row1" "k \<in> set fs" for k w
    using that Cons.prems(2) Cons.prems(3) [of k w] by (auto simp: row1_def split: if_splits)
  have rest: "convert_bigs fs row1 = Inr (map (\<lambda>(k, w). (k, if k \<in> set (f # fs) then big_of w else w)) row)"
    using Cons.IH [OF d1 _ ok1] Cons.prems(2) by (auto simp: row1_def)
  show ?case
  proof (cases "nullish_cell (map_of row f)")
    case True
    have "row1 = row" unfolding row1_def
    proof (rule map_cells_id)
      fix k w assume kw: "(k, w) \<in> set row"
      then have "k = f \<Longrightarrow> map_of row f = Some w" using Cons.prems(1) by simp
      then show "(if k = f then big_of w else w) = w" using True nullish_big_of by auto
    qed
    then show ?thesis using True rest by simp
  next
    case False
    then obtain w where w: "map_of row f = Some w" by (cases "map_of row f") (auto simp: nullish_cell_def)
    then have mem: "(f, w) \<in> set row" by (rule map_of_SomeD)
    then obtain u where u: "big_cell w = Inr u" using Cons.prems(3) [of f w] False w by auto
    have "jm_set row f u = row1"
      using jm_set_map_value [OF w Cons.prems(1), of big_of] u by (simp add: row1_def big_of_def)
    then show ?thesis using False w u rest by simp
  qed
qed

lemma convert_dates_map:
  "distinct (map fst row) \<Longrightarrow> distinct fs \<Longrightarrow>
   convert_dates d fs row = map (\<lambda>(k, w). (k, if k \<in> set fs then date_cell d w else w)) row"
proof (induction fs arbitrary: row)
  case Nil
  then show ?case by (simp add: map_cells_id)
next
  case (Cons f fs)
  define row1 where "row1 = map (\<lambda>(k, w). (k, if k = f then date_cell d w else w)) row"
  have d1: "distinct (map fst row1)" using Cons.prems(1) by (simp add: row1_def case_prod_unfold comp_def)
  have rest: "convert_dates d fs row1 = map (\<lambda>(k, w). (k, if k \<in> set (f # fs) then date_cell d w else w)) row"
    using Cons.IH [OF d1] Cons.prems(2) by (auto simp: row1_def)
  show ?case
  proof (cases "nullish_cell (map_of row f)")
    case True
    have "row1 = row" unfolding row1_def
    proof (rule map_cells_id)
      fix k w assume kw: "(k, w) \<in> set row"
      then have "k = f \<Longrightarrow> map_of row f = Some w" using Cons.prems(1) by simp
      then show "(if k = f then date_cell d w else w) = w" using True nullish_date_cell by auto
    qed
    then show ?thesis using True rest by simp
  next
    case False
    then obtain w where w: "map_of row f = Some w" by (cases "map_of row f") (auto simp: nullish_cell_def)
    then have mem: "(f, w) \<in> set row" by (rule map_of_SomeD)
    have "jm_set row f (date_cell d w) = row1"
      using jm_set_map_value [OF w Cons.prems(1), of "date_cell d"] by (simp add: row1_def)
    then show ?thesis using False w rest by simp
  qed
qed


definition lists_cover :: "string list \<Rightarrow> string list \<Rightarrow> column list \<Rightarrow> bool" where
  "lists_cover bigs dates cols \<longleftrightarrow> sorted (map fst cols) \<and> distinct (map fst cols) \<and> distinct bigs \<and> distinct dates \<and>
     (\<forall>(n, kind, nullable)\<in>set cols. (kind = BigC \<longleftrightarrow> n \<in> set bigs) \<and> (kind = DateC \<longleftrightarrow> n \<in> set dates))"

lemma cells_names: "list_all2 cell_ok cols row \<Longrightarrow> map fst row = map fst cols"
  by (induction rule: list_all2_induct) (auto simp: cell_ok_def)

lemma cell_ok_cases:
  assumes "cell_ok (n, kind, nullable) (k, v)"
  obtains "v = PlainV JNull" | j where "v = PlainV j" "scalar j" "kind = PlainC"
    | i where "v = BigV i" "kind = BigC" | i where "v = DateV i" "kind = DateC"
  using assms by (auto simp: cell_ok_def split: dbval.splits jsval.splits)

lemma json_sorted_scalar: "scalar j \<Longrightarrow> json_sorted j = j"
  by (cases j) (auto simp: scalar_def)

lemma plain_row_json:
  assumes "list_all2 cell_ok cols row" "sorted (map fst cols)"
  shows "plain_row (row_json iso_text row) = map (\<lambda>(k, v). (k, PlainV (cell_json iso_text v))) row"
proof -
  have "sorted (map fst (map (\<lambda>(k, v). (k, cell_json iso_text v)) row))"
    using assms cells_names [OF assms(1)] by (simp add: comp_def case_prod_unfold)
  then show ?thesis
    by (simp add: plain_row_def row_json_def sorted_sort_id sort_key_id_if_sorted comp_def case_prod_unfold)
qed

lemma cell_roundtrip:
  assumes "cell_ok (n, kind, nullable) (k, v)" and law: "\<And>ms. date_of (iso_text ms) = Some ms"
    and "kind = BigC \<longleftrightarrow> k \<in> set bigs" "kind = DateC \<longleftrightarrow> k \<in> set dates"
  defines "w \<equiv> PlainV (cell_json iso_text v)"
  shows "k \<in> set bigs \<longrightarrow> nullish_cell (Some w) \<or> (\<exists>u. big_cell w = Inr u)"
    and "(if k \<in> set dates then date_cell date_of (if k \<in> set bigs then big_of w else w) else if k \<in> set bigs then big_of w else w) = v"
  using assms(1)
  by (rule cell_ok_cases;
      use assms in \<open>auto simp: cell_json_def json_sorted_scalar big_cell_def big_of_def date_cell_def nullish_cell_def big_int_of_show_int\<close>)+

lemma row_roundtrip:
  assumes row: "list_all2 cell_ok cols row" and cover: "lists_cover bigs dates cols" and law: "\<And>ms. date_of (iso_text ms) = Some ms"
  shows "\<exists>r. convert_bigs bigs (plain_row (row_json iso_text row)) = Inr r \<and> convert_dates date_of dates r = row"
proof -
  let ?p = "map (\<lambda>(k, v). (k, PlainV (cell_json iso_text v))) row"
  have d: "distinct (map fst row)" and so: "sorted (map fst cols)" using cover cells_names [OF row] by (auto simp: lists_cover_def)
  have p: "plain_row (row_json iso_text row) = ?p" by (rule plain_row_json [OF row so])
  have cell: "\<exists>n kind nullable. cell_ok (n, kind, nullable) (k, v) \<and> (kind = BigC \<longleftrightarrow> k \<in> set bigs) \<and> (kind = DateC \<longleftrightarrow> k \<in> set dates)"
    if kv: "(k, v) \<in> set row" for k v
  proof -
    obtain c where c: "c \<in> set cols" "cell_ok c (k, v)" using row kv by (metis list_all2_conv_all_nth in_set_conv_nth)
    obtain n kind nullable where cc: "c = (n, kind, nullable)" by (cases c) auto
    then have "n = k" using c by (simp add: cell_ok_def)
    then show ?thesis using c cc cover by (fastforce simp: lists_cover_def)
  qed
  have okc: "k \<in> set bigs \<longrightarrow> nullish_cell (Some (PlainV (cell_json iso_text v))) \<or> (\<exists>u. big_cell (PlainV (cell_json iso_text v)) = Inr u)"
    and inv: "(if k \<in> set dates then date_cell date_of (if k \<in> set bigs then big_of (PlainV (cell_json iso_text v)) else PlainV (cell_json iso_text v))
       else if k \<in> set bigs then big_of (PlainV (cell_json iso_text v)) else PlainV (cell_json iso_text v)) = v"
    if "(k, v) \<in> set row" for k v
    using cell [OF that] cell_roundtrip [OF _ law] by blast+
  have dp: "distinct (map fst ?p)" using d by (simp add: comp_def case_prod_unfold)
  have 1: "convert_bigs bigs ?p = Inr (map (\<lambda>(k, w). (k, if k \<in> set bigs then big_of w else w)) ?p)"
    by (rule convert_bigs_map [OF dp]) (use cover okc in \<open>auto simp: lists_cover_def\<close>)
  let ?F = "\<lambda>k v. if k \<in> set dates then date_cell date_of (if k \<in> set bigs then big_of (PlainV (cell_json iso_text v)) else PlainV (cell_json iso_text v))
       else if k \<in> set bigs then big_of (PlainV (cell_json iso_text v)) else PlainV (cell_json iso_text v)"
  have "convert_dates date_of dates (map (\<lambda>(k, w). (k, if k \<in> set bigs then big_of w else w)) ?p) = map (\<lambda>(k, v). (k, ?F k v)) row"
    using convert_dates_map [of "map (\<lambda>(k, w). (k, if k \<in> set bigs then big_of w else w)) ?p" dates date_of] dp cover
    by (simp add: lists_cover_def comp_def case_prod_unfold)
  also have "\<dots> = row" by (rule map_cells_id) (rule inv)
  finally have 2: "convert_dates date_of dates (map (\<lambda>(k, w). (k, if k \<in> set bigs then big_of w else w)) ?p) = row" .
  show ?thesis using 1 2 p by simp
qed


lemma child_not_parent: "(t, col, p) \<in> set FOREIGN_KEYS \<Longrightarrow> p \<noteq> t"
  by (auto simp: FOREIGN_KEYS_def)

lemma parents_exist_cong:
  "(\<And>col p. (t, col, p) \<in> set FOREIGN_KEYS \<Longrightarrow> set (db1 p) = set (db2 p)) \<Longrightarrow> parents_exist db1 t r = parents_exist db2 t r"
  unfolding parents_exist_def by (rule ball_cong [OF refl]) auto

lemma parents_exist_upd: "parents_exist (db(t := rows)) t r = parents_exist db t r"
  by (rule parents_exist_cong) (use child_not_parent in auto)

lemma restore_each_rows:
  assumes cover: "lists_cover bigs dates (columns_of t)" and law: "\<And>ms. date_of (iso_text ms) = Some ms"
  shows "(\<forall>r\<in>set rows. row_ok t r \<and> parents_exist db t r) \<Longrightarrow>
    (\<forall>cols\<in>set (unique_keys t). distinct (map (row_key cols) (db t @ rows))) \<Longrightarrow>
    restore_each date_of t bigs dates (map (row_json iso_text) rows) db = (Inr (), db(t := db t @ rows))"
proof (induction rows arbitrary: db)
  case Nil
  then show ?case by simp
next
  case (Cons r rows)
  have "list_all2 cell_ok (columns_of t) r" using Cons.prems(1) by (simp add: row_ok_def)
  then obtain r' where conv: "convert_bigs bigs (plain_row (row_json iso_text r)) = Inr r'" "convert_dates date_of dates r' = r"
    using row_roundtrip [OF _ cover law] by blast
  have new: "create_row t r db = (Inr (), db(t := db t @ [r]))"
    using Cons.prems by (auto simp: create_row_def)
  have "restore_each date_of t bigs dates (map (row_json iso_text) rows) (db(t := db t @ [r])) = (Inr (), db(t := db t @ r # rows))"
    using Cons.IH [of "db(t := db t @ [r])"] Cons.prems
    by (simp del: fun_upd_apply add: parents_exist_upd fun_upd_same)
  then show ?case using conv new by (simp del: fun_upd_apply)
qed

definition SNAPSHOT_TABLES :: "string list" where
  "SNAPSHOT_TABLES = [''Campaign'', ''CampaignExecution'', ''CampaignAuditTrail'', ''Proposal'', ''Vote'', ''ProposalExecution'', ''Stream'']"

text \<open>What the database keeps true of the projections' tables.\<close>

definition tables_ok :: "db_tables \<Rightarrow> bool" where
  "tables_ok db \<longleftrightarrow> (\<forall>t\<in>set SNAPSHOT_TABLES. (\<forall>r\<in>set (db t). row_ok t r \<and> parents_exist db t r) \<and>
     (\<forall>cols\<in>set (unique_keys t). distinct (map (row_key cols) (db t))))"

lemma distinct_map_sortById: "distinct (map f (sortById rows)) = distinct (map f rows)"
  by (simp add: distinct_map sortById_def)

lemma set_sortById [simp]: "set (sortById rows) = set rows"
  by (simp add: sortById_def)

lemma restore_table:
  assumes ok: "tables_ok db" and t: "t \<in> set SNAPSHOT_TABLES" and cover: "lists_cover bigs dates (columns_of t)"
    and law: "\<And>ms. date_of (iso_text ms) = Some ms" and cleared: "db1 t = []"
    and parents: "\<And>col p. (t, col, p) \<in> set FOREIGN_KEYS \<Longrightarrow> db1 p = sortById (db p)"
  shows "restoreRows date_of t bigs dates (rows_json iso_text (db t)) db1 = (Inr (), db1(t := sortById (db t)))"
proof -
  have same: "parents_exist db1 t r = parents_exist db t r" for r
    by (rule parents_exist_cong) (use parents in auto)
  have "\<forall>r\<in>set (sortById (db t)). row_ok t r \<and> parents_exist db1 t r"
    and "\<forall>cols\<in>set (unique_keys t). distinct (map (row_key cols) (db1 t @ sortById (db t)))"
    using ok t cleared same by (auto simp: tables_ok_def distinct_map_sortById)
  from restore_each_rows [where ?iso_text = iso_text, OF cover law this] cleared
  show ?thesis by (simp add: restoreRows_def rows_json_def)
qed


lemma covers:
  "lists_cover [''targetAmount'', ''currentAmount'']
     [''startTime'', ''endTime'', ''createdAt'', ''updatedAt'', ''completedAt'', ''cancelledAt'', ''pausedAt''] (columns_of ''Campaign'')"
  "lists_cover [''amount''] [''executedAt''] (columns_of ''CampaignExecution'')"
  "lists_cover [] [''transitionAt''] (columns_of ''CampaignAuditTrail'')"
  "lists_cover [''quorum'', ''threshold'']
     [''startTime'', ''endTime'', ''createdAt'', ''updatedAt'', ''executedAt'', ''cancelledAt''] (columns_of ''Proposal'')"
  "lists_cover [''weight''] [''timestamp''] (columns_of ''Vote'')"
  "lists_cover [''gasUsed''] [''executedAt''] (columns_of ''ProposalExecution'')"
  "lists_cover [''amount''] [''createdAt'', ''claimedAt'', ''cancelledAt''] (columns_of ''Stream'')"
  by (code_simp, code_simp, code_simp, code_simp, code_simp, code_simp, code_simp)

definition restored :: "string list \<Rightarrow> db_tables \<Rightarrow> db_tables \<Rightarrow> db_tables" where
  "restored ts db db0 = (\<lambda>t. if t \<in> set ts then sortById (db t) else db0 t)"

lemma js_prop_capture [simp]:
  "js_prop (captureCampaignData i db) ''campaigns'' = rows_json i (db ''Campaign'')"
  "js_prop (captureCampaignData i db) ''executions'' = rows_json i (db ''CampaignExecution'')"
  "js_prop (captureCampaignData i db) ''auditTrail'' = rows_json i (db ''CampaignAuditTrail'')"
  "js_prop (captureGovernanceData i db) ''proposals'' = rows_json i (db ''Proposal'')"
  "js_prop (captureGovernanceData i db) ''votes'' = rows_json i (db ''Vote'')"
  "js_prop (captureGovernanceData i db) ''executions'' = rows_json i (db ''ProposalExecution'')"
  "js_prop (captureStreamData i db) ''streams'' = rows_json i (db ''Stream'')"
  by (simp_all add: captureCampaignData_def captureGovernanceData_def captureStreamData_def)


lemma restored_none [simp]: "restored [] db db0 = db0"
  by (simp add: restored_def)

lemma restored_upd: "(restored ts db db0)(t := sortById (db t)) = restored (t # ts) db db0"
  by (auto simp: restored_def)

lemma restore_next:
  assumes "tables_ok db" "lists_cover bigs dates (columns_of t)" "\<And>ms. date_of (iso_text ms) = Some ms"
    and "t \<in> set SNAPSHOT_TABLES" "t \<notin> set ts" "db0 t = []" "\<forall>(c, col, p)\<in>set FOREIGN_KEYS. c = t \<longrightarrow> p \<in> set ts"
  shows "restoreRows date_of t bigs dates (rows_json iso_text (db t)) (restored ts db db0) = (Inr (), restored (t # ts) db db0)"
  unfolding restored_upd [symmetric]
  by (rule restore_table [OF assms(1,4,2,3)]) (use assms in \<open>auto simp: restored_def\<close>)

lemma delete_projections:
  "delete_transaction [''CampaignAuditTrail'', ''CampaignExecution'', ''Campaign''] db0 =
     (Inr (), db0(''CampaignAuditTrail'' := [], ''CampaignExecution'' := [], ''Campaign'' := []))"
  "delete_transaction [''Vote'', ''ProposalExecution'', ''Proposal''] db0 =
     (Inr (), db0(''Vote'' := [], ''ProposalExecution'' := [], ''Proposal'' := []))"
  "delete_transaction [''Stream''] db0 = (Inr (), db0(''Stream'' := []))"
  by (simp_all add: delete_transaction_def FOREIGN_KEYS_def)

lemma restore_campaign:
  assumes ok: "tables_ok db" and law: "\<And>ms. date_of (iso_text ms) = Some ms"
    and snap: "snType snap = CAMPAIGN" "snData snap = captureCampaignData iso_text db"
  shows "restoreOne date_of snap db0 = (Inr (), restored [''CampaignAuditTrail'', ''CampaignExecution'', ''Campaign''] db db0)"
proof -
  let ?c = "db0(''CampaignAuditTrail'' := [], ''CampaignExecution'' := [], ''Campaign'' := [])"
  note one = restore_next [OF ok covers(1) law, of "[]" ?c] 
    and two = restore_next [OF ok covers(2) law, of "[''Campaign'']" ?c]
    and three = restore_next [OF ok covers(3) law, of "[''CampaignExecution'', ''Campaign'']" ?c]
  have "restored [''CampaignAuditTrail'', ''CampaignExecution'', ''Campaign''] db ?c = restored [''CampaignAuditTrail'', ''CampaignExecution'', ''Campaign''] db db0"
    by (auto simp: restored_def)
  then show ?thesis
    using one two three
    by (simp del: fun_upd_apply add: restoreOne_def snap and_then_def delete_projections SNAPSHOT_TABLES_def FOREIGN_KEYS_def fun_upd_same fun_upd_other)
qed


lemma restore_governance:
  assumes ok: "tables_ok db" and law: "\<And>ms. date_of (iso_text ms) = Some ms"
    and snap: "snType snap = GOVERNANCE" "snData snap = captureGovernanceData iso_text db"
  shows "restoreOne date_of snap db0 = (Inr (), restored [''ProposalExecution'', ''Vote'', ''Proposal''] db db0)"
proof -
  let ?c = "db0(''Vote'' := [], ''ProposalExecution'' := [], ''Proposal'' := [])"
  note one = restore_next [OF ok covers(4) law, of "[]" ?c]
    and two = restore_next [OF ok covers(5) law, of "[''Proposal'']" ?c]
    and three = restore_next [OF ok covers(6) law, of "[''Vote'', ''Proposal'']" ?c]
  have "restored [''ProposalExecution'', ''Vote'', ''Proposal''] db ?c = restored [''ProposalExecution'', ''Vote'', ''Proposal''] db db0"
    by (auto simp: restored_def)
  then show ?thesis
    using one two three
    by (simp del: fun_upd_apply add: restoreOne_def snap and_then_def delete_projections SNAPSHOT_TABLES_def FOREIGN_KEYS_def fun_upd_same fun_upd_other)
qed

lemma restore_streams:
  assumes ok: "tables_ok db" and law: "\<And>ms. date_of (iso_text ms) = Some ms"
    and snap: "snType snap = STREAM" "snData snap = captureStreamData iso_text db"
  shows "restoreOne date_of snap db0 = (Inr (), restored [''Stream''] db db0)"
proof -
  let ?c = "db0(''Stream'' := [])"
  note one = restore_next [OF ok covers(7) law, of "[]" ?c]
  have "restored [''Stream''] db ?c = restored [''Stream''] db db0" by (auto simp: restored_def)
  then show ?thesis
    using one
    by (simp del: fun_upd_apply add: restoreOne_def snap and_then_def delete_projections SNAPSHOT_TABLES_def FOREIGN_KEYS_def fun_upd_same fun_upd_other)
qed

lemma upsert_new: "(\<And>x. x \<in> set rows \<Longrightarrow> \<not> (snType x = snType r \<and> snLedger x = snLedger r)) \<Longrightarrow> upsert_snapshot r rows = rows @ [r]"
  by (auto simp: upsert_snapshot_def)

definition snap_of :: "(int \<Rightarrow> string) \<Rightarrow> int \<Rightarrow> string \<Rightarrow> projection_type \<Rightarrow> db_tables \<Rightarrow> projection_snapshot" where
  "snap_of i ledger cursor T db = \<lparr>snType = T, snLedger = ledger, snCursor = cursor, snFormat = PROJECTION_SNAPSHOT_FORMAT_VERSION,
     snData = captureForType i T db\<rparr>"

lemma capture_new_ledger:
  assumes "\<forall>s\<in>set snaps. snLedger s \<noteq> ledger"
  shows "captureAllProjectionSnapshots i ledger cursor when_at snaps =
    snaps @ map (\<lambda>T. snap_of i ledger cursor T (when_at T)) PROJECTION_TYPES"
  using assms by (auto simp: captureAllProjectionSnapshots_def PROJECTION_TYPES_def snap_of_def upsert_snapshot_def)


lemma restore_of_capture:
  assumes ok: "\<And>T. tables_ok (when_at T)" and law: "\<And>ms. date_of (iso_text ms) = Some ms"
    and fresh: "\<forall>s\<in>set snaps. snLedger s \<noteq> ledger"
  shows "restoreAllProjectionSnapshots date_of ledger (captureAllProjectionSnapshots iso_text ledger cursor when_at snaps) db0 =
    (Inr (), restored [''Stream''] (when_at STREAM) (restored [''ProposalExecution'', ''Vote'', ''Proposal''] (when_at GOVERNANCE)
       (restored [''CampaignAuditTrail'', ''CampaignExecution'', ''Campaign''] (when_at CAMPAIGN) db0)))"
proof -
  have none: "filter (\<lambda>s. snLedger s = ledger) snaps = []" using fresh by (simp add: filter_empty_conv)
  note all = restore_campaign [OF ok law] restore_governance [OF ok law] restore_streams [OF ok law]
  show ?thesis
    by (simp add: restoreAllProjectionSnapshots_def capture_new_ledger [OF fresh] none PROJECTION_TYPES_def snap_of_def and_then_def
        captureForType_def all)
qed

text \<open>C24: Restoring the set captured at a ledger, all types from one state of the tables, gives back every table of that state in the
  order of the identifiers, whatever the tables held before, and leaves the other tables alone: no field list misses a
  column that the capture turned into text.\<close>

theorem snapshot_roundtrip:
  assumes ok: "tables_ok db" and law: "\<And>ms. date_of (iso_text ms) = Some ms"
    and fresh: "\<forall>s\<in>set snaps. snLedger s \<noteq> ledger"
  shows "restoreAllProjectionSnapshots date_of ledger (captureAllProjectionSnapshots iso_text ledger cursor (\<lambda>_. db) snaps) db0 =
    (Inr (), (\<lambda>t. if t \<in> set SNAPSHOT_TABLES then sortById (db t) else db0 t))"
  unfolding restore_of_capture [where when_at = "\<lambda>_. db", OF ok law fresh]
  by (auto simp: restored_def SNAPSHOT_TABLES_def)

definition snapped_proposal :: db_row where
  "snapped_proposal =
     [(''cancelReason'', PlainV JNull), (''cancelledAt'', PlainV JNull), (''canceller'', PlainV JNull), (''createdAt'', DateV 5),
      (''description'', PlainV JNull), (''endTime'', DateV 9), (''executedAt'', PlainV JNull), (''id'', PlainV (JStr ''p'')),
      (''metadata'', PlainV JNull), (''proposalId'', PlainV (JNum 1)), (''proposalType'', PlainV (JStr ''CUSTOM'')),
      (''proposer'', PlainV (JStr ''G'')), (''quorum'', BigV (-3)), (''startTime'', DateV 5), (''status'', PlainV (JStr ''ACTIVE'')),
      (''threshold'', BigV 2), (''title'', PlainV (JStr ''t'')), (''tokenId'', PlainV (JStr ''k'')), (''txHash'', PlainV (JStr ''h'')),
      (''updatedAt'', DateV 5)]"

definition snapped_vote :: "string \<Rightarrow> db_row" where
  "snapped_vote i =
     [(''id'', PlainV (JStr i)), (''proposalId'', PlainV (JStr ''p'')), (''reason'', PlainV JNull), (''support'', PlainV (JBool True)),
      (''timestamp'', DateV 7), (''txHash'', PlainV (JStr i)), (''voter'', PlainV (JStr i)), (''weight'', BigV 12)]"

definition snapped_stream :: db_row where
  "snapped_stream =
     [(''amount'', BigV 4), (''cancelledAt'', PlainV JNull), (''claimedAt'', PlainV JNull), (''createdAt'', DateV 6),
      (''creator'', PlainV (JStr ''G'')), (''id'', PlainV (JStr ''s'')), (''metadata'', PlainV JNull), (''recipient'', PlainV (JStr ''R'')),
      (''status'', PlainV (JStr ''CREATED'')), (''streamId'', PlainV (JNum 1)), (''txHash'', PlainV (JStr ''hs''))]"

definition snapped_tables :: db_tables where
  "snapped_tables = (\<lambda>_. [])(''Proposal'' := [snapped_proposal], ''Vote'' := [snapped_vote ''w'', snapped_vote ''v''], ''Stream'' := [snapped_stream])"

lemma snapped_tables_ok: "tables_ok snapped_tables"
  by (simp add: tables_ok_def snapped_tables_def SNAPSHOT_TABLES_def row_ok_def columns_of_def Proposal_columns_def Vote_columns_def
      Stream_columns_def snapped_proposal_def snapped_vote_def snapped_stream_def cell_ok_def scalar_def parents_exist_def FOREIGN_KEYS_def
      unique_keys_def row_key_def)

theorem snapshot_roundtrip_witness:
  "restoreAllProjectionSnapshots big_int_of 7 (captureAllProjectionSnapshots show_int 7 ''7-1'' (\<lambda>_. snapped_tables) []) (\<lambda>_. []) =
    (Inr (), (\<lambda>t. if t \<in> set SNAPSHOT_TABLES then sortById (snapped_tables t) else []))"
  using snapshot_roundtrip [OF snapped_tables_ok, of big_int_of show_int "[]" 7 "''7-1''" "\<lambda>_. []"] big_int_of_show_int by simp

lemma empty_tables_ok: "tables_ok (\<lambda>_. [])"
  by (simp add: tables_ok_def)

text \<open>The captures of the types are awaited one after the other outside a transaction: with a vote and a stream stored between the
  second and the third capture, the restored tables have the stream and not the proposal, which no state of the tables had.\<close>

theorem capture_can_be_torn:
  "\<exists>before after when_at. tables_ok before \<and> tables_ok after \<and>
     (\<forall>T. when_at T = (if T = CAMPAIGN \<or> T = GOVERNANCE then before else after)) \<and>
     before ''Stream'' = [] \<and> after ''Proposal'' \<noteq> [] \<and>
     (let db = snd (restoreAllProjectionSnapshots big_int_of 7 (captureAllProjectionSnapshots show_int 7 c when_at []) (\<lambda>_. []))
      in db ''Stream'' \<noteq> [] \<and> db ''Proposal'' = [])"
proof -
  let ?w = "\<lambda>T. if T = CAMPAIGN \<or> T = GOVERNANCE then (\<lambda>_. []) else snapped_tables"
  have ok: "tables_ok (?w T)" for T by (simp add: snapped_tables_ok empty_tables_ok)
  have "snd (restoreAllProjectionSnapshots big_int_of 7 (captureAllProjectionSnapshots show_int 7 c ?w []) (\<lambda>_. [])) =
    restored [''Stream''] snapped_tables (\<lambda>_. [])"
    by (subst restore_of_capture [OF ok big_int_of_show_int]) (auto simp: restored_def sortById_def)
  then show ?thesis
    using snapped_tables_ok empty_tables_ok
    by (intro exI [of _ "\<lambda>_. []"] exI [of _ snapped_tables] exI [of _ ?w]) (simp add: restored_def snapped_tables_def sortById_def)
qed

text \<open>A restoration that fails midway, here on a row with a missing column, has already deleted the tables of its type and committed
  that: the proposals and the votes that the tables held are gone.\<close>

theorem failed_restore_loses_rows:
  "\<exists>snaps db0. tables_ok db0 \<and> db0 ''Proposal'' \<noteq> [] \<and> db0 ''Vote'' \<noteq> [] \<and>
     (case restoreAllProjectionSnapshots big_int_of 7 snaps db0 of
        (r, db1) \<Rightarrow> r = Inl (DatabaseError ''invalid value'') \<and> db1 ''Vote'' = [] \<and> db1 ''Proposal'' = [])"
proof -
  let ?snap = "\<lambda>T. \<lparr>snType = T, snLedger = 7, snCursor = ''7-1'', snFormat = 1, snData = JObj [(''proposals'', JArr [JObj []])]\<rparr>"
  have "case restoreAllProjectionSnapshots big_int_of 7 (map ?snap [GOVERNANCE, CAMPAIGN, STREAM, VAULT]) snapped_tables of
        (r, db1) \<Rightarrow> r = Inl (DatabaseError ''invalid value'') \<and> db1 ''Vote'' = [] \<and> db1 ''Proposal'' = []"
    by (simp add: restoreAllProjectionSnapshots_def PROJECTION_TYPES_def and_then_def restoreOne_def delete_projections restoreRows_def
        plain_row_def nullish_cell_def create_row_def row_ok_def columns_of_def Proposal_columns_def)
  moreover have "snapped_tables ''Vote'' \<noteq> []" "snapped_tables ''Proposal'' \<noteq> []" by (simp_all add: snapped_tables_def)
  ultimately show ?thesis
    using snapped_tables_ok by (intro exI [of _ "map ?snap [GOVERNANCE, CAMPAIGN, STREAM, VAULT]"] exI [of _ snapped_tables]) simp
qed

section \<open>The nearest snapshot\<close>

definition complete_at :: "projection_snapshot list \<Rightarrow> int \<Rightarrow> bool" where
  "complete_at snaps ledger \<longleftrightarrow> (\<forall>T\<in>set PROJECTION_TYPES. \<exists>s\<in>set snaps. snLedger s = ledger \<and> snType s = T)"

definition types_at :: "projection_snapshot list \<Rightarrow> int \<Rightarrow> projection_type set" where
  "types_at rows ledger = snType ` {r \<in> set rows. snLedger r = ledger}"

lemma types_by_ledger_get:
  "jm_wf (types_by_ledger rows) \<and>
   (case jm_get (types_by_ledger rows) l of
      None \<Rightarrow> types_at rows l = {}
    | Some ts \<Rightarrow> set ts = types_at rows l \<and> distinct ts \<and> ts \<noteq> [])"
proof (induction rows rule: rev_induct)
  case Nil
  then show ?case by (simp add: types_by_ledger_def types_at_def)
next
  case (snoc r rows)
  have "types_at (rows @ [r]) l = (if snLedger r = l then insert (snType r) (types_at rows l) else types_at rows l)"
    by (auto simp: types_at_def)
  moreover have "types_by_ledger (rows @ [r]) = jm_set (types_by_ledger rows) (snLedger r)
      (List.insert (snType r) (case jm_get (types_by_ledger rows) (snLedger r) of Some ts \<Rightarrow> ts | None \<Rightarrow> []))"
    by (simp add: types_by_ledger_def)
  moreover have "List.insert x xs \<noteq> []" for x :: projection_type and xs
    by (metis empty_iff insert_not_empty list.set(1) List.set_insert)
  ultimately show ?case using snoc.IH by (auto split: option.splits)
qed

lemma UNIV_types: "(UNIV :: projection_type set) = set PROJECTION_TYPES"
  by (auto simp: PROJECTION_TYPES_def intro: projection_type.exhaust)

lemma complete_types: "complete_at rows l \<longleftrightarrow> types_at rows l = UNIV"
proof
  assume "complete_at rows l"
  then have "T \<in> types_at rows l" for T
    unfolding complete_at_def types_at_def using UNIV_types by (metis (mono_tags, lifting) UNIV_I imageI mem_Collect_eq)
  then show "types_at rows l = UNIV" by auto
next
  assume "types_at rows l = UNIV"
  then show "complete_at rows l"
    unfolding complete_at_def types_at_def by (metis (mono_tags, lifting) UNIV_I imageE mem_Collect_eq)
qed

lemma four_types:
  assumes "distinct ts"
  shows "length ts = length PROJECTION_TYPES \<longleftrightarrow> set ts = (UNIV :: projection_type set)"
proof -
  have c: "card (UNIV :: projection_type set) = length PROJECTION_TYPES" unfolding UNIV_types by (simp add: PROJECTION_TYPES_def)
  have f: "finite (UNIV :: projection_type set)" unfolding UNIV_types by simp
  show ?thesis
    using distinct_card [OF assms] c card_subset_eq [OF f, of "set ts"] by auto
qed

lemma greatest_fold:
  fixes P :: "'v \<Rightarrow> bool" and entries :: "(int \<times> 'v) list"
  defines "step \<equiv> \<lambda>best (l, v). if P v \<and> (case best of None \<Rightarrow> True | Some b \<Rightarrow> l > b) then Some l else best"
  shows "case foldl step None entries of
      None \<Rightarrow> \<forall>(l, v)\<in>set entries. \<not> P v
    | Some b \<Rightarrow> (\<exists>v. (b, v) \<in> set entries \<and> P v) \<and> (\<forall>(l, v)\<in>set entries. P v \<longrightarrow> l \<le> b)"
proof (induction entries rule: rev_induct)
  case Nil
  then show ?case by simp
next
  case (snoc p entries)
  then show ?case by (cases p) (fastforce simp: step_def split: option.splits)
qed

text \<open>The snapshot to resume from is the one of the greatest ledger at or below the target at which every type was captured, and
  there is none exactly when no such ledger exists.\<close>

theorem nearest_snapshot:
  "case findNearestUsableSnapshotLedger target snaps of
     None \<Rightarrow> \<not> (\<exists>l\<le>target. complete_at snaps l)
   | Some b \<Rightarrow> b \<le> target \<and> complete_at snaps b \<and> \<not> (\<exists>l\<le>target. b < l \<and> complete_at snaps l)"
proof -
  let ?rows = "filter (\<lambda>r. snLedger r \<le> target) snaps"
  let ?m = "types_by_ledger ?rows"
  have wf: "jm_wf ?m" using types_by_ledger_get by blast
  have at_le: "complete_at ?rows l \<longleftrightarrow> l \<le> target \<and> complete_at snaps l" for l
    by (auto simp: complete_at_def PROJECTION_TYPES_def)
  have entry: "(\<exists>ts. (l, ts) \<in> set ?m \<and> length ts = length PROJECTION_TYPES) \<longleftrightarrow> complete_at ?rows l" for l
  proof -
    have mem: "(l, ts) \<in> set ?m \<longleftrightarrow> jm_get ?m l = Some ts" for ts using wf by (simp add: jm_wf_def)
    show ?thesis
      using types_by_ledger_get [of ?rows l] four_types unfolding mem complete_types
      by (auto split: option.splits)
  qed
  have best: "case findNearestUsableSnapshotLedger target snaps of
      None \<Rightarrow> \<forall>(l, ts)\<in>set ?m. length ts \<noteq> length PROJECTION_TYPES
    | Some b \<Rightarrow> (\<exists>ts. (b, ts) \<in> set ?m \<and> length ts = length PROJECTION_TYPES) \<and>
        (\<forall>(l, ts)\<in>set ?m. length ts = length PROJECTION_TYPES \<longrightarrow> l \<le> b)"
    unfolding findNearestUsableSnapshotLedger_def by (rule greatest_fold)
  show ?thesis
  proof (cases "findNearestUsableSnapshotLedger target snaps")
    case None
    then have "\<not> complete_at ?rows l" for l using best entry [of l] by auto
    then show ?thesis using None at_le by auto
  next
    case (Some b)
    then have "complete_at ?rows b" using best entry [of b] by auto
    moreover have "l \<le> b" if "complete_at ?rows l" for l using best Some that entry [of l, symmetric] by auto
    ultimately show ?thesis using Some at_le by force
  qed
qed

text \<open>With one row for a type and a ledger, the set found is never refused as incomplete.\<close>

lemma nearest_is_not_incomplete:
  assumes d: "distinct (map (\<lambda>s. (snLedger s, snType s)) snaps)" and c: "complete_at snaps l"
  shows "length (filter (\<lambda>s. snLedger s = l) snaps) = length PROJECTION_TYPES"
proof -
  let ?f = "filter (\<lambda>s. snLedger s = l) snaps"
  have "inj_on (\<lambda>s. (snLedger s, snType s)) (set snaps)" "distinct snaps" using d by (auto simp: distinct_map)
  then have "distinct (map snType ?f)" by (auto simp: distinct_map inj_on_def)
  moreover have "set (map snType ?f) = UNIV" using c unfolding complete_types types_at_def by auto
  ultimately show ?thesis using four_types by force
qed

end
