(* ===== verification/Event_Replay.thy ===== *)
theory Event_Replay
  imports Event_Listener Projection_Snapshot
begin

text \<open>
  \<open>backend/src/services/eventReplayService.ts\<close>, \<open>projectionSnapshotJob.ts\<close> and \<open>projectionConsistencyCheck.ts\<close>: the
  projections rebuilt from Horizon's log of contract events, from a cursor, a ledger or a snapshot.

  Horizon's answers are a parameter: the answer to an attempt of a numbered request. The tables are of any type \<open>'w\<close>
  with the parsers' operations on them; \<open>projection_ops\<close> has those of the three parsers. Faults of the
  cursor store and the duration are not modelled.
\<close>

section \<open>Events and tables\<close>

text \<open>
  An event is passed to the parsers as it is (\<open>event as any\<close>), and they switch on its \<open>type\<close>. The view is what an
  object whose type is one of their labels has; Horizon's objects have the type \<open>contract\<close> that the request asks for.
\<close>

datatype typed_view = HorizonObject | TokenObject token_event | GovernanceObject gov_event | StreamObject stream_event

record replay_event =
  reRaw :: raw_event
  rePagingToken :: string
  reView :: typed_view

record 'w replay_ops =
  roToken :: "token_event \<Rightarrow> 'w \<Rightarrow> (service_error, unit) res \<times> 'w"
  roGovernance :: "gov_event \<Rightarrow> 'w \<Rightarrow> (service_error, unit) res \<times> 'w"
  roStream :: "stream_event \<Rightarrow> 'w \<Rightarrow> (service_error, unit) res \<times> 'w"
  roTables :: "'w \<Rightarrow> db_tables"
  roSetTables :: "db_tables \<Rightarrow> 'w \<Rightarrow> 'w"

record 'w replay_world =
  rwTables :: 'w
  rwCursor :: "string option"

record replay_options =
  opStartLedger :: "int option"
  opEndLedger :: "int option"
  opBatchSize :: int
  opMaxRetries :: int
  opRetryDelayMs :: int
  opDryRun :: bool

definition default_options :: replay_options where
  "default_options = \<lparr>opStartLedger = None, opEndLedger = None, opBatchSize = 100, opMaxRetries = 5, opRetryDelayMs = 1000, opDryRun = False\<rparr>"

text \<open>A number that is missing or zero is falsy.\<close>

definition given :: "int option \<Rightarrow> int option" where
  "given n = (if n = Some 0 then None else n)"

record replay_result =
  rrProcessed :: nat
  rrSkipped :: nat
  rrStartLedger :: int
  rrEndLedger :: int
  rrFinalCursor :: "string option"
  rrErrors :: "(int \<times> string) list"

section \<open>One event\<close>

definition validateEvent :: "string \<Rightarrow> replay_event \<Rightarrow> (service_error, unit) res" where
  "validateEvent factory event =
     (if rawLedger (reRaw event) = 0 \<or> rePagingToken event = [] \<or> rawTopic (reRaw event) = []
      then Inl (PlainError ''Invalid event structure: missing required fields'')
      else if rawContractId (reRaw event) = [] \<or> rawContractId (reRaw event) \<noteq> factory
      then Inl (PlainError ''Event contract_id mismatch'')
      else Inr ())"

datatype route = ToToken | ToGovernance | ToStream | ToVault | Unknown

definition route_of :: "string \<Rightarrow> route" where
  "route_of topic =
     (if topic \<in> {''tok_reg'', ''tok_burn'', ''adm_burn'', ''fee_chg'', ''fee_chg_v2'', ''allowlist'', ''allowlist_v2''} then ToToken
      else if str_includes topic ''prop_create'' \<or> str_includes topic ''vote'' \<or> str_includes topic ''prop_exec'' \<or> str_includes topic ''prop_snap''
      then ToGovernance
      else if topic \<in> {''stream_create'', ''stream_claim'', ''stream_cancel''} then ToStream
      else if topic \<in> {''vault_created'', ''vault_claimed'', ''vault_cancelled'', ''vault_metadata_updated''} then ToVault
      else Unknown)"

text \<open>
  The parsers ignore an object of another type. The vault parsers are called with the database client where they expect the event:
  they return \<open>null\<close>, and the value of the call is dropped. Without a topic, the call of \<open>includes\<close> throws.
\<close>

definition replay_processEvent :: "'w replay_ops \<Rightarrow> string \<Rightarrow> bool \<Rightarrow> replay_event \<Rightarrow> 'w \<Rightarrow> (service_error, unit) res \<times> 'w" where
  "replay_processEvent ops factory dryRun event w =
     (if dryRun then (validateEvent factory event, w)
      else (case rawTopic (reRaw event) of
         [] \<Rightarrow> (Inl (PlainError ''TypeError''), w)
       | topic # _ \<Rightarrow>
           (case route_of topic of
              ToToken \<Rightarrow> (case reView event of TokenObject e \<Rightarrow> roToken ops e w | _ \<Rightarrow> (Inr (), w))
            | ToGovernance \<Rightarrow> (case reView event of GovernanceObject e \<Rightarrow> roGovernance ops e w | _ \<Rightarrow> (Inr (), w))
            | ToStream \<Rightarrow> (case reView event of StreamObject e \<Rightarrow> roStream ops e w | _ \<Rightarrow> (Inr (), w))
            | ToVault \<Rightarrow> (Inr (), w)
            | Unknown \<Rightarrow> (Inr (), w))))"

definition projection_ops :: "event_env \<Rightarrow> (projections \<Rightarrow> db_tables) \<Rightarrow> (db_tables \<Rightarrow> projections \<Rightarrow> projections) \<Rightarrow> projections replay_ops" where
  "projection_ops env get_tables set_tables =
     \<lparr>roToken = (\<lambda>e p. case token_parseEvent (evOk env) (evId env) e (pjTokens p) of (r, db) \<Rightarrow> (r, p\<lparr>pjTokens := db\<rparr>)),
      roGovernance = (\<lambda>e p. case gov_parseEvent (evOk env) (evOk2 env) (evId env) e (pjGov p) of (r, db) \<Rightarrow> (r, p\<lparr>pjGov := db\<rparr>)),
      roStream = (\<lambda>e p. case stream_parseEvent (evOk env) (evOk2 env) e (pjStreams p) of (r, db) \<Rightarrow> (r, p\<lparr>pjStreams := db\<rparr>)),
      roTables = get_tables, roSetTables = set_tables\<rparr>"

section \<open>A page of the log\<close>

definition thrown_text :: "jsval \<Rightarrow> string" where
  "thrown_text err = (case js_prop err ''message'' of JStr s \<Rightarrow> s | _ \<Rightarrow> js_to_string err)"

text \<open>The attempts from number \<open>k\<close> on, \<open>n\<close> of them left, with the delays that were slept.\<close>

fun fetch_attempts ::
  "string \<Rightarrow> (nat \<Rightarrow> (jsval, replay_event list) res) \<Rightarrow> int \<Rightarrow> nat \<Rightarrow> nat \<Rightarrow> string \<Rightarrow> (string, replay_event list) res \<times> int list" where
  "fetch_attempts factory answer delay k 0 lastError = (Inl lastError, [])"
| "fetch_attempts factory answer delay k (Suc n) lastError =
     (case answer k of
        Inr events \<Rightarrow> (Inr (filter (\<lambda>e. rawContractId (reRaw e) = factory) events), [])
      | Inl err \<Rightarrow>
          (case isRetryableError err of
             Inl _ \<Rightarrow> (Inl ''TypeError'', [])
           | Inr False \<Rightarrow> (Inl (thrown_text err), [])
           | Inr True \<Rightarrow>
               (case fetch_attempts factory answer delay (Suc k) n (thrown_text err) of
                  (r, delays) \<Rightarrow> (r, if n = 0 then delays else delay * 2 ^ k # delays))))"

text \<open>\<open>horizon c l k\<close> is the answer to the attempt \<open>k\<close> of the request with the cursor \<open>c\<close> and the limit \<open>l\<close>.\<close>

type_synonym horizon = "string option \<Rightarrow> int \<Rightarrow> nat \<Rightarrow> (jsval, replay_event list) res"

definition fetchEventsWithRetry ::
  "string \<Rightarrow> horizon \<Rightarrow> string option \<Rightarrow> int \<Rightarrow> int \<Rightarrow> int \<Rightarrow> (string, replay_event list) res \<times> int list" where
  "fetchEventsWithRetry factory horizon cursor limit retries delay =
     fetch_attempts factory (horizon (if cursor = Some [] then None else cursor) limit) delay 0 (nat (retries + 1))
       ''Failed to fetch events after retries''"

section \<open>The replay\<close>

definition error_text :: "service_error \<Rightarrow> string" where
  "error_text e = (case e of RangeError s \<Rightarrow> s | SyntaxError s \<Rightarrow> s | PlainError s \<Rightarrow> s | DatabaseError s \<Rightarrow> s)"

record 'w replay_state =
  rsProcessed :: nat
  rsSkipped :: nat
  rsErrors :: "(int \<times> string) list"
  rsLedger :: int
  rsFinal :: "string option"
  rsTables :: 'w

definition replay_event_step :: "'w replay_ops \<Rightarrow> string \<Rightarrow> bool \<Rightarrow> replay_event \<Rightarrow> 'w replay_state \<Rightarrow> 'w replay_state" where
  "replay_event_step ops factory dryRun event st =
     (case replay_processEvent ops factory dryRun event (rsTables st) of
        (Inr _, w) \<Rightarrow> st\<lparr>rsLedger := rawLedger (reRaw event), rsTables := w, rsProcessed := rsProcessed st + 1,
                       rsFinal := Some (rePagingToken event)\<rparr>
      | (Inl e, w) \<Rightarrow> st\<lparr>rsLedger := rawLedger (reRaw event), rsTables := w, rsSkipped := rsSkipped st + 1,
                       rsErrors := rsErrors st @ [(rawLedger (reRaw event), error_text e)]\<rparr>)"

text \<open>The events of a page up to the first one beyond the last ledger; whether there was one.\<close>

fun replay_page ::
  "'w replay_ops \<Rightarrow> string \<Rightarrow> bool \<Rightarrow> int option \<Rightarrow> replay_event list \<Rightarrow> 'w replay_state \<Rightarrow> bool \<times> 'w replay_state" where
  "replay_page ops factory dryRun endLedger [] st = (False, st)"
| "replay_page ops factory dryRun endLedger (e # es) st =
     (if (case given endLedger of Some l \<Rightarrow> rawLedger (reRaw e) > l | None \<Rightarrow> False) then (True, st)
      else replay_page ops factory dryRun endLedger es (replay_event_step ops factory dryRun e st))"

text \<open>Requests until a page ends the replay; \<open>None\<close> when the fuel does not reach that far.\<close>

fun replay_loop ::
  "nat \<Rightarrow> 'w replay_ops \<Rightarrow> string \<Rightarrow> (nat \<Rightarrow> horizon) \<Rightarrow> replay_options \<Rightarrow> nat \<Rightarrow> string option \<Rightarrow> 'w replay_state \<Rightarrow> 'w replay_state option" where
  "replay_loop 0 ops factory horizon opts i cursor st = None"
| "replay_loop (Suc fuel) ops factory horizon opts i cursor st =
     (case fst (fetchEventsWithRetry factory (horizon i) cursor (opBatchSize opts) (opMaxRetries opts) (opRetryDelayMs opts)) of
        Inl msg \<Rightarrow> Some (st\<lparr>rsErrors := rsErrors st @ [(rsLedger st, ''Batch fetch: '' @ msg)]\<rparr>)
      | Inr [] \<Rightarrow> Some st
      | Inr events \<Rightarrow>
          (case replay_page ops factory (opDryRun opts) (opEndLedger opts) events st of
             (stop, st1) \<Rightarrow>
               if stop \<or> int (length events) < opBatchSize opts then Some st1
               else replay_loop fuel ops factory horizon opts (Suc i) (Some (rePagingToken (last events))) st1))"

definition start_cursor :: "string option \<Rightarrow> replay_options \<Rightarrow> string option \<Rightarrow> string option" where
  "start_cursor origin opts row =
     (case given (opStartLedger opts) of Some l \<Rightarrow> Some (show_int (l - 1) @ ''-0'') | None \<Rightarrow> cs_load origin row)"

definition initial_state :: "replay_options \<Rightarrow> 'w \<Rightarrow> 'w replay_state" where
  "initial_state opts w =
     \<lparr>rsProcessed = 0, rsSkipped = 0, rsErrors = [], rsLedger = (case opStartLedger opts of Some l \<Rightarrow> l | None \<Rightarrow> 0),
      rsFinal = None, rsTables = w\<rparr>"

definition finish_replay :: "replay_options \<Rightarrow> 'w replay_state \<Rightarrow> 'w replay_world \<Rightarrow> replay_result \<times> 'w replay_world" where
  "finish_replay opts st world =
     (\<lparr>rrProcessed = rsProcessed st, rrSkipped = rsSkipped st,
       rrStartLedger = (case opStartLedger opts of Some l \<Rightarrow> l | None \<Rightarrow> 0),
       rrEndLedger = (case given (opEndLedger opts) of Some l \<Rightarrow> l | None \<Rightarrow> rsLedger st),
       rrFinalCursor = rsFinal st, rrErrors = rsErrors st\<rparr>,
      world\<lparr>rwTables := rsTables st,
        rwCursor := (case rsFinal st of
            Some c \<Rightarrow> if \<not> opDryRun opts \<and> c \<noteq> [] then cs_save c (rwCursor world) else rwCursor world
          | None \<Rightarrow> rwCursor world)\<rparr>)"

definition replay ::
  "nat \<Rightarrow> 'w replay_ops \<Rightarrow> string \<Rightarrow> string option \<Rightarrow> (nat \<Rightarrow> horizon) \<Rightarrow> replay_options \<Rightarrow> 'w replay_world
     \<Rightarrow> ((service_error, replay_result) res \<times> 'w replay_world) option" where
  "replay fuel ops factory origin horizon opts world =
     (if factory = [] then Some (Inl (PlainError ''FACTORY_CONTRACT_ID not configured''), world)
      else (case replay_loop fuel ops factory horizon opts 0 (start_cursor origin opts (rwCursor world)) (initial_state opts (rwTables world)) of
         None \<Rightarrow> None
       | Some st \<Rightarrow> (case finish_replay opts st world of (r, world1) \<Rightarrow> Some (Inr r, world1))))"

section \<open>From a snapshot, or from scratch\<close>

definition replayFromLedger ::
  "nat \<Rightarrow> 'w replay_ops \<Rightarrow> string \<Rightarrow> string option \<Rightarrow> (string \<Rightarrow> int option) \<Rightarrow> (nat \<Rightarrow> horizon) \<Rightarrow> projection_snapshot list
     \<Rightarrow> int \<Rightarrow> replay_options \<Rightarrow> 'w replay_world \<Rightarrow> ((service_error, replay_result) res \<times> 'w replay_world) option" where
  "replayFromLedger fuel ops factory origin date_of horizon snaps target opts world =
     (case findNearestUsableSnapshotLedger target snaps of
        Some l \<Rightarrow>
          (case restoreAllProjectionSnapshots date_of l snaps (roTables ops (rwTables world)) of
             (Inl e, db) \<Rightarrow> Some (Inl e, world\<lparr>rwTables := roSetTables ops db (rwTables world)\<rparr>)
           | (Inr _, db) \<Rightarrow> replay fuel ops factory origin horizon (opts\<lparr>opStartLedger := Some (l + 1), opEndLedger := Some target\<rparr>)
                            (world\<lparr>rwTables := roSetTables ops db (rwTables world)\<rparr>))
      | None \<Rightarrow> replay fuel ops factory origin horizon (opts\<lparr>opStartLedger := None, opEndLedger := Some target\<rparr>) world)"

definition CLEARED_TABLES :: "string list" where
  "CLEARED_TABLES = [''Token'', ''BurnRecord'', ''Proposal'', ''Vote'', ''Stream'', ''Campaign'', ''CampaignExecution'', ''CampaignAuditTrail'']"

definition clearAndRebuild ::
  "nat \<Rightarrow> 'w replay_ops \<Rightarrow> string \<Rightarrow> string option \<Rightarrow> (nat \<Rightarrow> horizon) \<Rightarrow> replay_options \<Rightarrow> 'w replay_world
     \<Rightarrow> ((service_error, replay_result) res \<times> 'w replay_world) option" where
  "clearAndRebuild fuel ops factory origin horizon opts world =
     (case delete_transaction CLEARED_TABLES (roTables ops (rwTables world)) of
        (Inl e, _) \<Rightarrow> Some (Inl e, world)
      | (Inr _, db) \<Rightarrow>
          replay fuel ops factory origin horizon (opts\<lparr>opStartLedger := None\<rparr>)
            (world\<lparr>rwTables := roSetTables ops db (rwTables world),
               rwCursor := (case origin of Some c \<Rightarrow> if c = [] then rwCursor world else cs_save c (rwCursor world) | None \<Rightarrow> rwCursor world)\<rparr>))"

text \<open>The snapshot of the job is labelled with the ledger of the stored cursor; the tables are those at the time of each capture.\<close>

definition runProjectionSnapshotJob ::
  "(int \<Rightarrow> string) \<Rightarrow> string option \<Rightarrow> string option \<Rightarrow> (projection_type \<Rightarrow> db_tables) \<Rightarrow> projection_snapshot list \<Rightarrow> projection_snapshot list" where
  "runProjectionSnapshotJob iso_text origin row when_at snaps =
     (case cs_load origin row of
        None \<Rightarrow> snaps
      | Some cursor \<Rightarrow>
          if cursor = [] then snaps
          else (case parseLedgerFromCursor cursor of
                  None \<Rightarrow> snaps
                | Some ledger \<Rightarrow> captureAllProjectionSnapshots iso_text ledger cursor when_at snaps))"

text \<open>
  The captured values hold texts, integers, booleans and nulls under fixed keys, so their serialisations are equal exactly when they are.
  \<open>horizon1\<close> and \<open>horizon2\<close> answer the two passes.
\<close>

definition mismatches :: "(projection_type \<times> jsval) list \<Rightarrow> (projection_type \<times> jsval) list \<Rightarrow> projection_type list" where
  "mismatches a b = filter (\<lambda>T. map_of a T \<noteq> map_of b T) PROJECTION_TYPES"

definition verifyProjectionSnapshotConsistency ::
  "nat \<Rightarrow> 'w replay_ops \<Rightarrow> string \<Rightarrow> string option \<Rightarrow> (int \<Rightarrow> string) \<Rightarrow> (string \<Rightarrow> int option) \<Rightarrow> (nat \<Rightarrow> horizon) \<Rightarrow> (nat \<Rightarrow> horizon)
     \<Rightarrow> projection_snapshot list \<Rightarrow> int \<Rightarrow> 'w replay_world \<Rightarrow> ((service_error, bool \<times> projection_type list) res \<times> 'w replay_world) option" where
  "verifyProjectionSnapshotConsistency fuel ops factory origin iso_text date_of horizon1 horizon2 snaps target world =
     (case replayFromLedger fuel ops factory origin date_of horizon1 snaps target default_options world of
        None \<Rightarrow> None
      | Some (Inl e, world1) \<Rightarrow> Some (Inl e, world1)
      | Some (Inr _, world1) \<Rightarrow>
          (case clearAndRebuild fuel ops factory origin horizon2 (default_options\<lparr>opEndLedger := Some target\<rparr>) world1 of
             None \<Rightarrow> None
           | Some (Inl e, world2) \<Rightarrow> Some (Inl e, world2)
           | Some (Inr _, world2) \<Rightarrow>
               (let bad = mismatches (captureAllProjectionData iso_text (\<lambda>_. roTables ops (rwTables world1)))
                            (captureAllProjectionData iso_text (\<lambda>_. roTables ops (rwTables world2)))
                in Some (Inr (bad = [], bad), world2))))"

section \<open>The attempts\<close>

lemma fetch_attempts_spec:
  "\<exists>m. m \<le> n - 1 \<and> snd (fetch_attempts factory answer d k n msg) = map (\<lambda>j. d * 2 ^ j) [k..<k + m] \<and>
     (\<forall>j. k \<le> j \<and> j < k + m \<longrightarrow> (\<exists>err. answer j = Inl err \<and> isRetryableError err = Inr True)) \<and>
     (\<forall>events. fst (fetch_attempts factory answer d k n msg) = Inr events \<longrightarrow>
        (\<exists>es. answer (k + m) = Inr es \<and> events = filter (\<lambda>e. rawContractId (reRaw e) = factory) es))"
proof (induction n arbitrary: k msg)
  case 0
  then show ?case by auto
next
  case (Suc n)
  have no_delay: ?case if "snd (fetch_attempts factory answer d k (Suc n) msg) = []"
    "\<forall>events. fst (fetch_attempts factory answer d k (Suc n) msg) = Inr events \<longrightarrow>
        (\<exists>es. answer k = Inr es \<and> events = filter (\<lambda>e. rawContractId (reRaw e) = factory) es)"
    by (rule exI [of _ 0], intro conjI allI impI) (use that in auto)
  show ?case
  proof (cases "answer k")
    case (Inr es)
    then show ?thesis by (intro no_delay) auto
  next
    case (Inl err)
    show ?thesis
    proof (cases "isRetryableError err = Inr True \<and> n \<noteq> 0")
      case False
      then show ?thesis using Inl by (intro no_delay) (auto split: sum.splits bool.splits)
    next
      case True
      obtain m where m: "m \<le> n - 1" "snd (fetch_attempts factory answer d (Suc k) n (thrown_text err)) = map (\<lambda>j. d * 2 ^ j) [Suc k..<Suc k + m]"
        "\<forall>j. Suc k \<le> j \<and> j < Suc k + m \<longrightarrow> (\<exists>err. answer j = Inl err \<and> isRetryableError err = Inr True)"
        "\<forall>events. fst (fetch_attempts factory answer d (Suc k) n (thrown_text err)) = Inr events \<longrightarrow>
           (\<exists>es. answer (Suc k + m) = Inr es \<and> events = filter (\<lambda>e. rawContractId (reRaw e) = factory) es)"
        using Suc.IH [of "Suc k" "thrown_text err"] by blast
      have step: "fetch_attempts factory answer d k (Suc n) msg =
          (fst (fetch_attempts factory answer d (Suc k) n (thrown_text err)), d * 2 ^ k # snd (fetch_attempts factory answer d (Suc k) n (thrown_text err)))"
        using True Inl by (simp add: case_prod_unfold)
      have "\<exists>e. answer j = Inl e \<and> isRetryableError e = Inr True" if "k \<le> j" "j < k + Suc m" for j
        using that m(3) Inl True by (cases "j = k") auto
      then show ?thesis
        using m True unfolding step by (intro exI [of _ "Suc m"]) (auto simp: upt_conv_Cons)
    qed
  qed
qed

lemma sum_doubling: "sum_list (map (\<lambda>j. d * 2 ^ j) [0..<m]) = (d :: int) * (2 ^ m - 1)"
  by (induction m) (simp_all add: algebra_simps)

text \<open>A page is fetched with at most one attempt more than the retries: the delays double from the first one, an attempt is made again
  only after an error that can be retried, their sum stays below the delay that would come next, and the page is that of the attempt
  after the last delay, less the events of other contracts.\<close>

theorem fetch_retries_bounded:
  assumes "retries \<ge> 0" "0 \<le> delay"
  shows "\<exists>m. int m \<le> retries \<and> snd (fetchEventsWithRetry factory horizon cursor limit retries delay) = map (\<lambda>j. delay * 2 ^ j) [0..<m] \<and>
     sum_list (snd (fetchEventsWithRetry factory horizon cursor limit retries delay)) \<le> delay * (2 ^ nat retries - 1) \<and>
     (\<forall>j<m. \<exists>err. horizon (if cursor = Some [] then None else cursor) limit j = Inl err \<and> isRetryableError err = Inr True) \<and>
     (\<forall>events. fst (fetchEventsWithRetry factory horizon cursor limit retries delay) = Inr events \<longrightarrow>
        (\<exists>es. horizon (if cursor = Some [] then None else cursor) limit m = Inr es \<and>
           events = filter (\<lambda>e. rawContractId (reRaw e) = factory) es))"
proof -
  let ?c = "if cursor = Some [] then None else cursor"
  obtain m where m: "m \<le> nat (retries + 1) - 1"
    "snd (fetchEventsWithRetry factory horizon cursor limit retries delay) = map (\<lambda>j. delay * 2 ^ j) [0..<m]"
    "\<forall>j<m. \<exists>err. horizon ?c limit j = Inl err \<and> isRetryableError err = Inr True"
    "\<forall>events. fst (fetchEventsWithRetry factory horizon cursor limit retries delay) = Inr events \<longrightarrow>
        (\<exists>es. horizon ?c limit m = Inr es \<and> events = filter (\<lambda>e. rawContractId (reRaw e) = factory) es)"
    using fetch_attempts_spec [of "nat (retries + 1)" factory "horizon ?c limit" delay 0 "''Failed to fetch events after retries''"]
    unfolding fetchEventsWithRetry_def by auto
  have "m \<le> nat retries" using m(1) assms(1) by simp
  then have "(2 :: int) ^ m \<le> 2 ^ nat retries" by (rule power_increasing) simp
  from mult_left_mono [OF diff_right_mono [OF this] assms(2)]
  have "delay * (2 ^ m - 1) \<le> delay * (2 ^ nat retries - 1)" .
  then have "sum_list (snd (fetchEventsWithRetry factory horizon cursor limit retries delay)) \<le> delay * (2 ^ nat retries - 1)"
    unfolding m(2) sum_doubling .
  moreover have "int m \<le> retries" using \<open>m \<le> nat retries\<close> assms(1) by simp
  ultimately show ?thesis using m(2,3,4) by blast
qed

definition flaky_horizon :: horizon where
  "flaky_horizon c l k = (if k < 2 then Inl (JObj [(''code'', JStr ''ETIMEDOUT'')]) else Inr [])"

theorem fetch_retries_bounded_witness:
  "sum_list (snd (fetchEventsWithRetry ''C'' flaky_horizon None 100 5 1000)) \<le> 1000 * (2 ^ 5 - 1) \<and>
   fetchEventsWithRetry ''C'' flaky_horizon None 100 5 1000 = (Inr [], [1000, 2000])"
proof -
  have "sum_list (snd (fetchEventsWithRetry ''C'' flaky_horizon None 100 5 1000)) \<le> 1000 * (2 ^ 5 - 1)"
    using fetch_retries_bounded [of 5 1000 "''C''" flaky_horizon None 100] by auto
  moreover have "fetchEventsWithRetry ''C'' flaky_horizon None 100 5 1000 = (Inr [], [1000, 2000])"
    by code_simp
  ultimately show ?thesis by blast
qed

section \<open>A log and its pages\<close>

text \<open>A finite log whose paging tokens are positions, all of its events from the contract, and a service that always answers.\<close>

definition replay_log :: "string \<Rightarrow> replay_event list \<Rightarrow> (string \<Rightarrow> nat) \<Rightarrow> bool" where
  "replay_log factory L pos \<longleftrightarrow> (\<forall>k<length L. rePagingToken (L ! k) \<noteq> [] \<and> pos (rePagingToken (L ! k)) = Suc k) \<and>
     (\<forall>e\<in>set L. rawContractId (reRaw e) = factory)"

definition serve :: "replay_event list \<Rightarrow> (string \<Rightarrow> nat) \<Rightarrow> horizon" where
  "serve L pos cursor limit attempt = Inr (take (nat limit) (drop (position pos cursor) L))"

lemma replay_page_append:
  "replay_page ops factory dry l (xs @ ys) st =
     (case replay_page ops factory dry l xs st of (True, st1) \<Rightarrow> (True, st1) | (False, st1) \<Rightarrow> replay_page ops factory dry l ys st1)"
  by (induction xs arbitrary: st) simp_all

lemma position_nonempty: "position pos (if c = Some [] then None else c) = position pos c"
  by (simp add: position_def split: option.split)

lemma replay_loop_page:
  assumes "fst (fetchEventsWithRetry factory (horizon i) cursor (opBatchSize opts) (opMaxRetries opts) (opRetryDelayMs opts)) = Inr page"
    and "page \<noteq> []" and "replay_page ops factory (opDryRun opts) (opEndLedger opts) page st = (stop, st1)"
  shows "replay_loop (Suc fuel) ops factory horizon opts i cursor st =
    (if stop \<or> int (length page) < opBatchSize opts then Some st1
     else replay_loop fuel ops factory horizon opts (Suc i) (Some (rePagingToken (last page))) st1)"
  using assms by (cases page) (simp_all del: replay_page.simps)

lemma replay_log_pages:
  assumes log: "replay_log factory L pos" and b: "0 < opBatchSize opts" and r: "0 \<le> opMaxRetries opts"
  shows "length L - position pos cursor < fuel \<Longrightarrow>
    replay_loop fuel ops factory (\<lambda>_. serve L pos) opts i cursor st =
      Some (snd (replay_page ops factory (opDryRun opts) (opEndLedger opts) (drop (position pos cursor) L) st))"
proof (induction fuel arbitrary: i cursor st)
  case 0
  then show ?case by simp
next
  case (Suc fuel)
  let ?p = "position pos cursor" and ?b = "nat (opBatchSize opts)"
  define page where "page = take ?b (drop ?p L)"
  have keep: "filter (\<lambda>e. rawContractId (reRaw e) = factory) page = page"
    using log by (auto simp: page_def replay_log_def filter_id_conv dest!: in_set_takeD in_set_dropD)
  have "nat (opMaxRetries opts + 1) = Suc (nat (opMaxRetries opts))" using r by simp
  then have fetch: "fst (fetchEventsWithRetry factory (serve L pos) cursor (opBatchSize opts) (opMaxRetries opts) (opRetryDelayMs opts)) = Inr page"
    by (simp add: fetchEventsWithRetry_def serve_def position_nonempty keep flip: page_def)
  have split: "drop ?p L = page @ drop (?p + ?b) L"
    unfolding page_def by (metis append_take_drop_id drop_drop add.commute)
  show ?case
  proof (cases "page = []")
    case True
    then have "drop ?p L = []" using b by (auto simp: page_def)
    then show ?thesis using fetch True by simp
  next
    case False
    obtain stop st1 where run: "replay_page ops factory (opDryRun opts) (opEndLedger opts) page st = (stop, st1)" by fastforce
    show ?thesis
    proof (cases "stop \<or> int (length page) < opBatchSize opts")
      case True
      have "snd (replay_page ops factory (opDryRun opts) (opEndLedger opts) (drop ?p L) st) = st1"
      proof (cases stop)
        case False
        then have "length page < ?b" using True by simp
        then have "drop (?p + ?b) L = []" by (auto simp: page_def)
        then show ?thesis using run False unfolding split replay_page_append by simp
      qed (simp add: split replay_page_append run)
      then show ?thesis using replay_loop_page [OF fetch \<open>page \<noteq> []\<close> run] True by simp
    next
      case more: False
      have "length page \<le> ?b" by (simp add: page_def)
      then have len: "length page = ?b" using more b by linarith
      then have fits: "?p + ?b \<le> length L" using b unfolding page_def by simp
      have "last page = L ! (?p + ?b - 1)"
        using len b fits \<open>page \<noteq> []\<close> by (simp add: last_conv_nth page_def)
      then have pos_next: "position pos (Some (rePagingToken (last page))) = ?p + ?b"
        using log fits b by (simp add: position_def replay_log_def)
      have "length L - (?p + ?b) < fuel" using Suc.prems fits b by linarith
      from Suc.IH [where cursor = "Some (rePagingToken (last page))" and st = st1 and i = "Suc i"] this
      have "replay_loop fuel ops factory (\<lambda>_. serve L pos) opts (Suc i) (Some (rePagingToken (last page))) st1 =
          Some (snd (replay_page ops factory (opDryRun opts) (opEndLedger opts) (drop (?p + ?b) L) st1))"
        unfolding pos_next by simp
      then show ?thesis using replay_loop_page [OF fetch \<open>page \<noteq> []\<close> run] run more unfolding split replay_page_append by simp
    qed
  qed
qed


lemma replay_page_counts:
  "replay_page ops factory dry l es st = (stop, st1) \<Longrightarrow>
    \<exists>m. m \<le> length es \<and> rsProcessed st1 + rsSkipped st1 = rsProcessed st + rsSkipped st + m \<and>
      (stop \<longleftrightarrow> m < length es) \<and> (\<forall>e\<in>set (take m es). \<forall>n. given l = Some n \<longrightarrow> rawLedger (reRaw e) \<le> n)"
proof (induction es arbitrary: st)
  case Nil
  then show ?case by simp
next
  case (Cons e es)
  show ?case
  proof (cases "case given l of Some n \<Rightarrow> rawLedger (reRaw e) > n | None \<Rightarrow> False")
    case True
    then show ?thesis using Cons.prems by (intro exI [of _ 0]) auto
  next
    case False
    then have "replay_page ops factory dry l es (replay_event_step ops factory dry e st) = (stop, st1)" using Cons.prems by simp
    from Cons.IH [OF this] obtain m where m: "m \<le> length es"
      "rsProcessed st1 + rsSkipped st1 = rsProcessed (replay_event_step ops factory dry e st) + rsSkipped (replay_event_step ops factory dry e st) + m"
      "stop \<longleftrightarrow> m < length es" "\<forall>e\<in>set (take m es). \<forall>n. given l = Some n \<longrightarrow> rawLedger (reRaw e) \<le> n" by blast
    moreover have "rsProcessed (replay_event_step ops factory dry e st) + rsSkipped (replay_event_step ops factory dry e st)
        = Suc (rsProcessed st + rsSkipped st)"
      by (simp add: replay_event_step_def split: sum.split prod.split)
    ultimately show ?thesis using False by (intro exI [of _ "Suc m"]) (auto split: option.splits)
  qed
qed

text \<open>C18: Over a log of the contract's events the replay ends, after at most as many requests as there are events and one more, with the
  tables, the counts, the errors and the final cursor of one pass over the events behind the starting cursor, whatever
  the size of the pages, up to the first event beyond the last ledger.\<close>

theorem replay_equals_one_pass:
  assumes log: "replay_log factory L pos" and "factory \<noteq> []" and "0 < opBatchSize opts" and "0 \<le> opMaxRetries opts" and "length L < fuel"
  shows "replay fuel ops factory origin (\<lambda>_. serve L pos) opts world =
    (case finish_replay opts (snd (replay_page ops factory (opDryRun opts) (opEndLedger opts)
        (drop (position pos (start_cursor origin opts (rwCursor world))) L) (initial_state opts (rwTables world)))) world of
       (r, world1) \<Rightarrow> Some (Inr r, world1))"
  using replay_log_pages [OF log assms(3,4), where fuel = fuel and ops = ops and i = 0 and cursor = "start_cursor origin opts (rwCursor world)"
      and st = "initial_state opts (rwTables world)"] assms(2,5)
  by (simp add: replay_def less_imp_diff_less del: replay_loop.simps)

definition replayed :: "string \<Rightarrow> string \<Rightarrow> string \<Rightarrow> int \<Rightarrow> typed_view \<Rightarrow> replay_event" where
  "replayed contract topic token ledger view = \<lparr>reRaw = \<lparr>rawLedger = ledger, rawCloseTime = [], rawContractId = contract,
     rawTopic = [topic], rawValue = JUndef, rawTxHash = token\<rparr>, rePagingToken = token, reView = view\<rparr>"

definition count_ops :: "nat replay_ops" where
  "count_ops = \<lparr>roToken = (\<lambda>e w. (Inr (), w + 1)), roGovernance = (\<lambda>e w. (Inr (), w + 1)), roStream = (\<lambda>e w. (Inr (), w + 1)),
     roTables = (\<lambda>_ _. []), roSetTables = (\<lambda>_ w. w)\<rparr>"

definition token_pos :: "string \<Rightarrow> nat" where
  "token_pos c = (if c = ''4-1'' then 1 else if c = ''5-1'' then 2 else if c = ''6-1'' then 3 else 0)"

definition stream_object :: typed_view where
  "stream_object = StreamObject (SeMetadataUpdated \<lparr>suStreamId = 1, suMetadata = None, suTimestamp = 0\<rparr>)"

definition own_log :: "replay_event list" where
  "own_log = [replayed ''C'' ''stream_claim'' ''4-1'' 4 stream_object, replayed ''C'' ''stream_claim'' ''5-1'' 5 stream_object,
     replayed ''C'' ''stream_claim'' ''6-1'' 6 stream_object]"

lemma own_log_ok: "replay_log ''C'' own_log token_pos"
  by (simp add: replay_log_def own_log_def replayed_def token_pos_def less_Suc_eq numeral_3_eq_3)

theorem replay_equals_one_pass_witness:
  "replay 4 count_ops ''C'' None (\<lambda>_. serve own_log token_pos) (default_options\<lparr>opBatchSize := 2, opEndLedger := Some 5\<rparr>)
      \<lparr>rwTables = 0, rwCursor = None\<rparr> =
    Some (Inr \<lparr>rrProcessed = 2, rrSkipped = 0, rrStartLedger = 0, rrEndLedger = 5, rrFinalCursor = Some ''5-1'', rrErrors = []\<rparr>,
      \<lparr>rwTables = 2, rwCursor = Some ''5-1''\<rparr>)"
  using replay_equals_one_pass [OF own_log_ok, of "default_options\<lparr>opBatchSize := 2, opEndLedger := Some 5\<rparr>" 4 count_ops None "\<lparr>rwTables = 0, rwCursor = None\<rparr>"]
  by (simp add: default_options_def finish_replay_def start_cursor_def given_def cs_load_def position_def own_log_def replayed_def
      initial_state_def replay_event_step_def replay_processEvent_def route_of_def str_includes.simps stream_object_def count_ops_def cs_save_def)


section \<open>What a replay leaves alone\<close>

lemma replay_page_tables:
  assumes "\<And>e w. e \<in> set es \<Longrightarrow> snd (replay_processEvent ops factory dry e w) = w"
  shows "rsTables (snd (replay_page ops factory dry l es st)) = rsTables st"
  using assms
proof (induction es arbitrary: st)
  case (Cons e es)
  have "rsTables (replay_event_step ops factory dry e st) = rsTables st"
    using Cons.prems [of e "rsTables st"] by (auto simp: replay_event_step_def split: prod.split sum.split)
  then show ?case using Cons by auto
qed simp

lemma fetched_events:
  assumes "fst (fetchEventsWithRetry factory horizon cursor limit retries delay) = Inr events" and "e \<in> set events"
  shows "\<exists>c k es. horizon c limit k = Inr es \<and> e \<in> set es"
  using assms fetch_attempts_spec [of "nat (retries + 1)" factory "horizon (if cursor = Some [] then None else cursor) limit" delay 0
      "''Failed to fetch events after retries''"]
  unfolding fetchEventsWithRetry_def by fastforce

lemma replay_loop_tables:
  assumes quiet: "\<And>i c l k es e w. horizon i c l k = Inr es \<Longrightarrow> e \<in> set es \<Longrightarrow> snd (replay_processEvent ops factory (opDryRun opts) e w) = w"
  shows "replay_loop fuel ops factory horizon opts i cursor st = Some st1 \<Longrightarrow> rsTables st1 = rsTables st"
proof (induction fuel arbitrary: i cursor st)
  case (Suc fuel)
  let ?f = "fst (fetchEventsWithRetry factory (horizon i) cursor (opBatchSize opts) (opMaxRetries opts) (opRetryDelayMs opts))"
  show ?case
  proof (cases ?f)
    case (Inr events)
    show ?thesis
    proof (cases "events = []")
      case False
      obtain stop st2 where page: "replay_page ops factory (opDryRun opts) (opEndLedger opts) events st = (stop, st2)" by fastforce
      have "snd (replay_processEvent ops factory (opDryRun opts) e w) = w" if "e \<in> set events" for e w
        using fetched_events [OF Inr that] quiet by blast
      then have "rsTables st2 = rsTables st" using replay_page_tables [of events ops factory "opDryRun opts" "opEndLedger opts" st] page by simp
      then show ?thesis using Suc replay_loop_page [where horizon = horizon and i = i and cursor = cursor and fuel = fuel, OF Inr False page] by (auto split: if_splits simp del: replay_loop.simps)
    qed (use Suc.prems Inr in auto)
  qed (use Suc.prems in auto)
qed simp

lemma replay_tables:
  assumes "\<And>i c l k es e w. horizon i c l k = Inr es \<Longrightarrow> e \<in> set es \<Longrightarrow> snd (replay_processEvent ops factory (opDryRun opts) e w) = w"
    and "replay fuel ops factory origin horizon opts world = Some (r, world1)"
  shows "rwTables world1 = rwTables world"
  using assms(2) replay_loop_tables [OF assms(1)]
  by (fastforce simp: replay_def finish_replay_def initial_state_def split: if_splits option.splits)

text \<open>A dry run changes neither a table nor the stored cursor, whatever Horizon answers.\<close>

theorem dry_run_changes_nothing:
  assumes "opDryRun opts" and run: "replay fuel ops factory origin horizon opts world = Some (r, world1)"
  shows "world1 = world"
proof -
  have "rwTables world1 = rwTables world"
    by (rule replay_tables [OF _ run]) (simp add: replay_processEvent_def assms(1))
  moreover have "rwCursor world1 = rwCursor world"
    using run assms(1) by (auto simp: replay_def finish_replay_def split: if_splits option.splits)
  ultimately show ?thesis by simp
qed

theorem dry_run_changes_nothing_witness:
  "\<exists>r. replay 4 count_ops ''C'' None (\<lambda>_. serve own_log token_pos) (default_options\<lparr>opDryRun := True\<rparr>) \<lparr>rwTables = 0, rwCursor = Some ''4-1''\<rparr> =
     Some (r, \<lparr>rwTables = 0, rwCursor = Some ''4-1''\<rparr>)"
proof -
  let ?o = "default_options\<lparr>opDryRun := True\<rparr>"
  let ?w = "\<lparr>rwTables = 0, rwCursor = Some ''4-1''\<rparr>"
  have "\<exists>r w1. replay 4 count_ops ''C'' None (\<lambda>_. serve own_log token_pos) ?o ?w = Some (r, w1)"
    unfolding replay_def
    by (subst replay_log_pages [OF own_log_ok]) (auto simp: default_options_def own_log_def split: prod.split)
  then show ?thesis using dry_run_changes_nothing [of ?o 4 count_ops "''C''" None "\<lambda>_. serve own_log token_pos" ?w] by auto
qed

lemma horizon_object_projects_nothing:
  "reView e = HorizonObject \<Longrightarrow> snd (replay_processEvent ops factory dry e w) = w"
  by (auto simp: replay_processEvent_def split: list.split route.split)

text \<open>The objects of Horizon's answer have none of the types that the parsers switch on, so a replay of any log leaves every table as it
  was: the events that it counts as processed have been dropped.\<close>

theorem replay_projects_nothing:
  assumes "\<And>i c l k es e. horizon i c l k = Inr es \<Longrightarrow> e \<in> set es \<Longrightarrow> reView e = HorizonObject"
    and run: "replay fuel ops factory origin horizon opts world = Some (r, world1)"
  shows "rwTables world1 = rwTables world"
  by (rule replay_tables [OF _ run]) (rule horizon_object_projects_nothing, rule assms(1))

definition chain_log :: "replay_event list" where
  "chain_log = [replayed ''C'' ''stream_create'' ''4-1'' 4 HorizonObject, replayed ''C'' ''stream_claim'' ''5-1'' 5 HorizonObject]"

lemma serve_member: "serve L pos c l k = Inr es \<Longrightarrow> e \<in> set es \<Longrightarrow> e \<in> set L"
  by (auto simp: serve_def dest!: in_set_takeD in_set_dropD)

lemma chain_objects: "e \<in> set chain_log \<Longrightarrow> reView e = HorizonObject"
  by (auto simp: chain_log_def replayed_def)

lemma chain_replay:
  "replay 3 count_ops ''C'' None (\<lambda>_. serve chain_log token_pos) default_options \<lparr>rwTables = 0, rwCursor = None\<rparr> =
     Some (Inr \<lparr>rrProcessed = 2, rrSkipped = 0, rrStartLedger = 0, rrEndLedger = 5, rrFinalCursor = Some ''5-1'', rrErrors = []\<rparr>,
       \<lparr>rwTables = 0, rwCursor = Some ''5-1''\<rparr>)"
  by code_simp

theorem replay_projects_nothing_witness:
  "rwTables \<lparr>rwTables = (0 :: nat), rwCursor = Some ''5-1''\<rparr> = rwTables \<lparr>rwTables = 0, rwCursor = None\<rparr> \<and>
   fst (the (replay 3 count_ops ''C'' None (\<lambda>_. serve chain_log token_pos) default_options \<lparr>rwTables = 0, rwCursor = None\<rparr>)) =
     Inr \<lparr>rrProcessed = 2, rrSkipped = 0, rrStartLedger = 0, rrEndLedger = 5, rrFinalCursor = Some ''5-1'', rrErrors = []\<rparr>"
proof (rule conjI)
  show "rwTables \<lparr>rwTables = (0 :: nat), rwCursor = Some ''5-1''\<rparr> = rwTables \<lparr>rwTables = 0, rwCursor = None\<rparr>"
    by (rule replay_projects_nothing [OF _ chain_replay]) (blast intro: chain_objects serve_member)
qed (simp add: chain_replay)


section \<open>Where a replay falls short\<close>

text \<open>The page is filtered by contract after the limit was applied to it, and a page shorter than the limit ends the replay: with an
  event of another contract among the first page, the replay ends there, whatever follows in the log.\<close>

theorem foreign_event_ends_replay:
  assumes f: "factory \<noteq> []" and r: "0 \<le> opMaxRetries opts"
    and page: "page = take (nat (opBatchSize opts)) (drop (position pos (start_cursor origin opts (rwCursor world))) L)"
    and foreign: "\<exists>e\<in>set page. rawContractId (reRaw e) \<noteq> factory"
  shows "replay (Suc fuel) ops factory origin (\<lambda>_. serve L pos) opts world =
    (case finish_replay opts (snd (replay_page ops factory (opDryRun opts) (opEndLedger opts)
        (filter (\<lambda>e. rawContractId (reRaw e) = factory) page) (initial_state opts (rwTables world)))) world of
       (r, world1) \<Rightarrow> Some (Inr r, world1))"
proof -
  define own where "own = filter (\<lambda>e. rawContractId (reRaw e) = factory) page"
  define c where "c = start_cursor origin opts (rwCursor world)"
  define st where "st = initial_state opts (rwTables world)"
  have "nat (opMaxRetries opts + 1) = Suc (nat (opMaxRetries opts))" using r by simp
  then have fetch: "fst (fetchEventsWithRetry factory (serve L pos) c (opBatchSize opts) (opMaxRetries opts) (opRetryDelayMs opts)) = Inr own"
    unfolding fetchEventsWithRetry_def serve_def position_nonempty own_def page c_def by simp
  obtain e where e: "e \<in> set page" "\<not> rawContractId (reRaw e) = factory" using foreign by blast
  have "length own < length page" unfolding own_def using e by (intro length_filter_less [of e]) auto
  moreover have "length page \<le> nat (opBatchSize opts)" unfolding page by simp
  ultimately have short: "int (length own) < opBatchSize opts" by linarith
  have "replay_loop (Suc fuel) ops factory (\<lambda>_. serve L pos) opts 0 c st =
      Some (snd (replay_page ops factory (opDryRun opts) (opEndLedger opts) own st))"
  proof (cases "own = []")
    case True
    then show ?thesis using fetch by simp
  next
    case False
    obtain stop st1 where run: "replay_page ops factory (opDryRun opts) (opEndLedger opts) own st = (stop, st1)" by fastforce
    show ?thesis
      using replay_loop_page [where horizon = "\<lambda>_. serve L pos" and i = 0 and cursor = c and fuel = fuel, OF fetch False run] run short
      by (simp del: replay_loop.simps replay_page.simps)
  qed
  then show ?thesis using f unfolding replay_def own_def [symmetric] c_def st_def by simp
qed

definition mixed_log :: "replay_event list" where
  "mixed_log = [replayed ''C'' ''stream_claim'' ''4-1'' 4 stream_object, replayed ''D'' ''x'' ''5-1'' 5 stream_object,
     replayed ''C'' ''stream_claim'' ''6-1'' 6 stream_object]"

text \<open>The third event is the contract's own, and no fuel brings the replay to it.\<close>

theorem foreign_event_ends_replay_witness:
  "(\<forall>fuel. replay (Suc fuel) count_ops ''C'' None (\<lambda>_. serve mixed_log token_pos) (default_options\<lparr>opBatchSize := 2\<rparr>) \<lparr>rwTables = 0, rwCursor = None\<rparr> =
     Some (Inr \<lparr>rrProcessed = 1, rrSkipped = 0, rrStartLedger = 0, rrEndLedger = 4, rrFinalCursor = Some ''4-1'', rrErrors = []\<rparr>,
       \<lparr>rwTables = 1, rwCursor = Some ''4-1''\<rparr>)) \<and> rawContractId (reRaw (mixed_log ! 2)) = ''C''"
proof (intro conjI allI)
  fix fuel
  let ?o = "default_options\<lparr>opBatchSize := 2\<rparr>" and ?w = "\<lparr>rwTables = 0 :: nat, rwCursor = None\<rparr>"
  let ?page = "take (nat (opBatchSize ?o)) (drop (position token_pos (start_cursor None ?o (rwCursor ?w))) mixed_log)"
  have "''C'' \<noteq> []" "0 \<le> opMaxRetries ?o" "\<exists>e\<in>set ?page. rawContractId (reRaw e) \<noteq> ''C''" by code_simp+
  from foreign_event_ends_replay [OF this(1,2) refl this(3), of fuel count_ops]
  have "replay (Suc fuel) count_ops ''C'' None (\<lambda>_. serve mixed_log token_pos) ?o ?w =
    (case finish_replay ?o (snd (replay_page count_ops ''C'' (opDryRun ?o) (opEndLedger ?o)
        (filter (\<lambda>e. rawContractId (reRaw e) = ''C'') ?page) (initial_state ?o (rwTables ?w)))) ?w of (r, world1) \<Rightarrow> Some (Inr r, world1))" .
  also have "\<dots> = Some (Inr \<lparr>rrProcessed = 1, rrSkipped = 0, rrStartLedger = 0, rrEndLedger = 4, rrFinalCursor = Some ''4-1'', rrErrors = []\<rparr>,
       \<lparr>rwTables = 1, rwCursor = Some ''4-1''\<rparr>)" by code_simp
  finally show "replay (Suc fuel) count_ops ''C'' None (\<lambda>_. serve mixed_log token_pos) ?o ?w =
     Some (Inr \<lparr>rrProcessed = 1, rrSkipped = 0, rrStartLedger = 0, rrEndLedger = 4, rrFinalCursor = Some ''4-1'', rrErrors = []\<rparr>,
       \<lparr>rwTables = 1, rwCursor = Some ''4-1''\<rparr>)" .
qed (simp add: mixed_log_def replayed_def)

text \<open>Clearing deletes the tokens before their burns, the proposals before their votes and the campaigns before their executions
  and audit trail, under foreign keys that restrict, and leaves other tables that refer to these: with rows in any table and in the one
  that it refers to, it fails and changes nothing.\<close>

theorem clear_fails_with_children:
  assumes "(child, col, parent) \<in> set FOREIGN_KEYS"
    and "roTables ops (rwTables world) parent \<noteq> []" "roTables ops (rwTables world) child \<noteq> []"
  shows "clearAndRebuild fuel ops factory origin horizon opts world = Some (Inl (DatabaseError ''foreign key constraint''), world)"
proof -
  have "delete_tables CLEARED_TABLES (roTables ops (rwTables world)) = None"
    using assms by (auto simp: CLEARED_TABLES_def FOREIGN_KEYS_def)
  then show ?thesis by (simp add: clearAndRebuild_def delete_transaction_def)
qed

definition table_ops :: "db_tables replay_ops" where
  "table_ops = \<lparr>roToken = (\<lambda>e w. (Inr (), w)), roGovernance = (\<lambda>e w. (Inr (), w)), roStream = (\<lambda>e w. (Inr (), w)),
     roTables = (\<lambda>w. w), roSetTables = (\<lambda>db w. db)\<rparr>"

theorem clear_fails_with_children_witness:
  "clearAndRebuild 3 table_ops ''C'' None (\<lambda>_. serve chain_log token_pos) default_options \<lparr>rwTables = snapped_tables, rwCursor = None\<rparr> =
     Some (Inl (DatabaseError ''foreign key constraint''), \<lparr>rwTables = snapped_tables, rwCursor = None\<rparr>)"
  by (rule clear_fails_with_children [of "''Vote''" "''proposalId''" "''Proposal''"]) (simp_all add: table_ops_def snapped_tables_def FOREIGN_KEYS_def)

text \<open>Without a configured origin a rebuild resumes from the stored cursor: after a replay to the end of the log it requests the events
  behind the last one, finds none and ends with empty tables, although the log has events.\<close>

theorem rebuild_without_origin_is_empty:
  "clearAndRebuild 5 table_ops ''C'' None (\<lambda>_. serve own_log token_pos) default_options \<lparr>rwTables = (\<lambda>_. [])(''Stream'' := [snapped_stream]), rwCursor = Some ''6-1''\<rparr> =
     Some (Inr \<lparr>rrProcessed = 0, rrSkipped = 0, rrStartLedger = 0, rrEndLedger = 0, rrFinalCursor = None, rrErrors = []\<rparr>,
       \<lparr>rwTables = \<lambda>_. [], rwCursor = Some ''6-1''\<rparr>) \<and> own_log \<noteq> []"
proof -
  have del: "delete_transaction CLEARED_TABLES ((\<lambda>_. [])(''Stream'' := [snapped_stream])) = (Inr (), \<lambda>_. [])"
    by (auto simp: delete_transaction_def CLEARED_TABLES_def FOREIGN_KEYS_def)
  have "replay 5 table_ops ''C'' None (\<lambda>_. serve own_log token_pos) default_options \<lparr>rwTables = \<lambda>_. [], rwCursor = Some ''6-1''\<rparr> =
     Some (Inr \<lparr>rrProcessed = 0, rrSkipped = 0, rrStartLedger = 0, rrEndLedger = 0, rrFinalCursor = None, rrErrors = []\<rparr>,
       \<lparr>rwTables = \<lambda>_. [], rwCursor = Some ''6-1''\<rparr>)"
    unfolding replay_def
    by (subst replay_log_pages [OF own_log_ok])
       (simp_all add: default_options_def own_log_def start_cursor_def given_def cs_load_def position_def token_pos_def initial_state_def finish_replay_def)
  then show ?thesis by (simp add: clearAndRebuild_def table_ops_def del own_log_def default_options_def)
qed

text \<open>A replay of a range of old ledgers stores the cursor of its last event over the one that the listener has reached, and the
  listener resumes from there.\<close>

theorem replay_moves_cursor_back:
  "\<exists>r. replay 5 count_ops ''C'' None (\<lambda>_. serve own_log token_pos) (default_options\<lparr>opEndLedger := Some 4, opStartLedger := Some 4\<rparr>)
      \<lparr>rwTables = 0, rwCursor = Some ''6-1''\<rparr> = Some (Inr r, \<lparr>rwTables = 1, rwCursor = Some ''4-1''\<rparr>) \<and>
     parseLedgerFromCursor ''4-1'' = Some 4 \<and> parseLedgerFromCursor ''6-1'' = Some 6"
proof -
  have "replay 5 count_ops ''C'' None (\<lambda>_. serve own_log token_pos) (default_options\<lparr>opEndLedger := Some 4, opStartLedger := Some 4\<rparr>)
      \<lparr>rwTables = 0, rwCursor = Some ''6-1''\<rparr> =
    Some (Inr \<lparr>rrProcessed = 1, rrSkipped = 0, rrStartLedger = 4, rrEndLedger = 4, rrFinalCursor = Some ''4-1'', rrErrors = []\<rparr>,
      \<lparr>rwTables = 1, rwCursor = Some ''4-1''\<rparr>)" by code_simp
  moreover have "parseLedgerFromCursor ''4-1'' = Some 4" "parseLedgerFromCursor ''6-1'' = Some 6" by code_simp+
  ultimately show ?thesis by blast
qed

section \<open>The consistency check\<close>

lemma rows_json_empty: "rows_json i rows = rows_json i [] \<longleftrightarrow> rows = []"
proof -
  have "length (sortById rows) = length rows" by (simp add: sortById_def)
  then have "sortById rows = [] \<longleftrightarrow> rows = []" by (metis length_0_conv)
  then show ?thesis by (simp add: rows_json_def) (simp add: sortById_def)
qed

lemma captured_empty:
  assumes "\<forall>t\<in>set SNAPSHOT_TABLES. cleared t = []"
  shows "captureForType i T db = captureForType i T cleared \<longleftrightarrow>
    (\<forall>t\<in>set (case T of CAMPAIGN \<Rightarrow> [''Campaign'', ''CampaignExecution'', ''CampaignAuditTrail'']
        | GOVERNANCE \<Rightarrow> [''Proposal'', ''Vote'', ''ProposalExecution''] | _ \<Rightarrow> [''Stream'']). db t = [])"
  using assms
  by (cases T) (auto simp: captureForType_def captureCampaignData_def captureGovernanceData_def captureStreamData_def SNAPSHOT_TABLES_def rows_json_empty)

lemma no_mismatch:
  assumes "\<forall>t\<in>set SNAPSHOT_TABLES. cleared t = []"
  shows "mismatches (captureAllProjectionData i (\<lambda>_. db)) (captureAllProjectionData i (\<lambda>_. cleared)) = [] \<longleftrightarrow> (\<forall>t\<in>set SNAPSHOT_TABLES. db t = [])"
  by (simp add: mismatches_def captureAllProjectionData_def PROJECTION_TYPES_def captured_empty [OF assms] SNAPSHOT_TABLES_def) blast

lemma cleared_tables:
  assumes "delete_transaction CLEARED_TABLES db0 = (Inr (), db)"
  shows "\<forall>t\<in>set CLEARED_TABLES. db t = []"
proof -
  have "delete_tables ts d = Some d' \<Longrightarrow> \<forall>t\<in>set ts. d' t = []" for ts d d'
  proof (induction ts arbitrary: d)
    case (Cons t ts)
    have keep: "delete_tables us x = Some y \<Longrightarrow> x t = [] \<Longrightarrow> y t = []" for us x y
      by (induction us arbitrary: x) (auto split: if_splits)
    show ?case using Cons keep by (auto split: if_splits)
  qed simp
  then show ?thesis using assms by (auto simp: delete_transaction_def split: option.splits)
qed


lemma cleared_snapshot_tables:
  assumes ok: "tables_ok db0" and del: "delete_transaction CLEARED_TABLES db0 = (Inr (), db)"
  shows "\<forall>t\<in>set SNAPSHOT_TABLES. db t = []"
proof -
  have other: "delete_tables ts d = Some d' \<Longrightarrow> t \<notin> set ts \<Longrightarrow> d' t = d t" for ts d d' t
    by (induction ts arbitrary: d) (auto split: if_splits)
  have run: "delete_tables CLEARED_TABLES db0 = Some db" using del by (auto simp: delete_transaction_def split: option.splits)
  have "db0 ''ProposalExecution'' = []"
  proof (rule ccontr)
    assume "db0 ''ProposalExecution'' \<noteq> []"
    then obtain r where r: "r \<in> set (db0 ''ProposalExecution'')" by (cases "db0 ''ProposalExecution''") auto
    then have "parents_exist db0 ''ProposalExecution'' r" using ok by (simp add: tables_ok_def SNAPSHOT_TABLES_def)
    then have "db0 ''Proposal'' \<noteq> []" by (auto simp: parents_exist_def FOREIGN_KEYS_def)
    then show False using run r by (auto simp: CLEARED_TABLES_def FOREIGN_KEYS_def split: if_splits)
  qed
  then have "db ''ProposalExecution'' = []" using other [OF run, of "''ProposalExecution''"] by (simp add: CLEARED_TABLES_def)
  then show ?thesis using cleared_tables [OF del] by (simp add: CLEARED_TABLES_def SNAPSHOT_TABLES_def)
qed

text \<open>When a snapshot is used, the check of the replay from it against the replay from scratch reports them consistent
  exactly when the snapshot has no row: the second pass projects none of Horizon's events, so the check refuses
  every snapshot of data.\<close>

theorem check_refuses_every_snapshot:
  assumes horizon: "\<And>i c l k es e. horizon1 i c l k = Inr es \<Longrightarrow> e \<in> set es \<Longrightarrow> reView e = HorizonObject"
      "\<And>i c l k es e. horizon2 i c l k = Inr es \<Longrightarrow> e \<in> set es \<Longrightarrow> reView e = HorizonObject"
    and lens: "\<And>db w. roTables ops (roSetTables ops db w) = db"
    and near: "findNearestUsableSnapshotLedger target snaps = Some l"
    and restore: "restoreAllProjectionSnapshots date_of l snaps (roTables ops (rwTables world)) = (Inr (), db)" and ok: "tables_ok db"
    and run: "verifyProjectionSnapshotConsistency fuel ops factory origin iso_text date_of horizon1 horizon2 snaps target world
      = Some (Inr (consistent, bad), world2)"
  shows "consistent \<longleftrightarrow> (\<forall>t\<in>set SNAPSHOT_TABLES. db t = [])"
proof -
  let ?w0 = "world\<lparr>rwTables := roSetTables ops db (rwTables world)\<rparr>"
  obtain r1 world1 where one: "replayFromLedger fuel ops factory origin date_of horizon1 snaps target default_options world = Some (Inr r1, world1)"
    using run by (auto simp: verifyProjectionSnapshotConsistency_def split: option.splits prod.splits sum.splits)
  then have "replay fuel ops factory origin horizon1 (default_options\<lparr>opStartLedger := Some (l + 1), opEndLedger := Some target\<rparr>) ?w0
      = Some (Inr r1, world1)"
    using near restore by (simp add: replayFromLedger_def)
  then have w1: "rwTables world1 = roSetTables ops db (rwTables world)"
    using replay_tables [where horizon = horizon1, OF horizon_object_projects_nothing [OF horizon(1)]] by fastforce
  obtain r2 where two: "clearAndRebuild fuel ops factory origin horizon2 (default_options\<lparr>opEndLedger := Some target\<rparr>) world1 = Some (Inr r2, world2)"
    and res: "consistent \<longleftrightarrow> mismatches (captureAllProjectionData iso_text (\<lambda>_. roTables ops (rwTables world1)))
                            (captureAllProjectionData iso_text (\<lambda>_. roTables ops (rwTables world2))) = []"
    using run one by (auto simp: verifyProjectionSnapshotConsistency_def Let_def split: option.splits prod.splits sum.splits)
  obtain db2 where del: "delete_transaction CLEARED_TABLES db = (Inr (), db2)"
    using two w1 lens by (auto simp: clearAndRebuild_def split: prod.splits sum.splits)
  let ?w1 = "world1\<lparr>rwTables := roSetTables ops db2 (rwTables world1), rwCursor := (case origin of Some c \<Rightarrow> if c = [] then rwCursor world1
    else cs_save c (rwCursor world1) | None \<Rightarrow> rwCursor world1)\<rparr>"
  have "replay fuel ops factory origin horizon2 (default_options\<lparr>opEndLedger := Some target, opStartLedger := None\<rparr>) ?w1 = Some (Inr r2, world2)"
    using two w1 lens del by (simp add: clearAndRebuild_def)
  then have "rwTables world2 = roSetTables ops db2 (rwTables world1)"
    using replay_tables [where horizon = horizon2, OF horizon_object_projects_nothing [OF horizon(2)]] by fastforce
  then show ?thesis
    using res w1 lens no_mismatch [OF cleared_snapshot_tables [OF ok del]] by simp
qed

definition stream_tables :: db_tables where
  "stream_tables = (\<lambda>_. [])(''Stream'' := [snapped_stream])"

lemma stream_tables_ok: "tables_ok stream_tables"
  by (simp add: tables_ok_def stream_tables_def SNAPSHOT_TABLES_def row_ok_def columns_of_def Stream_columns_def snapped_stream_def
      cell_ok_def scalar_def parents_exist_def FOREIGN_KEYS_def unique_keys_def row_key_def)

lemma chain_log_ok: "replay_log ''C'' chain_log token_pos"
  by (simp add: replay_log_def chain_log_def replayed_def token_pos_def less_Suc_eq)

lemma route_names: "route_of ''stream_create'' = ToStream" "route_of ''stream_claim'' = ToStream"
  by code_simp+

lemma chain_pass:
  assumes "opBatchSize opts = 100" "opMaxRetries opts = 5" "\<not> opDryRun opts" "opEndLedger opts = Some 9"
    and "position token_pos (start_cursor None opts c) = 0"
  shows "\<exists>r. replay 3 ops ''C'' None (\<lambda>_. serve chain_log token_pos) opts \<lparr>rwTables = w, rwCursor = c\<rparr> =
    Some (Inr r, \<lparr>rwTables = w, rwCursor = Some ''5-1''\<rparr>)"
  unfolding replay_def using assms
  by (subst replay_log_pages [OF chain_log_ok])
     (simp_all add: chain_log_def replayed_def given_def replay_event_step_def replay_processEvent_def route_names finish_replay_def initial_state_def cs_save_def)

lemma chain_idle:
  assumes "opBatchSize opts = 100" "opMaxRetries opts = 5" "position token_pos (start_cursor None opts c) = 2"
  shows "\<exists>r. replay 3 ops ''C'' None (\<lambda>_. serve chain_log token_pos) opts \<lparr>rwTables = w, rwCursor = c\<rparr> =
    Some (Inr r, \<lparr>rwTables = w, rwCursor = c\<rparr>)"
  unfolding replay_def using assms
  by (subst replay_log_pages [OF chain_log_ok]) (simp_all add: chain_log_def finish_replay_def initial_state_def)

lemma demo_near: "findNearestUsableSnapshotLedger 9 (captureAllProjectionSnapshots show_int 3 ''3-1'' (\<lambda>_. stream_tables) []) = Some 3"
  by (subst capture_new_ledger) (simp_all add: findNearestUsableSnapshotLedger_def types_by_ledger_def PROJECTION_TYPES_def snap_of_def jm_set_def)

lemma demo_restore:
  "restoreAllProjectionSnapshots big_int_of 3 (captureAllProjectionSnapshots show_int 3 ''3-1'' (\<lambda>_. stream_tables) []) (\<lambda>_. [])
    = (Inr (), stream_tables)"
  by (subst restore_of_capture [OF stream_tables_ok big_int_of_show_int])
     (auto simp: restored_def stream_tables_def sortById_def fun_eq_iff)

lemma demo_check:
  "\<exists>world2. verifyProjectionSnapshotConsistency 3 table_ops ''C'' None show_int big_int_of (\<lambda>_. serve chain_log token_pos) (\<lambda>_. serve chain_log token_pos)
       (captureAllProjectionSnapshots show_int 3 ''3-1'' (\<lambda>_. stream_tables) []) 9 \<lparr>rwTables = \<lambda>_. [], rwCursor = None\<rparr>
     = Some (Inr (False, [STREAM, VAULT]), world2)"
proof -
  let ?h = "\<lambda>_ :: nat. serve chain_log token_pos"
  let ?o1 = "default_options\<lparr>opStartLedger := Some (3 + 1), opEndLedger := Some 9\<rparr>" and ?o2 = "default_options\<lparr>opEndLedger := Some 9, opStartLedger := None\<rparr>"
  have "show_int 3 = ''3''" by code_simp
  then have "position token_pos (start_cursor None ?o1 None) = 0"
    by (simp add: start_cursor_def given_def position_def token_pos_def)
  then obtain r1 where one: "replay 3 table_ops ''C'' None ?h ?o1 \<lparr>rwTables = stream_tables, rwCursor = None\<rparr> =
      Some (Inr r1, \<lparr>rwTables = stream_tables, rwCursor = Some ''5-1''\<rparr>)"
    using chain_pass [of ?o1 None table_ops stream_tables] by (auto simp: default_options_def)
  have "position token_pos (start_cursor None ?o2 (Some ''5-1'')) = 2"
    by (simp add: start_cursor_def given_def position_def token_pos_def cs_load_def)
  then obtain r2 where two: "replay 3 table_ops ''C'' None ?h ?o2 \<lparr>rwTables = \<lambda>_. [], rwCursor = Some ''5-1''\<rparr> =
      Some (Inr r2, \<lparr>rwTables = \<lambda>_. [], rwCursor = Some ''5-1''\<rparr>)"
    using chain_idle [of ?o2 "Some ''5-1''" table_ops "\<lambda>_. []"] by (auto simp: default_options_def)
  have del: "delete_transaction CLEARED_TABLES stream_tables = (Inr (), \<lambda>_. [])"
    by (auto simp: delete_transaction_def CLEARED_TABLES_def FOREIGN_KEYS_def stream_tables_def)
  have "mismatches (captureAllProjectionData show_int (\<lambda>_. stream_tables)) (captureAllProjectionData show_int (\<lambda>_ _. [])) = [STREAM, VAULT]"
    by (simp add: mismatches_def captureAllProjectionData_def PROJECTION_TYPES_def captured_empty) (simp add: stream_tables_def)
  then show ?thesis
    using one two
    by (simp add: verifyProjectionSnapshotConsistency_def replayFromLedger_def demo_near clearAndRebuild_def table_ops_def del demo_restore)
qed

theorem check_refuses_every_snapshot_witness:
  "\<exists>bad world2. verifyProjectionSnapshotConsistency 3 table_ops ''C'' None show_int big_int_of (\<lambda>_. serve chain_log token_pos) (\<lambda>_. serve chain_log token_pos)
       (captureAllProjectionSnapshots show_int 3 ''3-1'' (\<lambda>_. stream_tables) []) 9 \<lparr>rwTables = \<lambda>_. [], rwCursor = None\<rparr>
     = Some (Inr ((\<forall>t\<in>set SNAPSHOT_TABLES. stream_tables t = []), bad), world2)"
proof -
  obtain world2 where run: "verifyProjectionSnapshotConsistency 3 table_ops ''C'' None show_int big_int_of (\<lambda>_. serve chain_log token_pos) (\<lambda>_. serve chain_log token_pos)
       (captureAllProjectionSnapshots show_int 3 ''3-1'' (\<lambda>_. stream_tables) []) 9 \<lparr>rwTables = \<lambda>_. [], rwCursor = None\<rparr>
     = Some (Inr (False, [STREAM, VAULT]), world2)" using demo_check by blast
  have "False \<longleftrightarrow> (\<forall>t\<in>set SNAPSHOT_TABLES. stream_tables t = [])"
    by (rule check_refuses_every_snapshot [OF _ _ _ demo_near _ stream_tables_ok run])
       (auto simp: table_ops_def demo_restore intro: chain_objects serve_member)
  then show ?thesis using run by auto
qed

end
