(* ===== verification/Chain_Verifier.thy ===== *)
theory Chain_Verifier
  imports Token_Projection Stream_Projection JS_Value
begin

text \<open>
  \<open>backend/src/services/consistency/onchainProjectionVerifier.ts\<close>: the comparison of the projections of tokens, burns and vaults
  with what the events of the contract say, its report, and the reconciliation of a token.

  Horizon's answers are parameters: the data of a response, or \<open>Inl\<close> when the request fails. A whole number or its decimal
  text is a number; other texts and fractions are \<open>NaN\<close>. The texts of errors stop before the message of the failure.
\<close>

section \<open>Values of an event\<close>

definition js_at :: "jsval \<Rightarrow> nat \<Rightarrow> jsval" where
  "js_at v k = (case v of JArr vs \<Rightarrow> if k < length vs then vs ! k else JUndef | JStr s \<Rightarrow> if k < length s then JStr [s ! k] else JUndef | _ \<Rightarrow> JUndef)"

definition js_disj :: "jsval \<Rightarrow> jsval \<Rightarrow> jsval" where
  "js_disj a b = (if js_truthy a then a else b)"

text \<open>\<open>Number(v)\<close> when it is an integer.\<close>

definition js_integer :: "jsval \<Rightarrow> int option" where
  "js_integer v =
     (case v of JNum n \<Rightarrow> Some n | JStr s \<Rightarrow> big_int_of s | JBool b \<Rightarrow> Some (if b then 1 else 0) | JNull \<Rightarrow> Some 0
      | JArr vs \<Rightarrow> big_int_of (js_to_string v) | _ \<Rightarrow> None)"

text \<open>\<open>BigInt(v)\<close>; \<open>None\<close> when it throws.\<close>

definition js_bigint :: "jsval \<Rightarrow> int option" where
  "js_bigint v =
     (case v of JNum n \<Rightarrow> Some n | JStr s \<Rightarrow> big_int_of s | JBool b \<Rightarrow> Some (if b then 1 else 0)
      | JArr vs \<Rightarrow> big_int_of (js_to_string v) | _ \<Rightarrow> None)"

definition records_of :: "jsval \<Rightarrow> jsval" where
  "records_of data = js_prop (js_prop data ''_embedded'') ''records''"

section \<open>What the events say\<close>

record onchain_burn =
  obTokenAddress :: jsval
  obFrom :: jsval
  obAmount :: int
  obBurnedBy :: jsval
  obIsAdminBurn :: bool
  obTxHash :: jsval

record onchain_factory =
  ofAdmin :: jsval
  ofTreasury :: jsval
  ofBaseFee :: int
  ofMetadataFee :: int
  ofPaused :: jsval
  ofTokenCount :: "int option"

record onchain_vault =
  ovStreamId :: int
  ovCreator :: jsval
  ovRecipient :: jsval
  ovAmount :: int
  ovStatus :: stream_status

type_synonym answer = "(jsval, jsval) res"

definition parseFactoryStateFromEvents :: "jsval list \<Rightarrow> onchain_factory option" where
  "parseFactoryStateFromEvents events =
     (let value = js_prop (js_at (JArr events) 0) ''value''
      in case (js_bigint (js_disj (js_prop value ''base_fee'') (JStr ''0'')), js_bigint (js_disj (js_prop value ''metadata_fee'') (JStr ''0''))) of
           (Some base, Some meta) \<Rightarrow>
             Some \<lparr>ofAdmin = js_disj (js_prop value ''admin'') (JStr []), ofTreasury = js_disj (js_prop value ''treasury'') (JStr []),
               ofBaseFee = base, ofMetadataFee = meta, ofPaused = js_disj (js_prop value ''paused'') (JBool False),
               ofTokenCount = parse_int10 (js_to_string (js_disj (js_prop value ''token_count'') (JStr ''0'')))\<rparr>
         | _ \<Rightarrow> None)"

definition fetchFactoryState :: "string \<Rightarrow> answer \<Rightarrow> onchain_factory option" where
  "fetchFactoryState factory answer =
     (if factory = [] then None
      else (case answer of
              Inl _ \<Rightarrow> None
            | Inr data \<Rightarrow> (case records_of data of JArr (e # es) \<Rightarrow> parseFactoryStateFromEvents (e # es) | _ \<Rightarrow> None)))"

definition fetchTokenCount :: "string \<Rightarrow> answer \<Rightarrow> int option option" where
  "fetchTokenCount factory answer = map_option ofTokenCount (fetchFactoryState factory answer)"

definition parseBurnEvent :: "jsval \<Rightarrow> onchain_burn option" where
  "parseBurnEvent event =
     (let value = js_disj (js_prop event ''value'') (JObj [])
      in map_option (\<lambda>amount.
           \<lparr>obTokenAddress = js_disj (js_disj (js_prop value ''token_address'') (js_at (js_prop event ''topic'') 1)) (JStr []),
            obFrom = js_disj (js_prop value ''from'') (JStr []), obAmount = amount,
            obBurnedBy = js_disj (js_disj (js_prop value ''burned_by'') (js_prop value ''from'')) (JStr []),
            obIsAdminBurn = (js_at (js_prop event ''topic'') 0 = JStr ''adm_burn''),
            obTxHash = js_disj (js_disj (js_prop event ''transaction_hash'') (js_prop event ''id'')) (JStr [])\<rparr>)
         (js_bigint (js_disj (js_prop value ''amount'') (JStr ''0''))))"

definition is_burn_event :: "jsval \<Rightarrow> bool" where
  "is_burn_event r \<longleftrightarrow> js_at (js_prop r ''topic'') 0 \<in> {JStr ''tok_burn'', JStr ''adm_burn''}"

text \<open>\<open>None\<close> is the \<open>null\<close> of a failure.\<close>

definition fetchBurnEvents :: "answer \<Rightarrow> onchain_burn list option" where
  "fetchBurnEvents answer =
     (case answer of
        Inl _ \<Rightarrow> None
      | Inr data \<Rightarrow>
          if \<not> js_truthy (records_of data) then Some []
          else (case records_of data of
                  JArr rs \<Rightarrow> if \<exists>r\<in>set rs. js_nullish r then None else those (map parseBurnEvent (filter is_burn_event rs))
                | _ \<Rightarrow> None))"

definition vault_event_id :: "jsval \<Rightarrow> int option" where
  "vault_event_id event =
     (let value = js_coalesce (js_prop event ''value'') (JObj [])
      in js_integer (js_coalesce (js_coalesce (js_prop value ''stream_id'') (js_prop value ''streamId'')) (js_at (js_prop event ''topic'') 1)))"

definition applyVaultEvent :: "jsval \<Rightarrow> (int, onchain_vault) jsmap \<Rightarrow> (int, onchain_vault) jsmap option" where
  "applyVaultEvent event states =
     (let topic = js_at (js_prop event ''topic'') 0; value = js_coalesce (js_prop event ''value'') (JObj [])
      in case vault_event_id event of
           None \<Rightarrow> Some states
         | Some i \<Rightarrow>
             if topic = JStr ''vlt_cr_v1''
             then map_option (\<lambda>amount. jm_set states i
                    \<lparr>ovStreamId = i, ovCreator = js_disj (js_prop value ''creator'') (JStr []), ovRecipient = js_disj (js_prop value ''recipient'') (JStr []),
                     ovAmount = amount, ovStatus = StreamCreated\<rparr>) (js_bigint (js_disj (js_prop value ''amount'') (JStr ''0'')))
             else (case jm_get states i of
                     None \<Rightarrow> Some states
                   | Some v \<Rightarrow>
                       if topic = JStr ''vlt_cl_v1'' then Some (jm_set states i (v\<lparr>ovStatus := StreamClaimed\<rparr>))
                       else if topic = JStr ''vlt_cn_v1'' then Some (jm_set states i (v\<lparr>ovStatus := StreamCancelled\<rparr>))
                       else Some states))"

fun fold_vaults :: "jsval list \<Rightarrow> (int, onchain_vault) jsmap \<Rightarrow> (int, onchain_vault) jsmap option" where
  "fold_vaults [] states = Some states"
| "fold_vaults (e # es) states = (case applyVaultEvent e states of None \<Rightarrow> None | Some s \<Rightarrow> fold_vaults es s)"

text \<open>\<open>horizon k c\<close> is the answer to the request of page \<open>k\<close> with the cursor \<open>c\<close>; \<open>n\<close> pages are left.\<close>

fun vault_pages ::
  "(nat \<Rightarrow> jsval \<Rightarrow> answer) \<Rightarrow> nat \<Rightarrow> nat \<Rightarrow> jsval \<Rightarrow> (int, onchain_vault) jsmap \<Rightarrow> (int, onchain_vault) jsmap option" where
  "vault_pages horizon page 0 cursor states = Some states"
| "vault_pages horizon page (Suc n) cursor states =
     (case horizon page cursor of
        Inl _ \<Rightarrow> None
      | Inr data \<Rightarrow>
          (case js_coalesce (records_of data) (JArr []) of
             JArr rs \<Rightarrow>
               (case fold_vaults rs states of
                  None \<Rightarrow> None
                | Some s \<Rightarrow>
                    if length rs < 200 then Some s
                    else (let c = js_prop (last rs) ''paging_token''
                          in if \<not> js_truthy c then Some s else vault_pages horizon (Suc page) n c s))
           | _ \<Rightarrow> None))"

definition fetchVaultStates :: "string \<Rightarrow> (nat \<Rightarrow> jsval \<Rightarrow> answer) \<Rightarrow> nat \<Rightarrow> (int, onchain_vault) jsmap option" where
  "fetchVaultStates factory horizon maxPages = (if factory = [] then None else vault_pages horizon 0 maxPages JUndef [])"

section \<open>Differences\<close>

datatype diff_entity = TokenEntity | BurnEntity | FactoryEntity | VaultEntity
datatype diff_severity = SevError | SevWarning

record consistency_diff =
  dfEntity :: diff_entity
  dfIdentifier :: string
  dfField :: string
  dfBackend :: jsval
  dfOnChain :: jsval
  dfSeverity :: diff_severity

record tolerances =
  tlAmountDriftPercent :: int
  tlCountDriftAbsolute :: int

definition exact_tolerances :: tolerances where
  "exact_tolerances = \<lparr>tlAmountDriftPercent = 0, tlCountDriftAbsolute = 0\<rparr>"

definition isWithinTolerance :: "tolerances \<Rightarrow> int \<Rightarrow> int \<Rightarrow> bool" where
  "isWithinTolerance tol backend onChain =
     (if tlAmountDriftPercent tol = 0 then backend = onChain
      else let maxVal = max backend onChain; diff = \<bar>backend - onChain\<bar>
           in maxVal = 0 \<or> (if maxVal > 0 then diff * 100 div maxVal else - (diff * 100 div (- maxVal))) \<le> tlAmountDriftPercent tol)"

record check_result =
  crDiffs :: "consistency_diff list"
  crErrors :: "string list"
  crChecked :: int

text \<open>\<open>nrows\<close> is the number of rows of the table, \<open>None\<close> when the query fails. A count that is \<open>NaN\<close> is above no tolerance.\<close>

definition checkTokenCounts :: "tolerances \<Rightarrow> string \<Rightarrow> answer \<Rightarrow> int option \<Rightarrow> check_result" where
  "checkTokenCounts tol factory answer nrows =
     (case nrows of
        None \<Rightarrow> \<lparr>crDiffs = [], crErrors = [''Token count check failed''], crChecked = 0\<rparr>
      | Some backend \<Rightarrow>
          (case fetchTokenCount factory answer of
             None \<Rightarrow> \<lparr>crDiffs = [], crErrors = [''Could not fetch on-chain token count''], crChecked = backend\<rparr>
           | Some None \<Rightarrow> \<lparr>crDiffs = [], crErrors = [], crChecked = backend\<rparr>
           | Some (Some n) \<Rightarrow>
               \<lparr>crDiffs = (if \<bar>backend - n\<bar> > tlCountDriftAbsolute tol
                  then [\<lparr>dfEntity = FactoryEntity, dfIdentifier = ''token_count'', dfField = ''tokenCount'', dfBackend = JNum backend,
                         dfOnChain = JNum n, dfSeverity = (if \<bar>backend - n\<bar> > 5 then SevError else SevWarning)\<rparr>]
                  else []), crErrors = [], crChecked = backend\<rparr>))"

section \<open>Reconciliation of a token\<close>

record verified_token = token_proj_row +
  vtLastReconciledAt :: "int option"

definition total_burned :: "onchain_burn list \<Rightarrow> int" where
  "total_burned burns = foldl (\<lambda>sum b. sum + obAmount b) 0 burns"

record reconciliation =
  rcTokenAddress :: string
  rcFieldsUpdated :: "string list"
  rcAlreadyConsistent :: bool
  rcLastReconciledAt :: int

text \<open>
  \<open>known\<close> says whether the generated client knows the column \<open>lastReconciledAt\<close>; it is generated from \<open>prisma/schema.prisma\<close>, which
  does not have it. Without it the query is refused.
\<close>

definition reconcileProjection ::
  "bool \<Rightarrow> int \<Rightarrow> answer \<Rightarrow> string \<Rightarrow> verified_token list \<Rightarrow> (service_error, reconciliation) res \<times> verified_token list" where
  "reconcileProjection known now answer addr db =
     (case fetchBurnEvents answer of
        None \<Rightarrow> (Inl (PlainError ''reconcileProjection: could not fetch on-chain data''), db)
      | Some burns \<Rightarrow>
          let n = int (length burns); total = total_burned burns
          in if \<not> known then (Inl (DatabaseError ''Unknown field lastReconciledAt''), db)
             else (case List.find (\<lambda>t. tkAddress t = addr) db of
                None \<Rightarrow> (Inl (PlainError ''reconcileProjection: token not found in projection''), db)
              | Some token \<Rightarrow>
                  let updated = (if tkTotalBurned token \<noteq> total then [''totalBurned''] else []) @ (if tkBurnCount token \<noteq> n then [''burnCount''] else [])
                  in if \<not> bigint_column total \<or> \<not> int_column n then (Inl (DatabaseError ''update''), db)
                     else (Inr \<lparr>rcTokenAddress = addr, rcFieldsUpdated = updated, rcAlreadyConsistent = (updated = []), rcLastReconciledAt = now\<rparr>,
                           map (\<lambda>t. if tkAddress t = addr
                                    then t\<lparr>tkTotalBurned := total, tkBurnCount := n, vtLastReconciledAt := Some now\<rparr> else t) db)))"

section \<open>Burn totals\<close>

definition burn_diffs :: "tolerances \<Rightarrow> verified_token \<Rightarrow> onchain_burn list \<Rightarrow> consistency_diff list" where
  "burn_diffs tol token burns =
     (if \<bar>tkBurnCount token - int (length burns)\<bar> > tlCountDriftAbsolute tol
      then [\<lparr>dfEntity = BurnEntity, dfIdentifier = tkAddress token, dfField = ''burnCount'', dfBackend = JNum (tkBurnCount token),
             dfOnChain = JNum (int (length burns)), dfSeverity = SevError\<rparr>] else []) @
     (if \<not> isWithinTolerance tol (tkTotalBurned token) (total_burned burns)
      then [\<lparr>dfEntity = BurnEntity, dfIdentifier = tkAddress token, dfField = ''totalBurned'', dfBackend = JStr (show_int (tkTotalBurned token)),
             dfOnChain = JStr (show_int (total_burned burns)), dfSeverity = SevError\<rparr>] else [])"

text \<open>\<open>check a\<close> and \<open>again a\<close> are the answers for the address \<open>a\<close> to the check and to the reconciliation that may follow.\<close>

fun burn_loop ::
  "tolerances \<Rightarrow> bool \<Rightarrow> int \<Rightarrow> (string \<Rightarrow> answer) \<Rightarrow> (string \<Rightarrow> answer) \<Rightarrow> verified_token list \<Rightarrow> check_result \<times> verified_token list
     \<Rightarrow> check_result \<times> verified_token list" where
  "burn_loop tol known now check again [] rdb = rdb"
| "burn_loop tol known now check again (token # tokens) (r, db) =
     (case fetchBurnEvents (check (tkAddress token)) of
        None \<Rightarrow> burn_loop tol known now check again tokens
                  (r\<lparr>crChecked := crChecked r + 1, crErrors := crErrors r @ [''Could not fetch burns for token '' @ tkAddress token]\<rparr>, db)
      | Some burns \<Rightarrow>
          let r1 = r\<lparr>crChecked := crChecked r + 1, crDiffs := crDiffs r @ burn_diffs tol token burns\<rparr>
          in if burn_diffs tol token burns = [] then burn_loop tol known now check again tokens (r1, db)
             else (case reconcileProjection known now (again (tkAddress token)) (tkAddress token) db of
                     (Inl e, db1) \<Rightarrow> burn_loop tol known now check again tokens
                        (r1\<lparr>crErrors := crErrors r1 @ [''Auto-reconciliation failed for '' @ tkAddress token]\<rparr>, db1)
                   | (Inr _, db1) \<Rightarrow> burn_loop tol known now check again tokens (r1, db1)))"

definition checkBurnTotals ::
  "tolerances \<Rightarrow> bool \<Rightarrow> int \<Rightarrow> (string \<Rightarrow> answer) \<Rightarrow> (string \<Rightarrow> answer) \<Rightarrow> bool \<Rightarrow> verified_token list \<Rightarrow> check_result \<times> verified_token list" where
  "checkBurnTotals tol known now check again ok db =
     (if \<not> ok then (\<lparr>crDiffs = [], crErrors = [''Burn totals check failed''], crChecked = 0\<rparr>, db)
      else burn_loop tol known now check again (filter (\<lambda>t. tkBurnCount t > 0) db) (\<lparr>crDiffs = [], crErrors = [], crChecked = 0\<rparr>, db))"

record full_check =
  fcConsistent :: bool
  fcTotalChecked :: int
  fcTokensChecked :: int
  fcBurnsChecked :: int
  fcDiffs :: "consistency_diff list"
  fcErrors :: "string list"

definition runFullCheck ::
  "tolerances \<Rightarrow> string \<Rightarrow> bool \<Rightarrow> int \<Rightarrow> answer \<Rightarrow> int option \<Rightarrow> (string \<Rightarrow> answer) \<Rightarrow> (string \<Rightarrow> answer) \<Rightarrow> bool \<Rightarrow> verified_token list
     \<Rightarrow> full_check \<times> verified_token list" where
  "runFullCheck tol factory known now answer nrows check again ok db =
     (let t = checkTokenCounts tol factory answer nrows
      in case checkBurnTotals tol known now check again ok db of
           (b, db1) \<Rightarrow>
             (\<lparr>fcConsistent = (crDiffs t @ crDiffs b = [] \<and> crErrors t @ crErrors b = []), fcTotalChecked = crChecked t + crChecked b,
               fcTokensChecked = crChecked t, fcBurnsChecked = crChecked b, fcDiffs = crDiffs t @ crDiffs b, fcErrors = crErrors t @ crErrors b\<rparr>, db1))"

definition checkTokenBurnConsistency :: "string \<Rightarrow> int \<Rightarrow> int \<Rightarrow> int \<Rightarrow> verified_token list \<Rightarrow> consistency_diff list" where
  "checkTokenBurnConsistency addr totalBurned burnCount totalSupply db =
     (case List.find (\<lambda>t. tkAddress t = addr) db of
        None \<Rightarrow> [\<lparr>dfEntity = TokenEntity, dfIdentifier = addr, dfField = ''existence'', dfBackend = JNull, dfOnChain = JStr ''exists'', dfSeverity = SevError\<rparr>]
      | Some t \<Rightarrow>
          (if tkTotalBurned t \<noteq> totalBurned
           then [\<lparr>dfEntity = TokenEntity, dfIdentifier = addr, dfField = ''totalBurned'', dfBackend = JStr (show_int (tkTotalBurned t)),
                  dfOnChain = JStr (show_int totalBurned), dfSeverity = SevError\<rparr>] else []) @
          (if tkBurnCount t \<noteq> burnCount
           then [\<lparr>dfEntity = TokenEntity, dfIdentifier = addr, dfField = ''burnCount'', dfBackend = JNum (tkBurnCount t),
                  dfOnChain = JNum burnCount, dfSeverity = SevError\<rparr>] else []) @
          (if tkTotalSupply t \<noteq> totalSupply
           then [\<lparr>dfEntity = TokenEntity, dfIdentifier = addr, dfField = ''totalSupply'', dfBackend = JStr (show_int (tkTotalSupply t)),
                  dfOnChain = JStr (show_int totalSupply), dfSeverity = SevError\<rparr>] else []))"

section \<open>Vaults\<close>

definition status_text :: "stream_status \<Rightarrow> string" where
  "status_text s = (case s of StreamCreated \<Rightarrow> ''CREATED'' | StreamClaimed \<Rightarrow> ''CLAIMED'' | StreamCancelled \<Rightarrow> ''CANCELLED'')"

definition vault_diff :: "int \<Rightarrow> string \<Rightarrow> jsval \<Rightarrow> jsval \<Rightarrow> diff_severity \<Rightarrow> consistency_diff" where
  "vault_diff i field b c sev = \<lparr>dfEntity = VaultEntity, dfIdentifier = show_int i, dfField = field, dfBackend = b, dfOnChain = c, dfSeverity = sev\<rparr>"

definition stream_diffs :: "tolerances \<Rightarrow> (int, onchain_vault) jsmap \<Rightarrow> stream_row \<Rightarrow> consistency_diff list" where
  "stream_diffs tol onChain stream =
     (let i = srStreamId stream in
      case jm_get onChain i of
        None \<Rightarrow> [vault_diff i ''existence'' (JStr ''exists'') JNull SevError]
      | Some chain \<Rightarrow>
          (if srStatus stream \<noteq> ovStatus chain
           then [vault_diff i ''status'' (JStr (status_text (srStatus stream))) (JStr (status_text (ovStatus chain))) SevError] else []) @
          (if \<not> isWithinTolerance tol (srAmount stream) (ovAmount chain)
           then [vault_diff i ''amount'' (JStr (show_int (srAmount stream))) (JStr (show_int (ovAmount chain))) SevError] else []) @
          (if js_truthy (ovCreator chain) \<and> JStr (srCreator stream) \<noteq> ovCreator chain
           then [vault_diff i ''creator'' (JStr (srCreator stream)) (ovCreator chain) SevError] else []) @
          (if js_truthy (ovRecipient chain) \<and> JStr (srRecipient stream) \<noteq> ovRecipient chain
           then [vault_diff i ''recipient'' (JStr (srRecipient stream)) (ovRecipient chain) SevError] else []))"

record vault_check =
  vcDiffs :: "consistency_diff list"
  vcErrors :: "string list"
  vcProjected :: nat
  vcOnChain :: nat

definition checkVaultConsistency ::
  "tolerances \<Rightarrow> string \<Rightarrow> (nat \<Rightarrow> jsval \<Rightarrow> answer) \<Rightarrow> bool \<Rightarrow> stream_row list \<Rightarrow> vault_check" where
  "checkVaultConsistency tol factory horizon ok rows =
     (if \<not> ok then \<lparr>vcDiffs = [], vcErrors = [''Vault consistency check failed''], vcProjected = 0, vcOnChain = 0\<rparr>
      else
        let streams = sort_key srStreamId rows in
        (case fetchVaultStates factory horizon 50 of
           None \<Rightarrow> \<lparr>vcDiffs = [], vcErrors = [''Could not fetch on-chain vault state''], vcProjected = length streams, vcOnChain = 0\<rparr>
         | Some onChain \<Rightarrow>
             \<lparr>vcDiffs = concat (map (stream_diffs tol onChain) streams) @
                map (\<lambda>(i, chain). vault_diff i ''existence'' JNull (JStr ''exists'') (if ovStatus chain = StreamCreated then SevWarning else SevError))
                  (filter (\<lambda>(i, chain). i \<notin> srStreamId ` set streams) onChain),
              vcErrors = [], vcProjected = length streams, vcOnChain = length onChain\<rparr>))"

datatype mismatch_kind = MissingOnChain | MissingInProjection | FieldMismatch

record vault_mismatch =
  vmStreamId :: "int option"
  vmKind :: mismatch_kind
  vmField :: string
  vmProjectionValue :: jsval
  vmOnChainValue :: jsval
  vmSeverity :: diff_severity

record vault_report =
  vrConsistent :: bool
  vrProjectedVaults :: nat
  vrOnChainVaults :: nat
  vrMismatchedVaults :: nat
  vrTotalMismatches :: nat
  vrMissingOnChain :: nat
  vrMissingInProjection :: nat
  vrFieldMismatches :: nat
  vrErrorCount :: nat
  vrMismatches :: "vault_mismatch list"
  vrErrors :: "string list"

definition mismatch_of :: "consistency_diff \<Rightarrow> vault_mismatch" where
  "mismatch_of d =
     \<lparr>vmStreamId = js_integer (JStr (dfIdentifier d)),
      vmKind = (if dfField d \<noteq> ''existence'' then FieldMismatch else if dfBackend d = JNull then MissingInProjection else MissingOnChain),
      vmField = dfField d, vmProjectionValue = dfBackend d, vmOnChainValue = dfOnChain d, vmSeverity = dfSeverity d\<rparr>"

definition kind_count :: "mismatch_kind \<Rightarrow> vault_mismatch list \<Rightarrow> nat" where
  "kind_count k ms = length (filter (\<lambda>m. vmKind m = k) ms)"

definition buildVaultReconciliationReport :: "vault_check \<Rightarrow> vault_report" where
  "buildVaultReconciliationReport c =
     (let ms = map mismatch_of (vcDiffs c)
      in \<lparr>vrConsistent = (ms = [] \<and> vcErrors c = []), vrProjectedVaults = vcProjected c, vrOnChainVaults = vcOnChain c,
          vrMismatchedVaults = card (set (map vmStreamId ms)), vrTotalMismatches = length ms, vrMissingOnChain = kind_count MissingOnChain ms,
          vrMissingInProjection = kind_count MissingInProjection ms, vrFieldMismatches = kind_count FieldMismatch ms,
          vrErrorCount = length (vcErrors c), vrMismatches = ms, vrErrors = vcErrors c\<rparr>)"

section \<open>The report\<close>

definition severity_text :: "diff_severity \<Rightarrow> string" where
  "severity_text s = (case s of SevError \<Rightarrow> ''error'' | SevWarning \<Rightarrow> ''warning'')"

definition entity_text :: "diff_entity \<Rightarrow> string" where
  "entity_text e = (case e of TokenEntity \<Rightarrow> ''token'' | BurnEntity \<Rightarrow> ''burn'' | FactoryEntity \<Rightarrow> ''factory'' | VaultEntity \<Rightarrow> ''vault'')"

definition generateReport :: "string \<Rightarrow> int \<Rightarrow> full_check \<Rightarrow> jsval" where
  "generateReport timestamp duration r =
     JObj [(''success'', JBool (fcConsistent r)), (''timestamp'', JStr timestamp), (''duration_ms'', JNum duration),
       (''summary'', JObj [(''tokens_checked'', JNum (fcTokensChecked r)), (''burns_checked'', JNum (fcBurnsChecked r)),
          (''total_checked'', JNum (fcTotalChecked r)), (''inconsistencies'', JNum (int (length (fcDiffs r)))), (''errors'', JNum (int (length (fcErrors r))))]),
       (''diffs'', JArr (map (\<lambda>d. JObj [(''entity'', JStr (entity_text (dfEntity d))), (''identifier'', JStr (dfIdentifier d)),
          (''field'', JStr (dfField d)), (''backend_value'', dfBackend d), (''onchain_value'', dfOnChain d),
          (''severity'', JStr (severity_text (dfSeverity d)))]) (fcDiffs r))),
       (''errors'', JArr (map JStr (fcErrors r)))]"

section \<open>Vaults from events\<close>

text \<open>What one event does to the vault with the identifier \<open>i\<close>.\<close>

definition vault_step :: "int \<Rightarrow> onchain_vault option \<Rightarrow> jsval \<Rightarrow> onchain_vault option" where
  "vault_step i v event =
     (let topic = js_at (js_prop event ''topic'') 0; value = js_coalesce (js_prop event ''value'') (JObj [])
      in if topic = JStr ''vlt_cr_v1''
         then Some \<lparr>ovStreamId = i, ovCreator = js_disj (js_prop value ''creator'') (JStr []), ovRecipient = js_disj (js_prop value ''recipient'') (JStr []),
                ovAmount = the (js_bigint (js_disj (js_prop value ''amount'') (JStr ''0''))), ovStatus = StreamCreated\<rparr>
         else if topic = JStr ''vlt_cl_v1'' then map_option (\<lambda>x. x\<lparr>ovStatus := StreamClaimed\<rparr>) v
         else if topic = JStr ''vlt_cn_v1'' then map_option (\<lambda>x. x\<lparr>ovStatus := StreamCancelled\<rparr>) v
         else v)"

lemma applyVaultEvent_get:
  assumes "applyVaultEvent e states = Some s"
  shows "jm_get s i = (if vault_event_id e = Some i then vault_step i (jm_get states i) e else jm_get states i)"
  using assms unfolding applyVaultEvent_def Let_def vault_step_def
  by (auto split: option.splits if_splits)

lemma fold_vaults_get:
  "fold_vaults es states = Some s \<Longrightarrow> jm_get s i = foldl (vault_step i) (jm_get states i) (filter (\<lambda>e. vault_event_id e = Some i) es)"
proof (induction es arbitrary: states)
  case (Cons e es)
  then obtain s1 where "applyVaultEvent e states = Some s1" "fold_vaults es s1 = Some s" by (auto split: option.splits)
  with Cons.IH applyVaultEvent_get show ?case by simp
qed simp

lemma fold_vaults_append:
  "fold_vaults (xs @ ys) states = (case fold_vaults xs states of None \<Rightarrow> None | Some s \<Rightarrow> fold_vaults ys s)"
  by (induction xs arbitrary: states) (auto split: option.split)

lemma fold_vaults_wf: "fold_vaults es states = Some s \<Longrightarrow> jm_wf states \<Longrightarrow> jm_wf s"
proof (induction es arbitrary: states)
  case (Cons e es)
  then obtain s1 where s1: "applyVaultEvent e states = Some s1" "fold_vaults es s1 = Some s" by (auto split: option.splits)
  then have "jm_wf s1" using Cons.prems(2) by (auto simp: applyVaultEvent_def Let_def split: option.splits if_splits)
  then show ?case using Cons.IH s1(2) by blast
qed simp

text \<open>A log whose records carry their positions as paging tokens, served in pages of 200.\<close>

definition paged_log :: "jsval list \<Rightarrow> (jsval \<Rightarrow> nat) \<Rightarrow> bool" where
  "paged_log L pos \<longleftrightarrow> pos JUndef = 0 \<and>
     (\<forall>k<length L. js_truthy (js_prop (L ! k) ''paging_token'') \<and> pos (js_prop (L ! k) ''paging_token'') = Suc k)"

definition serve_events :: "jsval list \<Rightarrow> (jsval \<Rightarrow> nat) \<Rightarrow> nat \<Rightarrow> jsval \<Rightarrow> answer" where
  "serve_events L pos page cursor = Inr (JObj [(''_embedded'', JObj [(''records'', JArr (take 200 (drop (pos cursor) L)))])])"

lemma vault_pages_log:
  assumes log: "paged_log L pos"
  shows "vault_pages (serve_events L pos) page n cursor states = fold_vaults (take (200 * n) (drop (pos cursor) L)) states"
proof (induction n arbitrary: page cursor states)
  case (Suc n)
  define rs where "rs = take 200 (drop (pos cursor) L)"
  have split: "take (200 * Suc n) (drop (pos cursor) L) = rs @ take (200 * n) (drop (200 + pos cursor) L)"
    by (simp add: rs_def take_add)
  have step: "vault_pages (serve_events L pos) page (Suc n) cursor states =
    (case fold_vaults rs states of None \<Rightarrow> None
     | Some s \<Rightarrow> if length rs < 200 then Some s
         else (let c = js_prop (last rs) ''paging_token'' in if \<not> js_truthy c then Some s else vault_pages (serve_events L pos) (Suc page) n c s))"
    by (simp add: serve_events_def records_of_def js_coalesce_def flip: rs_def)
  show ?case
  proof (cases "length rs < 200")
    case True
    then have "drop (200 + pos cursor) L = []" by (simp add: rs_def)
    then show ?thesis unfolding step split fold_vaults_append using True by (auto split: option.split)
  next
    case False
    then have fits: "pos cursor + 200 \<le> length L" by (simp add: rs_def)
    then have "last rs = L ! (pos cursor + 199)" by (simp add: rs_def last_conv_nth)
    then have "js_truthy (js_prop (last rs) ''paging_token'')" "pos (js_prop (last rs) ''paging_token'') = 200 + pos cursor"
      using log fits by (simp_all add: paged_log_def)
    then show ?thesis unfolding step split fold_vaults_append using False Suc.IH by (simp split: option.split)
  qed
qed simp


definition two_events :: "jsval list" where
  "two_events =
     [JObj [(''paging_token'', JStr ''p1''), (''topic'', JArr [JStr ''vlt_cr_v1'', JNum 4]),
        (''value'', JObj [(''creator'', JStr ''A''), (''recipient'', JStr ''B''), (''amount'', JNum 70)])],
      JObj [(''paging_token'', JStr ''p2''), (''topic'', JArr [JStr ''vlt_cn_v1'', JNum 4])]]"

definition two_positions :: "jsval \<Rightarrow> nat" where
  "two_positions c = (if c = JUndef then 0 else if c = JStr ''p1'' then 1 else 2)"

definition vault_four :: onchain_vault where
  "vault_four = \<lparr>ovStreamId = 4, ovCreator = JStr ''A'', ovRecipient = JStr ''B'', ovAmount = 70, ovStatus = StreamCancelled\<rparr>"

lemma two_events_paged: "paged_log two_events two_positions"
  by (simp add: paged_log_def two_events_def two_positions_def All_less_Suc)

lemma two_events_states: "fetchVaultStates ''F'' (serve_events two_events two_positions) 50 = Some [(4, vault_four)]"
proof -
  have len: "take 10000 two_events = two_events" by (rule take_all) (simp add: two_events_def)
  have "vault_event_id (two_events ! 0) = Some 4" "vault_event_id (two_events ! 1) = Some 4" by code_simp+
  then have fold: "fold_vaults two_events [] = Some [(4, vault_four)]"
    by (simp add: two_events_def applyVaultEvent_def vault_four_def js_coalesce_def js_disj_def js_at_def js_bigint_def jm_set_def)
  have "two_positions JUndef = 0" by (simp add: two_positions_def)
  then show ?thesis unfolding fetchVaultStates_def vault_pages_log [OF two_events_paged] using len fold by simp
qed


section \<open>The comparison of vaults\<close>

definition vault_agrees :: "tolerances \<Rightarrow> stream_row \<Rightarrow> onchain_vault \<Rightarrow> bool" where
  "vault_agrees tol s c \<longleftrightarrow> srStatus s = ovStatus c \<and> isWithinTolerance tol (srAmount s) (ovAmount c) \<and>
     (js_truthy (ovCreator c) \<longrightarrow> JStr (srCreator s) = ovCreator c) \<and> (js_truthy (ovRecipient c) \<longrightarrow> JStr (srRecipient s) = ovRecipient c)"

lemma stream_diffs_empty:
  "stream_diffs tol onChain s = [] \<longleftrightarrow> (\<exists>c. jm_get onChain (srStreamId s) = Some c \<and> vault_agrees tol s c)"
  by (auto simp: stream_diffs_def vault_agrees_def Let_def split: option.splits)

text \<open>C28: The check of the vaults reports nothing exactly when the projection and the chain have the same vaults and each agrees in status,
  in amount within the tolerance, and in creator and recipient where the chain names them.\<close>

theorem vault_check_exact:
  assumes "fetchVaultStates factory horizon 50 = Some onChain"
  shows "vcDiffs (checkVaultConsistency tol factory horizon True rows) = [] \<longleftrightarrow>
    srStreamId ` set rows = fst ` set onChain \<and>
    (\<forall>s\<in>set rows. \<forall>c. jm_get onChain (srStreamId s) = Some c \<longrightarrow> vault_agrees tol s c)"
proof -
  have "vcDiffs (checkVaultConsistency tol factory horizon True rows) = [] \<longleftrightarrow>
      (\<forall>s\<in>set rows. stream_diffs tol onChain s = []) \<and> fst ` set onChain \<subseteq> srStreamId ` set rows"
    using assms by (auto simp: checkVaultConsistency_def Let_def filter_empty_conv image_subset_iff)
  also have "\<dots> \<longleftrightarrow> srStreamId ` set rows = fst ` set onChain \<and>
      (\<forall>s\<in>set rows. \<forall>c. jm_get onChain (srStreamId s) = Some c \<longrightarrow> vault_agrees tol s c)"
  proof -
    have one: "(\<exists>c. jm_get onChain i = Some c \<and> P c) \<longleftrightarrow> i \<in> fst ` set onChain \<and> (\<forall>c. jm_get onChain i = Some c \<longrightarrow> P c)" for i P
      by (cases "jm_get onChain i") (auto simp: map_of_eq_None_iff dest: map_of_SomeD intro: rev_image_eqI)
    have "(\<forall>s\<in>set rows. srStreamId s \<in> fst ` set onChain) \<longleftrightarrow> srStreamId ` set rows \<subseteq> fst ` set onChain" by blast
    then show ?thesis unfolding stream_diffs_empty one by blast
  qed
  finally show ?thesis .
qed

definition row_four :: stream_row where
  "row_four = \<lparr>srStreamId = 4, srCreator = ''A'', srRecipient = ''B'', srAmount = 70, srMetadata = None, srStatus = StreamClaimed, srTxHash = ''h'',
     srCreatedAt = 0, srClaimedAt = None, srCancelledAt = None\<rparr>"

theorem vault_check_exact_witness:
  "vcDiffs (checkVaultConsistency exact_tolerances ''F'' (serve_events two_events two_positions) True [row_four]) \<noteq> [] \<and>
   vcDiffs (checkVaultConsistency exact_tolerances ''F'' (serve_events two_events two_positions) True [row_four\<lparr>srStatus := StreamCancelled\<rparr>]) = []"
  using vault_check_exact [OF two_events_states, of exact_tolerances "[row_four]"]
    vault_check_exact [OF two_events_states, of exact_tolerances "[row_four\<lparr>srStatus := StreamCancelled\<rparr>]"]
  by (simp add: vault_agrees_def row_four_def vault_four_def isWithinTolerance_def exact_tolerances_def)

section \<open>The report of vaults\<close>

lemma kind_counts: "kind_count MissingOnChain ms + kind_count MissingInProjection ms + kind_count FieldMismatch ms = length ms"
proof (induction ms)
  case (Cons m ms)
  then show ?case by (cases "vmKind m") (simp_all add: kind_count_def)
qed (simp add: kind_count_def)

text \<open>The numbers of the report are consistent: every mismatch is of one of the three kinds, the mismatched vaults are at most the
  mismatches, the report is clean exactly when there is neither a mismatch nor an error.\<close>

theorem vault_report_consistent:
  "let r = buildVaultReconciliationReport c in
     vrMissingOnChain r + vrMissingInProjection r + vrFieldMismatches r = vrTotalMismatches r \<and>
     vrMismatchedVaults r \<le> vrTotalMismatches r \<and> vrTotalMismatches r = length (vcDiffs c) \<and>
     (vrConsistent r \<longleftrightarrow> vrTotalMismatches r = 0 \<and> vrErrorCount r = 0)"
proof -
  have "card (set (map vmStreamId (map mismatch_of (vcDiffs c)))) \<le> length (vcDiffs c)"
    using card_length [of "map vmStreamId (map mismatch_of (vcDiffs c))"] by simp
  then show ?thesis using kind_counts [of "map mismatch_of (vcDiffs c)"] by (simp add: buildVaultReconciliationReport_def Let_def image_image)
qed


section \<open>Reconciliation\<close>

lemma within_exact: "0 \<le> tlAmountDriftPercent tol \<Longrightarrow> isWithinTolerance tol x x"
  by (auto simp: isWithinTolerance_def Let_def)

text \<open>The tolerance on amounts admits every difference below one percent more than it names, because the quotient is rounded down.\<close>

theorem tolerance_rounds_down:
  assumes "0 < tlAmountDriftPercent tol" "0 \<le> a" "0 \<le> b"
  shows "isWithinTolerance tol a b \<longleftrightarrow> a = b \<or> 100 * \<bar>a - b\<bar> < (tlAmountDriftPercent tol + 1) * max a b"
proof (cases "max a b = 0")
  case True
  then show ?thesis using assms by (auto simp: isWithinTolerance_def Let_def)
next
  case False
  then have pos: "0 < max a b" using assms by simp
  have "x div m \<le> p \<longleftrightarrow> x < (p + 1) * m" if "0 < m" for x m p :: int
  proof -
    have x: "x = m * (x div m) + x mod m" "0 \<le> x mod m" "x mod m < m" using that by simp_all
    have pm: "(p + 1) * m = m * p + m" "m * (p + 1) = m * p + m" by (simp_all add: algebra_simps)
    show ?thesis
    proof (cases "x div m \<le> p")
      case True
      then have "m * (x div m) \<le> m * p" using that by simp
      then have "x < (p + 1) * m" unfolding pm using x by linarith
      then show ?thesis using True by simp
    next
      case False
      then have "m * (p + 1) \<le> m * (x div m)" using that by simp
      then have "\<not> x < (p + 1) * m" unfolding pm using x by linarith
      then show ?thesis using False by simp
    qed
  qed
  then have "\<bar>a - b\<bar> * 100 div max a b \<le> tlAmountDriftPercent tol \<longleftrightarrow> \<bar>a - b\<bar> * 100 < (tlAmountDriftPercent tol + 1) * max a b"
    using pos by blast
  then show ?thesis using assms pos False by (auto simp: isWithinTolerance_def Let_def mult.commute)
qed

theorem tolerance_rounds_down_witness:
  "isWithinTolerance \<lparr>tlAmountDriftPercent = 1, tlCountDriftAbsolute = 0\<rparr> 10000 9801 \<and>
   \<not> isWithinTolerance \<lparr>tlAmountDriftPercent = 1, tlCountDriftAbsolute = 0\<rparr> 10000 9800"
  using tolerance_rounds_down [of "\<lparr>tlAmountDriftPercent = 1, tlCountDriftAbsolute = 0\<rparr>" 10000 9801]
    tolerance_rounds_down [of "\<lparr>tlAmountDriftPercent = 1, tlCountDriftAbsolute = 0\<rparr>" 10000 9800] by simp

lemma verified_token_sel [simp]:
  "tkAddress (vtLastReconciledAt_update f t) = tkAddress t"
  "tkTotalBurned (vtLastReconciledAt_update f t) = tkTotalBurned t"
  "tkBurnCount (vtLastReconciledAt_update f t) = tkBurnCount t"
  by (cases t; simp)+

lemma reconciled_sel [simp]:
  "tkTotalBurned (t\<lparr>tkTotalBurned := a, tkBurnCount := b, vtLastReconciledAt := c\<rparr>) = a"
  "tkBurnCount (t\<lparr>tkTotalBurned := a, tkBurnCount := b, vtLastReconciledAt := c\<rparr>) = b"
  by (cases t; simp)+

lemma reconcile_result:
  assumes "reconcileProjection known now answer addr db = (Inr r, db1)"
  shows "known \<and> (\<exists>burns. fetchBurnEvents answer = Some burns \<and> bigint_column (total_burned burns) \<and> int_column (int (length burns)) \<and>
    (\<exists>t. List.find (\<lambda>t. tkAddress t = addr) db = Some t \<and> rcAlreadyConsistent r = (tkTotalBurned t = total_burned burns \<and> tkBurnCount t = int (length burns))) \<and>
    db1 = map (\<lambda>t. if tkAddress t = addr then t\<lparr>tkTotalBurned := total_burned burns, tkBurnCount := int (length burns), vtLastReconciledAt := Some now\<rparr> else t) db)"
  using assms by (auto simp: reconcileProjection_def Let_def split: option.splits if_splits)

lemma reconcile_again:
  assumes known and "fetchBurnEvents answer = Some burns" and "bigint_column (total_burned burns)" "int_column (int (length burns))"
    and "List.find (\<lambda>t. tkAddress t = addr) db = Some t" "tkTotalBurned t = total_burned burns" "tkBurnCount t = int (length burns)"
  shows "\<exists>r db1. reconcileProjection known now answer addr db = (Inr r, db1) \<and> rcAlreadyConsistent r"
  using assms by (simp add: reconcileProjection_def)

text \<open>A reconciliation that succeeds leaves no difference of the token from the events it read, at any tolerance, leaves every other
  token as it was, and a second one from the same events finds nothing to update.\<close>

theorem reconcile_settles:
  assumes rec: "reconcileProjection known now answer addr db = (Inr r, db1)" and burns: "fetchBurnEvents answer = Some burns"
    and tol: "0 \<le> tlAmountDriftPercent tol" "0 \<le> tlCountDriftAbsolute tol"
  shows "(\<forall>t\<in>set db1. tkAddress t = addr \<longrightarrow> burn_diffs tol t burns = []) \<and>
    filter (\<lambda>t. tkAddress t \<noteq> addr) db1 = filter (\<lambda>t. tkAddress t \<noteq> addr) db \<and>
    (\<exists>r2 db2. reconcileProjection known later answer addr db1 = (Inr r2, db2) \<and> rcAlreadyConsistent r2)"
proof -
  let ?f = "\<lambda>t. if tkAddress t = addr then t\<lparr>tkTotalBurned := total_burned burns, tkBurnCount := int (length burns), vtLastReconciledAt := Some now\<rparr> else t"
  obtain t where t: "known" "List.find (\<lambda>t. tkAddress t = addr) db = Some t" "db1 = map ?f db"
    "bigint_column (total_burned burns)" "int_column (int (length burns))"
    using reconcile_result [OF rec] burns by auto
  have "List.find (\<lambda>t. tkAddress t = addr) db1 = map_option ?f (List.find (\<lambda>t. tkAddress t = addr) db)"
    unfolding t(3) by (rule find_map) simp
  moreover have "tkAddress t = addr" using t(2) by (auto simp: find_Some_iff)
  ultimately have "List.find (\<lambda>t. tkAddress t = addr) db1 =
      Some (t\<lparr>tkTotalBurned := total_burned burns, tkBurnCount := int (length burns), vtLastReconciledAt := Some now\<rparr>)" using t(2) by simp
  then have "\<exists>r2 db2. reconcileProjection known later answer addr db1 = (Inr r2, db2) \<and> rcAlreadyConsistent r2"
    using t(1,4,5) burns by (intro reconcile_again) (simp, simp, simp, simp, simp, rule reconciled_sel, rule reconciled_sel)
  moreover have "\<forall>t\<in>set db1. tkAddress t = addr \<longrightarrow> burn_diffs tol t burns = []"
    using tol unfolding t(3) by (auto simp: burn_diffs_def within_exact)
  moreover have "filter (\<lambda>t. tkAddress t \<noteq> addr) (map ?f ts) = filter (\<lambda>t. tkAddress t \<noteq> addr) ts" for ts by (induction ts) auto
  ultimately show ?thesis using t(3) by blast
qed

definition burn_answer :: answer where
  "burn_answer = Inr (JObj [(''_embedded'', JObj [(''records'', JArr [JObj [(''topic'', JArr [JStr ''tok_burn'', JStr ''T'']),
     (''value'', JObj [(''amount'', JStr ''40''), (''from'', JStr ''G'')])]])])])"

definition drifted :: verified_token where
  "drifted = \<lparr>tkId = ''1'', tkAddress = ''T'', tkDeployTxHash = ''h'', tkCreator = ''G'', tkName = ''n'', tkSymbol = ''s'', tkDecimals = 7,
     tkTotalSupply = 60, tkInitialSupply = 100, tkTotalBurned = 30, tkBurnCount = 2, tkMetadataUri = None, vtLastReconciledAt = None\<rparr>"

lemma burn_answer_burns: "fetchBurnEvents burn_answer = Some [\<lparr>obTokenAddress = JStr ''T'', obFrom = JStr ''G'', obAmount = 40,
    obBurnedBy = JStr ''G'', obIsAdminBurn = False, obTxHash = JStr []\<rparr>]"
  by code_simp

theorem reconcile_settles_witness:
  "\<exists>r db1. reconcileProjection True 5 burn_answer ''T'' [drifted] = (Inr r, db1) \<and>
     (\<forall>t\<in>set db1. tkAddress t = ''T'' \<longrightarrow> (\<exists>bs. fetchBurnEvents burn_answer = Some bs \<and> burn_diffs exact_tolerances t bs = []))"
proof -
  obtain r db1 where rec: "reconcileProjection True 5 burn_answer ''T'' [drifted] = (Inr r, db1)"
    by (simp add: reconcileProjection_def burn_answer_burns drifted_def total_burned_def bigint_column_def int_column_def)
  from reconcile_settles [OF rec burn_answer_burns, of exact_tolerances] rec burn_answer_burns show ?thesis
    by (auto simp: exact_tolerances_def)
qed

lemma reconcile_unknown: "reconcileProjection False now answer addr db = (Inl e, db1) \<longleftrightarrow>
    db1 = db \<and> e = (if fetchBurnEvents answer = None then PlainError ''reconcileProjection: could not fetch on-chain data'' else DatabaseError ''Unknown field lastReconciledAt'')"
  by (auto simp: reconcileProjection_def Let_def split: option.splits)


lemma burn_loop_unknown:
  "snd (burn_loop tol False now check again ts (r, db)) = db \<and>
   crDiffs (fst (burn_loop tol False now check again ts (r, db))) = crDiffs r @
     concat (map (\<lambda>t. case fetchBurnEvents (check (tkAddress t)) of None \<Rightarrow> [] | Some bs \<Rightarrow> burn_diffs tol t bs) ts) \<and>
   length (crErrors (fst (burn_loop tol False now check again ts (r, db)))) = length (crErrors r) +
     length (filter (\<lambda>t. case fetchBurnEvents (check (tkAddress t)) of None \<Rightarrow> True | Some bs \<Rightarrow> burn_diffs tol t bs \<noteq> []) ts)"
proof (induction ts arbitrary: r)
  case (Cons t ts)
  obtain e where e: "reconcileProjection False now (again (tkAddress t)) (tkAddress t) db = (Inl e, db)"
    using reconcile_unknown by blast
  show ?case using Cons e by (cases "fetchBurnEvents (check (tkAddress t))") (simp_all add: Let_def)
qed simp

text \<open>With the client of the schema, which lacks the column \<open>lastReconciledAt\<close>, no reconciliation succeeds: the check of the burns
  changes no token and reports, beside the differences, an error for every token that differs or could not be compared.\<close>

theorem reconciliation_never_succeeds:
  "snd (checkBurnTotals tol False now check again True db) = db \<and>
   length (crErrors (fst (checkBurnTotals tol False now check again True db))) =
     length (filter (\<lambda>t. tkBurnCount t > 0 \<and> (case fetchBurnEvents (check (tkAddress t)) of None \<Rightarrow> True | Some bs \<Rightarrow> burn_diffs tol t bs \<noteq> [])) db)"
proof -
  have "filter Q (filter P xs) = filter (\<lambda>t. P t \<and> Q t) xs" for P Q and xs :: "verified_token list" by (simp add: conj_commute)
  then show ?thesis
    using burn_loop_unknown [of tol now check again "filter (\<lambda>t. tkBurnCount t > 0) db" "\<lparr>crDiffs = [], crErrors = [], crChecked = 0\<rparr>" db]
    by (simp add: checkBurnTotals_def)
qed

lemma burn_page_bound:
  assumes "fetchBurnEvents (Inr data) = Some burns" and "\<And>rs. records_of data = JArr rs \<Longrightarrow> length rs \<le> 200"
  shows "length burns \<le> 200"
proof (cases "js_truthy (records_of data)")
  case True
  then obtain rs where rs: "records_of data = JArr rs" "those (map parseBurnEvent (filter is_burn_event rs)) = Some burns"
    using assms(1) by (auto simp: fetchBurnEvents_def split: jsval.splits if_splits)
  have "those xs = Some ys \<Longrightarrow> length ys = length xs" for xs :: "onchain_burn option list" and ys
    by (induction xs arbitrary: ys) (auto split: option.splits)
  then have "length burns = length (filter is_burn_event rs)" using rs(2) by fastforce
  then show ?thesis using assms(2) [OF rs(1)] length_filter_le [of is_burn_event rs] by linarith
qed (use assms(1) in \<open>simp add: fetchBurnEvents_def\<close>)

text \<open>The burns are read from one page: with Horizon's limit of 200 records a reconciliation never leaves a token with more than 200
  burns, so it replaces a correct projection of a token with more by the first page of its history.\<close>

theorem reconcile_keeps_one_page:
  assumes rec: "reconcileProjection known now (Inr data) addr db = (Inr r, db1)" and page: "\<And>rs. records_of data = JArr rs \<Longrightarrow> length rs \<le> 200"
  shows "\<forall>t\<in>set db1. tkAddress t = addr \<longrightarrow> tkBurnCount t \<le> 200"
proof -
  obtain burns where b: "fetchBurnEvents (Inr data) = Some burns"
    "db1 = map (\<lambda>t. if tkAddress t = addr then t\<lparr>tkTotalBurned := total_burned burns, tkBurnCount := int (length burns), vtLastReconciledAt := Some now\<rparr> else t) db"
    using reconcile_result [OF rec] by blast
  have "length burns \<le> 200" by (rule burn_page_bound [OF b(1) page])
  then show ?thesis unfolding b(2) by (intro ball_set_map) simp
qed

theorem reconcile_keeps_one_page_witness:
  "\<exists>r db1. reconcileProjection True 5 (Inr (JObj [])) ''T'' [drifted\<lparr>tkBurnCount := 250\<rparr>] = (Inr r, db1) \<and> (\<forall>t\<in>set db1. tkAddress t = ''T'' \<longrightarrow> tkBurnCount t \<le> 200)"
proof -
  have "fetchBurnEvents (Inr (JObj [])) = Some []" by code_simp
  then obtain r db1 where rec: "reconcileProjection True 5 (Inr (JObj [])) ''T'' [drifted\<lparr>tkBurnCount := 250\<rparr>] = (Inr r, db1)"
    by (simp add: reconcileProjection_def drifted_def total_burned_def bigint_column_def int_column_def)
  have "\<forall>t\<in>set db1. tkAddress t = ''T'' \<longrightarrow> tkBurnCount t \<le> 200"
    by (rule reconcile_keeps_one_page [OF rec]) (simp add: records_of_def)
  then show ?thesis using rec by blast
qed

text \<open>An answer without records counts as no burns: the reconciliation writes zero over the totals of the token.\<close>

theorem empty_answer_erases_burns:
  "\<exists>r db1. reconcileProjection True 5 (Inr (JObj [])) ''T'' [drifted] = (Inr r, db1) \<and> tkTotalBurned drifted = 30 \<and>
     map (\<lambda>t. (tkTotalBurned t, tkBurnCount t)) db1 = [(0, 0)]"
proof -
  have "fetchBurnEvents (Inr (JObj [])) = Some []" by code_simp
  then show ?thesis by (simp add: reconcileProjection_def drifted_def total_burned_def bigint_column_def int_column_def)
qed

section \<open>The full check\<close>

definition clean :: "check_result \<Rightarrow> bool" where
  "clean r \<longleftrightarrow> crDiffs r = [] \<and> crErrors r = []"

lemma burn_loop_clean:
  "clean (fst (burn_loop tol known now check again ts (r, db))) \<longleftrightarrow>
    clean r \<and> (\<forall>t\<in>set ts. \<exists>bs. fetchBurnEvents (check (tkAddress t)) = Some bs \<and> burn_diffs tol t bs = [])"
proof (induction ts arbitrary: r db)
  case (Cons t ts)
  show ?case
  proof (cases "fetchBurnEvents (check (tkAddress t))")
    case None
    then show ?thesis using Cons by (simp add: clean_def)
  next
    case (Some bs)
    show ?thesis
    proof (cases "burn_diffs tol t bs = []")
      case True
      then show ?thesis using Some Cons by (simp add: clean_def Let_def)
    next
      case False
      obtain res db1 where rec: "reconcileProjection known now (again (tkAddress t)) (tkAddress t) db = (res, db1)" by fastforce
      from False obtain r1 where r1: "burn_loop tol known now check again (t # ts) (r, db) = burn_loop tol known now check again ts (r1, db1)" "crDiffs r1 \<noteq> []"
        using Some rec by (cases res) (simp_all add: Let_def)
      have "\<not> clean (fst (burn_loop tol known now check again ts (r1, db1)))" unfolding Cons.IH using r1(2) by (simp add: clean_def)
      then have "\<not> clean (fst (burn_loop tol known now check again (t # ts) (r, db)))" unfolding r1(1) .
      then show ?thesis using Some False by auto
    qed
  qed
qed simp

text \<open>The full check reports consistency exactly when the number of tokens is read and within the tolerance, or is no number, and for every
  token that the projection knows burns of, the events were read and agree in number and in sum; a token without projected burns
  is never compared.\<close>

theorem full_check_consistent_iff:
  "fcConsistent (fst (runFullCheck tol factory known now answer (Some n) check again True db)) \<longleftrightarrow>
    (case fetchTokenCount factory answer of
       None \<Rightarrow> False | Some None \<Rightarrow> True | Some (Some m) \<Rightarrow> \<bar>n - m\<bar> \<le> tlCountDriftAbsolute tol) \<and>
    (\<forall>t\<in>set db. tkBurnCount t > 0 \<longrightarrow> (\<exists>bs. fetchBurnEvents (check (tkAddress t)) = Some bs \<and>
       \<bar>tkBurnCount t - int (length bs)\<bar> \<le> tlCountDriftAbsolute tol \<and> isWithinTolerance tol (tkTotalBurned t) (total_burned bs)))"
proof -
  let ?b = "checkBurnTotals tol known now check again True db" and ?t = "checkTokenCounts tol factory answer (Some n)"
  have "fcConsistent (fst (runFullCheck tol factory known now answer (Some n) check again True db)) \<longleftrightarrow> clean ?t \<and> clean (fst ?b)"
    by (auto simp: runFullCheck_def clean_def Let_def split: prod.split)
  moreover have "clean ?t \<longleftrightarrow> (case fetchTokenCount factory answer of
       None \<Rightarrow> False | Some None \<Rightarrow> True | Some (Some m) \<Rightarrow> \<bar>n - m\<bar> \<le> tlCountDriftAbsolute tol)"
    by (auto simp: checkTokenCounts_def clean_def split: option.split)
  moreover have "burn_diffs tol t bs = [] \<longleftrightarrow>
      \<bar>tkBurnCount t - int (length bs)\<bar> \<le> tlCountDriftAbsolute tol \<and> isWithinTolerance tol (tkTotalBurned t) (total_burned bs)" for t bs
    by (auto simp: burn_diffs_def)
  moreover have "clean (fst ?b) \<longleftrightarrow> (\<forall>t\<in>set (filter (\<lambda>t. tkBurnCount t > 0) db). \<exists>bs. fetchBurnEvents (check (tkAddress t)) = Some bs \<and> burn_diffs tol t bs = [])"
    by (simp add: checkBurnTotals_def burn_loop_clean) (simp add: clean_def)
  ultimately show ?thesis by auto
qed

definition count_answer :: "int \<Rightarrow> answer" where
  "count_answer n = Inr (JObj [(''_embedded'', JObj [(''records'', JArr [JObj [(''value'', JObj [(''token_count'', JNum n)])]])])])"

lemma count_answer_fetch: "fetchTokenCount ''F'' (count_answer 1) = Some (Some 1)"
  by code_simp

theorem full_check_consistent_iff_witness:
  "\<not> fcConsistent (fst (runFullCheck exact_tolerances ''F'' True 5 (count_answer 1) (Some 1) (\<lambda>a. burn_answer) (\<lambda>a. burn_answer) True [drifted])) \<and>
   fcConsistent (fst (runFullCheck exact_tolerances ''F'' True 5 (count_answer 1) (Some 1) (\<lambda>a. burn_answer) (\<lambda>a. burn_answer) True
     [drifted\<lparr>tkBurnCount := 1, tkTotalBurned := 40\<rparr>]))"
  using full_check_consistent_iff [of exact_tolerances "''F''" True 5 "count_answer 1" 1 "\<lambda>a. burn_answer" "\<lambda>a. burn_answer" "[drifted]"]
    full_check_consistent_iff [of exact_tolerances "''F''" True 5 "count_answer 1" 1 "\<lambda>a. burn_answer" "\<lambda>a. burn_answer" "[drifted\<lparr>tkBurnCount := 1, tkTotalBurned := 40\<rparr>]"]
  by (simp add: count_answer_fetch burn_answer_burns drifted_def exact_tolerances_def isWithinTolerance_def total_burned_def)

end
