(* ===== verification/Leaderboard.thy ===== *)
theory Leaderboard
  imports Json_Text "HOL-Library.Char_ord" "HOL-Library.List_Lexorder" "HOL-Library.Multiset"
begin

text \<open>
  \<open>backend/src/services/leaderboardService.ts\<close>, \<open>lib/leaderboardSortedSetCache.ts\<close>, \<open>lib/validation/leaderboardWindow.ts\<close> and
  \<open>routes/leaderboard.ts\<close>: the boards of tokens, the sorted sets in Redis that two of them are read from, and the cache of responses.

  The sorted-set commands of Redis are a parameter with their laws. A \<open>Some k\<close> failure makes the command with the number \<open>k\<close> of a
  function throw. Scores are whole numbers that a double holds. Equal sums, counts and times keep the order of the table. Texts
  of times are their milliseconds.
\<close>

section \<open>Sorted sets\<close>

record 'r zredis =
  zExists :: "string \<Rightarrow> 'r \<Rightarrow> bool"
  zCard :: "string \<Rightarrow> 'r \<Rightarrow> nat"
  zRevRange :: "string \<Rightarrow> nat \<Rightarrow> int \<Rightarrow> 'r \<Rightarrow> (string \<times> int) list"
  zDel :: "string \<Rightarrow> 'r \<Rightarrow> 'r"
  zAdd :: "string \<Rightarrow> (string \<times> int) list \<Rightarrow> 'r \<Rightarrow> 'r"
  zAddNx :: "string \<Rightarrow> int \<Rightarrow> string \<Rightarrow> 'r \<Rightarrow> 'r"
  zAddGt :: "string \<Rightarrow> int \<Rightarrow> string \<Rightarrow> 'r \<Rightarrow> 'r"
  zRem :: "string \<Rightarrow> string \<Rightarrow> 'r \<Rightarrow> 'r"
  zIncrBy :: "string \<Rightarrow> int \<Rightarrow> string \<Rightarrow> 'r \<Rightarrow> 'r"
  zScores :: "'r \<Rightarrow> string \<Rightarrow> (string \<times> int) list"

text \<open>The members with their scores, best first; of equal scores the later member in the order of texts.\<close>

definition rank_list :: "(string \<times> int) list \<Rightarrow> (string \<times> int) list" where
  "rank_list L = rev (sort_key snd (sort_key fst L))"

definition in_rank_order :: "(string \<times> int) list \<Rightarrow> bool" where
  "in_rank_order L \<longleftrightarrow> distinct (map fst L) \<and> rank_list L = L"

text \<open>
  A key exists while its set has members; ranges are cut from the ranked list; writing changes the scores of the members it names,
  with NX of absent ones only, with GT of absent ones and to greater scores only; no command touches another key.
\<close>

definition zredis_laws :: "'r zredis \<Rightarrow> bool" where
  "zredis_laws R \<longleftrightarrow>
     (\<forall>s k. in_rank_order (zScores R s k))
   \<and> (\<forall>s k. zExists R k s = (zScores R s k \<noteq> []))
   \<and> (\<forall>s k. zCard R k s = length (zScores R s k))
   \<and> (\<forall>s k a b. 0 \<le> b \<longrightarrow> zRevRange R k a b s = take (nat b + 1 - a) (drop a (zScores R s k)))
   \<and> (\<forall>s k. zScores R (zDel R k s) = (zScores R s)(k := []))
   \<and> (\<forall>s k ms. zScores R (zAdd R k ms s) = (zScores R s)(k := rank_list (foldl (\<lambda>L (m, a). jm_set L m a) (zScores R s k) ms)))
   \<and> (\<forall>s k a m. zScores R (zAddNx R k a m s) = (zScores R s)(k := (if jm_has (zScores R s k) m then zScores R s k else rank_list (jm_set (zScores R s k) m a))))
   \<and> (\<forall>s k a m. zScores R (zAddGt R k a m s) = (zScores R s)(k := (case jm_get (zScores R s k) m of
        Some b \<Rightarrow> if a > b then rank_list (jm_set (zScores R s k) m a) else zScores R s k | None \<Rightarrow> rank_list (jm_set (zScores R s k) m a))))
   \<and> (\<forall>s k m. zScores R (zRem R k m s) = (zScores R s)(k := jm_delete (zScores R s k) m))
   \<and> (\<forall>s k a m. zScores R (zIncrBy R k a m s) = (zScores R s)(k := rank_list (jm_set (zScores R s k) m
        (a + (case jm_get (zScores R s k) m of Some b \<Rightarrow> b | None \<Rightarrow> 0)))))"

definition mem_zset :: "(string \<Rightarrow> (string \<times> int) list) \<Rightarrow> string \<Rightarrow> (string \<times> int) list" where
  "mem_zset s k = rank_list (AList.clearjunk (s k))"

definition mem_zredis :: "(string \<Rightarrow> (string \<times> int) list) zredis" where
  "mem_zredis =
     \<lparr>zExists = (\<lambda>k s. mem_zset s k \<noteq> []), zCard = (\<lambda>k s. length (mem_zset s k)),
      zRevRange = (\<lambda>k a b s. take (nat b + 1 - a) (drop a (mem_zset s k))), zDel = (\<lambda>k s. s(k := [])),
      zAdd = (\<lambda>k ms s. s(k := rank_list (foldl (\<lambda>L (m, a). jm_set L m a) (mem_zset s k) ms))),
      zAddNx = (\<lambda>k a m s. s(k := (if jm_has (mem_zset s k) m then mem_zset s k else rank_list (jm_set (mem_zset s k) m a)))),
      zAddGt = (\<lambda>k a m s. s(k := (case jm_get (mem_zset s k) m of
        Some b \<Rightarrow> if a > b then rank_list (jm_set (mem_zset s k) m a) else mem_zset s k | None \<Rightarrow> rank_list (jm_set (mem_zset s k) m a)))),
      zRem = (\<lambda>k m s. s(k := jm_delete (mem_zset s k) m)),
      zIncrBy = (\<lambda>k a m s. s(k := rank_list (jm_set (mem_zset s k) m (a + (case jm_get (mem_zset s k) m of Some b \<Rightarrow> b | None \<Rightarrow> 0))))),
      zScores = mem_zset\<rparr>"

section \<open>Boards and periods\<close>

datatype board = MostBurned | MostActive

definition board_text :: "board \<Rightarrow> string" where
  "board_text b = (case b of MostBurned \<Rightarrow> ''most-burned'' | MostActive \<Rightarrow> ''most-active'')"

text \<open>\<open>Inherited t\<close> is a value, with the text \<open>t\<close>, that a look-up found in the prototype of the table.\<close>

datatype time_period = H24 | D7 | D30 | AllTime | Inherited string

definition period_text :: "time_period \<Rightarrow> string" where
  "period_text p = (case p of H24 \<Rightarrow> ''24h'' | D7 \<Rightarrow> ''7d'' | D30 \<Rightarrow> ''30d'' | AllTime \<Rightarrow> ''all'' | Inherited t \<Rightarrow> t)"

definition sortedSetKey :: "board \<Rightarrow> time_period \<Rightarrow> string" where
  "sortedSetKey b p = ''leaderboard:zset:'' @ board_text b @ '':'' @ period_text p"

definition WINDOW_ALIASES :: "(string \<times> time_period) list" where
  "WINDOW_ALIASES =
     [(''24h'', H24), (''1d'', H24), (''day'', H24), (''7d'', D7), (''1w'', D7), (''week'', D7), (''30d'', D30), (''1m'', D30), (''month'', D30),
      (''all'', AllTime), (''all-time'', AllTime), (''alltime'', AllTime), (''all_time'', AllTime)]"

text \<open>The properties that every object inherits and whose names are lower case.\<close>

definition inherited :: "string \<Rightarrow> time_period option" where
  "inherited name =
     (if name = ''constructor'' then Some (Inherited ''function Object() { [native code] }'')
      else if name = ''__proto__'' then Some (Inherited ''[object Object]'') else None)"

datatype query_value = QAbsent | QText string | QOther

definition parseLeaderboardWindow :: "query_value \<Rightarrow> time_period \<Rightarrow> time_period option" where
  "parseLeaderboardWindow raw fallback =
     (case raw of
        QAbsent \<Rightarrow> Some fallback
      | QOther \<Rightarrow> None
      | QText s \<Rightarrow>
          if s = [] then Some fallback
          else (let name = to_lower (trim s)
                in case map_of WINDOW_ALIASES name of Some w \<Rightarrow> Some w | None \<Rightarrow> inherited name))"

text \<open>\<open>None\<close> when the answer is 400.\<close>

definition resolvePeriod :: "query_value \<Rightarrow> query_value \<Rightarrow> time_period \<Rightarrow> time_period option" where
  "resolvePeriod period window fallback =
     (if period \<noteq> QAbsent \<and> window \<noteq> QAbsent then None
      else parseLeaderboardWindow (if period = QAbsent then window else period) fallback)"

definition clamp_query :: "string option \<Rightarrow> string \<Rightarrow> int \<Rightarrow> int" where
  "clamp_query v dflt fallback =
     (case parse_int10 (case v of Some s \<Rightarrow> if s = [] then dflt else s | None \<Rightarrow> dflt) of
        None \<Rightarrow> fallback | Some n \<Rightarrow> if n < 1 then fallback else min n 100)"

definition validatePagination :: "string option \<Rightarrow> string option \<Rightarrow> nat \<times> nat" where
  "validatePagination page limit = (nat (clamp_query page ''1'' 1), nat (clamp_query limit ''10'' 10))"

section \<open>The sorted-set cache\<close>

definition getSortedSetStatus :: "'r zredis \<Rightarrow> board \<Rightarrow> time_period \<Rightarrow> nat option \<Rightarrow> 'r \<Rightarrow> bool \<times> bool" where
  "getSortedSetStatus R b p fail s = (if fail = Some 0 then (False, False) else (True, zExists R (sortedSetKey b p) s))"

definition readTopFromSortedSet :: "'r zredis \<Rightarrow> board \<Rightarrow> time_period \<Rightarrow> nat \<Rightarrow> nat \<Rightarrow> nat option \<Rightarrow> 'r \<Rightarrow> ((string \<times> int) list \<times> nat) option" where
  "readTopFromSortedSet R b p skip limit fail s =
     (let k = sortedSetKey b p
      in if fail = Some 0 \<or> \<not> zExists R k s then None
         else if fail = Some 1 \<or> fail = Some 2 then None
         else Some (zRevRange R k skip (int (skip + limit) - 1) s, zCard R k s))"

definition warmSortedSet :: "'r zredis \<Rightarrow> board \<Rightarrow> time_period \<Rightarrow> (string \<times> int) list \<Rightarrow> nat option \<Rightarrow> 'r \<Rightarrow> bool \<times> 'r" where
  "warmSortedSet R b p members fail s =
     (let k = sortedSetKey b p; s1 = zDel R k s; s2 = zAddGt R k 0 ''__warm_marker__'' s1
      in if fail = Some 0 then (False, s)
         else if fail = Some 1 then (False, s1)
         else if members = [] then (if fail = Some 2 then (False, s2) else (True, zRem R k ''__warm_marker__'' s2))
         else (True, zAdd R k members s1))"

definition incrementScore :: "'r zredis \<Rightarrow> board \<Rightarrow> time_period \<Rightarrow> string \<Rightarrow> int \<Rightarrow> nat option \<Rightarrow> 'r \<Rightarrow> bool \<times> 'r" where
  "incrementScore R b p tokenId delta fail s = (if fail = Some 0 then (False, s) else (True, zIncrBy R (sortedSetKey b p) delta tokenId s))"

definition ensureMember :: "'r zredis \<Rightarrow> board \<Rightarrow> time_period \<Rightarrow> string \<Rightarrow> nat option \<Rightarrow> 'r \<Rightarrow> bool \<times> 'r" where
  "ensureMember R b p tokenId fail s = (if fail = Some 0 then (False, s) else (True, zAddNx R (sortedSetKey b p) 0 tokenId s))"

section \<open>Responses and their cache\<close>

record lb_token =
  lkId :: string
  lkAddress :: string
  lkName :: string
  lkSymbol :: string
  lkDecimals :: int
  lkTotalSupply :: int
  lkTotalBurned :: int
  lkBurnCount :: int
  lkMetadataUri :: "string option"
  lkCreatedAt :: int

record lb_burn =
  lbTokenId :: string
  lbFrom :: string
  lbAmount :: int
  lbTimestamp :: int

record lb_entry =
  leRank :: nat
  leToken :: lb_token
  leMetric :: string

record lb_response =
  lrData :: "lb_entry list"
  lrPeriod :: time_period
  lrUpdatedAt :: int
  lrPage :: nat
  lrLimit :: nat
  lrTotal :: nat

record cache_entry =
  ceData :: lb_response
  ceTimestamp :: int
  ceTtl :: int

type_synonym lb_cache = "(string, cache_entry) jsmap"

definition CACHE_TTL :: int where "CACHE_TTL = 5 * 60 * 1000"

definition WINDOW_CACHE_TTL_MS :: "time_period \<Rightarrow> int option" where
  "WINDOW_CACHE_TTL_MS p = (case p of H24 \<Rightarrow> Some (60 * 1000) | D7 \<Rightarrow> Some CACHE_TTL | D30 \<Rightarrow> Some (10 * 60 * 1000) | AllTime \<Rightarrow> Some (15 * 60 * 1000) | Inherited t \<Rightarrow> None)"

definition getCacheKey :: "string \<Rightarrow> time_period \<Rightarrow> nat \<Rightarrow> nat \<Rightarrow> string" where
  "getCacheKey type period page limit = type @ '':'' @ period_text period @ '':'' @ show_nat page @ '':'' @ show_nat limit"

definition getFromCache :: "int \<Rightarrow> string \<Rightarrow> lb_cache \<Rightarrow> lb_response option \<times> lb_cache" where
  "getFromCache now key cache =
     (case jm_get cache key of
        None \<Rightarrow> (None, cache)
      | Some e \<Rightarrow> if now - ceTimestamp e > ceTtl e then (None, jm_delete cache key) else (Some (ceData e), cache))"

definition setCache :: "int \<Rightarrow> string \<Rightarrow> lb_response \<Rightarrow> lb_cache \<Rightarrow> lb_cache" where
  "setCache now key data cache =
     jm_set cache key \<lparr>ceData = data, ceTimestamp = now, ceTtl = (case WINDOW_CACHE_TTL_MS (lrPeriod data) of Some t \<Rightarrow> t | None \<Rightarrow> CACHE_TTL)\<rparr>"

definition getCachedKeys :: "string option \<Rightarrow> lb_cache \<Rightarrow> string list" where
  "getCachedKeys type cache =
     (case type of None \<Rightarrow> map fst cache | Some t \<Rightarrow> if t = [] then map fst cache else filter (\<lambda>k. starts_with k (t @ '':'')) (map fst cache))"

definition invalidateCacheByType :: "string \<Rightarrow> lb_cache \<Rightarrow> lb_cache" where
  "invalidateCacheByType type cache = foldl (\<lambda>c k. if starts_with k (type @ '':'') then jm_delete c k else c) cache (map fst cache)"

definition MAX_SORTED_SET_SCORE :: int where "MAX_SORTED_SET_SCORE = 2 ^ 53 - 1"

datatype score_input = BigIntValue int | TextValue string | NullValue

definition toSafeSortedSetScore :: "score_input \<Rightarrow> (service_error, int) res" where
  "toSafeSortedSetScore v =
     (case (case v of BigIntValue n \<Rightarrow> Some n | TextValue s \<Rightarrow> big_int_of s | NullValue \<Rightarrow> Some 0) of
        None \<Rightarrow> Inl (SyntaxError ''Cannot convert to a BigInt'')
      | Some amount \<Rightarrow> Inr (if amount > MAX_SORTED_SET_SCORE then 2 ^ 53 - 1 else amount))"

section \<open>Events\<close>

record 'r lb_state =
  lsCache :: lb_cache
  lsRedis :: 'r

definition SORTED_SET_PERIODS :: "time_period list" where "SORTED_SET_PERIODS = [H24, D7, D30, AllTime]"
definition SORTED_SET_BOARDS :: "board list" where "SORTED_SET_BOARDS = [MostBurned, MostActive]"

text \<open>\<open>down b p\<close>: the command for that set fails.\<close>

definition on_token_burned :: "'r zredis \<Rightarrow> (board \<Rightarrow> time_period \<Rightarrow> bool) \<Rightarrow> string \<Rightarrow> string \<Rightarrow> 'r lb_state \<Rightarrow> (service_error, unit) res \<times> 'r lb_state" where
  "on_token_burned R down tokenId amount st =
     (if tokenId = [] then (Inr (), st)
      else (case toSafeSortedSetScore (TextValue amount) of
              Inl e \<Rightarrow> (Inl e, st)
            | Inr delta \<Rightarrow>
                let c = invalidateCacheByType ''most-burners'' (invalidateCacheByType ''most-active'' (invalidateCacheByType ''most-burned'' (lsCache st)));
                    fail = (\<lambda>b p. if down b p then Some 0 else None)
                in (Inr (), \<lparr>lsCache = c, lsRedis = foldl (\<lambda>r p.
                      snd (incrementScore R MostActive p tokenId 1 (fail MostActive p)
                        (snd (incrementScore R MostBurned p tokenId delta (fail MostBurned p) r)))) (lsRedis st) SORTED_SET_PERIODS\<rparr>)))"

definition on_token_deployed :: "'r zredis \<Rightarrow> (board \<Rightarrow> time_period \<Rightarrow> bool) \<Rightarrow> string \<Rightarrow> 'r lb_state \<Rightarrow> 'r lb_state" where
  "on_token_deployed R down tokenId st =
     (let c = invalidateCacheByType ''largest-supply'' (invalidateCacheByType ''newest'' (lsCache st)); fail = (\<lambda>b p. if down b p then Some 0 else None)
      in if tokenId = [] then st\<lparr>lsCache := c\<rparr>
         else \<lparr>lsCache = c, lsRedis = foldl (\<lambda>r p.
                 snd (ensureMember R MostActive p tokenId (fail MostActive p) (snd (ensureMember R MostBurned p tokenId (fail MostBurned p) r))))
               (lsRedis st) SORTED_SET_PERIODS\<rparr>)"

section \<open>The boards\<close>

definition getDateFilter :: "int \<Rightarrow> time_period \<Rightarrow> int option" where
  "getDateFilter now p =
     (case p of
        H24 \<Rightarrow> Some (now - 24 * 60 * 60 * 1000)
      | D7 \<Rightarrow> Some (now - 7 * 24 * 60 * 60 * 1000)
      | D30 \<Rightarrow> Some (now - 30 * 24 * 60 * 60 * 1000)
      | AllTime \<Rightarrow> None
      | Inherited t \<Rightarrow> None)"

definition in_window :: "int option \<Rightarrow> int \<Rightarrow> bool" where
  "in_window dateFilter t \<longleftrightarrow> (case dateFilter of None \<Rightarrow> True | Some d \<Rightarrow> t \<ge> d)"

record lb_db =
  ldTokens :: "lb_token list"
  ldBurns :: "lb_burn list"

definition find_token :: "lb_token list \<Rightarrow> string \<Rightarrow> lb_token option" where
  "find_token tokens i = List.find (\<lambda>t. lkId t = i) tokens"

fun buildRankedData :: "(string \<times> string) list \<Rightarrow> lb_token list \<Rightarrow> nat \<Rightarrow> lb_entry list" where
  "buildRankedData [] tokens skip = []"
| "buildRankedData ((i, metric) # rest) tokens skip =
     (case find_token tokens i of
        None \<Rightarrow> buildRankedData rest tokens (Suc skip)
      | Some t \<Rightarrow> \<lparr>leRank = Suc skip, leToken = t, leMetric = metric\<rparr> # buildRankedData rest tokens (Suc skip))"

text \<open>The groups of the burns in the window with the value of each, largest first.\<close>

definition group_by_token :: "(lb_burn list \<Rightarrow> int) \<Rightarrow> int option \<Rightarrow> lb_burn list \<Rightarrow> (string \<times> int) list" where
  "group_by_token agg dateFilter burns =
     (let rows = filter (\<lambda>b. in_window dateFilter (lbTimestamp b)) burns
      in sort_key (\<lambda>g. - snd g) (map (\<lambda>i. (i, agg (filter (\<lambda>b. lbTokenId b = i) rows))) (rev (remdups (rev (map lbTokenId rows))))))"

definition sum_amount :: "lb_burn list \<Rightarrow> int" where
  "sum_amount rows = sum_list (map lbAmount rows)"

definition count_rows :: "lb_burn list \<Rightarrow> int" where
  "count_rows rows = int (length rows)"

record recomputed =
  rpData :: "lb_entry list"
  rpTotal :: nat
  rpScores :: "(string \<times> int) list"

definition cap_score :: "int \<Rightarrow> int" where
  "cap_score n = (case toSafeSortedSetScore (BigIntValue n) of Inr s \<Rightarrow> s | Inl e \<Rightarrow> 0)"

definition recomputeMostBurned :: "int \<Rightarrow> time_period \<Rightarrow> nat \<Rightarrow> nat \<Rightarrow> lb_db \<Rightarrow> recomputed" where
  "recomputeMostBurned now period skip limit db =
     (let groups = group_by_token sum_amount (getDateFilter now period) (ldBurns db); page = take limit (drop skip groups)
      in \<lparr>rpData = buildRankedData (map (\<lambda>(i, a). (i, show_int a)) page) (ldTokens db) skip, rpTotal = length groups,
          rpScores = map (\<lambda>(i, a). (i, cap_score a)) page\<rparr>)"

definition recomputeMostActive :: "int \<Rightarrow> time_period \<Rightarrow> nat \<Rightarrow> nat \<Rightarrow> lb_db \<Rightarrow> recomputed" where
  "recomputeMostActive now period skip limit db =
     (let groups = group_by_token count_rows (getDateFilter now period) (ldBurns db); page = take limit (drop skip groups)
      in \<lparr>rpData = buildRankedData (map (\<lambda>(i, n). (i, show_int n)) page) (ldTokens db) skip, rpTotal = length groups, rpScores = page\<rparr>)"

definition recompute :: "board \<Rightarrow> int \<Rightarrow> time_period \<Rightarrow> nat \<Rightarrow> nat \<Rightarrow> lb_db \<Rightarrow> recomputed" where
  "recompute b = (case b of MostBurned \<Rightarrow> recomputeMostBurned | MostActive \<Rightarrow> recomputeMostActive)"

text \<open>
  A read up to its last query: the answer from the cache, or what is to be stored, with the scores to warm the set with.
  Other requests and events may run before it is stored.
\<close>

datatype ranked_read = Served lb_response | Computed "lb_entry list" nat "(string \<times> int) list option"

definition ranked_begin ::
  "'r zredis \<Rightarrow> int \<Rightarrow> nat option \<Rightarrow> board \<Rightarrow> time_period \<Rightarrow> nat \<Rightarrow> nat \<Rightarrow> lb_db \<Rightarrow> 'r lb_state \<Rightarrow> ranked_read \<times> 'r lb_state" where
  "ranked_begin R now fail b period page limit db st =
     (case getFromCache now (getCacheKey (board_text b) period page limit) (lsCache st) of
        (Some r, c) \<Rightarrow> (Served r, st\<lparr>lsCache := c\<rparr>)
      | (None, c) \<Rightarrow>
          let skip = (page - 1) * limit
          in (case readTopFromSortedSet R b period skip limit fail (lsRedis st) of
                Some (members, ntotal) \<Rightarrow>
                  (Computed (buildRankedData (map (\<lambda>(i, a). (i, show_int a)) members) (ldTokens db) skip) ntotal None, st\<lparr>lsCache := c\<rparr>)
              | None \<Rightarrow>
                  (let r = recompute b now period skip limit db in (Computed (rpData r) (rpTotal r) (Some (rpScores r)), st\<lparr>lsCache := c\<rparr>))))"

definition ranked_finish ::
  "'r zredis \<Rightarrow> int \<Rightarrow> nat option \<Rightarrow> board \<Rightarrow> time_period \<Rightarrow> nat \<Rightarrow> nat \<Rightarrow> ranked_read \<Rightarrow> 'r lb_state \<Rightarrow> lb_response \<times> 'r lb_state" where
  "ranked_finish R now fail b period page limit rd st =
     (case rd of
        Served r \<Rightarrow> (r, st)
      | Computed data ntotal scores \<Rightarrow>
          let response = \<lparr>lrData = data, lrPeriod = period, lrUpdatedAt = now, lrPage = page, lrLimit = limit, lrTotal = ntotal\<rparr>
          in (response,
              \<lparr>lsCache = setCache now (getCacheKey (board_text b) period page limit) response (lsCache st),
               lsRedis = (case scores of None \<Rightarrow> lsRedis st | Some ms \<Rightarrow> snd (warmSortedSet R b period ms fail (lsRedis st)))\<rparr>))"

definition getRankedLeaderboard ::
  "'r zredis \<Rightarrow> int \<Rightarrow> nat option \<Rightarrow> nat option \<Rightarrow> board \<Rightarrow> time_period \<Rightarrow> nat \<Rightarrow> nat \<Rightarrow> lb_db \<Rightarrow> 'r lb_state \<Rightarrow> lb_response \<times> 'r lb_state" where
  "getRankedLeaderboard R now failRead failWarm b period page limit db st =
     (case ranked_begin R now failRead b period page limit db st of (rd, st1) \<Rightarrow> ranked_finish R now failWarm b period page limit rd st1)"

text \<open>The boards of the token table.\<close>

definition token_board ::
  "string \<Rightarrow> (lb_token \<Rightarrow> int) \<Rightarrow> (lb_token \<Rightarrow> string) \<Rightarrow> int \<Rightarrow> nat \<Rightarrow> nat \<Rightarrow> time_period \<Rightarrow> lb_db \<Rightarrow> lb_cache \<Rightarrow> lb_response \<times> lb_cache" where
  "token_board type order metric now page limit period db cache =
     (let key = getCacheKey type period page limit
      in case getFromCache now key cache of
           (Some r, c) \<Rightarrow> (r, c)
         | (None, c) \<Rightarrow>
             let skip = (page - 1) * limit;
                 rows = filter (\<lambda>t. in_window (getDateFilter now period) (lkCreatedAt t)) (ldTokens db);
                 tokens = take limit (drop skip (sort_key (\<lambda>t. - order t) rows));
                 data = map (\<lambda>(k, t). \<lparr>leRank = skip + k + 1, leToken = t, leMetric = metric t\<rparr>) (enumerate 0 tokens);
                 r = \<lparr>lrData = data, lrPeriod = period, lrUpdatedAt = now, lrPage = page, lrLimit = limit, lrTotal = length rows\<rparr>
             in (r, setCache now key r c))"

definition getNewestTokensLeaderboard :: "int \<Rightarrow> nat \<Rightarrow> nat \<Rightarrow> time_period \<Rightarrow> lb_db \<Rightarrow> lb_cache \<Rightarrow> lb_response \<times> lb_cache" where
  "getNewestTokensLeaderboard = token_board ''newest'' lkCreatedAt (\<lambda>t. show_int (lkCreatedAt t))"

definition getLargestSupplyLeaderboard :: "int \<Rightarrow> nat \<Rightarrow> nat \<Rightarrow> time_period \<Rightarrow> lb_db \<Rightarrow> lb_cache \<Rightarrow> lb_response \<times> lb_cache" where
  "getLargestSupplyLeaderboard = token_board ''largest-supply'' lkTotalSupply (\<lambda>t. show_int (lkTotalSupply t))"

definition unique_burners :: "lb_burn list \<Rightarrow> int" where
  "unique_burners rows = int (length (remdups (map lbFrom rows)))"

definition getMostBurnersLeaderboard :: "int \<Rightarrow> time_period \<Rightarrow> nat \<Rightarrow> nat \<Rightarrow> lb_db \<Rightarrow> lb_cache \<Rightarrow> (service_error, lb_response) res \<times> lb_cache" where
  "getMostBurnersLeaderboard now period page limit db cache =
     (let key = getCacheKey ''most-burners'' period page limit
      in case getFromCache now key cache of
           (Some r, c) \<Rightarrow> (Inr r, c)
         | (None, c) \<Rightarrow>
             let skip = (page - 1) * limit; groups = group_by_token unique_burners (getDateFilter now period) (ldBurns db);
                 result = take limit (drop skip groups)
             in if \<exists>g\<in>set result. find_token (ldTokens db) (fst g) = None then (Inl (PlainError ''TypeError''), c)
                else let r = \<lparr>lrData = buildRankedData (map (\<lambda>(i, n). (i, show_int n)) result) (ldTokens db) skip, lrPeriod = period, lrUpdatedAt = now,
                       lrPage = page, lrLimit = limit, lrTotal = length groups\<rparr>
                     in (Inr r, setCache now key r c))"

section \<open>The status\<close>

record board_status =
  bsBoard :: board
  bsPeriod :: time_period
  bsReachable :: bool
  bsWarm :: bool
  bsSortedSet :: bool

record cache_status =
  csReachable :: bool
  csEntries :: nat
  csBoards :: "board_status list"

definition getCacheStatus :: "'r zredis \<Rightarrow> (board \<Rightarrow> time_period \<Rightarrow> bool) \<Rightarrow> 'r lb_state \<Rightarrow> cache_status" where
  "getCacheStatus R down st =
     (let checks = concat (map (\<lambda>b. map (\<lambda>p. case getSortedSetStatus R b p (if down b p then Some 0 else None) (lsRedis st) of (reachable, warm) \<Rightarrow>
            \<lparr>bsBoard = b, bsPeriod = p, bsReachable = reachable, bsWarm = warm, bsSortedSet = (reachable \<and> warm)\<rparr>) SORTED_SET_PERIODS) SORTED_SET_BOARDS)
      in \<lparr>csReachable = list_all bsReachable checks, csEntries = length (lsCache st), csBoards = checks\<rparr>)"

lemma set_rank_list [simp]: "set (rank_list L) = set L"
  by (simp add: rank_list_def)

lemma length_rank_list [simp]: "length (rank_list L) = length L"
  by (simp add: rank_list_def)

lemma mset_rank_list [simp]: "mset (rank_list L) = mset L"
  by (simp add: rank_list_def)

lemma rank_list_Nil [simp]: "rank_list L = [] \<longleftrightarrow> L = []" "rank_list [] = []"
  by (metis length_0_conv length_rank_list) (simp add: rank_list_def)

lemma jm_wf_mset: "mset xs = mset ys \<Longrightarrow> jm_wf xs = jm_wf ys"
  unfolding jm_wf_def by (metis mset_eq_imp_distinct_iff mset_map)

lemma jm_wf_rank_list [simp]: "jm_wf (rank_list L) = jm_wf L"
  by (rule jm_wf_mset) simp

lemma jm_get_rank_list [simp]: "jm_wf L \<Longrightarrow> jm_get (rank_list L) m = jm_get L m"
  by (rule map_of_inject_set [THEN iffD2, THEN fun_cong]) (simp_all add: jm_wf_def [symmetric])

lemma rank_list_cong: "jm_wf xs \<Longrightarrow> mset xs = mset ys \<Longrightarrow> rank_list xs = rank_list ys"
proof -
  assume wf: "jm_wf xs" and eq: "mset xs = mset ys"
  then have "sort_key fst xs = sort_key fst ys"
    by (intro sort_key_inj_key_eq) (auto simp: jm_wf_def distinct_map)
  then show ?thesis by (simp add: rank_list_def)
qed

lemma rank_list_idem [simp]: "jm_wf L \<Longrightarrow> rank_list (rank_list L) = rank_list L"
  by (rule rank_list_cong) simp_all

lemma ranked_wf: "in_rank_order L \<Longrightarrow> jm_wf L"
  by (simp add: in_rank_order_def jm_wf_def)

lemma ranked_rank_list [simp]: "jm_wf L \<Longrightarrow> in_rank_order (rank_list L)"
  using jm_wf_rank_list [of L] by (simp add: in_rank_order_def jm_wf_def)

lemma rank_list_delete: "rank_list (jm_delete L m) = jm_delete (rank_list L) m"
  by (simp add: rank_list_def jm_delete_filter filter_sort rev_filter [symmetric])

lemma ranked_delete: "in_rank_order L \<Longrightarrow> in_rank_order (jm_delete L m)"
  using rank_list_delete [of L m] jm_wf_delete [of L m] by (auto simp: in_rank_order_def jm_wf_def)

lemma jm_wf_adds: "jm_wf L \<Longrightarrow> jm_wf (foldl (\<lambda>L (m, a). jm_set L m a) L ms)"
  by (induction ms arbitrary: L) auto

lemma mem_zset_ranked [simp]: "in_rank_order (mem_zset s k)"
  by (simp add: mem_zset_def jm_wf_def)

lemma mem_zset_upd: "in_rank_order L \<Longrightarrow> mem_zset (s(k := L)) = (mem_zset s)(k := L)"
  by (rule ext) (simp add: mem_zset_def in_rank_order_def)

lemma mem_zredis_laws: "zredis_laws mem_zredis"
proof -
  have wf: "jm_wf (mem_zset s k)" for s k by (simp add: ranked_wf)
  have "in_rank_order []" by (simp add: in_rank_order_def)
  then show ?thesis
    by (auto simp: zredis_laws_def mem_zredis_def mem_zset_upd wf jm_wf_adds ranked_delete split: option.split)
qed


section \<open>The laws, one by one\<close>

lemma zredis_lawsD:
  assumes "zredis_laws R"
  shows "in_rank_order (zScores R s k)"
    and "zExists R k s = (zScores R s k \<noteq> [])"
    and "zCard R k s = length (zScores R s k)"
    and "0 \<le> b \<Longrightarrow> zRevRange R k a b s = take (nat b + 1 - a) (drop a (zScores R s k))"
    and "zScores R (zDel R k s) = (zScores R s)(k := [])"
    and "zScores R (zAdd R k ms s) = (zScores R s)(k := rank_list (foldl (\<lambda>L (m, a). jm_set L m a) (zScores R s k) ms))"
    and "zScores R (zAddNx R k x m s) = (zScores R s)(k := (if jm_has (zScores R s k) m then zScores R s k else rank_list (jm_set (zScores R s k) m x)))"
    and "zScores R (zAddGt R k x m s) = (zScores R s)(k := (case jm_get (zScores R s k) m of
        Some b \<Rightarrow> if x > b then rank_list (jm_set (zScores R s k) m x) else zScores R s k | None \<Rightarrow> rank_list (jm_set (zScores R s k) m x)))"
    and "zScores R (zRem R k m s) = (zScores R s)(k := jm_delete (zScores R s k) m)"
    and "zScores R (zIncrBy R k x m s) = (zScores R s)(k := rank_list (jm_set (zScores R s k) m (x + (case jm_get (zScores R s k) m of Some b \<Rightarrow> b | None \<Rightarrow> 0))))"
  using assms by (simp_all add: zredis_laws_def)

lemma zscores_wf: "zredis_laws R \<Longrightarrow> jm_wf (zScores R s k)"
  by (rule ranked_wf [OF zredis_lawsD(1)])

definition score :: "(string \<times> int) list \<Rightarrow> string \<Rightarrow> int" where
  "score L i = (case jm_get L i of Some a \<Rightarrow> a | None \<Rightarrow> 0)"

lemma sortedSetKey_eq: "sortedSetKey b p = sortedSetKey b' p' \<longleftrightarrow> b = b' \<and> period_text p = period_text p'"
  by (cases b; cases b') (auto simp: sortedSetKey_def board_text_def)

lemma period_text_eq: "p \<in> set SORTED_SET_PERIODS \<Longrightarrow> q \<in> set SORTED_SET_PERIODS \<Longrightarrow> period_text p = period_text q \<longleftrightarrow> p = q"
  by (auto simp: SORTED_SET_PERIODS_def period_text_def)

lemma score_incr:
  assumes "zredis_laws R"
  shows "score (zScores R (snd (incrementScore R b p m x None s)) (sortedSetKey b' p')) i =
    score (zScores R s (sortedSetKey b' p')) i + (if sortedSetKey b p = sortedSetKey b' p' \<and> m = i then x else 0)"
  using zscores_wf [OF assms] by (auto simp: incrementScore_def score_def zredis_lawsD(10) [OF assms] split: option.split)

lemma score_ensure:
  assumes "zredis_laws R"
  shows "score (zScores R (snd (ensureMember R b p m None s)) (sortedSetKey b' p')) i = score (zScores R s (sortedSetKey b' p')) i"
  using zscores_wf [OF assms] by (auto simp: ensureMember_def score_def zredis_lawsD(7) [OF assms] jm_has_def split: option.split)

section \<open>Scores\<close>

datatype lb_event = TokenBurned lb_burn | TokenDeployed string

definition lb_step :: "'r zredis \<Rightarrow> 'r lb_state \<Rightarrow> lb_event \<Rightarrow> 'r lb_state" where
  "lb_step R st ev =
     (case ev of
        TokenBurned r \<Rightarrow> snd (on_token_burned R (\<lambda>b p. False) (lbTokenId r) (show_int (lbAmount r)) st)
      | TokenDeployed i \<Rightarrow> on_token_deployed R (\<lambda>b p. False) i st)"

definition burns_in :: "lb_event list \<Rightarrow> lb_burn list" where
  "burns_in evs = List.map_filter (\<lambda>ev. case ev of TokenBurned r \<Rightarrow> Some r | TokenDeployed i \<Rightarrow> None) evs"

definition board_value :: "board \<Rightarrow> lb_burn list \<Rightarrow> string \<Rightarrow> int" where
  "board_value b burns i = (case b of MostBurned \<Rightarrow> sum_amount | MostActive \<Rightarrow> count_rows) (filter (\<lambda>r. lbTokenId r = i) burns)"

lemma safe_score_text: "toSafeSortedSetScore (TextValue (show_int n)) = Inr (if n > MAX_SORTED_SET_SCORE then 2 ^ 53 - 1 else n)"
  by (simp add: toSafeSortedSetScore_def big_int_of_show_int)

lemma lb_step_score:
  assumes laws: "zredis_laws R" and p: "p \<in> set SORTED_SET_PERIODS"
    and ev: "\<forall>r. ev = TokenBurned r \<longrightarrow> lbTokenId r \<noteq> [] \<and> lbAmount r \<le> MAX_SORTED_SET_SCORE"
  shows "score (zScores R (lsRedis (lb_step R st ev)) (sortedSetKey b p)) i =
    score (zScores R (lsRedis st) (sortedSetKey b p)) i + board_value b (burns_in [ev]) i"
proof (cases ev)
  case (TokenBurned r)
  then have r: "lbTokenId r \<noteq> []" "\<not> lbAmount r > MAX_SORTED_SET_SCORE" using ev by auto
  show ?thesis using TokenBurned r p
    by (cases b) (auto simp: lb_step_def on_token_burned_def safe_score_text Let_def SORTED_SET_PERIODS_def score_incr [OF laws] sortedSetKey_eq period_text_def
        board_value_def burns_in_def map_filter_simps sum_amount_def count_rows_def)
next
  case (TokenDeployed j)
  then show ?thesis
    by (simp add: lb_step_def on_token_deployed_def Let_def SORTED_SET_PERIODS_def score_ensure [OF laws] board_value_def burns_in_def map_filter_simps sum_amount_def count_rows_def split: board.split)
qed

lemma board_value_append: "board_value b (xs @ ys) i = board_value b xs i + board_value b ys i"
  by (cases b) (simp_all add: board_value_def sum_amount_def count_rows_def)

text \<open>Events keep the sorted sets exact: after any sequence of burns and deployments, with Redis answering, the score of every token in
  each of the four sets of a board has grown by exactly what recomputing that board over the new burns gives. A set that was
  right for all time stays right; the same sum goes to the windows of a day, a week and a month, from which no burn ever leaves.\<close>

theorem event_scores_accumulate:
  assumes "zredis_laws R" and "p \<in> set SORTED_SET_PERIODS"
    and "\<forall>r\<in>set (burns_in evs). lbTokenId r \<noteq> [] \<and> lbAmount r \<le> MAX_SORTED_SET_SCORE"
  shows "score (zScores R (lsRedis (foldl (lb_step R) st evs)) (sortedSetKey b p)) i =
    score (zScores R (lsRedis st) (sortedSetKey b p)) i + board_value b (burns_in evs) i"
  using assms(3)
proof (induction evs arbitrary: st)
  case Nil
  then show ?case by (cases b) (simp_all add: burns_in_def map_filter_simps board_value_def sum_amount_def count_rows_def)
next
  case (Cons ev evs)
  have split: "burns_in (ev # evs) = burns_in [ev] @ burns_in evs" by (simp add: burns_in_def map_filter_simps split: option.split)
  have "\<forall>r. ev = TokenBurned r \<longrightarrow> lbTokenId r \<noteq> [] \<and> lbAmount r \<le> MAX_SORTED_SET_SCORE"
    using Cons.prems by (auto simp: burns_in_def map_filter_simps)
  from lb_step_score [OF assms(1,2) this] Cons.IH [of "lb_step R st ev"] Cons.prems show ?case
    unfolding split board_value_append by (simp add: burns_in_def map_filter_simps split: option.splits)
qed


definition burn_ten :: lb_burn where
  "burn_ten = \<lparr>lbTokenId = ''T'', lbFrom = ''G'', lbAmount = 10, lbTimestamp = 0\<rparr>"

theorem event_scores_accumulate_witness:
  "score (zScores mem_zredis (lsRedis (foldl (lb_step mem_zredis) \<lparr>lsCache = [], lsRedis = (\<lambda>k. [])\<rparr> [TokenBurned burn_ten, TokenDeployed ''U'', TokenBurned burn_ten]))
     (sortedSetKey MostBurned H24)) ''T'' = 20"
proof -
  have "score (zScores mem_zredis (\<lambda>k. []) (sortedSetKey MostBurned H24)) ''T'' = 0"
    by (simp add: mem_zredis_def mem_zset_def score_def)
  then show ?thesis
    using event_scores_accumulate [OF mem_zredis_laws, of H24 "[TokenBurned burn_ten, TokenDeployed ''U'', TokenBurned burn_ten]" "\<lparr>lsCache = [], lsRedis = (\<lambda>k. [])\<rparr>" MostBurned "''T''"]
    by (simp add: SORTED_SET_PERIODS_def burns_in_def map_filter_simps burn_ten_def MAX_SORTED_SET_SCORE_def board_value_def sum_amount_def)
qed

section \<open>Cold sets\<close>

lemma length_adds: "length (foldl (\<lambda>L (m, a). jm_set L m a) L ms) \<le> length L + length ms"
proof (induction ms arbitrary: L)
  case (Cons ma ms)
  obtain m a where "ma = (m, a)" by (cases ma)
  then show ?case using Cons.IH [of "jm_set L m a"] by (simp add: jm_size_set split: if_splits)
qed simp

lemma read_sorted_set:
  assumes "zredis_laws R" and "0 < limit"
  shows "readTopFromSortedSet R b p skip limit None s =
    (if zScores R s (sortedSetKey b p) = [] then None
     else Some (take limit (drop skip (zScores R s (sortedSetKey b p))), length (zScores R s (sortedSetKey b p))))"
proof -
  have "nat (int (skip + limit) - 1) + 1 - skip = limit" using assms(2) by linarith
  then show ?thesis using assms(2) by (simp add: readTopFromSortedSet_def Let_def zredis_lawsD(2-4) [OF assms(1)])
qed

lemma recompute_scores_length: "length (rpScores (recompute b now p skip limit db)) \<le> limit"
  by (cases b) (simp_all add: recompute_def recomputeMostBurned_def recomputeMostActive_def Let_def)

lemma warm_scores:
  assumes "zredis_laws R"
  shows "length (zScores R (snd (warmSortedSet R b p ms None s)) (sortedSetKey b p)) \<le> length ms"
  using length_adds [of "[]" ms]
  by (simp add: warmSortedSet_def Let_def zredis_lawsD(5-9) [OF assms] rank_list_def jm_set_def jm_delete_filter)

text \<open>A cold read of one page warms the set with that page alone: whatever is read afterwards from the set, for any page and limit,
  is a board of at most that page's limit, so the total shrinks and every page behind it is empty.\<close>

theorem one_page_warm:
  assumes laws: "zredis_laws R" and cold: "zScores R (lsRedis st) (sortedSetKey b p) = []"
    and miss: "fst (getFromCache now (getCacheKey (board_text b) p page limit) (lsCache st)) = None" and "0 < limit" "0 < limit2"
    and read: "readTopFromSortedSet R b p skip2 limit2 None (lsRedis (snd (getRankedLeaderboard R now None None b p page limit db st))) = Some (members, n)"
  shows "n \<le> limit \<and> (limit \<le> skip2 \<longrightarrow> members = [])"
proof -
  obtain c where c: "getFromCache now (getCacheKey (board_text b) p page limit) (lsCache st) = (None, c)" using miss by (metis prod.collapse)
  let ?ms = "rpScores (recompute b now p ((page - 1) * limit) limit db)"
  have "lsRedis (snd (getRankedLeaderboard R now None None b p page limit db st)) = snd (warmSortedSet R b p ?ms None (lsRedis st))"
    by (simp add: getRankedLeaderboard_def ranked_begin_def ranked_finish_def Let_def c cold read_sorted_set [OF laws \<open>0 < limit\<close>])
  moreover have "length (zScores R (snd (warmSortedSet R b p ?ms None (lsRedis st))) (sortedSetKey b p)) \<le> limit"
    by (rule le_trans [OF warm_scores [OF laws] recompute_scores_length])
  ultimately have len: "length (zScores R (lsRedis (snd (getRankedLeaderboard R now None None b p page limit db st))) (sortedSetKey b p)) \<le> limit" by simp
  then show ?thesis using read unfolding read_sorted_set [OF laws \<open>0 < limit2\<close>] by (auto split: if_splits)
qed

definition two_tokens :: lb_db where
  "two_tokens = \<lparr>ldTokens = [], ldBurns = [burn_ten, burn_ten\<lparr>lbTokenId := ''U''\<rparr>, burn_ten\<lparr>lbTokenId := ''V''\<rparr>]\<rparr>"

definition after_cold_read :: "(string \<Rightarrow> (string \<times> int) list) lb_state" where
  "after_cold_read = snd (getRankedLeaderboard mem_zredis 0 None None MostBurned AllTime 1 1 two_tokens \<lparr>lsCache = [], lsRedis = (\<lambda>k. [])\<rparr>)"

theorem one_page_warm_witness:
  "rpTotal (recompute MostBurned 0 AllTime 0 1 two_tokens) = 3 \<and>
   (\<exists>members n. readTopFromSortedSet mem_zredis MostBurned AllTime 1 5 None (lsRedis after_cold_read) = Some (members, n) \<and> n \<le> 1 \<and> members = [])"
proof -
  have groups: "group_by_token sum_amount None (ldBurns two_tokens) = [(''T'', 10), (''U'', 10), (''V'', 10)]"
    by (simp add: group_by_token_def two_tokens_def burn_ten_def in_window_def sum_amount_def)
  then have "rpTotal (recompute MostBurned 0 AllTime 0 1 two_tokens) = 3"
    by (simp add: recompute_def recomputeMostBurned_def getDateFilter_def Let_def)
  have cold: "readTopFromSortedSet mem_zredis MostBurned AllTime skip limit None (\<lambda>k. []) = None" for skip limit
    by (simp add: readTopFromSortedSet_def mem_zredis_def mem_zset_def)
  have "zScores mem_zredis (lsRedis after_cold_read) (sortedSetKey MostBurned AllTime) \<noteq> []"
    by (simp add: after_cold_read_def getRankedLeaderboard_def ranked_begin_def ranked_finish_def getFromCache_def cold recompute_def recomputeMostBurned_def
        getDateFilter_def Let_def groups warmSortedSet_def zredis_lawsD(5,6) [OF mem_zredis_laws] jm_set_def)
  then have "readTopFromSortedSet mem_zredis MostBurned AllTime 1 5 None (lsRedis after_cold_read) \<noteq> None"
    by (simp add: read_sorted_set [OF mem_zredis_laws])
  then obtain members n where read: "readTopFromSortedSet mem_zredis MostBurned AllTime 1 5 None (lsRedis after_cold_read) = Some (members, n)" by auto
  have "n \<le> 1 \<and> (1 \<le> (1 :: nat) \<longrightarrow> members = [])"
    using one_page_warm [OF mem_zredis_laws _ _ _ _ read [unfolded after_cold_read_def]] by (simp add: mem_zredis_def mem_zset_def getFromCache_def)
  then show ?thesis using read \<open>rpTotal (recompute MostBurned 0 AllTime 0 1 two_tokens) = 3\<close> by auto
qed

text \<open>An event warms a cold set: after Redis has lost it, the first burn leaves a set with that token alone, and every later read is
  served from it instead of the fallback.\<close>

theorem event_warms_cold_set:
  assumes "zredis_laws R" and "p \<in> set SORTED_SET_PERIODS" and "\<forall>b q. zScores R (lsRedis st) (sortedSetKey b q) = []" and "0 < limit"
    and "lbTokenId r \<noteq> []"
  shows "\<exists>a. readTopFromSortedSet R b p 0 limit None (lsRedis (lb_step R st (TokenBurned r))) = Some ([(lbTokenId r, a)], 1)"
proof -
  obtain delta where d: "toSafeSortedSetScore (TextValue (show_int (lbAmount r))) = Inr delta" by (simp add: safe_score_text)
  have one: "rank_list [x] = [x]" for x by (simp add: rank_list_def)
  have "\<exists>a. zScores R (lsRedis (lb_step R st (TokenBurned r))) (sortedSetKey b p) = [(lbTokenId r, a)]"
    using assms(2,3,5) d
    by (cases b) (auto simp: lb_step_def on_token_burned_def Let_def SORTED_SET_PERIODS_def incrementScore_def zredis_lawsD(10) [OF assms(1)]
        sortedSetKey_eq period_text_def jm_set_def one)
  then show ?thesis using assms(4) by (auto simp: read_sorted_set [OF assms(1,4)] Suc_leI take_Cons')
qed

theorem event_warms_cold_set_witness:
  "\<exists>a. readTopFromSortedSet mem_zredis MostActive D7 0 10 None (lsRedis (lb_step mem_zredis \<lparr>lsCache = [], lsRedis = (\<lambda>k. [])\<rparr> (TokenBurned burn_ten))) = Some ([(''T'', a)], 1)"
  using event_warms_cold_set [OF mem_zredis_laws, of D7 "\<lparr>lsCache = [], lsRedis = (\<lambda>k. [])\<rparr>" 10 burn_ten MostActive]
  by (simp add: SORTED_SET_PERIODS_def mem_zredis_def mem_zset_def burn_ten_def)

text \<open>Warming with an empty board leaves the set cold: removing the marker removes the key.\<close>

theorem empty_board_stays_cold:
  assumes "zredis_laws R"
  shows "fst (warmSortedSet R b p [] None s) \<and> readTopFromSortedSet R b p skip limit None (snd (warmSortedSet R b p [] None s)) = None"
  using assms by (simp add: warmSortedSet_def Let_def readTopFromSortedSet_def zredis_lawsD(2,5,8,9) [OF assms] rank_list_def jm_set_def jm_delete_filter)

theorem empty_board_stays_cold_witness:
  "readTopFromSortedSet mem_zredis MostActive D7 0 10 None (snd (warmSortedSet mem_zredis MostActive D7 [] None (\<lambda>k. []))) = None"
  using empty_board_stays_cold [OF mem_zredis_laws] by blast


section \<open>The cache of responses\<close>

lemma invalidate_get: "jm_get (invalidateCacheByType type cache) k = (if starts_with k (type @ '':'') then None else jm_get cache k)"
proof -
  have fold: "jm_get (foldl (\<lambda>c k. if starts_with k pre then jm_delete c k else c) c ks) k = (if k \<in> set ks \<and> starts_with k pre then None else jm_get c k)" for ks c pre
    by (induction ks arbitrary: c) auto
  have "jm_get cache k = None" if "k \<notin> set (map fst cache)" using that by (simp add: map_of_eq_None_iff)
  then show ?thesis unfolding invalidateCacheByType_def fold by auto
qed

lemma key_of_type:
  assumes "CHR '':'' \<notin> set t" "CHR '':'' \<notin> set u"
  shows "starts_with (getCacheKey t p page limit) (u @ '':'') \<longleftrightarrow> t = u"
proof
  assume "starts_with (getCacheKey t p page limit) (u @ '':'')"
  then obtain r where "t @ CHR '':'' # (period_text p @ '':'' @ show_nat page @ '':'' @ show_nat limit) = u @ CHR '':'' # r"
    by (auto simp: starts_with_iff getCacheKey_def)
  from arg_cong [OF this, of "\<lambda>s. hd (split_on (CHR '':'') s)"] show "t = u" by (simp add: split_on_append assms)
qed (auto simp: getCacheKey_def starts_with_iff)

definition board_types :: "string list" where
  "board_types = [''most-burned'', ''most-active'', ''newest'', ''largest-supply'', ''most-burners'']"

definition touched_boards :: "lb_event \<Rightarrow> string set" where
  "touched_boards ev = (case ev of TokenBurned r \<Rightarrow> {''most-burned'', ''most-active'', ''most-burners''} | TokenDeployed i \<Rightarrow> {''newest'', ''largest-supply''})"

text \<open>An event drops the cached responses of exactly the boards it changes: a burn those of most-burned, most-active and most-burners in every
  period, page and limit, a deployment those of newest and largest-supply; the other boards keep theirs.\<close>

theorem events_drop_their_boards:
  assumes "t \<in> set board_types" and "\<forall>r. ev = TokenBurned r \<longrightarrow> lbTokenId r \<noteq> []"
  shows "jm_get (lsCache (lb_step R st ev)) (getCacheKey t p page limit) =
    (if t \<in> touched_boards ev then None else jm_get (lsCache st) (getCacheKey t p page limit))"
proof -
  have colon: "CHR '':'' \<notin> set u" if "u \<in> set board_types" for u using that by (auto simp: board_types_def)
  have touched: "touched_boards ev \<subseteq> set board_types" by (auto simp: touched_boards_def board_types_def split: lb_event.split)
  have key: "starts_with (getCacheKey t p page limit) (u @ '':'') \<longleftrightarrow> t = u" if "u \<in> touched_boards ev" for u
    using key_of_type [OF colon [OF assms(1)] colon [OF subsetD [OF touched that]]] .
  have "jm_get (lsCache (lb_step R st ev)) k = (if \<exists>u\<in>touched_boards ev. starts_with k (u @ '':'') then None else jm_get (lsCache st) k)" for k
    using assms(2) by (cases ev) (simp_all add: lb_step_def on_token_burned_def on_token_deployed_def safe_score_text Let_def invalidate_get touched_boards_def)
  moreover have "(\<exists>u\<in>touched_boards ev. starts_with (getCacheKey t p page limit) (u @ '':'')) \<longleftrightarrow> t \<in> touched_boards ev" using key by blast
  ultimately show ?thesis by simp
qed

definition empty_page :: lb_response where
  "empty_page = \<lparr>lrData = [], lrPeriod = D7, lrUpdatedAt = 0, lrPage = 1, lrLimit = 10, lrTotal = 0\<rparr>"

theorem events_drop_their_boards_witness:
  "jm_get (lsCache (lb_step mem_zredis \<lparr>lsCache = setCache 0 (getCacheKey ''most-burned'' D7 1 10) empty_page [], lsRedis = (\<lambda>k. [])\<rparr> (TokenBurned burn_ten)))
     (getCacheKey ''most-burned'' D7 1 10) = None"
proof -
  have "\<forall>r. TokenBurned burn_ten = TokenBurned r \<longrightarrow> lbTokenId r \<noteq> []" by (auto simp: burn_ten_def)
  from events_drop_their_boards [OF _ this, of "''most-burned''"] show ?thesis by (simp add: board_types_def touched_boards_def)
qed

datatype cache_op = CacheSet int string lb_response | CacheGet int string | CacheInvalidate string | CacheClear

definition cache_step :: "lb_cache \<Rightarrow> cache_op \<Rightarrow> lb_cache" where
  "cache_step c op = (case op of CacheSet now k r \<Rightarrow> setCache now k r c | CacheGet now k \<Rightarrow> snd (getFromCache now k c)
     | CacheInvalidate type \<Rightarrow> invalidateCacheByType type c | CacheClear \<Rightarrow> [])"

lemma cache_entry_origin:
  "jm_get (foldl cache_step [] ops) k = Some e \<Longrightarrow>
    \<exists>before t after. ops = before @ CacheSet t k (ceData e) # after \<and> ceTimestamp e = t \<and> ceTtl e \<le> 15 * 60 * 1000 \<and>
      CacheClear \<notin> set after \<and> (\<forall>type. CacheInvalidate type \<in> set after \<longrightarrow> \<not> starts_with k (type @ '':''))"
proof (induction ops arbitrary: e rule: rev_induct)
  case (snoc op ops)
  define c where "c = foldl cache_step [] ops"
  have prem: "jm_get (cache_step c op) k = Some e" using snoc.prems by (simp add: c_def)
  have keep: "\<exists>before t after. ops @ [op] = before @ CacheSet t k (ceData e) # after \<and> ceTimestamp e = t \<and> ceTtl e \<le> 15 * 60 * 1000 \<and>
      CacheClear \<notin> set after \<and> (\<forall>type. CacheInvalidate type \<in> set after \<longrightarrow> \<not> starts_with k (type @ '':''))"
    if held: "jm_get c k = Some e" "op \<noteq> CacheClear" "\<And>type. op = CacheInvalidate type \<Longrightarrow> \<not> starts_with k (type @ '':'')"
  proof -
    obtain before t after where "ops = before @ CacheSet t k (ceData e) # after" "ceTimestamp e = t" "ceTtl e \<le> 15 * 60 * 1000"
      "CacheClear \<notin> set after" "\<forall>type. CacheInvalidate type \<in> set after \<longrightarrow> \<not> starts_with k (type @ '':'')" using snoc.IH [OF held(1) [unfolded c_def]] by blast
    then show ?thesis using held(2,3) by (intro exI [of _ before] exI [of _ t] exI [of _ "after @ [op]"]) auto
  qed
  show ?case
  proof (cases op)
    case (CacheSet t k' r)
    show ?thesis
    proof (cases "k' = k")
      case True
      then have e: "ceData e = r" "ceTimestamp e = t" "ceTtl e \<le> 15 * 60 * 1000"
        using prem CacheSet by (auto simp: cache_step_def setCache_def WINDOW_CACHE_TTL_MS_def CACHE_TTL_def split: time_period.split)
      then show ?thesis using CacheSet True by (intro exI [of _ ops] exI [of _ t] exI [of _ "[]"]) simp
    next
      case False
      then show ?thesis using prem CacheSet by (intro keep) (simp_all add: cache_step_def setCache_def)
    qed
  next
    case (CacheGet t k')
    then show ?thesis using prem by (intro keep) (auto simp: cache_step_def getFromCache_def split: option.splits if_splits)
  next
    case (CacheInvalidate type)
    then show ?thesis using prem by (intro keep) (auto simp: cache_step_def invalidate_get split: if_splits)
  qed (use prem in \<open>simp add: cache_step_def\<close>)
qed simp

text \<open>A response served from the cache was stored at most a quarter of an hour before, and no event has dropped its board since: the cache
  never serves what was stored before an invalidation.\<close>

theorem served_response_recent:
  assumes "fst (getFromCache now k (foldl cache_step [] ops)) = Some r"
  shows "\<exists>before t after. ops = before @ CacheSet t k r # after \<and> now - t \<le> 15 * 60 * 1000 \<and>
    CacheClear \<notin> set after \<and> (\<forall>type. CacheInvalidate type \<in> set after \<longrightarrow> \<not> starts_with k (type @ '':''))"
proof -
  obtain e where e: "jm_get (foldl cache_step [] ops) k = Some e" "ceData e = r" "now - ceTimestamp e \<le> ceTtl e"
    using assms by (auto simp: getFromCache_def split: option.splits if_splits)
  obtain before t after where o: "ops = before @ CacheSet t k (ceData e) # after" "ceTimestamp e = t" "ceTtl e \<le> 15 * 60 * 1000"
    "CacheClear \<notin> set after" "\<forall>type. CacheInvalidate type \<in> set after \<longrightarrow> \<not> starts_with k (type @ '':'')" using cache_entry_origin [OF e(1)] by blast
  then have "now - t \<le> 15 * 60 * 1000" using e(3) by linarith
  then show ?thesis using o(1,4,5) e(2) by blast
qed

theorem served_response_recent_witness:
  "\<exists>before t after. [CacheSet 5 ''newest:7d:1:10'' empty_page, CacheInvalidate ''most-burned''] = before @ CacheSet t ''newest:7d:1:10'' empty_page # after \<and> 60 - t \<le> 15 * 60 * 1000"
proof -
  have "fst (getFromCache 60 ''newest:7d:1:10'' (foldl cache_step [] [CacheSet 5 ''newest:7d:1:10'' empty_page, CacheInvalidate ''most-burned''])) = Some empty_page"
    by (simp add: cache_step_def getFromCache_def invalidate_get) (simp add: setCache_def jm_set_def WINDOW_CACHE_TTL_MS_def CACHE_TTL_def empty_page_def)
  from served_response_recent [OF this] show ?thesis by blast
qed

section \<open>Ranks and queries\<close>

lemma ranked_data_bounds:
  "\<forall>e\<in>set (buildRankedData ms tokens skip). skip < leRank e \<and> leRank e \<le> skip + length ms"
  "sorted_wrt (<) (map leRank (buildRankedData ms tokens skip))"
proof -
  show b: "\<forall>e\<in>set (buildRankedData ms tokens skip). skip < leRank e \<and> leRank e \<le> skip + length ms" for ms tokens skip
  proof (induction ms tokens skip rule: buildRankedData.induct)
    case (2 i metric rest tokens skip)
    have later: "skip < leRank e \<and> leRank e \<le> skip + Suc (length rest)" if "e \<in> set (buildRankedData rest tokens (Suc skip))" for e
    proof -
      have "Suc skip < leRank e \<and> leRank e \<le> Suc skip + length rest" using 2 that by (cases "find_token tokens i") auto
      then show ?thesis by linarith
    qed
    then show ?case by (cases "find_token tokens i") auto
  qed simp
  show "sorted_wrt (<) (map leRank (buildRankedData ms tokens skip))"
  proof (induction ms tokens skip rule: buildRankedData.induct)
    case (2 i metric rest tokens skip)
    then show ?case using b [of rest tokens "Suc skip"] by (cases "find_token tokens i") auto
  qed simp
qed

text \<open>The ranks of a page rise strictly and lie behind those of the pages before it and before those of the pages after it, also
  when tokens of the set are unknown to the database.\<close>

theorem page_ranks:
  "let data = buildRankedData (map (\<lambda>(i, a). (i, show_int a)) (take limit ms)) tokens ((page - 1) * limit)
   in sorted_wrt (<) (map leRank data) \<and> set (map leRank data) \<subseteq> {(page - 1) * limit <.. (page - 1) * limit + limit}"
  using ranked_data_bounds [of "map (\<lambda>(i, a). (i, show_int a)) (take limit ms)" tokens "(page - 1) * limit"]
  by (auto simp: Let_def)

text \<open>A page number is from 1 to 100 and so is a limit; a window is one of the four, or a property that every object inherits: the
  period \<open>constructor\<close> is accepted, where the table of aliases has no such name.\<close>

theorem query_normalised:
  "fst (validatePagination page limit) \<in> {1..100} \<and> snd (validatePagination page limit) \<in> {1..100} \<and>
   (case parseLeaderboardWindow raw dflt of None \<Rightarrow> True | Some w \<Rightarrow> w \<in> insert dflt (set SORTED_SET_PERIODS \<union> range Inherited)) \<and>
   parseLeaderboardWindow (QText ''constructor'') dflt = Some (Inherited ''function Object() { [native code] }'')"
proof -
  have clamp: "1 \<le> clamp_query v d f \<and> clamp_query v d f \<le> 100" if "1 \<le> f" "f \<le> 100" for v d f
    using that by (auto simp: clamp_query_def split: option.split)
  have aliases: "map_of WINDOW_ALIASES n = Some w \<Longrightarrow> w \<in> set SORTED_SET_PERIODS" for n w
  proof -
    have "snd ` set WINDOW_ALIASES \<subseteq> set SORTED_SET_PERIODS" by (simp add: WINDOW_ALIASES_def SORTED_SET_PERIODS_def)
    then show "map_of WINDOW_ALIASES n = Some w \<Longrightarrow> w \<in> set SORTED_SET_PERIODS" by (force dest: map_of_SomeD)
  qed
  have "case parseLeaderboardWindow raw dflt of None \<Rightarrow> True | Some w \<Rightarrow> w \<in> insert dflt (set SORTED_SET_PERIODS \<union> range Inherited)"
    using aliases by (auto simp: parseLeaderboardWindow_def Let_def inherited_def split: query_value.split option.splits)
  moreover have "parseLeaderboardWindow (QText ''constructor'') dflt = Some (Inherited ''function Object() { [native code] }'')" by code_simp
  moreover have "nat (clamp_query page ''1'' 1) \<in> {1..100}" "nat (clamp_query limit ''10'' 10) \<in> {1..100}"
    using clamp [of 1 page "''1''"] clamp [of 10 limit "''10''"] by auto
  ultimately show ?thesis by (simp add: validatePagination_def)
qed


text \<open>A read that overlaps an event undoes its invalidation: what was computed before the event is stored after it and served for at least a
  minute.\<close>

theorem overlapping_read_stores_stale:
  assumes "ranked_begin R now0 failRead b p page limit db st0 = (Computed data n scores, st1)" and "0 \<le> later" "later \<le> 60 * 1000"
  shows "map_option lrData (fst (getFromCache (now + later) (getCacheKey (board_text b) p page limit)
    (lsCache (snd (ranked_finish R now failWarm b p page limit (Computed data n scores) (lb_step R st1 ev)))))) = Some data"
  using assms(2,3)
  by (simp add: ranked_finish_def Let_def getFromCache_def setCache_def WINDOW_CACHE_TTL_MS_def CACHE_TTL_def split: time_period.split)

theorem overlapping_read_stores_stale_witness:
  "\<exists>data n scores st1. ranked_begin mem_zredis 0 None MostBurned AllTime 1 10 \<lparr>ldTokens = [], ldBurns = []\<rparr> \<lparr>lsCache = [], lsRedis = (\<lambda>k. [])\<rparr> = (Computed data n scores, st1) \<and>
     map_option lrData (fst (getFromCache 60000 (getCacheKey (board_text MostBurned) AllTime 1 10)
       (lsCache (snd (ranked_finish mem_zredis 0 None MostBurned AllTime 1 10 (Computed data n scores) (lb_step mem_zredis st1 (TokenBurned burn_ten))))))) = Some data"
proof -
  have "readTopFromSortedSet mem_zredis MostBurned AllTime 0 10 None (\<lambda>k. []) = None"
    by (simp add: readTopFromSortedSet_def mem_zredis_def mem_zset_def)
  then obtain data n scores st1 where begun:
    "ranked_begin mem_zredis 0 None MostBurned AllTime 1 10 \<lparr>ldTokens = [], ldBurns = []\<rparr> \<lparr>lsCache = [], lsRedis = (\<lambda>k. [])\<rparr> = (Computed data n scores, st1)"
    by (simp add: ranked_begin_def getFromCache_def Let_def)
  from overlapping_read_stores_stale [OF begun, of 60000 0] begun show ?thesis by auto
qed

end
