(* ===== verification/Webhook_Security.thy ===== *)
theory Webhook_Security
  imports JS_Value
begin

text \<open>
  \<open>backend/src/utils/crypto.ts\<close>, \<open>utils/headerEncryption.ts\<close> and \<open>services/webhookCustomHeaders.ts\<close>: the signature
  of webhook payloads with its replay window, and the custom headers of a subscription from the caller's
  input over their encrypted form at rest to the headers of a delivery.

  The cryptographic primitives are parameters: HMAC-SHA-256 as a hexadecimal text, and AES-256-GCM with its base64
  encodings. Strings are ASCII.
\<close>

section \<open>Signatures\<close>

text \<open>\<open>hmac secret message\<close> is the hexadecimal digest.\<close>

definition generateWebhookSignature :: "(string \<Rightarrow> string \<Rightarrow> string) \<Rightarrow> string \<Rightarrow> string \<Rightarrow> int \<Rightarrow> string" where
  "generateWebhookSignature hmac payload secret timestamp =
     (let message = show_int timestamp @ CHR ''.'' # payload;
          signature = hmac secret message
      in ''v1.'' @ show_int timestamp @ CHR ''.'' # signature)"

text \<open>The parts of a header: the parsed timestamp and the signature. \<open>parseInt\<close> stops at the first character that is no digit.\<close>

definition signature_parts :: "string \<Rightarrow> (int \<times> string) option" where
  "signature_parts header =
     (if header = [] \<or> \<not> starts_with header ''v1.'' then None
      else
        (case split_on (CHR ''.'') header of
           [_, t, signature] \<Rightarrow> map_option (\<lambda>n. (n, signature)) (parse_int10 t)
         | _ \<Rightarrow> None))"

text \<open>\<open>generateWebhookSignature(...).split(".")[2]\<close>\<close>

definition expected_signature :: "(string \<Rightarrow> string \<Rightarrow> string) \<Rightarrow> string \<Rightarrow> string \<Rightarrow> int \<Rightarrow> string" where
  "expected_signature hmac payload secret timestamp =
     split_on (CHR ''.'') (generateWebhookSignature hmac payload secret timestamp) ! 2"

text \<open>\<open>timingSafeEqual\<close> throws for buffers of different lengths.\<close>

definition timingSafeEqual :: "string \<Rightarrow> string \<Rightarrow> (service_error, bool) res" where
  "timingSafeEqual a b = (if length a \<noteq> length b then Inl (RangeError ''Input buffers must have the same byte length'') else Inr (a = b))"

definition verifyWebhookSignature ::
  "(string \<Rightarrow> string \<Rightarrow> string) \<Rightarrow> int \<Rightarrow> string \<Rightarrow> string \<Rightarrow> string \<Rightarrow> int \<Rightarrow> (service_error, bool) res" where
  "verifyWebhookSignature hmac nowMs payload header secret toleranceSeconds =
     (case signature_parts header of
        None \<Rightarrow> Inr False
      | Some (timestamp, signature) \<Rightarrow>
          if \<bar>nowMs div 1000 - timestamp\<bar> > toleranceSeconds then Inr False
          else timingSafeEqual signature (expected_signature hmac payload secret timestamp))"

definition verifyStoredWebhookSignature :: "(string \<Rightarrow> string \<Rightarrow> string) \<Rightarrow> string \<Rightarrow> string \<Rightarrow> string \<Rightarrow> (service_error, bool) res" where
  "verifyStoredWebhookSignature hmac payload header secret =
     (case signature_parts header of
        None \<Rightarrow> Inr False
      | Some (timestamp, signature) \<Rightarrow>
          if length signature \<noteq> length (expected_signature hmac payload secret timestamp) then Inr False
          else timingSafeEqual signature (expected_signature hmac payload secret timestamp))"

section \<open>Encrypted header values\<close>

text \<open>The primitives: the key from its hexadecimal text or hashed from any other text, sealing with an initialisation
  vector to a tag and a ciphertext in base64, and opening, which fails on a wrong tag. The vector is drawn
  at random, so it is an argument, in base64.\<close>

record ('k) aead =
  aeFromHex :: "string \<Rightarrow> 'k"
  aeHashed :: "string \<Rightarrow> 'k"
  aeSeal :: "'k \<Rightarrow> string \<Rightarrow> string \<Rightarrow> string \<times> string"
  aeOpen :: "'k \<Rightarrow> string \<Rightarrow> string \<Rightarrow> string \<Rightarrow> string option"

definition base64_char :: "char \<Rightarrow> bool" where
  "base64_char c \<longleftrightarrow> is_digit c \<or> c \<in> {CHR ''+'', CHR ''/'', CHR ''=''} \<or>
     (let n = (of_char c :: nat) in (65 \<le> n \<and> n \<le> 90) \<or> (97 \<le> n \<and> n \<le> 122))"

text \<open>Opening with the same key, vector and tag returns what was sealed, and base64 texts have base64 characters.\<close>

definition aead_laws :: "'k aead \<Rightarrow> bool" where
  "aead_laws A \<longleftrightarrow> (\<forall>k iv p. aeOpen A k iv (fst (aeSeal A k iv p)) (snd (aeSeal A k iv p)) = Some p
     \<and> list_all base64_char (fst (aeSeal A k iv p)) \<and> list_all base64_char (snd (aeSeal A k iv p)))"

definition ENC_PREFIX :: string where
  "ENC_PREFIX = ''enc:v1:''"

definition hex_digit :: "char \<Rightarrow> bool" where
  "hex_digit c \<longleftrightarrow> is_digit c \<or> (let n = (of_char c :: nat) in (65 \<le> n \<and> n \<le> 70) \<or> (97 \<le> n \<and> n \<le> 102))"

definition resolveKey :: "'k aead \<Rightarrow> string option \<Rightarrow> (service_error, 'k) res" where
  "resolveKey A rawKey =
     (case rawKey of
        None \<Rightarrow> Inl (PlainError ''WEBHOOK_HEADER_ENCRYPTION_KEY is required'')
      | Some r \<Rightarrow>
          if r = [] then Inl (PlainError ''WEBHOOK_HEADER_ENCRYPTION_KEY is required'')
          else if length r = 64 \<and> list_all hex_digit r then Inr (aeFromHex A r)
          else Inr (aeHashed A r))"

definition isEncryptedValue :: "string \<Rightarrow> bool" where
  "isEncryptedValue v = starts_with v ENC_PREFIX"

definition encryptHeaderValue :: "'k aead \<Rightarrow> string option \<Rightarrow> string \<Rightarrow> string \<Rightarrow> (service_error, string) res" where
  "encryptHeaderValue A rawKey iv plaintext =
     (case resolveKey A rawKey of
        Inl e \<Rightarrow> Inl e
      | Inr key \<Rightarrow> (case aeSeal A key iv plaintext of (tag, ct) \<Rightarrow> Inr (ENC_PREFIX @ iv @ CHR '':'' # tag @ CHR '':'' # ct)))"

definition decryptHeaderValue :: "'k aead \<Rightarrow> string option \<Rightarrow> string \<Rightarrow> (service_error, string) res" where
  "decryptHeaderValue A rawKey stored =
     (if \<not> isEncryptedValue stored then Inl (PlainError ''Value is not an encrypted header value'')
      else
        (case split_on (CHR '':'') (drop (length ENC_PREFIX) stored) of
           [iv, tag, ct] \<Rightarrow>
             (case resolveKey A rawKey of
                Inl e \<Rightarrow> Inl e
              | Inr key \<Rightarrow>
                  (case aeOpen A key iv tag ct of
                     None \<Rightarrow> Inl (PlainError ''Unsupported state or unable to authenticate data'')
                   | Some p \<Rightarrow> Inr p))
         | _ \<Rightarrow> Inl (PlainError ''Malformed encrypted header value'')))"

section \<open>Custom headers\<close>

record stored_header =
  shName :: string
  shValue :: string
  shSensitive :: bool

definition MAX_CUSTOM_HEADERS :: nat where "MAX_CUSTOM_HEADERS = 20"
definition MAX_HEADER_NAME_LENGTH :: nat where "MAX_HEADER_NAME_LENGTH = 128"
definition MAX_HEADER_VALUE_LENGTH :: nat where "MAX_HEADER_VALUE_LENGTH = 2048"
definition MASKED_VALUE :: string where "MASKED_VALUE = ''********''"

definition alnum :: "char \<Rightarrow> bool" where
  "alnum c \<longleftrightarrow> is_digit c \<or> (let n = (of_char c :: nat) in (65 \<le> n \<and> n \<le> 90) \<or> (97 \<le> n \<and> n \<le> 122))"

text \<open>The pattern of a header name: token characters, 39 is the apostrophe and 96 the back quote.\<close>

definition HEADER_NAME_PATTERN :: "string \<Rightarrow> bool" where
  "HEADER_NAME_PATTERN s \<longleftrightarrow> s \<noteq> [] \<and>
     list_all (\<lambda>c. alnum c \<or> c \<in> set ''!#$%&*+-.^_|~'' \<or> (of_char c :: nat) = 39 \<or> (of_char c :: nat) = 96) s"

definition HOP_BY_HOP_HEADERS :: "string list" where
  "HOP_BY_HOP_HEADERS = [''connection'', ''keep-alive'', ''proxy-authenticate'', ''proxy-authorization'', ''proxy-connection'',
     ''te'', ''trailer'', ''transfer-encoding'', ''upgrade'']"

definition RESERVED_HEADERS :: "string list" where
  "RESERVED_HEADERS = [''host'', ''content-length'', ''content-type'', ''content-encoding'', ''user-agent'', ''expect'',
     ''x-correlation-id'', ''x-tx-hash'']"

definition RESERVED_PREFIXES :: "string list" where
  "RESERVED_PREFIXES = [''x-webhook-'', ''x-nova-'']"

definition isBlockedHeaderName :: "string \<Rightarrow> bool" where
  "isBlockedHeaderName name =
     (let lower = to_lower name
      in lower \<in> set HOP_BY_HOP_HEADERS \<or> lower \<in> set RESERVED_HEADERS \<or> list_ex (starts_with lower) RESERVED_PREFIXES)"

text \<open>The case-insensitive pattern, with the two forms of \<open>api[-_]?key\<close> written out.\<close>

definition isSensitiveHeaderName :: "string \<Rightarrow> bool" where
  "isSensitiveHeaderName name =
     (let lower = to_lower name
      in lower = ''authorization'' \<or> lower = ''cookie'' \<or>
         list_ex (str_includes lower) [''apikey'', ''api-key'', ''api_key'', ''token'', ''secret'', ''password'', ''auth'', ''signature''])"

definition forbidden_char :: "char \<Rightarrow> bool" where
  "forbidden_char c \<longleftrightarrow> (let n = (of_char c :: nat) in n \<le> 8 \<or> (10 \<le> n \<and> n \<le> 31) \<or> n = 127)"

definition header_error :: "string \<Rightarrow> service_error" where
  "header_error s = PlainError (''CustomHeaderValidationError: '' @ s)"

text \<open>One element of the input, with the lower-case names seen so far; \<open>iv\<close> is its initialisation vector.\<close>

definition prepare_header ::
  "'k aead \<Rightarrow> string option \<Rightarrow> string \<Rightarrow> string list \<Rightarrow> jsval \<Rightarrow> (service_error, stored_header) res" where
  "prepare_header A rawKey iv seen raw =
     (if \<not> (case raw of JObj _ \<Rightarrow> True | JArr _ \<Rightarrow> True | _ \<Rightarrow> False) then Inl (header_error ''Each custom header must be an object'')
      else
        (case js_prop raw ''name'' of
           JStr name \<Rightarrow>
             if \<not> HEADER_NAME_PATTERN name then Inl (header_error ''Invalid header name'')
             else if length name > MAX_HEADER_NAME_LENGTH then Inl (header_error ''Header name too long'')
             else if isBlockedHeaderName name then Inl (header_error ''reserved or hop-by-hop'')
             else if to_lower name \<in> set seen then Inl (header_error ''Duplicate header'')
             else
               (case js_prop raw ''value'' of
                  JStr value \<Rightarrow>
                    if length value > MAX_HEADER_VALUE_LENGTH then Inl (header_error ''value too long'')
                    else if list_ex forbidden_char value then Inl (header_error ''value contains invalid characters'')
                    else if js_prop raw ''sensitive'' = JBool True \<or> isSensitiveHeaderName name then
                      (case encryptHeaderValue A rawKey iv value of
                         Inl e \<Rightarrow> Inl e
                       | Inr c \<Rightarrow> Inr \<lparr>shName = name, shValue = c, shSensitive = True\<rparr>)
                    else Inr \<lparr>shName = name, shValue = value, shSensitive = False\<rparr>
                | _ \<Rightarrow> Inl (header_error ''value must be a string''))
         | _ \<Rightarrow> Inl (header_error ''Invalid header name'')))"

fun prepare_headers ::
  "'k aead \<Rightarrow> string option \<Rightarrow> string list \<Rightarrow> string list \<Rightarrow> jsval list \<Rightarrow> (service_error, stored_header list) res" where
  "prepare_headers A rawKey ivs seen [] = Inr []"
| "prepare_headers A rawKey ivs seen (raw # raws) =
     (case prepare_header A rawKey (case ivs of iv # _ \<Rightarrow> iv | [] \<Rightarrow> []) seen raw of
        Inl e \<Rightarrow> Inl e
      | Inr h \<Rightarrow>
          (case prepare_headers A rawKey (tl ivs) (to_lower (shName h) # seen) raws of
             Inl e \<Rightarrow> Inl e
           | Inr hs \<Rightarrow> Inr (h # hs)))"

definition prepareCustomHeaders :: "'k aead \<Rightarrow> string option \<Rightarrow> string list \<Rightarrow> jsval \<Rightarrow> (service_error, stored_header list) res" where
  "prepareCustomHeaders A rawKey ivs input =
     (if js_nullish input then Inr []
      else
        (case input of
           JArr raws \<Rightarrow>
             if length raws > MAX_CUSTOM_HEADERS then Inl (header_error ''too many custom headers'')
             else prepare_headers A rawKey ivs [] raws
         | _ \<Rightarrow> Inl (header_error ''customHeaders must be an array'')))"

text \<open>The headers object; assigning a text to \<open>__proto__\<close> has no effect.\<close>

definition set_header :: "string \<Rightarrow> string \<Rightarrow> (string, string) jsmap \<Rightarrow> (string, string) jsmap" where
  "set_header name value headers = (if name = ''__proto__'' then headers else jm_set headers name value)"

fun resolve_headers :: "'k aead \<Rightarrow> string option \<Rightarrow> stored_header list \<Rightarrow> (string, string) jsmap \<Rightarrow> (service_error, (string, string) jsmap) res" where
  "resolve_headers A rawKey [] headers = Inr headers"
| "resolve_headers A rawKey (h # hs) headers =
     (if isBlockedHeaderName (shName h) then resolve_headers A rawKey hs headers
      else if shSensitive h then
        (case decryptHeaderValue A rawKey (shValue h) of
           Inl e \<Rightarrow> Inl e
         | Inr v \<Rightarrow> resolve_headers A rawKey hs (set_header (shName h) v headers))
      else resolve_headers A rawKey hs (set_header (shName h) (shValue h) headers))"

definition resolveCustomHeaders :: "'k aead \<Rightarrow> string option \<Rightarrow> stored_header list option \<Rightarrow> (service_error, (string, string) jsmap) res" where
  "resolveCustomHeaders A rawKey stored = resolve_headers A rawKey (case stored of Some hs \<Rightarrow> hs | None \<Rightarrow> []) []"

definition maskCustomHeaders :: "stored_header list option \<Rightarrow> stored_header list" where
  "maskCustomHeaders stored =
     map (\<lambda>h. h\<lparr>shValue := (if shSensitive h then MASKED_VALUE else shValue h)\<rparr>) (case stored of Some hs \<Rightarrow> hs | None \<Rightarrow> [])"

section \<open>Signatures: properties\<close>

lemma parse_int10_show_int: "0 \<le> n \<Longrightarrow> parse_int10 (show_int n) = Some n"
  by (simp add: show_int_def)

lemma show_int_no_dot: "CHR ''.'' \<notin> set (show_int n)"
proof -
  have "\<not> is_digit (CHR ''.'')" by (simp add: is_digit_def)
  then show ?thesis using show_nat_digits by (auto simp: show_int_def)
qed

text \<open>A hexadecimal digest has no dot in it.\<close>

definition dotless :: "(string \<Rightarrow> string \<Rightarrow> string) \<Rightarrow> bool" where
  "dotless hmac \<longleftrightarrow> (\<forall>s m. CHR ''.'' \<notin> set (hmac s m))"

lemma expected_signature_hmac:
  "dotless hmac \<Longrightarrow> expected_signature hmac payload secret t = hmac secret (show_int t @ CHR ''.'' # payload)"
  by (simp add: expected_signature_def generateWebhookSignature_def Let_def split_on_append split_on_no_sep
      show_int_no_dot dotless_def)

lemma signature_parts_generate:
  assumes "dotless hmac" and "0 \<le> t"
  shows "signature_parts (generateWebhookSignature hmac payload secret t) = Some (t, hmac secret (show_int t @ CHR ''.'' # payload))"
  using assms
  by (simp add: signature_parts_def generateWebhookSignature_def Let_def split_on_append split_on_no_sep show_int_no_dot
      dotless_def parse_int10_show_int)

text \<open>A signature is accepted exactly when the header carries, with a timestamp within the tolerance of the clock, the
  digest of that timestamp and the payload under the secret: a replayed or altered header is not accepted.\<close>

theorem signature_accepted_iff:
  assumes "dotless hmac"
  shows "verifyWebhookSignature hmac nowMs payload header secret tolerance = Inr True \<longleftrightarrow>
    (\<exists>t. signature_parts header = Some (t, hmac secret (show_int t @ CHR ''.'' # payload)) \<and> \<bar>nowMs div 1000 - t\<bar> \<le> tolerance)"
  by (auto simp: verifyWebhookSignature_def timingSafeEqual_def expected_signature_hmac [OF assms] split: option.splits if_splits)

theorem signature_accepted_iff_witness:
  "verifyWebhookSignature (\<lambda>s m. ''ab'') 400000 ''p'' ''v1.100.ab'' ''k'' 300 = Inr True"
  by (subst signature_accepted_iff)
     (simp_all add: dotless_def signature_parts_def parse_int10_def parse_digits_def is_space_def digits_val_def is_digit_def digit_val_def)

text \<open>A generated signature verifies from the moment it is made until the tolerance is over, and not after.\<close>

theorem signature_roundtrip:
  assumes "dotless hmac" and "0 \<le> t" and "t \<le> nowMs div 1000"
  shows "verifyWebhookSignature hmac nowMs payload (generateWebhookSignature hmac payload secret t) secret tolerance
    = Inr (nowMs div 1000 \<le> t + tolerance)"
  using assms(2,3)
  by (auto simp: verifyWebhookSignature_def signature_parts_generate [OF assms(1,2)] expected_signature_hmac [OF assms(1)] timingSafeEqual_def)

theorem signature_roundtrip_witness:
  "verifyWebhookSignature (\<lambda>s m. ''ab'') 500000 ''p'' (generateWebhookSignature (\<lambda>s m. ''ab'') ''p'' ''k'' 100) ''k'' 300 = Inr False"
  by (subst signature_roundtrip) (simp_all add: dotless_def)

text \<open>A header with a signature of another length makes the check throw instead of failing; the check of stored deliveries
  tests the length first.\<close>

lemma short_signature_throws:
  assumes "signature_parts header = Some (t, s)" and "\<bar>nowMs div 1000 - t\<bar> \<le> tolerance"
    and "length s \<noteq> length (expected_signature hmac payload secret t)"
  shows "(\<exists>e. verifyWebhookSignature hmac nowMs payload header secret tolerance = Inl e)
    \<and> verifyStoredWebhookSignature hmac payload header secret = Inr False"
  using assms by (simp add: verifyWebhookSignature_def verifyStoredWebhookSignature_def timingSafeEqual_def)

section \<open>Encrypted values: properties\<close>

lemma base64_no_colon: "list_all base64_char s \<Longrightarrow> CHR '':'' \<notin> set s"
proof
  assume "list_all base64_char s" and "CHR '':'' \<in> set s"
  then have "base64_char (CHR '':'')" by (auto simp: list_all_iff)
  then show False by (simp add: base64_char_def is_digit_def)
qed

text \<open>A header value that was encrypted for storage is decrypted to itself under the same key.\<close>

theorem header_value_roundtrip:
  assumes "aead_laws A" and "list_all base64_char iv" and "encryptHeaderValue A rawKey iv v = Inr c"
  shows "isEncryptedValue c \<and> decryptHeaderValue A rawKey c = Inr v"
proof -
  obtain key where key: "resolveKey A rawKey = Inr key"
    using assms(3) by (auto simp: encryptHeaderValue_def split: sum.splits)
  obtain tag ct where seal: "aeSeal A key iv v = (tag, ct)" by (cases "aeSeal A key iv v")
  then have c: "c = ENC_PREFIX @ iv @ CHR '':'' # tag @ CHR '':'' # ct"
    using assms(3) key by (simp add: encryptHeaderValue_def)
  have laws: "aeOpen A key iv tag ct = Some v" "list_all base64_char tag" "list_all base64_char ct"
    using assms(1) seal unfolding aead_laws_def by (metis fst_conv snd_conv)+
  have "split_on (CHR '':'') (iv @ CHR '':'' # tag @ CHR '':'' # ct) = [iv, tag, ct]"
    using assms(2) laws(2,3) by (simp add: split_on_append split_on_no_sep base64_no_colon)
  moreover have "isEncryptedValue c" by (auto simp: isEncryptedValue_def starts_with_iff c)
  ultimately show ?thesis using key laws(1) by (simp add: decryptHeaderValue_def c)
qed

definition toy_aead :: "unit aead" where
  "toy_aead = \<lparr>aeFromHex = (\<lambda>_. ()), aeHashed = (\<lambda>_. ()),
     aeSeal = (\<lambda>_ _ p. ([], concat (map (\<lambda>c. replicate (of_char c) (CHR ''A'') @ ''+'') p))),
     aeOpen = (\<lambda>_ _ _ ct. Some (map (\<lambda>w. char_of (length w)) (butlast (split_on (CHR ''+'') ct))))\<rparr>"

lemma toy_split: "split_on (CHR ''+'') (concat (map (\<lambda>c. replicate (of_char c) (CHR ''A'') @ ''+'') p))
    = map (\<lambda>c. replicate (of_char c) (CHR ''A'')) p @ [[]]"
  by (induction p) (simp_all add: split_on_append)

lemma toy_aead_laws: "aead_laws toy_aead"
  by (auto simp: aead_laws_def toy_aead_def toy_split list_all_iff base64_char_def comp_def)

definition toy_sealed :: string where
  "toy_sealed = ENC_PREFIX @ ''iv::'' @ concat (map (\<lambda>c. replicate (of_char c) (CHR ''A'') @ ''+'') ''!'')"

theorem header_value_roundtrip_witness: "decryptHeaderValue toy_aead (Some ''k'') toy_sealed = Inr ''!''"
  by (rule header_value_roundtrip [OF toy_aead_laws, of "''iv''", THEN conjunct2])
     (simp_all add: encryptHeaderValue_def resolveKey_def toy_aead_def base64_char_def is_digit_def toy_sealed_def)

section \<open>Custom headers: properties\<close>

text \<open>What the caller supplied: names and values, in order.\<close>

definition input_headers :: "jsval list \<Rightarrow> (string \<times> string) list" where
  "input_headers raws = map (\<lambda>r. (js_to_string (js_prop r ''name''), js_to_string (js_prop r ''value''))) raws"

lemma prepare_header_cases:
  assumes "prepare_header A rawKey iv seen raw = Inr h"
  shows "\<exists>v. js_prop raw ''name'' = JStr (shName h) \<and> js_prop raw ''value'' = JStr v \<and> \<not> isBlockedHeaderName (shName h)
    \<and> to_lower (shName h) \<notin> set seen \<and> HEADER_NAME_PATTERN (shName h) \<and> \<not> list_ex forbidden_char v
    \<and> (isSensitiveHeaderName (shName h) \<longrightarrow> shSensitive h)
    \<and> (if shSensitive h then encryptHeaderValue A rawKey iv v = Inr (shValue h) else shValue h = v)"
  using assms by (auto simp: prepare_header_def split: if_splits jsval.splits sum.splits)

lemma prepare_headers_cases:
  assumes "prepare_headers A rawKey ivs seen raws = Inr hs"
  shows "distinct (map (\<lambda>h. to_lower (shName h)) hs) \<and> to_lower ` shName ` set hs \<inter> set seen = {}
    \<and> length hs = length raws
    \<and> (\<forall>h\<in>set hs. \<not> isBlockedHeaderName (shName h) \<and> (isSensitiveHeaderName (shName h) \<longrightarrow> shSensitive h))"
  using assms
proof (induction raws arbitrary: ivs seen hs)
  case (Cons raw raws)
  obtain h hs' where h: "prepare_header A rawKey (case ivs of iv # _ \<Rightarrow> iv | [] \<Rightarrow> []) seen raw = Inr h"
    and rest: "prepare_headers A rawKey (tl ivs) (to_lower (shName h) # seen) raws = Inr hs'" and hs: "hs = h # hs'"
    using Cons.prems by (auto split: sum.splits)
  from prepare_header_cases [OF h] Cons.IH [OF rest] show ?case by (auto simp: hs)
qed simp

lemma resolve_prepared:
  assumes "aead_laws A" and "list_all (list_all base64_char) ivs"
    and "prepare_headers A rawKey ivs seen raws = Inr hs" and "''__proto__'' \<notin> shName ` set hs"
    and "fst ` set acc \<inter> shName ` set hs = {}"
  shows "resolve_headers A rawKey hs acc = Inr (acc @ input_headers raws)"
  using assms(2-)
proof (induction raws arbitrary: ivs seen hs acc)
  case Nil
  then show ?case by (simp add: input_headers_def)
next
  case (Cons raw raws)
  define iv where "iv = (case ivs of iv # _ \<Rightarrow> iv | [] \<Rightarrow> [])"
  have iv: "list_all base64_char iv" using Cons.prems(1) by (cases ivs) (simp_all add: iv_def)
  obtain h hs' where h: "prepare_header A rawKey iv seen raw = Inr h"
    and rest: "prepare_headers A rawKey (tl ivs) (to_lower (shName h) # seen) raws = Inr hs'" and hs: "hs = h # hs'"
    using Cons.prems(2) by (auto simp: iv_def split: sum.splits)
  obtain v where v: "js_prop raw ''name'' = JStr (shName h)" "js_prop raw ''value'' = JStr v" "\<not> isBlockedHeaderName (shName h)"
    "if shSensitive h then encryptHeaderValue A rawKey iv v = Inr (shValue h) else shValue h = v"
    using prepare_header_cases [OF h] by blast
  have fresh: "shName h \<notin> shName ` set hs'"
    using prepare_headers_cases [OF rest] by auto
  have "\<not> jm_has acc (shName h)" using Cons.prems(4) hs by (auto simp: jm_has_iff)
  then have set: "set_header (shName h) v acc = acc @ [(shName h, v)]"
    using Cons.prems(3) hs by (auto simp: set_header_def jm_set_absent)
  have step: "resolve_headers A rawKey (h # hs') acc = resolve_headers A rawKey hs' (acc @ [(shName h, v)])"
    using v(3,4) header_value_roundtrip [OF assms(1) iv] by (auto simp: set [symmetric] split: if_splits)
  have "list_all (list_all base64_char) (tl ivs)" using Cons.prems(1) by (cases ivs) simp_all
  moreover have "fst ` set (acc @ [(shName h, v)]) \<inter> shName ` set hs' = {}" using Cons.prems(4) fresh hs by auto
  ultimately have "resolve_headers A rawKey hs' (acc @ [(shName h, v)]) = Inr ((acc @ [(shName h, v)]) @ input_headers raws)"
    using Cons.IH [OF _ rest] Cons.prems(3) hs by auto
  then show ?case unfolding hs step by (simp add: input_headers_def v)
qed

text \<open>Custom headers survive storage: the headers that a delivery resolves from what was accepted and stored are the names
  and values that the caller supplied, in order, sensitive ones included.\<close>

theorem custom_headers_roundtrip:
  assumes "aead_laws A" and "list_all (list_all base64_char) ivs"
    and "prepareCustomHeaders A rawKey ivs (JArr raws) = Inr hs" and "''__proto__'' \<notin> shName ` set hs"
  shows "resolveCustomHeaders A rawKey (Some hs) = Inr (input_headers raws)"
  using resolve_prepared [OF assms(1,2) _ assms(4), where seen = "[]" and acc = "[]" and raws = raws and rawKey = rawKey] assms(3)
  by (simp add: resolveCustomHeaders_def prepareCustomHeaders_def split: if_splits)

theorem custom_headers_roundtrip_witness:
  "resolveCustomHeaders toy_aead (Some ''k'') (Some [\<lparr>shName = ''X-A'', shValue = ''v'', shSensitive = False\<rparr>]) = Inr [(''X-A'', ''v'')]"
  using custom_headers_roundtrip [OF toy_aead_laws, of "[]" "Some ''k''" "[JObj [(''name'', JStr ''X-A''), (''value'', JStr ''v'')]]"
      "[\<lparr>shName = ''X-A'', shValue = ''v'', shSensitive = False\<rparr>]"]
  by (simp add: prepareCustomHeaders_def MAX_CUSTOM_HEADERS_def prepare_header_def HEADER_NAME_PATTERN_def alnum_def is_digit_def
      MAX_HEADER_NAME_LENGTH_def MAX_HEADER_VALUE_LENGTH_def isBlockedHeaderName_def to_lower_def char_lower_def HOP_BY_HOP_HEADERS_def
      RESERVED_HEADERS_def RESERVED_PREFIXES_def Let_def forbidden_char_def isSensitiveHeaderName_def input_headers_def)



end
