(* ===== verification/Webhook_Store.thy ===== *)
theory Webhook_Store
  imports Webhook_Security
begin

text \<open>
  \<open>backend/src/utils/globMatch.ts\<close>, \<open>services/webhookService.ts\<close> and \<open>services/webhookDeadLetterService.ts\<close> over the
  tables of \<open>database/schema.sql\<close>: subscriptions with their event patterns, soft deletion and its retention,
  delivery logs and dead letters.

  A table is a list of rows, a statement a function on the tables with the constraints of the schema; \<open>ok\<close> is
  false when the database fails. Times are milliseconds. Rows with equal times keep the table order in a listing.
\<close>

section \<open>Event patterns\<close>

datatype glob_token = Lit char | Star | DStar

text \<open>The pieces of the regular expression that a pattern is turned into; \<open>**\<close> is taken first.\<close>

fun glob_tokens :: "string \<Rightarrow> glob_token list" where
  "glob_tokens [] = []"
| "glob_tokens (c # cs) =
     (if c = CHR ''*'' then
        (case cs of d # ds \<Rightarrow> if d = CHR ''*'' then DStar # glob_tokens ds else Star # glob_tokens cs | [] \<Rightarrow> [Star])
      else Lit c # glob_tokens cs)"

definition line_end :: "char \<Rightarrow> bool" where
  "line_end c \<longleftrightarrow> (of_char c :: nat) = 10 \<or> (of_char c :: nat) = 13"

text \<open>\<open>[^.]*\<close> for \<open>*\<close> and \<open>.*\<close>, which stops at the end of a line, for \<open>**\<close>.\<close>

function glob_run :: "glob_token list \<Rightarrow> string \<Rightarrow> bool" where
  "glob_run [] s = (s = [])"
| "glob_run (Lit c # ts) s = (case s of x # xs \<Rightarrow> x = c \<and> glob_run ts xs | [] \<Rightarrow> False)"
| "glob_run (Star # ts) s = (glob_run ts s \<or> (case s of x # xs \<Rightarrow> x \<noteq> CHR ''.'' \<and> glob_run (Star # ts) xs | [] \<Rightarrow> False))"
| "glob_run (DStar # ts) s = (glob_run ts s \<or> (case s of x # xs \<Rightarrow> \<not> line_end x \<and> glob_run (DStar # ts) xs | [] \<Rightarrow> False))"
  by pat_completeness auto
termination by (relation "measure (\<lambda>(ts, s). length ts + length s)") auto

definition globMatch :: "string \<Rightarrow> string \<Rightarrow> bool" where
  "globMatch pattern s = glob_run (glob_tokens pattern) s"

definition glob_char :: "char \<Rightarrow> bool" where
  "glob_char c \<longleftrightarrow> alnum c \<or> c \<in> set ''._-*''"

definition isValidGlobPattern :: "string \<Rightarrow> bool" where
  "isValidGlobPattern pattern \<longleftrightarrow> pattern \<noteq> [] \<and> list_all glob_char pattern \<and> \<not> str_includes pattern ''***''"

section \<open>The tables\<close>

record subscription =
  wsId :: string
  wsUrl :: string
  wsTokenAddress :: "string option"
  wsEvents :: "string list"
  wsSecret :: string
  wsActive :: bool
  wsCreatedBy :: string
  wsCreatedAt :: int
  wsLastTriggered :: "int option"
  wsDeletedAt :: "int option"
  wsCustomHeaders :: "stored_header list"

record delivery_log =
  dgId :: string
  dgSubscriptionId :: string
  dgEvent :: string
  dgPayload :: string
  dgStatusCode :: "int option"
  dgSuccess :: bool
  dgAttempts :: int
  dgErrorMessage :: "string option"
  dgCreatedAt :: int

record webhook_dead_letter =
  dlId :: string
  dlSubscriptionId :: string
  dlEvent :: string
  dlPayload :: string
  dlStatusCode :: "int option"
  dlLastError :: "string option"
  dlAttemptCount :: int
  dlRequeueCount :: int
  dlCreatedAt :: int
  dlUpdatedAt :: int
  dlResolvedAt :: "int option"
  dlResolution :: "string option"

record webhook_db =
  wdSubscriptions :: "subscription list"
  wdLogs :: "delivery_log list"
  wdDeadLetters :: "webhook_dead_letter list"

definition db_error :: service_error where
  "db_error = DatabaseError ''unavailable''"

text \<open>The columns and checks of \<open>webhook_subscriptions\<close>. The check \<open>array_length(events, 1) > 0\<close> is NULL, and
  so passes, for an empty array.\<close>

definition subscription_row_ok :: "subscription \<Rightarrow> bool" where
  "subscription_row_ok s \<longleftrightarrow> length (wsUrl s) \<le> 2048 \<and> (case wsTokenAddress s of None \<Rightarrow> True | Some a \<Rightarrow> length a \<le> 56)
     \<and> length (wsSecret s) \<le> 64 \<and> length (wsCreatedBy s) \<le> 56
     \<and> (starts_with (wsUrl s) ''http://'' \<or> starts_with (wsUrl s) ''https://'')"

definition DAY :: int where
  "DAY = 86400000"

section \<open>Subscriptions\<close>

record create_input =
  ciUrl :: string
  ciTokenAddress :: "string option"
  ciEvents :: "string list"
  ciCreatedBy :: string
  ciCustomHeaders :: jsval

text \<open>\<open>i\<close> and \<open>secret\<close> are the generated id and secret.\<close>

definition createSubscription ::
  "bool \<Rightarrow> 'k aead \<Rightarrow> string option \<Rightarrow> string list \<Rightarrow> int \<Rightarrow> string \<Rightarrow> string \<Rightarrow> create_input \<Rightarrow> webhook_db \<Rightarrow> (service_error, subscription) res \<times> webhook_db" where
  "createSubscription ok A rawKey ivs now i secret input db =
     (if list_ex (\<lambda>e. CHR ''*'' \<in> set e \<and> \<not> isValidGlobPattern e) (ciEvents input)
      then (Inl (PlainError ''Invalid glob pattern in events''), db)
      else
        (case prepareCustomHeaders A rawKey ivs (ciCustomHeaders input) of
           Inl e \<Rightarrow> (Inl e, db)
         | Inr headers \<Rightarrow>
             (let row = \<lparr>wsId = i, wsUrl = ciUrl input,
                    wsTokenAddress = (if ciTokenAddress input = Some [] then None else ciTokenAddress input),
                    wsEvents = ciEvents input, wsSecret = secret, wsActive = True, wsCreatedBy = ciCreatedBy input,
                    wsCreatedAt = now, wsLastTriggered = None, wsDeletedAt = None, wsCustomHeaders = headers\<rparr>
              in if \<not> ok \<or> i \<in> wsId ` set (wdSubscriptions db) \<or> \<not> subscription_row_ok row then (Inl db_error, db)
                 else (Inr row, db\<lparr>wdSubscriptions := wdSubscriptions db @ [row]\<rparr>))))"

definition getSubscription :: "string \<Rightarrow> bool \<Rightarrow> webhook_db \<Rightarrow> subscription option" where
  "getSubscription i includeDeleted db =
     List.find (\<lambda>s. wsId s = i \<and> (includeDeleted \<or> wsDeletedAt s = None)) (wdSubscriptions db)"

definition listSubscriptions :: "string \<Rightarrow> bool option \<Rightarrow> webhook_db \<Rightarrow> subscription list" where
  "listSubscriptions createdBy active db =
     sort_key (\<lambda>s. - wsCreatedAt s)
       (filter (\<lambda>s. wsCreatedBy s = createdBy \<and> wsDeletedAt s = None \<and> (case active of None \<Rightarrow> True | Some a \<Rightarrow> wsActive s = a))
         (wdSubscriptions db))"

text \<open>An UPDATE of the rows that satisfy a condition; whether there were any.\<close>

definition update_subs :: "(subscription \<Rightarrow> bool) \<Rightarrow> (subscription \<Rightarrow> subscription) \<Rightarrow> webhook_db \<Rightarrow> bool \<times> webhook_db" where
  "update_subs P f db =
     (list_ex P (wdSubscriptions db), db\<lparr>wdSubscriptions := map (\<lambda>s. if P s then f s else s) (wdSubscriptions db)\<rparr>)"

definition deleteSubscription :: "int \<Rightarrow> string \<Rightarrow> string \<Rightarrow> webhook_db \<Rightarrow> bool \<times> webhook_db" where
  "deleteSubscription now i createdBy =
     update_subs (\<lambda>s. wsId s = i \<and> wsCreatedBy s = createdBy \<and> wsDeletedAt s = None) (\<lambda>s. s\<lparr>wsDeletedAt := Some now\<rparr>)"

datatype restore_result = Restored | NotFound | RetentionExpired

definition restorable :: "int \<Rightarrow> int \<Rightarrow> subscription \<Rightarrow> bool" where
  "restorable now retentionDays s \<longleftrightarrow> (case wsDeletedAt s of None \<Rightarrow> False | Some t \<Rightarrow> t > now - retentionDays * DAY)"

definition restoreSubscription :: "int \<Rightarrow> string \<Rightarrow> string \<Rightarrow> int \<Rightarrow> webhook_db \<Rightarrow> restore_result \<times> webhook_db" where
  "restoreSubscription now i createdBy retentionDays db =
     (case update_subs (\<lambda>s. wsId s = i \<and> wsCreatedBy s = createdBy \<and> restorable now retentionDays s) (\<lambda>s. s\<lparr>wsDeletedAt := None\<rparr>) db of
        (found, db1) \<Rightarrow>
          if found then (Restored, db1)
          else if list_ex (\<lambda>s. wsId s = i \<and> wsCreatedBy s = createdBy \<and> wsDeletedAt s \<noteq> None) (wdSubscriptions db1)
          then (RetentionExpired, db1) else (NotFound, db1))"

text \<open>The references to a deleted row are deleted with it.\<close>

definition purgeExpiredDeleted :: "int \<Rightarrow> int \<Rightarrow> webhook_db \<Rightarrow> nat \<times> webhook_db" where
  "purgeExpiredDeleted now retentionDays db =
     (let expired = (\<lambda>s. wsDeletedAt s \<noteq> None \<and> \<not> restorable now retentionDays s);
          gone = wsId ` set (filter expired (wdSubscriptions db))
      in (length (filter expired (wdSubscriptions db)),
          db\<lparr>wdSubscriptions := filter (\<lambda>s. \<not> expired s) (wdSubscriptions db),
             wdLogs := filter (\<lambda>l. dgSubscriptionId l \<notin> gone) (wdLogs db),
             wdDeadLetters := filter (\<lambda>d. dlSubscriptionId d \<notin> gone) (wdDeadLetters db)\<rparr>))"

definition updateCustomHeaders ::
  "'k aead \<Rightarrow> string option \<Rightarrow> string list \<Rightarrow> string \<Rightarrow> string \<Rightarrow> jsval \<Rightarrow> webhook_db \<Rightarrow> (service_error, subscription option) res \<times> webhook_db" where
  "updateCustomHeaders A rawKey ivs i createdBy headers db =
     (case prepareCustomHeaders A rawKey ivs headers of
        Inl e \<Rightarrow> (Inl e, db)
      | Inr hs \<Rightarrow>
          (let P = (\<lambda>s. wsId s = i \<and> wsCreatedBy s = createdBy \<and> wsDeletedAt s = None)
           in (Inr (map_option (\<lambda>s. s\<lparr>wsCustomHeaders := hs\<rparr>) (List.find P (wdSubscriptions db))),
               snd (update_subs P (\<lambda>s. s\<lparr>wsCustomHeaders := hs\<rparr>) db))))"

definition updateSubscriptionStatus :: "string \<Rightarrow> bool \<Rightarrow> webhook_db \<Rightarrow> bool \<times> webhook_db" where
  "updateSubscriptionStatus i active =
     update_subs (\<lambda>s. wsId s = i \<and> wsDeletedAt s = None) (\<lambda>s. s\<lparr>wsActive := active\<rparr>)"

definition event_matches :: "string \<Rightarrow> string \<Rightarrow> bool" where
  "event_matches event pattern \<longleftrightarrow>
     (if pattern = event then True else if CHR ''*'' \<in> set pattern then globMatch pattern event else False)"

definition findMatchingSubscriptions :: "string \<Rightarrow> string option \<Rightarrow> webhook_db \<Rightarrow> subscription list" where
  "findMatchingSubscriptions event tokenAddress db =
     filter (\<lambda>s. list_ex (event_matches event) (wsEvents s))
       (filter (\<lambda>s. wsActive s \<and> wsDeletedAt s = None
          \<and> (wsTokenAddress s = None \<or> (tokenAddress \<noteq> None \<and> wsTokenAddress s = tokenAddress)))
         (wdSubscriptions db))"

definition updateLastTriggered :: "int \<Rightarrow> string \<Rightarrow> webhook_db \<Rightarrow> webhook_db" where
  "updateLastTriggered now i db = snd (update_subs (\<lambda>s. wsId s = i) (\<lambda>s. s\<lparr>wsLastTriggered := Some now\<rparr>) db)"

section \<open>Delivery logs\<close>

definition logDelivery ::
  "bool \<Rightarrow> int \<Rightarrow> string \<Rightarrow> string \<Rightarrow> string \<Rightarrow> string \<Rightarrow> int option \<Rightarrow> bool \<Rightarrow> int \<Rightarrow> string option \<Rightarrow> webhook_db \<Rightarrow> (service_error, unit) res \<times> webhook_db" where
  "logDelivery ok now i subscriptionId event payload statusCode success attempts errorMessage db =
     (if \<not> ok \<or> subscriptionId \<notin> wsId ` set (wdSubscriptions db) then (Inl db_error, db)
      else (Inr (), db\<lparr>wdLogs := wdLogs db @ [\<lparr>dgId = i, dgSubscriptionId = subscriptionId, dgEvent = event, dgPayload = payload,
              dgStatusCode = statusCode, dgSuccess = success, dgAttempts = attempts, dgErrorMessage = errorMessage, dgCreatedAt = now\<rparr>]\<rparr>))"

definition getDeliveryLogs :: "string \<Rightarrow> nat \<Rightarrow> webhook_db \<Rightarrow> delivery_log list" where
  "getDeliveryLogs subscriptionId limit db =
     take limit (sort_key (\<lambda>l. - dgCreatedAt l) (filter (\<lambda>l. dgSubscriptionId l = subscriptionId) (wdLogs db)))"

definition getDeliveryLogById :: "string \<Rightarrow> webhook_db \<Rightarrow> delivery_log option" where
  "getDeliveryLogById i db = List.find (\<lambda>l. dgId l = i) (wdLogs db)"

text \<open>\<open>isoTime\<close> is the timestamp; the result is the body's text before signing, and the signature.\<close>

definition createPayload :: "(string \<Rightarrow> string \<Rightarrow> string) \<Rightarrow> string \<Rightarrow> int \<Rightarrow> string \<Rightarrow> jsval \<Rightarrow> string \<Rightarrow> string \<times> jsval" where
  "createPayload hmac isoTime nowMs event data secret =
     (let payload = [(''event'', JStr event), (''timestamp'', JStr isoTime), (''data'', data)];
          payloadString = (case js_stringify (JObj payload) of Some s \<Rightarrow> s | None \<Rightarrow> []);
          signature = generateWebhookSignature hmac payloadString secret (nowMs div 1000)
      in (payloadString, JObj (payload @ [(''signature'', JStr signature)])))"

section \<open>Dead letters\<close>

definition storeDeadLetter ::
  "bool \<Rightarrow> int \<Rightarrow> string \<Rightarrow> string \<Rightarrow> string \<Rightarrow> string \<Rightarrow> int option \<Rightarrow> string option \<Rightarrow> int \<Rightarrow> webhook_db \<Rightarrow> (service_error, string) res \<times> webhook_db" where
  "storeDeadLetter ok now i subscriptionId event payload statusCode lastError attemptCount db =
     (if \<not> ok \<or> subscriptionId \<notin> wsId ` set (wdSubscriptions db) \<or> i \<in> dlId ` set (wdDeadLetters db) then (Inl db_error, db)
      else (Inr i, db\<lparr>wdDeadLetters := wdDeadLetters db @ [\<lparr>dlId = i, dlSubscriptionId = subscriptionId, dlEvent = event,
              dlPayload = payload, dlStatusCode = statusCode, dlLastError = lastError, dlAttemptCount = attemptCount, dlRequeueCount = 0,
              dlCreatedAt = now, dlUpdatedAt = now, dlResolvedAt = None, dlResolution = None\<rparr>]\<rparr>))"

definition listUnresolved :: "string \<Rightarrow> nat \<Rightarrow> webhook_db \<Rightarrow> webhook_dead_letter list" where
  "listUnresolved subscriptionId limit db =
     take limit (sort_key (\<lambda>d. - dlCreatedAt d) (filter (\<lambda>d. dlSubscriptionId d = subscriptionId \<and> dlResolvedAt d = None) (wdDeadLetters db)))"

text \<open>\<open>ILIKE\<close>: \<open>%\<close> is any text, \<open>_\<close> any character, and a backslash (92) takes the next character literally.\<close>

function like :: "string \<Rightarrow> string \<Rightarrow> bool" where
  "like [] s = (s = [])"
| "like (c # cs) s =
     (if c = CHR ''%'' then like cs s \<or> (case s of _ # xs \<Rightarrow> like (c # cs) xs | [] \<Rightarrow> False)
      else if c = CHR ''_'' then (case s of _ # xs \<Rightarrow> like cs xs | [] \<Rightarrow> False)
      else if (of_char c :: nat) = 92 then
        (case (cs, s) of (d # ds, x # xs) \<Rightarrow> x = d \<and> like ds xs | _ \<Rightarrow> False)
      else (case s of x # xs \<Rightarrow> x = c \<and> like cs xs | [] \<Rightarrow> False))"
  by pat_completeness auto
termination by (relation "measure (\<lambda>(p, s). length p + length s)") auto

definition ilike :: "string \<Rightarrow> string \<Rightarrow> bool" where
  "ilike pattern s = like (to_lower pattern) (to_lower s)"

record dead_letter_filters =
  dfTenant :: "string option"
  dfFailureReason :: "string option"
  dfResolved :: "bool option"

definition dead_letter_matches :: "dead_letter_filters \<Rightarrow> webhook_db \<Rightarrow> webhook_dead_letter \<Rightarrow> bool" where
  "dead_letter_matches f db d \<longleftrightarrow>
     (case List.find (\<lambda>s. wsId s = dlSubscriptionId d) (wdSubscriptions db) of
        None \<Rightarrow> False
      | Some s \<Rightarrow>
          (case dfTenant f of Some t \<Rightarrow> t = [] \<or> wsCreatedBy s = t | None \<Rightarrow> True)
        \<and> (case dfFailureReason f of
             Some r \<Rightarrow> r = [] \<or> (case dlLastError d of Some e \<Rightarrow> ilike (''%'' @ r @ ''%'') e | None \<Rightarrow> False) | None \<Rightarrow> True)
        \<and> (case dfResolved f of Some b \<Rightarrow> (dlResolvedAt d \<noteq> None) = b | None \<Rightarrow> True))"

definition listAllPaginated :: "nat \<Rightarrow> nat \<Rightarrow> dead_letter_filters \<Rightarrow> webhook_db \<Rightarrow> webhook_dead_letter list \<times> nat" where
  "listAllPaginated page limit f db =
     (let rows = filter (dead_letter_matches f db) (wdDeadLetters db)
      in (take limit (drop ((page - 1) * limit) (sort_key (\<lambda>d. - dlCreatedAt d) rows)), length rows))"

definition getEntry :: "string \<Rightarrow> webhook_db \<Rightarrow> webhook_dead_letter option" where
  "getEntry i db = List.find (\<lambda>d. dlId d = i) (wdDeadLetters db)"

definition update_letters :: "string \<Rightarrow> (webhook_dead_letter \<Rightarrow> webhook_dead_letter) \<Rightarrow> webhook_db \<Rightarrow> webhook_db" where
  "update_letters i f db = db\<lparr>wdDeadLetters := map (\<lambda>d. if dlId d = i then f d else d) (wdDeadLetters db)\<rparr>"

definition markResolved :: "int \<Rightarrow> string \<Rightarrow> string \<Rightarrow> webhook_db \<Rightarrow> bool \<times> webhook_db" where
  "markResolved now i resolution db =
     (i \<in> dlId ` set (wdDeadLetters db),
      update_letters i (\<lambda>d. d\<lparr>dlResolvedAt := Some now, dlResolution := Some resolution, dlUpdatedAt := now\<rparr>) db)"

definition MAX_REQUEUE_CYCLES :: int where
  "MAX_REQUEUE_CYCLES = 3"

datatype requeue_error = EntryNotFound | PoisonMessage int | RequeueFailed

text \<open>The read with its guard, and the update, between which other requests can run. \<open>column\<close> tells whether the deployed table has
  a column \<open>requeue_count\<close>, which the statement needs; \<open>schema.sql\<close> and the migrations create none.\<close>

definition requeue_read :: "string \<Rightarrow> webhook_db \<Rightarrow> (requeue_error, unit) res" where
  "requeue_read i db =
     (case getEntry i db of
        None \<Rightarrow> Inl EntryNotFound
      | Some entry \<Rightarrow> if dlRequeueCount entry \<ge> MAX_REQUEUE_CYCLES then Inl (PoisonMessage (dlRequeueCount entry)) else Inr ())"

definition requeue_write :: "bool \<Rightarrow> int \<Rightarrow> string \<Rightarrow> webhook_db \<Rightarrow> (requeue_error, webhook_dead_letter) res \<times> webhook_db" where
  "requeue_write column now i db =
     (if \<not> column then (Inl RequeueFailed, db)
      else
        (let db1 = update_letters i (\<lambda>d. d\<lparr>dlRequeueCount := dlRequeueCount d + 1, dlResolvedAt := None, dlResolution := None, dlUpdatedAt := now\<rparr>) db
         in case getEntry i db1 of None \<Rightarrow> (Inl RequeueFailed, db1) | Some d \<Rightarrow> (Inr d, db1)))"

definition requeueDeadLetter :: "bool \<Rightarrow> int \<Rightarrow> string \<Rightarrow> webhook_db \<Rightarrow> (requeue_error, webhook_dead_letter) res \<times> webhook_db" where
  "requeueDeadLetter column now i db =
     (case requeue_read i db of Inl e \<Rightarrow> (Inl e, db) | Inr _ \<Rightarrow> requeue_write column now i db)"

section \<open>Patterns: properties\<close>

text \<open>The texts that a piece of a pattern stands for.\<close>

fun piece :: "glob_token \<Rightarrow> string \<Rightarrow> bool" where
  "piece (Lit c) p \<longleftrightarrow> p = [c]"
| "piece Star p \<longleftrightarrow> CHR ''.'' \<notin> set p"
| "piece DStar p \<longleftrightarrow> (\<forall>c\<in>set p. \<not> line_end c)"

lemma glob_run_pieces: "glob_run ts s \<longleftrightarrow> (\<exists>ps. list_all2 piece ts ps \<and> concat ps = s)"
proof (induction ts s rule: glob_run.induct)
  case (1 s)
  then show ?case by auto
next
  case (2 c ts s)
  then show ?case by (cases s) (auto simp: list_all2_Cons1 Cons_eq_append_conv)
next
  case (3 ts s)
  have "(\<exists>ps. list_all2 piece (Star # ts) ps \<and> concat ps = s) \<longleftrightarrow>
      (\<exists>ps. list_all2 piece ts ps \<and> concat ps = s) \<or>
      (\<exists>x xs. s = x # xs \<and> x \<noteq> CHR ''.'' \<and> (\<exists>ps. list_all2 piece (Star # ts) ps \<and> concat ps = xs))" (is "?L = ?R")
  proof
    assume ?L
    then obtain p ps where p: "CHR ''.'' \<notin> set p" "list_all2 piece ts ps" "p @ concat ps = s" by (auto simp: list_all2_Cons1)
    then show ?R
    proof (cases p)
      case (Cons x xs)
      then have "list_all2 piece (Star # ts) (xs # ps)" "concat (xs # ps) = xs @ concat ps" using p by auto
      then show ?thesis using p Cons by fastforce
    qed auto
  next
    assume ?R
    then show ?L
    proof
      assume "\<exists>ps. list_all2 piece ts ps \<and> concat ps = s"
      then obtain ps where "list_all2 piece ts ps" "concat ps = s" by blast
      then show ?L by (intro exI [of _ "[] # ps"]) simp
    next
      assume "\<exists>x xs. s = x # xs \<and> x \<noteq> CHR ''.'' \<and> (\<exists>ps. list_all2 piece (Star # ts) ps \<and> concat ps = xs)"
      then obtain x xs p ps where "s = x # xs" "x \<noteq> CHR ''.''" "CHR ''.'' \<notin> set p" "list_all2 piece ts ps" "p @ concat ps = xs"
        by (auto simp: list_all2_Cons1)
      then show ?L by (intro exI [of _ "(x # p) # ps"]) auto
    qed
  qed
  then show ?case using "3.IH" by (cases s) auto
next
  case (4 ts s)
  have "(\<exists>ps. list_all2 piece (DStar # ts) ps \<and> concat ps = s) \<longleftrightarrow>
      (\<exists>ps. list_all2 piece ts ps \<and> concat ps = s) \<or>
      (\<exists>x xs. s = x # xs \<and> \<not> line_end x \<and> (\<exists>ps. list_all2 piece (DStar # ts) ps \<and> concat ps = xs))" (is "?L = ?R")
  proof
    assume ?L
    then obtain p ps where p: "\<forall>c\<in>set p. \<not> line_end c" "list_all2 piece ts ps" "p @ concat ps = s" by (auto simp: list_all2_Cons1)
    then show ?R
    proof (cases p)
      case (Cons x xs)
      then have "list_all2 piece (DStar # ts) (xs # ps)" "concat (xs # ps) = xs @ concat ps" using p by auto
      then show ?thesis using p Cons by fastforce
    qed auto
  next
    assume ?R
    then show ?L
    proof
      assume "\<exists>ps. list_all2 piece ts ps \<and> concat ps = s"
      then obtain ps where "list_all2 piece ts ps" "concat ps = s" by blast
      then show ?L by (intro exI [of _ "[] # ps"]) simp
    next
      assume "\<exists>x xs. s = x # xs \<and> \<not> line_end x \<and> (\<exists>ps. list_all2 piece (DStar # ts) ps \<and> concat ps = xs)"
      then obtain x xs p ps where "s = x # xs" "\<not> line_end x" "\<forall>c\<in>set p. \<not> line_end c" "list_all2 piece ts ps" "p @ concat ps = xs"
        by (auto simp: list_all2_Cons1)
      then show ?L by (intro exI [of _ "(x # p) # ps"]) auto
    qed
  qed
  then show ?case using "4.IH" by (cases s) auto
qed

text \<open>An event is delivered to a subscription exactly when the subscription is active and not deleted, is for every token or for this
  one, and one of its entries is the event or a pattern in whose language it is: each \<open>*\<close> stands for a text without
  dots and each \<open>**\<close> for a text on one line.\<close>

theorem matching_subscriptions_iff:
  "s \<in> set (findMatchingSubscriptions event token db) \<longleftrightarrow>
     s \<in> set (wdSubscriptions db) \<and> wsActive s \<and> wsDeletedAt s = None
     \<and> (wsTokenAddress s = None \<or> (\<exists>t. token = Some t \<and> wsTokenAddress s = Some t))
     \<and> (\<exists>pattern\<in>set (wsEvents s). pattern = event
          \<or> (CHR ''*'' \<in> set pattern \<and> (\<exists>ps. list_all2 piece (glob_tokens pattern) ps \<and> concat ps = event)))"
  by (auto simp: findMatchingSubscriptions_def list_ex_iff event_matches_def globMatch_def glob_run_pieces split: if_splits)

text \<open>Zero segments are not matched between dots, which stay in the pattern.\<close>

lemma zero_segments_not_matched: "\<not> globMatch ''token.**'' ''token''" "\<not> globMatch ''a.**.b'' ''a.b''" "globMatch ''token.**'' ''token.burn.self''"
  by (simp_all add: globMatch_def line_end_def)

lemma segment_star: "globMatch ''token.*'' ''token.created''" "\<not> globMatch ''token.*'' ''token.burn.self''"
  by (simp_all add: globMatch_def)

section \<open>Soft deletion\<close>

definition subs_distinct :: "webhook_db \<Rightarrow> bool" where
  "subs_distinct db \<longleftrightarrow> distinct (map wsId (wdSubscriptions db))"

lemma unique_sub:
  "subs_distinct db \<Longrightarrow> s \<in> set (wdSubscriptions db) \<Longrightarrow> s' \<in> set (wdSubscriptions db) \<Longrightarrow> wsId s = wsId s' \<Longrightarrow> s = s'"
  by (auto simp: subs_distinct_def distinct_map inj_on_def)

lemma update_one:
  assumes "s \<in> set (wdSubscriptions db)" and "\<And>x. x \<in> set (wdSubscriptions db) \<Longrightarrow> P x \<longleftrightarrow> x = s"
  shows "update_subs P f db = (True, db\<lparr>wdSubscriptions := map (\<lambda>x. if x = s then f s else x) (wdSubscriptions db)\<rparr>)"
proof -
  have "map (\<lambda>x. if P x then f x else x) (wdSubscriptions db) = map (\<lambda>x. if x = s then f s else x) (wdSubscriptions db)"
    using assms(2) by simp
  moreover have "list_ex P (wdSubscriptions db)" using assms by (auto simp: list_ex_iff)
  ultimately show ?thesis by (simp only: update_subs_def)
qed

lemma update_none:
  assumes "\<And>x. x \<in> set (wdSubscriptions db) \<Longrightarrow> \<not> P x"
  shows "update_subs P f (db :: webhook_db) = (False, db)"
proof -
  have "map (\<lambda>x. if P x then f x else x) (wdSubscriptions db) = wdSubscriptions db"
    using assms by (simp add: map_idI)
  moreover have "\<not> list_ex P (wdSubscriptions db)" using assms by (auto simp: list_ex_iff)
  ultimately show ?thesis by (simp add: update_subs_def)
qed

text \<open>A subscription that its owner deletes and restores within the retention period is as it was, with its logs and dead
  letters; once the period is over it cannot be restored.\<close>

theorem delete_restore_roundtrip:
  assumes "subs_distinct db" and "s \<in> set (wdSubscriptions db)" and "wsDeletedAt s = None"
  shows "restoreSubscription t2 (wsId s) (wsCreatedBy s) days (snd (deleteSubscription t1 (wsId s) (wsCreatedBy s) db))
    = (if t2 < t1 + days * DAY then (Restored, db)
       else (RetentionExpired, snd (deleteSubscription t1 (wsId s) (wsCreatedBy s) db)))"
proof -
  define del where "del = (\<lambda>x. if x = s then s\<lparr>wsDeletedAt := Some t1\<rparr> else x)"
  define db1 where "db1 = db\<lparr>wdSubscriptions := map del (wdSubscriptions db)\<rparr>"
  have same: "x = s" if "x \<in> set (wdSubscriptions db)" "wsId x = wsId s" for x
    using unique_sub [OF assms(1) that(1) assms(2) that(2)] .
  have del: "deleteSubscription t1 (wsId s) (wsCreatedBy s) db = (True, db1)"
    unfolding deleteSubscription_def db1_def del_def using same assms(2,3) by (intro update_one) auto
  have ids: "wsId (del x) = wsId x" for x by (simp add: del_def)
  have s1: "del s \<in> set (wdSubscriptions db1)" "del s = s\<lparr>wsDeletedAt := Some t1\<rparr>"
    using assms(2) by (simp_all add: db1_def del_def)
  have same1: "y = del s" if y: "y \<in> set (wdSubscriptions db1)" "wsId y = wsId s" for y
  proof -
    obtain x where "x \<in> set (wdSubscriptions db)" "y = del x" using y(1) by (auto simp: db1_def)
    moreover then have "wsId x = wsId s" using y(2) ids by simp
    ultimately show ?thesis using same by blast
  qed
  let ?Q = "\<lambda>x. wsId x = wsId s \<and> wsCreatedBy x = wsCreatedBy s \<and> restorable t2 days x"
  have Q: "?Q y \<longleftrightarrow> y = del s \<and> t2 < t1 + days * DAY" if "y \<in> set (wdSubscriptions db1)" for y
    using same1 [OF that] s1(2) by (auto simp: restorable_def)
  have goal: "restoreSubscription t2 (wsId s) (wsCreatedBy s) days db1 = (if t2 < t1 + days * DAY then (Restored, db) else (RetentionExpired, db1))"
  proof (cases "t2 < t1 + days * DAY")
    case True
    have "update_subs ?Q (\<lambda>x. x\<lparr>wsDeletedAt := None\<rparr>) db1
        = (True, db1\<lparr>wdSubscriptions := map (\<lambda>x. if x = del s then (del s)\<lparr>wsDeletedAt := None\<rparr> else x) (wdSubscriptions db1)\<rparr>)"
      using Q s1(1) True by (intro update_one) blast+
    moreover have "map (\<lambda>x. if x = del s then (del s)\<lparr>wsDeletedAt := None\<rparr> else x) (wdSubscriptions db1) = wdSubscriptions db"
    proof -
      have "(if del x = del s then (del s)\<lparr>wsDeletedAt := None\<rparr> else del x) = x" if "x \<in> set (wdSubscriptions db)" for x
      proof (cases "x = s")
        case True
        then show ?thesis using s1(2) assms(3) by simp
      next
        case False
        then have "wsId x \<noteq> wsId s" using same [OF that] by blast
        then have "del x \<noteq> del s" using ids by metis
        then show ?thesis using False by (simp add: del_def)
      qed
      then show ?thesis by (simp add: db1_def map_idI)
    qed
    ultimately show ?thesis using True by (simp add: restoreSubscription_def db1_def)
  next
    case False
    have "update_subs ?Q (\<lambda>x. x\<lparr>wsDeletedAt := None\<rparr>) db1 = (False, db1)"
      using Q False by (intro update_none) blast
    moreover have "list_ex (\<lambda>x. wsId x = wsId s \<and> wsCreatedBy x = wsCreatedBy s \<and> wsDeletedAt x \<noteq> None) (wdSubscriptions db1)"
      unfolding list_ex_iff by (rule bexI [OF _ s1(1)]) (simp add: s1(2))
    ultimately show ?thesis using False by (simp add: restoreSubscription_def)
  qed
  show ?thesis using goal by (simp add: del)
qed

definition demo_sub :: subscription where
  "demo_sub = \<lparr>wsId = ''s'', wsUrl = ''https://x'', wsTokenAddress = None, wsEvents = [''token.*''], wsSecret = ''k'', wsActive = True,
     wsCreatedBy = ''G'', wsCreatedAt = 0, wsLastTriggered = None, wsDeletedAt = None, wsCustomHeaders = []\<rparr>"

definition demo_hooks :: webhook_db where
  "demo_hooks = \<lparr>wdSubscriptions = [demo_sub], wdLogs = [], wdDeadLetters = []\<rparr>"

theorem delete_restore_roundtrip_witness:
  "restoreSubscription 5 ''s'' ''G'' 30 (snd (deleteSubscription 1 ''s'' ''G'' demo_hooks)) = (Restored, demo_hooks)"
  using delete_restore_roundtrip [of demo_hooks demo_sub 5 30 1]
  by (simp add: subs_distinct_def demo_hooks_def demo_sub_def DAY_def)

section \<open>References between the tables\<close>

text \<open>Every operation that writes, with its time, ids and faults arbitrary.\<close>

inductive store_step :: "'k aead \<Rightarrow> webhook_db \<Rightarrow> webhook_db \<Rightarrow> bool" for A :: "'k aead" where
  "store_step A db (snd (createSubscription ok A rawKey ivs now i secret input db))"
| "store_step A db (snd (deleteSubscription now i u db))"
| "store_step A db (snd (restoreSubscription now i u days db))"
| "store_step A db (snd (purgeExpiredDeleted now days db))"
| "store_step A db (snd (updateCustomHeaders A rawKey ivs i u hs db))"
| "store_step A db (snd (updateSubscriptionStatus i a db))"
| "store_step A db (updateLastTriggered now i db)"
| "store_step A db (snd (logDelivery ok now i sub event payload st su tries er db))"
| "store_step A db (snd (storeDeadLetter ok now i sub event payload st er tries db))"
| "store_step A db (snd (markResolved now i r db))"
| "store_step A db (snd (requeue_write column now i db))"

definition store_inv :: "webhook_db \<Rightarrow> bool" where
  "store_inv db \<longleftrightarrow> subs_distinct db \<and> distinct (map dlId (wdDeadLetters db))
     \<and> dgSubscriptionId ` set (wdLogs db) \<subseteq> wsId ` set (wdSubscriptions db)
     \<and> dlSubscriptionId ` set (wdDeadLetters db) \<subseteq> wsId ` set (wdSubscriptions db)
     \<and> (\<forall>s\<in>set (wdSubscriptions db). distinct (map (\<lambda>h. to_lower (shName h)) (wsCustomHeaders s))
          \<and> (\<forall>h\<in>set (wsCustomHeaders s). \<not> isBlockedHeaderName (shName h) \<and> (isSensitiveHeaderName (shName h) \<longrightarrow> shSensitive h)))"

definition headers_ok :: "stored_header list \<Rightarrow> bool" where
  "headers_ok hs \<longleftrightarrow> distinct (map (\<lambda>h. to_lower (shName h)) hs)
     \<and> (\<forall>h\<in>set hs. \<not> isBlockedHeaderName (shName h) \<and> (isSensitiveHeaderName (shName h) \<longrightarrow> shSensitive h))"

lemma prepared_ok: "prepareCustomHeaders A rawKey ivs input = Inr hs \<Longrightarrow> headers_ok hs"
  using prepare_headers_cases [of A rawKey ivs "[]" _ hs]
  by (cases input) (auto simp: prepareCustomHeaders_def headers_ok_def split: if_splits)

lemma store_inv_alt: "store_inv db \<longleftrightarrow> distinct (map wsId (wdSubscriptions db)) \<and> distinct (map dlId (wdDeadLetters db))
     \<and> dgSubscriptionId ` set (wdLogs db) \<subseteq> wsId ` set (wdSubscriptions db)
     \<and> dlSubscriptionId ` set (wdDeadLetters db) \<subseteq> wsId ` set (wdSubscriptions db)
     \<and> (\<forall>s\<in>set (wdSubscriptions db). headers_ok (wsCustomHeaders s))"
  by (auto simp: store_inv_def subs_distinct_def headers_ok_def)

text \<open>An update that keeps the ids and puts acceptable headers keeps the invariant.\<close>

lemma update_subs_inv:
  assumes "store_inv db" and "\<And>s. wsId (f s) = wsId s" and "\<And>s. headers_ok (wsCustomHeaders s) \<Longrightarrow> headers_ok (wsCustomHeaders (f s))"
  shows "store_inv (snd (update_subs P f db))"
proof -
  let ?g = "\<lambda>s. if P s then f s else s"
  have ids: "map wsId (map ?g xs) = map wsId xs" for xs using assms(2) by (induction xs) auto
  then have "wsId ` set (map ?g xs) = wsId ` set xs" for xs by (metis list.set_map)
  then show ?thesis
    using assms(1,3) ids unfolding store_inv_alt update_subs_def by (auto simp del: map_map)
qed

lemma update_letters_inv:
  assumes "store_inv db" and "\<And>d. dlId (f d) = dlId d" and "\<And>d. dlSubscriptionId (f d) = dlSubscriptionId d"
  shows "store_inv (update_letters i f db)"
proof -
  let ?g = "\<lambda>d. if dlId d = i then f d else d"
  have "map dlId (map ?g xs) = map dlId xs" "map dlSubscriptionId (map ?g xs) = map dlSubscriptionId xs" for xs
    using assms(2,3) by (induction xs) auto
  then have "map dlId (map ?g xs) = map dlId xs" "dlSubscriptionId ` set (map ?g xs) = dlSubscriptionId ` set xs" for xs
    by (metis list.set_map)+
  then show ?thesis using assms(1) unfolding store_inv_alt update_letters_def by (auto simp del: map_map)
qed

lemma purge_inv:
  assumes "store_inv db"
  shows "store_inv (snd (purgeExpiredDeleted now days db))"
proof -
  define expired where "expired = (\<lambda>s :: subscription. wsDeletedAt s \<noteq> None \<and> \<not> restorable now days s)"
  have keep: "i \<in> wsId ` set (filter (\<lambda>s. \<not> expired s) (wdSubscriptions db))"
    if "i \<in> wsId ` set (wdSubscriptions db)" "i \<notin> wsId ` set (filter expired (wdSubscriptions db))" for i
    using that by auto
  have "distinct (map wsId (filter (\<lambda>s. \<not> expired s) (wdSubscriptions db)))"
    using assms by (auto simp: store_inv_alt intro: distinct_map_filter)
  moreover have "distinct (map dlId (filter P (wdDeadLetters db)))" for P
    using assms by (auto simp: store_inv_alt intro: distinct_map_filter)
  ultimately show ?thesis
    using assms keep unfolding store_inv_alt purgeExpiredDeleted_def Let_def expired_def [symmetric]
    by auto
qed

lemma store_step_inv: "store_step A db db' \<Longrightarrow> store_inv db \<Longrightarrow> store_inv db'"
proof (induction rule: store_step.induct)
  case (1 db ok rawKey ivs now i secret input)
  then show ?case
    by (auto simp: createSubscription_def store_inv_alt Let_def prepared_ok split: sum.split)
next
  case (2 db now i u)
  then show ?case unfolding deleteSubscription_def by (intro update_subs_inv) auto
next
  case (3 db now i u days)
  have "store_inv (snd (update_subs (\<lambda>s. wsId s = i \<and> wsCreatedBy s = u \<and> restorable now days s) (\<lambda>s. s\<lparr>wsDeletedAt := None\<rparr>) db))"
    by (rule update_subs_inv) (use 3 in auto)
  then show ?case by (auto simp: restoreSubscription_def split: prod.split)
next
  case (4 db now days)
  then show ?case by (rule purge_inv)
next
  case (5 db rawKey ivs i u hs)
  then show ?case by (auto simp: updateCustomHeaders_def Let_def prepared_ok intro!: update_subs_inv split: sum.split)
next
  case (6 db i a)
  then show ?case unfolding updateSubscriptionStatus_def by (intro update_subs_inv) auto
next
  case (7 db now i)
  then show ?case unfolding updateLastTriggered_def by (intro update_subs_inv) auto
next
  case (8 db ok now i sub event payload st su tries er)
  then show ?case by (auto simp: logDelivery_def store_inv_alt)
next
  case (9 db ok now i sub event payload st er tries)
  then show ?case by (auto simp: storeDeadLetter_def store_inv_alt)
next
  case (10 db now i r)
  then show ?case by (auto simp: markResolved_def intro!: update_letters_inv)
next
  case (11 db column now i)
  have "store_inv (update_letters i (\<lambda>d. d\<lparr>dlRequeueCount := dlRequeueCount d + 1, dlResolvedAt := None, dlResolution := None, dlUpdatedAt := now\<rparr>) db)"
    by (rule update_letters_inv) (use 11 in auto)
  then show ?case using 11 by (auto simp: requeue_write_def Let_def split: option.split)
qed

text \<open>In every run of the operations on the webhook tables, no log or dead letter refers to a subscription that is gone, ids are
  unique, and every subscription keeps headers that are not reserved, distinct but for case and encrypted where
  their names suggest a credential.\<close>

theorem webhook_tables_consistent:
  assumes "(store_step A)\<^sup>*\<^sup>* \<lparr>wdSubscriptions = [], wdLogs = [], wdDeadLetters = []\<rparr> db"
  shows "store_inv db"
  using assms
proof (induction rule: rtranclp_induct)
  case base
  show ?case by (simp add: store_inv_def subs_distinct_def)
next
  case (step y z)
  then show ?case by (blast intro: store_step_inv)
qed

theorem webhook_tables_consistent_witness:
  "store_inv (updateLastTriggered 3 ''s'' \<lparr>wdSubscriptions = [], wdLogs = [], wdDeadLetters = []\<rparr>)"
  by (rule webhook_tables_consistent [of toy_aead]) (rule r_into_rtranclp, rule store_step.intros)

section \<open>Requeues\<close>

text \<open>Requests that do not overlap respect the limit.\<close>

lemma requeue_limit:
  assumes "\<forall>d\<in>set (wdDeadLetters db). dlRequeueCount d \<le> MAX_REQUEUE_CYCLES" and "distinct (map dlId (wdDeadLetters db))"
  shows "\<forall>d\<in>set (wdDeadLetters (snd (requeueDeadLetter column now i db))). dlRequeueCount d \<le> MAX_REQUEUE_CYCLES"
proof -
  have less: "dlRequeueCount d + 1 \<le> MAX_REQUEUE_CYCLES"
    if read: "requeue_read i db = Inr u" and "d \<in> set (wdDeadLetters db)" "dlId d = i" for d u
  proof -
    obtain e where e: "getEntry i db = Some e" "dlRequeueCount e < MAX_REQUEUE_CYCLES"
      using read by (auto simp: requeue_read_def not_le split: option.splits if_splits)
    then have "e \<in> set (wdDeadLetters db)" "dlId e = i" by (auto simp: getEntry_def find_Some_iff)
    then have "e = d" using that assms(2) by (auto simp: distinct_map inj_on_def)
    then show ?thesis using e by simp
  qed
  show ?thesis
  proof (cases "requeue_read i db")
    case (Inr u)
    then show ?thesis using assms(1) less [OF Inr]
      by (auto simp: requeueDeadLetter_def requeue_write_def update_letters_def Let_def split: option.split)
  qed (use assms(1) in \<open>simp add: requeueDeadLetter_def\<close>)
qed

text \<open>Two requests that both read the count before either writes it exceed the limit.\<close>

definition demo_letter :: webhook_dead_letter where
  "demo_letter = \<lparr>dlId = ''d'', dlSubscriptionId = ''s'', dlEvent = ''e'', dlPayload = ''{}'', dlStatusCode = None, dlLastError = None,
     dlAttemptCount = 3, dlRequeueCount = 2, dlCreatedAt = 0, dlUpdatedAt = 0, dlResolvedAt = None, dlResolution = None\<rparr>"

lemma overlapping_requeues_exceed:
  fixes db defines "db \<equiv> demo_hooks\<lparr>wdDeadLetters := [demo_letter]\<rparr>"
  shows "requeue_read ''d'' db = Inr ()
    \<and> map dlRequeueCount (wdDeadLetters (snd (requeue_write True 1 ''d'' (snd (requeue_write True 1 ''d'' db))))) = [4]"
  by (simp add: db_def requeue_read_def requeue_write_def getEntry_def demo_hooks_def demo_letter_def MAX_REQUEUE_CYCLES_def
      update_letters_def Let_def)

text \<open>With the tables of the repository every requeue that passes the guard fails.\<close>

lemma requeue_needs_column: "\<exists>e. requeueDeadLetter False now i db = (Inl e, db)"
  by (auto simp: requeueDeadLetter_def requeue_write_def split: sum.split)

text \<open>A subscription without events passes the check of the table and matches nothing.\<close>

lemma empty_events_accepted:
  "subscription_row_ok (demo_sub\<lparr>wsEvents := []\<rparr>)"
  "demo_sub\<lparr>wsEvents := []\<rparr> \<notin> set (findMatchingSubscriptions e t db)"
  by (auto simp: subscription_row_ok_def demo_sub_def findMatchingSubscriptions_def)

end
