(* ===== verification/Webhook_Delivery.thy ===== *)
theory Webhook_Delivery
  imports Webhook_Store Circuit_Breaker
begin

text \<open>
  \<open>backend/src/services/webhookPayloadLimit.ts\<close>, \<open>lib/WorkerPool.ts\<close>, \<open>services/webhookDeliveryService.ts\<close> and the
  handlers of \<open>routes/webhooks-deadletter.ts\<close>: the size limit of a payload, the bounded worker pool, the delivery
  of a webhook with its retries under the circuit breaker, its log and its dead letter, and the admin's retry of
  a dead letter.

  The answers of the endpoint, of Redis and of the database are arguments. Sizes are those of ASCII texts, and event
  data has no integer-like field names, so its fields keep their order.
\<close>

section \<open>The size of a payload\<close>

definition DEFAULT_MAX_PAYLOAD_BYTES :: int where
  "DEFAULT_MAX_PAYLOAD_BYTES = 256 * 1024"

definition MAX_RETAINED_STRING_LENGTH :: nat where
  "MAX_RETAINED_STRING_LENGTH = 256"

definition IDENTIFYING_FIELDS :: "string list" where
  "IDENTIFYING_FIELDS = [''tokenAddress'', ''transactionHash'', ''ledger'']"

definition SIGNATURE_PLACEHOLDER :: string where
  "SIGNATURE_PLACEHOLDER = ''v1.'' @ replicate 10 (CHR ''0'') @ ''.'' @ replicate 64 (CHR ''0'')"

definition TIMESTAMP_PLACEHOLDER :: string where
  "TIMESTAMP_PLACEHOLDER = ''1970-01-01T00:00:00.000Z''"

definition getMaxPayloadBytes :: "string option \<Rightarrow> int" where
  "getMaxPayloadBytes raw =
     (case parse_int10 (case raw of Some s \<Rightarrow> s | None \<Rightarrow> []) of
        Some n \<Rightarrow> if n > 0 then n else DEFAULT_MAX_PAYLOAD_BYTES | None \<Rightarrow> DEFAULT_MAX_PAYLOAD_BYTES)"

definition json_length :: "jsval \<Rightarrow> int" where
  "json_length v = (case js_stringify v of Some s \<Rightarrow> int (length s) | None \<Rightarrow> 0)"

definition measurePayloadBytes :: "string \<Rightarrow> jsval \<Rightarrow> int" where
  "measurePayloadBytes event data =
     json_length (JObj [(''event'', JStr event), (''timestamp'', JStr TIMESTAMP_PLACEHOLDER), (''data'', data),
                        (''signature'', JStr SIGNATURE_PLACEHOLDER)])"

text \<open>\<open>encodeURIComponent\<close>: letters, digits and \<open>- _ . ! ~ * ' ( )\<close> (39 is the apostrophe) stay as they are.\<close>

definition upper_hex :: "nat \<Rightarrow> char" where
  "upper_hex d = (if d < 10 then char_of (48 + d) else char_of (55 + d))"

definition encodeURIComponent :: "string \<Rightarrow> string" where
  "encodeURIComponent s = concat (map (\<lambda>c.
     if alnum c \<or> c \<in> set ''-_.!~*()'' \<or> (of_char c :: nat) = 39 then [c]
     else let n = (of_char c :: nat) in [CHR ''%'', upper_hex (n div 16), upper_hex (n mod 16)]) s)"

definition word_char :: "char \<Rightarrow> bool" where
  "word_char c \<longleftrightarrow> alnum c \<or> c = CHR ''_''"

text \<open>The template with its \<open>{field}\<close> placeholders filled (123 and 125 are the braces), and whether one is missing.\<close>

function fill_template :: "(string \<times> jsval) list \<Rightarrow> string \<Rightarrow> string \<times> bool" where
  "fill_template data [] = ([], False)"
| "fill_template data (c # cs) =
     (let key = takeWhile word_char cs; rest = dropWhile word_char cs
      in if (of_char c :: nat) = 123 \<and> key \<noteq> [] \<and> rest \<noteq> [] \<and> (of_char (hd rest) :: nat) = 125 then
           (case fill_template data (tl rest) of (out, missing) \<Rightarrow>
              (let v = js_prop (JObj data) key
               in if js_nullish v then (out, True) else (encodeURIComponent (js_to_string v) @ out, missing)))
         else (case fill_template data cs of (out, missing) \<Rightarrow> (c # out, missing)))"
  by pat_completeness auto
termination
proof (relation "measure (\<lambda>(data, s). length s)")
  fix cs :: string and rest
  assume "rest = dropWhile word_char cs"
  then have "length (tl rest) < length (c # cs)" for c using length_dropWhile_le [of word_char cs] by simp
  then show "((data, tl rest), data, c # cs) \<in> measure (\<lambda>(data :: (string \<times> jsval) list, s). length s)" for data c by simp
qed auto

definition buildFullDataUrl :: "string option \<Rightarrow> (string \<times> jsval) list \<Rightarrow> string option" where
  "buildFullDataUrl template data =
     (case template of
        None \<Rightarrow> None
      | Some t \<Rightarrow> if t = [] then None else (case fill_template data t of (url, missing) \<Rightarrow> if missing then None else Some url))"

definition isSmallScalar :: "jsval \<Rightarrow> bool" where
  "isSmallScalar v \<longleftrightarrow> (case v of JNum _ \<Rightarrow> True | JBool _ \<Rightarrow> True | JStr s \<Rightarrow> length s \<le> MAX_RETAINED_STRING_LENGTH | _ \<Rightarrow> False)"

record payload_limit_result =
  plData :: "(string \<times> jsval) list"
  plTruncated :: bool
  plOriginalSizeBytes :: int
  plFinalSizeBytes :: int
  plMaxSizeBytes :: int
  plDroppedFields :: "string list"

text \<open>The truncated form: the fields kept, then the markers.\<close>

definition build_truncated :: "int \<Rightarrow> int \<Rightarrow> string option \<Rightarrow> string list \<Rightarrow> (string \<times> jsval) list \<Rightarrow> (string \<times> jsval) list" where
  "build_truncated originalSize maxSize fullDataUrl dropped kept =
     (let base = jm_set (jm_set (jm_set (jm_set kept ''truncated'' (JBool True)) ''originalSizeBytes'' (JNum originalSize))
                   ''maxSizeBytes'' (JNum maxSize)) ''droppedFields'' (JArr (map JStr dropped))
      in case fullDataUrl of
           None \<Rightarrow> base
         | Some u \<Rightarrow> if u = [] then base else jm_set base ''fullDataUrl'' (JStr u))"

definition applyPayloadSizeLimit :: "string \<Rightarrow> (string \<times> jsval) list \<Rightarrow> int \<Rightarrow> string option \<Rightarrow> payload_limit_result" where
  "applyPayloadSizeLimit event data maxSize template =
     (let originalSize = measurePayloadBytes event (JObj data)
      in if originalSize \<le> maxSize then
           \<lparr>plData = data, plTruncated = False, plOriginalSizeBytes = originalSize, plFinalSizeBytes = originalSize,
            plMaxSizeBytes = maxSize, plDroppedFields = []\<rparr>
         else
           (let url = buildFullDataUrl template data;
                retained = filter (\<lambda>(k, v). isSmallScalar v) data;
                dropped = map fst (filter (\<lambda>(k, v). \<not> isSmallScalar v) data);
                first = build_truncated originalSize maxSize url dropped retained;
                minimal = filter (\<lambda>(k, v). k \<in> set IDENTIFYING_FIELDS) retained;
                dropped2 = dropped @ map fst (filter (\<lambda>(k, v). k \<notin> set IDENTIFYING_FIELDS) retained);
                (result, gone) = (if measurePayloadBytes event (JObj first) > maxSize
                                  then (build_truncated originalSize maxSize url dropped2 minimal, dropped2)
                                  else (first, dropped))
            in \<lparr>plData = result, plTruncated = True, plOriginalSizeBytes = originalSize,
                plFinalSizeBytes = measurePayloadBytes event (JObj result), plMaxSizeBytes = maxSize, plDroppedFields = gone\<rparr>))"

section \<open>The worker pool\<close>

text \<open>\<open>wpStarted\<close> records the tasks in the order in which they are started.\<close>

record 'a worker_pool =
  wpConcurrency :: nat
  wpQueue :: "'a list"
  wpRunning :: nat
  wpStarted :: "'a list"

definition new_pool :: "int \<Rightarrow> (service_error, 'a worker_pool) res" where
  "new_pool concurrency =
     (if concurrency < 1 then Inl (PlainError ''WorkerPool concurrency must be >= 1'')
      else Inr \<lparr>wpConcurrency = nat concurrency, wpQueue = [], wpRunning = 0, wpStarted = []\<rparr>)"

function wp_drain :: "'a worker_pool \<Rightarrow> 'a worker_pool" where
  "wp_drain p =
     (if wpRunning p < wpConcurrency p \<and> wpQueue p \<noteq> [] then
        wp_drain (p\<lparr>wpQueue := tl (wpQueue p), wpRunning := wpRunning p + 1, wpStarted := wpStarted p @ [hd (wpQueue p)]\<rparr>)
      else p)"
  by pat_completeness auto
termination by (relation "measure (\<lambda>p. length (wpQueue p))") auto

declare wp_drain.simps [simp del]

definition wp_enqueue :: "'a \<Rightarrow> 'a worker_pool \<Rightarrow> 'a worker_pool" where
  "wp_enqueue task p = wp_drain (p\<lparr>wpQueue := wpQueue p @ [task]\<rparr>)"

text \<open>A task settles.\<close>

definition wp_finish :: "'a worker_pool \<Rightarrow> 'a worker_pool" where
  "wp_finish p = wp_drain (p\<lparr>wpRunning := wpRunning p - 1\<rparr>)"

definition getQueueDepth :: "'a worker_pool \<Rightarrow> nat" where
  "getQueueDepth p = length (wpQueue p)"

definition parseWorkerConcurrency :: "string option \<Rightarrow> (service_error, int) res" where
  "parseWorkerConcurrency raw =
     (let value = rev (dropWhile is_space (rev (dropWhile is_space (case raw of Some s \<Rightarrow> if s = [] then ''10'' else s | None \<Rightarrow> ''10''))))
      in case parse_int10 value of
           Some n \<Rightarrow> if value \<noteq> [] \<and> list_all is_digit value \<and> n \<ge> 1 then Inr n
                     else Inl (PlainError ''WEBHOOK_WORKER_CONCURRENCY must be a positive integer'')
         | None \<Rightarrow> Inl (PlainError ''WEBHOOK_WORKER_CONCURRENCY must be a positive integer''))"

section \<open>A delivery\<close>

text \<open>The answer to a POST: accepted with a status, with the error of writing the subscription's last trigger afterwards, if
  that failed; or refused with the status of the response, if there was one.\<close>

datatype post_result = Posted int "string option" | PostFailed "int option" string

record delivery_result =
  drSuccess :: bool
  drStatusCode :: "int option"
  drAttempts :: nat
  drError :: "string option"

record delivery_config =
  dcMaxRetries :: nat
  dcRetryDelayMs :: int
  dcCompressionThreshold :: int
  dcMaxPayloadBytes :: int
  dcUrlTemplate :: "string option"
  dcRateMax :: int
  dcBreaker :: cb_options

text \<open>The retry loop from an attempt on: \<open>post\<close> answers by attempt and by whether the body is compressed. It returns the result,
  the compression of the bodies sent and the delays waited for. \<open>st\<close> is \<open>None\<close> for a status of 0.\<close>

function deliver_loop ::
  "nat \<Rightarrow> int \<Rightarrow> bool \<Rightarrow> (nat \<Rightarrow> bool \<Rightarrow> post_result) \<Rightarrow> nat \<Rightarrow> bool \<Rightarrow> delivery_result \<Rightarrow> bool list \<Rightarrow> int list
     \<Rightarrow> delivery_result \<times> bool list \<times> int list" where
  "deliver_loop maxRetries delay useCompression post attempt disabled r sends delays =
     (if attempt > maxRetries then (r, sends, delays)
      else
        (let compressed = useCompression \<and> \<not> disabled;
             sends1 = sends @ [compressed]
         in case post attempt compressed of
              Posted st None \<Rightarrow> (r\<lparr>drAttempts := attempt, drStatusCode := Some st, drSuccess := True, drError := None\<rparr>, sends1, delays)
            | answer \<Rightarrow>
                (let (status, r1) =
                       (case answer of
                          Posted st e \<Rightarrow> (None, r\<lparr>drAttempts := attempt, drStatusCode := None, drSuccess := True, drError := e\<rparr>)
                        | PostFailed st msg \<Rightarrow>
                            (let st' = (if st = Some 0 then None else st)
                             in (st', r\<lparr>drAttempts := attempt, drStatusCode := st', drError := Some msg\<rparr>)))
                 in if status = Some 415 \<and> useCompression \<and> \<not> disabled then
                      deliver_loop maxRetries delay useCompression post (attempt + 1) True r1 sends1 delays
                    else if (case status of Some n \<Rightarrow> n \<ge> 400 \<and> n < 500 | None \<Rightarrow> False) then (r1, sends1, delays)
                    else
                      deliver_loop maxRetries delay useCompression post (attempt + 1) disabled r1 sends1
                        (if attempt < maxRetries then delays @ [delay * 2 ^ (attempt - 1)] else delays))))"
  by pat_completeness auto
termination by (relation "measure (\<lambda>(maxRetries, delay, useCompression, post, attempt, disabled, r, sends, delays). maxRetries + 1 - attempt)") auto

declare deliver_loop.simps [simp del]

definition initial_result :: delivery_result where
  "initial_result = \<lparr>drSuccess = False, drStatusCode = None, drAttempts = 0, drError = None\<rparr>"

text \<open>What a delivery meets: the time, the answers, whether compressing, the log and the dead-letter store work, and the ids of the rows.\<close>

record delivery_env =
  deNow :: int
  dePost :: "nat \<Rightarrow> bool \<Rightarrow> post_result"
  deGzipOk :: bool
  deLogOk :: bool
  deDeadOk :: bool
  deLogId :: string
  deDeadId :: string

text \<open>Whether the last POST was accepted and its time written.\<close>

definition touched :: "delivery_result \<Rightarrow> bool" where
  "touched r \<longleftrightarrow> drSuccess r \<and> drError r = None"

text \<open>The function that the circuit breaker executes, for a body that is signed already.\<close>

definition deliver_body ::
  "delivery_config \<Rightarrow> delivery_env \<Rightarrow> subscription \<Rightarrow> string \<Rightarrow> string \<Rightarrow> webhook_db \<Rightarrow> webhook_db \<times> (service_error, delivery_result) res" where
  "deliver_body cfg env sub event rawBody db =
     (let useCompression = int (length rawBody) \<ge> dcCompressionThreshold cfg
      in if useCompression \<and> \<not> deGzipOk env then (db, Inl (PlainError ''gzip''))
         else
           (case deliver_loop (dcMaxRetries cfg) (dcRetryDelayMs cfg) useCompression (dePost env) 1 False initial_result [] [] of
              (r, _, _) \<Rightarrow>
                (let db1 = (if touched r then updateLastTriggered (deNow env) (wsId sub) db else db)
                 in case logDelivery (deLogOk env) (deNow env) (deLogId env) (wsId sub) event rawBody (drStatusCode r) (drSuccess r)
                           (int (drAttempts r)) (drError r) db1 of
                      (Inl e, db2) \<Rightarrow> (db2, Inl e)
                    | (Inr _, db2) \<Rightarrow>
                        if \<not> drSuccess r \<and> drAttempts r \<ge> dcMaxRetries cfg then
                          (snd (storeDeadLetter (deDeadOk env) (deNow env) (deDeadId env) (wsId sub) event rawBody (drStatusCode r)
                                  (drError r) (int (drAttempts r)) db2), Inr r)
                        else (db2, Inr r))))"

text \<open>The tenant's limit in Redis: no Redis is configured, or the count of the window, or a failing call.\<close>

datatype window_count = NoRedis | Counted int | RedisFails

definition isWithinTenantRateLimit :: "int \<Rightarrow> window_count \<Rightarrow> bool" where
  "isWithinTenantRateLimit rateMax w = (case w of Counted n \<Rightarrow> n \<le> rateMax | _ \<Rightarrow> True)"

definition rate_limited_result :: delivery_result where
  "rate_limited_result = \<lparr>drSuccess = False, drStatusCode = None, drAttempts = 0, drError = Some ''Rate limited''\<rparr>"

datatype delivery_failure = HeadersFailed service_error | BreakerFailed "service_error cb_error"

text \<open>\<open>w1\<close> and \<open>w2\<close> are the counts of the two checks. The wait for the tenant's token bucket, which never rejects, is not a step here.\<close>

definition deliverWebhook ::
  "delivery_config \<Rightarrow> (string \<Rightarrow> string \<Rightarrow> string) \<Rightarrow> 'k aead \<Rightarrow> string option \<Rightarrow> string \<Rightarrow> window_count \<Rightarrow> window_count \<Rightarrow> delivery_env
     \<Rightarrow> subscription \<Rightarrow> string \<Rightarrow> (string \<times> jsval) list \<Rightarrow> webhook_db \<times> breaker
     \<Rightarrow> (webhook_db \<times> breaker) \<times> (delivery_failure, delivery_result) res" where
  "deliverWebhook cfg hmac A rawKey isoTime w1 w2 env sub event data st =
     (if \<not> isWithinTenantRateLimit (dcRateMax cfg) w1 \<and> \<not> isWithinTenantRateLimit (dcRateMax cfg) w2
      then (st, Inr rate_limited_result)
      else
        (let limited = applyPayloadSizeLimit event data (dcMaxPayloadBytes cfg) (dcUrlTemplate cfg);
             payload = snd (createPayload hmac isoTime (deNow env) event (JObj (plData limited)) (wsSecret sub));
             rawBody = (case js_stringify payload of Some s \<Rightarrow> s | None \<Rightarrow> [])
         in case resolveCustomHeaders A rawKey (Some (wsCustomHeaders sub)) of
              Inl e \<Rightarrow> (st, Inl (HeadersFailed e))
            | Inr _ \<Rightarrow>
                (case cb_execute (dcBreaker cfg) (deNow env) (deNow env) (deliver_body cfg env sub event rawBody) st of
                   (st1, Inl e) \<Rightarrow> (st1, Inl (BreakerFailed e))
                 | (st1, Inr r) \<Rightarrow> (st1, Inr r))))"

text \<open>\<open>triggerEvent\<close>: a task for every matching subscription, by its id.\<close>

definition triggerEvent :: "string \<Rightarrow> string option \<Rightarrow> webhook_db \<Rightarrow> string worker_pool \<Rightarrow> string worker_pool" where
  "triggerEvent event token db pool = fold wp_enqueue (map wsId (findMatchingSubscriptions event token db)) pool"

definition testWebhook :: "post_result \<Rightarrow> bool" where
  "testWebhook answer = (case answer of Posted st _ \<Rightarrow> st \<ge> 200 \<and> st < 300 | PostFailed _ _ \<Rightarrow> False)"

section \<open>Administration of dead letters\<close>

datatype admin_response = Ok200 | NotFound404 | AlreadyResolved409 | Poison409 | DeliveryFailed502 | Error500

text \<open>\<open>parse\<close> is \<open>JSON.parse\<close> of the entry's payload as the driver returns it, \<open>None\<close> for a thrown error; the delivery is
  that of the service for the given subscription and data.\<close>

definition payload_data :: "jsval \<Rightarrow> (string \<times> jsval) list" where
  "payload_data p = (case (if js_truthy (js_prop p ''data'') then js_prop p ''data'' else p) of JObj m \<Rightarrow> m | _ \<Rightarrow> [])"

definition retry_route ::
  "(string \<Rightarrow> jsval option)
     \<Rightarrow> (subscription \<Rightarrow> string \<Rightarrow> (string \<times> jsval) list \<Rightarrow> webhook_db \<times> breaker \<Rightarrow> (webhook_db \<times> breaker) \<times> (delivery_failure, delivery_result) res)
     \<Rightarrow> int \<Rightarrow> string \<Rightarrow> webhook_db \<times> breaker \<Rightarrow> (webhook_db \<times> breaker) \<times> admin_response" where
  "retry_route parse deliver now i st =
     (case getEntry i (fst st) of
        None \<Rightarrow> (st, NotFound404)
      | Some d \<Rightarrow>
          if dlResolvedAt d \<noteq> None then (st, AlreadyResolved409)
          else
            (case getSubscription (dlSubscriptionId d) False (fst st) of
               None \<Rightarrow> (st, NotFound404)
             | Some sub \<Rightarrow>
                 (case parse (dlPayload d) of
                    None \<Rightarrow> (st, Error500)
                  | Some p \<Rightarrow>
                      (case deliver sub (dlEvent d) (payload_data p) st of
                         (st1, Inl _) \<Rightarrow> (st1, Error500)
                       | (st1, Inr r) \<Rightarrow>
                           if \<not> drSuccess r then (st1, DeliveryFailed502)
                           else ((snd (markResolved now i ''retried'' (fst st1)), snd st1), Ok200)))))"

definition requeue_route ::
  "bool \<Rightarrow> (string \<Rightarrow> jsval option)
     \<Rightarrow> (subscription \<Rightarrow> string \<Rightarrow> (string \<times> jsval) list \<Rightarrow> webhook_db \<times> breaker \<Rightarrow> (webhook_db \<times> breaker) \<times> (delivery_failure, delivery_result) res)
     \<Rightarrow> int \<Rightarrow> string \<Rightarrow> webhook_db \<times> breaker \<Rightarrow> (webhook_db \<times> breaker) \<times> admin_response" where
  "requeue_route column parse deliver now i st =
     (case getEntry i (fst st) of
        None \<Rightarrow> (st, NotFound404)
      | Some d \<Rightarrow>
          if dlResolvedAt d \<noteq> None then (st, AlreadyResolved409)
          else
            (case requeueDeadLetter column now i (fst st) of
               (Inl (PoisonMessage _), db1) \<Rightarrow> ((db1, snd st), Poison409)
             | (Inl _, db1) \<Rightarrow> ((db1, snd st), Error500)
             | (Inr requeued, db1) \<Rightarrow>
                 (case getSubscription (dlSubscriptionId requeued) False db1 of
                    None \<Rightarrow> ((db1, snd st), NotFound404)
                  | Some sub \<Rightarrow>
                      (case parse (dlPayload requeued) of
                         None \<Rightarrow> ((db1, snd st), Error500)
                       | Some p \<Rightarrow>
                           (case deliver sub (dlEvent requeued) (payload_data p) (db1, snd st) of
                              (st2, Inl _) \<Rightarrow> (st2, Error500)
                            | (st2, Inr r) \<Rightarrow>
                                if \<not> drSuccess r then (st2, DeliveryFailed502)
                                else ((snd (markResolved now i ''retried'' (fst st2)), snd st2), Ok200))))))"

definition discard_route :: "int \<Rightarrow> string \<Rightarrow> webhook_db \<Rightarrow> webhook_db \<times> admin_response" where
  "discard_route now i db =
     (case getEntry i db of
        None \<Rightarrow> (db, NotFound404)
      | Some d \<Rightarrow> if dlResolvedAt d \<noteq> None then (db, AlreadyResolved409) else (snd (markResolved now i ''archived'' db), Ok200))"

section \<open>The size limit: properties\<close>

definition MARKERS :: "string list" where
  "MARKERS = [''truncated'', ''originalSizeBytes'', ''maxSizeBytes'', ''droppedFields'', ''fullDataUrl'']"

lemma build_truncated_get:
  "k \<notin> set MARKERS \<Longrightarrow> jm_get (build_truncated o' m u ds kept) k = jm_get kept k"
  by (auto simp: build_truncated_def MARKERS_def Let_def split: option.split)

lemma build_truncated_flag: "jm_get (build_truncated o' m u ds kept) ''truncated'' = Some (JBool True)"
  by (auto simp: build_truncated_def Let_def split: option.split)

lemma get_filter_distinct:
  "distinct (map fst m) \<Longrightarrow> jm_get (filter P m) k = (case jm_get m k of Some v \<Rightarrow> if P (k, v) then Some v else None | None \<Rightarrow> None)"
  by (induction m) (auto simp: map_of_eq_None_iff image_iff split: option.split)

lemma dropped_iff:
  "distinct (map fst m) \<Longrightarrow> k \<in> fst ` set (filter P m) \<longleftrightarrow> (\<exists>v. jm_get m k = Some v \<and> P (k, v))"
  by (force simp: map_of_eq_Some_iff)

text \<open>The size limit never loses a field silently: a payload within the limit is delivered unchanged, and one above it is
  marked as truncated, and each of its fields is either still there with its value or listed as dropped.\<close>

theorem truncation_accounts_for_fields:
  assumes "distinct (map fst data)"
  shows "let r = applyPayloadSizeLimit event data maxSize template in
    if measurePayloadBytes event (JObj data) \<le> maxSize then plData r = data \<and> \<not> plTruncated r
    else jm_get (plData r) ''truncated'' = Some (JBool True) \<and> plTruncated r \<and>
      (\<forall>k v. k \<notin> set MARKERS \<and> jm_get data k = Some v \<longrightarrow>
         (if k \<in> set (plDroppedFields r) then jm_get (plData r) k = None else jm_get (plData r) k = Some v))"
proof (cases "measurePayloadBytes event (JObj data) \<le> maxSize")
  case True
  then show ?thesis by (simp add: applyPayloadSizeLimit_def Let_def)
next
  case False
  define url where "url = buildFullDataUrl template data"
  define os where "os = measurePayloadBytes event (JObj data)"
  define retained where "retained = filter (\<lambda>(k, v). isSmallScalar v) data"
  define dropped where "dropped = map fst (filter (\<lambda>(k, v). \<not> isSmallScalar v) data)"
  define minimal where "minimal = filter (\<lambda>(k, v). k \<in> set IDENTIFYING_FIELDS) retained"
  define dropped2 where "dropped2 = dropped @ map fst (filter (\<lambda>(k, v). k \<notin> set IDENTIFYING_FIELDS) retained)"
  have dist: "distinct (map fst retained)" unfolding retained_def using assms by (rule distinct_map_filter)
  have kept: "jm_get retained k = (case jm_get data k of Some v \<Rightarrow> if isSmallScalar v then Some v else None | None \<Rightarrow> None)" for k
    unfolding retained_def by (simp add: get_filter_distinct [OF assms] split: option.split)
  have lost: "k \<in> set dropped \<longleftrightarrow> (\<exists>v. jm_get data k = Some v \<and> \<not> isSmallScalar v)" for k
    unfolding dropped_def set_map dropped_iff [OF assms] by simp
  have kept2: "jm_get minimal k = (if k \<in> set IDENTIFYING_FIELDS then jm_get retained k else None)" for k
    unfolding minimal_def by (simp add: get_filter_distinct [OF dist] split: option.split)
  have lost2: "k \<in> set dropped2 \<longleftrightarrow> k \<in> set dropped \<or> (k \<notin> set IDENTIFYING_FIELDS \<and> jm_get retained k \<noteq> None)" for k
    unfolding dropped2_def set_append set_map Un_iff dropped_iff [OF dist] by auto
  have first: "if k \<in> set dropped then jm_get retained k = None else jm_get retained k = Some v" if "jm_get data k = Some v" for k v
    using that by (simp add: kept lost)
  have second: "if k \<in> set dropped2 then jm_get minimal k = None else jm_get minimal k = Some v" if "jm_get data k = Some v" for k v
    using that by (simp add: kept2 lost2 kept lost)
  define r where "r = applyPayloadSizeLimit event data maxSize template"
  have "plTruncated r \<and> ((plData r = build_truncated os maxSize url dropped retained \<and> plDroppedFields r = dropped)
      \<or> (plData r = build_truncated os maxSize url dropped2 minimal \<and> plDroppedFields r = dropped2))"
    using False unfolding r_def applyPayloadSizeLimit_def Let_def url_def [symmetric] os_def [symmetric] retained_def [symmetric]
      dropped_def [symmetric] minimal_def [symmetric] dropped2_def [symmetric] by simp
  then have "jm_get (plData r) ''truncated'' = Some (JBool True) \<and> plTruncated r \<and>
      (\<forall>k v. k \<notin> set MARKERS \<and> jm_get data k = Some v \<longrightarrow>
         (if k \<in> set (plDroppedFields r) then jm_get (plData r) k = None else jm_get (plData r) k = Some v))"
  proof (elim conjE disjE)
    assume "plTruncated r" "plData r = build_truncated os maxSize url dropped retained" "plDroppedFields r = dropped"
    then show ?thesis using first by (simp add: build_truncated_flag build_truncated_get)
  next
    assume "plTruncated r" "plData r = build_truncated os maxSize url dropped2 minimal" "plDroppedFields r = dropped2"
    then show ?thesis using second by (simp add: build_truncated_flag build_truncated_get)
  qed
  then show ?thesis using False unfolding r_def [symmetric] Let_def by simp
qed

theorem truncation_accounts_for_fields_witness:
  "plData (applyPayloadSizeLimit ''e'' [(''a'', JNum 1)] 1000 None) = [(''a'', JNum 1)]"
proof -
  have "measurePayloadBytes ''e'' (JObj [(''a'', JNum 1)]) \<le> 1000" by code_simp
  then show ?thesis using truncation_accounts_for_fields [of "[(''a'', JNum 1)]" "''e''" 1000 None] by (simp add: Let_def)
qed

text \<open>The limit is not enforced when the identifying fields or the names of the dropped ones are larger than it.\<close>

lemma limit_not_enforced:
  "plFinalSizeBytes (applyPayloadSizeLimit ''e'' [(''a'', JNum 1)] 100 None) > 100"
  by code_simp

section \<open>The worker pool: properties\<close>

lemma wp_drain_eq:
  "wp_drain p = (let n = min (wpConcurrency p - wpRunning p) (length (wpQueue p))
     in p\<lparr>wpQueue := drop n (wpQueue p), wpRunning := wpRunning p + n, wpStarted := wpStarted p @ take n (wpQueue p)\<rparr>)"
proof (induction p rule: wp_drain.induct)
  case (1 p)
  show ?case
  proof (cases "wpRunning p < wpConcurrency p \<and> wpQueue p \<noteq> []")
    case True
    then obtain x xs where q: "wpQueue p = x # xs" by (cases "wpQueue p") auto
    obtain k where k: "wpConcurrency p - wpRunning p = Suc k" using True by (cases "wpConcurrency p - wpRunning p") auto
    then have k': "wpConcurrency p - Suc (wpRunning p) = k" by simp
    show ?thesis
      using 1 True by (subst wp_drain.simps) (simp add: q Let_def k k')
  next
    case False
    then have "wpConcurrency p - wpRunning p = 0 \<or> wpQueue p = []" by auto
    then show ?thesis using False by (subst wp_drain.simps) (auto simp: Let_def)
  qed
qed

datatype 'a pool_op = Enqueue 'a | Finish

fun pool_step :: "'a pool_op \<Rightarrow> 'a worker_pool \<Rightarrow> 'a worker_pool" where
  "pool_step (Enqueue t) p = wp_enqueue t p"
| "pool_step Finish p = (if wpRunning p > 0 then wp_finish p else p)"

definition enqueued :: "'a pool_op list \<Rightarrow> 'a list" where
  "enqueued ops = concat (map (\<lambda>op. case op of Enqueue t \<Rightarrow> [t] | Finish \<Rightarrow> []) ops)"

definition pool_inv :: "nat \<Rightarrow> 'a list \<Rightarrow> 'a worker_pool \<Rightarrow> bool" where
  "pool_inv c tasks p \<longleftrightarrow> wpConcurrency p = c \<and> wpRunning p \<le> c \<and> wpStarted p @ wpQueue p = tasks
     \<and> (wpQueue p \<noteq> [] \<longrightarrow> wpRunning p = c)"

lemma drain_inv:
  assumes "wpConcurrency p = c" and "wpRunning p \<le> c" and "wpStarted p @ wpQueue p = tasks"
  shows "pool_inv c tasks (wp_drain p)"
  using assms by (auto simp: pool_inv_def wp_drain_eq Let_def min_def split: if_splits)

text \<open>The worker pool runs at most its configured number of tasks at once, starts every task exactly once in the order of the
  calls, and never leaves a slot free while a task is waiting.\<close>

theorem pool_bounded_fifo:
  assumes "new_pool n = Inr p0"
  shows "pool_inv (nat n) (enqueued ops) (fold pool_step ops p0)"
proof (induction ops rule: rev_induct)
  case Nil
  then show ?case using assms by (auto simp: new_pool_def pool_inv_def enqueued_def split: if_splits)
next
  case (snoc op ops)
  define p where "p = fold pool_step ops p0"
  have p: "pool_inv (nat n) (enqueued ops) p" using snoc by (simp add: p_def)
  have "pool_inv (nat n) (enqueued (ops @ [op])) (pool_step op p)"
  proof (cases op)
    case (Enqueue t)
    then show ?thesis
      unfolding Enqueue pool_step.simps wp_enqueue_def
      by (intro drain_inv) (use p in \<open>auto simp: pool_inv_def enqueued_def\<close>)
  next
    case Finish
    have "pool_inv (nat n) (enqueued ops) (wp_drain (p\<lparr>wpRunning := wpRunning p - 1\<rparr>))"
      by (intro drain_inv) (use p in \<open>auto simp: pool_inv_def\<close>)
    then show ?thesis using p by (simp add: Finish wp_finish_def enqueued_def)
  qed
  then show ?case by (simp add: p_def)
qed

theorem pool_bounded_fifo_witness:
  "wpStarted (fold pool_step [Enqueue ''a'', Enqueue ''b'', Finish] \<lparr>wpConcurrency = 1, wpQueue = [], wpRunning = 0, wpStarted = []\<rparr>)
     @ wpQueue (fold pool_step [Enqueue ''a'', Enqueue ''b'', Finish] \<lparr>wpConcurrency = 1, wpQueue = [], wpRunning = 0, wpStarted = []\<rparr>)
   = [''a'', ''b'']"
  using pool_bounded_fifo [of 1 "\<lparr>wpConcurrency = 1, wpQueue = [], wpRunning = 0, wpStarted = []\<rparr>" "[Enqueue ''a'', Enqueue ''b'', Finish]"]
  by (simp add: new_pool_def pool_inv_def enqueued_def)

section \<open>The retry loop: properties\<close>

definition accepted :: "post_result \<Rightarrow> bool" where
  "accepted answer \<longleftrightarrow> (case answer of Posted _ _ \<Rightarrow> True | PostFailed _ _ \<Rightarrow> False)"

text \<open>One turn: it ends, or goes on with the next attempt.\<close>

lemma deliver_loop_turn:
  assumes "a \<le> M"
  shows "\<exists>r1 dis1 delays1. drAttempts r1 = a \<and> (drSuccess r1 \<longleftrightarrow> drSuccess r \<or> accepted (post a (u \<and> \<not> dis)))
    \<and> (delays1 = delays \<or> (a < M \<and> delays1 = delays @ [d * 2 ^ (a - 1)]))
    \<and> (deliver_loop M d u post a dis r sends delays = (r1, sends @ [u \<and> \<not> dis], delays)
       \<or> deliver_loop M d u post a dis r sends delays = deliver_loop M d u post (a + 1) dis1 r1 (sends @ [u \<and> \<not> dis]) delays1)"
proof -
  note eq = deliver_loop.simps [of M d u post a dis r sends delays]
  have le: "\<not> a > M" using assms by simp
  show ?thesis
  proof (cases "post a (u \<and> \<not> dis)")
    case (Posted st b)
    show ?thesis
    proof (cases b)
      case None
      show ?thesis
        by (rule exI [of _ "r\<lparr>drAttempts := a, drStatusCode := Some st, drSuccess := True, drError := None\<rparr>"],
            rule exI [of _ dis], rule exI [of _ delays])
           (use Posted None le in \<open>simp add: eq Let_def accepted_def\<close>)
    next
      case (Some e)
      show ?thesis
        by (rule exI [of _ "r\<lparr>drAttempts := a, drStatusCode := None, drSuccess := True, drError := Some e\<rparr>"],
            rule exI [of _ dis], rule exI [of _ "if a < M then delays @ [d * 2 ^ (a - 1)] else delays"])
           (use Posted Some le in \<open>simp add: eq Let_def accepted_def\<close>)
    qed
  next
    case (PostFailed st msg)
    define st' where "st' = (if st = Some 0 then None else st)"
    define r1 where "r1 = r\<lparr>drAttempts := a, drStatusCode := st', drError := Some msg\<rparr>"
    show ?thesis
    proof (cases "st' = Some 415 \<and> u \<and> \<not> dis")
      case True
      show ?thesis
        by (rule exI [of _ r1], rule exI [of _ True], rule exI [of _ delays])
           (use PostFailed True le in \<open>auto simp: eq deliver_loop.simps [of M d True post a False r sends delays]
              Let_def accepted_def st'_def [symmetric] r1_def\<close>)
    next
      case False
      show ?thesis
        by (rule exI [of _ r1], rule exI [of _ dis], rule exI [of _ "if a < M then delays @ [d * 2 ^ (a - 1)] else delays"])
           (use PostFailed False le in \<open>auto simp: eq Let_def accepted_def st'_def [symmetric] r1_def\<close>)
    qed
  qed
qed

definition loop_ok :: "nat \<Rightarrow> int \<Rightarrow> (nat \<Rightarrow> bool \<Rightarrow> post_result) \<Rightarrow> delivery_result \<times> bool list \<times> int list \<Rightarrow> bool" where
  "loop_ok M d post out \<longleftrightarrow> (case out of (r, sends, delays) \<Rightarrow>
     length sends = drAttempts r \<and> drAttempts r \<le> M
     \<and> (drSuccess r \<longleftrightarrow> (\<exists>k<length sends. accepted (post (Suc k) (sends ! k)))) \<and> sum_list delays \<le> d * (2 ^ (M - 1) - 1))"

lemma accepted_snoc:
  "(\<exists>k<length (xs @ [b]). P (Suc k) ((xs @ [b]) ! k)) \<longleftrightarrow> (\<exists>k<length xs. P (Suc k) (xs ! k)) \<or> P (Suc (length xs)) b"
  by (simp add: Ex_less_Suc nth_append disj_commute cong: conj_cong)

lemma deliver_loop_ok:
  assumes "1 \<le> a" and "a \<le> M + 1" and "drAttempts r = a - 1" and "length sends = a - 1" and "0 \<le> d"
    and "drSuccess r \<longleftrightarrow> (\<exists>k<length sends. accepted (post (Suc k) (sends ! k)))"
    and "sum_list delays \<le> d * (2 ^ (min a M - 1) - 1)"
  shows "loop_ok M d post (deliver_loop M d u post a dis r sends delays)"
  using assms
proof (induction "M + 1 - a" arbitrary: a dis r sends delays)
  case 0
  then have "a = M + 1" by simp
  then show ?case using 0 by (simp add: deliver_loop.simps loop_ok_def)
next
  case (Suc n)
  then have le: "a \<le> M" by simp
  obtain r1 dis1 delays1 where t: "drAttempts r1 = a" "drSuccess r1 \<longleftrightarrow> drSuccess r \<or> accepted (post a (u \<and> \<not> dis))"
    "delays1 = delays \<or> (a < M \<and> delays1 = delays @ [d * 2 ^ (a - 1)])"
    and step: "deliver_loop M d u post a dis r sends delays = (r1, sends @ [u \<and> \<not> dis], delays)
       \<or> deliver_loop M d u post a dis r sends delays = deliver_loop M d u post (a + 1) dis1 r1 (sends @ [u \<and> \<not> dis]) delays1"
    using deliver_loop_turn [OF le, of r post u dis delays d sends] by (elim exE conjE) (rule that)
  have succ: "drSuccess r1 \<longleftrightarrow> (\<exists>k<length (sends @ [u \<and> \<not> dis]). accepted (post (Suc k) ((sends @ [u \<and> \<not> dis]) ! k)))"
    unfolding accepted_snoc [of "sends" "u \<and> \<not> dis" "\<lambda>k b. accepted (post k b)"]
    using Suc.prems(1,4,6) t(2) by simp
  have mono: "d * (2 ^ i - 1) \<le> d * (2 ^ j - 1)" if "i \<le> j" for i j :: nat
  proof -
    have "(2::int) ^ i \<le> 2 ^ j" using that by (simp add: power_increasing)
    then show ?thesis using Suc.prems(5) by (intro mult_left_mono) linarith+
  qed
  have sum1: "sum_list delays1 \<le> d * (2 ^ (min (a + 1) M - 1) - 1)"
    using t(3)
  proof (elim disjE conjE)
    assume "delays1 = delays"
    then show ?thesis using Suc.prems(7) order_trans [OF Suc.prems(7) mono [of "min a M - 1" "min (a + 1) M - 1"]] by simp
  next
    assume b: "a < M" "delays1 = delays @ [d * 2 ^ (a - 1)]"
    have "(2::int) ^ a = 2 * 2 ^ (a - 1)" using Suc.prems(1) by (cases a) simp_all
    then have "d * (2 ^ a - 1) = d * (2 ^ (a - 1) - 1) + d * 2 ^ (a - 1)" by (simp add: algebra_simps)
    then show ?thesis using Suc.prems(7) b by (simp add: min_def)
  qed
  from step show ?case
  proof
    assume "deliver_loop M d u post a dis r sends delays = (r1, sends @ [u \<and> \<not> dis], delays)"
    moreover have "sum_list delays \<le> d * (2 ^ (M - 1) - 1)"
      using Suc.prems(7) mono [of "min a M - 1" "M - 1"] by linarith
    ultimately show ?thesis using t(1) succ Suc.prems(1,4) le by (simp add: loop_ok_def)
  next
    assume "deliver_loop M d u post a dis r sends delays = deliver_loop M d u post (a + 1) dis1 r1 (sends @ [u \<and> \<not> dis]) delays1"
    moreover have "loop_ok M d post (deliver_loop M d u post (a + 1) dis1 r1 (sends @ [u \<and> \<not> dis]) delays1)"
    proof (rule Suc.hyps(1))
      show "n = M + 1 - (a + 1)" using Suc.hyps(2) by simp
      show "length (sends @ [u \<and> \<not> dis]) = a + 1 - 1" using Suc.prems(1,4) by simp
    qed (use succ sum1 le t(1) Suc.prems(5) in simp_all)
    ultimately show ?thesis by simp
  qed
qed

text \<open>C23: A delivery ends after at most the configured number of attempts: it sends one POST per attempt, reports success exactly when one of
  them was accepted, and waits no longer than the back-off doubled for each attempt but the last adds up to.\<close>

theorem delivery_attempts_bounded:
  assumes "0 \<le> d" and "deliver_loop M d u post 1 False initial_result [] [] = (r, sends, delays)"
  shows "length sends = drAttempts r \<and> drAttempts r \<le> M
    \<and> (drSuccess r \<longleftrightarrow> (\<exists>k<length sends. accepted (post (Suc k) (sends ! k)))) \<and> sum_list delays \<le> d * (2 ^ (M - 1) - 1)"
  using deliver_loop_ok [of 1 M initial_result "[]" d post "[]" u False] assms
  by (simp add: initial_result_def loop_ok_def)

theorem delivery_attempts_bounded_witness:
  "drSuccess (fst (deliver_loop 3 1000 False (\<lambda>a _. if a = 2 then Posted 200 None else PostFailed (Some 500) ''e'') 1 False initial_result [] []))"
proof -
  have out: "deliver_loop 3 1000 False (\<lambda>a _. if a = 2 then Posted 200 None else PostFailed (Some 500) ''e'') 1 False initial_result [] []
      = (\<lparr>drSuccess = True, drStatusCode = Some 200, drAttempts = 2, drError = None\<rparr>, [False, False], [1000])"
    by code_simp
  from delivery_attempts_bounded [OF _ out] show ?thesis unfolding out by simp
qed

section \<open>The record of a delivery\<close>

lemma updateLastTriggered_keeps:
  "wdLogs (updateLastTriggered now i db) = wdLogs db"
  "wdDeadLetters (updateLastTriggered now i db) = wdDeadLetters db"
  "wsId ` set (wdSubscriptions (updateLastTriggered now i db)) = wsId ` set (wdSubscriptions db)"
proof -
  have "map wsId (wdSubscriptions (updateLastTriggered now i db)) = map wsId (wdSubscriptions db)"
    by (simp add: updateLastTriggered_def update_subs_def)
  then show "wsId ` set (wdSubscriptions (updateLastTriggered now i db)) = wsId ` set (wdSubscriptions db)"
    by (metis set_map)
qed (simp_all add: updateLastTriggered_def update_subs_def)


definition demo_delivery_config :: delivery_config where
  "demo_delivery_config = \<lparr>dcMaxRetries = 3, dcRetryDelayMs = 1000, dcCompressionThreshold = 10, dcMaxPayloadBytes = 1000, dcUrlTemplate = None,
     dcRateMax = 10, dcBreaker = \<lparr>failureThreshold = 5, successThreshold = 2, timeoutMs = 60000\<rparr>\<rparr>"

definition demo_delivery :: "(nat \<Rightarrow> bool \<Rightarrow> post_result) \<Rightarrow> delivery_env" where
  "demo_delivery post = \<lparr>deNow = 0, dePost = post, deGzipOk = True, deLogOk = True, deDeadOk = True, deLogId = ''l'', deDeadId = ''d''\<rparr>"

lemma demo_exhausted:
  "deliver_body demo_delivery_config (demo_delivery (\<lambda>a c. PostFailed (Some 500) ''e'')) demo_sub ''token.x'' ''{}'' demo_hooks =
     (demo_hooks\<lparr>wdLogs := [\<lparr>dgId = ''l'', dgSubscriptionId = ''s'', dgEvent = ''token.x'', dgPayload = ''{}'', dgStatusCode = Some 500,
          dgSuccess = False, dgAttempts = 3, dgErrorMessage = Some ''e'', dgCreatedAt = 0\<rparr>],
        wdDeadLetters := [\<lparr>dlId = ''d'', dlSubscriptionId = ''s'', dlEvent = ''token.x'', dlPayload = ''{}'', dlStatusCode = Some 500,
          dlLastError = Some ''e'', dlAttemptCount = 3, dlRequeueCount = 0, dlCreatedAt = 0, dlUpdatedAt = 0, dlResolvedAt = None,
          dlResolution = None\<rparr>]\<rparr>,
      Inr \<lparr>drSuccess = False, drStatusCode = Some 500, drAttempts = 3, drError = Some ''e''\<rparr>)"
  by code_simp


section \<open>The circuit breaker of the deliveries\<close>

text \<open>A delivery to make: its checks of the limit, its environment, its subscription, event and data.\<close>

type_synonym delivery_call = "window_count \<times> window_count \<times> delivery_env \<times> subscription \<times> string \<times> (string \<times> jsval) list"

fun run_delivery ::
  "delivery_config \<Rightarrow> (string \<Rightarrow> string \<Rightarrow> string) \<Rightarrow> 'k aead \<Rightarrow> string option \<Rightarrow> string \<Rightarrow> delivery_call \<Rightarrow> webhook_db \<times> breaker \<Rightarrow> webhook_db \<times> breaker" where
  "run_delivery cfg hmac A rawKey isoTime (w1, w2, env, sub, event, data) st =
     fst (deliverWebhook cfg hmac A rawKey isoTime w1 w2 env sub event data st)"

definition works_for :: "webhook_db \<Rightarrow> delivery_call \<Rightarrow> bool" where
  "works_for db c \<longleftrightarrow> (case c of (w1, w2, env, sub, event, data) \<Rightarrow>
     deLogOk env \<and> deGzipOk env \<and> wsId sub \<in> wsId ` set (wdSubscriptions db))"

lemma deliver_body_returns:
  assumes "deLogOk env" and "deGzipOk env" and "wsId sub \<in> wsId ` set (wdSubscriptions db)"
  shows "\<exists>db' r. deliver_body cfg env sub event rawBody db = (db', Inr r)
    \<and> wsId ` set (wdSubscriptions db') = wsId ` set (wdSubscriptions db)"
  using assms
  by (auto simp: deliver_body_def Let_def logDelivery_def storeDeadLetter_def updateLastTriggered_keeps split: prod.split)

lemma run_delivery_closed:
  assumes "works_for db c" and "cbState b = Closed"
  shows "\<exists>db' b'. run_delivery cfg hmac A rawKey isoTime c (db, b) = (db', b') \<and> cbState b' = Closed
    \<and> wsId ` set (wdSubscriptions db') = wsId ` set (wdSubscriptions db)"
proof -
  obtain w1 w2 env sub event data where c: "c = (w1, w2, env, sub, event, data)" by (cases c) auto
  note body = deliver_body_returns [of env sub db cfg event]
  show ?thesis
  proof (cases "\<not> isWithinTenantRateLimit (dcRateMax cfg) w1 \<and> \<not> isWithinTenantRateLimit (dcRateMax cfg) w2")
    case True
    then show ?thesis using assms(2) by (simp add: c deliverWebhook_def)
  next
    case False
    define limited where "limited = applyPayloadSizeLimit event data (dcMaxPayloadBytes cfg) (dcUrlTemplate cfg)"
    define rawBody where "rawBody = (case js_stringify (snd (createPayload hmac isoTime (deNow env) event (JObj (plData limited)) (wsSecret sub)))
      of Some s \<Rightarrow> s | None \<Rightarrow> [])"
    obtain db' r where out: "deliver_body cfg env sub event rawBody db = (db', Inr r)"
      and ids: "wsId ` set (wdSubscriptions db') = wsId ` set (wdSubscriptions db)"
      using body [of rawBody] assms(1) by (auto simp: works_for_def c)
    show ?thesis
      using False assms(2) ids
      by (cases "resolveCustomHeaders A rawKey (Some (wsCustomHeaders sub))")
         (auto simp: c deliverWebhook_def limited_def [symmetric] rawBody_def [symmetric] Let_def cb_execute_def cb_checkState_def
            out cb_onSuccess_def)
  qed
qed

text \<open>Whatever the endpoints answer, the delivery breaker stays closed: a delivery whose attempts all fail counts as a success of the
  protected function, so only failures of the database or of the compression can open the circuit.\<close>

theorem endpoint_failures_never_trip:
  assumes "\<forall>c\<in>set calls. works_for db c" and "cbState b = Closed"
  shows "cbState (snd (fold (run_delivery cfg hmac A rawKey isoTime) calls (db, b))) = Closed"
  using assms
proof (induction calls arbitrary: db b)
  case (Cons c calls)
  obtain db' b' where step: "run_delivery cfg hmac A rawKey isoTime c (db, b) = (db', b')" "cbState b' = Closed"
    "wsId ` set (wdSubscriptions db') = wsId ` set (wdSubscriptions db)"
    using run_delivery_closed [of db c b cfg hmac A rawKey isoTime] Cons.prems by auto
  have "\<forall>c\<in>set calls. works_for db' c" using Cons.prems(1) step(3) by (auto simp: works_for_def)
  then show ?case using Cons.IH step by simp
qed simp

theorem endpoint_failures_never_trip_witness:
  "cbState (snd (fold (run_delivery demo_delivery_config (\<lambda>k m. ''h'') toy_aead None ''t'')
     (replicate 10 (NoRedis, NoRedis, demo_delivery (\<lambda>a c. PostFailed None ''ECONNREFUSED''), demo_sub, ''token.x'', []))
     (demo_hooks, new_breaker))) = Closed"
  by (rule endpoint_failures_never_trip)
     (simp_all add: works_for_def demo_delivery_def demo_hooks_def new_breaker_def)

section \<open>Cases of the retry loop\<close>

text \<open>When the write after an accepted POST fails each time, the subscriber gets the webhook on every attempt, and the delivery is reported
  as successful without a status.\<close>

lemma duplicates_after_failed_update:
  "deliver_loop 3 1000 False (\<lambda>a c. Posted 200 (Some ''db'')) 1 False initial_result [] [] =
     (\<lparr>drSuccess = True, drStatusCode = None, drAttempts = 3, drError = Some ''db''\<rparr>, [False, False, False], [1000, 2000])"
  by code_simp

text \<open>A client error ends the delivery after one attempt, without a dead letter.\<close>

lemma client_error_not_retried:
  assumes "400 \<le> n" and "n < 500" and "n \<noteq> 415" and "1 < M"
  shows "deliver_loop M d u (\<lambda>a c. PostFailed (Some n) e) 1 False initial_result [] [] =
     (\<lparr>drSuccess = False, drStatusCode = Some n, drAttempts = 1, drError = Some e\<rparr>, [u], [])"
  using assms by (auto simp: deliver_loop.simps [of M d u _ "Suc 0"] initial_result_def Let_def)

lemma client_error_not_dead_lettered:
  "wdDeadLetters (fst (deliver_body demo_delivery_config (demo_delivery (\<lambda>a c. PostFailed (Some 404) ''e'')) demo_sub ''token.x'' ''{}'' demo_hooks)) = []"
  by code_simp

text \<open>A 415 makes the next attempt uncompressed; on the last attempt there is none left.\<close>

lemma unsupported_compression_falls_back:
  "deliver_loop 3 1000 True (\<lambda>a c. if c then PostFailed (Some 415) ''e'' else Posted 200 None) 1 False initial_result [] [] =
     (\<lparr>drSuccess = True, drStatusCode = Some 200, drAttempts = 2, drError = None\<rparr>, [True, False], [])"
  by code_simp

lemma late_unsupported_compression_fails:
  "deliver_loop 3 1000 True (\<lambda>a c. if a < 3 then PostFailed None ''e'' else if c then PostFailed (Some 415) ''e'' else Posted 200 None) 1 False initial_result [] [] =
     (\<lparr>drSuccess = False, drStatusCode = Some 415, drAttempts = 3, drError = Some ''e''\<rparr>, [True, True, True], [1000, 2000])"
  by code_simp

section \<open>Deliveries that leave no trace\<close>

lemma undecryptable_headers_lose_delivery:
  assumes "resolveCustomHeaders A rawKey (Some (wsCustomHeaders sub)) = Inl e" and "isWithinTenantRateLimit (dcRateMax cfg) w1"
  shows "deliverWebhook cfg hmac A rawKey isoTime w1 w2 env sub event data st = (st, Inl (HeadersFailed e))"
  using assms by (simp add: deliverWebhook_def Let_def)

lemma open_breaker_loses_delivery:
  assumes "cbState b = Open" and "deNow env - lastFailureTime b < timeoutMs (dcBreaker cfg)" and "isWithinTenantRateLimit (dcRateMax cfg) w1"
    and "resolveCustomHeaders A rawKey (Some (wsCustomHeaders sub)) = Inr hs"
  shows "deliverWebhook cfg hmac A rawKey isoTime w1 w2 env sub event data (db, b) = ((db, b), Inl (BreakerFailed CircuitBreakerOpenError))"
  using assms by (simp add: deliverWebhook_def Let_def cb_execute_def cb_checkState_def)

section \<open>Administration: properties\<close>

text \<open>The column of the payload is JSONB, whose values the driver returns parsed; \<open>JSON.parse\<close> of such an object throws.\<close>

lemma retry_needs_text:
  assumes "getEntry i (fst st) = Some d" and "dlResolvedAt d = None" and "getSubscription (dlSubscriptionId d) False (fst st) = Some sub"
    and "parse (dlPayload d) = None"
  shows "retry_route parse deliver now i st = (st, Error500)"
  using assms by (simp add: retry_route_def)

text \<open>A retry that is refused leaves the entry unresolved, and with attempts used up there are two entries for the one event.\<close>

lemma failed_retry_adds_letter:
  assumes "parse = (\<lambda>s. Some (JObj []))"
    and "deliver = (\<lambda>sub event data st. case deliver_body demo_delivery_config ((demo_delivery (\<lambda>a c. PostFailed None ''e''))\<lparr>deDeadId := ''d2''\<rparr>) sub event ''{}'' (fst st)
      of (db, Inr r) \<Rightarrow> ((db, snd st), Inr r) | (db, Inl e) \<Rightarrow> ((db, snd st), Inl (BreakerFailed (FnError e))))"
  shows "map (\<lambda>d. (dlId d, dlResolvedAt d)) (wdDeadLetters (fst (fst (retry_route parse deliver 5 ''d''
      (demo_hooks\<lparr>wdDeadLetters := [demo_letter]\<rparr>, new_breaker))))) = [(''d'', None), (''d2'', None)]"
  unfolding assms by code_simp

lemma markResolved_marks:
  assumes "d \<in> set (wdDeadLetters (snd (markResolved now i resolution db)))" and "dlId d = i"
  shows "dlResolvedAt d = Some now \<and> dlResolution d = Some resolution"
proof -
  obtain d0 where "d = (if dlId d0 = i then d0\<lparr>dlResolvedAt := Some now, dlResolution := Some resolution, dlUpdatedAt := now\<rparr> else d0)"
    using assms(1) unfolding markResolved_def update_letters_def by force
  then show ?thesis using assms(2) by (cases "dlId d0 = i") simp_all
qed

text \<open>An administrator's retry of an entry that is missing or resolved already changes and delivers nothing, and after a successful retry the entry is resolved as retried.\<close>

theorem retry_resolves_entry:
  assumes "retry_route parse deliver now i st = (st', resp)"
  shows "(resp = AlreadyResolved409 \<or> resp = NotFound404 \<longrightarrow> st' = st)
    \<and> (resp = Ok200 \<longrightarrow> (\<forall>d\<in>set (wdDeadLetters (fst st')). dlId d = i \<longrightarrow> dlResolvedAt d = Some now \<and> dlResolution d = Some ''retried''))"
proof (cases "getEntry i (fst st)")
  case (Some e)
  show ?thesis
  proof (cases "dlResolvedAt e = None")
    case unresolved: True
    show ?thesis
    proof (cases "getSubscription (dlSubscriptionId e) False (fst st)")
      case sub: (Some sub)
      show ?thesis
      proof (cases "parse (dlPayload e)")
        case payload: (Some p)
        obtain st1 out where run: "deliver sub (dlEvent e) (payload_data p) st = (st1, out)" by (rule prod.exhaust)
        have eq: "retry_route parse deliver now i st = (case out of Inl _ \<Rightarrow> (st1, Error500)
            | Inr r \<Rightarrow> if \<not> drSuccess r then (st1, DeliveryFailed502) else ((snd (markResolved now i ''retried'' (fst st1)), snd st1), Ok200))"
          by (simp add: retry_route_def Some unresolved sub payload run)
        show ?thesis
        proof (cases out)
          case (Inr r)
          show ?thesis
          proof (cases "drSuccess r")
            case True
            then have "st' = (snd (markResolved now i ''retried'' (fst st1)), snd st1)" "resp = Ok200"
              using assms unfolding eq Inr by simp_all
            then show ?thesis by (simp add: markResolved_marks)
          qed (use assms in \<open>simp add: eq Inr\<close>)
        qed (use assms in \<open>simp add: eq\<close>)
      qed (use assms Some unresolved sub in \<open>simp add: retry_route_def\<close>)
    qed (use assms Some unresolved in \<open>simp add: retry_route_def\<close>)
  qed (use assms Some in \<open>simp add: retry_route_def\<close>)
qed (use assms in \<open>simp add: retry_route_def\<close>)

theorem retry_resolves_entry_witness:
  "wdDeadLetters (fst (fst (retry_route (\<lambda>s. Some (JObj [])) (\<lambda>sub event data st. (st, Inr \<lparr>drSuccess = True, drStatusCode = Some 200, drAttempts = 1, drError = None\<rparr>))
      5 ''d'' (demo_hooks\<lparr>wdDeadLetters := [demo_letter]\<rparr>, new_breaker)))) = [demo_letter\<lparr>dlResolvedAt := Some 5, dlResolution := Some ''retried'', dlUpdatedAt := 5\<rparr>]"
proof -
  have run: "retry_route (\<lambda>s. Some (JObj [])) (\<lambda>sub event data st. (st, Inr \<lparr>drSuccess = True, drStatusCode = Some 200, drAttempts = 1, drError = None\<rparr>))
      5 ''d'' (demo_hooks\<lparr>wdDeadLetters := [demo_letter]\<rparr>, new_breaker)
    = ((demo_hooks\<lparr>wdDeadLetters := [demo_letter\<lparr>dlResolvedAt := Some 5, dlResolution := Some ''retried'', dlUpdatedAt := 5\<rparr>]\<rparr>, new_breaker), Ok200)"
    by code_simp
  from retry_resolves_entry [OF run] show ?thesis unfolding run by simp
qed

end
