(* ===== verification/Http_Rate_Limit.thy ===== *)
theory Http_Rate_Limit
  imports JS_Value
begin

text \<open>
  \<open>backend/src/middleware/rateLimiter.ts\<close>: the sliding-window rate limiter over a sorted set of Redis, the key it counts
  a request under, and the middleware's answers. The sorted set's commands are a parameter with laws; the pipeline of
  one request is one step, at the clock reading that the code takes for it. Windows are whole milliseconds.
\<close>

section \<open>Sorted sets\<close>

text \<open>\<open>zView\<close> is the set of members with their scores, and the expiry time, if one is set.\<close>

record 'z zsets =
  zRemRangeByScore :: "int \<Rightarrow> string \<Rightarrow> int \<Rightarrow> 'z \<Rightarrow> 'z"
  zAdd :: "int \<Rightarrow> string \<Rightarrow> int \<Rightarrow> string \<Rightarrow> 'z \<Rightarrow> 'z"
  zCard :: "int \<Rightarrow> string \<Rightarrow> 'z \<Rightarrow> int"
  zExpire :: "int \<Rightarrow> string \<Rightarrow> int \<Rightarrow> 'z \<Rightarrow> 'z"
  zView :: "'z \<Rightarrow> string \<Rightarrow> (string \<times> int) set \<times> int option"

definition zlive :: "int \<Rightarrow> (string \<times> int) set \<times> int option \<Rightarrow> (string \<times> int) set \<times> int option" where
  "zlive t e = (case e of (m, Some x) \<Rightarrow> if t < x then e else ({}, None) | (m, None) \<Rightarrow> e)"

text \<open>ZREMRANGEBYSCORE from minus infinity removes the scores up to a bound, ZADD sets the score of a member, ZCARD counts, and
  EXPIRE sets the time to live of a key, in seconds; an expired key is empty. No command touches another key.\<close>

definition zset_laws :: "'z zsets \<Rightarrow> bool" where
  "zset_laws Z \<longleftrightarrow>
     (\<forall>t k hi s. zView Z (zRemRangeByScore Z t k hi s) = (zView Z s)(k := ({p \<in> fst (zlive t (zView Z s k)). hi < snd p}, snd (zlive t (zView Z s k)))))
   \<and> (\<forall>t k x m s. zView Z (zAdd Z t k x m s) =
        (zView Z s)(k := (insert (m, x) {p \<in> fst (zlive t (zView Z s k)). fst p \<noteq> m}, snd (zlive t (zView Z s k)))))
   \<and> (\<forall>t k s. zCard Z t k s = int (card (fst (zlive t (zView Z s k)))))
   \<and> (\<forall>t k n s. zView Z (zExpire Z t k n s) = (zView Z s)(k := (fst (zlive t (zView Z s k)), Some (t + n * 1000))))"

section \<open>The count of a window\<close>

definition ceil_seconds :: "int \<Rightarrow> int" where
  "ceil_seconds ms = - ((- ms) div 1000)"

text \<open>What the pipeline comes to: the connection fails, or every command is answered, or the count is answered by an error.\<close>

datatype pipeline_outcome = ConnectionFails string | Answers | CountFails

text \<open>\<open>now\<close> is \<open>Date.now()\<close> and \<open>r\<close> the text of the random number.\<close>

definition incrementSlidingWindow ::
  "'z zsets \<Rightarrow> pipeline_outcome \<Rightarrow> int \<Rightarrow> string \<Rightarrow> string \<Rightarrow> int \<Rightarrow> 'z \<Rightarrow> (string, int) res \<times> 'z" where
  "incrementSlidingWindow Z outcome now r key windowMs s =
     (case outcome of
        ConnectionFails e \<Rightarrow> (Inl e, s)
      | _ \<Rightarrow>
          (let s1 = zRemRangeByScore Z now key (now - windowMs) s;
               s2 = zAdd Z now key now (show_int now @ CHR ''-'' # r) s1;
               count = zCard Z now key s2;
               s3 = zExpire Z now key (ceil_seconds windowMs + 1) s2
           in (Inr (case outcome of CountFails \<Rightarrow> 1 | _ \<Rightarrow> count), s3)))"

section \<open>The key of a request\<close>

text \<open>A header as Express gives it: absent, a text, or several texts.\<close>

datatype header = Absent | Single string | Several string "string list"

record client_request =
  crRemoteAddress :: "string option"
  crIp :: "string option"
  crForwardedFor :: header
  crRealIp :: header
  crWallet :: "string option"

definition trusted_proxies :: "string option \<Rightarrow> string list" where
  "trusted_proxies env = filter (\<lambda>ip. ip \<noteq> []) (map trim (split_on (CHR '','') (case env of Some s \<Rightarrow> s | None \<Rightarrow> [])))"

definition extractClientIP :: "string option \<Rightarrow> client_request \<Rightarrow> string" where
  "extractClientIP env req =
     (let trusted = trusted_proxies env;
          directIP = (case crRemoteAddress req of Some a \<Rightarrow> a
                      | None \<Rightarrow> (case crIp req of Some a \<Rightarrow> a | None \<Rightarrow> ''unknown''));
          realIP = (case crRealIp req of
                      Single s \<Rightarrow> if s = [] then directIP else s
                    | Several s _ \<Rightarrow> s
                    | Absent \<Rightarrow> directIP);
          leftmost = (\<lambda>s. trim (hd (split_on (CHR '','') s)))
      in if trusted = [] then directIP
         else if directIP \<notin> set trusted then directIP
         else (case crForwardedFor req of
                 Absent \<Rightarrow> realIP
               | Single s \<Rightarrow> if s \<noteq> [] \<and> leftmost s \<noteq> [] then leftmost s else realIP
               | Several s _ \<Rightarrow> if leftmost s \<noteq> [] then leftmost s else realIP))"

definition resolve_limit_key :: "string option \<Rightarrow> client_request \<Rightarrow> string \<Rightarrow> string" where
  "resolve_limit_key env req prefix =
     (case crWallet req of
        Some w \<Rightarrow> if w = [] then prefix @ '':ip:'' @ extractClientIP env req else prefix @ '':wallet:'' @ w
      | None \<Rightarrow> prefix @ '':ip:'' @ extractClientIP env req)"

section \<open>The middleware\<close>

datatype failure_mode = FailOpen | FailClosed

definition resolveRedisFailureMode :: "string option \<Rightarrow> failure_mode" where
  "resolveRedisFailureMode v = (case v of Some s \<Rightarrow> if to_lower (trim s) = ''closed'' then FailClosed else FailOpen | None \<Rightarrow> FailOpen)"

record limit_config =
  lcWindowMs :: int
  lcMax :: int
  lcMessage :: string
  lcKeyPrefix :: string
  lcFailureMode :: "failure_mode option"

definition setRateLimitHeaders :: "int \<Rightarrow> int \<Rightarrow> int \<Rightarrow> int \<Rightarrow> int \<Rightarrow> (string \<times> jsval) list" where
  "setRateLimitHeaders now limit remaining resetSeconds windowMs =
     [(''RateLimit-Limit'', JNum limit), (''RateLimit-Remaining'', JNum remaining), (''RateLimit-Reset'', JNum resetSeconds),
      (''RateLimit-Policy'', JStr (show_int limit @ '';w='' @ show_int (ceil_seconds windowMs))),
      (''X-RateLimit-Limit'', JNum limit), (''X-RateLimit-Remaining'', JNum remaining),
      (''X-RateLimit-Reset'', JNum (now div 1000 + resetSeconds))]"

text \<open>The request goes on or is answered with a status, with the headers set.\<close>

datatype limit_answer = Next "(string \<times> jsval) list" | Answer int "(string \<times> jsval) list" string

definition rateLimiterMiddleware ::
  "'z zsets \<Rightarrow> string option \<Rightarrow> string option \<Rightarrow> limit_config \<Rightarrow> pipeline_outcome \<Rightarrow> int \<Rightarrow> string \<Rightarrow> client_request \<Rightarrow> 'z
     \<Rightarrow> limit_answer \<times> 'z" where
  "rateLimiterMiddleware Z proxies modeEnv cfg outcome now r req s =
     (let mode = (case lcFailureMode cfg of Some m \<Rightarrow> m | None \<Rightarrow> resolveRedisFailureMode modeEnv);
          windowSeconds = max 1 (ceil_seconds (lcWindowMs cfg))
      in case incrementSlidingWindow Z outcome now r (resolve_limit_key proxies req (lcKeyPrefix cfg)) (lcWindowMs cfg) s of
           (Inl e, s1) \<Rightarrow>
             (case mode of
                FailClosed \<Rightarrow> (Answer 503 [(''Retry-After'', JNum windowSeconds)]
                                 ''Rate limiting is temporarily unavailable, please retry later.'', s1)
              | FailOpen \<Rightarrow> (Next [], s1))
         | (Inr count, s1) \<Rightarrow>
             (let headers = setRateLimitHeaders now (lcMax cfg) (max 0 (lcMax cfg - count)) windowSeconds (lcWindowMs cfg)
              in if count > lcMax cfg then (Answer 429 (headers @ [(''Retry-After'', JNum windowSeconds)]) (lcMessage cfg), s1)
                 else (Next headers, s1)))"

text \<open>\<open>WINDOW_MS\<close> and \<open>MAX_REQUESTS\<close>: an unparsable setting stops the start-up.\<close>

definition parse_limit_env :: "string \<Rightarrow> string \<Rightarrow> string option \<Rightarrow> (service_error, int) res" where
  "parse_limit_env name dflt raw =
     (let value = (case raw of Some v \<Rightarrow> if v = [] then dflt else v | None \<Rightarrow> dflt)
      in case parse_int10 value of
           Some n \<Rightarrow> Inr n
         | None \<Rightarrow> Inl (PlainError (''Invalid '' @ name @ '': '' @ [CHR 0x22] @ value @ [CHR 0x22] @ '' is not a valid integer'')))"

definition WINDOW_MS :: "string option \<Rightarrow> (service_error, int) res" where
  "WINDOW_MS = parse_limit_env ''RATE_LIMIT_WINDOW_MS'' ''900000''"

definition MAX_REQUESTS :: "string option \<Rightarrow> (service_error, int) res" where
  "MAX_REQUESTS = parse_limit_env ''RATE_LIMIT_MAX_REQUESTS'' ''100''"

definition globalRateLimiter :: "int \<Rightarrow> int \<Rightarrow> limit_config" where
  "globalRateLimiter windowMs maxRequests =
     \<lparr>lcWindowMs = windowMs, lcMax = maxRequests, lcMessage = ''Too many requests from this IP, please try again later.'',
      lcKeyPrefix = ''rl:global'', lcFailureMode = None\<rparr>"

definition webhookRateLimiter :: "int \<Rightarrow> limit_config" where
  "webhookRateLimiter windowMs =
     \<lparr>lcWindowMs = windowMs, lcMax = 20, lcMessage = ''Too many webhook operations, please try again later.'',
      lcKeyPrefix = ''rl:webhook'', lcFailureMode = None\<rparr>"

definition webhookUserRateLimiter ::
  "'z zsets \<Rightarrow> string option \<Rightarrow> string option \<Rightarrow> int \<Rightarrow> pipeline_outcome \<Rightarrow> int \<Rightarrow> string \<Rightarrow> client_request \<Rightarrow> 'z \<Rightarrow> limit_answer \<times> 'z" where
  "webhookUserRateLimiter Z proxies modeEnv windowMs outcome now r req s =
     (if (case crWallet req of Some w \<Rightarrow> w = [] | None \<Rightarrow> True) then (Answer 401 [] ''Authentication required'', s)
      else
        rateLimiterMiddleware Z proxies modeEnv
          \<lparr>lcWindowMs = windowMs, lcMax = 10,
           lcMessage = ''You have exceeded the rate limit for webhook mutations. Please try again later.'',
           lcKeyPrefix = ''rl:webhook:user'', lcFailureMode = None\<rparr> outcome now r req s)"

section \<open>The window: properties\<close>

definition sw_member :: "int \<Rightarrow> string \<Rightarrow> string" where
  "sw_member t r = show_int t @ CHR ''-'' # r"

lemma sw_member_inj:
  assumes "sw_member t r = sw_member t' r'" and "0 \<le> t" and "0 \<le> t'"
  shows "t = t' \<and> r = r'"
proof -
  have no: "CHR ''-'' \<notin> set (show_int x)" if "0 \<le> x" for x
    using that show_nat_digits is_digit_not_sign by (auto simp: show_int_def)
  have "show_int t = show_int t' \<and> r = r'"
    using assms(1) no [OF assms(2)] no [OF assms(3)] unfolding sw_member_def
    by (metis split_on_append list.inject append_same_eq same_append_eq)
  then show ?thesis using assms(2,3) by (auto simp: show_int_def show_nat_inj)
qed

text \<open>A call: its key, its time and its random text.\<close>

type_synonym sw_call = "string \<times> int \<times> string"

fun sw_counts :: "'z zsets \<Rightarrow> int \<Rightarrow> sw_call list \<Rightarrow> 'z \<Rightarrow> int list" where
  "sw_counts Z W [] s = []"
| "sw_counts Z W ((k, t, r) # calls) s =
     (case incrementSlidingWindow Z Answers t r k W s of (c, s') \<Rightarrow> (case c of Inr n \<Rightarrow> n | Inl _ \<Rightarrow> 0) # sw_counts Z W calls s')"

text \<open>What the state shows of the last \<open>W\<close> milliseconds, and what it should show.\<close>

definition recent :: "'z zsets \<Rightarrow> int \<Rightarrow> int \<Rightarrow> string \<Rightarrow> 'z \<Rightarrow> (string \<times> int) set" where
  "recent Z W t k s = {p \<in> fst (zlive t (zView Z s k)). t - W < snd p}"

definition recorded :: "int \<Rightarrow> int \<Rightarrow> string \<Rightarrow> sw_call list \<Rightarrow> (string \<times> int) set" where
  "recorded W t k calls = {(sw_member t' r', t') | t' r'. (k, t', r') \<in> set calls \<and> t - W < t'}"

definition window_inv :: "'z zsets \<Rightarrow> int \<Rightarrow> sw_call list \<Rightarrow> 'z \<Rightarrow> bool" where
  "window_inv Z W calls s \<longleftrightarrow> (\<forall>k t. (\<forall>c\<in>set calls. fst (snd c) \<le> t) \<longrightarrow> recent Z W t k s = recorded W t k calls)"

lemma ceil_seconds_ge: "ms \<le> ceil_seconds ms * 1000"
  unfolding ceil_seconds_def by linarith

lemma zlive_idem: "zlive t (zlive t e) = zlive t e"
  by (auto simp: zlive_def split: prod.split option.split)

lemma zlive_same: "zlive t (A, snd (zlive t e)) = (A, snd (zlive t e))"
  by (auto simp: zlive_def split: prod.split option.split)

lemma increment_view:
  assumes "zset_laws Z"
  shows "\<exists>s'. incrementSlidingWindow Z Answers t r k W s = (Inr (int (card (insert (sw_member t r, t) {p \<in> recent Z W t k s. fst p \<noteq> sw_member t r}))), s')
    \<and> zView Z s' = (zView Z s)(k := (insert (sw_member t r, t) {p \<in> recent Z W t k s. fst p \<noteq> sw_member t r}, Some (t + (ceil_seconds W + 1) * 1000)))"
  using assms
  by (simp add: incrementSlidingWindow_def Let_def zset_laws_def zlive_same recent_def sw_member_def)

lemma recorded_snoc:
  "recorded W t k (calls @ [(k', t', r')]) = recorded W t k calls \<union> (if k = k' \<and> t - W < t' then {(sw_member t' r', t')} else {})"
  by (auto simp: recorded_def)

lemma fresh_member:
  assumes "(k, t, r) \<notin> set calls" and "\<forall>c\<in>set calls. 0 \<le> fst (snd c)" and "0 \<le> t"
  shows "{p \<in> recorded W t k calls. fst p \<noteq> sw_member t r} = recorded W t k calls"
  using assms sw_member_inj by (fastforce simp: recorded_def)

lemma window_inv_step:
  assumes Z: "zset_laws Z" and "0 < W" and inv: "window_inv Z W calls s"
    and later: "\<forall>c\<in>set calls. fst (snd c) \<le> t" and pos: "\<forall>c\<in>set calls. 0 \<le> fst (snd c)" "0 \<le> t" and fresh: "(k, t, r) \<notin> set calls"
  shows "\<exists>s'. incrementSlidingWindow Z Answers t r k W s = (Inr (int (card (recorded W t k (calls @ [(k, t, r)])))), s')
    \<and> window_inv Z W (calls @ [(k, t, r)]) s'"
proof -
  have now: "recent Z W t k s = recorded W t k calls" using inv later by (simp add: window_inv_def)
  have new: "insert (sw_member t r, t) {p \<in> recent Z W t k s. fst p \<noteq> sw_member t r} = recorded W t k (calls @ [(k, t, r)])"
    using fresh_member [OF fresh pos] \<open>0 < W\<close> by (simp add: now recorded_snoc)
  obtain s' where s': "incrementSlidingWindow Z Answers t r k W s = (Inr (int (card (recorded W t k (calls @ [(k, t, r)])))), s')"
    and view: "zView Z s' = (zView Z s)(k := (recorded W t k (calls @ [(k, t, r)]), Some (t + (ceil_seconds W + 1) * 1000)))"
    using increment_view [OF Z, of t r k W s] unfolding new by auto
  have "recent Z W t2 k2 s' = recorded W t2 k2 (calls @ [(k, t, r)])" if after: "\<forall>c\<in>set (calls @ [(k, t, r)]). fst (snd c) \<le> t2" for k2 t2
  proof (cases "k2 = k")
    case False
    then show ?thesis using inv after by (simp add: recent_def view recorded_snoc window_inv_def)
  next
    case True
    show ?thesis
    proof (cases "t2 < t + (ceil_seconds W + 1) * 1000")
      case live: True
      have "t \<le> t2" using after by simp
      then show ?thesis using True live by (auto simp: recent_def view zlive_def recorded_def)
    next
      case False
      then have "t + W < t2" using ceil_seconds_ge [of W] by (simp add: distrib_right)
      then have "recorded W t2 k2 (calls @ [(k, t, r)]) = {}" using later by (fastforce simp: recorded_def)
      then show ?thesis using True False by (simp add: recent_def view zlive_def)
    qed
  qed
  then show ?thesis using s' by (auto simp: window_inv_def)
qed

lemma recorded_card:
  assumes "distinct calls" and "\<forall>c\<in>set calls. 0 \<le> fst (snd c)"
  shows "card (recorded W t k calls) = length (filter (\<lambda>(k', t', r'). k' = k \<and> t - W < t') calls)"
proof -
  let ?cs = "filter (\<lambda>(k', t', r'). k' = k \<and> t - W < t') calls"
  have "recorded W t k calls = (\<lambda>(k', t', r'). (sw_member t' r', t')) ` set ?cs"
    by (force simp: recorded_def)
  moreover have "inj_on (\<lambda>(k', t', r'). (sw_member t' r', t')) (set ?cs)"
    using assms(2) sw_member_inj by (fastforce simp: inj_on_def)
  moreover have "card (set ?cs) = length ?cs" by (rule distinct_card) (simp add: assms(1))
  ultimately show ?thesis by (simp only: card_image)
qed

lemma sw_counts_from:
  assumes "zset_laws Z" and "0 < W" and "window_inv Z W before s"
    and "sorted (map (fst \<circ> snd) (before @ calls))" and "distinct (before @ calls)" and "\<forall>c\<in>set (before @ calls). 0 \<le> fst (snd c)"
    and "i < length calls"
  shows "sw_counts Z W calls s ! i =
    int (length (filter (\<lambda>(k', t', r'). k' = fst (calls ! i) \<and> fst (snd (calls ! i)) - W < t') (before @ take (Suc i) calls)))"
  using assms(3-)
proof (induction calls arbitrary: before s i)
  case (Cons c calls)
  obtain k t r where c: "c = (k, t, r)" by (cases c)
  have prem: "\<forall>c\<in>set before. fst (snd c) \<le> t" "\<forall>c\<in>set before. 0 \<le> fst (snd c)" "0 \<le> t" "(k, t, r) \<notin> set before"
    using Cons.prems(2,3,4) by (auto simp: c sorted_append)
  obtain s' where step: "incrementSlidingWindow Z Answers t r k W s = (Inr (int (card (recorded W t k (before @ [(k, t, r)])))), s')"
    and inv: "window_inv Z W (before @ [(k, t, r)]) s'"
    using window_inv_step [OF assms(1,2) Cons.prems(1) prem] by blast
  show ?case
  proof (cases i)
    case 0
    have "card (recorded W t k (before @ [(k, t, r)])) = length (filter (\<lambda>(k', t', r'). k' = k \<and> t - W < t') (before @ [(k, t, r)]))"
      by (rule recorded_card) (use Cons.prems(3,4) prem in \<open>auto simp: c\<close>)
    then show ?thesis using 0 by (simp add: c step)
  next
    case (Suc j)
    have "sw_counts Z W calls s' ! j =
        int (length (filter (\<lambda>(k', t', r'). k' = fst (calls ! j) \<and> fst (snd (calls ! j)) - W < t') ((before @ [(k, t, r)]) @ take (Suc j) calls)))"
      by (rule Cons.IH [OF inv]) (use Cons.prems(2-) Suc in \<open>auto simp: c\<close>)
    then show ?thesis using Suc by (simp add: c step)
  qed
qed simp

section \<open>What the middleware admits\<close>

text \<open>Requests in the order in which they reach Redis, with the time and the random text taken for each.\<close>

type_synonym timed_request = "client_request \<times> int \<times> string"

fun limiter_run :: "'z zsets \<Rightarrow> string option \<Rightarrow> string option \<Rightarrow> limit_config \<Rightarrow> timed_request list \<Rightarrow> 'z \<Rightarrow> limit_answer list" where
  "limiter_run Z proxies modeEnv cfg [] s = []"
| "limiter_run Z proxies modeEnv cfg ((req, t, r) # reqs) s =
     (case rateLimiterMiddleware Z proxies modeEnv cfg Answers t r req s of
        (a, s') \<Rightarrow> a # limiter_run Z proxies modeEnv cfg reqs s')"

definition call_of :: "string option \<Rightarrow> limit_config \<Rightarrow> timed_request \<Rightarrow> sw_call" where
  "call_of proxies cfg q = (case q of (req, t, r) \<Rightarrow> (resolve_limit_key proxies req (lcKeyPrefix cfg), t, r))"

definition passes :: "limit_answer \<Rightarrow> bool" where
  "passes a \<longleftrightarrow> (case a of Next _ \<Rightarrow> True | Answer _ _ _ \<Rightarrow> False)"

lemma increment_answers: "\<exists>n s'. incrementSlidingWindow Z Answers t r k W s = (Inr n, s')"
  by (simp add: incrementSlidingWindow_def Let_def)

lemma middleware_counts:
  "i < length reqs \<Longrightarrow> passes (limiter_run Z proxies modeEnv cfg reqs s ! i)
     \<longleftrightarrow> sw_counts Z (lcWindowMs cfg) (map (call_of proxies cfg) reqs) s ! i \<le> lcMax cfg"
proof (induction reqs arbitrary: s i)
  case (Cons q reqs)
  obtain req t r where q: "q = (req, t, r)" by (cases q)
  obtain n s' where n: "incrementSlidingWindow Z Answers t r (resolve_limit_key proxies req (lcKeyPrefix cfg)) (lcWindowMs cfg) s = (Inr n, s')"
    using increment_answers by metis
  show ?case using Cons by (cases i) (auto simp: q call_of_def rateLimiterMiddleware_def Let_def n passes_def)
qed simp

definition well_timed :: "string option \<Rightarrow> limit_config \<Rightarrow> timed_request list \<Rightarrow> bool" where
  "well_timed proxies cfg reqs \<longleftrightarrow>
     (let calls = map (call_of proxies cfg) reqs
      in sorted (map (fst \<circ> snd) calls) \<and> distinct calls \<and> (\<forall>c\<in>set calls. 0 \<le> fst (snd c)))"

definition empty_zsets :: "'z zsets \<Rightarrow> 'z \<Rightarrow> bool" where
  "empty_zsets Z s \<longleftrightarrow> (\<forall>k. zView Z s k = ({}, None))"

definition requests_in_window :: "string option \<Rightarrow> limit_config \<Rightarrow> timed_request list \<Rightarrow> nat \<Rightarrow> nat" where
  "requests_in_window proxies cfg reqs i =
     (let calls = map (call_of proxies cfg) reqs
      in length (filter (\<lambda>(k, t, r). k = fst (calls ! i) \<and> fst (snd (calls ! i)) - lcWindowMs cfg < t) (take (Suc i) calls)))"

lemma passes_iff:
  assumes "zset_laws Z" and "0 < lcWindowMs cfg" and "empty_zsets Z s" and "well_timed proxies cfg reqs" and "i < length reqs"
  shows "passes (limiter_run Z proxies modeEnv cfg reqs s ! i) \<longleftrightarrow> int (requests_in_window proxies cfg reqs i) \<le> lcMax cfg"
proof -
  have "window_inv Z (lcWindowMs cfg) [] s"
    using assms(3) by (auto simp: window_inv_def recent_def recorded_def zlive_def empty_zsets_def)
  from sw_counts_from [OF assms(1,2) this, of "map (call_of proxies cfg) reqs" i] assms(4,5)
  show ?thesis by (simp add: middleware_counts well_timed_def Let_def requests_in_window_def)
qed

text \<open>The limiter admits a request exactly when at most the maximum number of requests under its key, admitted or not, this one
  included, arrived within the window before it.\<close>

theorem request_admitted_iff:
  assumes "zset_laws Z" and "0 < lcWindowMs cfg" and "empty_zsets Z s" and "well_timed proxies cfg reqs" and "i < length reqs"
  shows "passes (limiter_run Z proxies modeEnv cfg reqs s ! i) \<longleftrightarrow> int (requests_in_window proxies cfg reqs i) \<le> lcMax cfg"
  by (rule passes_iff [OF assms])

text \<open>The requests under a key that are admitted after a time, up to another.\<close>

definition admitted_between ::
  "'z zsets \<Rightarrow> string option \<Rightarrow> string option \<Rightarrow> limit_config \<Rightarrow> timed_request list \<Rightarrow> 'z \<Rightarrow> string \<Rightarrow> int \<Rightarrow> int \<Rightarrow> nat set" where
  "admitted_between Z proxies modeEnv cfg reqs s key a b =
     {i. i < length reqs \<and> fst (call_of proxies cfg (reqs ! i)) = key \<and> a < fst (snd (reqs ! i)) \<and> fst (snd (reqs ! i)) \<le> b
       \<and> passes (limiter_run Z proxies modeEnv cfg reqs s ! i)}"


section \<open>An instance of the sorted sets\<close>

type_synonym mem_zset = "string \<Rightarrow> (string \<times> int) list \<times> int option"

definition mem_zlive :: "int \<Rightarrow> (string \<times> int) list \<times> int option \<Rightarrow> (string \<times> int) list \<times> int option" where
  "mem_zlive t e = (case e of (m, Some x) \<Rightarrow> if t < x then e else ([], None) | (m, None) \<Rightarrow> e)"

definition mem_zsets :: "mem_zset zsets" where
  "mem_zsets = \<lparr>zRemRangeByScore = (\<lambda>t k hi s. s(k := (case mem_zlive t (s k) of (m, x) \<Rightarrow> (filter (\<lambda>p. hi < snd p) m, x)))),
     zAdd = (\<lambda>t k x mem s. s(k := (case mem_zlive t (s k) of (m, e) \<Rightarrow> ((mem, x) # filter (\<lambda>p. fst p \<noteq> mem) m, e)))),
     zCard = (\<lambda>t k s. int (length (remdups (fst (mem_zlive t (s k)))))),
     zExpire = (\<lambda>t k n s. s(k := (fst (mem_zlive t (s k)), Some (t + n * 1000)))),
     zView = (\<lambda>s k. (set (fst (s k)), snd (s k)))\<rparr>"

lemma mem_zlive_view: "zlive t (set (fst e), snd e) = (set (fst (mem_zlive t e)), snd (mem_zlive t e))"
  by (auto simp: zlive_def mem_zlive_def split: prod.split option.split)

lemma mem_zset_laws: "zset_laws mem_zsets"
  by (auto simp: zset_laws_def mem_zsets_def mem_zlive_view length_remdups_card_conv fun_eq_iff split: prod.split)

definition demo_client :: client_request where
  "demo_client = \<lparr>crRemoteAddress = Some ''1.2.3.4'', crIp = None, crForwardedFor = Absent, crRealIp = Absent, crWallet = None\<rparr>"

definition demo_limit :: limit_config where
  "demo_limit = \<lparr>lcWindowMs = 1000, lcMax = 1, lcMessage = ''m'', lcKeyPrefix = ''rl'', lcFailureMode = Some FailClosed\<rparr>"

definition demo_requests :: "timed_request list" where
  "demo_requests = [(demo_client, 0, ''a''), (demo_client, 900, ''b''), (demo_client, 1800, ''c'')]"

lemma demo_well_timed: "well_timed None demo_limit demo_requests"
  by (simp add: well_timed_def call_of_def demo_requests_def)

lemma demo_empty: "empty_zsets mem_zsets (\<lambda>k. ([], None))"
  by (simp add: empty_zsets_def mem_zsets_def)

text \<open>The third request comes after the first has left the window, and is refused because the refused second one counts.\<close>

theorem request_admitted_iff_witness:
  "\<not> passes (limiter_run mem_zsets None None demo_limit demo_requests (\<lambda>k. ([], None)) ! 2)"
  using request_admitted_iff [OF mem_zset_laws _ demo_empty demo_well_timed, of 2 None]
  by (simp add: demo_limit_def requests_in_window_def call_of_def demo_requests_def)


section \<open>Failures of Redis, and forged addresses\<close>

lemma open_mode_admits:
  assumes "lcFailureMode cfg = None" and "resolveRedisFailureMode modeEnv = FailOpen"
  shows "rateLimiterMiddleware Z proxies modeEnv cfg (ConnectionFails e) t r req s = (Next [], s)"
  using assms by (simp add: rateLimiterMiddleware_def incrementSlidingWindow_def Let_def)

lemma closed_mode_refuses:
  "lcFailureMode cfg = Some FailClosed \<Longrightarrow>
     \<exists>h m. rateLimiterMiddleware Z proxies modeEnv cfg (ConnectionFails e) t r req s = (Answer 503 h m, s)"
  by (simp add: rateLimiterMiddleware_def incrementSlidingWindow_def Let_def)

text \<open>A pipeline whose count is answered by an error counts as one request: the limiter admits it even where it should fail closed.\<close>

lemma closed_mode_bypassed:
  "lcFailureMode cfg = Some FailClosed \<Longrightarrow> 1 \<le> lcMax cfg \<Longrightarrow>
     passes (fst (rateLimiterMiddleware Z proxies modeEnv cfg CountFails t r req s))"
  by (simp add: rateLimiterMiddleware_def incrementSlidingWindow_def Let_def passes_def)

text \<open>Behind a trusted proxy the key is whatever text the client puts first into the forwarding header, to which proxies append.\<close>

lemma forged_address:
  assumes "direct \<in> set (trusted_proxies env)" and "crRemoteAddress req = Some direct" and "crWallet req = None"
    and "crForwardedFor req = Single (forged @ '','' @ rest)" and "CHR '','' \<notin> set forged" and "trim forged = forged" and "forged \<noteq> []"
  shows "resolve_limit_key env req prefix = prefix @ '':ip:'' @ forged"
proof -
  have "hd (split_on (CHR '','') (forged @ '','' @ rest)) = forged" using assms(5) by (simp add: split_on_append)
  moreover have "trusted_proxies env \<noteq> []" using assms(1) by auto
  ultimately show ?thesis using assms by (simp add: resolve_limit_key_def extractClientIP_def Let_def)
qed

end
