(* ===== verification/Http_Idempotency.thy ===== *)
theory Http_Idempotency
  imports Http_Rate_Limit Json_Text Redis_Store
begin

text \<open>
  \<open>backend/src/middleware/idempotency.ts\<close>: the idempotency keys of creation requests, with the in-memory and the Redis store
  of their results, the middleware that replays a stored result or refuses a request whose key is in flight, and the
  settling of a response. The two stores are instances of one interface, over which exactly-once is proved.
\<close>

section \<open>The in-memory store\<close>

record stored_result =
  srStatus :: int
  srBody :: jsval
  srCreatedAt :: int

definition DEFAULT_IDEMPOTENCY_WINDOW_MS :: int where
  "DEFAULT_IDEMPOTENCY_WINDOW_MS = 24 * 60 * 60 * 1000"

record idm_memory =
  imStore :: "(string, stored_result) jsmap"
  imInFlight :: "string list"

definition new_idm_memory :: idm_memory where
  "new_idm_memory = \<lparr>imStore = [], imInFlight = []\<rparr>"

definition im_get :: "int \<Rightarrow> int \<Rightarrow> string \<Rightarrow> idm_memory \<Rightarrow> stored_result option \<times> idm_memory" where
  "im_get windowMs now key s =
     (case jm_get (imStore s) key of
        None \<Rightarrow> (None, s)
      | Some entry \<Rightarrow>
          if now - srCreatedAt entry > windowMs then (None, s\<lparr>imStore := jm_delete (imStore s) key\<rparr>) else (Some entry, s))"

definition im_complete :: "int \<Rightarrow> string \<Rightarrow> int \<Rightarrow> jsval \<Rightarrow> idm_memory \<Rightarrow> idm_memory" where
  "im_complete now key statusCode body s =
     s\<lparr>imStore := jm_set (imStore s) key \<lparr>srStatus = statusCode, srBody = body, srCreatedAt = now\<rparr>,
       imInFlight := removeAll key (imInFlight s)\<rparr>"

definition im_isInFlight :: "string \<Rightarrow> idm_memory \<Rightarrow> bool" where
  "im_isInFlight key s \<longleftrightarrow> key \<in> set (imInFlight s)"

definition im_markInFlight :: "string \<Rightarrow> idm_memory \<Rightarrow> bool \<times> idm_memory" where
  "im_markInFlight key s =
     (if key \<in> set (imInFlight s) then (False, s) else (True, s\<lparr>imInFlight := imInFlight s @ [key]\<rparr>))"

definition im_clearInFlight :: "string \<Rightarrow> idm_memory \<Rightarrow> idm_memory" where
  "im_clearInFlight key s = s\<lparr>imInFlight := removeAll key (imInFlight s)\<rparr>"

definition im_delete :: "string \<Rightarrow> idm_memory \<Rightarrow> idm_memory" where
  "im_delete key s = s\<lparr>imStore := jm_delete (imStore s) key, imInFlight := removeAll key (imInFlight s)\<rparr>"

definition im_purgeExpired :: "int \<Rightarrow> int \<Rightarrow> idm_memory \<Rightarrow> idm_memory" where
  "im_purgeExpired windowMs now s = s\<lparr>imStore := filter (\<lambda>(k, v). \<not> now - srCreatedAt v > windowMs) (imStore s)\<rparr>"

section \<open>The Redis store\<close>

definition IN_FLIGHT_PREFIX :: string where
  "IN_FLIGHT_PREFIX = ''idm:inflight:''"

definition RESULT_PREFIX :: string where
  "RESULT_PREFIX = ''idm:result:''"

definition stored_json :: "stored_result \<Rightarrow> jsval" where
  "stored_json r = JObj [(''statusCode'', JNum (srStatus r)), (''body'', srBody r), (''createdAt'', JNum (srCreatedAt r))]"

text \<open>Only texts that \<open>complete\<close> wrote are read back; one without numbers in its two numeric fields is not among them.\<close>

definition read_stored :: "jsval \<Rightarrow> stored_result option" where
  "read_stored v =
     (case (js_prop v ''statusCode'', js_prop v ''createdAt'') of
        (JNum n, JNum t) \<Rightarrow> Some \<lparr>srStatus = n, srBody = js_prop v ''body'', srCreatedAt = t\<rparr>
      | _ \<Rightarrow> None)"

definition ri_get :: "'r redis \<Rightarrow> int \<Rightarrow> string \<Rightarrow> 'r \<Rightarrow> stored_result option" where
  "ri_get R now key s =
     (case rGet R now (RESULT_PREFIX @ key) s of
        None \<Rightarrow> None
      | Some raw \<Rightarrow> if raw = [] then None else (case json_parse raw of None \<Rightarrow> None | Some v \<Rightarrow> read_stored v))"

definition ri_ttl :: "int \<Rightarrow> int" where
  "ri_ttl windowMs = ceil_seconds windowMs * 1000"

text \<open>The two commands of \<open>complete\<close>, between which others can run; \<open>ok\<close> is false when the first fails.\<close>

definition ri_complete :: "'r redis \<Rightarrow> int \<Rightarrow> bool \<Rightarrow> int \<Rightarrow> string \<Rightarrow> int \<Rightarrow> jsval \<Rightarrow> 'r \<Rightarrow> 'r" where
  "ri_complete R windowMs ok now key statusCode body s =
     (if \<not> ok then s
      else
        (let value = (case js_stringify (stored_json \<lparr>srStatus = statusCode, srBody = body, srCreatedAt = now\<rparr>) of Some v \<Rightarrow> v | None \<Rightarrow> [])
         in rDel R now (IN_FLIGHT_PREFIX @ key) (rSetPx R now (RESULT_PREFIX @ key) value (ri_ttl windowMs) s)))"

definition ri_isInFlight :: "'r redis \<Rightarrow> int \<Rightarrow> string \<Rightarrow> 'r \<Rightarrow> bool" where
  "ri_isInFlight R now key s \<longleftrightarrow> rGet R now (IN_FLIGHT_PREFIX @ key) s \<noteq> None"

definition ri_markInFlight :: "'r redis \<Rightarrow> int \<Rightarrow> int \<Rightarrow> string \<Rightarrow> 'r \<Rightarrow> bool \<times> 'r" where
  "ri_markInFlight R windowMs now key s = rSetNxPx R now (IN_FLIGHT_PREFIX @ key) ''1'' (ri_ttl windowMs) s"

definition ri_clearInFlight :: "'r redis \<Rightarrow> int \<Rightarrow> string \<Rightarrow> 'r \<Rightarrow> 'r" where
  "ri_clearInFlight R now key s = rDel R now (IN_FLIGHT_PREFIX @ key) s"

definition ri_delete :: "'r redis \<Rightarrow> int \<Rightarrow> string \<Rightarrow> 'r \<Rightarrow> 'r" where
  "ri_delete R now key s = rDel R now (IN_FLIGHT_PREFIX @ key) (rDel R now (RESULT_PREFIX @ key) s)"

section \<open>The middleware\<close>

definition MAX_KEY_LENGTH :: nat where
  "MAX_KEY_LENGTH = 255"

datatype key_check = NoKey | InvalidKey | ValidKey string

definition check_key :: "header \<Rightarrow> key_check" where
  "check_key h =
     (let valid = (\<lambda>key. if length key > MAX_KEY_LENGTH \<or> key = [] \<or> \<not> list_all (\<lambda>c. 32 \<le> (of_char c :: nat) \<and> (of_char c :: nat) \<le> 126) key
                         then InvalidKey else ValidKey key)
      in case h of Absent \<Rightarrow> NoKey | Single key \<Rightarrow> if key = [] then NoKey else valid key | Several key _ \<Rightarrow> valid key)"

definition store_key :: "string option \<Rightarrow> string \<Rightarrow> string" where
  "store_key scope key = (case scope of Some s \<Rightarrow> if s = [] then key else s @ CHR '':'' # key | None \<Rightarrow> key)"

datatype admission = PassedThrough | Rejected400 | Replayed stored_result | Processing409 | Proceeds string

text \<open>\<open>get\<close> and \<open>mark\<close> are those of the store, at the two times they run at.\<close>

definition idempotencyMiddleware ::
  "(int \<Rightarrow> string \<Rightarrow> 's \<Rightarrow> stored_result option \<times> 's) \<Rightarrow> (int \<Rightarrow> string \<Rightarrow> 's \<Rightarrow> bool \<times> 's) \<Rightarrow> string option \<Rightarrow> header \<Rightarrow> int \<Rightarrow> int \<Rightarrow> 's
     \<Rightarrow> admission \<times> 's" where
  "idempotencyMiddleware get mark scope h t t' s =
     (case check_key h of
        NoKey \<Rightarrow> (PassedThrough, s)
      | InvalidKey \<Rightarrow> (Rejected400, s)
      | ValidKey key \<Rightarrow>
          (case get t (store_key scope key) s of
             (Some stored, s1) \<Rightarrow> (Replayed stored, s1)
           | (None, s1) \<Rightarrow>
               (case mark t' (store_key scope key) s1 of
                  (True, s2) \<Rightarrow> (Proceeds (store_key scope key), s2)
                | (False, s2) \<Rightarrow> (Processing409, s2))))"

text \<open>What happens on the response of an admitted request: \<open>res.json\<close> or \<open>res.send\<close> is called, or the response ends, with
  the status it has then; \<open>finished\<close> tells a response sent in full from a lost connection. The actions are the calls on the store.\<close>

datatype response_event = Json int jsval | Send jsval | Ended bool int

datatype settle_action = Complete int jsval | Clear

record settle_state =
  seSettled :: bool
  seSentBody :: jsval
  seActions :: "settle_action list"

definition is_success :: "int \<Rightarrow> bool" where
  "is_success status \<longleftrightarrow> status \<ge> 200 \<and> status < 300"

fun response_step :: "settle_state \<Rightarrow> response_event \<Rightarrow> settle_state" where
  "response_step s (Json status body) =
     s\<lparr>seSettled := True, seActions := seActions s @ [if is_success status then Complete status body else Clear]\<rparr>"
| "response_step s (Send body) = (if \<not> seSettled s \<and> body \<noteq> JUndef then s\<lparr>seSentBody := body\<rparr> else s)"
| "response_step s (Ended finished status) =
     (if seSettled s then s
      else s\<lparr>seSettled := True,
             seActions := seActions s @ [if finished \<and> is_success status then Complete status (seSentBody s) else Clear]\<rparr>)"

definition settle_init :: settle_state where
  "settle_init = \<lparr>seSettled = False, seSentBody = JNull, seActions = []\<rparr>"

section \<open>The interface of the stores\<close>

text \<open>A body that the stores give back as it was.\<close>

definition replayable :: "jsval \<Rightarrow> bool" where
  "replayable body \<longleftrightarrow> json_value body \<or> body = JUndef"

text \<open>What a store promises for times up to the window after an operation: \<open>result\<close> is what a look-up would return, \<open>busy\<close> whether
  a key is in flight.\<close>

locale idempotency_store =
  fixes get :: "int \<Rightarrow> string \<Rightarrow> 's \<Rightarrow> stored_result option \<times> 's"
    and mark :: "int \<Rightarrow> string \<Rightarrow> 's \<Rightarrow> bool \<times> 's"
    and finish :: "int \<Rightarrow> string \<Rightarrow> int \<Rightarrow> jsval \<Rightarrow> 's \<Rightarrow> 's"
    and clear :: "int \<Rightarrow> string \<Rightarrow> 's \<Rightarrow> 's"
    and result :: "int \<Rightarrow> string \<Rightarrow> 's \<Rightarrow> stored_result option"
    and busy :: "int \<Rightarrow> string \<Rightarrow> 's \<Rightarrow> bool"
    and W :: int
  assumes get_result: "fst (get t k s) = result t k s"
    and get_keeps: "t \<le> t' \<Longrightarrow> result t' k' (snd (get t k s)) = result t' k' s \<and> busy t' k' (snd (get t k s)) = busy t' k' s"
    and mark_result: "fst (mark t k s) \<longleftrightarrow> \<not> busy t k s"
    and mark_keeps: "result t' k' (snd (mark t k s)) = result t' k' s"
    and mark_busy: "\<not> busy t k s \<Longrightarrow> t \<le> t' \<Longrightarrow> t' < t + W \<Longrightarrow> busy t' k' (snd (mark t k s)) \<longleftrightarrow> k' = k \<or> busy t' k' s"
    and mark_refused: "busy t k s \<Longrightarrow> busy t' k' (snd (mark t k s)) \<longleftrightarrow> busy t' k' s"
    and finish_result: "replayable body \<Longrightarrow> t \<le> t' \<Longrightarrow> t' < t + W \<Longrightarrow> result t' k' (finish t k status body s) =
          (if k' = k then Some \<lparr>srStatus = status, srBody = body, srCreatedAt = t\<rparr> else result t' k' s)"
    and finish_busy: "busy t' k' (finish t k status body s) \<longleftrightarrow> k' \<noteq> k \<and> busy t' k' s"
    and clear_keeps: "result t' k' (clear t k s) = result t' k' s"
    and clear_busy: "busy t' k' (clear t k s) \<longleftrightarrow> k' \<noteq> k \<and> busy t' k' s"

subsection \<open>Requests and their executions\<close>

text \<open>A request with a key arrives, or the handler running for a key settles. Handlers are logged by key.\<close>

datatype idm_event = Arrives int string | Settles int string int jsval

datatype execution = Running | Succeeded int jsval | Failed

record 's idm_sys =
  isStore :: 's
  isLog :: "string \<Rightarrow> execution list"
  isReplays :: "(string \<times> int \<times> jsval) list"

definition idm_running :: "string \<Rightarrow> 's idm_sys \<Rightarrow> bool" where
  "idm_running k y \<longleftrightarrow> isLog y k \<noteq> [] \<and> last (isLog y k) = Running"

fun idm_step ::
  "(int \<Rightarrow> string \<Rightarrow> 's \<Rightarrow> stored_result option \<times> 's) \<Rightarrow> (int \<Rightarrow> string \<Rightarrow> 's \<Rightarrow> bool \<times> 's) \<Rightarrow> (int \<Rightarrow> string \<Rightarrow> int \<Rightarrow> jsval \<Rightarrow> 's \<Rightarrow> 's)
     \<Rightarrow> (int \<Rightarrow> string \<Rightarrow> 's \<Rightarrow> 's) \<Rightarrow> 's idm_sys \<Rightarrow> idm_event \<Rightarrow> 's idm_sys" where
  "idm_step get mark finish clear y (Arrives t k) =
     (case idempotencyMiddleware get mark None (Single k) t t (isStore y) of
        (Proceeds k', s) \<Rightarrow> y\<lparr>isStore := s, isLog := (isLog y)(k' := isLog y k' @ [Running])\<rparr>
      | (Replayed r, s) \<Rightarrow> y\<lparr>isStore := s, isReplays := isReplays y @ [(k, srStatus r, srBody r)]\<rparr>
      | (_, s) \<Rightarrow> y\<lparr>isStore := s\<rparr>)"
| "idm_step get mark finish clear y (Settles t k status body) =
     (if \<not> idm_running k y then y
      else if is_success status
        then y\<lparr>isStore := finish t k status body (isStore y), isLog := (isLog y)(k := butlast (isLog y k) @ [Succeeded status body])\<rparr>
      else y\<lparr>isStore := clear t k (isStore y), isLog := (isLog y)(k := butlast (isLog y k) @ [Failed])\<rparr>)"

fun idm_time :: "idm_event \<Rightarrow> int" where
  "idm_time (Arrives t k) = t"
| "idm_time (Settles t k status body) = t"

fun idm_replayable :: "idm_event \<Rightarrow> bool" where
  "idm_replayable (Arrives t k) = True"
| "idm_replayable (Settles t k status body) = replayable body"

text \<open>The handlers run for a key all failed but the last one, and every replayed answer is that of the last one.\<close>

definition idempotent :: "'s idm_sys \<Rightarrow> bool" where
  "idempotent y \<longleftrightarrow> (\<forall>k. list_all (\<lambda>e. e = Failed) (butlast (isLog y k)))
     \<and> (\<forall>(k, status, body)\<in>set (isReplays y). isLog y k \<noteq> [] \<and> last (isLog y k) = Succeeded status body)"

definition idm_start :: "'s \<Rightarrow> 's idm_sys" where
  "idm_start s = \<lparr>isStore = s, isLog = (\<lambda>_. []), isReplays = []\<rparr>"

text \<open>What a store shows of a key, and what was run for it, fit.\<close>

definition fits :: "execution list \<Rightarrow> stored_result option \<Rightarrow> bool \<Rightarrow> bool" where
  "fits l r b \<longleftrightarrow>
     (if l = [] \<or> last l = Failed then r = None \<and> \<not> b else if last l = Running then r = None \<and> b
      else \<not> b \<and> (\<exists>x. r = Some x \<and> last l = Succeeded (srStatus x) (srBody x)))"

lemma fits_cases:
  "fits l (Some x) b \<longleftrightarrow> l \<noteq> [] \<and> last l = Succeeded (srStatus x) (srBody x) \<and> \<not> b"
  "fits l None False \<longleftrightarrow> l = [] \<or> last l = Failed"
  "fits l None True \<longleftrightarrow> l \<noteq> [] \<and> last l = Running"
  by (auto simp: fits_def)

context idempotency_store
begin

text \<open>What the store shows of a key from a time on agrees with what was run for it.\<close>

definition agrees :: "int \<Rightarrow> int \<Rightarrow> 's idm_sys \<Rightarrow> bool" where
  "agrees now till y \<longleftrightarrow> (\<forall>k t. now \<le> t \<longrightarrow> t < till \<longrightarrow> fits (isLog y k) (result t k (isStore y)) (busy t k (isStore y)))"

lemma agrees_later: "agrees now till y \<Longrightarrow> now \<le> now' \<Longrightarrow> agrees now' till y"
  by (simp add: agrees_def)

lemma admission_cases:
  assumes "idempotencyMiddleware get mark None (Single k) t t s = (a, s')"
  shows "a \<in> {PassedThrough, Rejected400} \<and> s' = s
    \<or> (\<exists>r. a = Replayed r \<and> result t k s = Some r \<and> s' = snd (get t k s))
    \<or> (a = Processing409 \<and> result t k s = None \<and> busy t k s \<and> s' = snd (mark t k (snd (get t k s))))
    \<or> (a = Proceeds k \<and> result t k s = None \<and> \<not> busy t k s \<and> s' = snd (mark t k (snd (get t k s))))"
proof -
  obtain stored s1 where g: "get t k s = (stored, s1)" by (cases "get t k s")
  obtain free s2 where m: "mark t k s1 = (free, s2)" by (cases "mark t k s1")
  have "stored = result t k s" using get_result [of t k s] g by simp
  moreover have "free \<longleftrightarrow> \<not> busy t k s" using mark_result [of t k s1] get_keeps [of t t k k s] g m by simp
  ultimately show ?thesis using assms g m
    by (auto simp: idempotencyMiddleware_def check_key_def store_key_def Let_def split: if_splits option.splits bool.splits)
qed

lemma idempotent_keep:
  "idempotent y \<Longrightarrow> isLog y' = isLog y \<Longrightarrow> isReplays y' = isReplays y \<Longrightarrow> idempotent y'"
  by (simp add: idempotent_def)

lemma arrives_step:
  assumes "agrees t till y" and "idempotent y" and "till \<le> t + W" and "t < till"
  shows "agrees t till (idm_step get mark finish clear y (Arrives t k)) \<and> idempotent (idm_step get mark finish clear y (Arrives t k))"
proof -
  obtain a s' where adm: "idempotencyMiddleware get mark None (Single k) t t (isStore y) = (a, s')"
    by (cases "idempotencyMiddleware get mark None (Single k) t t (isStore y)")
  have now: "fits (isLog y k) (result t k (isStore y)) (busy t k (isStore y))"
    using assms(1,4) by (simp add: agrees_def)
  show ?thesis
    using admission_cases [OF adm]
  proof (elim disjE exE conjE)
    assume a: "a \<in> {PassedThrough, Rejected400}" "s' = isStore y"
    then have "idm_step get mark finish clear y (Arrives t k) = y" using adm by auto
    then show ?thesis using assms(1,2) by simp
  next
    fix r assume r: "a = Replayed r" "result t k (isStore y) = Some r" "s' = snd (get t k (isStore y))"
    have step: "idm_step get mark finish clear y (Arrives t k) = y\<lparr>isStore := s', isReplays := isReplays y @ [(k, srStatus r, srBody r)]\<rparr>"
      using adm r by simp
    have "isLog y k \<noteq> []" "last (isLog y k) = Succeeded (srStatus r) (srBody r)" using now r(2) by (simp_all add: fits_cases)
    moreover have "agrees t till (y\<lparr>isStore := s', isReplays := isReplays y @ [(k, srStatus r, srBody r)]\<rparr>)"
      using assms(1) by (simp add: agrees_def r(3) get_keeps)
    ultimately show ?thesis unfolding step using assms(2) by (auto simp: idempotent_def)
  next
    assume r: "a = Processing409" "result t k (isStore y) = None" "busy t k (isStore y)" "s' = snd (mark t k (snd (get t k (isStore y))))"
    have step: "idm_step get mark finish clear y (Arrives t k) = y\<lparr>isStore := s'\<rparr>" using adm r by simp
    have "busy t k (snd (get t k (isStore y)))" using r(3) get_keeps [of t t] by simp
    then have "agrees t till (y\<lparr>isStore := s'\<rparr>)"
      using assms(1) by (simp add: agrees_def r(4) get_keeps mark_keeps mark_refused)
    then show ?thesis unfolding step using idempotent_keep [OF assms(2), of "y\<lparr>isStore := s'\<rparr>"] by simp
  next
    assume r: "a = Proceeds k" "result t k (isStore y) = None" "\<not> busy t k (isStore y)" "s' = snd (mark t k (snd (get t k (isStore y))))"
    have step: "idm_step get mark finish clear y (Arrives t k) = y\<lparr>isStore := s', isLog := (isLog y)(k := isLog y k @ [Running])\<rparr>"
      using adm r by simp
    have log: "isLog y k = [] \<or> last (isLog y k) = Failed" using now r(2,3) by (simp add: fits_cases)
    have free: "\<not> busy t k (snd (get t k (isStore y)))" using r(3) get_keeps [of t t] by simp
    have res: "result t' k' s' = result t' k' (isStore y)" if "t \<le> t'" for t' k'
      using that by (simp add: r(4) mark_keeps get_keeps)
    have bus: "busy t' k' s' \<longleftrightarrow> k' = k \<or> busy t' k' (isStore y)" if "t \<le> t'" "t' < till" for t' k'
      using mark_busy [OF free that(1)] that assms(3) get_keeps [OF that(1), of k' k "isStore y"] by (simp add: r(4))
    have "agrees t till (y\<lparr>isStore := s', isLog := (isLog y)(k := isLog y k @ [Running])\<rparr>)"
      unfolding agrees_def
    proof (intro allI impI)
      fix k' t' assume t': "t \<le> t'" "t' < till"
      have "fits (isLog y k') (result t' k' (isStore y)) (busy t' k' (isStore y))" using assms(1) t' by (simp add: agrees_def)
      then show "fits (isLog (y\<lparr>isStore := s', isLog := (isLog y)(k := isLog y k @ [Running])\<rparr>) k')
          (result t' k' (isStore (y\<lparr>isStore := s', isLog := (isLog y)(k := isLog y k @ [Running])\<rparr>)))
          (busy t' k' (isStore (y\<lparr>isStore := s', isLog := (isLog y)(k := isLog y k @ [Running])\<rparr>)))"
        using log by (cases "k' = k") (auto simp: res [OF t'(1)] bus [OF t'] fits_def)
    qed
    moreover have "idempotent (y\<lparr>isStore := s', isLog := (isLog y)(k := isLog y k @ [Running])\<rparr>)"
    proof -
      have "list_all (\<lambda>e. e = Failed) (isLog y k)"
      proof (cases "isLog y k = []")
        case False
        then have split: "isLog y k = butlast (isLog y k) @ [Failed]" using log by (metis append_butlast_last_id)
        show ?thesis by (subst split) (use assms(2) in \<open>simp add: idempotent_def\<close>)
      qed simp
      moreover have "k' \<noteq> k" if "(k', status, body) \<in> set (isReplays y)" for k' status body
        using that assms(2) log by (fastforce simp: idempotent_def)
      ultimately show ?thesis using assms(2) by (fastforce simp: idempotent_def)
    qed
    ultimately show ?thesis unfolding step by simp
  qed
qed

lemma settles_step:
  assumes "agrees t till y" and "idempotent y" and "till \<le> t + W" and "replayable body"
  shows "agrees t till (idm_step get mark finish clear y (Settles t k status body)) \<and> idempotent (idm_step get mark finish clear y (Settles t k status body))"
proof (cases "idm_running k y")
  case True
  define e where "e = (if is_success status then Succeeded status body else Failed)"
  define s' where "s' = (if is_success status then finish t k status body (isStore y) else clear t k (isStore y))"
  have step: "idm_step get mark finish clear y (Settles t k status body) = y\<lparr>isStore := s', isLog := (isLog y)(k := butlast (isLog y k) @ [e])\<rparr>"
    using True by (simp add: e_def s'_def)
  have shows_k: "fits (butlast (isLog y k) @ [e]) (result t' k s') (busy t' k s')"
    if "t \<le> t'" "t' < till" and was: "fits (isLog y k) (result t' k (isStore y)) (busy t' k (isStore y))" for t'
  proof -
    have "result t' k (isStore y) = None" using was True by (auto simp: fits_def idm_running_def)
    then show ?thesis
      using that assms(3,4) by (simp add: e_def s'_def fits_def finish_result finish_busy clear_keeps clear_busy)
  qed
  have others: "result t' k' s' = result t' k' (isStore y) \<and> busy t' k' s' = busy t' k' (isStore y)"
    if "t \<le> t'" "t' < till" "k' \<noteq> k" for t' k'
    using that assms(3,4) by (simp add: s'_def finish_result finish_busy clear_keeps clear_busy)
  have "agrees t till (y\<lparr>isStore := s', isLog := (isLog y)(k := butlast (isLog y k) @ [e])\<rparr>)"
    using assms(1) shows_k others by (auto simp: agrees_def)
  moreover have "idempotent (y\<lparr>isStore := s', isLog := (isLog y)(k := butlast (isLog y k) @ [e])\<rparr>)"
  proof -
    have "k' \<noteq> k" if "(k', c, b) \<in> set (isReplays y)" for k' c b
      using that assms(2) True by (fastforce simp: idempotent_def idm_running_def)
    then show ?thesis using assms(2) by (fastforce simp: idempotent_def)
  qed
  ultimately show ?thesis unfolding step by simp
qed (use assms(1,2) in simp)

lemma steps_idempotent:
  assumes "agrees now till y" and "idempotent y" and "sorted (now # map idm_time events)" and "\<forall>e\<in>set events. idm_time e < till \<and> idm_replayable e"
    and "till \<le> now + W"
  shows "idempotent (foldl (idm_step get mark finish clear) y events)"
  using assms
proof (induction events arbitrary: now y)
  case (Cons e events)
  have t: "now \<le> idm_time e" "idm_time e < till" "till \<le> idm_time e + W" using Cons.prems by auto
  have "agrees (idm_time e) till y" using agrees_later [OF Cons.prems(1) t(1)] .
  then have "agrees (idm_time e) till (idm_step get mark finish clear y e) \<and> idempotent (idm_step get mark finish clear y e)"
    using arrives_step settles_step t Cons.prems(2,4) by (cases e) auto
  then show ?case using Cons.IH [of "idm_time e"] Cons.prems t(3) by simp
qed simp

lemma requests_once:
  assumes "\<forall>t k. now \<le> t \<longrightarrow> result t k s = None \<and> \<not> busy t k s"
    and "sorted (now # map idm_time events)" and "\<forall>e\<in>set events. idm_time e < now + W \<and> idm_replayable e"
  shows "idempotent (foldl (idm_step get mark finish clear) (idm_start s) events)"
  by (rule steps_idempotent [where now = now and till = "now + W"])
     (use assms in \<open>auto simp: agrees_def idm_start_def fits_def idempotent_def\<close>)

end

section \<open>The in-memory store keeps the interface\<close>

definition im_result :: "int \<Rightarrow> int \<Rightarrow> string \<Rightarrow> idm_memory \<Rightarrow> stored_result option" where
  "im_result W t k s = fst (im_get W t k s)"

interpretation memory_store: idempotency_store "im_get W" "\<lambda>t. im_markInFlight" "im_complete" "\<lambda>t. im_clearInFlight"
  "im_result W" "\<lambda>t. im_isInFlight" W
  for W
proof
  fix t t' :: int and k k' :: string and s :: idm_memory
  show "t \<le> t' \<Longrightarrow> im_result W t' k' (snd (im_get W t k s)) = im_result W t' k' s \<and> im_isInFlight k' (snd (im_get W t k s)) = im_isInFlight k' s"
    by (auto simp: im_result_def im_get_def im_isInFlight_def split: option.splits)
qed (auto simp: im_result_def im_get_def im_isInFlight_def im_markInFlight_def im_complete_def im_clearInFlight_def split: option.splits)

section \<open>The Redis store keeps the interface\<close>

lemma prefixes_differ: "IN_FLIGHT_PREFIX @ a \<noteq> RESULT_PREFIX @ b" "RESULT_PREFIX @ b \<noteq> IN_FLIGHT_PREFIX @ a"
  by (simp_all add: IN_FLIGHT_PREFIX_def RESULT_PREFIX_def)

lemma stored_text:
  assumes "replayable (srBody r)"
  shows "\<exists>text v. js_stringify (stored_json r) = Some text \<and> text \<noteq> [] \<and> json_parse text = Some v \<and> read_stored v = Some r"
proof -
  define v where "v = (if srBody r = JUndef then JObj [(''statusCode'', JNum (srStatus r)), (''createdAt'', JNum (srCreatedAt r))] else stored_json r)"
  have "json_value v" using assms by (auto simp: v_def stored_json_def replayable_def)
  moreover have "js_stringify (stored_json r) = js_stringify v" by (simp add: v_def stored_json_def)
  moreover have "read_stored v = Some r" by (simp add: v_def stored_json_def read_stored_def)
  ultimately show ?thesis using json_value_text [of v] json_roundtrip [of v] by auto
qed

lemma redis_idempotency_store:
  assumes "redis_laws R" and "0 < W"
  shows "idempotency_store (\<lambda>t k s. (ri_get R t k s, s)) (ri_markInFlight R W) (ri_complete R W True) (ri_clearInFlight R)
    (ri_get R) (ri_isInFlight R) W"
proof -
  note laws = redis_lawsD [OF assms(1)]
  have ttl: "W \<le> ri_ttl W" by (simp add: ri_ttl_def ceil_seconds_ge)
  show ?thesis
  proof
    fix t t' :: int and k k' s
    assume "\<not> ri_isInFlight R t k s" "t \<le> t'" "t' < t + W"
    then show "ri_isInFlight R t' k' (snd (ri_markInFlight R W t k s)) \<longleftrightarrow> k' = k \<or> ri_isInFlight R t' k' s"
      using ttl by (auto simp: ri_isInFlight_def ri_markInFlight_def laws live_def)
  next
    fix t t' :: int and k k' s status body
    assume b: "replayable body" and t: "t \<le> t'" "t' < t + W"
    obtain printed v where "js_stringify (stored_json \<lparr>srStatus = status, srBody = body, srCreatedAt = t\<rparr>) = Some printed"
      "printed \<noteq> []" "json_parse printed = Some v" "read_stored v = Some \<lparr>srStatus = status, srBody = body, srCreatedAt = t\<rparr>"
      using stored_text [of "\<lparr>srStatus = status, srBody = body, srCreatedAt = t\<rparr>"] b by auto
    then show "ri_get R t' k' (ri_complete R W True t k status body s) =
        (if k' = k then Some \<lparr>srStatus = status, srBody = body, srCreatedAt = t\<rparr> else ri_get R t' k' s)"
      using t ttl by (simp add: ri_get_def ri_complete_def laws prefixes_differ live_def)
  qed (auto simp: ri_get_def ri_isInFlight_def ri_markInFlight_def ri_complete_def ri_clearInFlight_def laws prefixes_differ Let_def)
qed

interpretation mem_redis_store: idempotency_store "\<lambda>t k s. (ri_get mem_redis t k s, s)" "ri_markInFlight mem_redis 1000"
  "ri_complete mem_redis 1000 True" "ri_clearInFlight mem_redis" "ri_get mem_redis" "ri_isInFlight mem_redis" 1000
  by (rule redis_idempotency_store [OF mem_redis_laws]) simp

section \<open>Exactly once\<close>

text \<open>A result that a replica writes to Redis is read back by every replica as it was, whatever JSON value the body is.\<close>

theorem stored_result_roundtrip:
  assumes "replayable (srBody r)"
  shows "\<exists>text v. js_stringify (stored_json r) = Some text \<and> json_parse text = Some v \<and> read_stored v = Some r"
  using stored_text [OF assms] by blast

theorem stored_result_roundtrip_witness:
  "\<exists>text v. js_stringify (stored_json \<lparr>srStatus = 201, srBody = JObj [(''id'', JStr ''a'')], srCreatedAt = 5\<rparr>) = Some text
    \<and> json_parse text = Some v \<and> read_stored v = Some \<lparr>srStatus = 201, srBody = JObj [(''id'', JStr ''a'')], srCreatedAt = 5\<rparr>"
  by (rule stored_result_roundtrip) (simp add: replayable_def)


definition demo_idm_events :: "idm_event list" where
  "demo_idm_events = [Arrives 0 ''k'', Arrives 1 ''k'', Settles 2 ''k'' 500 JNull, Arrives 3 ''k'', Settles 4 ''k'' 201 (JStr ''x''), Arrives 5 ''k'']"


text \<open>The in-memory store makes creation requests idempotent in the same way.\<close>

theorem memory_requests_idempotent:
  assumes "sorted (now # map idm_time events)" and "\<forall>e\<in>set events. idm_time e < now + W \<and> idm_replayable e"
  shows "idempotent (foldl (idm_step (im_get W) (\<lambda>t. im_markInFlight) im_complete (\<lambda>t. im_clearInFlight)) (idm_start new_idm_memory) events)"
  by (rule memory_store.requests_once [where now = now]) (use assms in \<open>simp_all add: im_result_def im_get_def im_isInFlight_def new_idm_memory_def\<close>)

theorem memory_requests_idempotent_witness:
  "idempotent (foldl (idm_step (im_get 1000) (\<lambda>t. im_markInFlight) im_complete (\<lambda>t. im_clearInFlight)) (idm_start new_idm_memory) demo_idm_events)"
  by (rule memory_requests_idempotent [where now = 0]) (simp_all add: demo_idm_events_def replayable_def)

lemma demo_idm_replays:
  "isReplays (foldl (idm_step (im_get 1000) (\<lambda>t. im_markInFlight) im_complete (\<lambda>t. im_clearInFlight)) (idm_start new_idm_memory) demo_idm_events)
    = [(''k'', 201, JStr ''x'')]"
  by code_simp

section \<open>Requests that overlap\<close>

text \<open>A request that looks the key up before the first one completes and marks it afterwards runs its handler a second time.\<close>

lemma overlapping_request_runs_twice:
  fixes s1 defines "s1 \<equiv> snd (im_markInFlight ''k'' new_idm_memory)"
  shows "im_get 1000 1 ''k'' s1 = (None, s1) \<and> fst (im_markInFlight ''k'' (im_complete 2 ''k'' 201 JNull s1))"
  by (simp add: s1_def im_get_def im_markInFlight_def im_complete_def new_idm_memory_def)

text \<open>When the write of a result fails, the key stays in flight until the window has passed.\<close>

lemma failed_completion_keeps_key_busy:
  "ri_isInFlight R t k (ri_complete R W False now k status body s) = ri_isInFlight R t k s"
  by (simp add: ri_complete_def)

text \<open>The scope is put before the key with a colon, which both can contain.\<close>

lemma scopes_collide: "store_key (Some ''a'') ''b:c'' = store_key (Some ''a:b'') ''c''"
  by (simp add: store_key_def)

section \<open>Settling a response\<close>

definition is_send :: "response_event \<Rightarrow> bool" where
  "is_send e \<longleftrightarrow> (case e of Send _ \<Rightarrow> True | _ \<Rightarrow> False)"

definition is_json :: "response_event \<Rightarrow> bool" where
  "is_json e \<longleftrightarrow> (case e of Json _ _ \<Rightarrow> True | _ \<Rightarrow> False)"

text \<open>The last body that was sent as it is, and what the event that ends the sending should do.\<close>

definition sent_body :: "response_event list \<Rightarrow> jsval" where
  "sent_body events = foldl (\<lambda>b e. case e of Send x \<Rightarrow> if x \<noteq> JUndef then x else b | _ \<Rightarrow> b) JNull events"

definition settlement :: "jsval \<Rightarrow> response_event \<Rightarrow> settle_action" where
  "settlement sent e =
     (case e of
        Json status body \<Rightarrow> if is_success status then Complete status body else Clear
      | Ended finished status \<Rightarrow> if finished \<and> is_success status then Complete status sent else Clear
      | Send _ \<Rightarrow> Clear)"

lemma settled_stays:
  "seSettled s \<Longrightarrow> \<forall>e\<in>set es. \<not> is_json e \<Longrightarrow> foldl response_step s es = s"
proof (induction es)
  case (Cons e es)
  then show ?case by (cases e) (simp_all add: is_json_def)
qed simp

lemma sends_collect:
  "\<not> seSettled s \<Longrightarrow> \<forall>e\<in>set es. is_send e \<Longrightarrow> foldl response_step s es =
     s\<lparr>seSentBody := foldl (\<lambda>b e. case e of Send x \<Rightarrow> if x \<noteq> JUndef then x else b | _ \<Rightarrow> b) (seSentBody s) es\<rparr>"
proof (induction es arbitrary: s)
  case (Cons e es)
  then obtain x where "e = Send x" by (cases e) (simp_all add: is_send_def)
  then show ?case using Cons by simp
qed simp

text \<open>Whatever a handler does to its response, the lock on its key is settled exactly once, by the first JSON body or the end of the response: a
  successful status completes the key with the body sent, anything else, a lost connection included, releases it; as long as
  no JSON body is sent afterwards.\<close>

theorem lock_settled_once:
  assumes "\<forall>e\<in>set sends. is_send e" and "\<not> is_send e" and "\<forall>e\<in>set rest. \<not> is_json e"
  shows "seActions (foldl response_step settle_init (sends @ e # rest)) = [settlement (sent_body sends) e]"
proof -
  have "\<not> seSettled settle_init" by (simp add: settle_init_def)
  from sends_collect [OF this assms(1)]
  have sent: "foldl response_step settle_init sends = settle_init\<lparr>seSentBody := sent_body sends\<rparr>"
    by (simp add: sent_body_def settle_init_def)
  have settled: "seSettled (response_step (settle_init\<lparr>seSentBody := sent_body sends\<rparr>) e)"
    using assms(2) by (cases e) (simp_all add: is_send_def settle_init_def)
  have "foldl response_step settle_init (sends @ e # rest) = response_step (settle_init\<lparr>seSentBody := sent_body sends\<rparr>) e"
    using settled_stays [OF settled assms(3)] by (simp add: sent)
  then show ?thesis using assms(2) by (cases e) (simp_all add: settlement_def is_send_def settle_init_def)
qed

theorem lock_settled_once_witness:
  "seActions (foldl response_step settle_init ([Send (JStr ''ok'')] @ Ended True 200 # [Ended True 200])) = [Complete 200 (JStr ''ok'')]"
  using lock_settled_once [of "[Send (JStr ''ok'')]" "Ended True 200" "[Ended True 200]"]
  by (simp add: is_send_def is_json_def settlement_def sent_body_def is_success_def)

text \<open>A second JSON body, as of an error handler after the response was sent, acts on the key again.\<close>

lemma second_body_settles_again:
  "seActions (foldl response_step settle_init [Json 200 JNull, Json 500 JNull]) = [Complete 200 JNull, Clear]"
  by (simp add: settle_init_def is_success_def)

text \<open>A client that disconnects releases the key while its handler still runs: its retry runs the handler beside the first, which
  completes the key when it is done.\<close>

lemma lost_connection_runs_again:
  "seActions (foldl response_step settle_init [Ended False 200, Json 201 JNull]) = [Clear, Complete 201 JNull]"
  "fst (im_markInFlight ''k'' (im_clearInFlight ''k'' (snd (im_markInFlight ''k'' new_idm_memory))))"
  by (simp_all add: settle_init_def is_success_def im_markInFlight_def im_clearInFlight_def new_idm_memory_def)

text \<open>A replayed answer has the stored status, whatever it is.\<close>

lemma replay_keeps_status:
  "idempotencyMiddleware (im_get 1000) (\<lambda>t. im_markInFlight) None (Single ''k'') 5 5 (im_complete 4 ''k'' 201 JNull new_idm_memory)
    = (Replayed \<lparr>srStatus = 201, srBody = JNull, srCreatedAt = 4\<rparr>, im_complete 4 ''k'' 201 JNull new_idm_memory)"
  by code_simp

end
