(* ===== verification/Free_Text.thy ===== *)
theory Free_Text
  imports Prelude
begin

text \<open>
  \<open>backend/src/middleware/freeTextSanitization.ts\<close>: free text in a request body is stripped of control and invisible characters,
  normalised, trimmed and bounded in length.

  A JavaScript string is the list of its 16-bit code units here, since the ranges that are stripped lie outside ASCII.
  \<open>String.normalize("NFC")\<close> is a parameter with the laws that the Unicode standard gives.
\<close>

section \<open>Code units\<close>

type_synonym units = "nat list"

text \<open>\<open>ALWAYS_STRIPPED_RE\<close>.\<close>

definition always_stripped :: "nat \<Rightarrow> bool" where
  "always_stripped u \<longleftrightarrow> u \<le> 8 \<or> u \<in> {0xB, 0xC} \<or> (0xE \<le> u \<and> u \<le> 0x1F) \<or> (0x7F \<le> u \<and> u \<le> 0x9F) \<or> (0x200B \<le> u \<and> u \<le> 0x200F) \<or>
     (0x202A \<le> u \<and> u \<le> 0x202E) \<or> (0x2060 \<le> u \<and> u \<le> 0x2064) \<or> (0x2066 \<le> u \<and> u \<le> 0x2069) \<or> u = 0xFEFF \<or> (0xFFF9 \<le> u \<and> u \<le> 0xFFFB)"

definition high_surrogate :: "nat \<Rightarrow> bool" where
  "high_surrogate u \<longleftrightarrow> 0xD800 \<le> u \<and> u \<le> 0xDBFF"

definition low_surrogate :: "nat \<Rightarrow> bool" where
  "low_surrogate u \<longleftrightarrow> 0xDC00 \<le> u \<and> u \<le> 0xDFFF"

definition starts_low :: "units \<Rightarrow> bool" where
  "starts_low us \<longleftrightarrow> us \<noteq> [] \<and> low_surrogate (hd us)"

text \<open>
  \<open>replace(LONE_SURROGATE_RE, "")\<close>: the look-ahead and the look-behind see the original text, so a high surrogate stays
  exactly before a low one and a low one exactly behind a high one; \<open>prev\<close> says whether the unit before was high.
\<close>

fun drop_lone_surrogates :: "bool \<Rightarrow> units \<Rightarrow> units" where
  "drop_lone_surrogates prev [] = []"
| "drop_lone_surrogates prev (u # us) =
     (let keep = (if high_surrogate u then starts_low us else if low_surrogate u then prev else True)
      in (if keep then [u] else []) @ drop_lone_surrogates (high_surrogate u) us)"

text \<open>\<open>replace(/\r\n?/g, "\n")\<close>; \<open>cr\<close> says whether the unit before was a carriage return.\<close>

fun unify_line_ends :: "bool \<Rightarrow> units \<Rightarrow> units" where
  "unify_line_ends cr [] = []"
| "unify_line_ends cr (u # us) =
     (if u = 0xD then 0xA # unify_line_ends True us
      else if u = 0xA \<and> cr then unify_line_ends False us else u # unify_line_ends False us)"

text \<open>\<open>replace(/[\t\n]+/g, " ")\<close>; \<open>run\<close> says whether the unit before was replaced.\<close>

fun collapse_breaks :: "bool \<Rightarrow> units \<Rightarrow> units" where
  "collapse_breaks run [] = []"
| "collapse_breaks run (u # us) =
     (if u = 9 \<or> u = 0xA then (if run then collapse_breaks True us else 0x20 # collapse_breaks True us) else u # collapse_breaks False us)"

definition stripControlChars :: "bool \<Rightarrow> units \<Rightarrow> units" where
  "stripControlChars multiline v =
     (let out = map (\<lambda>u. if u = 0x2028 \<or> u = 0x2029 then 0xA else u) (unify_line_ends False (filter (\<lambda>u. \<not> always_stripped u) (drop_lone_surrogates False v)))
      in if \<not> multiline then collapse_breaks False out else out)"

text \<open>The iterator of a string yields a pair of surrogates as one.\<close>

fun codePointLength :: "units \<Rightarrow> nat" where
  "codePointLength [] = 0"
| "codePointLength [u] = 1"
| "codePointLength (u # v # us) = (if high_surrogate u \<and> low_surrogate v then Suc (codePointLength us) else Suc (codePointLength (v # us)))"

text \<open>The white space and line ends that \<open>trim\<close> removes.\<close>

definition trim_space :: "nat \<Rightarrow> bool" where
  "trim_space u \<longleftrightarrow> u \<in> {9, 0xA, 0xB, 0xC, 0xD, 0x20, 0xA0, 0x1680, 0x2028, 0x2029, 0x202F, 0x205F, 0x3000, 0xFEFF} \<or> (0x2000 \<le> u \<and> u \<le> 0x200A)"

definition trim_units :: "units \<Rightarrow> units" where
  "trim_units v = rev (dropWhile trim_space (rev (dropWhile trim_space v)))"

definition normalizeFreeText :: "(units \<Rightarrow> units) \<Rightarrow> bool \<Rightarrow> units \<Rightarrow> units" where
  "normalizeFreeText nfc multiline v =
     (let stripped = nfc (stripControlChars multiline v) in trim_units (stripControlChars multiline stripped))"

section \<open>Bodies\<close>

datatype body =
  BText units
| BScalar
| BArray "body list"
| BObject "(string \<times> body) list"

record text_rule =
  trMaxLength :: nat
  trMultiline :: bool

datatype path_part = PKey string | PIndex nat

record text_violation =
  tvField :: "path_part list"
  tvMaxLength :: nat
  tvActualLength :: nat

definition DEFAULT_FREE_TEXT_RULES :: "(string \<times> text_rule) list" where
  "DEFAULT_FREE_TEXT_RULES =
     [(''description'', \<lparr>trMaxLength = 2000, trMultiline = True\<rparr>), (''summary'', \<lparr>trMaxLength = 1000, trMultiline = True\<rparr>),
      (''notes'', \<lparr>trMaxLength = 2000, trMultiline = True\<rparr>), (''bio'', \<lparr>trMaxLength = 1000, trMultiline = True\<rparr>),
      (''reason'', \<lparr>trMaxLength = 1000, trMultiline = True\<rparr>), (''title'', \<lparr>trMaxLength = 200, trMultiline = False\<rparr>),
      (''name'', \<lparr>trMaxLength = 100, trMultiline = False\<rparr>)]"

text \<open>The sanitized value and the violations in the order they are pushed; a scalar stands for every number, boolean and \<open>null\<close>.\<close>

fun sanitizeFreeTextFields :: "(units \<Rightarrow> units) \<Rightarrow> (string \<times> text_rule) list \<Rightarrow> path_part list \<Rightarrow> body \<Rightarrow> body \<times> text_violation list"
  and sanitize_items :: "(units \<Rightarrow> units) \<Rightarrow> (string \<times> text_rule) list \<Rightarrow> path_part list \<Rightarrow> nat \<Rightarrow> body list \<Rightarrow> body list \<times> text_violation list"
  and sanitize_fields :: "(units \<Rightarrow> units) \<Rightarrow> (string \<times> text_rule) list \<Rightarrow> path_part list \<Rightarrow> (string \<times> body) list \<Rightarrow> (string \<times> body) list \<times> text_violation list" where
  "sanitizeFreeTextFields nfc rules path (BArray bs) = (case sanitize_items nfc rules path 0 bs of (bs', vs) \<Rightarrow> (BArray bs', vs))"
| "sanitizeFreeTextFields nfc rules path (BObject fs) = (case sanitize_fields nfc rules path fs of (fs', vs) \<Rightarrow> (BObject fs', vs))"
| "sanitizeFreeTextFields nfc rules path (BText t) = (BText t, [])"
| "sanitizeFreeTextFields nfc rules path BScalar = (BScalar, [])"
| "sanitize_items nfc rules path i [] = ([], [])"
| "sanitize_items nfc rules path i (b # bs) =
     (case (sanitizeFreeTextFields nfc rules (path @ [PIndex i]) b, sanitize_items nfc rules path (Suc i) bs) of
        ((b', vs), (bs', ws)) \<Rightarrow> (b' # bs', vs @ ws))"
| "sanitize_fields nfc rules path [] = ([], [])"
| "sanitize_fields nfc rules path ((k, c) # fs) =
     (case ((case (map_of rules k, c) of
               (Some r, BText t) \<Rightarrow>
                 (let s = normalizeFreeText nfc (trMultiline r) t; n = codePointLength s
                  in (BText s, if n > trMaxLength r then [\<lparr>tvField = path @ [PKey k], tvMaxLength = trMaxLength r, tvActualLength = n\<rparr>] else []))
             | _ \<Rightarrow> sanitizeFreeTextFields nfc rules (path @ [PKey k]) c), sanitize_fields nfc rules path fs) of
        ((c', vs), (fs', ws)) \<Rightarrow> ((k, c') # fs', vs @ ws))"

text \<open>\<open>Inl\<close> is the answer 400; a body that is no object or array passes as it is.\<close>

definition freeTextSanitizationMiddleware :: "(units \<Rightarrow> units) \<Rightarrow> (string \<times> text_rule) list \<Rightarrow> body \<Rightarrow> (text_violation list, body) res" where
  "freeTextSanitizationMiddleware nfc rules b =
     (case b of
        BText t \<Rightarrow> Inr b
      | BScalar \<Rightarrow> Inr b
      | _ \<Rightarrow> (case sanitizeFreeTextFields nfc rules [] b of (b', vs) \<Rightarrow> if vs \<noteq> [] then Inl vs else Inr b'))"

section \<open>Stripping\<close>

text \<open>What stripping leaves nothing of.\<close>

fun paired :: "bool \<Rightarrow> units \<Rightarrow> bool" where
  "paired prev [] = True"
| "paired prev (u # us) =
     ((if high_surrogate u then starts_low us else if low_surrogate u then prev else True)
      \<and> paired (high_surrogate u) us)"

definition forbidden :: "bool \<Rightarrow> nat \<Rightarrow> bool" where
  "forbidden multiline u \<longleftrightarrow> always_stripped u \<or> u \<in> {0xD, 0x2028, 0x2029} \<or> (\<not> multiline \<and> u \<in> {9, 0xA})"

definition plain_text :: "bool \<Rightarrow> units \<Rightarrow> bool" where
  "plain_text multiline v \<longleftrightarrow> paired False v \<and> (\<forall>u\<in>set v. \<not> forbidden multiline u)"

lemma surrogate_disjoint: "high_surrogate u \<Longrightarrow> \<not> low_surrogate u" "low_surrogate u \<Longrightarrow> \<not> high_surrogate u"
  by (simp_all add: high_surrogate_def low_surrogate_def)

lemma surrogate_kept:
  "high_surrogate u \<or> low_surrogate u \<Longrightarrow> \<not> always_stripped u" "high_surrogate u \<or> low_surrogate u \<Longrightarrow> \<not> forbidden m u"
  "high_surrogate u \<or> low_surrogate u \<Longrightarrow> \<not> trim_space u"
  "high_surrogate u \<or> low_surrogate u \<Longrightarrow> u \<noteq> 9 \<and> u \<noteq> 10 \<and> u \<noteq> 13 \<and> u \<noteq> 32 \<and> u \<noteq> 0x2028 \<and> u \<noteq> 0x2029"
  by (auto simp: high_surrogate_def low_surrogate_def always_stripped_def forbidden_def trim_space_def)

lemma not_surrogates [simp]: "\<not> high_surrogate 10" "\<not> low_surrogate 10" "\<not> high_surrogate 32" "\<not> low_surrogate 32"
  "\<not> high_surrogate 9" "\<not> low_surrogate 9" "\<not> high_surrogate 13" "\<not> low_surrogate 13"
  by (simp_all add: high_surrogate_def low_surrogate_def)

lemma drop_paired: "paired prev v \<Longrightarrow> drop_lone_surrogates prev v = v"
  by (induction prev v rule: drop_lone_surrogates.induct) (auto simp: Let_def)


lemma paired_weaken: "paired q v \<Longrightarrow> (q \<Longrightarrow> p) \<Longrightarrow> paired p v"
  by (cases v) (auto split: if_splits)

lemma drop_lone_paired: "(starts_low v \<Longrightarrow> q \<Longrightarrow> p) \<Longrightarrow> paired p (drop_lone_surrogates q v)"
proof (induction v arbitrary: p q)
  case (Cons u us)
  consider "high_surrogate u" "starts_low us" | "high_surrogate u" "\<not> starts_low us" | "low_surrogate u" | "\<not> high_surrogate u" "\<not> low_surrogate u" by blast
  then show ?case
  proof cases
    case 1
    then obtain v vs where us: "us = v # vs" "low_surrogate v" by (cases us) (auto simp: starts_low_def)
    have "paired True (drop_lone_surrogates True us)" by (rule Cons.IH) simp
    then show ?thesis using 1 us surrogate_disjoint(2) [OF us(2)] by (simp add: Let_def starts_low_def)
  next
    case 2
    have "paired p (drop_lone_surrogates True us)" by (rule Cons.IH) (use 2 in auto)
    then show ?thesis using 2 by (simp add: Let_def)
  next
    case 3
    have "paired r (drop_lone_surrogates False us)" for r by (rule Cons.IH) simp
    then show ?thesis using 3 Cons.prems surrogate_disjoint(2) [OF 3] by (simp add: Let_def starts_low_def)
  next
    case 4
    have "paired False (drop_lone_surrogates False us)" by (rule Cons.IH) simp
    then show ?thesis using 4 by (simp add: Let_def)
  qed
qed simp

text \<open>A pass that leaves surrogates where they are and writes none keeps the pairs.\<close>

lemma paired_pass:
  assumes surr: "\<And>s u us. high_surrogate u \<or> low_surrogate u \<Longrightarrow> \<exists>s'. pass s (u # us) = u # pass s' us"
    and other: "\<And>s u us. \<not> high_surrogate u \<Longrightarrow> \<not> low_surrogate u \<Longrightarrow>
      \<exists>s' ws. pass s (u # us) = ws @ pass s' us \<and> (\<forall>w\<in>set ws. \<not> high_surrogate w \<and> \<not> low_surrogate w)"
    and nil: "\<And>s. pass s [] = []"
  shows "paired p v \<Longrightarrow> paired p (pass s v)"
proof (induction v arbitrary: p s)
  case Nil
  then show ?case by (simp add: nil)
next
  case (Cons u us)
  then have IH: "paired (high_surrogate u) (pass s' us)" for s' by simp
  show ?case
  proof (cases "high_surrogate u \<or> low_surrogate u")
    case True
    then obtain s' where s': "pass s (u # us) = u # pass s' us" using surr by blast
    have "starts_low (pass s' us)" if low: "starts_low us"
    proof -
      from low obtain v vs where "us = v # vs" "low_surrogate v" by (cases us) (auto simp: starts_low_def)
      then show ?thesis using surr [of v s' vs] by (auto simp: starts_low_def)
    qed
    then show ?thesis using Cons.prems IH unfolding s' by (simp split: if_splits)
  next
    case False
    then obtain s' ws where s': "pass s (u # us) = ws @ pass s' us" "\<forall>w\<in>set ws. \<not> high_surrogate w \<and> \<not> low_surrogate w" using other by blast
    have "paired False (pass s' us)" using IH False by simp
    then have "paired q (ws @ pass s' us)" for q
      using s'(2) by (induction ws arbitrary: q) (auto intro: paired_weaken)
    then show ?thesis unfolding s'(1) .
  qed
qed

lemma paired_filter: "(\<And>u. high_surrogate u \<or> low_surrogate u \<Longrightarrow> P u) \<Longrightarrow> paired p v \<Longrightarrow> paired p (filter P v)"
  by (rule paired_pass [where pass = "\<lambda>s. filter P" and s = "()"]) (auto intro: exI [of _ "[]"])

lemma paired_unify: "paired p v \<Longrightarrow> paired p (unify_line_ends cr v)"
proof (rule paired_pass [where pass = unify_line_ends])
  fix cr u us assume "\<not> high_surrogate u" "\<not> low_surrogate u"
  then show "\<exists>s' ws. unify_line_ends cr (u # us) = ws @ unify_line_ends s' us \<and> (\<forall>w\<in>set ws. \<not> high_surrogate w \<and> \<not> low_surrogate w)"
    by (cases "u = 13"; cases "u = 10 \<and> cr") (fastforce intro: exI [of _ "[10]"] exI [of _ "[u]"] exI [of _ "[]"])+
qed (auto dest: surrogate_kept(4))

lemma paired_collapse: "paired p v \<Longrightarrow> paired p (collapse_breaks run v)"
proof (rule paired_pass [where pass = collapse_breaks])
  fix run u us assume "\<not> high_surrogate u" "\<not> low_surrogate u"
  then show "\<exists>s' ws. collapse_breaks run (u # us) = ws @ collapse_breaks s' us \<and> (\<forall>w\<in>set ws. \<not> high_surrogate w \<and> \<not> low_surrogate w)"
    by (cases "u = 9 \<or> u = 10"; cases run) (fastforce intro: exI [of _ "[32]"] exI [of _ "[u]"] exI [of _ "[]"])+
qed (auto dest: surrogate_kept(4))

lemma paired_map:
  assumes "\<And>u. high_surrogate (f u) = high_surrogate u" "\<And>u. low_surrogate (f u) = low_surrogate u"
  shows "paired p (map f v) = paired p v"
proof -
  have "starts_low (map f us) = starts_low us" for us by (cases us) (simp_all add: starts_low_def assms)
  then show ?thesis by (induction v arbitrary: p) (simp_all add: assms)
qed

lemma set_unify: "u \<in> set (unify_line_ends cr v) \<Longrightarrow> u \<noteq> 0xD \<and> (u \<in> set v \<or> u = 0xA)"
  by (induction v arbitrary: cr) (auto split: if_splits)

lemma set_collapse: "u \<in> set (collapse_breaks run v) \<Longrightarrow> u \<notin> {9, 0xA} \<and> (u \<in> set v \<or> u = 0x20)"
  by (induction v arbitrary: run) (auto split: if_splits)

definition line_sep :: "nat \<Rightarrow> nat" where
  "line_sep u = (if u = 0x2028 \<or> u = 0x2029 then 0xA else u)"

lemma strip_plain: "plain_text m (stripControlChars m v)"
proof -
  define a where "a = filter (\<lambda>u. \<not> always_stripped u) (drop_lone_surrogates False v)"
  define b where "b = map line_sep (unify_line_ends False a)"
  have "paired False a" unfolding a_def using surrogate_kept(1) by (intro paired_filter drop_lone_paired) auto
  then have pb: "paired False b"
    unfolding b_def by (subst paired_map) (auto simp: high_surrogate_def low_surrogate_def line_sep_def intro: paired_unify)
  have b: "\<not> always_stripped u \<and> u \<noteq> 0xD \<and> u \<noteq> 0x2028 \<and> u \<noteq> 0x2029" if u: "u \<in> set b" for u
  proof -
    obtain w where w: "w \<in> set (unify_line_ends False a)" "u = line_sep w" using u by (auto simp: b_def)
    then have "w \<noteq> 0xD" "w = 0xA \<or> \<not> always_stripped w" using set_unify [OF w(1)] by (auto simp: a_def)
    then show ?thesis using w(2) by (auto simp: line_sep_def always_stripped_def split: if_splits)
  qed
  have "\<not> forbidden m u" if "u \<in> set (collapse_breaks False b)" "\<not> m" for u
    using b [of u] set_collapse [OF that(1)] by (auto simp: forbidden_def always_stripped_def)
  moreover have "\<not> forbidden m u" if "u \<in> set b" m for u using b [OF that(1)] that(2) by (simp add: forbidden_def)
  moreover have "stripControlChars m v = (if m then b else collapse_breaks False b)"
    by (simp add: stripControlChars_def Let_def b_def a_def line_sep_def cong: map_cong)
  ultimately show ?thesis using pb paired_collapse by (cases m) (auto simp: plain_text_def)
qed

lemma plain_strip:
  assumes "plain_text m v"
  shows "stripControlChars m v = v"
proof -
  have f: "filter (\<lambda>u. \<not> always_stripped u) v = v" using assms by (auto simp: plain_text_def forbidden_def intro: filter_True)
  have "\<forall>u\<in>set v. u \<noteq> 0xD \<Longrightarrow> unify_line_ends False v = v" for v by (induction v) auto
  then have u: "unify_line_ends False v = v" using assms by (auto simp: plain_text_def forbidden_def)
  have "\<forall>u\<in>set v. u \<notin> {9, 0xA} \<Longrightarrow> collapse_breaks False v = v" for v by (induction v) auto
  then have c: "\<not> m \<Longrightarrow> collapse_breaks False v = v" using assms by (auto simp: plain_text_def forbidden_def)
  have "map (\<lambda>u. if u = 0x2028 \<or> u = 0x2029 then 0xA else u) v = v" using assms by (auto simp: plain_text_def forbidden_def intro: map_idI)
  then show ?thesis using assms f u c by (simp add: stripControlChars_def Let_def plain_text_def drop_paired forbidden_def)
qed


section \<open>Normalising\<close>

text \<open>
  The Unicode Standard (Annex 15): normalising is idempotent, a part of a normalised text is normalised, and no control, invisible or unpaired unit
  comes from a text without one.
\<close>

definition nfc_laws :: "(units \<Rightarrow> units) \<Rightarrow> bool" where
  "nfc_laws nfc \<longleftrightarrow> (\<forall>v. nfc (nfc v) = nfc v) \<and> (\<forall>a v b. nfc (a @ v @ b) = a @ v @ b \<longrightarrow> nfc v = v) \<and> (\<forall>m v. plain_text m v \<longrightarrow> plain_text m (nfc v))"

lemma nfc_laws_id: "nfc_laws (\<lambda>v. v)"
  by (simp add: nfc_laws_def)

lemma paired_drop_prefix: "\<forall>u\<in>set a. \<not> high_surrogate u \<and> \<not> low_surrogate u \<Longrightarrow> paired False (a @ v) \<Longrightarrow> paired False v"
  by (induction a) auto

lemma paired_drop_suffix: "\<forall>u\<in>set b. \<not> low_surrogate u \<Longrightarrow> paired p (v @ b) \<Longrightarrow> paired p v"
proof (induction v arbitrary: p)
  case (Cons u us)
  have "starts_low (us @ b) \<Longrightarrow> starts_low us" using Cons.prems(1) by (cases us; cases b) (auto simp: starts_low_def)
  then show ?case using Cons by (auto split: if_splits)
qed simp

lemma trim_part: "\<exists>a b. v = a @ trim_units v @ b \<and> (\<forall>u\<in>set a \<union> set b. trim_space u)"
proof -
  let ?w = "dropWhile trim_space v"
  have v: "v = takeWhile trim_space v @ ?w" by simp
  have w: "?w = rev (dropWhile trim_space (rev ?w)) @ rev (takeWhile trim_space (rev ?w))"
    by (metis rev_append rev_rev_ident takeWhile_dropWhile_id)
  have "v = takeWhile trim_space v @ trim_units v @ rev (takeWhile trim_space (rev ?w))"
    using v w unfolding trim_units_def by metis
  moreover have "\<forall>u\<in>set (takeWhile trim_space v) \<union> set (rev (takeWhile trim_space (rev ?w))). trim_space u" by (auto dest: set_takeWhileD)
  ultimately show ?thesis by blast
qed

lemma plain_trim: "plain_text m v \<Longrightarrow> plain_text m (trim_units v)"
proof -
  assume v: "plain_text m v"
  obtain a b where ab: "v = a @ trim_units v @ b" "\<forall>u\<in>set a \<union> set b. trim_space u" using trim_part by blast
  then have "paired False (a @ trim_units v @ b)" using v by (metis plain_text_def)
  moreover have "\<forall>u\<in>set a \<union> set b. \<not> high_surrogate u \<and> \<not> low_surrogate u" using ab(2) surrogate_kept(3) by blast
  ultimately have "paired False (trim_units v)" using paired_drop_prefix [of a] paired_drop_suffix [of b] by blast
  moreover have "set (trim_units v) \<subseteq> set v" using ab(1) by (metis Un_iff set_append subsetI)
  ultimately show ?thesis using v by (auto simp: plain_text_def)
qed

lemma trim_trimmed: "trim_units (trim_units v) = trim_units v"
proof -
  have idem: "dropWhile P xs = xs" if "xs = [] \<or> \<not> P (hd xs)" for P and xs :: units using that by (cases xs) auto
  let ?w = "dropWhile trim_space v"
  have front: "trim_units v = [] \<or> \<not> trim_space (hd (trim_units v))"
  proof (cases "trim_units v")
    case (Cons x xs)
    obtain b where "?w = trim_units v @ b" by (metis rev_append rev_rev_ident takeWhile_dropWhile_id trim_units_def)
    then have "hd ?w = x" "?w \<noteq> []" using Cons by auto
    then show ?thesis using Cons hd_dropWhile [of trim_space v] by auto
  qed simp
  have behind: "rev (trim_units v) = [] \<or> \<not> trim_space (hd (rev (trim_units v)))"
    using hd_dropWhile [of trim_space "rev ?w"] by (auto simp: trim_units_def)
  show ?thesis using idem [of "trim_units v" trim_space, OF front] idem [of "rev (trim_units v)" trim_space, OF behind] unfolding trim_units_def [of "trim_units v"] by simp
qed

lemma normalize_plain: "nfc_laws nfc \<Longrightarrow> plain_text m (normalizeFreeText nfc m v)"
  unfolding normalizeFreeText_def Let_def by (intro plain_trim strip_plain)

lemma normalize_twice:
  assumes "nfc_laws nfc"
  shows "normalizeFreeText nfc m (normalizeFreeText nfc m v) = normalizeFreeText nfc m v"
proof -
  define w where "w = nfc (stripControlChars m v)"
  have w: "plain_text m w" "nfc w = w" using assms strip_plain unfolding w_def nfc_laws_def by blast+
  have t: "normalizeFreeText nfc m v = trim_units w" by (simp add: normalizeFreeText_def w_def [symmetric] plain_strip [OF w(1)])
  obtain a b where "w = a @ trim_units w @ b" using trim_part by blast
  then have "nfc (trim_units w) = trim_units w" using assms w(2) unfolding nfc_laws_def by metis
  then have "normalizeFreeText nfc m (trim_units w) = trim_units w"
    by (simp add: normalizeFreeText_def Let_def plain_strip [OF plain_trim [OF w(1)]] trim_trimmed)
  then show ?thesis unfolding t .
qed

section \<open>What is accepted\<close>

text \<open>Every free text of a body is normalised and within its limit.\<close>

fun clean_body :: "(units \<Rightarrow> units) \<Rightarrow> (string \<times> text_rule) list \<Rightarrow> body \<Rightarrow> bool"
  and clean_items :: "(units \<Rightarrow> units) \<Rightarrow> (string \<times> text_rule) list \<Rightarrow> body list \<Rightarrow> bool"
  and clean_fields :: "(units \<Rightarrow> units) \<Rightarrow> (string \<times> text_rule) list \<Rightarrow> (string \<times> body) list \<Rightarrow> bool" where
  "clean_body nfc rules (BArray bs) = clean_items nfc rules bs"
| "clean_body nfc rules (BObject fs) = clean_fields nfc rules fs"
| "clean_body nfc rules (BText t) = True"
| "clean_body nfc rules BScalar = True"
| "clean_items nfc rules [] = True"
| "clean_items nfc rules (b # bs) = (clean_body nfc rules b \<and> clean_items nfc rules bs)"
| "clean_fields nfc rules [] = True"
| "clean_fields nfc rules ((k, c) # fs) =
     ((case (map_of rules k, c) of
         (Some r, BText t) \<Rightarrow> plain_text (trMultiline r) t \<and> normalizeFreeText nfc (trMultiline r) t = t \<and> codePointLength t \<le> trMaxLength r
       | _ \<Rightarrow> clean_body nfc rules c) \<and> clean_fields nfc rules fs)"

lemma sanitized_field:
  assumes laws: "nfc_laws nfc"
    and field: "(case (map_of rules k, c) of
         (Some r, BText t) \<Rightarrow>
           (let s = normalizeFreeText nfc (trMultiline r) t; n = codePointLength s
            in (BText s, if n > trMaxLength r then [\<lparr>tvField = path @ [PKey k], tvMaxLength = trMaxLength r, tvActualLength = n\<rparr>] else []))
       | _ \<Rightarrow> sanitizeFreeTextFields nfc rules (path @ [PKey k]) c) = (c', [])"
    and rest: "\<And>c'. sanitizeFreeTextFields nfc rules (path @ [PKey k]) c = (c', []) \<Longrightarrow> clean_body nfc rules c' \<and> (\<forall>t. c' = BText t \<longrightarrow> c = BText t)"
  shows "clean_fields nfc rules [(k, c')]"
proof (cases "map_of rules k")
  case None
  then show ?thesis using field rest [of c'] by simp
next
  case (Some r)
  show ?thesis
  proof (cases c)
    case (BText t)
    then show ?thesis using field Some normalize_plain [OF laws] normalize_twice [OF laws] by (auto simp: Let_def split: if_splits)
  qed (use Some field rest [of c'] in \<open>auto split: body.splits\<close>)
qed

definition sanitizes :: "(units \<Rightarrow> units) \<Rightarrow> (string \<times> text_rule) list \<Rightarrow> body \<Rightarrow> bool" where
  "sanitizes nfc rules b \<longleftrightarrow> (\<forall>path b'. sanitizeFreeTextFields nfc rules path b = (b', []) \<longrightarrow> clean_body nfc rules b' \<and> (\<forall>t. b' = BText t \<longrightarrow> b = BText t))"

lemma sanitized_items: "\<forall>b\<in>set bs. sanitizes nfc rules b \<Longrightarrow> sanitize_items nfc rules path i bs = (bs', []) \<Longrightarrow> clean_items nfc rules bs'"
  by (induction bs arbitrary: i bs') (auto simp: sanitizes_def split: prod.splits)

lemma sanitized_fields:
  assumes "nfc_laws nfc"
  shows "\<forall>(k, c)\<in>set fs. sanitizes nfc rules c \<Longrightarrow> sanitize_fields nfc rules path fs = (fs', []) \<Longrightarrow> clean_fields nfc rules fs'"
proof (induction fs arbitrary: fs')
  case (Cons kc fs)
  obtain k c where kc: "kc = (k, c)" by (cases kc)
  obtain c' fs'' where parts: "(case (map_of rules k, c) of
         (Some r, BText t) \<Rightarrow>
           (let s = normalizeFreeText nfc (trMultiline r) t; n = codePointLength s
            in (BText s, if n > trMaxLength r then [\<lparr>tvField = path @ [PKey k], tvMaxLength = trMaxLength r, tvActualLength = n\<rparr>] else []))
       | _ \<Rightarrow> sanitizeFreeTextFields nfc rules (path @ [PKey k]) c) = (c', [])" "sanitize_fields nfc rules path fs = (fs'', [])" "fs' = (k, c') # fs''"
    using Cons.prems(2) unfolding kc sanitize_fields.simps by (auto split: prod.splits simp del: split_paired_Ex)
  have "clean_fields nfc rules [(k, c')]"
    by (rule sanitized_field [OF assms parts(1)]) (use Cons.prems(1) in \<open>simp add: kc sanitizes_def\<close>)
  moreover have "clean_fields nfc rules fs''" using Cons.IH parts(2) Cons.prems(1) by simp
  ultimately show ?case by (simp add: parts(3))
qed simp

lemma all_sanitized:
  assumes "nfc_laws nfc"
  shows "sanitizes nfc rules b"
proof (induction b)
  case (BArray bs)
  then have "clean_items nfc rules bs'" if "sanitize_items nfc rules path 0 bs = (bs', [])" for path bs'
    using sanitized_items that by blast
  then show ?case by (auto simp: sanitizes_def split: prod.splits)
next
  case (BObject fs)
  then have "\<forall>(k, c)\<in>set fs. sanitizes nfc rules c" by (auto intro: snds.intros)
  then have "clean_fields nfc rules fs'" if "sanitize_fields nfc rules path fs = (fs', [])" for path fs'
    using sanitized_fields [OF assms _ that] by blast
  then show ?case by (auto simp: sanitizes_def split: prod.splits)
qed (simp_all add: sanitizes_def)

lemma clean_stays:
  "clean_body nfc rules b \<Longrightarrow> sanitizeFreeTextFields nfc rules path b = (b, [])"
  "clean_items nfc rules bs \<Longrightarrow> sanitize_items nfc rules path i bs = (bs, [])"
  "clean_fields nfc rules fs \<Longrightarrow> sanitize_fields nfc rules path fs = (fs, [])"
  by (induction nfc rules b and nfc rules bs and nfc rules fs arbitrary: path and path i and path rule: clean_body_clean_items_clean_fields.induct)
    (auto simp: Let_def split: option.splits body.splits)

text \<open>C37: In a body that the middleware passes on every free text, at any depth, is free of control and invisible characters, unpaired surrogates and, unless it
  may have several lines, of line breaks and tabs; it is in normal form and within its limit; and passing the body through again changes nothing.\<close>

theorem accepted_body_clean:
  assumes "nfc_laws nfc" and "freeTextSanitizationMiddleware nfc rules b = Inr b'"
  shows "clean_body nfc rules b' \<and> freeTextSanitizationMiddleware nfc rules b' = Inr b'"
proof -
  have "clean_body nfc rules b'"
    using assms(2) all_sanitized [OF assms(1), of rules b] by (auto simp: freeTextSanitizationMiddleware_def sanitizes_def split: body.splits prod.splits if_splits)
  then show ?thesis by (cases b') (simp_all add: freeTextSanitizationMiddleware_def clean_stays)
qed

definition hidden_name :: body where
  "hidden_name = BObject [(''name'', BText [0x20, 65, 0x200B, 0xD, 0xA, 66, 0xD800])]"

theorem accepted_body_clean_witness:
  "freeTextSanitizationMiddleware (\<lambda>v. v) DEFAULT_FREE_TEXT_RULES hidden_name = Inr (BObject [(''name'', BText [65, 0x20, 66])]) \<and>
   clean_body (\<lambda>v. v) DEFAULT_FREE_TEXT_RULES (BObject [(''name'', BText [65, 0x20, 66])])"
proof -
  have "freeTextSanitizationMiddleware (\<lambda>v. v) DEFAULT_FREE_TEXT_RULES hidden_name = Inr (BObject [(''name'', BText [65, 0x20, 66])])"
    by (simp add: freeTextSanitizationMiddleware_def hidden_name_def DEFAULT_FREE_TEXT_RULES_def normalizeFreeText_def stripControlChars_def
        high_surrogate_def low_surrogate_def starts_low_def always_stripped_def trim_units_def trim_space_def)
  with accepted_body_clean [OF nfc_laws_id this] show ?thesis by blast
qed

end
