(* ===== verification/Notifications.thy ===== *)
theory Notifications
  imports Circuit_Breaker Retry_Backoff
begin

text \<open>
  \<open>backend/src/services/notificationService.ts\<close> and \<open>services/notificationPreferences.ts\<close>: notifications by mail, text message and webhook, each
  behind the user's preferences, a rate limit per recipient and event, a circuit breaker per provider and retries;
  \<open>config/explorer.ts\<close>: the links in mails; \<open>escapeHtml\<close> of \<open>middleware/freeTextSanitization.ts\<close>.

  The providers, the clock and the delays act on an outside world; the requests that providers were sent are recorded beside it with the status of the answer.
  A notification to several targets handles them one after the other: the code starts them together, and they share state
  only through the world, the limits and the breakers. The delivery of webhooks is a parameter. Metrics and log lines are left out, as is
  \<open>registerChannel\<close>: the three handlers are the constructor's. Two hyphens stand for the dash in the text of a refusal, and
  \<open>plVars\<close> is the metadata with texts as values, the template's name included. Tables are asked for their own keys only.
\<close>

section \<open>Explorer links\<close>

datatype explorer_network = Testnet | Mainnet | Futurenet
datatype explorer_provider = StellarExpert | StellarChain
datatype explorer_entity = EntityTx | EntityAccount | EntityContract | EntityAsset

definition network_of :: "string \<Rightarrow> explorer_network option" where
  "network_of s = (if s = ''testnet'' then Some Testnet else if s = ''mainnet'' then Some Mainnet else if s = ''futurenet'' then Some Futurenet else None)"

definition explorer_base :: "explorer_network \<Rightarrow> explorer_provider \<Rightarrow> string" where
  "explorer_base n p =
     (case (n, p) of
        (Testnet, StellarExpert) \<Rightarrow> ''https://stellar.expert/explorer/testnet''
      | (Testnet, StellarChain) \<Rightarrow> ''https://testnet.stellarchain.io''
      | (Mainnet, StellarExpert) \<Rightarrow> ''https://stellar.expert/explorer/public''
      | (Mainnet, StellarChain) \<Rightarrow> ''https://stellarchain.io''
      | (Futurenet, StellarExpert) \<Rightarrow> ''https://stellar.expert/explorer/futurenet''
      | (Futurenet, StellarChain) \<Rightarrow> ''https://futurenet.stellarchain.io'')"

definition provider_name :: "explorer_provider \<Rightarrow> string" where
  "provider_name p = (case p of StellarExpert \<Rightarrow> ''stellar.expert'' | StellarChain \<Rightarrow> ''stellarchain'')"

definition entity_of :: "string \<Rightarrow> explorer_entity option" where
  "entity_of s = (if s = ''tx'' then Some EntityTx else if s = ''account'' then Some EntityAccount
     else if s = ''contract'' then Some EntityContract else if s = ''asset'' then Some EntityAsset else None)"

text \<open>
  The arguments as the callers pass them: texts, or \<open>None\<close> for \<open>undefined\<close>. A network or an entity that the tables do not have is
  \<open>undefined\<close>, and reading from it or calling it is a \<open>TypeError\<close>.
\<close>

definition getExplorerUrl :: "string option \<Rightarrow> string option \<Rightarrow> string option \<Rightarrow> explorer_provider \<Rightarrow> (service_error, string) res" where
  "getExplorerUrl entityType i network provider =
     (case (case network of Some n \<Rightarrow> network_of n | None \<Rightarrow> None) of
        None \<Rightarrow> Inl (PlainError (''Cannot read properties of undefined (reading '' @ [CHR 0x27] @ provider_name provider @ [CHR 0x27] @ '')''))
      | Some n \<Rightarrow>
          (case (case entityType of Some e \<Rightarrow> entity_of e | None \<Rightarrow> None) of
             None \<Rightarrow> Inl (PlainError ''config.paths[entityType] is not a function'')
           | Some e \<Rightarrow> Inr (explorer_base n provider @ ''/'' @ the entityType @ ''/'' @ (case i of Some t \<Rightarrow> t | None \<Rightarrow> ''undefined''))))"

definition getTxUrl :: "string \<Rightarrow> string option \<Rightarrow> (service_error, string) res" where
  "getTxUrl i network = getExplorerUrl (Some ''tx'') (Some i) network StellarExpert"

definition getContractUrl :: "string \<Rightarrow> string option \<Rightarrow> (service_error, string) res" where
  "getContractUrl i network = getExplorerUrl (Some ''contract'') (Some i) network StellarExpert"

section \<open>Texts\<close>

definition escape_char :: "char \<Rightarrow> string" where
  "escape_char c =
     (let n = (of_char c :: nat)
      in if n = 38 then ''&amp;'' else if n = 60 then ''&lt;'' else if n = 62 then ''&gt;'' else if n = 34 then ''&quot;''
         else if n = 39 then ''&#x27;'' else if n = 96 then ''&#x60;'' else [c])"

definition escapeHtml :: "string \<Rightarrow> string" where
  "escapeHtml s = concat (map escape_char s)"

definition maskEmail :: "string \<Rightarrow> string" where
  "maskEmail email = (if CHR ''@'' \<notin> set email then ''****'' else ''****'' @ dropWhile (\<lambda>c. c \<noteq> CHR ''@'') email)"

definition maskPhone :: "string \<Rightarrow> string" where
  "maskPhone phone = (if length phone \<le> 4 then ''****'' else ''****'' @ drop (length phone - 4) phone)"

definition maskDestination :: "string \<Rightarrow> string" where
  "maskDestination dest = (if CHR ''@'' \<in> set dest then maskEmail dest else maskPhone dest)"

text \<open>\<open>replace(new RegExp(p, "g"), ..)\<close> for a pattern without special characters.\<close>

function replace_all :: "string \<Rightarrow> string \<Rightarrow> string \<Rightarrow> string" where
  "replace_all p v s =
     (if p = [] \<or> s = [] then s
      else if starts_with s p then v @ replace_all p v (drop (length p) s) else hd s # replace_all p v (tl s))"
  by pat_completeness auto
termination
  by (relation "measure (\<lambda>(p, v, s). length s)") (auto simp: neq_Nil_conv)

text \<open>\<open>tmpl\<close> is the file, \<open>None\<close> when it cannot be read; the names of the variables are words.\<close>

definition renderTemplate :: "string option \<Rightarrow> (string, string) jsmap \<Rightarrow> string" where
  "renderTemplate tmpl vars =
     (case tmpl of
        None \<Rightarrow> (case jm_get vars ''message'' of Some m \<Rightarrow> m | None \<Rightarrow> [])
      | Some raw \<Rightarrow> foldl (\<lambda>html (k, v). replace_all (''{{'' @ k @ ''}}'') (escapeHtml v) html) raw vars)"

section \<open>Requests\<close>

datatype channel = Webhook | Email | Sms

record target =
  tgType :: channel
  tgDestination :: "string option"
  tgProvider :: "string option"

record payload =
  plSubject :: "string option"
  plMessage :: string
  plEvent :: "string option"
  plTokenAddress :: "string option"
  plTxHash :: "string option"
  plNetwork :: "string option"
  plTemplate :: "string option"
  plVars :: "(string, string) jsmap"

record result =
  rsChannel :: channel
  rsTarget :: target
  rsProvider :: string
  rsSuccess :: bool
  rsError :: "string option"

datatype provider_request =
  SendGridMail string string string string string string
| ApiMail string string string
| TwilioMessage string string string
| ApiMessage string string

record notify_env =
  neSendGridKey :: "string option"
  neFromEmail :: "string option"
  neEmailApiUrl :: "string option"
  neTwilioSid :: "string option"
  neTwilioToken :: "string option"
  neTwilioFrom :: "string option"
  neSmsApiUrl :: "string option"
  neMaxRetries :: int
  neWindowMs :: int
  neStellarNetwork :: "string option"

definition set_var :: "string option \<Rightarrow> bool" where
  "set_var v \<longleftrightarrow> (case v of Some s \<Rightarrow> s \<noteq> [] | None \<Rightarrow> False)"

definition isEmailEnabled :: "notify_env \<Rightarrow> bool" where
  "isEmailEnabled env \<longleftrightarrow> set_var (neSendGridKey env) \<or> set_var (neEmailApiUrl env)"

definition useTwilio :: "notify_env \<Rightarrow> bool" where
  "useTwilio env \<longleftrightarrow> set_var (neTwilioSid env) \<and> set_var (neTwilioToken env)"

definition isSmsEnabled :: "notify_env \<Rightarrow> bool" where
  "isSmsEnabled env \<longleftrightarrow> useTwilio env \<or> set_var (neSmsApiUrl env)"

text \<open>A provider answers with a status and the message of the body, or the request fails.\<close>

type_synonym 'w world = "'w \<times> (provider_request \<times> int option) list"
type_synonym 'w providers = "provider_request \<Rightarrow> 'w \<Rightarrow> 'w \<times> (string, int \<times> string) res"

definition attempt_of :: "string \<Rightarrow> (string, int \<times> string) res \<Rightarrow> attempt_result" where
  "attempt_of name answer =
     (case answer of
        Inl e \<Rightarrow> \<lparr>arSuccess = False, arStatusCode = None, arError = Some e\<rparr>
      | Inr (status, m) \<Rightarrow>
          let success = status \<ge> 200 \<and> status < 300
          in \<lparr>arSuccess = success, arStatusCode = Some status, arError = (if success then None else Some (name @ '' returned HTTP '' @ show_int status @ m))\<rparr>)"

definition request_once :: "'w providers \<Rightarrow> string \<Rightarrow> bool \<Rightarrow> provider_request \<Rightarrow> 'w world \<Rightarrow> 'w world \<times> attempt_result" where
  "request_once post name withBody req w =
     (case post req (fst w) of (w1, answer) \<Rightarrow>
        ((w1, snd w @ [(req, case answer of Inr (status, m) \<Rightarrow> Some status | Inl e \<Rightarrow> None)]),
         attempt_of name (case answer of Inr (status, m) \<Rightarrow> Inr (status, if withBody then '': '' @ m else []) | Inl e \<Rightarrow> Inl e)))"

definition or_else :: "string option \<Rightarrow> string \<Rightarrow> string" where
  "or_else v d = (case v of Some s \<Rightarrow> s | None \<Rightarrow> d)"

definition sendViaSendGrid :: "notify_env \<Rightarrow> 'w providers \<Rightarrow> string \<Rightarrow> string \<Rightarrow> string \<Rightarrow> string \<Rightarrow> 'w world \<Rightarrow> 'w world \<times> attempt_result" where
  "sendViaSendGrid env post dest subject textBody htmlBody =
     request_once post ''SendGrid'' False
       (SendGridMail (the (neSendGridKey env)) (or_else (neFromEmail env) ''noreply@nova-launch.app'') dest subject textBody htmlBody)"

definition sendViaEmailApi :: "'w providers \<Rightarrow> string \<Rightarrow> string \<Rightarrow> string \<Rightarrow> 'w world \<Rightarrow> 'w world \<times> attempt_result" where
  "sendViaEmailApi post dest subject b = request_once post ''Email API'' False (ApiMail dest subject b)"

definition sendViaTwilio :: "notify_env \<Rightarrow> 'w providers \<Rightarrow> string \<Rightarrow> string \<Rightarrow> 'w world \<Rightarrow> 'w world \<times> attempt_result" where
  "sendViaTwilio env post dest b = request_once post ''Twilio'' True (TwilioMessage dest (or_else (neTwilioFrom env) []) b)"

definition sendViaSmsApi :: "'w providers \<Rightarrow> string \<Rightarrow> string \<Rightarrow> 'w world \<Rightarrow> 'w world \<times> attempt_result" where
  "sendViaSmsApi post dest message = request_once post ''SMS API'' False (ApiMessage dest message)"

section \<open>The service\<close>

definition BREAKER_OPTIONS :: cb_options where
  "BREAKER_OPTIONS = \<lparr>failureThreshold = 5, successThreshold = 2, timeoutMs = 30000\<rparr>"

record notify_state =
  nsMailBreaker :: breaker
  nsSmsBreaker :: breaker
  nsLimits :: "(string, int) jsmap"

definition new_service :: notify_state where
  "new_service = \<lparr>nsMailBreaker = new_breaker, nsSmsBreaker = new_breaker, nsLimits = []\<rparr>"

definition limit_key :: "string \<Rightarrow> string \<Rightarrow> string" where
  "limit_key dest eventType = dest @ '':'' @ eventType"

definition isRateLimited :: "notify_env \<Rightarrow> int \<Rightarrow> string \<Rightarrow> string \<Rightarrow> (string, int) jsmap \<Rightarrow> bool" where
  "isRateLimited env now dest eventType limits =
     (case jm_get limits (limit_key dest eventType) of None \<Rightarrow> False | Some sent \<Rightarrow> now - sent < neWindowMs env)"

definition recordDelivery :: "int \<Rightarrow> string \<Rightarrow> string \<Rightarrow> (string, int) jsmap \<Rightarrow> (string, int) jsmap" where
  "recordDelivery now dest eventType limits = jm_set limits (limit_key dest eventType) now"

text \<open>The engine of retries with the options of this service, and the world's clock and delays.\<close>

definition retry_config_of :: "notify_env \<Rightarrow> webhook_retry_config" where
  "retry_config_of env = DEFAULT_RETRY_CONFIG\<lparr>wrMaxAttempts := neMaxRetries env, wrJitter := True\<rparr>"

definition runWithBreakerAndRetry ::
  "notify_env \<Rightarrow> ('w \<Rightarrow> int) \<Rightarrow> (int \<Rightarrow> 'w \<Rightarrow> 'w) \<Rightarrow> (int \<Rightarrow> real) \<Rightarrow> ('w world \<Rightarrow> 'w world \<times> attempt_result) \<Rightarrow> 'w world \<Rightarrow> breaker
     \<Rightarrow> 'w world \<times> breaker \<times> retry_outcome" where
  "runWithBreakerAndRetry env clock delay rnd attemptFn w b =
     (let fn = (\<lambda>w. case wr_execute (retry_config_of env) (\<lambda>n. attemptFn) (\<lambda>d w. (delay d (fst w), snd w)) rnd (clock \<circ> fst) w of
            (w1, outcome) \<Rightarrow> (w1, if roSuccess outcome then Inr outcome else Inl outcome));
          w1 = fst (fn w)
      in case cb_execute BREAKER_OPTIONS (clock (fst w)) (clock (fst w1)) fn (w, b) of
           ((w2, b2), Inr outcome) \<Rightarrow> (w2, b2, outcome)
         | ((w2, b2), Inl (FnError outcome)) \<Rightarrow> (w2, b2, outcome)
         | ((w2, b2), Inl CircuitBreakerOpenError) \<Rightarrow>
             (w2, b2, \<lparr>roSuccess = False, roAttempts = 0, roTotalDurationMs = 0, roLastStatusCode = None, roLastError = Some ''Circuit breaker is open. Service may be unavailable.''\<rparr>))"

definition result_of :: "target \<Rightarrow> string \<Rightarrow> bool \<Rightarrow> string option \<Rightarrow> result" where
  "result_of t provider ok err = \<lparr>rsChannel = tgType t, rsTarget = t, rsProvider = provider, rsSuccess = ok, rsError = err\<rparr>"

definition event_key :: "payload \<Rightarrow> string" where
  "event_key p = (case plEvent p of Some e \<Rightarrow> e | None \<Rightarrow> or_else (plSubject p) ''generic'')"

text \<open>The variables of a template: later sources replace the values of earlier ones in place.\<close>

definition template_vars :: "payload \<Rightarrow> (string, string) jsmap" where
  "template_vars p =
     foldl (\<lambda>m (k, v). jm_set m k v) []
       ([(''message'', plMessage p)] @ (case plTokenAddress p of Some a \<Rightarrow> if a = [] then [] else [(''tokenAddress'', a)] | None \<Rightarrow> []) @
        [(''unsubscribeUrl'', ''https://nova-launch.app/unsubscribe''), (''actionUrl'', ''https://nova-launch.app'')] @ plVars p)"

text \<open>
  The text of a mail, in the code's order: the links first. The base link is asked for with the network alone, as the only argument of
  \<open>getExplorerUrl\<close>, whose first parameter is the kind of entity.
\<close>

definition mail_html :: "notify_env \<Rightarrow> (string \<Rightarrow> string option) \<Rightarrow> payload \<Rightarrow> (service_error, string) res" where
  "mail_html env template p =
     (let network = (case plNetwork p of Some n \<Rightarrow> Some n | None \<Rightarrow> neStellarNetwork env); vars = template_vars p
      in case getExplorerUrl network None None StellarExpert of
           Inl e \<Rightarrow> Inl e
         | Inr base \<Rightarrow>
             let vars1 = jm_set vars ''explorerUrl'' base
             in (case (if set_var (plTokenAddress p) then map_sum id Some (getContractUrl (the (plTokenAddress p)) network) else Inr None) of
                   Inl e \<Rightarrow> Inl e
                 | Inr contract \<Rightarrow>
                     (case (if set_var (plTxHash p) then map_sum id Some (getTxUrl (the (plTxHash p)) network) else Inr None) of
                        Inl e \<Rightarrow> Inl e
                      | Inr tx \<Rightarrow>
                          let vars2 = (case contract of Some u \<Rightarrow> jm_set vars1 ''contractUrl'' u | None \<Rightarrow> vars1);
                              vars3 = (case tx of Some u \<Rightarrow> jm_set vars2 ''txUrl'' u | None \<Rightarrow> vars2)
                          in Inr (case plTemplate p of
                                    Some k \<Rightarrow> if k = [] then plMessage p else renderTemplate (template k) vars3
                                  | None \<Rightarrow> plMessage p))))"

record 'w notify_ctx =
  cxEnv :: notify_env
  cxPost :: "'w providers"
  cxClock :: "'w \<Rightarrow> int"
  cxDelay :: "int \<Rightarrow> 'w \<Rightarrow> 'w"
  cxRandom :: "int \<Rightarrow> real"
  cxTemplate :: "string \<Rightarrow> string option"
  cxWebhook :: "payload \<Rightarrow> 'w \<Rightarrow> (service_error, unit) res \<times> 'w"

text \<open>The guards that mails and text messages share; \<open>None\<close> lets the request through.\<close>

definition guard_of :: "'w notify_ctx \<Rightarrow> bool \<Rightarrow> string \<Rightarrow> string \<Rightarrow> string \<Rightarrow> target \<Rightarrow> payload \<Rightarrow> notify_state \<Rightarrow> 'w world \<Rightarrow> result option" where
  "guard_of cx enabled provider noDest disabled t p s w =
     (if \<not> set_var (tgDestination t) then Some (result_of t provider False (Some noDest))
      else if \<not> enabled then Some (result_of t provider False (Some disabled))
      else if isRateLimited (cxEnv cx) (cxClock cx (fst w)) (the (tgDestination t)) (event_key p) (nsLimits s)
      then Some (result_of t provider False (Some ''Rate limit exceeded -- notification suppressed''))
      else None)"

definition outcome_result :: "target \<Rightarrow> string \<Rightarrow> string \<Rightarrow> retry_outcome \<Rightarrow> result" where
  "outcome_result t provider unknown_error outcome =
     result_of t provider (roSuccess outcome) (if roSuccess outcome then None else Some (or_else (roLastError outcome) unknown_error))"

definition after_outcome :: "int \<Rightarrow> target \<Rightarrow> payload \<Rightarrow> retry_outcome \<Rightarrow> (string, int) jsmap \<Rightarrow> (string, int) jsmap" where
  "after_outcome now t p outcome limits = (if roSuccess outcome then recordDelivery now (the (tgDestination t)) (event_key p) limits else limits)"

definition sendEmailNotification ::
  "'w notify_ctx \<Rightarrow> target \<Rightarrow> payload \<Rightarrow> notify_state \<times> 'w world \<Rightarrow> (service_error, result) res \<times> notify_state \<times> 'w world" where
  "sendEmailNotification cx t p sw =
     (case sw of (s, w) \<Rightarrow>
        (case guard_of cx (isEmailEnabled (cxEnv cx)) ''email'' ''Email notifications require a destination email address'' ''Email channel is not configured'' t p s w of
           Some r \<Rightarrow> (Inr r, s, w)
         | None \<Rightarrow>
             (case mail_html (cxEnv cx) (cxTemplate cx) p of
                Inl e \<Rightarrow> (Inl e, s, w)
              | Inr html \<Rightarrow>
                  let useSendGrid = set_var (neSendGridKey (cxEnv cx)); dest = the (tgDestination t); subject = or_else (plSubject p) ''Nova Launch Notification''
                  in (case runWithBreakerAndRetry (cxEnv cx) (cxClock cx) (cxDelay cx) (cxRandom cx)
                             (if useSendGrid then sendViaSendGrid (cxEnv cx) (cxPost cx) dest subject (plMessage p) html
                              else sendViaEmailApi (cxPost cx) dest subject (plMessage p)) w (nsMailBreaker s) of
                        (w1, b1, outcome) \<Rightarrow>
                          (Inr (outcome_result t (if useSendGrid then ''sendgrid'' else ''email'') ''Unknown email error'' outcome),
                           s\<lparr>nsMailBreaker := b1, nsLimits := after_outcome (cxClock cx (fst w1)) t p outcome (nsLimits s)\<rparr>, w1)))))"

definition sendSmsNotification ::
  "'w notify_ctx \<Rightarrow> target \<Rightarrow> payload \<Rightarrow> notify_state \<times> 'w world \<Rightarrow> (service_error, result) res \<times> notify_state \<times> 'w world" where
  "sendSmsNotification cx t p sw =
     (case sw of (s, w) \<Rightarrow>
        (case guard_of cx (isSmsEnabled (cxEnv cx)) ''sms'' ''SMS notifications require a destination phone number'' ''SMS channel is not configured'' t p s w of
           Some r \<Rightarrow> (Inr r, s, w)
         | None \<Rightarrow>
             (case runWithBreakerAndRetry (cxEnv cx) (cxClock cx) (cxDelay cx) (cxRandom cx)
                     (if useTwilio (cxEnv cx) then sendViaTwilio (cxEnv cx) (cxPost cx) (the (tgDestination t)) (plMessage p)
                      else sendViaSmsApi (cxPost cx) (the (tgDestination t)) (plMessage p)) w (nsSmsBreaker s) of
                (w1, b1, outcome) \<Rightarrow>
                  (Inr (outcome_result t (if useTwilio (cxEnv cx) then ''twilio'' else ''sms'') ''Unknown SMS error'' outcome),
                   s\<lparr>nsSmsBreaker := b1, nsLimits := after_outcome (cxClock cx (fst w1)) t p outcome (nsLimits s)\<rparr>, w1))))"

definition sendWebhookNotification ::
  "'w notify_ctx \<Rightarrow> target \<Rightarrow> payload \<Rightarrow> notify_state \<times> 'w world \<Rightarrow> (service_error, result) res \<times> notify_state \<times> 'w world" where
  "sendWebhookNotification cx t p sw =
     (case sw of (s, w) \<Rightarrow>
        if \<not> set_var (plEvent p) then (Inr (result_of t ''webhook'' False (Some ''Webhook notifications require payload.event'')), s, w)
        else (case cxWebhook cx p (fst w) of
                (Inl e, w1) \<Rightarrow> (Inl e, s, w1, snd w)
              | (Inr _, w1) \<Rightarrow> (Inr (result_of t ''webhook'' True None), s, w1, snd w)))"

section \<open>Preferences\<close>

record preferences =
  pfEmail :: bool
  pfSms :: bool
  pfWebhook :: bool

definition DEFAULT_NOTIFICATION_PREFERENCES :: preferences where
  "DEFAULT_NOTIFICATION_PREFERENCES = \<lparr>pfEmail = True, pfSms = True, pfWebhook = True\<rparr>"

text \<open>The table by user; \<open>Inl\<close> when the query fails.\<close>

type_synonym preference_table = "(service_error, (string, preferences) jsmap) res"

definition getNotificationPreferences :: "preference_table \<Rightarrow> string \<Rightarrow> preferences" where
  "getNotificationPreferences db userId =
     (case db of
        Inl _ \<Rightarrow> DEFAULT_NOTIFICATION_PREFERENCES
      | Inr rows \<Rightarrow> (case jm_get rows userId of Some r \<Rightarrow> r | None \<Rightarrow> \<lparr>pfEmail = True, pfSms = True, pfWebhook = True\<rparr>))"

definition upsertNotificationPreferences :: "string \<Rightarrow> preferences \<Rightarrow> (string, preferences) jsmap \<Rightarrow> preferences \<times> (string, preferences) jsmap" where
  "upsertNotificationPreferences userId p rows = (p, jm_set rows userId p)"

definition isNotificationChannelEnabled :: "preferences \<Rightarrow> channel \<Rightarrow> bool" where
  "isNotificationChannelEnabled p c = (case c of Email \<Rightarrow> pfEmail p | Sms \<Rightarrow> pfSms p | Webhook \<Rightarrow> pfWebhook p)"

section \<open>Sending\<close>

definition handler_of :: "'w notify_ctx \<Rightarrow> channel \<Rightarrow> target \<Rightarrow> payload \<Rightarrow> notify_state \<times> 'w world \<Rightarrow> (service_error, result) res \<times> notify_state \<times> 'w world" where
  "handler_of cx c = (case c of Webhook \<Rightarrow> sendWebhookNotification cx | Email \<Rightarrow> sendEmailNotification cx | Sms \<Rightarrow> sendSmsNotification cx)"

definition error_message :: "service_error \<Rightarrow> string" where
  "error_message e = (case e of RangeError m \<Rightarrow> m | SyntaxError m \<Rightarrow> m | PlainError m \<Rightarrow> m | DatabaseError m \<Rightarrow> m)"

definition sendToTarget ::
  "'w notify_ctx \<Rightarrow> preference_table \<Rightarrow> string option \<Rightarrow> payload \<Rightarrow> target \<Rightarrow> notify_state \<times> 'w world \<Rightarrow> result \<times> notify_state \<times> 'w world" where
  "sendToTarget cx db userId p t sw =
     (if set_var userId \<and> \<not> isNotificationChannelEnabled (getNotificationPreferences db (the userId)) (tgType t)
      then (result_of t (or_else (tgProvider t) ''preference'') False (Some ''Notification channel disabled by user preference''), sw)
      else (case handler_of cx (tgType t) t p sw of
              (Inr r, sw1) \<Rightarrow> (r, sw1)
            | (Inl e, sw1) \<Rightarrow> (result_of t (or_else (tgProvider t) ''default'') False (Some (error_message e)), sw1)))"

fun send_all ::
  "'w notify_ctx \<Rightarrow> preference_table \<Rightarrow> string option \<Rightarrow> payload \<Rightarrow> target list \<Rightarrow> notify_state \<times> 'w world \<Rightarrow> result list \<times> notify_state \<times> 'w world" where
  "send_all cx db userId p [] sw = ([], sw)"
| "send_all cx db userId p (t # ts) sw =
     (case sendToTarget cx db userId p t sw of (r, sw1) \<Rightarrow> (case send_all cx db userId p ts sw1 of (rs, sw2) \<Rightarrow> (r # rs, sw2)))"

definition send ::
  "'w notify_ctx \<Rightarrow> preference_table \<Rightarrow> string option \<Rightarrow> payload \<Rightarrow> target list \<Rightarrow> notify_state \<times> 'w world
     \<Rightarrow> (service_error, result list) res \<times> notify_state \<times> 'w world" where
  "send cx db userId p targets sw =
     (if targets = [] then (Inl (PlainError ''Notification request requires at least one target''), sw)
      else if plMessage p = [] then (Inl (PlainError ''Notification payload.message is required''), sw)
      else (case send_all cx db userId p targets sw of (rs, sw1) \<Rightarrow> (Inr rs, sw1)))"

section \<open>Mails\<close>

lemma mail_html_fails: "\<exists>e. mail_html env template p = Inl (PlainError e)"
  by (simp add: mail_html_def Let_def getExplorerUrl_def)

text \<open>No mail is ever sent: building the links calls \<open>getExplorerUrl\<close> with the network as its only argument, which throws whatever the network is, so a
  notification by mail fails without asking a provider and without touching limits and breakers.\<close>

theorem no_mail_sent:
  "\<not> rsSuccess (fst (sendToTarget cx db userId p (t\<lparr>tgType := Email\<rparr>) sw)) \<and> snd (sendToTarget cx db userId p (t\<lparr>tgType := Email\<rparr>) sw) = sw"
  using mail_html_fails [of "cxEnv cx" "cxTemplate cx" p]
  by (auto simp: sendToTarget_def handler_of_def sendEmailNotification_def guard_of_def result_of_def split: prod.split)

section \<open>Text messages\<close>

lemma wr_loop_bound:
  assumes "\<And>n w. f (fst (attemptFn n w)) \<le> Suc (f w)" and "\<And>d w. f (delayFn d w) = f w"
  shows "f (fst (wr_loop config attemptFn delayFn rnd attempt lastR w)) \<le> f w + nat (wrMaxAttempts config + 1 - attempt)"
proof (induction "nat (wrMaxAttempts config + 1 - attempt)" arbitrary: attempt lastR w rule: less_induct)
  case less
  show ?case
  proof (cases "attempt \<le> wrMaxAttempts config")
    case True
    obtain w1 r where a: "attemptFn attempt w = (w1, r)" by fastforce
    define w2 where "w2 = (if attempt < wrMaxAttempts config then delayFn (computeDelay attempt config (rnd attempt)) w1 else w1)"
    have w2: "f w2 \<le> Suc (f w)" using assms(1) [of attempt w] a assms(2) by (simp add: w2_def)
    have n: "nat (wrMaxAttempts config + 1 - attempt) = Suc (nat (wrMaxAttempts config + 1 - (attempt + 1)))" using True by linarith
    have "f (fst (wr_loop config attemptFn delayFn rnd (attempt + 1) r w2)) \<le> f w2 + nat (wrMaxAttempts config + 1 - (attempt + 1))"
      by (rule less) (use n in linarith)
    then have later: "f (fst (wr_loop config attemptFn delayFn rnd (attempt + 1) r w2)) \<le> f w + nat (wrMaxAttempts config + 1 - attempt)"
      using w2 n by linarith
    have "f w1 \<le> f w + nat (wrMaxAttempts config + 1 - attempt)" using assms(1) [of attempt w] a n by simp
    then show ?thesis using True later by (subst wr_loop.simps) (simp add: a Let_def flip: w2_def)
  qed (simp add: wr_loop.simps)
qed

lemma wr_loop_ends:
  assumes "\<And>n w. arSuccess (snd (attemptFn n w)) \<Longrightarrow> Q (fst (attemptFn n w))"
  shows "wr_loop config attemptFn delayFn rnd attempt lastR w = (w', Some k, r) \<Longrightarrow> Q w'"
proof (induction "nat (wrMaxAttempts config + 1 - attempt)" arbitrary: attempt lastR w rule: less_induct)
  case less
  then have m: "attempt \<le> wrMaxAttempts config" by (auto simp: wr_loop.simps split: if_splits)
  obtain w1 r1 where a: "attemptFn attempt w = (w1, r1)" by fastforce
  show ?case
  proof (cases "arSuccess r1")
    case True
    then have "w' = w1" using less.prems m a by (simp add: wr_loop.simps)
    then show ?thesis using assms [of attempt w] True a by simp
  next
    case False
    then obtain w2 where "wr_loop config attemptFn delayFn rnd (attempt + 1) r1 w2 = (w', Some k, r)"
      using less.prems m a by (subst (asm) wr_loop.simps) (auto simp: Let_def split: if_splits)
    moreover have "nat (wrMaxAttempts config + 1 - (attempt + 1)) < nat (wrMaxAttempts config + 1 - attempt)" using m by linarith
    ultimately show ?thesis using less.hyps by blast
  qed
qed

lemma wr_loop_mono:
  assumes "\<And>n w. (c :: int) \<le> g w \<Longrightarrow> c \<le> g (fst (attemptFn n w))" and "\<And>d w. c \<le> g w \<Longrightarrow> c \<le> g (delayFn d w)"
  shows "c \<le> g w \<Longrightarrow> c \<le> g (fst (wr_loop config attemptFn delayFn rnd attempt lastR w))"
proof (induction "nat (wrMaxAttempts config + 1 - attempt)" arbitrary: attempt lastR w rule: less_induct)
  case less
  obtain w1 r where a: "attemptFn attempt w = (w1, r)" by fastforce
  have w1: "c \<le> g w1" using assms(1) [OF less.prems, of attempt] a by simp
  show ?case
  proof (cases "attempt \<le> wrMaxAttempts config")
    case True
    define w2 where "w2 = (if attempt < wrMaxAttempts config then delayFn (computeDelay attempt config (rnd attempt)) w1 else w1)"
    have "c \<le> g w2" using w1 assms(2) by (simp add: w2_def)
    then have "c \<le> g (fst (wr_loop config attemptFn delayFn rnd (attempt + 1) r w2))" using True by (intro less.hyps) auto
    then show ?thesis using True w1 by (subst wr_loop.simps) (simp add: a Let_def flip: w2_def)
  qed (use less.prems in \<open>simp add: wr_loop.simps\<close>)
qed

lemma wr_execute_loop:
  "fst (wr_execute config attemptFn delayFn rnd clock w) = fst (wr_loop config attemptFn delayFn rnd 1 \<lparr>arSuccess = False, arStatusCode = None, arError = Some ''No attempts made''\<rparr> w)"
  "roSuccess (snd (wr_execute config attemptFn delayFn rnd clock w)) \<longleftrightarrow>
    (\<exists>k. fst (snd (wr_loop config attemptFn delayFn rnd 1 \<lparr>arSuccess = False, arStatusCode = None, arError = Some ''No attempts made''\<rparr> w)) = Some k)"
  by (auto simp: wr_execute_def Let_def split: prod.split option.split)

lemma request_once_log: "length (snd (fst (request_once post name b req w))) = Suc (length (snd w))"
  by (simp add: request_once_def case_prod_beta)

lemma request_once_success:
  "arSuccess (snd (request_once post name b req w)) \<Longrightarrow>
    \<exists>status. snd (fst (request_once post name b req w)) \<noteq> [] \<and> last (snd (fst (request_once post name b req w))) = (req, Some status) \<and> 200 \<le> status \<and> status < 300"
  by (auto simp: request_once_def attempt_of_def Let_def case_prod_beta split: sum.splits)

lemma guarded_run:
  assumes "runWithBreakerAndRetry env clock delay rnd attemptFn w b = (w1, b1, outcome)"
  defines "run \<equiv> wr_execute (retry_config_of env) (\<lambda>n. attemptFn) (\<lambda>d w. (delay d (fst w), snd w)) rnd (clock \<circ> fst) w"
  shows "(w1 = w \<and> \<not> roSuccess outcome) \<or> (w1 = fst run \<and> outcome = snd run)"
proof -
  obtain wx ox where r: "wr_execute (retry_config_of env) (\<lambda>n. attemptFn) (\<lambda>d w. (delay d (fst w), snd w)) rnd (clock \<circ> fst) w = (wx, ox)" by fastforce
  show ?thesis
    using assms(1) unfolding runWithBreakerAndRetry_def cb_execute_def run_def r
    by (cases "cb_checkState BREAKER_OPTIONS (clock (fst w)) b"; cases "roSuccess ox") (auto simp: r Let_def)
qed

definition sms_attempt :: "'w notify_ctx \<Rightarrow> target \<Rightarrow> payload \<Rightarrow> 'w world \<Rightarrow> 'w world \<times> attempt_result" where
  "sms_attempt cx t p = (if useTwilio (cxEnv cx) then sendViaTwilio (cxEnv cx) (cxPost cx) (the (tgDestination t)) (plMessage p)
     else sendViaSmsApi (cxPost cx) (the (tgDestination t)) (plMessage p))"

definition sms_guard :: "'w notify_ctx \<Rightarrow> target \<Rightarrow> payload \<Rightarrow> notify_state \<Rightarrow> 'w world \<Rightarrow> result option" where
  "sms_guard cx t p s w = guard_of cx (isSmsEnabled (cxEnv cx)) ''sms'' ''SMS notifications require a destination phone number'' ''SMS channel is not configured'' t p s w"

text \<open>What a text message comes to: refused by a guard, failed fast, or the run of the engine.\<close>

lemma sms_cases:
  assumes "sendSmsNotification cx t p (s, w) = (x, s1, w1)"
  obtains r where "sms_guard cx t p s w = Some r" "x = Inr r" "\<not> rsSuccess r" "s1 = s" "w1 = w"
  | outcome b1 run where "sms_guard cx t p s w = None" "x = Inr (outcome_result t (if useTwilio (cxEnv cx) then ''twilio'' else ''sms'') ''Unknown SMS error'' outcome)"
      "run = wr_execute (retry_config_of (cxEnv cx)) (\<lambda>n. sms_attempt cx t p) (\<lambda>d w. (cxDelay cx d (fst w), snd w)) (cxRandom cx) (cxClock cx \<circ> fst) w"
      "(w1 = w \<and> \<not> roSuccess outcome) \<or> (w1 = fst run \<and> outcome = snd run)"
      "s1 = s\<lparr>nsSmsBreaker := b1, nsLimits := after_outcome (cxClock cx (fst w1)) t p outcome (nsLimits s)\<rparr>"
proof (cases "sms_guard cx t p s w")
  case (Some r)
  then have "\<not> rsSuccess r" by (auto simp: sms_guard_def guard_of_def result_of_def split: if_splits)
  then show thesis using that(1) [OF Some] assms Some unfolding sendSmsNotification_def sms_guard_def by simp
next
  case None
  obtain w2 b2 outcome where run: "runWithBreakerAndRetry (cxEnv cx) (cxClock cx) (cxDelay cx) (cxRandom cx) (sms_attempt cx t p) w (nsSmsBreaker s) = (w2, b2, outcome)"
    by (metis prod_cases3)
  have send: "sendSmsNotification cx t p (s, w) =
      (Inr (outcome_result t (if useTwilio (cxEnv cx) then ''twilio'' else ''sms'') ''Unknown SMS error'' outcome),
       s\<lparr>nsSmsBreaker := b2, nsLimits := after_outcome (cxClock cx (fst w2)) t p outcome (nsLimits s)\<rparr>, w2)"
    using None run unfolding sendSmsNotification_def sms_guard_def sms_attempt_def by (simp only: prod.case option.case)
  have "(Inr (outcome_result t (if useTwilio (cxEnv cx) then ''twilio'' else ''sms'') ''Unknown SMS error'' outcome),
       s\<lparr>nsSmsBreaker := b2, nsLimits := after_outcome (cxClock cx (fst w2)) t p outcome (nsLimits s)\<rparr>, w2) = (x, s1, w1)"
    by (rule trans [OF send [symmetric] assms])
  then have eqs: "Inr (outcome_result t (if useTwilio (cxEnv cx) then ''twilio'' else ''sms'') ''Unknown SMS error'' outcome) = x"
    "s\<lparr>nsSmsBreaker := b2, nsLimits := after_outcome (cxClock cx (fst w2)) t p outcome (nsLimits s)\<rparr> = s1" "w2 = w1"
    unfolding prod.inject by blast+
  show thesis
    by (rule that(2) [OF None eqs(1) [symmetric] refl guarded_run [OF run, unfolded eqs(3)] eqs(2) [unfolded eqs(3), symmetric]])
qed

lemma sms_attempt_cases:
  obtains name b req where "sms_attempt cx t p = request_once (cxPost cx) name b req"
    "req \<in> {TwilioMessage (the (tgDestination t)) (or_else (neTwilioFrom (cxEnv cx)) []) (plMessage p), ApiMessage (the (tgDestination t)) (plMessage p)}"
proof (cases "useTwilio (cxEnv cx)")
  case True
  have "sms_attempt cx t p = request_once (cxPost cx) ''Twilio'' True (TwilioMessage (the (tgDestination t)) (or_else (neTwilioFrom (cxEnv cx)) []) (plMessage p))"
    by (rule ext) (simp add: sms_attempt_def True sendViaTwilio_def)
  then show thesis by (rule that) simp
next
  case False
  have "sms_attempt cx t p = request_once (cxPost cx) ''SMS API'' False (ApiMessage (the (tgDestination t)) (plMessage p))"
    by (rule ext) (simp add: sms_attempt_def False sendViaSmsApi_def)
  then show thesis by (rule that) simp
qed

lemma sms_guard_passed: "sms_guard cx t p s w = None \<Longrightarrow> \<exists>dest. tgDestination t = Some dest \<and> \<not> isRateLimited (cxEnv cx) (cxClock cx (fst w)) dest (event_key p) (nsLimits s)"
  by (cases "tgDestination t") (simp_all add: sms_guard_def guard_of_def set_var_def split: if_splits)

text \<open>The engine sends one request at a time, and a success is that of the last one.\<close>

lemma run_of_requests:
  assumes "run = wr_execute config (\<lambda>n. request_once post name b req) (\<lambda>d w. (delay d (fst w), snd w)) rnd clock w"
  shows "length (snd (fst run)) \<le> length (snd w) + nat (wrMaxAttempts config)"
    and "roSuccess (snd run) \<Longrightarrow> \<exists>status. 200 \<le> status \<and> status < 300 \<and> last (snd (fst run)) = (req, Some status)"
proof -
  define loop where "loop = wr_loop config (\<lambda>n. request_once post name b req) (\<lambda>d w. (delay d (fst w), snd w)) rnd 1
    \<lparr>arSuccess = False, arStatusCode = None, arError = Some ''No attempts made''\<rparr> w"
  have run: "fst run = fst loop" "roSuccess (snd run) \<longleftrightarrow> (\<exists>k. fst (snd loop) = Some k)" unfolding assms loop_def by (rule wr_execute_loop)+
  have "length (snd (fst loop)) \<le> length (snd w) + nat (wrMaxAttempts config + 1 - 1)"
    unfolding loop_def by (rule wr_loop_bound [where f = "\<lambda>w. length (snd w)"]) (simp_all add: request_once_log)
  then show "length (snd (fst run)) \<le> length (snd w) + nat (wrMaxAttempts config)" by (simp add: run(1))
  show "\<exists>status. 200 \<le> status \<and> status < 300 \<and> last (snd (fst run)) = (req, Some status)" if "roSuccess (snd run)"
  proof -
    obtain k where "fst (snd loop) = Some k" using \<open>roSuccess (snd run)\<close> run(2) by blast
    then have "loop = (fst loop, Some k, snd (snd loop))" by (simp add: prod_eq_iff)
    then have "\<exists>status. 200 \<le> status \<and> status < 300 \<and> last (snd (fst loop)) = (req, Some status)"
      unfolding loop_def
      by (rule wr_loop_ends [where Q = "\<lambda>w. \<exists>status. 200 \<le> status \<and> status < 300 \<and> last (snd w) = (req, Some status)", rotated])
        (use request_once_success in blast)
    then show ?thesis unfolding run(1) .
  qed
qed

text \<open>C38: A text message asks its provider at most as often as the configured number of attempts, and is reported as sent only when the last request, to the
  named recipient, was answered with a status of success.\<close>

theorem sms_honest:
  assumes "sendSmsNotification cx t p (s, w) = (Inr r, s1, w1)"
  shows "length (snd w1) \<le> length (snd w) + nat (neMaxRetries (cxEnv cx)) \<and>
    (rsSuccess r \<longrightarrow> (\<exists>dest status. tgDestination t = Some dest \<and> 200 \<le> status \<and> status < 300 \<and>
       last (snd w1) \<in> {(TwilioMessage dest (or_else (neTwilioFrom (cxEnv cx)) []) (plMessage p), Some status), (ApiMessage dest (plMessage p), Some status)}))"
  using assms
proof (cases rule: sms_cases)
  case (1 r')
  then show ?thesis by simp
next
  case (2 outcome b1 run)
  obtain name b req where req: "sms_attempt cx t p = request_once (cxPost cx) name b req"
    "req \<in> {TwilioMessage (the (tgDestination t)) (or_else (neTwilioFrom (cxEnv cx)) []) (plMessage p), ApiMessage (the (tgDestination t)) (plMessage p)}"
    by (rule sms_attempt_cases)
  note run = run_of_requests [OF 2(3) [unfolded req(1)]]
  have max: "wrMaxAttempts (retry_config_of (cxEnv cx)) = neMaxRetries (cxEnv cx)" by (simp add: retry_config_of_def)
  have len: "length (snd w1) \<le> length (snd w) + nat (neMaxRetries (cxEnv cx))"
    using 2(4) run(1) unfolding max by (elim disjE conjE) (simp_all only: le_add1)
  obtain dest where dest: "tgDestination t = Some dest" using sms_guard_passed [OF 2(1)] by blast
  have "\<exists>status. 200 \<le> status \<and> status < 300 \<and> last (snd w1) = (req, Some status)" if r: "rsSuccess r"
  proof -
    have ok: "roSuccess outcome" using r 2(2) by (simp add: outcome_result_def result_of_def)
    then have w1: "w1 = fst run" "outcome = snd run" using 2(4) by blast+
    show ?thesis using run(2) ok unfolding w1 by blast
  qed
  then show ?thesis using len dest req(2) by auto
qed

text \<open>A provider that answers every request with 201, a clock that stands still.\<close>

definition answering :: "unit notify_ctx" where
  "answering = \<lparr>cxEnv = \<lparr>neSendGridKey = None, neFromEmail = None, neEmailApiUrl = None, neTwilioSid = Some ''sid'', neTwilioToken = Some ''token'',
       neTwilioFrom = Some ''+15550'', neSmsApiUrl = None, neMaxRetries = 3, neWindowMs = 60000, neStellarNetwork = None\<rparr>,
     cxPost = (\<lambda>req w. (w, Inr (201, []))), cxClock = (\<lambda>w. 7), cxDelay = (\<lambda>d w. w), cxRandom = (\<lambda>n. 0), cxTemplate = (\<lambda>k. None),
     cxWebhook = (\<lambda>p w. (Inr (), w))\<rparr>"

definition phone :: target where
  "phone = \<lparr>tgType = Sms, tgDestination = Some ''+1'', tgProvider = None\<rparr>"

definition hello :: payload where
  "hello = \<lparr>plSubject = None, plMessage = ''hello'', plEvent = Some ''created'', plTokenAddress = None, plTxHash = None, plNetwork = None, plTemplate = None, plVars = []\<rparr>"

definition hello_sent :: notify_state where
  "hello_sent = new_service\<lparr>nsLimits := [(''+1:created'', 7)]\<rparr>"

lemma hello_is_sent:
  "sendSmsNotification answering phone hello (new_service, (), []) =
     (Inr (result_of phone ''twilio'' True None), hello_sent, (), [(TwilioMessage ''+1'' ''+15550'' ''hello'', Some 201)])"
  by (simp add: sendSmsNotification_def guard_of_def answering_def phone_def hello_def hello_sent_def new_service_def set_var_def isSmsEnabled_def useTwilio_def
      isRateLimited_def runWithBreakerAndRetry_def cb_execute_def new_breaker_def BREAKER_OPTIONS_def cb_checkState_def cb_onSuccess_def wr_execute_def
      wr_loop.simps sendViaTwilio_def request_once_def attempt_of_def retry_config_of_def DEFAULT_RETRY_CONFIG_def or_else_def event_key_def
      outcome_result_def after_outcome_def recordDelivery_def limit_key_def result_of_def jm_set_def)

theorem sms_honest_witness:
  "sendSmsNotification answering phone hello (new_service, (), []) =
     (Inr (result_of phone ''twilio'' True None), hello_sent, (), [(TwilioMessage ''+1'' ''+15550'' ''hello'', Some 201)]) \<and>
   length [(TwilioMessage ''+1'' ''+15550'' ''hello'', Some (201 :: int))] \<le> 3"
  using hello_is_sent sms_honest [OF hello_is_sent] by (simp add: answering_def)

text \<open>After a text message that was reported as sent, another to the same number for the same event is refused, without a request and with the service as
  it was, until the window since the end of the first has passed.\<close>

theorem sms_rate_limited:
  assumes "sendSmsNotification cx t p (s, w) = (Inr r, s1, w1)" and "rsSuccess r"
    and "tgDestination t' = tgDestination t" and "event_key p' = event_key p" and "cxClock cx (fst w') - cxClock cx (fst w1) < neWindowMs (cxEnv cx)"
  shows "sendSmsNotification cx t' p' (s1, w') = (Inr (result_of t' ''sms'' False (Some ''Rate limit exceeded -- notification suppressed'')), s1, w')"
  using assms(1)
proof (cases rule: sms_cases)
  case (1 r')
  then show ?thesis using assms(2) by simp
next
  case (2 outcome b1 run)
  have ok: "roSuccess outcome" using assms(2) 2(2) by (simp add: outcome_result_def result_of_def)
  have "set_var (tgDestination t)" "isSmsEnabled (cxEnv cx)" using 2(1) by (simp_all add: sms_guard_def guard_of_def split: if_splits)
  moreover have "isRateLimited (cxEnv cx) (cxClock cx (fst w')) (the (tgDestination t)) (event_key p) (nsLimits s1)"
    using assms(5) ok by (simp add: 2(5) isRateLimited_def after_outcome_def recordDelivery_def)
  ultimately show ?thesis by (simp add: sendSmsNotification_def guard_of_def assms(3,4))
qed

theorem sms_rate_limited_witness:
  "sendSmsNotification answering phone (hello\<lparr>plMessage := ''again''\<rparr>) (hello_sent, (), []) =
     (Inr (result_of phone ''sms'' False (Some ''Rate limit exceeded -- notification suppressed'')), hello_sent, (), [])"
  by (rule sms_rate_limited [OF hello_is_sent]) (simp_all add: result_of_def event_key_def hello_def answering_def)

section \<open>Escaping\<close>

lemma escape_char_safe: "set (escape_char c) \<inter> {CHR ''<'', CHR ''>'', CHR ''\"'', CHR 0x27, CHR 0x60} = {}"
  by (auto simp: escape_char_def Let_def split: if_splits)

text \<open>Escaped text has none of the characters that open a tag or end an attribute, whatever the text.\<close>

theorem escaped_text_safe: "set (escapeHtml s) \<inter> {CHR ''<'', CHR ''>'', CHR ''\"'', CHR 0x27, CHR 0x60} = {}"
  unfolding escapeHtml_def using escape_char_safe by (induction s) auto

end
