(* ===== verification/Spec2Isabelle.thy ===== *)
theory Spec2Isabelle
  imports Circuit_Breaker Retry_Backoff Token_Buckets Sequence_Cache Delivery_Guards Contract_Address Job_Queue Event_Bus Decoder_Registry Event_Sourcing Pagination Leader_Election Saga_Coordinator Batch_Deploy Migration_Orchestrator Step_Lock Auth_Sessions Api_Keys Dividends Rollout Token_Projection Governance_Projection Stream_Projection Event_Listener Event_Replay Chain_Verifier Leaderboard Webhook_Delivery Http_Idempotency Free_Text Notifications
begin

text \<open>
  Nova Launch: a platform on the Stellar network to launch tokens, with streams, vaults, dividends, governance and
  campaigns. Smart contracts emit events; the TypeScript backend ingests them into a database, offers them through REST
  and GraphQL, and notifies subscribers by webhooks. This library models the core of that backend, \<open>src/backend/src\<close>,
  and proves what makes it correct. Paths below are relative to that directory.

  \<^bold>\<open>The parts and how they interact.\<close> One elected instance polls Horizon (\<open>Leader_Election\<close>, \<open>Event_Listener\<close>) and dispatches
  each contract event to the projections (\<open>Token_Projection\<close>, \<open>Governance_Projection\<close>, \<open>Stream_Projection\<close>, \<open>Dividends\<close>),
  whose events are normalised first (\<open>Decoder_Registry\<close>); its cursor moves with the ledger sequence as a fencing token, and
  its lag is measured (\<open>Listener_Lag\<close>). Projections are captured and rebuilt from the log (\<open>Projection_Snapshot\<close>,
  \<open>Event_Replay\<close>) and compared with the chain (\<open>Chain_Verifier\<close>); addresses of contracts are checked before use (\<open>Contract_Address\<close>). Webhooks then go out (\<open>Webhook_Store\<close>, \<open>Webhook_Security\<close>, \<open>Webhook_Delivery\<close>) through rate
  limits (\<open>Token_Buckets\<close>), a circuit breaker (\<open>Circuit_Breaker\<close>) and at-most-once guards (\<open>Delivery_Guards\<close>). Calls to
  Stellar retry with back-off (\<open>Retry_Backoff\<close>) and take sequence numbers from a locked cache (\<open>Sequence_Cache\<close>). Longer
  operations run as sagas (\<open>Saga_Coordinator\<close>, \<open>Batch_Deploy\<close>), as jobs (\<open>Job_Queue\<close>) or as campaign steps under a lock
  (\<open>Step_Lock\<close>). Clients authenticate with their wallets (\<open>Auth_Sessions\<close>) or with keys (\<open>Api_Keys\<close>), read in pages (\<open>Pagination\<close>) and see features by
  rollout (\<open>Rollout\<close>); requests pass the rate limits, the idempotency keys and the cleaning of free
  text of the middleware (\<open>Http_Rate_Limit\<close>, \<open>Http_Idempotency\<close>, \<open>Free_Text\<close>). Users are notified by mail and text message (\<open>Notifications\<close>).
  \<open>Event_Bus\<close> and \<open>Event_Sourcing\<close> are the in-process bus and event log; \<open>Migration_Orchestrator\<close> moves a table to
  a new schema while it is in use.

  \<^bold>\<open>Theories, sources and what the lemmas show.\<close>
  \<^item> \<open>Prelude\<close>, \<open>JS_Value\<close>: results, the ordered \<open>Map\<close>, decimal texts, BigInt conversion; dynamically typed values with the
    coercions the code uses, and \<open>JSON.stringify\<close>.
  \<^item> \<open>Redis_Store\<close>: Redis as a record of commands with their laws, and an instance that shows the laws can hold.
  \<^item> \<open>Circuit_Breaker\<close> (\<open>lib/circuitBreaker.ts\<close>): the invariant of every interleaving of overlapping calls, rejection exactly
    while open, tripping and recovery at the thresholds.
  \<^item> \<open>Retry_Backoff\<close> (\<open>stellar-service-integration/rate-limiter.ts\<close>, \<open>services/listenerBackoff.ts\<close>, \<open>services/webhookRetry.ts\<close>):
    the window bound, delay bounds, where retries stop.
  \<^item> \<open>Token_Buckets\<close> (\<open>stellar-service-integration/retry-budget.ts\<close>, \<open>services/tenantWebhookRateLimiter.ts\<close>): one locale of token
    buckets, interpreted on both; rate bounds, first come first served, no waiting delivery dropped, which failures are retried.
  \<^item> \<open>Sequence_Cache\<close> (\<open>stellar-service-integration/sequence-number-cache.ts\<close>): exclusive account locks, released on
    every path, consecutive numbers, recovery from a stale one.
  \<^item> \<open>Delivery_Guards\<close> (\<open>lib/fencingToken.ts\<close>, \<open>services/webhookDeduplication.ts\<close>): a locale of guards; exactly once per id.
  \<^item> \<open>Job_Queue\<close> (\<open>services/jobQueue.ts\<close>): no job is lost or doubled, limits, selection, retries.
  \<^item> \<open>Event_Bus\<close>, \<open>Event_Sourcing\<close>, \<open>Decoder_Registry\<close> (\<open>services/eventBus.ts\<close>, \<open>services/eventSourcing.ts\<close>,
    \<open>services/eventVersioning/decoderRegistry.ts\<close>): isolation of failing handlers and the bounded history; rebuilding from a
    snapshot equals replaying the log; decoding follows the table.
  \<^item> \<open>Pagination\<close> (\<open>lib/pagination.ts\<close>, \<open>graphql/connection.ts\<close>): following the cursors yields every item once, in order.
  \<^item> \<open>Leader_Election\<close>, \<open>Step_Lock\<close> (\<open>lib/leaderElection.ts\<close>, \<open>lib/lock.ts\<close>): at most one valid fencing token, take-over by a
    standby; exclusive locks.
  \<^item> \<open>Saga_Coordinator\<close>, \<open>Batch_Deploy\<close> (\<open>services/sagaCoordinator.ts\<close>, \<open>services/batchTokenDeployService.ts\<close>,
    \<open>services/sagas/\<close>): all or nothing, safety under crashes at every write, recovery; the atomic deployment of a batch.
  \<^item> \<open>Migration_Orchestrator\<close> (\<open>services/migrationOrchestrator.ts\<close>): the shadow table refines the old one and a cut-over needs parity.
  \<^item> \<open>Auth_Sessions\<close> (\<open>auth/\<close>): nonces and refresh tokens are used once.
  \<^item> \<open>Api_Keys\<close> (\<open>auth/apiKey.ts\<close>, \<open>services/apiKeyRotationService.ts\<close>, \<open>routes/admin/apiKeys.ts\<close>): the stored hashes refine what
    each key promises its owner, revocation is final, a rotation hands out a key that works.
  \<^item> \<open>Dividends\<close>, \<open>Token_Projection\<close>, \<open>Governance_Projection\<close>, \<open>Stream_Projection\<close> (\<open>services/dividendService.ts\<close>,
    \<open>services/tokenEventParser.ts\<close>, \<open>services/governanceEventMapper.ts\<close>, \<open>services/governanceEventParser.ts\<close>,
    \<open>services/streamEventParser.ts\<close>, \<open>services/streamProjectionService.ts\<close>, \<open>services/vaultEventParser.ts\<close>): every claim, burn and vote
    is counted once whatever is replayed, supplies are conserved, terms do not change.
  \<^item> \<open>Listener_Lag\<close>, \<open>Event_Listener\<close> (\<open>monitoring/metrics/\<close>, \<open>lib/metrics/listenerLagMetrics.ts\<close>, \<open>services/eventCursorStore.ts\<close>,
    \<open>services/stellarEventListener.ts\<close>): alert thresholds; polling in batches equals one pass over the log, and no event is skipped
    when leaders change.
  \<^item> \<open>Projection_Snapshot\<close>, \<open>Event_Replay\<close> (\<open>services/projectionSnapshot.ts\<close>, \<open>services/eventReplayService.ts\<close>,
    \<open>services/projectionSnapshotJob.ts\<close>, \<open>services/projectionConsistencyCheck.ts\<close>): a captured set restores the tables; a replay equals
    one pass over the log behind its cursor, ends, and what it does and does not rebuild.
  \<^item> \<open>Chain_Verifier\<close> (\<open>services/consistency/onchainProjectionVerifier.ts\<close>): the vaults folded from the pages of events are what
    one pass over the log makes of them, the checks report nothing exactly when both sides agree, and a reconciliation settles
    the token, but only from one page of burns.
  \<^item> \<open>Leaderboard\<close> (\<open>services/leaderboardService.ts\<close>, \<open>lib/leaderboardSortedSetCache.ts\<close>): the scores that events accumulate equal a
    recomputation, what the cache of responses serves, and how a set that is cold or warmed by one page goes wrong.
  \<^item> \<open>Contract_Address\<close> (\<open>lib/contractAddressValidator.ts\<close>): the base-32 decoder of 32-bit steps computes the number that the text
    writes, addresses round-trip, and a single mistyped character is refused.
  \<^item> \<open>Webhook_Security\<close>, \<open>Webhook_Store\<close>, \<open>Webhook_Delivery\<close> (\<open>utils/crypto.ts\<close>, \<open>utils/headerEncryption.ts\<close>, \<open>utils/globMatch.ts\<close>,
    \<open>services/webhook*.ts\<close>, \<open>lib/WorkerPool.ts\<close>, \<open>routes/webhooks-deadletter.ts\<close>): signatures, headers that survive storage, who is
    notified, consistent tables, bounded attempts, and the record every delivery leaves.
  \<^item> \<open>Http_Rate_Limit\<close>, \<open>Http_Idempotency\<close>, \<open>Json_Text\<close> (\<open>middleware/rateLimiter.ts\<close>, \<open>middleware/idempotency.ts\<close>): what a window admits,
    failing open and closed; creation requests are idempotent with either store; what \<open>JSON.stringify\<close> prints, \<open>JSON.parse\<close> reads back.
  \<^item> \<open>Free_Text\<close> (\<open>middleware/freeTextSanitization.ts\<close>): the free text of a body that passes is clean and stays as it is.
  \<^item> \<open>Notifications\<close> (\<open>services/notificationService.ts\<close>, \<open>services/notificationPreferences.ts\<close>, \<open>config/explorer.ts\<close>): how often a text
    message is tried and when it is reported as sent, the limit per recipient and event, and that no mail ever goes out.
  \<^item> \<open>Rollout\<close> (\<open>services/rolloutStrategy.ts\<close>): buckets computed as the 32-bit arithmetic of the code does, and monotone percentages.

  \<^bold>\<open>How the code is modelled.\<close> A class is a record of its fields, an enum or union a datatype, a method a function from the
  state and its arguments to the new state and a result. A thrown error is \<open>Inl\<close>. Clock readings, random numbers and generated ids
  are arguments. A JavaScript number that the code uses as a counter, a size or a time is an \<open>int\<close> below 2 ^ 53; fractional values
  are \<open>real\<close>; bitwise arithmetic and BigInt columns have their width written out. Strings are ASCII, but in \<open>Free_Text\<close>, which has code units. A \<open>Map\<close> is an association list in
  insertion order. The code between two \<open>await\<close>s is one step: where requests overlap, an operation is split there, and a step
  relation or a list of events interleaves the parts. SQL and Prisma statements are functions on lists of rows with the unique indexes
  and checks of the schema; a failing call is a flag or a fault argument. Redis, the SDK, JWT, HMAC, AES-GCM and the HTTP client are
  parameters, with what the code relies on as named laws and an instance of each. Loops end by a measure on what they consume:
  attempts left, rows or events left, text left. Only the walk through the pages of a list and the replay of a log have fuel, and more
  fuel than rows or events is proved to be enough.

  \<^bold>\<open>Not modelled.\<close> The smart contracts, in Rust. The frontend, whose logic is presentation and calls to this backend. Express and Nest
  wiring, route handlers that only validate and call a service, OpenAPI and GraphQL schemas, configuration, logging, metrics and tracing.
  Analytics and search queries, which are SQL. IPFS pinning; the providers of mail and text messages are parameters. Deployment, infrastructure and monitoring
  scripts, load tests and end-to-end tests.

  \<^bold>\<open>Plan.\<close> Left open: the schema validation of events, the gateway, and the transaction monitoring of the frontend.
\<close>

end
